(* ===== verification/Esp_Prelude.thy ===== *)
theory Esp_Prelude
  imports Complex_Main "HOL-Library.Multiset" "HOL-Library.Monad_Syntax"
begin

text \<open>
  Shared vocabulary of the development.

  \<^item> Machine integers.  \<^verbatim>\<open>src/src/include/esconfig.hpp\<close> fixes \<^verbatim>\<open>typedef int longint\<close>, a
    32-bit \<^verbatim>\<open>int\<close>.  Values are modelled as \<open>int\<close>; where the code can leave the 32-bit
    range the operation is \<open>option\<close>-valued and \<open>None\<close> stands for the undefined behaviour
    of C++ (a signed overflow, or a cast of a \<^verbatim>\<open>double\<close> that does not fit).
  \<^item> \<^verbatim>\<open>double\<close> values are modelled as exact \<open>real\<close> numbers (no rounding, no NaN, no
    infinity).
  \<^item> C++ casts, roundings and truncating division.
  \<^item> \<^verbatim>\<open>boost::unordered_multimap\<close> as an association list in traversal order.
  \<^item> General lemmas on lists and multisets that several components share.
\<close>

named_theorems esp_defs \<open>small definitions unfolded by the component proofs\<close>

section \<open>Integers of fixed width\<close>

type_synonym longint = int
type_synonym pid = int

definition INT_MAX :: int where
  "INT_MAX = 2147483647"

definition INT_MIN :: int where
  "INT_MIN = - 2147483648"

definition fits_int :: "int \<Rightarrow> bool" where
  "fits_int x \<longleftrightarrow> INT_MIN \<le> x \<and> x \<le> INT_MAX"

definition add_int :: "int \<Rightarrow> int \<Rightarrow> int option" where
  "add_int a b = (if fits_int (a + b) then Some (a + b) else None)"

text \<open>\<^verbatim>\<open>static_cast<int>(x)\<close> truncates towards zero.\<close>

definition trunc_real :: "real \<Rightarrow> int" where
  "trunc_real x = (if 0 \<le> x then \<lfloor>x\<rfloor> else \<lceil>x\<rceil>)"

definition cast_int :: "real \<Rightarrow> int option" where
  "cast_int x = (let t = trunc_real x in if fits_int t then Some t else None)"

text \<open>C's \<^verbatim>\<open>round\<close>: to the nearest integer, halves away from zero.\<close>

definition c_round :: "real \<Rightarrow> int" where
  "c_round x = (if 0 \<le> x then \<lfloor>x + 1/2\<rfloor> else \<lceil>x - 1/2\<rceil>)"

text \<open>C's \<^verbatim>\<open>/\<close> and \<^verbatim>\<open>%\<close> on \<^verbatim>\<open>int\<close> truncate towards zero.\<close>

definition c_div :: "int \<Rightarrow> int \<Rightarrow> int" where
  "c_div a b = sgn a * sgn b * (\<bar>a\<bar> div \<bar>b\<bar>)"

definition c_mod :: "int \<Rightarrow> int \<Rightarrow> int" where
  "c_mod a b = a - b * c_div a b"

text \<open>\<^verbatim>\<open>ROUND_ERROR_PREC\<close> is the machine epsilon of \<^verbatim>\<open>double\<close>, \<open>2\<^sup>-\<^sup>5\<^sup>2\<close>.\<close>

definition ROUND_ERROR_PREC :: real where
  "ROUND_ERROR_PREC = 1 / 2 ^ 52"

lemma ROUND_ERROR_PREC_pos [simp]: "0 < ROUND_ERROR_PREC"
  by (simp add: ROUND_ERROR_PREC_def)

lemma fits_intI [intro]: "0 \<le> x \<Longrightarrow> x \<le> INT_MAX \<Longrightarrow> fits_int x"
  by (simp add: fits_int_def INT_MIN_def)

lemma fits_int_0 [simp]: "fits_int 0"
  by (simp add: fits_int_def INT_MIN_def INT_MAX_def)

lemma fits_int_half: "0 \<le> x \<Longrightarrow> 2 * x \<le> INT_MAX \<Longrightarrow> fits_int x \<and> fits_int (2 * x)"
  by (simp add: fits_int_def INT_MIN_def INT_MAX_def)

lemma fits_int_add_30:
  "- (2^30) \<le> k \<Longrightarrow> k \<le> 2^30 \<Longrightarrow> \<bar>m\<bar> < 2^30 \<Longrightarrow> fits_int k \<and> fits_int (m + k)"
  by (auto simp: fits_int_def INT_MIN_def INT_MAX_def)

lemma add_int_Some [simp]: "add_int a b = Some c \<longleftrightarrow> c = a + b \<and> fits_int (a + b)"
  by (auto simp: add_int_def)

lemma cast_int_Some: "cast_int x = Some t \<longleftrightarrow> t = trunc_real x \<and> fits_int t"
  by (auto simp: cast_int_def Let_def)

lemma trunc_real_nonneg: "0 \<le> x \<Longrightarrow> 0 \<le> trunc_real x"
  by (simp add: trunc_real_def)

lemma trunc_real_le: "0 \<le> x \<Longrightarrow> of_int (trunc_real x) \<le> x"
  by (simp add: trunc_real_def)

lemma trunc_real_less:
  assumes "x < of_int n" and "0 < n"
  shows "trunc_real x < n"
proof (cases "0 \<le> x")
  case True
  with assms show ?thesis by (simp add: trunc_real_def floor_less_iff)
next
  case False
  then have "\<lceil>x\<rceil> < n" using assms(2) by linarith
  with False show ?thesis by (simp add: trunc_real_def)
qed

lemma trunc_real_ge: "of_int n \<le> x \<Longrightarrow> 0 \<le> n \<Longrightarrow> n \<le> trunc_real x"
  by (auto simp: trunc_real_def le_floor_iff)

lemma trunc_real_neg_iff: "trunc_real x < 0 \<longleftrightarrow> x \<le> - 1"
proof (cases "0 \<le> x")
  case True
  then show ?thesis by (simp add: trunc_real_def not_less)
next
  case False
  have "\<lceil>x\<rceil> < 0 \<longleftrightarrow> x \<le> - 1" by linarith
  with False show ?thesis by (simp add: trunc_real_def)
qed

lemma c_div_nonneg: "0 \<le> a \<Longrightarrow> 0 < b \<Longrightarrow> c_div a b = a div b"
  by (cases "a = 0") (auto simp: c_div_def)

lemma c_mod_nonneg: "0 \<le> a \<Longrightarrow> 0 < b \<Longrightarrow> c_mod a b = a mod b"
  by (simp add: c_mod_def c_div_nonneg minus_mult_div_eq_mod)

lemma int_div_less:
  fixes i b c :: int
  assumes "0 < b" and "i < b * c"
  shows "i div b < c"
proof (rule ccontr)
  assume "\<not> i div b < c"
  then have "b * c \<le> b * (i div b)" using assms(1) by simp
  also have "\<dots> \<le> i"
    using mult_div_mod_eq [of b i] pos_mod_sign [OF assms(1), of i] by linarith
  finally show False using assms(2) by simp
qed

text \<open>The rounding error of \<^verbatim>\<open>round\<close> is at most one half, on either side.\<close>

lemma c_round_bound: "\<bar>x - of_int (c_round x)\<bar> \<le> 1/2"
proof (cases "0 \<le> x")
  case True
  then have eq: "c_round x = \<lfloor>x + 1/2\<rfloor>" by (simp add: c_round_def)
  show ?thesis unfolding eq abs_le_iff by (intro conjI) linarith+
next
  case False
  then have eq: "c_round x = \<lceil>x - 1/2\<rceil>" by (simp add: c_round_def)
  show ?thesis unfolding eq abs_le_iff by (intro conjI) linarith+
qed

section \<open>Hash multimaps\<close>

text \<open>
  A \<^verbatim>\<open>boost::unordered_multimap<K, V>\<close> as the list of its entries in traversal order.
  Entries with equal keys are adjacent (\<open>mm_grouped\<close>), which is the layout the hash table
  keeps.  \<open>mm_insert\<close> puts a new entry at the end of its key's group and a new key at the
  end of the list: one of the traversal orders the library may choose.  The theorems of the
  development speak of the multiset of entries, of groups and of counts, so they do not
  depend on that choice.
\<close>

type_synonym ('k, 'v) multimap = "('k \<times> 'v) list"

definition mm_range :: "'k \<Rightarrow> ('k, 'v) multimap \<Rightarrow> 'v list" where
  "mm_range k m = map snd (filter (\<lambda>e. fst e = k) m)"

definition mm_count :: "'k \<Rightarrow> ('k, 'v) multimap \<Rightarrow> nat" where
  "mm_count k m = length (mm_range k m)"

definition mm_erase_key :: "'k \<Rightarrow> ('k, 'v) multimap \<Rightarrow> ('k, 'v) multimap" where
  "mm_erase_key k m = filter (\<lambda>e. fst e \<noteq> k) m"

definition mm_insert :: "'k \<Rightarrow> 'v \<Rightarrow> ('k, 'v) multimap \<Rightarrow> ('k, 'v) multimap" where
  "mm_insert k v m =
     (if k \<in> fst ` set m
      then takeWhile (\<lambda>e. fst e \<noteq> k) m @ map (Pair k) (mm_range k m) @ [(k, v)]
           @ filter (\<lambda>e. fst e \<noteq> k) (dropWhile (\<lambda>e. fst e \<noteq> k) m)
      else m @ [(k, v)])"

text \<open>Erase the entries of key \<open>k\<close> whose value satisfies \<open>P\<close>.\<close>

definition mm_erase_if :: "'k \<Rightarrow> ('v \<Rightarrow> bool) \<Rightarrow> ('k, 'v) multimap \<Rightarrow> ('k, 'v) multimap" where
  "mm_erase_if k P m = filter (\<lambda>e. \<not> (fst e = k \<and> P (snd e))) m"

text \<open>Erase the first \<open>n\<close> entries of key \<open>k\<close>.\<close>

fun mm_erase_first :: "'k \<Rightarrow> nat \<Rightarrow> ('k, 'v) multimap \<Rightarrow> ('k, 'v) multimap" where
  "mm_erase_first k n [] = []"
| "mm_erase_first k n (e # m) =
     (if fst e = k \<and> 0 < n then mm_erase_first k (n - 1) m
      else e # mm_erase_first k n m)"

lemma mset_filter_split:
  "mset (filter P xs) + mset (filter (\<lambda>x. \<not> P x) xs) = mset xs"
  by (induction xs) auto

lemma filter_dropWhile_takeWhile:
  "takeWhile P xs @ filter P (dropWhile P xs) = filter P xs"
  by (induction xs) auto

lemma mm_range_pairs: "map (Pair k) (mm_range k m) = filter (\<lambda>e. fst e = k) m"
  by (induction m) (auto simp: mm_range_def)

lemma mset_mm_insert [simp]: "mset (mm_insert k v m) = add_mset (k, v) (mset m)"
proof (cases "k \<in> fst ` set m")
  case True
  let ?tw = "takeWhile (\<lambda>e. fst e \<noteq> k) m" and ?dw = "dropWhile (\<lambda>e. fst e \<noteq> k) m"
  have "mset (mm_insert k v m)
      = add_mset (k, v) (mset (filter (\<lambda>e. fst e = k) m)
          + mset (?tw @ filter (\<lambda>e. fst e \<noteq> k) ?dw))"
    using True by (simp add: mm_insert_def mm_range_pairs)
  also have "\<dots> = add_mset (k, v) (mset m)"
    using mset_filter_split [of "\<lambda>e. fst e = k" m]
    by (simp only: filter_dropWhile_takeWhile)
  finally show ?thesis .
qed (simp add: mm_insert_def)

lemma set_mm_insert [simp]: "set (mm_insert k v m) = insert (k, v) (set m)"
  by (metis mset_mm_insert set_mset_add_mset_insert set_mset_mset)

lemma length_mm_insert [simp]: "length (mm_insert k v m) = Suc (length m)"
  by (metis mset_mm_insert size_add_mset size_mset)

lemma mset_mm_range: "mset (mm_range k m) = image_mset snd (filter_mset (\<lambda>e. fst e = k) (mset m))"
  by (simp add: mm_range_def)

lemma set_mm_range: "v \<in> set (mm_range k m) \<longleftrightarrow> (k, v) \<in> set m"
  by (force simp: mm_range_def)

lemma mm_range_Nil_iff: "mm_range k m = [] \<longleftrightarrow> k \<notin> fst ` set m"
  by (force simp: mm_range_def filter_empty_conv)

lemma mm_range_erase_key [simp]:
  "mm_range k (mm_erase_key k' m) = (if k = k' then [] else mm_range k m)"
  by (induction m) (auto simp: mm_range_def mm_erase_key_def)

lemma mset_mm_erase_key:
  "mset (map (Pair k) (mm_range k m)) + mset (mm_erase_key k m) = mset m"
  unfolding mm_range_pairs mm_erase_key_def by (rule mset_filter_split)

lemma set_mm_erase_key [simp]: "set (mm_erase_key k m) = {e \<in> set m. fst e \<noteq> k}"
  by (simp add: mm_erase_key_def)

lemma set_mm_erase_if [simp]:
  "set (mm_erase_if k P m) = {e \<in> set m. \<not> (fst e = k \<and> P (snd e))}"
  by (simp add: mm_erase_if_def)

lemma mset_erase_insert:
  assumes "(k, v) \<notin> set m"
  shows "mset (mm_erase_if k (\<lambda>z. z = v) (mm_insert k v m)) = mset m"
proof -
  have "mset (mm_erase_if k (\<lambda>z. z = v) (mm_insert k v m))
      = filter_mset (\<lambda>e. \<not> (fst e = k \<and> snd e = v)) (mset m)"
    by (simp add: mm_erase_if_def mset_filter)
  also have "\<dots> = mset m"
    using assms by (auto simp: filter_mset_eq_conv)
  finally show ?thesis .
qed

lemma length_mm_erase_first: "length (mm_erase_first k n m) = length m - min n (mm_count k m)"
proof (induction k n m rule: mm_erase_first.induct)
  case (2 k n e m)
  have "mm_count k m \<le> length m"
    by (simp add: mm_count_def mm_range_def)
  moreover have "min n (mm_count k m) \<le> length m"
    using calculation by simp
  ultimately show ?case
    using 2 by (cases n) (auto simp: mm_count_def mm_range_def Suc_diff_le)
qed simp

lemma mm_range_erase_first: "mm_range k (mm_erase_first k n m) = drop n (mm_range k m)"
proof (induction k n m rule: mm_erase_first.induct)
  case (2 k n e m)
  then show ?case by (cases n) (auto simp: mm_range_def)
qed (simp add: mm_range_def)

lemma mm_range_erase_first_other:
  "k' \<noteq> k \<Longrightarrow> mm_range k' (mm_erase_first k n m) = mm_range k' m"
  by (induction k n m rule: mm_erase_first.induct) (auto simp: mm_range_def)

section \<open>Lists cut into chunks\<close>

lemma distinct_concat_map:
  assumes "distinct xs"
    and "\<And>x. x \<in> set xs \<Longrightarrow> distinct (f x)"
    and "\<And>x y. x \<in> set xs \<Longrightarrow> y \<in> set xs \<Longrightarrow> x \<noteq> y \<Longrightarrow> set (f x) \<inter> set (f y) = {}"
  shows "distinct (concat (map f xs))"
  using assms by (induction xs) auto

lemma length_concat_const:
  assumes "\<And>x. x \<in> set xs \<Longrightarrow> length (f x) = w"
  shows "length (concat (map f xs)) = w * length xs"
  using assms by (induction xs) auto

end
