(* ===== verification/Vectors.thy ===== *)
theory Vectors
  imports Esp_Prelude
begin

text \<open>
  \<^verbatim>\<open>Real3D\<close> and \<^verbatim>\<open>Int3D\<close> (\<^verbatim>\<open>src/src/Real3D.hpp\<close>, \<^verbatim>\<open>src/src/Int3D.hpp\<close>): the three-component
  vectors every other component computes with.  The C++ loops over the index \<open>0..2\<close>
  become component-wise maps; \<open>vnth\<close> is the unchecked \<^verbatim>\<open>operator[]\<close>, \<open>vec_at\<close> the checked
  \<^verbatim>\<open>at\<close>.  The component-wise \<^verbatim>\<open>+=\<close> and \<^verbatim>\<open>-=\<close> make the vectors an abelian group, which is
  what the sums over ghost forces use.
\<close>

datatype 'a vec3 = V3 (vx: 'a) (vy: 'a) (vz: 'a)

type_synonym real3d = "real vec3"
type_synonym int3d = "int vec3"

fun vnth :: "'a vec3 \<Rightarrow> nat \<Rightarrow> 'a" where
  "vnth (V3 a b c) 0 = a"
| "vnth (V3 a b c) (Suc 0) = b"
| "vnth (V3 a b c) (Suc (Suc n)) = c"

fun vupd :: "'a vec3 \<Rightarrow> nat \<Rightarrow> 'a \<Rightarrow> 'a vec3" where
  "vupd (V3 a b c) 0 x = V3 x b c"
| "vupd (V3 a b c) (Suc 0) x = V3 a x c"
| "vupd (V3 a b c) (Suc (Suc n)) x = V3 a b x"

definition vmap :: "('a \<Rightarrow> 'b) \<Rightarrow> 'a vec3 \<Rightarrow> 'b vec3" where
  "vmap f v = V3 (f (vx v)) (f (vy v)) (f (vz v))"

definition vmap2 :: "('a \<Rightarrow> 'b \<Rightarrow> 'c) \<Rightarrow> 'a vec3 \<Rightarrow> 'b vec3 \<Rightarrow> 'c vec3" where
  "vmap2 f v w = V3 (f (vx v) (vx w)) (f (vy v) (vy w)) (f (vz v) (vz w))"

text \<open>A predicate on all three components, and a choice for each component that may fail.\<close>

definition vall :: "('a \<Rightarrow> bool) \<Rightarrow> 'a vec3 \<Rightarrow> bool" where
  "vall P v \<longleftrightarrow> P (vx v) \<and> P (vy v) \<and> P (vz v)"

definition vec_const :: "'a \<Rightarrow> 'a vec3" where
  "vec_const a = V3 a a a"

datatype vec_error = OutOfRange

definition vec_at :: "'a vec3 \<Rightarrow> int \<Rightarrow> vec_error + 'a" where
  "vec_at v i = (if i < 0 \<or> i > 2 then Inl OutOfRange else Inr (vnth v (nat i)))"

definition vec_setItem :: "'a vec3 \<Rightarrow> int \<Rightarrow> 'a \<Rightarrow> vec_error + 'a vec3" where
  "vec_setItem v i x = (if i < 0 \<or> i > 2 then Inl OutOfRange else Inr (vupd v (nat i) x))"

lemma vec_cases3 [simp]: "V3 (vx v) (vy v) (vz v) = v"
  by (cases v) simp

lemma vec_eq_iff: "v = w \<longleftrightarrow> vx v = vx w \<and> vy v = vy w \<and> vz v = vz w"
  by (cases v; cases w) simp

lemma vnth_numeral [simp]:
  "vnth v 0 = vx v" "vnth v (Suc 0) = vy v" "vnth v 1 = vy v" "vnth v 2 = vz v"
  by (cases v; simp add: numeral_2_eq_2)+

lemma vupd_numeral [simp]:
  "vupd v 0 x = V3 x (vy v) (vz v)" "vupd v (Suc 0) x = V3 (vx v) x (vz v)"
  "vupd v 1 x = V3 (vx v) x (vz v)"
  "vupd v 2 x = V3 (vx v) (vy v) x"
  by (cases v; simp add: numeral_2_eq_2)+

lemma less_3_cases: "(i::nat) < 3 \<longleftrightarrow> i = 0 \<or> i = 1 \<or> i = 2"
  by auto

lemma vnth_vupd: "i < 3 \<Longrightarrow> j < 3 \<Longrightarrow> vnth (vupd v i x) j = (if i = j then x else vnth v j)"
  unfolding less_3_cases by (elim disjE; simp)

lemma vnth_vmap [simp]: "vnth (vmap f v) i = f (vnth v i)"
  by (cases "(v, i)" rule: vnth.cases) (auto simp: vmap_def)

lemma vmap_sel [simp]:
  "vx (vmap f v) = f (vx v)" "vy (vmap f v) = f (vy v)" "vz (vmap f v) = f (vz v)"
  by (simp_all add: vmap_def)

lemma vmap2_sel [simp]:
  "vx (vmap2 f v w) = f (vx v) (vx w)" "vy (vmap2 f v w) = f (vy v) (vy w)"
  "vz (vmap2 f v w) = f (vz v) (vz w)"
  by (simp_all add: vmap2_def)

lemma vall_iff_vnth: "vall P v \<longleftrightarrow> (\<forall>i<3. P (vnth v i))"
  unfolding vall_def less_3_cases by auto

instantiation vec3 :: (ab_group_add) ab_group_add
begin

definition zero_vec3 :: "'a vec3" where
  "zero_vec3 = V3 0 0 0"

definition plus_vec3 :: "'a vec3 \<Rightarrow> 'a vec3 \<Rightarrow> 'a vec3" where
  "plus_vec3 v w = vmap2 (+) v w"

definition uminus_vec3 :: "'a vec3 \<Rightarrow> 'a vec3" where
  "uminus_vec3 v = vmap uminus v"

definition minus_vec3 :: "'a vec3 \<Rightarrow> 'a vec3 \<Rightarrow> 'a vec3" where
  "minus_vec3 v w = vmap2 (-) v w"

instance
  by standard
    (simp_all add: zero_vec3_def plus_vec3_def uminus_vec3_def minus_vec3_def
       vmap_def vmap2_def vec_eq_iff algebra_simps)

end

lemma plus_vec3_sel [simp]:
  "vx (v + w) = vx v + vx w" "vy (v + w) = vy v + vy w" "vz (v + w) = vz v + vz w"
  by (simp_all add: plus_vec3_def)

lemma minus_vec3_sel [simp]:
  "vx (v - w) = vx v - vx w" "vy (v - w) = vy v - vy w" "vz (v - w) = vz v - vz w"
  by (simp_all add: minus_vec3_def)

lemma zero_vec3_sel [simp]: "vx 0 = 0" "vy 0 = 0" "vz 0 = 0"
  by (simp_all add: zero_vec3_def)

definition real3d_scale :: "real3d \<Rightarrow> real \<Rightarrow> real3d" where
  "real3d_scale v s = vmap (\<lambda>a. a * s) v"

definition real3d_divide :: "real3d \<Rightarrow> real \<Rightarrow> real3d" where
  "real3d_divide v s = (let v_1 = 1 / s in vmap (\<lambda>a. a * v_1) v)"

definition real3d_dot :: "real3d \<Rightarrow> real3d \<Rightarrow> real" where
  "real3d_dot v w = vx v * vx w + vy v * vy w + vz v * vz w"

definition real3d_cross :: "real3d \<Rightarrow> real3d \<Rightarrow> real3d" where
  "real3d_cross v w =
     V3 (vy v * vz w - vz v * vy w) (vz v * vx w - vx v * vz w) (vx v * vy w - vy v * vx w)"

definition real3d_sqr :: "real3d \<Rightarrow> real" where
  "real3d_sqr v = vx v * vx v + vy v * vy v + vz v * vz v"

definition real3d_abs :: "real3d \<Rightarrow> real" where
  "real3d_abs v = sqrt (real3d_sqr v)"

lemma real3d_sqr_nonneg [simp]: "0 \<le> real3d_sqr v"
  by (simp add: real3d_sqr_def)

lemma real3d_abs_sq: "real3d_abs v * real3d_abs v = real3d_sqr v"
  by (simp add: real3d_abs_def)

lemma real3d_sqr_minus_commute: "real3d_sqr (v - w) = real3d_sqr (w - v)"
  by (simp add: real3d_sqr_def algebra_simps)

lemma real3d_cross_orthogonal:
  "real3d_dot v (real3d_cross v w) = 0" "real3d_dot w (real3d_cross v w) = 0"
  by (simp_all add: real3d_dot_def real3d_cross_def algebra_simps)

lemma real3d_lagrange:
  "real3d_sqr (real3d_cross v w) + (real3d_dot v w)\<^sup>2 = real3d_sqr v * real3d_sqr w"
  by (simp add: real3d_dot_def real3d_cross_def real3d_sqr_def power2_eq_square algebra_simps)

end
