(* ===== verification/BoundaryConditions.thy ===== *)
theory BoundaryConditions
  imports Vectors
begin

text \<open>
  \<^verbatim>\<open>src/src/bc\<close>: the boundary conditions.  The abstract class \<^verbatim>\<open>BC\<close> is the locale
  \<open>boundary\<close>, whose parameters are the virtual functions its non-virtual members call; the
  members themselves (\<^verbatim>\<open>BC.cpp\<close>) are the top-level definitions \<open>bc_\<dots>\<close>, which take the
  virtual function as an argument.  \<^verbatim>\<open>OrthorhombicBC\<close> and \<^verbatim>\<open>SlabBC\<close> are two models of the
  class and interpret the locale.  \<open>None\<close> is a \<^verbatim>\<open>double\<close> to \<^verbatim>\<open>int\<close> cast, or an addition to an
  image counter, that leaves the range of \<^verbatim>\<open>int\<close>.
\<close>

record orthobc =
  boxL :: real3d
  boxL2 :: real3d
  invBoxL :: real3d

record slabbc = orthobc +
  slabDir :: nat

definition setBoxL :: "'a orthobc_scheme \<Rightarrow> real3d \<Rightarrow> 'a orthobc_scheme" where
  "setBoxL b L = b\<lparr>boxL := L, boxL2 := vmap (\<lambda>l. 1/2 * l) L, invBoxL := vmap (\<lambda>l. 1 / l) L\<rparr>"

definition OrthorhombicBC_new :: "real3d \<Rightarrow> orthobc" where
  "OrthorhombicBC_new L =
     setBoxL \<lparr>boxL = vec_const 0, boxL2 = vec_const 0, invBoxL = vec_const 0\<rparr> L"

definition SlabBC_new :: "real3d \<Rightarrow> slabbc" where
  "SlabBC_new L =
     (setBoxL \<lparr>boxL = vec_const 0, boxL2 = vec_const 0, invBoxL = vec_const 0, slabDir = 0\<rparr> L)
     \<lparr>slabDir := 0\<rparr>"

definition bc_scaleVolume :: "'a orthobc_scheme \<Rightarrow> real \<Rightarrow> 'a orthobc_scheme" where
  "bc_scaleVolume b s =
     b\<lparr>boxL := real3d_scale (boxL b) s, boxL2 := real3d_scale (boxL2 b) s,
       invBoxL := real3d_divide (invBoxL b) s\<rparr>"

definition bc_scaleVolumeV :: "'a orthobc_scheme \<Rightarrow> real3d \<Rightarrow> 'a orthobc_scheme" where
  "bc_scaleVolumeV b s =
     b\<lparr>boxL := vmap2 (*) (boxL b) s, boxL2 := vmap2 (*) (boxL2 b) s,
       invBoxL := vmap2 (/) (invBoxL b) s\<rparr>"

section \<open>Minimum images\<close>

text \<open>One component of the three minimum-image routines.\<close>

definition roundImage :: "real \<Rightarrow> real \<Rightarrow> real \<Rightarrow> real" where
  "roundImage d invL L = d - of_int (c_round (d * invL)) * L"

definition shiftImage :: "real \<Rightarrow> real \<Rightarrow> real \<Rightarrow> real" where
  "shiftImage d half L = (if d < - half then d + L else if d > half then d - L else d)"

definition ob_getMinimumImageVector :: "'a orthobc_scheme \<Rightarrow> real3d \<Rightarrow> real3d \<Rightarrow> real3d" where
  "ob_getMinimumImageVector b pos1 pos2 =
     (let dv = pos1 - pos2 in
      V3 (roundImage (vx dv) (vx (invBoxL b)) (vx (boxL b)))
         (roundImage (vy dv) (vy (invBoxL b)) (vy (boxL b)))
         (roundImage (vz dv) (vz (invBoxL b)) (vz (boxL b))))"

definition ob_getMinimumImageVectorBox :: "'a orthobc_scheme \<Rightarrow> real3d \<Rightarrow> real3d \<Rightarrow> real3d" where
  "ob_getMinimumImageVectorBox b pos1 pos2 =
     (let dv = pos1 - pos2 in
      V3 (shiftImage (vx dv) (vx (boxL2 b)) (vx (boxL b)))
         (shiftImage (vy dv) (vy (boxL2 b)) (vy (boxL b)))
         (shiftImage (vz dv) (vz (boxL2 b)) (vz (boxL b))))"

definition ob_getMinimumDistance :: "'a orthobc_scheme \<Rightarrow> real3d \<Rightarrow> real3d" where
  "ob_getMinimumDistance b dv =
      V3 (shiftImage (vx dv) (1/2 * vx (boxL b)) (vx (boxL b)))
         (shiftImage (vy dv) (1/2 * vy (boxL b)) (vy (boxL b)))
         (shiftImage (vz dv) (1/2 * vz (boxL b)) (vz (boxL b)))"

text \<open>The array variant of \<^verbatim>\<open>OrthorhombicBC\<close> writes every component of its output.\<close>

definition ob_getMinimumImageVectorX :: "'a orthobc_scheme \<Rightarrow> real3d \<Rightarrow> real3d \<Rightarrow> real3d \<Rightarrow> real3d" where
  "ob_getMinimumImageVectorX b dist0 pos1 pos2 =
     (let dv = V3 (vx pos1) (vy pos1) (vz pos1);
          dv = V3 (vx dv - vx pos2) (vy dv - vy pos2) (vz dv - vz pos2) in
      V3 (roundImage (vx dv) (vx (invBoxL b)) (vx (boxL b)))
         (roundImage (vy dv) (vy (invBoxL b)) (vy (boxL b)))
         (roundImage (vz dv) (vz (invBoxL b)) (vz (boxL b))))"

text \<open>The loops of \<^verbatim>\<open>SlabBC\<close> skip the slab direction.\<close>

definition slab_loop :: "slabbc \<Rightarrow> (nat \<Rightarrow> real3d \<Rightarrow> real) \<Rightarrow> real3d \<Rightarrow> real3d" where
  "slab_loop b f dist0 =
     fold (\<lambda>i dv. if i \<noteq> slabDir b then vupd dv i (f i dv) else dv) [0, 1, 2] dist0"

definition slab_getMinimumImageVector :: "slabbc \<Rightarrow> real3d \<Rightarrow> real3d \<Rightarrow> real3d" where
  "slab_getMinimumImageVector b pos1 pos2 =
     slab_loop b (\<lambda>i dv. roundImage (vnth dv i) (vnth (invBoxL b) i) (vnth (boxL b) i))
       (pos1 - pos2)"

definition slab_getMinimumImageVectorBox :: "slabbc \<Rightarrow> real3d \<Rightarrow> real3d \<Rightarrow> real3d" where
  "slab_getMinimumImageVectorBox b pos1 pos2 =
     slab_loop b (\<lambda>i dv. shiftImage (vnth dv i) (vnth (boxL2 b) i) (vnth (boxL b) i))
       (pos1 - pos2)"

definition slab_getMinimumDistance :: "slabbc \<Rightarrow> real3d \<Rightarrow> real3d" where
  "slab_getMinimumDistance b dv =
     slab_loop b (\<lambda>i dv. shiftImage (vnth dv i) (1/2 * vnth (boxL b) i) (vnth (boxL b) i)) dv"

text \<open>
  The array variant of \<^verbatim>\<open>SlabBC\<close> also assigns \<^verbatim>\<open>dist[i] = pos1[i] - pos2[i]\<close> only inside the
  guarded body: the slab component keeps whatever the caller's array \<open>dist0\<close> held.
\<close>

definition slab_getMinimumImageVectorX :: "slabbc \<Rightarrow> real3d \<Rightarrow> real3d \<Rightarrow> real3d \<Rightarrow> real3d" where
  "slab_getMinimumImageVectorX b dist0 pos1 pos2 =
     slab_loop b (\<lambda>i dv. roundImage (vnth pos1 i - vnth pos2 i) (vnth (invBoxL b) i)
                             (vnth (boxL b) i)) dist0"

section \<open>Folding\<close>

definition foldCoordinate ::
  "'a orthobc_scheme \<Rightarrow> real3d \<Rightarrow> int3d \<Rightarrow> nat \<Rightarrow> (real3d \<times> int3d) option" where
  "foldCoordinate b pos imageBox dir =
     do { tmp \<leftarrow> cast_int (of_int \<lfloor>vnth pos dir * vnth (invBoxL b) dir\<rfloor>);
          img \<leftarrow> add_int (vnth imageBox dir) tmp;
          let x = vnth pos dir - of_int tmp * vnth (boxL b) dir;
          if (x < 0 \<or> x \<ge> vnth (boxL b) dir)
             \<and> \<bar>x * vnth (invBoxL b) dir\<bar> \<ge> of_int (c_div INT_MAX 2)
          then Some (vupd pos dir 0, vupd imageBox dir 0)
          else Some (vupd pos dir x, vupd imageBox dir img) }"

definition unfoldCoordinate ::
  "'a orthobc_scheme \<Rightarrow> real3d \<Rightarrow> int3d \<Rightarrow> nat \<Rightarrow> real3d \<times> int3d" where
  "unfoldCoordinate b pos imageBox dir =
     (vupd pos dir (vnth pos dir + of_int (vnth imageBox dir) * vnth (boxL b) dir),
      vupd imageBox dir 0)"

text \<open>\<^verbatim>\<open>SlabBC\<close> folds every direction, the slab direction included.\<close>

definition slab_foldCoordinate :: "slabbc \<Rightarrow> real3d \<Rightarrow> int3d \<Rightarrow> nat \<Rightarrow> (real3d \<times> int3d) option" where
  "slab_foldCoordinate b pos imageBox dir =
     do { tmp \<leftarrow> cast_int (of_int \<lfloor>vnth pos dir * vnth (invBoxL b) dir\<rfloor>);
          img \<leftarrow> add_int (vnth imageBox dir) tmp;
          let x = vnth pos dir - of_int tmp * vnth (boxL b) dir;
          if (x < 0 \<or> x \<ge> vnth (boxL b) dir)
             \<and> \<bar>x * vnth (invBoxL b) dir\<bar> \<ge> of_int (c_div INT_MAX 2)
          then Some (vupd pos dir 0, vupd imageBox dir 0)
          else Some (vupd pos dir x, vupd imageBox dir img) }"

definition slab_unfoldCoordinate :: "slabbc \<Rightarrow> real3d \<Rightarrow> int3d \<Rightarrow> nat \<Rightarrow> real3d \<times> int3d" where
  "slab_unfoldCoordinate b pos imageBox dir =
     (vupd pos dir (vnth pos dir + of_int (vnth imageBox dir) * vnth (boxL b) dir),
      vupd imageBox dir 0)"

text \<open>The members of the base class, over the virtual functions.\<close>

definition bc_foldPosition ::
  "(real3d \<Rightarrow> int3d \<Rightarrow> nat \<Rightarrow> (real3d \<times> int3d) option) \<Rightarrow> real3d \<Rightarrow> int3d \<Rightarrow> (real3d \<times> int3d) option" where
  "bc_foldPosition foldC pos imageBox =
     do { (p, m) \<leftarrow> foldC pos imageBox 0; (p, m) \<leftarrow> foldC p m 1; foldC p m 2 }"

definition bc_foldPosition1 ::
  "(real3d \<Rightarrow> int3d \<Rightarrow> nat \<Rightarrow> (real3d \<times> int3d) option) \<Rightarrow> real3d \<Rightarrow> real3d option" where
  "bc_foldPosition1 foldC pos =
     do { (p, m) \<leftarrow> bc_foldPosition foldC pos (V3 0 0 0); Some p }"

definition bc_unfoldPosition ::
  "(real3d \<Rightarrow> int3d \<Rightarrow> nat \<Rightarrow> real3d \<times> int3d) \<Rightarrow> real3d \<Rightarrow> int3d \<Rightarrow> real3d \<times> int3d" where
  "bc_unfoldPosition unfoldC pos imageBox =
     (let (p, m) = unfoldC pos imageBox 0; (p, m) = unfoldC p m 1 in unfoldC p m 2)"

definition bc_getUnfoldedPosition ::
  "(real3d \<Rightarrow> int3d \<Rightarrow> nat \<Rightarrow> real3d \<times> int3d) \<Rightarrow> real3d \<Rightarrow> int3d \<Rightarrow> real3d" where
  "bc_getUnfoldedPosition unfoldC pos imageBox = fst (bc_unfoldPosition unfoldC pos imageBox)"

text \<open>Three draws of the random number generator, one for each coordinate.\<close>

definition getRandomPos :: "'a orthobc_scheme \<Rightarrow> ('r \<Rightarrow> real \<times> 'r) \<Rightarrow> 'r \<Rightarrow> real3d \<times> 'r" where
  "getRandomPos b rng r =
     (let (u0, r) = rng r; (u1, r) = rng r; (u2, r) = rng r in
      (V3 (vx (boxL b) * u0) (vy (boxL b) * u1) (vz (boxL b) * u2), r))"

section \<open>The contract of the class\<close>

locale boundary =
  fixes valid :: "'s \<Rightarrow> bool"
    and len :: "'s \<Rightarrow> nat \<Rightarrow> real"
    and foldC :: "'s \<Rightarrow> real3d \<Rightarrow> int3d \<Rightarrow> nat \<Rightarrow> (real3d \<times> int3d) option"
    and unfoldC :: "'s \<Rightarrow> real3d \<Rightarrow> int3d \<Rightarrow> nat \<Rightarrow> real3d \<times> int3d"
  assumes fold_range: "valid b \<Longrightarrow> i < 3 \<Longrightarrow> foldC b p m i = Some (p', m') \<Longrightarrow>
      0 \<le> vnth p' i \<and> vnth p' i < len b i"
    and fold_other: "valid b \<Longrightarrow> i < 3 \<Longrightarrow> foldC b p m i = Some (p', m') \<Longrightarrow> j < 3 \<Longrightarrow> j \<noteq> i \<Longrightarrow>
      vnth p' j = vnth p j \<and> vnth m' j = vnth m j"
    and fold_total: "valid b \<Longrightarrow> i < 3 \<Longrightarrow> foldC b p m i = Some (p', m') \<Longrightarrow>
      vnth p' i + of_int (vnth m' i) * len b i = vnth p i + of_int (vnth m i) * len b i"
    and unfold_eq: "i < 3 \<Longrightarrow> unfoldC b p m i =
      (vupd p i (vnth p i + of_int (vnth m i) * len b i), vupd m i 0)"
begin

lemma unfoldPosition_eq:
  "bc_unfoldPosition (unfoldC b) p m =
     (V3 (vx p + of_int (vx m) * len b 0) (vy p + of_int (vy m) * len b 1)
         (vz p + of_int (vz m) * len b 2), V3 0 0 0)"
  by (simp add: bc_unfoldPosition_def unfold_eq vec_eq_iff)

lemma foldPosition_inv:
  assumes v: "valid b" and f: "bc_foldPosition (foldC b) p m = Some (p', m')" and i: "i < 3"
  shows "0 \<le> vnth p' i \<and> vnth p' i < len b i
    \<and> vnth p' i + of_int (vnth m' i) * len b i = vnth p i + of_int (vnth m i) * len b i"
proof -
  from f obtain p1 m1 p2 m2 where s: "foldC b p m 0 = Some (p1, m1)"
      "foldC b p1 m1 1 = Some (p2, m2)" "foldC b p2 m2 2 = Some (p', m')"
    by (auto simp: bc_foldPosition_def bind_eq_Some_conv split: prod.splits)
  note o1 = fold_other [OF v _ s(1)] and o2 = fold_other [OF v _ s(2)]
    and o3 = fold_other [OF v _ s(3)]
  note r = fold_range [OF v _ s(1)] fold_range [OF v _ s(2)] fold_range [OF v _ s(3)]
  note t = fold_total [OF v _ s(1)] fold_total [OF v _ s(2)] fold_total [OF v _ s(3)]
  from i consider "i = 0" | "i = 1" | "i = 2" unfolding less_3_cases by blast
  then show ?thesis
  proof cases
    case 1 then show ?thesis using o2 [of 0] o3 [of 0] r(1) t(1) by simp
  next
    case 2 then show ?thesis using o1 [of 1] o3 [of 1] r(2) t(2) by simp
  next
    case 3 then show ?thesis using o1 [of 2] o2 [of 2] r(3) t(3) by simp
  qed
qed

lemma fold_unfold:
  assumes "valid b" and "bc_foldPosition (foldC b) p m = Some (p', m')"
  shows "bc_unfoldPosition (unfoldC b) p' m' = bc_unfoldPosition (unfoldC b) p m"
  using foldPosition_inv [OF assms, of 0] foldPosition_inv [OF assms, of 1]
    foldPosition_inv [OF assms, of 2]
  by (simp add: unfoldPosition_eq)

end

definition bc_valid :: "'a orthobc_scheme \<Rightarrow> bool" where
  "bc_valid b \<longleftrightarrow> (\<forall>i<3. 0 < vnth (boxL b) i \<and> vnth (invBoxL b) i = 1 / vnth (boxL b) i
      \<and> vnth (boxL2 b) i = vnth (boxL b) i / 2)"

lemma bc_validD:
  assumes "bc_valid b" "i < 3"
  shows "0 < vnth (boxL b) i" "vnth (invBoxL b) i = 1 / vnth (boxL b) i"
    "vnth (boxL2 b) i = vnth (boxL b) i / 2"
  using assms by (auto simp: bc_valid_def)

lemma foldCoordinate_step:
  fixes p :: real3d
  assumes v: "bc_valid b" and i: "i < 3"
  defines "k \<equiv> \<lfloor>vnth p i / vnth (boxL b) i\<rfloor>"
  shows "foldCoordinate b p m i = (if fits_int k \<and> fits_int (vnth m i + k)
      then Some (vupd p i (vnth p i - of_int k * vnth (boxL b) i), vupd m i (vnth m i + k))
      else None)"
    and "0 \<le> vnth p i - of_int k * vnth (boxL b) i"
    and "vnth p i - of_int k * vnth (boxL b) i < vnth (boxL b) i"
proof -
  note L = bc_validD [OF v i]
  have "of_int k \<le> vnth p i / vnth (boxL b) i" "vnth p i / vnth (boxL b) i < of_int k + 1"
    unfolding k_def by linarith+
  then show r: "0 \<le> vnth p i - of_int k * vnth (boxL b) i"
    "vnth p i - of_int k * vnth (boxL b) i < vnth (boxL b) i"
    using L(1) by (simp_all add: field_simps)
  have "trunc_real (of_int k) = k" by (simp add: trunc_real_def)
  then show "foldCoordinate b p m i = (if fits_int k \<and> fits_int (vnth m i + k)
      then Some (vupd p i (vnth p i - of_int k * vnth (boxL b) i), vupd m i (vnth m i + k))
      else None)"
    using r L(2) by (auto simp: foldCoordinate_def k_def [symmetric] cast_int_def add_int_def Let_def)
qed

lemma foldCoordinate_laws:
  assumes v: "bc_valid b" and i: "i < 3" and f: "foldCoordinate b p m i = Some (p', m')"
  shows "0 \<le> vnth p' i \<and> vnth p' i < vnth (boxL b) i"
    and "j < 3 \<Longrightarrow> j \<noteq> i \<Longrightarrow> vnth p' j = vnth p j \<and> vnth m' j = vnth m j"
    and "vnth p' i + of_int (vnth m' i) * vnth (boxL b) i
      = vnth p i + of_int (vnth m i) * vnth (boxL b) i"
  using f foldCoordinate_step [OF v i, of p] i
  by (auto simp: vnth_vupd algebra_simps split: if_splits)

interpretation ortho: boundary bc_valid "\<lambda>b. vnth (boxL b)" foldCoordinate unfoldCoordinate
proof
  fix b :: "'a orthobc_scheme" and i j :: nat and p p' m m'
  assume v: "bc_valid b" "i < 3" and f: "foldCoordinate b p m i = Some (p', m')"
  note laws = foldCoordinate_laws [OF v f]
  show "0 \<le> vnth p' i \<and> vnth p' i < vnth (boxL b) i" by (rule laws(1))
  show "vnth p' i + of_int (vnth m' i) * vnth (boxL b) i
      = vnth p i + of_int (vnth m i) * vnth (boxL b) i" by (rule laws(3))
  show "vnth p' j = vnth p j \<and> vnth m' j = vnth m j" if "j < 3" "j \<noteq> i"
    using that by (rule laws(2))
qed (simp add: unfoldCoordinate_def)

lemma slab_fold_eq:
  "slab_foldCoordinate = foldCoordinate" "slab_unfoldCoordinate = unfoldCoordinate"
  by (intro ext, simp only: slab_foldCoordinate_def foldCoordinate_def
      slab_unfoldCoordinate_def unfoldCoordinate_def)+

interpretation slab: boundary "bc_valid :: slabbc \<Rightarrow> bool" "\<lambda>b. vnth (boxL b)"
    slab_foldCoordinate slab_unfoldCoordinate
  unfolding slab_fold_eq by (rule ortho.boundary_axioms)

lemma setBoxL_valid: "vall (\<lambda>l. 0 < l) L \<Longrightarrow> bc_valid (setBoxL b L)"
  by (simp add: bc_valid_def setBoxL_def vall_iff_vnth)

lemma bc_scaleVolume_valid:
  assumes v: "bc_valid b" and s: "0 < s"
  shows "bc_valid (bc_scaleVolume b s)"
  unfolding bc_valid_def
proof (intro allI impI)
  fix i :: nat assume "i < 3"
  from bc_validD [OF v this] s
  show "0 < vnth (boxL (bc_scaleVolume b s)) i \<and>
      vnth (invBoxL (bc_scaleVolume b s)) i = 1 / vnth (boxL (bc_scaleVolume b s)) i \<and>
      vnth (boxL2 (bc_scaleVolume b s)) i = vnth (boxL (bc_scaleVolume b s)) i / 2"
    by (simp add: bc_scaleVolume_def real3d_scale_def real3d_divide_def Let_def)
qed

section \<open>The nearest image\<close>

lemma c_round_nearest: "\<bar>x - of_int (c_round x)\<bar> \<le> \<bar>x - of_int n\<bar>"
proof (cases "n = c_round x")
  case False
  then have "1 \<le> \<bar>of_int (c_round x) - of_int n :: real\<bar>"
    by (metis of_int_1 of_int_diff of_int_abs of_int_le_iff zero_less_abs_iff
        right_minus_eq int_one_le_iff_zero_less)
  then show ?thesis using c_round_bound [of x] by linarith
qed simp

lemma roundImage_nearest:
  assumes "0 < L"
  shows "\<bar>roundImage d (1 / L) L\<bar> \<le> \<bar>d + of_int k * L\<bar>"
    and "\<bar>roundImage d (1 / L) L\<bar> \<le> L / 2"
proof -
  have eq: "d + of_int n * L = (d / L - of_int (- n)) * L" for n :: int
    using assms by (simp add: field_simps)
  have r: "roundImage d (1 / L) L = (d / L - of_int (c_round (d / L))) * L"
    using assms by (simp add: roundImage_def field_simps)
  show "\<bar>roundImage d (1 / L) L\<bar> \<le> \<bar>d + of_int k * L\<bar>"
    unfolding eq r abs_mult using c_round_nearest [of "d / L" "- k"] assms
    by (intro mult_right_mono) auto
  have "\<bar>d / L - of_int (c_round (d / L))\<bar> * \<bar>L\<bar> \<le> 1 / 2 * L"
    using c_round_bound [of "d / L"] assms by (intro mult_mono) auto
  then show "\<bar>roundImage d (1 / L) L\<bar> \<le> L / 2"
    unfolding r abs_mult by simp
qed

lemma shiftImage_abs:
  assumes L: "0 < L" and d: "\<bar>d\<bar> \<le> L"
  shows "\<bar>shiftImage d (L / 2) L\<bar> = \<bar>roundImage d (1 / L) L\<bar>"
proof (rule antisym)
  let ?k = "- c_round (d / L)"
  have s: "\<bar>shiftImage d (L / 2) L\<bar> \<le> L / 2"
    using L d by (auto simp: shiftImage_def abs_if)
  have r: "roundImage d (1 / L) L = d + of_int ?k * L" by (simp add: roundImage_def)
  show "\<bar>roundImage d (1 / L) L\<bar> \<le> \<bar>shiftImage d (L / 2) L\<bar>"
    using roundImage_nearest(1) [OF L, of d 1] roundImage_nearest(1) [OF L, of d "- 1"]
      roundImage_nearest(1) [OF L, of d 0]
    by (auto simp: shiftImage_def)
  obtain j :: int where j: "shiftImage d (L / 2) L = d + of_int j * L"
  proof -
    have "shiftImage d (L / 2) L = d + of_int 1 * L \<or> shiftImage d (L / 2) L = d + of_int (- 1) * L
        \<or> shiftImage d (L / 2) L = d + of_int 0 * L" by (simp add: shiftImage_def)
    then show ?thesis using that by blast
  qed
  show "\<bar>shiftImage d (L / 2) L\<bar> \<le> \<bar>roundImage d (1 / L) L\<bar>"
  proof (cases "?k = j")
    case True
    then show ?thesis using r j by simp
  next
    case False
    then have "1 \<le> \<bar>of_int j - of_int ?k :: real\<bar>"
      by (metis of_int_1 of_int_diff of_int_abs of_int_le_iff zero_less_abs_iff
          right_minus_eq int_one_le_iff_zero_less)
    then have "1 * L \<le> \<bar>of_int j - of_int ?k\<bar> * L" using L by (intro mult_right_mono) auto
    also have "\<dots> = \<bar>(of_int j - of_int ?k) * L\<bar>" using L by (simp add: abs_mult)
    also have "(of_int j - of_int ?k) * L = shiftImage d (L / 2) L - roundImage d (1 / L) L"
      unfolding r j left_diff_distrib by simp
    finally show ?thesis using s roundImage_nearest(2) [OF L, of d] by linarith
  qed
qed

lemma shiftImage_image: "\<exists>k::int. shiftImage d h L = d + of_int k * L"
proof -
  have "shiftImage d h L = d + of_int 1 * L \<or> shiftImage d h L = d + of_int (- 1) * L \<or> shiftImage d h L = d + of_int 0 * L"
    by (simp add: shiftImage_def)
  then show ?thesis by blast
qed

text \<open>Two images within half a box are the same, unless they are at its two ends.\<close>

lemma shiftImage_round:
  assumes L: "0 < L" and d: "\<bar>d\<bar> \<le> L" and h: "\<bar>roundImage d (1 / L) L\<bar> \<noteq> L / 2"
  shows "shiftImage d (L / 2) L = roundImage d (1 / L) L"
proof (rule ccontr)
  assume ne: "shiftImage d (L / 2) L \<noteq> roundImage d (1 / L) L"
  note a = shiftImage_abs [OF L d]
  obtain k :: int where k: "shiftImage d (L / 2) L = d + of_int k * L" using shiftImage_image by blast
  have r: "roundImage d (1 / L) L = d + of_int (- c_round (d / L)) * L" by (simp add: roundImage_def)
  have "\<exists>n::int. shiftImage d (L / 2) L - roundImage d (1 / L) L = of_int n * L"
    by (rule exI [of _ "k + c_round (d / L)"]) (simp add: k r algebra_simps)
  moreover have "shiftImage d (L / 2) L = - roundImage d (1 / L) L" using a ne by (simp add: abs_eq_iff)
  ultimately obtain n :: int where n: "- 2 * roundImage d (1 / L) L = of_int n * L" by auto
  have "\<bar>of_int n\<bar> * L = 2 * \<bar>roundImage d (1 / L) L\<bar>" using arg_cong [OF n, of abs] L by (simp add: abs_mult)
  moreover have "\<bar>roundImage d (1 / L) L\<bar> < L / 2" using roundImage_nearest(2) [OF L, of d] h by simp
  ultimately have "\<bar>of_int n\<bar> * L < 1 * L" by simp
  then have "\<bar>of_int n :: real\<bar> < 1" using L by (auto simp only: mult_less_cancel_right)
  then have "n = 0" by linarith
  then show False using n ne \<open>shiftImage d (L / 2) L = - roundImage d (1 / L) L\<close> by simp
qed

lemma ob_minimumImage_cases:
  assumes "i < 3"
  shows "vnth (ob_getMinimumImageVector b p q) i
      = roundImage (vnth p i - vnth q i) (vnth (invBoxL b) i) (vnth (boxL b) i)"
    and "vnth (ob_getMinimumImageVectorBox b p q) i
      = shiftImage (vnth p i - vnth q i) (vnth (boxL2 b) i) (vnth (boxL b) i)"
    and "vnth (ob_getMinimumDistance b p) i
      = shiftImage (vnth p i) (1/2 * vnth (boxL b) i) (vnth (boxL b) i)"
  using assms unfolding less_3_cases
  by (auto simp: ob_getMinimumImageVector_def ob_getMinimumImageVectorBox_def
      ob_getMinimumDistance_def Let_def)

lemma ob_minimumImage_vnth:
  assumes "bc_valid b" "i < 3"
  shows "vnth (ob_getMinimumImageVector b p q) i
      = roundImage (vnth p i - vnth q i) (1 / vnth (boxL b) i) (vnth (boxL b) i)"
    and "vnth (ob_getMinimumImageVectorBox b p q) i
      = shiftImage (vnth p i - vnth q i) (vnth (boxL b) i / 2) (vnth (boxL b) i)"
    and "vnth (ob_getMinimumDistance b p) i
      = shiftImage (vnth p i) (vnth (boxL b) i / 2) (vnth (boxL b) i)"
  by (simp_all add: ob_minimumImage_cases [OF assms(2)] bc_validD [OF assms])

lemma slab_loop_vnth:
  assumes "i < 3"
  shows "vnth (slab_loop b (\<lambda>i v. f i (vnth v i)) d) i
    = (if i = slabDir b then vnth d i else f i (vnth d i))"
  using assms unfolding less_3_cases slab_loop_def
  by (elim disjE) (simp_all, (auto dest: sym)?)

lemma slab_loop_const:
  assumes "i < 3"
  shows "vnth (slab_loop b (\<lambda>i v. f i) d) i = (if i = slabDir b then vnth d i else f i)"
  using assms unfolding less_3_cases slab_loop_def
  by (elim disjE) (simp_all, (auto dest: sym)?)

section \<open>Properties\<close>

text \<open>What \<^verbatim>\<open>foldPosition\<close> and \<^verbatim>\<open>unfoldPosition\<close> of a class with box \<open>L\<close> have to do.\<close>

definition folding_sound ::
  "(real3d \<Rightarrow> int3d \<Rightarrow> nat \<Rightarrow> (real3d \<times> int3d) option) \<Rightarrow> (real3d \<Rightarrow> int3d \<Rightarrow> nat \<Rightarrow> real3d \<times> int3d) \<Rightarrow> real3d \<Rightarrow> bool" where
  "folding_sound foldC unfoldC L \<longleftrightarrow>
     (\<forall>p m p' m'. bc_foldPosition foldC p m = Some (p', m') \<longrightarrow>
        (\<forall>i<3. 0 \<le> vnth p' i \<and> vnth p' i < vnth L i) \<and> bc_unfoldPosition unfoldC p' m' = bc_unfoldPosition unfoldC p m)
   \<and> (\<forall>p m. (\<forall>i<3. \<bar>vnth p i\<bar> \<le> 2^30 * vnth L i \<and> \<bar>vnth m i\<bar> < 2^30) \<longrightarrow> (\<exists>r. bc_foldPosition foldC p m = Some r))
   \<and> (\<forall>p m. bc_unfoldPosition unfoldC p m = (p + vmap2 (\<lambda>k l. of_int k * l) m L, V3 0 0 0))"

lemma ortho_folding_sound:
  assumes v: "bc_valid b"
  shows "folding_sound (foldCoordinate b) (unfoldCoordinate b) (boxL b)"
  unfolding folding_sound_def
proof (intro conjI allI impI)
  fix p m p' m' and i :: nat assume f: "bc_foldPosition (foldCoordinate b) p m = Some (p', m')" and i: "i < 3"
  show "0 \<le> vnth p' i" "vnth p' i < vnth (boxL b) i" using ortho.foldPosition_inv [OF v f i] by simp_all
next
  fix p m p' m' assume f: "bc_foldPosition (foldCoordinate b) p m = Some (p', m')"
  show "bc_unfoldPosition (unfoldCoordinate b) p' m' = bc_unfoldPosition (unfoldCoordinate b) p m"
    by (rule ortho.fold_unfold [OF v f])
next
  fix p m
  show "bc_unfoldPosition (unfoldCoordinate b) p m = (p + vmap2 (\<lambda>k l. of_int k * l) m (boxL b), V3 0 0 0)"
    by (simp add: ortho.unfoldPosition_eq vec_eq_iff vmap2_def)
next
  fix p :: real3d and m :: int3d
  assume bd: "\<forall>i<3. \<bar>vnth p i\<bar> \<le> 2^30 * vnth (boxL b) i \<and> \<bar>vnth m i\<bar> < 2^30"
  have one: "\<exists>q. foldCoordinate b u w i = Some q"
    if i: "i < 3" and uw: "vnth u i = vnth p i" "vnth w i = vnth m i" for u w i
  proof -
    let ?k = "\<lfloor>vnth p i / vnth (boxL b) i\<rfloor>"
    have "\<bar>vnth p i\<bar> \<le> 2^30 * vnth (boxL b) i" using bd i by blast
    then have "- (2^30) \<le> vnth p i / vnth (boxL b) i" "vnth p i / vnth (boxL b) i \<le> 2^30"
      using bc_validD(1) [OF v i] by (auto simp: abs_le_iff field_simps)
    then have k: "- (2^30) \<le> ?k" "?k \<le> 2^30" by (auto simp: le_floor_iff floor_le_iff)
    moreover have "\<bar>vnth m i\<bar> < 2^30" using bd i by blast
    ultimately have "fits_int ?k" "fits_int (vnth m i + ?k)"
      using fits_int_add_30 by blast+
    then show ?thesis using foldCoordinate_step(1) [OF v i, of u w] uw by simp
  qed
  obtain p1 m1 where s1: "foldCoordinate b p m 0 = Some (p1, m1)" using one [of 0 p m] by auto
  have o1: "vnth p1 j = vnth p j \<and> vnth m1 j = vnth m j" if "j < 3" "j \<noteq> 0" for j
    using foldCoordinate_laws(2) [OF v _ s1 that] by simp
  obtain p2 m2 where s2: "foldCoordinate b p1 m1 1 = Some (p2, m2)"
    using one [of 1 p1 m1] o1 [of 1] by auto
  have "vnth p2 2 = vnth p 2 \<and> vnth m2 2 = vnth m 2"
    using foldCoordinate_laws(2) [OF v _ s2, of 2] o1 [of 2] by simp
  then obtain r where "foldCoordinate b p2 m2 2 = Some r" using one [of 2 p2 m2] by auto
  then show "\<exists>r. bc_foldPosition (foldCoordinate b) p m = Some r"
    using s2 by (simp add: bc_foldPosition_def s1)
qed

text \<open>
  C34.  \<^verbatim>\<open>BC::foldPosition\<close>, for both classes of boundary conditions with a valid box, brings a position into the primary box
  and loses nothing: each folded coordinate lies in \<open>[0, L)\<close>, and unfolding the folded position
  with the folded image counters gives the same point as unfolding the original one, the position plus the
  counted box lengths.  The call succeeds whenever no coordinate is more than \<open>2 ^ 30\<close> boxes away and
  the absolute value of every image counter is less than \<open>2 ^ 30\<close>.
\<close>

theorem fold_position_roundtrip:
  fixes b :: orthobc and c :: slabbc
  assumes "bc_valid b" and "bc_valid c"
  shows "folding_sound (foldCoordinate b) (unfoldCoordinate b) (boxL b)
    \<and> folding_sound (slab_foldCoordinate c) (slab_unfoldCoordinate c) (boxL c)"
  unfolding slab_fold_eq using assms by (intro conjI ortho_folding_sound)

theorem fold_position_roundtrip_witness:
  "(\<exists>r. bc_foldPosition (foldCoordinate (OrthorhombicBC_new (V3 2 2 2))) (V3 5 (- 1) 1) (V3 0 0 0) = Some r)
    \<and> (\<exists>r. bc_foldPosition (slab_foldCoordinate (SlabBC_new (V3 2 2 2))) (V3 5 (- 1) 1) (V3 0 0 0) = Some r)"
proof -
  have v: "bc_valid (OrthorhombicBC_new (V3 2 2 2))" "bc_valid (SlabBC_new (V3 2 2 2))"
    by (simp_all add: bc_valid_def OrthorhombicBC_new_def SlabBC_new_def setBoxL_def less_3_cases)
  have "\<forall>i<3. \<bar>vnth (V3 5 (- 1) 1 :: real3d) i\<bar> \<le> 2^30 * vnth (boxL (OrthorhombicBC_new (V3 2 2 2))) i
      \<and> \<bar>vnth (V3 0 0 0 :: int3d) i\<bar> < 2^30"
    "\<forall>i<3. \<bar>vnth (V3 5 (- 1) 1 :: real3d) i\<bar> \<le> 2^30 * vnth (boxL (SlabBC_new (V3 2 2 2))) i
      \<and> \<bar>vnth (V3 0 0 0 :: int3d) i\<bar> < 2^30"
    unfolding less_3_cases by (auto simp: OrthorhombicBC_new_def SlabBC_new_def setBoxL_def)
  then show ?thesis using fold_position_roundtrip [OF v] unfolding folding_sound_def by blast
qed

text \<open>
  C35.  The minimum-image vector is the shortest among all periodic images of the difference:
  component by component \<^verbatim>\<open>OrthorhombicBC::getMinimumImageVector\<close> returns an image of
  \<^verbatim>\<open>pos1 - pos2\<close> that is at most as long as every other image and at most half a box; for
  two positions the fast variant \<^verbatim>\<open>getMinimumImageVectorBox\<close> returns an image of \<^verbatim>\<open>pos1 - pos2\<close> too, whose
  component has the same absolute value if they are at most one box length apart along the coordinate, and the same value
  unless that is half a box; the array variant returns the same vector.
\<close>

theorem minimum_image_shortest:
  assumes v: "bc_valid b" and i: "i < 3"
  shows "(\<exists>k::int. vnth (ob_getMinimumImageVector b p q) i
          = vnth p i - vnth q i + of_int k * vnth (boxL b) i)
    \<and> (\<forall>k::int. \<bar>vnth (ob_getMinimumImageVector b p q) i\<bar>
          \<le> \<bar>vnth p i - vnth q i + of_int k * vnth (boxL b) i\<bar>)
    \<and> \<bar>vnth (ob_getMinimumImageVector b p q) i\<bar> \<le> vnth (boxL b) i / 2
    \<and> (\<exists>k::int. vnth (ob_getMinimumImageVectorBox b p q) i = vnth p i - vnth q i + of_int k * vnth (boxL b) i)
    \<and> (\<bar>vnth p i - vnth q i\<bar> \<le> vnth (boxL b) i \<longrightarrow>
        \<bar>vnth (ob_getMinimumImageVectorBox b p q) i\<bar> = \<bar>vnth (ob_getMinimumImageVector b p q) i\<bar>
        \<and> (\<bar>vnth (ob_getMinimumImageVector b p q) i\<bar> \<noteq> vnth (boxL b) i / 2 \<longrightarrow>
             vnth (ob_getMinimumImageVectorBox b p q) i = vnth (ob_getMinimumImageVector b p q) i))
    \<and> ob_getMinimumImageVectorX b d0 p q = ob_getMinimumImageVector b p q"
proof -
  note L = bc_validD(1) [OF v i] and eq = ob_minimumImage_vnth [OF v i]
  have "vnth (ob_getMinimumImageVector b p q) i = vnth p i - vnth q i
      + of_int (- c_round ((vnth p i - vnth q i) * (1 / vnth (boxL b) i))) * vnth (boxL b) i"
    by (simp add: eq roundImage_def)
  moreover have "ob_getMinimumImageVectorX b d0 p q = ob_getMinimumImageVector b p q"
    by (simp add: ob_getMinimumImageVectorX_def ob_getMinimumImageVector_def Let_def)
  ultimately show ?thesis
    using roundImage_nearest [OF L, of "vnth p i - vnth q i"] shiftImage_abs [OF L, of "vnth p i - vnth q i"]
      shiftImage_round [OF L, of "vnth p i - vnth q i"] shiftImage_image unfolding eq(1,2) by blast
qed

theorem minimum_image_shortest_witness:
  "\<bar>vnth (ob_getMinimumImageVector (OrthorhombicBC_new (V3 2 2 2)) (V3 5 0 0) (V3 0 1 1)) 0\<bar> \<le> 1"
proof -
  have v: "bc_valid (OrthorhombicBC_new (V3 2 2 2))"
    unfolding OrthorhombicBC_new_def by (rule setBoxL_valid) (simp add: vall_def)
  have "vnth (boxL (OrthorhombicBC_new (V3 2 2 2))) 0 = 2"
    by (simp add: OrthorhombicBC_new_def setBoxL_def)
  then show ?thesis
    using minimum_image_shortest [OF v, of 0 "V3 5 0 0" "V3 0 1 1"] by simp
qed

text \<open>
  \<^verbatim>\<open>SlabBC\<close> agrees with \<^verbatim>\<open>OrthorhombicBC\<close> in the two periodic directions and leaves the
  plain difference in the slab direction, in the three routines that return a vector; the
  array routine \<^verbatim>\<open>getMinimumImageVectorX\<close> does not: its slab component is whatever the
  caller's output array held before the call.
\<close>

theorem slab_minimum_image:
  assumes i: "i < 3"
  shows "vnth (slab_getMinimumImageVector b p q) i =
        (if i = slabDir b then vnth (p - q) i else vnth (ob_getMinimumImageVector b p q) i)
    \<and> vnth (slab_getMinimumImageVectorBox b p q) i =
        (if i = slabDir b then vnth (p - q) i else vnth (ob_getMinimumImageVectorBox b p q) i)
    \<and> vnth (slab_getMinimumDistance b p) i =
        (if i = slabDir b then vnth p i else vnth (ob_getMinimumDistance b p) i)
    \<and> vnth (slab_getMinimumImageVectorX b d0 p q) i =
        (if i = slabDir b then vnth d0 i else vnth (ob_getMinimumImageVector b p q) i)"
proof -
  have d: "vnth (p - q) i = vnth p i - vnth q i" using i by (auto simp: less_3_cases)
  show ?thesis
    unfolding slab_getMinimumImageVector_def slab_getMinimumImageVectorBox_def
      slab_getMinimumDistance_def slab_getMinimumImageVectorX_def
    unfolding slab_loop_const [OF i]
      slab_loop_vnth [OF i, of b "\<lambda>i x. roundImage x (vnth (invBoxL b) i) (vnth (boxL b) i)"]
      slab_loop_vnth [OF i, of b "\<lambda>i x. shiftImage x (vnth (boxL2 b) i) (vnth (boxL b) i)"]
      slab_loop_vnth [OF i, of b "\<lambda>i x. shiftImage x (1/2 * vnth (boxL b) i) (vnth (boxL b) i)"]
    using d by (simp add: ob_minimumImage_cases [OF i])
qed

theorem slab_minimum_image_witness:
  "vx (slab_getMinimumImageVectorX (SlabBC_new (V3 2 2 2)) (V3 77 0 0) (V3 1 0 0) (V3 0 0 0)) = 77"
  using slab_minimum_image [of 0 "SlabBC_new (V3 2 2 2)" "V3 1 0 0" "V3 0 0 0" "V3 77 0 0"]
  by (simp add: SlabBC_new_def)

end
