(* ===== verification/Particles.thy ===== *)
theory Particles
  imports Vectors
begin

unbundle bit_operations_syntax

text \<open>
  \<^verbatim>\<open>src/src/Particle.hpp\<close> and \<^verbatim>\<open>Particle.cpp\<close>: a particle is five records, one for each way
  its data travels between processes.  The change mask of \<^verbatim>\<open>ParticleProperties\<close> is kept as
  the bit mask the code has.  The fields the constructors leave uninitialised are arguments of
  the model's constructors.
\<close>

record pproperties =
  pp_id :: pid
  pp_type :: int
  pp_mass :: real
  pp_q :: real
  pp_lambda :: real
  pp_drift :: real
  pp_lambdaDeriv :: real
  pp_state :: int
  pp_res_id :: int
  pp_incr_state :: int
  pp_change_flag :: int

record pposition =
  pr_p :: real3d
  pr_radius :: real
  pr_extVar :: real

record pforce =
  pf_f :: real3d
  pf_fradius :: real

record pmomentum =
  pm_v :: real3d
  pm_vradius :: real

record plocal =
  pl_i :: int3d
  pl_ghost :: bool

record particle =
  part_p :: pproperties
  part_r :: pposition
  part_m :: pmomentum
  part_l :: plocal
  part_f :: pforce

abbreviation p_id :: "particle \<Rightarrow> pid" where "p_id x \<equiv> pp_id (part_p x)"
abbreviation p_pos :: "particle \<Rightarrow> real3d" where "p_pos x \<equiv> pr_p (part_r x)"
abbreviation p_image :: "particle \<Rightarrow> int3d" where "p_image x \<equiv> pl_i (part_l x)"
abbreviation p_ghost :: "particle \<Rightarrow> bool" where "p_ghost x \<equiv> pl_ghost (part_l x)"

section \<open>Change records\<close>

definition CHANGE_TYPE :: int where "CHANGE_TYPE = 1"
definition CHANGE_MASS :: int where "CHANGE_MASS = 2"
definition CHANGE_Q :: int where "CHANGE_Q = 4"
definition CHANGE_STATE :: int where "CHANGE_STATE = 8"
definition CHANGE_RESID :: int where "CHANGE_RESID = 16"
definition CHANGE_LAMBDA :: int where "CHANGE_LAMBDA = 32"
definition INCR_STATE :: int where "INCR_STATE = 64"

lemmas change_flag_defs = CHANGE_TYPE_def CHANGE_MASS_def CHANGE_Q_def CHANGE_STATE_def
  CHANGE_RESID_def CHANGE_LAMBDA_def INCR_STATE_def

text \<open>\<^verbatim>\<open>init\<close> leaves \<^verbatim>\<open>drift\<close> as it was.\<close>

definition pp_init :: "pproperties \<Rightarrow> pproperties" where
  "pp_init pp = pp\<lparr>pp_id := 0, pp_type := 0, pp_mass := 0, pp_q := 0, pp_lambda := 0,
     pp_lambdaDeriv := 0, pp_state := 0, pp_res_id := 0, pp_incr_state := 0,
     pp_change_flag := 0\<rparr>"

definition pp_setType :: "int \<Rightarrow> pproperties \<Rightarrow> pproperties" where
  "pp_setType t pp = pp\<lparr>pp_type := t, pp_change_flag := pp_change_flag pp OR CHANGE_TYPE\<rparr>"

definition pp_setMass :: "real \<Rightarrow> pproperties \<Rightarrow> pproperties" where
  "pp_setMass m pp = pp\<lparr>pp_mass := m, pp_change_flag := pp_change_flag pp OR CHANGE_MASS\<rparr>"

definition pp_setQ :: "real \<Rightarrow> pproperties \<Rightarrow> pproperties" where
  "pp_setQ q pp = pp\<lparr>pp_q := q, pp_change_flag := pp_change_flag pp OR CHANGE_Q\<rparr>"

definition pp_setState :: "int \<Rightarrow> pproperties \<Rightarrow> pproperties" where
  "pp_setState s pp = pp\<lparr>pp_state := s, pp_change_flag := pp_change_flag pp OR CHANGE_STATE\<rparr>"

definition pp_setIncrState :: "int \<Rightarrow> pproperties \<Rightarrow> pproperties" where
  "pp_setIncrState s pp =
     pp\<lparr>pp_incr_state := s, pp_change_flag := pp_change_flag pp OR INCR_STATE\<rparr>"

definition pp_setResId :: "int \<Rightarrow> pproperties \<Rightarrow> pproperties" where
  "pp_setResId r pp = pp\<lparr>pp_res_id := r, pp_change_flag := pp_change_flag pp OR CHANGE_RESID\<rparr>"

definition pp_setLambda :: "real \<Rightarrow> pproperties \<Rightarrow> pproperties" where
  "pp_setLambda l pp = pp\<lparr>pp_lambda := l, pp_change_flag := pp_change_flag pp OR CHANGE_LAMBDA\<rparr>"

definition pp_hasChanges :: "pproperties \<Rightarrow> bool" where
  "pp_hasChanges pp \<longleftrightarrow> pp_change_flag pp \<noteq> 0"

definition pp_eq :: "pproperties \<Rightarrow> pproperties \<Rightarrow> bool" where
  "pp_eq l r \<longleftrightarrow> pp_type l = pp_type r \<and> pp_mass l = pp_mass r \<and> pp_q l = pp_q r
     \<and> pp_state l = pp_state r \<and> pp_res_id l = pp_res_id r \<and> pp_lambda l = pp_lambda r
     \<and> pp_incr_state l = pp_incr_state r \<and> pp_change_flag l = pp_change_flag r"

definition has_flag :: "int \<Rightarrow> int \<Rightarrow> bool" where
  "has_flag c f \<longleftrightarrow> c AND f \<noteq> 0"

text \<open>The seven guarded assignments of \<^verbatim>\<open>updateParticleProperties\<close>, in the code's order.\<close>

definition updateParticleProperties :: "pproperties \<Rightarrow> particle \<Rightarrow> bool \<times> particle" where
  "updateParticleProperties pp p =
     (let c = pp_change_flag pp; q = part_p p;
          q = if has_flag c CHANGE_TYPE then q\<lparr>pp_type := pp_type pp\<rparr> else q;
          q = if has_flag c CHANGE_MASS then q\<lparr>pp_mass := pp_mass pp\<rparr> else q;
          q = if has_flag c CHANGE_Q then q\<lparr>pp_q := pp_q pp\<rparr> else q;
          q = if has_flag c CHANGE_STATE then q\<lparr>pp_state := pp_state pp\<rparr> else q;
          q = if has_flag c INCR_STATE then q\<lparr>pp_state := pp_state q + pp_incr_state pp\<rparr> else q;
          q = if has_flag c CHANGE_RESID then q\<lparr>pp_res_id := pp_res_id pp\<rparr> else q;
          q = if has_flag c CHANGE_LAMBDA then q\<lparr>pp_lambda := pp_lambda pp\<rparr> else q
      in (c \<noteq> 0, p\<lparr>part_p := q\<rparr>))"

section \<open>Particles\<close>

definition copyShifted :: "pposition \<Rightarrow> real3d \<Rightarrow> pposition" where
  "copyShifted r shift = \<lparr>pr_p = pr_p r + shift, pr_radius = pr_radius r, pr_extVar = pr_extVar r\<rparr>"

definition pforce_add :: "pforce \<Rightarrow> pforce \<Rightarrow> pforce" where
  "pforce_add a b = \<lparr>pf_f = pf_f a + pf_f b, pf_fradius = pf_fradius a + pf_fradius b\<rparr>"

text \<open>\<^verbatim>\<open>Particle::init\<close>: the fields it does not mention keep their old value.\<close>

definition particle_init :: "particle \<Rightarrow> particle" where
  "particle_init x =
     x\<lparr>part_m := \<lparr>pm_v = V3 0 0 0, pm_vradius = 0\<rparr>,
       part_p := (part_p x)\<lparr>pp_type := 0, pp_mass := 1, pp_q := 0, pp_lambda := 0, pp_drift := 0,
          pp_lambdaDeriv := 0, pp_state := 0, pp_res_id := 0\<rparr>,
       part_r := (part_r x)\<lparr>pr_radius := 1, pr_extVar := 0\<rparr>,
       part_f := (part_f x)\<lparr>pf_fradius := 0\<rparr>,
       part_l := (part_l x)\<lparr>pl_ghost := False\<rparr>\<rparr>"

definition DATA_PROPERTIES :: int where "DATA_PROPERTIES = 1"
definition DATA_MOMENTUM :: int where "DATA_MOMENTUM = 2"
definition DATA_LOCAL :: int where "DATA_LOCAL = 4"

lemmas data_flag_defs = DATA_PROPERTIES_def DATA_MOMENTUM_def DATA_LOCAL_def

definition set_ghost :: "bool \<Rightarrow> particle \<Rightarrow> particle" where
  "set_ghost g x = x\<lparr>part_l := (part_l x)\<lparr>pl_ghost := g\<rparr>\<rparr>"

definition copyAsGhost :: "particle \<Rightarrow> particle \<Rightarrow> int \<Rightarrow> real3d \<Rightarrow> particle" where
  "copyAsGhost dst src extradata shift =
     (let x = dst\<lparr>part_r := copyShifted (part_r src) shift\<rparr>;
          x = if has_flag extradata DATA_PROPERTIES then x\<lparr>part_p := part_p src\<rparr> else x;
          x = if has_flag extradata DATA_MOMENTUM then x\<lparr>part_m := part_m src\<rparr> else x;
          x = if has_flag extradata DATA_LOCAL then x\<lparr>part_l := part_l src\<rparr> else x
      in set_ghost True x)"

definition particle_less :: "particle \<Rightarrow> particle \<Rightarrow> bool" where
  "particle_less a b \<longleftrightarrow> p_id a < p_id b"

definition setPos :: "particle \<Rightarrow> real3d \<Rightarrow> particle" where
  "setPos x pos = x\<lparr>part_r := (part_r x)\<lparr>pr_p := pos\<rparr>\<rparr>"

definition setImage :: "particle \<Rightarrow> int3d \<Rightarrow> particle" where
  "setImage x img = x\<lparr>part_l := (part_l x)\<lparr>pl_i := img\<rparr>\<rparr>"

definition setId :: "particle \<Rightarrow> pid \<Rightarrow> particle" where
  "setId x i = x\<lparr>part_p := (part_p x)\<lparr>pp_id := i\<rparr>\<rparr>"

lemma setPos_sel [simp]: "p_pos (setPos x v) = v" "p_id (setPos x v) = p_id x"
  "p_ghost (setPos x v) = p_ghost x" "p_image (setPos x v) = p_image x"
  by (simp_all add: setPos_def)

lemma setImage_sel [simp]: "p_pos (setImage x v) = p_pos x" "p_id (setImage x v) = p_id x"
  "p_ghost (setImage x v) = p_ghost x" "p_image (setImage x v) = v"
  by (simp_all add: setImage_def)

lemma setId_sel [simp]: "p_pos (setId x i) = p_pos x" "p_id (setId x i) = i"
  "p_ghost (setId x i) = p_ghost x"
  by (simp_all add: setId_def)

lemma set_ghost_sel [simp]: "p_pos (set_ghost g x) = p_pos x" "p_id (set_ghost g x) = p_id x"
  "p_ghost (set_ghost g x) = g" "part_p (set_ghost g x) = part_p x"
  "part_r (set_ghost g x) = part_r x" "part_f (set_ghost g x) = part_f x"
  "part_m (set_ghost g x) = part_m x"
  by (simp_all add: set_ghost_def)

lemma particle_init_sel [simp]: "p_id (particle_init x) = p_id x"
  "p_pos (particle_init x) = p_pos x" "p_ghost (particle_init x) = False"
  by (simp_all add: particle_init_def)

section \<open>Masks\<close>

lemma has_flag_0 [simp]: "has_flag 0 f \<longleftrightarrow> False"
  by (simp add: has_flag_def)

lemma has_flag_or: "has_flag (c OR d) f \<longleftrightarrow> has_flag c f \<or> has_flag d f"
proof -
  have "(c OR d) AND f = (c AND f) OR (d AND f)" by (rule bit.conj_disj_distrib2)
  then show ?thesis by (simp add: has_flag_def or_eq_0_iff)
qed

text \<open>A batch of setter calls on a fresh change record, and the last value each one set.\<close>

datatype prop_op = SetType int | SetMass real | SetQ real | SetState int | SetIncrState int
  | SetResId int | SetLambda real

fun apply_op :: "prop_op \<Rightarrow> pproperties \<Rightarrow> pproperties" where
  "apply_op (SetType t) = pp_setType t"
| "apply_op (SetMass m) = pp_setMass m"
| "apply_op (SetQ q) = pp_setQ q"
| "apply_op (SetState s) = pp_setState s"
| "apply_op (SetIncrState s) = pp_setIncrState s"
| "apply_op (SetResId r) = pp_setResId r"
| "apply_op (SetLambda l) = pp_setLambda l"

fun last_set :: "(prop_op \<Rightarrow> 'a option) \<Rightarrow> 'a option \<Rightarrow> prop_op list \<Rightarrow> 'a option" where
  "last_set f a [] = a"
| "last_set f a (x # xs) = last_set f (case f x of None \<Rightarrow> a | Some b \<Rightarrow> Some b) xs"

definition or_else :: "'a option \<Rightarrow> 'a \<Rightarrow> 'a" where
  "or_else m d = (case m of None \<Rightarrow> d | Some x \<Rightarrow> x)"

fun op_type where "op_type (SetType t) = Some t" | "op_type _ = None"
fun op_mass where "op_mass (SetMass t) = Some t" | "op_mass _ = None"
fun op_q where "op_q (SetQ t) = Some t" | "op_q _ = None"
fun op_state where "op_state (SetState t) = Some t" | "op_state _ = None"
fun op_incr where "op_incr (SetIncrState t) = Some t" | "op_incr _ = None"
fun op_resid where "op_resid (SetResId t) = Some t" | "op_resid _ = None"
fun op_lambda where "op_lambda (SetLambda t) = Some t" | "op_lambda _ = None"

text \<open>One field of the record: its flag is set exactly when the field was set, to that value.\<close>

definition tracks :: "int \<Rightarrow> (pproperties \<Rightarrow> 'a) \<Rightarrow> pproperties \<Rightarrow> 'a option \<Rightarrow> bool" where
  "tracks flag sel pp m \<longleftrightarrow> (case m of None \<Rightarrow> \<not> has_flag (pp_change_flag pp) flag
     | Some a \<Rightarrow> has_flag (pp_change_flag pp) flag \<and> sel pp = a)"

lemma flag_disjoint [simp]:
  "has_flag CHANGE_TYPE CHANGE_TYPE" "has_flag CHANGE_MASS CHANGE_MASS"
  "has_flag CHANGE_Q CHANGE_Q" "has_flag CHANGE_STATE CHANGE_STATE"
  "has_flag CHANGE_RESID CHANGE_RESID" "has_flag CHANGE_LAMBDA CHANGE_LAMBDA"
  "has_flag INCR_STATE INCR_STATE"
  "\<not> has_flag CHANGE_TYPE CHANGE_MASS" "\<not> has_flag CHANGE_TYPE CHANGE_Q"
  "\<not> has_flag CHANGE_TYPE CHANGE_STATE" "\<not> has_flag CHANGE_TYPE CHANGE_RESID"
  "\<not> has_flag CHANGE_TYPE CHANGE_LAMBDA" "\<not> has_flag CHANGE_TYPE INCR_STATE"
  "\<not> has_flag CHANGE_MASS CHANGE_TYPE" "\<not> has_flag CHANGE_MASS CHANGE_Q"
  "\<not> has_flag CHANGE_MASS CHANGE_STATE" "\<not> has_flag CHANGE_MASS CHANGE_RESID"
  "\<not> has_flag CHANGE_MASS CHANGE_LAMBDA" "\<not> has_flag CHANGE_MASS INCR_STATE"
  "\<not> has_flag CHANGE_Q CHANGE_TYPE" "\<not> has_flag CHANGE_Q CHANGE_MASS"
  "\<not> has_flag CHANGE_Q CHANGE_STATE" "\<not> has_flag CHANGE_Q CHANGE_RESID"
  "\<not> has_flag CHANGE_Q CHANGE_LAMBDA" "\<not> has_flag CHANGE_Q INCR_STATE"
  "\<not> has_flag CHANGE_STATE CHANGE_TYPE" "\<not> has_flag CHANGE_STATE CHANGE_MASS"
  "\<not> has_flag CHANGE_STATE CHANGE_Q" "\<not> has_flag CHANGE_STATE CHANGE_RESID"
  "\<not> has_flag CHANGE_STATE CHANGE_LAMBDA" "\<not> has_flag CHANGE_STATE INCR_STATE"
  "\<not> has_flag CHANGE_RESID CHANGE_TYPE" "\<not> has_flag CHANGE_RESID CHANGE_MASS"
  "\<not> has_flag CHANGE_RESID CHANGE_Q" "\<not> has_flag CHANGE_RESID CHANGE_STATE"
  "\<not> has_flag CHANGE_RESID CHANGE_LAMBDA" "\<not> has_flag CHANGE_RESID INCR_STATE"
  "\<not> has_flag CHANGE_LAMBDA CHANGE_TYPE" "\<not> has_flag CHANGE_LAMBDA CHANGE_MASS"
  "\<not> has_flag CHANGE_LAMBDA CHANGE_Q" "\<not> has_flag CHANGE_LAMBDA CHANGE_STATE"
  "\<not> has_flag CHANGE_LAMBDA CHANGE_RESID" "\<not> has_flag CHANGE_LAMBDA INCR_STATE"
  "\<not> has_flag INCR_STATE CHANGE_TYPE" "\<not> has_flag INCR_STATE CHANGE_MASS"
  "\<not> has_flag INCR_STATE CHANGE_Q" "\<not> has_flag INCR_STATE CHANGE_STATE"
  "\<not> has_flag INCR_STATE CHANGE_RESID" "\<not> has_flag INCR_STATE CHANGE_LAMBDA"
  by (simp_all add: has_flag_def change_flag_defs)

lemmas prop_setter_defs = pp_setType_def pp_setMass_def pp_setQ_def pp_setState_def
  pp_setIncrState_def pp_setResId_def pp_setLambda_def

definition tracks_all :: "pproperties \<Rightarrow> (prop_op list) \<Rightarrow> bool" where
  "tracks_all pp ops \<longleftrightarrow> tracks CHANGE_TYPE pp_type pp (last_set op_type None ops)
     \<and> tracks CHANGE_MASS pp_mass pp (last_set op_mass None ops)
     \<and> tracks CHANGE_Q pp_q pp (last_set op_q None ops)
     \<and> tracks CHANGE_STATE pp_state pp (last_set op_state None ops)
     \<and> tracks INCR_STATE pp_incr_state pp (last_set op_incr None ops)
     \<and> tracks CHANGE_RESID pp_res_id pp (last_set op_resid None ops)
     \<and> tracks CHANGE_LAMBDA pp_lambda pp (last_set op_lambda None ops)"

lemma last_set_append:
  "last_set f a (xs @ [x]) = (case f x of None \<Rightarrow> last_set f a xs | Some b \<Rightarrow> Some b)"
  by (induction xs arbitrary: a) (auto split: option.split)

lemma tracks_all_init: "tracks_all (pp_init pp) []"
  by (simp add: tracks_all_def tracks_def pp_init_def)

lemma tracks_all_step:
  assumes "tracks_all pp ops"
  shows "tracks_all (apply_op x pp) (ops @ [x])"
  using assms unfolding tracks_all_def last_set_append
  by (cases x) (auto simp: tracks_def prop_setter_defs has_flag_or split: option.splits)

lemma tracks_all_fold: "tracks_all pp pre \<Longrightarrow> tracks_all (fold apply_op ops pp) (pre @ ops)"
proof (induction ops arbitrary: pp pre)
  case (Cons x ops)
  from Cons.IH [OF tracks_all_step [OF Cons.prems]] show ?case by simp
qed simp

text \<open>A guarded assignment of one field is an assignment of a guarded value.\<close>

lemma guarded_update:
  "(if b then q\<lparr>pp_type := t\<rparr> else q) = q\<lparr>pp_type := if b then t else pp_type q\<rparr>"
  "(if b then q\<lparr>pp_mass := m\<rparr> else q) = q\<lparr>pp_mass := if b then m else pp_mass q\<rparr>"
  "(if b then q\<lparr>pp_q := m\<rparr> else q) = q\<lparr>pp_q := if b then m else pp_q q\<rparr>"
  "(if b then q\<lparr>pp_state := t\<rparr> else q) = q\<lparr>pp_state := if b then t else pp_state q\<rparr>"
  "(if b then q\<lparr>pp_res_id := t\<rparr> else q) = q\<lparr>pp_res_id := if b then t else pp_res_id q\<rparr>"
  "(if b then q\<lparr>pp_lambda := m\<rparr> else q) = q\<lparr>pp_lambda := if b then m else pp_lambda q\<rparr>"
  for q :: pproperties
  by simp_all

lemma tracks_value:
  "tracks F sel pp m \<Longrightarrow> (if has_flag (pp_change_flag pp) F then sel pp else d) = or_else m d"
  by (auto simp: tracks_def or_else_def split: option.splits)

lemma tracks_add:
  "tracks F sel pp m \<Longrightarrow>
     (if has_flag (pp_change_flag pp) F then d + sel pp else d) = d + or_else m 0" for d :: int
  by (auto simp: tracks_def or_else_def split: option.splits)

lemma updateParticleProperties_eq:
  assumes "tracks_all pp ops"
  shows "snd (updateParticleProperties pp p) = p\<lparr>part_p := (part_p p)\<lparr>
      pp_type := or_else (last_set op_type None ops) (pp_type (part_p p)),
      pp_mass := or_else (last_set op_mass None ops) (pp_mass (part_p p)),
      pp_q := or_else (last_set op_q None ops) (pp_q (part_p p)),
      pp_state := or_else (last_set op_state None ops) (pp_state (part_p p))
        + or_else (last_set op_incr None ops) 0,
      pp_res_id := or_else (last_set op_resid None ops) (pp_res_id (part_p p)),
      pp_lambda := or_else (last_set op_lambda None ops) (pp_lambda (part_p p))\<rparr>\<rparr>"
proof -
  from assms have t: "tracks CHANGE_TYPE pp_type pp (last_set op_type None ops)"
      "tracks CHANGE_MASS pp_mass pp (last_set op_mass None ops)"
      "tracks CHANGE_Q pp_q pp (last_set op_q None ops)"
      "tracks CHANGE_STATE pp_state pp (last_set op_state None ops)"
      "tracks INCR_STATE pp_incr_state pp (last_set op_incr None ops)"
      "tracks CHANGE_RESID pp_res_id pp (last_set op_resid None ops)"
      "tracks CHANGE_LAMBDA pp_lambda pp (last_set op_lambda None ops)"
    by (simp_all add: tracks_all_def)
  show ?thesis
    unfolding updateParticleProperties_def Let_def guarded_update snd_conv
      t(1-4,6,7) [THEN tracks_value] t(5) [THEN tracks_add]
    by simp
qed

section \<open>Properties\<close>

text \<open>
  A change record applies exactly the changes that were recorded: after \<^verbatim>\<open>init\<close> and any
  sequence of setter calls, \<^verbatim>\<open>updateParticleProperties\<close> writes into a particle the last value
  set for each field (adding the last increment to the state after a state change) and
  leaves every field that was never set, and all other data of the particle, untouched.
\<close>

theorem change_record_applies:
  "snd (updateParticleProperties (fold apply_op ops (pp_init pp)) p) = p\<lparr>part_p := (part_p p)\<lparr>
      pp_type := or_else (last_set op_type None ops) (pp_type (part_p p)),
      pp_mass := or_else (last_set op_mass None ops) (pp_mass (part_p p)),
      pp_q := or_else (last_set op_q None ops) (pp_q (part_p p)),
      pp_state := or_else (last_set op_state None ops) (pp_state (part_p p))
        + or_else (last_set op_incr None ops) 0,
      pp_res_id := or_else (last_set op_resid None ops) (pp_res_id (part_p p)),
      pp_lambda := or_else (last_set op_lambda None ops) (pp_lambda (part_p p))\<rparr>\<rparr>"
  using updateParticleProperties_eq [OF tracks_all_fold [OF tracks_all_init, of ops pp]] by simp

end
