(* ===== verification/Buffers.thy ===== *)
theory Buffers
  imports Particles
begin

text \<open>
  \<^verbatim>\<open>src/src/BufferDynamic.hpp\<close>: the communication buffers.  The bytes of a buffer are the
  sequence of the objects written to it, each with its \<^verbatim>\<open>sizeof\<close> (LP64), beside the counters
  \<^verbatim>\<open>capacity\<close>, \<^verbatim>\<open>usedSize\<close> and \<^verbatim>\<open>pos\<close> that the code keeps.  Reading an object of another type
  than the one written at that position would reinterpret bytes; the model reports it as the
  error \<open>Reinterpreted\<close>.  Reading past the end is the \<^verbatim>\<open>exit(-1)\<close> of the code.
  On the writing side \<open>None\<close> is a signed overflow of a byte count.
\<close>

datatype item = IInt int | IReal real | IPos pposition | IProp pproperties | IMom pmomentum
  | ILocal plocal | IForce pforce | IPart particle

fun sizeof_item :: "item \<Rightarrow> int" where
  "sizeof_item (IInt _) = 4"
| "sizeof_item (IReal _) = 8"
| "sizeof_item (IPos _) = 40"
| "sizeof_item (IProp _) = 72"
| "sizeof_item (IMom _) = 32"
| "sizeof_item (ILocal _) = 16"
| "sizeof_item (IForce _) = 32"
| "sizeof_item (IPart _) = 192"

definition bytes :: "item list \<Rightarrow> int" where
  "bytes xs = sum_list (map sizeof_item xs)"

definition BUFFER_SIZE :: int where
  "BUFFER_SIZE = 256"

record buffer =
  b_items :: "item list"
  b_capacity :: int
  b_used :: int
  b_pos :: int

definition Buffer_new :: buffer where
  "Buffer_new = \<lparr>b_items = [], b_capacity = BUFFER_SIZE, b_used = 0, b_pos = 0\<rparr>"

definition buf_reset :: "buffer \<Rightarrow> buffer" where
  "buf_reset b = b\<lparr>b_items := [], b_used := 0, b_pos := 0\<rparr>"

text \<open>
  The loop of \<^verbatim>\<open>allocate\<close> copies the first \<^verbatim>\<open>usedSize\<close> bytes, counted by \<open>left\<close>; an object is in the
  new block when all of its bytes are, and what lies behind them is lost with the old block.
\<close>

fun copy_used :: "int \<Rightarrow> item list \<Rightarrow> item list" where
  "copy_used left [] = []"
| "copy_used left (x # xs) = (if sizeof_item x \<le> left then x # copy_used (left - sizeof_item x) xs else [])"

definition buf_allocate :: "int \<Rightarrow> buffer \<Rightarrow> buffer" where
  "buf_allocate n b = b\<lparr>b_capacity := n, b_items := copy_used (b_used b) (b_items b)\<rparr>"

definition buf_extend :: "int \<Rightarrow> buffer \<Rightarrow> buffer option" where
  "buf_extend n b =
     (if n \<le> b_capacity b then Some b
      else if n < 1024 then Some (buf_allocate 1024 b)
      else if fits_int (2 * n) then Some (buf_allocate (2 * n) b) else None)"

section \<open>Writing\<close>

definition writeAll :: "item \<Rightarrow> buffer \<Rightarrow> buffer option" where
  "writeAll x b =
     do { n \<leftarrow> add_int (b_pos b) (sizeof_item x);
          b \<leftarrow> buf_extend n b;
          Some (b\<lparr>b_items := b_items b @ [x], b_pos := n, b_used := n\<rparr>) }"

fun writeSeq :: "item list \<Rightarrow> buffer \<Rightarrow> buffer option" where
  "writeSeq [] b = Some b"
| "writeSeq (x # xs) b = do { b \<leftarrow> writeAll x b; writeSeq xs b }"

definition write_int :: "int \<Rightarrow> buffer \<Rightarrow> buffer option" where
  "write_int v = writeAll (IInt v)"

definition write_real :: "real \<Rightarrow> buffer \<Rightarrow> buffer option" where
  "write_real v = writeAll (IReal v)"

definition write_force :: "pforce \<Rightarrow> buffer \<Rightarrow> buffer option" where
  "write_force f = writeAll (IForce f)"

definition write_properties :: "pproperties \<Rightarrow> buffer \<Rightarrow> buffer option" where
  "write_properties pp = writeAll (IProp pp)"

definition write_particle :: "particle \<Rightarrow> buffer \<Rightarrow> buffer option" where
  "write_particle p = writeAll (IPart p)"

definition write_particle_data :: "particle \<Rightarrow> int \<Rightarrow> real3d \<Rightarrow> buffer \<Rightarrow> buffer option" where
  "write_particle_data p extradata shift b =
     do { b \<leftarrow> writeAll (IPos (copyShifted (part_r p) shift)) b;
          b \<leftarrow> (if has_flag extradata DATA_PROPERTIES then writeAll (IProp (part_p p)) b else Some b);
          b \<leftarrow> (if has_flag extradata DATA_MOMENTUM then writeAll (IMom (part_m p)) b else Some b);
          (if has_flag extradata DATA_LOCAL then writeAll (ILocal (part_l p)) b else Some b) }"

fun write_each_int :: "int list \<Rightarrow> buffer \<Rightarrow> buffer option" where
  "write_each_int [] b = Some b"
| "write_each_int (v # vs) b = do { b \<leftarrow> write_int v b; write_each_int vs b }"

definition write_ints :: "int list \<Rightarrow> buffer \<Rightarrow> buffer option" where
  "write_ints v b =
     (if int (length v) \<le> INT_MAX
      then do { b \<leftarrow> write_int (int (length v)) b; write_each_int v b } else None)"

fun write_each_real :: "real list \<Rightarrow> buffer \<Rightarrow> buffer option" where
  "write_each_real [] b = Some b"
| "write_each_real (v # vs) b = do { b \<leftarrow> write_real v b; write_each_real vs b }"

definition write_reals :: "real list \<Rightarrow> buffer \<Rightarrow> buffer option" where
  "write_reals v b =
     (if int (length v) \<le> INT_MAX
      then do { b \<leftarrow> write_int (int (length v)) b; write_each_real v b } else None)"

text \<open>A message is what \<^verbatim>\<open>comm.send(receiver, tag, buf, pos)\<close> transfers.\<close>

record message =
  m_items :: "item list"
  m_bytes :: int

definition buf_send :: "buffer \<Rightarrow> message" where
  "buf_send b = \<lparr>m_items = b_items b, m_bytes = b_pos b\<rparr>"

section \<open>Reading\<close>

datatype read_error = Insufficient | Reinterpreted | BadLength

definition ebind :: "'e + 'a \<Rightarrow> ('a \<Rightarrow> 'e + 'b) \<Rightarrow> 'e + 'b" where
  "ebind m f = (case m of Inl e \<Rightarrow> Inl e | Inr x \<Rightarrow> f x)"

lemma ebind_simps [simp]: "ebind (Inl e) f = Inl e" "ebind (Inr x) f = f x"
  by (simp_all add: ebind_def)

lemma ebind_Inr_iff: "ebind m f = Inr y \<longleftrightarrow> (\<exists>x. m = Inr x \<and> f x = Inr y)"
  by (cases m) auto

definition buf_recv :: "message \<Rightarrow> buffer \<Rightarrow> buffer" where
  "buf_recv m b =
     (let b = (if m_bytes m > b_capacity b then buf_allocate (m_bytes m) b else b)
      in b\<lparr>b_items := m_items m, b_used := m_bytes m, b_pos := 0\<rparr>)"

definition readAll :: "int \<Rightarrow> (item \<Rightarrow> 'a option) \<Rightarrow> buffer \<Rightarrow> read_error + 'a \<times> buffer" where
  "readAll n sel b =
     (let p = b_pos b + n in
      if p > b_used b then Inl Insufficient
      else case b_items b of [] \<Rightarrow> Inl Reinterpreted
        | x # xs \<Rightarrow> (case sel x of None \<Rightarrow> Inl Reinterpreted
            | Some a \<Rightarrow> Inr (a, b\<lparr>b_items := xs, b_pos := p\<rparr>)))"

fun item_int where "item_int (IInt v) = Some v" | "item_int _ = None"
fun item_real where "item_real (IReal v) = Some v" | "item_real _ = None"
fun item_pos where "item_pos (IPos v) = Some v" | "item_pos _ = None"
fun item_prop where "item_prop (IProp v) = Some v" | "item_prop _ = None"
fun item_mom where "item_mom (IMom v) = Some v" | "item_mom _ = None"
fun item_local where "item_local (ILocal v) = Some v" | "item_local _ = None"
fun item_force where "item_force (IForce v) = Some v" | "item_force _ = None"
fun item_part where "item_part (IPart v) = Some v" | "item_part _ = None"

definition read_int :: "buffer \<Rightarrow> read_error + int \<times> buffer" where
  "read_int = readAll 4 item_int"

definition read_real :: "buffer \<Rightarrow> read_error + real \<times> buffer" where
  "read_real = readAll 8 item_real"

definition read_force :: "buffer \<Rightarrow> read_error + pforce \<times> buffer" where
  "read_force = readAll 32 item_force"

definition read_properties :: "buffer \<Rightarrow> read_error + pproperties \<times> buffer" where
  "read_properties = readAll 72 item_prop"

definition read_particle :: "buffer \<Rightarrow> read_error + particle \<times> buffer" where
  "read_particle = readAll 192 item_part"

definition read_if :: "bool \<Rightarrow> (buffer \<Rightarrow> read_error + 'a \<times> buffer) \<Rightarrow> ('a \<Rightarrow> 's \<Rightarrow> 's) \<Rightarrow>
    's \<times> buffer \<Rightarrow> read_error + 's \<times> buffer" where
  "read_if c rd put s =
     (if c then ebind (rd (snd s)) (\<lambda>(a, b). Inr (put a (fst s), b)) else Inr s)"

definition read_particle_data :: "particle \<Rightarrow> int \<Rightarrow> buffer \<Rightarrow> read_error + particle \<times> buffer" where
  "read_particle_data p extradata b =
     ebind (read_if True (readAll 40 item_pos) (\<lambda>r p. p\<lparr>part_r := r\<rparr>) (p, b))
     (\<lambda>s. ebind (read_if (has_flag extradata DATA_PROPERTIES) (readAll 72 item_prop)
            (\<lambda>q p. p\<lparr>part_p := q\<rparr>) s)
     (\<lambda>s. ebind (read_if (has_flag extradata DATA_MOMENTUM) (readAll 32 item_mom)
            (\<lambda>m p. p\<lparr>part_m := m\<rparr>) s)
     (\<lambda>s. read_if (has_flag extradata DATA_LOCAL) (readAll 16 item_local)
            (\<lambda>l p. p\<lparr>part_l := l\<rparr>) s)))"

text \<open>The loops \<^verbatim>\<open>for (i = 0; i < nvals; i++)\<close>; \<^verbatim>\<open>reserve\<close> of a negative count throws.\<close>

fun read_times :: "nat \<Rightarrow> (buffer \<Rightarrow> read_error + 'a \<times> buffer) \<Rightarrow> buffer \<Rightarrow>
    read_error + 'a list \<times> buffer" where
  "read_times 0 rd b = Inr ([], b)"
| "read_times (Suc n) rd b =
     ebind (rd b) (\<lambda>(x, b). ebind (read_times n rd b) (\<lambda>(xs, b). Inr (x # xs, b)))"

definition read_ints :: "buffer \<Rightarrow> read_error + int list \<times> buffer" where
  "read_ints b = ebind (read_int b) (\<lambda>(nvals, b).
     if nvals < 0 then Inl BadLength else read_times (nat nvals) read_int b)"

definition read_reals :: "buffer \<Rightarrow> read_error + real list \<times> buffer" where
  "read_reals b = ebind (read_int b) (\<lambda>(nvals, b).
     if nvals < 0 then Inl BadLength else read_times (nat nvals) read_real b)"

section \<open>Consistent buffers\<close>

lemma sizeof_item_pos [simp]: "0 < sizeof_item x"
  by (cases x) auto

lemma bytes_simps [simp]: "bytes [] = 0" "bytes (x # xs) = sizeof_item x + bytes xs"
  "bytes (xs @ ys) = bytes xs + bytes ys"
  by (simp_all add: bytes_def)

lemma bytes_nonneg [simp]: "0 \<le> bytes xs"
  by (induction xs) (simp_all add: add_nonneg_nonneg less_imp_le)

definition out_ok :: "buffer \<Rightarrow> bool" where
  "out_ok b \<longleftrightarrow> b_pos b = bytes (b_items b) \<and> b_used b = b_pos b \<and> b_used b \<le> b_capacity b
     \<and> 0 < b_capacity b"

definition in_ok :: "buffer \<Rightarrow> bool" where
  "in_ok b \<longleftrightarrow> b_used b = b_pos b + bytes (b_items b) \<and> b_used b \<le> b_capacity b"

lemma copy_used_all [simp]: "copy_used (bytes xs) xs = xs"
  by (induction xs) simp_all

lemma Buffer_new_ok [simp]: "out_ok Buffer_new" "in_ok Buffer_new"
  by (simp_all add: out_ok_def in_ok_def Buffer_new_def BUFFER_SIZE_def)

lemma buf_reset_ok [simp]: "0 < b_capacity b \<Longrightarrow> out_ok (buf_reset b)"
  by (simp add: out_ok_def buf_reset_def)

lemma buf_reset_items [simp]: "b_items (buf_reset b) = []"
  by (simp add: buf_reset_def)

lemma writeAll_Some:
  assumes "writeAll x b = Some b'" and "out_ok b"
  shows "out_ok b'" "b_items b' = b_items b @ [x]"
  using assms
  by (auto simp: writeAll_def buf_extend_def buf_allocate_def out_ok_def bind_eq_Some_conv
      split: if_splits)

text \<open>A write succeeds while the byte count stays below half the range of \<^verbatim>\<open>int\<close>.\<close>

lemma writeAll_total:
  assumes "out_ok b" and "2 * (b_pos b + sizeof_item x) \<le> INT_MAX"
  shows "\<exists>b'. writeAll x b = Some b'"
proof -
  have "0 \<le> b_pos b" "0 < sizeof_item x" using assms(1) by (auto simp: out_ok_def)
  then have "0 \<le> b_pos b + sizeof_item x" by linarith
  with assms(2) have f: "fits_int (b_pos b + sizeof_item x)"
      "fits_int (2 * (b_pos b + sizeof_item x))"
    using fits_int_half by blast+
  then show ?thesis by (simp add: writeAll_def add_int_def buf_extend_def)
qed

lemma writeSeq_append: "writeSeq (xs @ ys) b = do { b \<leftarrow> writeSeq xs b; writeSeq ys b }"
  by (induction xs arbitrary: b) (auto simp: bind_eq_None_conv split: bind_splits)

lemma writeSeq_Some:
  assumes "writeSeq xs b = Some b'" and "out_ok b"
  shows "out_ok b' \<and> b_items b' = b_items b @ xs"
  using assms
proof (induction xs arbitrary: b)
  case (Cons x xs)
  from Cons.prems(1) obtain c where c: "writeAll x b = Some c" "writeSeq xs c = Some b'"
    by (auto simp: bind_eq_Some_conv)
  from writeAll_Some [OF c(1) Cons.prems(2)] Cons.IH [OF c(2)] show ?case by simp
qed simp

lemma writeSeq_total:
  assumes "out_ok b" and "2 * (b_pos b + bytes xs) \<le> INT_MAX"
  shows "\<exists>b'. writeSeq xs b = Some b'"
  using assms
proof (induction xs arbitrary: b)
  case (Cons x xs)
  have "2 * (b_pos b + sizeof_item x) \<le> INT_MAX"
    using Cons.prems(2) bytes_nonneg [of xs] by (simp del: bytes_nonneg)
  then obtain c where c: "writeAll x b = Some c" using writeAll_total Cons.prems(1) by blast
  note ok = writeAll_Some [OF c Cons.prems(1)]
  have "b_pos c = b_pos b + sizeof_item x"
    using ok Cons.prems(1) by (simp add: out_ok_def)
  then show ?case using Cons.IH [OF ok(1)] Cons.prems(2) c by simp
qed simp

text \<open>Every write of the class is a sequence of items.\<close>

lemma writeSeq_fun: "writeSeq [] = Some" "writeSeq (x # xs) = (\<lambda>b. writeAll x b \<bind> writeSeq xs)"
  by (simp_all add: fun_eq_iff)

lemma write_each_int_seq: "write_each_int vs = writeSeq (map IInt vs)"
  by (induction vs) (simp_all add: write_int_def writeSeq_fun ext)

lemma write_each_real_seq: "write_each_real vs = writeSeq (map IReal vs)"
  by (induction vs) (simp_all add: write_real_def writeSeq_fun ext)

lemma write_ints_seq:
  "write_ints vs b = (if int (length vs) \<le> INT_MAX
     then writeSeq (IInt (int (length vs)) # map IInt vs) b else None)"
  by (simp add: write_ints_def write_int_def write_each_int_seq)

lemma write_reals_seq:
  "write_reals vs b = (if int (length vs) \<le> INT_MAX
     then writeSeq (IInt (int (length vs)) # map IReal vs) b else None)"
  by (simp add: write_reals_def write_int_def write_each_real_seq)

definition particle_items :: "particle \<Rightarrow> int \<Rightarrow> real3d \<Rightarrow> item list" where
  "particle_items p extradata shift =
     [IPos (copyShifted (part_r p) shift)]
     @ (if has_flag extradata DATA_PROPERTIES then [IProp (part_p p)] else [])
     @ (if has_flag extradata DATA_MOMENTUM then [IMom (part_m p)] else [])
     @ (if has_flag extradata DATA_LOCAL then [ILocal (part_l p)] else [])"

lemma write_particle_data_seq:
  "write_particle_data p extradata shift b = writeSeq (particle_items p extradata shift) b"
  by (simp add: write_particle_data_def particle_items_def writeSeq_fun)

lemma read_step:
  assumes "in_ok b" and "b_items b = x # xs" and "sel x = Some a" and "sizeof_item x = n"
  shows "\<exists>b'. readAll n sel b = Inr (a, b') \<and> in_ok b' \<and> b_items b' = xs"
proof -
  have "b_pos b + n \<le> b_used b"
  proof -
    have "b_used b = b_pos b + (n + bytes xs)" using assms(1,2,4) by (simp add: in_ok_def)
    then show ?thesis using bytes_nonneg [of xs] by linarith
  qed
  then have "readAll n sel b = Inr (a, b\<lparr>b_items := xs, b_pos := b_pos b + n\<rparr>)"
    using assms(2,3) by (simp add: readAll_def)
  with assms(1,2,4) show ?thesis by (simp add: in_ok_def)
qed

lemma buf_recv_send:
  assumes "out_ok b"
  shows "in_ok (buf_recv (buf_send b) c)" "b_items (buf_recv (buf_send b) c) = b_items b"
  using assms by (auto simp: buf_recv_def buf_send_def in_ok_def out_ok_def buf_allocate_def Let_def)

section \<open>The contract of a transferable value\<close>

locale codec =
  fixes enc :: "'a \<Rightarrow> item list"
    and rd :: "buffer \<Rightarrow> read_error + 'a \<times> buffer"
  assumes rd_enc: "in_ok b \<Longrightarrow> b_items b = enc x @ rest \<Longrightarrow>
      \<exists>b'. rd b = Inr (x, b') \<and> in_ok b' \<and> b_items b' = rest"
begin

lemma read_times_enc:
  assumes "in_ok b" and "b_items b = concat (map enc xs) @ rest"
  shows "\<exists>b'. read_times (length xs) rd b = Inr (xs, b') \<and> in_ok b' \<and> b_items b' = rest"
  using assms
proof (induction xs arbitrary: b)
  case (Cons x xs)
  then obtain c where c: "rd b = Inr (x, c)" "in_ok c" "b_items c = concat (map enc xs) @ rest"
    using rd_enc [of b x "concat (map enc xs) @ rest"] by auto
  from Cons.IH [OF c(2,3)] c(1) show ?case by auto
qed simp

lemma message_roundtrip:
  assumes "writeSeq (enc x) b = Some b'" and "out_ok b" and "b_items b = []"
  shows "\<exists>c'. rd (buf_recv (buf_send b') c) = Inr (x, c') \<and> in_ok c' \<and> b_items c' = []"
proof -
  have "out_ok b'" "b_items b' = enc x @ []"
    using writeSeq_Some [OF assms(1,2)] assms(3) by simp_all
  with buf_recv_send [of b' c] show ?thesis by (intro rd_enc) simp_all
qed

end

interpretation int_codec: codec "\<lambda>v. [IInt v]" read_int
  unfolding read_int_def by unfold_locales (rule read_step, simp_all, simp_all?)

interpretation real_codec: codec "\<lambda>v. [IReal v]" read_real
  unfolding read_real_def by unfold_locales (rule read_step, simp_all, simp_all?)

interpretation force_codec: codec "\<lambda>v. [IForce v]" read_force
  unfolding read_force_def by unfold_locales (rule read_step, simp_all, simp_all?)

interpretation prop_codec: codec "\<lambda>v. [IProp v]" read_properties
  unfolding read_properties_def by unfold_locales (rule read_step, simp_all, simp_all?)

interpretation part_codec: codec "\<lambda>v. [IPart v]" read_particle
  unfolding read_particle_def by unfold_locales (rule read_step, simp_all, simp_all?)

lemma read_counted:
  assumes "codec enc rd" and "in_ok b"
    and "b_items b = IInt (int (length xs)) # concat (map enc xs) @ rest"
  shows "\<exists>b'. ebind (read_int b) (\<lambda>(nvals, b).
        if nvals < 0 then Inl BadLength else read_times (nat nvals) rd b) = Inr (xs, b')
      \<and> in_ok b' \<and> b_items b' = rest"
proof -
  obtain c where c: "read_int b = Inr (int (length xs), c)" "in_ok c"
      "b_items c = concat (map enc xs) @ rest"
    using int_codec.rd_enc [OF assms(2), of "int (length xs)"] assms(3) by auto
  from codec.read_times_enc [OF assms(1) c(2,3)] c(1) show ?thesis by simp
qed

interpretation ints_codec: codec "\<lambda>vs. IInt (int (length vs)) # map IInt vs" read_ints
  using read_counted [OF int_codec.codec_axioms]
  by unfold_locales (simp add: read_ints_def)

interpretation reals_codec: codec "\<lambda>vs. IInt (int (length vs)) # map IReal vs" read_reals
  using read_counted [OF real_codec.codec_axioms]
  by unfold_locales (simp add: read_reals_def)

section \<open>Particle data\<close>

lemma read_if_step:
  assumes "in_ok b" and "b_items b = (if c then [x] else []) @ rest"
    and "sel x = Some a" and "sizeof_item x = n"
  shows "\<exists>b'. read_if c (readAll n sel) put (s, b) = Inr (if c then put a s else s, b')
    \<and> in_ok b' \<and> b_items b' = rest"
proof (cases c)
  case True
  with assms(2) have "b_items b = x # rest" by simp
  from read_step [OF assms(1) this, of sel, OF assms(3,4)] True show ?thesis
    by (auto simp: read_if_def)
qed (use assms in \<open>simp add: read_if_def\<close>)

definition overwrite_data :: "particle \<Rightarrow> particle \<Rightarrow> int \<Rightarrow> real3d \<Rightarrow> particle" where
  "overwrite_data dst src extradata shift =
     (let x = dst\<lparr>part_r := copyShifted (part_r src) shift\<rparr>;
          x = if has_flag extradata DATA_PROPERTIES then x\<lparr>part_p := part_p src\<rparr> else x;
          x = if has_flag extradata DATA_MOMENTUM then x\<lparr>part_m := part_m src\<rparr> else x
      in if has_flag extradata DATA_LOCAL then x\<lparr>part_l := part_l src\<rparr> else x)"

lemma copyAsGhost_overwrite: "copyAsGhost dst src e shift = set_ghost True (overwrite_data dst src e shift)"
  by (simp add: copyAsGhost_def overwrite_data_def Let_def)

lemma read_particle_data_items:
  assumes "in_ok b" and "b_items b = particle_items src e shift @ rest"
  shows "\<exists>b'. read_particle_data dst e b = Inr (overwrite_data dst src e shift, b')
    \<and> in_ok b' \<and> b_items b' = rest"
proof -
  let ?P = "has_flag e DATA_PROPERTIES" and ?M = "has_flag e DATA_MOMENTUM"
    and ?L = "has_flag e DATA_LOCAL"
  let ?x1 = "dst\<lparr>part_r := copyShifted (part_r src) shift\<rparr>"
  let ?x2 = "if ?P then ?x1\<lparr>part_p := part_p src\<rparr> else ?x1"
  let ?x3 = "if ?M then ?x2\<lparr>part_m := part_m src\<rparr> else ?x2"
  obtain b1 where b1: "read_if True (readAll 40 item_pos) (\<lambda>r p. p\<lparr>part_r := r\<rparr>) (dst, b)
        = Inr (?x1, b1)" "in_ok b1"
      "b_items b1 = (if ?P then [IProp (part_p src)] else []) @ (if ?M then [IMom (part_m src)] else [])
        @ (if ?L then [ILocal (part_l src)] else []) @ rest"
    using read_if_step [OF assms(1), of True "IPos (copyShifted (part_r src) shift)" _ item_pos _ 40
        "\<lambda>r p. p\<lparr>part_r := r\<rparr>" dst] assms(2)
    by (auto simp: particle_items_def)
  obtain b2 where b2: "read_if ?P (readAll 72 item_prop) (\<lambda>q p. p\<lparr>part_p := q\<rparr>) (?x1, b1)
        = Inr (?x2, b2)" "in_ok b2"
      "b_items b2 = (if ?M then [IMom (part_m src)] else [])
        @ (if ?L then [ILocal (part_l src)] else []) @ rest"
    using read_if_step [OF b1(2,3), of item_prop _ 72 "\<lambda>q p. p\<lparr>part_p := q\<rparr>" ?x1] by auto
  obtain b3 where b3: "read_if ?M (readAll 32 item_mom) (\<lambda>m p. p\<lparr>part_m := m\<rparr>) (?x2, b2)
        = Inr (?x3, b3)" "in_ok b3" "b_items b3 = (if ?L then [ILocal (part_l src)] else []) @ rest"
    using read_if_step [OF b2(2,3), of item_mom _ 32 "\<lambda>m p. p\<lparr>part_m := m\<rparr>" ?x2] by auto
  obtain b4 where b4: "read_if ?L (readAll 16 item_local) (\<lambda>l p. p\<lparr>part_l := l\<rparr>) (?x3, b3)
        = Inr (overwrite_data dst src e shift, b4)" "in_ok b4" "b_items b4 = rest"
    using read_if_step [OF b3(2,3), of item_local _ 16 "\<lambda>l p. p\<lparr>part_l := l\<rparr>" ?x3]
    unfolding overwrite_data_def Let_def by auto
  show ?thesis
    unfolding read_particle_data_def b1(1) ebind_simps b2(1) b3(1) b4(1) using b4(2,3) by blast
qed

lemma buffer_writes_total:
  assumes "0 < b_capacity b" and "2 * bytes xs \<le> INT_MAX"
  shows "\<exists>c. writeSeq xs (buf_reset b) = Some c"
  using writeSeq_total [OF buf_reset_ok [OF assms(1)], of xs] assms(2) by (simp add: buf_reset_def)

section \<open>Properties\<close>

text \<open>
  The two ways a ghost is refreshed agree: packing a particle's data with a position
  shift into a buffer, sending it, and reading it into the ghost gives, once the ghost flag is
  set, the same particle as the local \<^verbatim>\<open>copyAsGhost\<close>, for every combination of the extra-data
  flags, and consumes the message completely.
\<close>

theorem ghost_data_via_buffer:
  assumes "write_particle_data src e shift (buf_reset b) = Some b'" and "0 < b_capacity b"
  shows "\<exists>p c'. read_particle_data dst e (buf_recv (buf_send b') c) = Inr (p, c')
    \<and> set_ghost True p = copyAsGhost dst src e shift \<and> b_items c' = [] \<and> b_pos c' = b_used c'"
proof -
  have "out_ok b'" "b_items b' = particle_items src e shift @ []"
    using writeSeq_Some [OF assms(1) [unfolded write_particle_data_seq]] assms(2) by simp_all
  with buf_recv_send [of b' c]
  have r: "in_ok (buf_recv (buf_send b') c)"
    "b_items (buf_recv (buf_send b') c) = particle_items src e shift @ []" by simp_all
  from read_particle_data_items [OF this, of dst] show ?thesis
    by (auto simp: copyAsGhost_overwrite in_ok_def)
qed

definition particle_zero :: particle where
  "particle_zero = \<lparr>part_p = \<lparr>pp_id = 0, pp_type = 0, pp_mass = 0, pp_q = 0, pp_lambda = 0,
      pp_drift = 0, pp_lambdaDeriv = 0, pp_state = 0, pp_res_id = 0, pp_incr_state = 0,
      pp_change_flag = 0\<rparr>,
    part_r = \<lparr>pr_p = V3 0 0 0, pr_radius = 0, pr_extVar = 0\<rparr>,
    part_m = \<lparr>pm_v = V3 0 0 0, pm_vradius = 0\<rparr>,
    part_l = \<lparr>pl_i = V3 0 0 0, pl_ghost = False\<rparr>,
    part_f = \<lparr>pf_f = V3 0 0 0, pf_fradius = 0\<rparr>\<rparr>"

theorem ghost_data_via_buffer_witness:
  "\<exists>b' p c'. write_particle_data particle_zero DATA_PROPERTIES (V3 1 0 0) (buf_reset Buffer_new) = Some b'
    \<and> read_particle_data particle_zero DATA_PROPERTIES (buf_recv (buf_send b') Buffer_new) = Inr (p, c')
    \<and> p_ghost (set_ghost True p)"
proof -
  have ok: "out_ok (buf_reset Buffer_new)" by (simp add: Buffer_new_def BUFFER_SIZE_def)
  have "2 * (b_pos (buf_reset Buffer_new) + bytes (particle_items particle_zero DATA_PROPERTIES (V3 1 0 0)))
      \<le> INT_MAX"
    by (simp add: buf_reset_def particle_items_def INT_MAX_def)
  then obtain b' where b': "write_particle_data particle_zero DATA_PROPERTIES (V3 1 0 0)
      (buf_reset Buffer_new) = Some b'"
    using writeSeq_total [OF ok] by (auto simp: write_particle_data_seq)
  have "0 < b_capacity Buffer_new" by (simp add: Buffer_new_def BUFFER_SIZE_def)
  with ghost_data_via_buffer [OF b'] b' show ?thesis by (metis set_ghost_sel(3))
qed

text \<open>
  C33.  No write leaves the buffer: whatever sequence of objects is written to a fresh or reset
  buffer, \<^verbatim>\<open>pos\<close> and \<^verbatim>\<open>usedSize\<close> equal the number of bytes written and stay within the
  capacity \<^verbatim>\<open>extend\<close> has allocated, what was written before survives the reallocation, and
  the writes succeed as long as twice their size fits an \<^verbatim>\<open>int\<close>.
\<close>

theorem buffer_writes_in_bounds:
  assumes "0 < b_capacity b"
  shows "(writeSeq xs (buf_reset b) = Some b' \<longrightarrow>
      b_items b' = xs \<and> b_pos b' = bytes xs \<and> b_used b' = bytes xs \<and> bytes xs \<le> b_capacity b')
    \<and> (2 * bytes xs \<le> INT_MAX \<longrightarrow> (\<exists>c. writeSeq xs (buf_reset b) = Some c))"
proof (intro conjI impI)
  have ok: "out_ok (buf_reset b)" using assms by simp
  show "b_items b' = xs" "b_pos b' = bytes xs" "b_used b' = bytes xs" "bytes xs \<le> b_capacity b'"
    if "writeSeq xs (buf_reset b) = Some b'"
    using writeSeq_Some [OF that ok] by (auto simp: out_ok_def)
  show "\<exists>c. writeSeq xs (buf_reset b) = Some c" if "2 * bytes xs \<le> INT_MAX"
    by (rule buffer_writes_total [OF assms that])
qed

theorem buffer_writes_in_bounds_witness:
  "\<exists>c. writeSeq [IInt 1, IReal 2] (buf_reset Buffer_new) = Some c"
  using buffer_writes_in_bounds [of Buffer_new "[IInt 1, IReal 2]"]
  by (simp add: Buffer_new_def BUFFER_SIZE_def INT_MAX_def)

end
