(* ===== verification/Storage.thy ===== *)
theory Storage
  imports Buffers BoundaryConditions "HOL-Library.AList"
begin

text \<open>
  \<^verbatim>\<open>src/src/storage/Storage.hpp\<close> and \<^verbatim>\<open>.cpp\<close>: the particle storage of one process.

  Memory.  A \<^verbatim>\<open>std::vector<Particle>\<close> is a \<open>pvec\<close>: its elements, its capacity and the number of
  the block that holds it.  \<^verbatim>\<open>push_back\<close> and a growing \<^verbatim>\<open>resize\<close> beyond the capacity move the
  elements to a new block (the capacity doubles, one of the policies the standard allows), so
  that a pointer, \<open>Ptr\<close> with the vector, the block and the index, is valid only while the
  vector still lives in that block and has such an element.  The vectors of a process are named:
  the particles of a cell, the AdResS atoms, and the local \<^verbatim>\<open>ParticleList\<close>s of a function.

  Results.  Operations that dereference a pointer or index a vector are \<open>option\<close>-valued;
  \<open>None\<close> is undefined behaviour of the code (a stale or null pointer, an index out of range), a
  failed buffer operation, or a cast out of range.  Virtual functions (which cell and which
  process a position belongs to, the folding) and the slots connected to a signal are arguments.
\<close>

datatype vid = CellV nat | AdrV | TmpV nat

datatype ptr = Ptr (ptr_vid: vid) (ptr_base: nat) (ptr_idx: nat)

record pvec =
  pv_base :: nat
  pv_cap :: nat
  pv_elems :: "particle list"

definition pv_empty :: pvec where
  "pv_empty = \<lparr>pv_base = 0, pv_cap = 0, pv_elems = []\<rparr>"

definition pv_push :: "particle \<Rightarrow> pvec \<Rightarrow> pvec" where
  "pv_push x v =
     (if length (pv_elems v) < pv_cap v then v\<lparr>pv_elems := pv_elems v @ [x]\<rparr>
      else \<lparr>pv_base = Suc (pv_base v), pv_cap = max 1 (2 * pv_cap v),
            pv_elems = pv_elems v @ [x]\<rparr>)"

definition pv_resize :: "nat \<Rightarrow> particle \<Rightarrow> pvec \<Rightarrow> pvec" where
  "pv_resize n dflt v =
     (if n \<le> length (pv_elems v) then v\<lparr>pv_elems := take n (pv_elems v)\<rparr>
      else let xs = pv_elems v @ replicate (n - length (pv_elems v)) dflt in
        if n \<le> pv_cap v then v\<lparr>pv_elems := xs\<rparr>
        else \<lparr>pv_base = Suc (pv_base v), pv_cap = max n (2 * pv_cap v), pv_elems = xs\<rparr>)"

definition pv_set :: "nat \<Rightarrow> particle \<Rightarrow> pvec \<Rightarrow> pvec" where
  "pv_set i x v = v\<lparr>pv_elems := (pv_elems v)[i := x]\<rparr>"

definition pv_clear :: "pvec \<Rightarrow> pvec" where
  "pv_clear v = v\<lparr>pv_elems := []\<rparr>"

record storage =
  vecs :: "vid \<Rightarrow> pvec"
  localParticles :: "pid \<Rightarrow> ptr option"
  localAdrATParticles :: "pid \<Rightarrow> ptr option"
  localCells :: "nat list"
  realCells :: "nat list"
  ghostCells :: "nat list"
  adrGhosts :: "particle list list"
  savedRealPositions :: "(pid \<times> real3d) list"
  savedImages :: "(pid \<times> int3d) list"
  inBuffer :: buffer
  outBuffer :: buffer
  changedSignals :: nat

definition Storage_new :: storage where
  "Storage_new = \<lparr>vecs = (\<lambda>_. pv_empty), localParticles = Map.empty,
     localAdrATParticles = Map.empty, localCells = [], realCells = [], ghostCells = [],
     adrGhosts = [], savedRealPositions = [], savedImages = [], inBuffer = Buffer_new,
     outBuffer = Buffer_new, changedSignals = 0\<rparr>"

definition set_vec :: "vid \<Rightarrow> pvec \<Rightarrow> storage \<Rightarrow> storage" where
  "set_vec v w st = st\<lparr>vecs := (vecs st)(v := w)\<rparr>"

definition particles_of :: "storage \<Rightarrow> vid \<Rightarrow> particle list" where
  "particles_of st v = pv_elems (vecs st v)"

definition addr :: "storage \<Rightarrow> vid \<Rightarrow> nat \<Rightarrow> ptr" where
  "addr st v i = Ptr v (pv_base (vecs st v)) i"

definition idat :: "storage \<Rightarrow> vid \<Rightarrow> nat \<Rightarrow> pid" where
  "idat st v i = p_id (particles_of st v ! i)"

fun deref :: "storage \<Rightarrow> ptr \<Rightarrow> particle option" where
  "deref st (Ptr v b i) =
     (if pv_base (vecs st v) = b \<and> i < length (particles_of st v)
      then Some (particles_of st v ! i) else None)"

fun assign :: "storage \<Rightarrow> ptr \<Rightarrow> particle \<Rightarrow> storage option" where
  "assign st (Ptr v b i) x =
     (if pv_base (vecs st v) = b \<and> i < length (particles_of st v)
      then Some (set_vec v (pv_set i x (vecs st v)) st) else None)"

definition onParticlesChanged :: "storage \<Rightarrow> storage" where
  "onParticlesChanged st = st\<lparr>changedSignals := Suc (changedSignals st)\<rparr>"

section \<open>Counting\<close>

definition count_cells :: "storage \<Rightarrow> nat list \<Rightarrow> int" where
  "count_cells st cs = fold (\<lambda>c cnt. cnt + int (length (particles_of st (CellV c)))) cs 0"

definition getNRealParticles :: "storage \<Rightarrow> int" where
  "getNRealParticles st = count_cells st (realCells st)"

definition getNLocalParticles :: "storage \<Rightarrow> int" where
  "getNLocalParticles st = count_cells st (localCells st)"

definition getNGhostParticles :: "storage \<Rightarrow> int" where
  "getNGhostParticles st = count_cells st (ghostCells st)"

definition cellParticles :: "storage \<Rightarrow> nat list \<Rightarrow> particle list" where
  "cellParticles st cs = concat (map (\<lambda>c. particles_of st (CellV c)) cs)"

definition getRealParticleIDs :: "storage \<Rightarrow> pid list" where
  "getRealParticleIDs st = map p_id (cellParticles st (realCells st))"

section \<open>Looking up\<close>

definition lookupLocalParticle :: "storage \<Rightarrow> pid \<Rightarrow> ptr option" where
  "lookupLocalParticle st i = localParticles st i"

definition lookupAdrATParticle :: "storage \<Rightarrow> pid \<Rightarrow> ptr option" where
  "lookupAdrATParticle st i = localAdrATParticles st i"

text \<open>The outer \<open>option\<close> is the dereference \<^verbatim>\<open>it->second->ghost()\<close>, the inner one the null pointer.\<close>

definition lookupGhostParticle :: "storage \<Rightarrow> pid \<Rightarrow> ptr option option" where
  "lookupGhostParticle st i =
     (case localParticles st i of None \<Rightarrow> Some None
      | Some p \<Rightarrow> do { x \<leftarrow> deref st p; Some (if p_ghost x then Some p else None) })"

definition lookupRealParticle :: "storage \<Rightarrow> pid \<Rightarrow> ptr option option" where
  "lookupRealParticle st i =
     (case localParticles st i of None \<Rightarrow> Some (lookupAdrATParticle st i)
      | Some p \<Rightarrow> do { x \<leftarrow> deref st p;
                       Some (if \<not> p_ghost x then Some p else lookupAdrATParticle st i) })"

section \<open>The index\<close>

definition removeFromLocalParticles :: "storage \<Rightarrow> ptr \<Rightarrow> bool \<Rightarrow> storage option" where
  "removeFromLocalParticles st p weak =
     do { x \<leftarrow> deref st p;
          Some (if localParticles st (p_id x) = None then st
                else if \<not> weak \<or> localParticles st (p_id x) = Some p
                then st\<lparr>localParticles := (localParticles st)(p_id x := None)\<rparr>
                else st) }"

definition updateInLocalParticles :: "storage \<Rightarrow> vid \<Rightarrow> nat \<Rightarrow> bool \<Rightarrow> storage" where
  "updateInLocalParticles st v i weak =
     (if \<not> weak \<or> localParticles st (idat st v i) = None
      then st\<lparr>localParticles := (localParticles st)(idat st v i \<mapsto> addr st v i)\<rparr>
      else st)"

definition updateInLocalAdrATParticles :: "storage \<Rightarrow> nat \<Rightarrow> storage" where
  "updateInLocalAdrATParticles st i =
     st\<lparr>localAdrATParticles := (localAdrATParticles st)(idat st AdrV i \<mapsto> addr st AdrV i)\<rparr>"

definition updateLocalParticles :: "storage \<Rightarrow> vid \<Rightarrow> storage" where
  "updateLocalParticles st v =
     fold (\<lambda>i st. updateInLocalParticles st v i False) [0..<length (particles_of st v)] st"

definition updateLocalAdrParticles :: "storage \<Rightarrow> storage" where
  "updateLocalAdrParticles st =
     fold (\<lambda>i st. updateInLocalAdrATParticles st i) [0..<length (particles_of st AdrV)] st"

definition resizeCells :: "storage \<Rightarrow> nat \<Rightarrow> storage" where
  "resizeCells st n =
     st\<lparr>vecs := (\<lambda>v. case v of CellV c \<Rightarrow> if c < n then vecs st v else pv_empty | _ \<Rightarrow> vecs st v),
        localCells := localCells st @ [0..<n]\<rparr>"

section \<open>Adding, moving and removing particles\<close>

definition appendUnindexedParticle :: "storage \<Rightarrow> vid \<Rightarrow> particle \<Rightarrow> storage" where
  "appendUnindexedParticle st v x = set_vec v (pv_push x (vecs st v)) st"

definition appendUnindexedAdrParticle :: "storage \<Rightarrow> vid \<Rightarrow> particle \<Rightarrow> storage" where
  "appendUnindexedAdrParticle st v x = set_vec v (pv_push x (vecs st v)) st"

definition appendParticleListToGhosts :: "storage \<Rightarrow> particle list \<Rightarrow> storage" where
  "appendParticleListToGhosts st l = st\<lparr>adrGhosts := adrGhosts st @ [l]\<rparr>"

definition appendIndexedParticle :: "storage \<Rightarrow> vid \<Rightarrow> particle \<Rightarrow> storage \<times> ptr" where
  "appendIndexedParticle st v x =
     (let begin = pv_base (vecs st v);
          st = set_vec v (pv_push x (vecs st v)) st;
          i = length (particles_of st v) - 1
      in (if begin \<noteq> pv_base (vecs st v) then updateLocalParticles st v
          else updateInLocalParticles st v i False, addr st v i))"

definition moveIndexedParticle :: "storage \<Rightarrow> vid \<Rightarrow> vid \<Rightarrow> nat \<Rightarrow> (storage \<times> ptr) option" where
  "moveIndexedParticle st dl sl i =
     (if i < length (particles_of st sl)
      then let dbegin = pv_base (vecs st dl); sbegin = pv_base (vecs st sl);
               st = set_vec dl (pv_push (particles_of st sl ! i) (vecs st dl)) st;
               newSize = length (particles_of st sl) - 1;
               st = (if i \<noteq> newSize
                     then set_vec sl (pv_set i (last (particles_of st sl)) (vecs st sl)) st else st);
               st = set_vec sl (pv_resize newSize particle_zero (vecs st sl)) st;
               dst = length (particles_of st dl) - 1;
               st = (if dbegin \<noteq> pv_base (vecs st dl) then updateLocalParticles st dl
                     else updateInLocalParticles st dl dst False);
               st = (if sbegin \<noteq> pv_base (vecs st sl) then updateLocalParticles st sl
                     else if i \<noteq> newSize then updateInLocalParticles st sl i False else st)
           in Some (st, addr st dl dst)
      else None)"

text \<open>
  \<^verbatim>\<open>addParticle\<close>: \<open>isReal\<close> is \<^verbatim>\<open>checkIsRealParticle\<close> of the position, \<open>foldC\<close> the folding of the
  boundary conditions, \<open>cellOf\<close> is \<^verbatim>\<open>mapPositionToCellClipped\<close>, and \<open>fresh\<close> the contents of a
  newly constructed \<^verbatim>\<open>Particle\<close>.
\<close>

definition addParticle ::
  "(real3d \<Rightarrow> bool) \<Rightarrow> (real3d \<Rightarrow> int3d \<Rightarrow> nat \<Rightarrow> (real3d \<times> int3d) option) \<Rightarrow>
   (real3d \<Rightarrow> nat option) \<Rightarrow> particle \<Rightarrow> storage \<Rightarrow> pid \<Rightarrow> real3d \<Rightarrow> (storage \<times> ptr option) option"
where
  "addParticle isReal foldC cellOf fresh st i p =
     (if \<not> isReal p then Some (st, None)
      else do { let n = setImage (setPos (setId (particle_init fresh) i) p) (V3 0 0 0);
                (pos, img) \<leftarrow> bc_foldPosition foldC (p_pos n) (p_image n);
                let n = setImage (setPos n pos) img;
                c \<leftarrow> cellOf (p_pos n);
                let (st, q) = appendIndexedParticle st (CellV c) n;
                Some (st, Some q) })"

text \<open>\<open>cellOf\<close> is \<^verbatim>\<open>mapPositionToCellChecked\<close>; its null pointer is dereferenced unchecked.\<close>

definition removeParticle :: "(real3d \<Rightarrow> nat option) \<Rightarrow> storage \<Rightarrow> pid \<Rightarrow> (storage \<times> int) option" where
  "removeParticle cellOf st i =
     do { r \<leftarrow> lookupRealParticle st i;
          case r of None \<Rightarrow> Some (st, 0)
          | Some p \<Rightarrow>
            do { x \<leftarrow> deref st p;
                 let c = cellOf (p_pos x);
                 st \<leftarrow> removeFromLocalParticles st p False;
                 v \<leftarrow> map_option CellV c;
                 k \<leftarrow> (if ptr_vid p = v \<and> ptr_base p = pv_base (vecs st v)
                       then Some (ptr_idx p) else None);
                 let newSize = length (particles_of st v) - 1;
                 let st = (if k \<noteq> newSize
                           then set_vec v (pv_set k (last (particles_of st v)) (vecs st v)) st else st);
                 let st = set_vec v (pv_resize newSize particle_zero (vecs st v)) st;
                 Some (onParticlesChanged (updateLocalParticles st v), 1) } }"

definition removeAllParticles :: "storage \<Rightarrow> storage" where
  "removeAllParticles st =
     onParticlesChanged
       (fold (\<lambda>c st. set_vec (CellV c) (pv_clear (vecs st (CellV c))) st) (localCells st)
          (st\<lparr>localParticles := Map.empty\<rparr>))"

section \<open>AdResS atoms\<close>

definition pushAdrAT :: "storage \<Rightarrow> particle \<Rightarrow> storage \<times> ptr" where
  "pushAdrAT st n =
     (let begin = pv_base (vecs st AdrV);
          st = set_vec AdrV (pv_push n (vecs st AdrV)) st;
          i = length (particles_of st AdrV) - 1
      in (if begin \<noteq> pv_base (vecs st AdrV) then updateLocalAdrParticles st
          else updateInLocalAdrATParticles st i, addr st AdrV i))"

definition addAdrATParticleFTPL :: "storage \<Rightarrow> particle \<Rightarrow> storage \<times> ptr" where
  "addAdrATParticleFTPL st n = pushAdrAT st n"

definition addAdrATParticle ::
  "(real3d \<Rightarrow> bool) \<Rightarrow> (real3d \<Rightarrow> int3d \<Rightarrow> nat \<Rightarrow> (real3d \<times> int3d) option) \<Rightarrow> particle \<Rightarrow>
   storage \<Rightarrow> pid \<Rightarrow> real3d \<Rightarrow> real3d \<Rightarrow> (storage \<times> ptr option) option"
where
  "addAdrATParticle isReal foldC fresh st i p vpp =
     (if \<not> isReal vpp then Some (st, None)
      else do { let n = setImage (setPos (setId (particle_init fresh) i) p) (V3 0 0 0);
                vpp_new \<leftarrow> bc_foldPosition1 foldC vpp;
                let n = (if vpp \<noteq> vpp_new then setPos n (p_pos n - (vpp - vpp_new)) else n);
                let (st, q) = pushAdrAT st n;
                Some (st, Some q) })"

definition removeAdrATParticle :: "storage \<Rightarrow> pid \<Rightarrow> storage option" where
  "removeAdrATParticle st i =
     (case lookupAdrATParticle st i of
        None \<Rightarrow> Some st
      | Some p \<Rightarrow>
        do { let dbegin = pv_base (vecs st AdrV);
             k \<leftarrow> (if ptr_vid p = AdrV \<and> ptr_base p = pv_base (vecs st AdrV)
                   then Some (ptr_idx p) else None);
             let newSize = length (particles_of st AdrV) - 1;
             let st = (if k \<noteq> newSize
                       then set_vec AdrV (pv_set k (last (particles_of st AdrV)) (vecs st AdrV)) st
                       else st);
             let st = set_vec AdrV (pv_resize newSize particle_zero (vecs st AdrV)) st;
             let st = st\<lparr>localAdrATParticles := (localAdrATParticles st)(i := None)\<rparr>;
             Some (if dbegin \<noteq> pv_base (vecs st AdrV) then updateLocalAdrParticles st
                   else if k \<noteq> newSize then updateInLocalAdrATParticles st k else st) })"

section \<open>Bulk operations\<close>

definition map_particles :: "(particle \<Rightarrow> particle) \<Rightarrow> pvec \<Rightarrow> pvec" where
  "map_particles f v = v\<lparr>pv_elems := map f (pv_elems v)\<rparr>"

definition map_cells :: "(particle \<Rightarrow> particle) \<Rightarrow> nat list \<Rightarrow> storage \<Rightarrow> storage" where
  "map_cells f cs st =
     fold (\<lambda>c st. set_vec (CellV c) (map_particles f (vecs st (CellV c))) st) cs st"

definition st_scaleVolume :: "storage \<Rightarrow> real \<Rightarrow> storage" where
  "st_scaleVolume st s =
     map_cells (\<lambda>x. setPos x (real3d_scale (p_pos x) s)) (realCells st) st"

definition st_scaleVolumeV :: "storage \<Rightarrow> real3d \<Rightarrow> storage" where
  "st_scaleVolumeV st s =
     map_cells (\<lambda>x. setPos x (V3 (vx (p_pos x) * vx s) (vy (p_pos x) * vy s) (vz (p_pos x) * vz s)))
       (realCells st) st"

fun append_all :: "(real3d \<Rightarrow> nat option) \<Rightarrow> particle list \<Rightarrow> storage \<Rightarrow> storage option" where
  "append_all cellOf [] st = Some st"
| "append_all cellOf (x # xs) st =
     do { c \<leftarrow> cellOf (p_pos x);
          append_all cellOf xs (appendUnindexedParticle st (CellV c) x) }"

definition updateCells :: "nat list \<Rightarrow> storage \<Rightarrow> storage" where
  "updateCells cs st = fold (\<lambda>c st. updateLocalParticles st (CellV c)) cs st"

definition fetchParticles :: "(real3d \<Rightarrow> nat option) \<Rightarrow> storage \<Rightarrow> storage \<Rightarrow> storage option" where
  "fetchParticles cellOf st old =
     do { st \<leftarrow> append_all cellOf (cellParticles old (realCells old)) st;
          Some (updateCells (realCells st) st) }"

text \<open>Sending a list: each particle leaves the index and is written to the buffer.\<close>

fun send_each :: "vid \<Rightarrow> nat list \<Rightarrow> storage \<times> buffer \<Rightarrow> (storage \<times> buffer) option" where
  "send_each v [] s = Some s"
| "send_each v (i # is) (st, data) =
     do { st \<leftarrow> removeFromLocalParticles st (addr st v i) False;
          data \<leftarrow> write_particle (particles_of st v ! i) data;
          send_each v is (st, data) }"

definition sendParticles ::
  "(particle list \<Rightarrow> buffer \<Rightarrow> buffer option) \<Rightarrow> storage \<Rightarrow> vid \<Rightarrow> (storage \<times> message) option" where
  "sendParticles beforeSend st v =
     do { let data = buf_reset (outBuffer st);
          data \<leftarrow> write_int (int (length (particles_of st v))) data;
          (st, data) \<leftarrow> send_each v [0..<length (particles_of st v)] (st, data);
          data \<leftarrow> beforeSend (particles_of st v) data;
          let st = set_vec v (pv_clear (vecs st v)) st;
          Some (st\<lparr>outBuffer := data\<rparr>, buf_send data) }"

fun opt_of_read :: "read_error + 'a \<Rightarrow> 'a option" where
  "opt_of_read (Inl _) = None"
| "opt_of_read (Inr x) = Some x"

fun recv_each :: "vid \<Rightarrow> nat list \<Rightarrow> storage \<times> buffer \<Rightarrow> (storage \<times> buffer) option" where
  "recv_each v [] s = Some s"
| "recv_each v (i # is) (st, data) =
     do { (x, data) \<leftarrow> opt_of_read (read_particle data);
          let st = set_vec v (pv_set i x (vecs st v)) st;
          recv_each v is (updateInLocalParticles st v i False, data) }"

definition recvParticles ::
  "(particle list \<Rightarrow> buffer \<Rightarrow> buffer option) \<Rightarrow> particle \<Rightarrow> storage \<Rightarrow> vid \<Rightarrow> message \<Rightarrow> storage option"
where
  "recvParticles afterRecv dflt st v msg =
     do { let data = buf_recv msg (inBuffer st);
          (n, data) \<leftarrow> opt_of_read (read_int data);
          let cur = length (particles_of st v);
          if n > 0
          then do { let st = set_vec v (pv_resize (cur + nat n) dflt (vecs st v)) st;
                    (st, data) \<leftarrow> recv_each v [cur..<cur + nat n] (st, data);
                    data \<leftarrow> afterRecv (particles_of st v) data;
                    Some (st\<lparr>inBuffer := data\<rparr>) }
          else Some (st\<lparr>inBuffer := data\<rparr>) }"

fun removePtrs :: "ptr list \<Rightarrow> bool \<Rightarrow> storage \<Rightarrow> storage option" where
  "removePtrs [] weak st = Some st"
| "removePtrs (p # ps) weak st =
     do { st \<leftarrow> removeFromLocalParticles st p weak; removePtrs ps weak st }"

definition cell_ptrs :: "storage \<Rightarrow> nat list \<Rightarrow> ptr list" where
  "cell_ptrs st cs =
     concat (map (\<lambda>c. map (addr st (CellV c)) [0..<length (particles_of st (CellV c))]) cs)"

definition invalidateGhosts :: "storage \<Rightarrow> storage option" where
  "invalidateGhosts st = removePtrs (cell_ptrs st (ghostCells st)) True st"

text \<open>The template of \<^verbatim>\<open>decompose\<close>, over the two virtual functions it calls.\<close>

definition decompose ::
  "(storage \<Rightarrow> storage option) \<Rightarrow> (storage \<Rightarrow> storage option) \<Rightarrow> storage \<Rightarrow> storage option" where
  "decompose decomposeReal exchangeGhosts st =
     do { st \<leftarrow> invalidateGhosts st; st \<leftarrow> decomposeReal st; st \<leftarrow> exchangeGhosts st;
          Some (onParticlesChanged st) }"

section \<open>Ghost data\<close>

fun pack_each :: "int \<Rightarrow> real3d \<Rightarrow> particle list \<Rightarrow> buffer \<Rightarrow> buffer option" where
  "pack_each extradata shift [] buf = Some buf"
| "pack_each extradata shift (x # xs) buf =
     do { buf \<leftarrow> write_particle_data x extradata shift buf; pack_each extradata shift xs buf }"

definition packPositionsEtc :: "storage \<Rightarrow> buffer \<Rightarrow> nat \<Rightarrow> int \<Rightarrow> real3d \<Rightarrow> buffer option" where
  "packPositionsEtc st buf reals extradata shift =
     pack_each extradata shift (particles_of st (CellV reals)) buf"

fun unpack_each :: "vid \<Rightarrow> int \<Rightarrow> nat list \<Rightarrow> storage \<times> buffer \<Rightarrow> (storage \<times> buffer) option" where
  "unpack_each v extradata [] s = Some s"
| "unpack_each v extradata (i # is) (st, buf) =
     do { (x, buf) \<leftarrow> opt_of_read (read_particle_data (particles_of st v ! i) extradata buf);
          let st = set_vec v (pv_set i x (vecs st v)) st;
          let st = (if has_flag extradata DATA_PROPERTIES then updateInLocalParticles st v i True else st);
          let st = set_vec v (pv_set i (set_ghost True (particles_of st v ! i)) (vecs st v)) st;
          unpack_each v extradata is (st, buf) }"

definition unpackPositionsEtc :: "storage \<Rightarrow> nat \<Rightarrow> buffer \<Rightarrow> int \<Rightarrow> (storage \<times> buffer) option" where
  "unpackPositionsEtc st ghosts buf extradata =
     unpack_each (CellV ghosts) extradata [0..<length (particles_of st (CellV ghosts))] (st, buf)"

definition copyRealsToGhosts :: "particle \<Rightarrow> storage \<Rightarrow> nat \<Rightarrow> nat \<Rightarrow> int \<Rightarrow> real3d \<Rightarrow> storage" where
  "copyRealsToGhosts dflt st reals ghosts extradata shift =
     (let src = particles_of st (CellV reals);
          v = pv_resize (length src) dflt (vecs st (CellV ghosts));
          xs = map2 (\<lambda>dst src. copyAsGhost dst src extradata shift) (pv_elems v) src
      in set_vec (CellV ghosts) (v\<lparr>pv_elems := xs\<rparr>) st)"

fun pack_forces :: "particle list \<Rightarrow> buffer \<Rightarrow> buffer option" where
  "pack_forces [] buf = Some buf"
| "pack_forces (x # xs) buf = do { buf \<leftarrow> write_force (part_f x) buf; pack_forces xs buf }"

definition packForces :: "storage \<Rightarrow> buffer \<Rightarrow> nat \<Rightarrow> buffer option" where
  "packForces st buf ghosts = pack_forces (particles_of st (CellV ghosts)) buf"

fun unpack_forces :: "(pforce \<Rightarrow> pforce \<Rightarrow> pforce) \<Rightarrow> particle list \<Rightarrow> buffer \<Rightarrow>
    (particle list \<times> buffer) option" where
  "unpack_forces comb [] buf = Some ([], buf)"
| "unpack_forces comb (x # xs) buf =
     do { (f, buf) \<leftarrow> opt_of_read (read_force buf);
          (ys, buf) \<leftarrow> unpack_forces comb xs buf;
          Some (x\<lparr>part_f := comb (part_f x) f\<rparr> # ys, buf) }"

definition set_cell :: "storage \<Rightarrow> nat \<Rightarrow> particle list \<Rightarrow> storage" where
  "set_cell st c xs = set_vec (CellV c) ((vecs st (CellV c))\<lparr>pv_elems := xs\<rparr>) st"

definition unpackForces :: "storage \<Rightarrow> nat \<Rightarrow> buffer \<Rightarrow> (storage \<times> buffer) option" where
  "unpackForces st reals buf =
     do { (xs, buf) \<leftarrow> unpack_forces (\<lambda>old f. f) (particles_of st (CellV reals)) buf;
          Some (set_cell st reals xs, buf) }"

definition unpackAndAddForces :: "storage \<Rightarrow> nat \<Rightarrow> buffer \<Rightarrow> (storage \<times> buffer) option" where
  "unpackAndAddForces st reals buf =
     do { (xs, buf) \<leftarrow> unpack_forces pforce_add (particles_of st (CellV reals)) buf;
          Some (set_cell st reals xs, buf) }"

text \<open>The ghost iterator runs along with the real one; past the ghosts' end it is invalid.\<close>

definition addGhostForcesToReals :: "storage \<Rightarrow> nat \<Rightarrow> nat \<Rightarrow> storage option" where
  "addGhostForcesToReals st ghosts reals =
     (let gs = particles_of st (CellV ghosts); rs = particles_of st (CellV reals) in
      if length rs \<le> length gs
      then Some (set_cell st reals
        (map2 (\<lambda>dst src. dst\<lparr>part_f := pforce_add (part_f dst) (part_f src)\<rparr>) rs gs))
      else None)"

section \<open>Snapshots\<close>

datatype st_error = StException

definition clearSavedPositions :: "storage \<Rightarrow> storage" where
  "clearSavedPositions st = st\<lparr>savedRealPositions := [], savedImages := []\<rparr>"

definition savePosition :: "int \<Rightarrow> storage \<Rightarrow> pid \<Rightarrow> (st_error + storage) option" where
  "savePosition commSize st i =
     (if commSize = 1
      then do { r \<leftarrow> lookupRealParticle st i;
                case r of None \<Rightarrow> Some (Inr st)
                | Some p \<Rightarrow>
                  do { x \<leftarrow> deref st p;
                       Some (Inr (st\<lparr>savedRealPositions :=
                               AList.update i (p_pos x) (savedRealPositions st),
                             savedImages := AList.update i (p_image x) (savedImages st)\<rparr>)) } }
      else Some (Inl StException))"

fun restore_with :: "('a \<Rightarrow> particle \<Rightarrow> particle) \<Rightarrow> (pid \<times> 'a) list \<Rightarrow> storage \<Rightarrow> storage option" where
  "restore_with put [] st = Some st"
| "restore_with put ((i, a) # xs) st =
     do { r \<leftarrow> lookupRealParticle st i;
          st \<leftarrow> (case r of None \<Rightarrow> Some st
                | Some p \<Rightarrow> do { x \<leftarrow> deref st p; assign st p (put a x) });
          restore_with put xs st }"

text \<open>\<open>oth\<close> is the number of other processes that had something to restore (\<^verbatim>\<open>all_reduce\<close>).\<close>

definition restorePositions :: "nat \<Rightarrow> storage \<Rightarrow> (st_error + storage) option" where
  "restorePositions oth st =
     do { (st, count) \<leftarrow>
            (if savedRealPositions st \<noteq> []
             then do { st \<leftarrow> restore_with (\<lambda>a x. setPos x a) (savedRealPositions st) st;
                       st \<leftarrow> restore_with (\<lambda>a x. setImage x a) (savedImages st) st;
                       Some (st, 1) }
             else Some (st, 0));
          Some (if count + oth = 0 then Inl StException else Inr st) }"

end
