(* ===== verification/StorageIndex.thy ===== *)
theory StorageIndex
  imports Storage
begin

text \<open>
  The invariant of the particle index and its preservation by the operations of \<^verbatim>\<open>Storage\<close>.
  \<open>index_ok V st\<close>: \<^verbatim>\<open>localParticles\<close> is exactly the index of the vectors \<open>V\<close>, that is, an id is
  mapped to a pointer if and only if the pointer is the current address of a particle of that
  id in one of these vectors.  Hence no pointer of the index is stale and ids are unique.
\<close>

section \<open>Projections\<close>

lemma set_vec_sel [simp]:
  "vecs (set_vec v w st) = (vecs st)(v := w)" "localParticles (set_vec v w st) = localParticles st"
  "localAdrATParticles (set_vec v w st) = localAdrATParticles st"
  "realCells (set_vec v w st) = realCells st" "ghostCells (set_vec v w st) = ghostCells st"
  "localCells (set_vec v w st) = localCells st"
  "inBuffer (set_vec v w st) = inBuffer st" "outBuffer (set_vec v w st) = outBuffer st"
  by (simp_all add: set_vec_def)

lemma particles_of_set_vec [simp]:
  "particles_of (set_vec v w st) u = (if u = v then pv_elems w else particles_of st u)"
  by (simp add: particles_of_def)

lemma pv_push_elems [simp]: "pv_elems (pv_push x v) = pv_elems v @ [x]"
  by (simp add: pv_push_def)

lemma pv_resize_shrink [simp]:
  "n \<le> length (pv_elems v) \<Longrightarrow> pv_elems (pv_resize n d v) = take n (pv_elems v)"
  "n \<le> length (pv_elems v) \<Longrightarrow> pv_base (pv_resize n d v) = pv_base v"
  by (simp_all add: pv_resize_def)

lemma pv_set_sel [simp]: "pv_elems (pv_set i x v) = (pv_elems v)[i := x]"
  "pv_base (pv_set i x v) = pv_base v"
  by (simp_all add: pv_set_def)

lemma pv_clear_sel [simp]: "pv_elems (pv_clear v) = []" "pv_base (pv_clear v) = pv_base v"
  by (simp_all add: pv_clear_def)

lemma updateIn_sel [simp]:
  "vecs (updateInLocalParticles st v i w) = vecs st"
  "particles_of (updateInLocalParticles st v i w) = particles_of st"
  "addr (updateInLocalParticles st v i w) = addr st" "idat (updateInLocalParticles st v i w) = idat st"
  "realCells (updateInLocalParticles st v i w) = realCells st"
  "ghostCells (updateInLocalParticles st v i w) = ghostCells st"
  "localCells (updateInLocalParticles st v i w) = localCells st"
  "localAdrATParticles (updateInLocalParticles st v i w) = localAdrATParticles st"
  by (simp_all add: updateInLocalParticles_def particles_of_def addr_def idat_def fun_eq_iff)

lemma updateIn_strong:
  "localParticles (updateInLocalParticles st v i False)
    = (localParticles st)(idat st v i \<mapsto> addr st v i)"
  by (simp add: updateInLocalParticles_def)

section \<open>Updating the index for a whole vector\<close>

lemma updates_prefix:
  fixes st :: storage and v :: vid
  defines "F n \<equiv> fold (\<lambda>i s. updateInLocalParticles s v i False) [0..<n] st"
  shows "vecs (F n) = vecs st \<and> idat (F n) = idat st \<and> addr (F n) = addr st
    \<and> realCells (F n) = realCells st \<and> ghostCells (F n) = ghostCells st
    \<and> localCells (F n) = localCells st \<and> localAdrATParticles (F n) = localAdrATParticles st
    \<and> localParticles (F n) = fold (\<lambda>i m. m(idat st v i \<mapsto> addr st v i)) [0..<n] (localParticles st)"
  by (induction n) (simp_all add: F_def updateIn_strong)

lemma updateLocalParticles_sel [simp]:
  "vecs (updateLocalParticles st v) = vecs st" "idat (updateLocalParticles st v) = idat st"
  "addr (updateLocalParticles st v) = addr st"
  "realCells (updateLocalParticles st v) = realCells st"
  "ghostCells (updateLocalParticles st v) = ghostCells st"
  "localCells (updateLocalParticles st v) = localCells st"
  "localAdrATParticles (updateLocalParticles st v) = localAdrATParticles st"
  "particles_of (updateLocalParticles st v) = particles_of st"
  using updates_prefix [of v "length (particles_of st v)" st]
  by (simp_all add: updateLocalParticles_def particles_of_def fun_eq_iff)

lemma fold_map_upd_other:
  "(\<And>i. i < n \<Longrightarrow> f i \<noteq> k) \<Longrightarrow> fold (\<lambda>i m. m(f i \<mapsto> g i)) [0..<n] m k = m k"
  by (induction n) auto

lemma fold_map_upd:
  "distinct (map f [0..<n]) \<Longrightarrow> i < n \<Longrightarrow>
     fold (\<lambda>i m. m(f i \<mapsto> g i)) [0..<n] m (f i) = Some (g i)"
proof (induction n)
  case (Suc n)
  show ?case
  proof (cases "i = n")
    case False
    with Suc.prems have i: "i < n" and nf: "f n \<notin> f ` {0..<n}" by simp_all
    have "f i \<in> f ` {0..<n}" using i by simp
    with nf have "f i \<noteq> f n" by metis
    with i show ?thesis using Suc by simp
  qed simp
qed simp

definition ids :: "storage \<Rightarrow> vid \<Rightarrow> pid set" where
  "ids st v = p_id ` set (particles_of st v)"

lemma ids_iff: "k \<in> ids st v \<longleftrightarrow> (\<exists>i<length (particles_of st v). idat st v i = k)"
  unfolding ids_def idat_def image_iff Bex_def in_set_conv_nth by auto

lemma ids_sel [simp]: "ids (updateLocalParticles st v) = ids st"
  "ids (updateInLocalParticles st u i b) = ids st"
  by (simp_all add: ids_def fun_eq_iff)

lemma distinct_idat:
  "distinct (map p_id (particles_of st v)) \<Longrightarrow>
     distinct (map (idat st v) [0..<length (particles_of st v)])"
  by (simp add: idat_def distinct_conv_nth)

lemma updateLocalParticles_local:
  assumes "distinct (map p_id (particles_of st v))"
  shows "i < length (particles_of st v) \<Longrightarrow>
      localParticles (updateLocalParticles st v) (idat st v i) = Some (addr st v i)"
    and "k \<notin> ids st v \<Longrightarrow> localParticles (updateLocalParticles st v) k = localParticles st k"
proof -
  note d = distinct_idat [OF assms]
  have eq: "localParticles (updateLocalParticles st v)
      = fold (\<lambda>i m. m(idat st v i \<mapsto> addr st v i)) [0..<length (particles_of st v)] (localParticles st)"
    using updates_prefix [of v "length (particles_of st v)" st] by (simp add: updateLocalParticles_def)
  show "i < length (particles_of st v) \<Longrightarrow>
      localParticles (updateLocalParticles st v) (idat st v i) = Some (addr st v i)"
    unfolding eq by (rule fold_map_upd [OF d])
  show "k \<notin> ids st v \<Longrightarrow> localParticles (updateLocalParticles st v) k = localParticles st k"
    unfolding eq by (rule fold_map_upd_other) (auto simp: ids_iff)
qed

section \<open>The invariant\<close>

definition points_to :: "vid set \<Rightarrow> storage \<Rightarrow> pid \<Rightarrow> ptr \<Rightarrow> bool" where
  "points_to V st k p \<longleftrightarrow> (\<exists>v\<in>V. \<exists>i<length (particles_of st v). p = addr st v i \<and> idat st v i = k)"

definition index_ok :: "vid set \<Rightarrow> storage \<Rightarrow> bool" where
  "index_ok V st \<longleftrightarrow> (\<forall>k p. localParticles st k = Some p \<longleftrightarrow> points_to V st k p)"

lemma index_okD:
  assumes "index_ok V st" "v \<in> V" "i < length (particles_of st v)"
  shows "localParticles st (idat st v i) = Some (addr st v i)"
  using assms by (auto simp: index_ok_def points_to_def)

lemma index_ok_deref:
  assumes "index_ok V st" "localParticles st k = Some p"
  shows "\<exists>x. deref st p = Some x \<and> p_id x = k"
  using assms by (auto simp: index_ok_def points_to_def addr_def idat_def)

lemma index_ok_ids:
  assumes "index_ok V st" and "v \<in> V"
  shows "k \<in> ids st v \<longleftrightarrow> (\<exists>i<length (particles_of st v). localParticles st k = Some (addr st v i))"
proof
  show "k \<in> ids st v \<Longrightarrow> \<exists>i<length (particles_of st v). localParticles st k = Some (addr st v i)"
    using index_okD [OF assms] by (auto simp: ids_iff)
next
  assume "\<exists>i<length (particles_of st v). localParticles st k = Some (addr st v i)"
  then obtain i where i: "i < length (particles_of st v)" "localParticles st k = Some (addr st v i)"
    by blast
  then have "idat st v i = k"
    using assms(1) unfolding index_ok_def points_to_def by (auto simp: addr_def)
  with i show "k \<in> ids st v" by (auto simp: ids_iff)
qed

lemma index_ok_distinct:
  assumes "index_ok V st" "v \<in> V"
  shows "distinct (map p_id (particles_of st v))"
proof -
  have "idat st v i \<noteq> idat st v j"
    if "i < length (particles_of st v)" "j < length (particles_of st v)" "i \<noteq> j" for i j
    using index_okD [OF assms that(1)] index_okD [OF assms that(2)] that(3) by (auto simp: addr_def)
  then show ?thesis by (simp add: distinct_conv_nth idat_def)
qed

lemma index_ok_disjoint:
  assumes "index_ok V st" "u \<in> V" "v \<in> V" "u \<noteq> v"
  shows "ids st u \<inter> ids st v = {}"
  using index_ok_ids [OF assms(1,2)] index_ok_ids [OF assms(1,3)] assms(4)
  by (auto simp: addr_def)

text \<open>
  The one preservation principle: the vectors \<open>D\<close> change, their ids are re-indexed, the other
  entries of the index stay, and the new ids do not clash with the vectors that stay.
\<close>

lemma index_ok_changed:
  assumes ok: "index_ok V st" and D: "D \<subseteq> V"
    and same: "\<And>v. v \<in> V - D \<Longrightarrow> vecs st' v = vecs st v"
    and new: "\<And>v i. v \<in> D \<Longrightarrow> i < length (particles_of st' v) \<Longrightarrow>
        localParticles st' (idat st' v i) = Some (addr st' v i)"
    and old: "\<And>k. (\<And>v. v \<in> D \<Longrightarrow> k \<notin> ids st' v) \<Longrightarrow>
        localParticles st' k = (if \<exists>v\<in>D. k \<in> ids st v then None else localParticles st k)"
    and apart: "\<And>u v. u \<in> V - D \<Longrightarrow> v \<in> D \<Longrightarrow> ids st u \<inter> ids st' v = {}"
  shows "index_ok V st'"
  unfolding index_ok_def
proof (intro allI iffI)
  have eqs: "particles_of st' v = particles_of st v" "addr st' v = addr st v" "idat st' v = idat st v"
    if "v \<in> V - D" for v
    using same [OF that] by (auto simp: particles_of_def addr_def idat_def fun_eq_iff)
  fix k p
  show "localParticles st' k = Some p" if pt: "points_to V st' k p"
  proof -
    from pt obtain v i where v: "v \<in> V" "i < length (particles_of st' v)" "p = addr st' v i"
        "idat st' v i = k"
      by (auto simp: points_to_def)
    show ?thesis
    proof (cases "v \<in> D")
      case True
      then show ?thesis using new v by auto
    next
      case False
      then have vd: "v \<in> V - D" using v(1) by blast
      then have k: "localParticles st k = Some p" "k \<in> ids st v"
        using index_okD [OF ok v(1), of i] v eqs [OF vd] by (auto simp: ids_iff)
      have "k \<notin> ids st' u" if "u \<in> D" for u using apart [OF vd that] k(2) by auto
      moreover have "k \<notin> ids st u" if "u \<in> D" for u
        using index_ok_disjoint [OF ok v(1), of u] that D False k(2) by blast
      ultimately show ?thesis using old k(1) by auto
    qed
  qed
  show "points_to V st' k p" if lp: "localParticles st' k = Some p"
  proof (cases "\<exists>v\<in>D. k \<in> ids st' v")
    case True
    then obtain v i where "v \<in> D" "i < length (particles_of st' v)" "idat st' v i = k"
      by (auto simp: ids_iff)
    then show ?thesis using new [of v i] lp D by (auto simp: points_to_def)
  next
    case False
    then have "localParticles st k = Some p" "\<forall>v\<in>D. k \<notin> ids st v"
      using old [of k] lp by (auto split: if_splits)
    then obtain v i where v: "v \<in> V" "i < length (particles_of st v)" "p = addr st v i"
        "idat st v i = k" "v \<notin> D"
      using ok by (force simp: index_ok_def points_to_def ids_iff)
    then show ?thesis using eqs [of v] unfolding points_to_def by (metis DiffI)
  qed
qed

section \<open>Taking a particle out of a vector\<close>

definition swap_remove :: "nat \<Rightarrow> 'a list \<Rightarrow> 'a list" where
  "swap_remove i xs = take (length xs - 1) (if i \<noteq> length xs - 1 then xs[i := last xs] else xs)"

lemma length_swap_remove [simp]: "length (swap_remove i xs) = length xs - 1"
  by (simp add: swap_remove_def)

lemma mset_swap_remove:
  assumes "i < length xs"
  shows "add_mset (xs ! i) (mset (swap_remove i xs)) = mset xs"
proof -
  from assms obtain ys y where xs: "xs = ys @ [y]" by (cases xs rule: rev_cases) auto
  show ?thesis
  proof (cases "i = length ys")
    case True
    then show ?thesis by (simp add: xs swap_remove_def)
  next
    case False
    with assms have i: "i < length ys" by (simp add: xs)
    then have "mset (ys[i := y]) = add_mset y (mset ys - {#ys ! i#})" by (rule mset_update)
    with i False show ?thesis
      by (simp add: xs swap_remove_def nth_append list_update_append insert_DiffM)
  qed
qed

lemma nth_swap_remove:
  "j < length xs - 1 \<Longrightarrow> i < length xs \<Longrightarrow> swap_remove i xs ! j = (if j = i then last xs else xs ! j)"
  by (auto simp: swap_remove_def nth_list_update)

lemma set_swap_remove:
  assumes "distinct (map f xs)" "i < length xs"
  shows "f ` set (swap_remove i xs) = f ` set xs - {f (xs ! i)}"
proof -
  have m: "add_mset (f (xs ! i)) (image_mset f (mset (swap_remove i xs))) = mset (map f xs)"
    using mset_swap_remove [OF assms(2)] by (metis image_mset_add_mset mset_map)
  then have "distinct (f (xs ! i) # map f (swap_remove i xs))"
    using assms(1) by (metis mset.simps(2) mset_map mset_eq_imp_distinct_iff)
  moreover have "insert (f (xs ! i)) (f ` set (swap_remove i xs)) = f ` set xs"
    using arg_cong [OF m, of set_mset] by simp
  ultimately show ?thesis by (metis Diff_insert_absorb distinct.simps(2) set_map)
qed

section \<open>Preservation\<close>

lemma particles_of_upd:
  "vecs st' = (vecs st)(v := w) \<Longrightarrow> particles_of st' = (particles_of st)(v := pv_elems w)"
  by (simp add: particles_of_def fun_eq_iff)

text \<open>The index update after a \<^verbatim>\<open>push_back\<close>: the whole vector if its block changed.\<close>

definition reindex :: "nat \<Rightarrow> vid \<Rightarrow> storage \<Rightarrow> storage" where
  "reindex begin v st =
     (if begin \<noteq> pv_base (vecs st v) then updateLocalParticles st v
      else updateInLocalParticles st v (length (particles_of st v) - 1) False)"

lemma reindex_sel [simp]:
  "vecs (reindex b v st) = vecs st" "particles_of (reindex b v st) = particles_of st"
  "addr (reindex b v st) = addr st" "idat (reindex b v st) = idat st" "ids (reindex b v st) = ids st"
  "realCells (reindex b v st) = realCells st" "ghostCells (reindex b v st) = ghostCells st"
  "localCells (reindex b v st) = localCells st"
  "localAdrATParticles (reindex b v st) = localAdrATParticles st"
  by (simp_all add: reindex_def)

lemma reindex_local:
  assumes po: "particles_of st v = xs @ [x]" and d: "distinct (map p_id (xs @ [x]))"
    and ix: "b = pv_base (vecs st v) \<longrightarrow>
        (\<forall>i<length xs. localParticles st (idat st v i) = Some (addr st v i))"
  shows "i < length (particles_of st v) \<Longrightarrow>
        localParticles (reindex b v st) (idat st v i) = Some (addr st v i)"
    and "k \<notin> ids st v \<Longrightarrow> localParticles (reindex b v st) k = localParticles st k"
proof -
  have d': "distinct (map p_id (particles_of st v))" using d by (simp add: po)
  show "localParticles (reindex b v st) (idat st v i) = Some (addr st v i)"
    if i: "i < length (particles_of st v)" for i
  proof (cases "b = pv_base (vecs st v)")
    case True
    have "idat st v i \<noteq> idat st v (length xs)" if "i < length xs"
      using d that unfolding idat_def po by (auto simp: nth_append) (metis imageI nth_mem)
    with True i ix show ?thesis
      by (auto simp: reindex_def updateIn_strong po less_Suc_eq)
  qed (use updateLocalParticles_local(1) [OF d' i] in \<open>simp add: reindex_def\<close>)
  show "localParticles (reindex b v st) k = localParticles st k" if k: "k \<notin> ids st v"
  proof (cases "b = pv_base (vecs st v)")
    case True
    have "idat st v (length xs) \<in> ids st v" by (auto simp: ids_iff po)
    with True k show ?thesis by (auto simp: reindex_def updateIn_strong po)
  qed (use updateLocalParticles_local(2) [OF d' k] in \<open>simp add: reindex_def\<close>)
qed

lemma appendIndexedParticle_reindex:
  "appendIndexedParticle st v x =
     (let s = reindex (pv_base (vecs st v)) v (set_vec v (pv_push x (vecs st v)) st)
      in (s, addr s v (length (particles_of st v))))"
  by (simp add: appendIndexedParticle_def reindex_def Let_def particles_of_def)

lemma appendIndexedParticle_ok:
  assumes ok: "index_ok V st" and v: "v \<in> V" and new: "localParticles st (p_id x) = None"
    and st': "appendIndexedParticle st v x = (st', p)"
  shows "index_ok V st'" and "deref st' p = Some x"
    and "particles_of st' = (particles_of st)(v := particles_of st v @ [x])"
    and "localParticles st' (p_id x) = Some p"
    and "realCells st' = realCells st \<and> ghostCells st' = ghostCells st
        \<and> localCells st' = localCells st \<and> localAdrATParticles st' = localAdrATParticles st"
proof -
  let ?s = "set_vec v (pv_push x (vecs st v)) st" and ?b = "pv_base (vecs st v)"
  have st'_eq: "st' = reindex ?b v ?s" and p: "p = addr st' v (length (particles_of st v))"
    using st' by (auto simp: appendIndexedParticle_reindex Let_def)
  have nid: "p_id x \<notin> ids st u" if "u \<in> V" for u using index_ok_ids [OF ok that] new by auto
  then have d: "distinct (map p_id (particles_of st v @ [x]))"
    using index_ok_distinct [OF ok v] v by (simp add: ids_def)
  have pv: "particles_of ?s v = particles_of st v @ [x]" by (simp add: particles_of_def)
  show po: "particles_of st' = (particles_of st)(v := particles_of st v @ [x])"
    using pv by (simp add: st'_eq fun_eq_iff particles_of_def)
  have ix: "?b = pv_base (vecs ?s v) \<longrightarrow>
      (\<forall>i<length (particles_of st v). localParticles ?s (idat ?s v i) = Some (addr ?s v i))"
    using index_okD [OF ok v] by (simp add: idat_def addr_def nth_append particles_of_def)
  note r = reindex_local [OF pv d ix, folded st'_eq]
  have ids': "ids st' v = insert (p_id x) (ids st v)" by (simp add: ids_def po)
  show "index_ok V st'"
  proof (rule index_ok_changed [OF ok, of "{v}"])
    show "localParticles st' k = (if \<exists>v\<in>{v}. k \<in> ids st v then None else localParticles st k)"
      if "\<And>u. u \<in> {v} \<Longrightarrow> k \<notin> ids st' u" for k
      using that [of v] r(2) [where k = k] ids' by (simp add: st'_eq)
    show "ids st u \<inter> ids st' w = {}" if "u \<in> V - {v}" "w \<in> {v}" for u w
      using that nid [of u] index_ok_disjoint [OF ok _ v, of u] ids' by auto
  qed (use v r(1) in \<open>auto simp: st'_eq\<close>)
  have n: "length (particles_of st v) < length (particles_of st' v)" by (simp add: po)
  show "deref st' p = Some x" using n by (simp add: p addr_def po)
  show "localParticles st' (p_id x) = Some p"
    using r(1) [where i = "length (particles_of st v)"] n
    by (simp add: st'_eq p idat_def pv del: set_vec_sel particles_of_set_vec)
  show "realCells st' = realCells st \<and> ghostCells st' = ghostCells st
      \<and> localCells st' = localCells st \<and> localAdrATParticles st' = localAdrATParticles st"
    by (simp add: st'_eq)
qed

text \<open>\<^verbatim>\<open>moveIndexedParticle\<close>: the vectors first, then the two index updates.\<close>

definition move_vecs :: "storage \<Rightarrow> vid \<Rightarrow> vid \<Rightarrow> nat \<Rightarrow> storage" where
  "move_vecs st dl sl i =
     set_vec sl ((vecs st sl)\<lparr>pv_elems := swap_remove i (particles_of st sl)\<rparr>)
       (set_vec dl (pv_push (particles_of st sl ! i) (vecs st dl)) st)"

lemma moveIndexedParticle_eq:
  assumes "i < length (particles_of st sl)" and "dl \<noteq> sl"
  shows "moveIndexedParticle st dl sl i =
    (let s = reindex (pv_base (vecs st dl)) dl (move_vecs st dl sl i);
         s = (if i \<noteq> length (particles_of st sl) - 1 then updateInLocalParticles s sl i False else s)
     in Some (s, addr s dl (length (particles_of st dl))))"
proof -
  let ?n = "length (particles_of st sl) - 1"
  let ?a = "set_vec dl (pv_push (particles_of st sl ! i) (vecs st dl)) st"
  let ?b = "if i \<noteq> ?n then set_vec sl (pv_set i (last (particles_of ?a sl)) (vecs ?a sl)) ?a else ?a"
  have a: "particles_of ?a sl = particles_of st sl" "vecs ?a sl = vecs st sl"
    using assms(2) by simp_all
  have "pv_resize ?n particle_zero (vecs ?b sl)
      = (vecs st sl)\<lparr>pv_elems := swap_remove i (particles_of st sl)\<rparr>"
    unfolding a using assms(2)
    by (simp add: swap_remove_def pv_resize_def pv_set_def particles_of_def)
  moreover have "set_vec sl w ?b = set_vec sl w ?a" for w by (simp add: set_vec_def)
  ultimately have b: "set_vec sl (pv_resize ?n particle_zero (vecs ?b sl)) ?b = move_vecs st dl sl i"
    by (simp only: move_vecs_def)
  have len: "length (particles_of ?a sl) - 1 = ?n" by (simp only: a)
  define M where "M = move_vecs st dl sl i"
  have dst: "length (particles_of M dl) - 1 = length (particles_of st dl)"
    using assms(2) by (simp add: M_def move_vecs_def particles_of_def)
  have sb: "pv_base (vecs M sl) = pv_base (vecs st sl)"
    by (simp add: M_def move_vecs_def)
  show ?thesis
    unfolding moveIndexedParticle_def Let_def len b if_P [OF assms(1)] M_def [symmetric] dst
      reindex_def
    by (cases "pv_base (vecs st dl) \<noteq> pv_base (vecs M dl)"; cases "i \<noteq> ?n") (simp_all add: sb)
qed

lemma moveIndexedParticle_ok:
  assumes ok: "index_ok V st" and dl: "dl \<in> V" and sl: "sl \<in> V" and ne: "dl \<noteq> sl"
    and i: "i < length (particles_of st sl)"
  shows "\<exists>st' p. moveIndexedParticle st dl sl i = Some (st', p) \<and> index_ok V st'
    \<and> particles_of st' = (particles_of st)(dl := particles_of st dl @ [particles_of st sl ! i],
        sl := swap_remove i (particles_of st sl))
    \<and> deref st' p = Some (particles_of st sl ! i)
    \<and> realCells st' = realCells st \<and> ghostCells st' = ghostCells st
    \<and> localCells st' = localCells st \<and> localAdrATParticles st' = localAdrATParticles st"
proof -
  let ?xs = "particles_of st sl" and ?b = "pv_base (vecs st dl)"
  let ?x = "?xs ! i" and ?m = "move_vecs st dl sl i"
  define r where "r = reindex ?b dl ?m"
  define st' where "st' = (if i \<noteq> length ?xs - 1 then updateInLocalParticles r sl i False else r)"
  have m: "vecs ?m = (vecs st)(dl := pv_push ?x (vecs st dl),
        sl := (vecs st sl)\<lparr>pv_elems := swap_remove i ?xs\<rparr>)"
    and mlp: "localParticles ?m = localParticles st"
    using ne by (auto simp: move_vecs_def)
  have po: "particles_of ?m = (particles_of st)(dl := particles_of st dl @ [?x], sl := swap_remove i ?xs)"
    using ne by (simp add: particles_of_def m fun_eq_iff)
  have po': "particles_of st' = particles_of ?m" and v': "vecs st' = vecs ?m"
    by (simp_all add: st'_def r_def)
  have adds: "addr st' = addr ?m" "idat st' = idat ?m" "ids st' = ids ?m"
    by (simp_all add: st'_def r_def)
  have x_sl: "p_id ?x \<in> ids st sl" using i by (simp add: ids_def)
  have dd: "distinct (map p_id (particles_of st dl @ [?x]))"
    using index_ok_distinct [OF ok dl] index_ok_disjoint [OF ok dl sl ne] x_sl by (auto simp: ids_def)
  have pv: "particles_of ?m dl = particles_of st dl @ [?x]" using ne by (simp add: po)
  have ix: "?b = pv_base (vecs ?m dl) \<longrightarrow>
      (\<forall>j<length (particles_of st dl). localParticles ?m (idat ?m dl j) = Some (addr ?m dl j))"
    using index_okD [OF ok dl] ne by (auto simp: mlp idat_def addr_def nth_append po m)
  note rl = reindex_local [OF pv dd ix, folded r_def]
  have ids_sl: "ids ?m sl = ids st sl - {p_id ?x}"
    using set_swap_remove [OF index_ok_distinct [OF ok sl] i] by (simp add: ids_def po)
  have ids_dl: "ids ?m dl = insert (p_id ?x) (ids st dl)" using ne by (simp add: ids_def po)
  have apart: "ids ?m sl \<inter> ids ?m dl = {}"
    using ids_sl ids_dl index_ok_disjoint [OF ok dl sl ne] by auto
  have in_sl: "idat ?m sl j \<in> ids ?m sl" if "j < length ?xs - 1" for j
    using that by (auto simp: ids_iff po)
  have old_sl: "idat ?m sl j = (if j = i then idat st sl (length ?xs - 1) else idat st sl j)"
    if "j < length ?xs - 1" for j
    using that i nth_swap_remove [OF that i]
    by (cases "?xs = []") (auto simp: idat_def po last_conv_nth)
  have d_sl: "idat ?m sl j \<noteq> idat ?m sl i" if "j < length ?xs - 1" "i < length ?xs - 1" "j \<noteq> i" for j
    using that old_sl [of j] old_sl [of i] index_ok_distinct [OF ok sl]
    by (auto simp: idat_def distinct_conv_nth)
  have lp_dl: "localParticles st' (idat ?m dl j) = Some (addr ?m dl j)"
    if "j < length (particles_of ?m dl)" for j
  proof -
    have "idat ?m dl j \<in> ids ?m dl" using that by (auto simp: ids_iff)
    then have "i < length ?xs - 1 \<Longrightarrow> idat ?m dl j \<noteq> idat ?m sl i" using in_sl [of i] apart by auto
    with rl(1) [OF that] i show ?thesis by (auto simp: st'_def updateIn_strong r_def)
  qed
  have lp_sl: "localParticles st' (idat ?m sl j) = Some (addr ?m sl j)"
    if j: "j < length (particles_of ?m sl)" for j
  proof -
    have j': "j < length ?xs - 1" using j by (simp add: po)
    have "localParticles r (idat ?m sl j) = localParticles st (idat ?m sl j)"
      using rl(2) [of "idat ?m sl j"] in_sl [OF j'] apart mlp by auto
    moreover have "j \<noteq> i \<Longrightarrow> localParticles st (idat ?m sl j) = Some (addr ?m sl j)"
      using index_okD [OF ok sl, of j] j' old_sl [OF j'] by (simp add: addr_def m)
    ultimately have "j \<noteq> i \<Longrightarrow> localParticles r (idat ?m sl j) = Some (addr ?m sl j)" by simp
    moreover have "i < length ?xs - 1" if "i \<noteq> length ?xs - 1" using that i by linarith
    ultimately show ?thesis
      using j' d_sl [OF j'] by (cases "j = i") (auto simp: st'_def updateIn_strong r_def)
  qed
  have lp_old: "localParticles st' k = localParticles st k" if "k \<notin> ids ?m dl" "k \<notin> ids ?m sl" for k
    using rl(2) [OF that(1)] that(2) in_sl [of i] i mlp
    by (auto simp: st'_def updateIn_strong r_def)
  have "index_ok V st'"
  proof (rule index_ok_changed [OF ok, of "{dl, sl}"])
    show "localParticles st' k = (if \<exists>v\<in>{dl, sl}. k \<in> ids st v then None else localParticles st k)"
      if "\<And>u. u \<in> {dl, sl} \<Longrightarrow> k \<notin> ids st' u" for k
      using that [of dl] that [of sl] lp_old [of k] ids_sl ids_dl by (auto simp: adds)
    show "ids st u \<inter> ids st' w = {}" if "u \<in> V - {dl, sl}" "w \<in> {dl, sl}" for u w
      using that ids_sl ids_dl x_sl index_ok_disjoint [OF ok _ dl, of u]
        index_ok_disjoint [OF ok _ sl, of u] by (auto simp: adds)
  qed (use dl sl lp_dl lp_sl in \<open>auto simp: adds po' v' m\<close>)
  moreover have "moveIndexedParticle st dl sl i
      = Some (st', addr st' dl (length (particles_of st dl)))"
    unfolding moveIndexedParticle_eq [OF i ne] Let_def st'_def r_def by simp
  moreover have "deref st' (addr st' dl (length (particles_of st dl))) = Some ?x"
    using ne by (simp add: addr_def po' po)
  moreover have "particles_of st' = (particles_of st)(dl := particles_of st dl @ [?x],
      sl := swap_remove i ?xs)" by (simp only: po' po)
  moreover have "realCells st' = realCells st" "ghostCells st' = ghostCells st"
      "localCells st' = localCells st" "localAdrATParticles st' = localAdrATParticles st"
    by (simp_all add: st'_def r_def move_vecs_def)
  ultimately show ?thesis by blast
qed

section \<open>Removal\<close>

text \<open>Vectors without their particle \<open>i\<close>, re-indexed as \<^verbatim>\<open>removeParticle\<close> does.\<close>

lemma removed_vec_ok:
  assumes ok: "index_ok V st" and v: "v \<in> V" and i: "i < length (particles_of st v)"
    and vecs: "vecs st' = (vecs st)(v := w)" and w: "pv_elems w = swap_remove i (particles_of st v)"
    and lp: "localParticles st' = (localParticles st)(idat st v i := None)"
  shows "index_ok V (updateLocalParticles st' v)"
proof -
  have po: "particles_of st' = (particles_of st)(v := swap_remove i (particles_of st v))"
    using particles_of_upd [OF vecs] w by simp
  note d0 = index_ok_distinct [OF ok v]
  have ids': "ids st' v = ids st v - {idat st v i}"
    using set_swap_remove [OF d0 i] by (simp add: ids_def po idat_def)
  have "mset (p_id (particles_of st v ! i) # map p_id (swap_remove i (particles_of st v)))
      = mset (map p_id (particles_of st v))"
    using mset_swap_remove [OF i] by (metis image_mset_add_mset mset.simps(2) mset_map)
  then have "distinct (p_id (particles_of st v ! i) # map p_id (swap_remove i (particles_of st v)))
      = distinct (map p_id (particles_of st v))" by (rule mset_eq_imp_distinct_iff)
  then have d: "distinct (map p_id (particles_of st' v))" using d0 by (simp add: po)
  note u = updateLocalParticles_local [OF d]
  show ?thesis
  proof (rule index_ok_changed [OF ok, of "{v}"])
    show "localParticles (updateLocalParticles st' v) k
        = (if \<exists>v\<in>{v}. k \<in> ids st v then None else localParticles st k)"
      if "\<And>u. u \<in> {v} \<Longrightarrow> k \<notin> ids (updateLocalParticles st' v) u" for k
    proof -
      have k: "k \<notin> ids st' v" using that [of v] by simp
      have "idat st v i \<in> ids st v" using i by (auto simp: ids_iff)
      moreover have "k \<in> ids st v \<longleftrightarrow> k = idat st v i" using k ids' calculation by blast
      ultimately show ?thesis unfolding u(2) [OF k] lp by simp
    qed
    show "ids st x \<inter> ids (updateLocalParticles st' v) y = {}" if "x \<in> V - {v}" "y \<in> {v}" for x y
      using that index_ok_disjoint [OF ok _ v, of x] ids' by auto
  qed (use v vecs u(1) in auto)
qed

lemma removeFromLocal_strong:
  assumes "index_ok V st" "v \<in> V" "i < length (particles_of st v)"
  shows "removeFromLocalParticles st (addr st v i) False
    = Some (st\<lparr>localParticles := (localParticles st)(idat st v i := None)\<rparr>)"
  using index_okD [OF assms] assms(3)
  by (simp add: removeFromLocalParticles_def addr_def idat_def)

lemma onParticlesChanged_sel [simp]:
  "particles_of (onParticlesChanged st) = particles_of st" "vecs (onParticlesChanged st) = vecs st"
  "localParticles (onParticlesChanged st) = localParticles st"
  "changedSignals (onParticlesChanged st) = Suc (changedSignals st)"
  "addr (onParticlesChanged st) = addr st" "idat (onParticlesChanged st) = idat st"
  "index_ok V (onParticlesChanged st) = index_ok V st"
  by (simp_all add: onParticlesChanged_def particles_of_def addr_def idat_def fun_eq_iff
      index_ok_def points_to_def)

lemma changedSignals_updates [simp]:
  "changedSignals (updateLocalParticles st v) = changedSignals st"
proof -
  have "changedSignals (fold (\<lambda>i s. updateInLocalParticles s v i False) is st) = changedSignals st"
    for "is"
    by (induction "is" arbitrary: st) (simp_all add: updateInLocalParticles_def)
  then show ?thesis by (simp add: updateLocalParticles_def)
qed

lemma removeParticle_steps:
  assumes ok: "index_ok V st" and v: "CellV c \<in> V" and i: "i < length (particles_of st (CellV c))"
    and x: "x = particles_of st (CellV c) ! i" and real: "\<not> p_ghost x"
    and cell: "cellOf (p_pos x) = Some c"
  obtains s w where
    "removeParticle cellOf st (p_id x) = Some (onParticlesChanged (updateLocalParticles s (CellV c)), 1)"
    "vecs s = (vecs st)(CellV c := w)" "pv_elems w = swap_remove i (particles_of st (CellV c))"
    "localParticles s = (localParticles st)(p_id x := None)" "changedSignals s = changedSignals st"
proof -
  let ?v = "CellV c" and ?xs = "particles_of st (CellV c)"
  have idx: "idat st ?v i = p_id x" by (simp add: idat_def x)
  have lp: "localParticles st (p_id x) = Some (addr st ?v i)"
    using index_okD [OF ok v i] idx by simp
  have dx: "deref st (addr st ?v i) = Some x" using i by (simp add: addr_def x)
  define s1 where "s1 = st\<lparr>localParticles := (localParticles st)(p_id x := None)\<rparr>"
  have s1: "particles_of s1 = particles_of st" "vecs s1 = vecs st"
    "localParticles s1 = (localParticles st)(p_id x := None)" "changedSignals s1 = changedSignals st"
    by (simp_all add: s1_def particles_of_def fun_eq_iff)
  define s2 where "s2 = (if i \<noteq> length ?xs - 1
      then set_vec ?v (pv_set i (last ?xs) (vecs s1 ?v)) s1 else s1)"
  define w where "w = pv_resize (length ?xs - 1) particle_zero (vecs s2 ?v)"
  have rem: "removeFromLocalParticles st (addr st ?v i) False = Some s1"
    using removeFromLocal_strong [OF ok v i] by (simp add: s1_def idx)
  have "removeParticle cellOf st (p_id x)
      = Some (onParticlesChanged (updateLocalParticles (set_vec ?v w s2) ?v), 1)"
    using lp dx real cell rem
    by (simp add: removeParticle_def lookupRealParticle_def addr_def s1 Let_def s2_def w_def)
  moreover have "vecs (set_vec ?v w s2) = (vecs st)(?v := w)"
    by (simp add: s2_def s1 fun_eq_iff)
  moreover have "pv_elems w = swap_remove i ?xs"
    unfolding w_def s2_def swap_remove_def by (simp add: s1 particles_of_def)
  moreover have "localParticles (set_vec ?v w s2) = (localParticles st)(p_id x := None)"
    by (simp add: s2_def s1)
  moreover have "changedSignals (set_vec ?v w s2) = changedSignals st"
    by (simp add: s2_def s1 set_vec_def)
  ultimately show ?thesis by (rule that)
qed

section \<open>Properties\<close>

text \<open>
  C26.  Appending a particle of a new id to a vector keeps the index exact, whether or not the
  vector moves to another block: all ids map to current addresses, the new id maps to the
  returned pointer, and dereferencing that gives the particle.
\<close>

theorem append_indexed_particle:
  assumes "index_ok V st" and "v \<in> V" and "localParticles st (p_id x) = None"
  shows "\<exists>st' p. appendIndexedParticle st v x = (st', p) \<and> index_ok V st'
    \<and> particles_of st' = (particles_of st)(v := particles_of st v @ [x])
    \<and> lookupLocalParticle st' (p_id x) = Some p \<and> deref st' p = Some x
    \<and> (\<forall>k q. lookupLocalParticle st' k = Some q \<longrightarrow> (\<exists>y. deref st' q = Some y \<and> p_id y = k))"
proof -
  obtain st' p where r: "appendIndexedParticle st v x = (st', p)" by fastforce
  note ok = appendIndexedParticle_ok [OF assms r]
  show ?thesis
    using r ok index_ok_deref [OF ok(1)] unfolding lookupLocalParticle_def by blast
qed

lemma index_ok_new: "index_ok V Storage_new"
  by (simp add: index_ok_def points_to_def Storage_new_def particles_of_def pv_empty_def)

theorem append_indexed_particle_witness:
  "\<exists>st' p. appendIndexedParticle Storage_new (CellV 0) particle_zero = (st', p)
    \<and> deref st' p = Some particle_zero"
  using append_indexed_particle [OF index_ok_new, of "CellV 0" "{CellV 0}" particle_zero]
  by (auto simp: Storage_new_def)

text \<open>
  C29.  Moving a particle between two vectors is safe and loses nothing:
  \<^verbatim>\<open>moveIndexedParticle\<close> on a valid source index returns, keeps the index exact (even when the
  destination is reallocated and the last source particle is swapped into the hole), and
  returns a pointer to the moved particle; together the two vectors hold the same particles
  as before, and the loop that moved it finds the next particle at the same source index.
\<close>

theorem move_indexed_particle:
  assumes "index_ok V st" and "dl \<in> V" and "sl \<in> V" and "dl \<noteq> sl"
    and "i < length (particles_of st sl)"
  shows "\<exists>st' p. moveIndexedParticle st dl sl i = Some (st', p) \<and> index_ok V st'
    \<and> deref st' p = Some (particles_of st sl ! i)
    \<and> mset (particles_of st' dl) + mset (particles_of st' sl)
        = mset (particles_of st dl) + mset (particles_of st sl)
    \<and> length (particles_of st' sl) = length (particles_of st sl) - 1
    \<and> (i < length (particles_of st' sl) \<longrightarrow>
          particles_of st' sl ! i = last (particles_of st sl))"
  using moveIndexedParticle_ok [OF assms] assms(4,5) mset_swap_remove [OF assms(5)]
  by (auto simp: nth_swap_remove)

theorem move_indexed_particle_witness:
  "\<exists>st p st' p'. appendIndexedParticle Storage_new (CellV 0) particle_zero = (st, p)
    \<and> moveIndexedParticle st (CellV 1) (CellV 0) 0 = Some (st', p')
    \<and> deref st' p' = Some particle_zero"
proof -
  let ?V = "{CellV 0, CellV 1}"
  obtain st p where st: "appendIndexedParticle Storage_new (CellV 0) particle_zero = (st, p)"
    by fastforce
  have n: "localParticles Storage_new (p_id particle_zero) = None" by (simp add: Storage_new_def)
  have "index_ok ?V st" and "particles_of st (CellV 0) = [particle_zero]"
    using appendIndexedParticle_ok [OF index_ok_new _ n st, of ?V]
    by (auto simp: Storage_new_def particles_of_def pv_empty_def)
  with move_indexed_particle [of ?V st "CellV 1" "CellV 0" 0] st show ?thesis by auto
qed

text \<open>
  C30.  \<^verbatim>\<open>removeParticle\<close> of a real particle that lies in the cell its position maps to removes
  exactly that particle, keeps the index exact for all others, emits one
  \<^verbatim>\<open>onParticlesChanged\<close>, returns \<open>1\<close>, and afterwards the id is not found any more.
\<close>

theorem remove_particle:
  assumes ok: "index_ok V st" and v: "CellV c \<in> V" and i: "i < length (particles_of st (CellV c))"
    and x: "x = particles_of st (CellV c) ! i" and real: "\<not> p_ghost x"
    and cell: "cellOf (p_pos x) = Some c"
  shows "\<exists>st'. removeParticle cellOf st (p_id x) = Some (st', 1) \<and> index_ok V st'
    \<and> add_mset x (mset (particles_of st' (CellV c))) = mset (particles_of st (CellV c))
    \<and> (\<forall>v. v \<noteq> CellV c \<longrightarrow> particles_of st' v = particles_of st v)
    \<and> lookupLocalParticle st' (p_id x) = None
    \<and> changedSignals st' = Suc (changedSignals st)"
proof -
  obtain s w where
    rem: "removeParticle cellOf st (p_id x) = Some (onParticlesChanged (updateLocalParticles s (CellV c)), 1)"
    and vecs: "vecs s = (vecs st)(CellV c := w)" and w: "pv_elems w = swap_remove i (particles_of st (CellV c))"
    and lp: "localParticles s = (localParticles st)(p_id x := None)" "changedSignals s = changedSignals st"
    using assms by (rule removeParticle_steps)
  have idx: "idat st (CellV c) i = p_id x" by (simp add: idat_def x)
  have ok': "index_ok V (updateLocalParticles s (CellV c))"
    using removed_vec_ok [OF ok v i vecs w] lp(1) idx by simp
  have po: "particles_of s = (particles_of st)(CellV c := swap_remove i (particles_of st (CellV c)))"
    using particles_of_upd [OF vecs] w by simp
  have "p_id x \<notin> ids s (CellV c)"
    using set_swap_remove [OF index_ok_distinct [OF ok v] i] x by (simp add: ids_def po)
  then have "localParticles (updateLocalParticles s (CellV c)) (p_id x) = None"
    using updateLocalParticles_local(2) [of s "CellV c" "p_id x"] index_ok_distinct [OF ok' v] lp(1)
    by simp
  then show ?thesis
    using rem ok' po mset_swap_remove [OF i] x lp(2) by (auto simp: lookupLocalParticle_def)
qed

theorem remove_particle_witness:
  "\<exists>st p st'. appendIndexedParticle Storage_new (CellV 0) particle_zero = (st, p)
    \<and> removeParticle (\<lambda>_. Some 0) st 0 = Some (st', 1) \<and> lookupLocalParticle st' 0 = None"
proof -
  obtain st p where st: "appendIndexedParticle Storage_new (CellV 0) particle_zero = (st, p)"
    by fastforce
  have n: "localParticles Storage_new (p_id particle_zero) = None" by (simp add: Storage_new_def)
  have ok: "index_ok {CellV 0} st" and po: "particles_of st (CellV 0) = [particle_zero]"
    using appendIndexedParticle_ok [OF index_ok_new _ n st, of "{CellV 0}"]
    by (auto simp: Storage_new_def particles_of_def pv_empty_def)
  have "\<exists>st'. removeParticle (\<lambda>_. Some 0) st (p_id particle_zero) = Some (st', 1)
      \<and> lookupLocalParticle st' (p_id particle_zero) = None"
    using remove_particle [OF ok, of 0 0 particle_zero "\<lambda>_. Some 0"] po
    by (auto simp: particle_zero_def)
  with st show ?thesis by (auto simp: particle_zero_def)
qed

end
