(* ===== verification/StorageComm.thy ===== *)
theory StorageComm
  imports StorageIndex
begin

text \<open>
  Communication of the storage: sending a list of particles to another process and receiving
  it there, and the two ways ghost data and ghost forces travel.  The classes connected to the
  signals \<^verbatim>\<open>beforeSendParticles\<close> and \<^verbatim>\<open>afterRecvParticles\<close> are the locale \<open>slots\<close>: what a slot
  writes after the particles, the matching slot reads back.
\<close>

lemma bind_Some_iff: "m \<bind> f = Some y \<longleftrightarrow> (\<exists>x. m = Some x \<and> f x = Some y)"
  by (cases m) auto

section \<open>Sending\<close>

lemma send_each_spec:
  assumes "send_each v is (st, data) = Some (st', data')" and "out_ok data"
    and "distinct is" and "\<forall>i\<in>set is. i < length (particles_of st v)"
    and "distinct (map p_id (particles_of st v))"
    and "\<forall>i\<in>set is. localParticles st (idat st v i) = Some (addr st v i)"
  shows "out_ok data' \<and> b_items data' = b_items data @ map (\<lambda>i. IPart (particles_of st v ! i)) is
    \<and> vecs st' = vecs st \<and> realCells st' = realCells st \<and> ghostCells st' = ghostCells st
    \<and> localCells st' = localCells st
    \<and> localParticles st' = (\<lambda>k. if k \<in> idat st v ` set is then None else localParticles st k)"
  using assms
proof (induction "is" arbitrary: st data)
  case (Cons i "is")
  let ?s = "st\<lparr>localParticles := (localParticles st)(idat st v i := None)\<rparr>"
  have i: "i < length (particles_of st v)" using Cons.prems(4) by simp
  have d: "deref st (addr st v i) = Some (particles_of st v ! i)" using i by (simp add: addr_def)
  have rem: "removeFromLocalParticles st (addr st v i) False = Some ?s"
    using d Cons.prems(6) by (simp add: removeFromLocalParticles_def idat_def)
  have po: "particles_of ?s = particles_of st" "idat ?s = idat st" "addr ?s = addr st"
    by (simp_all add: particles_of_def idat_def addr_def fun_eq_iff)
  from Cons.prems(1) rem obtain c where c: "write_particle (particles_of ?s v ! i) data = Some c"
      "send_each v is (?s, c) = Some (st', data')"
    by (auto simp: bind_Some_iff)
  note w = writeAll_Some [OF c(1) [unfolded write_particle_def] Cons.prems(2)]
  have inj: "idat st v j \<noteq> idat st v i" if "j \<in> set is" for j
  proof -
    have "j < length (particles_of st v)" "j \<noteq> i" using that Cons.prems(3,4) by auto
    then show ?thesis using Cons.prems(5) i by (auto simp: idat_def distinct_conv_nth)
  qed
  have IH: "out_ok data' \<and> b_items data' = b_items c @ map (\<lambda>i. IPart (particles_of ?s v ! i)) is
    \<and> vecs st' = vecs ?s \<and> realCells st' = realCells ?s \<and> ghostCells st' = ghostCells ?s
    \<and> localCells st' = localCells ?s
    \<and> localParticles st' = (\<lambda>k. if k \<in> idat ?s v ` set is then None else localParticles ?s k)"
  proof (rule Cons.IH [OF c(2) w(1)])
    show "\<forall>j\<in>set is. localParticles ?s (idat ?s v j) = Some (addr ?s v j)"
      unfolding po using Cons.prems(6) inj by simp
  qed (use Cons.prems in \<open>auto simp: po\<close>)
  then show ?case using w(2) by (auto simp: po fun_eq_iff)
qed auto

section \<open>Receiving\<close>

lemma recv_each_spec:
  assumes "in_ok buf" and "b_items buf = map IPart xs @ rest"
    and "particles_of st v = pre @ ys" and "length ys = length xs" and "distinct (map p_id xs)"
  shows "\<exists>st' buf'. recv_each v [length pre..<length pre + length xs] (st, buf) = Some (st', buf')
    \<and> in_ok buf' \<and> b_items buf' = rest \<and> particles_of st' v = pre @ xs
    \<and> (\<forall>u. u \<noteq> v \<longrightarrow> vecs st' u = vecs st u) \<and> pv_base (vecs st' v) = pv_base (vecs st v)
    \<and> (\<forall>i<length xs. localParticles st' (p_id (xs ! i)) = Some (addr st v (length pre + i)))
    \<and> (\<forall>k. k \<notin> p_id ` set xs \<longrightarrow> localParticles st' k = localParticles st k)
    \<and> realCells st' = realCells st \<and> ghostCells st' = ghostCells st \<and> localCells st' = localCells st"
  using assms
proof (induction xs arbitrary: st buf pre ys)
  case (Cons x xs)
  from Cons.prems obtain c where c: "read_particle buf = Inr (x, c)" "in_ok c"
      "b_items c = map IPart xs @ rest"
    using part_codec.rd_enc [OF Cons.prems(1), of x "map IPart xs @ rest"] by auto
  from Cons.prems(4) obtain y zs where ys: "ys = y # zs" by (cases ys) auto
  let ?n = "length pre"
  define s where "s = set_vec v (pv_set ?n x (vecs st v)) st"
  define s' where "s' = updateInLocalParticles s v ?n False"
  have po: "particles_of s v = (pre @ [x]) @ zs"
    using Cons.prems(3) by (simp add: s_def ys particles_of_def)
  have po': "particles_of s' v = (pre @ [x]) @ zs" by (simp add: s'_def po)
  have base: "pv_base (vecs s' v) = pv_base (vecs st v)" "\<And>u. u \<noteq> v \<Longrightarrow> vecs s' u = vecs st u"
    by (simp_all add: s'_def s_def)
  have lp: "localParticles s' = (localParticles st)(p_id x \<mapsto> addr st v ?n)"
    by (simp add: s'_def updateIn_strong idat_def po addr_def) (simp add: s_def)
  have step: "recv_each v [?n..<?n + length (x # xs)] (st, buf)
      = recv_each v [Suc ?n..<Suc ?n + length xs] (s', c)"
  proof -
    have "[?n..<?n + length (x # xs)] = ?n # [Suc ?n..<Suc ?n + length xs]"
      by (subst upt_conv_Cons) simp_all
    then show ?thesis using c(1) by (simp only: recv_each.simps) (simp add: s'_def s_def Let_def)
  qed
  have dx: "p_id x \<notin> p_id ` set xs" "distinct (map p_id xs)" using Cons.prems(5) by auto
  have lz: "length zs = length xs" using Cons.prems(4) ys by simp
  obtain st' buf' where IH: "recv_each v [Suc ?n..<Suc ?n + length xs] (s', c) = Some (st', buf')"
      "in_ok buf'" "b_items buf' = rest" "particles_of st' v = (pre @ [x]) @ xs"
      "\<forall>u. u \<noteq> v \<longrightarrow> vecs st' u = vecs s' u" "pv_base (vecs st' v) = pv_base (vecs s' v)"
      "\<forall>i<length xs. localParticles st' (p_id (xs ! i)) = Some (addr s' v (Suc ?n + i))"
      "\<forall>k. k \<notin> p_id ` set xs \<longrightarrow> localParticles st' k = localParticles s' k"
      "realCells st' = realCells s'" "ghostCells st' = ghostCells s'" "localCells st' = localCells s'"
    using Cons.IH [OF c(2,3) po' lz dx(2)] by auto
  have "localParticles st' (p_id ((x # xs) ! i)) = Some (addr st v (?n + i))"
    if "i < length (x # xs)" for i
  proof (cases i)
    case 0
    then show ?thesis using IH(8) dx(1) lp by simp
  next
    case (Suc j)
    then show ?thesis using IH(7) that base(1) by (simp add: addr_def)
  qed
  moreover have "localParticles st' k = localParticles st k" if "k \<notin> p_id ` set (x # xs)" for k
    using that IH(8) lp by simp
  moreover have "realCells s' = realCells st" "ghostCells s' = ghostCells st" "localCells s' = localCells st"
    by (simp_all add: s'_def s_def)
  ultimately show ?case using IH base by (simp only: step) auto
qed auto

section \<open>The slots of the signals\<close>

locale slots =
  fixes before :: "particle list \<Rightarrow> buffer \<Rightarrow> buffer option"
    and after :: "particle list \<Rightarrow> buffer \<Rightarrow> buffer option"
    and extra :: "particle list \<Rightarrow> item list"
  assumes before_writes: "out_ok b \<Longrightarrow> before xs b = Some b' \<Longrightarrow>
      out_ok b' \<and> b_items b' = b_items b @ extra xs"
    and after_reads: "in_ok b \<Longrightarrow> b_items b = extra xs @ rest \<Longrightarrow>
      \<exists>b'. after xs b = Some b' \<and> in_ok b' \<and> b_items b' = rest"
begin

lemma sendParticles_spec:
  assumes ok: "index_ok V st" and v: "v \<in> V" and cap: "0 < b_capacity (outBuffer st)"
    and send: "sendParticles before st v = Some (st', msg)"
  shows "index_ok V st' \<and> particles_of st' = (particles_of st)(v := [])
    \<and> m_items msg = IInt (int (length (particles_of st v))) # map IPart (particles_of st v)
        @ extra (particles_of st v)
    \<and> m_bytes msg = bytes (m_items msg)
    \<and> realCells st' = realCells st \<and> ghostCells st' = ghostCells st
    \<and> (\<forall>k. k \<in> ids st v \<longrightarrow> localParticles st' k = None) \<and> 0 < b_capacity (outBuffer st')"
proof -
  let ?xs = "particles_of st v"
  have ok0: "out_ok (buf_reset (outBuffer st))" using cap by simp
  from send obtain d1 s2 d2 d3 where s:
    "write_int (int (length ?xs)) (buf_reset (outBuffer st)) = Some d1"
    "send_each v [0..<length ?xs] (st, d1) = Some (s2, d2)"
    "before (particles_of s2 v) d2 = Some d3"
    "st' = (set_vec v (pv_clear (vecs s2 v)) s2)\<lparr>outBuffer := d3\<rparr>" "msg = buf_send d3"
    by (auto simp: sendParticles_def Let_def bind_Some_iff split: prod.splits)
  note w = writeAll_Some [OF s(1) [unfolded write_int_def] ok0]
  note d = index_ok_distinct [OF ok v]
  have sp: "out_ok d2 \<and> b_items d2 = b_items d1 @ map (\<lambda>i. IPart (?xs ! i)) [0..<length ?xs]
    \<and> vecs s2 = vecs st \<and> realCells s2 = realCells st \<and> ghostCells s2 = ghostCells st
    \<and> localCells s2 = localCells st
    \<and> localParticles s2 = (\<lambda>k. if k \<in> idat st v ` set [0..<length ?xs] then None
        else localParticles st k)"
    using send_each_spec [OF s(2) w(1) _ _ d] index_okD [OF ok v] by simp
  have po2: "particles_of s2 = particles_of st" using sp by (simp add: particles_of_def fun_eq_iff)
  have idv: "idat st v ` {0..<length ?xs} = ids st v" by (auto simp: ids_iff)
  have m: "map (\<lambda>i. IPart (?xs ! i)) [0..<length ?xs] = map IPart ?xs"
    by (rule nth_equalityI) simp_all
  note b = before_writes [OF conjunct1 [OF sp] s(3)]
  have po: "particles_of st' = (particles_of st)(v := [])"
    using po2 by (simp add: s(4) particles_of_def fun_eq_iff)
  have lp: "localParticles st' k = (if k \<in> ids st v then None else localParticles st k)" for k
    using sp idv by (simp add: s(4))
  have "index_ok V st'"
    by (rule index_ok_changed [OF ok, of "{v}"])
      (use v sp lp po in \<open>auto simp: s(4) ids_def\<close>)
  moreover have "m_items msg = IInt (int (length ?xs)) # map IPart ?xs @ extra ?xs"
    using b w sp m po2 by (simp add: s(5) buf_send_def)
  moreover have "m_bytes msg = bytes (m_items msg)"
    using b by (simp add: s(5) buf_send_def out_ok_def)
  moreover have "0 < b_capacity d3" using b by (simp add: out_ok_def)
  ultimately show ?thesis using po lp sp by (simp add: s(4))
qed

lemma recvParticles_spec:
  assumes ok: "index_ok W st" and u: "u \<in> W" and e: "particles_of st u = []"
    and items: "m_items msg = IInt (int (length xs)) # map IPart xs @ extra xs"
    and b: "m_bytes msg = bytes (m_items msg)"
    and d: "distinct (map p_id xs)" and new: "\<forall>x\<in>set xs. localParticles st (p_id x) = None"
  shows "\<exists>st'. recvParticles after dflt st u msg = Some st' \<and> index_ok W st'
    \<and> particles_of st' = (particles_of st)(u := xs)
    \<and> realCells st' = realCells st \<and> ghostCells st' = ghostCells st"
proof -
  let ?b = "buf_recv msg (inBuffer st)"
  have rin: "in_ok ?b" "b_items ?b = [IInt (int (length xs))] @ (map IPart xs @ extra xs)"
    using items b by (auto simp: buf_recv_def in_ok_def buf_allocate_def Let_def)
  obtain c where c: "read_int ?b = Inr (int (length xs), c)" "in_ok c"
      "b_items c = map IPart xs @ extra xs"
    using int_codec.rd_enc [OF rin] by auto
  show ?thesis
  proof (cases "xs = []")
    case True
    let ?st' = "st\<lparr>inBuffer := c\<rparr>"
    have "recvParticles after dflt st u msg = Some ?st'"
      using c True by (simp add: recvParticles_def Let_def)
    moreover have "index_ok W ?st'"
      using ok by (simp add: index_ok_def points_to_def particles_of_def addr_def idat_def)
    moreover have "particles_of ?st' = (particles_of st)(u := xs)"
      using e True by (auto simp: particles_of_def fun_eq_iff)
    ultimately show ?thesis by simp
  next
    case False
    define s where "s = set_vec u (pv_resize (length xs) dflt (vecs st u)) st"
    have e': "pv_elems (vecs st u) = []" using e by (simp add: particles_of_def)
    have ps: "particles_of s u = [] @ replicate (length xs) dflt"
      using e' False by (simp add: s_def pv_resize_def Let_def)
    have vs: "vecs s w = vecs st w" if "w \<noteq> u" for w using that by (simp add: s_def)
    have lps: "localParticles s = localParticles st" by (simp add: s_def)
    obtain s2 d2 where r: "recv_each u [0..<length xs] (s, c) = Some (s2, d2)"
        "in_ok d2" "b_items d2 = extra xs" "particles_of s2 u = xs"
        "\<forall>w. w \<noteq> u \<longrightarrow> vecs s2 w = vecs s w" "pv_base (vecs s2 u) = pv_base (vecs s u)"
        "\<forall>i<length xs. localParticles s2 (p_id (xs ! i)) = Some (addr s u i)"
        "\<forall>k. k \<notin> p_id ` set xs \<longrightarrow> localParticles s2 k = localParticles s k"
        "realCells s2 = realCells s" "ghostCells s2 = ghostCells s"
      using recv_each_spec [OF c(2,3) ps _ d] by auto
    obtain d3 where d3: "after xs d2 = Some d3"
      using after_reads [OF r(2), of xs "[]"] r(3) by auto
    let ?st' = "s2\<lparr>inBuffer := d3\<rparr>"
    have "recvParticles after dflt st u msg = Some ?st'"
      using c(1) e False r(1) d3 r(4)
      by (simp add: recvParticles_def Let_def s_def [symmetric])
    moreover have po: "particles_of ?st' = (particles_of st)(u := xs)"
      using r(4,5) vs by (auto simp: particles_of_def fun_eq_iff)
    moreover have "index_ok W ?st'"
    proof (rule index_ok_changed [OF ok, of "{u}"])
      show "localParticles ?st' (idat ?st' w i) = Some (addr ?st' w i)"
        if "w \<in> {u}" "i < length (particles_of ?st' w)" for w i
        using that r(6,7) by (simp add: po idat_def addr_def)
      show "localParticles ?st' k = (if \<exists>v\<in>{u}. k \<in> ids st v then None else localParticles st k)"
        if "\<And>v. v \<in> {u} \<Longrightarrow> k \<notin> ids ?st' v" for k
        using that [of u] r(8) lps e by (simp add: ids_def po)
      show "ids st x \<inter> ids ?st' y = {}" if "x \<in> W - {u}" "y \<in> {u}" for x y
      proof -
        have "k \<notin> ids st x" if "k \<in> p_id ` set xs" for k
          using that new index_ok_ids [OF ok, of x k] \<open>x \<in> W - {u}\<close> by auto
        then show ?thesis using that(2) by (auto simp: ids_def po)
      qed
    qed (use u r(5) vs in auto)
    ultimately show ?thesis using r(9,10) by (simp add: s_def)
  qed
qed

text \<open>One message between two processes.\<close>

lemma transfer:
  assumes okS: "index_ok V st" and v: "v \<in> V" and cap: "0 < b_capacity (outBuffer st)"
    and send: "sendParticles before st v = Some (st', msg)"
    and okR: "index_ok W rt" and u: "u \<in> W" and e: "particles_of rt u = []"
    and new: "\<forall>x\<in>set (particles_of st v). localParticles rt (p_id x) = None"
  shows "index_ok V st' \<and> particles_of st' = (particles_of st)(v := [])
    \<and> (\<exists>rt'. recvParticles after dflt rt u msg = Some rt' \<and> index_ok W rt'
        \<and> particles_of rt' = (particles_of rt)(u := particles_of st v))"
  using sendParticles_spec [OF okS v cap send]
    recvParticles_spec [OF okR u e, of msg "particles_of st v" dflt]
    index_ok_distinct [OF okS v] new
  by blast

end

text \<open>A storage to which no class is connected.\<close>

interpretation unconnected: slots "\<lambda>_ b. Some b" "\<lambda>_ b. Some b" "\<lambda>_. []"
  by unfold_locales auto

section \<open>Ghost data\<close>

lemma pack_each_seq:
  "pack_each e shift xs b = writeSeq (concat (map (\<lambda>x. particle_items x e shift) xs)) b"
  by (induction xs arbitrary: b)
    (simp_all add: write_particle_data_seq writeSeq_append cong: Option.bind_cong)

lemma pack_forces_seq: "pack_forces xs b = writeSeq (map (\<lambda>x. IForce (part_f x)) xs) b"
  by (induction xs arbitrary: b) (simp_all add: write_force_def cong: Option.bind_cong)

lemma unpack_forces_spec:
  assumes "in_ok b" and "b_items b = map (\<lambda>x. IForce (part_f x)) gs @ rest" and "length gs = length xs"
  shows "\<exists>b'. unpack_forces comb xs b
      = Some (map2 (\<lambda>x g. x\<lparr>part_f := comb (part_f x) (part_f g)\<rparr>) xs gs, b')
    \<and> in_ok b' \<and> b_items b' = rest"
  using assms
proof (induction xs arbitrary: b gs)
  case (Cons x xs)
  then obtain g gs' where gs: "gs = g # gs'" by (cases gs) auto
  obtain c where c: "read_force b = Inr (part_f g, c)" "in_ok c"
      "b_items c = map (\<lambda>x. IForce (part_f x)) gs' @ rest"
    using force_codec.rd_enc [OF Cons.prems(1), of "part_f g"] Cons.prems(2) by (auto simp: gs)
  from Cons.IH [OF c(2,3)] Cons.prems(3) gs obtain b' where
    "unpack_forces comb xs c
      = Some (map2 (\<lambda>x g. x\<lparr>part_f := comb (part_f x) (part_f g)\<rparr>) xs gs', b')"
    "in_ok b'" "b_items b' = rest" by auto
  then show ?case using c(1) by (simp add: gs)
qed simp

section \<open>Properties\<close>

text \<open>
  C31.  A list of particles survives the transfer to another process, whatever the classes connected to the
  signals add to the message, as long as the reader takes out what the writer put in (\<open>slots\<close>): \<^verbatim>\<open>sendParticles\<close> of
  a list of an exactly indexed storage, when it returns, has emptied the list and taken its particles out of the sender's
  index; if the receiver's index is exact and knows none of their ids, \<^verbatim>\<open>recvParticles\<close> of that message into an
  empty list succeeds and holds the same particles in the same order, and both indices remain exact.
\<close>

theorem send_recv_particles:
  assumes "slots before after extra"
    and "index_ok V st" and "v \<in> V" and "0 < b_capacity (outBuffer st)"
    and "sendParticles before st v = Some (st', msg)"
    and "index_ok W rt" and "u \<in> W" and "particles_of rt u = []"
    and "\<forall>x\<in>set (particles_of st v). lookupLocalParticle rt (p_id x) = None"
  shows "index_ok V st' \<and> particles_of st' = (particles_of st)(v := [])
    \<and> (\<exists>rt'. recvParticles after dflt rt u msg = Some rt' \<and> index_ok W rt'
        \<and> particles_of rt' = (particles_of rt)(u := particles_of st v))"
  using slots.transfer [OF assms(1-8)] assms(9) unfolding lookupLocalParticle_def by blast

text \<open>Two particles in a list of a storage, whose message does not fit the static buffer.\<close>

definition numbered :: "int \<Rightarrow> particle" where
  "numbered k = setId particle_zero k"

definition two_held :: storage where
  "two_held = Storage_new\<lparr>vecs := (\<lambda>v. if v = TmpV 0 then \<lparr>pv_base = 2, pv_cap = 2, pv_elems = [numbered 1, numbered 2]\<rparr> else pv_empty),
     localParticles := [1 \<mapsto> Ptr (TmpV 0) 2 0, 2 \<mapsto> Ptr (TmpV 0) 2 1]\<rparr>"

lemma numbered_id [simp]: "p_id (numbered k) = k"
  by (simp add: numbered_def)

lemma two_held_sel: "vecs two_held (TmpV 0) = \<lparr>pv_base = 2, pv_cap = 2, pv_elems = [numbered 1, numbered 2]\<rparr>"
    "localParticles two_held = [1 \<mapsto> Ptr (TmpV 0) 2 0, 2 \<mapsto> Ptr (TmpV 0) 2 1]"
    "outBuffer two_held = Buffer_new"
  by (simp_all add: two_held_def) (simp add: Storage_new_def)

lemma two_held_ok: "index_ok {TmpV 0} two_held" "particles_of two_held (TmpV 0) = [numbered 1, numbered 2]"
proof -
  show p: "particles_of two_held (TmpV 0) = [numbered 1, numbered 2]" by (simp add: two_held_sel particles_of_def)
  have "points_to {TmpV 0} two_held k q \<longleftrightarrow> (k = 1 \<and> q = Ptr (TmpV 0) 2 0) \<or> (k = 2 \<and> q = Ptr (TmpV 0) 2 1)" for k q
    by (auto simp: points_to_def p idat_def addr_def two_held_sel Ex_less_Suc)
  then show "index_ok {TmpV 0} two_held" by (auto simp: index_ok_def two_held_sel split: if_splits)
qed

lemma two_held_sent: "\<exists>st' msg. sendParticles (\<lambda>_ b. Some b) two_held (TmpV 0) = Some (st', msg)"
  by (simp add: sendParticles_def two_held_sel particles_of_def removeFromLocalParticles_def addr_def write_int_def
      write_particle_def writeAll_def add_int_def fits_int_def INT_MAX_def INT_MIN_def buf_extend_def buf_allocate_def
      buf_reset_def Buffer_new_def BUFFER_SIZE_def Let_def)

theorem send_recv_particles_witness:
  "\<exists>st' msg rt'. sendParticles (\<lambda>_ b. Some b) two_held (TmpV 0) = Some (st', msg)
    \<and> recvParticles (\<lambda>_ b. Some b) particle_zero Storage_new (TmpV 1) msg = Some rt'
    \<and> particles_of rt' (TmpV 1) = [numbered 1, numbered 2]"
proof -
  obtain st' msg where s: "sendParticles (\<lambda>_ b. Some b) two_held (TmpV 0) = Some (st', msg)"
    using two_held_sent by blast
  have cap: "0 < b_capacity (outBuffer two_held)" by (simp add: two_held_sel(3) Buffer_new_def BUFFER_SIZE_def)
  have ps: "particles_of Storage_new v = []" "localParticles Storage_new = Map.empty" for v
    by (simp_all add: Storage_new_def particles_of_def pv_empty_def)
  from send_recv_particles [OF unconnected.slots_axioms two_held_ok(1) _ cap s index_ok_new [of "{TmpV 1}"],
      of "TmpV 1" particle_zero] s
  show ?thesis by (auto simp: ps two_held_ok(2) lookupLocalParticle_def)
qed

text \<open>
  C32.  Collecting ghost forces through the buffers is the same as adding them locally: packing
  the forces of a ghost cell, sending them, and \<^verbatim>\<open>unpackAndAddForces\<close> into the real cell of the
  same size gives the real cell exactly the particles \<^verbatim>\<open>addGhostForcesToReals\<close> gives: each
  real particle's force becomes its force plus its ghost's.
\<close>

theorem ghost_forces_via_buffer:
  assumes pack: "packForces gt (buf_reset b) g = Some b'" and cap: "0 < b_capacity b"
    and len: "length (particles_of gt (CellV g)) = length (particles_of st (CellV r))"
    and loc: "particles_of st (CellV g) = particles_of gt (CellV g)"
  shows "\<exists>st' c'. unpackAndAddForces st r (buf_recv (buf_send b') c) = Some (st', c')
    \<and> addGhostForcesToReals st g r = Some st'
    \<and> (\<forall>i<length (particles_of st (CellV r)).
        part_f (particles_of st' (CellV r) ! i)
          = pforce_add (part_f (particles_of st (CellV r) ! i)) (part_f (particles_of gt (CellV g) ! i)))
    \<and> b_items c' = []"
proof -
  let ?gs = "particles_of gt (CellV g)" and ?rs = "particles_of st (CellV r)"
  have "out_ok b'" "b_items b' = map (\<lambda>x. IForce (part_f x)) ?gs @ []"
    using writeSeq_Some [OF pack [unfolded packForces_def pack_forces_seq]] cap by simp_all
  with buf_recv_send [of b' c] have rin: "in_ok (buf_recv (buf_send b') c)"
      "b_items (buf_recv (buf_send b') c) = map (\<lambda>x. IForce (part_f x)) ?gs @ []" by simp_all
  from unpack_forces_spec [OF rin len, of pforce_add] obtain c' where
    "unpack_forces pforce_add ?rs (buf_recv (buf_send b') c)
      = Some (map2 (\<lambda>x g. x\<lparr>part_f := pforce_add (part_f x) (part_f g)\<rparr>) ?rs ?gs, c')"
    "b_items c' = []" by blast
  then show ?thesis
    using len loc by (auto simp: unpackAndAddForces_def addGhostForcesToReals_def set_cell_def)
qed

text \<open>Nine ghosts, whose forces do not fit the static buffer, and the real particles they are the images of.\<close>

definition pushed :: "real \<Rightarrow> nat \<Rightarrow> particle" where
  "pushed f i = (numbered (int i))\<lparr>part_f := \<lparr>pf_f = V3 (f * real i) 0 0, pf_fradius = 0\<rparr>\<rparr>"

definition nine :: storage where
  "nine = set_cell (set_cell Storage_new 0 (map (pushed 1) [0..<9])) 1 (map (pushed 2) [0..<9])"

lemma nine_cells: "particles_of nine (CellV 0) = map (pushed 1) [0..<9]" "particles_of nine (CellV 1) = map (pushed 2) [0..<9]"
  by (simp_all add: nine_def set_cell_def set_vec_def particles_of_def del: One_nat_def)

theorem ghost_forces_via_buffer_witness:
  "\<exists>b' st' c'. packForces nine (buf_reset Buffer_new) 1 = Some b'
    \<and> unpackAndAddForces nine 0 (buf_recv (buf_send b') Buffer_new) = Some (st', c')
    \<and> pf_f (part_f (particles_of st' (CellV 0) ! 8)) = V3 24 0 0"
proof -
  let ?fs = "map (\<lambda>x. IForce (part_f x)) (map (pushed 2) [0..<9])"
  have cap: "0 < b_capacity Buffer_new" by (simp add: Buffer_new_def BUFFER_SIZE_def)
  have "bytes ?fs = 288" by (simp add: upt_rec)
  then have "\<exists>b'. writeSeq ?fs (buf_reset Buffer_new) = Some b'"
    by (intro buffer_writes_total [OF cap]) (simp add: INT_MAX_def)
  then obtain b' where p: "packForces nine (buf_reset Buffer_new) 1 = Some b'"
    by (auto simp: packForces_def nine_cells pack_forces_seq simp del: One_nat_def)
  from ghost_forces_via_buffer [OF p cap, of nine 0 Buffer_new] obtain st' c' where
    u: "unpackAndAddForces nine 0 (buf_recv (buf_send b') Buffer_new) = Some (st', c')"
      "\<forall>i<9. part_f (particles_of st' (CellV 0) ! i) = pforce_add (part_f (pushed 1 i)) (part_f (pushed 2 i))"
    by (auto simp: nine_cells simp del: One_nat_def)
  then have "pf_f (part_f (particles_of st' (CellV 0) ! 8)) = V3 24 0 0"
    by (simp add: pushed_def pforce_add_def vec_eq_iff)
  with p u show ?thesis by blast
qed

end
