(* ===== verification/ErrorHandling.thy ===== *)
theory ErrorHandling
  imports Esp_Prelude
begin

text \<open>
  \<^verbatim>\<open>src/src/esutil/Error.hpp\<close> and \<^verbatim>\<open>.cpp\<close>: collective exceptions.  Each process records its
  exceptions in its own object; \<^verbatim>\<open>checkException\<close> sums the counts of all processes with an
  \<^verbatim>\<open>all_reduce\<close> and throws on every process when the sum is positive.  The counts of the other
  processes are the argument \<open>oth\<close>.  The destructor calls \<^verbatim>\<open>checkException\<close> once more.
\<close>

record 'm esutil_error =
  noExceptions :: nat
  exceptionMessage :: "(nat \<times> 'm) list"

definition Error_new :: "'m esutil_error" where
  "Error_new = \<lparr>noExceptions = 0, exceptionMessage = []\<rparr>"

text \<open>The message of an exception is stored with its running number.\<close>

definition setException :: "'m \<Rightarrow> bool \<Rightarrow> 'm esutil_error \<Rightarrow> 'm esutil_error" where
  "setException msg add e =
     \<lparr>noExceptions = noExceptions e + 1,
      exceptionMessage = (if noExceptions e = 0 \<or> add
        then exceptionMessage e @ [(noExceptions e + 1, msg)] else exceptionMessage e)\<rparr>"

text \<open>
  The exception thrown carries the total and the messages of this process; the object is reset
  before, so that the destructor, which checks again, does not throw a second time.
\<close>

definition checkException ::
  "nat \<Rightarrow> 'm esutil_error \<Rightarrow> (nat \<times> (nat \<times> 'm) list \<times> 'm esutil_error) + 'm esutil_error" where
  "checkException oth e =
     (let totalExceptions = noExceptions e + oth in
      if totalExceptions > 0
      then Inl (totalExceptions, exceptionMessage e, e\<lparr>exceptionMessage := [], noExceptions := 0\<rparr>)
      else Inr e)"

lemma Error_new_sel [simp]: "noExceptions Error_new = 0" "exceptionMessage Error_new = []"
  by (simp_all add: Error_new_def)

lemma setException_sel [simp]: "noExceptions (setException m a e) = Suc (noExceptions e)"
  by (simp add: setException_def)

definition throws :: "nat \<Rightarrow> 'm esutil_error \<Rightarrow> bool" where
  "throws oth e \<longleftrightarrow> (case checkException oth e of Inl _ \<Rightarrow> True | Inr _ \<Rightarrow> False)"

lemma throws_iff: "throws oth e \<longleftrightarrow> 0 < noExceptions e + oth"
  by (simp add: throws_def checkException_def Let_def)

lemma sum_list_but: "i < length xs \<Longrightarrow> xs ! i + (sum_list xs - xs ! i) = sum_list (xs :: nat list)"
  by (simp add: elem_le_sum_list)

lemma sum_list_pos_iff: "0 < sum_list (xs :: nat list) \<longleftrightarrow> (\<exists>x\<in>set xs. 0 < x)"
  by (induction xs) auto

text \<open>
  C36.  Collective exceptions are collective: over any number of processes that call
  \<^verbatim>\<open>checkException\<close> together, either every process throws, or none does, and they throw exactly
  when some process has recorded an exception.  A process that recorded nothing throws an
  exception without a message of its own.  After the throw the object is as new, so the check
  in its destructor does not throw again.
\<close>

theorem error_check_collective:
  "(\<forall>i<length es. throws (sum_list (map noExceptions es) - noExceptions (es ! i)) (es ! i)
      \<longleftrightarrow> (\<exists>e\<in>set es. 0 < noExceptions e))
    \<and> (\<forall>i<length es. \<forall>m. throws (sum_list (map noExceptions (es[i := setException m True (es ! i)]))
          - Suc (noExceptions (es ! i))) (setException m True (es ! i)))
    \<and> (\<forall>e\<in>set es. \<forall>oth n ms e'. checkException oth e = Inl (n, ms, e') \<longrightarrow>
          n = noExceptions e + oth \<and> ms = exceptionMessage e \<and> e' = Error_new \<and> \<not> throws 0 e')"
proof (intro conjI allI impI ballI)
  fix i assume i: "i < length es"
  have "noExceptions (es ! i) + (sum_list (map noExceptions es) - noExceptions (es ! i))
      = sum_list (map noExceptions es)"
    using sum_list_but [of i "map noExceptions es"] i by simp
  then show "throws (sum_list (map noExceptions es) - noExceptions (es ! i)) (es ! i)
      \<longleftrightarrow> (\<exists>e\<in>set es. 0 < noExceptions e)"
    unfolding throws_iff by (simp add: sum_list_pos_iff)
qed (auto simp: throws_iff checkException_def Error_new_def Let_def split: if_splits)

text \<open>The theorem is about lists of processes; three of them, one of which failed.\<close>

theorem error_check_collective_witness:
  "throws 1 (Error_new :: unit esutil_error)"
proof -
  let ?es = "[Error_new, setException () True Error_new, Error_new]"
  have "throws (sum_list (map noExceptions ?es) - noExceptions (?es ! 0)) (?es ! 0)
      \<longleftrightarrow> (\<exists>e\<in>set ?es. 0 < noExceptions e)"
    by (rule error_check_collective [of ?es, THEN conjunct1, rule_format]) simp
  then show ?thesis by simp
qed

end
