(* ===== verification/FixedLists.thy ===== *)
theory FixedLists
  imports StorageComm ErrorHandling
begin

text \<open>
  What \<^verbatim>\<open>FixedPairList\<close>, \<^verbatim>\<open>FixedTripleList\<close> and \<^verbatim>\<open>FixedQuadrupleList\<close> share: bonded tuples are
  kept in a multimap from the owning particle's id to the ids of its partners.  When particles
  leave a process their entries are packed as \<^verbatim>\<open>[pid, n, partners ..., pid, n, ...]\<close> behind the
  particles in the message (\<open>pack_ids\<close>), and unpacked on the other side (\<open>unpack_ids\<close>).  The
  locale \<open>payload\<close> is the contract between the two loops: a partner value is written as a fixed
  number of ids and read back.
\<close>

datatype fl_error = FlException | FlNullDeref | FlGarbage

type_synonym lookup = "pid \<Rightarrow> ptr option"

text \<open>The lookups of a storage; a stale pointer would be undefined behaviour, see below.\<close>

definition realOf :: "storage \<Rightarrow> lookup" where
  "realOf st k = (case lookupRealParticle st k of None \<Rightarrow> None | Some r \<Rightarrow> r)"

definition localOf :: "storage \<Rightarrow> lookup" where
  "localOf st k = lookupLocalParticle st k"

text \<open>
  The loop of \<^verbatim>\<open>onParticlesChanged\<close> over the global entries: \<open>lst\<close> and \<open>p2\<close> are the cached
  owner, \<open>part\<close> the partners' ids of an entry in the order they are looked up, \<open>tup\<close> the tuple of
  pointers appended.  Missing particles are collected in the error object.
\<close>

datatype fl_msg = MissingOwner pid | MissingPartner pid

fun note_missing :: "lookup \<Rightarrow> pid list \<Rightarrow> fl_msg esutil_error \<Rightarrow> fl_msg esutil_error" where
  "note_missing localp [] err = err"
| "note_missing localp (i # is) err =
     note_missing localp is
       (if localp i = None then setException (MissingPartner i) True err else err)"

fun fl_rebuild :: "lookup \<Rightarrow> lookup \<Rightarrow> ('v \<Rightarrow> pid list) \<Rightarrow> (ptr option \<Rightarrow> 'v \<Rightarrow> 't) \<Rightarrow>
    (pid \<times> 'v) list \<Rightarrow> pid \<Rightarrow> ptr option \<Rightarrow> fl_msg esutil_error \<Rightarrow> 't list \<Rightarrow>
    fl_msg esutil_error \<times> 't list" where
  "fl_rebuild realp localp part tup [] lst p2 err l = (err, l)"
| "fl_rebuild realp localp part tup ((k, v) # es) lst p2 err l =
     (let (p2, err, lst) =
            (if k \<noteq> lst
             then (realp k, if realp k = None then setException (MissingOwner k) True err else err, k)
             else (p2, err, lst));
          err = note_missing localp (part v) err
      in fl_rebuild realp localp part tup es lst p2 err (l @ [tup p2 v]))"

text \<open>The loop of \<^verbatim>\<open>updateParticlesStorage\<close>, which throws at the first missing particle.\<close>

fun fl_update :: "lookup \<Rightarrow> lookup \<Rightarrow> ('v \<Rightarrow> pid list) \<Rightarrow> (ptr option \<Rightarrow> 'v \<Rightarrow> 't) \<Rightarrow>
    (pid \<times> 'v) list \<Rightarrow> pid \<Rightarrow> ptr option \<Rightarrow> 't list \<Rightarrow> fl_error + 't list" where
  "fl_update realp localp part tup [] lst p2 l = Inr l"
| "fl_update realp localp part tup ((k, v) # es) lst p2 l =
     (if k \<noteq> lst \<and> realp k = None then Inl FlException
      else let p2 = (if k \<noteq> lst then realp k else p2) in
        if list_ex (\<lambda>i. localp i = None) (part v) then Inl FlException
        else fl_update realp localp part tup es k p2 (l @ [tup p2 v]))"

definition fl_present :: "lookup \<Rightarrow> lookup \<Rightarrow> ('v \<Rightarrow> pid list) \<Rightarrow> pid \<times> 'v \<Rightarrow> bool" where
  "fl_present realp localp part e \<longleftrightarrow>
     realp (fst e) \<noteq> None \<and> (\<forall>i\<in>set (part (snd e)). localp i \<noteq> None)"

lemma note_missing_count:
  "noExceptions err \<le> noExceptions (note_missing localp is err)
    \<and> (noExceptions (note_missing localp is err) = 0 \<longleftrightarrow>
        noExceptions err = 0 \<and> (\<forall>i\<in>set is. localp i \<noteq> None))"
proof (induction "is" arbitrary: err)
  case (Cons i "is")
  show ?case
    using Cons.IH [of err] Cons.IH [of "setException (MissingPartner i) True err"]
    by (cases "localp i") auto
qed simp

text \<open>The loop records no exception exactly when every entry is complete.\<close>

lemma fl_rebuild_spec:
  assumes "lst \<noteq> -1 \<longrightarrow> p2 = realp lst \<and> (realp lst = None \<longrightarrow> 0 < noExceptions err)"
    and "\<forall>e\<in>set es. fst e \<noteq> -1"
  shows "snd (fl_rebuild realp localp part tup es lst p2 err l)
      = l @ map (\<lambda>(k, v). tup (realp k) v) es
    \<and> (noExceptions (fst (fl_rebuild realp localp part tup es lst p2 err l)) = 0 \<longleftrightarrow>
        noExceptions err = 0 \<and> (\<forall>e\<in>set es. fl_present realp localp part e))"
  using assms
proof (induction es arbitrary: lst p2 err l)
  case (Cons e es)
  obtain k v where e: "e = (k, v)" by fastforce
  have k: "k \<noteq> -1" using Cons.prems(2) e by simp
  define err1 where "err1 = (if k \<noteq> lst \<and> realp k = None
    then setException (MissingOwner k) True err else err)"
  define err2 where "err2 = note_missing localp (part v) err1"
  note m = note_missing_count [of err1 localp "part v", folded err2_def]
  have step: "fl_rebuild realp localp part tup (e # es) lst p2 err l
      = fl_rebuild realp localp part tup es k (realp k) err2 (l @ [tup (realp k) v])"
    using Cons.prems(1) k by (auto simp: e err1_def err2_def Let_def)
  have o: "realp k = None \<longrightarrow> 0 < noExceptions err1"
    using Cons.prems(1) k by (auto simp: err1_def)
  have z: "noExceptions err1 = 0 \<longleftrightarrow> noExceptions err = 0 \<and> realp k \<noteq> None"
    using Cons.prems(1) k by (auto simp: err1_def)
  have "k \<noteq> -1 \<longrightarrow> realp k = realp k \<and> (realp k = None \<longrightarrow> 0 < noExceptions err2)"
    using o m by auto
  from Cons.IH [OF this, of "l @ [tup (realp k) v]"] Cons.prems(2) show ?case
    unfolding step using m z by (auto simp: e fl_present_def)
qed simp

lemma fl_update_spec:
  assumes "lst \<noteq> -1 \<longrightarrow> p2 = realp lst \<and> realp lst \<noteq> None" and "\<forall>e\<in>set es. fst e \<noteq> -1"
  shows "fl_update realp localp part tup es lst p2 l =
    (if \<forall>e\<in>set es. fl_present realp localp part e
     then Inr (l @ map (\<lambda>(k, v). tup (realp k) v) es) else Inl FlException)"
  using assms
proof (induction es arbitrary: lst p2 l)
  case (Cons e es)
  obtain k v where e: "e = (k, v)" by fastforce
  have k: "k \<noteq> -1" using Cons.prems(2) e by simp
  show ?case
  proof (cases "fl_present realp localp part e")
    case True
    then have r: "realp k \<noteq> None" and p: "\<not> list_ex (\<lambda>i. localp i = None) (part v)"
      by (auto simp: e fl_present_def list_ex_iff)
    have "fl_update realp localp part tup (e # es) lst p2 l
        = fl_update realp localp part tup es k (realp k) (l @ [tup (realp k) v])"
      using r p Cons.prems(1) k by (auto simp: e Let_def)
    moreover have "k \<noteq> -1 \<longrightarrow> realp k = realp k \<and> realp k \<noteq> None" using r by simp
    ultimately show ?thesis using Cons.IH [of k "realp k"] Cons.prems(2) True by (simp add: e)
  next
    case False
    then have "fl_update realp localp part tup (e # es) lst p2 l = Inl FlException"
      using Cons.prems(1) k by (auto simp: e fl_present_def list_ex_iff Let_def)
    with False show ?thesis by simp
  qed
qed simp

fun pack_ids :: "('v \<Rightarrow> longint list) \<Rightarrow> pid list \<Rightarrow> (pid, 'v) multimap \<Rightarrow>
    longint list \<times> (pid, 'v) multimap" where
  "pack_ids enc [] m = ([], m)"
| "pack_ids enc (p # ps) m =
     (let n = mm_count p m in
      if n > 0
      then let (toSend, m') = pack_ids enc ps (mm_erase_key p m)
           in (p # int n # concat (map enc (mm_range p m)) @ toSend, m')
      else pack_ids enc ps m)"

text \<open>The inner loop \<^verbatim>\<open>for (; n > 0; --n)\<close>; \<open>None\<close> is a read past the end of the vector.\<close>

fun read_chunks :: "nat \<Rightarrow> (longint list \<Rightarrow> 'v) \<Rightarrow> nat \<Rightarrow> longint list \<Rightarrow>
    ('v list \<times> longint list) option" where
  "read_chunks w dec 0 xs = Some ([], xs)"
| "read_chunks w dec (Suc n) xs =
     (if length xs < w then None
      else do { (vs, rest) \<leftarrow> read_chunks w dec n (drop w xs); Some (dec (take w xs) # vs, rest) })"

lemma read_chunks_length:
  "read_chunks w dec n xs = Some (vs, rest) \<Longrightarrow> length rest \<le> length xs"
  by (induction n arbitrary: xs vs) (fastforce simp: bind_Some_iff split: if_splits prod.splits)+

function unpack_ids :: "nat \<Rightarrow> (longint list \<Rightarrow> 'v) \<Rightarrow> longint list \<Rightarrow> (pid \<times> 'v) list option" where
  "unpack_ids w dec [] = Some []"
| "unpack_ids w dec [p] = None"
| "unpack_ids w dec (p # n # xs) =
     (case read_chunks w dec (nat n) xs of None \<Rightarrow> None
      | Some (vs, rest) \<Rightarrow>
          (case unpack_ids w dec rest of None \<Rightarrow> None | Some es \<Rightarrow> Some (map (Pair p) vs @ es)))"
  by pat_completeness auto
termination
  by (relation "measure (\<lambda>(w, dec, xs). length xs)") (auto dest!: read_chunks_length)

definition mm_insert_all :: "('k \<times> 'v) list \<Rightarrow> ('k, 'v) multimap \<Rightarrow> ('k, 'v) multimap" where
  "mm_insert_all es m = fold (\<lambda>(k, v) m. mm_insert k v m) es m"

lemma mset_mm_insert_all [simp]: "mset (mm_insert_all es m) = mset es + mset m"
  unfolding mm_insert_all_def by (induction es arbitrary: m) auto

lemma set_mm_insert_all [simp]: "set (mm_insert_all es m) = set es \<union> set m"
  by (metis mset_mm_insert_all set_mset_mset set_mset_union)

section \<open>What is packed\<close>

fun packed :: "pid list \<Rightarrow> (pid, 'v) multimap \<Rightarrow> (pid \<times> 'v) list" where
  "packed [] m = []"
| "packed (p # ps) m = map (Pair p) (mm_range p m) @ packed ps (mm_erase_key p m)"

lemma mm_erase_key_absent: "p \<notin> fst ` set m \<Longrightarrow> mm_erase_key p m = m"
  by (force simp: mm_erase_key_def filter_id_conv)

lemma mm_count_0: "mm_count p m = 0 \<longleftrightarrow> p \<notin> fst ` set m"
  by (simp add: mm_count_def mm_range_Nil_iff)

lemma filter_mm_erase_key:
  "filter P (mm_erase_key p m) = filter (\<lambda>e. fst e \<noteq> p \<and> P e) m"
  by (simp add: mm_erase_key_def conj_commute)

lemma pack_ids_rest: "snd (pack_ids enc ps m) = filter (\<lambda>e. fst e \<notin> set ps) m"
proof (induction ps arbitrary: m)
  case (Cons p ps)
  have "mm_count p m = 0 \<Longrightarrow> mm_erase_key p m = m"
    by (simp add: mm_count_0 mm_erase_key_absent)
  then have "snd (pack_ids enc (p # ps) m) = snd (pack_ids enc ps (mm_erase_key p m))"
    by (simp add: Let_def case_prod_beta)
  then show ?case unfolding Cons.IH filter_mm_erase_key by simp
qed simp

lemma mset_packed: "mset (packed ps m) = mset (filter (\<lambda>e. fst e \<in> set ps) m)"
proof (induction ps arbitrary: m)
  case (Cons p ps)
  have "mset (filter (\<lambda>e. fst e \<in> set (p # ps)) m)
      = mset (filter (\<lambda>e. fst e = p) m) + mset (filter (\<lambda>e. fst e \<noteq> p \<and> fst e \<in> set ps) m)"
    by (induction m) auto
  with Cons.IH [of "mm_erase_key p m"] show ?case
    by (simp only: packed.simps mset_append mm_range_pairs filter_mm_erase_key)
qed simp

lemma packed_partition:
  "mset (packed ps m) + mset (snd (pack_ids enc ps m)) = mset m"
  unfolding mset_packed pack_ids_rest by (rule mset_filter_split)

lemma distinct_mset_eq: "mset xs = mset ys \<Longrightarrow> distinct xs = distinct ys"
  by (rule mset_eq_imp_distinct_iff)

lemma distinct_mm_insert: "distinct (mm_insert k v m) \<longleftrightarrow> distinct m \<and> (k, v) \<notin> set m"
proof -
  have "mset (mm_insert k v m) = mset ((k, v) # m)" by simp
  from distinct_mset_eq [OF this] show ?thesis by auto
qed

lemma migrate_mset:
  "mset (filter (\<lambda>e. fst e \<notin> set ps) m) + mset (mm_insert_all (packed ps m) n) = mset m + mset n"
  using packed_partition [of ps m "\<lambda>_. []"] by (simp add: pack_ids_rest ac_simps)

lemma migrate_distinct:
  assumes "distinct m" and "distinct n" and "set m \<inter> set n = {}"
  shows "distinct (mm_insert_all (packed ps m) n)"
proof -
  have "mset (mm_insert_all (packed ps m) n) = mset (filter (\<lambda>e. fst e \<in> set ps) m @ n)"
    by (simp add: mset_packed)
  from mset_eq_imp_distinct_iff [OF this] show ?thesis using assms by auto
qed

lemma set_packed: "set (packed ps m) = {e \<in> set m. fst e \<in> set ps}"
  using mset_packed [of ps m] by (metis set_filter set_mset_mset)

section \<open>The message\<close>

definition ints_items :: "int list \<Rightarrow> item list" where
  "ints_items vs = IInt (int (length vs)) # map IInt vs"

lemma write_ints_Some:
  assumes "write_ints vs b = Some b'" and "out_ok b"
  shows "out_ok b' \<and> b_items b' = b_items b @ ints_items vs"
proof -
  from assms(1) have "writeSeq (IInt (int (length vs)) # map IInt vs) b = Some b'"
    by (simp add: write_ints_seq split: if_splits)
  from writeSeq_Some [OF this assms(2)] show ?thesis by (simp add: ints_items_def)
qed

lemma write_ints_total:
  assumes "0 < b_capacity b" and "8 * (1 + int (length vs)) \<le> INT_MAX"
  shows "\<exists>b'. write_ints vs (buf_reset b) = Some b'"
proof -
  have "bytes (map IInt vs) = 4 * int (length vs)" by (induction vs) simp_all
  then have "2 * bytes (IInt (int (length vs)) # map IInt vs) \<le> INT_MAX" using assms(2) by simp
  from buffer_writes_total [OF assms(1) this] assms(2) show ?thesis by (auto simp: write_ints_seq)
qed

lemma Buffer_new_capacity [simp]: "0 < b_capacity Buffer_new"
  by (simp add: Buffer_new_def BUFFER_SIZE_def)

lemma read_ints_items:
  assumes "in_ok b" and "b_items b = ints_items vs @ rest"
  shows "\<exists>b'. read_ints b = Inr (vs, b') \<and> in_ok b' \<and> b_items b' = rest"
  by (rule ints_codec.rd_enc [OF assms(1)]) (simp add: assms(2) ints_items_def)

section \<open>The contract of the payload\<close>

locale payload =
  fixes w :: nat
    and enc :: "'v \<Rightarrow> longint list"
    and dec :: "longint list \<Rightarrow> 'v"
  assumes enc_length: "length (enc v) = w"
    and dec_enc: "dec (enc v) = v"
begin

lemma read_chunks_enc:
  "read_chunks w dec (length vs) (concat (map enc vs) @ rest) = Some (vs, rest)"
  by (induction vs) (simp_all add: enc_length dec_enc)

lemma unpack_pack: "unpack_ids w dec (fst (pack_ids enc ps m)) = Some (packed ps m)"
proof (induction ps arbitrary: m)
  case (Cons p ps)
  show ?case
  proof (cases "mm_count p m = 0")
    case True
    then have "mm_erase_key p m = m" by (simp add: mm_count_0 mm_erase_key_absent)
    moreover have "mm_range p m = []" using True by (simp add: mm_count_def)
    ultimately show ?thesis using Cons.IH [of m] True by simp
  next
    case False
    obtain ts m' where r: "pack_ids enc ps (mm_erase_key p m) = (ts, m')" by fastforce
    have IH: "unpack_ids w dec ts = Some (packed ps (mm_erase_key p m))"
      using Cons.IH [of "mm_erase_key p m"] r by simp
    have "unpack_ids w dec (p # int (mm_count p m) # concat (map enc (mm_range p m)) @ ts)
        = Some (map (Pair p) (mm_range p m) @ packed ps (mm_erase_key p m))"
      using read_chunks_enc [of "mm_range p m" ts] IH by (simp add: mm_count_def)
    then show ?thesis using False r by (simp add: Let_def)
  qed
qed simp

lemma receive_packed:
  assumes "in_ok b" and "b_items b = ints_items (fst (pack_ids enc ps m)) @ rest"
  shows "\<exists>b'. read_ints b = Inr (fst (pack_ids enc ps m), b')
    \<and> unpack_ids w dec (fst (pack_ids enc ps m)) = Some (packed ps m)
    \<and> in_ok b' \<and> b_items b' = rest"
  using read_ints_items [OF assms] unpack_pack by simp

end

end
