(* ===== verification/FixedPairList.thy ===== *)
theory FixedPairList
  imports FixedLists
begin

text \<open>
  \<^verbatim>\<open>src/src/FixedPairList.hpp\<close> and \<^verbatim>\<open>.cpp\<close>: the bonds of one process.  \<open>globalPairs\<close> maps the
  smaller id of a bond (owned here) to the partner's id; \<open>pairList\<close> holds the pointers the
  interactions use and is rebuilt whenever the particles move in memory.  A null pointer is
  \<open>None\<close>.  The signals emitted are logged, the connections to the storage are the flags.
  \<open>oth\<close> stands for the exceptions other processes have recorded.
\<close>

record fixedpairlist =
  globalPairs :: "(pid, pid) multimap"
  pairList :: "(ptr option \<times> ptr option) list"
  pairAdded :: "(pid \<times> pid) list"
  pairRemoved :: "(pid \<times> pid) list"
  sigBeforeSend :: bool
  sigAfterRecv :: bool
  sigOnParticlesChanged :: bool
  longtimeMaxBondSqr :: real

datatype fpl_msg = NoPartner pid | NoOwner pid

text \<open>The constructor; \<^verbatim>\<open>longtimeMaxBondSqr\<close> is left uninitialised (\<open>garbage\<close>).\<close>

definition FixedPairList_new :: "real \<Rightarrow> fixedpairlist" where
  "FixedPairList_new garbage = \<lparr>globalPairs = [], pairList = [], pairAdded = [], pairRemoved = [],
     sigBeforeSend = True, sigAfterRecv = True, sigOnParticlesChanged = True,
     longtimeMaxBondSqr = garbage\<rparr>"

definition FixedPairList_delete :: "fixedpairlist \<Rightarrow> fixedpairlist" where
  "FixedPairList_delete f =
     f\<lparr>sigBeforeSend := False, sigAfterRecv := False, sigOnParticlesChanged := False\<rparr>"

definition getLongtimeMaxBondSqr :: "fixedpairlist \<Rightarrow> real" where
  "getLongtimeMaxBondSqr f = longtimeMaxBondSqr f"

definition setLongtimeMaxBondSqr :: "real \<Rightarrow> fixedpairlist \<Rightarrow> fixedpairlist" where
  "setLongtimeMaxBondSqr d f = f\<lparr>longtimeMaxBondSqr := d\<rparr>"

definition resetLongtimeMaxBondSqr :: "fixedpairlist \<Rightarrow> fixedpairlist" where
  "resetLongtimeMaxBondSqr f = f\<lparr>longtimeMaxBondSqr := 0\<rparr>"

definition fpl_found :: "pid \<Rightarrow> pid \<Rightarrow> fixedpairlist \<Rightarrow> bool" where
  "fpl_found pid1 pid2 f \<longleftrightarrow> list_ex (\<lambda>v. v = pid2) (mm_range pid1 (globalPairs f))"

definition fpl_insert :: "ptr option \<Rightarrow> ptr option \<Rightarrow> pid \<Rightarrow> pid \<Rightarrow> fixedpairlist \<Rightarrow> bool \<times> fixedpairlist" where
  "fpl_insert p1 p2 pid1 pid2 f =
     (let found = fpl_found pid1 pid2 f in
      if \<not> found
      then (True, f\<lparr>pairList := pairList f @ [(p1, p2)],
                    globalPairs := mm_insert pid1 pid2 (globalPairs f),
                    pairAdded := pairAdded f @ [(pid1, pid2)]\<rparr>)
      else (False, f))"

definition fpl_add :: "nat \<Rightarrow> lookup \<Rightarrow> lookup \<Rightarrow> pid \<Rightarrow> pid \<Rightarrow> fixedpairlist \<Rightarrow>
    fl_error + bool \<times> fixedpairlist" where
  "fpl_add oth realp localp pid1 pid2 f =
     (let (pid1, pid2) = (if pid1 > pid2 then (pid2, pid1) else (pid1, pid2));
          err = Error_new;
          p1 = realp pid1; p2 = localp pid2;
          returnVal = (p1 \<noteq> None);
          err = (if p1 \<noteq> None \<and> p2 = None then setException (NoPartner pid2) True err else err)
      in case checkException oth err of
           Inl _ \<Rightarrow> Inl FlException
         | Inr _ \<Rightarrow> Inr (if returnVal then fpl_insert p1 p2 pid1 pid2 f else (False, f)))"

definition fpl_iadd :: "lookup \<Rightarrow> lookup \<Rightarrow> pid \<Rightarrow> pid \<Rightarrow> fixedpairlist \<Rightarrow> bool \<times> fixedpairlist" where
  "fpl_iadd realp localp pid1 pid2 f =
     (let (pid1, pid2) = (if pid1 > pid2 then (pid2, pid1) else (pid1, pid2));
          p1 = realp pid1; p2 = localp pid2;
          returnVal = (if p1 = None then False else if p2 = None then False else True)
      in if returnVal then fpl_insert p1 p2 pid1 pid2 f else (False, f))"

text \<open>Erase the entries of \<open>key\<close> with value \<open>val\<close>; each emits one signal with \<open>(pid1, pid2)\<close>.\<close>

definition fpl_erase :: "bool \<Rightarrow> pid \<Rightarrow> pid \<Rightarrow> pid \<times> pid \<Rightarrow> fixedpairlist \<Rightarrow> bool \<times> fixedpairlist" where
  "fpl_erase no_signal key val sig f =
     (let hits = filter (\<lambda>v. v = val) (mm_range key (globalPairs f)) in
      (hits \<noteq> [],
       f\<lparr>globalPairs := mm_erase_if key (\<lambda>v. v = val) (globalPairs f),
         pairRemoved := pairRemoved f @ (if no_signal then [] else map (\<lambda>_. sig) hits)\<rparr>))"

definition fpl_remove :: "bool \<Rightarrow> pid \<Rightarrow> pid \<Rightarrow> fixedpairlist \<Rightarrow> bool \<times> fixedpairlist" where
  "fpl_remove no_signal pid1 pid2 f =
     (let (returnValue, f) = fpl_erase no_signal pid1 pid2 (pid1, pid2) f in
      if \<not> returnValue then fpl_erase no_signal pid2 pid1 (pid1, pid2) f else (returnValue, f))"

definition fpl_removeByPid1 ::
  "pid \<Rightarrow> bool \<Rightarrow> bool \<Rightarrow> int \<Rightarrow> fixedpairlist \<Rightarrow> bool \<times> fixedpairlist" where
  "fpl_removeByPid1 pid1 noSignal rmAll removeCounter f =
     (let vs = mm_range pid1 (globalPairs f) in
      if vs = [] then (False, f)
      else let k = (if rmAll then length vs else min (nat removeCounter) (length vs)) in
        (0 < k,
         f\<lparr>globalPairs := (if rmAll then mm_erase_key pid1 (globalPairs f)
                           else mm_erase_first pid1 (nat removeCounter) (globalPairs f)),
           pairRemoved := pairRemoved f @ (if noSignal then [] else map (Pair pid1) (take k vs))\<rparr>))"

definition getBonds :: "fixedpairlist \<Rightarrow> (pid \<times> pid) list" where
  "getBonds f = map (\<lambda>it. (fst it, snd it)) (globalPairs f)"

definition getPairList :: "fixedpairlist \<Rightarrow> longint list" where
  "getPairList f = concat (map (\<lambda>it. [fst it, snd it]) (globalPairs f))"

fun read_pairs :: "longint list \<Rightarrow> (pid \<times> pid) list" where
  "read_pairs (a # b # xs) = (a, b) # read_pairs xs"
| "read_pairs _ = []"

text \<open>\<open>gathered\<close>: what the other processes hand to \<^verbatim>\<open>mpi::gather\<close>, after the root's own vector.\<close>

definition getAllBonds :: "int \<Rightarrow> longint list list \<Rightarrow> fixedpairlist \<Rightarrow> (pid \<times> pid) list" where
  "getAllBonds rank gathered f =
     (let local_bonds = getPairList f in
      if rank = 0 then concat (map read_pairs (local_bonds # gathered)) else [])"

definition fpl_beforeSendParticles ::
  "particle list \<Rightarrow> fixedpairlist \<Rightarrow> buffer \<Rightarrow> (buffer \<times> fixedpairlist) option" where
  "fpl_beforeSendParticles pl f buf =
     (let (toSend, g) = pack_ids (\<lambda>p2. [p2]) (map p_id pl) (globalPairs f) in
      do { buf \<leftarrow> write_ints toSend buf; Some (buf, f\<lparr>globalPairs := g\<rparr>) })"

definition fpl_afterRecvParticles ::
  "fixedpairlist \<Rightarrow> buffer \<Rightarrow> (buffer \<times> fixedpairlist) option" where
  "fpl_afterRecvParticles f buf =
     do { (received, buf) \<leftarrow> opt_of_read (read_ints buf);
          es \<leftarrow> unpack_ids 1 hd received;
          Some (buf, f\<lparr>globalPairs := mm_insert_all es (globalPairs f)\<rparr>) }"

text \<open>
  The loop of \<^verbatim>\<open>onParticlesChanged\<close>: \<open>lst\<close> (\<^verbatim>\<open>lastpid1\<close>) and \<open>p1\<close> are the cached owner.  Printing \<^verbatim>\<open>*p1\<close> into
  the message of a missing partner dereferences the null pointer of a missing owner.
\<close>

fun fpl_rebuild :: "lookup \<Rightarrow> lookup \<Rightarrow> (pid \<times> pid) list \<Rightarrow> pid \<Rightarrow> ptr option \<Rightarrow>
    fpl_msg esutil_error \<Rightarrow> (ptr option \<times> ptr option) list \<Rightarrow>
    fl_error + fpl_msg esutil_error \<times> (ptr option \<times> ptr option) list" where
  "fpl_rebuild realp localp [] lst p1 err l = Inr (err, l)"
| "fpl_rebuild realp localp ((k, v) # es) lst p1 err l =
     (let (p1, err, lst) =
            (if k \<noteq> lst
             then (realp k, if realp k = None then setException (NoOwner k) True err else err, k)
             else (p1, err, lst));
          p2 = localp v
      in if p2 = None \<and> p1 = None then Inl FlNullDeref
         else let err = (if p2 = None then setException (NoPartner v) True err else err)
              in fpl_rebuild realp localp es lst p1 err (l @ [(p1, p2)]))"

definition fpl_onParticlesChanged ::
  "nat \<Rightarrow> lookup \<Rightarrow> lookup \<Rightarrow> fixedpairlist \<Rightarrow> fl_error + fixedpairlist" where
  "fpl_onParticlesChanged oth realp localp f =
     ebind (fpl_rebuild realp localp (globalPairs f) (-1) None Error_new [])
       (\<lambda>(err, l). case checkException oth err of
          Inl _ \<Rightarrow> Inl FlException | Inr _ \<Rightarrow> Inr (f\<lparr>pairList := l\<rparr>))"

text \<open>\<^verbatim>\<open>updateParticlesStorage\<close> throws at the first missing particle, again printing \<^verbatim>\<open>*p1\<close>.\<close>

fun fpl_update :: "lookup \<Rightarrow> lookup \<Rightarrow> (pid \<times> pid) list \<Rightarrow> pid \<Rightarrow> ptr option \<Rightarrow>
    (ptr option \<times> ptr option) list \<Rightarrow> fl_error + (ptr option \<times> ptr option) list" where
  "fpl_update realp localp [] lst p1 l = Inr l"
| "fpl_update realp localp ((k, v) # es) lst p1 l =
     (if k \<noteq> lst \<and> realp k = None then Inl FlNullDeref
      else let p1 = (if k \<noteq> lst then realp k else p1); p2 = localp v in
        if p2 = None then (if p1 = None then Inl FlNullDeref else Inl FlException)
        else fpl_update realp localp es k p1 (l @ [(p1, p2)]))"

definition fpl_updateParticlesStorage ::
  "lookup \<Rightarrow> lookup \<Rightarrow> fixedpairlist \<Rightarrow> fl_error + fixedpairlist" where
  "fpl_updateParticlesStorage realp localp f =
     ebind (fpl_update realp localp (globalPairs f) (-1) None []) (\<lambda>l. Inr (f\<lparr>pairList := l\<rparr>))"

definition fpl_size :: "fixedpairlist \<Rightarrow> int" where
  "fpl_size f = int (length (globalPairs f))"

definition fpl_totalSize :: "int \<Rightarrow> fixedpairlist \<Rightarrow> int" where
  "fpl_totalSize oth f = fpl_size f + oth"

definition fpl_clearAndRemove :: "fixedpairlist \<Rightarrow> fixedpairlist" where
  "fpl_clearAndRemove f =
     f\<lparr>pairList := [], globalPairs := [], sigBeforeSend := False, sigAfterRecv := False,
       sigOnParticlesChanged := False\<rparr>"

section \<open>Well-formed bond lists\<close>

text \<open>Each bond once, filed under its smaller id.\<close>

definition fpl_wf :: "fixedpairlist \<Rightarrow> bool" where
  "fpl_wf f \<longleftrightarrow> distinct (globalPairs f) \<and> (\<forall>(k, v)\<in>set (globalPairs f). k \<le> v)"

definition ordered :: "pid \<Rightarrow> pid \<Rightarrow> pid \<times> pid" where
  "ordered a b = (if a > b then (b, a) else (a, b))"

lemma ordered_le: "fst (ordered a b) \<le> snd (ordered a b)"
  by (simp add: ordered_def)

lemma fpl_found_iff: "fpl_found a b f \<longleftrightarrow> (a, b) \<in> set (globalPairs f)"
  by (simp add: fpl_found_def list_ex_iff set_mm_range)

lemma distinct_mm_erase_first: "distinct m \<Longrightarrow> distinct (mm_erase_first k n m)"
  and set_mm_erase_first: "set (mm_erase_first k n m) \<subseteq> set m"
proof -
  show s: "set (mm_erase_first k n m) \<subseteq> set m" for k n and m :: "('a \<times> 'b) list"
    by (induction k n m rule: mm_erase_first.induct) auto
  show "distinct m \<Longrightarrow> distinct (mm_erase_first k n m)"
    by (induction k n m rule: mm_erase_first.induct) (use s in auto)
qed

lemma fpl_insert_wf:
  assumes "fpl_wf f" and "a \<le> b"
  shows "fpl_wf (snd (fpl_insert p1 p2 a b f))"
  using assms by (auto simp: fpl_insert_def Let_def fpl_wf_def fpl_found_iff distinct_mm_insert)

lemma fpl_insert_spec:
  "fst (fpl_insert p1 p2 a b f) \<longleftrightarrow> (a, b) \<notin> set (globalPairs f)"
  "set (globalPairs (snd (fpl_insert p1 p2 a b f))) = insert (a, b) (set (globalPairs f))"
  by (auto simp: fpl_insert_def Let_def fpl_found_iff)

lemma fpl_add_eq:
  "fpl_add oth realp localp a b f =
     (let (k, v) = ordered a b in
      if (realp k \<noteq> None \<and> localp v = None) \<or> 0 < oth then Inl FlException
      else Inr (if realp k \<noteq> None then fpl_insert (realp k) (localp v) k v f else (False, f)))"
  by (cases "a > b"; cases "realp (fst (ordered a b))"; cases "localp (snd (ordered a b))")
    (simp_all add: fpl_add_def ordered_def Let_def checkException_def setException_def)

lemma fpl_iadd_eq:
  "fpl_iadd realp localp a b f =
     (let (k, v) = ordered a b in
      if realp k \<noteq> None \<and> localp v \<noteq> None then fpl_insert (realp k) (localp v) k v f
      else (False, f))"
  by (cases "a > b"; cases "realp (fst (ordered a b))"; cases "localp (snd (ordered a b))")
    (simp_all add: fpl_iadd_def ordered_def Let_def)

lemma fpl_erase_sel [simp]:
  "globalPairs (snd (fpl_erase ns k v s f)) = mm_erase_if k (\<lambda>x. x = v) (globalPairs f)"
  "fst (fpl_erase ns k v s f) \<longleftrightarrow> (k, v) \<in> set (globalPairs f)"
  by (auto simp: fpl_erase_def Let_def filter_empty_conv set_mm_range)

lemma mm_erase_if_absent: "(k, v) \<notin> set m \<Longrightarrow> mm_erase_if k (\<lambda>x. x = v) m = m"
  by (auto simp: mm_erase_if_def filter_id_conv)

lemma fpl_remove_sel:
  "fst (fpl_remove ns a b f) \<longleftrightarrow> (a, b) \<in> set (globalPairs f) \<or> (b, a) \<in> set (globalPairs f)"
  "globalPairs (snd (fpl_remove ns a b f)) =
     (if (a, b) \<in> set (globalPairs f) then mm_erase_if a (\<lambda>x. x = b) (globalPairs f)
      else mm_erase_if b (\<lambda>x. x = a) (globalPairs f))"
proof -
  obtain r g where rg: "fpl_erase ns a b (a, b) f = (r, g)" by fastforce
  then have "r \<longleftrightarrow> (a, b) \<in> set (globalPairs f)" "globalPairs g = mm_erase_if a (\<lambda>x. x = b) (globalPairs f)"
    using fpl_erase_sel [of ns a b "(a, b)" f] by simp_all
  then show "fst (fpl_remove ns a b f) \<longleftrightarrow> (a, b) \<in> set (globalPairs f) \<or> (b, a) \<in> set (globalPairs f)"
    and "globalPairs (snd (fpl_remove ns a b f)) =
     (if (a, b) \<in> set (globalPairs f) then mm_erase_if a (\<lambda>x. x = b) (globalPairs f)
      else mm_erase_if b (\<lambda>x. x = a) (globalPairs f))"
    using rg by (auto simp: fpl_remove_def mm_erase_if_absent)
qed

section \<open>Rebuilding the local list\<close>

definition fpl_present :: "lookup \<Rightarrow> lookup \<Rightarrow> pid \<times> pid \<Rightarrow> bool" where
  "fpl_present realp localp e \<longleftrightarrow> realp (fst e) \<noteq> None \<and> localp (snd e) \<noteq> None"

lemma fpl_rebuild_ok:
  assumes "\<forall>e\<in>set es. fpl_present realp localp e" and "\<forall>e\<in>set es. fst e \<noteq> -1"
    and "lst = -1 \<or> p1 = realp lst"
  shows "fpl_rebuild realp localp es lst p1 err l
    = Inr (err, l @ map (\<lambda>(k, v). (realp k, localp v)) es)"
  using assms
proof (induction es arbitrary: lst p1 l)
  case (Cons e es)
  obtain k v where e: "e = (k, v)" by fastforce
  show ?case using Cons.prems Cons.IH [of k "realp k"] by (auto simp: e fpl_present_def Let_def)
qed simp

text \<open>A missing particle is always noticed.\<close>

lemma fpl_rebuild_err:
  assumes "fpl_rebuild realp localp es lst p1 err l = Inr (err', l')"
    and "lst \<noteq> -1 \<longrightarrow> p1 = realp lst" and "\<forall>e\<in>set es. fst e \<noteq> -1"
    and "lst \<noteq> -1 \<and> realp lst = None \<longrightarrow> 0 < noExceptions err"
  shows "noExceptions err \<le> noExceptions err'
    \<and> (noExceptions err' = 0 \<longrightarrow> (\<forall>e\<in>set es. fpl_present realp localp e))"
  using assms
proof (induction es arbitrary: lst p1 err l)
  case (Cons e es)
  obtain k v where e: "e = (k, v)" by fastforce
  have k: "k \<noteq> -1" using Cons.prems(3) e by simp
  define p1' where "p1' = (if k \<noteq> lst then realp k else p1)"
  define err1 where "err1 = (if k \<noteq> lst \<and> realp k = None then setException (NoOwner k) True err else err)"
  define err2 where "err2 = (if localp v = None then setException (NoPartner v) True err1 else err1)"
  have p1': "p1' = realp k" using Cons.prems(2) k by (auto simp: p1'_def)
  have r: "fpl_rebuild realp localp es k p1' err2 (l @ [(p1', localp v)]) = Inr (err', l')"
    using Cons.prems(1)
    by (auto simp: e p1'_def err1_def err2_def Let_def split: if_splits)
  have m1: "noExceptions err \<le> noExceptions err1" by (simp add: err1_def)
  have m: "noExceptions err1 \<le> noExceptions err2" by (simp add: err2_def)
  have o: "realp k = None \<longrightarrow> 0 < noExceptions err1"
    using Cons.prems(4) k by (auto simp: err1_def)
  have q: "localp v = None \<longrightarrow> 0 < noExceptions err2" by (simp add: err2_def)
  have "noExceptions err2 \<le> noExceptions err'
      \<and> (noExceptions err' = 0 \<longrightarrow> (\<forall>e\<in>set es. fpl_present realp localp e))"
    by (rule Cons.IH [OF r]) (use p1' Cons.prems(3) o m in \<open>auto\<close>)
  then show ?case using m1 m o q by (auto simp: e fpl_present_def)
qed simp

lemma fpl_rebuild_null:
  assumes "fpl_rebuild realp localp es lst p1 err l = Inl e"
    and "lst \<noteq> -1 \<longrightarrow> p1 = realp lst" and "\<forall>e\<in>set es. fst e \<noteq> -1"
  shows "e = FlNullDeref \<and> (\<exists>(k, v)\<in>set es. realp k = None \<and> localp v = None)"
  using assms
proof (induction es arbitrary: lst p1 err l)
  case (Cons x es)
  obtain k v where x: "x = (k, v)" by fastforce
  have k: "k \<noteq> -1" using Cons.prems(3) x by simp
  show ?case
  proof (cases "localp v = None \<and> realp k = None")
    case True
    then show ?thesis using Cons.prems x by (cases "k = lst") auto
  next
    case False
    have "\<exists>err' l'. fpl_rebuild realp localp es k (realp k) err' l' = Inl e"
      using Cons.prems(1,2) False k x by (auto simp: Let_def split: if_splits)
    then show ?thesis using Cons.IH [of k "realp k"] Cons.prems(3) x by auto
  qed
qed simp

lemma fpl_rebuild_nulls:
  assumes "\<exists>(k, v)\<in>set es. realp k = None \<and> localp v = None"
    and "lst \<noteq> -1 \<longrightarrow> p1 = realp lst" and "\<forall>e\<in>set es. fst e \<noteq> -1"
  shows "fpl_rebuild realp localp es lst p1 err l = Inl FlNullDeref"
  using assms
proof (induction es arbitrary: lst p1 err l)
  case (Cons x es)
  obtain k v where x: "x = (k, v)" by fastforce
  have k: "k \<noteq> -1" using Cons.prems(3) x by simp
  show ?case
  proof (cases "localp v = None \<and> realp k = None")
    case True
    then show ?thesis using Cons.prems x k by (cases "k = lst") auto
  next
    case False
    then have "fpl_rebuild realp localp es k (realp k) err' l' = Inl FlNullDeref" for err' l'
      using Cons.IH [of k "realp k"] Cons.prems(1,3) x by auto
    then show ?thesis using Cons.prems(2) False k x by (cases "k = lst") (auto simp: Let_def)
  qed
qed simp

text \<open>The outcome of \<^verbatim>\<open>onParticlesChanged\<close> in each case.\<close>

lemma fpl_onParticlesChanged_eq:
  assumes "\<forall>e\<in>set (globalPairs f). fst e \<noteq> -1"
  shows "(oth = 0 \<and> (\<forall>e\<in>set (globalPairs f). fpl_present realp localp e) \<longrightarrow>
      fpl_onParticlesChanged oth realp localp f
        = Inr (f\<lparr>pairList := map (\<lambda>(k, v). (realp k, localp v)) (globalPairs f)\<rparr>))
    \<and> (0 < oth \<or> (\<exists>e\<in>set (globalPairs f). \<not> fpl_present realp localp e) \<longrightarrow>
      (\<exists>e. fpl_onParticlesChanged oth realp localp f = Inl e))"
proof (intro conjI impI)
  assume a: "oth = 0 \<and> (\<forall>e\<in>set (globalPairs f). fpl_present realp localp e)"
  have "fpl_rebuild realp localp (globalPairs f) (-1) None Error_new []
      = Inr (Error_new, [] @ map (\<lambda>(k, v). (realp k, localp v)) (globalPairs f))"
    by (rule fpl_rebuild_ok) (use a assms in auto)
  then show "fpl_onParticlesChanged oth realp localp f
      = Inr (f\<lparr>pairList := map (\<lambda>(k, v). (realp k, localp v)) (globalPairs f)\<rparr>)"
    using a by (simp add: fpl_onParticlesChanged_def checkException_def)
next
  assume b: "0 < oth \<or> (\<exists>e\<in>set (globalPairs f). \<not> fpl_present realp localp e)"
  show "\<exists>e. fpl_onParticlesChanged oth realp localp f = Inl e"
  proof (cases "fpl_rebuild realp localp (globalPairs f) (-1) None Error_new []")
    case (Inl e)
    then show ?thesis by (simp add: fpl_onParticlesChanged_def)
  next
    case (Inr r)
    obtain err l where r: "r = (err, l)" by fastforce
    have "0 < noExceptions err + oth"
      using fpl_rebuild_err [OF Inr [unfolded r]] assms b by auto
    then show ?thesis by (simp add: fpl_onParticlesChanged_def Inr r checkException_def)
  qed
qed

section \<open>Bonds travel with their owner\<close>

interpretation pair_payload: payload 1 "\<lambda>p2. [p2]" hd
  by unfold_locales simp_all

definition fpl_items :: "fixedpairlist \<Rightarrow> particle list \<Rightarrow> item list" where
  "fpl_items f pl = ints_items (fst (pack_ids (\<lambda>p2. [p2]) (map p_id pl) (globalPairs f)))"

lemma fpl_before_writes:
  assumes "out_ok b" and "fpl_beforeSendParticles pl f b = Some (b', f')"
  shows "out_ok b' \<and> b_items b' = b_items b @ fpl_items f pl
    \<and> f' = f\<lparr>globalPairs := filter (\<lambda>e. fst e \<notin> p_id ` set pl) (globalPairs f)\<rparr>"
proof -
  obtain vs g where vg: "pack_ids (\<lambda>p2. [p2]) (map p_id pl) (globalPairs f) = (vs, g)" by fastforce
  have g: "g = filter (\<lambda>e. fst e \<notin> p_id ` set pl) (globalPairs f)"
    using pack_ids_rest [of "\<lambda>p2. [p2]" "map p_id pl" "globalPairs f"] vg by simp
  have w: "write_ints vs b = Some b'" "f' = f\<lparr>globalPairs := g\<rparr>"
    using assms(2) vg by (auto simp: fpl_beforeSendParticles_def bind_Some_iff)
  from write_ints_Some [OF w(1) assms(1)] show ?thesis using vg g w(2) by (simp add: fpl_items_def)
qed

lemma fpl_after_reads:
  assumes "in_ok b" and "b_items b = fpl_items f pl @ rest"
  shows "\<exists>b'. fpl_afterRecvParticles g b
      = Some (b', g\<lparr>globalPairs := mm_insert_all (packed (map p_id pl) (globalPairs f)) (globalPairs g)\<rparr>)
    \<and> in_ok b' \<and> b_items b' = rest"
  using pair_payload.receive_packed [OF assms [unfolded fpl_items_def]]
  by (auto simp: fpl_afterRecvParticles_def)

text \<open>The bond list of a sender \<open>f\<close> and of a receiver \<open>g\<close>, as the slots of the storage's signals.\<close>

interpretation pair_slots: slots
    "\<lambda>pl b. map_option fst (fpl_beforeSendParticles pl f b)"
    "\<lambda>pl b. map_option fst (fpl_afterRecvParticles g b)"
    "fpl_items f"
  for f g
proof unfold_locales
  show "out_ok b' \<and> b_items b' = b_items b @ fpl_items f xs"
    if "out_ok b" "map_option fst (fpl_beforeSendParticles xs f b) = Some b'" for b xs b'
    using that fpl_before_writes by auto
  show "\<exists>b'. map_option fst (fpl_afterRecvParticles g b) = Some b' \<and> in_ok b' \<and> b_items b' = rest"
    if "in_ok b" "b_items b = fpl_items f xs @ rest" for b xs rest
    using fpl_after_reads [OF that, of g] by auto
qed

section \<open>Properties\<close>

text \<open>
  \<^verbatim>\<open>FixedPairList::add\<close> on every branch.  The pair is first put in ascending order.  It
  throws exactly when the owner is here but the partner is not, or another process has
  failed.  Otherwise the bonds grow by exactly this one if its owner is here and not at all if
  not; it returns true and emits \<^verbatim>\<open>onTupleAdded\<close> exactly when the bond is new, its pointers are
  then appended, and the list stays without duplicates and in ascending order.
\<close>

theorem fixed_pair_add:
  assumes wf: "fpl_wf f" and kv: "(k, v) = ordered a b"
  shows "case fpl_add oth realp localp a b f of
      Inl e \<Rightarrow> e = FlException \<and> ((realp k \<noteq> None \<and> localp v = None) \<or> 0 < oth)
    | Inr (r, f') \<Rightarrow> \<not> (realp k \<noteq> None \<and> localp v = None) \<and> oth = 0 \<and> fpl_wf f'
        \<and> set (globalPairs f') = set (globalPairs f) \<union> (if realp k = None then {} else {(k, v)})
        \<and> (r \<longleftrightarrow> realp k \<noteq> None \<and> (k, v) \<notin> set (globalPairs f))
        \<and> pairList f' = pairList f @ (if r then [(realp k, localp v)] else [])
        \<and> pairAdded f' = pairAdded f @ (if r then [(k, v)] else [])"
proof -
  have le: "k \<le> v" using ordered_le [of a b] kv by (metis fst_conv snd_conv)
  show ?thesis
  proof (cases "(realp k \<noteq> None \<and> localp v = None) \<or> 0 < oth")
    case True
    then show ?thesis by (simp add: fpl_add_eq kv [symmetric])
  next
    case False
    show ?thesis
    proof (cases "realp k = None")
      case True
      then show ?thesis using False wf by (simp add: fpl_add_eq kv [symmetric])
    next
      case r: False
      obtain r f' where rf: "fpl_insert (realp k) (localp v) k v f = (r, f')" by fastforce
      have "fpl_wf f'" using fpl_insert_wf [OF wf le, of "realp k" "localp v"] rf by simp
      moreover have "fpl_add oth realp localp a b f = Inr (r, f')"
        using False r rf by (simp add: fpl_add_eq kv [symmetric])
      moreover have "pairList f' = pairList f @ (if r then [(realp k, localp v)] else [])"
        "pairAdded f' = pairAdded f @ (if r then [(k, v)] else [])"
        using rf by (auto simp: fpl_insert_def Let_def split: if_splits)
      ultimately show ?thesis
        using False r fpl_insert_spec [of "realp k" "localp v" k v f] rf by auto
    qed
  qed
qed

theorem fixed_pair_add_witness:
  "\<exists>f'. fpl_add 0 (\<lambda>i. if i = 2 then Some (Ptr (TmpV 0) 0 0) else None) (\<lambda>i. Some (Ptr (TmpV 0) 0 (nat i))) 5 2
      (FixedPairList_new 0) = Inr (True, f') \<and> set (globalPairs f') = {(2, 5)} \<and> fpl_wf f'"
proof -
  let ?r = "\<lambda>i. if i = 2 then Some (Ptr (TmpV 0) 0 0) else None" and ?l = "\<lambda>i. Some (Ptr (TmpV 0) 0 (nat i))"
  have wf: "fpl_wf (FixedPairList_new 0)" and o: "(2, 5) = ordered 5 2"
    by (simp_all add: fpl_wf_def FixedPairList_new_def ordered_def)
  have e: "(2 :: int, 5 :: int) \<notin> set (globalPairs (FixedPairList_new 0))"
    "globalPairs (FixedPairList_new 0) = []"
    by (simp_all add: FixedPairList_new_def)
  from fixed_pair_add [OF wf o, where oth = 0 and realp = ?r and localp = ?l] e show ?thesis
    by (cases "fpl_add 0 ?r ?l 5 2 (FixedPairList_new 0)") auto
qed

text \<open>
  Removing is the inverse of adding: after an \<^verbatim>\<open>add\<close> that returned true, \<^verbatim>\<open>remove\<close> of the two
  ids in either order returns true and gives back the bonds there were before, with their
  multiplicity; a second \<^verbatim>\<open>remove\<close> returns false and changes no bond.
\<close>

theorem fixed_pair_add_remove:
  assumes wf: "fpl_wf f" and add: "fpl_add oth realp localp a b f = Inr (True, f')"
    and xy: "(x, y) = (a, b) \<or> (x, y) = (b, a)"
  shows "fst (fpl_remove ns x y f')
    \<and> mset (globalPairs (snd (fpl_remove ns x y f'))) = mset (globalPairs f)
    \<and> \<not> fst (fpl_remove ns x y (snd (fpl_remove ns x y f')))
    \<and> globalPairs (snd (fpl_remove ns x y (snd (fpl_remove ns x y f'))))
        = globalPairs (snd (fpl_remove ns x y f'))"
proof -
  obtain k v where kv: "(k, v) = ordered a b" by (metis surj_pair)
  have le: "k \<le> v" using ordered_le [of a b] kv by (metis fst_conv snd_conv)
  have k: "(k, v) = (x, y) \<or> (k, v) = (y, x)" using kv xy by (auto simp: ordered_def split: if_splits)
  from add have new: "(k, v) \<notin> set (globalPairs f)"
    and g: "globalPairs f' = mm_insert k v (globalPairs f)"
    by (auto simp: fpl_add_eq kv [symmetric] fpl_insert_def fpl_found_iff Let_def split: if_splits)
  have asc: "fst e \<le> snd e" if "e \<in> set (globalPairs f)" for e
    using that wf by (auto simp: fpl_wf_def)
  have restored: "mset (mm_erase_if k (\<lambda>z. z = v) (mm_insert k v (globalPairs f))) = mset (globalPairs f)"
    by (rule mset_erase_insert [OF new])
  define h where "h = snd (fpl_remove ns x y f')"
  have h: "globalPairs h = mm_erase_if k (\<lambda>z. z = v) (mm_insert k v (globalPairs f))"
  proof (cases "(k, v) = (x, y)")
    case True
    then show ?thesis using g by (simp add: h_def fpl_remove_sel)
  next
    case False
    then have "(k, v) = (y, x)" "(x, y) \<notin> set (globalPairs f')"
      using k asc [of "(x, y)"] le g by auto
    then show ?thesis using g by (simp add: h_def fpl_remove_sel)
  qed
  have gone: "(x, y) \<notin> set (globalPairs h)" "(y, x) \<notin> set (globalPairs h)"
    using h k new asc [of "(x, y)"] asc [of "(y, x)"] le by auto
  have "fst (fpl_remove ns x y f')" using k g by (auto simp: fpl_remove_sel)
  then show ?thesis
    using restored h gone by (auto simp: h_def [symmetric] fpl_remove_sel mm_erase_if_absent)
qed

theorem fixed_pair_add_remove_witness:
  "\<exists>f'. fpl_add 0 (\<lambda>i. Some (Ptr (TmpV 0) 0 0)) (\<lambda>i. Some (Ptr (TmpV 0) 0 (nat i))) 5 2 (FixedPairList_new 0)
      = Inr (True, f') \<and> fst (fpl_remove False 5 2 f')"
proof -
  let ?r = "\<lambda>i :: int. Some (Ptr (TmpV 0) 0 0)" and ?l = "\<lambda>i. Some (Ptr (TmpV 0) 0 (nat i))"
  have wf: "fpl_wf (FixedPairList_new 0)" by (simp add: fpl_wf_def FixedPairList_new_def)
  obtain f' where f': "fpl_add 0 ?r ?l 5 2 (FixedPairList_new 0) = Inr (True, f')"
    by (simp add: fpl_add_eq ordered_def fpl_insert_def Let_def fpl_found_iff FixedPairList_new_def)
  with fixed_pair_add_remove [OF wf f'] show ?thesis by auto
qed



text \<open>
  C38.  Bonds move with their owner and none is lost or doubled.  What \<^verbatim>\<open>beforeSendParticles\<close>
  writes behind a list of particles, \<^verbatim>\<open>afterRecvParticles\<close> of the receiving process reads back
  completely: the sender keeps exactly the bonds whose owner stays, the receiver's bonds grow
  by the others, the union over both processes is unchanged with multiplicity, and if no bond
  was on both, both lists stay without duplicates.
\<close>

theorem fixed_pair_migrate:
  assumes send: "fpl_beforeSendParticles pl f (buf_reset b) = Some (b', f')" and cap: "0 < b_capacity b"
    and wf: "fpl_wf f" "fpl_wf g" and disj: "set (globalPairs f) \<inter> set (globalPairs g) = {}"
  shows "\<exists>c' g'. fpl_afterRecvParticles g (buf_recv (buf_send b') c) = Some (c', g')
    \<and> b_items c' = []
    \<and> globalPairs f' = filter (\<lambda>e. fst e \<notin> p_id ` set pl) (globalPairs f)
    \<and> set (globalPairs g') = set (globalPairs g) \<union> {e \<in> set (globalPairs f). fst e \<in> p_id ` set pl}
    \<and> mset (globalPairs f') + mset (globalPairs g') = mset (globalPairs f) + mset (globalPairs g)
    \<and> fpl_wf f' \<and> fpl_wf g'"
proof -
  let ?ps = "map p_id pl"
  let ?g' = "g\<lparr>globalPairs := mm_insert_all (packed ?ps (globalPairs f)) (globalPairs g)\<rparr>"
  have o: "out_ok (buf_reset b)" using cap by simp
  note w = fpl_before_writes [OF o send]
  have "in_ok (buf_recv (buf_send b') c)" "b_items (buf_recv (buf_send b') c) = fpl_items f pl @ []"
    using buf_recv_send [of b' c] w by auto
  from fpl_after_reads [OF this, of g] obtain c' where
    r: "fpl_afterRecvParticles g (buf_recv (buf_send b') c) = Some (c', ?g')" "b_items c' = []" by blast
  have "fpl_wf f'" using w wf(1) by (auto simp: fpl_wf_def)
  moreover have "fpl_wf ?g'"
    using wf disj migrate_distinct [of "globalPairs f" "globalPairs g" ?ps]
    by (auto simp: fpl_wf_def set_packed)
  moreover have "mset (globalPairs f') + mset (globalPairs ?g')
      = mset (globalPairs f) + mset (globalPairs g)"
    using w migrate_mset [of ?ps "globalPairs f" "globalPairs g"] by simp
  ultimately show ?thesis using r w by (intro exI [of _ c'] exI [of _ ?g']) (auto simp: set_packed)
qed

theorem fixed_pair_migrate_witness:
  "\<exists>b' f' c' g'. fpl_beforeSendParticles [particle_zero] ((FixedPairList_new 0)\<lparr>globalPairs := [(0, 7)]\<rparr>)
      (buf_reset Buffer_new) = Some (b', f')
    \<and> fpl_afterRecvParticles (FixedPairList_new 0) (buf_recv (buf_send b') Buffer_new) = Some (c', g')
    \<and> globalPairs f' = [] \<and> set (globalPairs g') = {(0, 7)}"
proof -
  let ?f = "(FixedPairList_new 0)\<lparr>globalPairs := [(0, 7)]\<rparr>" and ?g = "FixedPairList_new 0"
  have id: "p_id particle_zero = 0" by (simp add: particle_zero_def)
  obtain b' where "write_ints [0, 1, 7] (buf_reset Buffer_new) = Some b'"
    using write_ints_total [of Buffer_new "[0, 1, 7]"] by (auto simp: INT_MAX_def)
  then obtain f' where s: "fpl_beforeSendParticles [particle_zero] ?f (buf_reset Buffer_new) = Some (b', f')"
    by (simp add: fpl_beforeSendParticles_def id mm_count_def mm_range_def)
  have "0 < b_capacity Buffer_new" "fpl_wf ?f" "fpl_wf ?g"
    "set (globalPairs ?f) \<inter> set (globalPairs ?g) = {}"
    by (simp_all add: Buffer_new_def BUFFER_SIZE_def fpl_wf_def FixedPairList_new_def)
  from fixed_pair_migrate [OF s this, of Buffer_new] s id show ?thesis
    by (auto simp: FixedPairList_new_def)
qed

end
