(* ===== verification/FixedTripleList.thy ===== *)
theory FixedTripleList
  imports FixedLists
begin

text \<open>
  \<^verbatim>\<open>src/src/FixedTripleList.hpp\<close> and \<^verbatim>\<open>.cpp\<close>: the angles of one process, filed under the middle
  particle, which is owned here.  The pair of outer ids is unordered: \<open>angle_of\<close> is the angle an
  entry stands for, and the operations are shown to act on the set of these angles.
\<close>

type_synonym ftl_tuple = "ptr option \<times> ptr option \<times> ptr option"

record fixedtriplelist =
  globalTriples :: "(pid, pid \<times> pid) multimap"
  tripleList :: "ftl_tuple list"
  tripleAdded :: "(pid \<times> pid \<times> pid) list"
  tripleRemoved :: "(pid \<times> pid \<times> pid) list"
  ftl_connected :: bool

definition FixedTripleList_new :: fixedtriplelist where
  "FixedTripleList_new = \<lparr>globalTriples = [], tripleList = [], tripleAdded = [],
     tripleRemoved = [], ftl_connected = True\<rparr>"

definition FixedTripleList_delete :: "fixedtriplelist \<Rightarrow> fixedtriplelist" where
  "FixedTripleList_delete f = f\<lparr>ftl_connected := False\<rparr>"

definition ftl_same :: "pid \<Rightarrow> pid \<Rightarrow> pid \<times> pid \<Rightarrow> bool" where
  "ftl_same pid1 pid3 v \<longleftrightarrow> v = (pid1, pid3) \<or> v = (pid3, pid1)"

definition ftl_insert :: "ftl_tuple \<Rightarrow> pid \<Rightarrow> pid \<Rightarrow> pid \<Rightarrow> fixedtriplelist \<Rightarrow> bool \<times> fixedtriplelist" where
  "ftl_insert tup pid1 pid2 pid3 f =
     (let found = list_ex (ftl_same pid1 pid3) (mm_range pid2 (globalTriples f)) in
      if \<not> found
      then (True, f\<lparr>tripleList := tripleList f @ [tup],
                    globalTriples := mm_insert pid2 (pid1, pid3) (globalTriples f),
                    tripleAdded := tripleAdded f @ [(pid1, pid2, pid3)]\<rparr>)
      else (False, f))"

definition ftl_iadd :: "lookup \<Rightarrow> lookup \<Rightarrow> pid \<Rightarrow> pid \<Rightarrow> pid \<Rightarrow> fixedtriplelist \<Rightarrow>
    fl_error + bool \<times> fixedtriplelist" where
  "ftl_iadd realp localp pid1 pid2 pid3 f =
     (let p1 = localp pid1; p2 = realp pid2; p3 = localp pid3 in
      if p2 = None then Inr (False, f)
      else if p1 = None then Inl FlException
      else if p3 = None then Inl FlException
      else Inr (ftl_insert (p1, p2, p3) pid1 pid2 pid3 f))"

definition ftl_add :: "nat \<Rightarrow> lookup \<Rightarrow> lookup \<Rightarrow> pid \<Rightarrow> pid \<Rightarrow> pid \<Rightarrow> fixedtriplelist \<Rightarrow>
    fl_error + bool \<times> fixedtriplelist" where
  "ftl_add oth realp localp pid1 pid2 pid3 f =
     (let err = Error_new;
          p1 = localp pid1; p2 = realp pid2; p3 = localp pid3;
          returnVal = (p2 \<noteq> None);
          err = (if p2 = None then err
                 else let err = (if p1 = None then setException (MissingPartner pid1) True err else err)
                      in if p3 = None then setException (MissingPartner pid3) True err else err)
      in case checkException oth err of
           Inl _ \<Rightarrow> Inl FlException
         | Inr _ \<Rightarrow> Inr (if returnVal then ftl_insert (p1, p2, p3) pid1 pid2 pid3 f else (False, f)))"

definition ftl_remove :: "pid \<Rightarrow> pid \<Rightarrow> pid \<Rightarrow> fixedtriplelist \<Rightarrow> bool \<times> fixedtriplelist" where
  "ftl_remove pid1 pid2 pid3 f =
     (let hits = filter (ftl_same pid1 pid3) (mm_range pid2 (globalTriples f)) in
      (hits \<noteq> [],
       f\<lparr>globalTriples := mm_erase_if pid2 (ftl_same pid1 pid3) (globalTriples f),
         tripleRemoved := tripleRemoved f @ map (\<lambda>(a, c). (a, pid2, c)) hits\<rparr>))"

definition ftl_has_bond :: "pid \<Rightarrow> pid \<Rightarrow> pid \<times> pid \<times> pid \<Rightarrow> bool" where
  "ftl_has_bond pid1 pid2 it =
     (let (a2, a1, a3) = it in
      (a1 = pid1 \<and> a2 = pid2) \<or> (a2 = pid1 \<and> a3 = pid2) \<or>
      (a1 = pid2 \<and> a2 = pid1) \<or> (a2 = pid2 \<and> a3 = pid1))"

definition ftl_removeByBond :: "pid \<Rightarrow> pid \<Rightarrow> fixedtriplelist \<Rightarrow> bool \<times> fixedtriplelist" where
  "ftl_removeByBond pid1 pid2 f =
     (list_ex (ftl_has_bond pid1 pid2) (globalTriples f),
      f\<lparr>globalTriples := filter (\<lambda>it. \<not> ftl_has_bond pid1 pid2 it) (globalTriples f)\<rparr>)"

definition getTriples :: "fixedtriplelist \<Rightarrow> (pid \<times> pid \<times> pid) list" where
  "getTriples f = map (\<lambda>(k, a, c). (a, k, c)) (globalTriples f)"

definition getTripleList :: "fixedtriplelist \<Rightarrow> longint list" where
  "getTripleList f = concat (map (\<lambda>(k, a, c). [a, k, c]) (globalTriples f))"

fun read_triples :: "longint list \<Rightarrow> (pid \<times> pid \<times> pid) list" where
  "read_triples (a # b # c # xs) = (a, b, c) # read_triples xs"
| "read_triples _ = []"

definition getAllTriples :: "int \<Rightarrow> longint list list \<Rightarrow> fixedtriplelist \<Rightarrow> (pid \<times> pid \<times> pid) list" where
  "getAllTriples rank gathered f =
     (let local_triplets = concat (map (\<lambda>(k, a, c). [a, k, c]) (globalTriples f)) in
      if rank = 0 then concat (map read_triples (local_triplets # gathered)) else [])"

definition ftl_enc :: "pid \<times> pid \<Rightarrow> longint list" where
  "ftl_enc v = [fst v, snd v]"

definition ftl_dec :: "longint list \<Rightarrow> pid \<times> pid" where
  "ftl_dec xs = (xs ! 0, xs ! 1)"

definition ftl_beforeSendParticles ::
  "particle list \<Rightarrow> fixedtriplelist \<Rightarrow> buffer \<Rightarrow> (buffer \<times> fixedtriplelist) option" where
  "ftl_beforeSendParticles pl f buf =
     (let (toSend, g) = pack_ids ftl_enc (map p_id pl) (globalTriples f) in
      do { buf \<leftarrow> write_ints toSend buf; Some (buf, f\<lparr>globalTriples := g\<rparr>) })"

definition ftl_afterRecvParticles ::
  "fixedtriplelist \<Rightarrow> buffer \<Rightarrow> (buffer \<times> fixedtriplelist) option" where
  "ftl_afterRecvParticles f buf =
     do { (received, buf) \<leftarrow> opt_of_read (read_ints buf);
          es \<leftarrow> unpack_ids 2 ftl_dec received;
          Some (buf, f\<lparr>globalTriples := mm_insert_all es (globalTriples f)\<rparr>) }"

definition ftl_part :: "pid \<times> pid \<Rightarrow> pid list" where
  "ftl_part v = [fst v, snd v]"

definition ftl_tup :: "lookup \<Rightarrow> ptr option \<Rightarrow> pid \<times> pid \<Rightarrow> ftl_tuple" where
  "ftl_tup localp p2 v = (localp (fst v), p2, localp (snd v))"

definition ftl_onParticlesChanged ::
  "nat \<Rightarrow> lookup \<Rightarrow> lookup \<Rightarrow> fixedtriplelist \<Rightarrow> fl_error + fixedtriplelist" where
  "ftl_onParticlesChanged oth realp localp f =
     (let (err, l) = fl_rebuild realp localp ftl_part (ftl_tup localp) (globalTriples f) (-1) None
                       Error_new []
      in case checkException oth err of
           Inl _ \<Rightarrow> Inl FlException | Inr _ \<Rightarrow> Inr (f\<lparr>tripleList := l\<rparr>))"

definition ftl_updateParticlesStorage ::
  "lookup \<Rightarrow> lookup \<Rightarrow> fixedtriplelist \<Rightarrow> fl_error + fixedtriplelist" where
  "ftl_updateParticlesStorage realp localp f =
     ebind (fl_update realp localp ftl_part (ftl_tup localp) (globalTriples f) (-1) None [])
       (\<lambda>l. Inr (f\<lparr>tripleList := l\<rparr>))"

definition ftl_size :: "fixedtriplelist \<Rightarrow> int" where
  "ftl_size f = int (length (globalTriples f))"

definition ftl_totalSize :: "int \<Rightarrow> fixedtriplelist \<Rightarrow> int" where
  "ftl_totalSize oth f = ftl_size f + oth"

section \<open>The set of angles\<close>

definition angle_of :: "pid \<times> pid \<times> pid \<Rightarrow> pid \<times> pid set" where
  "angle_of e = (case e of (k, a, c) \<Rightarrow> (k, {a, c}))"

definition angles :: "fixedtriplelist \<Rightarrow> (pid \<times> pid set) set" where
  "angles f = angle_of ` set (globalTriples f)"

text \<open>Each angle once.\<close>

definition ftl_wf :: "fixedtriplelist \<Rightarrow> bool" where
  "ftl_wf f \<longleftrightarrow> distinct (globalTriples f) \<and> inj_on angle_of (set (globalTriples f))"

lemma ftl_same_iff: "ftl_same a c v \<longleftrightarrow> angle_of (k, v) = angle_of (k, a, c)"
  by (cases v) (auto simp: ftl_same_def angle_of_def doubleton_eq_iff)

lemma angle_of_key: "angle_of (k, v) = (k', s) \<Longrightarrow> k = k'"
  by (cases v) (simp add: angle_of_def)

lemma angle_of_swap: "angle_of (k, c, a) = angle_of (k, a, c)"
  by (simp add: angle_of_def insert_commute)

lemma fst_angle_of [simp]: "fst (angle_of e) = fst e"
  by (cases e) (auto simp: angle_of_def split: prod.splits)

lemma ftl_found_iff:
  "list_ex (ftl_same a c) (mm_range k (globalTriples f)) \<longleftrightarrow> angle_of (k, a, c) \<in> angles f"
proof
  assume "list_ex (ftl_same a c) (mm_range k (globalTriples f))"
  then obtain v where "(k, v) \<in> set (globalTriples f)" "ftl_same a c v"
    by (auto simp: list_ex_iff set_mm_range)
  then show "angle_of (k, a, c) \<in> angles f" unfolding ftl_same_iff [where k = k] angles_def by (metis image_eqI)
next
  assume "angle_of (k, a, c) \<in> angles f"
  then obtain k' v where "(k', v) \<in> set (globalTriples f)" "angle_of (k', v) = angle_of (k, a, c)"
    unfolding angles_def by force
  moreover from this(2) have "k' = k" by (metis fst_angle_of fst_conv)
  ultimately show "list_ex (ftl_same a c) (mm_range k (globalTriples f))"
    using ftl_same_iff by (auto simp: list_ex_iff set_mm_range)
qed

lemma ftl_insert_spec:
  assumes "ftl_wf f" and "ftl_insert tup a k c f = (r, f')"
  shows "(r \<longleftrightarrow> angle_of (k, a, c) \<notin> angles f) \<and> angles f' = insert (angle_of (k, a, c)) (angles f)
    \<and> ftl_wf f'"
proof (cases "angle_of (k, a, c) \<in> angles f")
  case True
  then have "r = False" "f' = f" using assms(2) by (simp_all add: ftl_insert_def ftl_found_iff)
  then show ?thesis using True assms(1) by auto
next
  case False
  then have r: "r = True" "globalTriples f' = mm_insert k (a, c) (globalTriples f)"
    using assms(2) by (auto simp: ftl_insert_def ftl_found_iff)
  have "(k, a, c) \<notin> set (globalTriples f)" using False by (auto simp: angles_def)
  then have "ftl_wf f'"
    using assms(1) False by (auto simp: ftl_wf_def r(2) distinct_mm_insert angles_def)
  then show ?thesis using r False by (auto simp: angles_def)
qed

lemma ftl_add_eq:
  "ftl_add oth realp localp a k c f =
     (if (realp k \<noteq> None \<and> (localp a = None \<or> localp c = None)) \<or> 0 < oth then Inl FlException
      else Inr (if realp k = None then (False, f)
                else ftl_insert (localp a, realp k, localp c) a k c f))"
  by (cases "realp k"; cases "localp a"; cases "localp c")
    (simp_all add: ftl_add_def Let_def checkException_def)

lemma ftl_hit_iff: "fst e = k \<and> ftl_same a c (snd e) \<longleftrightarrow> angle_of e = angle_of (k, a, c)"
proof (cases "fst e = k")
  case True
  then show ?thesis using ftl_same_iff [of a c "snd e" k] by (metis prod.collapse)
next
  case False
  then have "angle_of e \<noteq> angle_of (k, a, c)" by (metis fst_angle_of fst_conv)
  with False show ?thesis by simp
qed

lemma ftl_remove_angles:
  "angles (snd (ftl_remove a k c f)) = angles f - {angle_of (k, a, c)}"
  "fst (ftl_remove a k c f) \<longleftrightarrow> angle_of (k, a, c) \<in> angles f"
proof -
  show "angles (snd (ftl_remove a k c f)) = angles f - {angle_of (k, a, c)}"
    by (auto simp: ftl_remove_def Let_def angles_def ftl_hit_iff)
  show "fst (ftl_remove a k c f) \<longleftrightarrow> angle_of (k, a, c) \<in> angles f"
    using ftl_found_iff [of a c k f]
    by (auto simp: ftl_remove_def Let_def filter_empty_conv list_ex_iff)
qed

lemma ftl_wf_subset:
  "ftl_wf f \<Longrightarrow> globalTriples g = filter P (globalTriples f) \<Longrightarrow> ftl_wf g"
  by (auto simp: ftl_wf_def inj_on_def)

lemma ftl_remove_wf: "ftl_wf f \<Longrightarrow> ftl_wf (snd (ftl_remove a k c f))"
  by (rule ftl_wf_subset) (simp_all add: ftl_remove_def Let_def mm_erase_if_def)

text \<open>The bond \<open>b\<close>\<open>-\<close>\<open>c\<close> is part of an angle whose middle is one of them and whose outer pair contains
  the other.\<close>

definition bond_in_angle :: "pid \<Rightarrow> pid \<Rightarrow> pid \<times> pid set \<Rightarrow> bool" where
  "bond_in_angle b c x \<longleftrightarrow> (fst x = b \<and> c \<in> snd x) \<or> (fst x = c \<and> b \<in> snd x)"

lemma ftl_has_bond_iff: "ftl_has_bond b c e \<longleftrightarrow> bond_in_angle b c (angle_of e)"
  by (cases e) (auto simp: ftl_has_bond_def bond_in_angle_def angle_of_def)

lemma ftl_removeByBond_angles:
  "angles (snd (ftl_removeByBond b c f)) = {x \<in> angles f. \<not> bond_in_angle b c x}"
  "fst (ftl_removeByBond b c f) \<longleftrightarrow> (\<exists>x\<in>angles f. bond_in_angle b c x)"
  by (auto simp: ftl_removeByBond_def angles_def ftl_has_bond_iff list_ex_iff)

section \<open>Migration\<close>

interpretation triple_payload: payload 2 ftl_enc ftl_dec
  by unfold_locales (simp_all add: ftl_enc_def ftl_dec_def)

definition ftl_items :: "fixedtriplelist \<Rightarrow> particle list \<Rightarrow> item list" where
  "ftl_items f pl = ints_items (fst (pack_ids ftl_enc (map p_id pl) (globalTriples f)))"

lemma ftl_before_writes:
  assumes "out_ok b" and "ftl_beforeSendParticles pl f b = Some (b', f')"
  shows "out_ok b' \<and> b_items b' = b_items b @ ftl_items f pl
    \<and> f' = f\<lparr>globalTriples := filter (\<lambda>e. fst e \<notin> p_id ` set pl) (globalTriples f)\<rparr>"
proof -
  obtain vs g where vg: "pack_ids ftl_enc (map p_id pl) (globalTriples f) = (vs, g)" by fastforce
  have g: "g = filter (\<lambda>e. fst e \<notin> p_id ` set pl) (globalTriples f)"
    using pack_ids_rest [of ftl_enc "map p_id pl" "globalTriples f"] vg by simp
  have w: "write_ints vs b = Some b'" "f' = f\<lparr>globalTriples := g\<rparr>"
    using assms(2) vg by (auto simp: ftl_beforeSendParticles_def bind_Some_iff)
  from write_ints_Some [OF w(1) assms(1)] show ?thesis using vg g w(2) by (simp add: ftl_items_def)
qed

lemma ftl_after_reads:
  assumes "in_ok b" and "b_items b = ftl_items f pl @ rest"
  shows "\<exists>b'. ftl_afterRecvParticles g b
      = Some (b', g\<lparr>globalTriples := mm_insert_all (packed (map p_id pl) (globalTriples f)) (globalTriples g)\<rparr>)
    \<and> in_ok b' \<and> b_items b' = rest"
  using triple_payload.receive_packed [OF assms [unfolded ftl_items_def]]
  by (auto simp: ftl_afterRecvParticles_def)

interpretation triple_slots: slots
    "\<lambda>pl b. map_option fst (ftl_beforeSendParticles pl f b)"
    "\<lambda>pl b. map_option fst (ftl_afterRecvParticles g b)"
    "ftl_items f"
  for f g
proof unfold_locales
  show "out_ok b' \<and> b_items b' = b_items b @ ftl_items f xs"
    if "out_ok b" "map_option fst (ftl_beforeSendParticles xs f b) = Some b'" for b xs b'
    using that ftl_before_writes by auto
  show "\<exists>b'. map_option fst (ftl_afterRecvParticles g b) = Some b' \<and> in_ok b' \<and> b_items b' = rest"
    if "in_ok b" "b_items b = ftl_items f xs @ rest" for b xs rest
    using ftl_after_reads [OF that, of g] by auto
qed

section \<open>Properties\<close>

text \<open>
  \<^verbatim>\<open>FixedTripleList::add\<close> and \<^verbatim>\<open>iadd\<close> insert into the set of angles.  If the middle particle
  is not owned here they return false and change nothing; if it is and an outer particle is
  unknown they throw; otherwise the angle, in which the outer ids are unordered, is in the set
  afterwards, nothing else is, they return true exactly when it was not there before, and no
  angle is ever stored twice.
\<close>

theorem fixed_triple_add:
  assumes wf: "ftl_wf f"
  shows "(case ftl_add oth realp localp a k c f of
        Inl e \<Rightarrow> (realp k \<noteq> None \<and> (localp a = None \<or> localp c = None)) \<or> 0 < oth
      | Inr (r, f') \<Rightarrow> oth = 0 \<and> ftl_wf f' \<and> ftl_iadd realp localp a k c f = Inr (r, f')
          \<and> (r \<longleftrightarrow> realp k \<noteq> None \<and> angle_of (k, a, c) \<notin> angles f)
          \<and> angles f' = angles f \<union> (if realp k = None then {} else {angle_of (k, a, c)})
          \<and> tripleList f' = tripleList f @ (if r then [(localp a, realp k, localp c)] else [])
          \<and> tripleAdded f' = tripleAdded f @ (if r then [(a, k, c)] else []))
    \<and> (ftl_iadd realp localp a k c f = Inl FlException \<longleftrightarrow>
        realp k \<noteq> None \<and> (localp a = None \<or> localp c = None))"
proof -
  have i: "ftl_iadd realp localp a k c f = Inl FlException \<longleftrightarrow>
      realp k \<noteq> None \<and> (localp a = None \<or> localp c = None)"
    by (simp add: ftl_iadd_def Let_def)
  show ?thesis
  proof (cases "(realp k \<noteq> None \<and> (localp a = None \<or> localp c = None)) \<or> 0 < oth")
    case True
    then show ?thesis using i by (simp add: ftl_add_eq)
  next
    case False
    show ?thesis
    proof (cases "realp k = None")
      case True
      then show ?thesis using False i wf by (simp add: ftl_add_eq ftl_iadd_def Let_def)
    next
      case r: False
      obtain r f' where rf: "ftl_insert (localp a, realp k, localp c) a k c f = (r, f')" by fastforce
      have "ftl_add oth realp localp a k c f = Inr (r, f')"
        "ftl_iadd realp localp a k c f = Inr (r, f')"
        using False r rf by (auto simp: ftl_add_eq ftl_iadd_def Let_def)
      moreover have "tripleList f' = tripleList f @ (if r then [(localp a, realp k, localp c)] else [])"
        "tripleAdded f' = tripleAdded f @ (if r then [(a, k, c)] else [])"
        using rf by (auto simp: ftl_insert_def Let_def split: if_splits)
      ultimately show ?thesis using False r i ftl_insert_spec [OF wf rf] by auto
    qed
  qed
qed

theorem fixed_triple_add_witness:
  "\<exists>f'. ftl_add 0 (\<lambda>i. Some (Ptr (TmpV 0) 0 (nat i))) (\<lambda>i. Some (Ptr (TmpV 0) 0 (nat i))) 3 1 2
      FixedTripleList_new = Inr (True, f') \<and> angles f' = {(1, {2, 3})}"
proof -
  let ?l = "\<lambda>i. Some (Ptr (TmpV 0) 0 (nat i))"
  have wf: "ftl_wf FixedTripleList_new" and e: "angles FixedTripleList_new = {}"
    by (simp_all add: ftl_wf_def FixedTripleList_new_def angles_def)
  have "\<exists>f'. ftl_add 0 ?l ?l 3 1 2 FixedTripleList_new = Inr (True, f')"
    by (simp add: ftl_add_eq ftl_insert_def FixedTripleList_new_def mm_range_def Let_def)
  with fixed_triple_add [OF wf, where oth = 0 and realp = ?l and localp = ?l and a = 3 and k = 1 and c = 2] e
  show ?thesis by (auto simp: angle_of_def)
qed

text \<open>
  \<^verbatim>\<open>FixedTripleList::remove\<close> takes exactly the named angle out of the set, in whichever order
  its outer ids are given, and \<^verbatim>\<open>removeByBond\<close> exactly the angles in which the two particles are
  neighbours; both return whether there was one, and keep every other angle once.  After an
  \<^verbatim>\<open>add\<close> that returned true, \<^verbatim>\<open>remove\<close> gives the set of angles there was before.
\<close>

theorem fixed_triple_remove:
  assumes wf: "ftl_wf f"
  shows "angles (snd (ftl_remove a k c f)) = angles f - {angle_of (k, a, c)}
    \<and> (fst (ftl_remove a k c f) \<longleftrightarrow> angle_of (k, a, c) \<in> angles f)
    \<and> ftl_wf (snd (ftl_remove a k c f))
    \<and> angles (snd (ftl_removeByBond b d f)) = {x \<in> angles f. \<not> bond_in_angle b d x}
    \<and> (fst (ftl_removeByBond b d f) \<longleftrightarrow> (\<exists>x\<in>angles f. bond_in_angle b d x))
    \<and> ftl_wf (snd (ftl_removeByBond b d f))
    \<and> (\<forall>oth realp localp f'. ftl_add oth realp localp a k c f = Inr (True, f') \<longrightarrow>
        angles (snd (ftl_remove c k a f')) = angles f)"
proof -
  have "angles (snd (ftl_remove c k a f')) = angles f"
    if "ftl_add oth realp localp a k c f = Inr (True, f')" for oth realp localp f'
  proof -
    have "ftl_insert (localp a, realp k, localp c) a k c f = (True, f')"
      using that by (auto simp: ftl_add_eq split: if_splits)
    from ftl_insert_spec [OF wf this] show ?thesis
      by (auto simp: ftl_remove_angles angle_of_swap [of k c a])
  qed
  moreover have "ftl_wf (snd (ftl_removeByBond b d f))"
    by (rule ftl_wf_subset [OF wf]) (simp add: ftl_removeByBond_def)
  ultimately show ?thesis
    by (intro conjI allI impI ftl_remove_angles ftl_removeByBond_angles ftl_remove_wf [OF wf])
qed

theorem fixed_triple_remove_witness:
  "angles (snd (ftl_remove 3 1 2 (FixedTripleList_new\<lparr>globalTriples := [(1, (3, 2)), (1, (4, 3))]\<rparr>)))
    = {(1, {4, 3})}
    \<and> fst (ftl_removeByBond 4 1 (FixedTripleList_new\<lparr>globalTriples := [(1, (3, 2)), (1, (4, 3))]\<rparr>))"
proof -
  let ?f = "FixedTripleList_new\<lparr>globalTriples := [(1, (3, 2)), (1, (4, 3))]\<rparr>"
  have wf: "ftl_wf ?f" by (simp add: ftl_wf_def angle_of_def doubleton_eq_iff)
  have a: "angles ?f = {(1, {3, 2}), (1, {4, 3})}" by (simp add: angles_def angle_of_def)
  have d: "{(1, {3, 2}), (1, {4, 3})} - {(1 :: int, {3, 2 :: int})} = {(1, {4, 3})}"
    by (auto simp: doubleton_eq_iff)
  have h: "bond_in_angle 4 1 (1, {4, 3})" by (simp add: bond_in_angle_def)
  show ?thesis
    using fixed_triple_remove [OF wf, of 3 1 2 4 1] h unfolding a angle_of_def prod.case d by blast
qed

text \<open>
  After every change of the particles \<^verbatim>\<open>FixedTripleList\<close> rebuilds its pointers completely
  or fails: \<^verbatim>\<open>onParticlesChanged\<close> succeeds exactly when no other process failed and every angle
  has its middle particle owned here and both outer particles known here, and
  \<^verbatim>\<open>updateParticlesStorage\<close> under the same condition on this process alone; both then give the
  same list, the pointers of the storage's lookups, entry by entry.
\<close>

theorem fixed_triple_rebuild:
  assumes "\<forall>e\<in>set (globalTriples f). 0 \<le> fst e"
  shows "(\<forall>f'. ftl_onParticlesChanged oth realp localp f = Inr f' \<longleftrightarrow>
      oth = 0 \<and> ftl_updateParticlesStorage realp localp f = Inr f')
    \<and> (\<forall>f'. ftl_updateParticlesStorage realp localp f = Inr f' \<longleftrightarrow>
      (\<forall>(k, a, c)\<in>set (globalTriples f). realp k \<noteq> None \<and> localp a \<noteq> None \<and> localp c \<noteq> None)
      \<and> f' = f\<lparr>tripleList := map (\<lambda>(k, a, c). (localp a, realp k, localp c)) (globalTriples f)\<rparr>)"
proof -
  have ids: "\<forall>e\<in>set (globalTriples f). fst e \<noteq> -1" using assms by auto
  let ?l = "map (\<lambda>(k, v). ftl_tup localp (realp k) v) (globalTriples f)"
  have l: "map (\<lambda>(k, a, c). (localp a, realp k, localp c)) (globalTriples f) = ?l"
    by (auto simp: ftl_tup_def)
  have pres: "(\<forall>(k, a, c)\<in>set (globalTriples f). realp k \<noteq> None \<and> localp a \<noteq> None \<and> localp c \<noteq> None)
      \<longleftrightarrow> (\<forall>e\<in>set (globalTriples f). fl_present realp localp ftl_part e)"
    by (auto simp: fl_present_def ftl_part_def)
  obtain err l' where r: "fl_rebuild realp localp ftl_part (ftl_tup localp) (globalTriples f) (-1) None
      Error_new [] = (err, l')" by fastforce
  have "l' = ?l" "noExceptions err = 0 \<longleftrightarrow> (\<forall>e\<in>set (globalTriples f). fl_present realp localp ftl_part e)"
    using fl_rebuild_spec [of "-1" None realp Error_new "globalTriples f" localp ftl_part
        "ftl_tup localp" "[]"] ids r by simp_all
  moreover have "fl_update realp localp ftl_part (ftl_tup localp) (globalTriples f) (-1) None []
      = (if \<forall>e\<in>set (globalTriples f). fl_present realp localp ftl_part e then Inr ([] @ ?l)
         else Inl FlException)"
    by (rule fl_update_spec) (use ids in auto)
  ultimately show ?thesis
    unfolding ftl_onParticlesChanged_def ftl_updateParticlesStorage_def l pres
    by (auto simp: r checkException_def Let_def)
qed

theorem fixed_triple_rebuild_witness:
  "\<exists>f'. ftl_updateParticlesStorage (\<lambda>i. Some (Ptr (TmpV 0) 0 (nat i))) (\<lambda>i. Some (Ptr (TmpV 1) 0 (nat i)))
      (FixedTripleList_new\<lparr>globalTriples := [(1, (2, 3))]\<rparr>) = Inr f'
    \<and> tripleList f' = [(Some (Ptr (TmpV 1) 0 2), Some (Ptr (TmpV 0) 0 1), Some (Ptr (TmpV 1) 0 3))]"
  using fixed_triple_rebuild [of "FixedTripleList_new\<lparr>globalTriples := [(1, (2, 3))]\<rparr>" 0
      "\<lambda>i. Some (Ptr (TmpV 0) 0 (nat i))" "\<lambda>i. Some (Ptr (TmpV 1) 0 (nat i))"] by simp

end
