(* ===== verification/FixedQuadrupleList.thy ===== *)
theory FixedQuadrupleList
  imports FixedLists
begin

text \<open>
  \<^verbatim>\<open>src/src/FixedQuadrupleList.hpp\<close> and \<^verbatim>\<open>.cpp\<close>: the dihedrals of one process, filed under the
  second particle, which is owned here.  A dihedral read backwards is the same dihedral, but it
  is filed under its third particle: \<open>dih\<close> is what an entry stands for, and the operations are
  shown to act on the set of these.
\<close>

datatype triple = Triple (tr_first: pid) (tr_second: pid) (tr_third: pid)

type_synonym fql_tuple = "ptr option \<times> ptr option \<times> ptr option \<times> ptr option"

record fixedquadruplelist =
  globalQuadruples :: "(pid, triple) multimap"
  quadrupleList :: "fql_tuple list"
  quadAdded :: "(pid \<times> pid \<times> pid \<times> pid) list"
  quadRemoved :: "(pid \<times> pid \<times> pid \<times> pid) list"
  fql_connected :: bool

definition FixedQuadrupleList_new :: fixedquadruplelist where
  "FixedQuadrupleList_new = \<lparr>globalQuadruples = [], quadrupleList = [], quadAdded = [],
     quadRemoved = [], fql_connected = True\<rparr>"

definition FixedQuadrupleList_delete :: "fixedquadruplelist \<Rightarrow> fixedquadruplelist" where
  "FixedQuadrupleList_delete f = f\<lparr>fql_connected := False\<rparr>"

definition fql_found :: "pid \<Rightarrow> pid \<Rightarrow> pid \<Rightarrow> pid \<Rightarrow> fixedquadruplelist \<Rightarrow> bool" where
  "fql_found pid1 pid2 pid3 pid4 f =
     (let found = list_ex (\<lambda>v. v = Triple pid1 pid3 pid4) (mm_range pid2 (globalQuadruples f)) in
      if \<not> found then list_ex (\<lambda>v. v = Triple pid4 pid2 pid1) (mm_range pid3 (globalQuadruples f))
      else found)"

definition fql_insert :: "fql_tuple \<Rightarrow> pid \<Rightarrow> pid \<Rightarrow> pid \<Rightarrow> pid \<Rightarrow> fixedquadruplelist \<Rightarrow>
    bool \<times> fixedquadruplelist" where
  "fql_insert tup pid1 pid2 pid3 pid4 f =
     (if \<not> fql_found pid1 pid2 pid3 pid4 f
      then (True, f\<lparr>quadrupleList := quadrupleList f @ [tup],
                    globalQuadruples := mm_insert pid2 (Triple pid1 pid3 pid4) (globalQuadruples f),
                    quadAdded := quadAdded f @ [(pid1, pid2, pid3, pid4)]\<rparr>)
      else (False, f))"

definition fql_iadd :: "lookup \<Rightarrow> lookup \<Rightarrow> pid \<Rightarrow> pid \<Rightarrow> pid \<Rightarrow> pid \<Rightarrow> fixedquadruplelist \<Rightarrow>
    fl_error + bool \<times> fixedquadruplelist" where
  "fql_iadd realp localp pid1 pid2 pid3 pid4 f =
     (let p1 = localp pid1; p2 = realp pid2; p3 = localp pid3; p4 = localp pid4 in
      if p2 = None then Inr (False, f)
      else if p1 = None then Inl FlException
      else if p3 = None then Inl FlException
      else if p4 = None then Inl FlException
      else Inr (fql_insert (p1, p2, p3, p4) pid1 pid2 pid3 pid4 f))"

definition fql_add :: "nat \<Rightarrow> lookup \<Rightarrow> lookup \<Rightarrow> pid \<Rightarrow> pid \<Rightarrow> pid \<Rightarrow> pid \<Rightarrow> fixedquadruplelist \<Rightarrow>
    fl_error + bool \<times> fixedquadruplelist" where
  "fql_add oth realp localp pid1 pid2 pid3 pid4 f =
     (let err = Error_new;
          p1 = localp pid1; p2 = realp pid2; p3 = localp pid3; p4 = localp pid4;
          returnVal = (p2 \<noteq> None);
          err = (if p2 = None then err
                 else let err = (if p1 = None then setException (MissingPartner pid1) True err else err);
                          err = (if p3 = None then setException (MissingPartner pid3) True err else err)
                      in if p4 = None then setException (MissingPartner pid4) True err else err)
      in case checkException oth err of
           Inl _ \<Rightarrow> Inl FlException
         | Inr _ \<Rightarrow> Inr (if returnVal then fql_insert (p1, p2, p3, p4) pid1 pid2 pid3 pid4 f
                         else (False, f)))"

text \<open>Two passes: the entry as given, and the same dihedral filed backwards.\<close>

definition fql_erase :: "pid \<Rightarrow> triple \<Rightarrow> fixedquadruplelist \<Rightarrow> bool \<times> fixedquadruplelist" where
  "fql_erase key t f =
     (let hits = filter (\<lambda>v. v = t) (mm_range key (globalQuadruples f)) in
      (hits \<noteq> [],
       f\<lparr>globalQuadruples := mm_erase_if key (\<lambda>v. v = t) (globalQuadruples f),
         quadRemoved := quadRemoved f
           @ map (\<lambda>v. (tr_first v, key, tr_second v, tr_third v)) hits\<rparr>))"

definition fql_remove :: "pid \<Rightarrow> pid \<Rightarrow> pid \<Rightarrow> pid \<Rightarrow> fixedquadruplelist \<Rightarrow>
    bool \<times> fixedquadruplelist" where
  "fql_remove pid1 pid2 pid3 pid4 f =
     (let (r1, f) = fql_erase pid2 (Triple pid1 pid3 pid4) f;
          (r2, f) = fql_erase pid3 (Triple pid4 pid2 pid1) f
      in (r1 \<or> r2, f))"

definition fql_has_bond :: "pid \<Rightarrow> pid \<Rightarrow> pid \<times> triple \<Rightarrow> bool" where
  "fql_has_bond pid1 pid2 it =
     (let q2 = fst it; q1 = tr_first (snd it); q3 = tr_second (snd it); q4 = tr_third (snd it) in
      (q1 = pid1 \<and> q2 = pid2) \<or> (q1 = pid2 \<and> q2 = pid1) \<or>
      (q2 = pid1 \<and> q3 = pid2) \<or> (q2 = pid2 \<and> q3 = pid1) \<or>
      (q3 = pid1 \<and> q4 = pid2) \<or> (q3 = pid2 \<and> q4 = pid1))"

definition fql_ids :: "pid \<times> triple \<Rightarrow> pid \<times> pid \<times> pid \<times> pid" where
  "fql_ids it = (tr_first (snd it), fst it, tr_second (snd it), tr_third (snd it))"

definition fql_removeByBond :: "pid \<Rightarrow> pid \<Rightarrow> fixedquadruplelist \<Rightarrow> bool \<times> fixedquadruplelist" where
  "fql_removeByBond pid1 pid2 f =
     (list_ex (fql_has_bond pid1 pid2) (globalQuadruples f),
      f\<lparr>quadRemoved := quadRemoved f
          @ map fql_ids (filter (fql_has_bond pid1 pid2) (globalQuadruples f)),
        globalQuadruples := filter (\<lambda>it. \<not> fql_has_bond pid1 pid2 it) (globalQuadruples f)\<rparr>)"

definition getQuadruples :: "fixedquadruplelist \<Rightarrow> (pid \<times> pid \<times> pid \<times> pid) list" where
  "getQuadruples f = map fql_ids (globalQuadruples f)"

definition getQuadrupleList :: "fixedquadruplelist \<Rightarrow> longint list" where
  "getQuadrupleList f =
     concat (map (\<lambda>it. [tr_first (snd it), fst it, tr_second (snd it), tr_third (snd it)])
       (globalQuadruples f))"

fun read_quadruples :: "longint list \<Rightarrow> (pid \<times> pid \<times> pid \<times> pid) list" where
  "read_quadruples (a # b # c # d # xs) = (a, b, c, d) # read_quadruples xs"
| "read_quadruples _ = []"

definition getAllQuadruples ::
  "int \<Rightarrow> longint list list \<Rightarrow> fixedquadruplelist \<Rightarrow> (pid \<times> pid \<times> pid \<times> pid) list" where
  "getAllQuadruples rank gathered f =
     (if rank = 0 then concat (map read_quadruples (getQuadrupleList f # gathered)) else [])"

definition fql_enc :: "triple \<Rightarrow> longint list" where
  "fql_enc v = [tr_first v, tr_second v, tr_third v]"

definition fql_dec :: "longint list \<Rightarrow> triple" where
  "fql_dec xs = Triple (xs ! 0) (xs ! 1) (xs ! 2)"

definition fql_beforeSendParticles ::
  "particle list \<Rightarrow> fixedquadruplelist \<Rightarrow> buffer \<Rightarrow> (buffer \<times> fixedquadruplelist) option" where
  "fql_beforeSendParticles pl f buf =
     (let (toSend, g) = pack_ids fql_enc (map p_id pl) (globalQuadruples f) in
      do { buf \<leftarrow> write_ints toSend buf; Some (buf, f\<lparr>globalQuadruples := g\<rparr>) })"

definition fql_afterRecvParticles ::
  "fixedquadruplelist \<Rightarrow> buffer \<Rightarrow> (buffer \<times> fixedquadruplelist) option" where
  "fql_afterRecvParticles f buf =
     do { (received, buf) \<leftarrow> opt_of_read (read_ints buf);
          es \<leftarrow> unpack_ids 3 fql_dec received;
          Some (buf, f\<lparr>globalQuadruples := mm_insert_all es (globalQuadruples f)\<rparr>) }"

definition fql_part :: "triple \<Rightarrow> pid list" where
  "fql_part v = [tr_first v, tr_second v, tr_third v]"

definition fql_tup :: "lookup \<Rightarrow> ptr option \<Rightarrow> triple \<Rightarrow> fql_tuple" where
  "fql_tup localp p2 v = (localp (tr_first v), p2, localp (tr_second v), localp (tr_third v))"

text \<open>There is no explicit \<^verbatim>\<open>checkException\<close>: the destructor of the error object does it.\<close>

definition fql_onParticlesChanged ::
  "nat \<Rightarrow> lookup \<Rightarrow> lookup \<Rightarrow> fixedquadruplelist \<Rightarrow> fl_error + fixedquadruplelist" where
  "fql_onParticlesChanged oth realp localp f =
     (let (err, l) = fl_rebuild realp localp fql_part (fql_tup localp) (globalQuadruples f) (-1) None
                       Error_new []
      in case checkException oth err of
           Inl _ \<Rightarrow> Inl FlException | Inr _ \<Rightarrow> Inr (f\<lparr>quadrupleList := l\<rparr>))"

definition fql_updateParticlesStorage ::
  "lookup \<Rightarrow> lookup \<Rightarrow> fixedquadruplelist \<Rightarrow> fl_error + fixedquadruplelist" where
  "fql_updateParticlesStorage realp localp f =
     ebind (fl_update realp localp fql_part (fql_tup localp) (globalQuadruples f) (-1) None [])
       (\<lambda>l. Inr (f\<lparr>quadrupleList := l\<rparr>))"

definition fql_size :: "fixedquadruplelist \<Rightarrow> int" where
  "fql_size f = int (length (globalQuadruples f))"

definition fql_totalSize :: "int \<Rightarrow> fixedquadruplelist \<Rightarrow> int" where
  "fql_totalSize oth f = fql_size f + oth"

section \<open>The set of dihedrals\<close>

definition dih :: "pid \<times> triple \<Rightarrow> (pid \<times> pid \<times> pid \<times> pid) set" where
  "dih e = (case fql_ids e of (a, b, c, d) \<Rightarrow> {(a, b, c, d), (d, c, b, a)})"

definition dihedrals :: "fixedquadruplelist \<Rightarrow> (pid \<times> pid \<times> pid \<times> pid) set set" where
  "dihedrals f = dih ` set (globalQuadruples f)"

definition fql_wf :: "fixedquadruplelist \<Rightarrow> bool" where
  "fql_wf f \<longleftrightarrow> distinct (globalQuadruples f) \<and> inj_on dih (set (globalQuadruples f))"

lemma dih_simp [simp]: "dih (k, Triple a c d) = {(a, k, c, d), (d, c, k, a)}"
  by (simp add: dih_def fql_ids_def)

lemma dih_rev: "dih (c, Triple d k a) = dih (k, Triple a c d)"
  by (auto simp: doubleton_eq_iff)

lemma dih_eq_iff:
  "dih e = dih (k, Triple a c d) \<longleftrightarrow> e = (k, Triple a c d) \<or> e = (c, Triple d k a)"
  by (cases e; cases "snd e") (auto simp: doubleton_eq_iff)

lemma in_dihedrals:
  "dih (k, Triple a c d) \<in> dihedrals f \<longleftrightarrow>
     (k, Triple a c d) \<in> set (globalQuadruples f) \<or> (c, Triple d k a) \<in> set (globalQuadruples f)"
  using dih_eq_iff [of _ k a c d] dih_rev [of c d k a]
  unfolding dihedrals_def image_iff by metis

lemma fql_found_iff: "fql_found a k c d f \<longleftrightarrow> dih (k, Triple a c d) \<in> dihedrals f"
  unfolding in_dihedrals by (auto simp: fql_found_def list_ex_iff set_mm_range Let_def)

lemma fql_insert_spec:
  assumes "fql_wf f" and "fql_insert tup a k c d f = (r, f')"
  shows "(r \<longleftrightarrow> dih (k, Triple a c d) \<notin> dihedrals f)
    \<and> dihedrals f' = insert (dih (k, Triple a c d)) (dihedrals f) \<and> fql_wf f'"
proof (cases "dih (k, Triple a c d) \<in> dihedrals f")
  case True
  then have "r = False" "f' = f" using assms(2) by (simp_all add: fql_insert_def fql_found_iff)
  then show ?thesis using True assms(1) by (simp add: insert_absorb)
next
  case False
  then have r: "r = True"
    "globalQuadruples f' = mm_insert k (Triple a c d) (globalQuadruples f)"
    using assms(2) by (auto simp: fql_insert_def fql_found_iff)
  have n: "(k, Triple a c d) \<notin> set (globalQuadruples f)"
    using False unfolding in_dihedrals by blast
  have "dihedrals f' = insert (dih (k, Triple a c d)) (dihedrals f)"
    by (simp add: dihedrals_def r(2) del: dih_simp)
  moreover have "fql_wf f'"
    using assms(1) False n
    by (simp add: fql_wf_def r(2) distinct_mm_insert dihedrals_def del: dih_simp)
  ultimately show ?thesis using r(1) False by simp
qed

lemma fql_add_eq:
  "fql_add oth realp localp a k c d f =
     (if (realp k \<noteq> None \<and> (localp a = None \<or> localp c = None \<or> localp d = None)) \<or> 0 < oth
      then Inl FlException
      else Inr (if realp k = None then (False, f)
                else fql_insert (localp a, realp k, localp c, localp d) a k c d f))"
  by (cases "realp k"; cases "localp a"; cases "localp c"; cases "localp d")
    (simp_all add: fql_add_def Let_def checkException_def)

lemma fql_erase_sel:
  "globalQuadruples (snd (fql_erase k t f)) = filter (\<lambda>e. e \<noteq> (k, t)) (globalQuadruples f)"
  "fst (fql_erase k t f) \<longleftrightarrow> (k, t) \<in> set (globalQuadruples f)"
proof -
  have "\<not> (fst e = k \<and> snd e = t) \<longleftrightarrow> e \<noteq> (k, t)" for e :: "pid \<times> triple" by (cases e) simp
  then show "globalQuadruples (snd (fql_erase k t f)) = filter (\<lambda>e. e \<noteq> (k, t)) (globalQuadruples f)"
    by (simp add: fql_erase_def Let_def mm_erase_if_def)
  show "fst (fql_erase k t f) \<longleftrightarrow> (k, t) \<in> set (globalQuadruples f)"
    by (auto simp: fql_erase_def Let_def filter_empty_conv set_mm_range)
qed

lemma fql_remove_sel:
  "globalQuadruples (snd (fql_remove a k c d f))
    = filter (\<lambda>e. dih e \<noteq> dih (k, Triple a c d)) (globalQuadruples f)"
  "fst (fql_remove a k c d f) \<longleftrightarrow> dih (k, Triple a c d) \<in> dihedrals f"
proof -
  obtain r g where rg: "fql_erase k (Triple a c d) f = (r, g)" by fastforce
  obtain s h where sh: "fql_erase c (Triple d k a) g = (s, h)" by fastforce
  have g: "globalQuadruples g = filter (\<lambda>e. e \<noteq> (k, Triple a c d)) (globalQuadruples f)"
    "r \<longleftrightarrow> (k, Triple a c d) \<in> set (globalQuadruples f)"
    using fql_erase_sel [of k "Triple a c d" f] rg by simp_all
  have h: "globalQuadruples h = filter (\<lambda>e. e \<noteq> (c, Triple d k a)) (globalQuadruples g)"
    "s \<longleftrightarrow> (c, Triple d k a) \<in> set (globalQuadruples g)"
    using fql_erase_sel [of c "Triple d k a" g] sh by simp_all
  have rem: "fql_remove a k c d f = (r \<or> s, h)" by (simp add: fql_remove_def rg sh)
  show "globalQuadruples (snd (fql_remove a k c d f))
    = filter (\<lambda>e. dih e \<noteq> dih (k, Triple a c d)) (globalQuadruples f)"
    unfolding rem dih_eq_iff by (simp add: g h conj_commute)
  show "fst (fql_remove a k c d f) \<longleftrightarrow> dih (k, Triple a c d) \<in> dihedrals f"
    unfolding rem in_dihedrals using g h by auto
qed

text \<open>Two particles are neighbours in a dihedral.\<close>

definition bond_in_dih :: "pid \<Rightarrow> pid \<Rightarrow> (pid \<times> pid \<times> pid \<times> pid) set \<Rightarrow> bool" where
  "bond_in_dih x y s \<longleftrightarrow>
     (\<exists>(a, b, c, d)\<in>s. (a = x \<and> b = y) \<or> (b = x \<and> c = y) \<or> (c = x \<and> d = y))"

lemma fql_has_bond_iff: "fql_has_bond x y e \<longleftrightarrow> bond_in_dih x y (dih e)"
  by (cases e; cases "snd e") (auto simp: fql_has_bond_def bond_in_dih_def)

lemma fql_wf_filter:
  "fql_wf f \<Longrightarrow> globalQuadruples g = filter P (globalQuadruples f) \<Longrightarrow> fql_wf g"
  by (auto simp: fql_wf_def inj_on_def)

section \<open>Migration\<close>

interpretation quadruple_payload: payload 3 fql_enc fql_dec
  by unfold_locales (simp_all add: fql_enc_def fql_dec_def)

definition fql_items :: "fixedquadruplelist \<Rightarrow> particle list \<Rightarrow> item list" where
  "fql_items f pl = ints_items (fst (pack_ids fql_enc (map p_id pl) (globalQuadruples f)))"

lemma fql_before_writes:
  assumes "out_ok b" and "fql_beforeSendParticles pl f b = Some (b', f')"
  shows "out_ok b' \<and> b_items b' = b_items b @ fql_items f pl
    \<and> f' = f\<lparr>globalQuadruples := filter (\<lambda>e. fst e \<notin> p_id ` set pl) (globalQuadruples f)\<rparr>"
proof -
  obtain vs g where vg: "pack_ids fql_enc (map p_id pl) (globalQuadruples f) = (vs, g)" by fastforce
  have g: "g = filter (\<lambda>e. fst e \<notin> p_id ` set pl) (globalQuadruples f)"
    using pack_ids_rest [of fql_enc "map p_id pl" "globalQuadruples f"] vg by simp
  have w: "write_ints vs b = Some b'" "f' = f\<lparr>globalQuadruples := g\<rparr>"
    using assms(2) vg by (auto simp: fql_beforeSendParticles_def bind_Some_iff)
  from write_ints_Some [OF w(1) assms(1)] show ?thesis using vg g w(2) by (simp add: fql_items_def)
qed

lemma fql_after_reads:
  assumes "in_ok b" and "b_items b = fql_items f pl @ rest"
  shows "\<exists>b'. fql_afterRecvParticles g b
      = Some (b', g\<lparr>globalQuadruples := mm_insert_all (packed (map p_id pl) (globalQuadruples f)) (globalQuadruples g)\<rparr>)
    \<and> in_ok b' \<and> b_items b' = rest"
  using quadruple_payload.receive_packed [OF assms [unfolded fql_items_def]]
  by (auto simp: fql_afterRecvParticles_def)

interpretation quadruple_slots: slots
    "\<lambda>pl b. map_option fst (fql_beforeSendParticles pl f b)"
    "\<lambda>pl b. map_option fst (fql_afterRecvParticles g b)"
    "fql_items f"
  for f g
proof unfold_locales
  show "out_ok b' \<and> b_items b' = b_items b @ fql_items f xs"
    if "out_ok b" "map_option fst (fql_beforeSendParticles xs f b) = Some b'" for b xs b'
    using that fql_before_writes by auto
  show "\<exists>b'. map_option fst (fql_afterRecvParticles g b) = Some b' \<and> in_ok b' \<and> b_items b' = rest"
    if "in_ok b" "b_items b = fql_items f xs @ rest" for b xs rest
    using fql_after_reads [OF that, of g] by auto
qed

section \<open>Properties\<close>

text \<open>
  \<^verbatim>\<open>FixedQuadrupleList::add\<close> and \<^verbatim>\<open>iadd\<close> insert into the set of dihedrals, where a dihedral
  read backwards is the same.  They return false and change nothing if the second particle is
  not owned here, throw if it is and another one is unknown, and otherwise leave exactly this
  dihedral more in the set, once, returning whether it is new.  The search under the key of the
  third particle is what finds a dihedral that was added backwards.
\<close>

theorem fixed_quadruple_add:
  assumes wf: "fql_wf f"
  shows "(case fql_add oth realp localp a k c d f of
        Inl e \<Rightarrow> (realp k \<noteq> None \<and> (localp a = None \<or> localp c = None \<or> localp d = None)) \<or> 0 < oth
      | Inr (r, f') \<Rightarrow> oth = 0 \<and> fql_wf f' \<and> fql_iadd realp localp a k c d f = Inr (r, f')
          \<and> (r \<longleftrightarrow> realp k \<noteq> None \<and> {(a, k, c, d), (d, c, k, a)} \<notin> dihedrals f)
          \<and> dihedrals f' = dihedrals f \<union> (if realp k = None then {} else {{(a, k, c, d), (d, c, k, a)}})
          \<and> quadrupleList f' = quadrupleList f @ (if r then [(localp a, realp k, localp c, localp d)] else [])
          \<and> quadAdded f' = quadAdded f @ (if r then [(a, k, c, d)] else []))
    \<and> (fql_iadd realp localp a k c d f = Inl FlException \<longleftrightarrow>
        realp k \<noteq> None \<and> (localp a = None \<or> localp c = None \<or> localp d = None))"
proof -
  have i: "fql_iadd realp localp a k c d f = Inl FlException \<longleftrightarrow>
      realp k \<noteq> None \<and> (localp a = None \<or> localp c = None \<or> localp d = None)"
    by (simp add: fql_iadd_def Let_def)
  show ?thesis
  proof (cases "(realp k \<noteq> None \<and> (localp a = None \<or> localp c = None \<or> localp d = None)) \<or> 0 < oth")
    case True
    then show ?thesis using i by (simp add: fql_add_eq)
  next
    case False
    show ?thesis
    proof (cases "realp k = None")
      case True
      then show ?thesis using False i wf by (simp add: fql_add_eq fql_iadd_def Let_def)
    next
      case r: False
      obtain r f' where rf: "fql_insert (localp a, realp k, localp c, localp d) a k c d f = (r, f')"
        by fastforce
      have add: "fql_add oth realp localp a k c d f = Inr (r, f')"
        "fql_iadd realp localp a k c d f = Inr (r, f')"
        using False r rf by (auto simp: fql_add_eq fql_iadd_def Let_def)
      moreover have "quadrupleList f' = quadrupleList f
          @ (if r then [(localp a, realp k, localp c, localp d)] else [])"
        "quadAdded f' = quadAdded f @ (if r then [(a, k, c, d)] else [])"
        using rf by (auto simp: fql_insert_def split: if_splits)
      ultimately show ?thesis using False r i fql_insert_spec [OF wf rf] unfolding add by auto
    qed
  qed
qed

theorem fixed_quadruple_add_witness:
  "\<exists>f'. fql_add 0 (\<lambda>i. Some (Ptr (TmpV 0) 0 (nat i))) (\<lambda>i. Some (Ptr (TmpV 0) 0 (nat i))) 4 3 2 1
      (FixedQuadrupleList_new\<lparr>globalQuadruples := [(2, Triple 1 3 4)]\<rparr>) = Inr (False, f')"
proof -
  let ?l = "\<lambda>i. Some (Ptr (TmpV 0) 0 (nat i))"
    and ?f = "FixedQuadrupleList_new\<lparr>globalQuadruples := [(2, Triple 1 3 4)]\<rparr>"
  have wf: "fql_wf ?f" and e: "{(4, 3, 2, 1), (1, 2, 3, 4)} \<in> dihedrals ?f"
    by (auto simp: fql_wf_def dihedrals_def)
  have "\<exists>r f'. fql_add 0 ?l ?l 4 3 2 1 ?f = Inr (r, f')"
    by (simp add: fql_add_eq)
  with fixed_quadruple_add [OF wf, where oth = 0 and realp = ?l and localp = ?l and a = 4 and k = 3
      and c = 2 and d = 1] e
  show ?thesis by (auto split: sum.splits prod.splits)
qed

text \<open>
  \<^verbatim>\<open>FixedQuadrupleList::remove\<close> takes exactly the named dihedral out, given forwards or
  backwards, and \<^verbatim>\<open>removeByBond\<close> exactly those in which the two particles are neighbours; both
  return whether there was one.  After an \<^verbatim>\<open>add\<close> that returned true, \<^verbatim>\<open>remove\<close> of the reversed
  quadruple gives the set there was before.
\<close>

theorem fixed_quadruple_remove:
  assumes wf: "fql_wf f"
  shows "dihedrals (snd (fql_remove a k c d f)) = dihedrals f - {{(a, k, c, d), (d, c, k, a)}}
    \<and> (fst (fql_remove a k c d f) \<longleftrightarrow> {(a, k, c, d), (d, c, k, a)} \<in> dihedrals f)
    \<and> dihedrals (snd (fql_removeByBond x y f)) = {s \<in> dihedrals f. \<not> bond_in_dih x y s}
    \<and> (fst (fql_removeByBond x y f) \<longleftrightarrow> (\<exists>s\<in>dihedrals f. bond_in_dih x y s))
    \<and> fql_wf (snd (fql_remove a k c d f)) \<and> fql_wf (snd (fql_removeByBond x y f))
    \<and> (\<forall>oth realp localp f'. fql_add oth realp localp a k c d f = Inr (True, f') \<longrightarrow>
        dihedrals (snd (fql_remove d c k a f')) = dihedrals f)"
proof -
  have rem: "dihedrals (snd (fql_remove a k c d f)) = dihedrals f - {dih (k, Triple a c d)}"
    for a k c d f
    by (auto simp: dihedrals_def fql_remove_sel simp del: dih_simp)
  have "dihedrals (snd (fql_remove d c k a f')) = dihedrals f"
    if "fql_add oth realp localp a k c d f = Inr (True, f')" for oth realp localp f'
  proof -
    have "fql_insert (localp a, realp k, localp c, localp d) a k c d f = (True, f')"
      using that by (auto simp: fql_add_eq split: if_splits)
    from fql_insert_spec [OF wf this] show ?thesis unfolding rem dih_rev [of c d k a] by auto
  qed
  moreover have "dihedrals (snd (fql_removeByBond x y f)) = {s \<in> dihedrals f. \<not> bond_in_dih x y s}"
    "fst (fql_removeByBond x y f) \<longleftrightarrow> (\<exists>s\<in>dihedrals f. bond_in_dih x y s)"
    by (auto simp: fql_removeByBond_def dihedrals_def fql_has_bond_iff list_ex_iff)
  moreover have "fql_wf (snd (fql_remove a k c d f))" "fql_wf (snd (fql_removeByBond x y f))"
    by (rule fql_wf_filter [OF wf], simp add: fql_remove_sel fql_removeByBond_def)+
  moreover note rem [of a k c d f] fql_remove_sel(2) [of a k c d f]
  ultimately show ?thesis unfolding dih_simp by simp
qed

theorem fixed_quadruple_remove_witness:
  "fst (fql_remove 4 3 2 1 (FixedQuadrupleList_new\<lparr>globalQuadruples := [(2, Triple 1 3 4)]\<rparr>))
    \<and> fst (fql_removeByBond 3 2 (FixedQuadrupleList_new\<lparr>globalQuadruples := [(2, Triple 1 3 4)]\<rparr>))"
proof -
  let ?f = "FixedQuadrupleList_new\<lparr>globalQuadruples := [(2, Triple 1 3 4)]\<rparr>"
  have wf: "fql_wf ?f" by (simp add: fql_wf_def)
  have e: "dihedrals ?f = {{(4, 3, 2, 1), (1, 2, 3, 4)}}" by (auto simp: dihedrals_def)
  have b: "bond_in_dih 3 2 {(4, 3, 2, 1), (1, 2, 3, 4)}" by (simp add: bond_in_dih_def)
  show ?thesis using fixed_quadruple_remove [OF wf, of 4 3 2 1 3 2] b unfolding e by blast
qed

text \<open>
  Dihedrals move with the particle they are filed under: the message \<^verbatim>\<open>beforeSendParticles\<close>
  writes is read back completely by \<^verbatim>\<open>afterRecvParticles\<close>, the sender keeps exactly the entries
  whose owner stays and the union of the entries of both processes is unchanged.
\<close>

theorem fixed_quadruple_migrate:
  assumes send: "fql_beforeSendParticles pl f (buf_reset b) = Some (b', f')" and cap: "0 < b_capacity b"
  shows "\<exists>c' g'. fql_afterRecvParticles g (buf_recv (buf_send b') c) = Some (c', g')
    \<and> b_items c' = []
    \<and> globalQuadruples f' = filter (\<lambda>e. fst e \<notin> p_id ` set pl) (globalQuadruples f)
    \<and> set (globalQuadruples g')
        = set (globalQuadruples g) \<union> {e \<in> set (globalQuadruples f). fst e \<in> p_id ` set pl}
    \<and> mset (globalQuadruples f') + mset (globalQuadruples g')
        = mset (globalQuadruples f) + mset (globalQuadruples g)"
proof -
  let ?ps = "map p_id pl"
  have o: "out_ok (buf_reset b)" using cap by simp
  note w = fql_before_writes [OF o send]
  have "in_ok (buf_recv (buf_send b') c)" "b_items (buf_recv (buf_send b') c) = fql_items f pl @ []"
    using buf_recv_send [of b' c] w by auto
  from fql_after_reads [OF this, of g] obtain c' where
    r: "fql_afterRecvParticles g (buf_recv (buf_send b') c) = Some (c',
      g\<lparr>globalQuadruples := mm_insert_all (packed ?ps (globalQuadruples f)) (globalQuadruples g)\<rparr>)"
      "b_items c' = []" by blast
  then show ?thesis
    using w migrate_mset [of ?ps "globalQuadruples f" "globalQuadruples g"] by (auto simp: set_packed)
qed

theorem fixed_quadruple_migrate_witness:
  "\<exists>b' f' c' g'. fql_beforeSendParticles [particle_zero]
      (FixedQuadrupleList_new\<lparr>globalQuadruples := [(0, Triple 1 2 3)]\<rparr>) (buf_reset Buffer_new) = Some (b', f')
    \<and> fql_afterRecvParticles FixedQuadrupleList_new (buf_recv (buf_send b') Buffer_new) = Some (c', g')
    \<and> set (globalQuadruples g') = {(0, Triple 1 2 3)}"
proof -
  let ?f = "FixedQuadrupleList_new\<lparr>globalQuadruples := [(0, Triple 1 2 3)]\<rparr>"
  have id: "p_id particle_zero = 0" by (simp add: particle_zero_def)
  obtain b' where "write_ints [0, 1, 1, 2, 3] (buf_reset Buffer_new) = Some b'"
    using write_ints_total [of Buffer_new "[0, 1, 1, 2, 3]"] by (auto simp: INT_MAX_def)
  then obtain f' where s: "fql_beforeSendParticles [particle_zero] ?f (buf_reset Buffer_new) = Some (b', f')"
    by (simp add: fql_beforeSendParticles_def id mm_count_def mm_range_def fql_enc_def)
  from fixed_quadruple_migrate [OF s, of FixedQuadrupleList_new Buffer_new] s id show ?thesis
    by (auto simp: FixedQuadrupleList_new_def)
qed

end
