(* ===== verification/FixedSingleList.thy ===== *)
theory FixedSingleList
  imports FixedLists
begin

text \<open>
  \<^verbatim>\<open>src/src/FixedSingleList.hpp\<close> and \<^verbatim>\<open>.cpp\<close>: a list of selected particles of one process.  The
  \<^verbatim>\<open>unordered_set\<close> of their ids is a list without duplicates in traversal order.
\<close>

record fixedsinglelist =
  globalSingles :: "pid list"
  singleList :: "ptr option list"
  fsl_connected :: bool

definition FixedSingleList_new :: fixedsinglelist where
  "FixedSingleList_new = \<lparr>globalSingles = [], singleList = [], fsl_connected = True\<rparr>"

definition FixedSingleList_delete :: "fixedsinglelist \<Rightarrow> fixedsinglelist" where
  "FixedSingleList_delete f = f\<lparr>fsl_connected := False\<rparr>"

definition set_insert :: "pid \<Rightarrow> pid list \<Rightarrow> pid list" where
  "set_insert i s = (if i \<in> set s then s else s @ [i])"

text \<open>The pointer is added whether or not the id is in the set already.\<close>

definition fsl_add :: "lookup \<Rightarrow> pid \<Rightarrow> fixedsinglelist \<Rightarrow> bool \<times> fixedsinglelist" where
  "fsl_add realp pid1 f =
     (let p1 = realp pid1 in
      if p1 \<noteq> None
      then (True, f\<lparr>singleList := singleList f @ [p1], globalSingles := set_insert pid1 (globalSingles f)\<rparr>)
      else (False, f))"

definition getSingles :: "fixedsinglelist \<Rightarrow> pid list" where
  "getSingles f = globalSingles f"

text \<open>\<^verbatim>\<open>std::vector<longint> toSend(pl.size())\<close> starts with \<^verbatim>\<open>pl.size()\<close> zeros.\<close>

definition fsl_beforeSendParticles ::
  "particle list \<Rightarrow> fixedsinglelist \<Rightarrow> buffer \<Rightarrow> (buffer \<times> fixedsinglelist) option" where
  "fsl_beforeSendParticles pl f buf =
     (let toSend = replicate (length pl) 0 @ map p_id pl;
          g = fold (\<lambda>x s. filter (\<lambda>i. i \<noteq> p_id x) s) pl (globalSingles f)
      in do { buf \<leftarrow> write_ints toSend buf; Some (buf, f\<lparr>globalSingles := g\<rparr>) })"

definition fsl_afterRecvParticles ::
  "fixedsinglelist \<Rightarrow> buffer \<Rightarrow> (buffer \<times> fixedsinglelist) option" where
  "fsl_afterRecvParticles f buf =
     do { (received, buf) \<leftarrow> opt_of_read (read_ints buf);
          Some (buf, f\<lparr>globalSingles := fold set_insert received (globalSingles f)\<rparr>) }"

definition fsl_onParticlesChanged ::
  "nat \<Rightarrow> lookup \<Rightarrow> fixedsinglelist \<Rightarrow> fl_error + fixedsinglelist" where
  "fsl_onParticlesChanged oth realp f =
     (let err = fold (\<lambda>i err. if realp i = None then setException (MissingOwner i) True err else err)
                  (globalSingles f) Error_new;
          l = map realp (globalSingles f)
      in case checkException oth err of
           Inl _ \<Rightarrow> Inl FlException | Inr _ \<Rightarrow> Inr (f\<lparr>singleList := l\<rparr>))"

lemma set_set_insert [simp]: "set (set_insert i s) = insert i (set s)"
  by (auto simp: set_insert_def)

lemma set_fold_insert [simp]: "set (fold set_insert is s) = set is \<union> set s"
  by (induction "is" arbitrary: s) auto

lemma set_fold_erase: "set (fold (\<lambda>x s. filter (\<lambda>i. i \<noteq> p_id x) s) pl s) = set s - p_id ` set pl"
  by (induction pl arbitrary: s) auto

lemma fsl_missing_count:
  "noExceptions (fold (\<lambda>i err. if realp i = None then setException (MissingOwner i) True err else err) is err) = 0
    \<longleftrightarrow> noExceptions err = 0 \<and> (\<forall>i\<in>set is. realp i \<noteq> None)"
  by (induction "is" arbitrary: err) auto

text \<open>
  A \<^verbatim>\<open>FixedSingleList\<close> does not survive a migration.  After particles have moved, the
  receiver's list holds its own ids, the ids of all particles that moved, whether or not they
  were in the sender's list, and, if any moved, the id 0 of no one in particular; so if no
  particle with id 0 is there, the following \<^verbatim>\<open>onParticlesChanged\<close> throws.
\<close>

theorem fixed_single_migrate:
  assumes send: "fsl_beforeSendParticles pl f (buf_reset b) = Some (b', f')" and cap: "0 < b_capacity b"
    and ne: "pl \<noteq> []"
  shows "\<exists>c' g'. fsl_afterRecvParticles g (buf_recv (buf_send b') c) = Some (c', g')
    \<and> set (globalSingles f') = set (globalSingles f) - p_id ` set pl
    \<and> set (globalSingles g') = set (globalSingles g) \<union> p_id ` set pl \<union> {0}
    \<and> (\<forall>realp oth. realp 0 = None \<longrightarrow> fsl_onParticlesChanged oth realp g' = Inl FlException)"
proof -
  define vs where "vs = replicate (length pl) 0 @ map p_id pl"
  have vs: "set vs = insert 0 (p_id ` set pl)" using ne by (auto simp: vs_def)
  have o: "out_ok (buf_reset b)" using cap by simp
  have w: "write_ints vs (buf_reset b) = Some b'"
    and f': "set (globalSingles f') = set (globalSingles f) - p_id ` set pl"
    using send by (auto simp: fsl_beforeSendParticles_def vs_def bind_Some_iff set_fold_erase)
  have "in_ok (buf_recv (buf_send b') c)" "b_items (buf_recv (buf_send b') c) = ints_items vs @ []"
    using buf_recv_send [of b' c] write_ints_Some [OF w o] by auto
  from read_ints_items [OF this] obtain c' where c': "read_ints (buf_recv (buf_send b') c) = Inr (vs, c')"
    by blast
  let ?g' = "g\<lparr>globalSingles := fold set_insert vs (globalSingles g)\<rparr>"
  have r: "fsl_afterRecvParticles g (buf_recv (buf_send b') c) = Some (c', ?g')"
    using c' by (simp add: fsl_afterRecvParticles_def)
  have s: "set (globalSingles ?g') = set (globalSingles g) \<union> p_id ` set pl \<union> {0}"
    using vs by auto
  have "fsl_onParticlesChanged oth realp ?g' = Inl FlException" if "realp 0 = None" for oth realp
  proof -
    have "0 \<in> set (globalSingles ?g')" unfolding s by simp
    with that have "\<not> (\<forall>i\<in>set (globalSingles ?g'). realp i \<noteq> None)" by blast
    with fsl_missing_count [of realp "globalSingles ?g'" Error_new] show ?thesis
      by (simp add: fsl_onParticlesChanged_def Let_def checkException_def)
  qed
  with r f' s show ?thesis by blast
qed

theorem fixed_single_migrate_witness:
  "\<exists>b' f' c' g'. fsl_beforeSendParticles [setId particle_zero 5] FixedSingleList_new (buf_reset Buffer_new)
      = Some (b', f')
    \<and> fsl_afterRecvParticles FixedSingleList_new (buf_recv (buf_send b') Buffer_new) = Some (c', g')
    \<and> set (globalSingles g') = {0, 5}"
proof -
  obtain b' where "write_ints [0, 5] (buf_reset Buffer_new) = Some b'"
    using write_ints_total [of Buffer_new "[0, 5]"] by (auto simp: INT_MAX_def)
  then obtain f' where s: "fsl_beforeSendParticles [setId particle_zero 5] FixedSingleList_new
      (buf_reset Buffer_new) = Some (b', f')"
    by (simp add: fsl_beforeSendParticles_def)
  from fixed_single_migrate [OF s, of FixedSingleList_new Buffer_new] s show ?thesis
    by (auto simp: FixedSingleList_new_def)
qed

end
