(* ===== verification/CellIterators.thy ===== *)
theory CellIterators
  imports Esp_Prelude
begin

text \<open>
  \<^verbatim>\<open>src/src/Cell.hpp\<close>, \<^verbatim>\<open>esutil/ESPPIterator.hpp\<close> and the iterators of \<^verbatim>\<open>src/src/iterator/\<close>.  An
  \<^verbatim>\<open>ESPPIterator\<close> is the part of its container that is still to come: \<^verbatim>\<open>isDone\<close> is \<open>[]\<close>,
  \<^verbatim>\<open>operator++\<close> is \<open>tl\<close> and \<^verbatim>\<open>operator*\<close> is \<open>hd\<close>.  Cells are indices into \<^verbatim>\<open>cells\<close>;
  \<open>parts c\<close> are the particles of cell \<open>c\<close> (whatever stands for a particle) and
  \<open>nbrs c\<close> its neighbor list, each entry with its \<^verbatim>\<open>useForAllPairs\<close> flag.  Every \<^verbatim>\<open>while\<close> loop is
  a recursion with a proof that it ends, and each iterator is shown to visit exactly the
  intended sequence.
\<close>

record neighborcellinfo =
  nc_cell :: nat
  useForAllPairs :: bool

section \<open>All particles of a list of cells\<close>

record 'p cli =
  cli_cit :: "nat list"
  cli_pit :: "'p list"

fun cli_findNonemptyCell :: "(nat \<Rightarrow> 'p list) \<Rightarrow> nat list \<Rightarrow> 'p list \<Rightarrow> 'p cli" where
  "cli_findNonemptyCell parts cit (p # ps) = \<lparr>cli_cit = cit, cli_pit = p # ps\<rparr>"
| "cli_findNonemptyCell parts (c # c' # cs) [] = cli_findNonemptyCell parts (c' # cs) (parts c')"
| "cli_findNonemptyCell parts _ [] = \<lparr>cli_cit = [], cli_pit = []\<rparr>"

definition cli_new :: "(nat \<Rightarrow> 'p list) \<Rightarrow> nat list \<Rightarrow> 'p cli" where
  "cli_new parts cl = (if cl = [] then \<lparr>cli_cit = [], cli_pit = []\<rparr>
     else cli_findNonemptyCell parts cl (parts (hd cl)))"

definition cli_next :: "(nat \<Rightarrow> 'p list) \<Rightarrow> 'p cli \<Rightarrow> 'p cli" where
  "cli_next parts it = cli_findNonemptyCell parts (cli_cit it) (tl (cli_pit it))"

definition cli_isValid :: "'p cli \<Rightarrow> bool" where
  "cli_isValid it \<longleftrightarrow> cli_cit it \<noteq> []"

definition cli_deref :: "'p cli \<Rightarrow> 'p" where
  "cli_deref it = hd (cli_pit it)"

text \<open>What is still to be visited.\<close>

definition cli_rest :: "(nat \<Rightarrow> 'p list) \<Rightarrow> 'p cli \<Rightarrow> 'p list" where
  "cli_rest parts it = cli_pit it @ concat (map parts (tl (cli_cit it)))"

text \<open>An iterator that is valid stands on a particle.\<close>

definition cli_ok :: "'p cli \<Rightarrow> bool" where
  "cli_ok it \<longleftrightarrow> (cli_cit it = [] \<longleftrightarrow> cli_pit it = [])"

lemma cli_find_spec:
  "cli_ok (cli_findNonemptyCell parts cit pit) \<or> (cit = [] \<and> pit \<noteq> [])"
  "cit \<noteq> [] \<Longrightarrow> cli_rest parts (cli_findNonemptyCell parts cit pit) = pit @ concat (map parts (tl cit))"
  by (induction parts cit pit rule: cli_findNonemptyCell.induct)
    (auto simp: cli_ok_def cli_rest_def)

text \<open>The loop \<^verbatim>\<open>for (CellListIterator it(cl); it.isValid(); ++it)\<close>.\<close>

function cli_collect :: "(nat \<Rightarrow> 'p list) \<Rightarrow> 'p cli \<Rightarrow> 'p list" where
  "cli_collect parts it =
     (if cli_isValid it then cli_deref it # cli_collect parts (cli_next parts it) else [])"
  by pat_completeness auto

lemma cli_find_measure:
  "length (cli_cit (cli_findNonemptyCell parts cit pit))
      + length (cli_rest parts (cli_findNonemptyCell parts cit pit))
    \<le> length cit + length (pit @ concat (map parts (tl cit)))"
  "pit = [] \<Longrightarrow> cit \<noteq> [] \<Longrightarrow> length (cli_cit (cli_findNonemptyCell parts cit pit))
      + length (cli_rest parts (cli_findNonemptyCell parts cit pit))
    < length cit + length (pit @ concat (map parts (tl cit)))"
  by (induction parts cit pit rule: cli_findNonemptyCell.induct) (auto simp: cli_rest_def)

termination cli_collect
proof (relation "measure (\<lambda>(parts, it). length (cli_cit it) + length (cli_rest parts it))")
  fix parts :: "nat \<Rightarrow> 'p list" and it :: "'p cli"
  assume v: "cli_isValid it"
  have "length (cli_cit (cli_next parts it)) + length (cli_rest parts (cli_next parts it))
      < length (cli_cit it) + length (cli_rest parts it)"
  proof (cases "cli_pit it")
    case Nil
    then show ?thesis using cli_find_measure(2) [of "[]" "cli_cit it" parts] v
      by (simp add: cli_next_def cli_isValid_def cli_rest_def)
  next
    case (Cons p ps)
    then show ?thesis using cli_find_measure(1) [of parts "cli_cit it" ps]
      by (simp add: cli_next_def cli_rest_def)
  qed
  then show "((parts, cli_next parts it), parts, it)
      \<in> measure (\<lambda>(parts, it). length (cli_cit it) + length (cli_rest parts it))" by simp
qed simp

declare cli_collect.simps [simp del]

lemma cli_next_ok: "cli_isValid it \<Longrightarrow> cli_ok (cli_next parts it)"
  using cli_find_spec(1) [of parts "cli_cit it"] by (auto simp: cli_next_def cli_isValid_def)

lemma cli_collect_rest: "cli_ok it \<Longrightarrow> cli_collect parts it = cli_rest parts it"
proof (induction parts it rule: cli_collect.induct)
  case (1 parts it)
  show ?case
  proof (cases "cli_isValid it")
    case True
    then obtain p ps where p: "cli_pit it = p # ps"
      using 1(2) by (auto simp: cli_ok_def cli_isValid_def neq_Nil_conv)
    have "cli_rest parts (cli_next parts it) = ps @ concat (map parts (tl (cli_cit it)))"
      using cli_find_spec(2) [of "cli_cit it"] True p by (simp add: cli_next_def cli_isValid_def)
    then show ?thesis using 1(1) [OF True cli_next_ok [OF True]] True p
      by (subst cli_collect.simps) (simp add: cli_deref_def cli_rest_def)
  next
    case False
    then show ?thesis using 1(2)
      by (subst cli_collect.simps) (simp add: cli_isValid_def cli_ok_def cli_rest_def)
  qed
qed

text \<open>The iterator visits every particle of every cell once, in order.\<close>

lemma cli_visits: "cli_collect parts (cli_new parts cl) = concat (map parts cl)"
proof (cases cl)
  case Nil
  then show ?thesis by (subst cli_collect_rest) (simp_all add: cli_new_def cli_ok_def cli_rest_def)
next
  case (Cons c cs)
  then show ?thesis
    using cli_find_spec(1) [of parts cl "parts c"] cli_find_spec(2) [of cl parts "parts c"]
    by (subst cli_collect_rest) (auto simp: cli_new_def)
qed

section \<open>The particles of the neighbor cells\<close>

record 'p ncli =
  ncli_ncit :: "neighborcellinfo list"
  ncli_pit :: "'p list"
  ncli_useAllPairs :: bool

definition ncli_skip :: "bool \<Rightarrow> neighborcellinfo list \<Rightarrow> neighborcellinfo list" where
  "ncli_skip useAll ncit = (if useAll then dropWhile (\<lambda>n. \<not> useForAllPairs n) ncit else ncit)"

lemma ncli_skip_length: "length (ncli_skip u xs) \<le> length xs"
  by (simp add: ncli_skip_def length_dropWhile_le)

text \<open>The loop \<^verbatim>\<open>while (pit.isDone())\<close> of the constructor and of \<^verbatim>\<open>operator++\<close>.\<close>

function ncli_findParticle ::
  "(nat \<Rightarrow> 'p list) \<Rightarrow> bool \<Rightarrow> neighborcellinfo list \<Rightarrow> 'p list \<Rightarrow> 'p ncli" where
  "ncli_findParticle parts u ncit pit =
     (if pit \<noteq> [] \<or> ncit = [] then \<lparr>ncli_ncit = ncit, ncli_pit = pit, ncli_useAllPairs = u\<rparr>
      else case ncli_skip u (tl ncit) of
             [] \<Rightarrow> \<lparr>ncli_ncit = [], ncli_pit = [], ncli_useAllPairs = u\<rparr>
           | n # ns \<Rightarrow> ncli_findParticle parts u (n # ns) (parts (nc_cell n)))"
  by pat_completeness auto
termination
proof (relation "measure (\<lambda>(parts, u, ncit, pit). length ncit)")
  fix parts :: "nat \<Rightarrow> 'p list" and pit :: "'p list" and u ncit n ns
  assume a: "\<not> (pit \<noteq> [] \<or> ncit = [])" and b: "ncli_skip u (tl ncit) = n # ns"
  have "length (n # ns) \<le> length (tl ncit)" using ncli_skip_length [of u "tl ncit"] b by simp
  with a show "((parts, u, n # ns, parts (nc_cell n)), parts, u, ncit, pit)
      \<in> measure (\<lambda>(parts, u, ncit, pit). length ncit)" by (cases ncit) auto
qed simp

declare ncli_findParticle.simps [simp del]

definition ncli_new :: "(nat \<Rightarrow> 'p list) \<Rightarrow> neighborcellinfo list \<Rightarrow> bool \<Rightarrow> 'p ncli" where
  "ncli_new parts cl useAll =
     (case ncli_skip useAll cl of
        [] \<Rightarrow> \<lparr>ncli_ncit = [], ncli_pit = [], ncli_useAllPairs = useAll\<rparr>
      | n # ns \<Rightarrow> ncli_findParticle parts useAll (n # ns) (parts (nc_cell n)))"

definition ncli_next :: "(nat \<Rightarrow> 'p list) \<Rightarrow> 'p ncli \<Rightarrow> 'p ncli" where
  "ncli_next parts it = ncli_findParticle parts (ncli_useAllPairs it) (ncli_ncit it) (tl (ncli_pit it))"

definition ncli_isValid :: "'p ncli \<Rightarrow> bool" where
  "ncli_isValid it \<longleftrightarrow> ncli_ncit it \<noteq> []"

definition ncli_deref :: "'p ncli \<Rightarrow> 'p" where
  "ncli_deref it = hd (ncli_pit it)"

definition ncli_particles :: "(nat \<Rightarrow> 'p list) \<Rightarrow> bool \<Rightarrow> neighborcellinfo list \<Rightarrow> 'p list" where
  "ncli_particles parts u ns =
     concat (map (\<lambda>n. parts (nc_cell n)) (filter (\<lambda>n. u \<longrightarrow> useForAllPairs n) ns))"

definition ncli_rest :: "(nat \<Rightarrow> 'p list) \<Rightarrow> 'p ncli \<Rightarrow> 'p list" where
  "ncli_rest parts it = ncli_pit it @ ncli_particles parts (ncli_useAllPairs it) (tl (ncli_ncit it))"

definition ncli_ok :: "'p ncli \<Rightarrow> bool" where
  "ncli_ok it \<longleftrightarrow> (ncli_ncit it = [] \<longleftrightarrow> ncli_pit it = [])"

lemma ncli_particles_skip:
  "ncli_particles parts u ns = (case ncli_skip u ns of [] \<Rightarrow> []
     | m # ms \<Rightarrow> parts (nc_cell m) @ ncli_particles parts u ms)"
  by (induction ns) (auto simp: ncli_particles_def ncli_skip_def)

lemma ncli_find_spec:
  "ncit \<noteq> [] \<Longrightarrow> ncli_ok (ncli_findParticle parts u ncit pit)
    \<and> ncli_rest parts (ncli_findParticle parts u ncit pit) = pit @ ncli_particles parts u (tl ncit)"
proof (induction parts u ncit pit rule: ncli_findParticle.induct)
  case (1 parts u ncit pit)
  show ?case
  proof (cases "pit \<noteq> []")
    case True
    then show ?thesis using 1(2)
      by (subst (1 2) ncli_findParticle.simps) (simp add: ncli_ok_def ncli_rest_def)
  next
    case False
    show ?thesis
    proof (cases "ncli_skip u (tl ncit)")
      case Nil
      then show ?thesis using False 1(2) ncli_particles_skip [of parts u "tl ncit"]
        by (subst (1 2) ncli_findParticle.simps) (simp add: ncli_ok_def ncli_rest_def ncli_particles_def)
    next
      case (Cons n ns)
      have "ncli_findParticle parts u ncit pit = ncli_findParticle parts u (n # ns) (parts (nc_cell n))"
        using False 1(2) Cons by (subst ncli_findParticle.simps) simp
      then show ?thesis
        using 1(1) [of n ns] False 1(2) Cons ncli_particles_skip [of parts u "tl ncit"] by simp
    qed
  qed
qed

text \<open>
  With \<^verbatim>\<open>useAllPairs\<close> the iterator visits the particles of the neighbors whose flag is set, else
  of all neighbors: the sequence of states from \<open>ncli_new\<close> along \<open>ncli_next\<close>.
\<close>

fun ncli_take :: "nat \<Rightarrow> (nat \<Rightarrow> 'p list) \<Rightarrow> 'p ncli \<Rightarrow> 'p list" where
  "ncli_take 0 parts it = []"
| "ncli_take (Suc k) parts it =
     (if ncli_isValid it then ncli_deref it # ncli_take k parts (ncli_next parts it) else [])"

lemma ncli_take_rest: "ncli_ok it \<Longrightarrow> ncli_take k parts it = take k (ncli_rest parts it)"
proof (induction k arbitrary: it)
  case (Suc k)
  show ?case
  proof (cases "ncli_isValid it")
    case True
    then obtain p ps where p: "ncli_pit it = p # ps"
      using Suc.prems by (auto simp: ncli_ok_def ncli_isValid_def neq_Nil_conv)
    note f = ncli_find_spec [of "ncli_ncit it" parts "ncli_useAllPairs it" ps]
    have ok: "ncli_ok (ncli_next parts it)"
      using f True p by (simp add: ncli_next_def ncli_isValid_def)
    have "ncli_rest parts it = p # ncli_rest parts (ncli_next parts it)"
      using f True p by (simp add: ncli_next_def ncli_isValid_def ncli_rest_def)
    then show ?thesis using True p Suc.IH [OF ok] by (simp add: ncli_deref_def)
  next
    case False
    then show ?thesis using Suc.prems
      by (simp add: ncli_isValid_def ncli_ok_def ncli_rest_def ncli_particles_def)
  qed
qed simp

lemma ncli_visits:
  "ncli_take k parts (ncli_new parts ns u) = take k (ncli_particles parts u ns)"
proof (cases "ncli_skip u ns")
  case Nil
  then show ?thesis using ncli_particles_skip [of parts u ns]
    by (subst ncli_take_rest) (simp_all add: ncli_new_def ncli_ok_def ncli_rest_def ncli_particles_def)
next
  case (Cons m ms)
  then show ?thesis
    using ncli_particles_skip [of parts u ns] ncli_find_spec [of "m # ms" parts u "parts (nc_cell m)"]
    by (subst ncli_take_rest) (simp_all add: ncli_new_def)
qed

section \<open>All pairs of a list of cells\<close>

text \<open>
  The state of \<^verbatim>\<open>CellListAllPairsIterator\<close>; \<^verbatim>\<open>current\<close> is the pair of the particles \<open>pit\<close> and
  \<open>npit\<close> stand on.  \<open>ap_cit = []\<close> is the end of the iteration.
\<close>

record 'p allpairs =
  ap_cit :: "nat list"
  ap_inSelfLoop :: bool
  ap_pit :: "'p list"
  ap_ncit :: "neighborcellinfo list"
  ap_npit :: "'p list"

type_synonym 'p inner_state = "nat list \<times> bool \<times> 'p list \<times> neighborcellinfo list"

text \<open>The neighbor iterator after the self loop has ended, or one further; flagged neighbors are skipped.\<close>

definition ap_advance :: "(nat \<Rightarrow> neighborcellinfo list) \<Rightarrow> nat list \<Rightarrow> bool \<Rightarrow>
    neighborcellinfo list \<Rightarrow> neighborcellinfo list" where
  "ap_advance nbrs cit self ncit =
     dropWhile useForAllPairs (if self then nbrs (hd cit) else tl ncit)"

text \<open>The loop \<^verbatim>\<open>while (pit.isDone())\<close>.\<close>

function ap_inner :: "(nat \<Rightarrow> 'p list) \<Rightarrow> (nat \<Rightarrow> neighborcellinfo list) \<Rightarrow> 'p inner_state \<Rightarrow>
    'p inner_state" where
  "ap_inner parts nbrs (cit, self, pit, ncit) =
     (if pit \<noteq> [] \<or> cit = [] then (cit, self, pit, ncit)
      else case ap_advance nbrs cit self ncit of
             [] \<Rightarrow> (case tl cit of
                      [] \<Rightarrow> ([], False, [], [])
                    | c # cs \<Rightarrow> ap_inner parts nbrs (c # cs, True, parts c, []))
           | n # ns \<Rightarrow> ap_inner parts nbrs (cit, False, parts (hd cit), n # ns))"
  by pat_completeness auto

fun ap_rank :: "'p inner_state \<Rightarrow> nat \<times> nat \<times> nat" where
  "ap_rank (cit, self, pit, ncit) = (length cit, if self then 1 else 0, length ncit)"

abbreviation ap_less :: "((nat \<times> nat \<times> nat) \<times> (nat \<times> nat \<times> nat)) set" where
  "ap_less \<equiv> less_than <*lex*> less_than <*lex*> less_than"

lemma ap_advance_less:
  assumes "ap_advance nbrs cit False ncit = n # ns"
  shows "Suc (length ns) < length ncit"
proof -
  have "length (n # ns) \<le> length (tl ncit)"
    using assms length_dropWhile_le [of useForAllPairs "tl ncit"] by (simp add: ap_advance_def)
  then show ?thesis by (cases ncit) auto
qed

termination ap_inner
proof (relation "inv_image ap_less (\<lambda>(parts, nbrs, s). ap_rank s)", goal_cases)
  case 1
  then show ?case by (simp add: wf_lex_prod)
next
  case (2 parts nbrs cit self pit ncit c cs)
  then show ?case by (cases cit) auto
next
  case (3 parts nbrs cit self pit ncit n ns)
  then show ?case using ap_advance_less [of nbrs cit ncit n ns] by (cases self) auto
qed

declare ap_inner.simps [simp del]

text \<open>The loop \<^verbatim>\<open>while (npit.isDone())\<close>.\<close>

function ap_outer :: "(nat \<Rightarrow> 'p list) \<Rightarrow> (nat \<Rightarrow> neighborcellinfo list) \<Rightarrow> 'p inner_state \<Rightarrow>
    'p list \<Rightarrow> 'p allpairs" where
  "ap_outer parts nbrs (cit, self, pit, ncit) npit =
     (if npit \<noteq> [] \<or> cit = []
      then \<lparr>ap_cit = cit, ap_inSelfLoop = self, ap_pit = pit, ap_ncit = ncit, ap_npit = npit\<rparr>
      else case ap_inner parts nbrs (cit, self, tl pit, ncit) of
             (cit, self, pit, ncit) \<Rightarrow>
               if cit = []
               then \<lparr>ap_cit = [], ap_inSelfLoop = self, ap_pit = [], ap_ncit = [], ap_npit = []\<rparr>
               else ap_outer parts nbrs (cit, self, pit, ncit)
                      (if self then tl pit else parts (nc_cell (hd ncit))))"
  by pat_completeness auto

lemma ap_inner_rank:
  "ap_inner parts nbrs s = s \<or> (ap_rank (ap_inner parts nbrs s), ap_rank s) \<in> ap_less"
proof (induction parts nbrs s rule: ap_inner.induct)
  case (1 parts nbrs cit self pit ncit)
  show ?case
  proof (cases "pit \<noteq> [] \<or> cit = []")
    case True
    then show ?thesis by (subst (1) ap_inner.simps) simp
  next
    case False
    then obtain c0 cs0 where cit: "cit = c0 # cs0" by (cases cit) auto
    have tr: "trans ap_less" by (intro trans_lex_prod trans_less_than)
    show ?thesis
    proof (cases "ap_advance nbrs cit self ncit")
      case Nil
      show ?thesis
      proof (cases cs0)
        case Nil2: Nil
        have "ap_inner parts nbrs (cit, self, pit, ncit) = ([], False, [], [])"
          using False Nil Nil2 by (subst ap_inner.simps) (simp add: cit)
        then show ?thesis by (simp add: cit)
      next
        case (Cons c cs)
        let ?s' = "(c # cs, True, parts c, [])"
        have e: "ap_inner parts nbrs (cit, self, pit, ncit) = ap_inner parts nbrs ?s'"
          using False Nil Cons by (subst ap_inner.simps) (simp add: cit)
        have l: "(ap_rank ?s', ap_rank (cit, self, pit, ncit)) \<in> ap_less" by (simp add: cit Cons)
        have "ap_inner parts nbrs ?s' = ?s' \<or> (ap_rank (ap_inner parts nbrs ?s'), ap_rank ?s') \<in> ap_less"
          using 1(1) [OF False Nil, of c cs] by (simp add: cit Cons)
        then show ?thesis unfolding e using l transD [OF tr] by metis
      qed
    next
      case (Cons n ns)
      let ?s' = "(cit, False, parts (hd cit), n # ns)"
      have e: "ap_inner parts nbrs (cit, self, pit, ncit) = ap_inner parts nbrs ?s'"
        using False Cons by (subst ap_inner.simps) simp
      have l: "(ap_rank ?s', ap_rank (cit, self, pit, ncit)) \<in> ap_less"
        using ap_advance_less [of nbrs cit ncit n ns] Cons by (cases self) auto
      have "ap_inner parts nbrs ?s' = ?s' \<or> (ap_rank (ap_inner parts nbrs ?s'), ap_rank ?s') \<in> ap_less"
        using 1(2) [OF False Cons] .
      then show ?thesis unfolding e using l transD [OF tr] by metis
    qed
  qed
qed

text \<open>The pairs still to come: of the rows of the current cell, and of what follows it.\<close>

fun upairs :: "'p list \<Rightarrow> ('p \<times> 'p) list" where
  "upairs [] = []"
| "upairs (p # ps) = map (Pair p) ps @ upairs ps"

definition ap_cross :: "(nat \<Rightarrow> 'p list) \<Rightarrow> nat \<Rightarrow> neighborcellinfo list \<Rightarrow> ('p \<times> 'p) list" where
  "ap_cross parts c ns =
     concat (map (\<lambda>n. List.product (parts c) (parts (nc_cell n))) (filter (\<lambda>n. \<not> useForAllPairs n) ns))"

definition cell_pairs :: "(nat \<Rightarrow> 'p list) \<Rightarrow> (nat \<Rightarrow> neighborcellinfo list) \<Rightarrow> nat \<Rightarrow> ('p \<times> 'p) list" where
  "cell_pairs parts nbrs c = upairs (parts c) @ ap_cross parts c (nbrs c)"

definition all_pairs :: "(nat \<Rightarrow> 'p list) \<Rightarrow> (nat \<Rightarrow> neighborcellinfo list) \<Rightarrow> nat list \<Rightarrow> ('p \<times> 'p) list" where
  "all_pairs parts nbrs cl = concat (map (cell_pairs parts nbrs) cl)"

definition ap_rows :: "(nat \<Rightarrow> 'p list) \<Rightarrow> bool \<Rightarrow> 'p list \<Rightarrow> neighborcellinfo list \<Rightarrow> ('p \<times> 'p) list" where
  "ap_rows parts self pit ncit =
     (if self then upairs pit else List.product pit (parts (nc_cell (hd ncit))))"

fun ap_inner_rest :: "(nat \<Rightarrow> 'p list) \<Rightarrow> (nat \<Rightarrow> neighborcellinfo list) \<Rightarrow> 'p inner_state \<Rightarrow>
    ('p \<times> 'p) list" where
  "ap_inner_rest parts nbrs (cit, self, pit, ncit) =
     (if cit = [] then []
      else ap_rows parts self pit ncit
        @ ap_cross parts (hd cit) (if self then nbrs (hd cit) else tl ncit)
        @ all_pairs parts nbrs (tl cit))"

fun ap_inner_ok :: "'p inner_state \<Rightarrow> bool" where
  "ap_inner_ok (cit, self, pit, ncit) \<longleftrightarrow> cit = [] \<or> (pit \<noteq> [] \<and> (self \<or> ncit \<noteq> []))"

lemma ap_cross_dropWhile:
  "ap_cross parts c ns = (case dropWhile useForAllPairs ns of [] \<Rightarrow> []
     | m # ms \<Rightarrow> List.product (parts c) (parts (nc_cell m)) @ ap_cross parts c ms)"
  by (induction ns) (auto simp: ap_cross_def)

lemma ap_inner_spec:
  assumes "pit = [] \<or> self \<or> ncit \<noteq> []"
  shows "ap_inner_ok (ap_inner parts nbrs (cit, self, pit, ncit))
    \<and> ap_inner_rest parts nbrs (ap_inner parts nbrs (cit, self, pit, ncit))
      = ap_inner_rest parts nbrs (cit, self, pit, ncit)"
  using assms
proof (induction parts nbrs "(cit, self, pit, ncit)" arbitrary: cit self pit ncit rule: ap_inner.induct)
  case (1 parts nbrs cit self pit ncit)
  show ?case
  proof (cases "pit \<noteq> [] \<or> cit = []")
    case True
    then show ?thesis using 1(3) by (subst (1 2) ap_inner.simps) auto
  next
    case False
    then obtain c0 cs0 where cit: "cit = c0 # cs0" and pit: "pit = []" by (cases cit) auto
    note cr = ap_cross_dropWhile [of parts c0 "if self then nbrs (hd cit) else tl ncit",
        folded ap_advance_def]
    have rest: "ap_inner_rest parts nbrs (cit, self, pit, ncit)
        = ap_cross parts c0 (if self then nbrs (hd cit) else tl ncit) @ all_pairs parts nbrs cs0"
      by (simp add: cit pit ap_rows_def)
    show ?thesis
    proof (cases "ap_advance nbrs cit self ncit")
      case Nil
      then have r: "ap_inner_rest parts nbrs (cit, self, pit, ncit) = all_pairs parts nbrs cs0"
        using rest cr by simp
      show ?thesis
      proof (cases cs0)
        case Nil2: Nil
        have "ap_inner parts nbrs (cit, self, pit, ncit) = ([], False, [], [])"
          using False Nil Nil2 by (subst ap_inner.simps) (simp add: cit)
        then show ?thesis using r Nil2 by (simp add: all_pairs_def)
      next
        case (Cons c cs)
        let ?s' = "(c # cs, True, parts c, [])"
        have e: "ap_inner parts nbrs (cit, self, pit, ncit) = ap_inner parts nbrs ?s'"
          using False Nil Cons by (subst ap_inner.simps) (simp add: cit)
        have "ap_inner_rest parts nbrs ?s' = all_pairs parts nbrs cs0"
          by (simp add: Cons ap_rows_def all_pairs_def cell_pairs_def)
        then show ?thesis unfolding e r using 1(1) [OF False Nil, of c cs] by (simp add: cit Cons)
      qed
    next
      case (Cons n ns)
      let ?s' = "(cit, False, parts (hd cit), n # ns)"
      have e: "ap_inner parts nbrs (cit, self, pit, ncit) = ap_inner parts nbrs ?s'"
        using False Cons by (subst ap_inner.simps) simp
      have "ap_inner_rest parts nbrs ?s' = ap_inner_rest parts nbrs (cit, self, pit, ncit)"
        unfolding rest cr Cons by (simp add: cit ap_rows_def)
      then show ?thesis unfolding e using 1(2) [OF False Cons] by simp
    qed
  qed
qed

text \<open>With \<open>pit\<close> at its end the rank goes strictly down, so the outer loop ends as well.\<close>

lemma ap_inner_strict:
  assumes "ap_inner parts nbrs (cit, self, [], ncit) = (cit', self', pit', ncit')" and "cit' \<noteq> []"
  shows "(ap_rank (cit', self', pit', ncit'), ap_rank (cit, self, [], ncit)) \<in> ap_less"
proof -
  have "pit' \<noteq> []" using ap_inner_spec [of "[]" self ncit parts nbrs cit] assms by auto
  then show ?thesis using ap_inner_rank [of parts nbrs "(cit, self, [], ncit)"] assms by auto
qed

termination ap_outer
proof (relation "inv_image (ap_less <*lex*> less_than) (\<lambda>(parts, nbrs, s, npit). (ap_rank s, length (fst (snd (snd s)))))",
    goal_cases)
  case 1
  then show ?case by (simp add: wf_lex_prod)
next
  case (2 parts nbrs cit self pit ncit npit x y xa ya xb yb)
  have st: "ap_inner parts nbrs (cit, self, tl pit, ncit) = (x, xa, xb, yb)" using 2 by auto
  have nd: "x \<noteq> []" using 2 by simp
  show ?case
  proof (cases pit)
    case Nil
    then show ?thesis using ap_inner_strict [of parts nbrs cit self ncit, OF _ nd] st by simp
  next
    case (Cons p ps)
    then show ?thesis using ap_inner_rank [of parts nbrs "(cit, self, ps, ncit)"] st by auto
  qed
qed

declare ap_outer.simps [simp del]

definition ap_next :: "(nat \<Rightarrow> 'p list) \<Rightarrow> (nat \<Rightarrow> neighborcellinfo list) \<Rightarrow> 'p allpairs \<Rightarrow> 'p allpairs" where
  "ap_next parts nbrs it =
     ap_outer parts nbrs (ap_cit it, ap_inSelfLoop it, ap_pit it, ap_ncit it) (tl (ap_npit it))"

text \<open>The constructor goes to the first nonempty cell and advances once.\<close>

definition ap_new :: "(nat \<Rightarrow> 'p list) \<Rightarrow> (nat \<Rightarrow> neighborcellinfo list) \<Rightarrow> nat list \<Rightarrow> 'p allpairs" where
  "ap_new parts nbrs cl =
     (let it = (if cl = [] then \<lparr>cli_cit = [], cli_pit = []\<rparr>
                else cli_findNonemptyCell parts cl (parts (hd cl)));
          s = \<lparr>ap_cit = cli_cit it, ap_inSelfLoop = True, ap_pit = cli_pit it, ap_ncit = [],
               ap_npit = cli_pit it\<rparr>
      in if cli_cit it = [] then s else ap_next parts nbrs s)"

definition ap_isValid :: "'p allpairs \<Rightarrow> bool" where
  "ap_isValid it \<longleftrightarrow> ap_cit it \<noteq> []"

definition ap_deref :: "'p allpairs \<Rightarrow> 'p \<times> 'p" where
  "ap_deref it = (hd (ap_pit it), hd (ap_npit it))"

text \<open>
  The loop \<^verbatim>\<open>for (CellListAllPairsIterator it(cl); it.isValid(); ++it)\<close>; \<open>None\<close> would be a loop
  that does not end.
\<close>

partial_function (option) ap_collect ::
  "(nat \<Rightarrow> 'p list) \<Rightarrow> (nat \<Rightarrow> neighborcellinfo list) \<Rightarrow> 'p allpairs \<Rightarrow> ('p \<times> 'p) list option" where
  "ap_collect parts nbrs it =
     (if ap_isValid it
      then do { xs \<leftarrow> ap_collect parts nbrs (ap_next parts nbrs it); Some (ap_deref it # xs) }
      else Some [])"

definition ap_rest :: "(nat \<Rightarrow> 'p list) \<Rightarrow> (nat \<Rightarrow> neighborcellinfo list) \<Rightarrow> 'p allpairs \<Rightarrow> ('p \<times> 'p) list" where
  "ap_rest parts nbrs it =
     (if ap_cit it = [] then []
      else map (Pair (hd (ap_pit it))) (ap_npit it)
        @ ap_inner_rest parts nbrs (ap_cit it, ap_inSelfLoop it, tl (ap_pit it), ap_ncit it))"

definition ap_ok :: "'p allpairs \<Rightarrow> bool" where
  "ap_ok it \<longleftrightarrow> ap_cit it = [] \<or>
     (ap_npit it \<noteq> [] \<and> (ap_inSelfLoop it \<or> ap_ncit it \<noteq> []))"

lemma ap_rows_Cons:
  "ap_rows parts self (p # ps) ncit
    = map (Pair p) (if self then ps else parts (nc_cell (hd ncit))) @ ap_rows parts self ps ncit"
  by (simp add: ap_rows_def)

lemma ap_outer_spec:
  assumes "cit = [] \<or> self \<or> ncit \<noteq> []"
  shows "ap_ok (ap_outer parts nbrs (cit, self, pit, ncit) npit)
    \<and> ap_rest parts nbrs (ap_outer parts nbrs (cit, self, pit, ncit) npit)
      = (if cit = [] then []
         else map (Pair (hd pit)) npit @ ap_inner_rest parts nbrs (cit, self, tl pit, ncit))"
  using assms
proof (induction parts nbrs "(cit, self, pit, ncit)" npit arbitrary: cit self pit ncit rule: ap_outer.induct)
  case (1 parts nbrs cit self pit ncit npit)
  show ?case
  proof (cases "npit \<noteq> [] \<or> cit = []")
    case True
    then show ?thesis using 1(2) by (subst (1 2) ap_outer.simps) (auto simp: ap_ok_def ap_rest_def)
  next
    case False
    obtain c s p n where r: "ap_inner parts nbrs (cit, self, tl pit, ncit) = (c, s, p, n)"
      by (metis prod_cases4)
    have sp: "ap_inner_ok (c, s, p, n)"
      "ap_inner_rest parts nbrs (c, s, p, n) = ap_inner_rest parts nbrs (cit, self, tl pit, ncit)"
      using ap_inner_spec [of "tl pit" self ncit parts nbrs cit] 1(2) False r by auto
    show ?thesis
    proof (cases "c = []")
      case True
      have "ap_outer parts nbrs (cit, self, pit, ncit) npit
          = \<lparr>ap_cit = [], ap_inSelfLoop = s, ap_pit = [], ap_ncit = [], ap_npit = []\<rparr>"
        using False r True by (subst ap_outer.simps) simp
      then show ?thesis using sp(2) True False by (auto simp: ap_ok_def ap_rest_def)
    next
      case c: False
      let ?np = "if s then tl p else parts (nc_cell (hd n))"
      have e: "ap_outer parts nbrs (cit, self, pit, ncit) npit = ap_outer parts nbrs (c, s, p, n) ?np"
        using False r c by (subst ap_outer.simps) simp
      obtain q qs where p: "p = q # qs" and ok: "s \<or> n \<noteq> []" using sp(1) c by (auto simp: neq_Nil_conv)
      have "ap_inner_rest parts nbrs (c, s, p, n)
          = map (Pair (hd p)) ?np @ ap_inner_rest parts nbrs (c, s, tl p, n)"
        using c by (simp add: p ap_rows_Cons)
      then show ?thesis
        unfolding e using 1(1) [OF False r [symmetric] refl refl c] ok c sp(2) False by auto
    qed
  qed
qed

lemma ap_next_spec:
  assumes "ap_isValid it" and "ap_ok it"
  shows "ap_ok (ap_next parts nbrs it)
    \<and> ap_rest parts nbrs it = ap_deref it # ap_rest parts nbrs (ap_next parts nbrs it)"
proof -
  obtain q qs where n: "ap_npit it = q # qs"
    using assms by (auto simp: ap_ok_def ap_isValid_def neq_Nil_conv)
  have "ap_cit it = [] \<or> ap_inSelfLoop it \<or> ap_ncit it \<noteq> []" using assms by (auto simp: ap_ok_def)
  from ap_outer_spec [OF this, of parts nbrs "ap_pit it" qs] show ?thesis
    using assms(1) n by (auto simp: ap_next_def ap_isValid_def ap_rest_def ap_deref_def)
qed

lemma ap_collect_rest: "ap_ok it \<Longrightarrow> ap_collect parts nbrs it = Some (ap_rest parts nbrs it)"
proof (induction "ap_rest parts nbrs it" arbitrary: it)
  case Nil
  have "\<not> ap_isValid it" using ap_next_spec [of it parts nbrs] Nil by auto
  then show ?case using Nil by (subst ap_collect.simps) simp
next
  case (Cons x xs)
  have v: "ap_isValid it" using Cons(2) by (auto simp: ap_rest_def ap_isValid_def)
  note n = ap_next_spec [OF v Cons.prems, of parts nbrs]
  have "ap_collect parts nbrs (ap_next parts nbrs it) = Some (ap_rest parts nbrs (ap_next parts nbrs it))"
    using Cons(1) [of "ap_next parts nbrs it"] Cons(2) n by simp
  then show ?case using v n by (subst ap_collect.simps) simp
qed

lemma cell_pairs_empty: "parts c = [] \<Longrightarrow> cell_pairs parts nbrs c = []"
  by (simp add: cell_pairs_def ap_cross_def)

lemma cli_find_pairs:
  "cit \<noteq> [] \<Longrightarrow> pit = parts (hd cit) \<Longrightarrow>
    all_pairs parts nbrs (cli_cit (cli_findNonemptyCell parts cit pit)) = all_pairs parts nbrs cit
    \<and> (cli_cit (cli_findNonemptyCell parts cit pit) \<noteq> [] \<longrightarrow>
        cli_pit (cli_findNonemptyCell parts cit pit) = parts (hd (cli_cit (cli_findNonemptyCell parts cit pit)))
        \<and> cli_pit (cli_findNonemptyCell parts cit pit) \<noteq> [])"
proof (induction parts cit pit rule: cli_findNonemptyCell.induct)
  case (1 parts cit p ps)
  have "parts (hd cit) = p # ps" using 1(2) by simp
  then show ?case by simp
qed (auto simp: all_pairs_def cell_pairs_empty)

lemma all_pairs_iterator_spec:
  "ap_collect parts nbrs (ap_new parts nbrs cl) = Some (all_pairs parts nbrs cl)"
proof (cases cl)
  case Nil
  then show ?thesis by (subst ap_collect.simps) (simp add: ap_new_def ap_isValid_def all_pairs_def)
next
  case (Cons c0 cs0)
  define it where "it = cli_findNonemptyCell parts cl (parts (hd cl))"
  have ne: "cl \<noteq> []" using Cons by simp
  have new0: "ap_new parts nbrs cl
      = (let s = \<lparr>ap_cit = cli_cit it, ap_inSelfLoop = True, ap_pit = cli_pit it, ap_ncit = [],
               ap_npit = cli_pit it\<rparr>
         in if cli_cit it = [] then s else ap_next parts nbrs s)"
    using ne by (simp add: ap_new_def it_def Let_def)
  have f: "all_pairs parts nbrs (cli_cit it) = all_pairs parts nbrs cl"
    "cli_cit it \<noteq> [] \<Longrightarrow> cli_pit it = parts (hd (cli_cit it)) \<and> cli_pit it \<noteq> []"
    using cli_find_pairs [OF ne refl, of parts nbrs] unfolding it_def by blast+
  show ?thesis
  proof (cases "cli_cit it")
    case Nil
    then show ?thesis using f(1) unfolding new0
      by (subst ap_collect.simps) (simp add: ap_isValid_def all_pairs_def)
  next
    case (Cons c cs)
    obtain q qs where qs: "cli_pit it = q # qs" using f(2) Cons by (cases "cli_pit it") auto
    then have q: "parts c = q # qs" "cli_pit it = q # qs" using f(2) Cons by auto
    have new: "ap_new parts nbrs cl = ap_outer parts nbrs (c # cs, True, q # qs, []) qs"
      unfolding new0 using Cons q by (simp add: ap_next_def)
    have "ap_ok (ap_new parts nbrs cl) \<and> ap_rest parts nbrs (ap_new parts nbrs cl)
        = map (Pair q) qs @ ap_inner_rest parts nbrs (c # cs, True, qs, [])"
      using ap_outer_spec [of "c # cs" True "[]" parts nbrs "q # qs" qs] unfolding new by simp
    moreover have "map (Pair q) qs @ ap_inner_rest parts nbrs (c # cs, True, qs, [])
        = all_pairs parts nbrs cl"
      using f(1) Cons q by (simp add: ap_rows_def all_pairs_def cell_pairs_def)
    ultimately show ?thesis using ap_collect_rest [of "ap_new parts nbrs cl" parts nbrs] by simp
  qed
qed

section \<open>Property\<close>

text \<open>
  C39.  The all-pairs loop ends and visits exactly the pairs it should, each once and in this
  order: for every cell of the list the pairs \<open>i < j\<close> of its own particles, then every particle
  of the cell with every particle of each neighbor cell whose \<^verbatim>\<open>useForAllPairs\<close> flag is not set.
  In particular empty cells and empty neighbors are skipped without losing the ones after them.
\<close>

theorem all_pairs_iterator:
  "ap_collect parts nbrs (ap_new parts nbrs cl) = Some (all_pairs parts nbrs cl)"
  by (rule all_pairs_iterator_spec)

end
