(* ===== verification/VerletList.thy ===== *)
theory VerletList
  imports CellIterators Particles
begin

text \<open>
  \<^verbatim>\<open>src/src/VerletList.hpp\<close> and \<^verbatim>\<open>.cpp\<close>: the list of particle pairs within the cutoff, and the
  list of excluded pairs, which is kept equal on all processes by collecting the changes of each
  and applying them everywhere.  A particle is a pointer of type \<open>'p\<close> read with \<open>rd\<close>.  The
  \<^verbatim>\<open>ExcludeList\<close> is a set of ordered pairs; a \<^verbatim>\<open>VerletList\<close> built on a dynamic list shares its set,
  which is therefore an argument (\<open>vl_excluded\<close>).
\<close>

section \<open>DynamicExcludeList\<close>

record dynexclude =
  exList :: "(pid \<times> pid) set"
  exList_add :: "longint list"
  exList_remove :: "longint list"
  is_dirty :: bool
  dx_connected :: bool
  pairExclude :: "(pid \<times> pid) list"
  pairUnexclude :: "(pid \<times> pid) list"
  listUpdated :: nat

definition DynamicExcludeList_new :: dynexclude where
  "DynamicExcludeList_new = \<lparr>exList = {}, exList_add = [], exList_remove = [], is_dirty = False,
     dx_connected = True, pairExclude = [], pairUnexclude = [], listUpdated = 0\<rparr>"

definition dx_connect :: "dynexclude \<Rightarrow> dynexclude" where
  "dx_connect d = d\<lparr>dx_connected := True\<rparr>"

definition dx_disconnect :: "dynexclude \<Rightarrow> dynexclude" where
  "dx_disconnect d = d\<lparr>dx_connected := False\<rparr>"

definition dx_exclude :: "pid \<Rightarrow> pid \<Rightarrow> dynexclude \<Rightarrow> dynexclude" where
  "dx_exclude pid1 pid2 d =
     d\<lparr>exList_add := exList_add d @ [pid1, pid2], is_dirty := True,
       pairExclude := pairExclude d @ [(pid1, pid2)]\<rparr>"

definition dx_unexclude :: "pid \<Rightarrow> pid \<Rightarrow> dynexclude \<Rightarrow> dynexclude" where
  "dx_unexclude pid1 pid2 d =
     d\<lparr>exList_remove := exList_remove d @ [pid1, pid2], is_dirty := True,
       pairUnexclude := pairUnexclude d @ [(pid1, pid2)]\<rparr>"

text \<open>What the signals of an observed bonded list call.\<close>

definition dx_tuple_added :: "pid \<times> pid \<Rightarrow> dynexclude \<Rightarrow> dynexclude" where
  "dx_tuple_added t = (case t of (p1, p2) \<Rightarrow> dx_exclude p1 p2)"

definition dx_tuple_removed :: "pid \<times> pid \<Rightarrow> dynexclude \<Rightarrow> dynexclude" where
  "dx_tuple_removed t = (case t of (p1, p2) \<Rightarrow> dx_unexclude p1 p2)"

definition dx_triple_added :: "pid \<times> pid \<times> pid \<Rightarrow> dynexclude \<Rightarrow> dynexclude" where
  "dx_triple_added t = (case t of (p1, p2, p3) \<Rightarrow> dx_exclude p1 p3)"

definition dx_triple_removed :: "pid \<times> pid \<times> pid \<Rightarrow> dynexclude \<Rightarrow> dynexclude" where
  "dx_triple_removed t = (case t of (p1, p2, p3) \<Rightarrow> dx_unexclude p1 p3)"

definition dx_quadruple_added :: "pid \<times> pid \<times> pid \<times> pid \<Rightarrow> dynexclude \<Rightarrow> dynexclude" where
  "dx_quadruple_added t = (case t of (p1, p2, p3, p4) \<Rightarrow>
     dx_exclude p2 p4 \<circ> dx_exclude p1 p4 \<circ> dx_exclude p1 p3)"

definition dx_quadruple_removed :: "pid \<times> pid \<times> pid \<times> pid \<Rightarrow> dynexclude \<Rightarrow> dynexclude" where
  "dx_quadruple_removed t = (case t of (p1, p2, p3, p4) \<Rightarrow>
     dx_unexclude p2 p4 \<circ> dx_unexclude p1 p4 \<circ> dx_unexclude p1 p3)"

definition dx_getList :: "dynexclude \<Rightarrow> (pid \<times> pid) set" where
  "dx_getList d = exList d"

definition dx_getSize :: "dynexclude \<Rightarrow> nat" where
  "dx_getSize d = card (exList d)"

text \<open>The vector a process contributes to the \<^verbatim>\<open>all_gather\<close>.\<close>

definition dx_out_buffer :: "dynexclude \<Rightarrow> longint list" where
  "dx_out_buffer d =
     [int (length (exList_remove d)) div 2, int (length (exList_add d)) div 2]
     @ exList_remove d @ exList_add d"

definition ex_erase :: "pid \<Rightarrow> pid \<Rightarrow> (pid \<times> pid) set \<Rightarrow> (pid \<times> pid) set" where
  "ex_erase f1 f2 ex = ex - {(f1, f2)} - {(f2, f1)}"

definition ex_insert :: "pid \<Rightarrow> pid \<Rightarrow> (pid \<times> pid) set \<Rightarrow> (pid \<times> pid) set" where
  "ex_insert f1 f2 ex = insert (f2, f1) (insert (f1, f2) ex)"

text \<open>The two inner loops; \<open>None\<close> is a read past the end of the vector.\<close>

fun dx_read_remove :: "nat \<Rightarrow> longint list \<Rightarrow> dynexclude \<Rightarrow> (longint list \<times> dynexclude) option" where
  "dx_read_remove 0 itm d = Some (itm, d)"
| "dx_read_remove (Suc n) (f1 # f2 # itm) d =
     dx_read_remove n itm (d\<lparr>exList := ex_erase f1 f2 (exList d),
                              pairUnexclude := pairUnexclude d @ [(f1, f2)]\<rparr>)"
| "dx_read_remove (Suc n) _ d = None"

fun dx_read_add :: "nat \<Rightarrow> longint list \<Rightarrow> dynexclude \<Rightarrow> (longint list \<times> dynexclude) option" where
  "dx_read_add 0 itm d = Some (itm, d)"
| "dx_read_add (Suc n) (f1 # f2 # itm) d =
     dx_read_add n itm (d\<lparr>exList := ex_insert f1 f2 (exList d),
                           pairExclude := pairExclude d @ [(f1, f2)]\<rparr>)"
| "dx_read_add (Suc n) _ d = None"

lemma dx_read_remove_length: "dx_read_remove n xs d = Some (ys, d') \<Longrightarrow> length ys \<le> length xs"
  by (induction n xs d rule: dx_read_remove.induct) auto

lemma dx_read_add_length: "dx_read_add n xs d = Some (ys, d') \<Longrightarrow> length ys \<le> length xs"
  by (induction n xs d rule: dx_read_add.induct) auto

function dx_read_vector :: "longint list \<Rightarrow> dynexclude \<Rightarrow> dynexclude option" where
  "dx_read_vector [] d = Some d"
| "dx_read_vector [x] d = None"
| "dx_read_vector (remove_size # add_size # itm) d =
     (case dx_read_remove (nat remove_size) itm d of None \<Rightarrow> None
      | Some (itm, d) \<Rightarrow>
          (case dx_read_add (nat add_size) itm d of None \<Rightarrow> None
           | Some (itm, d) \<Rightarrow> dx_read_vector itm d))"
  by pat_completeness auto
termination
  by (relation "measure (\<lambda>(itm, d). length itm)")
    (auto dest!: dx_read_remove_length dx_read_add_length)

fun dx_read_all :: "longint list list \<Rightarrow> dynexclude \<Rightarrow> dynexclude option" where
  "dx_read_all [] d = Some d"
| "dx_read_all (v # vs) d = (case dx_read_vector v d of None \<Rightarrow> None | Some d \<Rightarrow> dx_read_all vs d)"

text \<open>\<open>global_is_dirty\<close> and \<open>in_buffer\<close> are the results of the two collective operations.\<close>

definition dx_updateList :: "bool \<Rightarrow> longint list list \<Rightarrow> dynexclude \<Rightarrow> dynexclude option" where
  "dx_updateList global_is_dirty in_buffer d =
     (if \<not> global_is_dirty then Some d
      else case dx_read_all in_buffer d of None \<Rightarrow> None
           | Some d \<Rightarrow> Some (d\<lparr>exList_remove := [], exList_add := [], is_dirty := False,
                               listUpdated := listUpdated d + 1\<rparr>))"

text \<open>All processes together.\<close>

definition dx_updateAll :: "dynexclude list \<Rightarrow> dynexclude list option" where
  "dx_updateAll ds =
     (let global_is_dirty = list_ex is_dirty ds; in_buffer = map dx_out_buffer ds
      in those (map (dx_updateList global_is_dirty in_buffer) ds))"

section \<open>VerletList\<close>

record 'p verletlist =
  vlPairs :: "('p \<times> 'p) list"
  cut :: real
  cutVerlet :: real
  cutsq :: real
  builds :: int
  vl_exList :: "(pid \<times> pid) set"
  isDynamicExList :: bool
  connectionResort :: bool

datatype vl_error = NoStorage

definition vl_excluded :: "dynexclude \<Rightarrow> 'p verletlist \<Rightarrow> (pid \<times> pid) set" where
  "vl_excluded d vl = (if isDynamicExList vl then exList d else vl_exList vl)"

definition getVerletCutoff :: "'p verletlist \<Rightarrow> real" where
  "getVerletCutoff vl = cutVerlet vl"

definition setVerletCutoff :: "real \<Rightarrow> real \<Rightarrow> 'p verletlist \<Rightarrow> 'p verletlist" where
  "setVerletCutoff skin c vl =
     (let vl = vl\<lparr>cut := c\<rparr>; vl = vl\<lparr>cutVerlet := cut vl + skin\<rparr>
      in vl\<lparr>cutsq := cutVerlet vl * cutVerlet vl\<rparr>)"

definition vl_connect :: "'p verletlist \<Rightarrow> 'p verletlist" where
  "vl_connect vl = vl\<lparr>connectionResort := True\<rparr>"

definition vl_disconnect :: "'p verletlist \<Rightarrow> 'p verletlist" where
  "vl_disconnect vl = vl\<lparr>connectionResort := False\<rparr>"

text \<open>The destructor disconnects only what is not connected.\<close>

definition VerletList_delete :: "'p verletlist \<Rightarrow> 'p verletlist" where
  "VerletList_delete vl = (if \<not> connectionResort vl then vl_disconnect vl else vl)"

definition vl_checkPair :: "('p \<Rightarrow> particle) \<Rightarrow> (pid \<times> pid) set \<Rightarrow> 'p \<times> 'p \<Rightarrow> 'p verletlist \<Rightarrow>
    'p verletlist" where
  "vl_checkPair rd ex pp vl =
     (let pt1 = rd (fst pp); pt2 = rd (snd pp);
          d = p_pos pt1 - p_pos pt2;
          distsq = real3d_sqr d
      in if distsq > cutsq vl then vl
         else if (p_id pt1, p_id pt2) \<in> ex then vl
         else vl\<lparr>vlPairs := vlPairs vl @ [pp]\<rparr>)"

definition vl_rebuild :: "real \<Rightarrow> ('p \<Rightarrow> particle) \<Rightarrow> (nat \<Rightarrow> 'p list) \<Rightarrow> (nat \<Rightarrow> neighborcellinfo list) \<Rightarrow>
    nat list \<Rightarrow> (pid \<times> pid) set \<Rightarrow> 'p verletlist \<Rightarrow> 'p verletlist option" where
  "vl_rebuild skin rd parts nbrs realCells ex vl =
     (let vl = vl\<lparr>cutVerlet := cut vl + skin\<rparr>;
          vl = vl\<lparr>cutsq := cutVerlet vl * cutVerlet vl, vlPairs := []\<rparr>
      in do { ps \<leftarrow> ap_collect parts nbrs (ap_new parts nbrs realCells);
              let vl = fold (vl_checkPair rd ex) ps vl;
              Some (vl\<lparr>builds := builds vl + 1\<rparr>) })"

text \<open>The constructors; \<open>dyn\<close> tells which one, \<open>rebuilt\<close> is what \<^verbatim>\<open>rebuild()\<close> makes of the object.\<close>

definition VerletList_new :: "bool \<Rightarrow> bool \<Rightarrow> real \<Rightarrow> real \<Rightarrow> bool \<Rightarrow>
    ('p verletlist \<Rightarrow> 'p verletlist option) \<Rightarrow> (vl_error + 'p verletlist) option" where
  "VerletList_new hasStorage dyn skin c rebuildVL rebuild =
     (if \<not> hasStorage then Some (Inl NoStorage)
      else let vl = \<lparr>vlPairs = [], cut = c, cutVerlet = c + skin, cutsq = (c + skin) * (c + skin),
                     builds = 0, vl_exList = {}, isDynamicExList = dyn, connectionResort = False\<rparr>
           in do { vl \<leftarrow> (if rebuildVL then rebuild vl else Some vl); Some (Inr (vl_connect vl)) })"

definition vl_exclude :: "pid \<Rightarrow> pid \<Rightarrow> dynexclude \<Rightarrow> 'p verletlist \<Rightarrow> dynexclude \<times> 'p verletlist" where
  "vl_exclude pid1 pid2 d vl =
     (if isDynamicExList vl then (dx_exclude pid1 pid2 d, vl)
      else (d, vl\<lparr>vl_exList := ex_insert pid1 pid2 (vl_exList vl)\<rparr>))"

definition vl_unexclude :: "pid \<Rightarrow> pid \<Rightarrow> dynexclude \<Rightarrow> 'p verletlist \<Rightarrow> dynexclude \<times> 'p verletlist" where
  "vl_unexclude pid1 pid2 d vl =
     (if isDynamicExList vl then (dx_unexclude pid1 pid2 d, vl)
      else (d, vl\<lparr>vl_exList := ex_erase pid1 pid2 (vl_exList vl)\<rparr>))"

definition excludeListSize :: "dynexclude \<Rightarrow> 'p verletlist \<Rightarrow> nat" where
  "excludeListSize d vl = card (vl_excluded d vl)"

definition vl_localSize :: "'p verletlist \<Rightarrow> int" where
  "vl_localSize vl = int (length (vlPairs vl))"

definition vl_totalSize :: "int \<Rightarrow> 'p verletlist \<Rightarrow> int" where
  "vl_totalSize oth vl = vl_localSize vl + oth"

text \<open>An index out of range gives the empty tuple.\<close>

definition getPair :: "('p \<Rightarrow> particle) \<Rightarrow> int \<Rightarrow> 'p verletlist \<Rightarrow> (pid \<times> pid) option" where
  "getPair rd i vl =
     (if i \<le> 0 \<or> i > int (length (vlPairs vl)) then None
      else let pp = vlPairs vl ! nat (i - 1) in Some (p_id (rd (fst pp)), p_id (rd (snd pp))))"

section \<open>Collecting the exclusions\<close>

fun pairs_of :: "longint list \<Rightarrow> (pid \<times> pid) list" where
  "pairs_of (a # b # xs) = (a, b) # pairs_of xs"
| "pairs_of _ = []"

definition sym_pairs :: "(pid \<times> pid) list \<Rightarrow> (pid \<times> pid) set" where
  "sym_pairs ps = set ps \<union> (set ps)\<inverse>"

text \<open>The change one process announces: its removals, then its additions.\<close>

definition ex_update :: "dynexclude \<Rightarrow> (pid \<times> pid) set \<Rightarrow> (pid \<times> pid) set" where
  "ex_update d ex = (ex - sym_pairs (pairs_of (exList_remove d))) \<union> sym_pairs (pairs_of (exList_add d))"

definition dx_ok :: "dynexclude \<Rightarrow> bool" where
  "dx_ok d \<longleftrightarrow> even (length (exList_remove d)) \<and> even (length (exList_add d))
     \<and> (is_dirty d \<longleftrightarrow> exList_remove d \<noteq> [] \<or> exList_add d \<noteq> [])"

lemma length_pairs_of: "length (pairs_of xs) = length xs div 2"
  by (induction xs rule: pairs_of.induct) auto

lemma sym_pairs_simps [simp]:
  "sym_pairs [] = {}" "sym_pairs ((a, b) # ps) = insert (a, b) (insert (b, a) (sym_pairs ps))"
  by (auto simp: sym_pairs_def)

lemma ex_erase_Diff: "ex_erase a b ex - S = ex - insert (a, b) (insert (b, a) S)"
  by (auto simp: ex_erase_def)

lemma dx_read_remove_spec:
  "even (length xs) \<Longrightarrow> dx_read_remove (length xs div 2) (xs @ rest) d
    = Some (rest, d\<lparr>exList := exList d - sym_pairs (pairs_of xs),
                     pairUnexclude := pairUnexclude d @ pairs_of xs\<rparr>)"
  by (induction xs arbitrary: d rule: pairs_of.induct) (simp_all add: ex_erase_Diff)

lemma dx_read_add_spec:
  "even (length xs) \<Longrightarrow> dx_read_add (length xs div 2) (xs @ rest) d
    = Some (rest, d\<lparr>exList := exList d \<union> sym_pairs (pairs_of xs),
                     pairExclude := pairExclude d @ pairs_of xs\<rparr>)"
  by (induction xs arbitrary: d rule: pairs_of.induct) (auto simp: ex_insert_def insert_commute)

lemma dx_read_vector_spec:
  assumes "dx_ok e"
  shows "\<exists>d'. dx_read_vector (dx_out_buffer e) d = Some d' \<and> exList d' = ex_update e (exList d)
    \<and> listUpdated d' = listUpdated d"
proof -
  have ev: "even (length (exList_remove e))" "even (length (exList_add e))"
    using assms by (simp_all add: dx_ok_def)
  have n: "nat (int m div 2) = m div 2" for m by (simp add: nat_div_distrib)
  show ?thesis
    using dx_read_remove_spec [OF ev(1), of "exList_add e"] dx_read_add_spec [OF ev(2), of "[]"]
    by (simp add: dx_out_buffer_def n ex_update_def)
qed

lemma dx_read_all_spec:
  "\<forall>e\<in>set es. dx_ok e \<Longrightarrow> \<exists>d'. dx_read_all (map dx_out_buffer es) d = Some d'
    \<and> exList d' = fold ex_update es (exList d)"
proof (induction es arbitrary: d)
  case (Cons e es)
  obtain d1 where d1: "dx_read_vector (dx_out_buffer e) d = Some d1" "exList d1 = ex_update e (exList d)"
    using dx_read_vector_spec [of e d] Cons.prems by auto
  then show ?case using Cons.IH [of d1] Cons.prems by auto
qed simp

lemma ex_update_idle:
  "dx_ok d \<Longrightarrow> \<not> is_dirty d \<Longrightarrow> ex_update d ex = ex"
  by (simp add: dx_ok_def ex_update_def)

lemma fold_ex_update_idle:
  "\<forall>d\<in>set ds. dx_ok d \<and> \<not> is_dirty d \<Longrightarrow> fold ex_update ds ex = ex"
  by (induction ds arbitrary: ex) (auto simp: ex_update_idle)

definition dx_idle :: "dynexclude \<Rightarrow> bool" where
  "dx_idle d \<longleftrightarrow> exList_remove d = [] \<and> exList_add d = [] \<and> \<not> is_dirty d"

lemma dx_updateList_spec:
  assumes "\<forall>e\<in>set ds. dx_ok e" and "d \<in> set ds"
  shows "\<exists>d'. dx_updateList (list_ex is_dirty ds) (map dx_out_buffer ds) d = Some d'
    \<and> exList d' = fold ex_update ds (exList d) \<and> dx_idle d'"
proof (cases "list_ex is_dirty ds")
  case True
  obtain d' where "dx_read_all (map dx_out_buffer ds) d = Some d'"
      "exList d' = fold ex_update ds (exList d)"
    using dx_read_all_spec [OF assms(1)] by blast
  then show ?thesis using True by (simp add: dx_updateList_def dx_idle_def)
next
  case False
  then have n: "\<forall>e\<in>set ds. dx_ok e \<and> \<not> is_dirty e" using assms(1) by (auto simp: list_ex_iff)
  then show ?thesis
    using False fold_ex_update_idle [OF n] assms by (auto simp: dx_updateList_def dx_idle_def dx_ok_def)
qed

lemma those_map_Some:
  "\<forall>x\<in>set xs. \<exists>y. f x = Some y \<and> P y \<Longrightarrow> \<exists>ys. those (map f xs) = Some ys \<and> length ys = length xs
    \<and> (\<forall>y\<in>set ys. P y)"
  by (induction xs) auto

lemma dx_ops_ok [intro]:
  "dx_ok DynamicExcludeList_new" "dx_ok d \<Longrightarrow> dx_ok (dx_exclude a b d)" "dx_ok d \<Longrightarrow> dx_ok (dx_unexclude a b d)"
  by (simp_all add: dx_ok_def DynamicExcludeList_new_def dx_exclude_def dx_unexclude_def)

section \<open>Rebuilding the pair list\<close>

definition vl_keep :: "('p \<Rightarrow> particle) \<Rightarrow> (pid \<times> pid) set \<Rightarrow> real \<Rightarrow> 'p \<times> 'p \<Rightarrow> bool" where
  "vl_keep rd ex c2 pp \<longleftrightarrow> real3d_sqr (p_pos (rd (fst pp)) - p_pos (rd (snd pp))) \<le> c2
     \<and> (p_id (rd (fst pp)), p_id (rd (snd pp))) \<notin> ex"

lemma vl_checkPair_eq:
  "vl_checkPair rd ex pp vl =
     (if vl_keep rd ex (cutsq vl) pp then vl\<lparr>vlPairs := vlPairs vl @ [pp]\<rparr> else vl)"
  by (auto simp: vl_checkPair_def vl_keep_def Let_def)

lemma vl_check_fold:
  "fold (vl_checkPair rd ex) ps vl = vl\<lparr>vlPairs := vlPairs vl @ filter (vl_keep rd ex (cutsq vl)) ps\<rparr>"
  by (induction ps arbitrary: vl) (simp_all add: vl_checkPair_eq)

section \<open>Properties\<close>

text \<open>
  The exclusion list is the same on all processes.  If it is before \<^verbatim>\<open>updateList\<close> is called
  together, then every process can parse what the others send, all end with the same set, the
  old one changed by every process's removals and additions in the order of the ranks, nothing
  is pending afterwards, and a pair stays excluded in both directions or in none.
\<close>

theorem exclude_update_collective:
  assumes ok: "\<forall>d\<in>set ds. dx_ok d \<and> exList d = E"
  shows "\<exists>ds'. dx_updateAll ds = Some ds' \<and> length ds' = length ds
    \<and> (\<forall>d'\<in>set ds'. exList d' = fold ex_update ds E \<and> dx_idle d' \<and> dx_ok d')
    \<and> (sym E \<longrightarrow> sym (fold ex_update ds E))"
proof -
  have "\<exists>ds'. those (map (dx_updateList (list_ex is_dirty ds) (map dx_out_buffer ds)) ds) = Some ds'
    \<and> length ds' = length ds \<and> (\<forall>d'\<in>set ds'. exList d' = fold ex_update ds E \<and> dx_idle d')"
    by (rule those_map_Some) (use dx_updateList_spec [of ds] ok in auto)
  moreover have "sym (fold ex_update es ex)" if "sym ex" for es ex
    using that
  proof (induction es arbitrary: ex)
    case (Cons e es)
    have "sym (ex_update e ex)"
      using Cons.prems unfolding ex_update_def sym_pairs_def sym_conv_converse_eq
      by (auto simp: converse_Un)
    then show ?case by (simp add: Cons.IH)
  qed simp
  ultimately show ?thesis by (auto simp: dx_updateAll_def dx_idle_def dx_ok_def)
qed

theorem exclude_update_collective_witness:
  "\<exists>ds'. dx_updateAll [dx_exclude 1 2 DynamicExcludeList_new, DynamicExcludeList_new] = Some ds'
    \<and> (\<forall>d'\<in>set ds'. exList d' = {(1, 2), (2, 1)})"
proof -
  let ?ds = "[dx_exclude 1 2 DynamicExcludeList_new, DynamicExcludeList_new]"
  have "\<forall>d\<in>set ?ds. dx_ok d \<and> exList d = {}"
    by (simp add: dx_ok_def dx_exclude_def DynamicExcludeList_new_def)
  moreover have "fold ex_update ?ds {} = {(1, 2), (2, 1)}"
    by (auto simp: ex_update_def dx_exclude_def DynamicExcludeList_new_def)
  ultimately show ?thesis using exclude_update_collective [of ?ds "{}"] by auto
qed

text \<open>
  Between two updates the order of the calls on one process is lost: whether a pair is
  excluded and then included again, or the other way round, \<^verbatim>\<open>updateList\<close> applies the removals
  first, so the pair is excluded afterwards in both cases.
\<close>

theorem exclude_order_lost:
  assumes "dx_ok d" and "dx_idle d"
  shows "(\<exists>d'. dx_updateAll [dx_unexclude a b (dx_exclude a b d)] = Some [d'] \<and> (a, b) \<in> exList d')
    \<and> (\<exists>d'. dx_updateAll [dx_exclude a b (dx_unexclude a b d)] = Some [d'] \<and> (a, b) \<in> exList d')"
proof -
  have up: "\<exists>d'. dx_updateAll [e] = Some [d'] \<and> exList d' = ex_update e (exList e)" if "dx_ok e" for e
    using dx_updateList_spec [of "[e]" e] that by (auto simp: dx_updateAll_def)
  have "exList_remove (dx_unexclude a b (dx_exclude a b d)) = [a, b]"
    "exList_add (dx_unexclude a b (dx_exclude a b d)) = [a, b]"
    "exList_add (dx_exclude a b (dx_unexclude a b d)) = [a, b]"
    using assms(2) by (simp_all add: dx_idle_def dx_exclude_def dx_unexclude_def)
  then have "(a, b) \<in> ex_update (dx_unexclude a b (dx_exclude a b d)) X"
    "(a, b) \<in> ex_update (dx_exclude a b (dx_unexclude a b d)) X" for X
    by (simp_all add: ex_update_def)
  then show ?thesis
    using up [of "dx_unexclude a b (dx_exclude a b d)"] up [of "dx_exclude a b (dx_unexclude a b d)"]
      assms(1) by blast
qed

theorem exclude_order_lost_witness:
  "\<exists>d'. dx_updateAll [dx_unexclude 3 4 (dx_exclude 3 4 DynamicExcludeList_new)] = Some [d']
    \<and> (3, 4) \<in> exList d'"
  using exclude_order_lost [of DynamicExcludeList_new 3 4] dx_ops_ok(1)
  by (simp add: dx_idle_def DynamicExcludeList_new_def)

text \<open>
  C40.  \<^verbatim>\<open>VerletList::rebuild\<close> ends, and the list is exactly the pairs the all-pairs loop visits
  over the real cells whose squared distance is at most the square of cutoff plus skin and whose
  ids are not excluded, in the order of the loop; the cutoffs are those of the current skin and
  the number of builds goes up by one.
\<close>

theorem verlet_rebuild:
  "\<exists>vl'. vl_rebuild skin rd parts nbrs realCells ex vl = Some vl'
    \<and> vlPairs vl' = filter (vl_keep rd ex ((cut vl + skin) * (cut vl + skin))) (all_pairs parts nbrs realCells)
    \<and> cutVerlet vl' = cut vl + skin \<and> cutsq vl' = cutVerlet vl' * cutVerlet vl'
    \<and> builds vl' = builds vl + 1 \<and> cut vl' = cut vl"
  by (simp add: vl_rebuild_def all_pairs_iterator_spec vl_check_fold Let_def)

end
