(* ===== verification/Grid.thy ===== *)
theory Grid
  imports Vectors
begin

text \<open>
  \<^verbatim>\<open>src/src/esutil/Grid.hpp\<close>: a regular grid and the linear index of its cells.  Both the
  cell grid and the node grid of the domain decomposition extend it.
  \<open>mapPositionToIndex\<close> is the exact integer, \<open>mapPositionToIndex32\<close> the same expression
  evaluated in 32-bit arithmetic where every overflow is \<open>None\<close>.
\<close>

record grid =
  gsize :: int3d

definition Grid_new :: "int \<Rightarrow> int \<Rightarrow> int \<Rightarrow> grid" where
  "Grid_new x y z = \<lparr>gsize = V3 x y z\<rparr>"

definition Grid_of_Int3D :: "int3d \<Rightarrow> grid" where
  "Grid_of_Int3D s = \<lparr>gsize = V3 (vnth s 0) (vnth s 1) (vnth s 2)\<rparr>"

definition getGridSize :: "'a grid_scheme \<Rightarrow> nat \<Rightarrow> int" where
  "getGridSize g i = vnth (gsize g) i"

definition getNumberOfCells :: "'a grid_scheme \<Rightarrow> int" where
  "getNumberOfCells g = vx (gsize g) * vy (gsize g) * vz (gsize g)"

definition mapPositionToIndex :: "'a grid_scheme \<Rightarrow> int \<Rightarrow> int \<Rightarrow> int \<Rightarrow> int" where
  "mapPositionToIndex g p1 p2 p3 = p1 + vx (gsize g) * (p2 + vy (gsize g) * p3)"

definition mapPositionToIndexV :: "'a grid_scheme \<Rightarrow> int3d \<Rightarrow> int" where
  "mapPositionToIndexV g p = mapPositionToIndex g (vx p) (vy p) (vz p)"

definition mapIndexToPosition :: "'a grid_scheme \<Rightarrow> int \<Rightarrow> int3d" where
  "mapIndexToPosition g index =
     (let p1 = c_mod index (vx (gsize g)); index = c_div index (vx (gsize g));
          p2 = c_mod index (vy (gsize g)); index = c_div index (vy (gsize g))
      in V3 p1 p2 index)"

definition mul_int :: "int \<Rightarrow> int \<Rightarrow> int option" where
  "mul_int a b = (if fits_int (a * b) then Some (a * b) else None)"

text \<open>\<^verbatim>\<open>getNumberOfCells\<close> as the 32-bit product the code computes, \<open>None\<close> when it overflows.\<close>

definition getNumberOfCells32 :: "'a grid_scheme \<Rightarrow> int option" where
  "getNumberOfCells32 g = do { res \<leftarrow> mul_int (vx (gsize g)) (vy (gsize g)); mul_int res (vz (gsize g)) }"

definition mapPositionToIndex32 :: "'a grid_scheme \<Rightarrow> int \<Rightarrow> int \<Rightarrow> int \<Rightarrow> int option" where
  "mapPositionToIndex32 g p1 p2 p3 =
     do { a \<leftarrow> mul_int (vy (gsize g)) p3;
          b \<leftarrow> add_int p2 a;
          c \<leftarrow> mul_int (vx (gsize g)) b;
          add_int p1 c }"

text \<open>A position inside the grid, and a grid with positive edges.\<close>

definition in_grid :: "'a grid_scheme \<Rightarrow> int3d \<Rightarrow> bool" where
  "in_grid g p \<longleftrightarrow> 0 \<le> vx p \<and> vx p < vx (gsize g) \<and> 0 \<le> vy p \<and> vy p < vy (gsize g)
     \<and> 0 \<le> vz p \<and> vz p < vz (gsize g)"

definition grid_ok :: "'a grid_scheme \<Rightarrow> bool" where
  "grid_ok g \<longleftrightarrow> vall (\<lambda>s. 0 < s) (gsize g)"

lemma getNumberOfCells32_Some: "getNumberOfCells32 g = Some n \<Longrightarrow> n = getNumberOfCells g \<and> n \<le> INT_MAX"
  by (auto simp: getNumberOfCells32_def getNumberOfCells_def mul_int_def fits_int_def bind_eq_Some_conv split: if_splits)

text \<open>With positive edges nothing but a product beyond \<^verbatim>\<open>INT_MAX\<close> overflows.\<close>

lemma getNumberOfCells32_iff:
  assumes "grid_ok g"
  shows "getNumberOfCells32 g = (if getNumberOfCells g \<le> INT_MAX then Some (getNumberOfCells g) else None)"
proof -
  let ?a = "vx (gsize g) * vy (gsize g)" and ?n = "getNumberOfCells g"
  have p: "0 < ?a" "0 < vz (gsize g)" using assms by (auto simp: grid_ok_def vall_def)
  then have "0 < ?n" by (simp add: getNumberOfCells_def)
  moreover have "?a * 1 \<le> ?a * vz (gsize g)" using p by (intro mult_left_mono) auto
  then have "?a \<le> ?n" by (simp add: getNumberOfCells_def)
  ultimately show ?thesis
    using p(1) by (auto simp: getNumberOfCells32_def mul_int_def fits_int_def INT_MIN_def getNumberOfCells_def)
qed

section \<open>Mixed-radix arithmetic\<close>

lemma radix_less:
  fixes a b n m :: int
  assumes "0 \<le> a" "a < n" "0 \<le> b" "b < m"
  shows "0 \<le> a + n * b \<and> a + n * b < n * m"
proof -
  from assms have "n * b \<le> n * (m - 1)" by (intro mult_left_mono) auto
  with assms show ?thesis by (simp add: algebra_simps add_strict_increasing2)
qed

lemma radix_div_mod:
  fixes a b n :: int
  assumes "0 \<le> a" "a < n"
  shows "(a + n * b) mod n = a" "(a + n * b) div n = b"
  using assms by (simp_all add: div_pos_pos_trivial)

lemma index_bounds:
  assumes "in_grid g p"
  shows "0 \<le> mapPositionToIndexV g p \<and> mapPositionToIndexV g p < getNumberOfCells g"
proof -
  have "0 \<le> vy p + vy (gsize g) * vz p \<and>
      vy p + vy (gsize g) * vz p < vy (gsize g) * vz (gsize g)"
    using assms by (intro radix_less) (auto simp: in_grid_def)
  then show ?thesis
    using assms radix_less [of "vx p" "vx (gsize g)" "vy p + vy (gsize g) * vz p"]
    by (simp add: in_grid_def mapPositionToIndexV_def mapPositionToIndex_def
        getNumberOfCells_def mult.assoc)
qed

lemma mapIndexToPosition_eq:
  assumes "grid_ok g" "0 \<le> i"
  shows "mapIndexToPosition g i =
    V3 (i mod vx (gsize g)) (i div vx (gsize g) mod vy (gsize g))
       (i div vx (gsize g) div vy (gsize g))"
proof -
  have "0 \<le> i div vx (gsize g)"
    using assms by (simp add: grid_ok_def vall_def pos_imp_zdiv_nonneg_iff)
  with assms show ?thesis
    by (simp add: mapIndexToPosition_def Let_def grid_ok_def vall_def c_div_nonneg c_mod_nonneg)
qed

lemma in_grid_ok: "in_grid g p \<Longrightarrow> grid_ok g"
  by (auto simp: in_grid_def grid_ok_def vall_def)

lemma index_position_inverse:
  assumes "in_grid g p"
  shows "mapIndexToPosition g (mapPositionToIndexV g p) = p"
proof -
  let ?q = "vy p + vy (gsize g) * vz p"
  have i: "mapPositionToIndexV g p = vx p + vx (gsize g) * ?q"
    by (simp add: mapPositionToIndexV_def mapPositionToIndex_def)
  have "mapIndexToPosition g (vx p + vx (gsize g) * ?q)
      = V3 (vx p) (?q mod vy (gsize g)) (?q div vy (gsize g))"
    using mapIndexToPosition_eq [OF in_grid_ok [OF assms]] index_bounds [OF assms] i assms
      radix_div_mod [of "vx p" "vx (gsize g)" ?q]
    by (simp add: in_grid_def)
  also have "\<dots> = p"
    using assms radix_div_mod [of "vy p" "vy (gsize g)" "vz p"]
    by (simp add: in_grid_def vec_eq_iff)
  finally show ?thesis using i by simp
qed

lemma position_index_inverse:
  assumes ok: "grid_ok g" and i: "0 \<le> i" "i < getNumberOfCells g"
  shows "in_grid g (mapIndexToPosition g i)"
    and "mapPositionToIndexV g (mapIndexToPosition g i) = i"
proof -
  let ?s1 = "vx (gsize g)" and ?s2 = "vy (gsize g)" and ?s3 = "vz (gsize g)"
  have pos: "0 < ?s1" "0 < ?s2" using ok by (auto simp: grid_ok_def vall_def)
  have "i div ?s1 < ?s2 * ?s3"
    using i pos by (rule_tac int_div_less) (simp_all add: getNumberOfCells_def mult.assoc)
  then have "i div ?s1 div ?s2 < ?s3"
    using pos by (rule_tac int_div_less) simp_all
  then show "in_grid g (mapIndexToPosition g i)"
    using ok i pos
    by (simp add: mapIndexToPosition_eq in_grid_def pos_imp_zdiv_nonneg_iff)
  show "mapPositionToIndexV g (mapIndexToPosition g i) = i"
    using ok i
    by (simp add: mapIndexToPosition_eq mapPositionToIndexV_def mapPositionToIndex_def
        mult.commute [of _ "_ div _"])
qed

lemma mapPositionToIndexV_inj:
  "in_grid g p \<Longrightarrow> in_grid g q \<Longrightarrow> mapPositionToIndexV g p = mapPositionToIndexV g q \<Longrightarrow> p = q"
  by (metis index_position_inverse)

section \<open>Properties\<close>

text \<open>
  The linear index is a bijection between the positions of the grid and
  \<open>0 .. getNumberOfCells - 1\<close>: an index computed by \<^verbatim>\<open>mapPositionToIndex\<close> lies in that range and
  \<^verbatim>\<open>mapIndexToPosition\<close> recovers the position, and conversely every index of the range comes
  from the position \<^verbatim>\<open>mapIndexToPosition\<close> gives, which lies inside the grid.
\<close>

theorem grid_index_bijection:
  assumes "grid_ok g"
  shows "bij_betw (mapPositionToIndexV g) {p. in_grid g p} {0..<getNumberOfCells g}
    \<and> (\<forall>p. in_grid g p \<longrightarrow> mapIndexToPosition g (mapPositionToIndexV g p) = p)
    \<and> (\<forall>i. 0 \<le> i \<and> i < getNumberOfCells g \<longrightarrow>
          mapPositionToIndexV g (mapIndexToPosition g i) = i)"
proof (intro conjI)
  show "bij_betw (mapPositionToIndexV g) {p. in_grid g p} {0..<getNumberOfCells g}"
    using index_position_inverse [of g] position_index_inverse [OF assms] index_bounds [of g]
    by (intro bij_betw_byWitness [where f' = "mapIndexToPosition g"]) auto
qed (auto simp: index_position_inverse position_index_inverse [OF assms])

theorem grid_index_bijection_witness:
  "mapIndexToPosition (Grid_new 2 3 4) (mapPositionToIndexV (Grid_new 2 3 4) (V3 1 2 3)) = V3 1 2 3"
proof -
  have "grid_ok (Grid_new 2 3 4)" by (simp add: grid_ok_def vall_def Grid_new_def)
  moreover have "in_grid (Grid_new 2 3 4) (V3 1 2 3)" by (simp add: in_grid_def Grid_new_def)
  ultimately show ?thesis using grid_index_bijection [of "Grid_new 2 3 4"] by blast
qed

text \<open>
  The 32-bit evaluation of the index never overflows: when the number of cells fits an
  \<^verbatim>\<open>int\<close>, every intermediate product and sum of \<^verbatim>\<open>mapPositionToIndex\<close> on a position of the grid
  is in range, and the 32-bit result is the exact index.
\<close>

theorem grid_index_no_overflow:
  assumes "in_grid g p" and "getNumberOfCells g \<le> INT_MAX"
  shows "mapPositionToIndex32 g (vx p) (vy p) (vz p) = Some (mapPositionToIndexV g p)"
proof -
  let ?s1 = "vx (gsize g)" and ?s2 = "vy (gsize g)" and ?s3 = "vz (gsize g)"
  let ?q = "vy p + ?s2 * vz p"
  from assms(1) have b: "0 \<le> vx p" "0 < ?s1" "0 \<le> vy p" "0 < ?s2" "0 \<le> vz p"
    by (auto simp: in_grid_def)
  from index_bounds [OF assms(1)] assms(2)
  have top: "vx p + ?s1 * ?q \<le> INT_MAX"
    by (simp add: mapPositionToIndexV_def mapPositionToIndex_def)
  have q0: "0 \<le> ?s2 * vz p" using b by simp
  have "1 * ?q \<le> ?s1 * ?q" using b q0 by (intro mult_right_mono) auto
  then have "?s2 * vz p \<le> INT_MAX" "?q \<le> INT_MAX" "?s1 * ?q \<le> INT_MAX"
    using top b q0 by auto
  moreover have "0 \<le> ?s1 * ?q" using b q0 by simp
  ultimately show ?thesis
    using top b q0
    by (simp add: mapPositionToIndex32_def mul_int_def add_int_def mapPositionToIndexV_def
        mapPositionToIndex_def fits_intI)
qed

theorem grid_index_no_overflow_witness:
  "mapPositionToIndex32 (Grid_new 2 3 4) 1 2 3 = Some 23"
  using grid_index_no_overflow [of "Grid_new 2 3 4" "V3 1 2 3"]
  by (simp add: in_grid_def Grid_new_def getNumberOfCells_def INT_MAX_def mapPositionToIndexV_def
      mapPositionToIndex_def)

end
