(* ===== verification/CellGrid.thy ===== *)
theory CellGrid
  imports Grid
begin

text \<open>
  \<^verbatim>\<open>src/src/storage/CellGrid.hpp\<close> and \<^verbatim>\<open>.cpp\<close>: the cell grid of one node, with a ghost frame.
  \<open>CellGrid_new\<close> is the constructor (it throws \<^verbatim>\<open>CellGridIllegal\<close>; the sizes with the frame are 32-bit sums, \<open>None\<close> when
  one overflows, which comes before the check), the four
  \<open>mapPositionTo\<dots>\<close> functions are the C++ loops over the three coordinates, unrolled into
  one function for a coordinate and the combination of the three.  \<open>None\<close> is the undefined
  behaviour of a \<^verbatim>\<open>double\<close> to \<^verbatim>\<open>int\<close> cast (or of the addition of the frame) out of range.
\<close>

record cellgrid = grid +
  frame :: int
  extraSize :: int
  myLeft :: real3d
  myRight :: real3d
  cellSize :: real3d
  invCellSize :: real3d
  smallestCellDiameter :: real

datatype cellgrid_error = CellGridIllegal

definition noCell :: longint where
  "noCell = -1"

definition min3 :: "real3d \<Rightarrow> real" where
  "min3 v = min (min (vx v) (vy v)) (vz v)"

definition CellGrid_new :: "int3d \<Rightarrow> real3d \<Rightarrow> real3d \<Rightarrow> int \<Rightarrow> (cellgrid_error + cellgrid) option" where
  "CellGrid_new sz left right fr =
     do { extra \<leftarrow> mul_int 2 fr;
          nx \<leftarrow> add_int (vx sz) extra; ny \<leftarrow> add_int (vy sz) extra; nz \<leftarrow> add_int (vz sz) extra;
          Some (if vx sz \<le> 0 \<or> vy sz \<le> 0 \<or> vz sz \<le> 0 then Inl CellGridIllegal
            else let cs = vmap2 (\<lambda>d n. d / of_int n) (vmap2 (-) right left) sz in
              Inr \<lparr>gsize = V3 nx ny nz, frame = fr, extraSize = extra,
                   myLeft = left, myRight = right, cellSize = cs,
                   invCellSize = vmap (\<lambda>c. 1 / c) cs, smallestCellDiameter = min3 cs\<rparr>) }"

lemma CellGrid_new_Inr:
  assumes "CellGrid_new sz left right fr = Some (Inr cg)"
  shows "0 < vx sz" "0 < vy sz" "0 < vz sz"
    and "cg = (let cs = vmap2 (\<lambda>d n. d / of_int n) (vmap2 (-) right left) sz in
        \<lparr>gsize = vmap (\<lambda>n. n + 2 * fr) sz, frame = fr, extraSize = 2 * fr, myLeft = left, myRight = right,
         cellSize = cs, invCellSize = vmap (\<lambda>c. 1 / c) cs, smallestCellDiameter = min3 cs\<rparr>)"
  using assms by (auto simp: CellGrid_new_def Let_def bind_eq_Some_conv mul_int_def vec_eq_iff split: if_splits)

definition getInnerCellsBegin :: "cellgrid \<Rightarrow> nat \<Rightarrow> int" where
  "getInnerCellsBegin cg i = frame cg"

definition getInnerCellsEnd :: "cellgrid \<Rightarrow> nat \<Rightarrow> int" where
  "getInnerCellsEnd cg i = getGridSize cg i - frame cg"

definition getInnerGridSize :: "cellgrid \<Rightarrow> nat \<Rightarrow> int" where
  "getInnerGridSize cg i = getGridSize cg i - extraSize cg"

definition getFrameGridSize :: "cellgrid \<Rightarrow> nat \<Rightarrow> int" where
  "getFrameGridSize cg i = getGridSize cg i"

definition isInnerPosition :: "cellgrid \<Rightarrow> real3d \<Rightarrow> bool" where
  "isInnerPosition cg pos \<longleftrightarrow>
     vx pos \<ge> vx (myLeft cg) \<and> vx pos < vx (myRight cg) \<and>
     vy pos \<ge> vy (myLeft cg) \<and> vy pos < vy (myRight cg) \<and>
     vz pos \<ge> vz (myLeft cg) \<and> vz pos < vz (myRight cg)"

definition isInnerCell :: "cellgrid \<Rightarrow> int \<Rightarrow> int \<Rightarrow> int \<Rightarrow> bool" where
  "isInnerCell cg m n p \<longleftrightarrow>
     (m \<ge> getInnerCellsBegin cg 0 \<and> m < getInnerCellsEnd cg 0) \<and>
     (n \<ge> getInnerCellsBegin cg 1 \<and> n < getInnerCellsEnd cg 1) \<and>
     (p \<ge> getInnerCellsBegin cg 2 \<and> p < getInnerCellsEnd cg 2)"

definition getNumberOfInnerCells :: "cellgrid \<Rightarrow> int" where
  "getNumberOfInnerCells cg =
     getInnerGridSize cg 0 * getInnerGridSize cg 1 * getInnerGridSize cg 2"

definition cg_scaleVolume :: "cellgrid \<Rightarrow> real \<Rightarrow> cellgrid" where
  "cg_scaleVolume cg s =
     (if s > 0
      then cg\<lparr>myLeft := vmap (\<lambda>a. a * s) (myLeft cg), myRight := vmap (\<lambda>a. a * s) (myRight cg),
              cellSize := vmap (\<lambda>a. a * s) (cellSize cg),
              invCellSize := vmap (\<lambda>a. a / s) (invCellSize cg),
              smallestCellDiameter := smallestCellDiameter cg * s\<rparr>
      else cg)"

definition cg_scaleVolumeV :: "cellgrid \<Rightarrow> real3d \<Rightarrow> cellgrid" where
  "cg_scaleVolumeV cg s =
     (if vx s > 0 \<and> vy s > 0 \<and> vz s > 0
      then let cs = vmap2 (*) (cellSize cg) s in
        cg\<lparr>myLeft := vmap2 (*) (myLeft cg) s, myRight := vmap2 (*) (myRight cg) s,
           cellSize := cs, invCellSize := vmap2 (/) (invCellSize cg) s,
           smallestCellDiameter := min3 cs\<rparr>
      else cg)"

section \<open>From positions to cells\<close>

text \<open>The cast of one coordinate, \<^verbatim>\<open>static_cast<int>(lpos*invCellSize[i]) + frame\<close>.\<close>

definition castCoord :: "cellgrid \<Rightarrow> real3d \<Rightarrow> nat \<Rightarrow> int option" where
  "castCoord cg pos i =
     do { t \<leftarrow> cast_int ((vnth pos i - vnth (myLeft cg) i) * vnth (invCellSize cg) i);
          add_int t (frame cg) }"

definition plainCoord :: "cellgrid \<Rightarrow> real3d \<Rightarrow> nat \<Rightarrow> int option" where
  "plainCoord cg pos i =
     (if vnth pos i - vnth (myLeft cg) i \<le> 0 then Some 0 else castCoord cg pos i)"

definition mapPositionToCell :: "cellgrid \<Rightarrow> real3d \<Rightarrow> longint option" where
  "mapPositionToCell cg pos =
     do { c0 \<leftarrow> plainCoord cg pos 0; c1 \<leftarrow> plainCoord cg pos 1; c2 \<leftarrow> plainCoord cg pos 2;
          Some (mapPositionToIndex cg c0 c1 c2) }"

definition clippedCoord :: "cellgrid \<Rightarrow> real3d \<Rightarrow> nat \<Rightarrow> int option" where
  "clippedCoord cg pos i =
     do { c \<leftarrow> castCoord cg pos i;
          Some (if c < frame cg then frame cg
                else if c \<ge> getFrameGridSize cg i - frame cg
                then getFrameGridSize cg i - frame cg - 1
                else c) }"

definition mapPositionToCellClipped :: "cellgrid \<Rightarrow> real3d \<Rightarrow> longint option" where
  "mapPositionToCellClipped cg pos =
     do { c0 \<leftarrow> clippedCoord cg pos 0; c1 \<leftarrow> clippedCoord cg pos 1; c2 \<leftarrow> clippedCoord cg pos 2;
          Some (mapPositionToIndex cg c0 c1 c2) }"

text \<open>The checked variant returns early: the inner \<open>None\<close> is the \<^verbatim>\<open>return noCell\<close>.\<close>

definition checkedCoord :: "cellgrid \<Rightarrow> real3d \<Rightarrow> nat \<Rightarrow> int option option" where
  "checkedCoord cg pos i =
     do { c \<leftarrow> castCoord cg pos i;
          Some (if c < frame cg
                then if vnth pos i - vnth (myLeft cg) i \<ge> - ROUND_ERROR_PREC
                     then Some (frame cg) else None
                else if c \<ge> getFrameGridSize cg i - frame cg
                then if vnth pos i \<le> vnth (myRight cg) i + ROUND_ERROR_PREC
                     then Some (getFrameGridSize cg i - frame cg - 1) else None
                else Some c) }"

definition mapPositionToCellChecked :: "cellgrid \<Rightarrow> real3d \<Rightarrow> longint option" where
  "mapPositionToCellChecked cg pos =
     do { r0 \<leftarrow> checkedCoord cg pos 0;
          case r0 of None \<Rightarrow> Some noCell | Some c0 \<Rightarrow>
     do { r1 \<leftarrow> checkedCoord cg pos 1;
          case r1 of None \<Rightarrow> Some noCell | Some c1 \<Rightarrow>
     do { r2 \<leftarrow> checkedCoord cg pos 2;
          case r2 of None \<Rightarrow> Some noCell | Some c2 \<Rightarrow>
            Some (mapPositionToIndex cg c0 c1 c2) }}}"

definition clippedOutsideCoord :: "cellgrid \<Rightarrow> real3d \<Rightarrow> nat \<Rightarrow> (bool \<times> int) option" where
  "clippedOutsideCoord cg pos i =
     do { c \<leftarrow> castCoord cg pos i;
          Some (if c < frame cg
                then (vnth pos i - vnth (myLeft cg) i < - ROUND_ERROR_PREC, frame cg)
                else if c \<ge> getFrameGridSize cg i - frame cg
                then (vnth pos i > vnth (myRight cg) i + ROUND_ERROR_PREC,
                      getFrameGridSize cg i - frame cg - 1)
                else (False, c)) }"

definition mapPositionToCellCheckedAndClipped :: "cellgrid \<Rightarrow> real3d \<Rightarrow> (bool \<times> longint) option" where
  "mapPositionToCellCheckedAndClipped cg pos =
     do { (o0, c0) \<leftarrow> clippedOutsideCoord cg pos 0;
          (o1, c1) \<leftarrow> clippedOutsideCoord cg pos 1;
          (o2, c2) \<leftarrow> clippedOutsideCoord cg pos 2;
          Some (o0 \<or> o1 \<or> o2, mapPositionToIndex cg c0 c1 c2) }"

section \<open>Well-formed cell grids\<close>

definition cellgrid_wf :: "cellgrid \<Rightarrow> bool" where
  "cellgrid_wf cg \<longleftrightarrow> 0 \<le> frame cg \<and> extraSize cg = 2 * frame cg
     \<and> (\<forall>i<3. 0 < getInnerGridSize cg i
          \<and> vnth (myLeft cg) i < vnth (myRight cg) i
          \<and> vnth (cellSize cg) i * of_int (getInnerGridSize cg i)
              = vnth (myRight cg) i - vnth (myLeft cg) i
          \<and> vnth (invCellSize cg) i = 1 / vnth (cellSize cg) i)
     \<and> smallestCellDiameter cg = min3 (cellSize cg)"

lemma vnth_vmap2: "i < 3 \<Longrightarrow> vnth (vmap2 f v w) i = f (vnth v i) (vnth w i)"
  unfolding less_3_cases by (elim disjE) (simp_all add: vmap2_def)

lemma cellgrid_wfD:
  assumes "cellgrid_wf cg" and "i < 3"
  shows "0 \<le> frame cg" "extraSize cg = 2 * frame cg" "0 < getInnerGridSize cg i"
    "vnth (myLeft cg) i < vnth (myRight cg) i"
    "vnth (cellSize cg) i * of_int (getInnerGridSize cg i) = vnth (myRight cg) i - vnth (myLeft cg) i"
    "vnth (invCellSize cg) i = 1 / vnth (cellSize cg) i"
  using assms by (auto simp: cellgrid_wf_def)

lemma cellSize_pos:
  assumes "cellgrid_wf cg" and "i < 3"
  shows "0 < vnth (cellSize cg) i"
proof (rule ccontr)
  assume "\<not> 0 < vnth (cellSize cg) i"
  then have "vnth (cellSize cg) i * of_int (getInnerGridSize cg i) \<le> 0"
    using cellgrid_wfD(3) [OF assms] by (simp add: mult_nonpos_nonneg)
  then show False using cellgrid_wfD(4,5) [OF assms] by simp
qed

lemma innerEnd_eq:
  "cellgrid_wf cg \<Longrightarrow> getInnerCellsEnd cg i = frame cg + getInnerGridSize cg i"
  by (simp add: cellgrid_wf_def getInnerCellsEnd_def getInnerGridSize_def)

lemma CellGrid_new_wf:
  assumes new: "CellGrid_new sz left right fr = Some (Inr cg)" and "0 \<le> fr"
    and lr: "\<And>i. i < 3 \<Longrightarrow> vnth left i < vnth right i"
  shows "cellgrid_wf cg \<and> frame cg = fr \<and> myLeft cg = left \<and> myRight cg = right
    \<and> (\<forall>i<3. getInnerGridSize cg i = vnth sz i)"
proof -
  note pos = CellGrid_new_Inr(1-3) [OF new]
  then have sz: "0 < vnth sz i" if "i < 3" for i using that by (auto simp: less_3_cases)
  from new pos have cg: "frame cg = fr" "extraSize cg = 2 * fr" "myLeft cg = left"
      "myRight cg = right" "gsize cg = vmap (\<lambda>n. n + 2 * fr) sz"
      "cellSize cg = vmap2 (\<lambda>d n. d / of_int n) (vmap2 (-) right left) sz"
      "invCellSize cg = vmap (\<lambda>c. 1 / c) (cellSize cg)"
      "smallestCellDiameter cg = min3 (cellSize cg)"
    by (auto simp: CellGrid_new_Inr(4) [OF new] Let_def)
  have g: "getInnerGridSize cg i = vnth sz i" for i
    by (simp add: getInnerGridSize_def getGridSize_def cg)
  have "vnth (cellSize cg) i * of_int (getInnerGridSize cg i) = vnth right i - vnth left i"
    if "i < 3" for i
    using sz [OF that] that by (simp add: cg g vnth_vmap2)
  then show ?thesis
    using sz lr assms(2) cg(8) unfolding cellgrid_wf_def g
    by (simp add: cg(1-5,7) g)
qed

text \<open>Scaling a cell grid by positive factors per coordinate keeps it well-formed.\<close>

lemma cellgrid_wf_scaled:
  assumes wf: "cellgrid_wf cg"
    and same: "frame cg' = frame cg" "extraSize cg' = extraSize cg" "gsize cg' = gsize cg"
    and sc: "\<And>i. i < 3 \<Longrightarrow> 0 < f i \<and> vnth (myLeft cg') i = vnth (myLeft cg) i * f i
        \<and> vnth (myRight cg') i = vnth (myRight cg) i * f i
        \<and> vnth (cellSize cg') i = vnth (cellSize cg) i * f i
        \<and> vnth (invCellSize cg') i = vnth (invCellSize cg) i / f i"
    and sm: "smallestCellDiameter cg' = min3 (cellSize cg')"
  shows "cellgrid_wf cg'"
proof -
  have g: "getInnerGridSize cg' i = getInnerGridSize cg i" for i
    using same by (simp add: getInnerGridSize_def getGridSize_def)
  have "0 < getInnerGridSize cg' i \<and> vnth (myLeft cg') i < vnth (myRight cg') i
      \<and> vnth (cellSize cg') i * of_int (getInnerGridSize cg' i)
          = vnth (myRight cg') i - vnth (myLeft cg') i
      \<and> vnth (invCellSize cg') i = 1 / vnth (cellSize cg') i" if "i < 3" for i
  proof -
    have "vnth (cellSize cg) i * f i * of_int (getInnerGridSize cg i)
        = (vnth (cellSize cg) i * of_int (getInnerGridSize cg i)) * f i" by (simp only: ac_simps)
    also have "\<dots> = vnth (myRight cg) i * f i - vnth (myLeft cg) i * f i"
      by (simp only: cellgrid_wfD(5) [OF wf that] left_diff_distrib)
    finally show ?thesis
      using cellgrid_wfD [OF wf that] sc [OF that] g by simp
  qed
  with wf same sm show ?thesis by (simp add: cellgrid_wf_def)
qed

lemma cg_scaleVolume_wf:
  assumes "cellgrid_wf cg"
  shows "cellgrid_wf (cg_scaleVolume cg s)"
proof (cases "s > 0")
  case True
  have "min3 (vmap (\<lambda>a. a * s) v) = min3 v * s" for v
    using True by (simp add: min3_def min_mult_distrib_right)
  with True assms show ?thesis
    by (intro cellgrid_wf_scaled [OF assms, where f = "\<lambda>_. s"])
      (simp_all add: cg_scaleVolume_def cellgrid_wf_def)
qed (simp add: assms cg_scaleVolume_def)

lemma cg_scaleVolumeV_wf:
  assumes "cellgrid_wf cg"
  shows "cellgrid_wf (cg_scaleVolumeV cg s)"
proof (cases "vx s > 0 \<and> vy s > 0 \<and> vz s > 0")
  case True
  then have "\<And>i. i < 3 \<Longrightarrow> 0 < vnth s i" by (auto simp: less_3_cases)
  with True show ?thesis
    by (intro cellgrid_wf_scaled [OF assms, where f = "vnth s"])
      (simp_all add: cg_scaleVolumeV_def Let_def vnth_vmap2)
next
  case False
  then have "cg_scaleVolumeV cg s = cg" unfolding cg_scaleVolumeV_def by (rule if_not_P)
  with assms show ?thesis by simp
qed

section \<open>Where a coordinate lands\<close>

lemma castCoord_Some:
  "castCoord cg pos i = Some c \<longleftrightarrow>
     (let t = trunc_real ((vnth pos i - vnth (myLeft cg) i) * vnth (invCellSize cg) i)
      in fits_int t \<and> fits_int (t + frame cg) \<and> c = t + frame cg)"
  by (auto simp: castCoord_def cast_int_Some Let_def bind_eq_Some_conv)

lemma scaled_coord:
  fixes pos :: real3d
  assumes "cellgrid_wf cg" "i < 3"
  defines "x \<equiv> (vnth pos i - vnth (myLeft cg) i) * vnth (invCellSize cg) i"
  shows "0 \<le> x \<longleftrightarrow> vnth (myLeft cg) i \<le> vnth pos i"
    and "x \<le> -1 \<longleftrightarrow> vnth pos i \<le> vnth (myLeft cg) i - vnth (cellSize cg) i"
    and "of_int n \<le> x \<longleftrightarrow> vnth (myLeft cg) i + of_int n * vnth (cellSize cg) i \<le> vnth pos i"
    and "x < of_int n \<longleftrightarrow> vnth pos i < vnth (myLeft cg) i + of_int n * vnth (cellSize cg) i"
  using cellSize_pos [OF assms(1,2)]
  unfolding x_def cellgrid_wfD(6) [OF assms(1,2)] by (auto simp: field_simps)

lemma right_eq:
  assumes "cellgrid_wf cg" "i < 3"
  shows "vnth (myRight cg) i
    = vnth (myLeft cg) i + of_int (getInnerGridSize cg i) * vnth (cellSize cg) i"
  using cellgrid_wfD(5) [OF assms] by (simp add: mult.commute)

text \<open>An inner coordinate is cast without overflow to the cell that contains it.\<close>

lemma castCoord_inner:
  assumes wf: "cellgrid_wf cg" and i: "i < 3"
    and pos: "vnth (myLeft cg) i \<le> vnth pos i" "vnth pos i < vnth (myRight cg) i"
    and fits: "getGridSize cg i \<le> INT_MAX"
  obtains c where "castCoord cg pos i = Some c"
    "getInnerCellsBegin cg i \<le> c" "c < getInnerCellsEnd cg i"
    "vnth (myLeft cg) i + of_int (c - frame cg) * vnth (cellSize cg) i \<le> vnth pos i"
    "vnth pos i < vnth (myLeft cg) i + of_int (c - frame cg + 1) * vnth (cellSize cg) i"
proof -
  let ?x = "(vnth pos i - vnth (myLeft cg) i) * vnth (invCellSize cg) i"
  let ?t = "trunc_real ?x"
  note sc = scaled_coord [OF wf i, where pos = pos]
  have x0: "0 \<le> ?x" using sc(1) pos(1) by simp
  have "?x < of_int (getInnerGridSize cg i)"
    using sc(4) pos(2) right_eq [OF wf i] by simp
  then have t: "0 \<le> ?t" "?t < getInnerGridSize cg i"
    using trunc_real_nonneg [OF x0] trunc_real_less cellgrid_wfD(3) [OF wf i] by auto
  have t': "?t = \<lfloor>?x\<rfloor>" using x0 by (simp add: trunc_real_def)
  have le: "of_int ?t \<le> ?x" "?x < of_int (?t + 1)" unfolding t' by linarith+
  have fr: "0 \<le> frame cg" "getInnerGridSize cg i + frame cg \<le> getGridSize cg i"
    using cellgrid_wfD(1,2) [OF wf i] by (auto simp: getInnerGridSize_def)
  have "fits_int ?t" "fits_int (?t + frame cg)" using t fr fits by (auto intro!: fits_intI)
  then have "castCoord cg pos i = Some (?t + frame cg)" by (simp add: castCoord_Some Let_def)
  moreover have "getInnerCellsBegin cg i \<le> ?t + frame cg" "?t + frame cg < getInnerCellsEnd cg i"
    using t innerEnd_eq [OF wf] by (auto simp: getInnerCellsBegin_def)
  moreover have "vnth (myLeft cg) i + of_int ?t * vnth (cellSize cg) i \<le> vnth pos i"
      "vnth pos i < vnth (myLeft cg) i + of_int (?t + 1) * vnth (cellSize cg) i"
    using sc(3) [of ?t] sc(4) [of "?t + 1"] le by simp_all
  ultimately show ?thesis using that [of "?t + frame cg"] by simp
qed

lemma clippedCoord_range:
  assumes "cellgrid_wf cg" "i < 3" "clippedCoord cg pos i = Some c"
  shows "getInnerCellsBegin cg i \<le> c \<and> c < getInnerCellsEnd cg i"
proof -
  have "frame cg < getGridSize cg i - frame cg"
    using cellgrid_wfD(2,3) [OF assms(1,2)] by (simp add: getInnerGridSize_def)
  then show ?thesis
    using assms(3)
    by (auto simp: clippedCoord_def bind_eq_Some_conv getInnerCellsBegin_def getInnerCellsEnd_def
        getFrameGridSize_def split: if_splits)
qed

lemma clippedCoord_inner:
  assumes "castCoord cg pos i = Some c" "getInnerCellsBegin cg i \<le> c" "c < getInnerCellsEnd cg i"
  shows "clippedCoord cg pos i = Some c"
  using assms by (simp add: clippedCoord_def getInnerCellsBegin_def getInnerCellsEnd_def
      getFrameGridSize_def)

text \<open>The three variants treat a coordinate alike.\<close>

lemma clippedOutside_clipped:
  "clippedOutsideCoord cg pos i = Some (o', c) \<Longrightarrow> clippedCoord cg pos i = Some c"
  by (auto simp: clippedOutsideCoord_def clippedCoord_def bind_eq_Some_conv split: if_splits)

lemma checkedCoord_clippedOutside:
  "checkedCoord cg pos i
    = map_option (\<lambda>(o', c). if o' then None else Some c) (clippedOutsideCoord cg pos i)"
  by (cases "castCoord cg pos i")
    (simp_all add: clippedOutsideCoord_def checkedCoord_def linorder_not_le [symmetric])

lemma clippedOutside_checked:
  "clippedOutsideCoord cg pos i = Some (o', c) \<Longrightarrow>
     checkedCoord cg pos i = Some (if o' then None else Some c)"
  by (simp add: checkedCoord_clippedOutside)

text \<open>The exact condition under which a coordinate counts as outside.\<close>

lemma clippedOutside_iff:
  assumes wf: "cellgrid_wf cg" and i: "i < 3" and c: "clippedOutsideCoord cg pos i = Some (o', c)"
  shows "o' \<longleftrightarrow>
    (vnth pos i \<le> vnth (myLeft cg) i - vnth (cellSize cg) i
       \<and> vnth pos i < vnth (myLeft cg) i - ROUND_ERROR_PREC)
    \<or> vnth pos i > vnth (myRight cg) i + ROUND_ERROR_PREC"
proof -
  let ?x = "(vnth pos i - vnth (myLeft cg) i) * vnth (invCellSize cg) i"
  let ?t = "trunc_real ?x"
  note sc = scaled_coord [OF wf i, where pos = pos]
  have cs: "castCoord cg pos i = Some (?t + frame cg)"
    using c by (auto simp: clippedOutsideCoord_def bind_eq_Some_conv castCoord_Some Let_def)
  have end_eq: "getFrameGridSize cg i - frame cg = frame cg + getInnerGridSize cg i"
    using innerEnd_eq [OF wf, of i] by (simp add: getInnerCellsEnd_def getFrameGridSize_def)
  have low: "?t < 0 \<longleftrightarrow> vnth pos i \<le> vnth (myLeft cg) i - vnth (cellSize cg) i"
    using trunc_real_neg_iff sc(2) by simp
  have lr: "vnth (myLeft cg) i < vnth (myRight cg) i" by (rule cellgrid_wfD(4) [OF wf i])
  have high: "getInnerGridSize cg i \<le> ?t" if "vnth pos i > vnth (myRight cg) i + ROUND_ERROR_PREC"
    using that right_eq [OF wf i] sc(3) [of "getInnerGridSize cg i"] cellgrid_wfD(3) [OF wf i]
      ROUND_ERROR_PREC_pos
    by (intro trunc_real_ge) auto
  have out: "o' \<longleftrightarrow> (?t < 0 \<and> vnth pos i - vnth (myLeft cg) i < - ROUND_ERROR_PREC)
      \<or> (0 \<le> ?t \<and> getInnerGridSize cg i \<le> ?t \<and> vnth pos i > vnth (myRight cg) i + ROUND_ERROR_PREC)"
    using c unfolding clippedOutsideCoord_def cs end_eq by (auto split: if_splits)
  have "\<not> vnth pos i > vnth (myRight cg) i + ROUND_ERROR_PREC" if "?t < 0"
    using that low lr cellSize_pos [OF wf i] ROUND_ERROR_PREC_pos by linarith
  then show ?thesis unfolding out using low high by (auto simp: algebra_simps)
qed

lemma checkedAndClipped_Some:
  assumes "mapPositionToCellCheckedAndClipped cg pos = Some (outside, c)"
  obtains o0 c0 o1 c1 o2 c2 where
    "clippedOutsideCoord cg pos 0 = Some (o0, c0)" "clippedOutsideCoord cg pos 1 = Some (o1, c1)"
    "clippedOutsideCoord cg pos 2 = Some (o2, c2)"
    "outside = (o0 \<or> o1 \<or> o2)" "c = mapPositionToIndex cg c0 c1 c2"
proof -
  from assms obtain r0 where r0: "clippedOutsideCoord cg pos 0 = Some r0"
    by (cases "clippedOutsideCoord cg pos 0") (simp_all add: mapPositionToCellCheckedAndClipped_def)
  from assms r0 obtain r1 where r1: "clippedOutsideCoord cg pos 1 = Some r1"
    by (cases "clippedOutsideCoord cg pos 1")
      (simp_all add: mapPositionToCellCheckedAndClipped_def split: prod.splits)
  from assms r0 r1 obtain r2 where r2: "clippedOutsideCoord cg pos 2 = Some r2"
    by (cases "clippedOutsideCoord cg pos 2")
      (simp_all add: mapPositionToCellCheckedAndClipped_def split: prod.splits)
  show ?thesis
    using assms r0 r1 r2 that [of "fst r0" "snd r0" "fst r1" "snd r1" "fst r2" "snd r2"]
    by (cases r0; cases r1; cases r2) (simp add: mapPositionToCellCheckedAndClipped_def)
qed

section \<open>Properties\<close>

text \<open>
  \<^verbatim>\<open>CellGrid::mapPositionToCellClipped\<close> always names an inner cell of the grid (never a
  ghost cell, never an index out of range), and for a position inside the domain the call
  does not overflow and the cell is the one whose box, spanned by \<^verbatim>\<open>cellSize\<close> from
  \<^verbatim>\<open>myLeft\<close>, contains the position.
\<close>

theorem cellgrid_clipped_inner:
  assumes wf: "cellgrid_wf cg"
  shows "(\<forall>c. mapPositionToCellClipped cg pos = Some c \<longrightarrow>
      (\<exists>p. isInnerCell cg (vx p) (vy p) (vz p) \<and> c = mapPositionToIndexV cg p
         \<and> 0 \<le> c \<and> c < getNumberOfCells cg))
    \<and> (isInnerPosition cg pos \<and> (\<forall>i<3. getGridSize cg i \<le> INT_MAX) \<longrightarrow>
       (\<exists>p. mapPositionToCellClipped cg pos = Some (mapPositionToIndexV cg p)
         \<and> (\<forall>i<3. vnth (myLeft cg) i + of_int (vnth p i - frame cg) * vnth (cellSize cg) i
                    \<le> vnth pos i
              \<and> vnth pos i
                 < vnth (myLeft cg) i + of_int (vnth p i - frame cg + 1) * vnth (cellSize cg) i)))"
proof (intro conjI allI impI)
  fix c assume "mapPositionToCellClipped cg pos = Some c"
  then obtain c0 c1 c2 where cc: "clippedCoord cg pos 0 = Some c0" "clippedCoord cg pos 1 = Some c1"
      "clippedCoord cg pos 2 = Some c2" "c = mapPositionToIndex cg c0 c1 c2"
    by (auto simp: mapPositionToCellClipped_def bind_eq_Some_conv)
  then have inner: "isInnerCell cg c0 c1 c2"
    using clippedCoord_range [OF wf, of 0] clippedCoord_range [OF wf, of 1]
      clippedCoord_range [OF wf, of 2]
    by (simp add: isInnerCell_def)
  have "in_grid cg (V3 c0 c1 c2)"
    using inner cellgrid_wfD(1) [OF wf, of 0]
    by (auto simp: isInnerCell_def in_grid_def getInnerCellsBegin_def getInnerCellsEnd_def
        getGridSize_def)
  then show "\<exists>p. isInnerCell cg (vx p) (vy p) (vz p) \<and> c = mapPositionToIndexV cg p
         \<and> 0 \<le> c \<and> c < getNumberOfCells cg"
    using inner cc(4) index_bounds [of cg "V3 c0 c1 c2"]
    by (intro exI [of _ "V3 c0 c1 c2"]) (simp add: mapPositionToIndexV_def)
next
  assume in': "isInnerPosition cg pos \<and> (\<forall>i<3. getGridSize cg i \<le> INT_MAX)"
  then have co: "vnth (myLeft cg) i \<le> vnth pos i \<and> vnth pos i < vnth (myRight cg) i"
    if "i < 3" for i
    using that unfolding isInnerPosition_def less_3_cases by (elim disjE) simp_all
  define ok where "ok i c \<longleftrightarrow> clippedCoord cg pos i = Some c
      \<and> vnth (myLeft cg) i + of_int (c - frame cg) * vnth (cellSize cg) i \<le> vnth pos i
      \<and> vnth pos i < vnth (myLeft cg) i + of_int (c - frame cg + 1) * vnth (cellSize cg) i" for i c
  have "\<exists>c. ok i c" if "i < 3" for i
    using castCoord_inner [OF wf that, of pos] co [OF that] in' that
    by (metis clippedCoord_inner ok_def)
  then obtain c0 c1 c2 where "ok 0 c0" "ok 1 c1" "ok 2 c2" by (metis less_3_cases)
  then show "\<exists>p. mapPositionToCellClipped cg pos = Some (mapPositionToIndexV cg p)
         \<and> (\<forall>i<3. vnth (myLeft cg) i + of_int (vnth p i - frame cg) * vnth (cellSize cg) i
                    \<le> vnth pos i
              \<and> vnth pos i
                 < vnth (myLeft cg) i + of_int (vnth p i - frame cg + 1) * vnth (cellSize cg) i)"
    by (intro exI [of _ "V3 c0 c1 c2"])
      (simp add: mapPositionToCellClipped_def mapPositionToIndexV_def ok_def less_3_cases)
qed

definition cg_example :: cellgrid where
  "cg_example = (case CellGrid_new (V3 2 2 2) (V3 0 0 0) (V3 4 4 4) 1 of Some (Inr cg) \<Rightarrow> cg
     | _ \<Rightarrow> undefined)"

lemma cg_example_eq:
  "cg_example = \<lparr>gsize = V3 4 4 4, frame = 1, extraSize = 2, myLeft = V3 0 0 0,
     myRight = V3 4 4 4, cellSize = V3 2 2 2, invCellSize = V3 (1/2) (1/2) (1/2),
     smallestCellDiameter = 2\<rparr>"
  by (simp add: cg_example_def CellGrid_new_def mul_int_def add_int_def fits_int_def INT_MIN_def INT_MAX_def
      vmap_def vmap2_def min3_def)

lemma cg_example_wf: "cellgrid_wf cg_example"
  unfolding cellgrid_wf_def cg_example_eq less_3_cases
  by (auto simp: getInnerGridSize_def getGridSize_def min3_def)

theorem cellgrid_clipped_inner_witness:
  "\<exists>p. mapPositionToCellClipped cg_example (V3 3 1 1) = Some (mapPositionToIndexV cg_example p)"
proof -
  have "isInnerPosition cg_example (V3 3 1 1) \<and> (\<forall>i<3. getGridSize cg_example i \<le> INT_MAX)"
    unfolding less_3_cases
    by (auto simp: cg_example_eq isInnerPosition_def getGridSize_def INT_MAX_def)
  then show ?thesis using cellgrid_clipped_inner [OF cg_example_wf, of "V3 3 1 1"] by blast
qed

text \<open>
  The checked lookups agree with the clipped one and their rejection is exactly
  characterised.  Whenever \<^verbatim>\<open>mapPositionToCellCheckedAndClipped\<close> returns, its cell is the
  clipped cell and \<^verbatim>\<open>mapPositionToCellChecked\<close> returns the same cell, or \<^verbatim>\<open>noCell\<close> when the
  flag is set.  The flag is set exactly when some coordinate is beyond the right edge by more
  than \<^verbatim>\<open>ROUND_ERROR_PREC\<close>, or at least one whole cell left of the domain: because the cast
  truncates towards zero, positions less than a cell left of the domain are accepted.
\<close>

theorem cellgrid_checked_agree:
  assumes wf: "cellgrid_wf cg"
    and res: "mapPositionToCellCheckedAndClipped cg pos = Some (outside, c)"
  shows "mapPositionToCellClipped cg pos = Some c
    \<and> mapPositionToCellChecked cg pos = Some (if outside then noCell else c)
    \<and> (outside \<longleftrightarrow> (\<exists>i<3.
          (vnth pos i \<le> vnth (myLeft cg) i - vnth (cellSize cg) i
             \<and> vnth pos i < vnth (myLeft cg) i - ROUND_ERROR_PREC)
          \<or> vnth pos i > vnth (myRight cg) i + ROUND_ERROR_PREC))"
proof -
  obtain o0 c0 o1 c1 o2 c2 where
    co: "clippedOutsideCoord cg pos 0 = Some (o0, c0)" "clippedOutsideCoord cg pos 1 = Some (o1, c1)"
    "clippedOutsideCoord cg pos 2 = Some (o2, c2)"
    and r: "outside = (o0 \<or> o1 \<or> o2)" "c = mapPositionToIndex cg c0 c1 c2"
    using res by (rule checkedAndClipped_Some)
  define out where "out i \<longleftrightarrow>
      (vnth pos i \<le> vnth (myLeft cg) i - vnth (cellSize cg) i
         \<and> vnth pos i < vnth (myLeft cg) i - ROUND_ERROR_PREC)
      \<or> vnth pos i > vnth (myRight cg) i + ROUND_ERROR_PREC" for i
  have o: "o0 = out 0" "o1 = out 1" "o2 = out 2"
    using clippedOutside_iff [OF wf _ co(1)] clippedOutside_iff [OF wf _ co(2)]
      clippedOutside_iff [OF wf _ co(3)] unfolding out_def by simp_all
  have "outside \<longleftrightarrow> (\<exists>i<3. out i)"
    unfolding r(1) o less_3_cases by blast
  moreover have "mapPositionToCellClipped cg pos = Some c"
    using co [THEN clippedOutside_clipped] by (simp add: mapPositionToCellClipped_def r(2))
  moreover have "mapPositionToCellChecked cg pos = Some (if outside then noCell else c)"
    using co [THEN clippedOutside_checked] unfolding mapPositionToCellChecked_def r
    by (cases o0; cases o1; cases o2) simp_all
  ultimately show ?thesis unfolding out_def by blast
qed

theorem cellgrid_checked_agree_witness:
  "mapPositionToCellChecked cg_example (V3 (- 1) 1 1) = Some (mapPositionToIndex cg_example 1 1 1)"
proof -
  have t: "trunc_real (- (1/2)) = 0" "trunc_real (1/2) = 0"
    by (simp_all add: trunc_real_def ceiling_eq_iff)
  have f: "fits_int 1" by (simp add: fits_int_def INT_MAX_def INT_MIN_def)
  have "castCoord cg_example (V3 (- 1) 1 1) i = Some 1" if "i < 3" for i
    using that t f unfolding castCoord_Some less_3_cases
    by (auto simp: cg_example_eq)
  then have "clippedOutsideCoord cg_example (V3 (- 1) 1 1) i = Some (False, 1)" if "i < 3" for i
    using that unfolding less_3_cases
    by (auto simp: clippedOutsideCoord_def cg_example_eq getFrameGridSize_def getGridSize_def)
  then have "mapPositionToCellCheckedAndClipped cg_example (V3 (- 1) 1 1)
      = Some (False, mapPositionToIndex cg_example 1 1 1)"
    by (simp add: mapPositionToCellCheckedAndClipped_def)
  from cellgrid_checked_agree [OF cg_example_wf this] show ?thesis by simp
qed

end
