(* ===== verification/NodeGrid.thy ===== *)
theory NodeGrid
  imports CellGrid
begin

text \<open>
  \<^verbatim>\<open>src/src/storage/NodeGrid.hpp\<close> and \<^verbatim>\<open>.cpp\<close>: the process grid of the domain decomposition.
  The six neighbours and boundary flags are lists indexed by the direction
  (\<^verbatim>\<open>2*dir\<close> to the left, \<^verbatim>\<open>2*dir + 1\<close> to the right), as the C++ arrays are.  \<^verbatim>\<open>ToRight\<close> is
  \<open>1\<close>, \<^verbatim>\<open>ToLeft\<close> is \<open>-1\<close>.
\<close>

record nodegrid = grid +
  nodePos :: int3d
  nodeNeighbors :: "int list"
  boundaries :: "int list"
  localBoxSize :: real3d
  invLocalBoxSize :: real3d
  smallestLocalBoxDiameter :: real

datatype nodegrid_error = NodeGridIllegal

definition ToLeft :: int where "ToLeft = -1"
definition ToRight :: int where "ToRight = 1"

definition convertDirToCoord :: "int \<Rightarrow> int" where
  "convertDirToCoord dir = c_div dir 2"

definition leftNeighborPos :: "'a grid_scheme \<Rightarrow> int3d \<Rightarrow> nat \<Rightarrow> int3d" where
  "leftNeighborPos g np dir =
     (let x = vnth np dir - 1 in vupd np dir (if x < 0 then x + getGridSize g dir else x))"

definition rightNeighborPos :: "'a grid_scheme \<Rightarrow> int3d \<Rightarrow> nat \<Rightarrow> int3d" where
  "rightNeighborPos g np dir =
     (let x = vnth np dir + 1 in
      vupd np dir (if x \<ge> getGridSize g dir then x - getGridSize g dir else x))"

definition calcNodeNeighbors :: "nodegrid \<Rightarrow> int \<Rightarrow> nodegrid" where
  "calcNodeNeighbors g node =
     (let np = mapIndexToPosition g node in
      g\<lparr>nodePos := np,
        nodeNeighbors := concat (map (\<lambda>dir.
          [mapPositionToIndexV g (leftNeighborPos g np dir),
           mapPositionToIndexV g (rightNeighborPos g np dir)]) [0, 1, 2]),
        boundaries := concat (map (\<lambda>dir.
          [if vnth np dir = 0 then ToRight else 0,
           if vnth np dir = getGridSize g dir - 1 then ToLeft else 0]) [0, 1, 2])\<rparr>)"

definition NodeGrid_new :: "int3d \<Rightarrow> int \<Rightarrow> real3d \<Rightarrow> nodegrid_error + nodegrid" where
  "NodeGrid_new sz nodeId domainSize =
     (if vx sz \<le> 0 \<or> vy sz \<le> 0 \<or> vz sz \<le> 0 then Inl NodeGridIllegal
      else let lbs = vmap2 (\<lambda>d n. d / of_int n) domainSize sz in
        Inr (calcNodeNeighbors
          \<lparr>gsize = sz, nodePos = V3 0 0 0, nodeNeighbors = [], boundaries = [],
           localBoxSize = lbs, invLocalBoxSize = vmap (\<lambda>l. 1 / l) lbs,
           smallestLocalBoxDiameter = min3 lbs\<rparr> nodeId))"

definition getNodeNeighborIndex :: "nodegrid \<Rightarrow> nat \<Rightarrow> int" where
  "getNodeNeighborIndex g dir = nodeNeighbors g ! dir"

definition getBoundary :: "nodegrid \<Rightarrow> nat \<Rightarrow> int" where
  "getBoundary g dir = boundaries g ! dir"

definition ng_getMyLeft :: "nodegrid \<Rightarrow> nat \<Rightarrow> real" where
  "ng_getMyLeft g axis = of_int (vnth (nodePos g) axis) * vnth (localBoxSize g) axis"

definition ng_getMyRight :: "nodegrid \<Rightarrow> nat \<Rightarrow> real" where
  "ng_getMyRight g axis = (of_int (vnth (nodePos g) axis) + 1) * vnth (localBoxSize g) axis"

definition ng_getMyLeftV :: "nodegrid \<Rightarrow> real3d" where
  "ng_getMyLeftV g = V3 (ng_getMyLeft g 0) (ng_getMyLeft g 1) (ng_getMyLeft g 2)"

definition ng_getMyRightV :: "nodegrid \<Rightarrow> real3d" where
  "ng_getMyRightV g = V3 (ng_getMyRight g 0) (ng_getMyRight g 1) (ng_getMyRight g 2)"

definition ng_getMyCenter :: "nodegrid \<Rightarrow> real3d" where
  "ng_getMyCenter g = real3d_scale (ng_getMyLeftV g + ng_getMyRightV g) (1/2)"

definition nodeCoord :: "nodegrid \<Rightarrow> real3d \<Rightarrow> nat \<Rightarrow> int option" where
  "nodeCoord g pos i =
     do { c \<leftarrow> cast_int (vnth pos i * vnth (invLocalBoxSize g) i);
          Some (if c < 0 then 0
                else if c \<ge> getGridSize g i then getGridSize g i - 1 else c) }"

definition mapPositionToNodeClipped :: "nodegrid \<Rightarrow> real3d \<Rightarrow> longint option" where
  "mapPositionToNodeClipped g pos =
     do { c0 \<leftarrow> nodeCoord g pos 0; c1 \<leftarrow> nodeCoord g pos 1; c2 \<leftarrow> nodeCoord g pos 2;
          Some (mapPositionToIndex g c0 c1 c2) }"

definition ng_scaleVolume :: "nodegrid \<Rightarrow> real \<Rightarrow> nodegrid" where
  "ng_scaleVolume g s =
     (if s > 0
      then g\<lparr>localBoxSize := vmap (\<lambda>a. a * s) (localBoxSize g),
             invLocalBoxSize := vmap (\<lambda>a. a / s) (invLocalBoxSize g),
             smallestLocalBoxDiameter := smallestLocalBoxDiameter g * s\<rparr>
      else g)"

definition ng_scaleVolumeV :: "nodegrid \<Rightarrow> real3d \<Rightarrow> nodegrid" where
  "ng_scaleVolumeV g s =
     (if vx s > 0 \<and> vy s > 0 \<and> vz s > 0
      then let lbs = vmap2 (*) (localBoxSize g) s in
        g\<lparr>localBoxSize := lbs, invLocalBoxSize := vmap2 (/) (invLocalBoxSize g) s,
          smallestLocalBoxDiameter := min3 lbs\<rparr>
      else g)"

section \<open>Stepping around the torus\<close>

lemma vupd_vnth_same [simp]: "i < 3 \<Longrightarrow> vupd v i (vnth v i) = v"
  unfolding less_3_cases by (elim disjE) simp_all

lemma vupd_vupd [simp]: "i < 3 \<Longrightarrow> vupd (vupd v i x) i y = vupd v i y"
  unfolding less_3_cases by (elim disjE) simp_all

lemma in_grid_iff_vnth: "in_grid g p \<longleftrightarrow> (\<forall>i<3. 0 \<le> vnth p i \<and> vnth p i < getGridSize g i)"
  unfolding less_3_cases in_grid_def getGridSize_def by auto

lemma neighborPos_in_grid:
  assumes "in_grid g np" "i < 3"
  shows "in_grid g (leftNeighborPos g np i)" "in_grid g (rightNeighborPos g np i)"
proof -
  have "0 \<le> vnth np i \<and> vnth np i < getGridSize g i" using assms by (auto simp: in_grid_iff_vnth)
  then show "in_grid g (leftNeighborPos g np i)" "in_grid g (rightNeighborPos g np i)"
    using assms by (auto simp: in_grid_iff_vnth leftNeighborPos_def rightNeighborPos_def Let_def
        vnth_vupd)
qed

lemma left_right_neighborPos:
  assumes "in_grid g np" "i < 3"
  shows "leftNeighborPos g (rightNeighborPos g np i) i = np"
    and "rightNeighborPos g (leftNeighborPos g np i) i = np"
proof -
  have "0 \<le> vnth np i" "vnth np i < getGridSize g i" using assms by (auto simp: in_grid_iff_vnth)
  then show "leftNeighborPos g (rightNeighborPos g np i) i = np"
    and "rightNeighborPos g (leftNeighborPos g np i) i = np"
    using assms(2)
    by (auto simp: leftNeighborPos_def rightNeighborPos_def Let_def vnth_vupd)
qed

lemma neighborPos_gsize:
  "gsize g = gsize h \<Longrightarrow> leftNeighborPos g np i = leftNeighborPos h np i"
  "gsize g = gsize h \<Longrightarrow> rightNeighborPos g np i = rightNeighborPos h np i"
  by (simp_all add: leftNeighborPos_def rightNeighborPos_def getGridSize_def Let_def)

section \<open>The constructor\<close>

lemma NodeGrid_new_sel:
  assumes "NodeGrid_new sz n d = Inr g"
  shows "gsize g = sz" "grid_ok g" "nodePos g = mapIndexToPosition g n"
    "localBoxSize g = vmap2 (\<lambda>a k. a / of_int k) d sz"
    "invLocalBoxSize g = vmap (\<lambda>l. 1 / l) (localBoxSize g)"
    "length (nodeNeighbors g) = 6" "length (boundaries g) = 6"
    and "i < 3 \<Longrightarrow> getNodeNeighborIndex g (2 * i)
        = mapPositionToIndexV g (leftNeighborPos g (nodePos g) i)"
    and "i < 3 \<Longrightarrow> getNodeNeighborIndex g (2 * i + 1)
        = mapPositionToIndexV g (rightNeighborPos g (nodePos g) i)"
proof -
  from assms have pos: "\<not> (vx sz \<le> 0 \<or> vy sz \<le> 0 \<or> vz sz \<le> 0)"
    by (auto simp: NodeGrid_new_def split: if_splits)
  with assms obtain h where g: "g = calcNodeNeighbors h n" and h: "gsize h = sz"
      "localBoxSize h = vmap2 (\<lambda>a k. a / of_int k) d sz"
      "invLocalBoxSize h = vmap (\<lambda>l. 1 / l) (localBoxSize h)"
    by (auto simp: NodeGrid_new_def Let_def)
  show sz: "gsize g = sz" and "grid_ok g" and np: "nodePos g = mapIndexToPosition g n"
    and "localBoxSize g = vmap2 (\<lambda>a k. a / of_int k) d sz"
    and "invLocalBoxSize g = vmap (\<lambda>l. 1 / l) (localBoxSize g)"
    and "length (nodeNeighbors g) = 6" and "length (boundaries g) = 6"
    using h pos
    by (auto simp: g calcNodeNeighbors_def Let_def grid_ok_def vall_def mapIndexToPosition_def)
  have idx: "mapPositionToIndexV h p = mapPositionToIndexV g p" for p
    by (simp add: mapPositionToIndexV_def mapPositionToIndex_def sz h(1))
  have nn: "nodeNeighbors g =
      [mapPositionToIndexV g (leftNeighborPos g (nodePos g) 0),
       mapPositionToIndexV g (rightNeighborPos g (nodePos g) 0),
       mapPositionToIndexV g (leftNeighborPos g (nodePos g) 1),
       mapPositionToIndexV g (rightNeighborPos g (nodePos g) 1),
       mapPositionToIndexV g (leftNeighborPos g (nodePos g) 2),
       mapPositionToIndexV g (rightNeighborPos g (nodePos g) 2)]"
    unfolding idx [symmetric] neighborPos_gsize [OF trans [OF sz h(1) [symmetric]]]
    by (simp add: g calcNodeNeighbors_def Let_def)
  show "getNodeNeighborIndex g (2 * i) = mapPositionToIndexV g (leftNeighborPos g (nodePos g) i)"
    if "i < 3"
    using that unfolding less_3_cases getNodeNeighborIndex_def nn by (elim disjE) simp_all
  show "getNodeNeighborIndex g (2 * i + 1)
      = mapPositionToIndexV g (rightNeighborPos g (nodePos g) i)" if "i < 3"
    using that unfolding less_3_cases getNodeNeighborIndex_def nn by (elim disjE) simp_all
qed

lemma index_gsize: "gsize g = gsize h \<Longrightarrow> mapPositionToIndexV g p = mapPositionToIndexV h p"
  by (simp add: mapPositionToIndexV_def mapPositionToIndex_def)

lemma NodeGrid_new_node:
  assumes "NodeGrid_new sz n d = Inr g" "0 \<le> n" "n < getNumberOfCells g"
  shows "in_grid g (nodePos g)" "mapPositionToIndexV g (nodePos g) = n"
  using position_index_inverse [OF NodeGrid_new_sel(2) [OF assms(1)] assms(2,3)]
    NodeGrid_new_sel(3) [OF assms(1)] by simp_all

lemma neighbors_symmetric:
  assumes "NodeGrid_new sz n d = Inr g" and "0 \<le> n" "n < getNumberOfCells g" and "i < 3"
    and "NodeGrid_new sz (getNodeNeighborIndex g (2 * i)) d = Inr gl"
    and "NodeGrid_new sz (getNodeNeighborIndex g (2 * i + 1)) d = Inr gr"
  shows "0 \<le> getNodeNeighborIndex g (2 * i) \<and> getNodeNeighborIndex g (2 * i) < getNumberOfCells g
    \<and> 0 \<le> getNodeNeighborIndex g (2 * i + 1)
    \<and> getNodeNeighborIndex g (2 * i + 1) < getNumberOfCells g
    \<and> getNodeNeighborIndex gl (2 * i + 1) = n \<and> getNodeNeighborIndex gr (2 * i) = n"
proof -
  note sel = NodeGrid_new_sel [OF assms(1)] and node = NodeGrid_new_node [OF assms(1-3)]
  let ?l = "leftNeighborPos g (nodePos g) i" and ?r = "rightNeighborPos g (nodePos g) i"
  note ing = neighborPos_in_grid [OF node(1) assms(4)]
  have gl: "gsize gl = gsize g" and gr: "gsize gr = gsize g"
    using NodeGrid_new_sel(1) [OF assms(5)] NodeGrid_new_sel(1) [OF assms(6)] sel(1) by simp_all
  have eqs: "mapIndexToPosition gl k = mapIndexToPosition g k"
      "mapIndexToPosition gr k = mapIndexToPosition g k" for k
    using gl gr by (simp_all add: mapIndexToPosition_def)
  have "nodePos gl = ?l"
    using NodeGrid_new_sel(3) [OF assms(5)] index_position_inverse [OF ing(1)] eqs(1)
      sel(8) [OF assms(4)] by simp
  then have "getNodeNeighborIndex gl (2 * i + 1) = n"
    using NodeGrid_new_sel(9) [OF assms(5,4)] left_right_neighborPos(2) [OF node(1) assms(4)]
      neighborPos_gsize(2) [OF gl] index_gsize [OF gl] node(2) by simp
  moreover have "nodePos gr = ?r"
    using NodeGrid_new_sel(3) [OF assms(6)] index_position_inverse [OF ing(2)] eqs(2)
      sel(9) [OF assms(4)] by simp
  then have "getNodeNeighborIndex gr (2 * i) = n"
    using NodeGrid_new_sel(8) [OF assms(6,4)] left_right_neighborPos(1) [OF node(1) assms(4)]
      neighborPos_gsize(1) [OF gr] index_gsize [OF gr] node(2) by simp
  ultimately show ?thesis
    using index_bounds [OF ing(1)] index_bounds [OF ing(2)] sel(8,9) [OF assms(4)] by simp
qed

lemma neighbors_apart:
  assumes "NodeGrid_new sz n d = Inr g" and "0 \<le> n" "n < getNumberOfCells g" and "i < 3"
    and "1 < getGridSize g i"
  shows "getNodeNeighborIndex g (2 * i) \<noteq> n" "getNodeNeighborIndex g (2 * i + 1) \<noteq> n"
proof -
  note sel = NodeGrid_new_sel [OF assms(1)] and node = NodeGrid_new_node [OF assms(1-3)]
  note ing = neighborPos_in_grid [OF node(1) assms(4)]
  have "leftNeighborPos g (nodePos g) i \<noteq> nodePos g" "rightNeighborPos g (nodePos g) i \<noteq> nodePos g"
    using assms(4,5) unfolding less_3_cases
    by (cases "nodePos g"; auto simp: leftNeighborPos_def rightNeighborPos_def Let_def split: if_splits)+
  then show "getNodeNeighborIndex g (2 * i) \<noteq> n" "getNodeNeighborIndex g (2 * i + 1) \<noteq> n"
    using sel(8,9) [OF assms(4)] index_position_inverse [OF ing(1)] index_position_inverse [OF ing(2)]
      index_position_inverse [OF node(1)] node(2) by metis+
qed

section \<open>Properties\<close>

text \<open>
  The neighbour table of \<^verbatim>\<open>NodeGrid::calcNodeNeighbors\<close> is consistent over the process
  grid: in each of the three directions every rank's left and right neighbours are valid
  ranks, and a rank is the left neighbour of its right neighbour and the right neighbour of
  its left neighbour, so that the paired sends and receives of the domain decomposition
  match.
\<close>

theorem nodegrid_neighbors_symmetric:
  assumes "NodeGrid_new sz n d = Inr g" and "0 \<le> n" "n < getNumberOfCells g" and "i < 3"
    and "NodeGrid_new sz (getNodeNeighborIndex g (2 * i)) d = Inr gl"
    and "NodeGrid_new sz (getNodeNeighborIndex g (2 * i + 1)) d = Inr gr"
  shows "0 \<le> getNodeNeighborIndex g (2 * i) \<and> getNodeNeighborIndex g (2 * i) < getNumberOfCells g
    \<and> 0 \<le> getNodeNeighborIndex g (2 * i + 1)
    \<and> getNodeNeighborIndex g (2 * i + 1) < getNumberOfCells g
    \<and> getNodeNeighborIndex gl (2 * i + 1) = n \<and> getNodeNeighborIndex gr (2 * i) = n"
  by (rule neighbors_symmetric [OF assms])

definition ng_example :: "int \<Rightarrow> nodegrid" where
  "ng_example n = (case NodeGrid_new (V3 3 1 1) n (V3 6 2 2) of Inr g \<Rightarrow> g | Inl _ \<Rightarrow> undefined)"

lemma ng_example_new: "NodeGrid_new (V3 3 1 1) n (V3 6 2 2) = Inr (ng_example n)"
  by (simp add: ng_example_def NodeGrid_new_def Let_def)

theorem nodegrid_neighbors_symmetric_witness:
  "getNodeNeighborIndex (ng_example (getNodeNeighborIndex (ng_example 2) 1)) 0 = 2"
proof -
  have "2 < getNumberOfCells (ng_example 2)"
    using NodeGrid_new_sel(1) [OF ng_example_new] by (simp add: getNumberOfCells_def)
  then show ?thesis
    using nodegrid_neighbors_symmetric [OF ng_example_new [of 2] _ _ _ ng_example_new
        ng_example_new, of 0] by simp
qed

text \<open>
  \<^verbatim>\<open>NodeGrid::mapPositionToNodeClipped\<close> sends every position it can cast to a valid rank,
  and a position inside the box of rank \<open>n\<close>, from \<^verbatim>\<open>getMyLeft\<close> up to but excluding
  \<^verbatim>\<open>getMyRight\<close>, to rank \<open>n\<close>: the boxes of the ranks are exactly the regions the map assigns
  to them.
\<close>

theorem nodegrid_position_owner:
  assumes new: "NodeGrid_new sz n d = Inr g" and d: "vall (\<lambda>x. 0 < x) d"
    and sz: "vall (\<lambda>k. k \<le> INT_MAX) sz" and n: "0 \<le> n" "n < getNumberOfCells g"
  shows "(\<forall>m. mapPositionToNodeClipped g pos = Some m \<longrightarrow> 0 \<le> m \<and> m < getNumberOfCells g)
    \<and> ((\<forall>i<3. ng_getMyLeft g i \<le> vnth pos i \<and> vnth pos i < ng_getMyRight g i)
        \<longrightarrow> mapPositionToNodeClipped g pos = Some n)"
proof (intro conjI allI impI)
  note sel = NodeGrid_new_sel [OF new]
  have gpos: "0 < getGridSize g i" if "i < 3" for i
    using sel(2) that by (auto simp: grid_ok_def vall_iff_vnth getGridSize_def)
  fix m assume "mapPositionToNodeClipped g pos = Some m"
  then obtain c0 c1 c2 where c: "nodeCoord g pos 0 = Some c0" "nodeCoord g pos 1 = Some c1"
      "nodeCoord g pos 2 = Some c2" "m = mapPositionToIndex g c0 c1 c2"
    by (auto simp: mapPositionToNodeClipped_def bind_eq_Some_conv)
  have "0 \<le> c \<and> c < getGridSize g i" if "nodeCoord g pos i = Some c" "i < 3" for i c
    using that gpos [OF that(2)] by (auto simp: nodeCoord_def bind_eq_Some_conv split: if_splits)
  from this [OF c(1)] this [OF c(2)] this [OF c(3)]
  have "in_grid g (V3 c0 c1 c2)" by (simp add: in_grid_def getGridSize_def)
  from index_bounds [OF this] show "0 \<le> m" "m < getNumberOfCells g"
    by (simp_all add: c(4) mapPositionToIndexV_def)
next
  note sel = NodeGrid_new_sel [OF new] and node = NodeGrid_new_node [OF new n]
  assume box: "\<forall>i<3. ng_getMyLeft g i \<le> vnth pos i \<and> vnth pos i < ng_getMyRight g i"
  have "nodeCoord g pos i = Some (vnth (nodePos g) i)" if i: "i < 3" for i
  proof -
    have r: "0 \<le> vnth (nodePos g) i" "vnth (nodePos g) i < getGridSize g i"
      using node(1) i by (auto simp: in_grid_iff_vnth)
    have gi: "getGridSize g i = vnth sz i" "0 < vnth sz i"
      using sel(1) r by (auto simp: getGridSize_def)
    have L: "0 < vnth (localBoxSize g) i"
      using d gi i by (simp add: sel(4) vnth_vmap2 vall_iff_vnth)
    let ?x = "vnth pos i * vnth (invLocalBoxSize g) i"
    have "of_int (vnth (nodePos g) i) \<le> ?x" "?x < of_int (vnth (nodePos g) i + 1)"
      using box i L by (auto simp: sel(5) ng_getMyLeft_def ng_getMyRight_def field_simps)
    then have "trunc_real ?x = vnth (nodePos g) i"
      using r(1) by (auto simp: trunc_real_def floor_unique intro!: order_trans [of 0])
    moreover have "fits_int (vnth (nodePos g) i)"
      using r gi sz i by (auto simp: vall_iff_vnth intro!: fits_intI)
    ultimately have "cast_int ?x = Some (vnth (nodePos g) i)" by (simp add: cast_int_Some)
    then show ?thesis using r by (simp add: nodeCoord_def)
  qed
  then show "mapPositionToNodeClipped g pos = Some n"
    using node(2) by (simp add: mapPositionToNodeClipped_def mapPositionToIndexV_def)
qed

theorem nodegrid_position_owner_witness:
  "mapPositionToNodeClipped (ng_example 1) (V3 3 1 1) = Some 1"
proof -
  note sel = NodeGrid_new_sel [OF ng_example_new [of 1]]
  have np: "nodePos (ng_example 1) = V3 1 0 0"
    by (simp add: sel(3) mapIndexToPosition_def sel(1) c_div_def c_mod_def)
  have box: "\<forall>i<3. ng_getMyLeft (ng_example 1) i \<le> vnth (V3 3 1 1) i
      \<and> vnth (V3 3 1 1) i < ng_getMyRight (ng_example 1) i"
    unfolding less_3_cases by (auto simp: ng_getMyLeft_def ng_getMyRight_def np sel(4))
  have "1 < getNumberOfCells (ng_example 1)" by (simp add: getNumberOfCells_def sel(1))
  then show ?thesis
    using nodegrid_position_owner [OF ng_example_new, of 1 "V3 3 1 1"] box
    by (simp add: vall_def INT_MAX_def)
qed

end
