(* ===== verification/DomainCells.thy ===== *)
theory DomainCells
  imports NodeGrid CellIterators StorageComm
begin

text \<open>
  \<^verbatim>\<open>src/src/storage/DomainDecomposition.hpp\<close> and \<^verbatim>\<open>.cpp\<close>, the static part: the cell grid with its
  ghost frame, which cells are real and which ghosts, the neighbors of a cell, and which cells
  take part in each of the six communication steps.  A cell is its index in \<^verbatim>\<open>cells\<close>.

  An operation can throw (\<open>Inl\<close>) or run into undefined behaviour: a failed cast, a failed buffer
  operation, or a 32-bit number of cells that overflows (\<open>None\<close>).
\<close>

datatype dd_error = DdNodeGrid nodegrid_error | DdCellGrid cellgrid_error | NodeGridMismatch
  | FillCellsError | CellStructureMismatch | SystemTooSmall

type_synonym 'a res = "(dd_error + 'a) option"

definition rbind :: "'a res \<Rightarrow> ('a \<Rightarrow> 'b res) \<Rightarrow> 'b res" where
  "rbind r f = (case r of None \<Rightarrow> None | Some (Inl e) \<Rightarrow> Some (Inl e) | Some (Inr x) \<Rightarrow> f x)"

definition rlift :: "'a option \<Rightarrow> 'a res" where
  "rlift r = map_option Inr r"

fun rfold :: "('x \<Rightarrow> 's \<Rightarrow> 's res) \<Rightarrow> 'x list \<Rightarrow> 's \<Rightarrow> 's res" where
  "rfold f [] s = Some (Inr s)"
| "rfold f (x # xs) s = rbind (f x s) (rfold f xs)"

lemma rbind_simps [simp]:
  "rbind None f = None" "rbind (Some (Inl e)) f = Some (Inl e)" "rbind (Some (Inr x)) f = f x"
  by (simp_all add: rbind_def)

lemma rlift_simps [simp]: "rlift None = None" "rlift (Some x) = Some (Inr x)"
  by (simp_all add: rlift_def)

lemma rbind_Inr: "rbind r f = Some (Inr y) \<longleftrightarrow> (\<exists>x. r = Some (Inr x) \<and> f x = Some (Inr y))"
  by (auto simp: rbind_def split: option.splits sum.splits)

lemma rlift_Inr: "rlift r = Some (Inr x) \<longleftrightarrow> r = Some x"
  by (cases r) simp_all

record domdec =
  dd_node :: nodegrid
  dd_cell :: cellgrid
  neighborCells :: "nat \<Rightarrow> neighborcellinfo list"
  commReals :: "nat \<Rightarrow> nat list"
  commGhosts :: "nat \<Rightarrow> nat list"
  exchangeBufferSize :: nat
  dd_st :: storage

section \<open>Loops over boxes of cells\<close>

text \<open>\<^verbatim>\<open>for o in z, n in y, m in x\<close>, over half-open intervals.\<close>

definition box_loop :: "int3d \<Rightarrow> int3d \<Rightarrow> int3d list" where
  "box_loop lo hi =
     concat (map (\<lambda>z. concat (map (\<lambda>y. map (\<lambda>x. V3 x y z) [vx lo..vx hi - 1]) [vy lo..vy hi - 1]))
       [vz lo..vz hi - 1])"

text \<open>\<^verbatim>\<open>fillCells\<close> loops with the first coordinate outermost.\<close>

definition fill_loop :: "int3d \<Rightarrow> int3d \<Rightarrow> int3d list" where
  "fill_loop lo hi =
     concat (map (\<lambda>x. concat (map (\<lambda>y. map (\<lambda>z. V3 x y z) [vz lo..vz hi - 1]) [vy lo..vy hi - 1]))
       [vx lo..vx hi - 1])"

definition in_box :: "int3d \<Rightarrow> int3d \<Rightarrow> int3d \<Rightarrow> bool" where
  "in_box lo hi p \<longleftrightarrow> vx lo \<le> vx p \<and> vx p < vx hi \<and> vy lo \<le> vy p \<and> vy p < vy hi
     \<and> vz lo \<le> vz p \<and> vz p < vz hi"

definition cidx :: "'a grid_scheme \<Rightarrow> int3d \<Rightarrow> nat" where
  "cidx g p = nat (mapPositionToIndexV g p)"

definition inner_lo :: "cellgrid \<Rightarrow> int3d" where
  "inner_lo cg = V3 (getInnerCellsBegin cg 0) (getInnerCellsBegin cg 1) (getInnerCellsBegin cg 2)"

definition inner_hi :: "cellgrid \<Rightarrow> int3d" where
  "inner_hi cg = V3 (getInnerCellsEnd cg 0) (getInnerCellsEnd cg 1) (getInnerCellsEnd cg 2)"

definition frame_hi :: "cellgrid \<Rightarrow> int3d" where
  "frame_hi cg = V3 (getFrameGridSize cg 0) (getFrameGridSize cg 1) (getFrameGridSize cg 2)"

section \<open>The cells\<close>

definition markCells :: "domdec \<Rightarrow> domdec" where
  "markCells dd =
     (let cg = dd_cell dd; ps = box_loop (V3 0 0 0) (frame_hi cg);
          inner = (\<lambda>p. isInnerCell cg (vx p) (vy p) (vz p))
      in dd\<lparr>dd_st := (dd_st dd)
             \<lparr>realCells := map (cidx cg) (filter inner ps),
              ghostCells := map (cidx cg) (filter (\<lambda>p. \<not> inner p) ps)\<rparr>\<rparr>)"

text \<open>
  The products of the sizes are 32 bits wide; \<^verbatim>\<open>nRealCells\<close> is the same product as \<^verbatim>\<open>nLocalCells\<close>.  No
  index on a node grid whose number of cells fits overflows, so a node grid too large is undefined as a whole.
\<close>

definition createCellGrid :: "int \<Rightarrow> int \<Rightarrow> real3d \<Rightarrow> int3d \<Rightarrow> int3d \<Rightarrow> domdec \<Rightarrow> domdec res" where
  "createCellGrid rank commSize L ngs cgs dd =
     (case NodeGrid_new ngs rank L of
        Inl e \<Rightarrow> Some (Inl (DdNodeGrid e))
      | Inr ng \<Rightarrow>
          rbind (rlift (getNumberOfCells32 ng)) (\<lambda>n.
          if n \<noteq> commSize then Some (Inl NodeGridMismatch)
          else rbind (rlift (CellGrid_new cgs (ng_getMyLeftV ng) (ng_getMyRightV ng) 1)) (\<lambda>r. case r of
                 Inl e \<Rightarrow> Some (Inl (DdCellGrid e))
               | Inr cg \<Rightarrow>
                   rbind (rlift (getNumberOfCells32 cg)) (\<lambda>nLocalCells.
                   let dd = dd\<lparr>dd_node := ng, dd_cell := cg,
                              dd_st := resizeCells (dd_st dd) (nat nLocalCells)\<rparr>
                   in Some (Inr (markCells dd))))))"

definition neighbor_list :: "cellgrid \<Rightarrow> int3d \<Rightarrow> neighborcellinfo list" where
  "neighbor_list cg p =
     map (\<lambda>q. \<lparr>nc_cell = cidx cg q,
                useForAllPairs = (mapPositionToIndexV cg q < mapPositionToIndexV cg p)\<rparr>)
       (filter (\<lambda>q. vz q \<noteq> vz p \<or> vy q \<noteq> vy p \<or> vx q \<noteq> vx p)
         (box_loop (V3 (vx p - 1) (vy p - 1) (vz p - 1)) (V3 (vx p + 2) (vy p + 2) (vz p + 2))))"

definition initCellInteractions :: "domdec \<Rightarrow> domdec" where
  "initCellInteractions dd =
     (let cg = dd_cell dd in
      dd\<lparr>neighborCells :=
           fold (\<lambda>p nb. nb(cidx cg p := nb (cidx cg p) @ neighbor_list cg p))
             (box_loop (inner_lo cg) (inner_hi cg)) (neighborCells dd)\<rparr>)"

section \<open>The communication steps\<close>

definition fillCells :: "cellgrid \<Rightarrow> nat list \<Rightarrow> int3d \<Rightarrow> int3d \<Rightarrow> dd_error + nat list" where
  "fillCells cg cv leftBoundary rightBoundary =
     (if list_ex (\<lambda>i. vnth leftBoundary i < 0 \<or> vnth leftBoundary i > getFrameGridSize cg i
          \<or> vnth rightBoundary i < 0 \<or> vnth rightBoundary i > getFrameGridSize cg i
          \<or> vnth leftBoundary i \<ge> vnth rightBoundary i) [0, 1, 2]
      then Inl FillCellsError
      else Inr (cv @ map (cidx cg) (fill_loop leftBoundary rightBoundary)))"

text \<open>The boundaries in the two directions other than \<open>coord\<close>.\<close>

definition other_bounds :: "cellgrid \<Rightarrow> nat \<Rightarrow> int3d \<times> int3d \<Rightarrow> int3d \<times> int3d" where
  "other_bounds cg coord =
     fold (\<lambda>offset (lb, rb).
         let oc = (coord + offset) mod 3 in
         if oc < coord then (vupd lb oc 0, vupd rb oc (getFrameGridSize cg oc))
         else (vupd lb oc (getInnerCellsBegin cg oc), vupd rb oc (getInnerCellsEnd cg oc)))
       [1, 2]"

definition reals_bounds :: "cellgrid \<Rightarrow> nat \<Rightarrow> nat \<Rightarrow> int3d \<times> int3d \<Rightarrow> int3d \<times> int3d" where
  "reals_bounds cg coord lr b =
     (if lr = 0
      then (vupd (fst b) coord (getInnerCellsBegin cg coord),
            vupd (snd b) coord (getInnerCellsBegin cg coord + frame cg))
      else (vupd (fst b) coord (getInnerCellsEnd cg coord - frame cg),
            vupd (snd b) coord (getInnerCellsEnd cg coord)))"

definition ghosts_bounds :: "cellgrid \<Rightarrow> nat \<Rightarrow> nat \<Rightarrow> int3d \<times> int3d \<Rightarrow> int3d \<times> int3d" where
  "ghosts_bounds cg coord lr b =
     (if lr = 0
      then (vupd (fst b) coord (getInnerCellsEnd cg coord),
            vupd (snd b) coord (getInnerCellsEnd cg coord + frame cg))
      else (vupd (fst b) coord (getInnerCellsBegin cg coord - frame cg),
            vupd (snd b) coord (getInnerCellsBegin cg coord)))"

definition prepare_dir :: "nat \<Rightarrow> nat \<Rightarrow> (int3d \<times> int3d) \<times> domdec \<Rightarrow> dd_error + (int3d \<times> int3d) \<times> domdec" where
  "prepare_dir coord lr s =
     (let (b, dd) = s; dir = 2 * coord + lr; cg = dd_cell dd; b = reals_bounds cg coord lr b in
      ebind (fillCells cg (commReals dd dir) (fst b) (snd b)) (\<lambda>rs.
      let b = ghosts_bounds cg coord lr b in
      ebind (fillCells cg (commGhosts dd dir) (fst b) (snd b)) (\<lambda>gs.
      Inr (b, dd\<lparr>commReals := (commReals dd)(dir := rs), commGhosts := (commGhosts dd)(dir := gs)\<rparr>))))"

definition prepare_coord :: "nat \<Rightarrow> (int3d \<times> int3d) \<times> domdec \<Rightarrow> dd_error + (int3d \<times> int3d) \<times> domdec" where
  "prepare_coord coord s =
     (let (b, dd) = s; b = other_bounds (dd_cell dd) coord b in
      ebind (prepare_dir coord 0 (b, dd)) (prepare_dir coord 1))"

text \<open>The arrays start uninitialised (\<open>b0\<close>); every component is set before it is read.\<close>

definition prepareGhostCommunication :: "int3d \<times> int3d \<Rightarrow> domdec \<Rightarrow> dd_error + domdec" where
  "prepareGhostCommunication b0 dd =
     ebind (ebind (ebind (prepare_coord 0 (b0, dd)) (prepare_coord 1)) (prepare_coord 2))
       (\<lambda>(b, dd). Inr dd)"

text \<open>The constructor; \<open>node0\<close> and \<open>cell0\<close> are the default-constructed grids.\<close>

definition DomainDecomposition_new ::
  "nodegrid \<Rightarrow> cellgrid \<Rightarrow> int3d \<times> int3d \<Rightarrow> int \<Rightarrow> int \<Rightarrow> real3d \<Rightarrow> int3d \<Rightarrow> int3d \<Rightarrow> domdec res" where
  "DomainDecomposition_new node0 cell0 b0 rank commSize L ngs cgs =
     rbind (createCellGrid rank commSize L ngs cgs
        \<lparr>dd_node = node0, dd_cell = cell0, neighborCells = (\<lambda>_. []), commReals = (\<lambda>_. []),
         commGhosts = (\<lambda>_. []), exchangeBufferSize = 0, dd_st = Storage_new\<rparr>)
       (\<lambda>dd. Some (prepareGhostCommunication b0 (initCellInteractions dd)))"

section \<open>Which cell, which process\<close>

text \<open>A cell pointer is an index; the outer \<open>option\<close> is a failed cast, the inner one the null pointer.\<close>

definition dd_mapPositionToCell :: "domdec \<Rightarrow> real3d \<Rightarrow> nat option" where
  "dd_mapPositionToCell dd pos = map_option nat (mapPositionToCell (dd_cell dd) pos)"

definition dd_mapPositionToCellClipped :: "domdec \<Rightarrow> real3d \<Rightarrow> nat option" where
  "dd_mapPositionToCellClipped dd pos = map_option nat (mapPositionToCellClipped (dd_cell dd) pos)"

definition dd_mapPositionToCellChecked :: "domdec \<Rightarrow> real3d \<Rightarrow> nat option option" where
  "dd_mapPositionToCellChecked dd pos =
     map_option (\<lambda>c. if c = noCell then None else Some (nat c)) (mapPositionToCellChecked (dd_cell dd) pos)"

definition dd_mapPositionToNodeClipped :: "domdec \<Rightarrow> real3d \<Rightarrow> longint option" where
  "dd_mapPositionToNodeClipped dd pos = mapPositionToNodeClipped (dd_node dd) pos"

definition checkIsRealParticle :: "int \<Rightarrow> domdec \<Rightarrow> real3d \<Rightarrow> bool option" where
  "checkIsRealParticle rank dd pos = map_option (\<lambda>n. rank = n) (dd_mapPositionToNodeClipped dd pos)"

definition getInt3DCellGrid :: "domdec \<Rightarrow> int3d" where
  "getInt3DCellGrid dd =
     V3 (getInnerGridSize (dd_cell dd) 0) (getInnerGridSize (dd_cell dd) 1) (getInnerGridSize (dd_cell dd) 2)"

definition getInt3DNodeGrid :: "domdec \<Rightarrow> int3d" where
  "getInt3DNodeGrid dd =
     V3 (getGridSize (dd_node dd) 0) (getGridSize (dd_node dd) 1) (getGridSize (dd_node dd) 2)"

section \<open>The loops and the index\<close>

lemma set_box_loop [simp]: "set (box_loop lo hi) = {p. in_box lo hi p}"
proof (intro set_eqI iffI)
  fix p
  show "p \<in> set (box_loop lo hi) \<Longrightarrow> p \<in> {p. in_box lo hi p}"
    by (auto simp: box_loop_def in_box_def)
  show "p \<in> {p. in_box lo hi p} \<Longrightarrow> p \<in> set (box_loop lo hi)"
    by (cases p) (force simp: box_loop_def in_box_def image_iff)
qed

lemma set_fill_loop [simp]: "set (fill_loop lo hi) = {p. in_box lo hi p}"
proof (intro set_eqI iffI)
  fix p
  show "p \<in> set (fill_loop lo hi) \<Longrightarrow> p \<in> {p. in_box lo hi p}"
    by (auto simp: fill_loop_def in_box_def)
  show "p \<in> {p. in_box lo hi p} \<Longrightarrow> p \<in> set (fill_loop lo hi)"
    by (cases p) (force simp: fill_loop_def in_box_def image_iff)
qed

lemma distinct_box_loop [simp]: "distinct (box_loop lo hi)"
  unfolding box_loop_def
  by (intro distinct_concat_map) (auto simp: distinct_map inj_on_def)

lemma distinct_fill_loop [simp]: "distinct (fill_loop lo hi)"
  unfolding fill_loop_def
  by (intro distinct_concat_map) (auto simp: distinct_map inj_on_def)

definition box_volume :: "int3d \<Rightarrow> int3d \<Rightarrow> nat" where
  "box_volume lo hi = nat (vx hi - vx lo) * nat (vy hi - vy lo) * nat (vz hi - vz lo)"

lemma length_box_loop [simp]: "length (box_loop lo hi) = box_volume lo hi"
proof -
  have "length (concat (map (\<lambda>y. map (\<lambda>x. V3 x y z) [vx lo..vx hi - 1]) [vy lo..vy hi - 1]))
      = nat (vx hi - vx lo) * nat (vy hi - vy lo)" for z
    by (subst length_concat_const [where w = "nat (vx hi - vx lo)"]) simp_all
  then show ?thesis
    unfolding box_loop_def box_volume_def
    by (subst length_concat_const [where w = "nat (vx hi - vx lo) * nat (vy hi - vy lo)"]) simp_all
qed

lemma length_fill_loop [simp]: "length (fill_loop lo hi) = box_volume lo hi"
proof -
  have "set (fill_loop lo hi) = set (box_loop lo hi)" by simp
  then show ?thesis
    by (metis distinct_box_loop distinct_card distinct_fill_loop length_box_loop)
qed

lemma card_in_box: "card {p. in_box lo hi p} = box_volume lo hi"
  by (metis distinct_box_loop distinct_card length_box_loop set_box_loop)

lemma finite_in_box [simp]: "finite {p. in_box lo hi p}"
  by (metis List.finite_set set_box_loop)

lemma in_grid_frame: "in_grid cg p \<longleftrightarrow> in_box (V3 0 0 0) (frame_hi cg) p"
  by (auto simp: in_grid_def in_box_def frame_hi_def getFrameGridSize_def getGridSize_def)

lemma cidx_inj: "in_grid g p \<Longrightarrow> in_grid g q \<Longrightarrow> cidx g p = cidx g q \<longleftrightarrow> p = q"
  using index_bounds [of g p] index_bounds [of g q] mapPositionToIndexV_inj [of g p q]
  by (auto simp: cidx_def)

lemma cidx_less: "in_grid g p \<Longrightarrow> cidx g p < nat (getNumberOfCells g)"
  using index_bounds [of g p] by (auto simp: cidx_def)

lemma cidx_inj_on: "(\<And>p. p \<in> A \<Longrightarrow> in_grid g p) \<Longrightarrow> inj_on (cidx g) A"
  by (rule inj_onI) (simp add: cidx_inj)

lemma cidx_surj: "grid_ok g \<Longrightarrow> c < nat (getNumberOfCells g) \<Longrightarrow> \<exists>p. in_grid g p \<and> cidx g p = c"
  using position_index_inverse [of g "int c"]
  by (intro exI [of _ "mapIndexToPosition g (int c)"]) (auto simp: cidx_def)

section \<open>Well-formed cells\<close>

definition dd_wf :: "cellgrid \<Rightarrow> bool" where
  "dd_wf cg \<longleftrightarrow> cellgrid_wf cg \<and> frame cg = 1"

lemma inner_box: "isInnerCell cg (vx p) (vy p) (vz p) \<longleftrightarrow> in_box (inner_lo cg) (inner_hi cg) p"
  by (auto simp: isInnerCell_def in_box_def inner_lo_def inner_hi_def)

lemma dd_wf_sizes:
  assumes "dd_wf cg"
  shows "getInnerCellsBegin cg i = 1" "getInnerCellsEnd cg i = getFrameGridSize cg i - 1"
    "getInnerGridSize cg i = getFrameGridSize cg i - 2"
    "i < 3 \<Longrightarrow> 3 \<le> getFrameGridSize cg i"
proof -
  from assms have w: "cellgrid_wf cg" and f: "frame cg = 1" by (simp_all add: dd_wf_def)
  from w f have e: "extraSize cg = 2" by (simp add: cellgrid_wf_def)
  show b: "getInnerCellsBegin cg i = 1" by (simp add: getInnerCellsBegin_def f)
  show "getInnerCellsEnd cg i = getFrameGridSize cg i - 1"
    by (simp add: getInnerCellsEnd_def getFrameGridSize_def f)
  show g: "getInnerGridSize cg i = getFrameGridSize cg i - 2"
    by (simp add: getInnerGridSize_def getFrameGridSize_def e)
  show "3 \<le> getFrameGridSize cg i" if "i < 3"
    using cellgrid_wfD(3) [OF w that] g by simp
qed

lemma inner_in_grid: "dd_wf cg \<Longrightarrow> in_box (inner_lo cg) (inner_hi cg) p \<Longrightarrow> in_grid cg p"
  using dd_wf_sizes(4) [of cg 0] dd_wf_sizes(4) [of cg 1] dd_wf_sizes(4) [of cg 2]
  by (simp add: in_grid_frame in_box_def inner_lo_def inner_hi_def frame_hi_def dd_wf_sizes(1,2))

lemma dd_wf_grid_ok: "dd_wf cg \<Longrightarrow> grid_ok cg"
  using dd_wf_sizes(4) [of cg 0] dd_wf_sizes(4) [of cg 1] dd_wf_sizes(4) [of cg 2]
  by (auto simp: grid_ok_def vall_def getFrameGridSize_def getGridSize_def)

lemma frame_volume:
  "dd_wf cg \<Longrightarrow> box_volume (V3 0 0 0) (frame_hi cg) = nat (getNumberOfCells cg)"
  using dd_wf_sizes(4) [of cg 0] dd_wf_sizes(4) [of cg 1] dd_wf_sizes(4) [of cg 2]
  by (simp add: box_volume_def frame_hi_def getNumberOfCells_def getFrameGridSize_def getGridSize_def
      nat_mult_distrib)

lemma inner_volume:
  assumes "dd_wf cg"
  shows "box_volume (inner_lo cg) (inner_hi cg) = nat (getNumberOfInnerCells cg)"
proof -
  have "0 \<le> getInnerGridSize cg i" if "i < 3" for i
    using dd_wf_sizes(3,4) [OF assms, of i] that by simp
  from this [of 0] this [of 1] this [of 2] show ?thesis
    by (simp add: box_volume_def inner_lo_def inner_hi_def getNumberOfInnerCells_def
        dd_wf_sizes(1-3) [OF assms] nat_mult_distrib)
qed

lemma createCellGrid_spec:
  assumes new: "createCellGrid rank commSize L ngs cgs dd = Some (Inr dd')"
    and L: "0 < vx L" "0 < vy L" "0 < vz L"
  shows "dd_wf (dd_cell dd') \<and> (\<exists>st n. dd' = markCells (dd\<lparr>dd_node := dd_node dd', dd_cell := dd_cell dd',
      dd_st := resizeCells st n\<rparr>) \<and> st = dd_st dd \<and> n = nat (getNumberOfCells (dd_cell dd')))
    \<and> NodeGrid_new ngs rank L = Inr (dd_node dd') \<and> getNumberOfCells (dd_node dd') = commSize
    \<and> CellGrid_new cgs (ng_getMyLeftV (dd_node dd')) (ng_getMyRightV (dd_node dd')) 1 = Some (Inr (dd_cell dd'))
    \<and> getNumberOfCells (dd_cell dd') \<le> INT_MAX
    \<and> (\<forall>i<3. getInnerGridSize (dd_cell dd') i = vnth cgs i)"
proof -
  obtain ng where r: "NodeGrid_new ngs rank L = Inr ng" using new by (auto simp: createCellGrid_def split: sum.splits)
  obtain n r0 where n: "getNumberOfCells32 ng = Some commSize" "CellGrid_new cgs (ng_getMyLeftV ng) (ng_getMyRightV ng) 1 = Some r0"
    using new by (auto simp: createCellGrid_def r rbind_Inr rlift_Inr split: if_splits)
  obtain cg where "r0 = Inr cg" using new by (cases r0) (auto simp: createCellGrid_def r n)
  with n obtain N where N: "getNumberOfCells32 cg = Some N" "CellGrid_new cgs (ng_getMyLeftV ng) (ng_getMyRightV ng) 1 = Some (Inr cg)"
    using new by (auto simp: createCellGrid_def r rbind_Inr rlift_Inr)
  have ng: "NodeGrid_new ngs rank L = Inr ng" "getNumberOfCells ng = commSize"
    using r getNumberOfCells32_Some [OF n(1)] by simp_all
  have cg: "CellGrid_new cgs (ng_getMyLeftV ng) (ng_getMyRightV ng) 1 = Some (Inr cg)" "getNumberOfCells cg \<le> INT_MAX"
    and dd': "dd' = markCells (dd\<lparr>dd_node := ng, dd_cell := cg,
        dd_st := resizeCells (dd_st dd) (nat (getNumberOfCells cg))\<rparr>)"
    using N(2) getNumberOfCells32_Some [OF N(1)] new by (simp_all add: createCellGrid_def Let_def r n(1) N)
  have sel: "dd_node dd' = ng" "dd_cell dd' = cg" by (simp_all add: dd' markCells_def Let_def)
  note ngs = NodeGrid_new_sel [OF ng(1)]
  have lbs: "0 < vnth (localBoxSize ng) i" if "i < 3" for i
    using that L ngs(2) unfolding ngs(4) ngs(1) [symmetric] less_3_cases grid_ok_def vall_def by auto
  have lr: "vnth (ng_getMyLeftV ng) i < vnth (ng_getMyRightV ng) i" if "i < 3" for i
    using lbs [OF that] that unfolding less_3_cases
    by (auto simp: ng_getMyLeftV_def ng_getMyRightV_def ng_getMyLeft_def ng_getMyRight_def algebra_simps)
  note w = CellGrid_new_wf [OF cg(1) _ lr]
  have "dd' = markCells (dd\<lparr>dd_node := dd_node dd', dd_cell := dd_cell dd',
      dd_st := resizeCells (dd_st dd) (nat (getNumberOfCells (dd_cell dd')))\<rparr>)"
    unfolding sel by (rule dd')
  then show ?thesis using w ng cg sel unfolding dd_wf_def by auto
qed

lemma markCells_sel [simp]:
  "dd_cell (markCells dd) = dd_cell dd" "dd_node (markCells dd) = dd_node dd"
  "neighborCells (markCells dd) = neighborCells dd" "commReals (markCells dd) = commReals dd"
  "commGhosts (markCells dd) = commGhosts dd" "vecs (dd_st (markCells dd)) = vecs (dd_st dd)"
  "localCells (dd_st (markCells dd)) = localCells (dd_st dd)"
  by (simp_all add: markCells_def Let_def)

lemma realCells_set:
  "dd_wf (dd_cell dd) \<Longrightarrow> set (realCells (dd_st (markCells dd)))
    = cidx (dd_cell dd) ` {p. in_box (inner_lo (dd_cell dd)) (inner_hi (dd_cell dd)) p}"
  using inner_in_grid [of "dd_cell dd"] by (auto simp: markCells_def Let_def inner_box in_grid_frame)

lemma ghostCells_set:
  "set (ghostCells (dd_st (markCells dd)))
    = cidx (dd_cell dd) ` {p. in_grid (dd_cell dd) p \<and> \<not> in_box (inner_lo (dd_cell dd)) (inner_hi (dd_cell dd)) p}"
  by (auto simp: markCells_def Let_def inner_box in_grid_frame)

lemma cells_distinct:
  "dd_wf (dd_cell dd) \<Longrightarrow> distinct (realCells (dd_st (markCells dd)))
    \<and> distinct (ghostCells (dd_st (markCells dd)))"
  by (auto simp: markCells_def Let_def distinct_map in_grid_frame [symmetric]
      intro!: cidx_inj_on)

lemma realCells_length:
  assumes "dd_wf (dd_cell dd)"
  shows "length (realCells (dd_st (markCells dd))) = nat (getNumberOfInnerCells (dd_cell dd))"
proof -
  have "length (realCells (dd_st (markCells dd)))
      = card (cidx (dd_cell dd) ` {p. in_box (inner_lo (dd_cell dd)) (inner_hi (dd_cell dd)) p})"
    using cells_distinct [OF assms] realCells_set [OF assms] by (metis distinct_card)
  also have "\<dots> = card {p. in_box (inner_lo (dd_cell dd)) (inner_hi (dd_cell dd)) p}"
    by (rule card_image) (auto intro!: cidx_inj_on inner_in_grid [OF assms])
  finally show ?thesis by (simp add: card_in_box inner_volume [OF assms])
qed

lemma all_cells_listed:
  assumes wf: "dd_wf cg"
  shows "mset (map (cidx cg) (box_loop (V3 0 0 0) (frame_hi cg))) = mset [0..<nat (getNumberOfCells cg)]"
proof -
  let ?l = "map (cidx cg) (box_loop (V3 0 0 0) (frame_hi cg))"
  have "distinct ?l"
    by (auto simp: distinct_map in_grid_frame [symmetric] intro!: cidx_inj_on)
  moreover have "set ?l = set [0..<nat (getNumberOfCells cg)]"
  proof (intro set_eqI iffI)
    fix c
    show "c \<in> set [0..<nat (getNumberOfCells cg)]" if "c \<in> set ?l"
      using that cidx_less [of cg] by (auto simp: in_grid_frame [symmetric])
    show "c \<in> set ?l" if "c \<in> set [0..<nat (getNumberOfCells cg)]"
      using that cidx_surj [OF dd_wf_grid_ok [OF wf], of c] by (auto simp: in_grid_frame [symmetric])
  qed
  ultimately show ?thesis by (metis distinct_upt set_eq_iff_mset_eq_distinct)
qed

lemma mset_real_ghost:
  assumes "dd_wf (dd_cell dd)"
  shows "mset (realCells (dd_st (markCells dd))) + mset (ghostCells (dd_st (markCells dd)))
    = mset [0..<nat (getNumberOfCells (dd_cell dd))]"
proof -
  let ?cg = "dd_cell dd"
  let ?in = "\<lambda>p. isInnerCell ?cg (vx p) (vy p) (vz p)" and ?ps = "box_loop (V3 0 0 0) (frame_hi ?cg)"
  have "mset (realCells (dd_st (markCells dd))) + mset (ghostCells (dd_st (markCells dd)))
      = image_mset (cidx ?cg) (mset (filter ?in ?ps) + mset (filter (\<lambda>p. \<not> ?in p) ?ps))"
    unfolding markCells_def Let_def by (simp del: mset_filter)
  also have "\<dots> = mset (map (cidx ?cg) ?ps)" by (simp only: mset_filter_split mset_map)
  finally show ?thesis by (simp only: all_cells_listed [OF assms])
qed

section \<open>Neighbors\<close>

definition adjacent :: "int3d \<Rightarrow> int3d \<Rightarrow> bool" where
  "adjacent p q \<longleftrightarrow> p \<noteq> q \<and> \<bar>vx p - vx q\<bar> \<le> 1 \<and> \<bar>vy p - vy q\<bar> \<le> 1 \<and> \<bar>vz p - vz q\<bar> \<le> 1"

lemma adjacent_sym: "adjacent p q \<longleftrightarrow> adjacent q p"
  by (auto simp: adjacent_def abs_minus_commute)

lemma inner_adjacent_in_grid:
  assumes "dd_wf cg" "in_box (inner_lo cg) (inner_hi cg) p" "adjacent p q"
  shows "in_grid cg q"
  using assms(2,3)
  by (simp add: in_grid_frame in_box_def inner_lo_def inner_hi_def frame_hi_def adjacent_def
      dd_wf_sizes(1,2) [OF assms(1)] abs_le_iff)

definition neighbor_positions :: "int3d \<Rightarrow> int3d list" where
  "neighbor_positions p = filter (\<lambda>q. vz q \<noteq> vz p \<or> vy q \<noteq> vy p \<or> vx q \<noteq> vx p)
     (box_loop (V3 (vx p - 1) (vy p - 1) (vz p - 1)) (V3 (vx p + 2) (vy p + 2) (vz p + 2)))"

lemma neighbor_list_eq:
  "neighbor_list cg p = map (\<lambda>q. \<lparr>nc_cell = cidx cg q,
     useForAllPairs = (mapPositionToIndexV cg q < mapPositionToIndexV cg p)\<rparr>) (neighbor_positions p)"
  by (simp add: neighbor_list_def neighbor_positions_def)

lemma set_neighbor_positions: "set (neighbor_positions p) = {q. adjacent p q}"
  by (auto simp: neighbor_positions_def in_box_def adjacent_def abs_le_iff vec3.expand)

lemma distinct_neighbor_positions: "distinct (neighbor_positions p)"
  by (simp add: neighbor_positions_def)

lemma length_neighbor_positions: "length (neighbor_positions p) = 26"
proof -
  let ?l = "box_loop (V3 (vx p - 1) (vy p - 1) (vz p - 1)) (V3 (vx p + 2) (vy p + 2) (vz p + 2))"
  have "length (filter (\<lambda>q. \<not> (vz q \<noteq> vz p \<or> vy q \<noteq> vy p \<or> vx q \<noteq> vx p)) ?l) = 1"
  proof -
    have "set (filter (\<lambda>q. \<not> (vz q \<noteq> vz p \<or> vy q \<noteq> vy p \<or> vx q \<noteq> vx p)) ?l) = {p}"
      by (auto simp: in_box_def vec3.expand)
    moreover have "distinct (filter (\<lambda>q. \<not> (vz q \<noteq> vz p \<or> vy q \<noteq> vy p \<or> vx q \<noteq> vx p)) ?l)" by simp
    ultimately show ?thesis using distinct_card by fastforce
  qed
  moreover have "length ?l = 27" by (simp add: box_volume_def)
  ultimately show ?thesis
    using sum_length_filter_compl [of "\<lambda>q. vz q \<noteq> vz p \<or> vy q \<noteq> vy p \<or> vx q \<noteq> vx p" ?l]
    by (simp add: neighbor_positions_def)
qed

lemma fold_upd_append:
  assumes "distinct (map f ps)"
  shows "fold (\<lambda>p nb. nb(f p := nb (f p) @ g p)) ps nb c
    = nb c @ (case find (\<lambda>p. f p = c) ps of None \<Rightarrow> [] | Some p \<Rightarrow> g p)"
  using assms
proof (induction ps arbitrary: nb)
  case (Cons p ps)
  have "find (\<lambda>q. f q = f p) ps = None" 
    unfolding find_None_iff using Cons.prems by (simp add: image_iff) metis
  then show ?case using Cons by auto
qed simp

lemma initCellInteractions_real:
  assumes wf: "dd_wf (dd_cell dd)" and p: "in_box (inner_lo (dd_cell dd)) (inner_hi (dd_cell dd)) p"
  shows "neighborCells (initCellInteractions dd) (cidx (dd_cell dd) p)
    = neighborCells dd (cidx (dd_cell dd) p) @ neighbor_list (dd_cell dd) p"
proof -
  let ?cg = "dd_cell dd"
  let ?ps = "box_loop (inner_lo ?cg) (inner_hi ?cg)"
  have d: "distinct (map (cidx ?cg) ?ps)"
    using inner_in_grid [OF wf] by (auto simp: distinct_map intro!: cidx_inj_on)
  have "find (\<lambda>q. cidx ?cg q = cidx ?cg p) ?ps = Some p"
  proof -
    obtain q where q: "find (\<lambda>q. cidx ?cg q = cidx ?cg p) ?ps = Some q"
      using p by (cases "find (\<lambda>q. cidx ?cg q = cidx ?cg p) ?ps") (auto simp: find_None_iff)
    then have "q \<in> set ?ps" "cidx ?cg q = cidx ?cg p"
      by (auto simp: find_Some_iff simp del: set_box_loop)
    then have "q = p" using cidx_inj [of ?cg q p] inner_in_grid [OF wf] p by simp
    with q show ?thesis by simp
  qed
  then show ?thesis by (simp add: initCellInteractions_def Let_def fold_upd_append [OF d])
qed

end
