(* ===== verification/GhostFrame.thy ===== *)
theory GhostFrame
  imports DomainCells
begin

text \<open>
  What the constructor of \<^verbatim>\<open>DomainDecomposition\<close> builds: the invariant \<open>dd_ok\<close> of the static
  part (cells, neighbors, communication steps), the explicit boxes of cells each of the six
  directions sends and fills, and the properties of the three: every cell is real or ghost, every
  pair of adjacent real cells is visited once, and the six directions fill every ghost cell once
  with an image of a cell that already has its particles.
\<close>

section \<open>The boxes of the six directions\<close>

definition span :: "cellgrid \<Rightarrow> nat \<Rightarrow> nat \<Rightarrow> int \<times> int \<Rightarrow> int \<times> int" where
  "span cg c j own = (if j = c then own else if j < c then (0, getFrameGridSize cg j)
     else (getInnerCellsBegin cg j, getInnerCellsEnd cg j))"

definition span_box :: "cellgrid \<Rightarrow> nat \<Rightarrow> int \<times> int \<Rightarrow> int3d \<times> int3d" where
  "span_box cg c own =
     (V3 (fst (span cg c 0 own)) (fst (span cg c 1 own)) (fst (span cg c 2 own)),
      V3 (snd (span cg c 0 own)) (snd (span cg c 1 own)) (snd (span cg c 2 own)))"

definition reals_box :: "cellgrid \<Rightarrow> nat \<Rightarrow> int3d \<times> int3d" where
  "reals_box cg dir = (let c = dir div 2 in span_box cg c
     (if dir mod 2 = 0 then (1, 2) else (getFrameGridSize cg c - 2, getFrameGridSize cg c - 1)))"

definition ghosts_box :: "cellgrid \<Rightarrow> nat \<Rightarrow> int3d \<times> int3d" where
  "ghosts_box cg dir = (let c = dir div 2 in span_box cg c
     (if dir mod 2 = 0 then (getFrameGridSize cg c - 1, getFrameGridSize cg c) else (0, 1)))"

definition box_cells :: "cellgrid \<Rightarrow> int3d \<times> int3d \<Rightarrow> nat list" where
  "box_cells cg b = map (cidx cg) (fill_loop (fst b) (snd b))"

lemma fillCells_ok:
  assumes "\<And>i. i < 3 \<Longrightarrow> 0 \<le> vnth lo i \<and> vnth lo i < vnth hi i \<and> vnth hi i \<le> getFrameGridSize cg i"
  shows "fillCells cg cv lo hi = Inr (cv @ box_cells cg (lo, hi))"
proof -
  have "list_ex (\<lambda>i. vnth lo i < 0 \<or> vnth lo i > getFrameGridSize cg i
      \<or> vnth hi i < 0 \<or> vnth hi i > getFrameGridSize cg i \<or> vnth lo i \<ge> vnth hi i) [0, 1, 2] = False"
    using assms [of 0] assms [of 1] assms [of 2] by auto
  then show ?thesis by (simp only: fillCells_def box_cells_def if_False fst_conv snd_conv)
qed

lemma span_bounds:
  assumes "dd_wf cg" and "0 \<le> fst own" "fst own < snd own" "snd own \<le> getFrameGridSize cg c" "c < 3" "i < 3"
  shows "0 \<le> fst (span cg c i own) \<and> fst (span cg c i own) < snd (span cg c i own)
    \<and> snd (span cg c i own) \<le> getFrameGridSize cg i"
  using assms dd_wf_sizes(4) [OF assms(1), of i] by (simp add: span_def dd_wf_sizes(1,2) [OF assms(1)])

lemma fillCells_span:
  assumes "dd_wf cg" and "0 \<le> fst own" "fst own < snd own" "snd own \<le> getFrameGridSize cg c" "c < 3"
  shows "fillCells cg cv (fst (span_box cg c own)) (snd (span_box cg c own))
    = Inr (cv @ box_cells cg (span_box cg c own))"
proof -
  have "fillCells cg cv (fst (span_box cg c own)) (snd (span_box cg c own))
    = Inr (cv @ box_cells cg (fst (span_box cg c own), snd (span_box cg c own)))"
  proof (rule fillCells_ok)
    fix i :: nat
    assume i: "i < 3"
    then have "vnth (fst (span_box cg c own)) i = fst (span cg c i own)"
      "vnth (snd (span_box cg c own)) i = snd (span cg c i own)"
      by (auto simp: less_3_cases span_box_def)
    then show "0 \<le> vnth (fst (span_box cg c own)) i \<and> vnth (fst (span_box cg c own)) i < vnth (snd (span_box cg c own)) i
      \<and> vnth (snd (span_box cg c own)) i \<le> getFrameGridSize cg i"
      using span_bounds [OF assms i] by simp
  qed
  then show ?thesis by simp
qed

definition comm_step :: "nat \<Rightarrow> domdec \<Rightarrow> domdec" where
  "comm_step dir dd =
     dd\<lparr>commReals := (commReals dd)(dir := commReals dd dir @ box_cells (dd_cell dd) (reals_box (dd_cell dd) dir)),
        commGhosts := (commGhosts dd)(dir := commGhosts dd dir @ box_cells (dd_cell dd) (ghosts_box (dd_cell dd) dir))\<rparr>"

lemma comm_step_cell [simp]: "dd_cell (comm_step dir dd) = dd_cell dd" by (simp add: comm_step_def)

definition sides :: "cellgrid \<Rightarrow> nat \<Rightarrow> int3d \<times> int3d \<Rightarrow> bool" where
  "sides cg c b \<longleftrightarrow> (\<forall>j<3. j \<noteq> c \<longrightarrow> (vnth (fst b) j, vnth (snd b) j) = span cg c j (0, 0))"

lemma all_less_3: "(\<forall>j<3. P j) \<longleftrightarrow> P 0 \<and> P 1 \<and> P (2::nat)"
  by (auto simp: less_3_cases)

lemma set_own_span:
  assumes "c < 3" and "sides cg c b"
  shows "(vupd (fst b) c x, vupd (snd b) c y) = span_box cg c (x, y)"
  using assms(1) unfolding less_3_cases
  by (elim disjE) (use assms(2) in \<open>simp_all add: sides_def all_less_3 span_box_def span_def\<close>)

lemma sides_span_box: "sides cg c (span_box cg c own)"
  unfolding sides_def all_less_3 by (simp add: span_box_def span_def)

lemma prepare_dir_ok:
  assumes wf: "dd_wf (dd_cell dd)" and c: "c < 3" and lr: "lr < 2" and b: "sides (dd_cell dd) c b"
  shows "prepare_dir c lr (b, dd) = Inr (ghosts_box (dd_cell dd) (2 * c + lr), comm_step (2 * c + lr) dd)"
proof -
  let ?cg = "dd_cell dd"
  have f: "frame ?cg = 1" using wf by (simp add: dd_wf_def)
  note sz = dd_wf_sizes [OF wf] and F = dd_wf_sizes(4) [OF wf c]
  have dm: "(2 * c + lr) div 2 = c" "(2 * c + lr) mod 2 = lr" using lr by auto
  have r: "reals_bounds ?cg c lr b = reals_box ?cg (2 * c + lr)"
    unfolding reals_bounds_def reals_box_def Let_def dm
    by (simp add: set_own_span [OF c b] sz(1,2) f)
  have s: "sides ?cg c (reals_box ?cg (2 * c + lr))"
    unfolding reals_box_def Let_def dm by (rule sides_span_box)
  have g: "ghosts_bounds ?cg c lr (reals_box ?cg (2 * c + lr)) = ghosts_box ?cg (2 * c + lr)"
    unfolding ghosts_bounds_def ghosts_box_def Let_def dm
    using set_own_span [OF c s] by (auto simp: sz(1,2) f)
  have fr: "fillCells ?cg cv (fst (reals_box ?cg (2 * c + lr))) (snd (reals_box ?cg (2 * c + lr)))
      = Inr (cv @ box_cells ?cg (reals_box ?cg (2 * c + lr)))" for cv
    unfolding reals_box_def Let_def dm using F by (intro fillCells_span [OF wf _ _ _ c]) auto
  have fg: "fillCells ?cg cv (fst (ghosts_box ?cg (2 * c + lr))) (snd (ghosts_box ?cg (2 * c + lr)))
      = Inr (cv @ box_cells ?cg (ghosts_box ?cg (2 * c + lr)))" for cv
    unfolding ghosts_box_def Let_def dm using F by (intro fillCells_span [OF wf _ _ _ c]) auto
  show ?thesis
    by (simp only: prepare_dir_def Let_def split_conv r g fr fg ebind_simps comm_step_def)
qed

lemma sides_ghosts_box: "lr < 2 \<Longrightarrow> sides cg c (ghosts_box cg (2 * c + lr))"
  unfolding ghosts_box_def Let_def by (simp add: sides_span_box)

lemma other_bounds_sides: "c < 3 \<Longrightarrow> sides cg c (other_bounds cg c b)"
  unfolding less_3_cases
  by (cases b) (elim disjE; simp add: other_bounds_def sides_def all_less_3 span_def Let_def
      numeral_2_eq_2 [symmetric])

lemma prepare_coord_ok:
  assumes wf: "dd_wf (dd_cell dd)" and c: "c < 3"
  shows "prepare_coord c (b, dd)
    = Inr (ghosts_box (dd_cell dd) (2 * c + 1), comm_step (2 * c + 1) (comm_step (2 * c) dd))"
  using prepare_dir_ok [OF wf c _ other_bounds_sides [OF c], of 0 b]
    prepare_dir_ok [of "comm_step (2 * c) dd" c 1 "ghosts_box (dd_cell dd) (2 * c)"]
    sides_ghosts_box [of 0 "dd_cell dd" c] wf c
  by (simp add: prepare_coord_def Let_def)

lemma prepareGhostCommunication_steps:
  assumes "dd_wf (dd_cell dd)"
  shows "prepareGhostCommunication b0 dd = Inr (fold comm_step [0..<6] dd)"
proof -
  have u: "[0..<6] = [0, 1, 2, 3, 4, 5 :: nat]" by (simp add: upt_rec)
  show ?thesis
    using assms by (simp add: prepareGhostCommunication_def prepare_coord_ok u)
qed

section \<open>The cells of the six directions\<close>

lemma in_span_box:
  "in_box (fst (span_box cg c own)) (snd (span_box cg c own)) p \<longleftrightarrow>
    (\<forall>j<3. fst (span cg c j own) \<le> vnth p j \<and> vnth p j < snd (span cg c j own))"
  by (auto simp: in_box_def span_box_def all_less_3)

abbreviation ghost_at :: "cellgrid \<Rightarrow> nat \<Rightarrow> int3d \<Rightarrow> bool" where
  "ghost_at cg dir p \<equiv> in_box (fst (ghosts_box cg dir)) (snd (ghosts_box cg dir)) p"

lemma ghost_at_dirs:
  assumes "dd_wf cg"
  defines "F \<equiv> getFrameGridSize cg"
  shows
    "ghost_at cg 0 p \<longleftrightarrow> vx p = F 0 - 1 \<and> 1 \<le> vy p \<and> vy p < F 1 - 1 \<and> 1 \<le> vz p \<and> vz p < F 2 - 1"
    "ghost_at cg 1 p \<longleftrightarrow> vx p = 0 \<and> 1 \<le> vy p \<and> vy p < F 1 - 1 \<and> 1 \<le> vz p \<and> vz p < F 2 - 1"
    "ghost_at cg 2 p \<longleftrightarrow> 0 \<le> vx p \<and> vx p < F 0 \<and> vy p = F 1 - 1 \<and> 1 \<le> vz p \<and> vz p < F 2 - 1"
    "ghost_at cg 3 p \<longleftrightarrow> 0 \<le> vx p \<and> vx p < F 0 \<and> vy p = 0 \<and> 1 \<le> vz p \<and> vz p < F 2 - 1"
    "ghost_at cg 4 p \<longleftrightarrow> 0 \<le> vx p \<and> vx p < F 0 \<and> 0 \<le> vy p \<and> vy p < F 1 \<and> vz p = F 2 - 1"
    "ghost_at cg 5 p \<longleftrightarrow> 0 \<le> vx p \<and> vx p < F 0 \<and> 0 \<le> vy p \<and> vy p < F 1 \<and> vz p = 0"
  unfolding ghosts_box_def Let_def in_span_box all_less_3 F_def
  by (simp_all add: span_def dd_wf_sizes(1,2) [OF assms(1)]) auto

lemma ghost_at_disjoint:
  assumes "dd_wf cg" "d < 6" "e < 6" "ghost_at cg d p" "ghost_at cg e p"
  shows "d = e"
proof -
  have six: "k < 6 \<longleftrightarrow> k = 0 \<or> k = 1 \<or> k = 2 \<or> k = 3 \<or> k = 4 \<or> k = 5" for k :: nat by auto
  note F = dd_wf_sizes(4) [OF assms(1), of 0] dd_wf_sizes(4) [OF assms(1), of 1]
    dd_wf_sizes(4) [OF assms(1), of 2]
  show ?thesis
    using assms(2-5) F unfolding six
    by (elim disjE) (simp_all only: ghost_at_dirs [OF assms(1)], simp_all)
qed

lemma ghost_at_iff:
  assumes "dd_wf cg"
  shows "(\<exists>d<6. ghost_at cg d p) \<longleftrightarrow> in_grid cg p \<and> \<not> in_box (inner_lo cg) (inner_hi cg) p"
proof -
  have six: "(\<exists>k<6. P k) \<longleftrightarrow> P 0 \<or> P 1 \<or> P 2 \<or> P 3 \<or> P 4 \<or> P 5" for P :: "nat \<Rightarrow> bool"
    by (auto simp: less_Suc_eq numeral_eq_Suc)
  note F = dd_wf_sizes(4) [OF assms, of 0] dd_wf_sizes(4) [OF assms, of 1] dd_wf_sizes(4) [OF assms, of 2]
  show ?thesis
    unfolding six ghost_at_dirs [OF assms]
    using F unfolding in_grid_frame in_box_def inner_lo_def inner_hi_def frame_hi_def
        dd_wf_sizes(1,2) [OF assms] vec3.sel
    by (cases "vz p = 0"; cases "vz p = getFrameGridSize cg 2 - 1"; cases "vy p = 0";
        cases "vy p = getFrameGridSize cg 1 - 1") (simp_all, linarith+)
qed

lemma upto_shift: "[i + t..j + t] = map (\<lambda>x. x + t) [i..j :: int]"
proof (induction i j rule: upto.induct)
  case (1 i j)
  show ?case
  proof (cases "i \<le> j")
    case True
    then have "[i + t..j + t] = (i + t) # [i + t + 1..j + t]" by (subst upto.simps) simp
    also have "i + t + 1 = i + 1 + t" by simp
    finally show ?thesis using 1 [OF True] True upto.simps [of i j] by (simp add: algebra_simps)
  qed simp
qed

lemma fill_loop_shift: "fill_loop (lo + t) (hi + t) = map (\<lambda>p. p + t) (fill_loop lo hi)"
proof -
  have e: "vx (lo + t) = vx lo + vx t" "vx (hi + t) - 1 = vx hi - 1 + vx t"
    "vy (lo + t) = vy lo + vy t" "vy (hi + t) - 1 = vy hi - 1 + vy t"
    "vz (lo + t) = vz lo + vz t" "vz (hi + t) - 1 = vz hi - 1 + vz t" by simp_all
  show ?thesis
    unfolding fill_loop_def e upto_shift by (simp add: map_concat comp_def plus_vec3_def vmap2_def)
qed

text \<open>How far the image of a cell is: the inner width along the direction's coordinate.\<close>

definition ghost_shift :: "cellgrid \<Rightarrow> nat \<Rightarrow> int3d" where
  "ghost_shift cg dir = (let c = dir div 2; w = getFrameGridSize cg c - 2
     in vupd (V3 0 0 0) c (if dir mod 2 = 0 then w else - w))"

lemma ghosts_box_shift:
  assumes "dir < 6"
  shows "fst (ghosts_box cg dir) = fst (reals_box cg dir) + ghost_shift cg dir"
    "snd (ghosts_box cg dir) = snd (reals_box cg dir) + ghost_shift cg dir"
proof -
  have six: "k < 6 \<longleftrightarrow> k = 0 \<or> k = 1 \<or> k = 2 \<or> k = 3 \<or> k = 4 \<or> k = 5" for k :: nat by auto
  show "fst (ghosts_box cg dir) = fst (reals_box cg dir) + ghost_shift cg dir"
    "snd (ghosts_box cg dir) = snd (reals_box cg dir) + ghost_shift cg dir"
    using assms unfolding six
    by (elim disjE; simp add: ghosts_box_def reals_box_def ghost_shift_def span_box_def span_def
        vec_eq_iff)+
qed

lemma ghosts_box_cells:
  assumes "dir < 6"
  shows "box_cells cg (ghosts_box cg dir)
    = map (\<lambda>p. cidx cg (p + ghost_shift cg dir)) (fill_loop (fst (reals_box cg dir)) (snd (reals_box cg dir)))"
  unfolding box_cells_def ghosts_box_shift [OF assms] fill_loop_shift by simp

lemma mset_ghost_cells:
  assumes wf: "dd_wf (dd_cell dd)"
  shows "mset (concat (map (\<lambda>d. box_cells (dd_cell dd) (ghosts_box (dd_cell dd) d)) [0..<6]))
    = mset (ghostCells (dd_st (markCells dd)))"
proof -
  let ?cg = "dd_cell dd"
  let ?ps = "concat (map (\<lambda>d. fill_loop (fst (ghosts_box ?cg d)) (snd (ghosts_box ?cg d))) [0..<6])"
  have "distinct ?ps"
    by (rule distinct_concat_map) (auto dest: ghost_at_disjoint [OF wf])
  have s: "set ?ps = {p. in_grid ?cg p \<and> \<not> in_box (inner_lo ?cg) (inner_hi ?cg) p}"
    unfolding ghost_at_iff [OF wf, symmetric] by auto
  have "distinct (map (cidx ?cg) ?ps)"
    using \<open>distinct ?ps\<close> unfolding distinct_map s by (auto intro!: cidx_inj_on)
  moreover have "set (map (cidx ?cg) ?ps) = set (ghostCells (dd_st (markCells dd)))"
    by (simp only: set_map s ghostCells_set)
  ultimately have "mset (map (cidx ?cg) ?ps) = mset (ghostCells (dd_st (markCells dd)))"
    using cells_distinct [OF wf] by (metis set_eq_iff_mset_eq_distinct)
  then show ?thesis by (simp add: map_concat box_cells_def comp_def)
qed

section \<open>The invariant of the static part\<close>

definition dd_ok :: "domdec \<Rightarrow> bool" where
  "dd_ok dd \<longleftrightarrow> dd_wf (dd_cell dd)
     \<and> localCells (dd_st dd) = [0..<nat (getNumberOfCells (dd_cell dd))]
     \<and> realCells (dd_st dd) = realCells (dd_st (markCells dd))
     \<and> ghostCells (dd_st dd) = ghostCells (dd_st (markCells dd))
     \<and> (\<forall>p. in_box (inner_lo (dd_cell dd)) (inner_hi (dd_cell dd)) p
          \<longrightarrow> neighborCells dd (cidx (dd_cell dd) p) = neighbor_list (dd_cell dd) p)
     \<and> (\<forall>dir<6. commReals dd dir = box_cells (dd_cell dd) (reals_box (dd_cell dd) dir)
          \<and> commGhosts dd dir = box_cells (dd_cell dd) (ghosts_box (dd_cell dd) dir))"

lemma comm_steps:
  "fold comm_step [0..<n] dd =
     dd\<lparr>commReals := (\<lambda>d. if d < n then commReals dd d @ box_cells (dd_cell dd) (reals_box (dd_cell dd) d)
          else commReals dd d),
        commGhosts := (\<lambda>d. if d < n then commGhosts dd d @ box_cells (dd_cell dd) (ghosts_box (dd_cell dd) d)
          else commGhosts dd d)\<rparr>"
  by (induction n) (auto simp: comm_step_def fun_eq_iff)

lemma initCellInteractions_sel [simp]:
  "dd_cell (initCellInteractions dd) = dd_cell dd" "dd_node (initCellInteractions dd) = dd_node dd"
  "dd_st (initCellInteractions dd) = dd_st dd" "commReals (initCellInteractions dd) = commReals dd"
  "commGhosts (initCellInteractions dd) = commGhosts dd"
  by (simp_all add: initCellInteractions_def Let_def)

lemma markCells_cong:
  "dd_cell dd = dd_cell dd' \<Longrightarrow> realCells (dd_st (markCells dd)) = realCells (dd_st (markCells dd'))
    \<and> ghostCells (dd_st (markCells dd)) = ghostCells (dd_st (markCells dd'))"
  by (simp add: markCells_def Let_def)

text \<open>The steps \<^verbatim>\<open>createCellGrid\<close>, \<^verbatim>\<open>initCellInteractions\<close>, \<^verbatim>\<open>prepareGhostCommunication\<close> on empty cells.\<close>

lemma build_ok:
  assumes new: "createCellGrid rank commSize L ngs cgs dd = Some (Inr dd1)" and L: "vall (\<lambda>x. 0 < x) L"
    and empty: "neighborCells dd = (\<lambda>_. [])" "commReals dd = (\<lambda>_. [])" "commGhosts dd = (\<lambda>_. [])"
      "localCells (dd_st dd) = []"
  shows "\<exists>dd2. prepareGhostCommunication b0 (initCellInteractions dd1) = Inr dd2 \<and> dd_ok dd2
    \<and> dd_node dd2 = dd_node dd1 \<and> dd_cell dd2 = dd_cell dd1 \<and> dd_st dd2 = dd_st dd1"
proof -
  have L': "0 < vx L" "0 < vy L" "0 < vz L" using L by (auto simp: vall_def)
  note spec = createCellGrid_spec [OF new L']
  then have wf: "dd_wf (dd_cell dd1)" by blast
  obtain n where n: "n = nat (getNumberOfCells (dd_cell dd1))" and
    dd1: "dd1 = markCells (dd\<lparr>dd_node := dd_node dd1, dd_cell := dd_cell dd1, dd_st := resizeCells (dd_st dd) n\<rparr>)"
    using spec by blast
  define e where "e = dd\<lparr>dd_node := dd_node dd1, dd_cell := dd_cell dd1, dd_st := resizeCells (dd_st dd) n\<rparr>"
  have dd1e: "dd1 = markCells e" and ce: "dd_cell e = dd_cell dd1" using dd1 by (simp_all add: e_def)
  have sel: "neighborCells dd1 = (\<lambda>_. [])" "commReals dd1 = (\<lambda>_. [])" "commGhosts dd1 = (\<lambda>_. [])"
    "localCells (dd_st dd1) = [0..<n]"
    using empty by (subst dd1e; simp add: e_def resizeCells_def)+
  have marks: "realCells (dd_st dd1) = realCells (dd_st (markCells dd1))"
    "ghostCells (dd_st dd1) = ghostCells (dd_st (markCells dd1))"
    using markCells_cong [OF ce] unfolding dd1e [symmetric] by simp_all
  let ?d = "initCellInteractions dd1"
  define dd2 where "dd2 = fold comm_step [0..<6] ?d"
  have p: "prepareGhostCommunication b0 ?d = Inr dd2"
    using prepareGhostCommunication_steps [of ?d b0] wf by (simp add: dd2_def)
  have s2: "dd_cell dd2 = dd_cell dd1" "dd_node dd2 = dd_node dd1" "dd_st dd2 = dd_st dd1"
    "neighborCells dd2 = neighborCells ?d"
    "d < 6 \<Longrightarrow> commReals dd2 d = box_cells (dd_cell dd1) (reals_box (dd_cell dd1) d)"
    "d < 6 \<Longrightarrow> commGhosts dd2 d = box_cells (dd_cell dd1) (ghosts_box (dd_cell dd1) d)" for d
    by (simp_all add: dd2_def comm_steps sel)
  have "dd_ok dd2"
    unfolding dd_ok_def s2(1,3,4)
    using wf sel(4) n marks markCells_cong [of dd2 dd1] initCellInteractions_real [OF wf] sel(1) s2
    by simp
  with p s2 show ?thesis by blast
qed

lemma dd_okD:
  assumes "dd_ok dd"
  shows "dd_wf (dd_cell dd)" "localCells (dd_st dd) = [0..<nat (getNumberOfCells (dd_cell dd))]"
    "set (realCells (dd_st dd))
      = cidx (dd_cell dd) ` {p. in_box (inner_lo (dd_cell dd)) (inner_hi (dd_cell dd)) p}"
    "distinct (realCells (dd_st dd))" "distinct (ghostCells (dd_st dd))"
    "in_box (inner_lo (dd_cell dd)) (inner_hi (dd_cell dd)) p
      \<Longrightarrow> neighborCells dd (cidx (dd_cell dd) p) = neighbor_list (dd_cell dd) p"
    "dir < 6 \<Longrightarrow> commReals dd dir = box_cells (dd_cell dd) (reals_box (dd_cell dd) dir)"
    "dir < 6 \<Longrightarrow> commGhosts dd dir = box_cells (dd_cell dd) (ghosts_box (dd_cell dd) dir)"
    "mset (realCells (dd_st dd)) + mset (ghostCells (dd_st dd)) = mset (localCells (dd_st dd))"
  using assms realCells_set [of dd] cells_distinct [of dd] mset_real_ghost [of dd] unfolding dd_ok_def by auto

lemma DomainDecomposition_new_ok:
  assumes L: "vall (\<lambda>x. 0 < x) L"
    and new: "DomainDecomposition_new node0 cell0 b0 rank commSize L ngs cgs = Some (Inr dd)"
  shows "dd_ok dd" "NodeGrid_new ngs rank L = Inr (dd_node dd)" "getNumberOfCells (dd_node dd) = commSize"
    "CellGrid_new cgs (ng_getMyLeftV (dd_node dd)) (ng_getMyRightV (dd_node dd)) 1 = Some (Inr (dd_cell dd))"
    "\<forall>i<3. getInnerGridSize (dd_cell dd) i = vnth cgs i" "\<forall>v. particles_of (dd_st dd) v = []"
    "localParticles (dd_st dd) = Map.empty" "outBuffer (dd_st dd) = Buffer_new"
proof -
  let ?e = "\<lparr>dd_node = node0, dd_cell = cell0, neighborCells = (\<lambda>_. []), commReals = (\<lambda>_. []),
         commGhosts = (\<lambda>_. []), exchangeBufferSize = 0, dd_st = Storage_new\<rparr>"
  obtain dd1 where c: "createCellGrid rank commSize L ngs cgs ?e = Some (Inr dd1)"
    and p: "prepareGhostCommunication b0 (initCellInteractions dd1) = Inr dd"
    using new by (auto simp: DomainDecomposition_new_def rbind_Inr)
  have L': "0 < vx L" "0 < vy L" "0 < vz L" using L by (auto simp: vall_def)
  have "localCells Storage_new = []" by (simp add: Storage_new_def)
  with build_ok [OF c L, of b0] p have dd: "dd_ok dd" "dd_node dd = dd_node dd1" "dd_cell dd = dd_cell dd1"
    "dd_st dd = dd_st dd1" by auto
  note spec = createCellGrid_spec [OF c L']
  show "dd_ok dd" "NodeGrid_new ngs rank L = Inr (dd_node dd)" "getNumberOfCells (dd_node dd) = commSize"
    "CellGrid_new cgs (ng_getMyLeftV (dd_node dd)) (ng_getMyRightV (dd_node dd)) 1 = Some (Inr (dd_cell dd))"
    "\<forall>i<3. getInnerGridSize (dd_cell dd) i = vnth cgs i"
    using dd spec by simp_all
  obtain n where "dd1 = markCells (?e\<lparr>dd_node := dd_node dd1, dd_cell := dd_cell dd1,
      dd_st := resizeCells Storage_new n\<rparr>)" using spec by auto
  then obtain e where e: "dd1 = markCells e" "dd_st e = resizeCells Storage_new n" by force
  then have v: "vecs (dd_st dd1) = vecs (resizeCells Storage_new n)"
      "localParticles (dd_st dd1) = localParticles Storage_new" "outBuffer (dd_st dd1) = outBuffer Storage_new"
    by (simp_all add: markCells_def resizeCells_def Let_def)
  show "\<forall>v. particles_of (dd_st dd) v = []" "localParticles (dd_st dd) = Map.empty" "outBuffer (dd_st dd) = Buffer_new"
    using v dd(4) by (auto simp: particles_of_def resizeCells_def Storage_new_def pv_empty_def split: vid.splits)
qed

section \<open>Which cells a direction sends\<close>

lemma reals_box_inner:
  assumes "dd_wf cg" "dir < 6" "in_box (fst (reals_box cg dir)) (snd (reals_box cg dir)) p"
    "j < 3" "dir div 2 \<le> j"
  shows "1 \<le> vnth p j \<and> vnth p j < getFrameGridSize cg j - 1"
  using assms(3-5) dd_wf_sizes(4) [OF assms(1,4)]
  unfolding reals_box_def Let_def in_span_box
  by (auto simp: span_def dd_wf_sizes(1,2) [OF assms(1)] dest!: spec [of _ j] split: if_splits)

lemma ghost_at_border:
  assumes "dir < 6" "ghost_at cg dir p"
  shows "vnth p (dir div 2) \<le> 0 \<or> getFrameGridSize cg (dir div 2) - 1 \<le> vnth p (dir div 2)"
  using assms unfolding ghosts_box_def Let_def in_span_box
  by (auto simp: span_def dest!: spec [of _ "dir div 2"] split: if_splits)

lemma reals_box_in_grid:
  assumes "dd_wf cg" "dir < 6" "in_box (fst (reals_box cg dir)) (snd (reals_box cg dir)) p"
  shows "in_grid cg p"
proof -
  have "0 \<le> vnth p j \<and> vnth p j < getFrameGridSize cg j" if "j < 3" for j
    using assms(3) dd_wf_sizes(4) [OF assms(1) that] that unfolding reals_box_def Let_def in_span_box
    by (auto simp: span_def dd_wf_sizes(1,2) [OF assms(1)] dest!: spec [of _ j] split: if_splits)
  from this [of 0] this [of 1] this [of 2] show ?thesis
    by (simp add: in_grid_frame in_box_def frame_hi_def)
qed

lemma reals_ready:
  assumes wf: "dd_wf cg" and dir: "dir < 6"
    and p: "in_box (fst (reals_box cg dir)) (snd (reals_box cg dir)) p"
  shows "in_box (inner_lo cg) (inner_hi cg) p \<or> (\<exists>d < 2 * (dir div 2). ghost_at cg d p)"
proof (cases "in_box (inner_lo cg) (inner_hi cg) p")
  case False
  then obtain d where d: "d < 6" "ghost_at cg d p"
    using ghost_at_iff [OF wf] reals_box_in_grid [OF wf dir p] by blast
  have "d div 2 < dir div 2"
  proof (rule ccontr)
    assume "\<not> d div 2 < dir div 2"
    then show False
      using reals_box_inner [OF wf dir p, of "d div 2"] ghost_at_border [OF d] d(1) by linarith
  qed
  then have "d < 2 * (dir div 2)" by linarith
  with d show ?thesis by blast
qed simp

lemma half_neighbors_wf:
  assumes wf: "dd_wf cg" and p: "in_grid cg p" and q: "in_grid cg q" and adj: "adjacent p q"
  shows "\<lparr>nc_cell = cidx cg q, useForAllPairs = False\<rparr> \<in> set (neighbor_list cg p)
     \<longleftrightarrow> \<lparr>nc_cell = cidx cg p, useForAllPairs = False\<rparr> \<notin> set (neighbor_list cg q)"
proof -
  have "\<lparr>nc_cell = cidx cg b, useForAllPairs = False\<rparr> \<in> set (neighbor_list cg a)
      \<longleftrightarrow> mapPositionToIndexV cg a \<le> mapPositionToIndexV cg b"
    if "in_grid cg a" "in_grid cg b" "adjacent a b" for a b
  proof -
    have "\<lparr>nc_cell = cidx cg b, useForAllPairs = False\<rparr> \<in> set (neighbor_list cg a)
      \<longleftrightarrow> (\<exists>c. adjacent a c \<and> cidx cg c = cidx cg b \<and> mapPositionToIndexV cg a \<le> mapPositionToIndexV cg c)"
      by (auto simp: neighbor_list_eq set_neighbor_positions image_iff not_less)
    also have "\<dots> \<longleftrightarrow> mapPositionToIndexV cg a \<le> mapPositionToIndexV cg b"
    proof
      assume "\<exists>c. adjacent a c \<and> cidx cg c = cidx cg b \<and> mapPositionToIndexV cg a \<le> mapPositionToIndexV cg c"
      then show "mapPositionToIndexV cg a \<le> mapPositionToIndexV cg b"
        using index_bounds [OF that(2)] index_bounds [OF that(1)] by (auto simp: cidx_def)
    qed (use that in blast)
    finally show ?thesis .
  qed
  from this [OF p q adj] this [OF q p adj [unfolded adjacent_sym [of p q]]]
  show ?thesis
    using mapPositionToIndexV_inj [OF p q] adj by (auto simp: adjacent_def)
qed

section \<open>Properties\<close>

text \<open>What the constructor makes of valid grids.\<close>

definition well_built :: "int3d \<Rightarrow> domdec \<Rightarrow> bool" where
  "well_built cgs dd \<longleftrightarrow> dd_ok dd
    \<and> mset (realCells (dd_st dd)) + mset (ghostCells (dd_st dd)) = mset (localCells (dd_st dd))
    \<and> int (length (realCells (dd_st dd))) = vx cgs * vy cgs * vz cgs
    \<and> (\<forall>p. in_grid (dd_cell dd) p \<longrightarrow>
         (cidx (dd_cell dd) p \<in> set (realCells (dd_st dd)) \<longleftrightarrow> isInnerCell (dd_cell dd) (vx p) (vy p) (vz p)))
    \<and> (\<forall>c\<in>set (realCells (dd_st dd)). length (neighborCells dd c) = 26
         \<and> distinct (map nc_cell (neighborCells dd c))
         \<and> nc_cell ` set (neighborCells dd c) \<subseteq> set (localCells (dd_st dd)))
    \<and> (\<forall>v. particles_of (dd_st dd) v = [])"

lemma constructed_well_built:
  assumes L: "vall (\<lambda>x. 0 < x) L" and new: "DomainDecomposition_new node0 cell0 b0 rank commSize L ngs cgs = Some (Inr dd)"
  shows "well_built cgs dd"
proof -
  note ok = DomainDecomposition_new_ok [OF L new] and okD = dd_okD [OF DomainDecomposition_new_ok(1) [OF L new]]
  note wf = okD(1)
  have len: "int (length (realCells (dd_st dd))) = vx cgs * vy cgs * vz cgs"
  proof -
    have "length (realCells (dd_st dd)) = nat (getNumberOfInnerCells (dd_cell dd))"
      using ok(1) realCells_length [OF wf] unfolding dd_ok_def by metis
    moreover have "getNumberOfInnerCells (dd_cell dd) = vx cgs * vy cgs * vz cgs"
      using ok(5) by (simp add: getNumberOfInnerCells_def all_less_3)
    moreover have "0 < getInnerGridSize (dd_cell dd) i" if "i < 3" for i
      using cellgrid_wfD(3) [OF conjunct1 [OF wf [unfolded dd_wf_def]] that] .
    from this [of 0] this [of 1] this [of 2] have "0 \<le> vx cgs * vy cgs * vz cgs"
      using ok(5) by (simp add: all_less_3)
    ultimately show ?thesis by simp
  qed
  have real: "cidx (dd_cell dd) p \<in> set (realCells (dd_st dd)) \<longleftrightarrow> isInnerCell (dd_cell dd) (vx p) (vy p) (vz p)"
    if "in_grid (dd_cell dd) p" for p
    using that inner_in_grid [OF wf] cidx_inj [OF that] by (auto simp: okD(3) inner_box)
  have nb: "length (neighborCells dd c) = 26 \<and> distinct (map nc_cell (neighborCells dd c))
      \<and> nc_cell ` set (neighborCells dd c) \<subseteq> set (localCells (dd_st dd))"
    if c: "c \<in> set (realCells (dd_st dd))" for c
  proof -
    obtain p where p: "c = cidx (dd_cell dd) p" "in_box (inner_lo (dd_cell dd)) (inner_hi (dd_cell dd)) p"
      using c by (auto simp: okD(3))
    have g: "in_grid (dd_cell dd) q" if "adjacent p q" for q by (rule inner_adjacent_in_grid [OF wf p(2) that])
    show ?thesis
      using g unfolding p(1) okD(6) [OF p(2)] okD(2) neighbor_list_eq
      by (auto simp: length_neighbor_positions distinct_map distinct_neighbor_positions
          set_neighbor_positions comp_def cidx_less intro!: cidx_inj_on)
  qed
  show ?thesis unfolding well_built_def using ok(1,6) okD(9) len real nb by blast
qed

text \<open>When the constructor throws, and when a 32-bit product or sum overflows.\<close>

definition framed :: "int3d \<Rightarrow> int3d" where
  "framed cgs = vmap (\<lambda>n. n + 2) cgs"

definition rejected :: "int \<Rightarrow> int3d \<Rightarrow> int3d \<Rightarrow> dd_error \<Rightarrow> bool" where
  "rejected commSize ngs cgs e \<longleftrightarrow>
     e = DdNodeGrid NodeGridIllegal \<and> \<not> vall (\<lambda>n. 0 < n) ngs
     \<or> e = NodeGridMismatch \<and> vx ngs * vy ngs * vz ngs \<noteq> commSize
     \<or> e = DdCellGrid CellGridIllegal \<and> \<not> vall (\<lambda>n. 0 < n) cgs"

definition grid_overflow :: "int3d \<Rightarrow> int3d \<Rightarrow> bool" where
  "grid_overflow ngs cgs \<longleftrightarrow> INT_MAX < vx ngs * vy ngs * vz ngs \<or> \<not> vall fits_int (framed cgs)
     \<or> INT_MAX < vx (framed cgs) * vy (framed cgs) * vz (framed cgs)"

lemma CellGrid_new_cases:
  "case CellGrid_new cgs left right 1 of
     None \<Rightarrow> \<not> vall fits_int (framed cgs)
   | Some (Inl e) \<Rightarrow> e = CellGridIllegal \<and> \<not> vall (\<lambda>n. 0 < n) cgs
   | Some (Inr cg) \<Rightarrow> grid_ok cg \<and> gsize cg = framed cgs"
proof -
  have "fits_int 2" by (simp add: fits_int_def INT_MIN_def INT_MAX_def)
  then show ?thesis
    by (auto simp: CellGrid_new_def Let_def mul_int_def add_int_def framed_def vall_def grid_ok_def vec_eq_iff
        split: option.splits sum.splits)
qed

lemma createCellGrid_cases:
  "case createCellGrid rank commSize L ngs cgs dd of
     None \<Rightarrow> grid_overflow ngs cgs
   | Some (Inl e) \<Rightarrow> rejected commSize ngs cgs e
   | Some (Inr dd') \<Rightarrow> True"
proof (cases "NodeGrid_new ngs rank L")
  case (Inl e)
  then have "e = NodeGridIllegal \<and> \<not> vall (\<lambda>n. 0 < n) ngs"
    by (cases e) (auto simp: NodeGrid_new_def Let_def vall_def split: if_splits)
  then show ?thesis by (simp add: createCellGrid_def Inl rejected_def)
next
  case (Inr ng)
  let ?c = "CellGrid_new cgs (ng_getMyLeftV ng) (ng_getMyRightV ng) 1"
  have g: "gsize ng = ngs" "grid_ok ng" using NodeGrid_new_sel(1,2) [OF Inr] by auto
  note n = getNumberOfCells32_iff [OF g(2)]
  have N: "getNumberOfCells ng = vx ngs * vy ngs * vz ngs" using g(1) by (simp add: getNumberOfCells_def)
  show ?thesis
  proof (cases "getNumberOfCells ng \<le> INT_MAX \<and> getNumberOfCells ng = commSize")
    case False
    then show ?thesis by (auto simp: createCellGrid_def Inr n rejected_def grid_overflow_def N not_le)
  next
    case True
    show ?thesis
    proof (cases "\<exists>cg. ?c = Some (Inr cg)")
      case False
      then show ?thesis
        using CellGrid_new_cases [of cgs "ng_getMyLeftV ng" "ng_getMyRightV ng"] True
        by (auto simp: createCellGrid_def Inr n rejected_def grid_overflow_def split: option.splits sum.splits)
    next
      case cg: True
      then obtain cg where cg: "?c = Some (Inr cg)" by blast
      then have "grid_ok cg" "gsize cg = framed cgs"
        using CellGrid_new_cases [of cgs "ng_getMyLeftV ng" "ng_getMyRightV ng"] by auto
      then show ?thesis
        using True getNumberOfCells32_iff [of cg]
        by (auto simp: createCellGrid_def Inr n cg grid_overflow_def getNumberOfCells_def [of cg] Let_def)
    qed
  qed
qed

text \<open>
  C23.  The constructor of \<^verbatim>\<open>DomainDecomposition\<close>, in a box with positive edges.  Its behavior is undefined only when a
  number of nodes or cells, or a number of cells along a direction with the frame, is beyond the 32 bits it is
  computed in; it throws only \<^verbatim>\<open>NodeGridIllegal\<close> or \<^verbatim>\<open>CellGridIllegal\<close> for a size that is not positive and
  \<^verbatim>\<open>NodeGridMismatch\<close> for a number of nodes that is not the number of processes, never the internal error of
  \<^verbatim>\<open>fillCells\<close>; and what it builds is well formed: every cell of the grid with its frame is listed exactly once, as
  real or as ghost cell, the real ones are the requested number and exactly the inner cells, every real cell has 26
  distinct neighbors, and all cells are empty.  So grids with positive sizes, as many nodes as processes and no
  product or sum beyond \<^verbatim>\<open>INT_MAX\<close> are always built.
\<close>

theorem domain_decomposition_new:
  assumes "vall (\<lambda>x. 0 < x) L"
  shows "case DomainDecomposition_new node0 cell0 b0 rank commSize L ngs cgs of
      None \<Rightarrow> grid_overflow ngs cgs
    | Some (Inl e) \<Rightarrow> rejected commSize ngs cgs e
    | Some (Inr dd) \<Rightarrow> well_built cgs dd"
proof -
  let ?e = "\<lparr>dd_node = node0, dd_cell = cell0, neighborCells = (\<lambda>_. []), commReals = (\<lambda>_. []),
       commGhosts = (\<lambda>_. []), exchangeBufferSize = 0, dd_st = Storage_new\<rparr>"
  let ?c = "createCellGrid rank commSize L ngs cgs ?e"
  have "localCells Storage_new = []" by (simp add: Storage_new_def)
  then have built: "\<exists>dd. prepareGhostCommunication b0 (initCellInteractions dd1) = Inr dd" if "?c = Some (Inr dd1)" for dd1
    using build_ok [OF that assms, of b0] by auto
  note c = createCellGrid_cases [where rank = rank and commSize = commSize and L = L and ngs = ngs and cgs = cgs and dd = ?e]
  consider "?c = None" | e where "?c = Some (Inl e)" | dd1 where "?c = Some (Inr dd1)"
    by (cases ?c; simp) (metis sum.exhaust)
  then show ?thesis
  proof cases
    case (3 dd1)
    then obtain dd where "DomainDecomposition_new node0 cell0 b0 rank commSize L ngs cgs = Some (Inr dd)"
      using built by (force simp: DomainDecomposition_new_def)
    then show ?thesis using constructed_well_built [OF assms] by simp
  qed (use c in \<open>simp_all add: DomainDecomposition_new_def\<close>)
qed

text \<open>A single process with two cells per direction, for the examples.\<close>

definition dd_example :: "domdec res" where
  "dd_example = DomainDecomposition_new (ng_example 0) cg_example (V3 0 0 0, V3 0 0 0) 0 1
     (V3 4 4 4) (V3 1 1 1) (V3 2 2 2)"

lemma valid_grids_built:
  assumes "vall (\<lambda>x. 0 < x) L" "\<not> grid_overflow ngs cgs" "\<And>e. \<not> rejected commSize ngs cgs e"
  shows "\<exists>dd. DomainDecomposition_new node0 cell0 b0 rank commSize L ngs cgs = Some (Inr dd)"
proof -
  let ?e = "\<lparr>dd_node = node0, dd_cell = cell0, neighborCells = (\<lambda>_. []), commReals = (\<lambda>_. []),
       commGhosts = (\<lambda>_. []), exchangeBufferSize = 0, dd_st = Storage_new\<rparr>"
  have "localCells Storage_new = []" by (simp add: Storage_new_def)
  then show ?thesis
    using createCellGrid_cases [where rank = rank and commSize = commSize and L = L and ngs = ngs and cgs = cgs and dd = ?e] build_ok [OF _ assms(1), where dd = ?e and ?b0.0 = b0] assms(2,3)
    by (fastforce simp: DomainDecomposition_new_def split: option.splits sum.splits)
qed

lemma example_grids: "\<not> grid_overflow (V3 1 1 1) (V3 2 2 2)" "\<not> rejected 1 (V3 1 1 1) (V3 2 2 2) e"
  by (simp_all add: grid_overflow_def rejected_def framed_def vall_def fits_int_def INT_MIN_def INT_MAX_def)

lemma dd_example_ok: "\<exists>dd. dd_example = Some (Inr dd)"
  unfolding dd_example_def by (rule valid_grids_built [OF _ example_grids]) (simp add: vall_def)

theorem domain_decomposition_new_witness: "\<exists>dd. dd_example = Some (Inr dd) \<and> well_built (V3 2 2 2) dd"
proof -
  obtain dd where dd: "dd_example = Some (Inr dd)" using dd_example_ok by blast
  have "vall (\<lambda>x. 0 < x) (V3 4 4 4 :: real3d)" by (simp add: vall_def)
  from domain_decomposition_new [OF this, where ?node0.0 = "ng_example 0" and ?cell0.0 = cg_example and ?b0.0 = "(V3 0 0 0, V3 0 0 0)"
      and rank = 0 and commSize = 1 and ngs = "V3 1 1 1" and cgs = "V3 2 2 2"]
  show ?thesis using dd by (simp add: dd_example_def)
qed

text \<open>
  C22.  The all-pairs loop sees every pair of adjacent real cells once: of two different real
  cells that touch, exactly one lists the other as a neighbor without the flag that makes the
  all-pairs iterator skip it.
\<close>

theorem half_neighbors:
  assumes L: "vall (\<lambda>x. 0 < x) L"
    and new: "DomainDecomposition_new node0 cell0 b0 rank commSize L ngs cgs = Some (Inr dd)"
    and p: "in_grid (dd_cell dd) p" "cidx (dd_cell dd) p \<in> set (realCells (dd_st dd))"
    and q: "in_grid (dd_cell dd) q" "cidx (dd_cell dd) q \<in> set (realCells (dd_st dd))"
    and near: "p \<noteq> q" "\<bar>vx p - vx q\<bar> \<le> 1" "\<bar>vy p - vy q\<bar> \<le> 1" "\<bar>vz p - vz q\<bar> \<le> 1"
  shows "(\<exists>nc\<in>set (neighborCells dd (cidx (dd_cell dd) p)).
            nc_cell nc = cidx (dd_cell dd) q \<and> \<not> useForAllPairs nc)
     \<longleftrightarrow> \<not> (\<exists>nc\<in>set (neighborCells dd (cidx (dd_cell dd) q)).
            nc_cell nc = cidx (dd_cell dd) p \<and> \<not> useForAllPairs nc)"
proof -
  note okD = dd_okD [OF DomainDecomposition_new_ok(1) [OF L new]]
  have inner: "in_box (inner_lo (dd_cell dd)) (inner_hi (dd_cell dd)) r"
    if "in_grid (dd_cell dd) r" "cidx (dd_cell dd) r \<in> set (realCells (dd_st dd))" for r
    using that inner_in_grid [OF okD(1)] cidx_inj [OF that(1)] by (auto simp: okD(3))
  have e: "(\<exists>nc\<in>set (neighbor_list cg a). nc_cell nc = c \<and> \<not> useForAllPairs nc)
      \<longleftrightarrow> \<lparr>nc_cell = c, useForAllPairs = False\<rparr> \<in> set (neighbor_list cg a)" for cg a c
    by (auto simp: neighbor_list_eq image_iff)
  have "adjacent p q" using near by (simp add: adjacent_def)
  from half_neighbors_wf [OF okD(1) p(1) q(1) this] show ?thesis
    unfolding okD(6) [OF inner [OF p]] okD(6) [OF inner [OF q]] e by simp
qed

lemma dd_example_real:
  assumes "dd_example = Some (Inr dd)" and "vx p \<in> {1, 2}" "vy p \<in> {1, 2}" "vz p \<in> {1, 2}"
  shows "in_grid (dd_cell dd) p" "cidx (dd_cell dd) p \<in> set (realCells (dd_st dd))"
proof -
  have L: "vall (\<lambda>x. 0 < x) (V3 4 4 4 :: real3d)" by (simp add: vall_def)
  note ok = DomainDecomposition_new_ok [OF L assms(1) [unfolded dd_example_def]]
  note okD = dd_okD [OF ok(1)]
  have b: "in_box (inner_lo (dd_cell dd)) (inner_hi (dd_cell dd)) p"
    using assms(2-4) ok(5) dd_wf_sizes(1-3) [OF okD(1)]
    by (auto simp: in_box_def inner_lo_def inner_hi_def all_less_3)
  show "in_grid (dd_cell dd) p" by (rule inner_in_grid [OF okD(1) b])
  show "cidx (dd_cell dd) p \<in> set (realCells (dd_st dd))" using b by (simp add: okD(3))
qed

theorem half_neighbors_witness:
  "\<exists>dd. dd_example = Some (Inr dd)
    \<and> ((\<exists>nc\<in>set (neighborCells dd (cidx (dd_cell dd) (V3 1 1 1))).
            nc_cell nc = cidx (dd_cell dd) (V3 2 2 1) \<and> \<not> useForAllPairs nc)
     \<longleftrightarrow> \<not> (\<exists>nc\<in>set (neighborCells dd (cidx (dd_cell dd) (V3 2 2 1))).
            nc_cell nc = cidx (dd_cell dd) (V3 1 1 1) \<and> \<not> useForAllPairs nc))"
proof -
  obtain dd where dd: "dd_example = Some (Inr dd)" using dd_example_ok by blast
  have L: "vall (\<lambda>x. 0 < x) (V3 4 4 4 :: real3d)" by (simp add: vall_def)
  show ?thesis
    using dd half_neighbors [OF L dd [unfolded dd_example_def] dd_example_real [OF dd] dd_example_real [OF dd],
        of "V3 1 1 1" "V3 2 2 1"] by auto
qed

text \<open>
  C21.  The six communication steps fill the ghost frame: direction by direction, the lists of
  cells sent and filled have the same length, the \<open>i\<close>-th filled cell lies one inner width away
  from the \<open>i\<close>-th sent cell along the direction's coordinate, every sent cell is real or was
  filled in an earlier coordinate, and together the six steps fill every ghost cell exactly once.
\<close>

theorem ghost_frame_filled:
  assumes L: "vall (\<lambda>x. 0 < x) L"
    and new: "DomainDecomposition_new node0 cell0 b0 rank commSize L ngs cgs = Some (Inr dd)"
  shows "mset (concat (map (commGhosts dd) [0..<6])) = mset (ghostCells (dd_st dd))
    \<and> (\<forall>dir<6. length (commGhosts dd dir) = length (commReals dd dir)
        \<and> (\<forall>i<length (commReals dd dir). \<exists>p t. in_grid (dd_cell dd) p
             \<and> commReals dd dir ! i = cidx (dd_cell dd) p \<and> commGhosts dd dir ! i = cidx (dd_cell dd) (p + t)
             \<and> t = vupd (V3 0 0 0) (dir div 2)
                 (if dir mod 2 = 0 then getInnerGridSize (dd_cell dd) (dir div 2)
                  else - getInnerGridSize (dd_cell dd) (dir div 2)))
        \<and> set (commReals dd dir) \<subseteq> set (realCells (dd_st dd))
             \<union> (\<Union>d\<in>{0..<2 * (dir div 2)}. set (commGhosts dd d)))"
proof (intro conjI allI impI)
  let ?cg = "dd_cell dd"
  note ok = DomainDecomposition_new_ok(1) [OF L new] and okD = dd_okD [OF DomainDecomposition_new_ok(1) [OF L new]]
  note wf = okD(1)
  have "map (commGhosts dd) [0..<6] = map (\<lambda>d. box_cells ?cg (ghosts_box ?cg d)) [0..<6]"
    using okD(8) by (intro map_cong) auto
  then show "mset (concat (map (commGhosts dd) [0..<6])) = mset (ghostCells (dd_st dd))"
    using mset_ghost_cells [OF wf] ok unfolding dd_ok_def by metis
  fix dir :: nat
  assume dir: "dir < 6"
  let ?ps = "fill_loop (fst (reals_box ?cg dir)) (snd (reals_box ?cg dir))"
  have r: "commReals dd dir = map (cidx ?cg) ?ps"
    using okD(7) [OF dir] by (simp add: box_cells_def)
  have g: "commGhosts dd dir = map (\<lambda>p. cidx ?cg (p + ghost_shift ?cg dir)) ?ps"
    using okD(8) [OF dir] ghosts_box_cells [OF dir] by simp
  show "length (commGhosts dd dir) = length (commReals dd dir)" by (simp add: r g)
  have "dir div 2 < 3" using dir by linarith
  then have t: "ghost_shift ?cg dir = vupd (V3 0 0 0) (dir div 2)
      (if dir mod 2 = 0 then getInnerGridSize ?cg (dir div 2) else - getInnerGridSize ?cg (dir div 2))"
    by (simp add: ghost_shift_def Let_def dd_wf_sizes(3) [OF wf])
  show "\<exists>p t. in_grid ?cg p \<and> commReals dd dir ! i = cidx ?cg p \<and> commGhosts dd dir ! i = cidx ?cg (p + t)
      \<and> t = vupd (V3 0 0 0) (dir div 2)
        (if dir mod 2 = 0 then getInnerGridSize ?cg (dir div 2) else - getInnerGridSize ?cg (dir div 2))"
    if "i < length (commReals dd dir)" for i
  proof -
    have i: "i < length ?ps" using that by (simp add: r)
    then have "?ps ! i \<in> set ?ps" by (rule nth_mem)
    then have "in_grid ?cg (?ps ! i)" using reals_box_in_grid [OF wf dir] by simp
    with i show ?thesis unfolding t [symmetric] r g
      by (intro exI [of _ "?ps ! i"] exI [of _ "ghost_shift ?cg dir"]) simp
  qed
  show "set (commReals dd dir) \<subseteq> set (realCells (dd_st dd)) \<union> (\<Union>d\<in>{0..<2 * (dir div 2)}. set (commGhosts dd d))"
  proof
    fix c assume "c \<in> set (commReals dd dir)"
    then obtain p where p: "c = cidx ?cg p" "in_box (fst (reals_box ?cg dir)) (snd (reals_box ?cg dir)) p"
      by (auto simp: r)
    from reals_ready [OF wf dir p(2)]
    show "c \<in> set (realCells (dd_st dd)) \<union> (\<Union>d\<in>{0..<2 * (dir div 2)}. set (commGhosts dd d))"
    proof
      assume "\<exists>d<2 * (dir div 2). ghost_at ?cg d p"
      then obtain d where d: "d < 2 * (dir div 2)" "ghost_at ?cg d p" by blast
      then have "c \<in> set (commGhosts dd d)"
        using okD(8) [of d] dir by (simp add: p(1) box_cells_def)
      with d show ?thesis by auto
    qed (simp add: okD(3) p(1))
  qed
qed

theorem ghost_frame_filled_witness:
  "\<exists>dd. dd_example = Some (Inr dd)
    \<and> mset (concat (map (commGhosts dd) [0..<6])) = mset (ghostCells (dd_st dd))"
proof -
  obtain dd where dd: "dd_example = Some (Inr dd)" using dd_example_ok by blast
  have L: "vall (\<lambda>x. 0 < x) (V3 4 4 4 :: real3d)" by (simp add: vall_def)
  show ?thesis using dd ghost_frame_filled [OF L dd [unfolded dd_example_def]] by blast
qed

end
