(* ===== verification/Decomposition.thy ===== *)
theory Decomposition
  imports GhostFrame
begin

text \<open>
  \<^verbatim>\<open>src/src/storage/DomainDecomposition.cpp\<close>, the moving part: redistributing the particles over
  the processes (\<^verbatim>\<open>decomposeRealParticles\<close>), the ghost communication with its four uses, and the
  change of the cell grid.

  The state is the \<open>world\<close>, the list of all processes by rank.  A message carries its destination,
  and a receive takes the message the named sender addressed to it (\<open>mail\<close>).  The blocking
  exchanges of a coordinate happen in the order of the code: positions with an even coordinate
  send first, the others receive first.  \<open>bs\<close> and \<open>ar\<close> are the slots of the signals
  \<^verbatim>\<open>beforeSendParticles\<close> and \<^verbatim>\<open>afterRecvParticles\<close>, \<open>foldC\<close> is the folding of the boundary
  conditions, \<open>dflt\<close> a default-constructed particle.  The local lists \<^verbatim>\<open>sendBufL\<close>, \<^verbatim>\<open>sendBufR\<close>,
  \<^verbatim>\<open>recvBufL\<close>, \<^verbatim>\<open>recvBufR\<close> are the vectors \<open>TmpV 0\<close> to \<open>TmpV 3\<close>.
\<close>

type_synonym world = "domdec list"

type_synonym foldfun = "real3d \<Rightarrow> int3d \<Rightarrow> nat \<Rightarrow> (real3d \<times> int3d) option"

type_synonym slot = "particle list \<Rightarrow> buffer \<Rightarrow> buffer option"

abbreviation sendBufL :: vid where "sendBufL \<equiv> TmpV 0"
abbreviation sendBufR :: vid where "sendBufR \<equiv> TmpV 1"
abbreviation recvBufL :: vid where "recvBufL \<equiv> TmpV 2"
abbreviation recvBufR :: vid where "recvBufR \<equiv> TmpV 3"

abbreviation cell_at :: "domdec \<Rightarrow> nat \<Rightarrow> particle list" where
  "cell_at dd c \<equiv> particles_of (dd_st dd) (CellV c)"

section \<open>Sorting the particles of a process\<close>

definition dd_move :: "vid \<Rightarrow> nat \<Rightarrow> nat \<Rightarrow> domdec \<Rightarrow> domdec option" where
  "dd_move dl c p dd =
     do { (st, q) \<leftarrow> moveIndexedParticle (dd_st dd) dl (CellV c) p; Some (dd\<lparr>dd_st := st\<rparr>) }"

text \<open>
  The last direction sorts particle \<open>p\<close> of cell \<open>c\<close> into its cell; the first result tells that it
  was moved, so that the next one now has its place, the last is the flag \<^verbatim>\<open>finished\<close>.
\<close>

definition sort_particle :: "nat \<Rightarrow> nat \<Rightarrow> domdec \<Rightarrow> bool \<Rightarrow> (bool \<times> domdec \<times> bool) option" where
  "sort_particle c p dd finished =
     do { sortCell \<leftarrow> dd_mapPositionToCellChecked dd (p_pos (cell_at dd c ! p));
          if sortCell \<noteq> Some c
          then (case sortCell of
                  None \<Rightarrow> Some (False, dd, False)
                | Some c' \<Rightarrow> do { dd \<leftarrow> dd_move (CellV c') c p dd; Some (True, dd, finished) })
          else Some (False, dd, finished) }"

text \<open>The body of the loop when there is more than one process along \<open>coord\<close>.\<close>

definition scan_particle ::
  "nat \<Rightarrow> nat \<Rightarrow> nat \<Rightarrow> domdec \<Rightarrow> bool \<Rightarrow> (bool \<times> domdec \<times> bool) option" where
  "scan_particle coord c p dd finished =
     (let pos = p_pos (cell_at dd c ! p) in
      if vnth pos coord - vnth (myLeft (dd_cell dd)) coord < - ROUND_ERROR_PREC
      then do { dd \<leftarrow> dd_move sendBufL c p dd; Some (True, dd, finished) }
      else if vnth pos coord - vnth (myRight (dd_cell dd)) coord \<ge> ROUND_ERROR_PREC
      then do { dd \<leftarrow> dd_move sendBufR c p dd; Some (True, dd, finished) }
      else if coord = 2 then sort_particle c p dd finished
      else Some (False, dd, finished))"

text \<open>The body with a single process along \<open>coord\<close>: fold, and sort in the last direction.\<close>

definition fold_particle ::
  "foldfun \<Rightarrow> nat \<Rightarrow> nat \<Rightarrow> nat \<Rightarrow> domdec \<Rightarrow> bool \<Rightarrow> (bool \<times> domdec \<times> bool) option" where
  "fold_particle foldC coord c p dd finished =
     (let part = cell_at dd c ! p in
      do { (pos, img) \<leftarrow> foldC (p_pos part) (p_image part) coord;
           let part = setImage (setPos part pos) img;
           let dd = dd\<lparr>dd_st := set_vec (CellV c) (pv_set p part (vecs (dd_st dd) (CellV c))) (dd_st dd)\<rparr>;
           if coord = 2 then sort_particle c p dd finished else Some (False, dd, finished) })"

text \<open>The loop over the particles of a cell, which may shrink on the way.\<close>

partial_function (option) cell_loop ::
  "(nat \<Rightarrow> nat \<Rightarrow> domdec \<Rightarrow> bool \<Rightarrow> (bool \<times> domdec \<times> bool) option) \<Rightarrow> nat \<Rightarrow> nat \<Rightarrow> domdec \<Rightarrow> bool \<Rightarrow>
    (domdec \<times> bool) option" where
  "cell_loop body c p dd finished =
     (if p < length (cell_at dd c)
      then do { (moved, dd, finished) \<leftarrow> body c p dd finished;
                cell_loop body c (if moved then p else Suc p) dd finished }
      else Some (dd, finished))"

fun cells_loop ::
  "(nat \<Rightarrow> nat \<Rightarrow> domdec \<Rightarrow> bool \<Rightarrow> (bool \<times> domdec \<times> bool) option) \<Rightarrow> nat list \<Rightarrow> domdec \<Rightarrow> bool \<Rightarrow>
    (domdec \<times> bool) option" where
  "cells_loop body [] dd finished = Some (dd, finished)"
| "cells_loop body (c # cs) dd finished =
     do { (dd, finished) \<leftarrow> cell_loop body c 0 dd finished; cells_loop body cs dd finished }"

section \<open>Receiving particles\<close>

fun append_each :: "foldfun \<Rightarrow> nat \<Rightarrow> vid \<Rightarrow> nat list \<Rightarrow> domdec \<Rightarrow> bool \<Rightarrow> (domdec \<times> bool) option" where
  "append_each foldC dir l [] dd outlier = Some (dd, outlier)"
| "append_each foldC dir l (i # is) dd outlier =
     (let it = particles_of (dd_st dd) l ! i in
      do { (pos, img) \<leftarrow> (if getBoundary (dd_node dd) dir \<noteq> 0
              then foldC (p_pos it) (p_image it) (nat (convertDirToCoord (int dir)))
              else Some (p_pos it, p_image it));
           let it = setImage (setPos it pos) img;
           let st = set_vec l (pv_set i it (vecs (dd_st dd) l)) (dd_st dd);
           (outside, c) \<leftarrow> mapPositionToCellCheckedAndClipped (dd_cell dd) pos;
           let (st, q) = appendIndexedParticle st (CellV (nat c)) it;
           append_each foldC dir l is (dd\<lparr>dd_st := st\<rparr>) (outlier \<or> outside) })"

definition appendParticles :: "foldfun \<Rightarrow> vid \<Rightarrow> nat \<Rightarrow> domdec \<Rightarrow> (domdec \<times> bool) option" where
  "appendParticles foldC l dir dd =
     append_each foldC dir l [0..<length (particles_of (dd_st dd) l)] dd False"

section \<open>Messages\<close>

type_synonym 'm mails = "(int \<times> 'm) option list"

definition mail :: "nat \<Rightarrow> int \<Rightarrow> 'm mails \<Rightarrow> 'm option" where
  "mail me sender ms =
     (if 0 \<le> sender \<and> nat sender < length ms
      then (case ms ! nat sender of
              Some (dst, m) \<Rightarrow> if dst = int me then Some m else None | None \<Rightarrow> None)
      else None)"

text \<open>All ranks do the same; the index is the rank.\<close>

definition par :: "(nat \<Rightarrow> 'a \<Rightarrow> 'b option) \<Rightarrow> 'a list \<Rightarrow> 'b list option" where
  "par f w = those (map2 f [0..<length w] w)"

definition multi :: "nat \<Rightarrow> domdec \<Rightarrow> bool" where
  "multi coord dd \<longleftrightarrow> getGridSize (dd_node dd) coord > 1"

definition even_node :: "nat \<Rightarrow> domdec \<Rightarrow> bool" where
  "even_node coord dd \<longleftrightarrow> vnth (nodePos (dd_node dd)) coord mod 2 = 0"

definition dd_send :: "slot \<Rightarrow> vid \<Rightarrow> nat \<Rightarrow> domdec \<Rightarrow> (domdec \<times> (int \<times> message) option) option" where
  "dd_send bs l dir dd =
     do { (st, m) \<leftarrow> sendParticles bs (dd_st dd) l;
          Some (dd\<lparr>dd_st := st\<rparr>, Some (getNodeNeighborIndex (dd_node dd) dir, m)) }"

definition dd_recv :: "slot \<Rightarrow> particle \<Rightarrow> nat \<Rightarrow> vid \<Rightarrow> nat \<Rightarrow> message mails \<Rightarrow> domdec \<Rightarrow> domdec option" where
  "dd_recv ar dflt me l dir ms dd =
     do { m \<leftarrow> mail me (getNodeNeighborIndex (dd_node dd) dir) ms;
          st \<leftarrow> recvParticles ar dflt (dd_st dd) l m;
          Some (dd\<lparr>dd_st := st\<rparr>) }"

definition mix :: "'m mails \<Rightarrow> 'm mails \<Rightarrow> 'm mails" where
  "mix ms ns = map2 (\<lambda>m n. case m of None \<Rightarrow> n | Some x \<Rightarrow> Some x) ms ns"

text \<open>
  The odd-even rule: even positions send left, receive from the right, send right, receive from
  the left; odd positions receive from the right, send left, receive from the left, send right.
\<close>

definition exchange :: "slot \<Rightarrow> slot \<Rightarrow> particle \<Rightarrow> nat \<Rightarrow> world \<Rightarrow> world option" where
  "exchange bs ar dflt coord w =
     (let L = 2 * coord; R = 2 * coord + 1;
          ev = (\<lambda>dd. multi coord dd \<and> even_node coord dd);
          od = (\<lambda>dd. multi coord dd \<and> \<not> even_node coord dd)
      in do {
        s \<leftarrow> par (\<lambda>r dd. if ev dd then dd_send bs sendBufL L dd else Some (dd, None)) w;
        let m1 = map snd s;
        s \<leftarrow> par (\<lambda>r dd. if od dd then do { dd \<leftarrow> dd_recv ar dflt r recvBufR R m1 dd; dd_send bs sendBufL L dd }
                         else Some (dd, None)) (map fst s);
        let m2 = mix m1 (map snd s);
        s \<leftarrow> par (\<lambda>r dd. if ev dd then do { dd \<leftarrow> dd_recv ar dflt r recvBufR R m2 dd; dd_send bs sendBufR R dd }
                         else Some (dd, None)) (map fst s);
        let m3 = map snd s;
        s \<leftarrow> par (\<lambda>r dd. if od dd then do { dd \<leftarrow> dd_recv ar dflt r recvBufL L m3 dd; dd_send bs sendBufR R dd }
                         else Some (dd, None)) (map fst s);
        let m4 = mix m3 (map snd s);
        par (\<lambda>r dd. if ev dd then dd_recv ar dflt r recvBufL L m4 dd else Some dd) (map fst s) })"

definition clear_buffers :: "domdec \<Rightarrow> domdec" where
  "clear_buffers dd =
     dd\<lparr>dd_st := fold (\<lambda>v st. set_vec v (pv_clear (vecs st v)) st)
        [sendBufL, sendBufR, recvBufL, recvBufR] (dd_st dd)\<rparr>"

definition append_received :: "foldfun \<Rightarrow> nat \<Rightarrow> domdec \<Rightarrow> bool \<Rightarrow> (domdec \<times> bool) option" where
  "append_received foldC coord dd finished =
     do { (dd, o1) \<leftarrow> appendParticles foldC recvBufL (2 * coord) dd;
          let finished = (if o1 \<and> coord = 2 then False else finished);
          (dd, o2) \<leftarrow> appendParticles foldC recvBufR (2 * coord + 1) dd;
          let finished = (if o2 \<and> coord = 2 then False else finished);
          Some (clear_buffers dd, finished) }"

text \<open>One coordinate of one round, on all processes.\<close>

definition decompose_coord ::
  "slot \<Rightarrow> slot \<Rightarrow> foldfun \<Rightarrow> particle \<Rightarrow> nat \<Rightarrow> world \<times> bool list \<Rightarrow> (world \<times> bool list) option" where
  "decompose_coord bs ar foldC dflt coord s =
     do { t \<leftarrow> par (\<lambda>r (dd, f). if multi coord dd
              then cells_loop (scan_particle coord) (realCells (dd_st dd)) dd f
              else cells_loop (fold_particle foldC coord) (realCells (dd_st dd)) dd f) (zip (fst s) (snd s));
          w \<leftarrow> exchange bs ar dflt coord (map fst t);
          t \<leftarrow> par (\<lambda>r (dd, f). if multi coord dd then append_received foldC coord dd f else Some (dd, f))
                (zip w (map snd t));
          Some (map fst t, map snd t) }"

definition decompose_round ::
  "slot \<Rightarrow> slot \<Rightarrow> foldfun \<Rightarrow> particle \<Rightarrow> world \<Rightarrow> (world \<times> bool list) option" where
  "decompose_round bs ar foldC dflt w =
     do { s \<leftarrow> decompose_coord bs ar foldC dflt 0 (w, map (\<lambda>_. True) w);
          s \<leftarrow> decompose_coord bs ar foldC dflt 1 s;
          decompose_coord bs ar foldC dflt 2 s }"

text \<open>\<open>None\<close>: the rounds go on for ever, or one of the operations is undefined.\<close>

partial_function (option) decompose_rounds ::
  "slot \<Rightarrow> slot \<Rightarrow> foldfun \<Rightarrow> particle \<Rightarrow> world \<Rightarrow> world option" where
  "decompose_rounds bs ar foldC dflt w =
     do { (w, fs) \<leftarrow> decompose_round bs ar foldC dflt w;
          if list_all (\<lambda>f. f) fs then Some w else decompose_rounds bs ar foldC dflt w }"

text \<open>
  The four lists are local: they start empty with the capacity reserved so far, and their
  capacities at the end raise \<^verbatim>\<open>exchangeBufferSize\<close>.
\<close>

definition reserve_buffers :: "domdec \<Rightarrow> domdec" where
  "reserve_buffers dd =
     dd\<lparr>dd_st := fold (\<lambda>v st. set_vec v \<lparr>pv_base = 0, pv_cap = exchangeBufferSize dd, pv_elems = []\<rparr> st)
        [sendBufL, sendBufR, recvBufL, recvBufR] (dd_st dd)\<rparr>"

definition note_capacity :: "domdec \<Rightarrow> domdec" where
  "note_capacity dd =
     (let cap = (\<lambda>v. pv_cap (vecs (dd_st dd) v))
      in dd\<lparr>exchangeBufferSize := max (exchangeBufferSize dd)
              (max (cap sendBufL) (max (cap sendBufR) (max (cap recvBufL) (cap recvBufR))))\<rparr>)"

definition decomposeRealParticles :: "slot \<Rightarrow> slot \<Rightarrow> foldfun \<Rightarrow> particle \<Rightarrow> world \<Rightarrow> world option" where
  "decomposeRealParticles bs ar foldC dflt w =
     map_option (map note_capacity) (decompose_rounds bs ar foldC dflt (map reserve_buffers w))"

end
