(* ===== verification/GhostComm.thy ===== *)
theory GhostComm
  imports Decomposition
begin

text \<open>
  \<^verbatim>\<open>doGhostCommunication\<close> of \<^verbatim>\<open>src/src/storage/DomainDecomposition.cpp\<close> with its four uses, and
  \<^verbatim>\<open>cellAdjust\<close> and \<^verbatim>\<open>scaleVolume\<close>, which rebuild or scale the cell grid.  \<open>L\<close> is the box of the
  boundary conditions, \<open>extradata\<close> the mask of what travels beside the positions.
\<close>

section \<open>One direction\<close>

definition ghost_shift_vec :: "real3d \<Rightarrow> nat \<Rightarrow> nat \<Rightarrow> domdec \<Rightarrow> real3d" where
  "ghost_shift_vec L coord dir dd =
     vupd (V3 0 0 0) coord (of_int (getBoundary (dd_node dd) dir) * vnth L coord)"

fun copy_cells :: "particle \<Rightarrow> int \<Rightarrow> real3d \<Rightarrow> (nat \<times> nat) list \<Rightarrow> storage \<Rightarrow> storage" where
  "copy_cells dflt extradata shift [] st = st"
| "copy_cells dflt extradata shift ((r, g) # ps) st =
     copy_cells dflt extradata shift ps (copyRealsToGhosts dflt st r g extradata shift)"

fun add_cells :: "(nat \<times> nat) list \<Rightarrow> storage \<Rightarrow> storage option" where
  "add_cells [] st = Some st"
| "add_cells ((r, g) # ps) st = do { st \<leftarrow> addGhostForcesToReals st g r; add_cells ps st }"

text \<open>With a single process along the coordinate the cells are copied locally.\<close>

definition local_dir ::
  "particle \<Rightarrow> real3d \<Rightarrow> bool \<Rightarrow> int \<Rightarrow> nat \<Rightarrow> nat \<Rightarrow> domdec \<Rightarrow> domdec res" where
  "local_dir dflt L realToGhosts extradata coord lr dd =
     (let dir = 2 * coord + lr; rs = commReals dd dir; gs = commGhosts dd dir in
      if length gs \<noteq> length rs then Some (Inl CellStructureMismatch)
      else if realToGhosts
      then Some (Inr (dd\<lparr>dd_st := copy_cells dflt extradata (ghost_shift_vec L coord dir dd) (zip rs gs) (dd_st dd)\<rparr>))
      else rlift (do { st \<leftarrow> add_cells (zip rs gs) (dd_st dd); Some (dd\<lparr>dd_st := st\<rparr>) }))"

text \<open>Otherwise the sizes of the sent cells go first, when asked for, \<dots>\<close>

definition send_sizes :: "nat \<Rightarrow> nat \<Rightarrow> domdec \<Rightarrow> (int \<times> longint list) option" where
  "send_sizes coord lr dd =
     (let dir = 2 * coord + lr in
      if multi coord dd
      then Some (getNodeNeighborIndex (dd_node dd) dir, map (\<lambda>c. int (length (cell_at dd c))) (commReals dd dir))
      else None)"

fun resize_ghosts :: "particle \<Rightarrow> (nat \<times> longint) list \<Rightarrow> storage \<Rightarrow> storage" where
  "resize_ghosts dflt [] st = st"
| "resize_ghosts dflt ((c, n) # ps) st =
     resize_ghosts dflt ps (set_vec (CellV c) (pv_resize (nat n) dflt (vecs st (CellV c))) st)"

definition recv_sizes ::
  "particle \<Rightarrow> nat \<Rightarrow> nat \<Rightarrow> longint list mails \<Rightarrow> nat \<Rightarrow> domdec \<Rightarrow> domdec option" where
  "recv_sizes dflt coord lr ms r dd =
     (if multi coord dd
      then do { got \<leftarrow> mail r (getNodeNeighborIndex (dd_node dd) (2 * coord + (1 - lr))) ms;
                let gs = commGhosts dd (2 * coord + lr);
                if length got \<le> length gs
                then Some (dd\<lparr>dd_st := resize_ghosts dflt
                       (zip gs (got @ replicate (length gs - length got) 0)) (dd_st dd)\<rparr>)
                else None }
      else Some dd)"

text \<open>\<dots> then the data.\<close>

fun pack_cells :: "(nat \<Rightarrow> buffer \<Rightarrow> buffer option) \<Rightarrow> nat list \<Rightarrow> buffer \<Rightarrow> buffer option" where
  "pack_cells pk [] buf = Some buf"
| "pack_cells pk (c # cs) buf = do { buf \<leftarrow> pk c buf; pack_cells pk cs buf }"

definition send_data ::
  "real3d \<Rightarrow> bool \<Rightarrow> int \<Rightarrow> nat \<Rightarrow> nat \<Rightarrow> domdec \<Rightarrow> (domdec \<times> (int \<times> message) option) option" where
  "send_data L realToGhosts extradata coord lr dd =
     (let dir = 2 * coord + lr; oppositeDir = 2 * coord + (1 - lr); st = dd_st dd;
          shift = ghost_shift_vec L coord dir dd in
      do { buf \<leftarrow> (if realToGhosts
             then pack_cells (\<lambda>c buf. packPositionsEtc st buf c extradata shift) (commReals dd dir) (buf_reset (outBuffer st))
             else pack_cells (\<lambda>c buf. packForces st buf c) (commGhosts dd dir) (buf_reset (outBuffer st)));
           Some (dd\<lparr>dd_st := st\<lparr>outBuffer := buf\<rparr>\<rparr>,
                 Some (getNodeNeighborIndex (dd_node dd) (if realToGhosts then dir else oppositeDir), buf_send buf)) })"

fun unpack_cells :: "(storage \<Rightarrow> nat \<Rightarrow> buffer \<Rightarrow> (storage \<times> buffer) option) \<Rightarrow> nat list \<Rightarrow> storage \<times> buffer \<Rightarrow>
    (storage \<times> buffer) option" where
  "unpack_cells up [] s = Some s"
| "unpack_cells up (c # cs) (st, buf) = do { s \<leftarrow> up st c buf; unpack_cells up cs s }"

text \<open>Both unpacking loops run over the number of \<^verbatim>\<open>reals\<close>.\<close>

definition recv_data ::
  "bool \<Rightarrow> int \<Rightarrow> nat \<Rightarrow> nat \<Rightarrow> message mails \<Rightarrow> nat \<Rightarrow> domdec \<Rightarrow> domdec option" where
  "recv_data realToGhosts extradata coord lr ms r dd =
     (let dir = 2 * coord + lr; oppositeDir = 2 * coord + (1 - lr);
          rs = commReals dd dir; gs = commGhosts dd dir; st = dd_st dd in
      do { m \<leftarrow> mail r (getNodeNeighborIndex (dd_node dd) (if realToGhosts then oppositeDir else dir)) ms;
           let buf = buf_recv m (inBuffer st);
           (st, buf) \<leftarrow> (if realToGhosts
             then (if length rs \<le> length gs
                   then unpack_cells (\<lambda>st c buf. unpackPositionsEtc st c buf extradata) (take (length rs) gs) (st, buf)
                   else None)
             else unpack_cells unpackAndAddForces rs (st, buf));
           Some (dd\<lparr>dd_st := st\<lparr>inBuffer := buf\<rparr>\<rparr>) })"

text \<open>A direction on all processes; the first exception ends it.\<close>

fun first_error :: "'a res list \<Rightarrow> 'a list res" where
  "first_error [] = Some (Inr [])"
| "first_error (r # rs) = rbind r (\<lambda>x. rbind (first_error rs) (\<lambda>xs. Some (Inr (x # xs))))"

definition ghost_dir ::
  "particle \<Rightarrow> real3d \<Rightarrow> bool \<Rightarrow> bool \<Rightarrow> int \<Rightarrow> nat \<Rightarrow> nat \<Rightarrow> world \<Rightarrow> world res" where
  "ghost_dir dflt L sizesFirst realToGhosts extradata coord lr w =
     rbind (rlift (if sizesFirst
              then par (recv_sizes dflt coord lr (map (send_sizes coord lr) w)) w else Some w)) (\<lambda>w.
     rbind (rlift (par (\<lambda>r dd. if multi coord dd then send_data L realToGhosts extradata coord lr dd
                          else Some (dd, None)) w)) (\<lambda>s.
     first_error (map2 (\<lambda>r dd. if multi coord dd
              then rlift (recv_data realToGhosts extradata coord lr (map snd s) r dd)
              else local_dir dflt L realToGhosts extradata coord lr dd) [0..<length s] (map fst s))))"

definition doGhostCommunication ::
  "particle \<Rightarrow> real3d \<Rightarrow> bool \<Rightarrow> bool \<Rightarrow> int \<Rightarrow> world \<Rightarrow> world res" where
  "doGhostCommunication dflt L sizesFirst realToGhosts extradata w =
     rfold (\<lambda>k w.
         let coord = (if realToGhosts then k else 2 - k) in
         rfold (\<lambda>lr w. ghost_dir dflt L sizesFirst realToGhosts extradata coord lr w) [0, 1] w)
       [0, 1, 2] w"

definition dataOfUpdateGhosts :: int where "dataOfUpdateGhosts = 0"
definition dataOfExchangeGhosts :: int where "dataOfExchangeGhosts = DATA_PROPERTIES"

definition exchangeGhosts :: "particle \<Rightarrow> real3d \<Rightarrow> world \<Rightarrow> world res" where
  "exchangeGhosts dflt L = doGhostCommunication dflt L True True dataOfExchangeGhosts"

definition updateGhosts :: "particle \<Rightarrow> real3d \<Rightarrow> world \<Rightarrow> world res" where
  "updateGhosts dflt L = doGhostCommunication dflt L False True dataOfUpdateGhosts"

definition updateGhostsV :: "particle \<Rightarrow> real3d \<Rightarrow> world \<Rightarrow> world res" where
  "updateGhostsV dflt L = doGhostCommunication dflt L False True 2"

definition collectGhostForces :: "particle \<Rightarrow> real3d \<Rightarrow> world \<Rightarrow> world res" where
  "collectGhostForces dflt L = doGhostCommunication dflt L False False 0"

section \<open>Decomposing\<close>

text \<open>
  \<^verbatim>\<open>Storage::decompose\<close> with this class's virtual functions.  The objects connected to \<^verbatim>\<open>onParticlesChanged\<close>
  (Verlet lists, lists of bonds, \<dots>) have a state of their own, \<open>y\<close>; \<open>changed\<close> is what their slots make of it when
  the signal is emitted: they look at the particles of all processes and leave them as they are.
\<close>

definition emit_changed :: "(world \<Rightarrow> 'y \<Rightarrow> 'y res) \<Rightarrow> world \<Rightarrow> 'y \<Rightarrow> (world \<times> 'y) res" where
  "emit_changed changed w y =
     (let w = map (\<lambda>dd. dd\<lparr>dd_st := onParticlesChanged (dd_st dd)\<rparr>) w in
      rbind (changed w y) (\<lambda>y. Some (Inr (w, y))))"

definition on_storage :: "(storage \<Rightarrow> storage option) \<Rightarrow> domdec \<Rightarrow> domdec option" where
  "on_storage f dd = do { st \<leftarrow> f (dd_st dd); Some (dd\<lparr>dd_st := st\<rparr>) }"

definition dd_decompose ::
  "slot \<Rightarrow> slot \<Rightarrow> foldfun \<Rightarrow> particle \<Rightarrow> real3d \<Rightarrow> (world \<Rightarrow> 'y \<Rightarrow> 'y res) \<Rightarrow> world \<times> 'y \<Rightarrow> (world \<times> 'y) res" where
  "dd_decompose bs ar foldC dflt L changed s = (let (w, y) = s in
     rbind (rlift (par (\<lambda>_. on_storage invalidateGhosts) w)) (\<lambda>w.
     rbind (rlift (decomposeRealParticles bs ar foldC dflt w)) (\<lambda>w.
     rbind (exchangeGhosts dflt L w) (\<lambda>w. emit_changed changed w y))))"

section \<open>Changing the cell grid\<close>

text \<open>
  \<^verbatim>\<open>cellAdjust\<close> on one process, up to the exchange of the ghosts: the new number of cells, the
  cells cleared and built again, the particles put back.  \<open>rc_skin\<close> is cutoff plus skin; the
  three casts and the division by zero are undefined out of range.
\<close>

definition new_cell_count :: "real3d \<Rightarrow> real \<Rightarrow> int3d \<Rightarrow> int3d option" where
  "new_cell_count L rc_skin ng =
     do { ix \<leftarrow> cast_int (vx L / (rc_skin * of_int (vx ng)));
          iy \<leftarrow> cast_int (vy L / (rc_skin * of_int (vy ng)));
          iz \<leftarrow> cast_int (vz L / (rc_skin * of_int (vz ng)));
          Some (V3 ix iy iz) }"

definition clear_cells :: "domdec \<Rightarrow> domdec" where
  "clear_cells dd =
     (let st = dd_st dd in
      dd\<lparr>neighborCells := (\<lambda>_. []), commReals := (\<lambda>d. if d < 6 then [] else commReals dd d),
         commGhosts := (\<lambda>d. if d < 6 then [] else commGhosts dd d),
         dd_st := st\<lparr>vecs := (\<lambda>v. case v of CellV _ \<Rightarrow> pv_empty | _ \<Rightarrow> vecs st v),
                     localCells := [], realCells := [], ghostCells := []\<rparr>\<rparr>)"

definition cell_adjust_local ::
  "int \<Rightarrow> int \<Rightarrow> int3d \<times> int3d \<Rightarrow> real3d \<Rightarrow> real \<Rightarrow> domdec \<Rightarrow> domdec res" where
  "cell_adjust_local rank commSize b0 L rc_skin dd =
     (let ngs = gsize (dd_node dd); tmp_pl = cellParticles (dd_st dd) (realCells (dd_st dd)) in
      rbind (rlift (new_cell_count L rc_skin ngs)) (\<lambda>ncg.
      rbind (rlift (on_storage invalidateGhosts dd)) (\<lambda>dd.
      rbind (createCellGrid rank commSize L ngs ncg (clear_cells dd)) (\<lambda>dd.
      rbind (Some (prepareGhostCommunication b0 (initCellInteractions dd))) (\<lambda>dd.
      rbind (rlift (append_all (dd_mapPositionToCellClipped dd) tmp_pl (dd_st dd))) (\<lambda>st.
      Some (Inr (dd\<lparr>dd_st := updateCells (realCells st) st\<rparr>))))))))"

definition cellAdjust ::
  "particle \<Rightarrow> int3d \<times> int3d \<Rightarrow> real3d \<Rightarrow> real \<Rightarrow> (world \<Rightarrow> 'y \<Rightarrow> 'y res) \<Rightarrow> world \<times> 'y \<Rightarrow> (world \<times> 'y) res" where
  "cellAdjust dflt b0 L rc_skin changed s = (let (w, y) = s in
     rbind (first_error (map2 (\<lambda>r dd. cell_adjust_local (int r) (int (length w)) b0 L rc_skin dd)
              [0..<length w] w)) (\<lambda>w.
     rbind (exchangeGhosts dflt L w) (\<lambda>w. emit_changed changed w y)))"

text \<open>
  \<^verbatim>\<open>scaleVolume\<close>; all processes take the same branch.  The exception is recorded in an error
  object whose destructor raises it.
\<close>

definition scale_grids :: "(cellgrid \<Rightarrow> cellgrid) \<Rightarrow> (nodegrid \<Rightarrow> nodegrid) \<Rightarrow> domdec \<Rightarrow> domdec" where
  "scale_grids fc fn dd = dd\<lparr>dd_cell := fc (dd_cell dd), dd_node := fn (dd_node dd)\<rparr>"

definition too_small :: "(domdec \<Rightarrow> real) \<Rightarrow> real \<Rightarrow> world \<Rightarrow> bool" where
  "too_small diam cs w \<longleftrightarrow> list_ex (\<lambda>dd. cs > diam dd) w"

definition dd_scaleVolume ::
  "particle \<Rightarrow> int3d \<times> int3d \<Rightarrow> real3d \<Rightarrow> real \<Rightarrow> (world \<Rightarrow> 'y \<Rightarrow> 'y res) \<Rightarrow> real \<Rightarrow> bool \<Rightarrow> world \<times> 'y \<Rightarrow> (world \<times> 'y) res" where
  "dd_scaleVolume dflt b0 L cs changed s particleCoordinates t =
     (let (w, y) = t; w = (if particleCoordinates then map (\<lambda>dd. dd\<lparr>dd_st := st_scaleVolume (dd_st dd) s\<rparr>) w else w) in
      if too_small (\<lambda>dd. s * smallestCellDiameter (dd_cell dd)) cs w
      then if cs > min3 L then Some (Inl SystemTooSmall) else cellAdjust dflt b0 L cs changed (w, y)
      else Some (Inr (map (scale_grids (\<lambda>g. cg_scaleVolume g s) (\<lambda>g. ng_scaleVolume g s)) w, y)))"

definition dd_scaleVolumeV ::
  "particle \<Rightarrow> int3d \<times> int3d \<Rightarrow> real3d \<Rightarrow> real \<Rightarrow> (world \<Rightarrow> 'y \<Rightarrow> 'y res) \<Rightarrow> real3d \<Rightarrow> bool \<Rightarrow> world \<times> 'y \<Rightarrow> (world \<times> 'y) res" where
  "dd_scaleVolumeV dflt b0 L cs changed s particleCoordinates t =
     (let (w, y) = t; w = (if particleCoordinates then map (\<lambda>dd. dd\<lparr>dd_st := st_scaleVolumeV (dd_st dd) s\<rparr>) w else w) in
      if too_small (\<lambda>dd. let d = smallestCellDiameter (dd_cell dd) in min (min (vx s * d) (vy s * d)) (vz s * d)) cs w
      then if cs > min3 L then Some (Inl SystemTooSmall) else cellAdjust dflt b0 L cs changed (w, y)
      else Some (Inr (map (scale_grids (\<lambda>g. cg_scaleVolumeV g s) (\<lambda>g. ng_scaleVolumeV g s)) w, y)))"

end
