(* ===== verification/Integrator.thy ===== *)
theory Integrator
  imports GhostComm
begin

text \<open>
  \<^verbatim>\<open>src/src/integrator/MDIntegrator.hpp/.cpp\<close> and \<^verbatim>\<open>VelocityVerlet.hpp/.cpp\<close>: the integrator that
  drives the storage.  Every process has its own integrator object, but time step, step counter,
  \<^verbatim>\<open>resortFlag\<close> and \<^verbatim>\<open>maxDist\<close> are the same on all (the maximal distance is reduced over the
  processes), so the state is one integrator, the \<open>world\<close>, and the state of the objects connected to the signals.  What
  the signals are connected to and the interactions are parameters, functions on that state that may fail; the timers
  are left out.
\<close>

section \<open>The integrator object\<close>

record mdintegrator =
  timeFlag :: bool
  md_step :: int
  md_dt :: real
  md_exList :: "nat list"

record velocityverlet = mdintegrator +
  resortFlag :: bool
  maxDist :: real

datatype md_error = TimestepZero

definition VelocityVerlet_new :: velocityverlet where
  "VelocityVerlet_new = \<lparr>timeFlag = True, md_step = 0, md_dt = 0.005, md_exList = [],
     resortFlag = True, maxDist = 0\<rparr>"

text \<open>The error object of \<^verbatim>\<open>setTimeStep\<close> raises its exception when it is destroyed.\<close>

definition setTimeStep :: "real \<Rightarrow> 'a mdintegrator_scheme \<Rightarrow> md_error + 'a mdintegrator_scheme" where
  "setTimeStep d v = (if d = 0 then Inl TimestepZero else Inr (v\<lparr>md_dt := d\<rparr>))"

definition getTimeStep :: "'a mdintegrator_scheme \<Rightarrow> real" where "getTimeStep v = md_dt v"

definition setStep :: "int \<Rightarrow> 'a mdintegrator_scheme \<Rightarrow> 'a mdintegrator_scheme" where
  "setStep s v = v\<lparr>md_step := s\<rparr>"

definition getStep :: "'a mdintegrator_scheme \<Rightarrow> int" where "getStep v = md_step v"

definition addExtension :: "nat \<Rightarrow> 'a mdintegrator_scheme \<Rightarrow> 'a mdintegrator_scheme" where
  "addExtension e v = v\<lparr>md_exList := md_exList v @ [e]\<rparr>"

definition getNumberOfExtensions :: "'a mdintegrator_scheme \<Rightarrow> int" where
  "getNumberOfExtensions v = int (length (md_exList v))"

definition getExtension :: "int \<Rightarrow> 'a mdintegrator_scheme \<Rightarrow> nat option" where
  "getExtension k v = (if 0 \<le> k \<and> nat k < length (md_exList v) then Some (md_exList v ! nat k) else None)"

section \<open>Moving the particles of a process\<close>

text \<open>
  Half a step of the velocity, a step of the position; the second result is the squared move.  A velocity divided by a
  mass of zero is infinite or not a number in the code and no real number: the first half of the step (\<open>kick_drift\<close>)
  and the second (\<open>integrate2_local\<close>, before it uses \<open>kick\<close>) have no value, \<open>None\<close>, when a real particle has no mass.
\<close>

definition kick_drift :: "real \<Rightarrow> particle \<Rightarrow> (particle \<times> real) option" where
  "kick_drift dt x =
     (if pp_mass (part_p x) = 0 then None
      else let dtfm = 0.5 * dt / pp_mass (part_p x);
          v = pm_v (part_m x) + real3d_scale (pf_f (part_f x)) dtfm;
          deltaP = real3d_scale v dt
      in Some (x\<lparr>part_m := (part_m x)\<lparr>pm_v := v\<rparr>, part_r := (part_r x)\<lparr>pr_p := pr_p (part_r x) + deltaP\<rparr>\<rparr>,
               0 + real3d_dot deltaP deltaP))"

fun integrate1_list :: "real \<Rightarrow> particle list \<Rightarrow> real \<Rightarrow> (particle list \<times> real) option" where
  "integrate1_list dt [] maxSqDist = Some ([], maxSqDist)"
| "integrate1_list dt (x # xs) maxSqDist =
     do { (y, sqDist) \<leftarrow> kick_drift dt x; (ys, m) \<leftarrow> integrate1_list dt xs (max maxSqDist sqDist); Some (y # ys, m) }"

fun integrate1_cells :: "real \<Rightarrow> nat list \<Rightarrow> storage \<Rightarrow> real \<Rightarrow> (storage \<times> real) option" where
  "integrate1_cells dt [] st maxSqDist = Some (st, maxSqDist)"
| "integrate1_cells dt (c # cs) st maxSqDist =
     do { (xs, m) \<leftarrow> integrate1_list dt (particles_of st (CellV c)) maxSqDist;
          integrate1_cells dt cs (set_cell st c xs) m }"

definition integrate1_local :: "real \<Rightarrow> domdec \<Rightarrow> (domdec \<times> real) option" where
  "integrate1_local dt dd =
     do { (st, m) \<leftarrow> integrate1_cells dt (realCells (dd_st dd)) (dd_st dd) 0; Some (dd\<lparr>dd_st := st\<rparr>, m) }"

definition kick :: "real \<Rightarrow> particle \<Rightarrow> particle" where
  "kick dt x =
     (let half_dt = 0.5 * dt; dtfm = half_dt / pp_mass (part_p x)
      in x\<lparr>part_m := (part_m x)\<lparr>pm_v := pm_v (part_m x) + real3d_scale (pf_f (part_f x)) dtfm\<rparr>\<rparr>)"

definition map_cells :: "(particle \<Rightarrow> particle) \<Rightarrow> nat list \<Rightarrow> storage \<Rightarrow> storage" where
  "map_cells f cs st = fold (\<lambda>c st. set_cell st c (map f (particles_of st (CellV c)))) cs st"

definition massive :: "storage \<Rightarrow> bool" where
  "massive st \<longleftrightarrow> list_all (\<lambda>c. list_all (\<lambda>x. pp_mass (part_p x) \<noteq> 0) (particles_of st (CellV c))) (realCells st)"

definition integrate2_local :: "real \<Rightarrow> domdec \<Rightarrow> domdec option" where
  "integrate2_local dt dd =
     (if massive (dd_st dd) then Some (dd\<lparr>dd_st := map_cells (kick dt) (realCells (dd_st dd)) (dd_st dd)\<rparr>) else None)"

text \<open>The radial part of the force is not reset.\<close>

definition zero_force :: "particle \<Rightarrow> particle" where
  "zero_force x = x\<lparr>part_f := (part_f x)\<lparr>pf_f := V3 0 0 0\<rparr>, part_p := (part_p x)\<lparr>pp_drift := 0\<rparr>\<rparr>"

definition initForces_local :: "domdec \<Rightarrow> domdec" where
  "initForces_local dd = dd\<lparr>dd_st := map_cells zero_force (localCells (dd_st dd)) (dd_st dd)\<rparr>"

section \<open>The run\<close>

datatype md_signal = RunInit | Recalc1 | Recalc2 | BefIntP | AftIntP | AftInitF | AftCalcF | BefIntV | AftIntV | AftIntV2

text \<open>
  The system is the particles of all processes, and the objects connected to the storage, to the integrator and to the
  interactions, with a state \<open>'y\<close> of their own.  What the integrator uses: the skin, the storage's operations and what
  they need, what the slots of \<^verbatim>\<open>onParticlesChanged\<close> do to the connected objects, what the signals of the
  integrator do (\<^verbatim>\<open>inIntP\<close> may change the maximal squared distances), the short range interactions.
\<close>

type_synonym 'y mdworld = "world \<times> 'y"

record 'y mdsystem =
  sys_skin :: real
  sys_before :: slot
  sys_after :: slot
  sys_fold :: foldfun
  sys_dflt :: particle
  sys_boxL :: real3d
  sys_changed :: "world \<Rightarrow> 'y \<Rightarrow> 'y res"
  sys_signal :: "md_signal \<Rightarrow> 'y mdworld \<Rightarrow> 'y mdworld res"
  sys_inIntP :: "'y mdworld \<Rightarrow> real list \<Rightarrow> ('y mdworld \<times> real list) res"
  sys_interactions :: "('y mdworld \<Rightarrow> 'y mdworld res) list"

definition sys_decompose :: "'y mdsystem \<Rightarrow> 'y mdworld \<Rightarrow> 'y mdworld res" where
  "sys_decompose S = dd_decompose (sys_before S) (sys_after S) (sys_fold S) (sys_dflt S) (sys_boxL S) (sys_changed S)"

text \<open>The ghost communication changes the particles only.\<close>

definition on_particles :: "(world \<Rightarrow> world res) \<Rightarrow> 'y mdworld \<Rightarrow> 'y mdworld res" where
  "on_particles f s = rbind (f (fst s)) (\<lambda>w. Some (Inr (w, snd s)))"

type_synonym 'y md_state = "velocityverlet \<times> 'y mdworld"

definition all_reduce_max :: "real list \<Rightarrow> real" where
  "all_reduce_max ms = fold max (tl ms) (hd ms)"

definition integrate1 :: "'y mdsystem \<Rightarrow> real \<Rightarrow> 'y mdworld \<Rightarrow> ('y mdworld \<times> real) res" where
  "integrate1 S dt s =
     rbind (rlift (par (\<lambda>_. integrate1_local dt) (fst s))) (\<lambda>r.
     rbind (sys_inIntP S (map fst r, snd s) (map snd r)) (\<lambda>(s, ms).
     Some (Inr (s, sqrt (all_reduce_max ms)))))"

definition integrate2 :: "real \<Rightarrow> 'y mdworld \<Rightarrow> 'y mdworld res" where
  "integrate2 dt = on_particles (\<lambda>w. rlift (par (\<lambda>_. integrate2_local dt) w))"

definition calcForces :: "'y mdsystem \<Rightarrow> 'y mdworld \<Rightarrow> 'y mdworld res" where
  "calcForces S s =
     rbind (sys_signal S AftInitF (map initForces_local (fst s), snd s))
       (rfold (\<lambda>addForces s. addForces s) (sys_interactions S))"

definition updateForces :: "'y mdsystem \<Rightarrow> 'y mdworld \<Rightarrow> 'y mdworld res" where
  "updateForces S s =
     rbind (on_particles (updateGhosts (sys_dflt S) (sys_boxL S)) s) (\<lambda>s.
     rbind (calcForces S s) (\<lambda>s.
     rbind (on_particles (collectGhostForces (sys_dflt S) (sys_boxL S)) s) (\<lambda>s.
     sys_signal S AftCalcF s)))"

definition vv_resort :: "'y mdsystem \<Rightarrow> 'y md_state \<Rightarrow> 'y md_state res" where
  "vv_resort S s = (let (v, w) = s in
     if resortFlag v
     then rbind (sys_decompose S w) (\<lambda>w. Some (Inr (v\<lparr>maxDist := 0, resortFlag := False\<rparr>, w)))
     else Some (Inr (v, w)))"

text \<open>A step: up to the test of the skin, the resort when needed, the forces, and what comes after them.\<close>

definition vv_shift :: "'y mdsystem \<Rightarrow> 'y md_state \<Rightarrow> 'y md_state res" where
  "vv_shift S s = (let (v, w) = s; skinHalf = 0.5 * sys_skin S in
     rbind (sys_signal S BefIntP w) (\<lambda>w.
     rbind (integrate1 S (md_dt v) w) (\<lambda>(w, d).
     let v = v\<lparr>maxDist := maxDist v + d\<rparr> in
     rbind (sys_signal S AftIntP w) (\<lambda>w.
     let v = (if maxDist v > skinHalf then v\<lparr>resortFlag := True\<rparr> else v) in Some (Inr (v, w))))))"

definition vv_finish :: "'y mdsystem \<Rightarrow> 'y md_state \<Rightarrow> 'y md_state res" where
  "vv_finish S s = (let (v, w) = s in
     rbind (sys_signal S BefIntV w) (\<lambda>w.
     rbind (integrate2 (md_dt v) w) (\<lambda>w.
     let v = v\<lparr>md_step := md_step v + 1\<rparr> in
     rbind (sys_signal S AftIntV w) (\<lambda>w.
     rbind (sys_signal S AftIntV2 w) (\<lambda>w. Some (Inr (v, w)))))))"

definition on_world :: "('y mdworld \<Rightarrow> 'y mdworld res) \<Rightarrow> 'y md_state \<Rightarrow> 'y md_state res" where
  "on_world f s = rbind (f (snd s)) (\<lambda>w. Some (Inr (fst s, w)))"

definition vv_step :: "'y mdsystem \<Rightarrow> 'y md_state \<Rightarrow> 'y md_state res" where
  "vv_step S s = rbind (vv_shift S s) (\<lambda>s. rbind (vv_resort S s) (\<lambda>s. rbind (on_world (updateForces S) s) (vv_finish S)))"

fun vv_steps :: "'y mdsystem \<Rightarrow> nat \<Rightarrow> 'y md_state \<Rightarrow> 'y md_state res" where
  "vv_steps S 0 s = Some (Inr s)"
| "vv_steps S (Suc n) s = rbind (vv_step S s) (vv_steps S n)"

text \<open>Before the loop: resort when needed, and the forces once.\<close>

definition vv_start :: "'y mdsystem \<Rightarrow> 'y md_state \<Rightarrow> 'y md_state res" where
  "vv_start S s = rbind (on_world (sys_signal S RunInit) s) (\<lambda>s. rbind (vv_resort S s) (on_world (sys_signal S Recalc1)))"

definition vv_run :: "'y mdsystem \<Rightarrow> int \<Rightarrow> 'y md_state \<Rightarrow> 'y md_state res" where
  "vv_run S nsteps s =
     rbind (vv_start S s) (\<lambda>s. rbind (on_world (updateForces S) s) (\<lambda>s.
     rbind (on_world (sys_signal S Recalc2) s) (vv_steps S (nat nsteps))))"

end
