(* ===== verification/DecompLocal.thy ===== *)
theory DecompLocal
  imports Decomposition
begin

text \<open>
  What one process does to its particles while they are redistributed.  The index of a process
  covers its real cells and the four lists (\<open>own_vids\<close>); \<open>held\<close> is everything it holds there.
  \<open>keeps T core\<close> is the contract of the local operations: the static part stays, the index stays exact,
  no list but the real cells and \<open>T\<close> changes,
  and the particles held are the same up to what folding changes (\<open>core\<close>).
\<close>

section \<open>Frame\<close>

definition data_only :: "storage \<Rightarrow> storage \<Rightarrow> bool" where
  "data_only st st' \<longleftrightarrow> st' = st\<lparr>vecs := vecs st', localParticles := localParticles st',
     inBuffer := inBuffer st', outBuffer := outBuffer st'\<rparr>"

lemma data_only_refl [simp]: "data_only st st"
  by (simp add: data_only_def)

lemma data_only_trans: "data_only a b \<Longrightarrow> data_only b c \<Longrightarrow> data_only a c"
  unfolding data_only_def by (cases a; cases b; cases c) simp

lemma data_only_sel:
  "data_only st st' \<Longrightarrow> realCells st' = realCells st \<and> ghostCells st' = ghostCells st
    \<and> localCells st' = localCells st"
  unfolding data_only_def by (cases st; cases st') simp

definition quiet :: "storage \<Rightarrow> storage \<Rightarrow> bool" where
  "quiet st st' \<longleftrightarrow> data_only st st' \<and> outBuffer st' = outBuffer st"

lemma quiet_refl [simp]: "quiet st st"
  by (simp add: quiet_def)

lemma quiet_trans: "quiet a b \<Longrightarrow> quiet b c \<Longrightarrow> quiet a c"
  unfolding quiet_def by (auto intro: data_only_trans)

lemma quiet_set_vec [simp]: "quiet st (set_vec v w st)"
  by (simp add: quiet_def data_only_def set_vec_def)

lemma quiet_updateIn [simp]: "quiet st (updateInLocalParticles st v i b)"
  by (simp add: quiet_def data_only_def updateInLocalParticles_def)

lemma quiet_fold_updateIn: "quiet st (fold (\<lambda>i st. updateInLocalParticles st v i b) is st)"
proof (induction "is" arbitrary: st)
  case (Cons i "is")
  show ?case using quiet_trans [OF quiet_updateIn Cons.IH] by simp
qed simp

lemma quiet_updateLocal [simp]: "quiet st (updateLocalParticles st v)"
  by (simp add: updateLocalParticles_def quiet_fold_updateIn)

lemma quiet_reindex [simp]: "quiet st (reindex b v st)"
  by (simp add: reindex_def)

lemma quiet_append: "appendIndexedParticle st v x = (st', p) \<Longrightarrow> quiet st st'"
  by (auto simp: appendIndexedParticle_reindex Let_def intro: quiet_trans [OF quiet_set_vec quiet_reindex])

lemma quiet_move:
  assumes "moveIndexedParticle st dl sl i = Some (st', p)" "dl \<noteq> sl" "i < length (particles_of st sl)"
  shows "quiet st st'"
proof -
  let ?m = "move_vecs st dl sl i" and ?b = "pv_base (vecs st dl)"
  have "quiet st ?m" unfolding move_vecs_def by (intro quiet_trans [OF quiet_set_vec quiet_set_vec])
  then have r: "quiet st (reindex ?b dl ?m)" by (rule quiet_trans [OF _ quiet_reindex])
  have u: "quiet st (updateInLocalParticles (reindex ?b dl ?m) sl i False)"
    by (rule quiet_trans [OF r quiet_updateIn])
  show ?thesis
    using assms(1) r u unfolding moveIndexedParticle_eq [OF assms(3,2)] Let_def
    by (auto split: if_splits)
qed

section \<open>What a process holds\<close>

definition own_vids :: "domdec \<Rightarrow> vid set" where
  "own_vids dd = CellV ` set (realCells (dd_st dd)) \<union> {sendBufL, sendBufR, recvBufL, recvBufR}"

definition held :: "vid set \<Rightarrow> storage \<Rightarrow> particle multiset" where
  "held V st = (\<Sum>v\<in>V. mset (particles_of st v))"

lemma finite_own_vids [simp]: "finite (own_vids dd)"
  by (simp add: own_vids_def)

lemma own_vids_bufs [simp]: "TmpV 0 \<in> own_vids dd" "TmpV (Suc 0) \<in> own_vids dd" "TmpV 2 \<in> own_vids dd"
  "TmpV 3 \<in> own_vids dd"
  by (simp_all add: own_vids_def)

lemma own_vids_cell [simp]: "CellV c \<in> own_vids dd \<longleftrightarrow> c \<in> set (realCells (dd_st dd))"
  by (auto simp: own_vids_def)

lemma held_split: "finite V \<Longrightarrow> v \<in> V \<Longrightarrow> held V st = mset (particles_of st v) + held (V - {v}) st"
  unfolding held_def by (rule sum.remove)

lemma held_cong: "(\<And>v. v \<in> V \<Longrightarrow> particles_of st' v = particles_of st v) \<Longrightarrow> held V st' = held V st"
  unfolding held_def by (rule sum.cong) auto

lemma held_upd:
  assumes "finite V" "v \<in> V" "particles_of st' = (particles_of st)(v := xs)"
  shows "held V st' + mset (particles_of st v) = held V st + mset xs"
proof -
  have "held (V - {v}) st' = held (V - {v}) st"
    by (rule held_cong) (simp add: assms(3))
  then show ?thesis
    using held_split [OF assms(1,2), of st] held_split [OF assms(1,2), of st'] assms(3) by simp
qed

lemma held_upd2:
  assumes V: "finite V" "v \<in> V" "u \<in> V" "u \<noteq> v"
    and po: "particles_of st' = (particles_of st)(v := xs, u := ys)"
    and m: "mset xs + mset ys = mset (particles_of st v) + mset (particles_of st u)"
  shows "held V st' = held V st"
proof -
  have "held (V - {v} - {u}) st' = held (V - {v} - {u}) st"
    by (rule held_cong) (simp add: po)
  moreover have "held V s = mset (particles_of s v) + mset (particles_of s u) + held (V - {v} - {u}) s" for s
    using V held_split [of V v s] held_split [of "V - {v}" u s] by (simp add: add.assoc)
  ultimately show ?thesis using m V(4) by (simp add: po)
qed

section \<open>The contract\<close>

definition static_eq :: "domdec \<Rightarrow> domdec \<Rightarrow> bool" where
  "static_eq dd dd' \<longleftrightarrow> dd' = dd\<lparr>dd_st := dd_st dd'\<rparr> \<and> data_only (dd_st dd) (dd_st dd')"

lemma static_eq_refl [simp]: "static_eq dd dd"
  by (simp add: static_eq_def)

lemma static_eq_trans: "static_eq a b \<Longrightarrow> static_eq b c \<Longrightarrow> static_eq a c"
  unfolding static_eq_def by (cases a; cases b; cases c) (auto intro: data_only_trans)

lemma static_eq_sel:
  assumes "static_eq dd dd'"
  shows "dd_cell dd' = dd_cell dd" "dd_node dd' = dd_node dd" "neighborCells dd' = neighborCells dd"
    "commReals dd' = commReals dd" "commGhosts dd' = commGhosts dd" "own_vids dd' = own_vids dd"
    "realCells (dd_st dd') = realCells (dd_st dd)" "ghostCells (dd_st dd') = ghostCells (dd_st dd)"
    "localCells (dd_st dd') = localCells (dd_st dd)" "exchangeBufferSize dd' = exchangeBufferSize dd"
    "multi coord dd' = multi coord dd" "even_node coord dd' = even_node coord dd"
  using assms data_only_sel [of "dd_st dd" "dd_st dd'"] unfolding static_eq_def
  by (cases dd; cases dd'; simp add: own_vids_def multi_def even_node_def)+

definition indexed :: "domdec \<Rightarrow> bool" where
  "indexed dd \<longleftrightarrow> index_ok (own_vids dd) (dd_st dd) \<and> 0 < b_capacity (outBuffer (dd_st dd))"

definition keeps :: "vid set \<Rightarrow> (particle \<Rightarrow> 'b) \<Rightarrow> domdec \<Rightarrow> domdec \<Rightarrow> bool" where
  "keeps T core dd dd' \<longleftrightarrow> static_eq dd dd' \<and> indexed dd'
     \<and> image_mset core (held (own_vids dd) (dd_st dd')) = image_mset core (held (own_vids dd) (dd_st dd))
     \<and> (\<forall>v. v \<notin> CellV ` set (realCells (dd_st dd)) \<union> T \<longrightarrow>
          particles_of (dd_st dd') v = particles_of (dd_st dd) v)"

lemma keeps_refl [simp]: "indexed dd \<Longrightarrow> keeps T core dd dd"
  by (simp add: keeps_def)

lemma keeps_trans: "keeps T core a b \<Longrightarrow> keeps T core b c \<Longrightarrow> keeps T core a c"
  unfolding keeps_def by (auto dest: static_eq_trans simp: static_eq_sel)

lemma keepsD:
  assumes "keeps T core dd dd'"
  shows "static_eq dd dd'" "indexed dd'" "own_vids dd' = own_vids dd" "dd_cell dd' = dd_cell dd"
    "realCells (dd_st dd') = realCells (dd_st dd)" "dd_node dd' = dd_node dd"
  using assms static_eq_sel unfolding keeps_def by blast+

lemma dd_move_ok:
  assumes ix: "indexed dd" and dl: "dl \<in> own_vids dd" "dl \<in> CellV ` set (realCells (dd_st dd)) \<union> T" and c: "c \<in> set (realCells (dd_st dd))"
    and ne: "dl \<noteq> CellV c" and p: "p < length (cell_at dd c)"
  shows "\<exists>dd'. dd_move dl c p dd = Some dd' \<and> keeps T core dd dd'
    \<and> particles_of (dd_st dd') = (particles_of (dd_st dd))(dl := particles_of (dd_st dd) dl @ [cell_at dd c ! p],
        CellV c := swap_remove p (cell_at dd c))"
proof -
  let ?st = "dd_st dd"
  have ok: "index_ok (own_vids dd) ?st" using ix by (simp add: indexed_def)
  obtain st' q where m: "moveIndexedParticle ?st dl (CellV c) p = Some (st', q)" "index_ok (own_vids dd) st'"
      "particles_of st' = (particles_of ?st)(dl := particles_of ?st dl @ [cell_at dd c ! p],
        CellV c := swap_remove p (cell_at dd c))"
    using moveIndexedParticle_ok [OF ok dl(1) _ ne p] c by auto
  note q = quiet_move [OF m(1) ne p]
  let ?dd' = "dd\<lparr>dd_st := st'\<rparr>"
  have s: "static_eq dd ?dd'" using q by (simp add: static_eq_def quiet_def)
  have "held (own_vids dd) st' = held (own_vids dd) ?st"
    by (rule held_upd2 [OF _ dl(1) _ _ m(3)]) (use c ne mset_swap_remove [OF p] in auto)
  then have "keeps T core dd ?dd'"
    using s m ix q dl c static_eq_sel(6) [OF s] by (auto simp: keeps_def indexed_def quiet_def)
  with m show ?thesis by (simp add: dd_move_def)
qed


lemma index_ok_replace:
  assumes ok: "index_ok V st" and i: "i < length (particles_of st v)"
    and y: "p_id y = p_id (particles_of st v ! i)"
  shows "index_ok V (set_vec v (pv_set i y (vecs st v)) st)"
proof -
  let ?s = "set_vec v (pv_set i y (vecs st v)) st"
  have l: "length (particles_of ?s w) = length (particles_of st w)" for w by (simp add: particles_of_def)
  have "idat ?s w j = idat st w j" if "j < length (particles_of st w)" for w j
    using y that by (cases "j = i") (auto simp: idat_def particles_of_def)
  moreover have "addr ?s w j = addr st w j" for w j by (simp add: addr_def)
  ultimately have "points_to V ?s = points_to V st"
    unfolding points_to_def l fun_eq_iff by (metis (no_types))
  then show ?thesis using ok by (simp add: index_ok_def)
qed

lemma dd_replace_ok:
  assumes ix: "indexed dd" and c: "c \<in> set (realCells (dd_st dd))" and p: "p < length (cell_at dd c)"
    and y: "p_id y = p_id (cell_at dd c ! p)" "core y = core (cell_at dd c ! p)"
  shows "keeps T core dd (dd\<lparr>dd_st := set_vec (CellV c) (pv_set p y (vecs (dd_st dd) (CellV c))) (dd_st dd)\<rparr>)"
proof -
  let ?s = "set_vec (CellV c) (pv_set p y (vecs (dd_st dd) (CellV c))) (dd_st dd)"
  let ?dd' = "dd\<lparr>dd_st := ?s\<rparr>"
  have s: "static_eq dd ?dd'" using quiet_set_vec by (simp add: static_eq_def quiet_def)
  have po: "particles_of ?s = (particles_of (dd_st dd))(CellV c := (cell_at dd c)[p := y])"
    by (simp add: particles_of_def fun_eq_iff)
  have "held (own_vids dd) ?s + mset (cell_at dd c) = held (own_vids dd) (dd_st dd) + mset ((cell_at dd c)[p := y])"
    by (rule held_upd [OF _ _ po]) (use c in auto)
  moreover have "map core ((cell_at dd c)[p := y]) = map core (cell_at dd c)"
    using y(2) p by (simp add: map_update) (metis list_update_id nth_map)
  then have "image_mset core (mset ((cell_at dd c)[p := y])) = image_mset core (mset (cell_at dd c))"
    by (metis mset_map)
  ultimately have "image_mset core (held (own_vids dd) ?s) = image_mset core (held (own_vids dd) (dd_st dd))"
    by (metis add_right_cancel image_mset_union)
  then show ?thesis
    using s ix index_ok_replace [OF _ p y(1)] c static_eq_sel(6) [OF s]
    by (auto simp: keeps_def indexed_def po)
qed

lemma dd_ok_static: "static_eq dd dd' \<Longrightarrow> dd_ok dd \<Longrightarrow> dd_ok dd'"
  using markCells_cong [of dd dd'] unfolding dd_ok_def by (simp add: static_eq_sel)

section \<open>Sorting\<close>

lemma checkedCoord_range:
  assumes wf: "dd_wf cg" and cd: "checkedCoord cg pos i = Some (Some d)" and i: "i < 3"
  shows "getInnerCellsBegin cg i \<le> d \<and> d < getInnerCellsEnd cg i"
proof -
  have cw: "cellgrid_wf cg" using wf by (simp add: dd_wf_def)
  obtain o' where "clippedOutsideCoord cg pos i = Some (o', d)"
    using cd by (auto simp: checkedCoord_clippedOutside split: if_splits)
  then show ?thesis using clippedCoord_range [OF cw i] clippedOutside_clipped by blast
qed

lemma checked_coords_inner:
  assumes "dd_wf cg" "checkedCoord cg pos 0 = Some (Some c0)" "checkedCoord cg pos 1 = Some (Some c1)"
    "checkedCoord cg pos 2 = Some (Some c2)"
  shows "in_box (inner_lo cg) (inner_hi cg) (V3 c0 c1 c2)"
  using checkedCoord_range [OF assms(1,2)] checkedCoord_range [OF assms(1,3)] checkedCoord_range [OF assms(1,4)]
  by (simp add: in_box_def inner_lo_def inner_hi_def)

lemma checked_inner:
  assumes wf: "dd_wf cg" and k: "mapPositionToCellChecked cg pos = Some k" "k \<noteq> noCell"
  shows "\<exists>v. in_box (inner_lo cg) (inner_hi cg) v \<and> k = mapPositionToIndexV cg v"
proof -
  obtain c0 c1 c2 where cc: "checkedCoord cg pos 0 = Some (Some c0)"
      "checkedCoord cg pos 1 = Some (Some c1)" "checkedCoord cg pos 2 = Some (Some c2)"
      "k = mapPositionToIndex cg c0 c1 c2"
    using k by (auto simp: mapPositionToCellChecked_def bind_eq_Some_conv split: option.splits)
  then show ?thesis
    using checked_coords_inner [OF wf cc(1-3)] by (intro exI [of _ "V3 c0 c1 c2"]) (simp add: mapPositionToIndexV_def)
qed

lemma checked_index:
  assumes ok: "dd_ok dd" and r: "dd_mapPositionToCellChecked dd pos = Some (Some c)"
  shows "mapPositionToCellChecked (dd_cell dd) pos = Some (int c) \<and> c \<in> set (realCells (dd_st dd))"
proof -
  have wf: "dd_wf (dd_cell dd)" using ok by (simp add: dd_ok_def)
  obtain k where k: "mapPositionToCellChecked (dd_cell dd) pos = Some k" "k \<noteq> noCell" "c = nat k"
    using r by (auto simp: dd_mapPositionToCellChecked_def split: if_splits)
  obtain v where v: "in_box (inner_lo (dd_cell dd)) (inner_hi (dd_cell dd)) v" "k = mapPositionToIndexV (dd_cell dd) v"
    using checked_inner [OF wf k(1,2)] by blast
  have "0 \<le> k" using index_bounds [OF inner_in_grid [OF wf v(1)]] by (simp add: v(2))
  moreover have "c = cidx (dd_cell dd) v" by (simp add: cidx_def k(3) v(2))
  ultimately show ?thesis using k v(1) dd_okD(3) [OF ok] by auto
qed

lemma checked_cell_real:
  "dd_ok dd \<Longrightarrow> dd_mapPositionToCellChecked dd pos = Some (Some c) \<Longrightarrow> c \<in> set (realCells (dd_st dd))"
  using checked_index by blast

lemma received_cell_real:
  assumes ok: "dd_ok dd" and r: "mapPositionToCellCheckedAndClipped (dd_cell dd) pos = Some (out, k)"
  shows "nat k \<in> set (realCells (dd_st dd))"
proof -
  let ?cg = "dd_cell dd"
  have cw: "cellgrid_wf ?cg" using ok by (simp add: dd_ok_def dd_wf_def)
  obtain o0 c0 o1 c1 o2 c2 where
    cc: "clippedOutsideCoord ?cg pos 0 = Some (o0, c0)" "clippedOutsideCoord ?cg pos 1 = Some (o1, c1)"
    "clippedOutsideCoord ?cg pos 2 = Some (o2, c2)" "k = mapPositionToIndex ?cg c0 c1 c2"
    using r by (rule checkedAndClipped_Some)
  have "in_box (inner_lo ?cg) (inner_hi ?cg) (V3 c0 c1 c2)"
    using cc(1-3) [THEN clippedOutside_clipped] clippedCoord_range [OF cw, of 0] clippedCoord_range [OF cw, of 1]
      clippedCoord_range [OF cw, of 2]
    by (simp add: in_box_def inner_lo_def inner_hi_def)
  moreover have "nat k = cidx ?cg (V3 c0 c1 c2)" by (simp add: cidx_def mapPositionToIndexV_def cc(4))
  ultimately show ?thesis using dd_okD(3) [OF ok] by blast
qed

lemma sort_particle_keeps:
  assumes ok: "dd_ok dd" "indexed dd" and c: "c \<in> set (realCells (dd_st dd))"
    and p: "p < length (cell_at dd c)" and r: "sort_particle c p dd fin = Some (moved, dd', fin')"
  shows "keeps T core dd dd'"
proof -
  obtain sc where sc: "dd_mapPositionToCellChecked dd (p_pos (cell_at dd c ! p)) = Some sc"
    using r by (auto simp: sort_particle_def bind_Some_iff)
  show ?thesis
  proof (cases "sc = Some c \<or> sc = None")
    case True
    then show ?thesis using r sc ok(2) by (auto simp: sort_particle_def)
  next
    case False
    then obtain c' where c': "sc = Some c'" "c' \<noteq> c" by (cases sc) auto
    then have "c' \<in> set (realCells (dd_st dd))" using checked_cell_real [OF ok(1)] sc by simp
    then have "\<exists>dd'. dd_move (CellV c') c p dd = Some dd' \<and> keeps T core dd dd'"
      using dd_move_ok [OF ok(2) _ _ c _ p, of "CellV c'" T core] c' by auto
    then show ?thesis using r sc c' by (auto simp: sort_particle_def)
  qed
qed

locale kept_body =
  fixes T :: "vid set" and core :: "particle \<Rightarrow> 'b"
    and body :: "nat \<Rightarrow> nat \<Rightarrow> domdec \<Rightarrow> bool \<Rightarrow> (bool \<times> domdec \<times> bool) option"
  assumes body_keeps: "dd_ok dd \<Longrightarrow> indexed dd \<Longrightarrow> c \<in> set (realCells (dd_st dd)) \<Longrightarrow>
      p < length (cell_at dd c) \<Longrightarrow> body c p dd fin = Some (moved, dd', fin') \<Longrightarrow> keeps T core dd dd'"
begin

lemma cell_loop_keeps:
  "cell_loop body c p dd fin = Some (dd', fin') \<Longrightarrow> dd_ok dd \<Longrightarrow> indexed dd \<Longrightarrow>
    c \<in> set (realCells (dd_st dd)) \<Longrightarrow> keeps T core dd dd'"
proof -
  define P where "P b c (p :: nat) dd (fin :: bool) y \<longleftrightarrow> (b = body \<longrightarrow> dd_ok dd \<longrightarrow> indexed dd
      \<longrightarrow> c \<in> set (realCells (dd_st dd)) \<longrightarrow> keeps T core dd (fst y))" for b c p dd fin and y :: "domdec \<times> bool"
  have "P b c p dd fin y" if "cell_loop b c p dd fin = Some y" for b c p dd fin y
  proof (rule cell_loop.raw_induct [where P = P, OF _ that])
    fix loop b c p dd fin y
    assume IH: "\<And>b c p dd fin y. loop b c p dd fin = Some y \<Longrightarrow> P b c p dd fin y"
      and eq: "(if p < length (cell_at dd c)
        then b c p dd fin \<bind> (\<lambda>(moved, dd, finished). loop b c (if moved then p else Suc p) dd finished)
        else Some (dd, fin)) = Some y"
    show "P b c p dd fin y"
      unfolding P_def
    proof (intro impI)
      assume b: "b = body" and ok: "dd_ok dd" "indexed dd" "c \<in> set (realCells (dd_st dd))"
      show "keeps T core dd (fst y)"
      proof (cases "p < length (cell_at dd c)")
        case True
        with eq obtain moved dd1 fin1 where s: "b c p dd fin = Some (moved, dd1, fin1)"
            "loop b c (if moved then p else Suc p) dd1 fin1 = Some y"
          by (auto simp: bind_Some_iff)
        have k: "keeps T core dd dd1" using body_keeps [OF ok True] s(1) b by blast
        have "keeps T core dd1 (fst y)"
          using IH [OF s(2)] b ok keepsD [OF k] dd_ok_static by (simp add: P_def)
        with k show ?thesis by (rule keeps_trans)
      qed (use eq ok in auto)
    qed
  qed
  then show "cell_loop body c p dd fin = Some (dd', fin') \<Longrightarrow> dd_ok dd \<Longrightarrow> indexed dd \<Longrightarrow>
    c \<in> set (realCells (dd_st dd)) \<Longrightarrow> keeps T core dd dd'"
    unfolding P_def by fastforce
qed

lemma cells_loop_keeps:
  "cells_loop body cs dd fin = Some (dd', fin') \<Longrightarrow> dd_ok dd \<Longrightarrow> indexed dd \<Longrightarrow>
    set cs \<subseteq> set (realCells (dd_st dd)) \<Longrightarrow> keeps T core dd dd'"
proof (induction cs arbitrary: dd fin)
  case (Cons c cs)
  obtain dd1 fin1 where s: "cell_loop body c 0 dd fin = Some (dd1, fin1)"
      "cells_loop body cs dd1 fin1 = Some (dd', fin')"
    using Cons.prems(1) by (auto simp: bind_Some_iff)
  have k: "keeps T core dd dd1" using cell_loop_keeps [OF s(1)] Cons.prems by simp
  have "keeps T core dd1 dd'"
    using Cons.IH [OF s(2)] Cons.prems keepsD [OF k] dd_ok_static by auto
  with k show ?case by (rule keeps_trans)
qed auto

end

interpretation scan: kept_body "{sendBufL, sendBufR}" core "scan_particle coord" for core :: "particle \<Rightarrow> 'b" and coord
proof
  fix dd c p fin moved dd' fin'
  assume ok: "dd_ok dd" "indexed dd" and c: "c \<in> set (realCells (dd_st dd))" and p: "p < length (cell_at dd c)"
    and r: "scan_particle coord c p dd fin = Some (moved, dd', fin')"
  have m: "\<exists>dd'. dd_move b c p dd = Some dd' \<and> keeps {sendBufL, sendBufR} core dd dd'" if "b \<in> {sendBufL, sendBufR}" for b
    using dd_move_ok [OF ok(2) _ _ c _ p, of b "{sendBufL, sendBufR}" core] that by auto
  show "keeps {sendBufL, sendBufR} core dd dd'"
    using r m [of sendBufL] m [of sendBufR] sort_particle_keeps [OF ok c p] ok(2)
    by (auto simp: scan_particle_def Let_def split: if_splits)
qed


section \<open>Folding\<close>

text \<open>What the folding of the boundary conditions may change of a particle: nothing \<open>core\<close> sees.\<close>

locale fold_core =
  fixes foldC :: foldfun and core :: "particle \<Rightarrow> 'b"
  assumes core_fold: "i < 3 \<Longrightarrow> foldC (p_pos x) (p_image x) i = Some (p, m) \<Longrightarrow>
      core (setImage (setPos x p) m) = core x"
begin

lemma fold_particle_keeps:
  assumes i: "coord < 3" and ok: "dd_ok dd" "indexed dd" and c: "c \<in> set (realCells (dd_st dd))"
    and p: "p < length (cell_at dd c)" and r: "fold_particle foldC coord c p dd fin = Some (moved, dd', fin')"
  shows "keeps {} core dd dd'"
proof -
  let ?x = "cell_at dd c ! p"
  obtain pos img where f: "foldC (p_pos ?x) (p_image ?x) coord = Some (pos, img)"
    using r by (auto simp: fold_particle_def Let_def bind_Some_iff)
  define y where "y = setImage (setPos ?x pos) img"
  define d where "d = dd\<lparr>dd_st := set_vec (CellV c) (pv_set p y (vecs (dd_st dd) (CellV c))) (dd_st dd)\<rparr>"
  have y: "p_id y = p_id ?x" "core y = core ?x"
    using core_fold [OF i f] by (simp_all add: y_def setImage_def setPos_def)
  have k: "keeps {} core dd d" unfolding d_def by (rule dd_replace_ok [OF ok(2) c p y])
  have r': "(if coord = 2 then sort_particle c p d fin else Some (False, d, fin)) = Some (moved, dd', fin')"
    using r f by (auto simp: fold_particle_def Let_def y_def d_def split: if_splits)
  have "p < length (cell_at d c)" using p by (simp add: d_def particles_of_def)
  then have "keeps {} core d dd'"
    using r' sort_particle_keeps [OF dd_ok_static [OF keepsD(1) [OF k] ok(1)] keepsD(2) [OF k]]
      keepsD(2,5) [OF k] c by (auto split: if_splits)
  with k show ?thesis by (rule keeps_trans)
qed

lemma fold_body: "coord < 3 \<Longrightarrow> kept_body {} core (fold_particle foldC coord)"
  by unfold_locales (rule fold_particle_keeps)

end

section \<open>Putting received particles into cells\<close>

lemma lp_update_sel [simp]:
  "particles_of (st\<lparr>localParticles := m\<rparr>) = particles_of st" "addr (st\<lparr>localParticles := m\<rparr>) = addr st"
  "idat (st\<lparr>localParticles := m\<rparr>) = idat st" "ids (st\<lparr>localParticles := m\<rparr>) = ids st"
  by (simp_all add: particles_of_def addr_def idat_def ids_def fun_eq_iff)

text \<open>The ids \<open>E\<close> still point into the list they come from; the rest of the index is exact.\<close>

definition index_ok_but :: "pid set \<Rightarrow> vid set \<Rightarrow> storage \<Rightarrow> bool" where
  "index_ok_but E V st \<longleftrightarrow> index_ok V (st\<lparr>localParticles := localParticles st |` (- E)\<rparr>)"

lemma append_pending:
  assumes ok: "index_ok_but E V st" and v: "v \<in> V" and x: "p_id x \<in> E"
    and st': "appendIndexedParticle st v x = (st', p)"
  shows "index_ok_but (E - {p_id x}) V st'"
    and "particles_of st' = (particles_of st)(v := particles_of st v @ [x])"
proof -
  let ?s = "set_vec v (pv_push x (vecs st v)) st" and ?b = "pv_base (vecs st v)"
  let ?T = "st\<lparr>localParticles := localParticles st |` (- E)\<rparr>"
  let ?T' = "st'\<lparr>localParticles := localParticles st' |` (- (E - {p_id x}))\<rparr>"
  have ok': "index_ok V ?T" using ok by (simp add: index_ok_but_def)
  have st'_eq: "st' = reindex ?b v ?s"
    using st' by (auto simp: appendIndexedParticle_reindex Let_def)
  have lp: "localParticles st (idat st u i) = Some (addr st u i)" "idat st u i \<notin> E"
    if "u \<in> V" "i < length (particles_of st u)" for u i
    using index_okD [OF ok' that(1), of i] that(2) by (simp_all add: restrict_map_def split: if_splits)
  have nE: "ids st u \<inter> E = {}" if "u \<in> V" for u using lp(2) [OF that] by (auto simp: ids_iff)
  then have nid: "p_id x \<notin> ids st u" if "u \<in> V" for u using x that by blast
  then have d: "distinct (map p_id (particles_of st v @ [x]))"
    using index_ok_distinct [OF ok' v] v by (simp add: ids_def)
  have pv: "particles_of ?s v = particles_of st v @ [x]" by (simp add: particles_of_def)
  show po: "particles_of st' = (particles_of st)(v := particles_of st v @ [x])"
    using pv by (simp add: st'_eq fun_eq_iff particles_of_def)
  have ix: "?b = pv_base (vecs ?s v) \<longrightarrow>
      (\<forall>i<length (particles_of st v). localParticles ?s (idat ?s v i) = Some (addr ?s v i))"
    using lp [OF v] by (simp add: idat_def addr_def nth_append particles_of_def)
  note r = reindex_local [OF pv d ix, folded st'_eq]
  have ids': "ids st' v = insert (p_id x) (ids st v)" by (simp add: ids_def po)
  have "index_ok V ?T'"
  proof (rule index_ok_changed [OF ok', of "{v}"])
    show "localParticles ?T' (idat ?T' w i) = Some (addr ?T' w i)"
      if "w \<in> {v}" "i < length (particles_of ?T' w)" for w i
    proof -
      have "idat st' v i \<in> ids st' v" using that by (auto simp: ids_iff)
      then have "idat st' v i \<notin> E - {p_id x}" using ids' nE [OF v] by auto
      then show ?thesis using that r(1) [where i = i] by (auto simp: st'_eq restrict_map_def)
    qed
    show "localParticles ?T' k = (if \<exists>v\<in>{v}. k \<in> ids ?T v then None else localParticles ?T k)"
      if "\<And>u. u \<in> {v} \<Longrightarrow> k \<notin> ids ?T' u" for k
    proof -
      have k: "k \<notin> ids st' v" using that [of v] by simp
      then have "k \<noteq> p_id x" "k \<notin> ids st v" using ids' by auto
      then show ?thesis using r(2) [where k = k] k by (simp add: st'_eq restrict_map_def)
    qed
    show "ids ?T u \<inter> ids ?T' w = {}" if "u \<in> V - {v}" "w \<in> {v}" for u w
      using that nid [of u] index_ok_disjoint [OF ok' _ v, of u] ids' by auto
  qed (use v in \<open>auto simp: st'_eq\<close>)
  then show "index_ok_but (E - {p_id x}) V st'" by (simp add: index_ok_but_def)
qed

lemma index_ok_but_other:
  assumes "index_ok_but E V st" "l \<notin> V"
  shows "index_ok_but E V (set_vec l w st)"
proof -
  let ?m = "localParticles st |` (- E)"
  have "points_to V (set_vec l w st\<lparr>localParticles := ?m\<rparr>) = points_to V (st\<lparr>localParticles := ?m\<rparr>)"
    using assms(2) unfolding points_to_def fun_eq_iff
    by (auto simp: particles_of_def addr_def idat_def; metis)
  then show ?thesis using assms(1) by (simp add: index_ok_but_def index_ok_def)
qed


lemma index_ok_but_empty [simp]: "index_ok_but {} V st = index_ok V st"
  by (simp add: index_ok_but_def restrict_map_def)

context fold_core
begin

lemma append_each_ok:
  assumes "append_each foldC dir l is dd out = Some (dd', out')" and "dd_ok dd" and "dir < 6"
    and "finite V" "CellV ` set (realCells (dd_st dd)) \<subseteq> V" "l \<notin> V"
    and "distinct is" "\<forall>i\<in>set is. i < length (particles_of (dd_st dd) l)"
    and "distinct (map p_id (particles_of (dd_st dd) l))"
    and "index_ok_but (idat (dd_st dd) l ` set is) V (dd_st dd)"
  shows "static_eq dd dd' \<and> quiet (dd_st dd) (dd_st dd') \<and> index_ok V (dd_st dd')
    \<and> image_mset core (held V (dd_st dd')) = image_mset core (held V (dd_st dd))
        + image_mset core (mset (map (\<lambda>i. particles_of (dd_st dd) l ! i) is))
    \<and> (\<forall>v. v \<noteq> l \<longrightarrow> v \<notin> CellV ` set (realCells (dd_st dd)) \<longrightarrow>
         particles_of (dd_st dd') v = particles_of (dd_st dd) v)"
  using assms
proof (induction "is" arbitrary: dd out)
  case (Cons i "is")
  let ?st = "dd_st dd" and ?x = "particles_of (dd_st dd) l ! i"
  obtain pos img where f: "(if getBoundary (dd_node dd) dir \<noteq> 0
      then foldC (p_pos ?x) (p_image ?x) (nat (convertDirToCoord (int dir)))
      else Some (p_pos ?x, p_image ?x)) = Some (pos, img)"
    using Cons.prems(1) by (auto simp: Let_def bind_Some_iff)
  define y where "y = setImage (setPos ?x pos) img"
  define st1 where "st1 = set_vec l (pv_set i y (vecs ?st l)) ?st"
  obtain outside c where m: "mapPositionToCellCheckedAndClipped (dd_cell dd) pos = Some (outside, c)"
    using Cons.prems(1) f by (auto simp: Let_def bind_Some_iff)
  obtain st2 q where a: "appendIndexedParticle st1 (CellV (nat c)) y = (st2, q)" by fastforce
  let ?dd2 = "dd\<lparr>dd_st := st2\<rparr>"
  have rest: "append_each foldC dir l is ?dd2 (out \<or> outside) = Some (dd', out')"
    using Cons.prems(1) f m a by (simp add: Let_def y_def st1_def)
  have il: "i < length (particles_of ?st l)" "i \<notin> set is" using Cons.prems(7,8) by auto
  have y: "p_id y = idat ?st l i" "core y = core ?x"
  proof -
    show "p_id y = idat ?st l i" by (simp add: y_def setImage_def setPos_def idat_def)
    have d: "nat (convertDirToCoord (int dir)) < 3"
      using Cons.prems(3) by (auto simp: convertDirToCoord_def c_div_def)
    show "core y = core ?x"
    proof (cases "getBoundary (dd_node dd) dir \<noteq> 0")
      case False
      then have "y = ?x" using f by (simp add: y_def setImage_def setPos_def)
      then show ?thesis by simp
    qed (use f core_fold [OF d] in \<open>simp add: y_def\<close>)
  qed
  have real: "CellV (nat c) \<in> V" using received_cell_real [OF Cons.prems(2) m] Cons.prems(5) by blast
  have po1: "particles_of st1 = (particles_of ?st)(l := (particles_of ?st l)[i := y])"
    by (simp add: st1_def particles_of_def fun_eq_iff)
  have ix1: "index_ok_but (idat ?st l ` set (i # is)) V st1"
    unfolding st1_def by (rule index_ok_but_other [OF Cons.prems(10,6)])
  have yE: "p_id y \<in> idat ?st l ` set (i # is)" using y(1) by simp
  note p = append_pending [OF ix1 real yE a]
  have lc: "l \<noteq> CellV (nat c)" using real Cons.prems(6) by blast
  have po2: "particles_of st2 = (particles_of ?st)(l := (particles_of ?st l)[i := y],
      CellV (nat c) := particles_of ?st (CellV (nat c)) @ [y])"
    using p(2) lc by (simp add: po1)
  have idl: "idat st2 l j = idat ?st l j" if "j < length (particles_of ?st l)" for j
    using lc il that y(1) by (cases "j = i") (simp_all add: idat_def po2)
  have "idat ?st l i \<notin> idat ?st l ` set is"
  proof
    assume "idat ?st l i \<in> idat ?st l ` set is"
    then obtain j where "j \<in> set is" "idat ?st l i = idat ?st l j" by blast
    then show False using Cons.prems(8,9) il by (auto simp: idat_def distinct_conv_nth)
  qed
  then have E: "idat ?st l ` set (i # is) - {p_id y} = idat st2 l ` set is"
    using idl Cons.prems(8) y(1) by (auto simp: image_iff)
  have q2: "quiet ?st st2"
    by (rule quiet_trans [OF _ quiet_append [OF a]]) (simp add: st1_def)
  have s2: "static_eq dd ?dd2" using q2 by (simp add: static_eq_def quiet_def)
  have ids: "map p_id (particles_of st2 l) = map p_id (particles_of ?st l)"
    using il y(1) lc by (simp add: po2 map_update idat_def) (metis list_update_id nth_map)
  have IH: "static_eq ?dd2 dd' \<and> quiet (dd_st ?dd2) (dd_st dd') \<and> index_ok V (dd_st dd')
    \<and> image_mset core (held V (dd_st dd')) = image_mset core (held V (dd_st ?dd2))
        + image_mset core (mset (map (\<lambda>i. particles_of (dd_st ?dd2) l ! i) is))
    \<and> (\<forall>v. v \<noteq> l \<longrightarrow> v \<notin> CellV ` set (realCells (dd_st ?dd2)) \<longrightarrow>
         particles_of (dd_st dd') v = particles_of (dd_st ?dd2) v)"
  proof (rule Cons.IH [OF rest dd_ok_static [OF s2 Cons.prems(2)] Cons.prems(3,4) _ Cons.prems(6)])
    show "\<forall>i\<in>set is. i < length (particles_of (dd_st ?dd2) l)"
      using Cons.prems(8) lc by (simp add: po2)
    show "index_ok_but (idat (dd_st ?dd2) l ` set is) V (dd_st ?dd2)"
      using p(1) unfolding E by simp
  qed (use Cons.prems static_eq_sel(7) [OF s2] ids in simp_all)
  have "held V st2 + mset (particles_of ?st (CellV (nat c)))
      = held V ?st + mset (particles_of ?st (CellV (nat c)) @ [y])"
  proof -
    have e: "held V (set_vec (CellV (nat c)) (pv_push y (vecs ?st (CellV (nat c)))) ?st) = held V st2"
      using Cons.prems(6) by (intro held_cong) (auto simp: po2 particles_of_def)
    have "particles_of (set_vec (CellV (nat c)) (pv_push y (vecs ?st (CellV (nat c)))) ?st)
        = (particles_of ?st)(CellV (nat c) := particles_of ?st (CellV (nat c)) @ [y])"
      by (simp add: particles_of_def fun_eq_iff)
    from held_upd [OF Cons.prems(4) real this] show ?thesis unfolding e .
  qed
  then have hs: "held V st2 = add_mset y (held V ?st)" by simp
  have mm: "map (\<lambda>i. particles_of st2 l ! i) is = map (\<lambda>i. particles_of ?st l ! i) is"
    using il lc by (intro map_cong) (auto simp: po2 nth_list_update)
  have "image_mset core (held V (dd_st dd')) = image_mset core (held V st2)
      + image_mset core (mset (map (\<lambda>i. particles_of st2 l ! i) is))" using IH by simp
  then have h: "image_mset core (held V (dd_st dd')) = image_mset core (held V ?st)
      + image_mset core (mset (map (\<lambda>i. particles_of ?st l ! i) (i # is)))"
    unfolding mm hs using y(2) by simp
  have s': "static_eq dd dd'" by (rule static_eq_trans [OF s2 conjunct1 [OF IH]])
  have q': "quiet ?st (dd_st dd')"
    by (rule quiet_trans [OF q2]) (use IH in simp)
  have "particles_of (dd_st dd') v = particles_of ?st v"
    if "v \<noteq> l" "v \<notin> CellV ` set (realCells ?st)" for v
  proof -
    have "v \<noteq> CellV (nat c)" using that(2) received_cell_real [OF Cons.prems(2) m] by blast
    then show ?thesis using IH that static_eq_sel(7) [OF s2] by (simp add: po2)
  qed
  with s' q' h IH show ?case by blast
qed simp

lemma appendParticles_ok:
  assumes app: "appendParticles foldC l dir dd = Some (dd', out)" and ok: "dd_ok dd" and dir: "dir < 6"
    and V: "finite V" "CellV ` set (realCells (dd_st dd)) \<subseteq> V" "l \<in> V" "l \<notin> CellV ` set (realCells (dd_st dd))"
    and ix: "index_ok V (dd_st dd)"
  shows "static_eq dd dd' \<and> quiet (dd_st dd) (dd_st dd') \<and> index_ok (V - {l}) (dd_st dd')
    \<and> image_mset core (held (V - {l}) (dd_st dd')) = image_mset core (held V (dd_st dd))
    \<and> (\<forall>v. v \<noteq> l \<longrightarrow> v \<notin> CellV ` set (realCells (dd_st dd)) \<longrightarrow>
         particles_of (dd_st dd') v = particles_of (dd_st dd) v)"
proof -
  let ?st = "dd_st dd" and ?xs = "particles_of (dd_st dd) l"
  note d = index_ok_distinct [OF ix V(3)]
  have ids: "idat ?st l ` set [0..<length ?xs] = ids ?st l" by (auto simp: ids_iff)
  have but: "index_ok_but (ids ?st l) (V - {l}) ?st"
    unfolding index_ok_but_def
  proof (rule index_ok_def [THEN iffD2], intro allI)
    fix k p
    let ?T = "?st\<lparr>localParticles := localParticles ?st |` (- ids ?st l)\<rparr>"
    have pt: "points_to (V - {l}) ?T k p = points_to (V - {l}) ?st k p"
      by (simp add: points_to_def)
    show "(localParticles ?T k = Some p) = points_to (V - {l}) ?T k p"
    proof (cases "k \<in> ids ?st l")
      case True
      have "\<not> points_to (V - {l}) ?st k p"
      proof
        assume "points_to (V - {l}) ?st k p"
        then obtain v where v: "v \<in> V" "v \<noteq> l" "k \<in> ids ?st v" by (auto simp: points_to_def ids_iff)
        then show False using index_ok_disjoint [OF ix v(1) V(3) v(2)] True by blast
      qed
      with True show ?thesis unfolding pt by simp
    next
      case False
      have "points_to V ?st k p = points_to (V - {l}) ?st k p"
        using False by (auto simp: points_to_def ids_iff)
      with False ix show ?thesis unfolding pt by (simp add: index_ok_def)
    qed
  qed
  have m: "map (\<lambda>i. ?xs ! i) [0..<length ?xs] = ?xs" by (rule map_nth)
  note r = append_each_ok [OF app [unfolded appendParticles_def] ok dir, of "V - {l}", unfolded ids m]
  show ?thesis
    using r V d but held_split [OF V(1,3), of ?st] by (auto simp: add.commute)
qed

end

lemma clear_buffers_sel:
  "particles_of (dd_st (clear_buffers dd)) v = (if v \<in> {sendBufL, sendBufR, recvBufL, recvBufR} then []
     else particles_of (dd_st dd) v)"
  "static_eq dd (clear_buffers dd)" "localParticles (dd_st (clear_buffers dd)) = localParticles (dd_st dd)"
  "outBuffer (dd_st (clear_buffers dd)) = outBuffer (dd_st dd)"
  "addr (dd_st (clear_buffers dd)) = addr (dd_st dd)"
  by (simp_all add: clear_buffers_def particles_of_def static_eq_def data_only_def set_vec_def
      addr_def fun_eq_iff)

definition bufs_empty :: "domdec \<Rightarrow> bool" where
  "bufs_empty dd \<longleftrightarrow> (\<forall>v\<in>{sendBufL, sendBufR, recvBufL, recvBufR}. particles_of (dd_st dd) v = [])"

lemma clear_buffers_empty [simp]: "bufs_empty (clear_buffers dd)"
  by (simp add: bufs_empty_def clear_buffers_sel)

context fold_core
begin

lemma append_received_keeps:
  assumes app: "append_received foldC coord dd fin = Some (dd', fin')" and ok: "dd_ok dd" "indexed dd"
    and coord: "coord < 3" and e: "particles_of (dd_st dd) sendBufL = []" "particles_of (dd_st dd) sendBufR = []"
  shows "keeps {sendBufL, sendBufR, recvBufL, recvBufR} core dd dd' \<and> bufs_empty dd'"
proof -
  obtain dd1 o1 dd2 o2 where
    a1: "appendParticles foldC recvBufL (2 * coord) dd = Some (dd1, o1)"
    and a2: "appendParticles foldC recvBufR (2 * coord + 1) dd1 = Some (dd2, o2)"
    and dd': "dd' = clear_buffers dd2"
    using app by (auto simp: append_received_def bind_Some_iff Let_def)
  let ?V = "own_vids dd" and ?R = "CellV ` set (realCells (dd_st dd))"
  have ix: "index_ok ?V (dd_st dd)" using ok(2) by (simp add: indexed_def)
  have V: "finite ?V" "?R \<subseteq> ?V" "recvBufL \<in> ?V" "recvBufL \<notin> ?R" by auto
  have dir: "2 * coord < 6" "2 * coord + 1 < 6" using coord by simp_all
  from appendParticles_ok [OF a1 ok(1) dir(1) V ix]
  have r1: "static_eq dd dd1" "quiet (dd_st dd) (dd_st dd1)" "index_ok (?V - {recvBufL}) (dd_st dd1)"
    "image_mset core (held (?V - {recvBufL}) (dd_st dd1)) = image_mset core (held ?V (dd_st dd))"
    "\<And>v. v \<noteq> recvBufL \<Longrightarrow> v \<notin> ?R \<Longrightarrow> particles_of (dd_st dd1) v = particles_of (dd_st dd) v" by blast+
  note s1 = static_eq_sel [OF r1(1)]
  have V1: "finite (?V - {recvBufL})" "CellV ` set (realCells (dd_st dd1)) \<subseteq> ?V - {recvBufL}"
    "recvBufR \<in> ?V - {recvBufL}" "recvBufR \<notin> CellV ` set (realCells (dd_st dd1))"
    using s1(7) by auto
  from appendParticles_ok [OF a2 dd_ok_static [OF r1(1) ok(1)] dir(2) V1 r1(3)]
  have r2: "static_eq dd1 dd2" "quiet (dd_st dd1) (dd_st dd2)"
    "index_ok (?V - {recvBufL} - {recvBufR}) (dd_st dd2)"
    "image_mset core (held (?V - {recvBufL} - {recvBufR}) (dd_st dd2)) = image_mset core (held (?V - {recvBufL}) (dd_st dd1))"
    "\<And>v. v \<noteq> recvBufR \<Longrightarrow> v \<notin> ?R \<Longrightarrow> particles_of (dd_st dd2) v = particles_of (dd_st dd1) v"
    using s1(7) by auto
  let ?W = "?V - {recvBufL} - {recvBufR}"
  have e2: "particles_of (dd_st dd2) sendBufL = []" "particles_of (dd_st dd2) sendBufR = []"
    using r2(5) [of sendBufL] r1(5) [of sendBufL] r2(5) [of sendBufR] r1(5) [of sendBufR] e by auto
  note c = clear_buffers_sel [of _ , where dd = dd2]
  have po: "particles_of (dd_st dd') v = particles_of (dd_st dd2) v" if "v \<in> ?W" for v
    using that e2 by (auto simp: dd' c(1) own_vids_def)
  have nil: "particles_of (dd_st dd') v = []" if "v \<in> {recvBufL, recvBufR}" for v
    using that by (auto simp: dd' c(1))
  have "points_to ?V (dd_st dd') k p = points_to ?W (dd_st dd2) k p" for k p
  proof
    assume "points_to ?V (dd_st dd') k p"
    then obtain v i where v: "v \<in> ?V" "i < length (particles_of (dd_st dd') v)" "p = addr (dd_st dd') v i"
        "idat (dd_st dd') v i = k" by (auto simp: points_to_def)
    then have w: "v \<in> ?W" using nil [of v] by auto
    then show "points_to ?W (dd_st dd2) k p"
      using v po [OF w] unfolding points_to_def by (auto simp: dd' c(5) idat_def intro!: bexI [of _ v])
  next
    assume "points_to ?W (dd_st dd2) k p"
    then obtain v i where v: "v \<in> ?W" "i < length (particles_of (dd_st dd2) v)" "p = addr (dd_st dd2) v i"
        "idat (dd_st dd2) v i = k" by (auto simp: points_to_def)
    then show "points_to ?V (dd_st dd') k p"
      using po [OF v(1)] unfolding points_to_def by (auto simp: dd' c(5) idat_def intro!: bexI [of _ v])
  qed
  then have ix': "index_ok ?V (dd_st dd')" using r2(3) by (simp add: index_ok_def dd' c(3))
  have "held ?V (dd_st dd') = held ?W (dd_st dd')"
    using held_split [of ?V recvBufL "dd_st dd'"] held_split [of "?V - {recvBufL}" recvBufR "dd_st dd'"]
      nil [of recvBufL] nil [of recvBufR] by auto
  also have "\<dots> = held ?W (dd_st dd2)" by (rule held_cong) (rule po)
  finally have h: "image_mset core (held ?V (dd_st dd')) = image_mset core (held ?V (dd_st dd))"
    using r1(4) r2(4) by simp
  have st: "static_eq dd dd'"
    using static_eq_trans [OF r1(1) static_eq_trans [OF r2(1) c(2)]] by (simp add: dd')
  have "outBuffer (dd_st dd') = outBuffer (dd_st dd)"
    using r1(2) r2(2) c(4) by (simp add: dd' quiet_def)
  moreover have "particles_of (dd_st dd') v = particles_of (dd_st dd) v" if "v \<notin> ?V" for v
    using that r1(5) [of v] r2(5) [of v] by (auto simp: dd' c(1) own_vids_def)
  ultimately have "keeps {sendBufL, sendBufR, recvBufL, recvBufR} core dd dd'"
    using st ix' h ok(2) static_eq_sel(6) [OF st]
    by (simp add: keeps_def indexed_def) (simp add: own_vids_def)
  then show ?thesis by (simp add: dd')
qed

end

end
