(* ===== verification/DecompWorld.thy ===== *)
theory DecompWorld
  imports DecompLocal
begin

text \<open>
  The processes together: what the odd-even exchange of one coordinate does to the four lists of
  every process, and that no round loses, duplicates or changes a particle.
\<close>

section \<open>All ranks\<close>

lemma those_Some_iff: "those xs = Some ys \<longleftrightarrow> xs = map Some ys"
  by (induction xs arbitrary: ys) (auto split: option.splits)

lemma par_Some:
  "par f w = Some ys \<longleftrightarrow> length ys = length w \<and> (\<forall>r<length w. f r (w ! r) = Some (ys ! r))"
proof -
  have "map2 f [0..<length w] w = map Some ys \<longleftrightarrow> length (map2 f [0..<length w] w) = length (map Some ys)
      \<and> (\<forall>r<length (map2 f [0..<length w] w). map2 f [0..<length w] w ! r = map Some ys ! r)"
    by (rule list_eq_iff_nth_eq)
  then show ?thesis unfolding par_def those_Some_iff by (auto simp del: map_map)
qed

section \<open>Frame of sending and receiving\<close>

lemma removeFromLocal_quiet: "removeFromLocalParticles st p weak = Some st' \<Longrightarrow> quiet st st'"
  by (auto simp: removeFromLocalParticles_def bind_Some_iff quiet_def data_only_def split: if_splits)

lemma send_each_quiet: "send_each v is (st, data) = Some (st', data') \<Longrightarrow> quiet st st'"
proof (induction "is" arbitrary: st data)
  case (Cons i "is")
  then obtain st1 data1 where "removeFromLocalParticles st (addr st v i) False = Some st1"
      "send_each v is (st1, data1) = Some (st', data')"
    by (auto simp: bind_Some_iff)
  then show ?case using Cons.IH removeFromLocal_quiet quiet_trans by blast
qed auto

lemma sendParticles_frame:
  assumes "sendParticles bs st v = Some (st', msg)"
  shows "data_only st st'"
proof -
  obtain d1 s2 d2 d3 where s: "send_each v [0..<length (particles_of st v)] (st, d1) = Some (s2, d2)"
      "st' = (set_vec v (pv_clear (vecs s2 v)) s2)\<lparr>outBuffer := d3\<rparr>"
    using assms by (auto simp: sendParticles_def Let_def bind_Some_iff split: prod.splits)
  have "data_only st (set_vec v (pv_clear (vecs s2 v)) s2)"
    using quiet_trans [OF send_each_quiet [OF s(1)] quiet_set_vec] by (simp add: quiet_def)
  moreover have "data_only x (x\<lparr>outBuffer := d3\<rparr>)" for x by (simp add: data_only_def)
  ultimately show ?thesis unfolding s(2) by (rule data_only_trans)
qed

lemma recv_each_quiet: "recv_each v is (st, data) = Some (st', data') \<Longrightarrow> quiet st st'"
proof (induction "is" arbitrary: st data)
  case (Cons i "is")
  then obtain x data1 where
      "recv_each v is (updateInLocalParticles (set_vec v (pv_set i x (vecs st v)) st) v i False, data1)
        = Some (st', data')"
    by (auto simp: bind_Some_iff Let_def)
  from Cons.IH [OF this] quiet_trans [OF quiet_set_vec quiet_updateIn] quiet_trans
  show ?case by blast
qed auto

lemma recvParticles_frame:
  assumes "recvParticles ar dflt st v msg = Some st'"
  shows "data_only st st' \<and> outBuffer st' = outBuffer st"
proof -
  have i: "data_only x (x\<lparr>inBuffer := d\<rparr>) \<and> outBuffer (x\<lparr>inBuffer := d\<rparr>) = outBuffer x" for x d
    by (simp add: data_only_def)
  obtain n data where n: "read_int (buf_recv msg (inBuffer st)) = Inr (n, data)"
    using assms by (cases "read_int (buf_recv msg (inBuffer st))") (auto simp: recvParticles_def Let_def)
  show ?thesis
  proof (cases "n > 0")
    case True
    then obtain s2 d2 d3 where s: "recv_each v [length (particles_of st v)..<length (particles_of st v) + nat n]
        (set_vec v (pv_resize (length (particles_of st v) + nat n) dflt (vecs st v)) st, data) = Some (s2, d2)"
        "st' = s2\<lparr>inBuffer := d3\<rparr>"
      using assms n by (auto simp: recvParticles_def Let_def bind_Some_iff split: prod.splits)
    have "quiet st s2" using quiet_trans [OF quiet_set_vec recv_each_quiet [OF s(1)]] .
    then show ?thesis using i [of s2 d3] unfolding s(2) quiet_def by (auto intro: data_only_trans)
  qed (use assms n i in \<open>auto simp: recvParticles_def Let_def\<close>)
qed


section \<open>The exchange\<close>

definition own_ids :: "domdec \<Rightarrow> pid set" where
  "own_ids dd = p_id ` set_mset (held (own_vids dd) (dd_st dd))"

lemma set_held: "finite V \<Longrightarrow> set_mset (held V st) = (\<Union>v\<in>V. set (particles_of st v))"
  unfolding held_def by (induction V rule: finite_induct) auto

lemma own_ids_eq: "own_ids dd = (\<Union>v\<in>own_vids dd. ids (dd_st dd) v)"
  by (simp add: own_ids_def set_held ids_def image_UN)

lemma own_ids_iff: "k \<in> own_ids dd \<longleftrightarrow> (\<exists>v\<in>own_vids dd. k \<in> ids (dd_st dd) v)"
  by (simp add: own_ids_eq)

lemma indexed_None: "indexed dd \<Longrightarrow> k \<notin> own_ids dd \<Longrightarrow> localParticles (dd_st dd) k = None"
  unfolding indexed_def index_ok_def points_to_def own_ids_iff ids_iff
  by (metis not_None_eq)

abbreviation parts :: "domdec \<Rightarrow> vid \<Rightarrow> particle list" where
  "parts dd \<equiv> particles_of (dd_st dd)"

definition nb :: "domdec \<Rightarrow> nat \<Rightarrow> nat" where
  "nb dd dir = nat (getNodeNeighborIndex (dd_node dd) dir)"

text \<open>The processes along a coordinate with more than one of them form rings.\<close>

definition ring_ok :: "nat \<Rightarrow> world \<Rightarrow> bool" where
  "ring_ok coord w \<longleftrightarrow> (\<forall>r<length w. multi coord (w ! r) \<longrightarrow>
     (\<forall>dir\<in>{2 * coord, 2 * coord + 1}. 0 \<le> getNodeNeighborIndex (dd_node (w ! r)) dir
        \<and> nb (w ! r) dir < length w \<and> multi coord (w ! nb (w ! r) dir) \<and> nb (w ! r) dir \<noteq> r)
     \<and> nb (w ! nb (w ! r) (2 * coord)) (2 * coord + 1) = r
     \<and> nb (w ! nb (w ! r) (2 * coord + 1)) (2 * coord) = r)"

definition apart :: "world \<Rightarrow> bool" where
  "apart w \<longleftrightarrow> (\<forall>r<length w. \<forall>s<length w. r \<noteq> s \<longrightarrow> own_ids (w ! r) \<inter> own_ids (w ! s) = {})"

context slots
begin

definition carries :: "message \<Rightarrow> particle list \<Rightarrow> bool" where
  "carries msg xs \<longleftrightarrow> m_items msg = IInt (int (length xs)) # map IPart xs @ extra xs
     \<and> m_bytes msg = bytes (m_items msg)"

lemma dd_send_ok:
  assumes ix: "indexed dd" and l: "l \<in> own_vids dd" and s: "dd_send before l dir dd = Some (dd', m)"
  shows "static_eq dd dd' \<and> indexed dd' \<and> parts dd' = (parts dd)(l := [])
    \<and> (\<exists>msg. m = Some (getNodeNeighborIndex (dd_node dd) dir, msg) \<and> carries msg (parts dd l))"
proof -
  obtain st msg where r: "sendParticles before (dd_st dd) l = Some (st, msg)"
    and dd': "dd' = dd\<lparr>dd_st := st\<rparr>" "m = Some (getNodeNeighborIndex (dd_node dd) dir, msg)"
    using s by (auto simp: dd_send_def bind_Some_iff)
  have st: "static_eq dd dd'" using sendParticles_frame [OF r] by (simp add: static_eq_def dd'(1))
  have "index_ok (own_vids dd) (dd_st dd)" "0 < b_capacity (outBuffer (dd_st dd))"
    using ix by (simp_all add: indexed_def)
  from sendParticles_spec [OF this(1) l this(2) r] show ?thesis
    using st static_eq_sel(6) [OF st] by (simp add: indexed_def carries_def dd')
qed

lemma dd_recv_ok:
  assumes ix: "indexed dd" and l: "l \<in> own_vids dd" "parts dd l = []"
    and r: "dd_recv after dflt me l dir ms dd = Some dd'"
    and m: "mail me (getNodeNeighborIndex (dd_node dd) dir) ms = Some msg" "carries msg xs"
    and d: "distinct (map p_id xs)" and new: "p_id ` set xs \<inter> own_ids dd = {}"
  shows "static_eq dd dd' \<and> indexed dd' \<and> parts dd' = (parts dd)(l := xs)"
proof -
  obtain st where s: "recvParticles after dflt (dd_st dd) l msg = Some st" and dd': "dd' = dd\<lparr>dd_st := st\<rparr>"
    using r m by (auto simp: dd_recv_def bind_Some_iff)
  note f = recvParticles_frame [OF s]
  have st: "static_eq dd dd'" using f by (simp add: static_eq_def dd')
  have ok: "index_ok (own_vids dd) (dd_st dd)" using ix by (simp add: indexed_def)
  have "\<forall>x\<in>set xs. localParticles (dd_st dd) (p_id x) = None"
    using indexed_None [OF ix] new by auto
  from recvParticles_spec [OF ok l m(2) [unfolded carries_def, THEN conjunct1]
      m(2) [unfolded carries_def, THEN conjunct2] d this, of dflt]
  show ?thesis using s st f ix static_eq_sel(6) [OF st] by (auto simp: indexed_def dd')
qed

lemma mail_Some:
  "mail me k ms = Some m \<Longrightarrow> 0 \<le> k \<and> nat k < length ms \<and> ms ! nat k = Some (int me, m)"
  by (auto simp: mail_def split: if_splits option.splits)

end

lemma own_ids_upd:
  assumes "static_eq dd dd'" "parts dd' = (parts dd)(l := xs)" "l \<in> own_vids dd"
  shows "own_ids dd' \<subseteq> own_ids dd \<union> p_id ` set xs"
proof
  fix k assume "k \<in> own_ids dd'"
  then obtain v where v: "v \<in> own_vids dd" "k \<in> ids (dd_st dd') v"
    using static_eq_sel(6) [OF assms(1)] by (auto simp: own_ids_iff)
  then show "k \<in> own_ids dd \<union> p_id ` set xs"
    using assms(2) by (cases "v = l") (auto simp: own_ids_iff ids_def)
qed

lemma own_ids_vid: "v \<in> own_vids dd \<Longrightarrow> p_id ` set (parts dd v) \<subseteq> own_ids dd"
  unfolding own_ids_eq ids_def by blast


context slots
begin

text \<open>Where rank \<open>r\<close> of the world \<open>w\<close> stands during the exchange: its lists are \<open>F\<close>.\<close>

definition stands :: "world \<Rightarrow> nat \<Rightarrow> domdec \<Rightarrow> (vid \<Rightarrow> particle list) \<Rightarrow> bool" where
  "stands w r dd F \<longleftrightarrow> static_eq (w ! r) dd \<and> indexed dd \<and> parts dd = F"

definition mails_carry :: "message mails \<Rightarrow> (nat \<Rightarrow> particle list) \<Rightarrow> bool" where
  "mails_carry ms X \<longleftrightarrow> (\<forall>q dst msg. q < length ms \<longrightarrow> ms ! q = Some (dst, msg) \<longrightarrow> carries msg (X q))"

lemma send_step:
  assumes a: "stands w r dd F" and l: "l \<in> own_vids (w ! r)" and s: "dd_send before l dir dd = Some (dd', m)"
  shows "stands w r dd' (F(l := [])) \<and> (\<exists>dst msg. m = Some (dst, msg) \<and> carries msg (F l))"
proof -
  have st: "static_eq (w ! r) dd" "indexed dd" "parts dd = F" using a by (simp_all add: stands_def)
  have "l \<in> own_vids dd" using l static_eq_sel(6) [OF st(1)] by simp
  from dd_send_ok [OF st(2) this s] show ?thesis
    using static_eq_trans [OF st(1)] st(3) unfolding stands_def by blast
qed

lemma recv_step:
  assumes a: "stands w r dd F" and l: "l \<in> own_vids (w ! r)" "F l = []"
    and s: "dd_recv after dflt r l dir ms dd = Some dd'" and ms: "mails_carry ms X" "length ms = length w"
    and d: "distinct (map p_id (X (nb (w ! r) dir)))" "p_id ` set (X (nb (w ! r) dir)) \<inter> own_ids dd = {}"
  shows "stands w r dd' (F(l := X (nb (w ! r) dir)))"
proof -
  have st: "static_eq (w ! r) dd" "indexed dd" "parts dd = F" using a by (simp_all add: stands_def)
  obtain msg where m: "mail r (getNodeNeighborIndex (dd_node dd) dir) ms = Some msg"
    using s by (auto simp: dd_recv_def bind_Some_iff)
  have n: "nat (getNodeNeighborIndex (dd_node dd) dir) = nb (w ! r) dir"
    using static_eq_sel(2) [OF st(1)] by (simp add: nb_def)
  have "carries msg (X (nb (w ! r) dir))"
    using mail_Some [OF m] ms unfolding mails_carry_def n by blast
  moreover have "l \<in> own_vids dd" using l static_eq_sel(6) [OF st(1)] by simp
  ultimately show ?thesis
    using dd_recv_ok [OF st(2) _ _ s m _ d] l(2) st(3) static_eq_trans [OF st(1)] unfolding stands_def by metis
qed

lemma mix_carry: "mails_carry ms X \<Longrightarrow> mails_carry ns X \<Longrightarrow> length ms = length ns \<Longrightarrow> mails_carry (mix ms ns) X"
  by (auto simp: mails_carry_def mix_def split: option.splits)

lemma own_ids_stands:
  assumes "stands w r dd F" and "\<And>v. v \<in> own_vids (w ! r) \<Longrightarrow> p_id ` set (F v) \<subseteq> A"
  shows "own_ids dd \<subseteq> A"
  using assms static_eq_sel(6) [of "w ! r" dd] unfolding own_ids_eq ids_def stands_def by blast

lemma exchange_ok:
  assumes ex: "exchange before after dflt coord w = Some w'"
    and ok: "\<And>r. r < length w \<Longrightarrow> indexed (w ! r) \<and> parts (w ! r) recvBufL = [] \<and> parts (w ! r) recvBufR = []"
    and ring: "ring_ok coord w" and ap: "apart w"
  shows "length w' = length w \<and> (\<forall>r<length w.
    (multi coord (w ! r) \<longrightarrow> stands w r (w' ! r) ((parts (w ! r))(sendBufL := [], sendBufR := [],
        recvBufR := parts (w ! nb (w ! r) (2 * coord + 1)) sendBufL,
        recvBufL := parts (w ! nb (w ! r) (2 * coord)) sendBufR))) \<and>
    (\<not> multi coord (w ! r) \<longrightarrow> w' ! r = w ! r))"
proof -
  let ?L = "2 * coord" and ?R = "2 * coord + 1" and ?n = "length w"
  let ?ev = "\<lambda>dd. multi coord dd \<and> even_node coord dd" and ?od = "\<lambda>dd. multi coord dd \<and> \<not> even_node coord dd"
  define SL where "SL q = parts (w ! q) sendBufL" for q
  define SR where "SR q = parts (w ! q) sendBufR" for q
  define Rt where "Rt r = nb (w ! r) ?R" for r
  define Lf where "Lf r = nb (w ! r) ?L" for r
  obtain s1 s2 s3 s4 m2 m4 where
    p1: "par (\<lambda>r dd. if ?ev dd then dd_send before sendBufL ?L dd else Some (dd, None)) w = Some s1"
    and p2: "par (\<lambda>r dd. if ?od dd then do { dd \<leftarrow> dd_recv after dflt r recvBufR ?R (map snd s1) dd;
        dd_send before sendBufL ?L dd } else Some (dd, None)) (map fst s1) = Some s2"
    and m2: "m2 = mix (map snd s1) (map snd s2)"
    and p3: "par (\<lambda>r dd. if ?ev dd then do { dd \<leftarrow> dd_recv after dflt r recvBufR ?R m2 dd;
        dd_send before sendBufR ?R dd } else Some (dd, None)) (map fst s2) = Some s3"
    and p4: "par (\<lambda>r dd. if ?od dd then do { dd \<leftarrow> dd_recv after dflt r recvBufL ?L (map snd s3) dd;
        dd_send before sendBufR ?R dd } else Some (dd, None)) (map fst s3) = Some s4"
    and m4: "m4 = mix (map snd s3) (map snd s4)"
    and p5: "par (\<lambda>r dd. if ?ev dd then dd_recv after dflt r recvBufL ?L m4 dd else Some dd) (map fst s4) = Some w'"
    using ex unfolding exchange_def Let_def by (auto simp: bind_Some_iff)
  have len: "length s1 = ?n" "length s2 = ?n" "length s3 = ?n" "length s4 = ?n" "length w' = ?n"
    using p1 p2 p3 p4 p5 by (auto simp: par_Some)
  have q1: "(if ?ev (w ! r) then dd_send before sendBufL ?L (w ! r) else Some (w ! r, None)) = Some (s1 ! r)"
    if "r < ?n" for r using p1 that by (simp add: par_Some)
  have q2: "(if ?od (fst (s1 ! r)) then do { dd \<leftarrow> dd_recv after dflt r recvBufR ?R (map snd s1) (fst (s1 ! r));
        dd_send before sendBufL ?L dd } else Some (fst (s1 ! r), None)) = Some (s2 ! r)" if "r < ?n" for r
    using p2 [unfolded par_Some, THEN conjunct2, rule_format, of r] nth_map [of r s1 fst] that len
    by (simp only: length_map)
  have q3: "(if ?ev (fst (s2 ! r)) then do { dd \<leftarrow> dd_recv after dflt r recvBufR ?R m2 (fst (s2 ! r));
        dd_send before sendBufR ?R dd } else Some (fst (s2 ! r), None)) = Some (s3 ! r)" if "r < ?n" for r
    using p3 [unfolded par_Some, THEN conjunct2, rule_format, of r] nth_map [of r s2 fst] that len
    by (simp only: length_map)
  have q4: "(if ?od (fst (s3 ! r)) then do { dd \<leftarrow> dd_recv after dflt r recvBufL ?L (map snd s3) (fst (s3 ! r));
        dd_send before sendBufR ?R dd } else Some (fst (s3 ! r), None)) = Some (s4 ! r)" if "r < ?n" for r
    using p4 [unfolded par_Some, THEN conjunct2, rule_format, of r] nth_map [of r s3 fst] that len
    by (simp only: length_map)
  have q5: "(if ?ev (fst (s4 ! r)) then dd_recv after dflt r recvBufL ?L m4 (fst (s4 ! r)) else Some (fst (s4 ! r)))
      = Some (w' ! r)" if "r < ?n" for r
    using p5 [unfolded par_Some, THEN conjunct2, rule_format, of r] nth_map [of r s4 fst] that len
    by (simp only: length_map)
  have ms: "multi coord dd = multi coord (w ! r) \<and> even_node coord dd = even_node coord (w ! r)"
    if "stands w r dd F" for r dd F
    using that static_eq_sel(11,12) [of "w ! r" dd coord] by (simp add: stands_def)
  have start: "stands w r (w ! r) (parts (w ! r))" if "r < ?n" for r using ok [OF that] by (simp add: stands_def)
  have nbs: "Rt r < ?n" "Lf r < ?n" "Rt r \<noteq> r" "Lf r \<noteq> r" if "r < ?n" "multi coord (w ! r)" for r
    using ring that by (auto simp: ring_ok_def Rt_def Lf_def)
  have vid: "SL q = parts (w ! q) sendBufL" "SR q = parts (w ! q) sendBufR" for q by (simp_all add: SL_def SR_def)
  have ixv: "index_ok (own_vids (w ! q)) (dd_st (w ! q))" if "q < ?n" for q
    using ok [OF that] by (simp add: indexed_def)
  have dist: "distinct (map p_id (SL q))" "distinct (map p_id (SR q))" if "q < ?n" for q
    using index_ok_distinct [OF ixv [OF that]] by (simp_all add: vid)
  have sub: "p_id ` set (parts (w ! q) v) \<subseteq> own_ids (w ! q)" if "v \<in> own_vids (w ! q)" for q v
    by (rule own_ids_vid [OF that])
  have snd_own: "sendBufL \<in> own_vids (w ! q)" "sendBufR \<in> own_vids (w ! q)" for q by simp_all
  have D: "p_id ` set (SL q) \<inter> own_ids (w ! r) = {}" "p_id ` set (SR q) \<inter> own_ids (w ! r) = {}"
    if "q < ?n" "r < ?n" "q \<noteq> r" for q r
  proof -
    have a: "own_ids (w ! q) \<inter> own_ids (w ! r) = {}" using ap that unfolding apart_def by blast
    show "p_id ` set (SL q) \<inter> own_ids (w ! r) = {}" using a sub [OF snd_own(1), of q] unfolding vid by blast
    show "p_id ` set (SR q) \<inter> own_ids (w ! r) = {}" using a sub [OF snd_own(2), of q] unfolding vid by blast
  qed
  have D2: "p_id ` set (SR a) \<inter> p_id ` set (SL b) = {}" if "a < ?n" "b < ?n" for a b
  proof (cases "a = b")
    case True
    then show ?thesis
      using index_ok_disjoint [OF ixv [OF that(1)], of sendBufR sendBufL] by (simp add: vid ids_def)
  next
    case False
    then show ?thesis using D(2) [OF that False] sub [OF snd_own(1), of b] unfolding vid by blast
  qed

  let ?F = "\<lambda>r. parts (w ! r)"
  have ev1: "stands w r (fst (s1 ! r)) ((?F r)(sendBufL := []))
      \<and> (\<exists>dst msg. snd (s1 ! r) = Some (dst, msg) \<and> carries msg (SL r))" if "r < ?n" "?ev (w ! r)" for r
    using send_step [OF start [OF that(1)], of sendBufL ?L "fst (s1 ! r)" "snd (s1 ! r)"] q1 [OF that(1)] that(2)
    by (simp add: vid)
  have od1: "s1 ! r = (w ! r, None)" if "r < ?n" "\<not> ?ev (w ! r)" for r
    using q1 [OF that(1)] that(2) by auto
  have c1: "mails_carry (map snd s1) SL"
    unfolding mails_carry_def using ev1 od1 len by (auto; metis option.distinct(1) option.inject prod.inject snd_conv)
  have od2: "stands w r (fst (s2 ! r)) ((?F r)(recvBufR := SL (Rt r), sendBufL := []))
      \<and> (\<exists>dst msg. snd (s2 ! r) = Some (dst, msg) \<and> carries msg (SL r))" if r: "r < ?n" "?od (w ! r)" for r
  proof -
    have e: "s1 ! r = (w ! r, None)" by (rule od1) (use r in auto)
    obtain d where d: "dd_recv after dflt r recvBufR ?R (map snd s1) (w ! r) = Some d"
        "dd_send before sendBufL ?L d = Some (s2 ! r)"
      using q2 [OF r(1)] r(2) by (auto simp: e bind_Some_iff)
    note n = nbs [OF r(1) conjunct1 [OF r(2)]]
    have "stands w r d ((?F r)(recvBufR := SL (Rt r)))"
      using recv_step [OF start [OF r(1)] _ _ d(1) c1] ok [OF r(1)] len dist(1) [OF n(1)] D(1) [OF n(1) r(1) n(3)]
      by (simp add: Rt_def)
    from send_step [OF this _ , of sendBufL ?L "fst (s2 ! r)" "snd (s2 ! r)"] d(2)
    show ?thesis by (simp add: vid)
  qed
  have ev2: "s2 ! r = (fst (s1 ! r), None)" if "r < ?n" "\<not> ?od (w ! r)" for r
  proof -
    have "stands w r (fst (s1 ! r)) ((?F r)(sendBufL := [])) \<or> fst (s1 ! r) = w ! r"
      using ev1 [OF that(1)] od1 [OF that(1)] by (cases "?ev (w ! r)") auto
    then show ?thesis using q2 [OF that(1)] that(2) ms by auto
  qed
  have c2: "mails_carry m2 SL"
  proof -
    have "mails_carry (map snd s2) SL"
      unfolding mails_carry_def using od2 ev2 len by (auto; metis option.distinct(1) option.inject prod.inject snd_conv)
    then show ?thesis using c1 len by (auto simp: m2 intro: mix_carry)
  qed
  have lm2: "length m2 = ?n" by (simp add: m2 mix_def len)
  have ev3: "stands w r (fst (s3 ! r)) ((?F r)(sendBufL := [], recvBufR := SL (Rt r), sendBufR := []))
      \<and> (\<exists>dst msg. snd (s3 ! r) = Some (dst, msg) \<and> carries msg (SR r))" if r: "r < ?n" "?ev (w ! r)" for r
  proof -
    have e: "s2 ! r = (fst (s1 ! r), None)" by (rule ev2) (use r in auto)
    note st = conjunct1 [OF ev1 [OF r]]
    obtain d where d: "dd_recv after dflt r recvBufR ?R m2 (fst (s1 ! r)) = Some d"
        "dd_send before sendBufR ?R d = Some (s3 ! r)"
      using q3 [OF r(1)] r(2) ms [OF st] by (auto simp: e bind_Some_iff)
    note n = nbs [OF r(1) conjunct1 [OF r(2)]]
    have "own_ids (fst (s1 ! r)) \<subseteq> own_ids (w ! r)"
      by (rule own_ids_stands [OF st]) (use sub in auto)
    then have "stands w r d ((?F r)(sendBufL := [], recvBufR := SL (Rt r)))"
      using recv_step [OF st _ _ d(1) c2 lm2] ok [OF r(1)] dist(1) [OF n(1)] D(1) [OF n(1) r(1) n(3)]
      by (fastforce simp: Rt_def)
    from send_step [OF this _ , of sendBufR ?R "fst (s3 ! r)" "snd (s3 ! r)"] d(2)
    show ?thesis by (simp add: vid)
  qed
  have od3: "s3 ! r = (fst (s2 ! r), None)" if "r < ?n" "\<not> ?ev (w ! r)" for r
  proof -
    have "(\<exists>F. stands w r (fst (s2 ! r)) F) \<or> fst (s2 ! r) = w ! r"
      using od2 [OF that(1)] ev2 [OF that(1)] od1 [OF that] by fastforce
    then show ?thesis using q3 [OF that(1)] that(2) ms by auto
  qed
  have c3: "mails_carry (map snd s3) SR"
    unfolding mails_carry_def using ev3 od3 len by (auto; metis option.distinct(1) option.inject prod.inject snd_conv)
  have od4: "stands w r (fst (s4 ! r)) ((?F r)(recvBufR := SL (Rt r), sendBufL := [], recvBufL := SR (Lf r), sendBufR := []))
      \<and> (\<exists>dst msg. snd (s4 ! r) = Some (dst, msg) \<and> carries msg (SR r))" if r: "r < ?n" "?od (w ! r)" for r
  proof -
    have e: "s3 ! r = (fst (s2 ! r), None)" by (rule od3) (use r in auto)
    note st = conjunct1 [OF od2 [OF r]]
    obtain d where d: "dd_recv after dflt r recvBufL ?L (map snd s3) (fst (s2 ! r)) = Some d"
        "dd_send before sendBufR ?R d = Some (s4 ! r)"
      using q4 [OF r(1)] r(2) ms [OF st] by (auto simp: e bind_Some_iff)
    note n = nbs [OF r(1) conjunct1 [OF r(2)]]
    have "own_ids (fst (s2 ! r)) \<subseteq> own_ids (w ! r) \<union> p_id ` set (SL (Rt r))"
      by (rule own_ids_stands [OF st]) (use sub in auto)
    then have "stands w r d ((?F r)(recvBufR := SL (Rt r), sendBufL := [], recvBufL := SR (Lf r)))"
      using recv_step [OF st _ _ d(1) c3] ok [OF r(1)] len dist(2) [OF n(2)] D(2) [OF n(2) r(1) n(4)] D2 [OF n(2,1)]
      by (fastforce simp: Lf_def)
    from send_step [OF this _ , of sendBufR ?R "fst (s4 ! r)" "snd (s4 ! r)"] d(2)
    show ?thesis by (simp add: vid)
  qed
  have ev4: "s4 ! r = (fst (s3 ! r), None)" if "r < ?n" "\<not> ?od (w ! r)" for r
  proof -
    have "(\<exists>F. stands w r (fst (s3 ! r)) F) \<or> fst (s3 ! r) = w ! r"
      using ev3 [OF that(1)] od3 [OF that(1)] ev2 [OF that] od1 [OF that(1)] by fastforce
    then show ?thesis using q4 [OF that(1)] that(2) ms by auto
  qed
  have c4: "mails_carry m4 SR"
  proof -
    have "mails_carry (map snd s4) SR"
      unfolding mails_carry_def using od4 ev4 len by (auto; metis option.distinct(1) option.inject prod.inject snd_conv)
    then show ?thesis using c3 len by (auto simp: m4 intro: mix_carry)
  qed
  have lm4: "length m4 = ?n" by (simp add: m4 mix_def len)
  have final: "stands w r (w' ! r) ((?F r)(sendBufL := [], sendBufR := [], recvBufR := SL (Rt r), recvBufL := SR (Lf r)))"
    if r: "r < ?n" "multi coord (w ! r)" for r
  proof (cases "even_node coord (w ! r)")
    case True
    note ev = conjI [OF r(2) True]
    have e: "s4 ! r = (fst (s3 ! r), None)" by (rule ev4) (use r True in auto)
    note st = conjunct1 [OF ev3 [OF r(1) ev]]
    have d: "dd_recv after dflt r recvBufL ?L m4 (fst (s3 ! r)) = Some (w' ! r)"
      using q5 [OF r(1)] r(2) True ms [OF st] by (simp add: e)
    note n = nbs [OF r]
    have "own_ids (fst (s3 ! r)) \<subseteq> own_ids (w ! r) \<union> p_id ` set (SL (Rt r))"
      by (rule own_ids_stands [OF st]) (use sub in auto)
    then have "stands w r (w' ! r) ((?F r)(sendBufL := [], recvBufR := SL (Rt r), sendBufR := [], recvBufL := SR (Lf r)))"
      using recv_step [OF st _ _ d c4 lm4] ok [OF r(1)] dist(2) [OF n(2)] D(2) [OF n(2) r(1) n(4)] D2 [OF n(2,1)]
      by (fastforce simp: Lf_def)
    then show ?thesis by (simp add: fun_upd_twist)
  next
    case False
    note st = conjunct1 [OF od4 [OF r(1) conjI [OF r(2) False]]]
    have "w' ! r = fst (s4 ! r)" using q5 [OF r(1)] r(2) False ms [OF st] by simp
    then show ?thesis using st by (simp add: fun_upd_twist)
  qed
  have same: "w' ! r = w ! r" if r: "r < ?n" "\<not> multi coord (w ! r)" for r
    using q5 [OF r(1)] ev4 [OF r(1)] od3 [OF r(1)] ev2 [OF r(1)] od1 [OF r(1)] r(2) by auto
  show ?thesis using final same len unfolding vid Rt_def Lf_def by blast
qed

end

end
