(* ===== verification/DecompGlobal.thy ===== *)
theory DecompGlobal
  imports DecompWorld NodeGrid BoundaryConditions
begin

text \<open>
  The rounds of \<^verbatim>\<open>decomposeRealParticles\<close> over all processes: every round keeps the multiset of all
  particles (up to folding), every index exact and every list empty, so when the rounds end no
  particle is lost, duplicated or changed.
\<close>

section \<open>The world\<close>

definition all_held :: "world \<Rightarrow> particle multiset" where
  "all_held w = (\<Sum>r<length w. held (own_vids (w ! r)) (dd_st (w ! r)))"

definition unique_ids :: "world \<Rightarrow> bool" where
  "unique_ids w \<longleftrightarrow> (\<forall>k. count (image_mset p_id (all_held w)) k \<le> 1)"

definition world_static :: "world \<Rightarrow> world \<Rightarrow> bool" where
  "world_static w w' \<longleftrightarrow> length w' = length w \<and> (\<forall>r<length w. static_eq (w ! r) (w' ! r))"

definition settled :: "domdec \<Rightarrow> bool" where
  "settled dd \<longleftrightarrow> dd_ok dd \<and> indexed dd \<and> bufs_empty dd"

definition world_ok :: "world \<Rightarrow> bool" where
  "world_ok w \<longleftrightarrow> (\<forall>r<length w. settled (w ! r))"

lemma world_static_refl [simp]: "world_static w w"
  by (simp add: world_static_def)

lemma world_static_trans: "world_static a b \<Longrightarrow> world_static b c \<Longrightarrow> world_static a c"
  unfolding world_static_def by (metis static_eq_trans)

lemma image_mset_sum: "image_mset f (\<Sum>r<n. g r) = (\<Sum>r<n. image_mset f (g r))" for n :: nat
  by (induction n) (simp_all)

lemma image_all_held: "image_mset f (all_held w) = (\<Sum>r<length w. image_mset f (held (own_vids (w ! r)) (dd_st (w ! r))))"
  by (simp add: all_held_def image_mset_sum)

lemma unique_apart: assumes "unique_ids w" shows "apart w"
  unfolding apart_def
proof (intro allI impI)
  fix r s assume rs: "r < length w" "s < length w" "r \<noteq> s"
  let ?H = "\<lambda>r. image_mset p_id (held (own_vids (w ! r)) (dd_st (w ! r)))"
  have sp: "image_mset p_id (all_held w) = ?H r + (?H s + (\<Sum>q\<in>{..<length w} - {r} - {s}. ?H q))"
    unfolding image_all_held
    by (subst sum.remove [of _ r], simp, use rs in simp, subst sum.remove [of _ s]) (use rs in auto)
  have c: "count (?H r) k + count (?H s) k \<le> 1" for k
  proof -
    have "count (?H r) k + count (?H s) k \<le> count (image_mset p_id (all_held w)) k"
      unfolding sp count_union by linarith
    then show ?thesis using assms unfolding unique_ids_def by (blast intro: order_trans)
  qed
  show "own_ids (w ! r) \<inter> own_ids (w ! s) = {}"
  proof (rule ccontr)
    assume "own_ids (w ! r) \<inter> own_ids (w ! s) \<noteq> {}"
    then obtain k where "k \<in> own_ids (w ! r)" "k \<in> own_ids (w ! s)" by blast
    then have "k \<in># ?H r" "k \<in># ?H s" by (simp_all only: own_ids_def set_image_mset)
    then have "0 < count (?H r) k" "0 < count (?H s) k" by (simp_all only: count_greater_zero_iff)
    then show False using c [of k] by linarith
  qed
qed

text \<open>The ranks of a grid of processes; the neighbour tables come from \<^verbatim>\<open>NodeGrid\<close>.\<close>

definition grid_world :: "int3d \<Rightarrow> real3d \<Rightarrow> world \<Rightarrow> bool" where
  "grid_world ngs L w \<longleftrightarrow> int (length w) = vx ngs * vy ngs * vz ngs
     \<and> (\<forall>r<length w. NodeGrid_new ngs (int r) L = Inr (dd_node (w ! r)))"

lemma grid_world_static: "world_static w w' \<Longrightarrow> grid_world ngs L w \<Longrightarrow> grid_world ngs L w'"
  unfolding world_static_def grid_world_def by (metis static_eq_sel(2))

lemma grid_world_ring:
  assumes g: "grid_world ngs L w" and c: "coord < 3"
  shows "ring_ok coord w"
  unfolding ring_ok_def
proof (intro allI impI)
  fix r assume r: "r < length w" and m: "multi coord (w ! r)"
  have new: "NodeGrid_new ngs (int q) L = Inr (dd_node (w ! q))" if "q < length w" for q
    using g that by (simp add: grid_world_def)
  have cells: "getNumberOfCells (dd_node (w ! r)) = int (length w)"
    using NodeGrid_new_sel(1) [OF new [OF r]] g by (simp add: getNumberOfCells_def grid_world_def)
  let ?i = "\<lambda>dir. getNodeNeighborIndex (dd_node (w ! r)) dir"
  have r': "0 \<le> int r" "int r < getNumberOfCells (dd_node (w ! r))" using r cells by simp_all
  from new [OF r] have "0 < vx ngs \<and> 0 < vy ngs \<and> 0 < vz ngs"
    by (auto simp: NodeGrid_new_def split: if_splits)
  then obtain gl gr where gn: "NodeGrid_new ngs (?i (2 * coord)) L = Inr gl"
      "NodeGrid_new ngs (?i (2 * coord + 1)) L = Inr gr"
    by (auto simp: NodeGrid_new_def Let_def)
  note sym = neighbors_symmetric [OF new [OF r] r' c gn]
  have big: "1 < getGridSize (dd_node (w ! r)) coord" using m by (simp add: multi_def)
  note ap = neighbors_apart [OF new [OF r] r' c big]
  have dir: "0 \<le> ?i dir \<and> nb (w ! r) dir < length w \<and> multi coord (w ! nb (w ! r) dir) \<and> nb (w ! r) dir \<noteq> r"
    if d: "dir \<in> {2 * coord, 2 * coord + 1}" for dir
  proof -
    have b: "0 \<le> ?i dir" "?i dir < int (length w)" "?i dir \<noteq> int r" using d sym ap cells by auto
    then have n: "nb (w ! r) dir < length w" by (simp add: nb_def)
    have "gsize (dd_node (w ! nb (w ! r) dir)) = gsize (dd_node (w ! r))"
      using NodeGrid_new_sel(1) [OF new [OF n]] NodeGrid_new_sel(1) [OF new [OF r]] by simp
    then show ?thesis using b n m by (auto simp: nb_def multi_def getGridSize_def)
  qed
  have "dd_node (w ! nb (w ! r) (2 * coord)) = gl" "dd_node (w ! nb (w ! r) (2 * coord + 1)) = gr"
    using new [of "nb (w ! r) (2 * coord)"] new [of "nb (w ! r) (2 * coord + 1)"] gn
      dir [of "2 * coord"] dir [of "2 * coord + 1"] by (simp_all add: nb_def)
  then show "(\<forall>dir\<in>{2 * coord, 2 * coord + 1}. 0 \<le> ?i dir
        \<and> nb (w ! r) dir < length w \<and> multi coord (w ! nb (w ! r) dir) \<and> nb (w ! r) dir \<noteq> r)
     \<and> nb (w ! nb (w ! r) (2 * coord)) (2 * coord + 1) = r
     \<and> nb (w ! nb (w ! r) (2 * coord + 1)) (2 * coord) = r"
    using dir sym by (simp add: nb_def)
qed

section \<open>The exchange keeps the particles\<close>

lemma held_union: "finite A \<Longrightarrow> finite B \<Longrightarrow> A \<inter> B = {} \<Longrightarrow> held (A \<union> B) st = held A st + held B st"
  unfolding held_def by (rule sum.union_disjoint)

lemma held_bufs:
  "held (own_vids dd) st = held (CellV ` set (realCells (dd_st dd))) st
     + (mset (particles_of st sendBufL) + mset (particles_of st sendBufR))
     + (mset (particles_of st recvBufL) + mset (particles_of st recvBufR))"
  unfolding own_vids_def by (subst held_union) (auto simp: held_def)

lemma ring_sum:
  fixes X :: "nat \<Rightarrow> 'a multiset"
  assumes "\<And>r. r \<in> A \<Longrightarrow> f r \<in> A \<and> g (f r) = r" "\<And>r. r \<in> A \<Longrightarrow> g r \<in> A \<and> f (g r) = r"
  shows "(\<Sum>r\<in>A. X (f r)) = (\<Sum>r\<in>A. X r)"
  by (rule sum.reindex_bij_witness [where i = g and j = f]) (use assms in auto)

context slots
begin

lemma exchange_keeps:
  assumes ex: "exchange before after dflt coord w = Some w'"
    and ok: "\<And>r. r < length w \<Longrightarrow> indexed (w ! r) \<and> parts (w ! r) recvBufL = [] \<and> parts (w ! r) recvBufR = []"
    and ring: "ring_ok coord w" and ap: "apart w"
  shows "all_held w' = all_held w"
proof -
  note e = exchange_ok [OF assms]
  let ?n = "length w" and ?A = "{r. r < length w \<and> multi coord (w ! r)}"
  let ?R = "\<lambda>r. nb (w ! r) (2 * coord + 1)" and ?L = "\<lambda>r. nb (w ! r) (2 * coord)"
  let ?H = "\<lambda>w r. held (own_vids (w ! r)) (dd_st (w ! r))"
  let ?SL = "\<lambda>r. mset (parts (w ! r) sendBufL)" and ?SR = "\<lambda>r. mset (parts (w ! r) sendBufR)"
  have len: "length w' = ?n" using e by simp
  have step: "?H w' r + (?SL r + ?SR r) = ?H w r + (?SL (?R r) + ?SR (?L r))" if r: "r \<in> ?A" for r
  proof -
    have st: "static_eq (w ! r) (w' ! r)" and po: "parts (w' ! r) = (parts (w ! r))(sendBufL := [], sendBufR := [],
        recvBufR := parts (w ! ?R r) sendBufL, recvBufL := parts (w ! ?L r) sendBufR)"
      using e r by (auto simp: stands_def)
    let ?C = "CellV ` set (realCells (dd_st (w ! r)))"
    have "held ?C (dd_st (w' ! r)) = held ?C (dd_st (w ! r))"
      by (rule held_cong) (auto simp: po)
    then have "?H w' r = held ?C (dd_st (w ! r)) + (?SL (?R r) + ?SR (?L r))"
      by (simp add: held_bufs static_eq_sel [OF st] po add_ac)
    moreover have "?H w r = held ?C (dd_st (w ! r)) + (?SL r + ?SR r)"
      using ok [of r] r by (simp add: held_bufs)
    ultimately show ?thesis by (simp add: add_ac)
  qed
  have A: "(\<Sum>r\<in>?A. ?SL (?R r)) = (\<Sum>r\<in>?A. ?SL r)" "(\<Sum>r\<in>?A. ?SR (?L r)) = (\<Sum>r\<in>?A. ?SR r)"
    by (rule ring_sum [where g = ?L], use ring in \<open>auto simp: ring_ok_def\<close>)
       (rule ring_sum [where g = ?R], use ring in \<open>auto simp: ring_ok_def\<close>)
  have "(\<Sum>r\<in>?A. ?H w' r) + (\<Sum>r\<in>?A. ?SL r + ?SR r) = (\<Sum>r\<in>?A. ?H w r) + (\<Sum>r\<in>?A. ?SL (?R r) + ?SR (?L r))"
    using sum.cong [OF refl step, of ?A "\<lambda>r. r"] unfolding sum.distrib by simp
  then have m: "(\<Sum>r\<in>?A. ?H w' r) = (\<Sum>r\<in>?A. ?H w r)" unfolding sum.distrib A by simp
  have u: "(\<Sum>r\<in>{..<?n} - ?A. ?H w' r) = (\<Sum>r\<in>{..<?n} - ?A. ?H w r)"
    by (rule sum.cong) (use e in auto)
  have "?A \<subseteq> {..<?n}" by auto
  then show ?thesis
    unfolding all_held_def len
    using sum.subset_diff [of ?A "{..<?n}" "?H w'"] sum.subset_diff [of ?A "{..<?n}" "?H w"] m u by simp
qed

end

section \<open>A round\<close>

text \<open>What the rounds keep.\<close>

definition fit :: "int3d \<Rightarrow> real3d \<Rightarrow> world \<Rightarrow> bool" where
  "fit ngs L w \<longleftrightarrow> world_ok w \<and> grid_world ngs L w \<and> unique_ids w"

locale moves = slots + fold_core +
  assumes core_id: "core x = core y \<Longrightarrow> p_id x = p_id y"
begin

definition conserves :: "world \<Rightarrow> world \<Rightarrow> bool" where
  "conserves w w' \<longleftrightarrow> world_static w w' \<and> image_mset core (all_held w') = image_mset core (all_held w)"

lemma conserves_refl [simp]: "conserves w w"
  by (simp add: conserves_def)

lemma conserves_trans: "conserves a b \<Longrightarrow> conserves b c \<Longrightarrow> conserves a c"
  unfolding conserves_def using world_static_trans by metis

lemma conserves_unique: 
  assumes c: "conserves w w'" and u: "unique_ids w"
  shows "unique_ids w'"
proof -
  define g where "g y = p_id (SOME x. core x = y)" for y
  have "g (core x) = p_id x" for x
    using someI [of "\<lambda>z. core z = core x" x] unfolding g_def by (intro core_id) blast
  then have "image_mset p_id M = image_mset g (image_mset core M)" for M
    by (simp add: multiset.map_comp comp_def)
  then show ?thesis using c u unfolding conserves_def unique_ids_def by metis
qed

lemma conserves_local:
  assumes len: "length w' = length w" and r: "\<And>r. r < length w \<Longrightarrow> keeps T core (w ! r) (w' ! r)"
  shows "conserves w w'"
proof -
  have st: "static_eq (w ! r) (w' ! r)" if "r < length w" for r using keepsD(1) [OF r [OF that]] .
  have "image_mset core (held (own_vids (w' ! r)) (dd_st (w' ! r)))
      = image_mset core (held (own_vids (w ! r)) (dd_st (w ! r)))" if "r < length w" for r
    using r [OF that] static_eq_sel(6) [OF st [OF that]] by (simp add: keeps_def)
  then show ?thesis
    unfolding conserves_def world_static_def image_all_held len using st by simp
qed

lemma keeps_mono: "keeps T core a b \<Longrightarrow> T \<subseteq> U \<Longrightarrow> keeps U core a b"
  unfolding keeps_def by blast

lemma keeps_settled:
  assumes k: "keeps T core dd dd'" and s: "settled dd" and e: "bufs_empty dd'"
  shows "settled dd'"
  using dd_ok_static [OF keepsD(1) [OF k]] keepsD(2) [OF k] s e by (simp add: settled_def)

lemma keeps_nil:
  assumes k: "keeps T core dd dd'" and s: "settled dd" and v: "v \<in> {sendBufL, sendBufR, recvBufL, recvBufR} - T"
  shows "parts dd' v = []"
  using k s v by (auto simp: keeps_def settled_def bufs_empty_def)

text \<open>The loop over the cells before the exchange.\<close>

lemma sweep_ok:
  assumes r: "(if multi coord dd then cells_loop (scan_particle coord) (realCells (dd_st dd)) dd f
      else cells_loop (fold_particle foldC coord) (realCells (dd_st dd)) dd f) = Some (dd', f')"
    and s: "settled dd" and coord: "coord < 3"
  shows "keeps {sendBufL, sendBufR} core dd dd' \<and> (\<not> multi coord dd \<longrightarrow> bufs_empty dd')"
proof (cases "multi coord dd")
  case True
  then show ?thesis using scan.cells_loop_keeps [of coord "realCells (dd_st dd)" dd f dd' f'] r s
    by (simp add: settled_def)
next
  case False
  have "keeps {} core dd dd'"
    using kept_body.cells_loop_keeps [OF fold_body [OF coord], of "realCells (dd_st dd)" dd f dd' f'] r s False
    by (simp add: settled_def)
  then show ?thesis
    using keeps_nil [OF \<open>keeps {} core dd dd'\<close> s] keeps_mono [of "{}" dd dd'] by (simp add: bufs_empty_def)
qed

text \<open>What a process does for one coordinate: its sweep, then its share of the exchange, then the appending.\<close>

definition coord_trace :: "nat \<Rightarrow> domdec \<Rightarrow> bool \<Rightarrow> domdec \<Rightarrow> bool \<Rightarrow> bool" where
  "coord_trace coord dd f dd' f' \<longleftrightarrow> (\<exists>d g e.
     (if multi coord dd then cells_loop (scan_particle coord) (realCells (dd_st dd)) dd f
      else cells_loop (fold_particle foldC coord) (realCells (dd_st dd)) dd f) = Some (d, g)
     \<and> static_eq dd d \<and> static_eq dd e \<and> (\<forall>c. cell_at e c = cell_at d c)
     \<and> (if multi coord dd then append_received foldC coord e g else Some (e, g)) = Some (dd', f'))"

lemma decompose_coord_ok:
  assumes run: "decompose_coord before after foldC dflt coord (w, fs) = Some (w', fs')"
    and coord: "coord < 3" and ok: "world_ok w" and len: "length fs = length w"
    and grid: "grid_world ngs L w" and u: "unique_ids w"
  shows "conserves w w' \<and> world_ok w' \<and> length fs' = length w
    \<and> (\<forall>r<length w. coord_trace coord (w ! r) (fs ! r) (w' ! r) (fs' ! r))"
proof -
  let ?n = "length w"
  obtain t w1 t2 where
    p1: "par (\<lambda>r (dd, f). if multi coord dd then cells_loop (scan_particle coord) (realCells (dd_st dd)) dd f
           else cells_loop (fold_particle foldC coord) (realCells (dd_st dd)) dd f) (zip w fs) = Some t"
    and ex: "exchange before after dflt coord (map fst t) = Some w1"
    and p2: "par (\<lambda>r (dd, f). if multi coord dd then append_received foldC coord dd f else Some (dd, f))
        (zip w1 (map snd t)) = Some t2"
    and out: "w' = map fst t2" "fs' = map snd t2"
    using run unfolding decompose_coord_def by (auto simp: bind_Some_iff)
  have lt: "length t = ?n" using p1 len by (simp add: par_Some)
  have a: "(if multi coord (w ! r) then cells_loop (scan_particle coord) (realCells (dd_st (w ! r))) (w ! r) (fs ! r)
      else cells_loop (fold_particle foldC coord) (realCells (dd_st (w ! r))) (w ! r) (fs ! r))
      = Some (fst (t ! r), snd (t ! r))" if "r < ?n" for r
    using p1 that len by (simp add: par_Some)
  have st: "settled (w ! r)" if "r < ?n" for r using ok that by (simp add: world_ok_def)
  note sw = sweep_ok [OF a st coord]
  have k1: "keeps {sendBufL, sendBufR} core (w ! r) (map fst t ! r)" if "r < ?n" for r
    using sw [OF that that] that lt by simp
  note s1 = keepsD [OF k1]
  have c1: "conserves w (map fst t)" by (rule conserves_local [OF _ k1]) (simp_all add: lt)
  have ws: "world_static w (map fst t)" using c1 by (simp add: conserves_def)
  have mu: "multi coord (map fst t ! r) = multi coord (w ! r)" if "r < ?n" for r
    using static_eq_sel(11) [OF s1(1) [OF that]] .
  have ring1: "ring_ok coord (map fst t)" by (rule grid_world_ring [OF grid_world_static [OF ws grid] coord])
  have e1: "indexed (map fst t ! r) \<and> parts (map fst t ! r) recvBufL = [] \<and> parts (map fst t ! r) recvBufR = []"
    if "r < length (map fst t)" for r
  proof -
    have r: "r < ?n" using that lt by simp
    show ?thesis using s1(2) [OF r] keeps_nil [OF k1 [OF r] st [OF r]] by simp
  qed
  note ap = unique_apart [OF conserves_unique [OF c1 u]]
  note e = exchange_ok [OF ex e1 ring1 ap] and k = exchange_keeps [OF ex e1 ring1 ap]
  have l1: "length w1 = ?n" using e lt by simp
  have ws1: "world_static (map fst t) w1"
    using e static_eq_refl unfolding world_static_def stands_def by metis
  have c2: "conserves (map fst t) w1" using ws1 k by (simp add: conserves_def)
  have wsr: "static_eq (w ! r) (w1 ! r)" if "r < ?n" for r
    using world_static_trans [OF ws ws1] that by (simp add: world_static_def)
  have b: "(if multi coord (w1 ! r) then append_received foldC coord (w1 ! r) (snd (t ! r))
      else Some (w1 ! r, snd (t ! r))) = Some (fst (t2 ! r), snd (t2 ! r))" if "r < ?n" for r
    using p2 that l1 lt by (simp add: par_Some)
  have l2: "length t2 = ?n" using p2 l1 lt by (simp add: par_Some)
  have fin: "keeps {sendBufL, sendBufR, recvBufL, recvBufR} core (w1 ! r) (w' ! r) \<and> bufs_empty (w' ! r)
      \<and> dd_ok (w1 ! r)" if r: "r < ?n" for r
  proof -
    have m: "multi coord (w1 ! r) = multi coord (w ! r)" using static_eq_sel(11) [OF wsr [OF r]] .
    have dok: "dd_ok (w1 ! r)" using dd_ok_static [OF wsr [OF r]] st [OF r] by (simp add: settled_def)
    have w': "w' ! r = fst (t2 ! r)" using out(1) l2 r by simp
    have er: "(multi coord (w ! r) \<longrightarrow> indexed (w1 ! r) \<and> parts (w1 ! r) sendBufL = [] \<and> parts (w1 ! r) sendBufR = [])
        \<and> (\<not> multi coord (w ! r) \<longrightarrow> w1 ! r = map fst t ! r)"
      using e mu [OF r] r lt by (auto simp: stands_def)
    show ?thesis
    proof (cases "multi coord (w ! r)")
      case True
      then show ?thesis
        using append_received_keeps [of coord "w1 ! r", OF _ dok _ coord] b [OF r] er m dok
        unfolding w' by (metis (no_types, lifting))
    next
      case False
      then have "w' ! r = map fst t ! r" using b [OF r] er m by (metis fst_conv option.inject w')
      then show ?thesis using False sw [OF r r] er s1(2) [OF r] dok r lt by simp
    qed
  qed
  have c3: "conserves w1 w'"
    by (rule conserves_local [where T = "{sendBufL, sendBufR, recvBufL, recvBufR}"]) (use fin l1 l2 out in auto)
  have "settled (w' ! r)" if "r < ?n" for r
    using fin [OF that] keepsD(1,2) dd_ok_static unfolding settled_def by blast
  then have "world_ok w'" using out l2 by (simp add: world_ok_def)
  moreover have "conserves w w'" by (rule conserves_trans [OF c1 conserves_trans [OF c2 c3]])
  moreover have "coord_trace coord (w ! r) (fs ! r) (w' ! r) (fs' ! r)" if r: "r < ?n" for r
    unfolding coord_trace_def
  proof (intro exI conjI)
    have c: "cell_at (w1 ! r) c = cell_at (map fst t ! r) c" for c
      using e r lt by (cases "multi coord (map fst t ! r)") (auto simp: stands_def)
    then show "\<forall>c. cell_at (w1 ! r) c = cell_at (fst (t ! r)) c" using r lt by simp
    show "static_eq (w ! r) (fst (t ! r))" using s1(1) [OF r] r lt by simp
    show "(if multi coord (w ! r) then append_received foldC coord (w1 ! r) (snd (t ! r)) else Some (w1 ! r, snd (t ! r)))
        = Some (w' ! r, fs' ! r)"
      using b [OF r] static_eq_sel(11) [OF wsr [OF r]] out l2 r by simp
  qed (use a [OF r] wsr [OF r] in simp_all)
  ultimately show ?thesis using out l2 by simp
qed

lemma coord_fit:
  assumes "decompose_coord before after foldC dflt coord s = Some s'" "coord < 3" "fit ngs L (fst s)"
    "length (snd s) = length (fst s)"
  shows "conserves (fst s) (fst s') \<and> fit ngs L (fst s') \<and> length (snd s') = length (fst s')"
proof -
  have a: "decompose_coord before after foldC dflt coord (fst s, snd s) = Some (fst s', snd s')"
    using assms(1) by simp
  have f: "world_ok (fst s)" "grid_world ngs L (fst s)" "unique_ids (fst s)" using assms(3) by (simp_all add: fit_def)
  note r = decompose_coord_ok [OF a assms(2) f(1) assms(4) f(2,3)]
  then have c: "conserves (fst s) (fst s')" by blast
  have ws: "world_static (fst s) (fst s')" using c by (simp add: conserves_def)
  have "fit ngs L (fst s')"
    using r conserves_unique [OF c f(3)] grid_world_static [OF ws f(2)] by (simp add: fit_def)
  moreover have "length (fst s') = length (fst s)" using ws by (simp add: world_static_def)
  ultimately show ?thesis using c r by simp
qed

lemma round_fit:
  assumes "decompose_round before after foldC dflt w = Some (w', fs)" "fit ngs L w"
  shows "conserves w w' \<and> fit ngs L w' \<and> length fs = length w'"
proof -
  obtain s1 s2 where s: "decompose_coord before after foldC dflt 0 (w, map (\<lambda>_. True) w) = Some s1"
      "decompose_coord before after foldC dflt 1 s1 = Some s2"
      "decompose_coord before after foldC dflt 2 s2 = Some (w', fs)"
    using assms(1) unfolding decompose_round_def by (auto simp: bind_Some_iff)
  have a: "conserves w (fst s1)" "fit ngs L (fst s1)" "length (snd s1) = length (fst s1)"
    using coord_fit [OF s(1), of ngs L] assms(2) by simp_all
  have b: "conserves (fst s1) (fst s2)" "fit ngs L (fst s2)" "length (snd s2) = length (fst s2)"
    using coord_fit [OF s(2) _ a(2,3)] by simp_all
  have c: "conserves (fst s2) w'" "fit ngs L w'" "length fs = length w'"
    using coord_fit [OF s(3) _ b(2,3)] by simp_all
  show ?thesis using conserves_trans [OF a(1) conserves_trans [OF b(1) c(1)]] c(2,3) by simp
qed

lemma rounds_fit:
  assumes "decompose_rounds before after foldC dflt w = Some w'" "fit ngs L w"
  shows "conserves w w' \<and> fit ngs L w'"
proof -
  define P where "P b a f d w w' \<longleftrightarrow>
      (b = before \<and> a = after \<and> f = foldC \<and> fit ngs L w \<longrightarrow> conserves w w' \<and> fit ngs L w')"
    for b a f and d :: particle and w w'
  have "P before after foldC dflt w w'"
  proof (rule decompose_rounds.raw_induct [where P = P, OF _ assms(1)])
    fix rounds b a f d v v'
    assume IH: "\<And>b a f d w w'. rounds b a f d w = Some w' \<Longrightarrow> P b a f d w w'"
      and eq: "decompose_round b a f d v \<bind> (\<lambda>(w, fs). if list_all (\<lambda>f. f) fs then Some w
        else rounds b a f d w) = Some v'"
    obtain u fs where u: "decompose_round b a f d v = Some (u, fs)"
        "if list_all (\<lambda>f. f) fs then u = v' else rounds b a f d u = Some v'"
      using eq by (auto simp: bind_Some_iff split: if_splits)
    show "P b a f d v v'"
      unfolding P_def
    proof (intro impI)
      assume h: "b = before \<and> a = after \<and> f = foldC \<and> fit ngs L v"
      have r: "conserves v u \<and> fit ngs L u" using round_fit [of d v u fs ngs L] u(1) h by blast
      show "conserves v v' \<and> fit ngs L v'"
      proof (cases "list_all (\<lambda>f. f) fs")
        case False
        then have "P b a f d u v'" using u(2) IH by simp
        then show ?thesis using h r conserves_trans unfolding P_def by blast
      qed (use r u(2) in simp)
    qed
  qed
  then show ?thesis using assms(2) by (simp add: P_def)
qed

end

end
