(* ===== verification/Redistribution.thy ===== *)
theory Redistribution
  imports DecompGlobal
begin

text \<open>
  \<^verbatim>\<open>decomposeRealParticles\<close> as a whole, with the folding of the orthorhombic boundary conditions:
  what the callers of the domain decomposition rely on.
\<close>

section \<open>Particles up to folding\<close>

definition whole :: "'a orthobc_scheme \<Rightarrow> particle \<Rightarrow> particle" where
  "whole b x = setImage (setPos x (bc_getUnfoldedPosition (unfoldCoordinate b) (p_pos x) (p_image x))) (V3 0 0 0)"

lemma whole_id [simp]: "p_id (whole b x) = p_id x"
  by (simp add: whole_def)

lemma whole_fold:
  assumes b: "bc_valid b" and i: "i < 3" and f: "foldCoordinate b (p_pos x) (p_image x) i = Some (p, m)"
  shows "whole b (setImage (setPos x p) m) = whole b x"
proof -
  note l = foldCoordinate_laws(2,3) [OF b i f]
  have t: "vnth p j + of_int (vnth m j) * vnth (boxL b) j
      = vnth (p_pos x) j + of_int (vnth (p_image x) j) * vnth (boxL b) j" if "j < 3" for j
    using l(1) [OF that] l(2) by (cases "j = i") simp_all
  have "bc_getUnfoldedPosition (unfoldCoordinate b) p m
      = bc_getUnfoldedPosition (unfoldCoordinate b) (p_pos x) (p_image x)"
    using t [of 0] t [of 1] t [of 2] by (simp add: bc_getUnfoldedPosition_def ortho.unfoldPosition_eq)
  then show ?thesis by (simp add: whole_def setPos_def setImage_def)
qed

lemma ortho_moves:
  assumes "slots before after extra" "bc_valid b"
  shows "moves before after extra (foldCoordinate b) (whole b)"
proof (intro moves.intro fold_core.intro moves_axioms.intro assms(1))
  show "whole b (setImage (setPos x p) m) = whole b x"
    if "i < 3" "foldCoordinate b (p_pos x) (p_image x) i = Some (p, m)" for i x p m
    by (rule whole_fold [OF assms(2) that])
qed (metis whole_id)

text \<open>The same for every boundary, with a folding that is undefined where the box is not valid.\<close>

interpretation free: moves "\<lambda>_ b. Some b" "\<lambda>_ b. Some b" "\<lambda>_. []"
    "\<lambda>p m i. if bc_valid b then foldCoordinate b p m i else None" "whole b" for b :: "'a orthobc_scheme"
proof (intro moves.intro fold_core.intro moves_axioms.intro unconnected.slots_axioms)
  show "whole b (setImage (setPos x p) m) = whole b x"
    if "i < 3" "(if bc_valid b then foldCoordinate b (p_pos x) (p_image x) i else None) = Some (p, m)" for i x p m
    using that whole_fold by (auto split: if_splits)
qed (metis whole_id)

section \<open>The real particles\<close>

definition real_particles :: "domdec \<Rightarrow> particle list" where
  "real_particles dd = concat (map (cell_at dd) (realCells (dd_st dd)))"

definition world_particles :: "world \<Rightarrow> particle list" where
  "world_particles w = concat (map real_particles w)"

definition dd_indexed :: "domdec \<Rightarrow> bool" where
  "dd_indexed dd \<longleftrightarrow> index_ok (CellV ` set (realCells (dd_st dd))) (dd_st dd)"

lemma held_cells:
  assumes "distinct (realCells (dd_st dd))"
  shows "held (CellV ` set (realCells (dd_st dd))) (dd_st dd) = mset (real_particles dd)"
proof -
  have "held (CellV ` set (realCells (dd_st dd))) (dd_st dd) = (\<Sum>c\<in>set (realCells (dd_st dd)). mset (cell_at dd c))"
    unfolding held_def by (subst sum.reindex) (auto simp: inj_on_def)
  also have "\<dots> = (\<Sum>c\<leftarrow>realCells (dd_st dd). mset (cell_at dd c))"
    by (rule sum_list_distinct_conv_sum_set [OF assms, symmetric])
  also have "\<dots> = mset (real_particles dd)" by (simp add: real_particles_def mset_concat comp_def)
  finally show ?thesis .
qed

lemma held_empty:
  assumes "bufs_empty dd" "distinct (realCells (dd_st dd))"
  shows "held (own_vids dd) (dd_st dd) = mset (real_particles dd)"
  using assms(1) by (simp add: held_bufs held_cells [OF assms(2)] bufs_empty_def)

lemma all_held_particles:
  assumes "world_ok w"
  shows "all_held w = mset (world_particles w)"
proof -
  have h: "held (own_vids (w ! r)) (dd_st (w ! r)) = mset (real_particles (w ! r))" if "r < length w" for r
    using assms that dd_okD(4) by (intro held_empty) (auto simp: world_ok_def settled_def)
  have "all_held w = (\<Sum>r<length w. mset (real_particles (w ! r)))"
    unfolding all_held_def by (rule sum.cong) (use h in auto)
  also have "\<dots> = mset (world_particles w)"
    by (simp add: world_particles_def mset_concat sum_list_sum_nth atLeast0LessThan)
  finally show ?thesis .
qed

lemma distinct_iff_count: "distinct xs \<longleftrightarrow> (\<forall>k. count (mset xs) k \<le> 1)"
proof
  assume h: "\<forall>k. count (mset xs) k \<le> 1"
  have "count (mset xs) a = (if a \<in> set xs then 1 else 0)" for a
  proof (cases "a \<in> set xs")
    case True
    then have "0 < count (mset xs) a" by (simp only: count_greater_zero_iff set_mset_mset)
    then have "count (mset xs) a = 1" using spec [OF h, of a] by linarith
    then show ?thesis using True by simp
  qed (simp add: count_mset_0_iff)
  then show "distinct xs" unfolding distinct_count_atmost_1 by blast
qed (simp add: distinct_count_atmost_1)

lemma unique_ids_distinct: "all_held w = mset xs \<Longrightarrow> unique_ids w \<longleftrightarrow> distinct (map p_id xs)"
  by (simp add: unique_ids_def distinct_iff_count)

section \<open>The local lists\<close>

lemma reserve_buffers_sel:
  "particles_of (dd_st (reserve_buffers dd)) v = (if v \<in> {sendBufL, sendBufR, recvBufL, recvBufR} then []
     else particles_of (dd_st dd) v)"
  "static_eq dd (reserve_buffers dd)" "localParticles (dd_st (reserve_buffers dd)) = localParticles (dd_st dd)"
  "outBuffer (dd_st (reserve_buffers dd)) = outBuffer (dd_st dd)"
  "addr (dd_st (reserve_buffers dd)) (CellV c) = addr (dd_st dd) (CellV c)"
  by (simp_all add: reserve_buffers_def particles_of_def static_eq_def data_only_def set_vec_def
      addr_def fun_eq_iff)

lemma index_ok_empty:
  assumes "\<And>v. v \<in> W \<Longrightarrow> particles_of st v = []"
  shows "index_ok (V \<union> W) st = index_ok V st"
proof -
  have "points_to (V \<union> W) st = points_to V st"
    using assms unfolding points_to_def fun_eq_iff by (metis Un_iff less_nat_zero_code list.size(3))
  then show ?thesis by (simp add: index_ok_def)
qed

lemma indexed_empty:
  assumes "bufs_empty dd"
  shows "indexed dd \<longleftrightarrow> dd_indexed dd \<and> 0 < b_capacity (outBuffer (dd_st dd))"
  unfolding indexed_def own_vids_def dd_indexed_def
  by (subst index_ok_empty) (use assms in \<open>auto simp: bufs_empty_def\<close>)

lemma real_particles_cong:
  "static_eq dd dd' \<Longrightarrow> (\<And>c. c \<in> set (realCells (dd_st dd)) \<Longrightarrow> cell_at dd' c = cell_at dd c) \<Longrightarrow>
     real_particles dd' = real_particles dd"
  unfolding real_particles_def by (simp add: static_eq_sel cong: map_cong)

lemma reserve_settled:
  assumes "dd_ok dd" "dd_indexed dd" "0 < b_capacity (outBuffer (dd_st dd))"
  shows "settled (reserve_buffers dd) \<and> real_particles (reserve_buffers dd) = real_particles dd"
proof -
  note r = reserve_buffers_sel [where dd = dd]
  have e: "bufs_empty (reserve_buffers dd)" by (simp add: bufs_empty_def r(1))
  have c: "particles_of (dd_st (reserve_buffers dd)) (CellV c) = particles_of (dd_st dd) (CellV c)" for c
    by (simp add: r(1))
  have "points_to (CellV ` C) (dd_st (reserve_buffers dd)) = points_to (CellV ` C) (dd_st dd)" for C
    by (simp add: points_to_def c r(5) idat_def fun_eq_iff)
  then have "dd_indexed (reserve_buffers dd)"
    using assms(2) static_eq_sel(7) [OF r(2)] by (simp add: dd_indexed_def index_ok_def r(3))
  with e have "indexed (reserve_buffers dd)" using assms(3) by (simp add: indexed_empty r(4))
  moreover have "real_particles (reserve_buffers dd) = real_particles dd"
    by (rule real_particles_cong [OF r(2)]) (simp add: c)
  ultimately show ?thesis using e dd_ok_static [OF r(2) assms(1)] by (simp add: settled_def)
qed

lemma note_capacity_sel [simp]:
  "dd_st (note_capacity dd) = dd_st dd" "dd_node (note_capacity dd) = dd_node dd"
  "dd_cell (note_capacity dd) = dd_cell dd" "real_particles (note_capacity dd) = real_particles dd"
  "dd_indexed (note_capacity dd) = dd_indexed dd"
  by (simp_all add: note_capacity_def Let_def real_particles_def dd_indexed_def)

lemma note_capacity_ok [simp]: "dd_ok (note_capacity dd) = dd_ok dd"
  using markCells_cong [of dd "note_capacity dd"] by (simp add: dd_ok_def) (simp add: note_capacity_def Let_def)


section \<open>Redistribution\<close>

text \<open>A world of processes with their particles, before a redistribution.\<close>

definition populated :: "int3d \<Rightarrow> real3d \<Rightarrow> world \<Rightarrow> bool" where
  "populated ngs L w \<longleftrightarrow> grid_world ngs L w
     \<and> (\<forall>dd\<in>set w. dd_ok dd \<and> dd_indexed dd \<and> 0 < b_capacity (outBuffer (dd_st dd)))
     \<and> distinct (map p_id (world_particles w))"

lemma populated_fit:
  assumes "populated ngs L w"
  shows "fit ngs L (map reserve_buffers w) \<and> all_held (map reserve_buffers w) = mset (world_particles w)"
proof -
  note p = assms [unfolded populated_def]
  have r: "settled (reserve_buffers dd) \<and> real_particles (reserve_buffers dd) = real_particles dd" if "dd \<in> set w" for dd
    using p that by (intro reserve_settled) auto
  then have ok: "world_ok (map reserve_buffers w)" by (simp add: world_ok_def)
  have "map real_particles (map reserve_buffers w) = map real_particles w" using r by simp
  then have h: "all_held (map reserve_buffers w) = mset (world_particles w)"
    unfolding all_held_particles [OF ok] world_particles_def by (simp only:)
  have "world_static w (map reserve_buffers w)"
    by (simp add: world_static_def reserve_buffers_sel(2))
  then have "grid_world ngs L (map reserve_buffers w)" using grid_world_static p by blast
  moreover have "unique_ids (map reserve_buffers w)"
    using p unique_ids_distinct [OF h] by simp
  ultimately show ?thesis using ok h by (simp add: fit_def)
qed

lemma decompose_fit:
  assumes sl: "slots before after extra" and b: "bc_valid b" and w: "populated ngs L w"
    and run: "decomposeRealParticles before after (foldCoordinate b) dflt w = Some w'"
  shows "populated ngs L w' \<and> length w' = length w
    \<and> image_mset (whole b) (mset (world_particles w')) = image_mset (whole b) (mset (world_particles w))"
proof -
  obtain u where u: "decompose_rounds before after (foldCoordinate b) dflt (map reserve_buffers w) = Some u"
      and w': "w' = map note_capacity u"
    using run by (auto simp: decomposeRealParticles_def)
  note m = ortho_moves [OF sl b] and f = populated_fit [OF w]
  note r = moves.rounds_fit [OF m u, of ngs L, OF conjunct1 [OF f]]
  have c: "moves.conserves (whole b) (map reserve_buffers w) u" and fit: "fit ngs L u"
    using r by simp_all
  have ok: "world_ok u" and g: "grid_world ngs L u" and un: "unique_ids u" using fit by (simp_all add: fit_def)
  have h: "all_held u = mset (world_particles u)" by (rule all_held_particles [OF ok])
  have wp: "world_particles w' = world_particles u" by (simp add: world_particles_def w' comp_def)
  have ms: "image_mset (whole b) (mset (world_particles w')) = image_mset (whole b) (mset (world_particles w))"
    using c f unfolding moves.conserves_def [OF m] wp h by simp
  have len: "length w' = length w"
    using c unfolding moves.conserves_def [OF m] world_static_def w' by simp
  have gw: "grid_world ngs L w'" using g by (simp add: grid_world_def w')
  have "dd_ok dd \<and> dd_indexed dd \<and> 0 < b_capacity (outBuffer (dd_st dd))" if d: "dd \<in> set w'" for dd
  proof -
    obtain i where i: "i < length u" "dd = note_capacity (u ! i)"
      using d by (auto simp: w' in_set_conv_nth)
    then have s: "dd_ok (u ! i)" "indexed (u ! i)" "bufs_empty (u ! i)"
      using ok by (auto simp: world_ok_def settled_def)
    show ?thesis using s(1) s(2) [unfolded indexed_empty [OF s(3)]] by (simp add: i(2))
  qed
  moreover have "distinct (map p_id (world_particles w'))"
    using un unique_ids_distinct [OF h] wp by simp
  ultimately show ?thesis using gw ms len by (simp add: populated_def)
qed

end
