(* ===== verification/GhostSafe.thy ===== *)
theory GhostSafe
  imports GhostComm DecompWorld
begin

text \<open>
  What a ghost communication may change: sending positions to the ghosts touches no cell but the
  ghost cells, collecting forces changes nothing of a particle but its force.  \<open>comm_frame\<close> is the
  contract a relation has to satisfy to hold between the states before and after it.
\<close>

section \<open>Lifting a relation over the processes\<close>

lemma par_rel:
  assumes "par f w = Some ys" and "\<And>r y. r < length w \<Longrightarrow> f r (w ! r) = Some y \<Longrightarrow> R (w ! r) y"
  shows "list_all2 R w ys"
  using assms by (auto simp: par_Some list_all2_conv_all_nth)

lemma first_error_Inr: "first_error rs = Some (Inr xs) \<longleftrightarrow> rs = map (\<lambda>x. Some (Inr x)) xs"
  by (induction rs arbitrary: xs) (auto simp: rbind_Inr)

lemma map2_length: "map2 f [0..<length s] (map fst s) = map g w \<Longrightarrow> length w = length s"
  by (drule arg_cong [where f = length]) simp

locale comm_frame =
  fixes R :: "domdec \<Rightarrow> domdec \<Rightarrow> bool" and sizesFirst realToGhosts :: bool
  assumes R_refl: "R dd dd" and R_trans: "R a b \<Longrightarrow> R b c \<Longrightarrow> R a c" and R_static: "R dd dd' \<Longrightarrow> static_eq dd dd'"
    and R_sizes: "sizesFirst \<Longrightarrow> dd_ok dd \<Longrightarrow> coord < 3 \<Longrightarrow> lr < 2 \<Longrightarrow>
      recv_sizes dflt coord lr ns r dd = Some dd' \<Longrightarrow> R dd dd'"
    and R_send: "coord < 3 \<Longrightarrow> multi coord dd \<Longrightarrow> send_data L realToGhosts ex coord lr dd = Some (dd', m) \<Longrightarrow> R dd dd'"
    and R_recv: "multi coord dd \<Longrightarrow> dd_ok dd \<Longrightarrow> coord < 3 \<Longrightarrow> lr < 2 \<Longrightarrow>
      recv_data realToGhosts ex coord lr ms r dd = Some dd' \<Longrightarrow> R dd dd'"
    and R_local: "dd_ok dd \<Longrightarrow> coord < 3 \<Longrightarrow> lr < 2 \<Longrightarrow>
      local_dir dflt L realToGhosts ex coord lr dd = Some (Inr dd') \<Longrightarrow> R dd dd'"
begin

lemma all_ok: "list_all2 R w w' \<Longrightarrow> \<forall>dd\<in>set w. dd_ok dd \<Longrightarrow> \<forall>dd\<in>set w'. dd_ok dd"
  unfolding list_all2_conv_all_nth all_set_conv_all_nth using dd_ok_static [OF R_static] by metis

lemma rel_trans: "list_all2 R a b \<Longrightarrow> list_all2 R b c \<Longrightarrow> list_all2 R a c"
  by (rule list_all2_trans [OF R_trans])

lemma ghost_dir_rel:
  assumes "ghost_dir dflt L sizesFirst realToGhosts ex coord lr w = Some (Inr w')"
    and ok: "\<forall>dd\<in>set w. dd_ok dd" and c: "coord < 3" "lr < 2"
  shows "list_all2 R w w'"
proof -
  obtain w1 s where
    a: "(if sizesFirst then par (recv_sizes dflt coord lr (map (send_sizes coord lr) w)) w else Some w) = Some w1"
    and b: "par (\<lambda>r dd. if multi coord dd then send_data L realToGhosts ex coord lr dd else Some (dd, None)) w1 = Some s"
    and d: "first_error (map2 (\<lambda>r dd. if multi coord dd
              then rlift (recv_data realToGhosts ex coord lr (map snd s) r dd)
              else local_dir dflt L realToGhosts ex coord lr dd) [0..<length s] (map fst s)) = Some (Inr w')"
    using assms(1) unfolding ghost_dir_def by (auto simp: rbind_Inr rlift_Inr)
  have r1: "list_all2 R w w1"
  proof (cases sizesFirst)
    case True
    then show ?thesis using a ok c R_sizes by (intro par_rel [where R = R]) auto
  next
    case False
    then show ?thesis using a R_refl by (simp add: list_all2_refl)
  qed
  note ok1 = all_ok [OF r1 ok]
  have "list_all2 (\<lambda>dd y. R dd (fst y)) w1 s"
    using b by (rule par_rel) (auto split: if_splits intro: R_refl R_send [OF c(1)])
  then have r2: "list_all2 R w1 (map fst s)" by (simp add: list_all2_conv_all_nth)
  note ok2 = all_ok [OF r2 ok1]
  have e: "map2 (\<lambda>r dd. if multi coord dd then rlift (recv_data realToGhosts ex coord lr (map snd s) r dd)
      else local_dir dflt L realToGhosts ex coord lr dd) [0..<length s] (map fst s) = map (\<lambda>x. Some (Inr x)) w'"
    using d unfolding first_error_Inr .
  then have len: "length w' = length s" using e by - (drule map2_length, simp)
  have "R (map fst s ! r) (w' ! r)" if "r < length s" for r
  proof -
    let ?dd = "map fst s ! r"
    have o: "dd_ok ?dd" using ok2 that by simp
    have "(if multi coord ?dd then rlift (recv_data realToGhosts ex coord lr (map snd s) r ?dd)
        else local_dir dflt L realToGhosts ex coord lr ?dd) = Some (Inr (w' ! r))"
      using arg_cong [OF e, of "\<lambda>xs. xs ! r"] that len by (simp cong: if_cong split del: if_split)
    then show ?thesis using R_recv [OF _ o c] R_local [OF o c] by (auto simp: rlift_Inr split: if_splits)
  qed
  then have "list_all2 R (map fst s) w'" using len by (simp add: list_all2_conv_all_nth)
  then show ?thesis by (rule rel_trans [OF r1 rel_trans [OF r2]])
qed

lemma rfold_rel:
  assumes "rfold f xs w = Some (Inr w')" "\<forall>dd\<in>set w. dd_ok dd"
    and "\<And>x w w'. x \<in> set xs \<Longrightarrow> f x w = Some (Inr w') \<Longrightarrow> \<forall>dd\<in>set w. dd_ok dd \<Longrightarrow> list_all2 R w w'"
  shows "list_all2 R w w'"
  using assms
proof (induction xs arbitrary: w)
  case Nil
  then show ?case using R_refl by (simp add: list_all2_refl)
next
  case (Cons x xs)
  obtain u where u: "f x w = Some (Inr u)" "rfold f xs u = Some (Inr w')"
    using Cons.prems(1) by (auto simp: rbind_Inr)
  have wu: "list_all2 R w u" by (rule Cons.prems(3) [OF _ u(1) Cons.prems(2)]) simp
  have "list_all2 R u w'"
    by (rule Cons.IH [OF u(2) all_ok [OF wu Cons.prems(2)]]) (use Cons.prems(3) in auto)
  then show ?case by (rule rel_trans [OF wu])
qed

lemma communication_rel:
  assumes "doGhostCommunication dflt L sizesFirst realToGhosts ex w = Some (Inr w')" "\<forall>dd\<in>set w. dd_ok dd"
  shows "list_all2 R w w'"
  using assms(1) [unfolded doGhostCommunication_def Let_def] assms(2)
proof (rule rfold_rel)
  fix k u u' assume k: "k \<in> set [0, 1, 2 :: nat]" and ok: "\<forall>dd\<in>set u. dd_ok dd"
    and run: "rfold (\<lambda>lr w. ghost_dir dflt L sizesFirst realToGhosts ex (if realToGhosts then k else 2 - k) lr w) [0, 1] u
      = Some (Inr u')"
  from run ok show "list_all2 R u u'"
    by (rule rfold_rel) (use k in \<open>auto intro: ghost_dir_rel\<close>)
qed

end

section \<open>To the ghosts\<close>

definition off_ghosts :: "domdec \<Rightarrow> domdec \<Rightarrow> bool" where
  "off_ghosts dd dd' \<longleftrightarrow> static_eq dd dd'
     \<and> (\<forall>v. v \<notin> CellV ` set (ghostCells (dd_st dd)) \<longrightarrow> particles_of (dd_st dd') v = particles_of (dd_st dd) v)"

definition cells_only :: "nat set \<Rightarrow> storage \<Rightarrow> storage \<Rightarrow> bool" where
  "cells_only C st st' \<longleftrightarrow> data_only st st' \<and> (\<forall>v. v \<notin> CellV ` C \<longrightarrow> particles_of st' v = particles_of st v)"

lemma cells_only_refl [simp]: "cells_only C st st"
  by (simp add: cells_only_def)

lemma cells_only_trans: "cells_only C a b \<Longrightarrow> cells_only C b c \<Longrightarrow> cells_only C a c"
  unfolding cells_only_def by (auto intro: data_only_trans)

lemma cells_only_set_vec: "c \<in> C \<Longrightarrow> cells_only C st (set_vec (CellV c) v st)"
  using quiet_set_vec [of st "CellV c" v] by (auto simp: cells_only_def quiet_def particles_of_def)

lemma cells_only_updateIn: "cells_only C st (updateInLocalParticles st v i b)"
  using quiet_updateIn [of st v i b] by (simp add: cells_only_def quiet_def)

lemma resize_ghosts_only: "fst ` set ps \<subseteq> C \<Longrightarrow> cells_only C st (resize_ghosts dflt ps st)"
  by (induction dflt ps st rule: resize_ghosts.induct) (auto intro: cells_only_trans [OF cells_only_set_vec])

lemma copy_cells_only: "snd ` set ps \<subseteq> C \<Longrightarrow> cells_only C st (copy_cells dflt ex sh ps st)"
  by (induction dflt ex sh ps st rule: copy_cells.induct)
    (auto simp: copyRealsToGhosts_def Let_def intro: cells_only_trans [OF cells_only_set_vec])

lemma unpack_each_only:
  "unpack_each (CellV c) ex is (st, buf) = Some (st', buf') \<Longrightarrow> c \<in> C \<Longrightarrow> cells_only C st st'"
proof (induction "is" arbitrary: st buf)
  case (Cons i "is")
  obtain x b where x: "opt_of_read (read_particle_data (particles_of st (CellV c) ! i) ex buf) = Some (x, b)"
    using Cons.prems(1) by (auto simp: bind_Some_iff)
  define s1 where "s1 = set_vec (CellV c) (pv_set i x (vecs st (CellV c))) st"
  define s2 where "s2 = (if has_flag ex DATA_PROPERTIES then updateInLocalParticles s1 (CellV c) i True else s1)"
  define s3 where "s3 = set_vec (CellV c) (pv_set i (set_ghost True (particles_of s2 (CellV c) ! i)) (vecs s2 (CellV c))) s2"
  have "unpack_each (CellV c) ex is (s3, b) = Some (st', buf')"
    unfolding s1_def s2_def s3_def using Cons.prems(1) x by (simp add: Let_def split del: if_split)
  from Cons.IH [OF this Cons.prems(2)] have "cells_only C s3 st'" .
  moreover have "cells_only C st s1" "cells_only C s1 s2" "cells_only C s2 s3"
    unfolding s1_def s2_def s3_def using Cons.prems(2) by (auto intro: cells_only_set_vec cells_only_updateIn)
  ultimately show ?case using cells_only_trans by blast
qed simp

lemma unpack_cells_only:
  assumes "unpack_cells up cs (st, buf) = Some (st', buf')" "set cs \<subseteq> C"
    and "\<And>st c buf st' buf'. c \<in> C \<Longrightarrow> up st c buf = Some (st', buf') \<Longrightarrow> cells_only C st st'"
  shows "cells_only C st st'"
  using assms(1,2)
proof (induction cs arbitrary: st buf)
  case (Cons c cs)
  obtain s b where s: "up st c buf = Some (s, b)" "unpack_cells up cs (s, b) = Some (st', buf')"
    using Cons.prems(1) by (auto simp: bind_Some_iff)
  have "cells_only C st s" by (rule assms(3) [OF _ s(1)]) (use Cons.prems(2) in simp)
  then show ?case using Cons.IH [OF s(2)] Cons.prems(2) cells_only_trans by auto
qed simp

lemma ghosts_of_dir:
  assumes ok: "dd_ok dd" and d: "dir < 6"
  shows "set (commGhosts dd dir) \<subseteq> set (ghostCells (dd_st dd))"
proof -
  have wf: "dd_wf (dd_cell dd)" using ok by (simp add: dd_ok_def)
  have "mset (concat (map (\<lambda>d. box_cells (dd_cell dd) (ghosts_box (dd_cell dd) d)) [0..<6])) = mset (ghostCells (dd_st dd))"
    using mset_ghost_cells [OF wf] ok unfolding dd_ok_def by metis
  then have "set (concat (map (\<lambda>d. box_cells (dd_cell dd) (ghosts_box (dd_cell dd) d)) [0..<6])) = set (ghostCells (dd_st dd))"
    by (metis set_mset_mset)
  then show ?thesis using dd_okD(8) [OF ok d] d by fastforce
qed

lemma off_ghosts_storage: "cells_only (set (ghostCells (dd_st dd))) (dd_st dd) st \<Longrightarrow> off_ghosts dd (dd\<lparr>dd_st := st\<rparr>)"
  by (simp add: off_ghosts_def cells_only_def static_eq_def)

lemma buffers_only [simp]: "cells_only C st st' \<Longrightarrow> cells_only C st (st'\<lparr>outBuffer := b\<rparr>)"
  "cells_only C st st' \<Longrightarrow> cells_only C st (st'\<lparr>inBuffer := b\<rparr>)"
  unfolding cells_only_def data_only_def by (cases st; cases st'; simp add: particles_of_def fun_eq_iff)+

interpretation to_ghosts: comm_frame off_ghosts sizesFirst True for sizesFirst
proof
  fix dd dd' a b c :: domdec and dflt :: particle and coord lr r :: nat and L :: real3d and ex :: int
    and ns :: "longint list mails" and ms :: "message mails" and m
  show "off_ghosts dd dd" by (simp add: off_ghosts_def)
  show "off_ghosts a b \<Longrightarrow> off_ghosts b c \<Longrightarrow> off_ghosts a c"
    unfolding off_ghosts_def using static_eq_trans static_eq_sel(8) by metis
  show "off_ghosts dd dd' \<Longrightarrow> static_eq dd dd'" by (simp add: off_ghosts_def)
  show "off_ghosts dd dd'" if "send_data L True ex coord lr dd = Some (dd', m)"
    using that by (auto simp: send_data_def Let_def bind_Some_iff intro!: off_ghosts_storage)
  assume ok: "dd_ok dd" and c: "coord < 3" "lr < 2"
  then have d: "2 * coord + lr < 6" by simp
  note g = ghosts_of_dir [OF ok d]
  show "off_ghosts dd dd'" if "recv_sizes dflt coord lr ns r dd = Some dd'"
    using that g by (auto simp: recv_sizes_def Let_def bind_Some_iff split: if_splits
        intro!: off_ghosts_storage resize_ghosts_only dest!: set_zip_leftD)
      (simp add: off_ghosts_def)
  show "off_ghosts dd dd'" if run: "recv_data True ex coord lr ms r dd = Some dd'"
  proof -
    let ?gs = "take (length (commReals dd (2 * coord + lr))) (commGhosts dd (2 * coord + lr))"
    obtain st buf b0 where u: "unpack_cells (\<lambda>st c buf. unpackPositionsEtc st c buf ex) ?gs (dd_st dd, b0) = Some (st, buf)"
        "dd' = dd\<lparr>dd_st := st\<lparr>inBuffer := buf\<rparr>\<rparr>"
      using run by (auto simp: recv_data_def Let_def bind_Some_iff split: if_splits)
    have "cells_only (set (ghostCells (dd_st dd))) (dd_st dd) st"
      by (rule unpack_cells_only [OF u(1)])
        (use g set_take_subset in \<open>fastforce simp: unpackPositionsEtc_def intro: unpack_each_only\<close>)+
    then show ?thesis unfolding u(2) by (intro off_ghosts_storage) simp
  qed
  show "off_ghosts dd dd'" if "local_dir dflt L True ex coord lr dd = Some (Inr dd')"
    using that g by (auto simp: local_dir_def Let_def split: if_splits
        intro!: off_ghosts_storage copy_cells_only dest!: set_zip_rightD)
qed

section \<open>From the ghosts\<close>

definition noforce :: "particle \<Rightarrow> particle" where
  "noforce x = x\<lparr>part_f := \<lparr>pf_f = V3 0 0 0, pf_fradius = 0\<rparr>\<rparr>"

definition force_only :: "domdec \<Rightarrow> domdec \<Rightarrow> bool" where
  "force_only dd dd' \<longleftrightarrow> static_eq dd dd' \<and> localParticles (dd_st dd') = localParticles (dd_st dd)
     \<and> (\<forall>v. map noforce (particles_of (dd_st dd') v) = map noforce (particles_of (dd_st dd) v))"

definition st_force_only :: "storage \<Rightarrow> storage \<Rightarrow> bool" where
  "st_force_only st st' \<longleftrightarrow> data_only st st' \<and> localParticles st' = localParticles st
     \<and> (\<forall>v. map noforce (particles_of st' v) = map noforce (particles_of st v))"

lemma st_force_only_refl [simp]: "st_force_only st st"
  by (simp add: st_force_only_def)

lemma st_force_only_trans: "st_force_only a b \<Longrightarrow> st_force_only b c \<Longrightarrow> st_force_only a c"
  unfolding st_force_only_def by (auto intro: data_only_trans)

lemma noforce_upd [simp]: "noforce (x\<lparr>part_f := f\<rparr>) = noforce x"
  by (simp add: noforce_def)

lemma set_cell_force_only:
  "map noforce xs = map noforce (particles_of st (CellV c)) \<Longrightarrow> st_force_only st (set_cell st c xs)"
  by (auto simp: st_force_only_def data_only_def set_cell_def set_vec_def particles_of_def)

lemma unpack_forces_only: "unpack_forces comb xs b = Some (ys, b') \<Longrightarrow> map noforce ys = map noforce xs"
  by (induction comb xs b arbitrary: ys b' rule: unpack_forces.induct) (auto simp: bind_Some_iff)

lemma unpackAdd_force_only: "unpackAndAddForces st c b = Some (st', b') \<Longrightarrow> st_force_only st st'"
  unfolding unpackAndAddForces_def
  by (auto simp: bind_Some_iff intro: set_cell_force_only dest: unpack_forces_only)

lemma unpack_cells_force_only:
  "unpack_cells unpackAndAddForces cs (st, b) = Some (st', b') \<Longrightarrow> st_force_only st st'"
  by (induction cs arbitrary: st b)
    (auto simp: bind_Some_iff dest!: unpackAdd_force_only intro: st_force_only_trans)

lemma addGhost_force_only: "addGhostForcesToReals st g r = Some st' \<Longrightarrow> st_force_only st st'"
  unfolding addGhostForcesToReals_def
  by (auto simp: Let_def split: if_splits intro!: set_cell_force_only nth_equalityI)

lemma add_cells_force_only: "add_cells ps st = Some st' \<Longrightarrow> st_force_only st st'"
proof (induction ps arbitrary: st)
  case (Cons p ps)
  obtain r g where p: "p = (r, g)" by (cases p)
  obtain s where s: "addGhostForcesToReals st g r = Some s" "add_cells ps s = Some st'"
    using Cons.prems by (auto simp: p bind_Some_iff)
  show ?case by (rule st_force_only_trans [OF addGhost_force_only [OF s(1)] Cons.IH [OF s(2)]])
qed simp

lemma force_only_storage: "st_force_only (dd_st dd) st \<Longrightarrow> force_only dd (dd\<lparr>dd_st := st\<rparr>)"
  by (simp add: force_only_def st_force_only_def static_eq_def)

lemma buffers_force_only [simp]: "st_force_only st st' \<Longrightarrow> st_force_only st (st'\<lparr>outBuffer := b\<rparr>)"
  "st_force_only st st' \<Longrightarrow> st_force_only st (st'\<lparr>inBuffer := b\<rparr>)"
  unfolding st_force_only_def data_only_def by (cases st; cases st'; simp add: particles_of_def)+

interpretation to_reals: comm_frame force_only False False
proof
  fix dd dd' a b c :: domdec and dflt :: particle and coord lr r :: nat and L :: real3d and ex :: int
    and ns :: "longint list mails" and ms :: "message mails" and m
  show "force_only dd dd" by (simp add: force_only_def)
  show "force_only a b \<Longrightarrow> force_only b c \<Longrightarrow> force_only a c"
    unfolding force_only_def using static_eq_trans by metis
  show "force_only dd dd' \<Longrightarrow> static_eq dd dd'" by (simp add: force_only_def)
  show "force_only dd dd'" if "send_data L False ex coord lr dd = Some (dd', m)"
    using that by (auto simp: send_data_def Let_def bind_Some_iff intro!: force_only_storage)
  show "force_only dd dd'" if "recv_data False ex coord lr ms r dd = Some dd'"
    using that by (auto simp: recv_data_def Let_def bind_Some_iff
        intro!: force_only_storage buffers_force_only dest!: unpack_cells_force_only)
  show "force_only dd dd'" if "local_dir dflt L False ex coord lr dd = Some (Inr dd')"
    using that by (auto simp: local_dir_def Let_def bind_Some_iff rlift_Inr split: if_splits
        intro!: force_only_storage add_cells_force_only)
qed simp_all

end
