(* ===== verification/DecompFrame.thy ===== *)
theory DecompFrame
  imports Redistribution GhostSafe
begin

text \<open>
  Whatever the particles, the slots and the folding are, redistributing them
  (\<^verbatim>\<open>decomposeRealParticles\<close>, \<^verbatim>\<open>decompose\<close> of \<^verbatim>\<open>src/src/storage\<close>) does not touch the grids, the
  cells, the neighbors or the communication steps.
\<close>

section \<open>The loops of a process\<close>

definition body_frame :: "(nat \<Rightarrow> nat \<Rightarrow> domdec \<Rightarrow> bool \<Rightarrow> (bool \<times> domdec \<times> bool) option) \<Rightarrow> bool" where
  "body_frame body \<longleftrightarrow> (\<forall>c p dd f m dd' f'. p < length (cell_at dd c) \<longrightarrow> body c p dd f = Some (m, dd', f')
     \<longrightarrow> static_eq dd dd')"

lemma dd_move_static:
  assumes "dd_move dl c p dd = Some dd'" "dl \<noteq> CellV c" "p < length (cell_at dd c)"
  shows "static_eq dd dd'"
  using assms quiet_move [OF _ assms(2,3)] by (auto simp: dd_move_def bind_Some_iff static_eq_def quiet_def)

lemma sort_static: "sort_particle c p dd f = Some (m, dd', f') \<Longrightarrow> p < length (cell_at dd c) \<Longrightarrow> static_eq dd dd'"
  by (auto simp: sort_particle_def bind_Some_iff split: if_splits option.splits intro: dd_move_static)

lemma scan_frame: "body_frame (scan_particle coord)"
  unfolding body_frame_def scan_particle_def Let_def
  by (auto simp: bind_Some_iff split: if_splits intro: dd_move_static sort_static)

lemma fold_frame: "body_frame (fold_particle foldC coord)"
  unfolding body_frame_def
proof (intro allI impI)
  fix c p dd f m dd' f'
  assume p: "p < length (cell_at dd c)" and run: "fold_particle foldC coord c p dd f = Some (m, dd', f')"
  obtain pos img where fo: "foldC (p_pos (cell_at dd c ! p)) (p_image (cell_at dd c ! p)) coord = Some (pos, img)"
    using run by (auto simp: fold_particle_def Let_def bind_Some_iff)
  define dd1 where "dd1 = dd\<lparr>dd_st := set_vec (CellV c)
    (pv_set p (setImage (setPos (cell_at dd c ! p) pos) img) (vecs (dd_st dd) (CellV c))) (dd_st dd)\<rparr>"
  have s: "static_eq dd dd1" using quiet_set_vec by (simp add: dd1_def static_eq_def quiet_def)
  have l: "p < length (cell_at dd1 c)" using p by (simp add: dd1_def particles_of_def set_vec_def pv_set_def)
  have "if coord = 2 then sort_particle c p dd1 f = Some (m, dd', f') else dd' = dd1"
    using run fo by (auto simp: fold_particle_def Let_def dd1_def split: if_splits)
  then show "static_eq dd dd'"
    using s sort_static [OF _ l] static_eq_trans [OF s] by (cases "coord = 2") auto
qed

definition loop_frame :: "(nat \<Rightarrow> nat \<Rightarrow> domdec \<Rightarrow> bool \<Rightarrow> (bool \<times> domdec \<times> bool) option) \<Rightarrow>
    nat \<Rightarrow> nat \<Rightarrow> domdec \<Rightarrow> bool \<Rightarrow> domdec \<times> bool \<Rightarrow> bool" where
  "loop_frame body c p dd f r \<longleftrightarrow> (body_frame body \<longrightarrow> static_eq dd (fst r))"

lemma cell_loop_frame: "cell_loop body c p dd f = Some r \<Longrightarrow> body_frame body \<Longrightarrow> static_eq dd (fst r)"
proof -
  assume run: "cell_loop body c p dd f = Some r" and b: "body_frame body"
  have "loop_frame body c p dd f r"
  proof (rule cell_loop.raw_induct [where P = loop_frame, OF _ run])
    fix loop :: "(nat \<Rightarrow> nat \<Rightarrow> domdec \<Rightarrow> bool \<Rightarrow> (bool \<times> domdec \<times> bool) option) \<Rightarrow> nat \<Rightarrow> nat \<Rightarrow> domdec \<Rightarrow> bool
        \<Rightarrow> (domdec \<times> bool) option" and body c p dd f r
    assume IH: "\<And>body c p dd f r. loop body c p dd f = Some r \<Longrightarrow> loop_frame body c p dd f r"
      and e: "(if p < length (cell_at dd c)
          then do { (moved, dd, finished) \<leftarrow> body c p dd f; loop body c (if moved then p else Suc p) dd finished }
          else Some (dd, f)) = Some r"
    show "loop_frame body c p dd f r"
    proof (cases "p < length (cell_at dd c)")
      case True
      with e obtain m d g where d: "body c p dd f = Some (m, d, g)" "loop body c (if m then p else Suc p) d g = Some r"
        by (auto simp: bind_Some_iff)
      have "static_eq dd d" if "body_frame body" using that d(1) True unfolding body_frame_def by blast
      with IH [OF d(2)] show ?thesis unfolding loop_frame_def using static_eq_trans by blast
    qed (use e in \<open>auto simp: loop_frame_def\<close>)
  qed
  with b show ?thesis by (simp add: loop_frame_def)
qed

lemma cells_loop_frame: "cells_loop body cs dd f = Some r \<Longrightarrow> body_frame body \<Longrightarrow> static_eq dd (fst r)"
proof (induction cs arbitrary: dd f)
  case (Cons c cs)
  obtain d g where d: "cell_loop body c 0 dd f = Some (d, g)" "cells_loop body cs d g = Some r"
    using Cons.prems(1) by (auto simp: bind_Some_iff)
  have "static_eq dd d" using cell_loop_frame [OF d(1) Cons.prems(2)] by simp
  then show ?case using Cons.IH [OF d(2) Cons.prems(2)] static_eq_trans by blast
qed auto

lemma append_each_frame: "append_each foldC dir l is dd out = Some r \<Longrightarrow> static_eq dd (fst r)"
proof (induction "is" arbitrary: dd out)
  case (Cons i "is")
  obtain pos img where pos: "(if getBoundary (dd_node dd) dir \<noteq> 0
      then foldC (p_pos (particles_of (dd_st dd) l ! i)) (p_image (particles_of (dd_st dd) l ! i)) (nat (convertDirToCoord (int dir)))
      else Some (p_pos (particles_of (dd_st dd) l ! i), p_image (particles_of (dd_st dd) l ! i))) = Some (pos, img)"
    using Cons.prems by (simp add: Let_def bind_Some_iff split del: if_split) blast
  define it where "it = setImage (setPos (particles_of (dd_st dd) l ! i) pos) img"
  define st where "st = set_vec l (pv_set i it (vecs (dd_st dd) l)) (dd_st dd)"
  obtain outside c where c: "mapPositionToCellCheckedAndClipped (dd_cell dd) pos = Some (outside, c)"
    using Cons.prems pos by (auto simp: Let_def bind_Some_iff)
  obtain st2 q where a: "appendIndexedParticle st (CellV (nat c)) it = (st2, q)" by fastforce
  have "append_each foldC dir l is (dd\<lparr>dd_st := st2\<rparr>) (out \<or> outside) = Some r"
    using Cons.prems pos c a by (simp add: Let_def it_def st_def)
  from Cons.IH [OF this] have "static_eq (dd\<lparr>dd_st := st2\<rparr>) (fst r)" .
  moreover have "quiet (dd_st dd) st2" by (rule quiet_trans [OF _ quiet_append [OF a]]) (simp add: st_def)
  then have "static_eq dd (dd\<lparr>dd_st := st2\<rparr>)" by (simp add: static_eq_def quiet_def)
  ultimately show ?case using static_eq_trans by blast
qed auto

lemma append_received_frame: "append_received foldC coord dd f = Some r \<Longrightarrow> static_eq dd (fst r)"
proof -
  assume "append_received foldC coord dd f = Some r"
  then obtain d1 o1 d2 o2 where d: "appendParticles foldC recvBufL (2 * coord) dd = Some (d1, o1)"
      "appendParticles foldC recvBufR (2 * coord + 1) d1 = Some (d2, o2)" "fst r = clear_buffers d2"
    by (auto simp: append_received_def Let_def bind_Some_iff)
  have "static_eq dd d1" "static_eq d1 d2"
    using append_each_frame d(1,2) unfolding appendParticles_def by force+
  moreover have "static_eq d2 (clear_buffers d2)"
    by (simp add: clear_buffers_def static_eq_def data_only_def set_vec_def)
  ultimately show ?thesis unfolding d(3) using static_eq_trans by blast
qed

section \<open>All processes\<close>

abbreviation frame_eq :: "world \<Rightarrow> world \<Rightarrow> bool" where
  "frame_eq \<equiv> list_all2 static_eq"

lemma frame_eq_refl [simp]: "frame_eq w w"
  by (simp add: list_all2_refl)

lemma frame_eq_trans: "frame_eq a b \<Longrightarrow> frame_eq b c \<Longrightarrow> frame_eq a c"
  by (rule list_all2_trans [OF static_eq_trans])

lemma par_frame:
  assumes "par f w = Some ys" and "\<And>r dd y. f r dd = Some y \<Longrightarrow> static_eq dd (g y)"
  shows "frame_eq w (map g ys)"
  using assms by (auto simp: par_Some list_all2_conv_all_nth)

lemma send_static: "dd_send bs l dir dd = Some y \<Longrightarrow> static_eq dd (fst y)"
  by (auto simp: dd_send_def bind_Some_iff static_eq_def dest: sendParticles_frame)

lemma recv_static: "dd_recv ar dflt me l dir ms dd = Some dd' \<Longrightarrow> static_eq dd dd'"
  by (auto simp: dd_recv_def bind_Some_iff static_eq_def dest: recvParticles_frame)

lemma exchange_stage:
  assumes "(if c dd then do { dd \<leftarrow> dd_recv ar dflt r l dir ms dd; dd_send bs l' dir' dd } else Some (dd, None)) = Some y"
  shows "static_eq dd (fst y)"
proof (cases "c dd")
  case True
  then obtain d where d: "dd_recv ar dflt r l dir ms dd = Some d" "dd_send bs l' dir' d = Some y"
    using assms by (auto simp: bind_Some_iff)
  show ?thesis by (rule static_eq_trans [OF recv_static [OF d(1)] send_static [OF d(2)]])
qed (use assms in auto)

lemma par_zip_frame:
  assumes "par (\<lambda>r (dd, f). g r dd f) (zip w fs) = Some t" "length fs = length w"
    and "\<And>r dd f y. g r dd f = Some y \<Longrightarrow> static_eq dd (fst y)"
  shows "frame_eq w (map fst t)"
  using assms(1,2) by (auto simp: par_Some list_all2_conv_all_nth intro!: assms(3))

lemma exchange_frame:
  assumes "exchange bs ar dflt coord w = Some w'"
  shows "frame_eq w w'"
proof -
  let ?L = "2 * coord" and ?R = "2 * coord + 1"
  let ?ev = "\<lambda>dd. multi coord dd \<and> even_node coord dd" and ?od = "\<lambda>dd. multi coord dd \<and> \<not> even_node coord dd"
  obtain s1 s2 s3 s4 where
    p: "par (\<lambda>r dd. if ?ev dd then dd_send bs sendBufL ?L dd else Some (dd, None)) w = Some s1"
      "par (\<lambda>r dd. if ?od dd then do { dd \<leftarrow> dd_recv ar dflt r recvBufR ?R (map snd s1) dd; dd_send bs sendBufL ?L dd }
          else Some (dd, None)) (map fst s1) = Some s2"
      "par (\<lambda>r dd. if ?ev dd then do { dd \<leftarrow> dd_recv ar dflt r recvBufR ?R (mix (map snd s1) (map snd s2)) dd; dd_send bs sendBufR ?R dd }
          else Some (dd, None)) (map fst s2) = Some s3"
      "par (\<lambda>r dd. if ?od dd then do { dd \<leftarrow> dd_recv ar dflt r recvBufL ?L (map snd s3) dd; dd_send bs sendBufR ?R dd }
          else Some (dd, None)) (map fst s3) = Some s4"
      "par (\<lambda>r dd. if ?ev dd then dd_recv ar dflt r recvBufL ?L (mix (map snd s3) (map snd s4)) dd else Some dd) (map fst s4) = Some w'"
    using assms unfolding exchange_def Let_def bind_Some_iff by blast
  have "frame_eq w (map fst s1)" by (rule par_frame [OF p(1)]) (auto split: if_splits dest: send_static)
  moreover have "frame_eq (map fst s1) (map fst s2)" by (rule par_frame [OF p(2)]) (rule exchange_stage)
  moreover have "frame_eq (map fst s2) (map fst s3)" by (rule par_frame [OF p(3)]) (rule exchange_stage)
  moreover have "frame_eq (map fst s3) (map fst s4)" by (rule par_frame [OF p(4)]) (rule exchange_stage)
  moreover have "frame_eq (map fst s4) (map (\<lambda>dd. dd) w')"
    by (rule par_frame [OF p(5)]) (auto split: if_splits dest: recv_static)
  ultimately show ?thesis using frame_eq_trans by (metis list.map_ident)
qed

lemma coord_frame:
  assumes "decompose_coord bs ar foldC dflt coord s = Some s'" and "length (snd s) = length (fst s)"
  shows "frame_eq (fst s) (fst s') \<and> length (snd s') = length (fst s')"
proof -
  obtain t w u where
    t: "par (\<lambda>r (dd, f). if multi coord dd then cells_loop (scan_particle coord) (realCells (dd_st dd)) dd f
          else cells_loop (fold_particle foldC coord) (realCells (dd_st dd)) dd f) (zip (fst s) (snd s)) = Some t"
      "exchange bs ar dflt coord (map fst t) = Some w"
      "par (\<lambda>r (dd, f). if multi coord dd then append_received foldC coord dd f else Some (dd, f)) (zip w (map snd t)) = Some u"
      "s' = (map fst u, map snd u)"
    using assms(1) unfolding decompose_coord_def Let_def bind_Some_iff by auto
  have l: "length t = length (fst s)" "length w = length t" "length u = length w"
    using t(1,3) assms(2) list_all2_lengthD [OF exchange_frame [OF t(2)]] by (auto simp: par_Some)
  have "frame_eq (fst s) (map fst t)"
    by (rule par_zip_frame [OF t(1) assms(2)])
      (auto split: if_splits dest: cells_loop_frame [OF _ scan_frame] cells_loop_frame [OF _ fold_frame])
  moreover have "frame_eq w (map fst u)"
    by (rule par_zip_frame [OF t(3)]) (use l in \<open>auto split: if_splits dest: append_received_frame\<close>)
  ultimately have "frame_eq (fst s) (map fst u)" using exchange_frame [OF t(2)] frame_eq_trans by blast
  then show ?thesis by (simp add: t(4))
qed

lemma round_frame:
  assumes "decompose_round bs ar foldC dflt w = Some s"
  shows "frame_eq w (fst s)"
proof -
  obtain a b where r: "decompose_coord bs ar foldC dflt 0 (w, map (\<lambda>_. True) w) = Some a"
      "decompose_coord bs ar foldC dflt 1 a = Some b" "decompose_coord bs ar foldC dflt 2 b = Some s"
    using assms unfolding decompose_round_def bind_Some_iff by blast
  note a = coord_frame [OF r(1), simplified]
  note b = coord_frame [OF r(2) conjunct2 [OF a]]
  note c = coord_frame [OF r(3) conjunct2 [OF b]]
  show ?thesis using frame_eq_trans [OF frame_eq_trans [OF conjunct1 [OF a] conjunct1 [OF b]] conjunct1 [OF c]] .
qed

lemma rounds_frame:
  assumes "decompose_rounds bs ar foldC dflt w = Some w'"
  shows "frame_eq w w'"
proof (rule decompose_rounds.raw_induct [where P = "\<lambda>bs ar foldC dflt w w'. frame_eq w w'", OF _ assms])
  fix rounds :: "slot \<Rightarrow> slot \<Rightarrow> foldfun \<Rightarrow> particle \<Rightarrow> world \<Rightarrow> world option" and bs ar foldC dflt w r
  assume IH: "\<And>bs ar foldC dflt w r. rounds bs ar foldC dflt w = Some r \<Longrightarrow> frame_eq w r"
    and e: "do { (w, fs) \<leftarrow> decompose_round bs ar foldC dflt w;
        if list_all (\<lambda>f. f) fs then Some w else rounds bs ar foldC dflt w } = Some r"
  then obtain u fs where u: "decompose_round bs ar foldC dflt w = Some (u, fs)"
      "(if list_all (\<lambda>f. f) fs then Some u else rounds bs ar foldC dflt u) = Some r" by (auto simp: bind_Some_iff)
  have "frame_eq w u" using round_frame [OF u(1)] by simp
  moreover have "u = r \<or> frame_eq u r" using u(2) IH by (auto split: if_splits)
  ultimately show "frame_eq w r" using frame_eq_trans by blast
qed

section \<open>Decomposing keeps the invariant\<close>

abbreviation frames_ok :: "world \<Rightarrow> bool" where
  "frames_ok w \<equiv> \<forall>dd\<in>set w. dd_ok dd"

lemma frame_eq_ok: "frame_eq w w' \<Longrightarrow> frames_ok w \<Longrightarrow> frames_ok w'"
  unfolding list_all2_conv_all_nth all_set_conv_all_nth using dd_ok_static by metis

lemma decompose_ok:
  assumes "decomposeRealParticles bs ar foldC dflt w = Some w'" "frames_ok w"
  shows "frames_ok w'"
proof -
  obtain u where u: "decompose_rounds bs ar foldC dflt (map reserve_buffers w) = Some u" "w' = map note_capacity u"
    using assms(1) by (auto simp: decomposeRealParticles_def)
  have "frame_eq w (map reserve_buffers w)" by (simp add: list_all2_conv_all_nth reserve_buffers_sel(2))
  from frame_eq_ok [OF frame_eq_trans [OF this rounds_frame [OF u(1)]] assms(2)] show ?thesis by (simp add: u(2))
qed

lemma invalidate_static: "on_storage invalidateGhosts dd = Some dd' \<Longrightarrow> static_eq dd dd'"
proof -
  have "quiet st st'" if "removePtrs ps weak st = Some st'" for ps weak st st'
    using that
  proof (induction ps arbitrary: st)
    case (Cons p ps)
    then show ?case using removeFromLocal_quiet quiet_trans by (auto simp: bind_Some_iff) blast
  qed simp
  then show "static_eq dd dd'" if "on_storage invalidateGhosts dd = Some dd'"
    using that by (fastforce simp: on_storage_def invalidateGhosts_def bind_Some_iff static_eq_def quiet_def)
qed

lemma dd_ok_signal [simp]: "dd_ok (dd\<lparr>dd_st := onParticlesChanged (dd_st dd)\<rparr>) = dd_ok dd"
  using markCells_cong [of "dd\<lparr>dd_st := onParticlesChanged (dd_st dd)\<rparr>" dd]
  by (simp add: dd_ok_def onParticlesChanged_def)

lemma emit_changed_Inr: "emit_changed changed w y = Some (Inr t)
    \<longleftrightarrow> fst t = map (\<lambda>dd. dd\<lparr>dd_st := onParticlesChanged (dd_st dd)\<rparr>) w \<and> changed (fst t) y = Some (Inr (snd t))"
  by (cases t) (auto simp: emit_changed_def Let_def rbind_Inr)

lemma dd_decompose_stages:
  assumes "dd_decompose bs ar foldC dflt L changed (w, y) = Some (Inr t)"
  obtains a b c where "par (\<lambda>_. on_storage invalidateGhosts) w = Some a"
    "decomposeRealParticles bs ar foldC dflt a = Some b" "exchangeGhosts dflt L b = Some (Inr c)"
    "fst t = map (\<lambda>dd. dd\<lparr>dd_st := onParticlesChanged (dd_st dd)\<rparr>) c" "changed (fst t) y = Some (Inr (snd t))"
  using assms unfolding dd_decompose_def Let_def split_conv rbind_Inr rlift_Inr emit_changed_Inr by blast

lemma dd_decompose_ok:
  assumes "dd_decompose bs ar foldC dflt L changed (w, y) = Some (Inr t)" "frames_ok w"
  shows "frames_ok (fst t)"
proof -
  obtain a b c where r: "par (\<lambda>_. on_storage invalidateGhosts) w = Some a"
      "decomposeRealParticles bs ar foldC dflt a = Some b" "exchangeGhosts dflt L b = Some (Inr c)"
      "fst t = map (\<lambda>dd. dd\<lparr>dd_st := onParticlesChanged (dd_st dd)\<rparr>) c"
    by (rule dd_decompose_stages [OF assms(1)])
  have "frame_eq w (map (\<lambda>dd. dd) a)" by (rule par_frame [OF r(1)]) (auto dest: invalidate_static)
  then have "frames_ok a" using frame_eq_ok assms(2) by simp
  then have "frames_ok b" by (rule decompose_ok [OF r(2)])
  then have "list_all2 off_ghosts b c" using to_ghosts.communication_rel r(3) unfolding exchangeGhosts_def by blast
  then have "frame_eq b c" by (rule list_all2_mono) (simp add: off_ghosts_def)
  from frame_eq_ok [OF this \<open>frames_ok b\<close>] show ?thesis by (simp add: r(4))
qed

end
