(* ===== verification/DecompPlace.thy ===== *)
theory DecompPlace
  imports DecompGlobal
begin

text \<open>
  Where the rounds of \<^verbatim>\<open>decomposeRealParticles\<close> leave the particles: the flag \<^verbatim>\<open>finished\<close> of a process is
  kept only if every particle of its real cells lies in the cell that \<^verbatim>\<open>mapPositionToCellChecked\<close> names.
\<close>

section \<open>A loop that leaves every particle good\<close>

text \<open>\<open>good dd c x\<close>: particle \<open>x\<close> may stay in cell \<open>c\<close>.  A body keeps the flag only if it leaves its
  particle good, or moves it to a list where it is.\<close>

definition marks :: "(domdec \<Rightarrow> nat \<Rightarrow> particle \<Rightarrow> bool) \<Rightarrow> nat \<Rightarrow> nat \<Rightarrow> domdec \<Rightarrow> bool \<Rightarrow>
    bool \<times> domdec \<times> bool \<Rightarrow> bool" where
  "marks good c p dd fin r \<longleftrightarrow> (case r of (moved, dd', fin') \<Rightarrow> (fin' \<longrightarrow> fin)
     \<and> (if moved
        then \<exists>dl x. dl \<noteq> CellV c \<and> (\<forall>c'. dl = CellV c' \<longrightarrow> good dd c' x)
          \<and> parts dd' = (parts dd)(dl := parts dd dl @ [x], CellV c := swap_remove p (cell_at dd c))
        else \<exists>y. parts dd' = (parts dd)(CellV c := (cell_at dd c)[p := y]) \<and> (fin' \<longrightarrow> good dd c y)))"

definition marked :: "(domdec \<Rightarrow> nat \<Rightarrow> particle \<Rightarrow> bool) \<Rightarrow> nat set \<Rightarrow> nat \<Rightarrow> nat \<Rightarrow> domdec \<Rightarrow> bool \<Rightarrow> bool" where
  "marked good D c p dd fin \<longleftrightarrow> (fin \<longrightarrow> (\<forall>c'\<in>D. \<forall>x\<in>set (cell_at dd c'). good dd c' x)
     \<and> (\<forall>i<p. i < length (cell_at dd c) \<longrightarrow> good dd c (cell_at dd c ! i)))"

lemma marked_step:
  assumes m: "marks good c p dd fin (moved, dd', fin')" and p: "p < length (cell_at dd c)"
    and g: "good dd' = good dd" and c: "c \<notin> D" and inv: "marked good D c p dd fin"
  shows "marked good D c (if moved then p else Suc p) dd' fin'"
proof (cases moved)
  case True
  then obtain dl x where d: "dl \<noteq> CellV c" "\<forall>c'. dl = CellV c' \<longrightarrow> good dd c' x" "fin' \<longrightarrow> fin"
      "parts dd' = (parts dd)(dl := parts dd dl @ [x], CellV c := swap_remove p (cell_at dd c))"
    using m by (auto simp: marks_def)
  have "\<forall>x\<in>set (cell_at dd' c'). good dd c' x" if "c' \<in> D" "\<forall>x\<in>set (cell_at dd c'). good dd c' x" for c'
    using that c d by (cases "dl = CellV c'") auto
  then show ?thesis
    using inv d(3) p True unfolding marked_def g by (auto simp: d(4) nth_swap_remove)
next
  case False
  then obtain y where y: "fin' \<longrightarrow> fin \<and> good dd c y" "parts dd' = (parts dd)(CellV c := (cell_at dd c)[p := y])"
    using m by (auto simp: marks_def)
  have "\<forall>x\<in>set (cell_at dd' c'). good dd c' x" if "c' \<in> D" "\<forall>x\<in>set (cell_at dd c'). good dd c' x" for c'
    using that c y by (cases "c' = c") auto
  then show ?thesis
    using inv y(1) p False unfolding marked_def g by (auto simp: y(2) nth_list_update less_Suc_eq)
qed

locale marking_body = kept_body +
  fixes good :: "domdec \<Rightarrow> nat \<Rightarrow> particle \<Rightarrow> bool"
  assumes good_static: "static_eq dd dd' \<Longrightarrow> good dd' = good dd"
    and body_marks: "dd_ok dd \<Longrightarrow> indexed dd \<Longrightarrow> c \<in> set (realCells (dd_st dd)) \<Longrightarrow>
      p < length (cell_at dd c) \<Longrightarrow> body c p dd fin = Some r \<Longrightarrow> marks good c p dd fin r"
begin

lemma cell_loop_marks:
  assumes run: "cell_loop body c p dd fin = Some (dd', fin')" and ok: "dd_ok dd" "indexed dd"
    "c \<in> set (realCells (dd_st dd))" and D: "c \<notin> D" and inv: "marked good D c p dd fin"
  shows "fin' \<longrightarrow> fin \<and> (\<forall>c'\<in>insert c D. \<forall>x\<in>set (cell_at dd' c'). good dd' c' x)"
proof -
  define P where "P b c p dd fin y \<longleftrightarrow> (b = body \<longrightarrow> dd_ok dd \<longrightarrow> indexed dd
      \<longrightarrow> c \<in> set (realCells (dd_st dd)) \<longrightarrow> c \<notin> D \<longrightarrow> marked good D c p dd fin
      \<longrightarrow> (snd y \<longrightarrow> fin \<and> (\<forall>c'\<in>insert c D. \<forall>x\<in>set (cell_at (fst y) c'). good (fst y) c' x)))"
    for b c p dd fin and y :: "domdec \<times> bool"
  have "P body c p dd fin (dd', fin')"
  proof (rule cell_loop.raw_induct [where P = P, OF _ run])
    fix loop b c p dd fin y
    assume IH: "\<And>b c p dd fin y. loop b c p dd fin = Some y \<Longrightarrow> P b c p dd fin y"
      and eq: "(if p < length (cell_at dd c)
        then b c p dd fin \<bind> (\<lambda>(moved, dd, finished). loop b c (if moved then p else Suc p) dd finished)
        else Some (dd, fin)) = Some y"
    show "P b c p dd fin y"
      unfolding P_def
    proof (intro impI)
      assume b: "b = body" and ok: "dd_ok dd" "indexed dd" "c \<in> set (realCells (dd_st dd))" and D: "c \<notin> D"
        and inv: "marked good D c p dd fin" and f: "snd y"
      show "fin \<and> (\<forall>c'\<in>insert c D. \<forall>x\<in>set (cell_at (fst y) c'). good (fst y) c' x)"
      proof (cases "p < length (cell_at dd c)")
        case True
        with eq obtain moved dd1 fin1 where s: "b c p dd fin = Some (moved, dd1, fin1)"
            "loop b c (if moved then p else Suc p) dd1 fin1 = Some y"
          by (auto simp: bind_Some_iff)
        have k: "keeps T core dd dd1" using body_keeps [OF ok True] s(1) b by blast
        note k' = keepsD [OF k]
        have m: "marks good c p dd fin (moved, dd1, fin1)" using body_marks [OF ok True] s(1) b by blast
        have "marked good D c (if moved then p else Suc p) dd1 fin1"
          by (rule marked_step [OF m True good_static [OF k'(1)] D inv])
        then have "fin1 \<and> (\<forall>c'\<in>insert c D. \<forall>x\<in>set (cell_at (fst y) c'). good (fst y) c' x)"
          using IH [OF s(2)] b ok(3) k' dd_ok_static [OF k'(1) ok(1)] D f by (simp add: P_def)
        moreover have "fin1 \<longrightarrow> fin" using m by (simp add: marks_def)
        ultimately show ?thesis by blast
      next
        case False
        then have "y = (dd, fin)" using eq by simp
        then show ?thesis using inv f False by (auto simp: marked_def in_set_conv_nth)
      qed
    qed
  qed
  then show ?thesis using ok D inv by (simp add: P_def)
qed

lemma cells_loop_marks:
  assumes "cells_loop body cs dd fin = Some (dd', fin')" "dd_ok dd" "indexed dd"
    "set cs \<subseteq> set (realCells (dd_st dd))" "distinct cs" "D \<inter> set cs = {}"
    "fin \<longrightarrow> (\<forall>c\<in>D. \<forall>x\<in>set (cell_at dd c). good dd c x)"
  shows "fin' \<longrightarrow> fin \<and> (\<forall>c\<in>D \<union> set cs. \<forall>x\<in>set (cell_at dd' c). good dd' c x)"
  using assms
proof (induction cs arbitrary: dd fin D)
  case (Cons c cs)
  obtain dd1 fin1 where s: "cell_loop body c 0 dd fin = Some (dd1, fin1)"
      "cells_loop body cs dd1 fin1 = Some (dd', fin')"
    using Cons.prems(1) by (auto simp: bind_Some_iff)
  have c: "c \<in> set (realCells (dd_st dd))" "c \<notin> D" using Cons.prems(4,6) by auto
  have m0: "marked good D c 0 dd fin" using Cons.prems(7) by (simp add: marked_def)
  note m = cell_loop_marks [OF s(1) Cons.prems(2,3) c m0]
  have k: "keeps T core dd dd1" by (rule cell_loop_keeps [OF s(1) Cons.prems(2,3) c(1)])
  note k' = keepsD [OF k]
  have "fin' \<longrightarrow> fin1 \<and> (\<forall>c\<in>insert c D \<union> set cs. \<forall>x\<in>set (cell_at dd' c). good dd' c x)"
  proof (rule Cons.IH [OF s(2) dd_ok_static [OF k'(1) Cons.prems(2)] k'(2)])
    show "set cs \<subseteq> set (realCells (dd_st dd1))" using Cons.prems(4) k'(5) by simp
    show "insert c D \<inter> set cs = {}" using Cons.prems(5,6) by auto
    show "fin1 \<longrightarrow> (\<forall>c\<in>insert c D. \<forall>x\<in>set (cell_at dd1 c). good dd1 c x)" using m by blast
  qed (use Cons.prems(5) in simp)
  then show ?case using m by auto
qed auto

end

section \<open>Sorting\<close>

definition in_place :: "domdec \<Rightarrow> nat \<Rightarrow> particle \<Rightarrow> bool" where
  "in_place dd c x \<longleftrightarrow> dd_mapPositionToCellChecked dd (p_pos x) = Some (Some c)"

definition placed :: "domdec \<Rightarrow> bool" where
  "placed dd \<longleftrightarrow> (\<forall>c\<in>set (realCells (dd_st dd)). \<forall>x\<in>set (cell_at dd c). in_place dd c x)"

text \<open>
  What the look-up says of a position: along each direction it is between the walls of the cell, but for the
  tolerances of the first and the last cell.
\<close>

definition within_cell :: "cellgrid \<Rightarrow> nat \<Rightarrow> int \<Rightarrow> real \<Rightarrow> bool" where
  "within_cell cg i k r \<longleftrightarrow> (let left = vnth (myLeft cg) i; size = vnth (cellSize cg) i in
     (left + of_int (k - frame cg) * size \<le> r \<or> k = getInnerCellsBegin cg i \<and> (left - size < r \<or> left - ROUND_ERROR_PREC \<le> r))
     \<and> (r < left + of_int (k - frame cg + 1) * size
        \<or> k = getInnerCellsEnd cg i - 1 \<and> r \<le> vnth (myRight cg) i + ROUND_ERROR_PREC))"

lemma checkedCoord_within:
  assumes wf: "cellgrid_wf cg" and i: "i < 3" and c: "checkedCoord cg pos i = Some (Some k)"
  shows "within_cell cg i k (vnth pos i)"
proof -
  let ?l = "vnth (myLeft cg) i" and ?s = "vnth (cellSize cg) i" and ?G = "getInnerGridSize cg i"
  define x where "x = (vnth pos i - ?l) * vnth (invCellSize cg) i"
  define t where "t = trunc_real x"
  have s: "0 < ?s" "vnth (invCellSize cg) i = 1 / ?s" using cellSize_pos [OF wf i] cellgrid_wfD(6) [OF wf i] by simp_all
  then have r: "vnth pos i = ?l + x * ?s" by (simp add: x_def)
  have b: "getInnerCellsBegin cg i = frame cg" "getInnerCellsEnd cg i = frame cg + ?G"
    using innerEnd_eq [OF wf, of i] by (simp_all add: getInnerCellsBegin_def)
  then have e: "getFrameGridSize cg i - frame cg = frame cg + ?G" by (simp add: getInnerCellsEnd_def getFrameGridSize_def)
  have G: "0 < ?G" by (rule cellgrid_wfD(3) [OF wf i])
  have k: "(t < 0 \<and> k = frame cg \<and> ?l - ROUND_ERROR_PREC \<le> vnth pos i)
      \<or> (0 \<le> t \<and> ?G \<le> t \<and> k = frame cg + ?G - 1 \<and> vnth pos i \<le> vnth (myRight cg) i + ROUND_ERROR_PREC)
      \<or> (0 \<le> t \<and> t < ?G \<and> k = t + frame cg)"
    using c unfolding checkedCoord_def bind_eq_Some_conv castCoord_Some Let_def x_def [symmetric] t_def [symmetric] e
    by (auto split: if_splits)
  have mono: "of_int a * ?s \<le> x * ?s" if "of_int a \<le> x" for a using that s(1) by simp
  have less: "x * ?s < of_int a * ?s" if "x < of_int a" for a using that s(1) by simp
  show ?thesis
    using k
  proof (elim disjE conjE)
    assume a: "t < 0" "k = frame cg" "?l - ROUND_ERROR_PREC \<le> vnth pos i"
    then have "x < of_int 1" using trunc_real_nonneg [of x] by (cases "0 \<le> x") (auto simp: t_def)
    from less [OF this] show ?thesis using a b r by (simp add: within_cell_def Let_def)
  next
    assume a: "0 \<le> t" "?G \<le> t" "k = frame cg + ?G - 1" "vnth pos i \<le> vnth (myRight cg) i + ROUND_ERROR_PREC"
    then have "0 \<le> x" using G trunc_real_neg_iff [of x] by (auto simp: t_def trunc_real_def split: if_splits) (linarith)
    then have "of_int (?G - 1) \<le> x" using a(2) trunc_real_le [of x] by (simp add: t_def)
    from mono [OF this] show ?thesis using a b r by (simp add: within_cell_def Let_def)
  next
    assume a: "0 \<le> t" "t < ?G" "k = t + frame cg"
    show ?thesis
    proof (cases "0 \<le> x")
      case True
      then have "t = \<lfloor>x\<rfloor>" by (simp add: t_def trunc_real_def)
      then have "of_int t \<le> x" "x < of_int (t + 1)" by linarith+
      from mono [OF this(1)] less [OF this(2)] show ?thesis using a r by (simp add: within_cell_def Let_def)
    next
      case False
      then have "t = 0" using a(1) by (simp add: t_def trunc_real_def) linarith
      moreover have "- 1 < x" using trunc_real_neg_iff [of x] a(1) by (simp add: t_def)
      then have "- 1 * ?s < x * ?s" using s(1) by (simp only: mult_less_cancel_right) simp
      moreover have "x * ?s < of_int 1 * ?s" using less [of 1] False by simp
      ultimately show ?thesis using a b r by (simp add: within_cell_def Let_def)
    qed
  qed
qed

lemma checked_within:
  assumes wf: "dd_wf cg" and m: "mapPositionToCellChecked cg pos = Some (int c)"
  shows "\<exists>p. c = cidx cg p \<and> isInnerCell cg (vx p) (vy p) (vz p) \<and> (\<forall>i<3. within_cell cg i (vnth p i) (vnth pos i))"
proof -
  have w: "cellgrid_wf cg" using wf by (simp add: dd_wf_def)
  obtain c0 c1 c2 where c: "checkedCoord cg pos 0 = Some (Some c0)" "checkedCoord cg pos 1 = Some (Some c1)"
      "checkedCoord cg pos 2 = Some (Some c2)" "int c = mapPositionToIndex cg c0 c1 c2"
    using m by (auto simp: mapPositionToCellChecked_def noCell_def bind_eq_Some_conv split: option.splits)
  let ?p = "V3 c0 c1 c2"
  have "in_box (inner_lo cg) (inner_hi cg) ?p" by (rule checked_coords_inner [OF wf c(1-3)])
  then have "isInnerCell cg c0 c1 c2" using inner_box [of cg ?p] by simp
  moreover have "\<forall>i<3. within_cell cg i (vnth ?p i) (vnth pos i)"
    using checkedCoord_within [OF w _ c(1)] checkedCoord_within [OF w _ c(2)] checkedCoord_within [OF w _ c(3)]
    by (simp add: all_less_3)
  moreover have "c = cidx cg ?p" using c(4) by (simp add: cidx_def mapPositionToIndexV_def)
  ultimately show ?thesis by force
qed

lemma in_place_static: "static_eq dd dd' \<Longrightarrow> in_place dd' = in_place dd"
  by (simp add: in_place_def dd_mapPositionToCellChecked_def static_eq_sel(1) fun_eq_iff)

lemma sort_particle_marks:
  assumes ok: "dd_ok dd" "indexed dd" and c: "c \<in> set (realCells (dd_st dd))"
    and p: "p < length (cell_at dd c)" and r: "sort_particle c p dd fin = Some res"
    and good: "\<And>c'. in_place dd c' (cell_at dd c ! p) \<Longrightarrow> good dd c' (cell_at dd c ! p)"
  shows "marks good c p dd fin res"
proof -
  let ?x = "cell_at dd c ! p"
  obtain sc where sc: "dd_mapPositionToCellChecked dd (p_pos ?x) = Some sc"
    using r by (auto simp: sort_particle_def bind_Some_iff)
  consider "sc = None" | "sc = Some c" | c' where "sc = Some c'" "c' \<noteq> c" by (cases sc) auto
  then show ?thesis
  proof cases
    case 1
    then show ?thesis using r sc by (auto simp: sort_particle_def marks_def intro!: exI [of _ ?x])
  next
    case 2
    then show ?thesis using r sc good by (auto simp: sort_particle_def marks_def in_place_def intro!: exI [of _ ?x])
  next
    case 3
    then have c': "c' \<in> set (realCells (dd_st dd))" using checked_cell_real [OF ok(1)] sc by simp
    obtain dd' where "dd_move (CellV c') c p dd = Some dd'"
        "parts dd' = (parts dd)(CellV c' := cell_at dd c' @ [?x], CellV c := swap_remove p (cell_at dd c))"
      using dd_move_ok [OF ok(2) _ _ c _ p, of "CellV c'" "{}" "\<lambda>x. x"] 3(2) c' by auto
    then show ?thesis
      using r sc 3 good by (auto simp: sort_particle_def marks_def in_place_def intro!: exI [of _ "CellV c'"])
  qed
qed

text \<open>Scanning and folding in the last direction end with sorting.\<close>

interpretation scan2: marking_body "{sendBufL, sendBufR}" core "scan_particle 2" in_place
  for core :: "particle \<Rightarrow> 'b"
proof unfold_locales
  fix dd dd' assume "static_eq dd dd'"
  then show "in_place dd' = in_place dd" by (rule in_place_static)
next
  fix dd c p fin r
  assume ok: "dd_ok dd" "indexed dd" and c: "c \<in> set (realCells (dd_st dd))" and p: "p < length (cell_at dd c)"
    and r: "scan_particle 2 c p dd fin = Some r"
  have m: "marks in_place c p dd fin (True, dd', fin)" if "b \<in> {sendBufL, sendBufR}" "dd_move b c p dd = Some dd'" for b dd'
  proof -
    have "parts dd' = (parts dd)(b := parts dd b @ [cell_at dd c ! p], CellV c := swap_remove p (cell_at dd c))"
      using dd_move_ok [OF ok(2) _ _ c _ p, of b "{sendBufL, sendBufR}" "\<lambda>x. x"] that by auto
    then show ?thesis using that(1) by (auto simp: marks_def intro!: exI [of _ b])
  qed
  show "marks in_place c p dd fin r"
    using r m [of sendBufL] m [of sendBufR] sort_particle_marks [OF ok c p, of fin r in_place]
    by (auto simp: scan_particle_def Let_def bind_Some_iff split: if_splits)
qed

lemma swap_remove_update [simp]: "p < length xs \<Longrightarrow> swap_remove p (xs[p := y]) = swap_remove p xs"
  by (cases xs rule: rev_cases) (auto simp: swap_remove_def list_update_append split: if_splits)

lemma marks_after_set:
  assumes m: "marks good c p d fin r" and d: "parts d = (parts dd)(CellV c := (cell_at dd c)[p := y])"
    and p: "p < length (cell_at dd c)" and g: "good d = good dd"
  shows "marks good c p dd fin r"
proof -
  obtain moved dd' fin' where r: "r = (moved, dd', fin')" by (cases r)
  show ?thesis
  proof (cases moved)
    case True
    then obtain dl x where dl: "dl \<noteq> CellV c" "\<forall>c'. dl = CellV c' \<longrightarrow> good d c' x" "fin' \<longrightarrow> fin"
        "parts dd' = (parts d)(dl := parts d dl @ [x], CellV c := swap_remove p (cell_at d c))"
      using m by (auto simp: marks_def r)
    have "parts dd' = (parts dd)(dl := parts dd dl @ [x], CellV c := swap_remove p (cell_at dd c))"
      using dl(1) p by (simp add: dl(4) d fun_upd_twist)
    then show ?thesis using dl True by (auto simp: marks_def r g)
  next
    case False
    then obtain z where z: "fin' \<longrightarrow> fin \<and> good d c z" "parts dd' = (parts d)(CellV c := (cell_at d c)[p := z])"
      using m by (auto simp: marks_def r)
    have "parts dd' = (parts dd)(CellV c := (cell_at dd c)[p := z])" by (simp add: z(2) d)
    then show ?thesis using z(1) False by (auto simp: marks_def r g)
  qed
qed

context fold_core
begin

lemma fold_marking:
  assumes i: "i < 3" and static: "\<And>dd dd'. static_eq dd dd' \<Longrightarrow> good dd' = good dd"
    and good: "\<And>x pos img dd c. foldC (p_pos x) (p_image x) i = Some (pos, img) \<Longrightarrow>
      i = 2 \<longrightarrow> in_place dd c (setImage (setPos x pos) img) \<Longrightarrow> good dd c (setImage (setPos x pos) img)"
  shows "marking_body {} core (fold_particle foldC i) good"
proof (intro marking_body.intro fold_body marking_body_axioms.intro i)
  fix dd c p fin r
  assume ok: "dd_ok dd" "indexed dd" and c: "c \<in> set (realCells (dd_st dd))" and p: "p < length (cell_at dd c)"
    and r: "fold_particle foldC i c p dd fin = Some r"
  let ?x = "cell_at dd c ! p"
  obtain pos img where f: "foldC (p_pos ?x) (p_image ?x) i = Some (pos, img)"
    using r by (auto simp: fold_particle_def Let_def bind_Some_iff)
  define y where "y = setImage (setPos ?x pos) img"
  define d where "d = dd\<lparr>dd_st := set_vec (CellV c) (pv_set p y (vecs (dd_st dd) (CellV c))) (dd_st dd)\<rparr>"
  have y: "p_id y = p_id ?x" by (simp add: y_def setImage_def setPos_def)
  have k: "keeps {} p_id dd d" unfolding d_def by (rule dd_replace_ok [OF ok(2) c p y y])
  note k' = keepsD [OF k]
  have s: "(if i = 2 then sort_particle c p d fin else Some (False, d, fin)) = Some r"
    using r f by (simp add: fold_particle_def Let_def y_def d_def split: if_splits)
  have po: "parts d = (parts dd)(CellV c := (cell_at dd c)[p := y])"
    by (simp add: d_def particles_of_def fun_eq_iff)
  have c': "c \<in> set (realCells (dd_st d))" using c k'(5) by simp
  have p': "p < length (cell_at d c)" "cell_at d c ! p = y" using p by (simp_all add: po)
  show "marks good c p dd fin r"
  proof (cases "i = 2")
    case True
    have "marks good c p d fin r"
      by (rule sort_particle_marks [OF dd_ok_static [OF k'(1) ok(1)] k'(2) c' p'(1)])
        (use s True good [OF f] in \<open>simp_all add: p'(2) y_def\<close>)
    then show ?thesis by (rule marks_after_set [OF _ po p static [OF k'(1)]])
  next
    case False
    then show ?thesis using s good [OF f] po by (auto simp: marks_def y_def)
  qed
qed (rule static)

lemma fold2_marking: "marking_body {} core (fold_particle foldC 2) in_place"
  by (rule fold_marking) (simp_all add: in_place_static)

end

section \<open>Appending\<close>

lemma clipped_in_place:
  assumes ok: "dd_ok dd" and m: "mapPositionToCellCheckedAndClipped (dd_cell dd) (p_pos x) = Some (False, c)"
  shows "in_place dd (nat c) x"
proof -
  let ?cg = "dd_cell dd"
  obtain o0 c0 o1 c1 o2 c2 where
    cc: "clippedOutsideCoord ?cg (p_pos x) 0 = Some (o0, c0)" "clippedOutsideCoord ?cg (p_pos x) 1 = Some (o1, c1)"
    "clippedOutsideCoord ?cg (p_pos x) 2 = Some (o2, c2)" "False = (o0 \<or> o1 \<or> o2)"
    "c = mapPositionToIndex ?cg c0 c1 c2"
    by (rule checkedAndClipped_Some [OF m])
  have k: "mapPositionToCellChecked ?cg (p_pos x) = Some c"
    using cc(1-3) [THEN clippedOutside_checked] cc(4) unfolding mapPositionToCellChecked_def by (simp add: cc(5))
  have cw: "cellgrid_wf ?cg" using ok by (simp add: dd_ok_def dd_wf_def)
  have "in_box (inner_lo ?cg) (inner_hi ?cg) (V3 c0 c1 c2)"
    using cc(1-3) [THEN clippedOutside_clipped] clippedCoord_range [OF cw, of 0] clippedCoord_range [OF cw, of 1]
      clippedCoord_range [OF cw, of 2]
    by (simp add: in_box_def inner_lo_def inner_hi_def)
  then have "in_grid ?cg (V3 c0 c1 c2)"
    using dd_okD(1) [OF ok] inner_in_grid by blast
  then have "0 \<le> c" using index_bounds [of ?cg "V3 c0 c1 c2"] by (simp add: cc(5) mapPositionToIndexV_def)
  then show ?thesis using k by (simp add: in_place_def dd_mapPositionToCellChecked_def noCell_def)
qed

lemma append_parts:
  assumes "appendIndexedParticle st v x = (st', p)"
  shows "particles_of st' = (particles_of st)(v := particles_of st v @ [x])"
proof -
  have "st' = reindex (pv_base (vecs st v)) v (set_vec v (pv_push x (vecs st v)) st)"
    using assms by (auto simp: appendIndexedParticle_reindex Let_def)
  then show ?thesis by (simp add: fun_eq_iff particles_of_def)
qed

lemma append_outlier: "append_each foldC dir l is dd True = Some (dd', out') \<Longrightarrow> out'"
  by (induction "is" arbitrary: dd) (auto simp: Let_def bind_Some_iff case_prod_beta)

lemma append_each_places:
  assumes "append_each foldC dir l is dd out = Some (dd', out')" "dd_ok dd" "\<And>c. l \<noteq> CellV c" "\<not> out'" "placed dd"
  shows "\<not> out \<and> placed dd' \<and> static_eq dd dd'"
  using assms
proof (induction "is" arbitrary: dd out)
  case (Cons i "is")
  let ?st = "dd_st dd" and ?x = "particles_of (dd_st dd) l ! i"
  obtain pos img where f: "(if getBoundary (dd_node dd) dir \<noteq> 0
      then foldC (p_pos ?x) (p_image ?x) (nat (convertDirToCoord (int dir)))
      else Some (p_pos ?x, p_image ?x)) = Some (pos, img)"
    using Cons.prems(1) by (auto simp: Let_def bind_Some_iff)
  define y where "y = setImage (setPos ?x pos) img"
  define st1 where "st1 = set_vec l (pv_set i y (vecs ?st l)) ?st"
  obtain outside c where m: "mapPositionToCellCheckedAndClipped (dd_cell dd) pos = Some (outside, c)"
    using Cons.prems(1) f by (auto simp: Let_def bind_Some_iff)
  obtain st2 q where a: "appendIndexedParticle st1 (CellV (nat c)) y = (st2, q)" by fastforce
  let ?dd2 = "dd\<lparr>dd_st := st2\<rparr>"
  have rest: "append_each foldC dir l is ?dd2 (out \<or> outside) = Some (dd', out')"
    using Cons.prems(1) f m a by (simp add: Let_def y_def st1_def)
  have q2: "quiet ?st st2" by (rule quiet_trans [OF _ quiet_append [OF a]]) (simp add: st1_def)
  have s2: "static_eq dd ?dd2" using q2 by (simp add: static_eq_def quiet_def)
  have po: "cell_at ?dd2 c' = (if c' = nat c then cell_at dd c' @ [y] else cell_at dd c')" for c'
    using append_parts [OF a] Cons.prems(3) [of c'] Cons.prems(3) [of "nat c"] by (simp add: st1_def particles_of_def fun_upd_def)
  have pl: "placed ?dd2" if "\<not> outside"
  proof -
    have "in_place dd (nat c) y" using clipped_in_place [OF Cons.prems(2), of y c] m that by (simp add: y_def)
    then show ?thesis using Cons.prems(5) static_eq_sel(7) [OF s2] po in_place_static [OF s2]
      by (auto simp: placed_def)
  qed
  show ?case
  proof (cases outside)
    case False
    then show ?thesis using Cons.IH [OF rest dd_ok_static [OF s2 Cons.prems(2)] Cons.prems(3,4)] pl static_eq_trans [OF s2] by simp
  next
    case True
    then show ?thesis using append_outlier [of foldC dir l "is" ?dd2 dd' out'] rest Cons.prems(4) by simp
  qed
qed auto

lemma append_received_places:
  assumes app: "append_received foldC 2 dd fin = Some (dd', fin')" and ok: "dd_ok dd" and f: "fin'"
    and pl: "fin \<longrightarrow> placed dd"
  shows "fin \<and> placed dd'"
proof -
  obtain dd1 o1 dd2 o2 where
    a1: "appendParticles foldC recvBufL 4 dd = Some (dd1, o1)"
    and a2: "appendParticles foldC recvBufR 5 dd1 = Some (dd2, o2)"
    and dd': "dd' = clear_buffers dd2" "fin' = (if o2 then False else if o1 then False else fin)"
    using app by (auto simp: append_received_def bind_Some_iff Let_def)
  have fl: "\<not> o1" "\<not> o2" "fin" using f dd'(2) by (simp_all split: if_splits)
  have p1: "placed dd1" and st1: "static_eq dd dd1"
    using append_each_places [OF a1 [unfolded appendParticles_def] ok] fl pl by simp_all
  have "placed dd2"
    using append_each_places [OF a2 [unfolded appendParticles_def] dd_ok_static [OF st1 ok]] fl p1 by simp
  then have "placed dd'"
    using in_place_static [OF clear_buffers_sel(2) [of dd2]] static_eq_sel(7) [OF clear_buffers_sel(2) [of dd2]]
    by (simp add: placed_def dd' clear_buffers_sel(1))
  then show ?thesis using fl by simp
qed

section \<open>A round\<close>

context moves
begin

lemma trace_places:
  assumes tr: "coord_trace 2 dd f dd' True" and ok: "settled dd"
  shows "placed dd'"
proof -
  obtain d g e where sw: "(if multi 2 dd then cells_loop (scan_particle 2) (realCells (dd_st dd)) dd f
      else cells_loop (fold_particle foldC 2) (realCells (dd_st dd)) dd f) = Some (d, g)"
    and st: "static_eq dd d" "static_eq dd e" and c: "\<forall>c. cell_at e c = cell_at d c"
    and ap: "(if multi 2 dd then append_received foldC 2 e g else Some (e, g)) = Some (dd', True)"
    using tr unfolding coord_trace_def by blast
  have ok': "dd_ok dd" "indexed dd" "distinct (realCells (dd_st dd))"
    using ok dd_okD(4) by (simp_all add: settled_def)
  have "g \<longrightarrow> (\<forall>c\<in>set (realCells (dd_st dd)). \<forall>x\<in>set (cell_at d c). in_place d c x)"
  proof (cases "multi 2 dd")
    case True
    then show ?thesis
      using scan2.cells_loop_marks [of "realCells (dd_st dd)" dd f d g "{}"] sw ok' by simp
  next
    case False
    then show ?thesis
      using marking_body.cells_loop_marks [OF fold2_marking, of "realCells (dd_st dd)" dd f d g "{}"] sw ok' by simp
  qed
  then have e: "g \<longrightarrow> placed e"
    using c in_place_static [OF st(1)] in_place_static [OF st(2)] static_eq_sel(7) [OF st(2)] by (simp add: placed_def)
  show ?thesis
  proof (cases "multi 2 dd")
    case True
    then show ?thesis
      using append_received_places [of foldC e g dd' True] ap e dd_ok_static [OF st(2) ok'(1)] by simp
  next
    case False
    then show ?thesis using ap e by simp
  qed
qed

lemma coord_places:
  assumes "decompose_coord before after foldC dflt 2 s = Some s'" "fit ngs L (fst s)"
    "length (snd s) = length (fst s)" "list_all (\<lambda>f. f) (snd s')"
  shows "\<forall>dd\<in>set (fst s'). placed dd"
proof -
  have a: "decompose_coord before after foldC dflt 2 (fst s, snd s) = Some (fst s', snd s')" using assms(1) by simp
  have f: "world_ok (fst s)" "grid_world ngs L (fst s)" "unique_ids (fst s)" using assms(2) by (simp_all add: fit_def)
  note r = decompose_coord_ok [OF a _ f(1) assms(3) f(2,3)]
  have len: "length (fst s') = length (fst s)" "length (snd s') = length (fst s)"
    using r by (simp_all add: conserves_def world_static_def)
  have "placed (fst s' ! r)" if "r < length (fst s')" for r
  proof (rule trace_places)
    have "snd s' ! r" using assms(4) len that by (simp add: list_all_length)
    then show "coord_trace 2 (fst s ! r) (snd s ! r) (fst s' ! r) True" using r len that by auto
    show "settled (fst s ! r)" using f(1) len that by (simp add: world_ok_def)
  qed
  then show ?thesis by (auto simp: in_set_conv_nth)
qed

lemma round_places:
  assumes "decompose_round before after foldC dflt w = Some (w', fs)" "fit ngs L w" "list_all (\<lambda>f. f) fs"
  shows "\<forall>dd\<in>set w'. placed dd"
proof -
  obtain s1 s2 where s: "decompose_coord before after foldC dflt 0 (w, map (\<lambda>_. True) w) = Some s1"
      "decompose_coord before after foldC dflt 1 s1 = Some s2"
      "decompose_coord before after foldC dflt 2 s2 = Some (w', fs)"
    using assms(1) unfolding decompose_round_def by (auto simp: bind_Some_iff)
  have a: "fit ngs L (fst s1)" "length (snd s1) = length (fst s1)"
    using coord_fit [OF s(1), of ngs L] assms(2) by simp_all
  have b: "fit ngs L (fst s2)" "length (snd s2) = length (fst s2)"
    using coord_fit [OF s(2) _ a] by simp_all
  show ?thesis using coord_places [OF s(3) b] assms(3) by simp
qed

lemma rounds_places:
  assumes "decompose_rounds before after foldC dflt w = Some w'" "fit ngs L w"
  shows "\<forall>dd\<in>set w'. placed dd"
proof -
  define P where "P b a f d w w' \<longleftrightarrow>
      (b = before \<and> a = after \<and> f = foldC \<and> fit ngs L w \<longrightarrow> (\<forall>dd\<in>set w'. placed dd))"
    for b a f and d :: particle and w w'
  have "P before after foldC dflt w w'"
  proof (rule decompose_rounds.raw_induct [where P = P, OF _ assms(1)])
    fix rounds b a f d v v'
    assume IH: "\<And>b a f d w w'. rounds b a f d w = Some w' \<Longrightarrow> P b a f d w w'"
      and eq: "decompose_round b a f d v \<bind> (\<lambda>(w, fs). if list_all (\<lambda>f. f) fs then Some w
        else rounds b a f d w) = Some v'"
    obtain u fs where u: "decompose_round b a f d v = Some (u, fs)"
        "if list_all (\<lambda>f. f) fs then u = v' else rounds b a f d u = Some v'"
      using eq by (auto simp: bind_Some_iff split: if_splits)
    show "P b a f d v v'"
      unfolding P_def
    proof (intro impI)
      assume h: "b = before \<and> a = after \<and> f = foldC \<and> fit ngs L v"
      show "\<forall>dd\<in>set v'. placed dd"
      proof (cases "list_all (\<lambda>f. f) fs")
        case True
        then show ?thesis using round_places [of d v u fs ngs L] u h by simp
      next
        case False
        then have "P b a f d u v'" using u(2) IH by simp
        moreover have "fit ngs L u" using round_fit [of d v u fs ngs L] u(1) h by blast
        ultimately show ?thesis using h unfolding P_def by blast
      qed
    qed
  qed
  then show ?thesis using assms(2) by (simp add: P_def)
qed

end

end
