(* ===== verification/DecompSingle.thy ===== *)
theory DecompSingle
  imports DecompPlace Redistribution
begin

text \<open>
  A single process: the redistribution returns after one round, with every particle folded into
  the box and sorted into its cell.
\<close>

section \<open>A loop that returns\<close>

lemma cell_loop_total:
  assumes step: "\<And>dd p. Inv dd \<Longrightarrow> p < length (cell_at dd c) \<Longrightarrow>
      \<exists>moved dd'. body c p dd True = Some (moved, dd', True) \<and> Inv dd'
        \<and> length (cell_at dd' c) + (if moved then 1 else 0) = length (cell_at dd c)"
    and inv: "Inv dd"
  shows "\<exists>dd'. cell_loop body c p dd True = Some (dd', True) \<and> Inv dd'"
  using inv
proof (induction "length (cell_at dd c) - p" arbitrary: dd p rule: less_induct)
  case less
  show ?case
  proof (cases "p < length (cell_at dd c)")
    case True
    obtain moved d where d: "body c p dd True = Some (moved, d, True)" "Inv d"
        "length (cell_at d c) + (if moved then 1 else 0) = length (cell_at dd c)"
      using step [OF less.prems True] by blast
    let ?q = "if moved then p else Suc p"
    have "length (cell_at d c) - ?q < length (cell_at dd c) - p" using d(3) True by (auto split: if_splits)
    then obtain e where "cell_loop body c ?q d True = Some (e, True)" "Inv e"
      using less.hyps d(2) by blast
    then show ?thesis using True d(1) by (subst cell_loop.simps) simp
  next
    case False
    then show ?thesis using less.prems by (subst cell_loop.simps) simp
  qed
qed

lemma cells_loop_total:
  assumes step: "\<And>c dd p. c \<in> C \<Longrightarrow> Inv dd \<Longrightarrow> p < length (cell_at dd c) \<Longrightarrow>
      \<exists>moved dd'. body c p dd True = Some (moved, dd', True) \<and> Inv dd'
        \<and> length (cell_at dd' c) + (if moved then 1 else 0) = length (cell_at dd c)"
    and inv: "Inv dd" and cs: "set cs \<subseteq> C"
  shows "\<exists>dd'. cells_loop body cs dd True = Some (dd', True) \<and> Inv dd'"
  using inv cs
proof (induction cs arbitrary: dd)
  case (Cons c cs)
  have "\<exists>d. cell_loop body c 0 dd True = Some (d, True) \<and> Inv d"
  proof (rule cell_loop_total [where Inv = Inv])
    show "\<exists>moved dd'. body c p d True = Some (moved, dd', True) \<and> Inv dd'
        \<and> length (cell_at dd' c) + (if moved then 1 else 0) = length (cell_at d c)"
      if "Inv d" "p < length (cell_at d c)" for d p
      using step [of c d p] that Cons.prems(2) by simp
  qed (rule Cons.prems(1))
  then obtain d where "cell_loop body c 0 dd True = Some (d, True)" "Inv d" by blast
  then show ?case using Cons.IH [of d] Cons.prems(2) by simp
qed simp

section \<open>Folding\<close>

definition boxed :: "'a orthobc_scheme \<Rightarrow> nat \<Rightarrow> particle \<Rightarrow> bool" where
  "boxed b i x \<longleftrightarrow> 0 \<le> vnth (p_pos x) i \<and> vnth (p_pos x) i < vnth (boxL b) i"

text \<open>No image counter leaves the range of \<^verbatim>\<open>int\<close>.\<close>

definition foldable :: "'a orthobc_scheme \<Rightarrow> particle \<Rightarrow> bool" where
  "foldable b x \<longleftrightarrow> (\<forall>i<3. let k = \<lfloor>vnth (p_pos x) i / vnth (boxL b) i\<rfloor> in
     fits_int k \<and> fits_int (vnth (p_image x) i + k))"

definition ready :: "'a orthobc_scheme \<Rightarrow> nat \<Rightarrow> particle \<Rightarrow> bool" where
  "ready b n x \<longleftrightarrow> foldable b x \<and> (\<forall>i<n. boxed b i x)"

lemma fold_ready:
  assumes b: "bc_valid b" and i: "i < 3" and x: "ready b n x" and n: "n \<le> 3"
  shows "\<exists>pos img. foldCoordinate b (p_pos x) (p_image x) i = Some (pos, img)
    \<and> ready b n (setImage (setPos x pos) img) \<and> boxed b i (setImage (setPos x pos) img)"
proof -
  let ?k = "\<lfloor>vnth (p_pos x) i / vnth (boxL b) i\<rfloor>"
  have f: "fits_int ?k" "fits_int (vnth (p_image x) i + ?k)" using x i by (auto simp: ready_def foldable_def Let_def)
  note st = foldCoordinate_step [OF b i, of "p_pos x"]
  let ?p = "vupd (p_pos x) i (vnth (p_pos x) i - of_int ?k * vnth (boxL b) i)"
  let ?m = "vupd (p_image x) i (vnth (p_image x) i + ?k)"
  have e: "foldCoordinate b (p_pos x) (p_image x) i = Some (?p, ?m)" using st(1) f by simp
  let ?y = "setImage (setPos x ?p) ?m"
  have bi: "boxed b i ?y" using st(2,3) i by (simp add: boxed_def vnth_vupd)
  have "\<lfloor>vnth ?p i / vnth (boxL b) i\<rfloor> = 0"
    using bi bc_validD(1) [OF b i] by (simp add: boxed_def floor_eq_iff)
  then have "foldable b ?y"
    using x i f unfolding ready_def foldable_def Let_def by (simp add: vnth_vupd)
  moreover have "\<forall>j<n. boxed b j ?y" using x bi i n unfolding ready_def boxed_def
    by (auto simp: vnth_vupd)
  ultimately show ?thesis using e bi by (simp add: ready_def)
qed

lemma boxed_cell:
  assumes ok: "dd_ok dd" and span: "\<And>i. i < 3 \<Longrightarrow> vnth (myLeft (dd_cell dd)) i = 0
      \<and> vnth (myRight (dd_cell dd)) i = vnth (boxL b) i \<and> getGridSize (dd_cell dd) i \<le> INT_MAX"
    and x: "\<And>i. i < 3 \<Longrightarrow> boxed b i x"
  shows "\<exists>c. dd_mapPositionToCellChecked dd (p_pos x) = Some (Some c)"
proof -
  let ?cg = "dd_cell dd"
  have wf: "dd_wf ?cg" using ok by (simp add: dd_ok_def)
  then have cw: "cellgrid_wf ?cg" by (simp add: dd_wf_def)
  have "\<exists>d. checkedCoord ?cg (p_pos x) i = Some (Some d) \<and> getInnerCellsBegin ?cg i \<le> d \<and> d < getInnerCellsEnd ?cg i"
    if i: "i < 3" for i
  proof -
    have "vnth (myLeft ?cg) i \<le> vnth (p_pos x) i" "vnth (p_pos x) i < vnth (myRight ?cg) i"
      using span [OF i] x [OF i] by (simp_all add: boxed_def)
    then obtain d where d: "castCoord ?cg (p_pos x) i = Some d" "getInnerCellsBegin ?cg i \<le> d"
        "d < getInnerCellsEnd ?cg i"
      using castCoord_inner [OF cw i] span [OF i] by metis
    then show ?thesis
      by (auto simp: checkedCoord_def getInnerCellsBegin_def getInnerCellsEnd_def getFrameGridSize_def)
  qed
  note h = this
  obtain d0 d1 d2 where d: "checkedCoord ?cg (p_pos x) 0 = Some (Some d0)"
      "checkedCoord ?cg (p_pos x) 1 = Some (Some d1)" "checkedCoord ?cg (p_pos x) 2 = Some (Some d2)"
      "in_box (inner_lo ?cg) (inner_hi ?cg) (V3 d0 d1 d2)"
    using h [of 0] h [of 1] h [of 2] by (fastforce simp: in_box_def inner_lo_def inner_hi_def)
  then have "in_grid ?cg (V3 d0 d1 d2)" using inner_in_grid [OF wf] by blast
  then have "0 \<le> mapPositionToIndex ?cg d0 d1 d2"
    using index_bounds [of ?cg "V3 d0 d1 d2"] by (simp add: mapPositionToIndexV_def)
  then show ?thesis
    using d unfolding dd_mapPositionToCellChecked_def mapPositionToCellChecked_def by (simp add: noCell_def)
qed

section \<open>The sweeps\<close>

text \<open>The process holds particles that are folded in the first \<open>n\<close> directions.\<close>

definition folded_to :: "'a orthobc_scheme \<Rightarrow> nat \<Rightarrow> domdec \<Rightarrow> domdec \<Rightarrow> bool" where
  "folded_to b n dd0 dd \<longleftrightarrow> static_eq dd0 dd \<and> dd_ok dd \<and> indexed dd
     \<and> (\<forall>c\<in>set (realCells (dd_st dd)). \<forall>x\<in>set (cell_at dd c). ready b n x)"

definition spans :: "'a orthobc_scheme \<Rightarrow> domdec \<Rightarrow> bool" where
  "spans b dd \<longleftrightarrow> (\<forall>i<3. vnth (myLeft (dd_cell dd)) i = 0 \<and> vnth (myRight (dd_cell dd)) i = vnth (boxL b) i
     \<and> getGridSize (dd_cell dd) i \<le> INT_MAX)"

lemma ortho_fold_core: "bc_valid b \<Longrightarrow> fold_core (foldCoordinate b) (whole b)"
  by (rule fold_core.intro) (rule whole_fold)

lemma set_cell_step:
  assumes d: "folded_to b n dd0 dd" and c: "c \<in> set (realCells (dd_st dd))" and p: "p < length (cell_at dd c)"
    and y: "p_id y = p_id (cell_at dd c ! p)" "ready b n y"
  defines "e \<equiv> dd\<lparr>dd_st := set_vec (CellV c) (pv_set p y (vecs (dd_st dd) (CellV c))) (dd_st dd)\<rparr>"
  shows "folded_to b n dd0 e" "cell_at e c = (cell_at dd c)[p := y]"
proof -
  have d': "static_eq dd0 dd" "dd_ok dd" "indexed dd"
    "\<And>c x. c \<in> set (realCells (dd_st dd)) \<Longrightarrow> x \<in> set (cell_at dd c) \<Longrightarrow> ready b n x"
    using d by (auto simp: folded_to_def)
  have k: "keeps {} p_id dd e" unfolding e_def by (rule dd_replace_ok [OF d'(3) c p y(1) y(1)])
  note k' = keepsD [OF k]
  have po: "cell_at e c' = (if c' = c then (cell_at dd c)[p := y] else cell_at dd c')" for c'
    by (simp add: e_def particles_of_def)
  then show "cell_at e c = (cell_at dd c)[p := y]" by simp
  have "ready b n x" if "c' \<in> set (realCells (dd_st dd))" "x \<in> set (cell_at e c')" for c' x
    using that d'(4) [of c' x] d'(4) [OF c, of x] y(2) set_update_subset_insert [of "cell_at dd c" p y]
    by (auto simp: po split: if_splits)
  then show "folded_to b n dd0 e"
    using static_eq_trans [OF d'(1) k'(1)] dd_ok_static [OF k'(1) d'(2)] k'(2,5) by (simp add: folded_to_def)
qed

lemma fold_particle_total:
  assumes b: "bc_valid b" and i: "i < 3" and sp: "spans b dd0" and d: "folded_to b i dd0 dd"
    and c: "c \<in> set (realCells (dd_st dd))" and p: "p < length (cell_at dd c)"
  shows "\<exists>moved dd'. fold_particle (foldCoordinate b) i c p dd True = Some (moved, dd', True)
    \<and> folded_to b i dd0 dd' \<and> length (cell_at dd' c) + (if moved then 1 else 0) = length (cell_at dd c)"
proof -
  let ?x = "cell_at dd c ! p"
  have "ready b i ?x" using d c p by (auto simp: folded_to_def)
  then obtain pos img where f: "foldCoordinate b (p_pos ?x) (p_image ?x) i = Some (pos, img)"
      "ready b i (setImage (setPos ?x pos) img)" "boxed b i (setImage (setPos ?x pos) img)"
    using fold_ready [OF b i] i by fastforce
  define y where "y = setImage (setPos ?x pos) img"
  define e where "e = dd\<lparr>dd_st := set_vec (CellV c) (pv_set p y (vecs (dd_st dd) (CellV c))) (dd_st dd)\<rparr>"
  have y: "p_id y = p_id ?x" "ready b i y" using f(2) by (simp_all add: y_def setImage_def setPos_def)
  note e = set_cell_step [OF d c p y, folded e_def]
  have run: "fold_particle (foldCoordinate b) i c p dd True =
      (if i = 2 then sort_particle c p e True else Some (False, e, True))"
    using f(1) by (simp add: fold_particle_def Let_def y_def e_def)
  show ?thesis
  proof (cases "i = 2")
    case False
    then show ?thesis using run e by (intro exI [of _ False] exI [of _ e]) simp
  next
    case True
    have e': "static_eq dd0 e" "dd_ok e" "indexed e" using e(1) by (simp_all add: folded_to_def)
    have ce: "c \<in> set (realCells (dd_st e))" by (simp add: e_def c set_vec_def)
    have pe: "p < length (cell_at e c)" "cell_at e c ! p = y" using p by (simp_all add: e(2))
    have "boxed b j y" if "j < 3" for j using that f(2,3) True by (cases "j = 2") (auto simp: y_def ready_def)
    moreover have "spans b e" using sp static_eq_sel(1) [OF e'(1)] by (simp add: spans_def)
    ultimately obtain c' where c': "dd_mapPositionToCellChecked e (p_pos y) = Some (Some c')"
      using boxed_cell [OF e'(2), of b y] by (auto simp: spans_def)
    show ?thesis
    proof (cases "c' = c")
      case True
      then show ?thesis
        using run \<open>i = 2\<close> e c' pe by (intro exI [of _ False] exI [of _ e]) (simp add: sort_particle_def)
    next
      case False
      have cr: "c' \<in> set (realCells (dd_st e))" by (rule checked_cell_real [OF e'(2) c'])
      obtain g where g: "dd_move (CellV c') c p e = Some g" "keeps {} p_id e g"
          "parts g = (parts e)(CellV c' := cell_at e c' @ [y], CellV c := swap_remove p (cell_at e c))"
        using dd_move_ok [OF e'(3) _ _ ce _ pe(1), of "CellV c'" "{}" p_id] cr False pe(2) by auto
      note k' = keepsD [OF g(2)]
      have "ready b i x" if "c1 \<in> set (realCells (dd_st e))" "x \<in> set (cell_at g c1)" for c1 x
      proof -
        have "set (swap_remove p (cell_at e c)) \<subseteq> set (cell_at e c)"
          using mset_swap_remove [OF pe(1)] by (metis mset_subset_eqD mset_subset_eq_add_right subsetI
              add_mset_add_single set_mset_mset union_commute)
        then show ?thesis
          using that e(1) y(2) cr ce by (auto simp: g(3) folded_to_def split: if_splits)
      qed
      then have "folded_to b i dd0 g"
        using static_eq_trans [OF e'(1) k'(1)] dd_ok_static [OF k'(1) e'(2)] k'(2,5) by (simp add: folded_to_def)
      moreover have "length (cell_at g c) + 1 = length (cell_at dd c)" using p by (simp add: g(3) e(2))
      ultimately show ?thesis
        using run \<open>i = 2\<close> c' False g(1) pe(2) by (intro exI [of _ True] exI [of _ g]) (simp add: sort_particle_def)
    qed
  qed
qed

lemma fold_sweep:
  assumes b: "bc_valid b" and i: "i < 3" and sp: "spans b dd0" and d: "folded_to b i dd0 dd"
  shows "\<exists>dd'. cells_loop (fold_particle (foldCoordinate b) i) (realCells (dd_st dd)) dd True = Some (dd', True)
    \<and> folded_to b (Suc i) dd0 dd'"
proof -
  have d': "static_eq dd0 dd" "dd_ok dd" "indexed dd" using d by (simp_all add: folded_to_def)
  let ?C = "set (realCells (dd_st dd0))"
  have C: "set (realCells (dd_st dd)) = ?C" using static_eq_sel(7) [OF d'(1)] by simp
  have "\<exists>dd'. cells_loop (fold_particle (foldCoordinate b) i) (realCells (dd_st dd)) dd True = Some (dd', True)
      \<and> folded_to b i dd0 dd'"
  proof (rule cells_loop_total [where Inv = "folded_to b i dd0" and C = ?C])
    show "\<exists>moved dd'. fold_particle (foldCoordinate b) i c p e True = Some (moved, dd', True)
        \<and> folded_to b i dd0 dd' \<and> length (cell_at dd' c) + (if moved then 1 else 0) = length (cell_at e c)"
      if "c \<in> ?C" "folded_to b i dd0 e" "p < length (cell_at e c)" for c e p
    proof (rule fold_particle_total [OF b i sp that(2) _ that(3)])
      show "c \<in> set (realCells (dd_st e))" using that(1,2) static_eq_sel(7) [of dd0 e] by (simp add: folded_to_def)
    qed
  qed (use d C in auto)
  then obtain dd' where r: "cells_loop (fold_particle (foldCoordinate b) i) (realCells (dd_st dd)) dd True = Some (dd', True)"
      "folded_to b i dd0 dd'" by blast
  have m: "marking_body {} (whole b) (fold_particle (foldCoordinate b) i) (\<lambda>_ _. boxed b i)"
  proof (rule fold_core.fold_marking [OF ortho_fold_core [OF b] i])
    show "boxed b i (setImage (setPos x pos) img)" if "foldCoordinate b (p_pos x) (p_image x) i = Some (pos, img)"
      for x pos img
      using foldCoordinate_laws(1) [OF b i that] by (simp add: boxed_def)
  qed simp
  have "\<forall>c\<in>set (realCells (dd_st dd)). \<forall>x\<in>set (cell_at dd' c). boxed b i x"
    using marking_body.cells_loop_marks [OF m r(1) d'(2,3) order_refl dd_okD(4) [OF d'(2)], of "{}"] by simp
  moreover have "realCells (dd_st dd') = realCells (dd_st dd)"
    using r(2) d'(1) static_eq_sel(7) [of dd0 dd'] static_eq_sel(7) [of dd0 dd] by (simp add: folded_to_def)
  ultimately have "folded_to b (Suc i) dd0 dd'"
    using r(2) by (auto simp: folded_to_def ready_def less_Suc_eq)
  with r(1) show ?thesis by blast
qed

section \<open>The rounds\<close>

lemma par_single [simp]: "par f [x] = (case f 0 x of None \<Rightarrow> None | Some y \<Rightarrow> Some [y])"
  by (simp add: par_def split: option.splits)

lemma exchange_single: "\<not> multi coord dd \<Longrightarrow> exchange bs ar dflt coord [dd] = Some [dd]"
  by (simp add: exchange_def Let_def)

lemma decompose_coord_single:
  assumes "\<not> multi coord dd" "\<not> multi coord d"
    "cells_loop (fold_particle foldC coord) (realCells (dd_st dd)) dd True = Some (d, True)"
  shows "decompose_coord bs ar foldC dflt coord ([dd], [True]) = Some ([d], [True])"
  using assms by (simp add: decompose_coord_def exchange_single)

lemma rounds_single:
  assumes b: "bc_valid b" and sp: "spans b dd" and one: "\<And>i. i < 3 \<Longrightarrow> \<not> multi i dd" and d: "folded_to b 0 dd dd"
  shows "\<exists>dd'. decompose_rounds bs ar (foldCoordinate b) dflt [dd] = Some [dd'] \<and> folded_to b 3 dd dd'"
proof -
  obtain d1 where d1: "cells_loop (fold_particle (foldCoordinate b) 0) (realCells (dd_st dd)) dd True = Some (d1, True)"
      "folded_to b 1 dd d1" using fold_sweep [OF b _ sp d] by auto
  obtain d2 where d2: "cells_loop (fold_particle (foldCoordinate b) 1) (realCells (dd_st d1)) d1 True = Some (d2, True)"
      "folded_to b 2 dd d2" using fold_sweep [OF b _ sp d1(2)] by (auto simp: numeral_2_eq_2)
  obtain d3 where d3: "cells_loop (fold_particle (foldCoordinate b) 2) (realCells (dd_st d2)) d2 True = Some (d3, True)"
      "folded_to b 3 dd d3" using fold_sweep [OF b _ sp d2(2)] by (auto simp: numeral_3_eq_3)
  have m: "\<not> multi i e" if "folded_to b n dd e" "i < 3" for n e i
    using that one static_eq_sel(11) [of dd e i] by (simp add: folded_to_def)
  have "decompose_round bs ar (foldCoordinate b) dflt [dd] = Some ([d3], [True])"
    using decompose_coord_single [OF one m [OF d1(2)] d1(1), of bs ar dflt]
      decompose_coord_single [OF m [OF d1(2)] m [OF d2(2)] d2(1), of bs ar dflt]
      decompose_coord_single [OF m [OF d2(2)] m [OF d3(2)] d3(1), of bs ar dflt]
    by (simp add: decompose_round_def)
  then show ?thesis using d3(2) by (subst decompose_rounds.simps) simp
qed

section \<open>Properties\<close>

lemma populated_single:
  assumes "populated (V3 1 1 1) L [dd]" "i < 3"
  shows "\<not> multi i dd"
proof -
  have "NodeGrid_new (V3 1 1 1) 0 L = Inr (dd_node dd)" using assms(1) by (simp add: populated_def grid_world_def)
  from NodeGrid_new_sel(1) [OF this] show ?thesis
    using assms(2) by (auto simp: multi_def getGridSize_def less_3_cases)
qed

lemma single_run:
  assumes b: "bc_valid b" and w: "populated (V3 1 1 1) L [dd]" and sp: "spans b dd"
    and x: "\<forall>x\<in>set (real_particles dd). foldable b x"
  shows "\<exists>dd'. decomposeRealParticles before after (foldCoordinate b) dflt [dd] = Some [dd']
    \<and> (\<forall>x\<in>set (real_particles dd'). \<forall>i<3. boxed b i x)"
proof -
  let ?d = "reserve_buffers dd"
  note st = reserve_buffers_sel(2) [of dd]
  have s: "settled ?d" "real_particles ?d = real_particles dd"
    using reserve_settled [of dd] w by (simp_all add: populated_def)
  have "ready b 0 x" if "c \<in> set (realCells (dd_st ?d))" "x \<in> set (cell_at ?d c)" for c x
  proof -
    have "x \<in> set (real_particles ?d)" using that by (auto simp: real_particles_def)
    then show ?thesis using x s(2) by (simp add: ready_def)
  qed
  then have f: "folded_to b 0 ?d ?d" using s(1) by (simp add: folded_to_def settled_def)
  have "spans b ?d" using sp static_eq_sel(1) [OF st] by (simp add: spans_def)
  moreover have "\<not> multi i ?d" if "i < 3" for i
    using populated_single [OF w that] static_eq_sel(11) [OF st] by simp
  ultimately obtain d where d: "decompose_rounds before after (foldCoordinate b) dflt [?d] = Some [d]" "folded_to b 3 ?d d"
    using rounds_single [OF b _ _ f] by blast
  have "\<forall>x\<in>set (real_particles d). \<forall>i<3. boxed b i x"
    using d(2) by (auto simp: folded_to_def ready_def real_particles_def)
  with d(1) show ?thesis by (simp add: decomposeRealParticles_def)
qed

lemma decompose_placed:
  assumes sl: "slots before after extra" and b: "bc_valid b" and w: "populated ngs L w"
    and run: "decomposeRealParticles before after (foldCoordinate b) dflt w = Some w'"
  shows "\<forall>dd\<in>set w'. placed dd"
proof -
  obtain u where u: "decompose_rounds before after (foldCoordinate b) dflt (map reserve_buffers w) = Some u"
      and w': "w' = map note_capacity u"
    using run by (auto simp: decomposeRealParticles_def)
  have "fit ngs L (map reserve_buffers w)" using populated_fit [OF w] by blast
  from moves.rounds_places [OF ortho_moves [OF sl b] u this] show ?thesis
    by (simp add: w' placed_def in_place_def dd_mapPositionToCellChecked_def)
qed

text \<open>
  C1.  The redistribution of \<^verbatim>\<open>DomainDecomposition::decomposeRealParticles\<close> keeps the system.  On
  any grid of processes, whatever the slots connected to the storage's signals add to the messages
  (as long as each reads back what its counterpart wrote), if it returns then the particles of all
  processes together are the particles there were before, each with all its data and the same
  unfolded position: none is lost, duplicated or changed by the odd-even exchange, the folding, or
  the moves between cells.  The ids are still unique, every process's index is exact for the
  particles it now has, and the static part of every process is still valid.
\<close>

theorem decompose_conserves:
  assumes "slots before after extra" and "bc_valid b" and "populated ngs L w"
    and "decomposeRealParticles before after (foldCoordinate b) dflt w = Some w'"
  shows "populated ngs L w' \<and> length w' = length w
    \<and> image_mset (whole b) (mset (world_particles w')) = image_mset (whole b) (mset (world_particles w))"
  by (rule decompose_fit [OF assms])

definition loaded :: "domdec \<Rightarrow> particle \<Rightarrow> domdec" where
  "loaded dd x = dd\<lparr>dd_st := fst (appendIndexedParticle (dd_st dd) (CellV (hd (realCells (dd_st dd)))) x)\<rparr>"

definition stray :: particle where
  "stray = setImage (setPos (setId undefined 7) (V3 (-1) 9 1)) (V3 0 0 0)"

definition box4 :: orthobc where
  "box4 = OrthorhombicBC_new (V3 4 4 4)"

lemma box4: "bc_valid box4" "boxL box4 = V3 4 4 4"
  unfolding box4_def OrthorhombicBC_new_def by (rule setBoxL_valid) (simp_all add: vall_def setBoxL_def)

text \<open>An empty process that has the whole box to itself, and another particle for it.\<close>

definition roomy :: "'a orthobc_scheme \<Rightarrow> real3d \<Rightarrow> domdec \<Rightarrow> bool" where
  "roomy b L dd \<longleftrightarrow> populated (V3 1 1 1) L [dd] \<and> spans b dd \<and> (\<forall>c\<in>set (ghostCells (dd_st dd)). cell_at dd c = [])"

lemma has_real_cells:
  assumes "dd_ok dd"
  shows "realCells (dd_st dd) \<noteq> []"
proof -
  note wf = dd_okD(1) [OF assms]
  have "in_box (inner_lo (dd_cell dd)) (inner_hi (dd_cell dd)) (V3 1 1 1)"
    using dd_wf_sizes(4) [OF wf, of 0] dd_wf_sizes(4) [OF wf, of 1] dd_wf_sizes(4) [OF wf, of 2]
    by (simp add: in_box_def inner_lo_def inner_hi_def dd_wf_sizes(1,2) [OF wf])
  then show ?thesis using dd_okD(3) [OF assms] by fastforce
qed

lemma loaded_more:
  assumes r: "roomy b L dd" and new: "p_id x \<notin> p_id ` set (real_particles dd)"
  shows "roomy b L (loaded dd x)" "mset (real_particles (loaded dd x)) = add_mset x (mset (real_particles dd))"
    "realCells (dd_st (loaded dd x)) = realCells (dd_st dd)"
proof -
  let ?v = "CellV (hd (realCells (dd_st dd)))" and ?C = "CellV ` set (realCells (dd_st dd))"
  have ok: "dd_ok dd" "dd_indexed dd" "0 < b_capacity (outBuffer (dd_st dd))" "grid_world (V3 1 1 1) L [dd]"
    "distinct (map p_id (real_particles dd))"
    using r by (simp_all add: roomy_def populated_def world_particles_def)
  have v: "?v \<in> ?C" using has_real_cells [OF ok(1)] by simp
  have i: "index_ok ?C (dd_st dd)" using ok(2) by (simp add: dd_indexed_def)
  have none: "localParticles (dd_st dd) (p_id x) = None"
  proof (rule ccontr)
    assume "localParticles (dd_st dd) (p_id x) \<noteq> None"
    then obtain p where "localParticles (dd_st dd) (p_id x) = Some p" by blast
    then have "points_to ?C (dd_st dd) (p_id x) p" using i by (simp add: index_ok_def)
    then obtain c j where cj: "c \<in> set (realCells (dd_st dd))" "j < length (cell_at dd c)" "p_id (cell_at dd c ! j) = p_id x"
      by (auto simp: points_to_def idat_def)
    then have "cell_at dd c ! j \<in> set (real_particles dd)" using nth_mem by (fastforce simp: real_particles_def)
    then show False using new cj(3) by (metis imageI)
  qed
  obtain st p where a: "appendIndexedParticle (dd_st dd) ?v x = (st, p)" by fastforce
  have ap: "index_ok ?C st" "particles_of st = (particles_of (dd_st dd))(?v := particles_of (dd_st dd) ?v @ [x])"
    using appendIndexedParticle_ok(1,3) [OF i v none a] by simp_all
  note q = quiet_append [OF a]
  have e: "loaded dd x = dd\<lparr>dd_st := st\<rparr>" by (simp add: loaded_def a)
  have s: "static_eq dd (loaded dd x)" using q by (simp add: e static_eq_def quiet_def)
  note sel = static_eq_sel [OF s]
  show "realCells (dd_st (loaded dd x)) = realCells (dd_st dd)" by (rule sel(7))
  have "held ?C st = mset (real_particles (loaded dd x))"
    using held_cells [of "loaded dd x"] dd_okD(4) [OF ok(1)] sel(7) by (simp add: e)
  moreover have "held ?C (dd_st dd) = mset (real_particles dd)" by (rule held_cells [OF dd_okD(4) [OF ok(1)]])
  moreover have "held ?C st + mset (particles_of (dd_st dd) ?v) = held ?C (dd_st dd) + mset (particles_of (dd_st dd) ?v @ [x])"
    by (rule held_upd [OF _ v ap(2)]) simp
  ultimately show m: "mset (real_particles (loaded dd x)) = add_mset x (mset (real_particles dd))" by simp
  have "distinct (map p_id (real_particles (loaded dd x)))"
  proof -
    have "mset (map p_id (real_particles (loaded dd x))) = mset (p_id x # map p_id (real_particles dd))" using m by simp
    then have "distinct (map p_id (real_particles (loaded dd x))) = distinct (p_id x # map p_id (real_particles dd))"
      by (rule mset_eq_imp_distinct_iff)
    then show ?thesis using new ok(5) by simp
  qed
  moreover have "dd_indexed (loaded dd x)" using ap(1) sel(7) by (simp add: dd_indexed_def e)
  moreover have "0 < b_capacity (outBuffer (dd_st (loaded dd x)))" using q ok(3) by (simp add: e quiet_def)
  moreover have "grid_world (V3 1 1 1) L [loaded dd x]" using ok(4) sel(2) by (simp add: grid_world_def)
  ultimately have "populated (V3 1 1 1) L [loaded dd x]"
    using dd_ok_static [OF s ok(1)] by (simp add: populated_def world_particles_def)
  moreover have "spans b (loaded dd x)" using r sel(1) by (simp add: spans_def roomy_def)
  moreover have "cell_at (loaded dd x) c = []" if c: "c \<in> set (ghostCells (dd_st (loaded dd x)))" for c
  proof -
    have "c \<noteq> hd (realCells (dd_st dd))"
    proof
      assume "c = hd (realCells (dd_st dd))"
      then have "c \<in> set (realCells (dd_st dd))" "c \<in> set (ghostCells (dd_st dd))"
        using has_real_cells [OF ok(1)] c sel(8) by auto
      moreover have "distinct (realCells (dd_st dd) @ ghostCells (dd_st dd))"
        using dd_okD(9) [OF ok(1)] dd_okD(2) [OF ok(1)] by (metis distinct_upt mset_append mset_eq_imp_distinct_iff)
      ultimately show False by auto
    qed
    then show ?thesis using ap(2) r c sel(8) by (simp add: e roomy_def)
  qed
  ultimately show "roomy b L (loaded dd x)" by (simp add: roomy_def)
qed

text \<open>A constructed single process is such a process.\<close>

lemma constructed_roomy:
  assumes new: "DomainDecomposition_new node0 cell0 b0 0 1 (V3 4 4 4) (V3 1 1 1) cgs = Some (Inr dd)"
    and small: "vall (\<lambda>n. n \<le> 1000) cgs"
  shows "roomy box4 (V3 4 4 4) dd" "real_particles dd = []"
proof -
  have L: "vall (\<lambda>x. 0 < x) (V3 4 4 4 :: real3d)" by (simp add: vall_def)
  note ok = DomainDecomposition_new_ok [OF L new]
  show r: "real_particles dd = []" using ok(6) by (simp add: real_particles_def)
  have "index_ok (CellV ` set (realCells (dd_st dd))) (dd_st dd)" using ok(6,7) by (simp add: index_ok_def points_to_def)
  then have "populated (V3 1 1 1) (V3 4 4 4) [dd]"
    using ok(1,2,8) r by (simp add: populated_def grid_world_def world_particles_def dd_indexed_def Buffer_new_def BUFFER_SIZE_def)
  moreover have "spans box4 dd"
  proof -
    obtain ng where ng: "NodeGrid_new (V3 1 1 1) 0 (V3 4 4 4) = Inr ng" "dd_node dd = ng" using ok(2) by blast
    then have g: "ng_getMyLeftV ng = V3 0 0 0" "ng_getMyRightV ng = V3 4 4 4"
      using NodeGrid_new_sel(3,4) [OF ng(1)] NodeGrid_new_sel(1) [OF ng(1)]
      by (simp_all add: ng_getMyLeftV_def ng_getMyRightV_def ng_getMyLeft_def ng_getMyRight_def mapIndexToPosition_def
          Let_def c_div_def c_mod_def)
    have "\<exists>cg. dd_cell dd = cg \<and> myLeft cg = V3 0 0 0 \<and> myRight cg = V3 4 4 4 \<and> gsize cg = vmap (\<lambda>n. n + 2) cgs"
      using CellGrid_new_Inr(4) [OF ok(4)] unfolding ng(2) g by (auto simp: Let_def vec_eq_iff)
    then show ?thesis
      using small by (auto simp: spans_def box4(2) less_3_cases getGridSize_def INT_MAX_def vall_def)
  qed
  ultimately show "roomy box4 (V3 4 4 4) dd" using ok(6) by (simp add: roomy_def)
qed

text \<open>The example process with one particle, which lies outside the box.\<close>

lemma loaded_example:
  assumes dd: "dd_example = Some (Inr dd)"
  shows "populated (V3 1 1 1) (V3 4 4 4) [loaded dd x] \<and> spans box4 (loaded dd x)
    \<and> real_particles (loaded dd x) = [x]
    \<and> (\<forall>c\<in>set (ghostCells (dd_st (loaded dd x))). cell_at (loaded dd x) c = [])"
proof -
  have "roomy box4 (V3 4 4 4) dd" and r: "real_particles dd = []"
    by (rule constructed_roomy [OF dd [unfolded dd_example_def]]; simp add: vall_def)+
  from loaded_more [OF this(1), of x] r show ?thesis by (simp add: roomy_def)
qed

lemma stray_foldable: "foldable box4 stray"
  unfolding foldable_def all_less_3 box4(2) stray_def
  by (simp add: Let_def fits_int_def INT_MIN_def INT_MAX_def floor_eq_iff floor_unique)

theorem decompose_conserves_witness:
  "\<exists>dd dd'. dd_example = Some (Inr dd)
    \<and> decomposeRealParticles (\<lambda>_ b. Some b) (\<lambda>_ b. Some b) (foldCoordinate box4) stray [loaded dd stray] = Some [dd']
    \<and> map (whole box4) (real_particles dd') = [whole box4 stray]"
proof -
  obtain dd where dd: "dd_example = Some (Inr dd)" using dd_example_ok by blast
  note e = loaded_example [OF dd, of stray]
  obtain dd' where r: "decomposeRealParticles (\<lambda>_ b. Some b) (\<lambda>_ b. Some b) (foldCoordinate box4) stray
      [loaded dd stray] = Some [dd']"
    using single_run [OF box4(1) conjunct1 [OF e]] e stray_foldable by fastforce
  from decompose_conserves [OF unconnected.slots_axioms box4(1) conjunct1 [OF e] r]
  have "mset (map (whole box4) (real_particles dd')) = {#whole box4 stray#}"
    using e by (simp add: world_particles_def)
  then have "map (whole box4) (real_particles dd') = [whole box4 stray]" by (simp del: mset_map)
  with dd r show ?thesis by (intro exI [of _ dd] exI [of _ dd'] conjI)
qed

text \<open>
  C2.  Where the redistribution leaves the particles.  When \<^verbatim>\<open>decomposeRealParticles\<close> returns, every particle of every
  process is in the cell that \<^verbatim>\<open>mapPositionToCellChecked\<close> names for its position on that process.  That cell is an
  inner one, and along every direction the position is between its walls, but for two tolerances that the look-up
  has: the first inner cell also takes what is less than one whole cell (or \<^verbatim>\<open>ROUND_ERROR_PREC\<close>) to the left of
  the process's domain, because the cast to \<^verbatim>\<open>int\<close> truncates towards zero, and the last one what is up to
  \<^verbatim>\<open>ROUND_ERROR_PREC\<close> to the right of it.  So no particle is a whole cell or more outside of the domain of its process,
  though this does not say that it is inside.
\<close>

theorem decompose_places:
  assumes "slots before after extra" and "bc_valid b" and "populated ngs L w"
    and "decomposeRealParticles before after (foldCoordinate b) dflt w = Some w'"
    and "dd \<in> set w'" and "c \<in> set (realCells (dd_st dd))" and "x \<in> set (cell_at dd c)"
  shows "mapPositionToCellChecked (dd_cell dd) (p_pos x) = Some (int c)
    \<and> (\<exists>p. c = cidx (dd_cell dd) p \<and> isInnerCell (dd_cell dd) (vx p) (vy p) (vz p)
        \<and> (\<forall>i<3. within_cell (dd_cell dd) i (vnth p i) (vnth (p_pos x) i)))"
proof -
  have ok: "dd_ok dd" using decompose_fit [OF assms(1-4)] assms(5) by (simp add: populated_def)
  moreover have "in_place dd c x" using decompose_placed [OF assms(1-4)] assms(5-7) by (auto simp: placed_def)
  ultimately have "mapPositionToCellChecked (dd_cell dd) (p_pos x) = Some (int c)"
    using checked_index by (simp add: in_place_def)
  then show ?thesis using checked_within [OF dd_okD(1) [OF ok]] by blast
qed

theorem decompose_places_witness:
  "\<exists>dd dd'. dd_example = Some (Inr dd)
    \<and> decomposeRealParticles (\<lambda>_ b. Some b) (\<lambda>_ b. Some b) (foldCoordinate box4) stray [loaded dd stray] = Some [dd']
    \<and> real_particles dd' \<noteq> []
    \<and> (\<forall>c\<in>set (realCells (dd_st dd')). \<forall>x\<in>set (cell_at dd' c).
         mapPositionToCellChecked (dd_cell dd') (p_pos x) = Some (int c)
         \<and> (\<exists>p. c = cidx (dd_cell dd') p \<and> (\<forall>i<3. within_cell (dd_cell dd') i (vnth p i) (vnth (p_pos x) i))))"
proof -
  obtain dd where dd: "dd_example = Some (Inr dd)" using dd_example_ok by blast
  note e = loaded_example [OF dd, of stray]
  obtain dd' where r: "decomposeRealParticles (\<lambda>_ b. Some b) (\<lambda>_ b. Some b) (foldCoordinate box4) stray
      [loaded dd stray] = Some [dd']"
    using single_run [OF box4(1) conjunct1 [OF e]] e stray_foldable by fastforce
  have "mset (map (whole box4) (real_particles dd')) = {#whole box4 stray#}"
    using decompose_fit [OF unconnected.slots_axioms box4(1) conjunct1 [OF e] r] e by (simp add: world_particles_def)
  then have "real_particles dd' \<noteq> []" by auto
  moreover note decompose_places [OF unconnected.slots_axioms box4(1) conjunct1 [OF e] r]
  then have "\<forall>c\<in>set (realCells (dd_st dd')). \<forall>x\<in>set (cell_at dd' c).
         mapPositionToCellChecked (dd_cell dd') (p_pos x) = Some (int c)
         \<and> (\<exists>p. c = cidx (dd_cell dd') p \<and> (\<forall>i<3. within_cell (dd_cell dd') i (vnth p i) (vnth (p_pos x) i)))"
    by fastforce
  ultimately show ?thesis using dd r by (intro exI [of _ dd] exI [of _ dd'] conjI)
qed

text \<open>
  C3.  With a single process the redistribution always returns: if no image counter overflows
  while a particle is folded, \<^verbatim>\<open>decomposeRealParticles\<close> ends after its rounds with every particle
  folded into the box, with the same unfolded position as before.  The loops over the shrinking
  and growing cells end, and the round is not repeated for ever.
\<close>

theorem single_process_decompose:
  assumes "bc_valid b" and "populated (V3 1 1 1) L [dd]" and "spans b dd"
    and "\<forall>x\<in>set (real_particles dd). foldable b x"
  shows "\<exists>dd'. decomposeRealParticles (\<lambda>_ b. Some b) (\<lambda>_ b. Some b) (foldCoordinate b) dflt [dd] = Some [dd']
    \<and> (\<forall>x\<in>set (real_particles dd'). \<forall>i<3. 0 \<le> vnth (p_pos x) i \<and> vnth (p_pos x) i < vnth (boxL b) i)
    \<and> mset (map (whole b) (real_particles dd')) = mset (map (whole b) (real_particles dd))"
proof -
  obtain dd' where r: "decomposeRealParticles (\<lambda>_ b. Some b) (\<lambda>_ b. Some b) (foldCoordinate b) dflt [dd] = Some [dd']"
      "\<forall>x\<in>set (real_particles dd'). \<forall>i<3. boxed b i x"
    using single_run [OF assms] by blast
  have "image_mset (whole b) (mset (world_particles [dd'])) = image_mset (whole b) (mset (world_particles [dd]))"
    using decompose_fit [OF unconnected.slots_axioms assms(1,2) r(1)] by blast
  with r show ?thesis by (auto simp: world_particles_def boxed_def)
qed

theorem single_process_decompose_witness:
  "\<exists>dd dd'. dd_example = Some (Inr dd)
    \<and> decomposeRealParticles (\<lambda>_ b. Some b) (\<lambda>_ b. Some b) (foldCoordinate box4) stray [loaded dd stray] = Some [dd']
    \<and> (\<forall>x\<in>set (real_particles dd'). \<forall>i<3. 0 \<le> vnth (p_pos x) i \<and> vnth (p_pos x) i < vnth (boxL box4) i)"
proof -
  obtain dd where dd: "dd_example = Some (Inr dd)" using dd_example_ok by blast
  note e = loaded_example [OF dd, of stray]
  have "\<forall>x\<in>set (real_particles (loaded dd stray)). foldable box4 x" using e stray_foldable by simp
  then show ?thesis
    using single_process_decompose [OF box4(1) conjunct1 [OF e] conjunct1 [OF conjunct2 [OF e]], of stray] dd by blast
qed

end
