(* ===== verification/GhostImages.thy ===== *)
theory GhostImages
  imports GhostSafe DecompSingle
begin

text \<open>
  What the ghosts hold after the ghost communication of a single process
  (\<^verbatim>\<open>doGhostCommunication\<close> of \<^verbatim>\<open>src/src/storage/DomainDecomposition.cpp\<close>, the branch that copies
  the cells locally): every ghost cell is the periodic image of a real cell.
\<close>

section \<open>What travels with a particle\<close>

definition travels :: "int \<Rightarrow> particle \<Rightarrow> pposition \<times> pproperties option \<times> pmomentum option \<times> int3d option" where
  "travels ex x = (part_r x, if has_flag ex DATA_PROPERTIES then Some (part_p x) else None,
     if has_flag ex DATA_MOMENTUM then Some (part_m x) else None, if has_flag ex DATA_LOCAL then Some (p_image x) else None)"

definition shifted :: "real3d \<Rightarrow> pposition \<times> 'a \<Rightarrow> pposition \<times> 'a" where
  "shifted s t = (copyShifted (fst t) s, snd t)"

lemma shifted_shifted [simp]: "shifted b (shifted a t) = shifted (a + b) t"
  by (simp add: shifted_def copyShifted_def add.assoc)

lemma shifted_0 [simp]: "shifted (V3 0 0 0) t = t"
  by (cases t) (simp add: shifted_def copyShifted_def plus_vec3_def vmap2_def)

lemma travels_copy [simp]: "travels ex (copyAsGhost dst src ex sh) = shifted sh (travels ex src)"
  by (simp add: travels_def shifted_def copyAsGhost_def set_ghost_def Let_def)

lemma copy_ghost [simp]: "p_ghost (copyAsGhost dst src ex sh)"
  by (simp add: copyAsGhost_def set_ghost_def Let_def)

text \<open>One copy, and a direction: the filled cells are none of the copied ones.\<close>

lemma copyReals_spec:
  assumes st': "st' = copyRealsToGhosts dflt st r g ex sh"
  shows "map (travels ex) (particles_of st' (CellV g)) = map (shifted sh \<circ> travels ex) (particles_of st (CellV r))"
    "\<forall>x\<in>set (particles_of st' (CellV g)). p_ghost x" "v \<noteq> CellV g \<Longrightarrow> particles_of st' v = particles_of st v"
  by (auto simp: st' copyRealsToGhosts_def Let_def particles_of_def set_vec_def pv_resize_def
      in_set_conv_nth intro!: nth_equalityI)

lemma copy_cells_spec:
  assumes "distinct (map snd ps)" and "fst ` set ps \<inter> snd ` set ps = {}"
  shows "(\<forall>(r, g)\<in>set ps.
        map (travels ex) (particles_of (copy_cells dflt ex sh ps st) (CellV g))
          = map (shifted sh \<circ> travels ex) (particles_of st (CellV r))
        \<and> (\<forall>x\<in>set (particles_of (copy_cells dflt ex sh ps st) (CellV g)). p_ghost x))
    \<and> (\<forall>v. v \<notin> CellV ` snd ` set ps \<longrightarrow> particles_of (copy_cells dflt ex sh ps st) v = particles_of st v)"
  using assms
proof (induction ps arbitrary: st)
  case (Cons p ps)
  obtain r g where p: "p = (r, g)" by (cases p)
  let ?s = "copyRealsToGhosts dflt st r g ex sh"
  note c = copyReals_spec [of ?s dflt st r g ex sh, OF refl]
  have d: "distinct (map snd ps)" "fst ` set ps \<inter> snd ` set ps = {}" "g \<notin> snd ` set ps" "g \<notin> fst ` set ps"
    using Cons.prems by (auto simp: p)
  have o: "particles_of ?s (CellV r') = particles_of st (CellV r')" if "(r', g') \<in> set ps" for r' g'
    using that d(4) by (intro c(3)) (auto simp: image_iff)
  let ?e = "copy_cells dflt ex sh ps ?s"
  note IH = Cons.IH [OF d(1,2), of ?s]
  have g: "particles_of ?e (CellV g) = particles_of ?s (CellV g)"
  proof -
    have "CellV g \<notin> CellV ` snd ` set ps" using d(3) by blast
    then show ?thesis using IH by blast
  qed
  have "map (travels ex) (particles_of ?e (CellV g')) = map (shifted sh \<circ> travels ex) (particles_of st (CellV r'))
      \<and> (\<forall>x\<in>set (particles_of ?e (CellV g')). p_ghost x)" if "(r', g') \<in> set (p # ps)" for r' g'
  proof (cases "(r', g') \<in> set ps")
    case True
    then show ?thesis using bspec [OF conjunct1 [OF IH] True] o [OF True] by simp
  next
    case False
    then have "r' = r" "g' = g" using that by (simp_all add: p)
    then show ?thesis using c(1,2) by (simp add: g)
  qed
  moreover have "particles_of ?e v = particles_of st v" if "v \<notin> CellV ` snd ` set (p # ps)" for v
    using that IH c(3) [of v] by (simp add: p)
  ultimately show ?case by (simp only: p copy_cells.simps) blast
qed simp

section \<open>Whose image a ghost cell is\<close>

definition home_coord :: "cellgrid \<Rightarrow> int3d \<Rightarrow> nat \<Rightarrow> int" where
  "home_coord cg p j = (if vnth p j = 0 then getFrameGridSize cg j - 2
     else if vnth p j = getFrameGridSize cg j - 1 then 1 else vnth p j)"

definition home_cell :: "cellgrid \<Rightarrow> int3d \<Rightarrow> int3d" where
  "home_cell cg p = V3 (home_coord cg p 0) (home_coord cg p 1) (home_coord cg p 2)"

definition image_count :: "cellgrid \<Rightarrow> int3d \<Rightarrow> nat \<Rightarrow> int" where
  "image_count cg p j = (if vnth p j = 0 then - 1 else if vnth p j = getFrameGridSize cg j - 1 then 1 else 0)"

definition image_shift :: "real3d \<Rightarrow> cellgrid \<Rightarrow> int3d \<Rightarrow> real3d" where
  "image_shift L cg p = V3 (of_int (image_count cg p 0) * vx L) (of_int (image_count cg p 1) * vy L)
     (of_int (image_count cg p 2) * vz L)"

abbreviation inner_at :: "cellgrid \<Rightarrow> int3d \<Rightarrow> bool" where
  "inner_at cg p \<equiv> in_box (inner_lo cg) (inner_hi cg) p"

definition dir_shift :: "real3d \<Rightarrow> nat \<Rightarrow> real3d" where
  "dir_shift L dir = vupd (V3 0 0 0) (dir div 2) ((if dir mod 2 = 0 then 1 else - 1) * vnth L (dir div 2))"

lemma home_inner:
  assumes "dd_wf cg" "inner_at cg p"
  shows "home_cell cg p = p" "image_shift L cg p = V3 0 0 0"
  using assms(2) unfolding in_box_def inner_lo_def inner_hi_def dd_wf_sizes(1,2) [OF assms(1)]
  by (simp_all add: home_cell_def home_coord_def image_shift_def image_count_def vec_eq_iff)

lemma less_6_cases: "k < 6 \<longleftrightarrow> k = 0 \<or> k = 1 \<or> k = 2 \<or> k = 3 \<or> k = 4 \<or> k = (5 :: nat)"
  by auto

lemma home_step:
  assumes wf: "dd_wf cg" and n: "n < 6" and q: "in_box (fst (reals_box cg n)) (snd (reals_box cg n)) q"
  shows "home_cell cg (q + ghost_shift cg n) = home_cell cg q"
    "image_shift L cg (q + ghost_shift cg n) = image_shift L cg q + dir_shift L n"
proof -
  note F = dd_wf_sizes(4) [OF wf, of 0] dd_wf_sizes(4) [OF wf, of 1] dd_wf_sizes(4) [OF wf, of 2]
  show "home_cell cg (q + ghost_shift cg n) = home_cell cg q"
    "image_shift L cg (q + ghost_shift cg n) = image_shift L cg q + dir_shift L n"
    using n q F unfolding less_6_cases reals_box_def Let_def in_span_box all_less_3
    by (elim disjE; simp add: span_def ghost_shift_def Let_def home_cell_def home_coord_def image_shift_def
        image_count_def dir_shift_def vec_eq_iff dd_wf_sizes(1,2) [OF wf])+
qed

section \<open>The six directions\<close>

definition filled_at :: "int \<Rightarrow> real3d \<Rightarrow> domdec \<Rightarrow> domdec \<Rightarrow> int3d \<Rightarrow> bool" where
  "filled_at ex L dd0 dd p \<longleftrightarrow>
     (let cg = dd_cell dd0; xs = cell_at dd (cidx cg p) in
      map (travels ex) xs = map (shifted (image_shift L cg p) \<circ> travels ex) (cell_at dd0 (cidx cg (home_cell cg p)))
      \<and> (if inner_at cg p then xs = cell_at dd0 (cidx cg p) else \<forall>x\<in>set xs. p_ghost x))"

definition filled :: "int \<Rightarrow> real3d \<Rightarrow> nat \<Rightarrow> domdec \<Rightarrow> domdec \<Rightarrow> bool" where
  "filled ex L n dd0 dd \<longleftrightarrow> static_eq dd0 dd
     \<and> (\<forall>p. inner_at (dd_cell dd0) p \<or> (\<exists>d<n. ghost_at (dd_cell dd0) d p) \<longrightarrow> filled_at ex L dd0 dd p)"

lemma filled_0: "dd_ok dd \<Longrightarrow> filled ex L 0 dd dd"
  using home_inner [OF dd_okD(1)] by (simp add: filled_def filled_at_def Let_def comp_def)

definition local_copy :: "particle \<Rightarrow> int \<Rightarrow> real3d \<Rightarrow> nat \<Rightarrow> domdec \<Rightarrow> domdec" where
  "local_copy dflt ex sh n dd =
     dd\<lparr>dd_st := copy_cells dflt ex sh (zip (commReals dd n) (commGhosts dd n)) (dd_st dd)\<rparr>"

lemma copy_data_only: "data_only st (copy_cells dflt ex sh ps st)"
  using copy_cells_only [of ps "snd ` set ps" st dflt ex sh] by (simp add: cells_only_def)

lemma filled_step:
  assumes ok: "dd_ok dd0" and f: "filled ex L n dd0 dd" and n: "n < 6"
  shows "filled ex L (Suc n) dd0 (local_copy dflt ex (dir_shift L n) n dd)"
proof -
  let ?cg = "dd_cell dd0" and ?dd = "local_copy dflt ex (dir_shift L n) n dd"
  define ps where "ps = fill_loop (fst (reals_box ?cg n)) (snd (reals_box ?cg n))"
  define t where "t = ghost_shift ?cg n"
  note okD = dd_okD [OF ok]
  note wf = okD(1)
  have st: "static_eq dd0 dd" using f by (simp add: filled_def)
  have s: "static_eq dd0 ?dd"
    by (rule static_eq_trans [OF st]) (simp add: static_eq_def local_copy_def copy_data_only)
  have z: "zip (commReals dd n) (commGhosts dd n) = map (\<lambda>p. (cidx ?cg p, cidx ?cg (p + t))) ps"
    using okD(7,8) [OF n] ghosts_box_cells [OF n, of ?cg] static_eq_sel(4,5) [OF st]
    by (simp add: box_cells_def ps_def t_def zip_map_map map_prod_def zip_same_conv_map)
  have gp: "set (fill_loop (fst (ghosts_box ?cg n)) (snd (ghosts_box ?cg n))) = (\<lambda>p. p + t) ` set ps"
    unfolding ghosts_box_shift [OF n] fill_loop_shift ps_def t_def by simp
  then have ghost: "ghost_at ?cg n p \<longleftrightarrow> (\<exists>q\<in>set ps. p = q + t)" for p by auto
  have grid: "in_grid ?cg q" "in_grid ?cg (q + t)" "\<not> ghost_at ?cg n q" if "q \<in> set ps" for q
  proof -
    have b: "in_box (fst (reals_box ?cg n)) (snd (reals_box ?cg n)) q" using that by (simp add: ps_def)
    show "in_grid ?cg q" by (rule reals_box_in_grid [OF wf n b])
    show "in_grid ?cg (q + t)" using ghost_at_iff [OF wf] ghost that n by blast
    show "\<not> ghost_at ?cg n q"
      using reals_box_inner [OF wf n b, of "n div 2"] ghost_at_border [OF n, of ?cg q] n by fastforce
  qed
  have "distinct (map (\<lambda>p. cidx ?cg (p + t)) ps)"
    unfolding distinct_map using grid(2) by (auto simp: ps_def cidx_inj intro!: inj_onI)
  moreover have "cidx ?cg ` set ps \<inter> (\<lambda>p. cidx ?cg (p + t)) ` set ps = {}"
  proof -
    have "cidx ?cg p \<noteq> cidx ?cg (q + t)" if "p \<in> set ps" "q \<in> set ps" for p q
      using that grid ghost cidx_inj by metis
    then show ?thesis by auto
  qed
  ultimately have c: "\<And>q. q \<in> set ps \<Longrightarrow> map (travels ex) (cell_at ?dd (cidx ?cg (q + t)))
        = map (shifted (dir_shift L n) \<circ> travels ex) (cell_at dd (cidx ?cg q))
        \<and> (\<forall>x\<in>set (cell_at ?dd (cidx ?cg (q + t))). p_ghost x)"
      "\<And>v. v \<notin> (\<lambda>q. CellV (cidx ?cg (q + t))) ` set ps \<Longrightarrow> particles_of (dd_st ?dd) v = particles_of (dd_st dd) v"
    using copy_cells_spec [of "map (\<lambda>p. (cidx ?cg p, cidx ?cg (p + t))) ps" ex dflt "dir_shift L n" "dd_st dd"]
    by (auto simp: local_copy_def z comp_def image_image)
  have "filled_at ex L dd0 ?dd p" if p: "inner_at ?cg p \<or> (\<exists>d<Suc n. ghost_at ?cg d p)" for p
  proof (cases "ghost_at ?cg n p")
    case True
    then obtain q where q: "q \<in> set ps" "p = q + t" using ghost by blast
    have b: "in_box (fst (reals_box ?cg n)) (snd (reals_box ?cg n)) q" using q by (simp add: ps_def)
    have "inner_at ?cg q \<or> (\<exists>d<n. ghost_at ?cg d q)" using reals_ready [OF wf n b] by fastforce
    then have "filled_at ex L dd0 dd q" using f unfolding filled_def by blast
    then have "map (shifted (dir_shift L n)) (map (travels ex) (cell_at dd (cidx ?cg q)))
        = map (shifted (image_shift L ?cg q + dir_shift L n) \<circ> travels ex) (cell_at dd0 (cidx ?cg (home_cell ?cg q)))"
      by (simp add: filled_at_def Let_def comp_def)
    moreover have "\<not> inner_at ?cg p" using True ghost_at_iff [OF wf] n by blast
    ultimately show ?thesis
      using c(1) [OF q(1)] home_step [OF wf n b] by (simp add: filled_at_def Let_def q(2) t_def comp_def)
  next
    case False
    have d: "inner_at ?cg p \<or> (\<exists>d<n. ghost_at ?cg d p)" using p False less_Suc_eq by auto
    then have "in_grid ?cg p" using inner_in_grid [OF wf] ghost_at_iff [OF wf] n by (meson less_trans)
    then have "cidx ?cg p \<noteq> cidx ?cg (q + t)" if "q \<in> set ps" for q
      using grid(2) [OF that] ghost False that cidx_inj by metis
    then have "CellV (cidx ?cg p) \<notin> (\<lambda>q. CellV (cidx ?cg (q + t))) ` set ps" by auto
    from c(2) [OF this] have "cell_at ?dd (cidx ?cg p) = cell_at dd (cidx ?cg p)" .
    moreover have "filled_at ex L dd0 dd p" using f d unfolding filled_def by blast
    ultimately show ?thesis by (simp add: filled_at_def Let_def)
  qed
  then show ?thesis using s by (simp add: filled_def)
qed

section \<open>A single process\<close>

lemma single_boundary:
  assumes "NodeGrid_new (V3 1 1 1) 0 L = Inr g" "n < 6"
  shows "getBoundary g n = (if n mod 2 = 0 then 1 else - 1)"
  using assms(2) unfolding less_6_cases
  by (elim disjE) (use assms(1) in \<open>auto simp: NodeGrid_new_def Let_def calcNodeNeighbors_def getBoundary_def
      mapIndexToPosition_def c_div_def c_mod_def getGridSize_def ToLeft_def ToRight_def\<close>)

lemma ghost_dir_single:
  assumes "\<not> multi c dd" and "length (commGhosts dd (2 * c + lr)) = length (commReals dd (2 * c + lr))"
  shows "ghost_dir dflt L sizesFirst True ex c lr [dd]
    = Some (Inr [local_copy dflt ex (ghost_shift_vec L c (2 * c + lr) dd) (2 * c + lr) dd])"
  using assms by (simp add: ghost_dir_def par_def recv_sizes_def local_dir_def Let_def local_copy_def)

lemma single_shift:
  assumes "NodeGrid_new (V3 1 1 1) 0 L = Inr (dd_node dd)" "c < 3" "lr < 2"
  shows "ghost_shift_vec L c (2 * c + lr) dd = dir_shift L (2 * c + lr)"
proof -
  have "2 * c + lr < 6" "(2 * c + lr) div 2 = c" using assms(2,3) by auto
  then show ?thesis using single_boundary [OF assms(1)] by (simp add: ghost_shift_vec_def dir_shift_def)
qed

lemma filled_dir:
  assumes ok: "dd_ok dd0" and node: "NodeGrid_new (V3 1 1 1) 0 L = Inr (dd_node dd0)"
    and f: "filled ex L (2 * c + lr) dd0 dd" and c: "c < 3" "lr < 2"
  shows "\<exists>dd'. ghost_dir dflt L sizesFirst True ex c lr [dd] = Some (Inr [dd']) \<and> filled ex L (Suc (2 * c + lr)) dd0 dd'"
proof -
  have n: "2 * c + lr < 6" using c by simp
  have s: "static_eq dd0 dd" using f by (simp add: filled_def)
  note sel = static_eq_sel [OF s]
  have nd: "NodeGrid_new (V3 1 1 1) 0 L = Inr (dd_node dd)" using node sel(2) by simp
  have "\<not> multi c dd"
    using NodeGrid_new_sel(1) [OF nd] c(1) by (auto simp: multi_def getGridSize_def less_3_cases)
  moreover have "length (commGhosts dd (2 * c + lr)) = length (commReals dd (2 * c + lr))"
    using dd_okD(7,8) [OF ok n] ghosts_box_cells [OF n, of "dd_cell dd0"] sel(4,5) by (simp add: box_cells_def)
  ultimately show ?thesis
    using ghost_dir_single filled_step [OF ok f n] single_shift [OF nd c] by metis
qed

lemma single_communication:
  assumes ok: "dd_ok dd" and node: "NodeGrid_new (V3 1 1 1) 0 L = Inr (dd_node dd)"
  shows "\<exists>dd'. doGhostCommunication dflt L sizesFirst True ex [dd] = Some (Inr [dd']) \<and> filled ex L 6 dd dd'"
proof -
  note step = filled_dir [OF ok node, where ?dflt = dflt and ?sizesFirst = sizesFirst]
  obtain d1 where d1: "ghost_dir dflt L sizesFirst True ex 0 0 [dd] = Some (Inr [d1])" "filled ex L 1 dd d1"
    using step [of ex 0 0] filled_0 [OF ok, of ex L] by auto
  obtain d2 where d2: "ghost_dir dflt L sizesFirst True ex 0 1 [d1] = Some (Inr [d2])" "filled ex L 2 dd d2"
    using step [of ex 0 1] d1(2) by (auto simp: numeral_2_eq_2)
  obtain d3 where d3: "ghost_dir dflt L sizesFirst True ex 1 0 [d2] = Some (Inr [d3])" "filled ex L 3 dd d3"
    using step [of ex 1 0] d2(2) by auto
  obtain d4 where d4: "ghost_dir dflt L sizesFirst True ex 1 1 [d3] = Some (Inr [d4])" "filled ex L 4 dd d4"
    using step [of ex 1 1] d3(2) by auto
  obtain d5 where d5: "ghost_dir dflt L sizesFirst True ex 2 0 [d4] = Some (Inr [d5])" "filled ex L 5 dd d5"
    using step [of ex 2 0] d4(2) by auto
  obtain d6 where d6: "ghost_dir dflt L sizesFirst True ex 2 1 [d5] = Some (Inr [d6])" "filled ex L 6 dd d6"
    using step [of ex 2 1] d5(2) by auto
  show ?thesis
    using d1(1) d2(1) d3(1) d4(1) d5(1) d6 by (simp add: doGhostCommunication_def Let_def)
qed

lemma home_is_inner:
  assumes wf: "dd_wf cg" and p: "in_grid cg p"
  shows "inner_at cg (home_cell cg p)"
  using p dd_wf_sizes(4) [OF wf, of 0] dd_wf_sizes(4) [OF wf, of 1] dd_wf_sizes(4) [OF wf, of 2]
  unfolding in_grid_frame in_box_def inner_lo_def inner_hi_def frame_hi_def dd_wf_sizes(1,2) [OF wf]
  by (simp add: home_cell_def home_coord_def)

section \<open>Properties\<close>

text \<open>
  C6.  With a single process the communication to the ghosts always returns and fills the frame with
  the periodic images: for every cell of the grid, what travels with its particles (the position,
  and what the mask asks for) is, particle by particle, that of the real cell it is the image of,
  the position shifted by a box length along every coordinate it crosses, at the edges and corners
  along two or three; the particles of ghost cells carry the ghost flag, real cells are untouched.
\<close>

theorem single_process_ghosts:
  assumes "dd_ok dd" and "NodeGrid_new (V3 1 1 1) 0 L = Inr (dd_node dd)"
  shows "\<exists>dd'. doGhostCommunication dflt L sizesFirst True ex [dd] = Some (Inr [dd'])
    \<and> (\<forall>p. in_grid (dd_cell dd) p \<longrightarrow>
         map (travels ex) (cell_at dd' (cidx (dd_cell dd) p))
           = map (shifted (image_shift L (dd_cell dd) p) \<circ> travels ex) (cell_at dd (cidx (dd_cell dd) (home_cell (dd_cell dd) p)))
         \<and> isInnerCell (dd_cell dd) (vx (home_cell (dd_cell dd) p)) (vy (home_cell (dd_cell dd) p)) (vz (home_cell (dd_cell dd) p))
         \<and> (if isInnerCell (dd_cell dd) (vx p) (vy p) (vz p)
            then cell_at dd' (cidx (dd_cell dd) p) = cell_at dd (cidx (dd_cell dd) p)
            else \<forall>x\<in>set (cell_at dd' (cidx (dd_cell dd) p)). p_ghost x))"
proof -
  let ?cg = "dd_cell dd"
  note wf = dd_okD(1) [OF assms(1)]
  obtain dd' where d: "doGhostCommunication dflt L sizesFirst True ex [dd] = Some (Inr [dd'])" "filled ex L 6 dd dd'"
    using single_communication [OF assms] by blast
  have "filled_at ex L dd dd' p" if "in_grid ?cg p" for p
    using d(2) ghost_at_iff [OF wf] that unfolding filled_def by blast
  moreover have "inner_at ?cg (home_cell ?cg p)" if "in_grid ?cg p" for p
    using home_is_inner [OF wf that] .
  ultimately show ?thesis
    using d(1) unfolding inner_box filled_at_def Let_def by blast
qed

theorem single_process_ghosts_witness:
  "\<exists>dd dd'. dd_example = Some (Inr dd)
    \<and> exchangeGhosts stray (V3 4 4 4) [loaded dd stray] = Some (Inr [dd'])
    \<and> map (travels dataOfExchangeGhosts) (cell_at dd' (cidx (dd_cell dd) (V3 3 0 1)))
        = map (shifted (V3 4 (- 4) 0) \<circ> travels dataOfExchangeGhosts)
            (cell_at (loaded dd stray) (cidx (dd_cell dd) (V3 1 2 1)))"
proof -
  obtain dd where dd: "dd_example = Some (Inr dd)" using dd_example_ok by blast
  have "populated (V3 1 1 1) (V3 4 4 4) [loaded dd stray]" using loaded_example [OF dd, of stray] by blast
  then have ok: "dd_ok (loaded dd stray)" "NodeGrid_new (V3 1 1 1) 0 (V3 4 4 4) = Inr (dd_node (loaded dd stray))"
    by (simp_all add: populated_def grid_world_def)
  have L: "vall (\<lambda>x. 0 < x) (V3 4 4 4 :: real3d)" by (simp add: vall_def)
  have cg: "dd_cell (loaded dd stray) = dd_cell dd" by (simp add: loaded_def split: prod.split)
  have wf: "dd_wf (dd_cell dd)" using dd_okD(1) [OF ok(1)] by (simp add: cg)
  have F: "getFrameGridSize (dd_cell dd) 0 = 4" "getFrameGridSize (dd_cell dd) 1 = 4" "getFrameGridSize (dd_cell dd) 2 = 4"
    using DomainDecomposition_new_ok(5) [OF L dd [unfolded dd_example_def]] dd_wf_sizes(3) [OF wf] by (auto simp: all_less_3)
  let ?p = "V3 3 0 1 :: int3d"
  have p: "in_grid (dd_cell dd) ?p" "home_cell (dd_cell dd) ?p = V3 1 2 1"
    "image_shift (V3 4 4 4) (dd_cell dd) ?p = V3 4 (- 4) 0"
    using F by (simp_all add: in_grid_frame in_box_def frame_hi_def home_cell_def home_coord_def image_shift_def image_count_def)
  show ?thesis
    using single_process_ghosts [OF ok, of stray True dataOfExchangeGhosts] p dd unfolding exchangeGhosts_def cg by metis
qed

text \<open>
  C24.  The ghost communication never touches a real particle, on any number of processes: sending to
  the ghosts, with or without the sizes first, changes no cell but the ghost cells of each process,
  and collecting the forces changes nothing of any particle, real or ghost, but its force; neither
  changes the grids, the cells or the communication steps.
\<close>

theorem ghost_communication_frame:
  assumes "\<forall>dd\<in>set w. dd_ok dd"
  shows "(exchangeGhosts dflt L w = Some (Inr w') \<or> updateGhosts dflt L w = Some (Inr w')
        \<or> updateGhostsV dflt L w = Some (Inr w') \<longrightarrow> list_all2 off_ghosts w w')
    \<and> (collectGhostForces dflt L w = Some (Inr w') \<longrightarrow> list_all2 force_only w w')"
  unfolding exchangeGhosts_def updateGhosts_def updateGhostsV_def collectGhostForces_def
  using to_ghosts.communication_rel [OF _ assms] to_reals.communication_rel [OF _ assms] by blast

theorem ghost_communication_frame_witness:
  "\<exists>dd dd'. dd_example = Some (Inr dd) \<and> exchangeGhosts stray (V3 4 4 4) [loaded dd stray] = Some (Inr [dd'])
    \<and> off_ghosts (loaded dd stray) dd'"
proof -
  obtain dd where dd: "dd_example = Some (Inr dd)" using dd_example_ok by blast
  have "populated (V3 1 1 1) (V3 4 4 4) [loaded dd stray]" using loaded_example [OF dd, of stray] by blast
  then have ok: "dd_ok (loaded dd stray)" "NodeGrid_new (V3 1 1 1) 0 (V3 4 4 4) = Inr (dd_node (loaded dd stray))"
    by (simp_all add: populated_def grid_world_def)
  obtain dd' where e: "exchangeGhosts stray (V3 4 4 4) [loaded dd stray] = Some (Inr [dd'])"
    using single_communication [OF ok] unfolding exchangeGhosts_def by blast
  with ghost_communication_frame [of "[loaded dd stray]" stray "V3 4 4 4" "[dd']"] ok(1) dd show ?thesis
    by (intro exI [of _ dd] exI [of _ dd']) simp
qed

end
