(* ===== verification/IntegratorSafe.thy ===== *)
theory IntegratorSafe
  imports Integrator DecompFrame GhostImages VerletList
begin

text \<open>
  The properties of the integrator: the forces are never computed on particles that may have moved
  more than half the skin since the last decomposition of the run, which is recorded along with it, and the
  total momentum changes by the total force only.
\<close>

section \<open>Displacements\<close>

lemma sqrt3_triangle:
  "sqrt ((a + d)\<^sup>2 + (b + e)\<^sup>2 + (c + f)\<^sup>2) \<le> sqrt (a\<^sup>2 + b\<^sup>2 + c\<^sup>2) + sqrt (d\<^sup>2 + e\<^sup>2 + f\<^sup>2)"
proof -
  let ?p = "sqrt (a\<^sup>2 + b\<^sup>2)" and ?q = "sqrt (d\<^sup>2 + e\<^sup>2)"
  have "(a + d)\<^sup>2 + (b + e)\<^sup>2 \<le> (?p + ?q)\<^sup>2"
    using power_mono [OF real_sqrt_sum_squares_triangle_ineq [of a d b e], of 2] by simp
  then have "sqrt ((a + d)\<^sup>2 + (b + e)\<^sup>2 + (c + f)\<^sup>2) \<le> sqrt ((?p + ?q)\<^sup>2 + (c + f)\<^sup>2)" by simp
  also have "\<dots> \<le> sqrt (?p\<^sup>2 + c\<^sup>2) + sqrt (?q\<^sup>2 + f\<^sup>2)" by (rule real_sqrt_sum_squares_triangle_ineq)
  finally show ?thesis by simp
qed

lemma real3d_abs_triangle: "real3d_abs (v + w) \<le> real3d_abs v + real3d_abs w"
  using sqrt3_triangle [of "vx v" "vx w" "vy v" "vy w" "vz v" "vz w"]
  by (simp add: real3d_abs_def real3d_sqr_def power2_eq_square)

lemma real3d_abs_nonneg [simp]: "0 \<le> real3d_abs v"
  by (simp add: real3d_abs_def)

lemma real3d_abs_0 [simp]: "real3d_abs 0 = 0"
  by (simp add: real3d_abs_def real3d_sqr_def)

definition near_particle :: "real \<Rightarrow> particle \<Rightarrow> particle \<Rightarrow> bool" where
  "near_particle D x y \<longleftrightarrow> p_id y = p_id x \<and> real3d_abs (p_pos y - p_pos x) \<le> D"

definition near_dd :: "real \<Rightarrow> domdec \<Rightarrow> domdec \<Rightarrow> bool" where
  "near_dd D dd dd' \<longleftrightarrow> static_eq dd dd'
     \<and> (\<forall>c\<in>set (realCells (dd_st dd)). list_all2 (near_particle D) (cell_at dd c) (cell_at dd' c))"

text \<open>The same particles in the same real cells, none further than \<open>D\<close> from where it was.\<close>

definition near :: "real \<Rightarrow> world \<Rightarrow> world \<Rightarrow> bool" where
  "near D = list_all2 (near_dd D)"

lemma near_particle_trans: "near_particle a x y \<Longrightarrow> near_particle b y z \<Longrightarrow> near_particle (a + b) x z"
  using real3d_abs_triangle [of "p_pos y - p_pos x" "p_pos z - p_pos y"] by (simp add: near_particle_def)

lemma near_particle_refl [simp]: "near_particle 0 x x"
  by (simp add: near_particle_def)

lemma near_dd_trans:
  assumes "near_dd a dd1 dd2" "near_dd b dd2 dd3"
  shows "near_dd (a + b) dd1 dd3"
proof -
  have "list_all2 (near_particle (a + b)) (cell_at dd1 c) (cell_at dd3 c)" if c: "c \<in> set (realCells (dd_st dd1))" for c
  proof (rule list_all2_trans [OF near_particle_trans])
    show "list_all2 (near_particle a) (cell_at dd1 c) (cell_at dd2 c)" using assms(1) c by (simp add: near_dd_def)
    show "list_all2 (near_particle b) (cell_at dd2 c) (cell_at dd3 c)"
      using assms c static_eq_sel(7) [of dd1 dd2] by (simp add: near_dd_def)
  qed
  then show ?thesis using assms static_eq_trans unfolding near_dd_def by blast
qed

lemma near_trans: "near a u v \<Longrightarrow> near b v w \<Longrightarrow> near (a + b) u w"
  unfolding near_def by (rule list_all2_trans [OF near_dd_trans])

lemma near_refl [simp]: "near 0 w w"
  by (simp add: near_def near_dd_def list_all2_refl)

lemma near_0: "near D u v \<Longrightarrow> near 0 v w \<Longrightarrow> near D u w"
  using near_trans [of D u v 0 w] by simp

lemma near_dd_mono: "near_dd a u v \<Longrightarrow> a \<le> b \<Longrightarrow> near_dd b u v"
  unfolding near_dd_def by (auto simp: near_particle_def elim!: list_all2_mono)

lemma near_mono: "near a u v \<Longrightarrow> a \<le> b \<Longrightarrow> near b u v"
  unfolding near_def by (erule list_all2_mono) (rule near_dd_mono)

lemma near_frame: "near D u v \<Longrightarrow> frame_eq u v"
  unfolding near_def near_dd_def by (auto elim: list_all2_mono)

lemma near_ok: "near D u v \<Longrightarrow> frames_ok u \<Longrightarrow> frames_ok v"
  using near_frame frame_eq_ok by blast

section \<open>What the operations move\<close>

lemma set_cell_near:
  assumes "list_all2 (near_particle D) (cell_at dd c) xs" "0 \<le> D"
  shows "near_dd D dd (dd\<lparr>dd_st := set_cell (dd_st dd) c xs\<rparr>)"
proof -
  have "near_particle D x x" for x using assms(2) by (simp add: near_particle_def)
  moreover have "particles_of (set_cell (dd_st dd) c xs) v = (if v = CellV c then xs else particles_of (dd_st dd) v)" for v
    by (simp add: set_cell_def set_vec_def particles_of_def)
  moreover have "static_eq dd (dd\<lparr>dd_st := set_cell (dd_st dd) c xs\<rparr>)"
    by (simp add: static_eq_def data_only_def set_cell_def set_vec_def)
  ultimately show ?thesis using assms(1) by (auto simp: near_dd_def list_all2_refl)
qed

definition still :: "(particle \<Rightarrow> particle) \<Rightarrow> bool" where
  "still f \<longleftrightarrow> (\<forall>x. p_id (f x) = p_id x \<and> p_pos (f x) = p_pos x)"

lemma map_cells_near:
  assumes "still f"
  shows "near_dd 0 dd (dd\<lparr>dd_st := map_cells f cs (dd_st dd)\<rparr>)"
proof (induction cs arbitrary: dd)
  case Nil
  then show ?case by (simp add: map_cells_def near_dd_def list_all2_refl)
next
  case (Cons c cs)
  let ?d = "dd\<lparr>dd_st := set_cell (dd_st dd) c (map f (cell_at dd c))\<rparr>"
  have "near_dd 0 dd ?d"
    using assms by (intro set_cell_near) (simp_all add: list_all2_conv_all_nth near_particle_def still_def)
  moreover have "near_dd 0 ?d (?d\<lparr>dd_st := map_cells f cs (dd_st ?d)\<rparr>)" by (rule Cons.IH)
  ultimately have "near_dd (0 + 0) dd (?d\<lparr>dd_st := map_cells f cs (dd_st ?d)\<rparr>)" by (rule near_dd_trans)
  then show ?case by (simp add: map_cells_def)
qed

lemma still_ops [simp]: "still (kick dt)" "still zero_force"
  by (simp_all add: still_def kick_def zero_force_def Let_def)

lemma map_near: "(\<And>dd. near_dd D dd (f dd)) \<Longrightarrow> near D w (map f w)"
  by (simp add: near_def list_all2_conv_all_nth)

lemma init_forces_near: "near 0 w (map initForces_local w)"
  unfolding initForces_local_def by (intro map_near map_cells_near) simp

lemma par_near:
  assumes "par (\<lambda>_. f) w = Some w'" "\<And>dd dd'. f dd = Some dd' \<Longrightarrow> near_dd D dd dd'"
  shows "near D w w'"
  using assms by (auto simp: near_def par_Some list_all2_conv_all_nth)

lemma on_particles_Inr: "on_particles f s = Some (Inr t) \<longleftrightarrow> f (fst s) = Some (Inr (fst t)) \<and> snd t = snd s"
  by (cases t) (auto simp: on_particles_def rbind_Inr)

lemma integrate2_local_Some: "integrate2_local dt dd = Some dd' \<longleftrightarrow>
    massive (dd_st dd) \<and> dd' = dd\<lparr>dd_st := map_cells (kick dt) (realCells (dd_st dd)) (dd_st dd)\<rparr>"
  by (auto simp: integrate2_local_def)

lemma integrate2_near: "integrate2 dt s = Some (Inr t) \<Longrightarrow> near 0 (fst s) (fst t)"
  unfolding integrate2_def on_particles_Inr rlift_Inr integrate2_local_Some
  by (rule par_near, blast) (auto simp: integrate2_local_Some intro: map_cells_near)

text \<open>The first half moves no particle further than the maximum it returns.\<close>

definition moved :: "real \<Rightarrow> particle \<Rightarrow> particle \<Rightarrow> bool" where
  "moved m x y \<longleftrightarrow> p_id y = p_id x \<and> real3d_sqr (p_pos y - p_pos x) \<le> m"

definition half_velocity :: "real \<Rightarrow> particle \<Rightarrow> real3d" where
  "half_velocity dt x = pm_v (part_m x) + real3d_scale (pf_f (part_f x)) (0.5 * dt / pp_mass (part_p x))"

definition drifted :: "real \<Rightarrow> particle \<Rightarrow> particle" where
  "drifted dt x = x\<lparr>part_m := (part_m x)\<lparr>pm_v := half_velocity dt x\<rparr>,
     part_r := (part_r x)\<lparr>pr_p := pr_p (part_r x) + real3d_scale (half_velocity dt x) dt\<rparr>\<rparr>"

lemma kick_drift_Some: "kick_drift dt x = Some (y, d) \<longleftrightarrow>
    pp_mass (part_p x) \<noteq> 0 \<and> y = drifted dt x \<and> d = real3d_sqr (real3d_scale (half_velocity dt x) dt)"
  by (auto simp: kick_drift_def drifted_def half_velocity_def Let_def real3d_sqr_def real3d_dot_def)

lemma drifted_sel [simp]: "part_p (drifted dt x) = part_p x" "part_f (drifted dt x) = part_f x" "p_id (drifted dt x) = p_id x"
    "pm_v (part_m (drifted dt x)) = half_velocity dt x" "p_pos (drifted dt x) = p_pos x + real3d_scale (half_velocity dt x) dt"
  by (simp_all add: drifted_def)

lemma kick_drift_moved: "kick_drift dt x = Some (y, m) \<Longrightarrow> moved m x y"
  by (auto simp: kick_drift_Some moved_def)

lemma moved_mono: "moved m x y \<Longrightarrow> m \<le> m' \<Longrightarrow> moved m' x y"
  by (simp add: moved_def)

lemma moved_near: "moved m x y \<Longrightarrow> near_particle (sqrt m) x y"
  by (simp add: moved_def near_particle_def real3d_abs_def)

lemma integrate1_list_moved:
  "integrate1_list dt xs m = Some (ys, m') \<Longrightarrow> m \<le> m' \<and> list_all2 (moved m') xs ys"
proof (induction xs arbitrary: m ys)
  case (Cons x xs)
  obtain y d zs where e: "kick_drift dt x = Some (y, d)" "integrate1_list dt xs (max m d) = Some (zs, m')" "ys = y # zs"
    using Cons.prems by (auto simp: bind_Some_iff)
  from Cons.IH [OF e(2)] show ?case using kick_drift_moved [OF e(1)] moved_mono by (auto simp: e(3))
qed simp

lemma integrate1_cells_moved:
  assumes "integrate1_cells dt cs st m = Some (st', m')" "distinct cs"
  shows "m \<le> m' \<and> data_only st st'
    \<and> (\<forall>c\<in>set cs. list_all2 (moved m') (particles_of st (CellV c)) (particles_of st' (CellV c)))
    \<and> (\<forall>v. v \<notin> CellV ` set cs \<longrightarrow> particles_of st' v = particles_of st v)"
  using assms
proof (induction cs arbitrary: st m)
  case (Cons c cs)
  obtain xs d where x: "integrate1_list dt (particles_of st (CellV c)) m = Some (xs, d)"
      "integrate1_cells dt cs (set_cell st c xs) d = Some (st', m')"
    using Cons.prems(1) by (auto simp: bind_Some_iff)
  have p: "particles_of (set_cell st c xs) v = (if v = CellV c then xs else particles_of st v)" for v
    by (simp add: set_cell_def set_vec_def particles_of_def)
  have d: "data_only st (set_cell st c xs)" by (simp add: data_only_def set_cell_def set_vec_def)
  note l = integrate1_list_moved [OF x(1)]
  have IH: "d \<le> m' \<and> data_only (set_cell st c xs) st'
    \<and> (\<forall>b\<in>set cs. list_all2 (moved m') (particles_of (set_cell st c xs) (CellV b)) (particles_of st' (CellV b)))
    \<and> (\<forall>v. v \<notin> CellV ` set cs \<longrightarrow> particles_of st' v = particles_of (set_cell st c xs) v)"
    using Cons.IH [OF x(2)] Cons.prems(2) by simp
  have c: "c \<notin> set cs" using Cons.prems(2) by simp
  then have s: "particles_of st' (CellV c) = xs" using IH by (auto simp: p)
  have "list_all2 (moved m') (particles_of st (CellV c)) (particles_of st' (CellV c))"
    using l IH moved_mono unfolding s by (auto elim: list_all2_mono)
  moreover have "list_all2 (moved m') (particles_of st (CellV b)) (particles_of st' (CellV b))" if "b \<in> set cs" for b
  proof -
    have "CellV b \<noteq> CellV c" using that c by auto
    moreover have "list_all2 (moved m') (particles_of (set_cell st c xs) (CellV b)) (particles_of st' (CellV b))"
      using IH that by blast
    ultimately show ?thesis by (simp add: p)
  qed
  ultimately show ?case using IH l d data_only_trans p by auto
qed simp

lemma integrate1_local_near:
  assumes "dd_ok dd" "integrate1_local dt dd = Some (dd', m)"
  shows "near_dd (sqrt m) dd dd'"
proof -
  obtain st where st: "integrate1_cells dt (realCells (dd_st dd)) (dd_st dd) 0 = Some (st, m)" "dd' = dd\<lparr>dd_st := st\<rparr>"
    using assms(2) by (auto simp: integrate1_local_def bind_Some_iff)
  note i = integrate1_cells_moved [OF st(1) dd_okD(4) [OF assms(1)]]
  have "list_all2 (near_particle (sqrt m)) (cell_at dd c) (cell_at dd' c)" if "c \<in> set (realCells (dd_st dd))" for c
    using i that moved_near by (auto simp: st(2) elim!: list_all2_mono)
  then show ?thesis using i by (simp add: near_dd_def static_eq_def st(2))
qed

lemma all_reduce_max_ge: "m \<in> set ms \<Longrightarrow> m \<le> all_reduce_max ms"
proof (cases ms)
  case (Cons a as)
  then have "all_reduce_max ms = Max (set ms)" unfolding all_reduce_max_def Cons Max.set_eq_fold by simp
  then show "m \<in> set ms \<Longrightarrow> m \<le> all_reduce_max ms" by simp
qed simp

section \<open>Between two decompositions\<close>

text \<open>
  The signals and the interactions may change forces, velocities, the connected objects and whatever else, but move no
  particle; \<^verbatim>\<open>inIntP\<close> only raises the maxima.
\<close>

definition quiet_system :: "'y mdsystem \<Rightarrow> bool" where
  "quiet_system S \<longleftrightarrow> (\<forall>g s t. sys_signal S g s = Some (Inr t) \<longrightarrow> near 0 (fst s) (fst t))
     \<and> (\<forall>I\<in>set (sys_interactions S). \<forall>s t. I s = Some (Inr t) \<longrightarrow> near 0 (fst s) (fst t))
     \<and> (\<forall>s ms t ms'. sys_inIntP S s ms = Some (Inr (t, ms')) \<longrightarrow> near 0 (fst s) (fst t) \<and> list_all2 (\<le>) ms ms')"

lemma signal_near: "quiet_system S \<Longrightarrow> sys_signal S g s = Some (Inr t) \<Longrightarrow> near 0 (fst s) (fst t)"
  unfolding quiet_system_def by blast

lemma interaction_near: "quiet_system S \<Longrightarrow> I \<in> set (sys_interactions S) \<Longrightarrow> I s = Some (Inr t) \<Longrightarrow> near 0 (fst s) (fst t)"
  unfolding quiet_system_def by blast

lemma inIntP_near: "quiet_system S \<Longrightarrow> sys_inIntP S s ms = Some (Inr (t, ms')) \<Longrightarrow> near 0 (fst s) (fst t) \<and> list_all2 (\<le>) ms ms'"
  unfolding quiet_system_def by blast

lemma integrate1_near:
  assumes "quiet_system S" "frames_ok (fst s)" "integrate1 S dt s = Some (Inr (t, d))"
  shows "near d (fst s) (fst t)"
proof -
  obtain r ms where r: "par (\<lambda>_. integrate1_local dt) (fst s) = Some r"
    and h: "sys_inIntP S (map fst r, snd s) (map snd r) = Some (Inr (t, ms))" "d = sqrt (all_reduce_max ms)"
    using assms(3) by (auto simp: integrate1_def rbind_Inr rlift_Inr)
  have q: "near 0 (map fst r) (fst t)" "list_all2 (\<le>) (map snd r) ms"
    using inIntP_near [OF assms(1) h(1)] by simp_all
  have l: "length r = length (fst s)" and i: "i < length (fst s) \<Longrightarrow> integrate1_local dt (fst s ! i) = Some (r ! i)" for i
    using r by (simp_all add: par_Some)
  have "near_dd d (fst s ! i) (fst (r ! i))" if j: "i < length (fst s)" for i
  proof -
    have "near_dd (sqrt (snd (r ! i))) (fst s ! i) (fst (r ! i))"
      using integrate1_local_near [of "fst s ! i" dt "fst (r ! i)" "snd (r ! i)"] assms(2) i [OF j] j by simp
    moreover have "snd (r ! i) \<le> ms ! i" "ms ! i \<in> set ms"
      using q(2) j l by (auto simp: list_all2_conv_all_nth)
    then have "snd (r ! i) \<le> all_reduce_max ms" using all_reduce_max_ge by force
    then have "sqrt (snd (r ! i)) \<le> d" by (simp add: h(2))
    ultimately show ?thesis using near_dd_mono by blast
  qed
  then have "near d (fst s) (map fst r)" by (simp add: near_def list_all2_conv_all_nth l)
  then show ?thesis using q(1) near_0 by blast
qed

lemma off_ghosts_near: "dd_ok dd \<Longrightarrow> off_ghosts dd dd' \<Longrightarrow> near_dd 0 dd dd'"
proof -
  assume ok: "dd_ok dd" and o: "off_ghosts dd dd'"
  have "c \<notin> set (ghostCells (dd_st dd))" if c: "c \<in> set (realCells (dd_st dd))" for c
  proof
    assume g: "c \<in> set (ghostCells (dd_st dd))"
    have "count (mset (realCells (dd_st dd)) + mset (ghostCells (dd_st dd))) c \<le> 1"
      unfolding dd_okD(9) [OF ok] dd_okD(2) [OF ok]
      by (metis distinct_count_atmost_1 distinct_upt le_numeral_extra(4) zero_le)
    moreover have "1 \<le> count (mset (realCells (dd_st dd))) c" "1 \<le> count (mset (ghostCells (dd_st dd))) c"
      using c g by (simp_all add: Suc_le_eq)
    ultimately show False by simp
  qed
  then have "cell_at dd' c = cell_at dd c" if "c \<in> set (realCells (dd_st dd))" for c
    using o that unfolding off_ghosts_def by blast
  then show "near_dd 0 dd dd'" using o by (simp add: near_dd_def off_ghosts_def list_all2_refl)
qed

lemma force_only_near: "force_only dd dd' \<Longrightarrow> near_dd 0 dd dd'"
proof -
  assume f: "force_only dd dd'"
  have "list_all2 (near_particle 0) xs ys" if "map noforce ys = map noforce xs" for xs ys
  proof -
    have l: "length ys = length xs" using that map_eq_imp_length_eq by blast
    have "noforce (ys ! i) = noforce (xs ! i)" if "i < length xs" for i
      using \<open>map noforce ys = map noforce xs\<close> that l by (metis nth_map)
    then have "p_id (ys ! i) = p_id (xs ! i) \<and> p_pos (ys ! i) = p_pos (xs ! i)" if "i < length xs" for i
      using that unfolding noforce_def by (metis (no_types) particle.select_convs(1,2) particle.surjective particle.update_convs(5))
    then show ?thesis using l by (simp add: list_all2_conv_all_nth near_particle_def)
  qed
  with f show "near_dd 0 dd dd'" by (simp add: near_dd_def force_only_def)
qed

lemma forces_near:
  assumes "quiet_system S" "frames_ok (fst s)" "updateForces S s = Some (Inr t)"
  shows "near 0 (fst s) (fst t)"
proof -
  obtain a b c d where r: "on_particles (updateGhosts (sys_dflt S) (sys_boxL S)) s = Some (Inr a)"
      "sys_signal S AftInitF (map initForces_local (fst a), snd a) = Some (Inr b)"
      "rfold (\<lambda>addForces s. addForces s) (sys_interactions S) b = Some (Inr c)"
      "on_particles (collectGhostForces (sys_dflt S) (sys_boxL S)) c = Some (Inr d)" "sys_signal S AftCalcF d = Some (Inr t)"
    using assms(3) unfolding updateForces_def calcForces_def rbind_Inr by blast
  have "list_all2 off_ghosts (fst s) (fst a)"
    using to_ghosts.communication_rel [OF _ assms(2)] r(1) unfolding updateGhosts_def on_particles_Inr by blast
  then have wa: "near 0 (fst s) (fst a)"
    using assms(2) off_ghosts_near unfolding near_def by (auto simp: list_all2_conv_all_nth)
  have "near 0 (map initForces_local (fst a)) (fst b)" using signal_near [OF assms(1) r(2)] by simp
  with near_0 [OF wa init_forces_near] have "near 0 (fst s) (fst b)" by (rule near_0)
  moreover have "near 0 (fst b) (fst c)"
  proof -
    have "near 0 (fst u) (fst v)"
      if "rfold (\<lambda>addForces s. addForces s) Is u = Some (Inr v)" "set Is \<subseteq> set (sys_interactions S)" for Is u v
      using that
    proof (induction Is arbitrary: u)
      case (Cons I Is)
      obtain x where x: "I u = Some (Inr x)" "rfold (\<lambda>addForces s. addForces s) Is x = Some (Inr v)"
        using Cons.prems(1) by (auto simp: rbind_Inr)
      have "near 0 (fst u) (fst x)" using interaction_near [of S I u x] assms(1) x(1) Cons.prems(2) by simp
      then show ?case using near_0 Cons.IH [OF x(2)] Cons.prems(2) by simp
    qed simp
    with r(3) show ?thesis by blast
  qed
  ultimately have wc: "near 0 (fst s) (fst c)" by (rule near_0)
  have "list_all2 force_only (fst c) (fst d)"
    using to_reals.communication_rel [OF _ near_ok [OF wc assms(2)]] r(4)
    unfolding collectGhostForces_def on_particles_Inr by blast
  then have "near 0 (fst c) (fst d)" unfolding near_def by (auto elim: list_all2_mono intro: force_only_near)
  then show ?thesis using near_0 [OF near_0 [OF wc] signal_near [OF assms(1) r(5)]] by blast
qed

section \<open>Where the forces are computed\<close>

text \<open>
  The run with a record of the world that the last \<^verbatim>\<open>decompose\<close> has made: \<open>w0\<close> at first, and whenever the flag is
  set before \<open>vv_resort\<close>, the particles after it.  The places of a run that matter are the calls of
  \<^verbatim>\<open>updateForces\<close> and its end.
\<close>

definition last_resort :: "'y md_state \<Rightarrow> 'y md_state \<Rightarrow> world \<Rightarrow> world" where
  "last_resort before after w0 = (if resortFlag (fst before) then fst (snd after) else w0)"

datatype place = AtForces | AtEnd

inductive loop_at :: "'y mdsystem \<Rightarrow> nat \<Rightarrow> world \<times> 'y md_state \<Rightarrow> place \<Rightarrow> world \<times> 'y md_state \<Rightarrow> bool" for S where
  loop_end: "loop_at S 0 r AtEnd r"
| loop_here: "vv_shift S s = Some (Inr a) \<Longrightarrow> vv_resort S a = Some (Inr t)
    \<Longrightarrow> loop_at S (Suc n) (w0, s) AtForces (last_resort a t w0, t)"
| loop_later: "vv_shift S s = Some (Inr a) \<Longrightarrow> vv_resort S a = Some (Inr t) \<Longrightarrow> on_world (updateForces S) t = Some (Inr u)
    \<Longrightarrow> vv_finish S u = Some (Inr v) \<Longrightarrow> loop_at S n (last_resort a t w0, v) p r \<Longrightarrow> loop_at S (Suc n) (w0, s) p r"

inductive run_at :: "'y mdsystem \<Rightarrow> int \<Rightarrow> world \<times> 'y md_state \<Rightarrow> place \<Rightarrow> world \<times> 'y md_state \<Rightarrow> bool" for S where
  run_here: "on_world (sys_signal S RunInit) s = Some (Inr a) \<Longrightarrow> vv_resort S a = Some (Inr b)
    \<Longrightarrow> on_world (sys_signal S Recalc1) b = Some (Inr t) \<Longrightarrow> run_at S n (w0, s) AtForces (last_resort a b w0, t)"
| run_later: "on_world (sys_signal S RunInit) s = Some (Inr a) \<Longrightarrow> vv_resort S a = Some (Inr b)
    \<Longrightarrow> on_world (sys_signal S Recalc1) b = Some (Inr t) \<Longrightarrow> on_world (updateForces S) t = Some (Inr u)
    \<Longrightarrow> on_world (sys_signal S Recalc2) u = Some (Inr v) \<Longrightarrow> loop_at S (nat n) (last_resort a b w0, v) p r
    \<Longrightarrow> run_at S n (w0, s) p r"

text \<open>A run that returns gets to its end.\<close>

lemma loop_ends: "vv_steps S n s = Some (Inr t) \<Longrightarrow> \<exists>w1. loop_at S n (w0, s) AtEnd (w1, t)"
proof (induction n arbitrary: s w0)
  case 0
  then show ?case by (auto intro: loop_end)
next
  case (Suc n)
  obtain a b c d where "vv_shift S s = Some (Inr a)" "vv_resort S a = Some (Inr b)" "on_world (updateForces S) b = Some (Inr c)"
      "vv_finish S c = Some (Inr d)" "vv_steps S n d = Some (Inr t)"
    using Suc.prems by (auto simp: vv_step_def rbind_Inr)
  then show ?case using Suc.IH by (meson loop_later)
qed

lemma run_ends:
  assumes "vv_run S n s = Some (Inr t)"
  shows "\<exists>w1. run_at S n (w0, s) AtEnd (w1, t)"
proof -
  obtain a b c d e where "on_world (sys_signal S RunInit) s = Some (Inr a)" "vv_resort S a = Some (Inr b)"
      "on_world (sys_signal S Recalc1) b = Some (Inr c)" "on_world (updateForces S) c = Some (Inr d)"
      "on_world (sys_signal S Recalc2) d = Some (Inr e)" "vv_steps S (nat n) e = Some (Inr t)"
    using assms unfolding vv_run_def vv_start_def rbind_Inr by blast
  then show ?thesis using loop_ends by (meson run_later)
qed

text \<open>How far the particles are from that world.\<close>

definition within_skin :: "'y mdsystem \<Rightarrow> world \<Rightarrow> 'y md_state \<Rightarrow> bool" where
  "within_skin S w0 s \<longleftrightarrow> near (maxDist (fst s)) w0 (fst (snd s)) \<and> maxDist (fst s) \<le> sys_skin S / 2"

definition vv_inv :: "'y mdsystem \<Rightarrow> world \<times> 'y md_state \<Rightarrow> bool" where
  "vv_inv S r \<longleftrightarrow> (case r of (w0, s) \<Rightarrow> frames_ok (fst (snd s)) \<and> (resortFlag (fst s) \<or> within_skin S w0 s))"

definition at_forces :: "'y mdsystem \<Rightarrow> world \<times> 'y md_state \<Rightarrow> bool" where
  "at_forces S r \<longleftrightarrow> (case r of (w0, s) \<Rightarrow> frames_ok (fst (snd s)) \<and> within_skin S w0 s)"

lemma on_world_Inr: "on_world f s = Some (Inr t) \<longleftrightarrow> fst t = fst s \<and> f (snd s) = Some (Inr (snd t))"
  by (cases t) (auto simp: on_world_def rbind_Inr)

lemma at_forces_inv: "at_forces S r \<Longrightarrow> vv_inv S r"
  by (auto simp: at_forces_def vv_inv_def)

lemma at_forces_world: "at_forces S (w0, (v, s)) \<Longrightarrow> near 0 (fst s) (fst t) \<Longrightarrow> at_forces S (w0, (v, t))"
  using near_ok [of 0 "fst s" "fst t"] near_0 [of "maxDist v" w0 "fst s" "fst t"] by (simp add: at_forces_def within_skin_def)

lemma resort_safe:
  assumes "vv_inv S (w0, s)" "0 \<le> sys_skin S" "vv_resort S s = Some (Inr t)"
  shows "at_forces S (last_resort s t w0, t)"
proof (cases "resortFlag (fst s)")
  case True
  then obtain u where u: "sys_decompose S (snd s) = Some (Inr u)" "t = ((fst s)\<lparr>maxDist := 0, resortFlag := False\<rparr>, u)"
    using assms(3) by (auto simp: vv_resort_def rbind_Inr split: prod.splits)
  have f: "frames_ok (fst (snd s))" using assms(1) by (simp add: vv_inv_def)
  have "sys_decompose S (fst (snd s), snd (snd s)) = Some (Inr u)" using u(1) by simp
  from dd_decompose_ok [OF this [unfolded sys_decompose_def] f] have "frames_ok (fst u)" .
  then show ?thesis using assms(2) True by (simp add: at_forces_def within_skin_def last_resort_def u(2))
next
  case False
  then have "t = s" using assms(3) by (auto simp: vv_resort_def split: prod.splits)
  then show ?thesis using assms(1) False by (simp add: vv_inv_def at_forces_def last_resort_def)
qed

lemma shift_safe:
  assumes q: "quiet_system S" and s: "at_forces S (w0, s)" and run: "vv_shift S s = Some (Inr t)"
  shows "vv_inv S (w0, t)"
proof -
  obtain v w where vw: "s = (v, w)" by (cases s)
  obtain a b d c where r: "sys_signal S BefIntP w = Some (Inr a)" "integrate1 S (md_dt v) a = Some (Inr (b, d))"
      "sys_signal S AftIntP b = Some (Inr c)"
    and t: "t = (if maxDist v + d > sys_skin S / 2 then v\<lparr>maxDist := maxDist v + d, resortFlag := True\<rparr>
        else v\<lparr>maxDist := maxDist v + d\<rparr>, c)"
    using run unfolding vv_shift_def vw by (auto simp: Let_def rbind_Inr split: if_splits)
  have f: "frames_ok (fst w)" using s by (simp add: at_forces_def vw)
  have wa: "near 0 (fst w) (fst a)" by (rule signal_near [OF q(1) r(1)])
  have ab: "near d (fst a) (fst b)" by (rule integrate1_near [OF q(1) near_ok [OF wa f] r(2)])
  have bc: "near 0 (fst b) (fst c)" by (rule signal_near [OF q(1) r(3)])
  have wc: "near d (fst w) (fst c)" using near_trans [OF wa near_0 [OF ab bc]] by simp
  have "near (maxDist v) w0 (fst w)" using s by (simp add: at_forces_def within_skin_def vw)
  from near_trans [OF this wc] show ?thesis
    using near_ok [OF wc f] by (simp add: vv_inv_def within_skin_def t)
qed

lemma world_safe:
  assumes "at_forces S (w0, s)" "on_world f s = Some (Inr t)" "f (snd s) = Some (Inr (snd t)) \<Longrightarrow> near 0 (fst (snd s)) (fst (snd t))"
  shows "at_forces S (w0, t)"
  using assms at_forces_world [of S w0 "fst s" "snd s" "snd t"] by (cases s; cases t) (auto simp: on_world_Inr)

lemma forces_safe: "quiet_system S \<Longrightarrow> at_forces S (w0, s) \<Longrightarrow> on_world (updateForces S) s = Some (Inr t) \<Longrightarrow> at_forces S (w0, t)"
  by (rule world_safe) (auto simp: at_forces_def intro: forces_near)

lemma signal_safe: "quiet_system S \<Longrightarrow> at_forces S (w0, s) \<Longrightarrow> on_world (sys_signal S g) s = Some (Inr t) \<Longrightarrow> at_forces S (w0, t)"
  by (rule world_safe) (auto intro: signal_near)

lemma finish_safe:
  assumes "quiet_system S" "at_forces S (w0, s)" "vv_finish S s = Some (Inr t)"
  shows "at_forces S (w0, t)"
proof -
  obtain v w where vw: "s = (v, w)" by (cases s)
  obtain a b c d where r: "sys_signal S BefIntV w = Some (Inr a)" "integrate2 (md_dt v) a = Some (Inr b)"
      "sys_signal S AftIntV b = Some (Inr c)" "sys_signal S AftIntV2 c = Some (Inr d)" "t = (v\<lparr>md_step := md_step v + 1\<rparr>, d)"
    using assms(3) unfolding vv_finish_def vw by (auto simp: Let_def rbind_Inr)
  note n = signal_near [OF assms(1)]
  have "near 0 (fst w) (fst d)"
    using near_0 [OF near_0 [OF near_0 [OF n [OF r(1)] integrate2_near [OF r(2)]] n [OF r(3)]] n [OF r(4)]] .
  from at_forces_world [OF _ this] assms(2) have "at_forces S (w0, (v, d))" by (simp add: vw)
  then show ?thesis by (simp add: r(5) at_forces_def within_skin_def)
qed

lemma loop_safe: "loop_at S n r p r' \<Longrightarrow> quiet_system S \<Longrightarrow> 0 \<le> sys_skin S \<Longrightarrow> at_forces S r \<Longrightarrow> at_forces S r'"
proof (induction rule: loop_at.induct)
  case (loop_here s a t n w0)
  then show ?case using resort_safe shift_safe by blast
next
  case (loop_later s a t u v n w0 p r)
  have "at_forces S (last_resort a t w0, t)" using loop_later resort_safe shift_safe by blast
  then have "at_forces S (last_resort a t w0, v)" using loop_later.hyps loop_later.prems(1) finish_safe forces_safe by blast
  then show ?case using loop_later by blast
qed

lemma run_safe:
  assumes q: "quiet_system S" "0 \<le> sys_skin S" and s: "vv_inv S r" and run: "run_at S n r p r'"
  shows "at_forces S r'"
proof -
  have start: "at_forces S (last_resort a b w0, t)"
    if "on_world (sys_signal S RunInit) s = Some (Inr a)" "vv_resort S a = Some (Inr b)"
      "on_world (sys_signal S Recalc1) b = Some (Inr t)" "vv_inv S (w0, s)" for w0 s a b t
  proof -
    have n: "near 0 (fst (snd s)) (fst (snd a))" and e: "fst a = fst s"
      using signal_near [OF q(1), of RunInit "snd s" "snd a"] that(1) by (simp_all add: on_world_Inr)
    have "vv_inv S (w0, a)"
      using that(4) near_ok [OF n] near_0 [OF _ n, of "maxDist (fst s)" w0] e by (auto simp: vv_inv_def within_skin_def)
    from signal_safe [OF q(1) resort_safe [OF this q(2) that(2)] that(3)] show ?thesis .
  qed
  from run s show ?thesis
  proof cases
    case (run_here s a b t w0)
    then show ?thesis using start s by blast
  next
    case (run_later s a b t u v w0)
    then have "at_forces S (last_resort a b w0, v)" using start s signal_safe [OF q(1)] forces_safe [OF q(1)] by blast
    then show ?thesis using loop_safe run_later q by blast
  qed
qed

section \<open>A step as mechanics\<close>

lemma integrate1_list_map: "integrate1_list dt xs m = Some (ys, m') \<Longrightarrow> ys = map (drifted dt) xs \<and> (\<forall>x\<in>set xs. pp_mass (part_p x) \<noteq> 0)"
  by (induction xs arbitrary: m ys) (auto simp: bind_Some_iff kick_drift_Some)

definition momentum :: "particle list \<Rightarrow> real3d" where
  "momentum xs = sum_list (map (\<lambda>x. real3d_scale (pm_v (part_m x)) (pp_mass (part_p x))) xs)"

definition total_force :: "particle list \<Rightarrow> real3d" where
  "total_force xs = sum_list (map (\<lambda>x. pf_f (part_f x)) xs)"

lemma scale_sel [simp]: "vx (real3d_scale v s) = vx v * s" "vy (real3d_scale v s) = vy v * s" "vz (real3d_scale v s) = vz v * s"
  by (simp_all add: real3d_scale_def)

lemma scale_add: "real3d_scale (v + w) s = real3d_scale v s + real3d_scale w s"
  by (simp add: vec_eq_iff algebra_simps)

lemma kick_momentum:
  assumes "\<And>x. x \<in> set xs \<Longrightarrow> pp_mass (part_p x) \<noteq> 0"
    and "\<And>x. part_p (f x) = part_p x \<and> pm_v (part_m (f x)) = pm_v (part_m x) + real3d_scale (pf_f (part_f x)) (0.5 * dt / pp_mass (part_p x))"
  shows "momentum (map f xs) = momentum xs + real3d_scale (total_force xs) (dt / 2)"
  using assms(1)
proof (induction xs)
  case Nil
  then show ?case by (simp add: momentum_def total_force_def vec_eq_iff)
next
  case (Cons x xs)
  have "real3d_scale (pm_v (part_m (f x))) (pp_mass (part_p (f x)))
      = real3d_scale (pm_v (part_m x)) (pp_mass (part_p x)) + real3d_scale (pf_f (part_f x)) (dt / 2)"
    using Cons.prems [of x] assms(2) [of x] by (simp add: vec_eq_iff distrib_right)
  moreover have "momentum (map f xs) = momentum xs + real3d_scale (total_force xs) (dt / 2)"
    using Cons by simp
  ultimately show ?case by (simp add: momentum_def total_force_def scale_add add_ac)
qed

lemma map_cells_parts:
  "distinct cs \<Longrightarrow> particles_of (map_cells f cs st) (CellV c) = (if c \<in> set cs then map f (particles_of st (CellV c)) else particles_of st (CellV c))"
proof (induction cs arbitrary: st)
  case (Cons b cs)
  have p: "particles_of (set_cell st b xs) v = (if v = CellV b then xs else particles_of st v)" for v xs
    by (simp add: set_cell_def set_vec_def particles_of_def)
  have "map_cells f (b # cs) st = map_cells f cs (set_cell st b (map f (particles_of st (CellV b))))"
    by (simp add: map_cells_def)
  then show ?case using Cons by (auto simp: p)
qed (simp add: map_cells_def)

lemma integrate1_cells_parts:
  "integrate1_cells dt cs st m = Some (st', m') \<Longrightarrow> distinct cs \<Longrightarrow>
    particles_of st' (CellV c) = (if c \<in> set cs then map (drifted dt) (particles_of st (CellV c)) else particles_of st (CellV c))"
proof (induction cs arbitrary: st m)
  case (Cons b cs)
  obtain xs d where x: "integrate1_list dt (particles_of st (CellV b)) m = Some (xs, d)"
      "integrate1_cells dt cs (set_cell st b xs) d = Some (st', m')"
    using Cons.prems(1) by (auto simp: bind_Some_iff)
  have p: "particles_of (set_cell st b xs) v = (if v = CellV b then xs else particles_of st v)" for v xs
    by (simp add: set_cell_def set_vec_def particles_of_def)
  have "xs = map (drifted dt) (particles_of st (CellV b))" using integrate1_list_map [OF x(1)] by simp
  then show ?case using Cons.IH [OF x(2)] Cons.prems(2) by (auto simp: p)
qed simp

lemma integrate1_real_particles:
  assumes "dd_ok dd" "integrate1_local dt dd = Some (dd', m)"
  shows "real_particles dd' = map (drifted dt) (real_particles dd)"
proof -
  note d = dd_okD(4) [OF assms(1)]
  obtain st where i: "integrate1_cells dt (realCells (dd_st dd)) (dd_st dd) 0 = Some (st, m)" "dd' = dd\<lparr>dd_st := st\<rparr>"
    using assms(2) by (auto simp: integrate1_local_def bind_Some_iff)
  have "realCells st = realCells (dd_st dd)" using integrate1_cells_moved [OF i(1) d] data_only_sel by blast
  moreover have "map (\<lambda>c. particles_of st (CellV c)) (realCells (dd_st dd)) = map (map (drifted dt) \<circ> cell_at dd) (realCells (dd_st dd))"
    using integrate1_cells_parts [OF i(1) d] by simp
  ultimately show ?thesis by (simp add: i(2) real_particles_def map_concat comp_def cong: map_cong)
qed

lemma integrate1_massive:
  assumes "dd_ok dd" "integrate1_local dt dd = Some (dd', m)" "x \<in> set (real_particles dd)"
  shows "pp_mass (part_p x) \<noteq> 0"
proof -
  have cells: "integrate1_cells dt cs st k = Some (st', k') \<Longrightarrow> distinct cs \<Longrightarrow> c \<in> set cs \<Longrightarrow> x \<in> set (particles_of st (CellV c))
      \<Longrightarrow> pp_mass (part_p x) \<noteq> 0" for cs st k st' k' c
  proof (induction cs arbitrary: st k)
    case (Cons b cs)
    obtain xs d where i: "integrate1_list dt (particles_of st (CellV b)) k = Some (xs, d)"
        "integrate1_cells dt cs (set_cell st b xs) d = Some (st', k')"
      using Cons.prems(1) by (auto simp: bind_Some_iff)
    have p: "c \<noteq> b \<Longrightarrow> particles_of (set_cell st b xs) (CellV c) = particles_of st (CellV c)"
      by (simp add: set_cell_def set_vec_def particles_of_def)
    show ?case
    proof (cases "c = b")
      case False
      then show ?thesis using Cons.IH [OF i(2)] Cons.prems(2-4) p by simp
    qed (use integrate1_list_map [OF i(1)] Cons.prems(4) in blast)
  qed simp
  obtain c where "c \<in> set (realCells (dd_st dd))" "x \<in> set (cell_at dd c)"
    using assms(3) by (auto simp: real_particles_def)
  then show ?thesis
    using cells dd_okD(4) [OF assms(1)] assms(2) by (auto simp: integrate1_local_def bind_Some_iff)
qed

lemma integrate2_massive:
  assumes "integrate2_local dt dd = Some dd'" "x \<in> set (real_particles dd)"
  shows "pp_mass (part_p x) \<noteq> 0"
  using assms by (auto simp: integrate2_local_Some massive_def list_all_iff real_particles_def)

lemma integrate2_real_particles:
  assumes "dd_ok dd" "integrate2_local dt dd = Some dd'"
  shows "real_particles dd' = map (kick dt) (real_particles dd)"
proof -
  note d = dd_okD(4) [OF assms(1)]
  have dd': "dd' = dd\<lparr>dd_st := map_cells (kick dt) (realCells (dd_st dd)) (dd_st dd)\<rparr>"
    using assms(2) by (simp add: integrate2_local_Some)
  have "realCells (dd_st dd') = realCells (dd_st dd)"
    using map_cells_near [of "kick dt" dd "realCells (dd_st dd)"] static_eq_sel(7) unfolding dd' near_dd_def by fastforce
  moreover have "map (cell_at dd') (realCells (dd_st dd)) = map (map (kick dt) \<circ> cell_at dd) (realCells (dd_st dd))"
    using map_cells_parts [OF d, of "kick dt" "dd_st dd"] by (simp add: dd')
  ultimately show ?thesis by (simp add: real_particles_def map_concat comp_def cong: map_cong)
qed

section \<open>Properties\<close>

text \<open>
  C5.  The forces are computed within the skin.  Take a system whose signals and interactions move no particle and whose
  \<^verbatim>\<open>inIntP\<close> never lowers a maximum, a skin that is not negative, and an integrator that either has its resort flag
  set, as a new one has, or has particles no further from the world of the last \<^verbatim>\<open>decompose\<close> than its \<^verbatim>\<open>maxDist\<close>,
  itself at most half the skin.  Then at every call of \<^verbatim>\<open>updateForces\<close> in a run, the first one and the one of every
  step, each real particle is no further than half the skin from where the last \<^verbatim>\<open>decompose\<close> before that call has
  left it, the one of this run if there was one, and it still is in the same place of the same cell: \<^verbatim>\<open>maxDist\<close> bounds the displacement since then, and the
  resort happens before it passes half the skin.  This is what makes neighbor lists built with cutoff plus skin
  complete.  A run that returns leaves an integrator the next run may start with.
\<close>

theorem forces_within_skin:
  assumes "quiet_system S" and "0 \<le> sys_skin S" and "vv_inv S (w0, s)"
  shows "(\<forall>w1 t. run_at S n (w0, s) AtForces (w1, t) \<longrightarrow> near (sys_skin S / 2) w1 (fst (snd t)))
    \<and> (\<forall>t. vv_run S n s = Some (Inr t) \<longrightarrow> (\<exists>w1. run_at S n (w0, s) AtEnd (w1, t) \<and> vv_inv S (w1, t)))"
proof (intro conjI allI impI)
  fix w1 t
  assume "run_at S n (w0, s) AtForces (w1, t)"
  then have "at_forces S (w1, t)" by (rule run_safe [OF assms])
  then show "near (sys_skin S / 2) w1 (fst (snd t))"
    unfolding at_forces_def within_skin_def using near_mono by blast
next
  fix t
  assume "vv_run S n s = Some (Inr t)"
  then obtain w1 where "run_at S n (w0, s) AtEnd (w1, t)" using run_ends by blast
  then show "\<exists>w1. run_at S n (w0, s) AtEnd (w1, t) \<and> vv_inv S (w1, t)"
    using run_safe [OF assms] at_forces_inv by blast
qed

text \<open>A system without extensions, connected objects and interactions.\<close>

definition idle_system :: "'y mdsystem" where
  "idle_system = \<lparr>sys_skin = 1, sys_before = (\<lambda>_ b. Some b), sys_after = (\<lambda>_ b. Some b), sys_fold = foldCoordinate box4,
     sys_dflt = stray, sys_boxL = V3 4 4 4, sys_changed = (\<lambda>w y. Some (Inr y)), sys_signal = (\<lambda>_ s. Some (Inr s)),
     sys_inIntP = (\<lambda>s ms. Some (Inr (s, ms))), sys_interactions = []\<rparr>"

lemma idle_quiet: "quiet_system idle_system"
  by (simp add: quiet_system_def idle_system_def list_all2_refl)

text \<open>A decomposition of the example returns.\<close>

lemma box4_exchange:
  assumes p: "populated (V3 1 1 1) (V3 4 4 4) [dd]" "spans box4 dd" and g: "\<forall>c\<in>set (ghostCells (dd_st dd)). cell_at dd c = []"
    and fo: "\<forall>y\<in>set (real_particles dd). foldable box4 y"
  obtains d1 d2 where "par (\<lambda>_. on_storage invalidateGhosts) [dd] = Some [dd]"
    "decomposeRealParticles (\<lambda>_ b. Some b) (\<lambda>_ b. Some b) (foldCoordinate box4) stray [dd] = Some [d1]"
    "exchangeGhosts stray (V3 4 4 4) [d1] = Some (Inr [d2])"
proof -
  have "cell_ptrs (dd_st dd) (ghostCells (dd_st dd)) = []" using g by (simp add: cell_ptrs_def)
  then have a: "par (\<lambda>_. on_storage invalidateGhosts) [dd] = Some [dd]"
    by (simp add: par_def on_storage_def invalidateGhosts_def)
  obtain d1 where b: "decomposeRealParticles (\<lambda>_ b. Some b) (\<lambda>_ b. Some b) (foldCoordinate box4) stray [dd] = Some [d1]"
    using single_run [OF box4(1) p(1) _ fo] p(2) by blast
  have "populated (V3 1 1 1) (V3 4 4 4) [d1]"
    using decompose_fit [OF unconnected.slots_axioms box4(1) p(1) b] by blast
  then have d1: "dd_ok d1" "NodeGrid_new (V3 1 1 1) 0 (V3 4 4 4) = Inr (dd_node d1)"
    by (simp_all add: populated_def grid_world_def)
  obtain d2 where c: "exchangeGhosts stray (V3 4 4 4) [d1] = Some (Inr [d2])"
    using single_communication [OF d1] unfolding exchangeGhosts_def by blast
  show thesis by (rule that [OF a b c])
qed

lemma loaded_decompose:
  assumes dd: "dd_example = Some (Inr dd)" and x: "foldable box4 x"
  shows "\<exists>d. sys_decompose idle_system ([loaded dd x], y) = Some (Inr ([d], y))"
proof -
  note e = loaded_example [OF dd, of x]
  have fo: "\<forall>y\<in>set (real_particles (loaded dd x)). foldable box4 y" using e x by simp
  obtain d1 d2 where "par (\<lambda>_. on_storage invalidateGhosts) [loaded dd x] = Some [loaded dd x]"
      "decomposeRealParticles (\<lambda>_ b. Some b) (\<lambda>_ b. Some b) (foldCoordinate box4) stray [loaded dd x] = Some [d1]"
      "exchangeGhosts stray (V3 4 4 4) [d1] = Some (Inr [d2])"
    using box4_exchange [of "loaded dd x"] e fo by blast
  then show ?thesis by (simp add: sys_decompose_def dd_decompose_def idle_system_def emit_changed_def)
qed

theorem forces_within_skin_witness:
  "\<exists>dd t w1. dd_example = Some (Inr dd) \<and> run_at idle_system 0 ([], (VelocityVerlet_new, ([loaded dd stray], ()))) AtForces (w1, t)
    \<and> near (1 / 2) w1 (fst (snd t)) \<and> w1 \<noteq> []"
proof -
  obtain dd where dd: "dd_example = Some (Inr dd)" using dd_example_ok by blast
  let ?d = "loaded dd stray" and ?v = "VelocityVerlet_new\<lparr>maxDist := 0, resortFlag := False\<rparr>"
  let ?s = "(VelocityVerlet_new, ([?d], ()))"
  have ok: "frames_ok [?d]" using loaded_example [OF dd, of stray] by (simp add: populated_def)
  obtain d where d: "sys_decompose idle_system ([?d], ()) = Some (Inr ([d], ()))"
    using loaded_decompose [OF dd stray_foldable, of "()"] by auto
  define w where "w = [d]"
  have w: "sys_decompose idle_system ([?d], ()) = Some (Inr (w, ()))" "w \<noteq> []" using d by (simp_all add: w_def)
  have r: "vv_resort idle_system ?s = Some (Inr (?v, (w, ())))" using w by (simp add: vv_resort_def VelocityVerlet_new_def)
  have idle: "on_world (sys_signal idle_system g) s = Some (Inr s)" for g and s :: "unit md_state"
    by (simp add: on_world_def idle_system_def)
  have t: "run_at idle_system 0 ([], ?s) AtForces (last_resort ?s (?v, (w, ())) [], (?v, (w, ())))"
    by (rule run_here [OF idle r idle])
  have "vv_inv idle_system ([], ?s)" using ok by (simp add: vv_inv_def VelocityVerlet_new_def)
  moreover have "0 \<le> sys_skin (idle_system :: unit mdsystem)" by (simp add: idle_system_def)
  ultimately have "near (sys_skin (idle_system :: unit mdsystem) / 2) (last_resort ?s (?v, (w, ())) []) (fst (snd (?v, (w, ()))))"
    using forces_within_skin [OF idle_quiet, of "[]" ?s 0] t by blast
  moreover have "last_resort ?s (?v, (w, ())) [] = w" by (simp add: last_resort_def VelocityVerlet_new_def)
  ultimately show ?thesis using dd t w(2) by (auto simp: idle_system_def)
qed

text \<open>
  Only forces change the momentum: over the real particles of a process, each of the two halves
  of a step adds half the time step times the total force.
\<close>

lemma momentum_balance:
  assumes "dd_ok dd"
  shows "(integrate1_local dt dd = Some (d1, m) \<longrightarrow>
      momentum (real_particles d1) = momentum (real_particles dd) + real3d_scale (total_force (real_particles dd)) (dt / 2))
    \<and> (integrate2_local dt dd = Some d2 \<longrightarrow>
      momentum (real_particles d2) = momentum (real_particles dd) + real3d_scale (total_force (real_particles dd)) (dt / 2))"
proof (intro conjI impI)
  assume r: "integrate1_local dt dd = Some (d1, m)"
  show "momentum (real_particles d1) = momentum (real_particles dd) + real3d_scale (total_force (real_particles dd)) (dt / 2)"
    unfolding integrate1_real_particles [OF assms r]
    by (rule kick_momentum) (use integrate1_massive [OF assms r] in \<open>simp_all add: half_velocity_def\<close>)
next
  assume r: "integrate2_local dt dd = Some d2"
  show "momentum (real_particles d2) = momentum (real_particles dd) + real3d_scale (total_force (real_particles dd)) (dt / 2)"
    unfolding integrate2_real_particles [OF assms r]
    by (rule kick_momentum) (use integrate2_massive [OF r] in \<open>simp_all add: kick_def Let_def\<close>)
qed

lemma vl_keep_moved:
  assumes pair: "(p_id (rd0 p), p_id (rd0 q)) \<notin> ex"
    and moved: "real3d_abs (p_pos (rd p) - p_pos (rd0 p)) \<le> skin / 2" "real3d_abs (p_pos (rd q) - p_pos (rd0 q)) \<le> skin / 2"
    and now: "real3d_abs (p_pos (rd p) - p_pos (rd q)) \<le> c"
  shows "vl_keep rd0 ex ((c + skin) * (c + skin)) (p, q)"
proof -
  let ?d = "p_pos (rd0 p) - p_pos (rd0 q)"
  have neg: "real3d_abs (v - w) = real3d_abs (w - v)" for v w
    by (simp add: real3d_abs_def real3d_sqr_minus_commute)
  have "?d = (p_pos (rd0 p) - p_pos (rd p)) + ((p_pos (rd p) - p_pos (rd q)) + (p_pos (rd q) - p_pos (rd0 q)))" by simp
  then have "real3d_abs ?d \<le> real3d_abs (p_pos (rd0 p) - p_pos (rd p))
      + (real3d_abs (p_pos (rd p) - p_pos (rd q)) + real3d_abs (p_pos (rd q) - p_pos (rd0 q)))"
    by (metis add_left_mono order_trans real3d_abs_triangle)
  also have "\<dots> \<le> c + skin" using moved now neg [of "p_pos (rd0 p)"] by simp
  finally have "real3d_abs ?d * real3d_abs ?d \<le> (c + skin) * (c + skin)" by (simp add: mult_mono')
  then show ?thesis using pair by (simp add: vl_keep_def real3d_abs_sq)
qed

lemma vl_rebuild_pairs:
  "vl_rebuild skin rd0 ps nbrs cs ex vl = Some vl' \<Longrightarrow>
    vlPairs vl' = filter (vl_keep rd0 ex ((cut vl + skin) * (cut vl + skin))) (all_pairs ps nbrs cs)"
  by (auto simp: vl_rebuild_def all_pairs_iterator_spec vl_check_fold Let_def)

text \<open>
  C8.  A Verlet list stays complete for as long as no particle has moved more than half the skin:
  of two particles that the all-pairs loop brought together when the list was built, whose ids are
  not excluded and that now are within the cutoff, the pair is on the list.
\<close>

theorem verlet_list_complete:
  assumes built: "vl_rebuild skin rd0 ps nbrs cs ex vl = Some vl'"
    and pair: "(p, q) \<in> set (all_pairs ps nbrs cs)" "(p_id (rd0 p), p_id (rd0 q)) \<notin> ex"
    and moved: "real3d_abs (p_pos (rd p) - p_pos (rd0 p)) \<le> skin / 2" "real3d_abs (p_pos (rd q) - p_pos (rd0 q)) \<le> skin / 2"
    and now: "real3d_abs (p_pos (rd p) - p_pos (rd q)) \<le> cut vl"
  shows "(p, q) \<in> set (vlPairs vl')"
  using vl_keep_moved [OF pair(2) moved now] pair(1) by (simp add: vl_rebuild_pairs [OF built])

text \<open>Two particles \<open>5 / 2\<close> apart when the list with cutoff \<open>2\<close> and skin \<open>1\<close> was built, \<open>2\<close> apart now.\<close>

definition pair_at :: "real \<Rightarrow> nat \<Rightarrow> particle" where
  "pair_at d i = setId (setPos stray (V3 (of_nat i * d) 0 0)) (int i)"

definition list2 :: "nat verletlist" where
  "list2 = \<lparr>vlPairs = [], cut = 2, cutVerlet = 3, cutsq = 9, builds = 0, vl_exList = {}, isDynamicExList = False,
     connectionResort = True\<rparr>"

lemma abs_axis: "real3d_abs (V3 a 0 0) = \<bar>a\<bar>"
  by (simp add: real3d_abs_def real3d_sqr_def real_sqrt_mult_self)

lemma pair_at_minus: "p_pos (pair_at d i) - p_pos (pair_at e j) = V3 (of_nat i * d - of_nat j * e) 0 0"
  by (simp add: pair_at_def setId_def setPos_def vec_eq_iff)

theorem verlet_list_complete_witness:
  "\<exists>vl'. vl_rebuild 1 (pair_at (5 / 2)) (\<lambda>_. [0, 1]) (\<lambda>_. []) [0] {} list2 = Some vl' \<and> (0, 1) \<in> set (vlPairs vl')"
proof -
  let ?all = "all_pairs (\<lambda>_. [0, 1 :: nat]) (\<lambda>_. []) [0]"
  obtain vl' where b: "vl_rebuild 1 (pair_at (5 / 2)) (\<lambda>_. [0, 1]) (\<lambda>_. []) [0] {} list2 = Some vl'"
    by (simp add: vl_rebuild_def all_pairs_iterator_spec Let_def)
  have "(0, 1) \<in> set ?all" by (simp add: all_pairs_def cell_pairs_def)
  then have "(0, 1) \<in> set (vlPairs vl')"
    by (rule verlet_list_complete [OF b, where rd = "pair_at 2"]) (simp_all add: pair_at_minus abs_axis list2_def)
  with b show ?thesis by blast
qed

end
