(* ===== verification/OddEven.thy ===== *)
theory OddEven
  imports Decomposition NodeGrid
begin

text \<open>
  The order of the blocking sends and receives in \<^verbatim>\<open>src/src/storage/DomainDecomposition.cpp\<close>
  (\<^verbatim>\<open>decomposeRealParticles\<close> and \<^verbatim>\<open>doGhostCommunication\<close>).  A send may block until its receive is
  posted (the strictest reading of MPI's standard mode), so a step of the processes is a rendezvous
  of a send with the matching receive.  The odd-even rule lets all of them end.
\<close>

section \<open>What a process does\<close>

datatype act = SendTo nat | RecvFrom nat

definition opposite :: "nat \<Rightarrow> nat" where
  "opposite dir = (if dir mod 2 = 0 then dir + 1 else dir - 1)"

text \<open>One message to \<^verbatim>\<open>dir\<close> and one from \<^verbatim>\<open>oppositeDir\<close>, for the sizes or the data of the ghosts.\<close>

definition shift_order :: "bool \<Rightarrow> nat \<Rightarrow> act list" where
  "shift_order ev dir = (if ev then [SendTo dir, RecvFrom (opposite dir)] else [RecvFrom (opposite dir), SendTo dir])"

text \<open>The exchange of particles along a coordinate.\<close>

definition exchange_order :: "bool \<Rightarrow> nat \<Rightarrow> act list" where
  "exchange_order ev coord =
     (if ev then [SendTo (2 * coord), RecvFrom (2 * coord + 1), SendTo (2 * coord + 1), RecvFrom (2 * coord)]
      else [RecvFrom (2 * coord + 1), SendTo (2 * coord), RecvFrom (2 * coord), SendTo (2 * coord + 1)])"

definition program :: "(nat \<Rightarrow> nat \<Rightarrow> bool) \<Rightarrow> nat list \<Rightarrow> nat \<Rightarrow> act list" where
  "program ev ds r = concat (map (\<lambda>d. shift_order (ev d r) d) ds)"

lemma opposite_opposite [simp]: "opposite (opposite d) = d"
  unfolding opposite_def by presburger

lemma exchange_order_shifts:
  "exchange_order ev coord = shift_order ev (2 * coord) @ shift_order ev (2 * coord + 1)"
  by (simp add: exchange_order_def shift_order_def opposite_def)

section \<open>The rendezvous\<close>

inductive rendezvous :: "nat \<Rightarrow> (nat \<Rightarrow> nat \<Rightarrow> nat) \<Rightarrow> (nat \<Rightarrow> act list) \<Rightarrow> (nat \<Rightarrow> act list) \<Rightarrow> bool"
  for n nb where
  meet: "i < n \<Longrightarrow> j < n \<Longrightarrow> i \<noteq> j \<Longrightarrow> S i = SendTo d # as \<Longrightarrow> S j = RecvFrom e # bs \<Longrightarrow>
    nb d i = j \<Longrightarrow> nb e j = i \<Longrightarrow> rendezvous n nb S (S(i := as, j := bs))"

inductive_cases rendezvousE: "rendezvous n nb S S'"

definition all_done :: "nat \<Rightarrow> (nat \<Rightarrow> act list) \<Rightarrow> bool" where
  "all_done n S \<longleftrightarrow> (\<forall>r<n. S r = [])"

section \<open>Rings of processes\<close>

locale odd_even =
  fixes n :: nat and dirs :: "nat set" and nb :: "nat \<Rightarrow> nat \<Rightarrow> nat" and ev :: "nat \<Rightarrow> nat \<Rightarrow> bool"
  assumes opp_dir: "d \<in> dirs \<Longrightarrow> opposite d \<in> dirs"
    and nb_range: "d \<in> dirs \<Longrightarrow> i < n \<Longrightarrow> nb d i < n"
    and nb_other: "d \<in> dirs \<Longrightarrow> i < n \<Longrightarrow> nb d i \<noteq> i"
    and nb_back: "d \<in> dirs \<Longrightarrow> i < n \<Longrightarrow> nb (opposite d) (nb d i) = i"
    and odd_nb: "d \<in> dirs \<Longrightarrow> i < n \<Longrightarrow> \<not> ev d i \<Longrightarrow> ev d (nb d i) \<and> ev d (nb (opposite d) i)"
    and even_nb: "d \<in> dirs \<Longrightarrow> i < n \<Longrightarrow> ev d i \<Longrightarrow> ev d (nb (opposite d) i) \<Longrightarrow> \<not> ev d (nb d i)"
begin

text \<open>The message \<open>(k, i)\<close> is the one process \<open>i\<close> sends in phase \<open>k\<close>; \<open>events ds m r\<close> are the messages
  process \<open>r\<close> takes part in during the first \<open>m\<close> phases, in its order.\<close>

definition pair :: "nat list \<Rightarrow> nat \<Rightarrow> nat \<Rightarrow> (nat \<times> nat) list" where
  "pair ds r k = (let d = ds ! k in
     if ev d r then [(k, r), (k, nb (opposite d) r)] else [(k, nb (opposite d) r), (k, r)])"

definition events :: "nat list \<Rightarrow> nat \<Rightarrow> nat \<Rightarrow> (nat \<times> nat) list" where
  "events ds m r = concat (map (pair ds r) [0..<m])"

definition act_of :: "nat list \<Rightarrow> nat \<Rightarrow> nat \<times> nat \<Rightarrow> act" where
  "act_of ds r e = (case e of (k, i) \<Rightarrow> if i = r then SendTo (ds ! k) else RecvFrom (opposite (ds ! k)))"

definition lev :: "nat list \<Rightarrow> nat \<times> nat \<Rightarrow> nat" where
  "lev ds e = (case e of (k, i) \<Rightarrow>
     3 * k + (if \<not> ev (ds ! k) i then 2 else if ev (ds ! k) (nb (ds ! k) i) then 1 else 0))"

lemma lev_bounds: "3 * fst e \<le> lev ds e" "lev ds e < 3 * fst e + 3"
  by (simp_all add: lev_def split: prod.splits)

lemma pair_sorted:
  assumes d: "ds ! k \<in> dirs" and r: "r < n"
  shows "sorted_wrt (\<lambda>a b. lev ds a < lev ds b) (pair ds r k)"
proof -
  let ?d = "ds ! k" and ?p = "nb (opposite (ds ! k)) r"
  have p: "?p < n" "nb ?d ?p = r" using nb_range [OF opp_dir [OF d] r] nb_back [OF opp_dir [OF d] r] by simp_all
  show ?thesis
  proof (cases "ev ?d r")
    case True
    then show ?thesis using even_nb [OF d r] p(2) by (auto simp: pair_def lev_def Let_def)
  next
    case False
    then show ?thesis using odd_nb [OF d r] p(2) by (auto simp: pair_def lev_def Let_def)
  qed
qed

lemma pair_fst: "e \<in> set (pair ds r k) \<Longrightarrow> fst e = k"
  by (auto simp: pair_def Let_def split: if_splits)

lemma in_pair:
  assumes "ds ! k \<in> dirs" "r < n" "i < n"
  shows "(k, i) \<in> set (pair ds r k) \<longleftrightarrow> i = r \<or> nb (ds ! k) i = r"
  using nb_back [OF assms(1,3)] nb_back [OF opp_dir [OF assms(1)] assms(2)]
  by (auto simp: pair_def Let_def)

lemma in_events:
  assumes "set ds \<subseteq> dirs" "r < n" "i < n" "m \<le> length ds"
  shows "(k, i) \<in> set (events ds m r) \<longleftrightarrow> k < m \<and> (i = r \<or> nb (ds ! k) i = r)"
proof -
  have "ds ! k \<in> dirs" if "k < m" for k using assms(1,4) that nth_mem [of k ds] by auto
  then show ?thesis using in_pair [OF _ assms(2,3)] pair_fst by (fastforce simp: events_def)
qed

lemma events_sorted:
  assumes "set ds \<subseteq> dirs" "r < n" "m \<le> length ds"
  shows "sorted_wrt (\<lambda>a b. lev ds a < lev ds b) (events ds m r)"
  using assms(3)
proof (induction m)
  case (Suc m)
  have "ds ! m \<in> dirs" using assms(1) Suc.prems nth_mem [of m ds] by auto
  moreover have "lev ds a < lev ds b" if "a \<in> set (events ds m r)" "b \<in> set (pair ds r m)" for a b
    using that pair_fst [of b ds r m] pair_fst [of a ds r] lev_bounds(2) [of ds a] lev_bounds(1) [where ds = ds and e = b]
    by (fastforce simp: events_def)
  ultimately show ?case
    using Suc pair_sorted [of ds m r] assms(2) by (simp add: events_def sorted_wrt_append)
qed (simp add: events_def)

section \<open>Invariant of the runs\<close>

text \<open>\<open>R\<close> are the messages not yet exchanged.\<close>

definition pending :: "nat list \<Rightarrow> (nat \<times> nat) set \<Rightarrow> (nat \<Rightarrow> act list) \<Rightarrow> bool" where
  "pending ds R S \<longleftrightarrow> R \<subseteq> {..<length ds} \<times> {..<n}
     \<and> (\<forall>r<n. S r = map (act_of ds r) (filter (\<lambda>e. e \<in> R) (events ds (length ds) r)))"

lemma pending_start:
  assumes "set ds \<subseteq> dirs" and "\<And>r. r < n \<Longrightarrow> S r = program ev ds r"
  shows "pending ds ({..<length ds} \<times> {..<n}) S"
  unfolding pending_def
proof (intro conjI allI impI order_refl)
  fix r assume r: "r < n"
  have dirs: "ds ! k \<in> dirs" if "k < length ds" for k using assms(1) that nth_mem by blast
  have m: "map (act_of ds r) (pair ds r k) = shift_order (ev (ds ! k) r) (ds ! k)" if "k < length ds" for k
    using nb_other [OF opp_dir [OF dirs [OF that]] r] by (simp add: pair_def shift_order_def act_of_def Let_def)
  have "e \<in> {..<length ds} \<times> {..<n}" if "e \<in> set (events ds (length ds) r)" for e
    using that r nb_range [OF opp_dir [OF dirs] r]
    by (auto simp: events_def pair_def Let_def split: if_splits)
  then have f: "filter (\<lambda>e. e \<in> {..<length ds} \<times> {..<n}) (events ds (length ds) r) = events ds (length ds) r"
    by (simp add: filter_id_conv)
  have "map (act_of ds r) (events ds (length ds) r) = concat (map (\<lambda>k. shift_order (ev (ds ! k) r) (ds ! k)) [0..<length ds])"
    unfolding events_def map_concat map_map comp_def by (rule arg_cong [where f = concat]) (use m in auto)
  also have "\<dots> = program ev ds r"
    unfolding program_def by (rule arg_cong [where f = concat], subst (3) map_nth [symmetric]) (simp add: comp_def)
  finally show "S r = map (act_of ds r)
      (filter (\<lambda>e. e \<in> {..<length ds} \<times> {..<n}) (events ds (length ds) r))"
    unfolding f assms(2) [OF r] by simp
qed

text \<open>The head of a process is its pending message of the least level.\<close>

lemma head_min:
  assumes ds: "set ds \<subseteq> dirs" and r: "r < n" and e: "e \<in> set (events ds (length ds) r)" "e \<in> R"
    and min: "\<And>f. f \<in> R \<Longrightarrow> lev ds e \<le> lev ds f"
  shows "\<exists>es. filter (\<lambda>e. e \<in> R) (events ds (length ds) r) = e # es"
proof -
  let ?f = "filter (\<lambda>e. e \<in> R) (events ds (length ds) r)"
  have s: "sorted_wrt (\<lambda>a b. lev ds a < lev ds b) ?f"
    using events_sorted [OF ds r order_refl] by (rule sorted_wrt_filter)
  obtain x xs where x: "?f = x # xs" using e by (cases ?f) (auto simp: filter_empty_conv)
  have "e \<in> set (x # xs)" using e unfolding x [symmetric] by simp
  moreover have "lev ds e \<le> lev ds x"
  proof (rule min)
    have "x \<in> set ?f" unfolding x by simp
    then show "x \<in> R" by simp
  qed
  ultimately have "x = e" using s unfolding x by auto
  then show ?thesis using x by blast
qed

lemma head_tail:
  assumes ds: "set ds \<subseteq> dirs" and r: "r < n" and f: "filter (\<lambda>e. e \<in> R) (events ds (length ds) r) = e # es"
  shows "filter (\<lambda>x. x \<in> R - {e}) (events ds (length ds) r) = es"
    and "f \<in> set (events ds (length ds) r) \<Longrightarrow> f \<in> R \<Longrightarrow> lev ds e \<le> lev ds f"
proof -
  have s: "sorted_wrt (\<lambda>a b. lev ds a < lev ds b) (e # es)"
    using events_sorted [OF ds r order_refl] unfolding f [symmetric] by (rule sorted_wrt_filter)
  then have "e \<notin> set es" by auto
  then have "filter (\<lambda>x. x \<noteq> e) (e # es) = es" by (auto simp: filter_id_conv)
  then show "filter (\<lambda>x. x \<in> R - {e}) (events ds (length ds) r) = es"
    unfolding f [symmetric] filter_filter by (simp add: conj_commute)
  show "lev ds e \<le> lev ds f'" if "f' \<in> set (events ds (length ds) r)" "f' \<in> R" for f'
  proof -
    have "f' \<in> set (e # es)" unfolding f [symmetric] using that by simp
    then show ?thesis using s by auto
  qed
qed

lemma progress:
  assumes ds: "set ds \<subseteq> dirs" and p: "pending ds R S" and ne: "R \<noteq> {}"
  shows "\<exists>S'. rendezvous n nb S S'"
proof -
  have fin: "finite R" using p finite_subset [of R "{..<length ds} \<times> {..<n}"] by (simp add: pending_def)
  obtain e where e: "e \<in> R" "\<And>f. f \<in> R \<Longrightarrow> lev ds e \<le> lev ds f"
    using ex_min_if_finite [of "lev ds ` R"] fin ne by (auto simp: not_less)
  obtain k i where ki: "e = (k, i)" "k < length ds" "i < n" using e(1) p by (auto simp: pending_def)
  have d: "ds ! k \<in> dirs" using ds ki(2) nth_mem by blast
  let ?j = "nb (ds ! k) i"
  note j = nb_range [OF d ki(3)] nb_other [OF d ki(3)] nb_back [OF d ki(3)]
  have ei: "e \<in> set (events ds (length ds) i)" "e \<in> set (events ds (length ds) ?j)"
    unfolding ki(1) using in_events [OF ds _ ki(3) order_refl] ki j(1) by simp_all
  obtain as where "filter (\<lambda>e. e \<in> R) (events ds (length ds) i) = e # as"
    using head_min [OF ds ki(3) ei(1) e] by blast
  then have si: "S i = SendTo (ds ! k) # map (act_of ds i) as"
    using p ki by (simp add: pending_def act_of_def)
  obtain bs where "filter (\<lambda>e. e \<in> R) (events ds (length ds) ?j) = e # bs"
    using head_min [OF ds j(1) ei(2) e] by blast
  then have sj: "S ?j = RecvFrom (opposite (ds ! k)) # map (act_of ds ?j) bs"
    using p ki j by (simp add: pending_def act_of_def)
  show ?thesis using meet [where n = n and nb = nb and S = S and i = i and j = ?j, OF ki(3) j(1) _ si sj] j by auto
qed

lemma step_pending:
  assumes ds: "set ds \<subseteq> dirs" and p: "pending ds R S" and st: "rendezvous n nb S S'"
  shows "\<exists>e\<in>R. pending ds (R - {e}) S'"
  using st
proof cases
  case (meet i j d as e bs)
  note S' = meet(1) and ij = meet(2,3,4,7,8) and si = meet(5) and sj = meet(6)
  let ?f = "\<lambda>r. filter (\<lambda>e. e \<in> R) (events ds (length ds) r)"
  have S: "S r = map (act_of ds r) (?f r)" if "r < n" for r using p that by (simp add: pending_def)
  have R: "k < length ds \<and> a < n" if "(k, a) \<in> R" for k a using p that by (auto simp: pending_def)
  obtain k a es where h: "?f i = (k, a) # es" "act_of ds i (k, a) = SendTo d" "as = map (act_of ds i) es"
    using si S [OF ij(1)] by (auto simp: map_eq_Cons_conv)
  obtain k' a' es' where h': "?f j = (k', a') # es'" "act_of ds j (k', a') = RecvFrom e" "bs = map (act_of ds j) es'"
    using sj S [OF ij(2)] by (auto simp: map_eq_Cons_conv)
  have "(k, a) \<in> set (?f i)" "(k', a') \<in> set (?f j)" unfolding h(1) h'(1) by simp_all
  then have m: "(k, a) \<in> R" "(k', a') \<in> R" "(k', a') \<in> set (events ds (length ds) j)" by simp_all
  note r = R [OF m(1)] R [OF m(2)]
  have dirs: "ds ! k \<in> dirs" "ds ! k' \<in> dirs" using r ds nth_mem by blast+
  have a: "a = i" "d = ds ! k" using h(2) by (simp_all add: act_of_def split: if_splits)
  have a': "a' \<noteq> j" "e = opposite (ds ! k')" using h'(2) by (simp_all add: act_of_def split: if_splits)
  have "nb (ds ! k') a' = j" using m(3) in_events [OF ds ij(2) _ order_refl] r a'(1) by auto
  then have ai: "a' = i" using nb_back [OF dirs(2), of a'] r ij(5) a'(2) by simp
  have "(k, i) \<in> set (events ds (length ds) j)" "(k', i) \<in> set (events ds (length ds) i)"
    using in_events [OF ds ij(2,1) order_refl] in_events [OF ds ij(1,1) order_refl] r ij(4) a by simp_all
  then have "lev ds (k', i) = lev ds (k, i)"
    using head_tail(2) [OF ds ij(1) h(1)] head_tail(2) [OF ds ij(2) h'(1)] m a ai by (metis le_antisym)
  then have k: "k' = k"
    using lev_bounds [where ds = ds and e = "(k, i)"] lev_bounds [where ds = ds and e = "(k', i)"] by simp
  let ?R = "R - {(k, i)}"
  have fi: "filter (\<lambda>x. x \<in> ?R) (events ds (length ds) i) = es"
    using head_tail(1) [OF ds ij(1) h(1)] a by simp
  have fj: "filter (\<lambda>x. x \<in> ?R) (events ds (length ds) j) = es'"
    using head_tail(1) [OF ds ij(2) h'(1)] ai k by simp
  have fr: "filter (\<lambda>x. x \<in> ?R) (events ds (length ds) r) = ?f r" if "r < n" "r \<noteq> i" "r \<noteq> j" for r
  proof -
    have "(k, i) \<notin> set (events ds (length ds) r)"
      using in_events [OF ds that(1) ij(1) order_refl] that(2,3) ij(4) a(2) by auto
    then show ?thesis by (intro filter_cong) auto
  qed
  have "pending ds ?R S'"
    using p fi fj fr h(3) h'(3) ij(3) by (auto simp: pending_def S')
  then show ?thesis using m(1) a by blast
qed

lemma pending_done:
  assumes ds: "set ds \<subseteq> dirs" and p: "pending ds R S"
  shows "all_done n S \<longleftrightarrow> R = {}"
proof
  assume d: "all_done n S"
  show "R = {}"
  proof (rule ccontr)
    assume "R \<noteq> {}"
    then obtain S' where "rendezvous n nb S S'" using progress [OF ds p] by blast
    then show False using d by (auto simp: all_done_def elim: rendezvousE)
  qed
qed (use p in \<open>simp add: pending_def all_done_def\<close>)

lemma run_pending:
  assumes ds: "set ds \<subseteq> dirs" and start: "\<And>r. r < n \<Longrightarrow> S0 r = program ev ds r"
    and run: "(rendezvous n nb ^^ m) S0 S"
  shows "\<exists>R. pending ds R S \<and> card R + m = length ds * n"
  using run
proof (induction m arbitrary: S)
  case 0
  then show ?case using pending_start [OF ds start] by (intro exI [of _ "{..<length ds} \<times> {..<n}"]) simp
next
  case (Suc m)
  then obtain T where T: "(rendezvous n nb ^^ m) S0 T" "rendezvous n nb T S" by auto
  obtain R where R: "pending ds R T" "card R + m = length ds * n" using Suc.IH [OF T(1)] by blast
  obtain e where e: "e \<in> R" "pending ds (R - {e}) S" using step_pending [OF ds R(1) T(2)] by blast
  have "finite R" using R(1) finite_subset [of R "{..<length ds} \<times> {..<n}"] by (simp add: pending_def)
  then have "card (R - {e}) + Suc m = length ds * n" using e(1) R(2) card_Suc_Diff1 [of R e] by simp
  then show ?case using e(2) by blast
qed

lemma runs_end:
  assumes ds: "set ds \<subseteq> dirs" and start: "\<And>r. r < n \<Longrightarrow> S0 r = program ev ds r"
    and run: "(rendezvous n nb ^^ m) S0 S"
  shows "m \<le> length ds * n \<and> (all_done n S \<longleftrightarrow> m = length ds * n) \<and> (all_done n S \<or> (\<exists>S'. rendezvous n nb S S'))"
proof -
  obtain R where R: "pending ds R S" "card R + m = length ds * n" using run_pending [OF ds start run] by blast
  have "finite R" using R(1) finite_subset [of R "{..<length ds} \<times> {..<n}"] by (simp add: pending_def)
  then have "R = {} \<longleftrightarrow> m = length ds * n" using R(2) by auto
  then show ?thesis using pending_done [OF ds R(1)] progress [OF ds R(1)] R(2) by auto
qed

end

section \<open>The grid of processes\<close>

text \<open>The processes of a grid and what each of them does in the two exchanges.\<close>

definition even_pos :: "nodegrid \<Rightarrow> nat \<Rightarrow> bool" where
  "even_pos g dir \<longleftrightarrow> vnth (nodePos g) (dir div 2) mod 2 = 0"

definition target :: "nodegrid \<Rightarrow> nat \<Rightarrow> nat" where
  "target g dir = nat (getNodeNeighborIndex g dir)"

definition many_dirs :: "int3d \<Rightarrow> nat set" where
  "many_dirs sz = {dir. dir < 6 \<and> 1 < vnth sz (dir div 2)}"

definition ghost_dirs :: "bool \<Rightarrow> bool \<Rightarrow> int3d \<Rightarrow> nat list" where
  "ghost_dirs sizesFirst realToGhosts sz =
     concat (map (\<lambda>k. let coord = (if realToGhosts then k else 2 - k) in
       concat (map (\<lambda>lr. let dir = 2 * coord + lr in
         if vnth sz coord = 1 then []
         else (if sizesFirst then [dir] else []) @ [if realToGhosts then dir else opposite dir]) [0, 1])) [0, 1, 2])"

definition ghost_order :: "bool \<Rightarrow> bool \<Rightarrow> nodegrid \<Rightarrow> act list" where
  "ghost_order sizesFirst realToGhosts g =
     concat (map (\<lambda>k. let coord = (if realToGhosts then k else 2 - k);
                         ev = (vnth (nodePos g) coord mod 2 = 0) in
       concat (map (\<lambda>lr. let dir = 2 * coord + lr in
         if getGridSize g coord = 1 then []
         else (if sizesFirst then shift_order ev dir else [])
            @ shift_order ev (if realToGhosts then dir else opposite dir)) [0, 1])) [0, 1, 2])"

lemma opposite_div [simp]: "opposite d div 2 = d div 2"
  unfolding opposite_def by presburger

lemma opposite_less [simp]: "opposite d < 6 \<longleftrightarrow> d < 6"
  unfolding opposite_def by presburger

lemma ghost_order_program: "ghost_order s r (g i) = program (\<lambda>d i. even_pos (g i) d) (ghost_dirs s r (gsize (g i))) i"
  unfolding ghost_order_def ghost_dirs_def program_def even_pos_def getGridSize_def
  by (simp add: Let_def numeral_2_eq_2 [symmetric] opposite_def)

lemma exchange_order_program:
  "exchange_order (even_pos (g i) (2 * coord)) coord
     = program (\<lambda>d i. even_pos (g i) d) [2 * coord, 2 * coord + 1] i"
  by (simp add: exchange_order_shifts program_def even_pos_def)

lemma ghost_dirs_many: "vall (\<lambda>k. 0 < k) sz \<Longrightarrow> set (ghost_dirs s r sz) \<subseteq> many_dirs sz"
  by (auto simp: ghost_dirs_def many_dirs_def Let_def vall_def opposite_def numeral_2_eq_2 [symmetric] split: if_splits)

text \<open>A coordinate of the position of a neighbour.\<close>

definition shifted :: "int \<Rightarrow> nat \<Rightarrow> int \<Rightarrow> int" where
  "shifted k dir x = (if dir mod 2 = 0 then (if x - 1 < 0 then x - 1 + k else x - 1)
                      else (if x + 1 \<ge> k then x + 1 - k else x + 1))"

lemma neighbor_node:
  assumes new: "NodeGrid_new sz n L = Inr g" "0 \<le> n" "n < getNumberOfCells g" and d: "dir < 6"
    and new': "NodeGrid_new sz (getNodeNeighborIndex g dir) L = Inr h"
  shows "0 \<le> getNodeNeighborIndex g dir \<and> getNodeNeighborIndex g dir < getNumberOfCells g
    \<and> vnth (nodePos h) (dir div 2) = shifted (vnth sz (dir div 2)) dir (vnth (nodePos g) (dir div 2))"
proof -
  note sel = NodeGrid_new_sel [OF new(1)] and node = NodeGrid_new_node [OF new]
  define i where "i = dir div 2"
  have i: "i < 3" using d by (simp add: i_def)
  have dir: "dir = 2 * i \<and> dir mod 2 = 0 \<or> dir = 2 * i + 1 \<and> dir mod 2 = 1"
    unfolding i_def by presburger
  have gs: "getGridSize g i = vnth sz i" using sel(1) by (simp add: getGridSize_def)
  note ing = neighborPos_in_grid [OF node(1) i]
  define q where "q = (if dir mod 2 = 0 then leftNeighborPos g (nodePos g) i else rightNeighborPos g (nodePos g) i)"
  have idx: "getNodeNeighborIndex g dir = mapPositionToIndexV g q" "in_grid g q"
    using dir sel(8,9) [OF i] ing by (auto simp: q_def)
  have "gsize h = gsize g" using NodeGrid_new_sel(1) [OF new'] sel(1) by simp
  then have "nodePos h = q"
    using NodeGrid_new_sel(3) [OF new'] index_position_inverse [OF idx(2)] idx(1)
    by (simp add: mapIndexToPosition_def)
  then have "vnth (nodePos h) i = shifted (vnth sz i) dir (vnth (nodePos g) i)"
    using dir i by (auto simp: q_def leftNeighborPos_def rightNeighborPos_def shifted_def Let_def vnth_vupd gs)
  then show ?thesis using idx index_bounds [OF idx(2)] by (simp add: i_def)
qed

lemma shifted_parity:
  assumes "0 \<le> x" "x < k" "1 < k"
  shows "x mod 2 \<noteq> 0 \<Longrightarrow> shifted k d x mod 2 = 0"
    and "x mod 2 = 0 \<Longrightarrow> shifted k (opposite d) x mod 2 = 0 \<Longrightarrow> shifted k d x mod 2 \<noteq> 0"
proof -
  have o: "opposite d mod 2 = 0 \<longleftrightarrow> d mod 2 \<noteq> 0" unfolding opposite_def by presburger
  show "x mod 2 \<noteq> 0 \<Longrightarrow> shifted k d x mod 2 = 0"
    using assms unfolding shifted_def by (cases "d mod 2 = 0") (simp_all; presburger)+
  show "x mod 2 = 0 \<Longrightarrow> shifted k (opposite d) x mod 2 = 0 \<Longrightarrow> shifted k d x mod 2 \<noteq> 0"
    using assms unfolding shifted_def o by (cases "d mod 2 = 0") (simp_all split: if_splits; presburger)+
qed

definition ring_nodes :: "int3d \<Rightarrow> real3d \<Rightarrow> nat \<Rightarrow> (nat \<Rightarrow> nodegrid) \<Rightarrow> bool" where
  "ring_nodes sz L n g \<longleftrightarrow> int n = vx sz * vy sz * vz sz
     \<and> (\<forall>r<n. NodeGrid_new sz (int r) L = Inr (g r))"

lemma ring_odd_even:
  assumes g: "ring_nodes sz L n g"
  shows "odd_even n (many_dirs sz) (\<lambda>d r. target (g r) d) (\<lambda>d r. even_pos (g r) d)"
proof
  have new: "NodeGrid_new sz (int r) L = Inr (g r)" if "r < n" for r using g that by (simp add: ring_nodes_def)
  have cells: "getNumberOfCells (g r) = int n" if "r < n" for r
    using NodeGrid_new_sel(1) [OF new [OF that]] g by (simp add: getNumberOfCells_def ring_nodes_def)
  have ok: "0 \<le> int r" "int r < getNumberOfCells (g r)" if "r < n" for r using cells [OF that] that by simp_all
  have pos: "0 \<le> vnth (nodePos (g r)) i \<and> vnth (nodePos (g r)) i < vnth sz i" if "r < n" "i < 3" for r i
    using NodeGrid_new_node(1) [OF new ok, OF that(1) that(1) that(1)] NodeGrid_new_sel(1) [OF new [OF that(1)]] that(2)
    by (simp add: in_grid_iff_vnth getGridSize_def)
  have ex: "\<exists>h. NodeGrid_new sz k L = Inr h" if "r < n" for r k
    using new [OF that] by (auto simp: NodeGrid_new_def Let_def split: if_splits)
  have nbr: "target (g r) d < n \<and> getNodeNeighborIndex (g r) d = int (target (g r) d)
      \<and> vnth (nodePos (g (target (g r) d))) (d div 2) = shifted (vnth sz (d div 2)) d (vnth (nodePos (g r)) (d div 2))"
    if r: "r < n" and d: "d < 6" for r d
  proof -
    obtain h where h: "NodeGrid_new sz (getNodeNeighborIndex (g r) d) L = Inr h" using ex [OF r] by blast
    note n = neighbor_node [OF new [OF r] ok [OF r] d h]
    then have t: "target (g r) d < n" "getNodeNeighborIndex (g r) d = int (target (g r) d)"
      using cells [OF r] by (simp_all add: target_def nat_less_iff)
    then have "h = g (target (g r) d)" using h new [OF t(1)] by simp
    then show ?thesis using n t by simp
  qed
  fix d i assume d: "d \<in> many_dirs sz"
  then have d6: "d < 6" and k: "1 < vnth sz (d div 2)" by (simp_all add: many_dirs_def)
  show "opposite d \<in> many_dirs sz" using d by (simp add: many_dirs_def)
  assume i: "i < n"
  have d3: "d div 2 < 3" using d6 by linarith
  let ?x = "vnth (nodePos (g i)) (d div 2)"
  note x = pos [OF i d3] and n = nbr [OF i d6] and o = nbr [OF i, of "opposite d"]
  show "target (g i) d < n" using n by blast
  show "target (g i) d \<noteq> i"
  proof
    assume "target (g i) d = i"
    then have "?x = shifted (vnth sz (d div 2)) d ?x" using n by metis
    then show False using x k by (auto simp: shifted_def split: if_splits)
  qed
  show "\<not> even_pos (g i) d \<Longrightarrow> even_pos (g (target (g i) d)) d \<and> even_pos (g (target (g i) (opposite d))) d"
    using shifted_parity(1) [of ?x "vnth sz (d div 2)"] x k n o d6 by (simp add: even_pos_def)
  show "even_pos (g i) d \<Longrightarrow> even_pos (g (target (g i) (opposite d))) d \<Longrightarrow> \<not> even_pos (g (target (g i) d)) d"
    using shifted_parity(2) [of ?x "vnth sz (d div 2)" d] x k n o d6 by (simp add: even_pos_def)
  show "target (g (target (g i) d)) (opposite d) = i"
  proof -
    have dir: "d = 2 * (d div 2) \<and> opposite d = 2 * (d div 2) + 1 \<or> d = 2 * (d div 2) + 1 \<and> opposite d = 2 * (d div 2)"
      unfolding opposite_def by presburger
    obtain gl gr where gl: "NodeGrid_new sz (getNodeNeighborIndex (g i) (2 * (d div 2))) L = Inr gl"
        "NodeGrid_new sz (getNodeNeighborIndex (g i) (2 * (d div 2) + 1)) L = Inr gr" using ex [OF i] by blast
    note s = neighbors_symmetric [OF new [OF i] ok [OF i] d3 gl]
    have "d = 2 * (d div 2) \<Longrightarrow> gl = g (target (g i) d)" "d = 2 * (d div 2) + 1 \<Longrightarrow> gr = g (target (g i) d)"
      using gl n new by auto
    then show ?thesis using dir s by (auto simp: target_def)
  qed
qed

text \<open>Every grid of at least one process per direction.\<close>

definition grid_node :: "nat \<Rightarrow> nat \<Rightarrow> nat \<Rightarrow> nat \<Rightarrow> nodegrid" where
  "grid_node a b c r = (case NodeGrid_new (V3 (1 + int a) (1 + int b) (1 + int c)) (int r) (V3 1 1 1) of
     Inr g \<Rightarrow> g | Inl _ \<Rightarrow> undefined)"

lemma grid_node_ring:
  "ring_nodes (V3 (1 + int a) (1 + int b) (1 + int c)) (V3 1 1 1) (Suc a * Suc b * Suc c) (grid_node a b c)"
  by (simp add: ring_nodes_def grid_node_def NodeGrid_new_def Let_def algebra_simps)

interpretation grid: odd_even "Suc a * Suc b * Suc c" "many_dirs (V3 (1 + int a) (1 + int b) (1 + int c))"
    "\<lambda>d r. target (grid_node a b c r) d" "\<lambda>d r. even_pos (grid_node a b c r) d" for a b c :: nat
  by (rule ring_odd_even [OF grid_node_ring])

section \<open>Properties\<close>

text \<open>
  C20.  The odd-even rule cannot deadlock.  Let \<open>n\<close> processes form the grid of \<^verbatim>\<open>NodeGrid\<close> and let
  a send block until its receive is posted.  Running either exchange of the domain decomposition, the
  particle exchange along a coordinate with more than one process or a whole ghost communication (with or
  without sizes, positions or forces), the processes can always go on until all of them have
  finished, whatever the order of the rendezvous; every run ends after exactly as many messages as
  the processes send, for even and odd numbers of processes, two processes included.
\<close>

theorem odd_even_exchange_ends:
  assumes "ring_nodes sz L n g" and "vall (\<lambda>k. 0 < k) sz"
    and "S0 = (\<lambda>r. exchange_order (even_pos (g r) (2 * coord)) coord) \<and> coord < 3 \<and> 1 < vnth sz coord \<and> len = 2
       \<or> S0 = (\<lambda>r. ghost_order sizesFirst realToGhosts (g r)) \<and> len = length (ghost_dirs sizesFirst realToGhosts sz)"
    and "(rendezvous n (\<lambda>d r. target (g r) d) ^^ m) S0 S"
  shows "m \<le> len * n \<and> (all_done n S \<longleftrightarrow> m = len * n)
    \<and> (all_done n S \<or> (\<exists>S'. rendezvous n (\<lambda>d r. target (g r) d) S S'))"
proof -
  let ?ev = "\<lambda>d r. even_pos (g r) d"
  note o = ring_odd_even [OF assms(1)]
  have sz: "gsize (g r) = sz" if "r < n" for r
    using NodeGrid_new_sel(1) assms(1) that by (auto simp: ring_nodes_def)
  from assms(3) show ?thesis
  proof
    assume a: "S0 = (\<lambda>r. exchange_order (even_pos (g r) (2 * coord)) coord) \<and> coord < 3 \<and> 1 < vnth sz coord \<and> len = 2"
    then have "set [2 * coord, 2 * coord + 1] \<subseteq> many_dirs sz" by (simp add: many_dirs_def)
    moreover have "S0 r = program ?ev [2 * coord, 2 * coord + 1] r" for r
      using a exchange_order_program [of g r coord] by simp
    moreover have "length [2 * coord, 2 * coord + 1] = len" using a by simp
    ultimately show ?thesis using odd_even.runs_end [OF o _ _ assms(4)] by metis
  next
    assume a: "S0 = (\<lambda>r. ghost_order sizesFirst realToGhosts (g r)) \<and> len = length (ghost_dirs sizesFirst realToGhosts sz)"
    then have "S0 r = program ?ev (ghost_dirs sizesFirst realToGhosts sz) r" if "r < n" for r
      using ghost_order_program [of sizesFirst realToGhosts g r] sz [OF that] by simp
    then show ?thesis using odd_even.runs_end [OF o ghost_dirs_many [OF assms(2)] _ assms(4)] a by metis
  qed
qed

text \<open>Three processes in a row: all of them are at positions 0, 1, 2, two of which are even.\<close>

theorem odd_even_exchange_ends_witness:
  "\<exists>S. rendezvous 3 (\<lambda>d r. target (ng_example (int r)) d)
     (\<lambda>r. exchange_order (even_pos (ng_example (int r)) 0) 0) S"
proof -
  have r: "ring_nodes (V3 3 1 1) (V3 6 2 2) 3 (\<lambda>r. ng_example (int r))"
    by (simp add: ring_nodes_def ng_example_new)
  have v: "vall (\<lambda>k. 0 < k) (V3 3 1 1 :: int3d)" by (simp add: vall_def)
  let ?S0 = "\<lambda>r. exchange_order (even_pos (ng_example (int r)) (2 * 0)) 0"
  have "(rendezvous 3 (\<lambda>d r. target (ng_example (int r)) d) ^^ 0) ?S0 ?S0" by simp
  from odd_even_exchange_ends [OF r v _ this, of 0 2 False False] show ?thesis
    by (auto simp: all_done_def)
qed

end
