(* ===== verification/TopologyGraph.thy ===== *)
theory TopologyGraph
  imports Esp_Prelude
begin

text \<open>
  The graphs of \<^verbatim>\<open>src/src/integrator/TopologyManager.cpp\<close>: \<^verbatim>\<open>GraphMap\<close> is a map from nodes to
  pointers to their sets of neighbors; the pointers are never null and never shared, so the model
  maps to the sets.  \<^verbatim>\<open>std::set\<close> and \<^verbatim>\<open>std::map\<close> are traversed in increasing order.  The searches
  are loops over a queue, and are shown to end and to visit exactly what is reachable.
\<close>

type_synonym graphmap = "int \<Rightarrow> int set option"

definition adj_list :: "graphmap \<Rightarrow> int \<Rightarrow> int list" where
  "adj_list g n = (case g n of None \<Rightarrow> [] | Some A \<Rightarrow> sorted_list_of_set A)"

definition graph_insert :: "int \<Rightarrow> graphmap \<Rightarrow> graphmap" where
  "graph_insert n g = (if g n = None then g(n \<mapsto> {}) else g)"

definition graph_add :: "int \<Rightarrow> int \<Rightarrow> graphmap \<Rightarrow> graphmap" where
  "graph_add n a g = (case g n of None \<Rightarrow> g | Some A \<Rightarrow> g(n \<mapsto> insert a A))"

section \<open>Breadth-first search\<close>

text \<open>The body of the inner loop of \<^verbatim>\<open>plainBFS\<close>: visited nodes, queue, subgraph.\<close>

definition bfs_visit :: "int \<Rightarrow> int \<Rightarrow> int set \<times> int list \<times> graphmap \<Rightarrow> int set \<times> int list \<times> graphmap" where
  "bfs_visit current a s =
     (let (visited, Q, h) = s;
          (visited, Q) = (if a \<notin> visited then (insert a visited, Q @ [a]) else (visited, Q));
          h = graph_add current a h;
          h = graph_insert a h;
          h = graph_add a current h
      in (visited, Q, h))"

partial_function (option) bfs_loop :: "graphmap \<Rightarrow> int set \<Rightarrow> int list \<Rightarrow> graphmap \<Rightarrow> graphmap option" where
  "bfs_loop g visited Q h =
     (case Q of [] \<Rightarrow> Some h
      | current # rest \<Rightarrow>
          (case fold (bfs_visit current) (adj_list g current) (visited, rest, graph_insert current h) of
             (visited', Q', h') \<Rightarrow> bfs_loop g visited' Q' h'))"

definition plainBFS :: "graphmap \<Rightarrow> int \<Rightarrow> graphmap option" where
  "plainBFS g r = bfs_loop g {r} [r] Map.empty"

text \<open>\<^verbatim>\<open>connectedComponents\<close> over the keys in their order.\<close>

fun components_loop :: "graphmap \<Rightarrow> int list \<Rightarrow> int set \<Rightarrow> graphmap list \<Rightarrow> graphmap list option" where
  "components_loop g [] seen ret = Some ret"
| "components_loop g (n # ns) seen ret =
     (if n \<notin> seen
      then do { h \<leftarrow> plainBFS g n; components_loop g ns (seen \<union> dom h) (ret @ [h]) }
      else components_loop g ns seen ret)"

definition connectedComponents :: "graphmap \<Rightarrow> graphmap list option" where
  "connectedComponents g = components_loop g (sorted_list_of_set (dom g)) {} []"

text \<open>\<^verbatim>\<open>isPathExists\<close>: the inner loop stops at the node looked for.\<close>

fun path_visit :: "int \<Rightarrow> int list \<Rightarrow> int set \<Rightarrow> int list \<Rightarrow> int set \<times> int list \<times> bool" where
  "path_visit node2 [] visited Q = (visited, Q, False)"
| "path_visit node2 (a # as) visited Q =
     (let (visited, Q) = (if a \<notin> visited then (insert a visited, Q @ [a]) else (visited, Q))
      in if a = node2 then (visited, Q, True) else path_visit node2 as visited Q)"

partial_function (option) path_loop :: "graphmap \<Rightarrow> int \<Rightarrow> bool \<Rightarrow> int set \<Rightarrow> int list \<Rightarrow> bool option" where
  "path_loop g node2 found visited Q =
     (if Q = [] \<or> found then Some found
      else (let r = path_visit node2 (adj_list g (hd Q)) visited (tl Q)
            in path_loop g node2 (snd (snd r)) (fst r) (fst (snd r))))"

definition isPathExists :: "graphmap \<Rightarrow> int \<Rightarrow> int \<Rightarrow> bool option" where
  "isPathExists g node1 node2 = path_loop g node2 False {node1} [node1]"

section \<open>Reachability\<close>

definition edges :: "graphmap \<Rightarrow> (int \<times> int) set" where
  "edges g = {(a, b). \<exists>A. g a = Some A \<and> b \<in> A}"

definition finite_graph :: "graphmap \<Rightarrow> bool" where
  "finite_graph g \<longleftrightarrow> finite (dom g) \<and> (\<forall>n A. g n = Some A \<longrightarrow> finite A)"

definition reach :: "graphmap \<Rightarrow> int \<Rightarrow> int set" where
  "reach g n = {m. (n, m) \<in> (edges g)\<^sup>*}"

lemma adj_list_set [simp]: "finite_graph g \<Longrightarrow> set (adj_list g n) = {m. (n, m) \<in> edges g}"
  by (cases "g n") (auto simp: adj_list_def edges_def finite_graph_def)

lemma reach_refl [simp]: "n \<in> reach g n"
  by (simp add: reach_def)

lemma reach_step: "m \<in> reach g n \<Longrightarrow> (m, k) \<in> edges g \<Longrightarrow> k \<in> reach g n"
  by (auto simp: reach_def intro: rtrancl_into_rtrancl)

lemma reach_least: "n \<in> V \<Longrightarrow> (\<And>m k. m \<in> V \<Longrightarrow> (m, k) \<in> edges g \<Longrightarrow> k \<in> V) \<Longrightarrow> reach g n \<subseteq> V"
proof -
  assume a: "n \<in> V" "\<And>m k. m \<in> V \<Longrightarrow> (m, k) \<in> edges g \<Longrightarrow> k \<in> V"
  have "m \<in> V" if "(n, m) \<in> (edges g)\<^sup>*" for m using that by induction (use a in blast)+
  then show ?thesis by (auto simp: reach_def)
qed

lemma finite_reach: "finite_graph g \<Longrightarrow> finite (reach g n)"
proof -
  assume f: "finite_graph g"
  have "edges g \<subseteq> (\<Union>a\<in>dom g. {a} \<times> the (g a))" by (force simp: edges_def)
  moreover have "finite (\<Union>a\<in>dom g. {a} \<times> the (g a))" using f by (auto simp: finite_graph_def)
  ultimately have "finite (edges g)" by (rule finite_subset)
  then have "finite (insert n (snd ` edges g))" by simp
  moreover have "reach g n \<subseteq> insert n (snd ` edges g)"
    by (rule reach_least) (auto intro: rev_image_eqI)
  ultimately show ?thesis by (rule finite_subset [rotated])
qed

lemma edges_upd: "edges (g(n \<mapsto> A)) = (edges g - {n} \<times> UNIV) \<union> {n} \<times> A"
  by (auto simp: edges_def split: if_splits)

lemma edges_insert [simp]: "edges (graph_insert n g) = edges g"
  by (auto simp: edges_def graph_insert_def split: if_splits)

lemma dom_insert [simp]: "dom (graph_insert n g) = insert n (dom g)"
  by (auto simp: graph_insert_def)

lemma edges_add: "n \<in> dom g \<Longrightarrow> edges (graph_add n a g) = insert (n, a) (edges g)"
  by (auto simp: edges_def graph_add_def split: option.splits if_splits)

lemma dom_add [simp]: "dom (graph_add n a g) = dom g"
  by (auto simp: graph_add_def split: option.splits)

section \<open>The search ends and finds the component\<close>

lemma bfs_fold:
  "fold (bfs_visit c) as (v, Q, h) = (v', Q', h') \<Longrightarrow> c \<in> dom h \<Longrightarrow>
    v' = v \<union> set as \<and> set Q' = set Q \<union> (set as - v) \<and> (distinct Q \<and> set Q \<subseteq> v \<longrightarrow> distinct Q')
    \<and> dom h' = dom h \<union> set as \<and> edges h' = edges h \<union> {c} \<times> set as \<union> set as \<times> {c}"
proof (induction "as" arbitrary: v Q h)
  case (Cons a "as")
  let ?v = "insert a v" and ?Q = "if a \<notin> v then Q @ [a] else Q"
    and ?h = "graph_add a c (graph_insert a (graph_add c a h))"
  have "bfs_visit c a (v, Q, h) = (?v, ?Q, ?h)" by (auto simp: bfs_visit_def Let_def)
  then have run: "fold (bfs_visit c) as (?v, ?Q, ?h) = (v', Q', h')" using Cons.prems(1) by simp
  have d: "dom ?h = insert a (dom h)" by auto
  have e: "edges ?h = insert (a, c) (insert (c, a) (edges h))" using Cons.prems(2) by (simp add: edges_add)
  have "c \<in> dom ?h" using Cons.prems(2) d by simp
  from Cons.IH [OF run this] show ?case unfolding d e by auto
qed simp

text \<open>What both searches keep: \<^term>\<open>v\<close> are the visited nodes, and those not in the queue are done with.\<close>

definition search_inv :: "graphmap \<Rightarrow> int \<Rightarrow> int set \<Rightarrow> int list \<Rightarrow> bool" where
  "search_inv g r v Q \<longleftrightarrow> r \<in> v \<and> v \<subseteq> reach g r \<and> set Q \<subseteq> v \<and> distinct Q
     \<and> (\<forall>a\<in>v - set Q. \<forall>k. (a, k) \<in> edges g \<longrightarrow> k \<in> v)"

lemma search_start: "search_inv g r {r} [r]"
  by (simp add: search_inv_def)

lemma search_done: "search_inv g r v [] \<Longrightarrow> v = reach g r"
  unfolding search_inv_def using reach_least [of r v g] by auto

lemma search_step:
  assumes g: "finite_graph g" and i: "search_inv g r v (c # Q)"
    and n: "v' = v \<union> {k. (c, k) \<in> edges g}" "set Q' = set Q \<union> ({k. (c, k) \<in> edges g} - v)" "distinct Q'"
  shows "search_inv g r v' Q'" "v' - set Q' = insert c (v - set (c # Q))"
    "card (reach g r - (v' - set Q')) < card (reach g r - (v - set (c # Q)))"
proof -
  have c: "c \<in> reach g r" "c \<in> v" "c \<notin> set Q" and Qv: "set Q \<subseteq> v" and vr: "v \<subseteq> reach g r"
    using i by (auto simp: search_inv_def)
  have A: "{k. (c, k) \<in> edges g} \<subseteq> reach g r" using reach_step [OF c(1)] by blast
  show p: "v' - set Q' = insert c (v - set (c # Q))" unfolding n using c Qv by auto
  have "\<forall>a\<in>v' - set Q'. \<forall>k. (a, k) \<in> edges g \<longrightarrow> k \<in> v'"
    unfolding p using i by (auto simp: search_inv_def n(1))
  moreover have "r \<in> v'" "v' \<subseteq> reach g r" using i A by (simp_all add: search_inv_def n(1))
  moreover have "set Q' \<subseteq> v'" unfolding n using Qv by blast
  ultimately show "search_inv g r v' Q'" using n(3) by (simp add: search_inv_def)
  have "reach g r - (v' - set Q') \<subset> reach g r - (v - set (c # Q))" unfolding p using c by auto
  then show "card (reach g r - (v' - set Q')) < card (reach g r - (v - set (c # Q)))"
    by (rule psubset_card_mono [rotated]) (simp add: finite_reach [OF g])
qed

text \<open>The subgraph holds the edges at the nodes that are done, both ways.\<close>

definition bfs_graph :: "graphmap \<Rightarrow> int set \<Rightarrow> int set \<Rightarrow> graphmap \<Rightarrow> bool" where
  "bfs_graph g v D h \<longleftrightarrow> dom h \<subseteq> v \<and> D \<subseteq> dom h
     \<and> edges h = {(a, b). a \<in> D \<and> (a, b) \<in> edges g} \<union> {(b, a). a \<in> D \<and> (a, b) \<in> edges g}"

lemma bfs_total:
  assumes g: "finite_graph g" and i: "search_inv g r v Q" "bfs_graph g v (v - set Q) h"
  shows "\<exists>h'. bfs_loop g v Q h = Some h' \<and> bfs_graph g (reach g r) (reach g r) h'"
  using i
proof (induction "card (reach g r - (v - set Q))" arbitrary: v Q h rule: less_induct)
  case less
  show ?case
  proof (cases Q)
    case Nil
    then show ?thesis using less.prems search_done by (subst bfs_loop.simps) auto
  next
    case (Cons c rest)
    let ?A = "{k. (c, k) \<in> edges g}"
    obtain v' Q' h' where run: "fold (bfs_visit c) (adj_list g c) (v, rest, graph_insert c h) = (v', Q', h')"
      by (cases "fold (bfs_visit c) (adj_list g c) (v, rest, graph_insert c h)") auto
    note f = bfs_fold [OF run, simplified, unfolded adj_list_set [OF g]]
    have c: "c \<in> v" "set rest \<subseteq> v" "distinct rest" using less.prems(1) by (auto simp: search_inv_def Cons)
    note s = search_step [OF g less.prems(1) [unfolded Cons], of v' Q']
    have n: "v' = v \<union> ?A" "set Q' = set rest \<union> (?A - v)" "distinct Q'" using f c by auto
    have h: "dom h' = insert c (dom h) \<union> ?A" "edges h' = edges h \<union> {c} \<times> ?A \<union> ?A \<times> {c}" using f by auto
    have "bfs_graph g v' (v' - set Q') h'"
      unfolding s(2) [OF n] using less.prems(2) c by (auto simp: bfs_graph_def h n(1) Cons)
    from less.hyps [OF _ s(1) [OF n] this] s(3) [OF n]
    show ?thesis by (subst bfs_loop.simps) (simp add: Cons run)
  qed
qed

lemma plainBFS_spec:
  assumes "finite_graph g"
  shows "\<exists>h. plainBFS g r = Some h \<and> dom h = reach g r
    \<and> edges h = {(a, b). a \<in> reach g r \<and> (a, b) \<in> edges g} \<union> {(b, a). a \<in> reach g r \<and> (a, b) \<in> edges g}"
proof -
  have "bfs_graph g {r} ({r} - set [r]) Map.empty" by (auto simp: bfs_graph_def edges_def)
  from bfs_total [OF assms search_start this] show ?thesis unfolding plainBFS_def bfs_graph_def by blast
qed

section \<open>Undirected graphs and their components\<close>

definition sym_graph :: "graphmap \<Rightarrow> bool" where
  "sym_graph g \<longleftrightarrow> sym (edges g)"

lemma reach_sym: "sym_graph g \<Longrightarrow> m \<in> reach g n \<Longrightarrow> n \<in> reach g m"
  unfolding sym_graph_def reach_def by (auto dest: sym_rtrancl [THEN symD])

lemma reach_trans: "m \<in> reach g n \<Longrightarrow> k \<in> reach g m \<Longrightarrow> k \<in> reach g n"
  by (auto simp: reach_def)

lemma reach_eq: "sym_graph g \<Longrightarrow> m \<in> reach g n \<Longrightarrow> reach g m = reach g n"
  using reach_sym reach_trans by blast

lemma components_total:
  assumes g: "finite_graph g" "sym_graph g"
    and i: "seen = (\<Union>d\<in>D. reach g d)" "distinct (map dom ret)" "set (map dom ret) = reach g ` D"
  shows "\<exists>hs. components_loop g ns seen ret = Some hs \<and> distinct (map dom hs)
    \<and> set (map dom hs) = reach g ` (D \<union> set ns)"
  using i
proof (induction ns arbitrary: seen ret D)
  case (Cons n ns)
  have U: "insert n D \<union> set ns = D \<union> set (n # ns)" by simp
  show ?case
  proof (cases "n \<in> seen")
    case True
    then obtain d where d: "d \<in> D" "n \<in> reach g d" using Cons.prems(1) by auto
    note e = reach_eq [OF g(2) d(2)]
    have "(\<Union>d\<in>insert n D. reach g d) = (\<Union>d\<in>D. reach g d)" "reach g ` insert n D = reach g ` D"
      using d(1) e by auto
    then have "\<exists>hs. components_loop g ns seen ret = Some hs \<and> distinct (map dom hs)
        \<and> set (map dom hs) = reach g ` (insert n D \<union> set ns)"
      using Cons.prems by (intro Cons.IH) simp_all
    then show ?thesis using True unfolding U by simp
  next
    case False
    obtain h where h: "plainBFS g n = Some h" "dom h = reach g n" using plainBFS_spec [OF g(1)] by blast
    have "reach g n \<noteq> reach g r" if "r \<in> D" for r
      using that False Cons.prems(1) reach_refl [of n g] by auto
    then have "reach g n \<notin> set (map dom ret)" unfolding Cons.prems(3) by blast
    then have "\<exists>hs. components_loop g ns (seen \<union> dom h) (ret @ [h]) = Some hs \<and> distinct (map dom hs)
        \<and> set (map dom hs) = reach g ` (insert n D \<union> set ns)"
      using Cons.prems h(2) by (intro Cons.IH) auto
    then show ?thesis using False h(1) unfolding U by simp
  qed
qed simp

lemma connectedComponents_spec:
  assumes "finite_graph g" "sym_graph g"
  shows "\<exists>hs. connectedComponents g = Some hs \<and> distinct (map dom hs) \<and> set (map dom hs) = reach g ` dom g"
proof -
  have "finite (dom g)" using assms by (simp add: finite_graph_def)
  then show ?thesis
    using components_total [OF assms, of "{}" "{}" "[]" "sorted_list_of_set (dom g)"]
    by (simp add: connectedComponents_def)
qed

section \<open>The search for a path\<close>

lemma path_visit_spec:
  "path_visit m as v Q = (v', Q', f) \<Longrightarrow> (f \<longleftrightarrow> m \<in> set as)
    \<and> (\<not> f \<longrightarrow> v' = v \<union> set as \<and> set Q' = set Q \<union> (set as - v) \<and> (distinct Q \<and> set Q \<subseteq> v \<longrightarrow> distinct Q'))"
proof (induction "as" arbitrary: v Q)
  case (Cons a "as")
  let ?v = "insert a v" and ?Q = "if a \<notin> v then Q @ [a] else Q"
  have p: "path_visit m (a # as) v Q = (if a = m then (?v, ?Q, True) else path_visit m as ?v ?Q)"
    by (auto simp: insert_absorb)
  show ?case
  proof (cases "a = m")
    case True
    then show ?thesis using Cons.prems p by auto
  next
    case False
    then have "path_visit m as ?v ?Q = (v', Q', f)" using Cons.prems p by simp
    from Cons.IH [OF this] show ?thesis using False by auto
  qed
qed simp

lemma path_total:
  assumes g: "finite_graph g" and i: "search_inv g r v Q" "\<forall>a\<in>v - set Q. (a, m) \<notin> edges g"
  shows "path_loop g m False v Q = Some (\<exists>a\<in>reach g r. (a, m) \<in> edges g)"
  using i
proof (induction "card (reach g r - (v - set Q))" arbitrary: v Q rule: less_induct)
  case less
  show ?case
  proof (cases Q)
    case Nil
    then show ?thesis using less.prems search_done by (subst path_loop.simps) auto
  next
    case (Cons c rest)
    obtain v' Q' f where run: "path_visit m (adj_list g c) v rest = (v', Q', f)"
      by (cases "path_visit m (adj_list g c) v rest") auto
    note p = path_visit_spec [OF run, unfolded adj_list_set [OF g]]
    have c: "c \<in> reach g r" "set rest \<subseteq> v" "distinct rest" using less.prems(1) by (auto simp: search_inv_def Cons)
    show ?thesis
    proof (cases f)
      case True
      then have "(c, m) \<in> edges g" using p by simp
      then show ?thesis using True c(1) by (subst path_loop.simps) (auto simp: Cons run path_loop.simps [of _ _ True])
    next
      case False
      note s = search_step [OF g less.prems(1) [unfolded Cons], of v' Q']
      have n: "v' = v \<union> {k. (c, k) \<in> edges g}" "set Q' = set rest \<union> ({k. (c, k) \<in> edges g} - v)" "distinct Q'"
        using p False c by auto
      have "\<forall>a\<in>v' - set Q'. (a, m) \<notin> edges g" unfolding s(2) [OF n] using less.prems(2) p False by (simp add: Cons)
      from less.hyps [OF _ s(1) [OF n] this] s(3) [OF n]
      show ?thesis using False by (subst path_loop.simps) (simp add: Cons run)
    qed
  qed
qed

lemma isPathExists_spec:
  assumes "finite_graph g"
  shows "isPathExists g n m = Some ((n, m) \<in> (edges g)\<^sup>+)"
proof -
  from path_total [OF assms search_start] have "isPathExists g n m = Some (\<exists>a\<in>reach g n. (a, m) \<in> edges g)"
    by (simp add: isPathExists_def)
  then show ?thesis
    by (auto simp: reach_def dest: tranclD2 intro: rtrancl_into_trancl1)
qed

end
