(* ===== verification/TopologyDistance.thy ===== *)
theory TopologyDistance
  imports TopologyGraph
begin

text \<open>
  The searches by distance of \<^verbatim>\<open>src/src/integrator/TopologyManager.cpp\<close>:
  \<^verbatim>\<open>getNodesAtDistances\<close>, \<^verbatim>\<open>removeNeighbourEdges\<close> and \<^verbatim>\<open>hasNeighbourParticleProperty\<close> run the same loop
  over a queue and a map \<^verbatim>\<open>visitedDistance\<close>; they differ in what they do with a node when it is met
  first (\<^term>\<open>emit\<close>) and in when they stop.  \<^verbatim>\<open>std::map::operator[]\<close> would insert 0 for a node of the
  queue without a distance; there is none.  Distances are below the number of particles, so they
  are integers.
\<close>

section \<open>The loop\<close>

definition dist_visit :: "(int \<Rightarrow> int \<Rightarrow> int \<Rightarrow> 'a \<Rightarrow> 'a) \<Rightarrow> int \<Rightarrow> int \<Rightarrow> int \<Rightarrow> int
    \<Rightarrow> int list \<times> (int \<Rightarrow> int option) \<times> 'a \<Rightarrow> int list \<times> (int \<Rightarrow> int option) \<times> 'a" where
  "dist_visit emit maxd current new_distance node s =
     (let (Q, vd, out) = s
      in if vd node = None
         then (if new_distance < maxd then Q @ [node] else Q, vd(node \<mapsto> new_distance), emit current new_distance node out)
         else (Q, vd, out))"

definition dist_of :: "(int \<Rightarrow> int option) \<Rightarrow> int \<Rightarrow> int" where
  "dist_of vd n = (case vd n of None \<Rightarrow> 0 | Some d \<Rightarrow> d)"

partial_function (option) dist_loop :: "(int \<Rightarrow> int \<Rightarrow> int \<Rightarrow> 'a \<Rightarrow> 'a) \<Rightarrow> graphmap \<Rightarrow> int \<Rightarrow> (int \<Rightarrow> bool) \<Rightarrow> int
    \<Rightarrow> int list \<Rightarrow> (int \<Rightarrow> int option) \<Rightarrow> 'a \<Rightarrow> 'a option" where
  "dist_loop emit g maxd stop new_distance Q vd out =
     (if Q = [] \<or> stop new_distance then Some out
      else (let new_distance = dist_of vd (hd Q) + 1;
                r = fold (dist_visit emit maxd (hd Q) new_distance) (adj_list g (hd Q)) (tl Q, vd, out)
            in dist_loop emit g maxd stop new_distance (fst r) (fst (snd r)) (snd (snd r))))"

definition dist_search :: "(int \<Rightarrow> int \<Rightarrow> int \<Rightarrow> 'a \<Rightarrow> 'a) \<Rightarrow> graphmap \<Rightarrow> int \<Rightarrow> (int \<Rightarrow> bool) \<Rightarrow> int \<Rightarrow> 'a \<Rightarrow> 'a option" where
  "dist_search emit g maxd stop r out = dist_loop emit g maxd stop 0 [r] [r \<mapsto> 0] out"

text \<open>\<^verbatim>\<open>getNodesAtDistances\<close>: triplets root, distance, node in one flat list.\<close>

definition nb_emit :: "int set \<Rightarrow> int \<Rightarrow> int \<Rightarrow> int \<Rightarrow> int \<Rightarrow> int list \<Rightarrow> int list" where
  "nb_emit nb_distances r current new_distance node out =
     (if new_distance \<in> nb_distances then out @ [r, new_distance, node] else out)"

definition getNodesAtDistances :: "graphmap \<Rightarrow> int set \<Rightarrow> int \<Rightarrow> int \<Rightarrow> int list option" where
  "getNodesAtDistances g nb_distances max_nb_distance r =
     dist_search (nb_emit nb_distances r) g max_nb_distance (\<lambda>_. False) r []"

text \<open>The search of \<^verbatim>\<open>hasNeighbourParticleProperty\<close>: the nodes at distance \<^verbatim>\<open>depth\<close>, by a loop that also
  stops once \<^verbatim>\<open>new_distance\<close> has reached it.\<close>

definition nodes_at_depth :: "graphmap \<Rightarrow> int \<Rightarrow> int \<Rightarrow> int set option" where
  "nodes_at_depth g r depth =
     dist_search (\<lambda>current new_distance node out. if new_distance = depth then insert node out else out)
       g depth (\<lambda>new_distance. depth \<le> new_distance) r {}"

section \<open>Distances\<close>

definition level :: "graphmap \<Rightarrow> int \<Rightarrow> nat \<Rightarrow> int set" where
  "level g r k = {m. (r, m) \<in> edges g ^^ k \<and> (\<forall>j<k. (r, m) \<notin> edges g ^^ j)}"

lemma level_0 [simp]: "level g r 0 = {r}"
  by (auto simp: level_def)

lemma level_disjoint: "m \<in> level g r j \<Longrightarrow> m \<in> level g r k \<Longrightarrow> j = k"
  unfolding level_def by (metis (mono_tags, lifting) linorder_neqE_nat mem_Collect_eq)

lemma level_Suc: "m \<in> level g r (Suc k) \<Longrightarrow> \<exists>c\<in>level g r k. (c, m) \<in> edges g"
proof -
  assume m: "m \<in> level g r (Suc k)"
  then obtain c where c: "(r, c) \<in> edges g ^^ k" "(c, m) \<in> edges g" by (auto simp: level_def)
  have "(r, c) \<notin> edges g ^^ j" if "j < k" for j
  proof
    assume "(r, c) \<in> edges g ^^ j"
    then have "(r, m) \<in> edges g ^^ Suc j" using c(2) by auto
    moreover have "(r, m) \<notin> edges g ^^ Suc j" using m that unfolding level_def by blast
    ultimately show False by contradiction
  qed
  then show ?thesis using c by (auto simp: level_def)
qed

lemma level_least: "(r, m) \<in> edges g ^^ k \<Longrightarrow> \<exists>j\<le>k. m \<in> level g r j"
proof -
  assume a: "(r, m) \<in> edges g ^^ k"
  let ?j = "LEAST j. (r, m) \<in> edges g ^^ j"
  have "(r, m) \<in> edges g ^^ ?j" using a by (rule LeastI)
  moreover have "?j \<le> k" using a by (rule Least_le)
  ultimately show ?thesis by (auto simp: level_def dest: not_less_Least)
qed

lemma level_edge: "c \<in> level g r k \<Longrightarrow> (c, m) \<in> edges g \<Longrightarrow> \<exists>j\<le>Suc k. m \<in> level g r j"
  by (rule level_least) (auto simp: level_def)

lemma level_empty: "level g r k = {} \<Longrightarrow> k \<le> j \<Longrightarrow> level g r j = {}"
proof (induction j)
  case (Suc j)
  then show ?case using level_Suc [of _ g r j] by (cases "k = Suc j") fastforce+
qed simp

lemma level_reach: "level g r k \<subseteq> reach g r"
  by (auto simp: level_def reach_def relpow_imp_rtrancl)

section \<open>The search meets every node once, at its distance\<close>

lemma dist_fold:
  "distinct as \<Longrightarrow> fold (dist_visit emit maxd c nd) as (Q, vd, out) =
     (let news = filter (\<lambda>n. vd n = None) as
      in (Q @ (if nd < maxd then news else []), (\<lambda>n. if n \<in> set news then Some nd else vd n), fold (emit c nd) news out))"
proof (induction "as" arbitrary: Q vd out)
  case (Cons a "as")
  show ?case
  proof (cases "vd a = None")
    case True
    have "filter (\<lambda>n. (vd(a \<mapsto> nd)) n = None) as = filter (\<lambda>n. vd n = None) as"
      using Cons.prems by (intro filter_cong) auto
    then show ?thesis using True Cons
      by (simp add: dist_visit_def Let_def) (auto simp: fun_eq_iff)
  next
    case False
    then obtain y where y: "vd a = Some y" by blast
    then have "dist_visit emit maxd c nd a (Q, vd, out) = (Q, vd, out)" by (simp add: dist_visit_def)
    moreover have "(\<lambda>n. if n \<in> {n \<in> set (a # as). vd n = None} then Some nd else vd n)
        = (\<lambda>n. if n \<in> {n \<in> set as. vd n = None} then Some nd else vd n)" using y by (intro ext) auto
    ultimately show ?thesis using y Cons by (simp add: Let_def)
  qed
qed (simp add: Let_def)

text \<open>
  In the queue come first the rest \<^term>\<open>A\<close> of the nodes at distance \<^term>\<open>k\<close>, then the nodes \<^term>\<open>B\<close>
  at the next distance that have been met.
\<close>

definition dist_inv :: "graphmap \<Rightarrow> int \<Rightarrow> int \<Rightarrow> nat \<Rightarrow> int list \<Rightarrow> int list \<Rightarrow> (int \<Rightarrow> int option) \<Rightarrow> bool" where
  "dist_inv g r maxd k A B vd \<longleftrightarrow>
     (\<forall>m x. vd m = Some x \<longrightarrow> 0 \<le> x \<and> nat x \<le> Suc k \<and> m \<in> level g r (nat x))
     \<and> (\<forall>j\<le>k. level g r j \<subseteq> dom vd)
     \<and> set A \<subseteq> level g r k \<and> distinct A \<and> distinct B
     \<and> set B = (if int (Suc k) < maxd then level g r (Suc k) \<inter> dom vd else {})
     \<and> (\<forall>m\<in>level g r k - set A. \<forall>n. (m, n) \<in> edges g \<longrightarrow> n \<in> dom vd)
     \<and> (k = 0 \<or> int k < maxd)"

lemma dist_inv_start: "dist_inv g r maxd 0 [r] [] [r \<mapsto> 0]"
proof -
  have "r \<notin> level g r (Suc 0)" using level_disjoint [of r g r "Suc 0" 0] by auto
  then show ?thesis by (auto simp: dist_inv_def split: if_splits)
qed

lemma dist_inv_shift:
  assumes "dist_inv g r maxd k [] B vd" "B \<noteq> []"
  shows "dist_inv g r maxd (Suc k) B [] vd"
proof -
  note i = assms(1) [unfolded dist_inv_def]
  have B: "set B = level g r (Suc k) \<inter> dom vd" "int (Suc k) < maxd" using i assms(2) by (auto split: if_splits)
  have fin: "\<forall>m\<in>level g r k. \<forall>n. (m, n) \<in> edges g \<longrightarrow> n \<in> dom vd" using i by simp
  have full: "level g r (Suc k) \<subseteq> dom vd"
  proof
    fix m assume "m \<in> level g r (Suc k)"
    from level_Suc [OF this] fin show "m \<in> dom vd" by blast
  qed
  have "level g r (Suc (Suc k)) \<inter> dom vd = {}"
  proof (rule ccontr)
    assume "level g r (Suc (Suc k)) \<inter> dom vd \<noteq> {}"
    then obtain m x where m: "m \<in> level g r (Suc (Suc k))" "vd m = Some x" by blast
    then have "nat x \<le> Suc k" "m \<in> level g r (nat x)" using i by auto
    with level_disjoint [OF m(1) this(2)] show False by simp
  qed
  then have nxt: "set [] = (if int (Suc (Suc k)) < maxd then level g r (Suc (Suc k)) \<inter> dom vd else {})"
    by simp
  have lv: "\<forall>j\<le>Suc k. level g r j \<subseteq> dom vd" using i full by (auto simp: le_Suc_eq)
  have near: "\<forall>m x. vd m = Some x \<longrightarrow> 0 \<le> x \<and> nat x \<le> Suc (Suc k) \<and> m \<in> level g r (nat x)"
    using i by (auto intro: le_SucI)
  have over: "\<forall>m\<in>level g r (Suc k) - set B. \<forall>n. (m, n) \<in> edges g \<longrightarrow> n \<in> dom vd" using B full by blast
  have "set B \<subseteq> level g r (Suc k)" "distinct B" using B(1) i by blast+
  with nxt lv near over B(2) show ?thesis unfolding dist_inv_def
    by (intro conjI) (assumption | rule distinct.simps(1) [THEN iffD2, OF TrueI] | blast)+
qed

lemma dist_inv_dist: "dist_inv g r maxd k (c # A) B vd \<Longrightarrow> vd c = Some (int k)"
proof -
  assume a: "dist_inv g r maxd k (c # A) B vd"
  then have c: "c \<in> level g r k" "c \<in> dom vd" by (auto simp: dist_inv_def)
  then obtain x where x: "vd c = Some x" by blast
  then have "0 \<le> x" "c \<in> level g r (nat x)" using a by (auto simp: dist_inv_def)
  with level_disjoint [OF c(1) this(2)] x show ?thesis by simp
qed

lemma dist_inv_step:
  assumes i: "dist_inv g r maxd k (c # A) B vd" and n: "set news = {m. (c, m) \<in> edges g \<and> vd m = None}" "distinct news"
  defines "vd' \<equiv> \<lambda>n. if n \<in> set news then Some (int k + 1) else vd n"
  shows "dist_inv g r maxd k A (B @ (if int k + 1 < maxd then news else [])) vd'"
    "set news \<subseteq> level g r (Suc k)" "c \<in> level g r k"
proof -
  note i' = i [unfolded dist_inv_def]
  have c: "c \<in> level g r k" using i' by simp
  then show "c \<in> level g r k" .
  show news: "set news \<subseteq> level g r (Suc k)"
  proof
    fix m assume "m \<in> set news"
    then have m: "(c, m) \<in> edges g" "m \<notin> dom vd" using n by auto
    from level_edge [OF c m(1)] obtain j where j: "j \<le> Suc k" "m \<in> level g r j" by blast
    have "\<not> j \<le> k" using i' j m(2) by blast
    then show "m \<in> level g r (Suc k)" using j by (metis le_antisym not_less_eq_eq)
  qed
  have d: "dom vd' = dom vd \<union> set news" by (auto simp: vd'_def split: if_splits)
  have dj: "set news \<inter> dom vd = {}" using n by auto
  have "\<forall>m x. vd' m = Some x \<longrightarrow> 0 \<le> x \<and> nat x \<le> Suc k \<and> m \<in> level g r (nat x)"
    using i' news by (auto simp: vd'_def nat_add_distrib split: if_splits)
  moreover have "\<forall>j\<le>k. level g r j \<subseteq> dom vd'" using i' unfolding d by blast
  moreover have "distinct (B @ (if int k + 1 < maxd then news else []))"
    using i' n(2) dj by (auto split: if_splits)
  moreover have "set (B @ (if int k + 1 < maxd then news else [])) = (if int (Suc k) < maxd then level g r (Suc k) \<inter> dom vd' else {})"
    using i' news unfolding d by auto
  moreover have "\<forall>m\<in>level g r k - set A. \<forall>n. (m, n) \<in> edges g \<longrightarrow> n \<in> dom vd'"
  proof (intro ballI allI impI)
    fix m k' assume m: "m \<in> level g r k - set A" "(m, k') \<in> edges g"
    show "k' \<in> dom vd'"
    proof (cases "m = c")
      case True
      then show ?thesis using m(2) n(1) unfolding d by auto
    next
      case False
      then show ?thesis using m i' unfolding d by auto
    qed
  qed
  ultimately show "dist_inv g r maxd k A (B @ (if int k + 1 < maxd then news else [])) vd'"
    using i' unfolding dist_inv_def by auto
qed

lemma dist_inv_finish:
  assumes i: "dist_inv g r maxd k [] [] vd"
  shows "vd n = Some d \<longleftrightarrow> 0 \<le> d \<and> d \<le> max 1 maxd \<and> n \<in> level g r (nat d)"
proof -
  note i' = i [unfolded dist_inv_def]
  have full: "level g r (Suc k) \<subseteq> dom vd"
  proof
    fix m assume "m \<in> level g r (Suc k)"
    from level_Suc [OF this] i' show "m \<in> dom vd" by auto
  qed
  have "level g r (Suc k) = {} \<or> maxd \<le> int (Suc k)"
    using i' full by (auto split: if_splits)
  moreover have lv: "0 \<le> x \<and> nat x \<le> Suc k \<and> m \<in> level g r (nat x)" if "vd m = Some x" for m x
    using i' that by blast
  have dv: "vd m = Some (int j)" if "j \<le> Suc k" "m \<in> level g r j" for m j
  proof -
    have "level g r j \<subseteq> dom vd"
    proof (cases "j = Suc k")
      case False
      then have "j \<le> k" using that(1) by simp
      then show ?thesis using i' by blast
    qed (use full in simp)
    then have "m \<in> dom vd" using that(2) by blast
    then obtain x where x: "vd m = Some x" by blast
    with lv [OF x] level_disjoint [OF that(2), of "nat x"] show ?thesis by simp
  qed
  show ?thesis
  proof
    assume v: "vd n = Some d"
    note l = lv [OF v]
    have "d \<le> int k \<or> d = int (Suc k)" using l by linarith
    moreover have "int k \<le> max 1 maxd" "int (Suc k) \<le> max 1 maxd" using i' by auto
    ultimately have "d \<le> max 1 maxd" by linarith
    then show "0 \<le> d \<and> d \<le> max 1 maxd \<and> n \<in> level g r (nat d)" using l by simp
  next
    assume a: "0 \<le> d \<and> d \<le> max 1 maxd \<and> n \<in> level g r (nat d)"
    have "nat d \<le> Suc k"
    proof (rule ccontr)
      assume "\<not> nat d \<le> Suc k"
      then have "level g r (Suc k) \<noteq> {}" using a level_empty [of g r "Suc k" "nat d"] by auto
      then have "maxd \<le> int (Suc k)" using \<open>level g r (Suc k) = {} \<or> maxd \<le> int (Suc k)\<close> by blast
      then show False using a \<open>\<not> nat d \<le> Suc k\<close> by linarith
    qed
    with dv [of "nat d" n] a show "vd n = Some d" by simp
  qed
qed

text \<open>The list of what the search meets: parent, distance and node, in order.\<close>

definition found :: "graphmap \<Rightarrow> int \<Rightarrow> (int \<Rightarrow> int option) \<Rightarrow> (int \<times> int \<times> int) list \<Rightarrow> bool" where
  "found g r vd ps \<longleftrightarrow> distinct (map (\<lambda>(c, d, n). n) ps) \<and> sorted (map (\<lambda>(c, d, n). d) ps)
     \<and> (\<lambda>(c, d, n). (d, n)) ` set ps = {(d, n). vd n = Some d \<and> n \<noteq> r}
     \<and> (\<forall>(c, d, n)\<in>set ps. (c, n) \<in> edges g \<and> 1 \<le> d \<and> c \<in> level g r (nat (d - 1)))"

lemma found_step:
  assumes f: "found g r vd ps" and i: "dist_inv g r maxd k (c # A) B vd"
    and n: "set news = {m. (c, m) \<in> edges g \<and> vd m = None}" "distinct news"
  shows "found g r (\<lambda>n. if n \<in> set news then Some (int k + 1) else vd n) (ps @ map (\<lambda>n. (c, int k + 1, n)) news)"
proof -
  note f' = f [unfolded found_def] and s = dist_inv_step [OF i n]
  have r: "r \<in> dom vd" using i unfolding dist_inv_def by (metis le0 level_0 singletonI subsetD)
  have eq: "(\<lambda>(c, d, n). (d, n)) ` set ps = {(d, n). vd n = Some d \<and> n \<noteq> r}" using f' by blast
  have met: "vd m = Some d" if "(c', d, m) \<in> set ps" for c' d m
  proof -
    from that have "(d, m) \<in> (\<lambda>(c, d, n). (d, n)) ` set ps" by force
    then show ?thesis unfolding eq by simp
  qed
  have "\<forall>(c', d, m)\<in>set ps. d \<le> int k + 1"
  proof clarify
    fix c' d m assume "(c', d, m) \<in> set ps"
    then have "0 \<le> d" "nat d \<le> Suc k" using met i unfolding dist_inv_def by blast+
    then show "d \<le> int k + 1" by linarith
  qed
  then have "sorted (map (\<lambda>(c, d, n). d) (ps @ map (\<lambda>n. (c, int k + 1, n)) news))"
    using f' by (auto simp: sorted_append sorted_wrt_map sorted_wrt_true o_def sorted_map)
  moreover have "distinct (map (\<lambda>(c, d, n). n) (ps @ map (\<lambda>n. (c, int k + 1, n)) news))"
    using f' n met by (auto simp: o_def)
  moreover have "(\<lambda>(c, d, n). (d, n)) ` set (ps @ map (\<lambda>n. (c, int k + 1, n)) news)
      = {(d, m). (if m \<in> set news then Some (int k + 1) else vd m) = Some d \<and> m \<noteq> r}"
    unfolding set_append image_Un eq using n r by (auto simp: image_image)
  moreover have "\<forall>(c, d, n)\<in>set (map (\<lambda>n. (c, int k + 1, n)) news). (c, n) \<in> edges g \<and> 1 \<le> d \<and> c \<in> level g r (nat (d - 1))"
    using n s(3) by auto
  ultimately show ?thesis using f' unfolding found_def by auto
qed

lemma dist_total:
  assumes g: "finite_graph g" and i: "dist_inv g r maxd k A B vd" and f: "found g r vd ps"
    and out: "out = fold (\<lambda>(c, d, n). emit c d n) ps out0"
  shows "\<exists>ps' vd'. dist_loop emit g maxd (\<lambda>_. False) nd (A @ B) vd out = Some (fold (\<lambda>(c, d, n). emit c d n) ps' out0)
    \<and> found g r vd' ps' \<and> (\<forall>n d. vd' n = Some d \<longleftrightarrow> 0 \<le> d \<and> d \<le> max 1 maxd \<and> n \<in> level g r (nat d))"
  using i f out
proof (induction "card (reach g r - (dom vd - set (A @ B)))" arbitrary: k A B vd ps out nd rule: less_induct)
  case less
  show ?case
  proof (cases "A @ B")
    case Nil
    then show ?thesis using dist_inv_finish [of g r maxd k vd] less.prems
      by (subst dist_loop.simps) (auto intro!: exI [of _ ps] exI [of _ vd])
  next
    case (Cons c Q)
    obtain k' A' B' where i': "dist_inv g r maxd k' (c # A') B' vd" "Q = A' @ B'"
    proof (cases A)
      case Nil
      then show ?thesis using that [of "Suc k" Q "[]"] dist_inv_shift [of g r maxd k B vd] less.prems(1) Cons by auto
    next
      case A: (Cons c' A'')
      then show ?thesis using that [of k A'' B] less.prems(1) Cons by auto
    qed
    define news where "news = filter (\<lambda>n. vd n = None) (adj_list g c)"
    have dis: "distinct (adj_list g c)" by (simp add: adj_list_def split: option.splits)
    then have n: "set news = {m. (c, m) \<in> edges g \<and> vd m = None}" "distinct news"
      using adj_list_set [OF g] by (auto simp: news_def)
    let ?vd = "\<lambda>n. if n \<in> set news then Some (int k' + 1) else vd n"
      and ?B = "B' @ (if int k' + 1 < maxd then news else [])"
      and ?ps = "ps @ map (\<lambda>n. (c, int k' + 1, n)) news"
    note s = dist_inv_step [OF i'(1) n] and fs = found_step [OF less.prems(2) i'(1) n]
    have vc: "dist_of vd c = int k'" using dist_inv_dist [OF i'(1)] by (simp add: dist_of_def)
    have o: "fold (emit c (int k' + 1)) news out = fold (\<lambda>(c, d, n). emit c d n) ?ps out0"
      by (simp add: less.prems(3) fold_map o_def)
    have cr: "c \<in> reach g r" "c \<notin> set (A' @ B')" "c \<in> dom vd"
    proof -
      show "c \<in> reach g r" using s(3) level_reach by blast
      have "set B' \<subseteq> level g r (Suc k')" "c \<notin> set A'" using i'(1) by (auto simp: dist_inv_def split: if_splits)
      then show "c \<notin> set (A' @ B')" using level_disjoint [OF s(3), of "Suc k'"] by auto
      show "c \<in> dom vd" using dist_inv_dist [OF i'(1)] by blast
    qed
    have "reach g r - (dom ?vd - set (A' @ ?B)) \<subset> reach g r - (dom vd - set (A @ B))"
    proof
      have "c \<in> set (A @ B)" by (simp add: Cons)
      moreover have "c \<in> dom ?vd" "c \<notin> set (A' @ ?B)" using cr n by auto
      ultimately show "reach g r - (dom ?vd - set (A' @ ?B)) \<noteq> reach g r - (dom vd - set (A @ B))" using cr(1) by blast
      have "set (A @ B) = insert c (set (A' @ B'))" using Cons i'(2) by simp
      moreover have "set (A' @ ?B) \<subseteq> set (A' @ B') \<union> set news" by auto
      moreover have "dom vd \<subseteq> dom ?vd" "set news \<inter> dom vd = {}" using n by auto
      ultimately show "reach g r - (dom ?vd - set (A' @ ?B)) \<subseteq> reach g r - (dom vd - set (A @ B))" by blast
    qed
    then have "card (reach g r - (dom ?vd - set (A' @ ?B))) < card (reach g r - (dom vd - set (A @ B)))"
      by (rule psubset_card_mono [rotated]) (simp add: finite_reach [OF g])
    from less.hyps [OF this s(1) fs o, of "int k' + 1"]
    show ?thesis
      by (subst dist_loop.simps) (simp add: Cons i'(2) vc dist_fold [OF dis] news_def [symmetric] Let_def)
  qed
qed

text \<open>All that a search which does not stop early meets, in the order it does.\<close>

definition discovery :: "graphmap \<Rightarrow> int \<Rightarrow> int \<Rightarrow> (int \<times> int \<times> int) list \<Rightarrow> bool" where
  "discovery g r maxd ps \<longleftrightarrow> distinct (map (\<lambda>(c, d, n). n) ps) \<and> sorted (map (\<lambda>(c, d, n). d) ps)
     \<and> (\<lambda>(c, d, n). (d, n)) ` set ps = {(d, n). 1 \<le> d \<and> d \<le> max 1 maxd \<and> n \<in> level g r (nat d)}
     \<and> (\<forall>(c, d, n)\<in>set ps. (c, n) \<in> edges g \<and> c \<in> level g r (nat (d - 1)))"

lemma dist_search_spec:
  assumes "finite_graph g"
  shows "\<exists>ps. dist_search emit g maxd (\<lambda>_. False) r out = Some (fold (\<lambda>(c, d, n). emit c d n) ps out) \<and> discovery g r maxd ps"
proof -
  have "found g r [r \<mapsto> 0] []" by (auto simp: found_def)
  from dist_total [OF assms dist_inv_start this, where emit = emit and out = out and ?out0.0 = out and maxd = maxd and nd = 0]
  obtain ps vd where run: "dist_search emit g maxd (\<lambda>_. False) r out = Some (fold (\<lambda>(c, d, n). emit c d n) ps out)"
    and f: "found g r vd ps" and vd: "\<And>n d. vd n = Some d \<longleftrightarrow> 0 \<le> d \<and> d \<le> max 1 maxd \<and> n \<in> level g r (nat d)"
    by (auto simp: dist_search_def)
  have "(0 \<le> d \<and> d \<le> max 1 maxd \<and> n \<in> level g r (nat d)) \<and> n \<noteq> r
      \<longleftrightarrow> 1 \<le> d \<and> d \<le> max 1 maxd \<and> n \<in> level g r (nat d)" for d n
    using level_disjoint [of r g r 0 "nat d"] by (cases "d = 0") auto
  then have "discovery g r maxd ps" using f unfolding found_def discovery_def vd by auto
  with run show ?thesis by blast
qed

lemma nb_fold: "fold (\<lambda>(c, d, n). nb_emit nds r c d n) ps out
    = out @ concat (map (\<lambda>(d, n). [r, d, n]) (filter (\<lambda>(d, n). d \<in> nds) (map snd ps)))"
  by (induction ps arbitrary: out) (auto simp: nb_emit_def split: prod.splits)

lemma getNodesAtDistances_spec:
  assumes "finite_graph g" and nds: "\<forall>d\<in>nds. 1 \<le> d \<and> d \<le> maxd"
  shows "\<exists>ps. getNodesAtDistances g nds maxd r = Some (concat (map (\<lambda>(d, n). [r, d, n]) ps))
    \<and> distinct ps \<and> sorted (map fst ps) \<and> set ps = {(d, n). d \<in> nds \<and> n \<in> level g r (nat d)}"
proof -
  obtain ps where run: "getNodesAtDistances g nds maxd r = Some (fold (\<lambda>(c, d, n). nb_emit nds r c d n) ps [])"
    and d: "discovery g r maxd ps"
    using dist_search_spec [OF assms(1), of "nb_emit nds r" maxd r "[]"] unfolding getNodesAtDistances_def by blast
  let ?qs = "filter (\<lambda>(d, n). d \<in> nds) (map snd ps)"
  have ms: "map (\<lambda>(c, d, n). d) ps = map fst (map snd ps)" "map (\<lambda>(c, d, n). n) ps = map snd (map snd ps)"
    "(\<lambda>(c, d, n). (d, n)) ` set ps = set (map snd ps)" by force+
  note d' = d [unfolded discovery_def ms]
  have "distinct ?qs" using d' by (intro distinct_filter) (simp only: distinct_map)
  moreover have "sorted (map fst ?qs)" using d' sorted_filter [of fst "map snd ps"] by simp
  moreover have "set ?qs = {(d, n). d \<in> nds \<and> n \<in> level g r (nat d)}"
  proof -
    have "set (map snd ps) = {(d, n). 1 \<le> d \<and> d \<le> max 1 maxd \<and> n \<in> level g r (nat d)}" using d' by blast
    then show ?thesis unfolding set_filter using nds by (auto simp: max_def)
  qed
  ultimately show ?thesis using run by (intro exI [of _ ?qs]) (simp only: nb_fold append_Nil simp_thms)
qed

lemma nodes_at_depth_1:
  assumes "finite_graph g"
  shows "nodes_at_depth g r 1 = Some {n. (r, n) \<in> edges g \<and> n \<noteq> r}"
proof -
  have d: "distinct (adj_list g r)" by (simp add: adj_list_def split: option.splits)
  have e: "fold (\<lambda>n out. if (1::int) = 1 then insert n out else out) xs A = A \<union> set xs" for xs and A :: "int set"
    by (induction xs arbitrary: A) auto
  have "{x \<in> set (adj_list g r). [r \<mapsto> 0::int] x = None} = {n. (r, n) \<in> edges g \<and> n \<noteq> r}"
    using adj_list_set [OF assms] by auto
  then show ?thesis unfolding nodes_at_depth_def dist_search_def
    by (simp add: dist_loop.simps [of _ _ _ _ 0] dist_loop.simps [of _ _ _ _ 1] dist_of_def dist_fold [OF d] Let_def e [simplified])
qed

end
