(* ===== verification/Topology.thy ===== *)
theory Topology
  imports TopologyDistance Buffers
begin

text \<open>
  The global state of \<^verbatim>\<open>src/src/integrator/TopologyManager.cpp\<close>, equal on every process: the graph of
  bonds, the graph of residues, and the residue and the molecule of every particle, each as a map
  and as the sets of its classes.  An exception is an \<^verbatim>\<open>Inl\<close>; what the code changed before it threw is
  not kept, for nothing catches it.  A search that would not end is \<^term>\<open>None\<close>, and so is an overflow.
\<close>

datatype topo_error = ResID_is_0 | ResID_already_set | Wrong_initialization | ResID_not_found | MolID_not_found
  | Mol_set_not_found | Edge_does_not_exist | Different_molecules | Residue_set_not_found | ResGraph_not_found
  | Tuple_not_found | Ambiguous_distance | Node_not_found | Multiple_updates | No_properties | Already_defined
  | Out_of_range

record topology =
  graph :: graphmap
  res_graph :: graphmap
  residues :: graphmap
  molecules :: graphmap
  pid_rid :: "int \<Rightarrow> int option"
  pid_mid :: "int \<Rightarrow> int option"
  max_mol_id :: int

definition find_or :: "'e \<Rightarrow> 'a option \<Rightarrow> 'e + 'a" where
  "find_or e x = (case x of None \<Rightarrow> Inl e | Some y \<Rightarrow> Inr y)"

lemma find_or_simps [simp]: "find_or e None = Inl e" "find_or e (Some x) = Inr x"
  by (simp_all add: find_or_def)

lemma find_or_Inr [simp]: "find_or e x = Inr y \<longleftrightarrow> x = Some y"
  by (cases x) simp_all

section \<open>New edges\<close>

definition newResEdge :: "int \<Rightarrow> int \<Rightarrow> topology \<Rightarrow> topology" where
  "newResEdge rpid1 rpid2 t =
     t\<lparr>res_graph := graph_add rpid2 rpid1 (graph_add rpid1 rpid2 (graph_insert rpid2 (graph_insert rpid1 (res_graph t))))\<rparr>"

definition mergeMolecules :: "int \<Rightarrow> int \<Rightarrow> topology \<Rightarrow> topo_error + topology" where
  "mergeMolecules mid1 mid2 t =
     ebind (find_or Mol_set_not_found (molecules t mid2)) (\<lambda>pset.
     ebind (find_or Mol_set_not_found (molecules t mid1)) (\<lambda>s.
       Inr (t\<lparr>molecules := (molecules t)(mid1 \<mapsto> s \<union> pset, mid2 := None),
              pid_mid := (\<lambda>p. if p \<in> pset then Some mid1 else pid_mid t p)\<rparr>)))"

definition newEdge :: "int \<Rightarrow> int \<Rightarrow> topology \<Rightarrow> topo_error + topology" where
  "newEdge pid1 pid2 t =
     (let t = t\<lparr>graph := graph_add pid2 pid1 (graph_add pid1 pid2 (graph_insert pid2 (graph_insert pid1 (graph t))))\<rparr>
      in ebind (find_or ResID_not_found (pid_rid t pid1)) (\<lambda>rpid1.
         ebind (find_or ResID_not_found (pid_rid t pid2)) (\<lambda>rpid2.
           let t = newResEdge rpid1 rpid2 t
           in ebind (find_or MolID_not_found (pid_mid t pid1)) (\<lambda>mid1.
              ebind (find_or MolID_not_found (pid_mid t pid2)) (\<lambda>mid2.
                if mid1 \<noteq> mid2 then mergeMolecules mid1 mid2 t else Inr t)))))"

fun newEdges :: "(int \<times> int) list \<Rightarrow> topology \<Rightarrow> topo_error + topology" where
  "newEdges [] t = Inr t"
| "newEdges ((a, b) # es) t = ebind (newEdge a b t) (newEdges es)"

section \<open>Removed edges\<close>

definition graph_erase :: "int \<Rightarrow> int \<Rightarrow> graphmap \<Rightarrow> graphmap" where
  "graph_erase n a g = (case g n of None \<Rightarrow> g | Some A \<Rightarrow> g(n \<mapsto> A - {a}))"

definition has_edge :: "graphmap \<Rightarrow> int \<Rightarrow> int \<Rightarrow> bool" where
  "has_edge g n a = (case g n of None \<Rightarrow> False | Some A \<Rightarrow> a \<in> A)"

text \<open>The two loops over the particles of the residues that set \<^verbatim>\<open>hasBond\<close>.\<close>

definition hasBond :: "graphmap \<Rightarrow> int set \<Rightarrow> int set \<Rightarrow> bool" where
  "hasBond g P1 P2 \<longleftrightarrow> (\<exists>p1\<in>P1. \<exists>p2\<in>P2. has_edge g p1 p2)"

text \<open>The residues of \<^verbatim>\<open>unique_res_ids\<close> in their order: their particles leave the old set for the new one.\<close>

fun split_loop :: "graphmap \<Rightarrow> int \<Rightarrow> int list \<Rightarrow> int set \<times> (int \<Rightarrow> int option) \<times> int set
    \<Rightarrow> topo_error + (int set \<times> (int \<Rightarrow> int option) \<times> int set)" where
  "split_loop res new [] st = Inr st"
| "split_loop res new (r # rs) (M, pm, s) =
     ebind (find_or Residue_set_not_found (res r)) (\<lambda>P.
       split_loop res new rs (M - P, (\<lambda>p. if p \<in> P then Some new else pm p), s \<union> P))"

text \<open>\<^verbatim>\<open>max_mol_id_++\<close> is on 32 bits; at the largest number it is undefined, \<^term>\<open>None\<close>.\<close>

definition splitMolecule :: "int set \<Rightarrow> int \<Rightarrow> topology \<Rightarrow> (topo_error + topology) option" where
  "splitMolecule unique_res_ids mid1 t =
     (if unique_res_ids = {} then Some (Inr t)
      else do { new \<leftarrow> add_int (max_mol_id t) 1;
                let fresh = (molecules t new = None);
                let ms = (if fresh then (molecules t)(new \<mapsto> {}) else molecules t);
                Some (ebind (find_or Out_of_range (ms mid1)) (\<lambda>M.
                  ebind (split_loop (residues t) new (sorted_list_of_set unique_res_ids) (M, pid_mid t, {})) (\<lambda>(M, pm, s).
                    Inr (t\<lparr>max_mol_id := new, pid_mid := pm,
                           molecules := (if fresh then (molecules t)(mid1 \<mapsto> M, new \<mapsto> s) else (molecules t)(mid1 \<mapsto> M))\<rparr>)))) })"

definition eraseResEdge :: "int \<Rightarrow> int \<Rightarrow> topology \<Rightarrow> topo_error + topology" where
  "eraseResEdge rid1 rid2 t =
     ebind (find_or ResGraph_not_found (res_graph t rid1)) (\<lambda>A.
       let g = graph_erase rid1 rid2 (res_graph t)
       in ebind (find_or ResGraph_not_found (g rid2)) (\<lambda>B. Inr (t\<lparr>res_graph := graph_erase rid2 rid1 g\<rparr>)))"

text \<open>The part of \<^verbatim>\<open>deleteEdge\<close> that runs when no bond is left between the two residues.\<close>

definition disconnectResidues :: "int \<Rightarrow> int \<Rightarrow> int \<Rightarrow> topology \<Rightarrow> (topo_error + topology) option" where
  "disconnectResidues rid1 rid2 mid1 t =
     (case eraseResEdge rid1 rid2 t of Inl e \<Rightarrow> Some (Inl e)
      | Inr t \<Rightarrow> do { graph_r1 \<leftarrow> plainBFS (res_graph t) rid1;
                   graph_r2 \<leftarrow> plainBFS (res_graph t) rid2;
                   splitMolecule (dom graph_r1 - dom graph_r2) mid1 t })"

text \<open>\<^verbatim>\<open>deleteEdge\<close> after \<^verbatim>\<open>removeBond\<close>.\<close>

definition eraseEdge :: "int \<Rightarrow> int \<Rightarrow> topology \<Rightarrow> (topo_error + topology) option" where
  "eraseEdge pid1 pid2 t =
     (if graph t pid1 = None \<and> graph t pid2 = None then Some (Inl Edge_does_not_exist)
      else let t = t\<lparr>graph := graph_erase pid2 pid1 (graph_erase pid1 pid2 (graph t))\<rparr>
      in case ebind (find_or ResID_not_found (pid_rid t pid1)) (\<lambda>rid1.
              ebind (find_or ResID_not_found (pid_rid t pid2)) (\<lambda>rid2.
              ebind (find_or MolID_not_found (pid_mid t pid1)) (\<lambda>mid1.
              ebind (find_or MolID_not_found (pid_mid t pid2)) (\<lambda>mid2.
                if mid1 \<noteq> mid2 then Inl Different_molecules
                else if rid1 = rid2 then Inr (rid1, rid2, mid1, True)
                else ebind (find_or Residue_set_not_found (residues t rid1)) (\<lambda>Pset1.
                     ebind (find_or Residue_set_not_found (residues t rid2)) (\<lambda>Pset2.
                       Inr (rid1, rid2, mid1, hasBond (graph t) Pset1 Pset2))))))) of
           Inl e \<Rightarrow> Some (Inl e)
         | Inr (rid1, rid2, mid1, bonded) \<Rightarrow> if bonded then Some (Inr t) else disconnectResidues rid1 rid2 mid1 t)"

section \<open>Queries\<close>

definition isParticleConnected :: "topology \<Rightarrow> int \<Rightarrow> int \<Rightarrow> bool" where
  "isParticleConnected t pid1 pid2 = has_edge (graph t) pid1 pid2"

text \<open>\<^verbatim>\<open>pid_rid[pid]\<close> of \<^verbatim>\<open>std::map\<close> inserts 0 for a particle it does not know.\<close>

definition map_at :: "(int \<Rightarrow> int option) \<Rightarrow> int \<Rightarrow> int \<times> (int \<Rightarrow> int option)" where
  "map_at f p = (case f p of None \<Rightarrow> (0, f(p \<mapsto> 0)) | Some r \<Rightarrow> (r, f))"

definition getResId :: "int \<Rightarrow> topology \<Rightarrow> int \<times> topology" where
  "getResId pid t = (let (r, f) = map_at (pid_rid t) pid in (r, t\<lparr>pid_rid := f\<rparr>))"

definition getMoleculeId :: "int \<Rightarrow> topology \<Rightarrow> int \<times> topology" where
  "getMoleculeId pid t = (let (m, f) = map_at (pid_mid t) pid in (m, t\<lparr>pid_mid := f\<rparr>))"

definition isResiduesConnected :: "int \<Rightarrow> int \<Rightarrow> topology \<Rightarrow> bool \<times> topology" where
  "isResiduesConnected pid1 pid2 t =
     (let (rid1, t) = getResId pid1 t; (rid2, t) = getResId pid2 t in (has_edge (res_graph t) rid1 rid2, t))"

definition isSameResidues :: "int \<Rightarrow> int \<Rightarrow> topology \<Rightarrow> bool \<times> topology" where
  "isSameResidues pid1 pid2 t = (let (rid1, t) = getResId pid1 t; (rid2, t) = getResId pid2 t in (rid1 = rid2, t))"

definition isSameMolecule :: "int \<Rightarrow> int \<Rightarrow> topology \<Rightarrow> bool \<times> topology" where
  "isSameMolecule pid1 pid2 t =
     (let (mid1, t) = getMoleculeId pid1 t; (mid2, t) = getMoleculeId pid2 t in (mid1 = mid2, t))"

definition getNeighbourLists :: "topology \<Rightarrow> (int \<times> int list) list" where
  "getNeighbourLists t = map (\<lambda>n. (n, adj_list (graph t) n)) (sorted_list_of_set (dom (graph t)))"

section \<open>Initialization\<close>

text \<open>What one process contributes: particle and residue of its real particles, and the pairs of its lists.\<close>

type_synonym contribution = "(int \<times> int) list \<times> (int \<times> int) list"

definition topology_empty :: topology where
  "topology_empty = \<lparr>graph = Map.empty, res_graph = Map.empty, residues = Map.empty, molecules = Map.empty,
     pid_rid = Map.empty, pid_mid = Map.empty, max_mol_id = 0\<rparr>"

definition addResidue :: "int \<Rightarrow> int \<Rightarrow> topology \<Rightarrow> topo_error + topology" where
  "addResidue pid rid t =
     (if rid = 0 then Inl ResID_is_0
      else if pid_rid t pid \<noteq> None then Inl ResID_already_set
      else Inr (t\<lparr>pid_rid := (pid_rid t)(pid \<mapsto> rid),
                  pid_mid := (if pid_mid t pid = None then (pid_mid t)(pid \<mapsto> rid) else pid_mid t),
                  max_mol_id := (if molecules t rid = None then max (max_mol_id t) rid else max_mol_id t),
                  residues := graph_add rid pid (graph_insert rid (residues t)),
                  molecules := graph_add rid pid (graph_insert rid (molecules t))\<rparr>))"

fun addResidues :: "(int \<times> int) list \<Rightarrow> topology \<Rightarrow> topo_error + topology" where
  "addResidues [] t = Inr t"
| "addResidues ((pid, rid) # ps) t = ebind (addResidue pid rid t) (addResidues ps)"

text \<open>The numbers of particles sent and received always agree here, for the message is read as it was written.\<close>

definition initializeTopology :: "contribution list \<Rightarrow> topo_error + topology" where
  "initializeTopology cs =
     ebind (addResidues (concat (map fst cs)) topology_empty) (newEdges (concat (map snd cs)))"

end
