(* ===== verification/TopologyInv.thy ===== *)
theory TopologyInv
  imports Topology
begin

text \<open>
  The invariant of the topology: the graphs are finite and symmetric, residues and molecules are the
  classes of their maps, two residues are joined as long as a bond joins them, and two particles
  are in one molecule if and only if their residues are connected.  New and removed edges keep it.
\<close>

section \<open>Symmetric closures with one more edge\<close>

lemma sym_link:
  assumes R: "sym R" and S: "S = R \<union> {(a, b), (b, a)}"
  shows "(x, y) \<in> S\<^sup>* \<longleftrightarrow> (x, y) \<in> R\<^sup>* \<or> (x, a) \<in> R\<^sup>* \<and> (b, y) \<in> R\<^sup>* \<or> (x, b) \<in> R\<^sup>* \<and> (a, y) \<in> R\<^sup>*"
    (is "_ \<longleftrightarrow> ?L x y")
proof
  assume "(x, y) \<in> S\<^sup>*"
  then show "?L x y"
  proof induction
    case (step y z)
    have sy: "(p, q) \<in> R\<^sup>* \<Longrightarrow> (q, p) \<in> R\<^sup>*" for p q using sym_rtrancl [OF R] by (rule symD)
    note tr = rtrancl_trans [of _ _ R]
    consider "(y, z) \<in> R" | "y = a" "z = b" | "y = b" "z = a" using step.hyps(2) S by auto
    then show ?case
    proof cases
      case 1
      then show ?thesis using step.IH by (meson rtrancl_into_rtrancl)
    next
      case 2
      then show ?thesis using step.IH sy tr by blast
    next
      case 3
      then show ?thesis using step.IH sy tr by blast
    qed
  qed simp
next
  have sub: "R\<^sup>* \<subseteq> S\<^sup>*" by (rule rtrancl_mono) (auto simp: S)
  have ab: "(a, b) \<in> S\<^sup>*" "(b, a) \<in> S\<^sup>*" by (auto simp: S)
  assume "?L x y"
  then consider "(x, y) \<in> S\<^sup>*" | "(x, a) \<in> S\<^sup>*" "(b, y) \<in> S\<^sup>*" | "(x, b) \<in> S\<^sup>*" "(a, y) \<in> S\<^sup>*" using sub by blast
  then show "(x, y) \<in> S\<^sup>*"
    by cases (assumption, rule rtrancl_trans [OF _ rtrancl_trans [OF ab(1)]], assumption+,
        rule rtrancl_trans [OF _ rtrancl_trans [OF ab(2)]], assumption+)
qed

lemma sym_pair: "sym R \<Longrightarrow> sym (R \<union> {(a, b), (b, a)})" "sym R \<Longrightarrow> sym (R - {(a, b), (b, a)})"
  by (auto simp: sym_def)

section \<open>The edges after an operation\<close>

definition link :: "int \<Rightarrow> int \<Rightarrow> (int \<times> int) set" where
  "link a b = {(a, b), (b, a)}"

lemma edges_link: "edges (graph_add b a (graph_add a b (graph_insert b (graph_insert a g)))) = edges g \<union> link a b"
  by (simp add: edges_add link_def) auto

lemma dom_link: "dom (graph_add b a (graph_add a b (graph_insert b (graph_insert a g)))) = dom g \<union> {a, b}"
  by auto

lemma dom_erase [simp]: "dom (graph_erase n a g) = dom g"
  by (auto simp: graph_erase_def split: option.splits)

lemma edges_erase: "edges (graph_erase n a g) = edges g - {(n, a)}"
  by (cases "g n") (auto simp: graph_erase_def edges_def split: if_splits)

lemma edges_unlink: "edges (graph_erase b a (graph_erase a b g)) = edges g - link a b"
  by (auto simp: edges_erase link_def)

lemma finite_graph_iff: "finite_graph g \<longleftrightarrow> finite (dom g) \<and> finite (edges g)"
proof
  assume f: "finite_graph g"
  have "edges g \<subseteq> (\<Union>a\<in>dom g. {a} \<times> the (g a))" by (force simp: edges_def)
  moreover have "finite (\<Union>a\<in>dom g. {a} \<times> the (g a))" using f by (auto simp: finite_graph_def)
  ultimately show "finite (dom g) \<and> finite (edges g)" using f finite_subset unfolding finite_graph_def by blast
next
  assume f: "finite (dom g) \<and> finite (edges g)"
  have "finite A" if "g n = Some A" for n A
  proof -
    have "A \<subseteq> snd ` edges g" using that by (force simp: edges_def)
    then show ?thesis using f finite_subset by blast
  qed
  then show "finite_graph g" using f by (auto simp: finite_graph_def)
qed

lemma has_edge_iff: "has_edge g a b \<longleftrightarrow> (a, b) \<in> edges g"
  by (auto simp: has_edge_def edges_def split: option.splits)

lemma hasBond_iff: "hasBond g A B \<longleftrightarrow> (\<exists>a\<in>A. \<exists>b\<in>B. (a, b) \<in> edges g)"
  by (simp add: hasBond_def has_edge_iff)

section \<open>Classes\<close>

definition classes_of :: "(int \<Rightarrow> int option) \<Rightarrow> graphmap \<Rightarrow> bool" where
  "classes_of f C \<longleftrightarrow> (\<forall>k A. C k = Some A \<longleftrightarrow> A = {p. f p = Some k} \<and> A \<noteq> {})"

lemma classes_at: "classes_of f C \<Longrightarrow> f p = Some k \<Longrightarrow> C k = Some {p. f p = Some k}"
  by (auto simp: classes_of_def)

lemma classes_none: "classes_of f C \<Longrightarrow> C k = None \<longleftrightarrow> (\<forall>p. f p \<noteq> Some k)"
  unfolding classes_of_def by (metis (mono_tags, lifting) empty_Collect_eq not_None_eq)

lemma classes_ofI:
  assumes "\<And>k p. f p = Some k \<Longrightarrow> C k = Some {p. f p = Some k}" "\<And>k. \<forall>p. f p \<noteq> Some k \<Longrightarrow> C k = None"
  shows "classes_of f C"
  unfolding classes_of_def
proof (intro allI iffI)
  fix k A assume C: "C k = Some A"
  then obtain p where "f p = Some k" using assms(2) [of k] by auto
  with assms(1) [OF this] C show "A = {p. f p = Some k} \<and> A \<noteq> {}" by auto
next
  fix k A assume "A = {p. f p = Some k} \<and> A \<noteq> {}"
  then show "C k = Some A" using assms(1) by auto
qed

section \<open>The invariant\<close>

text \<open>Two residues are joined as long as a bond joins them.\<close>

definition res_rel :: "(int \<Rightarrow> int option) \<Rightarrow> (int \<times> int) set \<Rightarrow> (int \<times> int) set \<Rightarrow> bool" where
  "res_rel f E R \<longleftrightarrow> (\<forall>r1 r2. r1 \<noteq> r2 \<longrightarrow> ((r1, r2) \<in> R \<longleftrightarrow> (\<exists>p1 p2. f p1 = Some r1 \<and> f p2 = Some r2 \<and> (p1, p2) \<in> E)))"

text \<open>The particles of connected residues are those of one molecule.\<close>

definition mol_rel :: "(int \<Rightarrow> int option) \<Rightarrow> (int \<Rightarrow> int option) \<Rightarrow> (int \<times> int) set \<Rightarrow> bool" where
  "mol_rel f m R \<longleftrightarrow> (\<forall>p q r1 r2. f p = Some r1 \<longrightarrow> f q = Some r2 \<longrightarrow> (m p = m q \<longleftrightarrow> (r1, r2) \<in> R\<^sup>*))"

definition graphs_ok :: "topology \<Rightarrow> bool" where
  "graphs_ok t \<longleftrightarrow> finite_graph (graph t) \<and> sym_graph (graph t) \<and> dom (graph t) \<subseteq> dom (pid_rid t)
     \<and> finite_graph (res_graph t) \<and> sym_graph (res_graph t)
     \<and> (\<forall>p r. p \<in> dom (graph t) \<longrightarrow> pid_rid t p = Some r \<longrightarrow> r \<in> dom (res_graph t))
     \<and> res_rel (pid_rid t) (edges (graph t)) (edges (res_graph t))
     \<and> finite (dom (pid_rid t)) \<and> classes_of (pid_rid t) (residues t)"

definition molecules_ok :: "topology \<Rightarrow> bool" where
  "molecules_ok t \<longleftrightarrow> dom (pid_mid t) = dom (pid_rid t) \<and> classes_of (pid_mid t) (molecules t)
     \<and> mol_rel (pid_rid t) (pid_mid t) (edges (res_graph t))
     \<and> (\<forall>p m. pid_mid t p = Some m \<longrightarrow> m \<le> max_mol_id t)"

definition topo_ok :: "topology \<Rightarrow> bool" where
  "topo_ok t \<longleftrightarrow> graphs_ok t \<and> molecules_ok t"

section \<open>A new edge keeps it\<close>

lemma res_rel_link:
  assumes "res_rel f E R" "sym E" "f a = Some r1" "f b = Some r2"
  shows "res_rel f (E \<union> link a b) (R \<union> link r1 r2)"
  unfolding res_rel_def
proof (intro allI impI)
  fix x y :: int assume n: "x \<noteq> y"
  have "(x, y) \<in> R \<longleftrightarrow> (\<exists>p1 p2. f p1 = Some x \<and> f p2 = Some y \<and> (p1, p2) \<in> E)"
    using assms(1) n by (simp add: res_rel_def)
  moreover have "(\<exists>p1 p2. f p1 = Some x \<and> f p2 = Some y \<and> (p1, p2) \<in> link a b) \<longleftrightarrow> (x, y) \<in> link r1 r2"
    using assms(3,4) by (auto simp: link_def)
  ultimately show "(x, y) \<in> R \<union> link r1 r2 \<longleftrightarrow> (\<exists>p1 p2. f p1 = Some x \<and> f p2 = Some y \<and> (p1, p2) \<in> E \<union> link a b)"
    by blast
qed

lemma finite_link: "finite_graph g \<Longrightarrow> finite_graph (graph_add b a (graph_add a b (graph_insert b (graph_insert a g))))"
  unfolding finite_graph_iff edges_link dom_link by (simp add: link_def)

lemma sym_link_graph: "sym_graph g \<Longrightarrow> sym_graph (graph_add b a (graph_add a b (graph_insert b (graph_insert a g))))"
  unfolding sym_graph_def edges_link link_def by (rule sym_pair)

lemma mol_rel_merge:
  assumes R: "mol_rel f m R" "sym R" and ab: "f a = Some r1" "f b = Some r2" "m a = Some m1" "m b = Some m2"
    and S: "S = R \<union> link r1 r2" and m': "m' = (\<lambda>p. if m p = Some m2 then Some m1 else m p)"
  shows "mol_rel f m' S"
  unfolding mol_rel_def
proof (intro allI impI)
  fix p q x y assume pq: "f p = Some x" "f q = Some y"
  note s = sym_link [OF R(2) S [unfolded link_def]]
  have i: "m p = m q \<longleftrightarrow> (x, y) \<in> R\<^sup>*" "m p = m a \<longleftrightarrow> (x, r1) \<in> R\<^sup>*" "m b = m q \<longleftrightarrow> (r2, y) \<in> R\<^sup>*"
    "m p = m b \<longleftrightarrow> (x, r2) \<in> R\<^sup>*" "m a = m q \<longleftrightarrow> (r1, y) \<in> R\<^sup>*"
    using R(1) pq ab unfolding mol_rel_def by blast+
  show "m' p = m' q \<longleftrightarrow> (x, y) \<in> S\<^sup>*"
    unfolding s i [symmetric] m' ab(3,4) by auto
qed

lemma classes_merge:
  assumes "classes_of f C" "f a = Some k1" "f b = Some k2" "k1 \<noteq> k2"
    and "f' = (\<lambda>p. if f p = Some k2 then Some k1 else f p)"
    and "C' = C(k1 \<mapsto> {p. f p = Some k1} \<union> {p. f p = Some k2}, k2 := None)"
  shows "classes_of f' C'"
proof (rule classes_ofI)
  fix k p assume p: "f' p = Some k"
  show "C' k = Some {p. f' p = Some k}"
  proof (cases "k = k1")
    case True
    have "{p. f' p = Some k1} = {p. f p = Some k1} \<union> {p. f p = Some k2}" by (auto simp: assms(5))
    then show ?thesis using True assms(4) by (simp add: assms(6))
  next
    case False
    then have "k \<noteq> k2" "f p = Some k" using p by (auto simp: assms(5) split: if_splits)
    moreover from this False have "{p. f' p = Some k} = {p. f p = Some k}" by (auto simp: assms(5))
    ultimately show ?thesis using False classes_at [OF assms(1)] by (simp add: assms(6))
  qed
next
  fix k assume n: "\<forall>p. f' p \<noteq> Some k"
  have "f' a = Some k1" using assms(2) by (simp add: assms(5))
  then have "k \<noteq> k1" using n by blast
  show "C' k = None"
  proof (cases "k = k2")
    case False
    have "f p \<noteq> Some k" for p using n [rule_format, of p] False by (auto simp: assms(5) split: if_splits)
    then have "C k = None" using classes_none [OF assms(1)] by blast
    then show ?thesis using \<open>k \<noteq> k1\<close> by (simp add: assms(6))
  qed (simp add: assms(6))
qed

lemma newEdge_ok:
  assumes t: "topo_ok t" and a: "pid_rid t a = Some r1" and b: "pid_rid t b = Some r2"
  shows "\<exists>t'. newEdge a b t = Inr t' \<and> topo_ok t' \<and> edges (graph t') = edges (graph t) \<union> link a b
    \<and> dom (graph t') = dom (graph t) \<union> {a, b} \<and> pid_rid t' = pid_rid t \<and> residues t' = residues t"
proof -
  note g = t [unfolded topo_ok_def graphs_ok_def] and m = t [unfolded topo_ok_def molecules_ok_def]
  obtain m1 m2 where ab: "pid_mid t a = Some m1" "pid_mid t b = Some m2" using m a b by blast
  define t1 where "t1 = newResEdge r1 r2 (t\<lparr>graph := graph_add b a (graph_add a b (graph_insert b (graph_insert a (graph t))))\<rparr>)"
  have t1: "edges (graph t1) = edges (graph t) \<union> link a b" "dom (graph t1) = dom (graph t) \<union> {a, b}"
    "edges (res_graph t1) = edges (res_graph t) \<union> link r1 r2" "dom (res_graph t1) = dom (res_graph t) \<union> {r1, r2}"
    "pid_rid t1 = pid_rid t" "residues t1 = residues t" "pid_mid t1 = pid_mid t" "molecules t1 = molecules t" "max_mol_id t1 = max_mol_id t"
    "finite_graph (graph t1)" "sym_graph (graph t1)" "finite_graph (res_graph t1)" "sym_graph (res_graph t1)"
    using g by (auto simp: t1_def newResEdge_def edges_link dom_link finite_link sym_link_graph)
  have "res_rel (pid_rid t1) (edges (graph t1)) (edges (res_graph t1))"
    unfolding t1 using g a b by (intro res_rel_link) (auto simp: sym_graph_def)
  then have g1: "graphs_ok t1" unfolding graphs_ok_def using t1 g a b by auto
  define pm where "pm = (\<lambda>p. if pid_mid t p = Some m2 then Some m1 else pid_mid t p)"
  have mr: "mol_rel (pid_rid t1) pm (edges (res_graph t1))"
    using mol_rel_merge [OF _ _ a b ab t1(3) pm_def] m g unfolding t1(5) sym_graph_def by blast
  have run: "newEdge a b t = (if m1 \<noteq> m2 then mergeMolecules m1 m2 t1 else Inr t1)"
    using a b ab by (simp add: newEdge_def t1_def newResEdge_def)
  show ?thesis
  proof (cases "m1 = m2")
    case True
    then have "pm = pid_mid t1" by (auto simp: pm_def t1)
    then have "molecules_ok t1" using m mr unfolding molecules_ok_def t1 by simp
    then show ?thesis using True run g1 t1 by (simp add: topo_ok_def)
  next
    case False
    have c: "molecules t1 m1 = Some {p. pid_mid t p = Some m1}" "molecules t1 m2 = Some {p. pid_mid t p = Some m2}"
      using m ab classes_at unfolding t1 by blast+
    define ms where "ms = (molecules t)(m1 \<mapsto> {p. pid_mid t p = Some m1} \<union> {p. pid_mid t p = Some m2}, m2 := None)"
    let ?t = "t1\<lparr>molecules := ms, pid_mid := pm\<rparr>"
    have r: "newEdge a b t = Inr ?t" using run False c by (simp add: mergeMolecules_def ms_def pm_def t1 cong: if_cong)
    have "classes_of pm ms" using classes_merge [OF _ ab False pm_def ms_def] m by blast
    moreover have "dom pm = dom (pid_mid t)" by (auto simp: pm_def split: if_splits)
    then have "dom pm = dom (pid_rid t)" using m by simp
    moreover have "\<forall>p k. pm p = Some k \<longrightarrow> k \<le> max_mol_id t" using m ab by (auto simp: pm_def split: if_splits)
    ultimately have "molecules_ok ?t" using mr by (simp add: molecules_ok_def t1)
    moreover have "graphs_ok ?t" using g1 by (simp add: graphs_ok_def)
    ultimately show ?thesis using r t1 by (simp add: topo_ok_def)
  qed
qed

lemma newEdges_ok:
  "topo_ok t \<Longrightarrow> (\<And>a b. (a, b) \<in> set es \<Longrightarrow> a \<in> dom (pid_rid t) \<and> b \<in> dom (pid_rid t)) \<Longrightarrow>
    \<exists>t'. newEdges es t = Inr t' \<and> topo_ok t' \<and> edges (graph t') = edges (graph t) \<union> (\<Union>(a, b)\<in>set es. link a b)
      \<and> pid_rid t' = pid_rid t \<and> residues t' = residues t"
proof (induction es arbitrary: t)
  case (Cons e es)
  obtain a b where e: "e = (a, b)" by (cases e)
  obtain r1 r2 where r: "pid_rid t a = Some r1" "pid_rid t b = Some r2" using Cons.prems(2) [of a b] e by auto
  obtain t1 where t1: "newEdge a b t = Inr t1" "topo_ok t1" "edges (graph t1) = edges (graph t) \<union> link a b"
    "pid_rid t1 = pid_rid t" "residues t1 = residues t" using newEdge_ok [OF Cons.prems(1) r] by blast
  obtain t' where t': "newEdges es t1 = Inr t'" "topo_ok t'" "pid_rid t' = pid_rid t1" "residues t' = residues t1"
    "edges (graph t') = edges (graph t1) \<union> (\<Union>(a, b)\<in>set es. link a b)"
    using Cons.IH [OF t1(2)] Cons.prems(2) t1(4) by (metis list.set_intros(2))
  show ?case using t1 t' e by (intro exI [of _ t']) auto
qed simp

section \<open>A removed edge keeps it\<close>

lemma finite_unlink: "finite_graph g \<Longrightarrow> finite_graph (graph_erase b a (graph_erase a b g))"
  unfolding finite_graph_iff edges_unlink by simp

lemma sym_unlink_graph: "sym_graph g \<Longrightarrow> sym_graph (graph_erase b a (graph_erase a b g))"
  unfolding sym_graph_def edges_unlink link_def by (rule sym_pair)

text \<open>The edges between residues, when the pair that lost its last bond is taken out or not.\<close>

lemma res_rel_unlink:
  assumes rr: "res_rel f E R" and s: "sym E" and ab: "f a = Some r1" "f b = Some r2"
    and bonded: "bonded \<longleftrightarrow> (\<exists>p1 p2. f p1 = Some r1 \<and> f p2 = Some r2 \<and> (p1, p2) \<in> E - link a b)"
  shows "res_rel f (E - link a b) (if r1 = r2 \<or> bonded then R else R - link r1 r2)"
  unfolding res_rel_def
proof (intro allI impI)
  fix x y :: int assume n: "x \<noteq> y"
  let ?B = "\<lambda>E x y. \<exists>p1 p2. f p1 = Some x \<and> f p2 = Some y \<and> (p1, p2) \<in> E"
  have i: "(x, y) \<in> R \<longleftrightarrow> ?B E x y" using rr n by (simp add: res_rel_def)
  have s': "?B (E - link a b) r2 r1 \<longleftrightarrow> bonded"
    unfolding bonded using s by (auto simp: link_def sym_def) 
  show "(x, y) \<in> (if r1 = r2 \<or> bonded then R else R - link r1 r2) \<longleftrightarrow> ?B (E - link a b) x y"
  proof (cases "(x, y) \<in> link r1 r2")
    case True
    then have "?B (E - link a b) x y \<longleftrightarrow> bonded" using s' bonded unfolding link_def by auto
    moreover have "?B E x y" if bonded using that calculation by blast
    ultimately show ?thesis using True n i by (auto simp: link_def)
  next
    case False
    then have "(p1, p2) \<notin> link a b" if "f p1 = Some x" "f p2 = Some y" for p1 p2
      using that ab by (auto simp: link_def)
    then have "?B (E - link a b) x y \<longleftrightarrow> ?B E x y" by blast
    then show ?thesis using False i by auto
  qed
qed

lemma split_loop_ok:
  "set rs \<subseteq> dom res \<Longrightarrow> split_loop res new rs (M, pm, s) =
    Inr (M - (\<Union>r\<in>set rs. the (res r)), (\<lambda>p. if p \<in> (\<Union>r\<in>set rs. the (res r)) then Some new else pm p),
         s \<union> (\<Union>r\<in>set rs. the (res r)))"
proof (induction rs arbitrary: M pm s)
  case (Cons r rs)
  obtain P where P: "res r = Some P" using Cons.prems by auto
  have "set rs \<subseteq> dom res" using Cons.prems by simp
  note IH = Cons.IH [OF this, of "M - P" "\<lambda>p. if p \<in> P then Some new else pm p" "s \<union> P"]
  show ?case by (simp add: P IH) (auto simp: fun_eq_iff)
qed simp

lemma mol_rel_split:
  assumes R: "mol_rel f m R" and s: "sym R'" "R = R' \<union> link r1 r2" and n: "(r1, r2) \<notin> R'\<^sup>*"
    and fresh: "\<And>p. m p \<noteq> Some new"
    and m': "m' = (\<lambda>p. if \<exists>r. f p = Some r \<and> (r1, r) \<in> R'\<^sup>* then Some new else m p)"
  shows "mol_rel f m' R'"
  unfolding mol_rel_def
proof (intro allI impI)
  fix p q x y assume pq: "f p = Some x" "f q = Some y"
  note l = sym_link [OF s(1) s(2) [unfolded link_def]]
  have sy: "(u, v) \<in> R'\<^sup>* \<longleftrightarrow> (v, u) \<in> R'\<^sup>*" for u v using sym_rtrancl [OF s(1)] by (auto dest: symD)
  have tr: "(u, v) \<in> R'\<^sup>* \<Longrightarrow> (v, w) \<in> R'\<^sup>* \<Longrightarrow> (u, w) \<in> R'\<^sup>*" for u v w by (rule rtrancl_trans)
  have i: "m p = m q \<longleftrightarrow> (x, y) \<in> R\<^sup>*" using R pq unfolding mol_rel_def by blast
  show "m' p = m' q \<longleftrightarrow> (x, y) \<in> R'\<^sup>*"
  proof (cases "(r1, x) \<in> R'\<^sup>*")
    case x: True
    show ?thesis
    proof (cases "(r1, y) \<in> R'\<^sup>*")
      case True
      then have "(x, y) \<in> R'\<^sup>*" using x sy tr by blast
      then show ?thesis using x True pq by (simp add: m')
    next
      case False
      then have "(x, y) \<notin> R'\<^sup>*" using x tr by blast
      then show ?thesis using x False pq fresh [of q] by (auto simp: m')
    qed
  next
    case x: False
    show ?thesis
    proof (cases "(r1, y) \<in> R'\<^sup>*")
      case True
      then have "(x, y) \<notin> R'\<^sup>*" using x sy tr by blast
      then show ?thesis using x True pq fresh [of p] by (auto simp: m')
    next
      case False
      then have "(x, y) \<in> R\<^sup>* \<longleftrightarrow> (x, y) \<in> R'\<^sup>*" unfolding l using x sy by blast
      then show ?thesis using x False pq i by (simp add: m')
    qed
  qed
qed

lemma classes_split:
  assumes c: "classes_of m C" and U: "U \<noteq> {}" "U \<subset> {p. m p = Some k1}" and fresh: "\<And>p. m p \<noteq> Some new"
    and m': "m' = (\<lambda>p. if p \<in> U then Some new else m p)"
    and C': "C' = C(k1 \<mapsto> {p. m p = Some k1} - U, new \<mapsto> U)"
  shows "classes_of m' C'"
proof (rule classes_ofI)
  have kn: "k1 \<noteq> new" using U fresh by blast
  fix k p assume p: "m' p = Some k"
  consider "k = new" | "k = k1" | "k \<noteq> new" "k \<noteq> k1" by blast
  then show "C' k = Some {p. m' p = Some k}"
  proof cases
    case 1
    have "{p. m' p = Some new} = U" using fresh by (auto simp: m')
    then show ?thesis using 1 by (simp add: C')
  next
    case 2
    have "{p. m' p = Some k1} = {p. m p = Some k1} - U" using kn by (auto simp: m')
    then show ?thesis using 2 kn by (simp add: C')
  next
    case 3
    then have "{p. m' p = Some k} = {p. m p = Some k}" using U by (auto simp: m')
    moreover have "m p = Some k" using p 3 by (auto simp: m' split: if_splits)
    ultimately show ?thesis using 3 classes_at [OF c] by (simp add: C')
  qed
next
  fix k assume n: "\<forall>p. m' p \<noteq> Some k"
  obtain u where "u \<in> U" using U by blast
  then have "m' u = Some new" by (simp add: m')
  then have "k \<noteq> new" using n by blast
  obtain v where "m v = Some k1" "v \<notin> U" using U by blast
  then have "m' v = Some k1" by (simp add: m')
  then have "k \<noteq> k1" using n by blast
  have "m p \<noteq> Some k" for p using n [rule_format, of p] U \<open>k \<noteq> k1\<close> by (auto simp: m' split: if_splits)
  then have "C k = None" using classes_none [OF c] by blast
  then show "C' k = None" using \<open>k \<noteq> new\<close> \<open>k \<noteq> k1\<close> by (simp add: C')
qed

lemma reach_ran:
  assumes "graphs_ok t" "pid_rid t a = Some r" "(r, x) \<in> (edges (res_graph t))\<^sup>*"
  shows "\<exists>p. pid_rid t p = Some x"
  using assms(3)
proof induction
  case (step y z)
  then show ?case using assms(1) by (cases "y = z") (auto simp: graphs_ok_def res_rel_def)
qed (use assms(2) in blast)

text \<open>New molecule ids left: how many times \<^verbatim>\<open>max_mol_id_\<close> can be incremented.\<close>

definition ids_left :: "topology \<Rightarrow> nat \<Rightarrow> bool" where
  "ids_left t k \<longleftrightarrow> INT_MIN \<le> max_mol_id t \<and> max_mol_id t + int k \<le> INT_MAX"

lemma ids_left_Suc: "ids_left t (Suc k) \<Longrightarrow> fits_int (max_mol_id t + 1)"
  by (simp add: ids_left_def fits_int_def)

lemma splitMolecule_ok:
  assumes g: "graphs_ok t" and a: "pid_rid t a = Some r1" "pid_mid t a = Some mid"
    and b: "pid_rid t b = Some r2" "pid_mid t b = Some mid"
    and m: "dom (pid_mid t) = dom (pid_rid t)" "classes_of (pid_mid t) (molecules t)"
      "mol_rel (pid_rid t) (pid_mid t) (edges (res_graph t) \<union> link r1 r2)" "\<forall>p m. pid_mid t p = Some m \<longrightarrow> m \<le> max_mol_id t"
    and ids: "fits_int (max_mol_id t + 1) \<or> splitMolecule (reach (res_graph t) r1 - reach (res_graph t) r2) mid t \<noteq> None"
  shows "\<exists>t'. splitMolecule (reach (res_graph t) r1 - reach (res_graph t) r2) mid t = Some (Inr t') \<and> topo_ok t'
    \<and> graph t' = graph t \<and> pid_rid t' = pid_rid t \<and> residues t' = residues t \<and> max_mol_id t' \<in> {max_mol_id t, max_mol_id t + 1}"
proof -
  let ?R = "edges (res_graph t)" and ?X = "reach (res_graph t) r1 - reach (res_graph t) r2" and ?new = "max_mol_id t + 1"
  have s: "sym ?R" using g by (simp add: graphs_ok_def sym_graph_def)
  have sy: "(u, v) \<in> ?R\<^sup>* \<Longrightarrow> (v, u) \<in> ?R\<^sup>*" for u v using sym_rtrancl [OF s] by (rule symD)
  note l = sym_link [OF s link_def [THEN arg_cong, of "\<lambda>z. ?R \<union> z"]]
  show ?thesis
  proof (cases "(r1, r2) \<in> ?R\<^sup>*")
    case True
    have rr: "(r2, r1) \<in> ?R\<^sup>*" using True by (rule sy)
    have "?X = {}" using True rtrancl_trans [OF rr] by (auto simp: reach_def)
    moreover have "(?R \<union> link r1 r2)\<^sup>* = ?R\<^sup>*"
    proof (intro set_eqI, clarify)
      fix x y show "(x, y) \<in> (?R \<union> link r1 r2)\<^sup>* \<longleftrightarrow> (x, y) \<in> ?R\<^sup>*"
        unfolding l using True rr by (meson rtrancl_trans)
    qed
    then have "molecules_ok t" using m by (simp add: molecules_ok_def mol_rel_def)
    ultimately show ?thesis using g by (simp add: splitMolecule_def topo_ok_def)
  next
    case False
    have X: "?X = reach (res_graph t) r1"
    proof -
      have False if "(r1, x) \<in> ?R\<^sup>*" "(r2, x) \<in> ?R\<^sup>*" for x
        using False rtrancl_trans [OF that(1) sy [OF that(2)]] by blast
      then show ?thesis by (auto simp: reach_def)
    qed
    let ?U = "{p. \<exists>r. pid_rid t p = Some r \<and> (r1, r) \<in> ?R\<^sup>*}"
      and ?pm = "\<lambda>p. if \<exists>r. pid_rid t p = Some r \<and> (r1, r) \<in> ?R\<^sup>* then Some ?new else pid_mid t p"
    have fr: "pid_mid t p \<noteq> Some ?new" for p using m(4) by force
    then have fresh: "molecules t ?new = None" using classes_none [OF m(2)] by blast
    have M: "molecules t mid = Some {p. pid_mid t p = Some mid}" by (rule classes_at [OF m(2) a(2)])
    then have "mid \<noteq> ?new" using fresh by auto
    have cr: "classes_of (pid_rid t) (residues t)" and fin: "finite ?X"
      using g finite_reach by (auto simp: graphs_ok_def)
    have res: "residues t r = Some {p. pid_rid t p = Some r}" if "r \<in> ?X" for r
      using reach_ran [OF g a(1), of r] that classes_at [OF cr] by (auto simp: reach_def)
    then have dr: "?X \<subseteq> dom (residues t)" by blast
    have U: "(\<Union>r\<in>?X. the (residues t r)) = ?U"
      using res unfolding X by (auto simp: reach_def)
    note run = split_loop_ok [of "sorted_list_of_set ?X" "residues t" ?new "{p. pid_mid t p = Some mid}" "pid_mid t" "{}"]
    have "?X \<noteq> {}" unfolding X using reach_refl by blast
    define ms where "ms = (molecules t)(mid \<mapsto> {p. pid_mid t p = Some mid} - ?U, ?new \<mapsto> ?U)"
    let ?t = "t\<lparr>max_mol_id := ?new, pid_mid := ?pm, molecules := ms\<rparr>"
    have "fits_int ?new" using ids \<open>?X \<noteq> {}\<close> by (auto simp: splitMolecule_def add_int_def split: if_splits)
    then have "add_int (max_mol_id t) 1 = Some ?new" by (simp add: add_int_def)
    then have "splitMolecule ?X mid t = Some (Inr ?t)"
      using run fin dr \<open>?X \<noteq> {}\<close> fresh M \<open>mid \<noteq> ?new\<close> by (simp add: splitMolecule_def U ms_def Let_def del: add_int_Some)
    moreover have "mol_rel (pid_rid t) ?pm ?R" by (rule mol_rel_split [OF m(3) s refl False fr refl])
    moreover have "classes_of ?pm ms"
    proof (rule classes_split [OF m(2) _ _ fr _ ms_def])
      show "?U \<noteq> {}" using a(1) by auto
      have "?U \<subseteq> {p. pid_mid t p = Some mid}"
      proof clarify
        fix p r assume p: "pid_rid t p = Some r" "(r1, r) \<in> ?R\<^sup>*"
        then have "(r1, r) \<in> (?R \<union> link r1 r2)\<^sup>*" unfolding l by blast
        then show "pid_mid t p = Some mid" using m(3) a p(1) unfolding mol_rel_def by metis
      qed
      moreover have "b \<notin> ?U" using b(1) False by auto
      ultimately show "?U \<subset> {p. pid_mid t p = Some mid}" using b(2) by blast
    qed simp
    moreover have "dom ?pm = dom (pid_rid t)" using m(1) by (auto simp: dom_def split: if_splits)
    moreover have "k \<le> ?new" if "pid_mid t p = Some k" for p k
      using m(4) [rule_format, OF that] by simp
    then have "\<forall>p k. ?pm p = Some k \<longrightarrow> k \<le> ?new" by auto
    ultimately have "splitMolecule ?X mid t = Some (Inr ?t) \<and> molecules_ok ?t" by (simp add: molecules_ok_def)
    moreover have "graphs_ok ?t" using g by (simp add: graphs_ok_def)
    ultimately show ?thesis by (intro exI [of _ ?t]) (simp add: topo_ok_def)
  qed
qed

lemma disconnectResidues_ok:
  assumes g: "graphs_ok (t\<lparr>res_graph := graph_erase r2 r1 (graph_erase r1 r2 (res_graph t))\<rparr>)" and m: "molecules_ok t"
    and e: "(r1, r2) \<in> edges (res_graph t) \<and> (r2, r1) \<in> edges (res_graph t) \<or> (r1, r2) \<in> (edges (res_graph t) - link r1 r2)\<^sup>*"
    and d: "r1 \<in> dom (res_graph t)" "r2 \<in> dom (res_graph t)"
    and a: "pid_rid t a = Some r1" "pid_mid t a = Some mid" and b: "pid_rid t b = Some r2" "pid_mid t b = Some mid"
    and ids: "fits_int (max_mol_id t + 1) \<or> disconnectResidues r1 r2 mid t \<noteq> None"
  shows "\<exists>t'. disconnectResidues r1 r2 mid t = Some (Inr t') \<and> topo_ok t'
    \<and> graph t' = graph t \<and> pid_rid t' = pid_rid t \<and> residues t' = residues t \<and> max_mol_id t' \<in> {max_mol_id t, max_mol_id t + 1}"
proof -
  let ?t = "t\<lparr>res_graph := graph_erase r2 r1 (graph_erase r1 r2 (res_graph t))\<rparr>"
  have "r2 \<in> dom (graph_erase r1 r2 (res_graph t))" using d by simp
  then obtain A B where AB: "res_graph t r1 = Some A" "graph_erase r1 r2 (res_graph t) r2 = Some B" using d by blast
  have er: "eraseResEdge r1 r2 t = Inr ?t" by (simp add: eraseResEdge_def AB Let_def)
  have fg: "finite_graph (res_graph ?t)" using g by (simp add: graphs_ok_def)
  obtain h1 h2 where h: "plainBFS (res_graph ?t) r1 = Some h1" "dom h1 = reach (res_graph ?t) r1"
    "plainBFS (res_graph ?t) r2 = Some h2" "dom h2 = reach (res_graph ?t) r2"
    using plainBFS_spec [OF fg] by meson
  have run: "disconnectResidues r1 r2 mid t
      = splitMolecule (reach (res_graph ?t) r1 - reach (res_graph ?t) r2) mid ?t"
    unfolding disconnectResidues_def er using h by simp
  have R: "edges (res_graph ?t) = edges (res_graph t) - link r1 r2" by (simp add: edges_unlink)
  have "(edges (res_graph ?t) \<union> link r1 r2)\<^sup>* = (edges (res_graph t))\<^sup>*" (is "?S\<^sup>* = ?T\<^sup>*")
  proof (cases "(r1, r2) \<in> edges (res_graph t) \<and> (r2, r1) \<in> edges (res_graph t)")
    case True
    then have "?S = ?T" unfolding R by (auto simp: link_def)
    then show ?thesis by simp
  next
    case False
    then have c: "(r1, r2) \<in> (edges (res_graph t) - link r1 r2)\<^sup>*" using e by blast
    have "sym (edges (res_graph t) - link r1 r2)" using g R by (simp add: graphs_ok_def sym_graph_def)
    from symD [OF sym_rtrancl [OF this] c] c have "link r1 r2 \<subseteq> (edges (res_graph t) - link r1 r2)\<^sup>*"
      by (simp add: link_def)
    moreover have "(edges (res_graph t) - link r1 r2)\<^sup>* \<subseteq> ?T\<^sup>*" by (rule rtrancl_mono) blast
    ultimately have "?S \<subseteq> ?T\<^sup>*" unfolding R by blast
    moreover have "?T \<subseteq> ?S\<^sup>*" unfolding R by blast
    ultimately show ?thesis by (metis rtrancl_idemp rtrancl_mono subset_antisym)
  qed
  then have "mol_rel (pid_rid ?t) (pid_mid ?t) (edges (res_graph ?t) \<union> link r1 r2)"
    using m by (simp add: molecules_ok_def mol_rel_def)
  from splitMolecule_ok [OF g _ _ _ _ _ _ this] a b m run ids show ?thesis by (auto simp: molecules_ok_def)
qed

lemma eraseEdge_run:
  assumes t: "topo_ok t" and ab: "a \<in> dom (graph t) \<or> b \<in> dom (graph t)" and r: "pid_rid t a = Some r1" "pid_rid t b = Some r2"
    and mid: "pid_mid t a = Some mid" "pid_mid t b = Some mid"
    and t1: "t1 = t\<lparr>graph := graph_erase b a (graph_erase a b (graph t))\<rparr>"
  shows "eraseEdge a b t = (if r1 = r2 \<or> hasBond (graph t1) {p. pid_rid t p = Some r1} {p. pid_rid t p = Some r2}
    then Some (Inr t1) else disconnectResidues r1 r2 mid t1)"
proof -
  have res: "residues t r1 = Some {p. pid_rid t p = Some r1}" "residues t r2 = Some {p. pid_rid t p = Some r2}"
    using t r classes_at unfolding topo_ok_def graphs_ok_def by blast+
  show ?thesis using ab r mid res unfolding t1
    by (cases "r1 = r2"; cases "hasBond (graph_erase b a (graph_erase a b (graph t))) {p. pid_rid t p = Some r1} {p. pid_rid t p = Some r2}")
       (auto simp: eraseEdge_def Let_def)
qed

lemma eraseEdge_core:
  assumes t: "topo_ok t" and ab: "a \<in> dom (graph t) \<or> b \<in> dom (graph t)" and r: "pid_rid t a = Some r1" "pid_rid t b = Some r2"
    and mid: "pid_mid t a = Some mid" "pid_mid t b = Some mid"
    and d: "eraseEdge a b t = disconnectResidues r1 r2 mid (t\<lparr>graph := graph_erase b a (graph_erase a b (graph t))\<rparr>)
      \<Longrightarrow> r1 \<in> dom (res_graph t) \<and> r2 \<in> dom (res_graph t)"
    and ids: "fits_int (max_mol_id t + 1) \<or> eraseEdge a b t \<noteq> None"
  shows "\<exists>t'. eraseEdge a b t = Some (Inr t') \<and> topo_ok t' \<and> edges (graph t') = edges (graph t) - link a b
    \<and> dom (graph t') = dom (graph t) \<and> pid_rid t' = pid_rid t \<and> residues t' = residues t
    \<and> max_mol_id t' \<in> {max_mol_id t, max_mol_id t + 1}"
proof -
  note g = t [unfolded topo_ok_def graphs_ok_def] and m = t [unfolded topo_ok_def molecules_ok_def]
  let ?E = "edges (graph t) - link a b"
  define t1 where "t1 = t\<lparr>graph := graph_erase b a (graph_erase a b (graph t))\<rparr>"
  have t1: "edges (graph t1) = ?E" "dom (graph t1) = dom (graph t)" "res_graph t1 = res_graph t"
    "pid_rid t1 = pid_rid t" "residues t1 = residues t" "pid_mid t1 = pid_mid t" "molecules t1 = molecules t" "max_mol_id t1 = max_mol_id t"
    "finite_graph (graph t1)" "sym_graph (graph t1)"
    using g by (auto simp: t1_def edges_unlink finite_unlink sym_unlink_graph)
  define bonded where "bonded \<longleftrightarrow> hasBond (graph t1) {p. pid_rid t p = Some r1} {p. pid_rid t p = Some r2}"
  have bd: "bonded \<longleftrightarrow> (\<exists>p1 p2. pid_rid t p1 = Some r1 \<and> pid_rid t p2 = Some r2 \<and> (p1, p2) \<in> ?E)"
    by (auto simp: bonded_def hasBond_iff t1)
  note run = eraseEdge_run [OF t ab r mid t1_def, folded bonded_def]
  have "res_rel (pid_rid t) (edges (graph t)) (edges (res_graph t))" "sym (edges (graph t))"
    using g by (auto simp: sym_graph_def)
  note rr = res_rel_unlink [OF this r bd]
  show ?thesis
  proof (cases "r1 = r2 \<or> bonded")
    case True
    then have "topo_ok t1" using g m rr t1 by (simp add: topo_ok_def graphs_ok_def molecules_ok_def)
    then show ?thesis using run True t1 by simp
  next
    case False
    let ?t2 = "t1\<lparr>res_graph := graph_erase r2 r1 (graph_erase r1 r2 (res_graph t1))\<rparr>"
    have dd: "r1 \<in> dom (res_graph t1)" "r2 \<in> dom (res_graph t1)" using d run False unfolding t1(3) by (simp_all add: t1_def)
    have "finite_graph (res_graph ?t2)" "sym_graph (res_graph ?t2)" "edges (res_graph ?t2) = edges (res_graph t) - link r1 r2"
      using g t1 by (simp_all add: finite_unlink sym_unlink_graph edges_unlink)
    then have g2: "graphs_ok ?t2" using g rr t1 False by (simp add: graphs_ok_def)
    have mo: "molecules_ok t1" using m t1 by (simp add: molecules_ok_def)
    have cn: "(r1, r2) \<in> (edges (res_graph t))\<^sup>*" using m r mid unfolding mol_rel_def by metis
    have e: "(r1, r2) \<in> edges (res_graph t1) \<and> (r2, r1) \<in> edges (res_graph t1) \<or> (r1, r2) \<in> (edges (res_graph t1) - link r1 r2)\<^sup>*"
    proof (cases "(r1, r2) \<in> edges (res_graph t)")
      case True
      then show ?thesis using g t1 by (auto simp: sym_graph_def dest: symD)
    next
      case False
      then have "edges (res_graph t) - link r1 r2 = edges (res_graph t)" using g by (auto simp: link_def sym_graph_def dest: symD)
      then show ?thesis using cn t1 by simp
    qed
    have "pid_rid t1 a = Some r1" "pid_mid t1 a = Some mid" "pid_rid t1 b = Some r2" "pid_mid t1 b = Some mid"
      using r mid t1 by simp_all
    from disconnectResidues_ok [OF g2 mo e dd this] run False t1 ids show ?thesis by auto
  qed
qed

text \<open>An edge of the graph, or of two particles of one molecule that have bonds, can be removed.\<close>

lemma eraseEdge_ok:
  assumes t: "topo_ok t" and ab: "a \<in> dom (graph t)" "b \<in> dom (graph t)" and mm: "pid_mid t a = pid_mid t b"
    and ids: "fits_int (max_mol_id t + 1)"
  shows "\<exists>t'. eraseEdge a b t = Some (Inr t') \<and> topo_ok t' \<and> edges (graph t') = edges (graph t) - link a b
    \<and> dom (graph t') = dom (graph t) \<and> pid_rid t' = pid_rid t \<and> residues t' = residues t"
proof -
  note g = t [unfolded topo_ok_def graphs_ok_def] and m = t [unfolded topo_ok_def molecules_ok_def]
  obtain r1 r2 where r: "pid_rid t a = Some r1" "pid_rid t b = Some r2" using g ab by blast
  then have "a \<in> dom (pid_mid t)" using m by blast
  then obtain mid where mid: "pid_mid t a = Some mid" "pid_mid t b = Some mid" using mm by (metis domD)
  show ?thesis using eraseEdge_core [OF t _ r mid] ids ab g r by blast
qed

lemma bonded_same_molecule:
  assumes t: "topo_ok t" and e: "(a, b) \<in> edges (graph t)"
  shows "a \<in> dom (graph t)" "b \<in> dom (graph t)" "pid_mid t a = pid_mid t b"
proof -
  note g = t [unfolded topo_ok_def graphs_ok_def]
  have "(b, a) \<in> edges (graph t)" using e g by (auto simp: sym_graph_def dest: symD)
  then show d: "a \<in> dom (graph t)" "b \<in> dom (graph t)" using e by (auto simp: edges_def)
  then obtain r1 r2 where r: "pid_rid t a = Some r1" "pid_rid t b = Some r2" using g by blast
  have "r1 = r2 \<or> (r1, r2) \<in> edges (res_graph t)" using g r e unfolding res_rel_def by blast
  then show "pid_mid t a = pid_mid t b" using t r unfolding topo_ok_def molecules_ok_def mol_rel_def by blast
qed

lemma eraseResEdge_dom: "eraseResEdge r1 r2 t = Inr u \<Longrightarrow> r1 \<in> dom (res_graph t) \<and> r2 \<in> dom (res_graph t)"
proof -
  assume "eraseResEdge r1 r2 t = Inr u"
  then have "res_graph t r1 \<noteq> None" "graph_erase r1 r2 (res_graph t) r2 \<noteq> None"
    by (auto simp: eraseResEdge_def ebind_Inr_iff Let_def)
  then have "r1 \<in> dom (res_graph t)" "r2 \<in> dom (graph_erase r1 r2 (res_graph t))" by blast+
  then show ?thesis by simp
qed

text \<open>Whenever the code returns normally, the invariant has been kept.\<close>

lemma eraseEdge_sound:
  assumes t: "topo_ok t" and run: "eraseEdge a b t = Some (Inr t')"
  shows "topo_ok t' \<and> edges (graph t') = edges (graph t) - link a b \<and> dom (graph t') = dom (graph t) \<and> pid_rid t' = pid_rid t
    \<and> max_mol_id t' \<in> {max_mol_id t, max_mol_id t + 1}"
proof -
  have ab: "a \<in> dom (graph t) \<or> b \<in> dom (graph t)" using run by (auto simp: eraseEdge_def split: if_splits)
  obtain r1 r2 where r: "pid_rid t a = Some r1" "pid_rid t b = Some r2"
    using run by (cases "pid_rid t a"; cases "pid_rid t b") (auto simp: eraseEdge_def Let_def split: if_splits)
  obtain m1 m2 where m: "pid_mid t a = Some m1" "pid_mid t b = Some m2"
    using run r by (cases "pid_mid t a"; cases "pid_mid t b") (auto simp: eraseEdge_def Let_def split: if_splits)
  have "m1 = m2" using run r m by (auto simp: eraseEdge_def Let_def split: if_splits)
  then have m': "pid_mid t b = Some m1" using m by simp
  have "r1 \<in> dom (res_graph t) \<and> r2 \<in> dom (res_graph t)"
    if d: "eraseEdge a b t = disconnectResidues r1 r2 m1 (t\<lparr>graph := graph_erase b a (graph_erase a b (graph t))\<rparr>)"
  proof -
    obtain u where "eraseResEdge r1 r2 (t\<lparr>graph := graph_erase b a (graph_erase a b (graph t))\<rparr>) = Inr u"
    proof (cases "eraseResEdge r1 r2 (t\<lparr>graph := graph_erase b a (graph_erase a b (graph t))\<rparr>)")
      case (Inl e)
      then show ?thesis using run unfolding d disconnectResidues_def by simp
    qed (rule that)
    then show ?thesis using eraseResEdge_dom by fastforce
  qed
  from eraseEdge_core [OF t ab r m(1) m' this] run show ?thesis by auto
qed

lemma newEdge_sound:
  assumes t: "topo_ok t" and run: "newEdge a b t = Inr t'"
  shows "topo_ok t' \<and> edges (graph t') = edges (graph t) \<union> link a b \<and> dom (graph t') = dom (graph t) \<union> {a, b} \<and> pid_rid t' = pid_rid t"
proof -
  obtain r1 r2 where "pid_rid t a = Some r1" "pid_rid t b = Some r2"
    using run by (cases "pid_rid t a"; cases "pid_rid t b") (auto simp: newEdge_def Let_def)
  from newEdge_ok [OF t this] run show ?thesis by auto
qed

section \<open>Initialization establishes it\<close>

definition init_ok :: "topology \<Rightarrow> bool" where
  "init_ok t \<longleftrightarrow> graph t = Map.empty \<and> res_graph t = Map.empty \<and> pid_mid t = pid_rid t \<and> molecules t = residues t
     \<and> finite (dom (pid_rid t)) \<and> classes_of (pid_rid t) (residues t) \<and> (\<forall>p m. pid_rid t p = Some m \<longrightarrow> m \<le> max_mol_id t)"

lemma init_topo_ok: "init_ok t \<Longrightarrow> topo_ok t"
  by (auto simp: init_ok_def topo_ok_def graphs_ok_def molecules_ok_def finite_graph_def sym_graph_def sym_def
      edges_def res_rel_def mol_rel_def)

lemma classes_add:
  assumes c: "classes_of f C" and p: "f p = None"
  shows "classes_of (f(p \<mapsto> r)) (graph_add r p (graph_insert r C))"
proof -
  let ?C = "graph_add r p (graph_insert r C)"
  have r: "?C r = Some (insert p {q. f q = Some r})"
  proof (cases "\<exists>q. f q = Some r")
    case True
    then show ?thesis using classes_at [OF c] by (auto simp: graph_add_def graph_insert_def)
  next
    case False
    then have "C r = None" using classes_none [OF c] by blast
    then show ?thesis using False by (auto simp: graph_add_def graph_insert_def)
  qed
  have o: "?C k = C k" if "k \<noteq> r" for k using that by (auto simp: graph_add_def graph_insert_def split: option.splits)
  show ?thesis
  proof (rule classes_ofI)
    fix k q assume q: "(f(p \<mapsto> r)) q = Some k"
    show "?C k = Some {q. (f(p \<mapsto> r)) q = Some k}"
    proof (cases "k = r")
      case True
      then show ?thesis unfolding True r using p by auto
    next
      case False
      then have "f q = Some k" "{q. (f(p \<mapsto> r)) q = Some k} = {q. f q = Some k}" using q p by (auto split: if_splits)
      then show ?thesis using o [OF False] classes_at [OF c] by simp
    qed
  next
    fix k assume n: "\<forall>q. (f(p \<mapsto> r)) q \<noteq> Some k"
    then have k: "k \<noteq> r" by (metis fun_upd_same)
    have "f q \<noteq> Some k" for q using n [rule_format, of q] p by (auto split: if_splits)
    then show "?C k = None" using o [OF k] classes_none [OF c] by simp
  qed
qed

lemma addResidue_ok:
  assumes "init_ok t" "rid \<noteq> 0" "pid_rid t pid = None"
  shows "\<exists>t'. addResidue pid rid t = Inr t' \<and> init_ok t' \<and> pid_rid t' = (pid_rid t)(pid \<mapsto> rid)"
proof -
  have m: "m \<le> max_mol_id t" if "pid_rid t p = Some m" for p m using assms(1) that by (auto simp: init_ok_def)
  have "rid \<le> max_mol_id t" if "molecules t rid \<noteq> None"
    using that assms(1) classes_none [of "pid_rid t" "residues t" rid] m by (auto simp: init_ok_def)
  then have "\<forall>p k. ((pid_rid t)(pid \<mapsto> rid)) p = Some k \<longrightarrow>
      k \<le> (if molecules t rid = None then max (max_mol_id t) rid else max_mol_id t)"
    using m by (auto intro: max.coboundedI1)
  then show ?thesis using assms classes_add [of "pid_rid t" "residues t" pid rid]
    by (auto simp: addResidue_def init_ok_def)
qed

lemma addResidues_ok:
  "init_ok t \<Longrightarrow> \<forall>(p, r)\<in>set ps. r \<noteq> 0 \<and> pid_rid t p = None \<Longrightarrow> distinct (map fst ps) \<Longrightarrow>
    \<exists>t'. addResidues ps t = Inr t' \<and> init_ok t' \<and> pid_rid t' = pid_rid t ++ map_of ps"
proof (induction ps arbitrary: t)
  case (Cons e ps)
  obtain p r where e: "e = (p, r)" by (cases e)
  obtain t1 where t1: "addResidue p r t = Inr t1" "init_ok t1" "pid_rid t1 = (pid_rid t)(p \<mapsto> r)"
    using addResidue_ok [OF Cons.prems(1), of r p] Cons.prems(2) e by auto
  have "\<forall>(q, s)\<in>set ps. s \<noteq> 0 \<and> pid_rid t1 q = None"
  proof clarify
    fix q s assume q: "(q, s) \<in> set ps"
    then have "q \<noteq> p" using Cons.prems(3) e by force
    then show "s \<noteq> 0 \<and> pid_rid t1 q = None" using Cons.prems(2) q by (auto simp: t1(3))
  qed
  then obtain t' where t': "addResidues ps t1 = Inr t'" "init_ok t'" "pid_rid t' = pid_rid t1 ++ map_of ps"
    using Cons.IH [OF t1(2)] Cons.prems(3) by auto
  have "p \<notin> dom (map_of ps)" using Cons.prems(3) e by (simp add: dom_map_of_conv_image_fst)
  then have "pid_rid t1 ++ map_of ps = pid_rid t ++ map_of (e # ps)"
    by (auto simp: t1(3) e map_add_def fun_eq_iff split: option.splits)
  then have "pid_rid t' = pid_rid t ++ map_of (e # ps)" using t'(3) by (rule trans [rotated])
  moreover have "addResidues (e # ps) t = Inr t'" using t1(1) t'(1) e by simp
  ultimately show ?case using t'(2) by blast
qed simp

lemma topology_empty_ok: "init_ok topology_empty"
  by (auto simp: init_ok_def topology_empty_def classes_of_def)

lemma initializeTopology_ok:
  assumes "distinct (map fst (concat (map fst cs)))" "\<forall>(p, r)\<in>set (concat (map fst cs)). r \<noteq> 0"
    and "\<forall>(a, b)\<in>set (concat (map snd cs)). a \<in> fst ` set (concat (map fst cs)) \<and> b \<in> fst ` set (concat (map fst cs))"
  shows "\<exists>t. initializeTopology cs = Inr t \<and> topo_ok t \<and> pid_rid t = map_of (concat (map fst cs))
    \<and> edges (graph t) = (\<Union>(a, b)\<in>set (concat (map snd cs)). link a b)"
proof -
  let ?ps = "concat (map fst cs)" and ?es = "concat (map snd cs)"
  have e: "pid_rid topology_empty = Map.empty" by (simp add: topology_empty_def)
  obtain t1 where t1: "addResidues ?ps topology_empty = Inr t1" "init_ok t1" "pid_rid t1 = map_of ?ps"
    using addResidues_ok [OF topology_empty_ok, of ?ps] assms(1,2) unfolding e by auto
  have "edges (graph t1) = {}" using t1(2) by (auto simp: init_ok_def edges_def)
  moreover have "a \<in> dom (pid_rid t1) \<and> b \<in> dom (pid_rid t1)" if "(a, b) \<in> set ?es" for a b
    using assms(3) that unfolding t1(3) dom_map_of_conv_image_fst by blast
  ultimately show ?thesis using newEdges_ok [OF init_topo_ok [OF t1(2)], of ?es] t1
    by (auto simp: initializeTopology_def)
qed

text \<open>An initialization that returns has been given a residue, other than 0, for each particle once, and only bonds of those.\<close>

lemma newEdges_sound:
  "newEdges es t = Inr t' \<Longrightarrow> topo_ok t \<Longrightarrow>
    topo_ok t' \<and> edges (graph t') = edges (graph t) \<union> (\<Union>(a, b)\<in>set es. link a b) \<and> pid_rid t' = pid_rid t"
proof (induction es arbitrary: t)
  case (Cons e es)
  obtain a b where e: "e = (a, b)" by (cases e)
  obtain t1 where t1: "newEdge a b t = Inr t1" "newEdges es t1 = Inr t'" using Cons.prems(1) by (auto simp: e ebind_Inr_iff)
  from newEdge_sound [OF Cons.prems(2) t1(1)] Cons.IH [OF t1(2)] show ?case by (auto simp: e)
qed simp

lemma addResidue_sound:
  assumes "addResidue p r t = Inr t'" "init_ok t"
  shows "init_ok t' \<and> pid_rid t' = (pid_rid t)(p \<mapsto> r) \<and> p \<notin> dom (pid_rid t)"
proof -
  have "r \<noteq> 0" "pid_rid t p = None" using assms(1) by (auto simp: addResidue_def split: if_splits)
  with addResidue_ok [OF assms(2) this] assms(1) show ?thesis by auto
qed

lemma addResidues_sound:
  "addResidues ps t = Inr t' \<Longrightarrow> init_ok t \<Longrightarrow>
    init_ok t' \<and> pid_rid t' = pid_rid t ++ map_of ps \<and> fst ` set ps \<inter> dom (pid_rid t) = {}"
proof (induction ps arbitrary: t)
  case (Cons e ps)
  obtain p r where e: "e = (p, r)" by (cases e)
  obtain t1 where t1: "addResidue p r t = Inr t1" "addResidues ps t1 = Inr t'" using Cons.prems(1) by (auto simp: e ebind_Inr_iff)
  note a = addResidue_sound [OF t1(1) Cons.prems(2)]
  then have i: "init_ok t'" "pid_rid t' = pid_rid t1 ++ map_of ps" "fst ` set ps \<inter> dom (pid_rid t1) = {}"
    using Cons.IH [OF t1(2)] by blast+
  have "p \<notin> dom (map_of ps)" using a i(3) by (auto simp: dom_map_of_conv_image_fst)
  then have "pid_rid t' = pid_rid t ++ map_of (e # ps)"
    using a i(2) by (auto simp: e map_add_def fun_eq_iff split: option.splits)
  moreover have "fst ` set (e # ps) \<inter> dom (pid_rid t) = {}" using a i(3) by (auto simp: e)
  ultimately show ?case using i(1) by blast
qed simp

lemma initializeTopology_sound:
  assumes "initializeTopology cs = Inr t"
  shows "topo_ok t" "pid_rid t = map_of (concat (map fst cs))" "edges (graph t) = (\<Union>(a, b)\<in>set (concat (map snd cs)). link a b)"
proof -
  obtain t1 where t1: "addResidues (concat (map fst cs)) topology_empty = Inr t1" "newEdges (concat (map snd cs)) t1 = Inr t"
    using assms by (auto simp: initializeTopology_def ebind_Inr_iff)
  note a = addResidues_sound [OF t1(1) topology_empty_ok]
  have "edges (graph t1) = {}" using a by (auto simp: init_ok_def edges_def)
  moreover have "pid_rid t1 = map_of (concat (map fst cs))" using a by (simp add: topology_empty_def)
  moreover note newEdges_sound [OF t1(2)] init_topo_ok [of t1]
  ultimately show "topo_ok t" "pid_rid t = map_of (concat (map fst cs))" "edges (graph t) = (\<Union>(a, b)\<in>set (concat (map snd cs)). link a b)"
    using a by simp_all
qed

text \<open>The counter of the molecules starts at the largest residue.\<close>

lemma addResidues_max:
  "addResidues ps t = Inr t' \<Longrightarrow> \<forall>(p, r)\<in>set ps. r \<le> B \<Longrightarrow> max_mol_id t \<le> B \<Longrightarrow> max_mol_id t \<le> max_mol_id t' \<and> max_mol_id t' \<le> B"
proof (induction ps arbitrary: t)
  case (Cons e ps)
  obtain p r where e: "e = (p, r)" by (cases e)
  obtain t1 where t1: "addResidue p r t = Inr t1" "addResidues ps t1 = Inr t'" using Cons.prems(1) by (auto simp: e ebind_Inr_iff)
  have "max_mol_id t \<le> max_mol_id t1" "max_mol_id t1 \<le> B"
    using t1(1) Cons.prems(2,3) by (auto simp: addResidue_def e split: if_splits)
  then show ?case using Cons.IH [OF t1(2)] Cons.prems(2) by force
qed simp

lemma newEdges_max: "newEdges es t = Inr t' \<Longrightarrow> max_mol_id t' = max_mol_id t"
proof (induction es arbitrary: t)
  case (Cons e es)
  obtain a b where e: "e = (a, b)" by (cases e)
  obtain t1 where t1: "newEdge a b t = Inr t1" "newEdges es t1 = Inr t'" using Cons.prems(1) by (auto simp: e ebind_Inr_iff)
  have "max_mol_id t1 = max_mol_id t"
    using t1(1) by (auto simp: newEdge_def newResEdge_def mergeMolecules_def Let_def ebind_Inr_iff split: if_splits)
  then show ?case using Cons.IH [OF t1(2)] by simp
qed simp

lemma initializeTopology_max:
  assumes "initializeTopology cs = Inr t" "\<forall>(p, r)\<in>set (concat (map fst cs)). r \<le> B" "0 \<le> B"
  shows "0 \<le> max_mol_id t \<and> max_mol_id t \<le> B"
proof -
  obtain t1 where t1: "addResidues (concat (map fst cs)) topology_empty = Inr t1" "newEdges (concat (map snd cs)) t1 = Inr t"
    using assms(1) by (auto simp: initializeTopology_def ebind_Inr_iff)
  from addResidues_max [OF t1(1) assms(2)] newEdges_max [OF t1(2)] assms(3) show ?thesis by (simp add: topology_empty_def)
qed

section \<open>Molecules are the components of bonds and residues\<close>

text \<open>The promise of the topology: particles are in one molecule if a chain of bonds and of common residues joins them.\<close>

definition chain :: "(int \<Rightarrow> int option) \<Rightarrow> (int \<times> int) set \<Rightarrow> (int \<times> int) set" where
  "chain f E = E \<union> {(p, q). f p \<noteq> None \<and> f p = f q}"

lemma same_molecule_iff:
  assumes t: "topo_ok t" and p: "pid_rid t p = Some r1" and q: "pid_rid t q = Some r2"
  shows "pid_mid t p = pid_mid t q \<longleftrightarrow> (p, q) \<in> (chain (pid_rid t) (edges (graph t)))\<^sup>*"
proof -
  note g = t [unfolded topo_ok_def graphs_ok_def]
  let ?C = "chain (pid_rid t) (edges (graph t))" and ?R = "edges (res_graph t)"
  have i: "pid_mid t p = pid_mid t q \<longleftrightarrow> (r1, r2) \<in> ?R\<^sup>*"
    using t p q unfolding topo_ok_def molecules_ok_def mol_rel_def by blast
  have "\<forall>q. pid_rid t q = Some s \<longrightarrow> (p, q) \<in> ?C\<^sup>*" if "(r1, s) \<in> ?R\<^sup>*" for s
    using that
  proof induction
    case base
    then show ?case using p by (auto simp: chain_def)
  next
    case (step y z)
    show ?case
    proof (cases "y = z")
      case False
      then obtain p1 p2 where b: "pid_rid t p1 = Some y" "pid_rid t p2 = Some z" "(p1, p2) \<in> edges (graph t)"
        using step.hyps(2) g unfolding res_rel_def by blast
      have "(p, p1) \<in> ?C\<^sup>*" using step.IH b(1) by blast
      moreover have "(p1, p2) \<in> ?C" using b(3) by (simp add: chain_def)
      ultimately have "(p, p2) \<in> ?C\<^sup>*" by (rule rtrancl_into_rtrancl)
      then show ?thesis using b(2) by (auto simp: chain_def intro: rtrancl_into_rtrancl)
    qed (use step.IH in simp)
  qed
  moreover have "\<exists>s. pid_rid t x = Some s \<and> (r1, s) \<in> ?R\<^sup>*" if "(p, x) \<in> ?C\<^sup>*" for x
    using that
  proof induction
    case (step y z)
    then obtain s where s: "pid_rid t y = Some s" "(r1, s) \<in> ?R\<^sup>*" by blast
    show ?case
    proof (cases "(y, z) \<in> edges (graph t)")
      case True
      then have "(z, y) \<in> edges (graph t)" using g by (auto simp: sym_graph_def dest: symD)
      then have "z \<in> dom (graph t)" by (auto simp: edges_def)
      then obtain s' where s': "pid_rid t z = Some s'" using g by blast
      then have "s = s' \<or> (s, s') \<in> ?R" using True s(1) g unfolding res_rel_def by blast
      then show ?thesis using s s' by (auto intro: rtrancl_into_rtrancl)
    next
      case False
      then have "pid_rid t z = Some s" using s(1) step.hyps(2) by (simp add: chain_def)
      then show ?thesis using s(2) by blast
    qed
  qed (use p in simp)
  ultimately show ?thesis using i q by fastforce
qed

end
