(* ===== verification/TopologyAngles.thy ===== *)
theory TopologyAngles
  imports TopologyInv
begin

text \<open>
  \<^verbatim>\<open>generateAnglesDihedrals\<close> of \<^verbatim>\<open>src/src/integrator/TopologyManager.cpp\<close>: the angles and dihedrals that a new
  bond brings.  The dihedrals are exactly the simple paths of four particles through a new bond,
  each in one of its two directions.  The angles of a single new bond are complete; those of
  several are not always, because one test looks for the wrong triplet.
\<close>

type_synonym triplet = "int \<times> int \<times> int"
type_synonym quadruplet = "int \<times> int \<times> int \<times> int"

section \<open>The loops\<close>

definition quad_step :: "int \<Rightarrow> int \<Rightarrow> int \<Rightarrow> int \<Rightarrow> quadruplet set \<Rightarrow> quadruplet set" where
  "quad_step e c it itt Q =
     (if itt = it \<or> itt = c \<or> itt = e then Q
      else if (itt, it, c, e) \<notin> Q then insert (e, c, it, itt) Q else Q)"

text \<open>
  A neighbor of the end \<^term>\<open>c\<close> of the bond \<^term>\<open>e\<close>-\<^term>\<open>c\<close>.  Both calls test for the same triplet,
  so that one is an argument of its own.
\<close>

definition side_step :: "graphmap \<Rightarrow> int \<Rightarrow> int \<Rightarrow> triplet \<Rightarrow> int \<Rightarrow> triplet set \<times> quadruplet set
    \<Rightarrow> topo_error + (triplet set \<times> quadruplet set)" where
  "side_step g e c test it st =
     (if it = c \<or> it = e then Inr st
      else let (T, Q) = st;
               T = (if test \<notin> T then insert (e, c, it) T else T)
           in ebind (find_or Out_of_range (g it)) (\<lambda>nbb.
                Inr (T, fold (quad_step e c it) (sorted_list_of_set nbb) Q)))"

fun side_loop :: "graphmap \<Rightarrow> int \<Rightarrow> int \<Rightarrow> (int \<Rightarrow> triplet) \<Rightarrow> int list \<Rightarrow> triplet set \<times> quadruplet set
    \<Rightarrow> topo_error + (triplet set \<times> quadruplet set)" where
  "side_loop g e c test [] st = Inr st"
| "side_loop g e c test (it # its) st = ebind (side_step g e c (test it) it st) (side_loop g e c test its)"

definition mid_step :: "int \<Rightarrow> int \<Rightarrow> int \<Rightarrow> int \<Rightarrow> quadruplet set \<Rightarrow> quadruplet set" where
  "mid_step pid1 pid2 it1 it2 Q =
     (if it2 = pid1 \<or> it2 = pid2 \<or> it1 = it2 then Q
      else if (it2, pid2, pid1, it1) \<notin> Q then insert (it1, pid1, pid2, it2) Q else Q)"

definition mid_loop :: "int \<Rightarrow> int \<Rightarrow> int list \<Rightarrow> int list \<Rightarrow> quadruplet set \<Rightarrow> quadruplet set" where
  "mid_loop pid1 pid2 nb1 nb2 Q =
     fold (\<lambda>it1 Q. if it1 = pid1 \<or> it1 = pid2 then Q else fold (mid_step pid1 pid2 it1) nb2 Q) nb1 Q"

definition generateAnglesDihedrals :: "graphmap \<Rightarrow> int \<Rightarrow> int \<Rightarrow> triplet set \<times> quadruplet set
    \<Rightarrow> topo_error + (triplet set \<times> quadruplet set)" where
  "generateAnglesDihedrals g pid1 pid2 st =
     ebind (find_or Node_not_found (g pid1)) (\<lambda>nb1.
     ebind (find_or Node_not_found (g pid2)) (\<lambda>nb2.
       let nb1 = sorted_list_of_set nb1; nb2 = sorted_list_of_set nb2; test = (\<lambda>it. (it, pid2, pid1))
       in ebind (side_loop g pid2 pid1 test nb1 st) (\<lambda>st.
          ebind (side_loop g pid1 pid2 test nb2 st) (\<lambda>(T, Q).
            Inr (T, mid_loop pid1 pid2 nb1 nb2 Q)))))"

fun generateAll :: "graphmap \<Rightarrow> (int \<times> int) list \<Rightarrow> triplet set \<times> quadruplet set
    \<Rightarrow> topo_error + (triplet set \<times> quadruplet set)" where
  "generateAll g [] st = Inr st"
| "generateAll g ((a, b) # es) st = ebind (generateAnglesDihedrals g a b st) (generateAll g es)"

section \<open>Dihedrals up to their direction\<close>

definition qrev :: "quadruplet \<Rightarrow> quadruplet" where
  "qrev q = (case q of (a, b, c, d) \<Rightarrow> (d, c, b, a))"

lemma qrev_simp [simp]: "qrev (a, b, c, d) = (d, c, b, a)" "qrev (qrev q) = q"
  by (auto simp: qrev_def split: prod.splits)

definition both_ways :: "quadruplet set \<Rightarrow> quadruplet set" where
  "both_ways Q = Q \<union> qrev ` Q"

definition one_way :: "quadruplet set \<Rightarrow> bool" where
  "one_way Q \<longleftrightarrow> (\<forall>q\<in>Q. qrev q \<noteq> q \<longrightarrow> qrev q \<notin> Q)"

lemma both_ways_Un [simp]: "both_ways (A \<union> B) = both_ways A \<union> both_ways B" "both_ways {} = {}"
  by (auto simp: both_ways_def)

lemma both_ways_rev: "qrev q \<in> Q \<Longrightarrow> both_ways (insert q Q) = both_ways Q"
  unfolding both_ways_def by (auto intro: rev_image_eqI)

text \<open>Every insertion, tested or not, adds the path in one of its directions.\<close>

definition adds :: "(quadruplet set \<Rightarrow> quadruplet set) \<Rightarrow> quadruplet set \<Rightarrow> bool" where
  "adds f P \<longleftrightarrow> (\<forall>Q. both_ways (f Q) = both_ways (Q \<union> P) \<and> (one_way Q \<longrightarrow> one_way (f Q)))"

lemma adds_test: "adds (\<lambda>Q. if qrev q \<notin> Q then insert q Q else Q) {q}"
  unfolding adds_def
proof (intro allI conjI impI)
  fix Q
  show "both_ways (if qrev q \<notin> Q then insert q Q else Q) = both_ways (Q \<union> {q})"
    using both_ways_rev [of q Q] by simp
  assume "one_way Q"
  then show "one_way (if qrev q \<notin> Q then insert q Q else Q)"
    unfolding one_way_def by auto
qed

lemma adds_id: "adds (\<lambda>Q. Q) {}"
  by (simp add: adds_def)

lemma adds_comp: "adds f A \<Longrightarrow> adds h B \<Longrightarrow> adds (\<lambda>Q. h (f Q)) (A \<union> B)"
  by (auto simp: adds_def)

lemma adds_fold: "(\<And>x. x \<in> set xs \<Longrightarrow> adds (f x) (P x)) \<Longrightarrow> adds (fold f xs) (\<Union>x\<in>set xs. P x)"
proof (induction xs)
  case (Cons x xs)
  then have "adds (\<lambda>Q. fold f xs (f x Q)) (P x \<union> (\<Union>x\<in>set xs. P x))" by (intro adds_comp) auto
  then show ?case by (simp add: comp_def)
qed (simp add: adds_def)

lemma adds_quad_step:
  "adds (quad_step e c it itt) (if itt = it \<or> itt = c \<or> itt = e then {} else {(e, c, it, itt)})"
  using adds_test [of "(e, c, it, itt)"] adds_id unfolding quad_step_def [abs_def] by simp

lemma adds_mid_step:
  "adds (mid_step p1 p2 x y) (if y = p1 \<or> y = p2 \<or> x = y then {} else {(x, p1, p2, y)})"
  using adds_test [of "(x, p1, p2, y)"] adds_id unfolding mid_step_def [abs_def] by simp

section \<open>What one bond generates\<close>

definition side_quads :: "graphmap \<Rightarrow> int \<Rightarrow> int \<Rightarrow> int \<Rightarrow> quadruplet set \<Rightarrow> quadruplet set" where
  "side_quads g e c it Q = (if it = c \<or> it = e then Q else fold (quad_step e c it) (adj_list g it) Q)"

definition side_tris :: "int \<Rightarrow> int \<Rightarrow> triplet \<Rightarrow> int \<Rightarrow> triplet set \<Rightarrow> triplet set" where
  "side_tris e c test it T = (if it = c \<or> it = e then T else if test \<notin> T then insert (e, c, it) T else T)"

lemma side_loop_total:
  "set its \<subseteq> dom g \<Longrightarrow> side_loop g e c test its (T, Q) =
    Inr (fold (\<lambda>it. side_tris e c (test it) it) its T, fold (side_quads g e c) its Q)"
proof (induction its arbitrary: T Q)
  case (Cons it its)
  obtain A where "g it = Some A" using Cons.prems by auto
  then have "side_step g e c (test it) it (T, Q) = Inr (side_tris e c (test it) it T, side_quads g e c it Q)"
    by (auto simp: side_step_def side_tris_def side_quads_def adj_list_def Let_def)
  then show ?case using Cons by simp
qed simp

lemma generate_total:
  assumes g: "finite_graph g" "sym_graph g" and ab: "a \<in> dom g" "b \<in> dom g"
  shows "generateAnglesDihedrals g a b (T, Q) =
    Inr (fold (\<lambda>it. side_tris a b (it, b, a) it) (adj_list g b) (fold (\<lambda>it. side_tris b a (it, b, a) it) (adj_list g a) T),
      mid_loop a b (adj_list g a) (adj_list g b) (fold (side_quads g a b) (adj_list g b) (fold (side_quads g b a) (adj_list g a) Q)))"
proof -
  obtain A B where AB: "g a = Some A" "g b = Some B" using ab by blast
  have "set (adj_list g x) \<subseteq> dom g" for x
    using g(2) adj_list_set [OF g(1)] by (auto simp: sym_graph_def edges_def dest: symD)
  note l = side_loop_total [OF this]
  have "sorted_list_of_set A = adj_list g a" "sorted_list_of_set B = adj_list g b" using AB by (simp_all add: adj_list_def)
  then show ?thesis using AB l by (simp add: generateAnglesDihedrals_def Let_def)
qed

definition side_paths :: "graphmap \<Rightarrow> int \<Rightarrow> int \<Rightarrow> quadruplet set" where
  "side_paths g e c = {(e, c, x, y) | x y. (c, x) \<in> edges g \<and> (x, y) \<in> edges g \<and> distinct [e, c, x, y]}"

definition mid_paths :: "graphmap \<Rightarrow> int \<Rightarrow> int \<Rightarrow> quadruplet set" where
  "mid_paths g a b = {(x, a, b, y) | x y. (a, x) \<in> edges g \<and> (b, y) \<in> edges g \<and> distinct [x, a, b, y]}"

lemma adds_side:
  assumes g: "finite_graph g" and n: "e \<noteq> c"
  shows "adds (fold (side_quads g e c) (adj_list g c)) (side_paths g e c)"
proof -
  have "adds (side_quads g e c x) (if x = c \<or> x = e then {} else
      (\<Union>y\<in>set (adj_list g x). if y = x \<or> y = c \<or> y = e then {} else {(e, c, x, y)}))" for x
    using adds_fold [of "adj_list g x", OF adds_quad_step] adds_id unfolding side_quads_def [abs_def] by simp
  from adds_fold [of "adj_list g c", OF this]
  have "adds (fold (side_quads g e c) (adj_list g c)) (\<Union>x\<in>set (adj_list g c). if x = c \<or> x = e then {} else
      (\<Union>y\<in>set (adj_list g x). if y = x \<or> y = c \<or> y = e then {} else {(e, c, x, y)}))" .
  moreover have "(\<Union>x\<in>set (adj_list g c). if x = c \<or> x = e then {} else
      (\<Union>y\<in>set (adj_list g x). if y = x \<or> y = c \<or> y = e then {} else {(e, c, x, y)})) = side_paths g e c"
    unfolding adj_list_set [OF g] side_paths_def using n by (auto split: if_splits)
  ultimately show ?thesis by simp
qed

lemma adds_mid:
  assumes g: "finite_graph g" and n: "a \<noteq> b"
  shows "adds (mid_loop a b (adj_list g a) (adj_list g b)) (mid_paths g a b)"
proof -
  let ?f = "\<lambda>x Q. if x = a \<or> x = b then Q else fold (mid_step a b x) (adj_list g b) Q"
  have "adds (?f x) (if x = a \<or> x = b then {} else
      (\<Union>y\<in>set (adj_list g b). if y = a \<or> y = b \<or> x = y then {} else {(x, a, b, y)}))" for x
    using adds_fold [of "adj_list g b", OF adds_mid_step] adds_id by simp
  from adds_fold [of "adj_list g a", OF this]
  have "adds (mid_loop a b (adj_list g a) (adj_list g b)) (\<Union>x\<in>set (adj_list g a). if x = a \<or> x = b then {} else
      (\<Union>y\<in>set (adj_list g b). if y = a \<or> y = b \<or> x = y then {} else {(x, a, b, y)}))"
    unfolding mid_loop_def [abs_def] .
  moreover have "(\<Union>x\<in>set (adj_list g a). if x = a \<or> x = b then {} else
      (\<Union>y\<in>set (adj_list g b). if y = a \<or> y = b \<or> x = y then {} else {(x, a, b, y)})) = mid_paths g a b"
    unfolding adj_list_set [OF g] mid_paths_def using n by (auto split: if_splits)
  ultimately show ?thesis by simp
qed

section \<open>All paths through a bond\<close>

text \<open>The reference: simple paths of four particles one of whose three bonds is the given one.\<close>

definition path4 :: "graphmap \<Rightarrow> quadruplet \<Rightarrow> bool" where
  "path4 g q = (case q of (a, b, c, d) \<Rightarrow>
     (a, b) \<in> edges g \<and> (b, c) \<in> edges g \<and> (c, d) \<in> edges g \<and> distinct [a, b, c, d])"

definition through :: "int \<Rightarrow> int \<Rightarrow> quadruplet \<Rightarrow> bool" where
  "through p1 p2 q = (case q of (a, b, c, d) \<Rightarrow> {a, b} = {p1, p2} \<or> {b, c} = {p1, p2} \<or> {c, d} = {p1, p2})"

lemma paths_through:
  assumes s: "sym_graph g" and e: "(p1, p2) \<in> edges g" "p1 \<noteq> p2"
  shows "both_ways (side_paths g p2 p1 \<union> side_paths g p1 p2 \<union> mid_paths g p1 p2) = {q. path4 g q \<and> through p1 p2 q}"
proof (intro set_eqI iffI)
  have sy: "(x, y) \<in> edges g \<longleftrightarrow> (y, x) \<in> edges g" for x y using s by (auto simp: sym_graph_def dest: symD)
  fix q :: quadruplet
  obtain a b c d where q: "q = (a, b, c, d)" by (cases q)
  { assume "q \<in> both_ways (side_paths g p2 p1 \<union> side_paths g p1 p2 \<union> mid_paths g p1 p2)"
    then show "q \<in> {q. path4 g q \<and> through p1 p2 q}"
      using e sy unfolding both_ways_def side_paths_def mid_paths_def path4_def through_def
      by (elim UnE imageE CollectE exE conjE) (simp_all add: insert_commute doubleton_eq_iff)
  next
    assume "q \<in> {q. path4 g q \<and> through p1 p2 q}"
    then have p: "(a, b) \<in> edges g" "(b, c) \<in> edges g" "(c, d) \<in> edges g" "distinct [a, b, c, d]"
      and t: "{a, b} = {p1, p2} \<or> {b, c} = {p1, p2} \<or> {c, d} = {p1, p2}"
      by (auto simp: q path4_def through_def)
    have sides: "(d, c, b, a) \<in> side_paths g d c" "(a, b, c, d) \<in> side_paths g a b" "(a, b, c, d) \<in> mid_paths g b c"
      "(d, c, b, a) \<in> mid_paths g c b"
      using p sy unfolding side_paths_def mid_paths_def by auto
    then have "(a, b, c, d) \<in> side_paths g p2 p1 \<union> side_paths g p1 p2 \<union> mid_paths g p1 p2
        \<or> qrev (a, b, c, d) \<in> side_paths g p2 p1 \<union> side_paths g p1 p2 \<union> mid_paths g p1 p2"
      using t unfolding doubleton_eq_iff by auto
    then show "q \<in> both_ways (side_paths g p2 p1 \<union> side_paths g p1 p2 \<union> mid_paths g p1 p2)"
      unfolding both_ways_def q by (metis UnI1 UnI2 image_eqI qrev_simp(2))
  }
qed

definition path3 :: "graphmap \<Rightarrow> triplet \<Rightarrow> bool" where
  "path3 g t = (case t of (a, b, c) \<Rightarrow> (a, b) \<in> edges g \<and> (b, c) \<in> edges g \<and> distinct [a, b, c])"

definition trev :: "triplet \<Rightarrow> triplet" where
  "trev t = (case t of (a, b, c) \<Rightarrow> (c, b, a))"

definition bond_in :: "int \<Rightarrow> int \<Rightarrow> triplet \<Rightarrow> bool" where
  "bond_in p1 p2 t = (case t of (a, b, c) \<Rightarrow> {a, b} = {p1, p2} \<or> {b, c} = {p1, p2})"

lemma side_tris_sub: "fold (\<lambda>it. side_tris e c (test it) it) xs T \<subseteq> T \<union> {(e, c, x) | x. x \<in> set xs \<and> x \<noteq> c \<and> x \<noteq> e}"
proof (induction xs arbitrary: T)
  case (Cons x xs)
  have "side_tris e c (test x) x T \<subseteq> T \<union> {(e, c, y) | y. y \<in> set (x # xs) \<and> y \<noteq> c \<and> y \<noteq> e}"
    by (auto simp: side_tris_def)
  moreover have "fold (\<lambda>it. side_tris e c (test it) it) xs (side_tris e c (test x) x T)
      \<subseteq> side_tris e c (test x) x T \<union> {(e, c, y) | y. y \<in> set (x # xs) \<and> y \<noteq> c \<and> y \<noteq> e}"
    using Cons.IH [of "side_tris e c (test x) x T"] by auto
  ultimately show ?case by simp blast
qed simp

lemma side_tris_all:
  assumes "\<And>x. x \<in> set xs \<Longrightarrow> x \<noteq> c \<Longrightarrow> x \<noteq> e \<Longrightarrow> test x \<notin> T \<union> {(e, c, y) | y. y \<in> set xs}"
  shows "fold (\<lambda>it. side_tris e c (test it) it) xs T = T \<union> {(e, c, x) | x. x \<in> set xs \<and> x \<noteq> c \<and> x \<noteq> e}"
  using assms
proof (induction xs arbitrary: T)
  case (Cons x xs)
  show ?case
  proof (cases "x = c \<or> x = e")
    case True
    then have "side_tris e c (test x) x T = T" by (simp add: side_tris_def)
    moreover have "fold (\<lambda>it. side_tris e c (test it) it) xs T = T \<union> {(e, c, x) | x. x \<in> set xs \<and> x \<noteq> c \<and> x \<noteq> e}"
    proof (rule Cons.IH)
      fix y assume "y \<in> set xs" "y \<noteq> c" "y \<noteq> e"
      with Cons.prems [of y] show "test y \<notin> T \<union> {(e, c, y) | y. y \<in> set xs}" by simp
    qed
    moreover have "{(e, c, y) | y. y \<in> set (x # xs) \<and> y \<noteq> c \<and> y \<noteq> e} = {(e, c, y) | y. y \<in> set xs \<and> y \<noteq> c \<and> y \<noteq> e}"
      using True by auto
    ultimately show ?thesis by simp
  next
    case False
    then have x: "side_tris e c (test x) x T = insert (e, c, x) T" using Cons.prems [of x] by (simp add: side_tris_def)
    have "fold (\<lambda>it. side_tris e c (test it) it) xs (insert (e, c, x) T)
        = insert (e, c, x) T \<union> {(e, c, y) | y. y \<in> set xs \<and> y \<noteq> c \<and> y \<noteq> e}"
    proof (rule Cons.IH)
      fix y assume "y \<in> set xs" "y \<noteq> c" "y \<noteq> e"
      with Cons.prems [of y] have "test y \<notin> T" "\<forall>z\<in>set (x # xs). test y \<noteq> (e, c, z)" by auto
      then show "test y \<notin> insert (e, c, x) T \<union> {(e, c, y) | y. y \<in> set xs}" by auto
    qed
    moreover have "{(e, c, y) | y. y \<in> set (x # xs) \<and> y \<noteq> c \<and> y \<noteq> e}
        = insert (e, c, x) {(e, c, y) | y. y \<in> set xs \<and> y \<noteq> c \<and> y \<noteq> e}" using False by auto
    ultimately show ?thesis by (simp add: x)
  qed
qed simp

lemma generate_quads:
  assumes g: "finite_graph g" "sym_graph g" and e: "(a, b) \<in> edges g" "a \<noteq> b"
  shows "\<exists>T' Q'. generateAnglesDihedrals g a b (T, Q) = Inr (T', Q')
    \<and> both_ways Q' = both_ways Q \<union> {q. path4 g q \<and> through a b q} \<and> (one_way Q \<longrightarrow> one_way Q')"
proof -
  have "(b, a) \<in> edges g" using e g(2) by (auto simp: sym_graph_def dest: symD)
  then have ab: "a \<in> dom g" "b \<in> dom g" using e by (auto simp: edges_def)
  have "adds (\<lambda>Q. mid_loop a b (adj_list g a) (adj_list g b) (fold (side_quads g a b) (adj_list g b) (fold (side_quads g b a) (adj_list g a) Q)))
      ((side_paths g b a \<union> side_paths g a b) \<union> mid_paths g a b)"
    using adds_comp [OF adds_comp [OF adds_side [OF g(1)] adds_side [OF g(1)]] adds_mid [OF g(1) e(2)]] e(2) by simp
  then show ?thesis
    unfolding generate_total [OF g ab] adds_def paths_through [OF g(2) e, symmetric] both_ways_Un(1)
    by simp
qed

lemma generateAll_quads:
  assumes g: "finite_graph g" "sym_graph g" and es: "\<And>a b. (a, b) \<in> set es \<Longrightarrow> (a, b) \<in> edges g \<and> a \<noteq> b"
  shows "\<exists>T' Q'. generateAll g es (T, Q) = Inr (T', Q')
    \<and> both_ways Q' = both_ways Q \<union> {q. path4 g q \<and> (\<exists>(a, b)\<in>set es. through a b q)} \<and> (one_way Q \<longrightarrow> one_way Q')"
  using es
proof (induction es arbitrary: T Q)
  case (Cons e es)
  obtain a b where e: "e = (a, b)" by (cases e)
  obtain T1 Q1 where 1: "generateAnglesDihedrals g a b (T, Q) = Inr (T1, Q1)"
    "both_ways Q1 = both_ways Q \<union> {q. path4 g q \<and> through a b q}" "one_way Q \<longrightarrow> one_way Q1"
    using generate_quads [OF g, of a b T Q] Cons.prems [of a b] e by auto
  obtain T' Q' where 2: "generateAll g es (T1, Q1) = Inr (T', Q')"
    "both_ways Q' = both_ways Q1 \<union> {q. path4 g q \<and> (\<exists>(a, b)\<in>set es. through a b q)}" "one_way Q1 \<longrightarrow> one_way Q'"
    using Cons.IH [of T1 Q1] Cons.prems by auto
  show ?case using 1 2 by (intro exI [of _ T'] exI [of _ Q']) (auto simp: e)
qed simp

lemma generate_triplets:
  assumes g: "finite_graph g" "sym_graph g" and e: "(a, b) \<in> edges g" "a \<noteq> b"
  shows "\<exists>T' Q'. generateAnglesDihedrals g a b ({}, Q) = Inr (T', Q') \<and> T' \<union> trev ` T' = {t. path3 g t \<and> bond_in a b t}"
proof -
  have sy: "(x, y) \<in> edges g \<longleftrightarrow> (y, x) \<in> edges g" for x y using g(2) by (auto simp: sym_graph_def dest: symD)
  have ab: "a \<in> dom g" "b \<in> dom g" using e sy by (auto simp: edges_def)
  let ?A = "{(b, a, x) | x. (a, x) \<in> edges g \<and> x \<noteq> a \<and> x \<noteq> b}" and ?B = "{(a, b, x) | x. (b, x) \<in> edges g \<and> x \<noteq> b \<and> x \<noteq> a}"
  have A: "fold (\<lambda>it. side_tris b a (it, b, a) it) (adj_list g a) {} = ?A"
    using side_tris_all [of "adj_list g a" a b "\<lambda>it. (it, b, a)" "{}"] e(2) by (auto simp: adj_list_set [OF g(1)])
  have B: "fold (\<lambda>it. side_tris a b (it, b, a) it) (adj_list g b) ?A = ?A \<union> ?B"
    using side_tris_all [of "adj_list g b" b a "\<lambda>it. (it, b, a)" ?A] e(2) by (auto simp: adj_list_set [OF g(1)])
  have "(?A \<union> ?B) \<union> trev ` (?A \<union> ?B) = {t. path3 g t \<and> bond_in a b t}"
  proof (intro set_eqI iffI)
    fix t :: triplet
    obtain x y z where t: "t = (x, y, z)" by (cases t)
    { assume "t \<in> (?A \<union> ?B) \<union> trev ` (?A \<union> ?B)"
      then show "t \<in> {t. path3 g t \<and> bond_in a b t}" using e sy by (auto simp: path3_def bond_in_def trev_def)
    next
      assume "t \<in> {t. path3 g t \<and> bond_in a b t}"
      then have p: "(x, y) \<in> edges g" "(y, z) \<in> edges g" "distinct [x, y, z]" and bd: "{x, y} = {a, b} \<or> {y, z} = {a, b}"
        by (auto simp: t path3_def bond_in_def)
      have q: "(y, x) \<in> edges g" "(z, y) \<in> edges g" using p sy by blast+
      consider "x = a" "y = b" | "x = b" "y = a" | "y = a" "z = b" | "y = b" "z = a"
        using bd unfolding doubleton_eq_iff by blast
      then have "(x, y, z) \<in> ?A \<union> ?B \<or> (z, y, x) \<in> ?A \<union> ?B" by cases (use p q in auto)
      then have "t \<in> ?A \<union> ?B \<or> t = trev (z, y, x) \<and> (z, y, x) \<in> ?A \<union> ?B" by (simp add: t trev_def)
      then show "t \<in> (?A \<union> ?B) \<union> trev ` (?A \<union> ?B)" by blast
    }
  qed
  then show ?thesis unfolding generate_total [OF g ab] A B by blast
qed

end
