(* ===== verification/TopologyManager.thy ===== *)
theory TopologyManager
  imports TopologyAngles FixedPairList FixedTripleList FixedQuadrupleList "HOL-Library.Product_Lexorder"
begin

text \<open>
  \<^verbatim>\<open>src/src/integrator/TopologyManager.hpp/.cpp\<close>: the extension that keeps the topology on every process.
  \<open>node\<close> is one process: the manager, the storage and the fixed lists that it shares with the rest of the
  program.  A shared pointer to a list is its index.  A read of a \<^verbatim>\<open>boost::unordered_map\<close> with
  \<^verbatim>\<open>operator[]\<close> would insert a null pointer, which no later read tells from a missing entry.  The
  lookups give pointers that the storage keeps valid.
\<close>

section \<open>Particle properties to apply\<close>

record tpp =
  tp_type :: int
  tp_mass :: real
  tp_q :: real
  tp_lambda :: real
  tp_state :: int
  tp_res_id :: int
  tp_incr_state :: int
  tp_change_flag :: int
  tp_v :: real
  tp_f :: real
  tp_condition :: bool
  tp_min_state :: int
  tp_max_state :: int

definition CHANGE_V :: int where "CHANGE_V = 128"
definition CHANGE_F :: int where "CHANGE_F = 256"

text \<open>The constructors; what they leave uninitialised is an argument.\<close>

definition TPP_new :: "real \<Rightarrow> real \<Rightarrow> tpp" where
  "TPP_new v f = \<lparr>tp_type = 0, tp_mass = 0, tp_q = 0, tp_lambda = 0, tp_state = 0, tp_res_id = 0, tp_incr_state = 0,
     tp_change_flag = 0, tp_v = v, tp_f = f, tp_condition = False, tp_min_state = 0, tp_max_state = 0\<rparr>"

definition TPP_of :: "int \<Rightarrow> real \<Rightarrow> real \<Rightarrow> pproperties \<Rightarrow> tpp" where
  "TPP_of state v f p = \<lparr>tp_type = pp_type p, tp_mass = pp_mass p, tp_q = pp_q p, tp_lambda = pp_lambda p, tp_state = state,
     tp_res_id = pp_res_id p, tp_incr_state = pp_incr_state p, tp_change_flag = pp_change_flag p, tp_v = v, tp_f = f,
     tp_condition = False, tp_min_state = 0, tp_max_state = 0\<rparr>"

definition setMinMaxState :: "int \<Rightarrow> int \<Rightarrow> tpp \<Rightarrow> tpp" where
  "setMinMaxState min_state max_state t = t\<lparr>tp_min_state := min_state, tp_max_state := max_state, tp_condition := True\<rparr>"

definition tpp_flag :: "int \<Rightarrow> tpp \<Rightarrow> tpp" where
  "tpp_flag c t = t\<lparr>tp_change_flag := tp_change_flag t OR c\<rparr>"

definition tpp_setType :: "int \<Rightarrow> tpp \<Rightarrow> tpp" where "tpp_setType x t = tpp_flag CHANGE_TYPE (t\<lparr>tp_type := x\<rparr>)"
definition tpp_setMass :: "real \<Rightarrow> tpp \<Rightarrow> tpp" where "tpp_setMass x t = tpp_flag CHANGE_MASS (t\<lparr>tp_mass := x\<rparr>)"
definition tpp_setState :: "int \<Rightarrow> tpp \<Rightarrow> tpp" where "tpp_setState x t = tpp_flag CHANGE_STATE (t\<lparr>tp_state := x\<rparr>)"
definition tpp_setIncrState :: "int \<Rightarrow> tpp \<Rightarrow> tpp" where "tpp_setIncrState x t = tpp_flag INCR_STATE (t\<lparr>tp_incr_state := x\<rparr>)"
definition tpp_setResId :: "int \<Rightarrow> tpp \<Rightarrow> tpp" where "tpp_setResId x t = tpp_flag CHANGE_RESID (t\<lparr>tp_res_id := x\<rparr>)"
definition tpp_setLambda :: "real \<Rightarrow> tpp \<Rightarrow> tpp" where "tpp_setLambda x t = tpp_flag CHANGE_LAMBDA (t\<lparr>tp_lambda := x\<rparr>)"
definition tpp_setF :: "real \<Rightarrow> tpp \<Rightarrow> tpp" where "tpp_setF x t = tpp_flag CHANGE_F (t\<lparr>tp_f := x\<rparr>)"
definition tpp_setV :: "real \<Rightarrow> tpp \<Rightarrow> tpp" where "tpp_setV x t = tpp_flag CHANGE_V (t\<lparr>tp_v := x\<rparr>)"

text \<open>\<^verbatim>\<open>setQ\<close> assigns its argument to itself: the parameter hides the field.\<close>

definition tpp_setQ :: "real \<Rightarrow> tpp \<Rightarrow> tpp" where "tpp_setQ x t = tpp_flag CHANGE_Q t"

definition tpp_eq :: "tpp \<Rightarrow> tpp \<Rightarrow> bool" where
  "tpp_eq l r \<longleftrightarrow> tp_type l = tp_type r \<and> tp_mass l = tp_mass r \<and> tp_q l = tp_q r \<and> tp_state l = tp_state r
     \<and> tp_res_id l = tp_res_id r \<and> tp_lambda l = tp_lambda r \<and> tp_min_state l = tp_min_state r
     \<and> tp_max_state l = tp_max_state r \<and> tp_incr_state l = tp_incr_state r \<and> tp_change_flag l = tp_change_flag r
     \<and> tp_f l = tp_f r \<and> tp_v l = tp_v r"

definition tpp_in_range :: "tpp \<Rightarrow> particle \<Rightarrow> bool" where
  "tpp_in_range t p \<longleftrightarrow> \<not> tp_condition t \<or> tp_min_state t \<le> pp_state (part_p p) \<and> pp_state (part_p p) < tp_max_state t"

text \<open>\<^verbatim>\<open>isValid\<close> of a pointer that may be null.\<close>

definition tpp_isValid :: "tpp \<Rightarrow> particle option \<Rightarrow> bool" where
  "tpp_isValid t p = (case p of Some x \<Rightarrow> tpp_in_range t x | None \<Rightarrow> True)"

text \<open>A vector is given a new length; of the zero vector the code makes NaN, which is \<^term>\<open>None\<close> here.\<close>

definition rescale :: "real3d \<Rightarrow> real \<Rightarrow> real3d option" where
  "rescale v x = (if real3d_abs v = 0 then None else Some (real3d_scale (real3d_scale v (1 / real3d_abs v)) x))"

definition tpp_change :: "tpp \<Rightarrow> pproperties \<Rightarrow> pproperties" where
  "tpp_change t q =
     (let c = tp_change_flag t;
          q = if has_flag c CHANGE_TYPE then q\<lparr>pp_type := tp_type t\<rparr> else q;
          q = if has_flag c CHANGE_MASS then q\<lparr>pp_mass := tp_mass t\<rparr> else q;
          q = if has_flag c CHANGE_Q then q\<lparr>pp_q := tp_q t\<rparr> else q;
          q = if has_flag c CHANGE_STATE then q\<lparr>pp_state := tp_state t\<rparr> else q;
          q = if has_flag c INCR_STATE then q\<lparr>pp_state := pp_state q + tp_incr_state t\<rparr> else q;
          q = if has_flag c CHANGE_RESID then q\<lparr>pp_res_id := tp_res_id t\<rparr> else q
      in if has_flag c CHANGE_LAMBDA then q\<lparr>pp_lambda := tp_lambda t\<rparr> else q)"

definition tpp_update :: "tpp \<Rightarrow> particle \<Rightarrow> (bool \<times> particle) option" where
  "tpp_update t p =
     (if tp_change_flag t \<noteq> 0 \<and> tpp_in_range t p
      then do { v \<leftarrow> (if has_flag (tp_change_flag t) CHANGE_V then rescale (pm_v (part_m p)) (tp_v t) else Some (pm_v (part_m p)));
                f \<leftarrow> (if has_flag (tp_change_flag t) CHANGE_F then rescale (pf_f (part_f p)) (tp_f t) else Some (pf_f (part_f p)));
                Some (True, p\<lparr>part_p := tpp_change t (part_p p), part_m := (part_m p)\<lparr>pm_v := v\<rparr>, part_f := (part_f p)\<lparr>pf_f := f\<rparr>\<rparr>) }
      else Some (False, p))"

section \<open>The manager\<close>

record manager =
  topo :: topology
  update_angles :: bool
  update_dihedrals :: bool
  update_14pairs :: bool
  generate_new_angles_dihedrals :: bool
  tuples :: "nat list"
  tuples14 :: "nat list"
  triples :: "nat list"
  quadruples :: "nat list"
  tupleMap :: "int \<times> int \<Rightarrow> nat option"
  tuple14Map :: "int \<times> int \<Rightarrow> nat option"
  tripleMap :: "int \<times> int \<times> int \<Rightarrow> nat option"
  quadrupleMap :: "int \<times> int \<times> int \<times> int \<Rightarrow> nat option"
  tm_newEdges :: "(int \<times> int) list"
  removedEdges :: "(int \<times> int) list"
  max_nb_distance :: int
  nb_distances :: "int set"
  distance_type_pp :: "int \<Rightarrow> (int, tpp) multimap option"
  nb_distance_particles :: "int list"
  max_bond_nb_distance :: int
  edges_type_distance_pair_types :: "int \<Rightarrow> (int \<Rightarrow> (int \<times> int) set option) option"
  nb_edges_root_to_remove :: "int list"
  new_type_pp :: "int \<Rightarrow> tpp option"
  new_local_particle_properties :: "int list"
  is_dirty :: bool

text \<open>The constructor; \<^verbatim>\<open>max_mol_id_\<close> is left uninitialised.\<close>

definition TopologyManager_new :: "int \<Rightarrow> manager" where
  "TopologyManager_new garbage =
     \<lparr>topo = topology_empty\<lparr>max_mol_id := garbage\<rparr>, update_angles = False, update_dihedrals = False,
      update_14pairs = False, generate_new_angles_dihedrals = False, tuples = [], tuples14 = [], triples = [], quadruples = [],
      tupleMap = Map.empty, tuple14Map = Map.empty, tripleMap = Map.empty, quadrupleMap = Map.empty,
      tm_newEdges = [], removedEdges = [], max_nb_distance = 0, nb_distances = {}, distance_type_pp = Map.empty,
      nb_distance_particles = [], max_bond_nb_distance = 0, edges_type_distance_pair_types = Map.empty,
      nb_edges_root_to_remove = [], new_type_pp = Map.empty, new_local_particle_properties = [], is_dirty = True\<rparr>"

record node =
  man :: manager
  store :: storage
  pairLists :: "fixedpairlist list"
  tripleLists :: "fixedtriplelist list"
  quadLists :: "fixedquadruplelist list"
  observed :: "nat list"

definition upd_man :: "(manager \<Rightarrow> manager) \<Rightarrow> node \<Rightarrow> node" where
  "upd_man f n = n\<lparr>man := f (man n)\<rparr>"

section \<open>Registration\<close>

definition observeTuple :: "nat \<Rightarrow> node \<Rightarrow> node" where
  "observeTuple fpl n = upd_man (\<lambda>m. m\<lparr>tuples := tuples m @ [fpl]\<rparr>) (n\<lparr>observed := observed n @ [fpl]\<rparr>)"

definition registerTuple :: "nat \<Rightarrow> int \<Rightarrow> int \<Rightarrow> manager \<Rightarrow> manager" where
  "registerTuple fpl t1 t2 m = m\<lparr>tuples := tuples m @ [fpl], tupleMap := (tupleMap m)((t1, t2) \<mapsto> fpl, (t2, t1) \<mapsto> fpl)\<rparr>"

definition register14Tuple :: "nat \<Rightarrow> int \<Rightarrow> int \<Rightarrow> manager \<Rightarrow> manager" where
  "register14Tuple fpl t1 t2 m =
     m\<lparr>tuples14 := tuples14 m @ [fpl], tuple14Map := (tuple14Map m)((t1, t2) \<mapsto> fpl, (t2, t1) \<mapsto> fpl),
       update_14pairs := True, generate_new_angles_dihedrals := True\<rparr>"

definition registerTriple :: "nat \<Rightarrow> int \<Rightarrow> int \<Rightarrow> int \<Rightarrow> manager \<Rightarrow> manager" where
  "registerTriple ftl t1 t2 t3 m =
     m\<lparr>tripleMap := (tripleMap m)((t1, t2, t3) \<mapsto> ftl, (t3, t2, t1) \<mapsto> ftl), triples := triples m @ [ftl],
       update_angles := True, generate_new_angles_dihedrals := True\<rparr>"

definition registerQuadruple :: "nat \<Rightarrow> int \<Rightarrow> int \<Rightarrow> int \<Rightarrow> int \<Rightarrow> manager \<Rightarrow> manager" where
  "registerQuadruple fql t1 t2 t3 t4 m =
     m\<lparr>quadrupleMap := (quadrupleMap m)((t1, t2, t3, t4) \<mapsto> fql, (t4, t3, t2, t1) \<mapsto> fql), quadruples := quadruples m @ [fql],
       update_dihedrals := True, generate_new_angles_dihedrals := True\<rparr>"

definition registerNeighbourPropertyChange :: "int \<Rightarrow> tpp \<Rightarrow> int \<Rightarrow> manager \<Rightarrow> manager" where
  "registerNeighbourPropertyChange type_id pp nb_level m =
     m\<lparr>max_nb_distance := max (max_nb_distance m) nb_level, nb_distances := insert nb_level (nb_distances m),
       distance_type_pp := (distance_type_pp m)(nb_level \<mapsto> mm_insert type_id pp
         (case distance_type_pp m nb_level of None \<Rightarrow> [] | Some l \<Rightarrow> l))\<rparr>"

definition registerNeighbourBondToRemove :: "int \<Rightarrow> int \<Rightarrow> int \<Rightarrow> int \<Rightarrow> manager \<Rightarrow> manager" where
  "registerNeighbourBondToRemove type_id nb_level type_pid1 type_pid2 m =
     (let d = (case edges_type_distance_pair_types m type_id of None \<Rightarrow> Map.empty | Some d \<Rightarrow> d);
          s = (case d nb_level of None \<Rightarrow> {} | Some s \<Rightarrow> s)
      in m\<lparr>max_bond_nb_distance := max (max_bond_nb_distance m) nb_level,
           edges_type_distance_pair_types := (edges_type_distance_pair_types m)(type_id \<mapsto>
             d(nb_level \<mapsto> s \<union> {(type_pid1, type_pid2), (type_pid2, type_pid1)}))\<rparr>)"

definition registerLocalPropertyChange :: "int \<Rightarrow> tpp \<Rightarrow> manager \<Rightarrow> topo_error + manager" where
  "registerLocalPropertyChange type_id pp m =
     (case new_type_pp m type_id of None \<Rightarrow> Inr (m\<lparr>new_type_pp := (new_type_pp m)(type_id \<mapsto> pp)\<rparr>)
      | Some old \<Rightarrow> if \<not> tpp_eq pp old then Inl Already_defined else Inr m)"

section \<open>Requests and signals\<close>

definition onTupleAdded :: "int \<times> int \<Rightarrow> manager \<Rightarrow> manager" where
  "onTupleAdded e m =
     (if \<not> isParticleConnected (topo m) (fst e) (snd e)
      then m\<lparr>tm_newEdges := tm_newEdges m @ [e], is_dirty := True\<rparr> else m)"

definition onTupleRemoved :: "int \<times> int \<Rightarrow> manager \<Rightarrow> manager" where
  "onTupleRemoved e m =
     (if isParticleConnected (topo m) (fst e) (snd e)
      then m\<lparr>removedEdges := removedEdges m @ [e], is_dirty := True\<rparr> else m)"

definition invokeNeighbourPropertyChange :: "int \<Rightarrow> manager \<Rightarrow> manager option" where
  "invokeNeighbourPropertyChange r m =
     do { nb \<leftarrow> getNodesAtDistances (graph (topo m)) (nb_distances m) (max_nb_distance m) r;
          Some (m\<lparr>nb_distance_particles := nb_distance_particles m @ nb, is_dirty := True\<rparr>) }"

definition invokeNeighbourBondRemove :: "particle \<Rightarrow> manager \<Rightarrow> manager" where
  "invokeNeighbourBondRemove x m =
     (if edges_type_distance_pair_types m (pp_type (part_p x)) \<noteq> None
      then m\<lparr>nb_edges_root_to_remove := nb_edges_root_to_remove m @ [p_id x], is_dirty := True\<rparr> else m)"

definition invokeParticlePropertiesChange :: "int \<Rightarrow> manager \<Rightarrow> manager" where
  "invokeParticlePropertiesChange pid m =
     m\<lparr>new_local_particle_properties := new_local_particle_properties m @ [pid], is_dirty := True\<rparr>"

text \<open>An operation on a list that others observe: its signals reach the manager once per connection.\<close>

definition signal :: "(int \<times> int \<Rightarrow> manager \<Rightarrow> manager) \<Rightarrow> nat \<Rightarrow> (int \<times> int) list \<Rightarrow> node \<Rightarrow> node" where
  "signal h fpl es n = upd_man (fold (\<lambda>e m. fold (\<lambda>_. h e) (filter (\<lambda>k. k = fpl) (observed n)) m) es) n"

definition pair_remove :: "nat \<Rightarrow> int \<Rightarrow> int \<Rightarrow> node \<Rightarrow> bool \<times> node" where
  "pair_remove fpl pid1 pid2 n =
     (let f = pairLists n ! fpl; (r, f') = fpl_remove False pid1 pid2 f
      in (r, signal onTupleRemoved fpl (drop (length (pairRemoved f)) (pairRemoved f')) (n\<lparr>pairLists := (pairLists n)[fpl := f']\<rparr>)))"

definition pair_iadd :: "nat \<Rightarrow> int \<Rightarrow> int \<Rightarrow> node \<Rightarrow> bool \<times> node" where
  "pair_iadd fpl pid1 pid2 n =
     (let f = pairLists n ! fpl; (r, f') = fpl_iadd (realOf (store n)) (localOf (store n)) pid1 pid2 f
      in (r, signal onTupleAdded fpl (drop (length (pairAdded f)) (pairAdded f')) (n\<lparr>pairLists := (pairLists n)[fpl := f']\<rparr>)))"

end
