(* ===== verification/TopologyExchange.thy ===== *)
theory TopologyExchange
  imports TopologyManager
begin

text \<open>
  \<^verbatim>\<open>exchangeData\<close> of \<^verbatim>\<open>src/src/integrator/TopologyManager.cpp\<close> and what it calls: what the processes have noted
  is gathered, merged, and applied by every one of them to its copy of the topology and to its
  lists.  A failure of a list is an error of its own.
\<close>

datatype tm_error = Topo topo_error | Listed fl_error

definition lift_error :: "('a \<Rightarrow> 'c) \<Rightarrow> 'a + 'b \<Rightarrow> 'c + 'b" where
  "lift_error c r = (case r of Inl e \<Rightarrow> Inl (c e) | Inr x \<Rightarrow> Inr x)"

text \<open>A step may also not end, or be undefined.\<close>

type_synonym 'a step = "'a \<Rightarrow> (tm_error + 'a) option"

definition obind :: "('e + 'a) option \<Rightarrow> ('a \<Rightarrow> ('e + 'b) option) \<Rightarrow> ('e + 'b) option" where
  "obind r f = (case r of None \<Rightarrow> None | Some (Inl e) \<Rightarrow> Some (Inl e) | Some (Inr x) \<Rightarrow> f x)"

lemma obind_simps [simp]: "obind None f = None" "obind (Some (Inl e)) f = Some (Inl e)" "obind (Some (Inr x)) f = f x"
  by (simp_all add: obind_def)

lemma obind_ok: "obind r f = Some (Inr y) \<longleftrightarrow> (\<exists>x. r = Some (Inr x) \<and> f x = Some (Inr y))"
  by (auto simp: obind_def split: option.splits sum.splits)

fun steps :: "('x \<Rightarrow> 'a step) \<Rightarrow> 'x list \<Rightarrow> 'a step" where
  "steps f [] a = Some (Inr a)"
| "steps f (x # xs) a = obind (f x a) (steps f xs)"

definition particle_at :: "storage \<Rightarrow> int \<Rightarrow> particle option" where
  "particle_at st pid = Option.bind (localOf st pid) (deref st)"

definition real_at :: "storage \<Rightarrow> int \<Rightarrow> particle option" where
  "real_at st pid = Option.bind (realOf st pid) (deref st)"

abbreviation type_of :: "particle \<Rightarrow> int" where "type_of x \<equiv> pp_type (part_p x)"

section \<open>Bonds\<close>

definition removeBond :: "int \<Rightarrow> int \<Rightarrow> node \<Rightarrow> topo_error + (bool \<times> node)" where
  "removeBond pid1 pid2 n =
     (case (particle_at (store n) pid1, particle_at (store n) pid2) of
        (Some p1, Some p2) \<Rightarrow>
          if p_ghost p1 \<and> p_ghost p2 then Inr (False, n)
          else let (pid1, pid2) = (if p_ghost p1 then (pid2, pid1) else (pid1, pid2))
               in ebind (find_or Tuple_not_found (tupleMap (man n) (type_of p1, type_of p2)))
                    (\<lambda>fpl. Inr (pair_remove fpl pid1 pid2 n))
      | _ \<Rightarrow> Inr (False, n))"

definition upd_topo :: "(topology \<Rightarrow> topo_error + topology) \<Rightarrow> node \<Rightarrow> tm_error + node" where
  "upd_topo f n = ebind (lift_error Topo (f (topo (man n)))) (\<lambda>t. Inr (upd_man (\<lambda>m. m\<lparr>topo := t\<rparr>) n))"

definition deleteEdge :: "int \<Rightarrow> int \<Rightarrow> node \<Rightarrow> (tm_error + (bool \<times> node)) option" where
  "deleteEdge pid1 pid2 n =
     (case removeBond pid1 pid2 n of
        Inl e \<Rightarrow> Some (Inl (Topo e))
      | Inr (removed, n) \<Rightarrow>
          do { r \<leftarrow> eraseEdge pid1 pid2 (topo (man n));
               Some (ebind (upd_topo (\<lambda>_. r) n) (\<lambda>n. Inr (removed, n))) })"

definition delete_step :: "int \<times> int \<Rightarrow> node step" where
  "delete_step e n = obind (deleteEdge (fst e) (snd e) n) (\<lambda>(removed, n). Some (Inr n))"

definition new_step :: "int \<times> int \<Rightarrow> node step" where
  "new_step e n = Some (upd_topo (newEdge (fst e) (snd e)) n)"

text \<open>\<^verbatim>\<open>removeNeighbourEdges\<close>: the bonds to remove around a root that this process can see.\<close>

definition edge_emit :: "storage \<Rightarrow> (int \<Rightarrow> (int \<times> int) set option) \<Rightarrow> int \<Rightarrow> int \<Rightarrow> int
    \<Rightarrow> (int \<times> int) list \<Rightarrow> (int \<times> int) list" where
  "edge_emit st pair_types current new_distance node out =
     (case pair_types new_distance of None \<Rightarrow> out
      | Some tys \<Rightarrow>
          (case (particle_at st node, particle_at st current) of
             (Some p1_node, Some p1_current) \<Rightarrow>
               if (type_of p1_current, type_of p1_node) \<in> tys
               then out @ [if node > current then (current, node) else (node, current)] else out
           | _ \<Rightarrow> out))"

definition removeNeighbourEdges :: "int \<Rightarrow> node step" where
  "removeNeighbourEdges pid n =
     (case particle_at (store n) pid of None \<Rightarrow> Some (Inr n)
      | Some x \<Rightarrow>
          (case edges_type_distance_pair_types (man n) (type_of x) of None \<Rightarrow> Some (Inr n)
           | Some d \<Rightarrow>
               do { es \<leftarrow> dist_search (edge_emit (store n) d) (graph (topo (man n))) (max_bond_nb_distance (man n))
                            (\<lambda>_. False) (p_id x) (removedEdges (man n));
                    Some (Inr (upd_man (\<lambda>m. m\<lparr>removedEdges := es\<rparr>) n)) }))"

section \<open>Angles and dihedrals\<close>

definition defineAngle :: "triplet \<Rightarrow> node step" where
  "defineAngle t n =
     (case t of (a, b, c) \<Rightarrow>
        (case (particle_at (store n) a, real_at (store n) b, particle_at (store n) c) of
           (Some p1, Some p2, Some p3) \<Rightarrow>
             let t1 = type_of p1; t2 = type_of p2; t3 = type_of p3;
                 ftl = tripleMap (man n) (t1, t2, t3);
                 ftl = (if ftl = None then tripleMap (man n) (t3, t2, t1) else ftl)
             in (case ftl of None \<Rightarrow> Some (Inr n)
                 | Some k \<Rightarrow> Some (ebind (lift_error Listed
                       (ftl_iadd (realOf (store n)) (localOf (store n)) (p_id p1) (p_id p2) (p_id p3) (tripleLists n ! k)))
                       (\<lambda>(ret, f). Inr (n\<lparr>tripleLists := (tripleLists n)[k := f]\<rparr>))))
         | _ \<Rightarrow> Some (Inr n)))"

definition defineDihedral :: "quadruplet \<Rightarrow> node step" where
  "defineDihedral q n =
     (case q of (a, b, c, d) \<Rightarrow>
        (case (particle_at (store n) a, particle_at (store n) b, particle_at (store n) c, particle_at (store n) d) of
           (Some p1, Some p2, Some p3, Some p4) \<Rightarrow>
             let t1 = type_of p1; t2 = type_of p2; t3 = type_of p3; t4 = type_of p4;
                 fql = quadrupleMap (man n) (t1, t2, t3, t4);
                 reverse_order = (fql = None);
                 fql = (if reverse_order then quadrupleMap (man n) (t4, t3, t2, t1) else fql)
             in if reverse_order \<and> p_ghost p4 \<or> \<not> reverse_order \<and> p_ghost p1 then Some (Inr n)
                else (case fql of None \<Rightarrow> Some (Inr n)
                      | Some k \<Rightarrow>
                          let r = realOf (store n); l = localOf (store n); f = quadLists n ! k
                          in Some (ebind (lift_error Listed
                            (if \<not> reverse_order then fql_iadd r l (p_id p1) (p_id p2) (p_id p3) (p_id p4) f
                             else fql_iadd r l (p_id p4) (p_id p3) (p_id p2) (p_id p1) f))
                            (\<lambda>(ret, f). Inr (n\<lparr>quadLists := (quadLists n)[k := f]\<rparr>))))
         | _ \<Rightarrow> Some (Inr n)))"

definition generateNewAnglesDihedrals :: "(int \<times> int) set \<Rightarrow> node step" where
  "generateNewAnglesDihedrals new_edges n =
     obind (Some (lift_error Topo (generateAll (graph (topo (man n))) (sorted_list_of_set new_edges) ({}, {})))) (\<lambda>(T, Q).
     obind (if update_angles (man n) then steps defineAngle (sorted_list_of_set T) n else Some (Inr n)) (\<lambda>n.
       if update_dihedrals (man n) then steps defineDihedral (sorted_list_of_set Q) n else Some (Inr n)))"

definition update_triples :: "nat \<Rightarrow> node step" where
  "update_triples k n = Some (ebind (lift_error Listed
     (ftl_updateParticlesStorage (realOf (store n)) (localOf (store n)) (tripleLists n ! k)))
     (\<lambda>f. Inr (n\<lparr>tripleLists := (tripleLists n)[k := f]\<rparr>)))"

definition update_quads :: "nat \<Rightarrow> node step" where
  "update_quads k n = Some (ebind (lift_error Listed
     (fql_updateParticlesStorage (realOf (store n)) (localOf (store n)) (quadLists n ! k)))
     (\<lambda>f. Inr (n\<lparr>quadLists := (quadLists n)[k := f]\<rparr>)))"

definition update_pairs :: "nat \<Rightarrow> node step" where
  "update_pairs k n = Some (ebind (lift_error Listed
     (fpl_updateParticlesStorage (realOf (store n)) (localOf (store n)) (pairLists n ! k)))
     (\<lambda>f. Inr (n\<lparr>pairLists := (pairLists n)[k := f]\<rparr>)))"

definition drop_triples :: "int \<times> int \<Rightarrow> nat \<Rightarrow> node \<Rightarrow> node" where
  "drop_triples e k n =
     n\<lparr>tripleLists := (tripleLists n)[k := snd (ftl_removeByBond (fst e) (snd e) (tripleLists n ! k))]\<rparr>"

definition drop_quads :: "int \<times> int \<Rightarrow> nat \<Rightarrow> node \<Rightarrow> node" where
  "drop_quads e k n =
     n\<lparr>quadLists := (quadLists n)[k := snd (fql_removeByBond (fst e) (snd e) (quadLists n ! k))]\<rparr>"

definition remove_by_bond :: "int \<times> int \<Rightarrow> node \<Rightarrow> node" where
  "remove_by_bond e n =
     fold (drop_quads e) (quadruples (man n)) (fold (drop_triples e) (triples (man n)) n)"

definition removeAnglesDihedrals :: "(int \<times> int) set \<Rightarrow> node step" where
  "removeAnglesDihedrals removed_edges n =
     (let n = fold remove_by_bond (sorted_list_of_set removed_edges) n
      in if removed_edges \<noteq> {}
         then obind (steps update_triples (triples (man n)) n) (\<lambda>n. steps update_quads (quadruples (man n)) n)
         else Some (Inr n))"

section \<open>Properties of particles\<close>

definition apply_tpp :: "tpp \<Rightarrow> int \<Rightarrow> particle \<Rightarrow> node step" where
  "apply_tpp t pid x n =
     do { p \<leftarrow> localOf (store n) pid; (changed, x) \<leftarrow> tpp_update t x; st \<leftarrow> assign (store n) p x; Some (Inr (n\<lparr>store := st\<rparr>)) }"

definition updateParticlePropertiesAtDistance :: "int \<Rightarrow> int \<Rightarrow> node step" where
  "updateParticlePropertiesAtDistance pid distance n =
     (case particle_at (store n) pid of None \<Rightarrow> Some (Inr n)
      | Some x \<Rightarrow>
          (case distance_type_pp (man n) distance of None \<Rightarrow> Some (Inr n)
           | Some type_pp \<Rightarrow>
               let range = mm_range (type_of x) type_pp; valid = filter (\<lambda>t. tpp_isValid t (Some x)) range
               in if range = [] then Some (Inr n)
                  else if length valid > 1 then Some (Inl (Topo Multiple_updates))
                  else if valid = [] then Some (Inl (Topo No_properties))
                  else apply_tpp (last valid) pid x n))"

definition updateLocalProperties :: "int \<Rightarrow> node step" where
  "updateLocalProperties pid n =
     (case particle_at (store n) pid of None \<Rightarrow> Some (Inr n)
      | Some x \<Rightarrow> (case new_type_pp (man n) (type_of x) of None \<Rightarrow> Some (Inr n) | Some t \<Rightarrow> apply_tpp t pid x n))"

text \<open>The state asked for is that of the last neighbor looked at; a null pointer there is undefined.\<close>

definition isNeighbourParticleInState :: "int \<Rightarrow> int \<Rightarrow> int \<Rightarrow> int \<Rightarrow> node \<Rightarrow> bool option" where
  "isNeighbourParticleInState root_id nb_type_id min_state max_state n =
     (let ps = map (particle_at (store n)) (adj_list (graph (topo (man n))) root_id);
          num_type = length (filter (\<lambda>p. case p of None \<Rightarrow> False | Some x \<Rightarrow> type_of x = nb_type_id) ps)
      in if num_type > 1 then Some False
         else if num_type = 1
         then map_option (\<lambda>x. min_state \<le> pp_state (part_p x) \<and> pp_state (part_p x) < max_state) (last ps)
         else Some False)"

definition hasNeighbourParticleProperty :: "int \<Rightarrow> tpp \<Rightarrow> int \<Rightarrow> node \<Rightarrow> bool option" where
  "hasNeighbourParticleProperty root_id properties depth n =
     do { nb \<leftarrow> nodes_at_depth (graph (topo (man n))) root_id depth;
          let xs = filter (\<lambda>x. type_of x = tp_type properties) (List.map_filter (real_at (store n)) (sorted_list_of_set nb));
          Some (nb \<noteq> {} \<and> xs \<noteq> [] \<and> list_all (tpp_in_range properties) xs) }"

section \<open>Messages\<close>

text \<open>The first message: a count and the roots.\<close>

definition pack_roots :: "manager \<Rightarrow> int list" where
  "pack_roots m = int (length (nb_edges_root_to_remove m)) # nb_edges_root_to_remove m"

function unpack_roots :: "int list \<Rightarrow> int list option" where
  "unpack_roots [] = Some []"
| "unpack_roots (k # xs) =
     (case read_chunks 1 hd (nat k) xs of None \<Rightarrow> None
      | Some (vs, rest) \<Rightarrow> (case unpack_roots rest of None \<Rightarrow> None | Some ws \<Rightarrow> Some (vs @ ws)))"
  by pat_completeness auto
termination
  by (relation "measure length") (auto dest!: read_chunks_length)

text \<open>The second message: four counts and what they count.\<close>

record changes =
  ch_distance :: "(int \<times> int \<times> int) list"
  ch_new :: "(int \<times> int) list"
  ch_removed :: "(int \<times> int) list"
  ch_props :: "int list"

definition enc_pairs :: "(int \<times> int) list \<Rightarrow> int list" where
  "enc_pairs es = concat (map (\<lambda>(a, b). [a, b]) es)"

definition dec_pair :: "int list \<Rightarrow> int \<times> int" where
  "dec_pair xs = (xs ! 0, xs ! 1)"

definition dec_triple :: "int list \<Rightarrow> int \<times> int \<times> int" where
  "dec_triple xs = (xs ! 0, xs ! 1, xs ! 2)"

definition pack_changes :: "manager \<Rightarrow> int list" where
  "pack_changes m =
     [c_div (int (length (nb_distance_particles m))) 3, int (length (tm_newEdges m)), int (length (removedEdges m)),
      int (length (new_local_particle_properties m))]
     @ nb_distance_particles m @ enc_pairs (tm_newEdges m) @ enc_pairs (removedEdges m) @ new_local_particle_properties m"

definition read_changes :: "int list \<Rightarrow> (changes \<times> int list) option" where
  "read_changes xs =
     (case xs of k1 # k2 # k3 # k4 # xs \<Rightarrow>
        do { (ds, xs) \<leftarrow> read_chunks 3 dec_triple (nat k1) xs;
             (ns, xs) \<leftarrow> read_chunks 2 dec_pair (nat k2) xs;
             (rs, xs) \<leftarrow> read_chunks 2 dec_pair (nat k3) xs;
             (ps, xs) \<leftarrow> read_chunks 1 hd (nat k4) xs;
             Some (\<lparr>ch_distance = ds, ch_new = ns, ch_removed = rs, ch_props = ps\<rparr>, xs) }
      | _ \<Rightarrow> None)"

lemma read_changes_length: "read_changes xs = Some (c, rest) \<Longrightarrow> length rest < length xs"
  unfolding read_changes_def
  by (auto simp: bind_eq_Some_conv split: list.splits dest!: read_chunks_length)

function unpack_changes :: "int list \<Rightarrow> changes list option" where
  "unpack_changes xs =
     (if xs = [] then Some []
      else case read_changes xs of None \<Rightarrow> None
        | Some (c, rest) \<Rightarrow> (case unpack_changes rest of None \<Rightarrow> None | Some cs \<Rightarrow> Some (c # cs)))"
  by pat_completeness auto
termination
  by (relation "measure length") (auto dest: read_changes_length)

declare unpack_changes.simps [simp del]

section \<open>Merging\<close>

text \<open>The pairs root, particle with their distance, in the order in which they were first met.\<close>

fun merge_distances :: "(int \<times> int \<times> int) list \<Rightarrow> ((int \<times> int) \<times> int) list \<Rightarrow> topo_error + ((int \<times> int) \<times> int) list" where
  "merge_distances [] acc = Inr acc"
| "merge_distances ((r, d, p) # ts) acc =
     (case map_of acc (r, p) of
        None \<Rightarrow> merge_distances ts (acc @ [((r, p), d)])
      | Some d' \<Rightarrow> if d' \<noteq> d then Inl Ambiguous_distance else merge_distances ts acc)"

definition edge_of :: "int \<times> int \<Rightarrow> int \<times> int" where
  "edge_of e = (if fst e > snd e then (snd e, fst e) else e)"

definition new_edges :: "changes list \<Rightarrow> (int \<times> int) set" where
  "new_edges cs = (\<Union>c\<in>set cs. edge_of ` set (ch_new c))"

definition removed_edges :: "changes list \<Rightarrow> (int \<times> int) set" where
  "removed_edges cs = (\<Union>c\<in>set cs. edge_of ` set (ch_removed c))"

section \<open>The exchange\<close>

definition clear_requests :: "manager \<Rightarrow> manager" where
  "clear_requests m = m\<lparr>tm_newEdges := [], removedEdges := [], nb_distance_particles := [], nb_edges_root_to_remove := [],
     new_local_particle_properties := [], is_dirty := False\<rparr>"

text \<open>The operations on the graph are the only ones that touch the topology.\<close>

definition apply_edges :: "changes list \<Rightarrow> node step" where
  "apply_edges cs n =
     obind (steps delete_step (sorted_list_of_set (removed_edges cs)) n) (\<lambda>n.
       steps new_step (sorted_list_of_set (new_edges cs)) n)"

text \<open>\<open>hash_order\<close> is the order in which \<^verbatim>\<open>boost::unordered_map\<close> goes through its entries.\<close>

definition apply_changes :: "(((int \<times> int) \<times> int) list \<Rightarrow> ((int \<times> int) \<times> int) list) \<Rightarrow> changes list \<Rightarrow> node step" where
  "apply_changes hash_order cs n =
     obind (Some (lift_error Topo (merge_distances (concat (map ch_distance cs)) []))) (\<lambda>ds.
     obind (removeAnglesDihedrals (removed_edges cs) n) (\<lambda>n.
     obind (apply_edges cs n) (\<lambda>n.
     obind (steps (\<lambda>e. updateParticlePropertiesAtDistance (snd (fst e)) (snd e)) (hash_order ds) n) (\<lambda>n.
     obind (steps updateLocalProperties (sorted_list_of_set (\<Union>c\<in>set cs. set (ch_props c))) n) (\<lambda>n.
     obind (generateNewAnglesDihedrals (new_edges cs) n) (\<lambda>n.
     obind (if removed_edges cs \<noteq> {} then steps update_pairs (tuples (man n)) n else Some (Inr n)) (\<lambda>n.
       Some (Inr (upd_man clear_requests n)))))))))"

text \<open>The processes; the exchange ends normally if it does on every one of them.\<close>

fun on_all :: "node step \<Rightarrow> node list step" where
  "on_all f [] = Some (Inr [])"
| "on_all f (n # ns) = obind (f n) (\<lambda>n. obind (on_all f ns) (\<lambda>ns. Some (Inr (n # ns))))"

definition gather :: "(int list \<Rightarrow> 'a list option) \<Rightarrow> (manager \<Rightarrow> int list) \<Rightarrow> node list \<Rightarrow> 'a list option" where
  "gather unpack pack ns =
     (if list_all (\<lambda>n. unpack (pack (man n)) \<noteq> None) ns then Some (concat (map (\<lambda>n. the (unpack (pack (man n)))) ns)) else None)"

definition exchangeData :: "(((int \<times> int) \<times> int) list \<Rightarrow> ((int \<times> int) \<times> int) list) \<Rightarrow> node list step" where
  "exchangeData hash_order ns =
     (if \<not> list_ex (\<lambda>n. is_dirty (man n)) ns then Some (Inr ns)
      else do { roots \<leftarrow> gather unpack_roots pack_roots ns;
                obind (on_all (steps removeNeighbourEdges (sorted_list_of_set (set roots))) ns) (\<lambda>ns.
                  do { cs \<leftarrow> gather unpack_changes pack_changes ns; on_all (apply_changes hash_order cs) ns }) })"

text \<open>\<^verbatim>\<open>initializeTopology\<close> on all processes: real particles with their residues, and the pairs of the lists.\<close>

definition pair_ids :: "storage \<Rightarrow> ptr option \<times> ptr option \<Rightarrow> (int \<times> int) option" where
  "pair_ids st pp = do { p \<leftarrow> fst pp; q \<leftarrow> snd pp; x \<leftarrow> deref st p; y \<leftarrow> deref st q; Some (p_id x, p_id y) }"

definition contribute :: "node \<Rightarrow> contribution option" where
  "contribute n =
     (let es = map (pair_ids (store n)) (concat (map (\<lambda>k. pairList (pairLists n ! k)) (tuples (man n))))
      in if list_all (\<lambda>e. e \<noteq> None) es
         then Some (map (\<lambda>x. (p_id x, pp_res_id (part_p x))) (cellParticles (store n) (realCells (store n))), map the es)
         else None)"

definition initialize_all :: "node list step" where
  "initialize_all ns =
     (if list_all (\<lambda>n. contribute n \<noteq> None) ns
      then Some (ebind (lift_error Topo (initializeTopology (map (\<lambda>n. the (contribute n)) ns))) (\<lambda>t.
        Inr (map (upd_man (\<lambda>m. m\<lparr>topo := t, is_dirty := True\<rparr>)) ns)))
      else None)"

end
