(* ===== verification/TopologySafe.thy ===== *)
theory TopologySafe
  imports TopologyExchange
begin

text \<open>
  The exchange keeps the copies of the topology equal: only the edges all processes have gathered
  change it, in the same order everywhere, and the invariant with it.
\<close>

section \<open>Steps that leave the topology alone\<close>

definition topo_kept :: "node step \<Rightarrow> bool" where
  "topo_kept f \<longleftrightarrow> (\<forall>n n'. f n = Some (Inr n') \<longrightarrow> topo (man n') = topo (man n))"

lemma topo_keptD: "topo_kept f \<Longrightarrow> f n = Some (Inr n') \<Longrightarrow> topo (man n') = topo (man n)"
  by (simp add: topo_kept_def)

lemma keeps_steps: "(\<And>x. topo_kept (f x)) \<Longrightarrow> topo_kept (steps f xs)"
proof (induction xs)
  case (Cons x xs)
  then show ?case unfolding topo_kept_def by (auto simp: obind_ok)
qed (simp add: topo_kept_def)

lemma lift_error_ok [simp]: "lift_error c r = Inr x \<longleftrightarrow> r = Inr x"
  by (cases r) (simp_all add: lift_error_def)

lemma upd_man_simps [simp]: "man (upd_man f n) = f (man n)" "store (upd_man f n) = store n"
  by (simp_all add: upd_man_def)

lemma topo_signal [simp]: "topo (man (signal h k es n)) = topo (man n)" if h: "\<And>e m. topo (h e m) = topo m"
proof -
  have "topo (fold (\<lambda>_. h e) xs m) = topo m" for e :: "int \<times> int" and xs :: "nat list" and m
    by (induction xs arbitrary: m) (simp_all add: h)
  then have "topo (fold (\<lambda>e m. fold (\<lambda>_. h e) xs m) es m) = topo m" for m and xs :: "nat list"
    by (induction es arbitrary: m) simp_all
  then show ?thesis by (simp add: signal_def)
qed

lemma topo_onTupleRemoved [simp]: "topo (onTupleRemoved e m) = topo m"
  by (simp add: onTupleRemoved_def)

lemma topo_onTupleAdded [simp]: "topo (onTupleAdded e m) = topo m"
  by (simp add: onTupleAdded_def)

lemma topo_pair_remove: "pair_remove k a b n = (r, n') \<Longrightarrow> topo (man n') = topo (man n)"
  by (auto simp: pair_remove_def Let_def split: prod.splits)

lemma topo_removeBond: "removeBond a b n = Inr (r, n') \<Longrightarrow> topo (man n') = topo (man n)"
  by (auto simp: removeBond_def ebind_Inr_iff Let_def split: option.splits if_splits dest: topo_pair_remove)

lemma keeps_defineAngle: "topo_kept (defineAngle t)"
  by (auto simp: topo_kept_def defineAngle_def ebind_Inr_iff Let_def split: prod.splits option.splits if_splits)

lemma keeps_defineDihedral: "topo_kept (defineDihedral q)"
  by (auto simp: topo_kept_def defineDihedral_def ebind_Inr_iff Let_def split: prod.splits option.splits if_splits)

lemma keeps_updates: "topo_kept (update_triples k)" "topo_kept (update_quads k)" "topo_kept (update_pairs k)"
  by (auto simp: topo_kept_def update_triples_def update_quads_def update_pairs_def ebind_Inr_iff)

lemma keeps_apply: "apply_tpp t pid x n = Some (Inr n') \<Longrightarrow> topo (man n') = topo (man n)"
  by (auto simp: apply_tpp_def bind_eq_Some_conv)

lemma keeps_properties: "topo_kept (updateParticlePropertiesAtDistance pid d)" "topo_kept (updateLocalProperties pid)"
  by (auto simp: topo_kept_def updateParticlePropertiesAtDistance_def updateLocalProperties_def Let_def
      split: option.splits if_splits dest: keeps_apply)

lemma drop_keeps [simp]: "man (drop_triples e k n) = man n" "store (drop_triples e k n) = store n"
    "man (drop_quads e k n) = man n" "store (drop_quads e k n) = store n"
    "quadLists (drop_triples e k n) = quadLists n" "tripleLists (drop_quads e k n) = tripleLists n"
    "length (tripleLists (drop_triples e k n)) = length (tripleLists n)"
    "length (quadLists (drop_quads e k n)) = length (quadLists n)"
  by (simp_all add: drop_triples_def drop_quads_def)

lemma fold_keeps: "(\<And>x n. f (g x n) = f n) \<Longrightarrow> f (fold g xs n) = f n"
  by (induction xs arbitrary: n) simp_all

lemma remove_by_bond_keeps [simp]: "man (remove_by_bond e n) = man n" "store (remove_by_bond e n) = store n"
    "length (tripleLists (remove_by_bond e n)) = length (tripleLists n)"
    "length (quadLists (remove_by_bond e n)) = length (quadLists n)"
  by (simp_all add: remove_by_bond_def fold_keeps [where f = man] fold_keeps [where f = store]
      fold_keeps [where f = "\<lambda>n. length (tripleLists n)"] fold_keeps [where f = "\<lambda>n. length (quadLists n)"])

lemma fold_remove_keeps [simp]: "man (fold remove_by_bond es n) = man n" "store (fold remove_by_bond es n) = store n"
    "length (tripleLists (fold remove_by_bond es n)) = length (tripleLists n)"
    "length (quadLists (fold remove_by_bond es n)) = length (quadLists n)"
  by (simp_all add: fold_keeps [where f = man] fold_keeps [where f = store]
      fold_keeps [where f = "\<lambda>n. length (tripleLists n)"] fold_keeps [where f = "\<lambda>n. length (quadLists n)"])

lemma keeps_removeAngles: "topo_kept (removeAnglesDihedrals R)"
proof (unfold topo_kept_def, intro allI impI)
  fix n n' assume run: "removeAnglesDihedrals R n = Some (Inr n')"
  let ?n = "fold remove_by_bond (sorted_list_of_set R) n"
  have t: "topo_kept (steps update_triples ks)" "topo_kept (steps update_quads ks)" for ks
    by (rule keeps_steps, rule keeps_updates)+
  show "topo (man n') = topo (man n)"
  proof (cases "R = {}")
    case False
    then obtain n1 where 1: "steps update_triples (triples (man ?n)) ?n = Some (Inr n1)"
      and 2: "steps update_quads (quadruples (man n1)) n1 = Some (Inr n')"
      using run by (auto simp: removeAnglesDihedrals_def Let_def obind_ok)
    show ?thesis using topo_keptD [OF t(1) 1] topo_keptD [OF t(2) 2] by simp
  qed (use run in \<open>simp add: removeAnglesDihedrals_def\<close>)
qed

lemma keeps_generate: "topo_kept (generateNewAnglesDihedrals E)"
proof -
  have if_keeps: "topo (man n') = topo (man n)" if "(if b then steps f xs n else Some (Inr n)) = Some (Inr n')" "\<And>x. topo_kept (f x)"
    for b and f :: "'x \<Rightarrow> node step" and xs n n'
    using that keeps_steps [of f xs] by (auto simp: topo_kept_def split: if_splits)
  show ?thesis unfolding topo_kept_def generateNewAnglesDihedrals_def
  proof (intro allI impI)
    fix n n' assume "obind (Some (lift_error Topo (generateAll (graph (topo (man n))) (sorted_list_of_set E) ({}, {})))) (\<lambda>(T, Q).
      obind (if update_angles (man n) then steps defineAngle (sorted_list_of_set T) n else Some (Inr n)) (\<lambda>n.
       if update_dihedrals (man n) then steps defineDihedral (sorted_list_of_set Q) n else Some (Inr n))) = Some (Inr n')"
    then obtain T Q where "obind (if update_angles (man n) then steps defineAngle (sorted_list_of_set T) n else Some (Inr n)) (\<lambda>n.
       if update_dihedrals (man n) then steps defineDihedral (sorted_list_of_set Q) n else Some (Inr n)) = Some (Inr n')"
      unfolding obind_ok [of _ "\<lambda>(T, Q). F T Q" for F] by auto
    then obtain n1 where "(if update_angles (man n) then steps defineAngle (sorted_list_of_set T) n else Some (Inr n)) = Some (Inr n1)"
      "(if update_dihedrals (man n1) then steps defineDihedral (sorted_list_of_set Q) n1 else Some (Inr n1)) = Some (Inr n')"
      unfolding obind_ok by blast
    from if_keeps [OF this(1) keeps_defineAngle] if_keeps [OF this(2) keeps_defineDihedral]
    show "topo (man n') = topo (man n)" by simp
  qed
qed

lemma keeps_removeNeighbourEdges: "topo_kept (removeNeighbourEdges pid)"
  by (auto simp: topo_kept_def removeNeighbourEdges_def bind_eq_Some_conv split: option.splits)

section \<open>The edges of one process\<close>

lemma delete_topo:
  assumes "delete_step e n = Some (Inr n')"
  shows "eraseEdge (fst e) (snd e) (topo (man n)) = Some (Inr (topo (man n')))"
proof -
  obtain r n1 where "removeBond (fst e) (snd e) n = Inr (r, n1)"
    "eraseEdge (fst e) (snd e) (topo (man n1)) = Some (Inr (topo (man n')))"
    using assms by (auto simp: delete_step_def deleteEdge_def obind_ok upd_topo_def ebind_Inr_iff bind_eq_Some_conv split: sum.splits)
  then show ?thesis using topo_removeBond by simp
qed

lemma new_topo:
  assumes "new_step e n = Some (Inr n')"
  shows "newEdge (fst e) (snd e) (topo (man n)) = Inr (topo (man n'))"
  using assms by (auto simp: new_step_def upd_topo_def ebind_Inr_iff)

text \<open>A step whose effect on the topology is a function of the topology alone.\<close>

definition topo_fun :: "('x \<Rightarrow> node step) \<Rightarrow> bool" where
  "topo_fun f \<longleftrightarrow> (\<forall>x n n' m m'. f x n = Some (Inr n') \<longrightarrow> f x m = Some (Inr m') \<longrightarrow> topo (man n) = topo (man m)
     \<longrightarrow> topo (man n') = topo (man m'))"

lemma topo_fun_steps:
  "topo_fun f \<Longrightarrow> steps f xs n = Some (Inr n') \<Longrightarrow> steps f xs m = Some (Inr m') \<Longrightarrow> topo (man n) = topo (man m)
    \<Longrightarrow> topo (man n') = topo (man m')"
proof (induction xs arbitrary: n m)
  case (Cons x xs)
  then obtain n1 m1 where "f x n = Some (Inr n1)" "steps f xs n1 = Some (Inr n')" "f x m = Some (Inr m1)"
    "steps f xs m1 = Some (Inr m')" by (auto simp: obind_ok)
  moreover from this have "topo (man n1) = topo (man m1)" using Cons.prems unfolding topo_fun_def by blast
  ultimately show ?case using Cons by blast
qed simp

lemma topo_fun_edges: "topo_fun delete_step" "topo_fun new_step"
  unfolding topo_fun_def by (metis delete_topo option.inject sum.inject(2), metis new_topo sum.inject(2))

lemma delete_steps_ok:
  "steps delete_step es n = Some (Inr n') \<Longrightarrow> topo_ok (topo (man n)) \<Longrightarrow>
    topo_ok (topo (man n')) \<and> edges (graph (topo (man n'))) = edges (graph (topo (man n))) - (\<Union>(a, b)\<in>set es. link a b)"
proof (induction es arbitrary: n)
  case (Cons e es)
  then obtain n1 where 1: "delete_step e n = Some (Inr n1)" "steps delete_step es n1 = Some (Inr n')" by (auto simp: obind_ok)
  note s = eraseEdge_sound [OF Cons.prems(2) delete_topo [OF 1(1)]]
  from Cons.IH [OF 1(2)] s show ?case by (cases e) auto
qed simp

lemma new_steps_ok:
  "steps new_step es n = Some (Inr n') \<Longrightarrow> topo_ok (topo (man n)) \<Longrightarrow>
    topo_ok (topo (man n')) \<and> edges (graph (topo (man n'))) = edges (graph (topo (man n))) \<union> (\<Union>(a, b)\<in>set es. link a b)"
proof (induction es arbitrary: n)
  case (Cons e es)
  then obtain n1 where 1: "new_step e n = Some (Inr n1)" "steps new_step es n1 = Some (Inr n')" by (auto simp: obind_ok)
  note s = newEdge_sound [OF Cons.prems(2) new_topo [OF 1(1)]]
  from Cons.IH [OF 1(2)] s show ?case by (cases e) auto
qed simp

lemma apply_edges_ok:
  assumes "apply_edges cs n = Some (Inr n')" "topo_ok (topo (man n))"
    and "finite (new_edges cs)" "finite (removed_edges cs)"
  shows "topo_ok (topo (man n')) \<and> edges (graph (topo (man n')))
    = edges (graph (topo (man n))) - (\<Union>(a, b)\<in>removed_edges cs. link a b) \<union> (\<Union>(a, b)\<in>new_edges cs. link a b)"
proof -
  obtain n1 where 1: "steps delete_step (sorted_list_of_set (removed_edges cs)) n = Some (Inr n1)"
    "steps new_step (sorted_list_of_set (new_edges cs)) n1 = Some (Inr n')"
    using assms(1) by (auto simp: apply_edges_def obind_ok)
  from delete_steps_ok [OF 1(1) assms(2)] new_steps_ok [OF 1(2)] show ?thesis using assms(3,4) by simp
qed

lemma apply_edges_fun:
  assumes "apply_edges cs n = Some (Inr n')" "apply_edges cs m = Some (Inr m')" "topo (man n) = topo (man m)"
  shows "topo (man n') = topo (man m')"
proof -
  obtain n1 m1 where 1: "steps delete_step (sorted_list_of_set (removed_edges cs)) n = Some (Inr n1)"
    "steps new_step (sorted_list_of_set (new_edges cs)) n1 = Some (Inr n')"
    "steps delete_step (sorted_list_of_set (removed_edges cs)) m = Some (Inr m1)"
    "steps new_step (sorted_list_of_set (new_edges cs)) m1 = Some (Inr m')"
    using assms(1,2) by (auto simp: apply_edges_def obind_ok)
  from topo_fun_steps [OF topo_fun_edges(2) 1(2,4) topo_fun_steps [OF topo_fun_edges(1) 1(1,3) assms(3)]] show ?thesis .
qed

section \<open>One process applies all changes\<close>

definition idle :: "manager \<Rightarrow> bool" where
  "idle m \<longleftrightarrow> tm_newEdges m = [] \<and> removedEdges m = [] \<and> nb_distance_particles m = [] \<and> nb_edges_root_to_remove m = []
     \<and> new_local_particle_properties m = [] \<and> \<not> is_dirty m"

lemma keeps_if: "topo_kept f \<Longrightarrow> (if b then f n else Some (Inr n)) = Some (Inr n') \<Longrightarrow> topo (man n') = topo (man n)"
  by (auto simp: topo_kept_def split: if_splits)

lemma apply_changes_split:
  assumes "apply_changes h cs n = Some (Inr n')"
  shows "\<exists>n1 n2. topo (man n1) = topo (man n) \<and> apply_edges cs n1 = Some (Inr n2) \<and> topo (man n') = topo (man n2) \<and> idle (man n')"
proof -
  obtain ds n1 n2 n3 n4 n5 n6 where r: "removeAnglesDihedrals (removed_edges cs) n = Some (Inr n1)"
    "apply_edges cs n1 = Some (Inr n2)"
    "steps (\<lambda>e. updateParticlePropertiesAtDistance (snd (fst e)) (snd e)) (h ds) n2 = Some (Inr n3)"
    "steps updateLocalProperties (sorted_list_of_set (\<Union>c\<in>set cs. set (ch_props c))) n3 = Some (Inr n4)"
    "generateNewAnglesDihedrals (new_edges cs) n4 = Some (Inr n5)"
    "(if removed_edges cs \<noteq> {} then steps update_pairs (tuples (man n5)) n5 else Some (Inr n5)) = Some (Inr n6)"
    "n' = upd_man clear_requests n6"
    using assms unfolding apply_changes_def obind_ok by blast
  have "topo (man n1) = topo (man n)" by (rule topo_keptD [OF keeps_removeAngles r(1)])
  moreover have "topo (man n3) = topo (man n2)" "topo (man n4) = topo (man n3)" "topo (man n5) = topo (man n4)"
    by (rule topo_keptD [OF keeps_steps r(3)], rule keeps_properties, rule topo_keptD [OF keeps_steps r(4)], rule keeps_properties,
        rule topo_keptD [OF keeps_generate r(5)])
  moreover have "topo (man n6) = topo (man n5)" by (rule keeps_if [OF keeps_steps r(6)], rule keeps_updates)
  moreover have "topo (man n') = topo (man n6)" "idle (man n')" by (simp_all add: r(7) clear_requests_def idle_def)
  ultimately show ?thesis using r(2) by metis
qed

lemma on_all_ok: "on_all f ns = Some (Inr ns') \<Longrightarrow> list_all2 (\<lambda>n n'. f n = Some (Inr n')) ns ns'"
  by (induction ns arbitrary: ns') (auto simp: obind_ok)

section \<open>Messages arrive as they were sent\<close>

interpretation edge_payload: payload 2 "\<lambda>(a, b). [a, b]" dec_pair
  by unfold_locales (auto simp: dec_pair_def)

interpretation distance_payload: payload 3 "\<lambda>(a, b, c). [a, b, c]" dec_triple
  by unfold_locales (auto simp: dec_triple_def numeral_nat)

definition enc_triples :: "(int \<times> int \<times> int) list \<Rightarrow> int list" where
  "enc_triples ts = concat (map (\<lambda>(a, b, c). [a, b, c]) ts)"

lemma length_triples: "length (enc_triples ts) = 3 * length ts"
  unfolding enc_triples_def by (induction ts) auto

lemma read_ids: "read_chunks 1 hd (length vs) (vs @ rest) = Some (vs, rest)"
  using pair_payload.read_chunks_enc [of vs rest] by simp

lemma unpack_pack_roots: "unpack_roots (pack_roots m) = Some (nb_edges_root_to_remove m)"
  using read_ids [of "nb_edges_root_to_remove m" "[]"] by (simp add: pack_roots_def)

text \<open>Triplets are asked for as a whole.\<close>

definition requests_ok :: "manager \<Rightarrow> bool" where
  "requests_ok m \<longleftrightarrow> (\<exists>ts. nb_distance_particles m = enc_triples ts)"

definition noted :: "manager \<Rightarrow> changes" where
  "noted m = \<lparr>ch_distance = (THE ts. nb_distance_particles m = enc_triples ts), ch_new = tm_newEdges m,
     ch_removed = removedEdges m, ch_props = new_local_particle_properties m\<rparr>"

lemma enc_triples_inj: "enc_triples ts = enc_triples us \<Longrightarrow> ts = us"
proof -
  assume e: "enc_triples ts = enc_triples us"
  then have "length ts = length us" using length_triples [of ts] length_triples [of us] by simp
  then have "read_chunks 3 dec_triple (length ts) (enc_triples ts @ []) = read_chunks 3 dec_triple (length us) (enc_triples us @ [])"
    using e by simp
  then show ?thesis unfolding distance_payload.read_chunks_enc [folded enc_triples_def] by simp
qed

lemma noted_triples: "nb_distance_particles m = enc_triples ts \<Longrightarrow> ch_distance (noted m) = ts"
  using enc_triples_inj unfolding noted_def by auto

lemma unpack_pack_changes:
  assumes "nb_distance_particles m = enc_triples ts"
  shows "unpack_changes (pack_changes m) = Some [noted m]"
proof -
  have k: "c_div (int (length (enc_triples ts))) 3 = int (length ts)" 
  proof (cases "ts = []")
    case False
    then show ?thesis by (simp add: length_triples c_div_def sgn_if)
  qed (simp add: c_div_def enc_triples_def)
  have "read_changes (pack_changes m) = Some (noted m, [])"
    unfolding read_changes_def pack_changes_def assms k
    using distance_payload.read_chunks_enc [folded enc_triples_def] edge_payload.read_chunks_enc [folded enc_pairs_def]
      read_ids [of _ "[]"] noted_triples [OF assms]
    by (simp add: noted_def)
  moreover have "pack_changes m \<noteq> []" by (simp add: pack_changes_def)
  ultimately show ?thesis by (simp add: unpack_changes.simps [of "pack_changes m"] unpack_changes.simps [of "[]"])
qed

lemma gather_roots: "gather unpack_roots pack_roots ns = Some (concat (map (\<lambda>n. nb_edges_root_to_remove (man n)) ns))"
  by (simp add: gather_def unpack_pack_roots list_all_iff)

lemma gather_changes:
  assumes "\<And>n. n \<in> set ns \<Longrightarrow> requests_ok (man n)"
  shows "gather unpack_changes pack_changes ns = Some (map (\<lambda>n. noted (man n)) ns)"
proof -
  have u: "unpack_changes (pack_changes (man n)) = Some [noted (man n)]" if "n \<in> set ns" for n
    using assms [OF that] unpack_pack_changes unfolding requests_ok_def by blast
  then have "map (\<lambda>n. the (unpack_changes (pack_changes (man n)))) ns = map (\<lambda>n. [noted (man n)]) ns" by simp
  then have "concat (map (\<lambda>n. the (unpack_changes (pack_changes (man n)))) ns) = map (\<lambda>n. noted (man n)) ns"
    by (simp only: concat_map_singleton)
  then show ?thesis using u by (simp add: gather_def list_all_iff)
qed

section \<open>The bonds around the roots\<close>

lemma link_edge_of: "link (fst (edge_of e)) (snd (edge_of e)) = link (fst e) (snd e)"
  by (auto simp: edge_of_def link_def)

text \<open>
  What \<^verbatim>\<open>removeNeighbourEdges\<close> takes on one process: of the search from the root, which meets every node up to the largest
  registered distance once, coming from one node that is one bond nearer, those bonds at a distance for which pairs of
  types are registered for the type of the root, whose two particles the process has and have such types.
\<close>

definition removable :: "node \<Rightarrow> (int \<Rightarrow> (int \<times> int) set option) \<Rightarrow> int \<times> int \<times> int \<Rightarrow> bool" where
  "removable n pair_types e \<longleftrightarrow> (case e of (c, d, k) \<Rightarrow> \<exists>tys p q. pair_types d = Some tys
     \<and> particle_at (store n) c = Some p \<and> particle_at (store n) k = Some q \<and> (type_of p, type_of q) \<in> tys)"

definition cut_around :: "node \<Rightarrow> int \<Rightarrow> (int \<times> int) set \<Rightarrow> bool" where
  "cut_around n r E \<longleftrightarrow> (case particle_at (store n) r of None \<Rightarrow> E = {}
     | Some x \<Rightarrow> (case edges_type_distance_pair_types (man n) (type_of x) of None \<Rightarrow> E = {}
        | Some pair_types \<Rightarrow> \<exists>ps. discovery (graph (topo (man n))) (p_id x) (max_bond_nb_distance (man n)) ps
            \<and> E = (\<lambda>(c, d, k). edge_of (c, k)) ` {e \<in> set ps. removable n pair_types e}))"

lemma edge_emit_fold:
  "\<exists>es. fold (\<lambda>(c, d, k). edge_emit (store n) tys c d k) ps out = out @ es
    \<and> set es = (\<lambda>(c, d, k). edge_of (c, k)) ` {e \<in> set ps. removable n tys e}"
proof (induction ps arbitrary: out)
  case (Cons p ps)
  obtain c d k where p: "p = (c, d, k)" by (cases p)
  have "edge_emit (store n) tys c d k out = out @ (if removable n tys (c, d, k) then [edge_of (c, k)] else [])"
    by (auto simp: edge_emit_def edge_of_def removable_def split: option.split)
  then obtain e1 where e1: "edge_emit (store n) tys c d k out = out @ e1"
      "set e1 = (\<lambda>(c, d, k). edge_of (c, k)) ` {e. e = (c, d, k) \<and> removable n tys e}"
    by (cases "removable n tys (c, d, k)") force+
  obtain es where es: "fold (\<lambda>(c, d, k). edge_emit (store n) tys c d k) ps (out @ e1) = (out @ e1) @ es"
    "set es = (\<lambda>(c, d, k). edge_of (c, k)) ` {e \<in> set ps. removable n tys e}"
    using Cons.IH by blast
  have "set (e1 @ es) = (\<lambda>(c, d, k). edge_of (c, k)) ` {e \<in> set (p # ps). removable n tys e}"
    unfolding set_append e1(2) es(2) image_Un [symmetric] p by (rule arg_cong [where f = "image _"]) auto
  moreover have "fold (\<lambda>(c, d, k). edge_emit (store n) tys c d k) (p # ps) out = out @ (e1 @ es)" using e1(1) es(1) p by simp
  ultimately show ?case by blast
qed simp

definition more_removed :: "node \<Rightarrow> (int \<times> int) set \<Rightarrow> node \<Rightarrow> bool" where
  "more_removed n E n' \<longleftrightarrow> (\<exists>es. man n' = (man n)\<lparr>removedEdges := removedEdges (man n) @ es\<rparr> \<and> store n' = store n \<and> set es = E)"

lemma more_removed_refl: "more_removed n {} n"
  unfolding more_removed_def by (intro exI [of _ "[]"]) simp

lemma more_removed_trans: "more_removed n A m \<Longrightarrow> more_removed m B k \<Longrightarrow> more_removed n (A \<union> B) k"
  unfolding more_removed_def by (elim exE conjE, rename_tac es es', rule_tac x = "es @ es'" in exI) auto

lemma more_removed_cut: "more_removed n A m \<Longrightarrow> cut_around m r E = cut_around n r E"
  by (auto simp: more_removed_def cut_around_def removable_def split: option.splits)

lemma removeNeighbourEdges_more:
  assumes g: "finite_graph (graph (topo (man n)))" and run: "removeNeighbourEdges pid n = Some (Inr n')"
  shows "\<exists>E. cut_around n pid E \<and> more_removed n E n'"
proof (cases "\<exists>x d. particle_at (store n) pid = Some x \<and> edges_type_distance_pair_types (man n) (type_of x) = Some d")
  case True
  then obtain x d where x: "particle_at (store n) pid = Some x" "edges_type_distance_pair_types (man n) (type_of x) = Some d" by blast
  then obtain es where es: "dist_search (edge_emit (store n) d) (graph (topo (man n))) (max_bond_nb_distance (man n))
      (\<lambda>_. False) (p_id x) (removedEdges (man n)) = Some es" "n' = upd_man (\<lambda>m. m\<lparr>removedEdges := es\<rparr>) n"
    using run by (auto simp: removeNeighbourEdges_def bind_eq_Some_conv)
  obtain ps where ps: "es = fold (\<lambda>(c, d', n'). edge_emit (store n) d c d' n') ps (removedEdges (man n))"
    "discovery (graph (topo (man n))) (p_id x) (max_bond_nb_distance (man n)) ps"
    using dist_search_spec [OF g, of "edge_emit (store n) d" "max_bond_nb_distance (man n)" "p_id x" "removedEdges (man n)"] es(1)
    by auto
  obtain more where m: "es = removedEdges (man n) @ more" "set more = (\<lambda>(c, d, k). edge_of (c, k)) ` {e \<in> set ps. removable n d e}"
    using edge_emit_fold [of n d ps "removedEdges (man n)"] ps(1) by auto
  have "more_removed n (set more) n'" unfolding more_removed_def es(2) m(1) by (intro exI [of _ more]) simp
  moreover have "cut_around n pid (set more)" using ps(2) m(2) x by (auto simp: cut_around_def)
  ultimately show ?thesis by blast
next
  case False
  then have "n' = n" "cut_around n pid {}" using run by (auto simp: removeNeighbourEdges_def cut_around_def split: option.splits)
  then show ?thesis using more_removed_refl by blast
qed

lemma removeNeighbourEdges_total:
  assumes "finite_graph (graph (topo (man n)))"
  shows "\<exists>n'. removeNeighbourEdges pid n = Some (Inr n')"
proof -
  have "\<exists>es. dist_search (edge_emit (store n) d) (graph (topo (man n))) k (\<lambda>_. False) r out = Some es" for d k r out
    using dist_search_spec [OF assms, of "edge_emit (store n) d" k r out] by auto
  note total = this
  show ?thesis
  proof (cases "particle_at (store n) pid")
    case (Some x)
    show ?thesis
    proof (cases "edges_type_distance_pair_types (man n) (type_of x)")
      case d: (Some d)
      from total [of d "max_bond_nb_distance (man n)" "p_id x" "removedEdges (man n)"] show ?thesis
        using Some d by (auto simp: removeNeighbourEdges_def)
    qed (simp add: removeNeighbourEdges_def Some)
  qed (simp add: removeNeighbourEdges_def)
qed

lemma neighbour_steps_more:
  "steps removeNeighbourEdges rs n = Some (Inr n') \<Longrightarrow> finite_graph (graph (topo (man n))) \<Longrightarrow> distinct rs \<Longrightarrow>
    \<exists>pick. (\<forall>r\<in>set rs. cut_around n r (pick r)) \<and> more_removed n (\<Union>r\<in>set rs. pick r) n'"
proof (induction rs arbitrary: n)
  case Nil
  then show ?case using more_removed_refl by simp
next
  case (Cons r rs)
  then obtain n1 where 1: "removeNeighbourEdges r n = Some (Inr n1)" "steps removeNeighbourEdges rs n1 = Some (Inr n')"
    by (auto simp: obind_ok)
  obtain E where E: "cut_around n r E" "more_removed n E n1" using removeNeighbourEdges_more [OF Cons.prems(2) 1(1)] by blast
  have "finite_graph (graph (topo (man n1)))" "distinct rs" using Cons.prems(2,3) E(2) by (auto simp: more_removed_def)
  from Cons.IH [OF 1(2) this] obtain pick where
    p: "\<forall>q\<in>set rs. cut_around n q (pick q)" "more_removed n1 (\<Union>q\<in>set rs. pick q) n'"
    unfolding more_removed_cut [OF E(2)] by blast
  have d: "q \<in> set rs \<Longrightarrow> (pick(r := E)) q = pick q" for q using Cons.prems(3) by auto
  have "more_removed n (\<Union>q\<in>set (r # rs). (pick(r := E)) q) n'"
  proof -
    have "(\<Union>q\<in>set (r # rs). (pick(r := E)) q) = E \<union> (\<Union>q\<in>set rs. (pick(r := E)) q)" by simp
    also have "(\<Union>q\<in>set rs. (pick(r := E)) q) = (\<Union>q\<in>set rs. pick q)" using d by (rule SUP_cong [OF refl])
    finally show ?thesis using more_removed_trans [OF E(2) p(2)] by simp
  qed
  moreover have "\<forall>q\<in>set (r # rs). cut_around n q ((pick(r := E)) q)" using E(1) p(1) d by auto
  ultimately show ?case by blast
qed

section \<open>All processes\<close>

definition bonds :: "(int \<times> int) set \<Rightarrow> (int \<times> int) set" where
  "bonds es = (\<Union>(a, b)\<in>es. link a b)"

lemma bonds_edge_of: "bonds (edge_of ` E) = bonds E"
  using link_edge_of by (auto simp: bonds_def case_prod_beta)

lemma bonds_Un [simp]: "bonds (A \<union> B) = bonds A \<union> bonds B"
  by (simp add: bonds_def)

lemma bonds_mono: "A \<subseteq> B \<Longrightarrow> bonds A \<subseteq> bonds B"
  unfolding bonds_def by blast

lemma bonds_UN: "bonds (\<Union>x\<in>X. f x) = (\<Union>x\<in>X. bonds (f x))"
  by (auto simp: bonds_def)

lemma bonds_sym: "sym E \<Longrightarrow> E \<subseteq> bonds E \<and> bonds E \<subseteq> E"
  by (auto simp: bonds_def link_def dest: symD)

text \<open>What the processes have asked for.\<close>

definition asked_new :: "node list \<Rightarrow> (int \<times> int) set" where
  "asked_new ns = (\<Union>n\<in>set ns. set (tm_newEdges (man n)))"

definition asked_removed :: "node list \<Rightarrow> (int \<times> int) set" where
  "asked_removed ns = (\<Union>n\<in>set ns. set (removedEdges (man n)))"

definition announced :: "node list \<Rightarrow> int set" where
  "announced ns = (\<Union>n\<in>set ns. set (nb_edges_root_to_remove (man n)))"

lemma list_all2_set: "list_all2 P xs ys \<Longrightarrow> \<forall>y\<in>set ys. \<exists>x\<in>set xs. P x y" "list_all2 P xs ys \<Longrightarrow> \<forall>x\<in>set xs. \<exists>y\<in>set ys. P x y"
  by (induction rule: list_all2_induct) auto

lemma exchange_agree:
  assumes eq: "\<And>n. n \<in> set ns \<Longrightarrow> topo (man n) = t" and rq: "\<And>n. n \<in> set ns \<Longrightarrow> requests_ok (man n)"
    and ok: "topo_ok t" and dirty: "list_ex (\<lambda>n. is_dirty (man n)) ns"
    and run: "exchangeData h ns = Some (Inr ns')"
  shows "\<exists>t' R. topo_ok t' \<and> (\<forall>n\<in>set ns'. topo (man n) = t' \<and> idle (man n))
    \<and> edges (graph t') = edges (graph t) - bonds R \<union> bonds (asked_new ns)
    \<and> (\<exists>pick. (\<forall>n\<in>set ns. \<forall>r\<in>announced ns. cut_around n r (pick n r))
        \<and> R = asked_removed ns \<union> (\<Union>n\<in>set ns. \<Union>r\<in>announced ns. pick n r))"
proof -
  let ?roots = "concat (map (\<lambda>n. nb_edges_root_to_remove (man n)) ns)"
  obtain ns1 where 1: "on_all (steps removeNeighbourEdges (sorted_list_of_set (set ?roots))) ns = Some (Inr ns1)"
    and rest: "do { cs \<leftarrow> gather unpack_changes pack_changes ns1; on_all (apply_changes h cs) ns1 } = Some (Inr ns')"
    using run dirty unfolding exchangeData_def gather_roots by (auto simp: obind_ok)
  have fg: "finite_graph (graph t)" and sg: "sym (edges (graph t))"
    using ok by (auto simp: topo_ok_def graphs_ok_def sym_graph_def)
  let ?f = "steps removeNeighbourEdges (sorted_list_of_set (set ?roots))"
  have roots: "set (sorted_list_of_set (set ?roots)) = announced ns" by (auto simp: announced_def)
  have each_cut: "\<exists>pick. (\<forall>r\<in>announced ns. cut_around n r (pick r)) \<and> more_removed n (\<Union>r\<in>announced ns. pick r) n1"
    if "n \<in> set ns" "?f n = Some (Inr n1)" for n n1
  proof -
    have "finite_graph (graph (topo (man n)))" using eq [OF that(1)] fg by simp
    from neighbour_steps_more [OF that(2) this] show ?thesis unfolding roots by simp
  qed
  have more: "list_all2 (\<lambda>n n1. \<exists>E. more_removed n E n1) ns ns1"
    using on_all_ok [OF 1] by (rule list.rel_mono_strong) (use each_cut in blast)
  have "\<forall>n\<in>set ns. \<exists>pick. (\<forall>r\<in>announced ns. cut_around n r (pick r))
      \<and> (\<forall>n1. ?f n = Some (Inr n1) \<longrightarrow> more_removed n (\<Union>r\<in>announced ns. pick r) n1)"
  proof
    fix n assume n: "n \<in> set ns"
    then obtain n1 where n1: "?f n = Some (Inr n1)" using list_all2_set(2) [OF on_all_ok [OF 1]] by blast
    with each_cut [OF n n1] show "\<exists>pick. (\<forall>r\<in>announced ns. cut_around n r (pick r))
      \<and> (\<forall>n1. ?f n = Some (Inr n1) \<longrightarrow> more_removed n (\<Union>r\<in>announced ns. pick r) n1)" by auto
  qed
  then obtain pick where pick: "\<And>n r. n \<in> set ns \<Longrightarrow> r \<in> announced ns \<Longrightarrow> cut_around n r (pick n r)"
    "\<And>n n1. n \<in> set ns \<Longrightarrow> ?f n = Some (Inr n1) \<Longrightarrow> more_removed n (\<Union>r\<in>announced ns. pick n r) n1"
    unfolding bchoice_iff by blast
  have eq1: "topo (man n) = t" "requests_ok (man n)" if "n \<in> set ns1" for n
  proof -
    from bspec [OF list_all2_set(1) [OF more] that] obtain n0 E where n0: "n0 \<in> set ns" "more_removed n0 E n" by (elim bexE exE)
    show "topo (man n) = t" "requests_ok (man n)" using eq [OF n0(1)] rq [OF n0(1)] n0(2)
      by (auto simp: more_removed_def requests_ok_def)
  qed
  let ?cs = "map (\<lambda>n. noted (man n)) ns1"
  have "on_all (apply_changes h ?cs) ns1 = Some (Inr ns')" using rest gather_changes [of ns1] eq1(2) by simp
  note all = on_all_ok [OF this]
  have new: "new_edges ?cs = edge_of ` asked_new ns"
  proof -
    have "asked_new ns1 = asked_new ns"
    proof
      show "asked_new ns1 \<subseteq> asked_new ns"
        using list_all2_set(1) [OF more] unfolding asked_new_def more_removed_def by fastforce
      show "asked_new ns \<subseteq> asked_new ns1"
        using list_all2_set(2) [OF more] unfolding asked_new_def more_removed_def by fastforce
    qed
    moreover have "new_edges ?cs = edge_of ` asked_new ns1" by (auto simp: new_edges_def asked_new_def noted_def)
    ultimately show ?thesis by simp
  qed
  have rem: "removed_edges ?cs = edge_of ` asked_removed ns1" by (auto simp: removed_edges_def asked_removed_def noted_def)
  have fin: "finite (new_edges ?cs)" "finite (removed_edges ?cs)" by (simp_all add: new_edges_def removed_edges_def)
  have each: "\<exists>n1 n2. topo (man n1) = t \<and> apply_edges ?cs n1 = Some (Inr n2) \<and> topo (man n') = topo (man n2) \<and> idle (man n')"
    if "n' \<in> set ns'" for n'
  proof -
    from bspec [OF list_all2_set(1) [OF all] that]
    obtain n where n: "n \<in> set ns1" "apply_changes h ?cs n = Some (Inr n')" by (elim bexE)
    from apply_changes_split [OF n(2)] show ?thesis unfolding eq1(1) [OF n(1)] .
  qed
  have "ns \<noteq> []" using dirty by auto
  then obtain k where k: "k \<in> set ns'" using list_all2_lengthD [OF more] list_all2_lengthD [OF all] by (cases ns') auto
  obtain k1 k2 where k12: "topo (man k1) = t" "apply_edges ?cs k1 = Some (Inr k2)" "topo (man k) = topo (man k2)"
    using each [OF k] by blast
  note fin_ok = apply_edges_ok [OF k12(2) _ fin, unfolded k12(1), OF ok]
  have same: "topo (man n') = topo (man k)" "idle (man n')" if k': "n' \<in> set ns'" for n'
  proof -
    obtain n1 n2 where n: "topo (man n1) = t" "apply_edges ?cs n1 = Some (Inr n2)" "topo (man n') = topo (man n2)" "idle (man n')"
      using each [OF k'] by blast
    show "topo (man n') = topo (man k)" using apply_edges_fun [OF n(2) k12(2)] n k12 by simp
    show "idle (man n')" by (rule n(4))
  qed
  have "asked_removed ns1 = asked_removed ns \<union> (\<Union>n\<in>set ns. \<Union>r\<in>announced ns. pick n r)"
  proof -
    have rem1: "set (removedEdges (man n1)) = set (removedEdges (man n)) \<union> (\<Union>r\<in>announced ns. pick n r)"
      if "n \<in> set ns" "?f n = Some (Inr n1)" for n n1
      using pick(2) [OF that] by (auto simp: more_removed_def)
    have "set ns1 = {n1. \<exists>n\<in>set ns. ?f n = Some (Inr n1)}"
      using list_all2_set [OF on_all_ok [OF 1]] by fastforce
    then have "asked_removed ns1 = (\<Union>n\<in>set ns. \<Union>n1\<in>{n1. ?f n = Some (Inr n1)}. set (removedEdges (man n1)))"
      unfolding asked_removed_def by blast
    also have "\<dots> = (\<Union>n\<in>set ns. set (removedEdges (man n)) \<union> (\<Union>r\<in>announced ns. pick n r))"
    proof (rule SUP_cong [OF refl])
      fix n assume n: "n \<in> set ns"
      then obtain n1 where n1: "?f n = Some (Inr n1)" using list_all2_set(2) [OF on_all_ok [OF 1]] by blast
      then have "{n1. ?f n = Some (Inr n1)} = {n1}" by auto
      then show "(\<Union>n1\<in>{n1. ?f n = Some (Inr n1)}. set (removedEdges (man n1)))
        = set (removedEdges (man n)) \<union> (\<Union>r\<in>announced ns. pick n r)" using rem1 [OF n n1] by simp
    qed
    finally show ?thesis by (auto simp: asked_removed_def)
  qed
  moreover have "edges (graph (topo (man k))) = edges (graph t) - bonds (asked_removed ns1) \<union> bonds (asked_new ns)"
    using fin_ok unfolding k12(3) new rem bonds_def [symmetric] bonds_edge_of by blast
  ultimately show ?thesis using fin_ok same pick(1) unfolding k12(3)
    by (intro exI [of _ "topo (man k2)"] exI [of _ "asked_removed ns1"] conjI exI [of _ pick]) (simp_all add: k12(3))
qed

section \<open>Applying the edges succeeds\<close>

text \<open>A bond that this process can see has a list registered for its types.\<close>

definition registered :: "node \<Rightarrow> (int \<times> int) set \<Rightarrow> bool" where
  "registered n E \<longleftrightarrow> (\<forall>(a, b)\<in>E. \<forall>p1 p2. particle_at (store n) a = Some p1 \<longrightarrow> particle_at (store n) b = Some p2 \<longrightarrow>
     tupleMap (man n) (type_of p1, type_of p2) \<noteq> None)"

lemma signal_keeps:
  assumes "\<And>e m. tupleMap (h e m) = tupleMap m"
  shows "tupleMap (man (signal h k es n)) = tupleMap (man n)" "store (signal h k es n) = store n"
proof -
  have "tupleMap (fold (\<lambda>_. h e) xs m) = tupleMap m" for e :: "int \<times> int" and xs :: "nat list" and m
    by (induction xs arbitrary: m) (simp_all add: assms)
  then have "tupleMap (fold (\<lambda>e m. fold (\<lambda>_. h e) xs m) es m) = tupleMap m" for m and xs :: "nat list"
    by (induction es arbitrary: m) simp_all
  then show "tupleMap (man (signal h k es n)) = tupleMap (man n)" by (simp add: signal_def)
qed (simp add: signal_def)

lemma removeBond_total:
  assumes "registered n E" "(a, b) \<in> E"
  shows "\<exists>r n'. removeBond a b n = Inr (r, n') \<and> tupleMap (man n') = tupleMap (man n) \<and> store n' = store n"
proof -
  have "\<exists>r n'. pair_remove k x y n = (r, n') \<and> tupleMap (man n') = tupleMap (man n) \<and> store n' = store n" for k x y
    using signal_keeps [of onTupleRemoved] by (auto simp: pair_remove_def onTupleRemoved_def Let_def split: prod.split)
  note pr = this
  show ?thesis
  proof (cases "particle_at (store n) a = None \<or> particle_at (store n) b = None")
    case False
    then obtain p1 p2 where p: "particle_at (store n) a = Some p1" "particle_at (store n) b = Some p2" by auto
    then obtain k where k: "tupleMap (man n) (type_of p1, type_of p2) = Some k" using assms by (fastforce simp: registered_def)
    show ?thesis using pr [of k a b] pr [of k b a] by (auto simp: removeBond_def p k Let_def)
  qed (auto simp: removeBond_def split: option.split)
qed

lemma delete_total:
  assumes t: "topo_ok (topo (man n))" and e: "e \<in> edges (graph (topo (man n)))" and r: "registered n E" "e \<in> E"
    and ids: "ids_left (topo (man n)) (Suc k)"
  shows "\<exists>n'. delete_step e n = Some (Inr n') \<and> tupleMap (man n') = tupleMap (man n) \<and> store n' = store n"
proof -
  obtain a b where ab: "e = (a, b)" by (cases e)
  obtain x n1 where 1: "removeBond a b n = Inr (x, n1)" "tupleMap (man n1) = tupleMap (man n)" "store n1 = store n"
    using removeBond_total [OF r(1)] r(2) ab by blast
  have t1: "topo (man n1) = topo (man n)" by (rule topo_removeBond [OF 1(1)])
  obtain t' where "eraseEdge a b (topo (man n)) = Some (Inr t')"
    using eraseEdge_ok [OF t bonded_same_molecule [OF t e [unfolded ab]] ids_left_Suc [OF ids]] by blast
  then have "delete_step e n = Some (Inr (upd_man (\<lambda>m. m\<lparr>topo := t'\<rparr>) n1))"
    using 1 t1 by (simp add: delete_step_def deleteEdge_def upd_topo_def ab lift_error_def)
  then show ?thesis using 1 by simp
qed

lemma registered_eq: "tupleMap (man n') = tupleMap (man n) \<Longrightarrow> store n' = store n \<Longrightarrow> registered n' E = registered n E"
  by (simp add: registered_def)

lemma delete_steps_total:
  "topo_ok (topo (man n)) \<Longrightarrow> registered n E \<Longrightarrow> set es \<subseteq> E \<Longrightarrow> set es \<subseteq> edges (graph (topo (man n)))
    \<Longrightarrow> distinct es \<Longrightarrow> (\<forall>(a, b)\<in>set es. a \<le> b) \<Longrightarrow> ids_left (topo (man n)) (length es) \<Longrightarrow> \<exists>n'. steps delete_step es n = Some (Inr n')"
proof (induction es arbitrary: n)
  case (Cons e es)
  obtain n1 where 1: "delete_step e n = Some (Inr n1)" "tupleMap (man n1) = tupleMap (man n)" "store n1 = store n"
    using delete_total [OF Cons.prems(1) _ Cons.prems(2), of e "length es"] Cons.prems(3,4,7) by auto
  note s = eraseEdge_sound [OF Cons.prems(1) delete_topo [OF 1(1)]]
  have "set es \<subseteq> edges (graph (topo (man n1)))"
  proof
    fix x assume x: "x \<in> set es"
    have "fst x \<le> snd x" "fst e \<le> snd e" "x \<noteq> e" using x Cons.prems(5,6) by auto
    then have "x \<notin> link (fst e) (snd e)" by (cases x; cases e) (auto simp: link_def)
    then show "x \<in> edges (graph (topo (man n1)))" using s x Cons.prems(4) by auto
  qed
  moreover have "ids_left (topo (man n1)) (length es)" using Cons.prems(7) s by (auto simp: ids_left_def)
  ultimately have "\<exists>n'. steps delete_step es n1 = Some (Inr n')"
    using Cons.prems s 1 registered_eq [OF 1(2,3)] by (intro Cons.IH) auto
  then show ?case using 1(1) by auto
qed simp

lemma new_steps_total:
  "topo_ok (topo (man n)) \<Longrightarrow> (\<forall>(a, b)\<in>set es. a \<in> dom (pid_rid (topo (man n))) \<and> b \<in> dom (pid_rid (topo (man n))))
    \<Longrightarrow> \<exists>n'. steps new_step es n = Some (Inr n')"
proof (induction es arbitrary: n)
  case (Cons e es)
  obtain a b where e: "e = (a, b)" by (cases e)
  obtain r1 r2 where r: "pid_rid (topo (man n)) a = Some r1" "pid_rid (topo (man n)) b = Some r2" using Cons.prems(2) e by auto
  obtain t' where t': "newEdge a b (topo (man n)) = Inr t'" "topo_ok t'" "pid_rid t' = pid_rid (topo (man n))"
    using newEdge_ok [OF Cons.prems(1) r] by blast
  let ?n = "upd_man (\<lambda>m. m\<lparr>topo := t'\<rparr>) n"
  have "new_step e n = Some (Inr ?n)" using t'(1) by (simp add: new_step_def upd_topo_def e lift_error_def)
  moreover have "\<exists>n'. steps new_step es ?n = Some (Inr n')" using Cons.prems t' by (intro Cons.IH) auto
  ultimately show ?case by auto
qed simp

lemma delete_steps_rid:
  "steps delete_step es n = Some (Inr n') \<Longrightarrow> topo_ok (topo (man n)) \<Longrightarrow> pid_rid (topo (man n')) = pid_rid (topo (man n))"
proof (induction es arbitrary: n)
  case (Cons e es)
  then obtain n1 where 1: "delete_step e n = Some (Inr n1)" "steps delete_step es n1 = Some (Inr n')" by (auto simp: obind_ok)
  note s = eraseEdge_sound [OF Cons.prems(2) delete_topo [OF 1(1)]]
  from Cons.IH [OF 1(2)] s show ?case by auto
qed simp

lemma apply_edges_total:
  assumes t: "topo_ok (topo (man n))" and r: "removed_edges cs \<subseteq> edges (graph (topo (man n)))" "registered n (removed_edges cs)"
    and k: "\<forall>(a, b)\<in>new_edges cs. a \<in> dom (pid_rid (topo (man n))) \<and> b \<in> dom (pid_rid (topo (man n)))"
    and ids: "ids_left (topo (man n)) (card (removed_edges cs))"
  shows "\<exists>n'. apply_edges cs n = Some (Inr n')"
proof -
  have fin: "finite (new_edges cs)" "finite (removed_edges cs)" by (simp_all add: new_edges_def removed_edges_def)
  have "\<forall>(a, b)\<in>removed_edges cs. a \<le> b" by (auto simp: removed_edges_def edge_of_def split: if_splits)
  then obtain n1 where 1: "steps delete_step (sorted_list_of_set (removed_edges cs)) n = Some (Inr n1)"
    using delete_steps_total [OF t r(2), of "sorted_list_of_set (removed_edges cs)"] r(1) fin ids by auto
  obtain n2 where "steps new_step (sorted_list_of_set (new_edges cs)) n1 = Some (Inr n2)"
    using new_steps_total [of n1 "sorted_list_of_set (new_edges cs)"] delete_steps_ok [OF 1 t] delete_steps_rid [OF 1 t] k fin by auto
  then show ?thesis using 1 by (simp add: apply_edges_def)
qed

end
