(* ===== verification/TopologyProps.thy ===== *)
theory TopologyProps
  imports TopologySafe
begin

text \<open>
  The properties of the topology manager, each with an application to a small system: three particles
  in three residues, of which the first two are bonded.
\<close>

section \<open>A small system\<close>

definition small_contribution :: "contribution list" where
  "small_contribution = [([(1, 1), (2, 2)], [(1, 2)]), ([(3, 3)], [])]"

lemma small_topology: "\<exists>t. initializeTopology small_contribution = Inr t \<and> topo_ok t
    \<and> pid_rid t = [1 \<mapsto> 1, 2 \<mapsto> 2, 3 \<mapsto> 3] \<and> edges (graph t) = {(1, 2), (2, 1)} \<and> ids_left t 1000"
proof -
  have "map_of [(1, 1), (2, 2), (3, 3)] = [1 \<mapsto> 1, 2 \<mapsto> 2, (3::int) \<mapsto> (3::int)]" by (auto simp: fun_eq_iff)
  then obtain t where t: "initializeTopology small_contribution = Inr t" "topo_ok t" "pid_rid t = [1 \<mapsto> 1, 2 \<mapsto> 2, 3 \<mapsto> 3]"
      "edges (graph t) = {(1, 2), (2, 1)}"
    using initializeTopology_ok [of small_contribution] by (auto simp: small_contribution_def link_def)
  have "0 \<le> max_mol_id t \<and> max_mol_id t \<le> 3"
    by (rule initializeTopology_max [OF t(1)]) (simp_all add: small_contribution_def)
  then show ?thesis using t by (simp add: ids_left_def INT_MIN_def INT_MAX_def)
qed

section \<open>A process that holds no particle\<close>

definition bare :: "node \<Rightarrow> bool" where
  "bare n \<longleftrightarrow> (\<forall>pid. particle_at (store n) pid = None) \<and> triples (man n) = [] \<and> quadruples (man n) = [] \<and> tuples (man n) = []
     \<and> \<not> update_angles (man n) \<and> \<not> update_dihedrals (man n)"

lemma bare_delete: "bare n \<Longrightarrow> delete_step e n = Some (Inr n') \<Longrightarrow> bare n'"
  by (auto simp: bare_def delete_step_def deleteEdge_def removeBond_def upd_topo_def obind_ok ebind_Inr_iff bind_eq_Some_conv)

lemma bare_new: "bare n \<Longrightarrow> new_step e n = Some (Inr n') \<Longrightarrow> bare n'"
  by (auto simp: bare_def new_step_def upd_topo_def ebind_Inr_iff)

lemma bare_steps: "(\<And>x n n'. bare n \<Longrightarrow> f x n = Some (Inr n') \<Longrightarrow> bare n') \<Longrightarrow> steps f xs n = Some (Inr n') \<Longrightarrow> bare n \<Longrightarrow> bare n'"
  by (induction xs arbitrary: n) (auto simp: obind_ok)

lemma bare_apply_edges: "apply_edges cs n = Some (Inr n') \<Longrightarrow> bare n \<Longrightarrow> bare n'"
  unfolding apply_edges_def obind_ok using bare_steps [of delete_step] bare_steps [of new_step] bare_delete bare_new by blast

lemma bare_idle_steps:
  "bare n \<Longrightarrow> steps (\<lambda>e. updateParticlePropertiesAtDistance (snd (fst e)) (snd e)) es n = Some (Inr n)"
  "bare n \<Longrightarrow> steps updateLocalProperties ps n = Some (Inr n)"
  "bare n \<Longrightarrow> steps removeNeighbourEdges ps n = Some (Inr n)"
  by (induction es, auto simp: updateParticlePropertiesAtDistance_def bare_def)
     (induction ps, auto simp: updateLocalProperties_def removeNeighbourEdges_def)+

lemma bare_removeAngles: "bare n \<Longrightarrow> \<exists>n1. removeAnglesDihedrals R n = Some (Inr n1) \<and> man n1 = man n \<and> store n1 = store n"
  by (auto simp: removeAnglesDihedrals_def bare_def Let_def)

lemma bare_exchange:
  assumes b: "bare n" and t: "topo_ok (topo (man n))" and d: "\<forall>c\<in>set cs. ch_distance c = []"
    and r: "removed_edges cs \<subseteq> edges (graph (topo (man n)))"
    and k: "\<forall>(a, b)\<in>new_edges cs. a \<noteq> b \<and> a \<in> dom (pid_rid (topo (man n))) \<and> b \<in> dom (pid_rid (topo (man n)))"
    and ids: "ids_left (topo (man n)) (card (removed_edges cs))"
  shows "\<exists>n'. apply_changes h cs n = Some (Inr n')"
proof -
  have "concat (map ch_distance cs) = []" using d by simp
  then have md: "merge_distances (concat (map ch_distance cs)) [] = Inr []" by (simp del: concat_eq_Nil_conv)
  obtain n1 where n1: "removeAnglesDihedrals (removed_edges cs) n = Some (Inr n1)" "man n1 = man n" "store n1 = store n"
    using bare_removeAngles [OF b] by blast
  have b1: "bare n1" using b n1 by (simp add: bare_def)
  have "registered n1 (removed_edges cs)" using b1 by (simp add: registered_def bare_def split: prod.split)
  then obtain n2 where n2: "apply_edges cs n1 = Some (Inr n2)"
    using apply_edges_total [of n1 cs] t r k ids unfolding n1(2) by (auto simp: case_prod_beta)
  have b2: "bare n2" by (rule bare_apply_edges [OF n2 b1])
  have fin: "finite (new_edges cs)" "finite (removed_edges cs)" by (simp_all add: new_edges_def removed_edges_def)
  have ok: "topo_ok (topo (man n2))" "\<forall>(a, b)\<in>new_edges cs. (a, b) \<in> edges (graph (topo (man n2)))"
    using apply_edges_ok [OF n2 _ fin] t n1 by (auto simp: link_def)
  then have g: "finite_graph (graph (topo (man n2)))" "sym_graph (graph (topo (man n2)))" by (auto simp: topo_ok_def graphs_ok_def)
  obtain T Q where "generateAll (graph (topo (man n2))) (sorted_list_of_set (new_edges cs)) ({}, {}) = Inr (T, Q)"
    using generateAll_quads [OF g, of "sorted_list_of_set (new_edges cs)" "{}" "{}"] ok(2) k fin by fastforce
  then have "generateNewAnglesDihedrals (new_edges cs) n2 = Some (Inr n2)"
    using b2 by (simp add: generateNewAnglesDihedrals_def bare_def lift_error_def)
  then show ?thesis
    using n1 n2 b2 unfolding apply_changes_def md
    by (simp add: lift_error_def bare_idle_steps [OF b2]) (simp add: bare_def)
qed

section \<open>Removed bonds leave no angle and no dihedral\<close>

lemma fold_drop_triples:
  "j < length (tripleLists n) \<Longrightarrow> globalTriples (tripleLists (fold (drop_triples (a, b)) ks n) ! j)
    = (if j \<in> set ks then filter (\<lambda>e. \<not> ftl_has_bond a b e) (globalTriples (tripleLists n ! j)) else globalTriples (tripleLists n ! j))"
proof (induction ks arbitrary: n)
  case (Cons k ks)
  have "globalTriples (tripleLists (drop_triples (a, b) k n) ! j)
      = (if j = k then filter (\<lambda>e. \<not> ftl_has_bond a b e) (globalTriples (tripleLists n ! j)) else globalTriples (tripleLists n ! j))"
    using Cons.prems by (simp add: drop_triples_def ftl_removeByBond_def nth_list_update)
  then show ?case using Cons.IH [of "drop_triples (a, b) k n"] Cons.prems by (cases "j = k") auto
qed simp

lemma fold_drop_quads:
  "j < length (quadLists n) \<Longrightarrow> globalQuadruples (quadLists (fold (drop_quads (a, b)) ks n) ! j)
    = (if j \<in> set ks then filter (\<lambda>e. \<not> fql_has_bond a b e) (globalQuadruples (quadLists n ! j)) else globalQuadruples (quadLists n ! j))"
proof (induction ks arbitrary: n)
  case (Cons k ks)
  have "globalQuadruples (quadLists (drop_quads (a, b) k n) ! j)
      = (if j = k then filter (\<lambda>e. \<not> fql_has_bond a b e) (globalQuadruples (quadLists n ! j)) else globalQuadruples (quadLists n ! j))"
    using Cons.prems by (simp add: drop_quads_def fql_removeByBond_def nth_list_update)
  then show ?case using Cons.IH [of "drop_quads (a, b) k n"] Cons.prems by (cases "j = k") auto
qed simp

lemma remove_by_bond_lists:
  "j \<in> set (triples (man n)) \<Longrightarrow> j < length (tripleLists n) \<Longrightarrow>
    globalTriples (tripleLists (remove_by_bond (a, b) n) ! j) = filter (\<lambda>e. \<not> ftl_has_bond a b e) (globalTriples (tripleLists n ! j))"
  "j \<in> set (quadruples (man n)) \<Longrightarrow> j < length (quadLists n) \<Longrightarrow>
    globalQuadruples (quadLists (remove_by_bond (a, b) n) ! j) = filter (\<lambda>e. \<not> fql_has_bond a b e) (globalQuadruples (quadLists n ! j))"
  using fold_drop_triples [of j n a b "triples (man n)"]
    fold_drop_quads [of j "fold (drop_triples (a, b)) (triples (man n)) n" a b "quadruples (man n)"]
  by (simp_all add: remove_by_bond_def fold_keeps [where f = tripleLists] fold_keeps [where f = quadLists])

lemma fold_remove_lists:
  assumes "j \<in> set (triples (man n))" "j < length (tripleLists n)"
  shows "globalTriples (tripleLists (fold remove_by_bond es n) ! j)
      = filter (\<lambda>e. \<forall>(a, b)\<in>set es. \<not> ftl_has_bond a b e) (globalTriples (tripleLists n ! j))"
  using assms
proof (induction es arbitrary: n)
  case (Cons e es)
  obtain a b where e: "e = (a, b)" by (cases e)
  show ?case using Cons.IH [of "remove_by_bond e n"] remove_by_bond_lists(1) [OF Cons.prems, of a b] Cons.prems
    by (simp add: e conj_commute)
qed simp

lemma fold_remove_quads:
  assumes "j \<in> set (quadruples (man n))" "j < length (quadLists n)"
  shows "globalQuadruples (quadLists (fold remove_by_bond es n) ! j)
      = filter (\<lambda>e. \<forall>(a, b)\<in>set es. \<not> fql_has_bond a b e) (globalQuadruples (quadLists n ! j))"
  using assms
proof (induction es arbitrary: n)
  case (Cons e es)
  obtain a b where e: "e = (a, b)" by (cases e)
  show ?case using Cons.IH [of "remove_by_bond e n"] remove_by_bond_lists(2) [OF Cons.prems, of a b] Cons.prems
    by (simp add: e conj_commute)
qed simp

text \<open>Rebuilding the tuples of pointers does not change the entries.\<close>

definition same_entries :: "node \<Rightarrow> node \<Rightarrow> bool" where
  "same_entries n n' \<longleftrightarrow> man n' = man n \<and> map globalTriples (tripleLists n') = map globalTriples (tripleLists n)
     \<and> map globalQuadruples (quadLists n') = map globalQuadruples (quadLists n)"

lemma same_entries_trans: "same_entries n m \<Longrightarrow> same_entries m k \<Longrightarrow> same_entries n k"
  by (simp add: same_entries_def)

lemma map_update_same: "f y = f (xs ! k) \<Longrightarrow> map f (xs[k := y]) = map f xs"
  by (cases "k < length xs") (simp_all add: map_update list_update_same_conv list_update_beyond)

lemma update_same:
  "update_triples k n = Some (Inr n') \<Longrightarrow> same_entries n n'"
  "update_quads k n = Some (Inr n') \<Longrightarrow> same_entries n n'"
  by (auto simp: update_triples_def update_quads_def same_entries_def ebind_Inr_iff ftl_updateParticlesStorage_def
      fql_updateParticlesStorage_def intro!: map_update_same)

lemma steps_same: "(\<And>x n n'. f x n = Some (Inr n') \<Longrightarrow> same_entries n n') \<Longrightarrow> steps f xs n = Some (Inr n') \<Longrightarrow> same_entries n n'"
proof (induction xs arbitrary: n)
  case (Cons x xs)
  then obtain n1 where "f x n = Some (Inr n1)" "steps f xs n1 = Some (Inr n')" by (auto simp: obind_ok)
  then show ?case using Cons same_entries_trans by blast
qed (simp add: same_entries_def)

lemma removeAngles_entries:
  assumes "removeAnglesDihedrals R n = Some (Inr n')"
  shows "same_entries (fold remove_by_bond (sorted_list_of_set R) n) n'"
proof (cases "R = {}")
  case False
  let ?n = "fold remove_by_bond (sorted_list_of_set R) n"
  obtain n1 where 1: "steps update_triples (triples (man ?n)) ?n = Some (Inr n1)"
    and 2: "steps update_quads (quadruples (man n1)) n1 = Some (Inr n')"
    using assms False by (auto simp: removeAnglesDihedrals_def Let_def obind_ok)
  have "same_entries ?n n1" by (rule steps_same [OF _ 1]) (rule update_same(1))
  moreover have "same_entries n1 n'" by (rule steps_same [OF _ 2]) (rule update_same(2))
  ultimately show ?thesis by (rule same_entries_trans)
qed (use assms in \<open>simp add: removeAnglesDihedrals_def same_entries_def\<close>)

lemma removeAngles_filter:
  assumes "removeAnglesDihedrals R n = Some (Inr n')" "finite R"
  shows "j \<in> set (triples (man n)) \<Longrightarrow> j < length (tripleLists n) \<Longrightarrow> globalTriples (tripleLists n' ! j)
      = filter (\<lambda>e. \<forall>(a, b)\<in>R. \<not> ftl_has_bond a b e) (globalTriples (tripleLists n ! j))"
    and "j \<in> set (quadruples (man n)) \<Longrightarrow> j < length (quadLists n) \<Longrightarrow> globalQuadruples (quadLists n' ! j)
      = filter (\<lambda>e. \<forall>(a, b)\<in>R. \<not> fql_has_bond a b e) (globalQuadruples (quadLists n ! j))"
proof -
  let ?n = "fold remove_by_bond (sorted_list_of_set R) n"
  have s: "map globalTriples (tripleLists n') = map globalTriples (tripleLists ?n)"
    "map globalQuadruples (quadLists n') = map globalQuadruples (quadLists ?n)"
    using removeAngles_entries [OF assms(1)] by (simp_all add: same_entries_def)
  have l: "length (tripleLists ?n) = length (tripleLists n)" "length (quadLists ?n) = length (quadLists n)" by simp_all
  { assume j: "j \<in> set (triples (man n))" "j < length (tripleLists n)"
    have "globalTriples (tripleLists n' ! j) = globalTriples (tripleLists ?n ! j)"
      using arg_cong [OF s(1), of "\<lambda>xs. xs ! j"] j(2) l(1) map_eq_imp_length_eq [OF s(1)] by simp
    then show "globalTriples (tripleLists n' ! j) = filter (\<lambda>e. \<forall>(a, b)\<in>R. \<not> ftl_has_bond a b e) (globalTriples (tripleLists n ! j))"
      using fold_remove_lists [OF j, of "sorted_list_of_set R"] assms(2) by simp }
  { assume j: "j \<in> set (quadruples (man n))" "j < length (quadLists n)"
    have "globalQuadruples (quadLists n' ! j) = globalQuadruples (quadLists ?n ! j)"
      using arg_cong [OF s(2), of "\<lambda>xs. xs ! j"] j(2) l(2) map_eq_imp_length_eq [OF s(2)] by simp
    then show "globalQuadruples (quadLists n' ! j) = filter (\<lambda>e. \<forall>(a, b)\<in>R. \<not> fql_has_bond a b e) (globalQuadruples (quadLists n ! j))"
      using fold_remove_quads [OF j, of "sorted_list_of_set R"] assms(2) by simp }
qed

section \<open>The topology\<close>

text \<open>
  Initialization: when every particle is announced once, with a residue other than 0, and the
  bonds are between announced particles, \<^verbatim>\<open>initializeTopology\<close> succeeds, with the residues announced, the
  bonds as a symmetric graph, and the invariant.
\<close>

theorem topology_initialized:
  assumes "distinct (map fst (concat (map fst cs)))" "\<forall>(p, r)\<in>set (concat (map fst cs)). r \<noteq> 0"
    and "\<forall>(a, b)\<in>set (concat (map snd cs)). a \<in> fst ` set (concat (map fst cs)) \<and> b \<in> fst ` set (concat (map fst cs))"
  shows "\<exists>t. initializeTopology cs = Inr t \<and> topo_ok t \<and> pid_rid t = map_of (concat (map fst cs))
    \<and> edges (graph t) = bonds (set (concat (map snd cs)))"
  unfolding bonds_def by (rule initializeTopology_ok [OF assms])

theorem topology_initialized_witness:
  "\<exists>t. initializeTopology small_contribution = Inr t \<and> topo_ok t \<and> edges (graph t) = {(1, 2), (2, 1)}"
  using topology_initialized [of small_contribution] by (auto simp: small_contribution_def bonds_def link_def)

text \<open>
  C17.  A new bond between two known particles is always added: \<^verbatim>\<open>newEdge\<close> succeeds, the graph gains this
  bond and nothing else, residues stay, and the invariant is kept, so that molecules are merged
  exactly when the bond joins two of them.
\<close>

theorem bond_added:
  assumes "topo_ok t" "a \<in> dom (pid_rid t)" "b \<in> dom (pid_rid t)"
  shows "\<exists>t'. newEdge a b t = Inr t' \<and> topo_ok t' \<and> edges (graph t') = edges (graph t) \<union> {(a, b), (b, a)}
    \<and> pid_rid t' = pid_rid t \<and> residues t' = residues t"
proof -
  obtain r1 r2 where "pid_rid t a = Some r1" "pid_rid t b = Some r2" using assms(2,3) by blast
  from newEdge_ok [OF assms(1) this] show ?thesis unfolding link_def by blast
qed

theorem bond_added_witness:
  "\<exists>t t'. initializeTopology small_contribution = Inr t \<and> newEdge 2 3 t = Inr t' \<and> topo_ok t'
    \<and> edges (graph t') = {(1, 2), (2, 1), (2, 3), (3, 2)}"
proof -
  obtain t where t: "initializeTopology small_contribution = Inr t" "topo_ok t" "pid_rid t = [1 \<mapsto> 1, 2 \<mapsto> 2, 3 \<mapsto> 3]"
    "edges (graph t) = {(1, 2), (2, 1)}" using small_topology by blast
  obtain t' where "newEdge 2 3 t = Inr t'" "topo_ok t'" "edges (graph t') = {(1, 2), (2, 1)} \<union> {(2, 3), (3, 2)}"
    using bond_added [OF t(2), of 2 3] t(3,4) by auto
  then show ?thesis using t(1) by auto
qed

text \<open>
  C11.  A bond of the graph can always be removed, as long as there are molecule ids left: unless the 32-bit counter
  \<^verbatim>\<open>max_mol_id_\<close> is at its end, where \<^verbatim>\<open>++\<close> is undefined, the part of \<^verbatim>\<open>deleteEdge\<close> that changes the topology ends
  without an exception, the graph loses this bond and nothing else, and the invariant is kept, so
  that a molecule is split exactly when the last connection between its residues is gone.
\<close>

theorem bond_removed:
  assumes "topo_ok t" "(a, b) \<in> edges (graph t)" "fits_int (max_mol_id t + 1)"
  shows "\<exists>t'. eraseEdge a b t = Some (Inr t') \<and> topo_ok t' \<and> edges (graph t') = edges (graph t) - {(a, b), (b, a)}
    \<and> pid_rid t' = pid_rid t \<and> residues t' = residues t"
  using eraseEdge_ok [OF assms(1) bonded_same_molecule [OF assms(1,2)] assms(3)] unfolding link_def by blast

theorem bond_removed_witness:
  "\<exists>t t'. initializeTopology small_contribution = Inr t \<and> eraseEdge 1 2 t = Some (Inr t') \<and> topo_ok t' \<and> edges (graph t') = {}"
proof -
  obtain t where t: "initializeTopology small_contribution = Inr t" "topo_ok t" "edges (graph t) = {(1, 2), (2, 1)}" "ids_left t 1000"
    using small_topology by blast
  have "fits_int (max_mol_id t + 1)" by (rule ids_left_Suc [of t 999]) (use t(4) in simp)
  from bond_removed [OF t(2) _ this, of 1 2] t(1,3) show ?thesis by auto
qed

text \<open>A history of the topology: bonds added by \<^verbatim>\<open>newEdge\<close> and removed by \<^verbatim>\<open>deleteEdge\<close>, and the bonds there are after it.\<close>

datatype topo_change = AddBond int int | RemoveBond int int

fun topo_changes :: "topo_change list \<Rightarrow> topology \<Rightarrow> (topo_error + topology) option" where
  "topo_changes [] t = Some (Inr t)"
| "topo_changes (AddBond a b # cs) t = obind (Some (newEdge a b t)) (topo_changes cs)"
| "topo_changes (RemoveBond a b # cs) t = obind (eraseEdge a b t) (topo_changes cs)"

fun bonds_after :: "topo_change list \<Rightarrow> (int \<times> int) set \<Rightarrow> (int \<times> int) set" where
  "bonds_after [] E = E"
| "bonds_after (AddBond a b # cs) E = bonds_after cs (E \<union> {(a, b), (b, a)})"
| "bonds_after (RemoveBond a b # cs) E = bonds_after cs (E - {(a, b), (b, a)})"

lemma topo_changes_sound:
  "topo_changes es t = Some (Inr t') \<Longrightarrow> topo_ok t \<Longrightarrow>
    topo_ok t' \<and> pid_rid t' = pid_rid t \<and> edges (graph t') = bonds_after es (edges (graph t))"
proof (induction es t rule: topo_changes.induct)
  case (2 a b cs t)
  then obtain t1 where t1: "newEdge a b t = Inr t1" "topo_changes cs t1 = Some (Inr t')" by (auto simp: obind_ok)
  note n = newEdge_sound [OF 2(3) t1(1)]
  then have "topo_ok t' \<and> pid_rid t' = pid_rid t1 \<and> edges (graph t') = bonds_after cs (edges (graph t1))"
    using 2(1) [of t1] t1 by simp
  then show ?case using n by (simp add: link_def)
next
  case (3 a b cs t)
  then obtain t1 where t1: "eraseEdge a b t = Some (Inr t1)" "topo_changes cs t1 = Some (Inr t')" by (auto simp: obind_ok)
  note n = eraseEdge_sound [OF 3(3) t1(1)]
  then have "topo_ok t' \<and> pid_rid t' = pid_rid t1 \<and> edges (graph t') = bonds_after cs (edges (graph t1))"
    using 3(1) [of t1] t1 by simp
  then show ?case using n by (simp add: link_def)
qed simp

text \<open>
  C18.  What a molecule is, from the start of the program on: after an initialization that returned and any sequence of
  \<^verbatim>\<open>newEdge\<close> and \<^verbatim>\<open>deleteEdge\<close> (its part that changes the topology) that returned, two of the particles contributed have the same
  molecule id if and only if a chain of common residues, as contributed, and of the bonds there are now, those contributed
  and added and not removed since, joins them.  Merging molecules when a bond is added and splitting them when the
  last connection of two residues goes keep the ids exact.  The query changes nothing.
\<close>

theorem molecules_are_components:
  assumes "initializeTopology cs = Inr t0" "topo_changes es t0 = Some (Inr t)"
    and "{p, q} \<subseteq> fst ` set (concat (map fst cs))"
  shows "isSameMolecule p q t = ((p, q) \<in> (chain (map_of (concat (map fst cs)))
    (bonds_after es (\<Union>(a, b)\<in>set (concat (map snd cs)). {(a, b), (b, a)})))\<^sup>*, t)"
proof -
  note i = initializeTopology_sound [OF assms(1)] and c = topo_changes_sound [OF assms(2)]
  have rid: "topo_ok t" "pid_rid t = map_of (concat (map fst cs))"
    and e: "edges (graph t) = bonds_after es (\<Union>(a, b)\<in>set (concat (map snd cs)). {(a, b), (b, a)})"
    using i c by (simp_all add: link_def)
  have "p \<in> dom (pid_rid t)" "q \<in> dom (pid_rid t)" using assms(3) unfolding rid(2) dom_map_of_conv_image_fst by simp_all
  then obtain r1 r2 where r: "pid_rid t p = Some r1" "pid_rid t q = Some r2" by blast
  have "dom (pid_mid t) = dom (pid_rid t)" using rid(1) by (simp add: topo_ok_def molecules_ok_def)
  then obtain m1 m2 where "pid_mid t p = Some m1" "pid_mid t q = Some m2" using r by (metis domD domI)
  then show ?thesis using same_molecule_iff [OF rid(1) r]
    by (simp add: isSameMolecule_def getMoleculeId_def map_at_def rid(2) e)
qed

text \<open>The bond of the particles 1 and 2 is removed, one of 2 and 3 added.\<close>

theorem molecules_are_components_witness:
  "\<exists>t0 t. initializeTopology small_contribution = Inr t0 \<and> topo_changes [RemoveBond 1 2, AddBond 2 3] t0 = Some (Inr t)
    \<and> fst (isSameMolecule 2 3 t) \<and> \<not> fst (isSameMolecule 1 2 t)"
proof -
  obtain t0 where t: "initializeTopology small_contribution = Inr t0" "topo_ok t0" "pid_rid t0 = [1 \<mapsto> 1, 2 \<mapsto> 2, 3 \<mapsto> 3]"
    "edges (graph t0) = {(1, 2), (2, 1)}" "ids_left t0 1000" using small_topology by blast
  have "fits_int (max_mol_id t0 + 1)" by (rule ids_left_Suc [of t0 999]) (use t(5) in simp)
  then obtain t1 where t1: "eraseEdge 1 2 t0 = Some (Inr t1)" "topo_ok t1" "pid_rid t1 = pid_rid t0"
    using eraseEdge_ok [OF t(2) bonded_same_molecule [OF t(2), of 1 2]] t(4) by auto
  obtain t2 where t2: "newEdge 2 3 t1 = Inr t2" using newEdge_ok [OF t1(2), of 2 2 3 3] t1(3) t(3) by auto
  have run: "topo_changes [RemoveBond 1 2, AddBond 2 3] t0 = Some (Inr t2)" by (simp add: t1(1) t2)
  let ?f = "map_of (concat (map fst small_contribution))" and ?E = "{(2, 3), (3, 2)} :: (int \<times> int) set"
  have E: "bonds_after [RemoveBond 1 2, AddBond 2 3] (\<Union>(a, b)\<in>set (concat (map snd small_contribution)). {(a, b), (b, a)}) = ?E"
    by (auto simp: small_contribution_def)
  have "(1, x) \<in> (chain ?f ?E)\<^sup>* \<Longrightarrow> x = 1" for x
    by (induction rule: rtrancl_induct) (auto simp: chain_def small_contribution_def split: if_splits)
  then have "(1, 2) \<notin> (chain ?f ?E)\<^sup>*" by fastforce
  moreover have "(2, 3) \<in> (chain ?f ?E)\<^sup>*" by (auto simp: chain_def)
  moreover have k: "{1, 2} \<subseteq> fst ` set (concat (map fst small_contribution))" "{2, 3} \<subseteq> fst ` set (concat (map fst small_contribution))"
    by (simp_all add: small_contribution_def)
  ultimately have "fst (isSameMolecule 2 3 t2) \<and> \<not> fst (isSameMolecule 1 2 t2)"
    using molecules_are_components [OF t(1) run] unfolding E by simp
  then show ?thesis using t(1) run by blast
qed

section \<open>Searches\<close>

definition path_graph :: graphmap where
  "path_graph = [1 \<mapsto> {2}, 2 \<mapsto> {1, 3}, 3 \<mapsto> {2, 4}, 4 \<mapsto> {3}]"

lemma path_graph: "edges path_graph = {(1, 2), (2, 1), (2, 3), (3, 2), (3, 4), (4, 3)}" "finite_graph path_graph" "sym_graph path_graph"
    "dom path_graph = {1, 2, 3, 4}"
proof -
  show e: "edges path_graph = {(1, 2), (2, 1), (2, 3), (3, 2), (3, 4), (4, 3)}" by (auto simp: edges_def path_graph_def split: if_splits)
  show "dom path_graph = {1, 2, 3, 4}" by (auto simp: path_graph_def split: if_splits)
  then show "finite_graph path_graph" by (simp add: finite_graph_iff e)
  show "sym_graph path_graph" by (auto simp: sym_graph_def sym_def e)
qed

lemma path_edge: "(a, b) \<in> edges path_graph \<longleftrightarrow> 1 \<le> a \<and> a \<le> 4 \<and> 1 \<le> b \<and> b \<le> 4 \<and> (b = a + 1 \<or> a = b + 1)"
  unfolding path_graph(1) insert_iff empty_iff prod.inject by presburger

lemma path_path4: "path4 path_graph (a, b, c, d) \<longleftrightarrow> (a, b, c, d) = (1, 2, 3, 4) \<or> (a, b, c, d) = (4, 3, 2, 1)"
  unfolding path4_def path_edge by (simp, presburger)

lemma path_path3: "path3 path_graph (a, b, c) \<and> bond_in 1 2 (a, b, c) \<longleftrightarrow> (a, b, c) = (1, 2, 3) \<or> (a, b, c) = (3, 2, 1)"
  unfolding path3_def bond_in_def path_edge doubleton_eq_iff by (simp, presburger)

text \<open>
  C25.  The search around a root: in a graph whose nodes are finitely many, each with finitely many neighbors, and with
  registered distances from 1 to the largest one searched, \<^verbatim>\<open>getNodesAtDistances\<close> ends and lists, nearest first and each node
  once, exactly the nodes whose shortest distance from the root is one of those registered, in triplets of root, distance,
  node.
\<close>

theorem nodes_at_distances:
  assumes "finite_graph g" "\<forall>d\<in>nb_dists. 1 \<le> d \<and> d \<le> max_dist"
  shows "\<exists>ps. getNodesAtDistances g nb_dists max_dist r = Some (concat (map (\<lambda>(d, n). [r, d, n]) ps))
    \<and> distinct ps \<and> sorted (map fst ps) \<and> set ps = {(d, n). d \<in> nb_dists \<and> n \<in> level g r (nat d)}"
  by (rule getNodesAtDistances_spec [OF assms])

theorem nodes_at_distances_witness:
  "\<exists>ps. getNodesAtDistances path_graph {2} 2 1 = Some (concat (map (\<lambda>(d, n). [1, d, n]) ps)) \<and> set ps = {(2, 3)}"
proof -
  have "(1, m) \<in> edges path_graph ^^ 2 \<longleftrightarrow> m = 1 \<or> m = 3" for m
    unfolding numeral_2_eq_2 relpow.simps relcomp_unfold mem_Collect_eq path_edge prod.case pair_in_Id_conv by presburger
  then have l: "level path_graph 1 2 = {3}"
    by (auto simp: level_def numeral_2_eq_2 [symmetric] less_2_cases_iff path_edge)
  obtain ps where "getNodesAtDistances path_graph {2} 2 1 = Some (concat (map (\<lambda>(d, n). [1, d, n]) ps))"
    "set ps = {(d, n). d \<in> {2} \<and> n \<in> level path_graph 1 (nat d)}"
    using nodes_at_distances [OF path_graph(2), of "{2}" 2 1] by auto
  then show ?thesis using l by (intro exI [of _ ps]) auto
qed

text \<open>
  \<^verbatim>\<open>connectedComponents\<close> ends, and the node sets of its subgraphs are the connected components of the
  graph, each once.
\<close>

theorem connected_components:
  assumes "finite_graph g" "sym_graph g"
  shows "\<exists>hs. connectedComponents g = Some hs \<and> distinct (map dom hs) \<and> set (map dom hs) = reach g ` dom g"
  by (rule connectedComponents_spec [OF assms])

theorem connected_components_witness: "\<exists>hs. connectedComponents path_graph = Some hs \<and> length hs = 1"
proof -
  obtain hs where hs: "connectedComponents path_graph = Some hs" "distinct (map dom hs)" "set (map dom hs) = reach path_graph ` {1, 2, 3, 4}"
    using connected_components [OF path_graph(2,3)] unfolding path_graph(4) by blast
  have "2 \<in> reach path_graph 1" "3 \<in> reach path_graph 2" "4 \<in> reach path_graph 3" by (auto simp: reach_def path_graph)
  from reach_eq [OF path_graph(3) this(1)] reach_eq [OF path_graph(3) this(2)] reach_eq [OF path_graph(3) this(3)]
  have "set (map dom hs) = {reach path_graph 1}" using hs(3) by auto
  then have "length (map dom hs) = 1" using distinct_card [OF hs(2)] by simp
  then show ?thesis using hs(1) by simp
qed

text \<open>
  \<^verbatim>\<open>isPathExists\<close> ends, and answers whether a walk of at least one bond leads from the first node to
  the second; the search that stops early is the reachability of the graph.
\<close>

theorem path_search:
  assumes "finite_graph g"
  shows "isPathExists g n m = Some ((n, m) \<in> (edges g)\<^sup>+)"
  by (rule isPathExists_spec [OF assms])

theorem path_search_witness: "isPathExists path_graph 1 3 = Some True"
proof -
  have "(1, 2) \<in> edges path_graph" "(2, 3) \<in> edges path_graph" by (simp_all add: path_graph)
  then have "(1, 3) \<in> (edges path_graph)\<^sup>+" by (meson trancl.simps)
  then show ?thesis using path_search [OF path_graph(2), of 1 3] by simp
qed

section \<open>Angles and dihedrals\<close>

text \<open>
  C19.  The dihedrals \<^verbatim>\<open>generateAnglesDihedrals\<close> collects over the new bonds are, up to direction, exactly the
  simple paths of four particles that contain a new bond, and none is there in both directions.
\<close>

theorem new_dihedrals:
  assumes "finite_graph g" "sym_graph g" "\<forall>(a, b)\<in>set es. (a, b) \<in> edges g \<and> a \<noteq> b"
  shows "\<exists>T Q. generateAll g es ({}, {}) = Inr (T, Q) \<and> one_way Q
    \<and> both_ways Q = {q. path4 g q \<and> (\<exists>(a, b)\<in>set es. through a b q)}"
proof -
  obtain T Q where "generateAll g es ({}, {}) = Inr (T, Q)" "one_way {} \<longrightarrow> one_way Q"
    "both_ways Q = both_ways {} \<union> {q. path4 g q \<and> (\<exists>(a, b)\<in>set es. through a b q)}"
    using generateAll_quads [OF assms(1,2), of es "{}" "{}"] assms(3) by blast
  then show ?thesis by (simp add: one_way_def)
qed

theorem new_dihedrals_witness:
  "\<exists>T Q. generateAll path_graph [(2, 3)] ({}, {}) = Inr (T, Q) \<and> both_ways Q = {(1, 2, 3, 4), (4, 3, 2, 1)}"
proof -
  have "{q. path4 path_graph q \<and> (\<exists>(a, b)\<in>set [(2, 3)]. through a b q)} = {(1, 2, 3, 4), (4, 3, 2, 1)}" (is "?A = ?B")
  proof (intro set_eqI)
    fix q :: quadruplet
    obtain a b c d where q: "q = (a, b, c, d)" by (cases q)
    show "q \<in> ?A \<longleftrightarrow> q \<in> ?B" unfolding q using path_path4 [of a b c d] by (auto simp: through_def)
  qed
  moreover obtain T Q where "generateAll path_graph [(2, 3)] ({}, {}) = Inr (T, Q)"
    "both_ways Q = {q. path4 path_graph q \<and> (\<exists>(a, b)\<in>set [(2, 3)]. through a b q)}"
    using new_dihedrals [OF path_graph(2,3), of "[(2, 3)]"] by (auto simp: path_graph)
  ultimately show ?thesis by blast
qed

text \<open>
  The angles collected for one new bond are, up to direction, exactly the simple paths of three
  particles that contain it.
\<close>

theorem new_angles:
  assumes "finite_graph g" "sym_graph g" "(a, b) \<in> edges g" "a \<noteq> b"
  shows "\<exists>T Q. generateAnglesDihedrals g a b ({}, {}) = Inr (T, Q) \<and> T \<union> trev ` T = {t. path3 g t \<and> bond_in a b t}"
  using generate_triplets [OF assms, of "{}"] by blast

theorem new_angles_witness:
  "\<exists>T Q. generateAnglesDihedrals path_graph 1 2 ({}, {}) = Inr (T, Q) \<and> T \<union> trev ` T = {(1, 2, 3), (3, 2, 1)}"
proof -
  have "{t. path3 path_graph t \<and> bond_in 1 2 t} = {(1, 2, 3), (3, 2, 1)}" (is "?A = ?B")
  proof (intro set_eqI)
    fix t :: triplet
    obtain a b c where t: "t = (a, b, c)" by (cases t)
    show "t \<in> ?A \<longleftrightarrow> t \<in> ?B" unfolding t using path_path3 [of a b c] by simp
  qed
  then show ?thesis using new_angles [OF path_graph(2,3), of 1 2] by (auto simp: path_graph)
qed

text \<open>
  Two new bonds of a triangle whose third bond is there: the angle 3-2-1 is never collected, for the
  test of the first loop looks for 1-3-2, which is another angle, instead of 1-2-3.
\<close>

definition triangle :: graphmap where
  "triangle = [1 \<mapsto> {2, 3}, 2 \<mapsto> {1, 3}, 3 \<mapsto> {1, 2}]"

lemma angle_lost:
  "\<exists>T Q. generateAll triangle [(1, 3), (2, 3)] ({}, {}) = Inr (T, Q) \<and> (3, 2, 1) \<notin> T \<and> (1, 2, 3) \<notin> T
    \<and> path3 triangle (3, 2, 1) \<and> bond_in 2 3 (3, 2, 1)"
proof -
  have adj: "adj_list triangle 1 = [2, 3]" "adj_list triangle 2 = [1, 3]" "adj_list triangle 3 = [1, 2]"
    by (simp_all add: adj_list_def triangle_def sorted_list_of_set_insert_remove)
  have e: "edges triangle = {(1, 2), (1, 3), (2, 1), (2, 3), (3, 1), (3, 2)}"
    by (auto simp: edges_def triangle_def split: if_splits)
  have d: "dom triangle = {1, 2, 3}" by (auto simp: triangle_def split: if_splits)
  have g: "finite_graph triangle" "sym_graph triangle" by (auto simp: finite_graph_iff e d sym_graph_def sym_def)
  have 1: "\<exists>Q. generateAnglesDihedrals triangle 1 3 ({}, {}) = Inr ({(3, 1, 2), (1, 3, 2)}, Q)"
    using generate_total [OF g, of 1 3 "{}" "{}"] by (simp add: adj d side_tris_def insert_commute)
  have 2: "\<exists>Q'. generateAnglesDihedrals triangle 2 3 ({(3, 1, 2), (1, 3, 2)}, Q) = Inr ({(3, 1, 2), (1, 3, 2)}, Q')" for Q
    using generate_total [OF g, of 2 3 "{(3, 1, 2), (1, 3, 2)}" Q] by (simp add: adj d side_tris_def insert_commute)
  obtain Q where Q: "generateAnglesDihedrals triangle 1 3 ({}, {}) = Inr ({(3, 1, 2), (1, 3, 2)}, Q)" using 1 by blast
  obtain Q' where "generateAnglesDihedrals triangle 2 3 ({(3, 1, 2), (1, 3, 2)}, Q) = Inr ({(3, 1, 2), (1, 3, 2)}, Q')" using 2 by blast
  then show ?thesis using Q by (simp add: path3_def bond_in_def e insert_commute)
qed

text \<open>
  After \<^verbatim>\<open>removeAnglesDihedrals\<close> the registered lists hold exactly those of their angles and dihedrals that do
  not run over one of the removed bonds.
\<close>

theorem removed_bonds_leave_no_angles:
  assumes "removeAnglesDihedrals R n = Some (Inr n')" "finite R"
    and "j \<in> set (triples (man n))" "j < length (tripleLists n)" "k \<in> set (quadruples (man n))" "k < length (quadLists n)"
  shows "angles (tripleLists n' ! j) = {x \<in> angles (tripleLists n ! j). \<forall>(a, b)\<in>R. \<not> bond_in_angle a b x}
    \<and> dihedrals (quadLists n' ! k) = {x \<in> dihedrals (quadLists n ! k). \<forall>(a, b)\<in>R. \<not> bond_in_dih a b x}"
  using removeAngles_filter [OF assms(1,2)] assms(3-6)
  by (auto simp: angles_def dihedrals_def ftl_has_bond_iff fql_has_bond_iff)

text \<open>A process without particles, with one angle and one dihedral over the bond 1-2.\<close>

definition angle_node :: node where
  "angle_node = \<lparr>man = registerQuadruple 0 0 0 0 0 (registerTriple 0 0 0 0 (TopologyManager_new 0)), store = Storage_new,
     pairLists = [], tripleLists = [FixedTripleList_new\<lparr>globalTriples := [(2, 1, 3)]\<rparr>],
     quadLists = [FixedQuadrupleList_new\<lparr>globalQuadruples := [(2, Triple 1 3 4)]\<rparr>], observed = []\<rparr>"

theorem removed_bonds_leave_no_angles_witness:
  "\<exists>n'. removeAnglesDihedrals {(1, 2)} angle_node = Some (Inr n') \<and> angles (tripleLists n' ! 0) = {} \<and> dihedrals (quadLists n' ! 0) = {}"
proof -
  obtain n' where run: "removeAnglesDihedrals {(1, 2)} angle_node = Some (Inr n')"
    by (simp add: removeAnglesDihedrals_def remove_by_bond_def drop_triples_def drop_quads_def angle_node_def
        registerTriple_def registerQuadruple_def TopologyManager_new_def ftl_removeByBond_def fql_removeByBond_def
        ftl_has_bond_def fql_has_bond_def update_triples_def update_quads_def ftl_updateParticlesStorage_def
        fql_updateParticlesStorage_def lift_error_def FixedTripleList_new_def FixedQuadrupleList_new_def)
  have "(2, {1, 3}) \<in> angles (tripleLists angle_node ! 0)" by (simp add: angle_node_def angles_def angle_of_def)
  have e: "angles (tripleLists angle_node ! 0) = {(2, {1, 3})}" "dihedrals (quadLists angle_node ! 0) = {{(1, 2, 3, 4), (4, 3, 2, 1)}}"
    by (simp_all add: angle_node_def angles_def angle_of_def dihedrals_def)
  have "0 \<in> set (triples (man angle_node))" "0 < length (tripleLists angle_node)" "0 \<in> set (quadruples (man angle_node))"
    "0 < length (quadLists angle_node)"
    by (simp_all add: angle_node_def registerTriple_def registerQuadruple_def)
  from removed_bonds_leave_no_angles [OF run _ this] run e show ?thesis
    by (auto simp: bond_in_angle_def bond_in_dih_def)
qed

section \<open>The exchange\<close>

text \<open>
  The requests of a process reach the others as they were made: what \<^verbatim>\<open>exchangeData\<close> packs into one
  vector of integers is read back as the same triplets, bonds and particles, and nothing is left over.
\<close>

theorem requests_roundtrip:
  assumes "nb_distance_particles m = enc_triples ts"
  shows "unpack_changes (pack_changes m) = Some [\<lparr>ch_distance = ts, ch_new = tm_newEdges m, ch_removed = removedEdges m,
    ch_props = new_local_particle_properties m\<rparr>]"
  using unpack_pack_changes [OF assms] noted_triples [OF assms] by (simp add: noted_def)

theorem requests_roundtrip_witness:
  "unpack_changes (pack_changes ((TopologyManager_new 0)\<lparr>nb_distance_particles := [1, 2, 3], tm_newEdges := [(4, 5)]\<rparr>))
    = Some [\<lparr>ch_distance = [(1, 2, 3)], ch_new = [(4, 5)], ch_removed = [], ch_props = []\<rparr>]"
  using requests_roundtrip [of "(TopologyManager_new 0)\<lparr>nb_distance_particles := [1, 2, 3], tm_newEdges := [(4, 5)]\<rparr>" "[(1, 2, 3)]"]
  by (simp add: enc_triples_def TopologyManager_new_def)

text \<open>
  C10.  Agreement: let all processes start from the same topology, which satisfies the invariant, let the request for
  distances of each be a list of whole triplets, as the manager notes them, and let at least one of them be dirty (else
  nothing happens).  When \<^verbatim>\<open>exchangeData\<close> returns, they all have the same topology again, it satisfies the invariant and nothing is
  left to be exchanged.  Its bonds are the old ones without those of a set \<open>R\<close> and with those that were asked for by any
  process, where \<open>R\<close> is exactly the bonds that were asked to be removed by any process and those that, on any process, the
  search of \<^verbatim>\<open>removeNeighbourEdges\<close> from a root that any process has announced finds at a registered distance between
  particles of the registered types.
\<close>

theorem exchange_keeps_agreement:
  assumes "\<forall>n\<in>set ns. topo (man n) = t \<and> requests_ok (man n)" "topo_ok t" "list_ex (\<lambda>n. is_dirty (man n)) ns"
    and "exchangeData hash_order ns = Some (Inr ns')"
  shows "\<exists>t' R. topo_ok t' \<and> (\<forall>n\<in>set ns'. topo (man n) = t' \<and> idle (man n))
    \<and> edges (graph t') = edges (graph t) - bonds R \<union> bonds (asked_new ns)
    \<and> (\<exists>pick. (\<forall>n\<in>set ns. \<forall>r\<in>announced ns. cut_around n r (pick n r))
        \<and> R = asked_removed ns \<union> (\<Union>n\<in>set ns. \<Union>r\<in>announced ns. pick n r))"
  by (rule exchange_agree [OF _ _ assms(2,3,4)]) (use assms(1) in simp_all)

definition empty_node :: "topology \<Rightarrow> (int \<times> int) list \<Rightarrow> (int \<times> int) list \<Rightarrow> node" where
  "empty_node t new rem = \<lparr>man = (TopologyManager_new 0)\<lparr>topo := t, tm_newEdges := new, removedEdges := rem\<rparr>, store = Storage_new,
     pairLists = [], tripleLists = [], quadLists = [], observed = []\<rparr>"

lemma empty_node [simp]: "bare (empty_node t new rem)" "topo (man (empty_node t new rem)) = t" "requests_ok (man (empty_node t new rem))"
    "is_dirty (man (empty_node t new rem))" "noted (man (empty_node t new rem)) = \<lparr>ch_distance = [], ch_new = new, ch_removed = rem, ch_props = []\<rparr>"
    "tm_newEdges (man (empty_node t new rem)) = new" "removedEdges (man (empty_node t new rem)) = rem"
    "nb_edges_root_to_remove (man (empty_node t new rem)) = []"
proof -
  show "bare (empty_node t new rem)"
    by (simp add: bare_def empty_node_def TopologyManager_new_def particle_at_def localOf_def lookupLocalParticle_def Storage_new_def)
  have n: "nb_distance_particles (man (empty_node t new rem)) = enc_triples []"
    by (simp add: empty_node_def TopologyManager_new_def enc_triples_def)
  then show "requests_ok (man (empty_node t new rem))" unfolding requests_ok_def by blast
  show "noted (man (empty_node t new rem)) = \<lparr>ch_distance = [], ch_new = new, ch_removed = rem, ch_props = []\<rparr>"
    using noted_triples [OF n] by (simp add: noted_def empty_node_def TopologyManager_new_def)
qed (simp_all add: empty_node_def TopologyManager_new_def)

lemma empty_exchange:
  assumes t: "topo_ok t" "pid_rid t = [1 \<mapsto> 1, 2 \<mapsto> 2, 3 \<mapsto> 3]" "edges (graph t) = {(1, 2), (2, 1)}" "ids_left t 1000"
  shows "\<exists>ns'. exchangeData h [empty_node t [(2, 3)] [], empty_node t [] [(1, 2)]] = Some (Inr ns') \<and> length ns' = 2"
proof -
  let ?ns = "[empty_node t [(2, 3)] [], empty_node t [] [(1, 2)]]"
  let ?cs = "[\<lparr>ch_distance = [], ch_new = [(2, 3)], ch_removed = [], ch_props = []\<rparr>,
    \<lparr>ch_distance = [], ch_new = [], ch_removed = [(1, 2)], ch_props = []\<rparr>]"
  have sets: "removed_edges ?cs = {(1, 2)}" "new_edges ?cs = {(2, 3)}" by (simp_all add: removed_edges_def new_edges_def edge_of_def)
  have ap: "\<exists>n'. apply_changes h ?cs (empty_node t new rem) = Some (Inr n')" for new rem
  proof (rule bare_exchange)
    show "removed_edges ?cs \<subseteq> edges (graph (topo (man (empty_node t new rem))))" unfolding sets using t(3) by simp
    show "\<forall>(a, b)\<in>new_edges ?cs. a \<noteq> b \<and> a \<in> dom (pid_rid (topo (man (empty_node t new rem))))
        \<and> b \<in> dom (pid_rid (topo (man (empty_node t new rem))))" unfolding sets using t(2) by auto
    show "ids_left (topo (man (empty_node t new rem))) (card (removed_edges ?cs))" unfolding sets using t(4) by (simp add: ids_left_def)
  qed (use t(1) in simp_all)
  have "gather unpack_changes pack_changes ?ns = Some (map (\<lambda>n. noted (man n)) ?ns)" by (rule gather_changes) auto
  then have g: "gather unpack_changes pack_changes ?ns = Some ?cs" by simp
  obtain n1 n2 where "apply_changes h ?cs (empty_node t [(2, 3)] []) = Some (Inr n1)" "apply_changes h ?cs (empty_node t [] [(1, 2)]) = Some (Inr n2)"
    using ap by blast
  then show ?thesis using g by (simp add: exchangeData_def gather_roots)
qed

theorem exchange_keeps_agreement_witness:
  "\<exists>t ns' t'. topo_ok t \<and> edges (graph t) = {(1, 2), (2, 1)}
    \<and> exchangeData (\<lambda>es. es) [empty_node t [(2, 3)] [], empty_node t [] [(1, 2)]] = Some (Inr ns')
    \<and> length ns' = 2 \<and> (\<forall>n\<in>set ns'. topo (man n) = t') \<and> edges (graph t') = {(2, 3), (3, 2)}"
proof -
  obtain t where t: "topo_ok t" "pid_rid t = [1 \<mapsto> 1, 2 \<mapsto> 2, 3 \<mapsto> 3]" "edges (graph t) = {(1, 2), (2, 1)}" "ids_left t 1000"
    using small_topology by blast
  let ?ns = "[empty_node t [(2, 3)] [], empty_node t [] [(1, 2)]]"
  obtain ns' where run: "exchangeData (\<lambda>es. es) ?ns = Some (Inr ns')" "length ns' = 2"
    using empty_exchange [OF t, of "\<lambda>es. es"] by (elim exE conjE)
  have "announced ?ns = {}" by (simp add: announced_def)
  moreover have "\<forall>n\<in>set ?ns. topo (man n) = t \<and> requests_ok (man n)" "list_ex (\<lambda>n. is_dirty (man n)) ?ns" by auto
  from exchange_keeps_agreement [OF this(1) t(1) this(2) run(1)]
  obtain t' R pick where "\<forall>n\<in>set ns'. topo (man n) = t' \<and> idle (man n)"
    "edges (graph t') = edges (graph t) - bonds R \<union> bonds (asked_new ?ns)"
    "R = asked_removed ?ns \<union> (\<Union>n\<in>set ?ns. \<Union>r\<in>announced ?ns. pick n r)" by (elim exE conjE)
  moreover have "bonds (asked_new ?ns) = {(2, 3), (3, 2)}" "bonds (asked_removed ?ns) = {(1, 2), (2, 1)}"
    by (auto simp: asked_new_def asked_removed_def bonds_def link_def)
  ultimately show ?thesis using run t(1,3) by (intro exI [of _ t] exI [of _ ns'] exI [of _ t']) simp
qed

text \<open>
  The edges are applied without an exception: when there are ids for new molecules left, the bonds to remove are in the
  graph, a list is registered for the types of each that the process can see, and the new bonds join known particles,
  the loops over \<^verbatim>\<open>deleteEdge\<close> and \<^verbatim>\<open>newEdge\<close> end normally, with the bonds as asked.
\<close>

theorem edges_are_applied:
  assumes "topo_ok (topo (man n))" "removed_edges cs \<subseteq> edges (graph (topo (man n)))" "registered n (removed_edges cs)"
    and "\<forall>(a, b)\<in>new_edges cs. a \<in> dom (pid_rid (topo (man n))) \<and> b \<in> dom (pid_rid (topo (man n)))"
    and "ids_left (topo (man n)) (card (removed_edges cs))"
  shows "\<exists>n'. apply_edges cs n = Some (Inr n') \<and> topo_ok (topo (man n'))
    \<and> edges (graph (topo (man n'))) = edges (graph (topo (man n))) - bonds (removed_edges cs) \<union> bonds (new_edges cs)"
proof -
  have "finite (new_edges cs)" "finite (removed_edges cs)" by (simp_all add: new_edges_def removed_edges_def)
  then show ?thesis using apply_edges_total [OF assms] apply_edges_ok [OF _ assms(1)] unfolding bonds_def by blast
qed

theorem edges_are_applied_witness:
  "\<exists>t n'. topo_ok t \<and> apply_edges [\<lparr>ch_distance = [], ch_new = [(2, 3)], ch_removed = [(1, 2)], ch_props = []\<rparr>] (empty_node t [] []) = Some (Inr n')
    \<and> edges (graph (topo (man n'))) = {(2, 3), (3, 2)}"
proof -
  obtain t where t: "topo_ok t" "pid_rid t = [1 \<mapsto> 1, 2 \<mapsto> 2, 3 \<mapsto> 3]" "edges (graph t) = {(1, 2), (2, 1)}" "ids_left t 1000"
    using small_topology by blast
  let ?c = "\<lparr>ch_distance = [], ch_new = [(2, 3)], ch_removed = [(1, 2)], ch_props = []\<rparr>"
  have s: "removed_edges [?c] = {(1, 2)}" "new_edges [?c] = {(2, 3)}" by (simp_all add: removed_edges_def new_edges_def edge_of_def)
  have "particle_at (store (empty_node t [] [])) p = None" for p using empty_node(1) [of t "[]" "[]"] by (simp add: bare_def)
  then have "registered (empty_node t [] []) {(1, 2)}" by (simp add: registered_def)
  then obtain n' where "apply_edges [?c] (empty_node t [] []) = Some (Inr n')"
    "edges (graph (topo (man n'))) = {(1, 2), (2, 1)} - bonds {(1, 2)} \<union> bonds {(2, 3)}"
    using edges_are_applied [of "empty_node t [] []" "[?c]"] t unfolding s by (auto simp: ids_left_def)
  moreover have "{(1, 2), (2, 1)} - bonds {(1, 2)} \<union> bonds {(2, 3)} = {(2, 3), (3, 2)}" by (auto simp: bonds_def link_def)
  ultimately show ?thesis using t(1) by auto
qed

section \<open>Where the code departs from its intent\<close>

text \<open>\<^verbatim>\<open>setQ\<close> marks the charge as changed and leaves it as it was.\<close>

lemma charge_not_set: "tp_q (tpp_setQ x t) = tp_q t \<and> tp_change_flag (tpp_setQ x t) = tp_change_flag t OR CHANGE_Q"
  by (simp add: tpp_setQ_def tpp_flag_def)

text \<open>
  The search of \<^verbatim>\<open>hasNeighbourParticleProperty\<close> stops once the first node at the distance before the last
  has been looked at: of the nodes 4 and 5, both two bonds from 1, it finds one.
\<close>

definition tree_graph :: graphmap where
  "tree_graph = [1 \<mapsto> {2, 3}, 2 \<mapsto> {1, 4}, 3 \<mapsto> {1, 5}, 4 \<mapsto> {2}, 5 \<mapsto> {3}]"

lemma depth_search_incomplete: "nodes_at_depth tree_graph 1 2 = Some {4} \<and> 5 \<in> level tree_graph 1 2"
proof
  have adj: "adj_list tree_graph 1 = [2, 3]" "adj_list tree_graph 2 = [1, 4]"
    by (simp_all add: adj_list_def tree_graph_def sorted_list_of_set_insert_remove)
  show "nodes_at_depth tree_graph 1 2 = Some {4}"
    by (simp add: nodes_at_depth_def dist_search_def dist_loop.simps [of _ _ _ _ 0] dist_loop.simps [of _ _ _ _ 1]
        dist_loop.simps [of _ _ _ _ 2] adj dist_of_def dist_visit_def)
  have "(1, 3) \<in> edges tree_graph" "(3, 5) \<in> edges tree_graph" "(1, 5) \<notin> edges tree_graph"
    by (simp_all add: edges_def tree_graph_def)
  then show "5 \<in> level tree_graph 1 2" by (auto simp: level_def numeral_2_eq_2 less_Suc_eq)
qed

text \<open>Asking for the residue of an unknown particle gives it the residue 0, which no residue list has.\<close>

lemma unknown_residue:
  assumes "topo_ok t" "pid_rid t p = None"
  shows "fst (getResId p t) = 0 \<and> \<not> topo_ok (snd (getResId p t))"
proof -
  have "pid_mid t p = None" using assms by (auto simp: topo_ok_def molecules_ok_def)
  then have "dom (pid_mid (snd (getResId p t))) \<noteq> dom (pid_rid (snd (getResId p t)))"
    using assms(2) by (auto simp: getResId_def map_at_def)
  moreover have "fst (getResId p t) = 0" using assms(2) by (simp add: getResId_def map_at_def)
  ultimately show ?thesis by (auto simp: topo_ok_def molecules_ok_def)
qed

end
