(* ===== verification/Potential.thy ===== *)
theory Potential
  imports Particles
begin

text \<open>
  \<^verbatim>\<open>src/src/interaction/Potential.hpp\<close>: what all potentials between two particles share, the cutoff and the
  shift.  A potential is the record \<open>pot\<close>, with the parameters of the derived class in it; the two
  functions that a derived class has to define, \<^verbatim>\<open>_computeEnergySqrRaw\<close> and \<^verbatim>\<open>_computeForceRaw\<close>, are the
  arguments \<^term>\<open>E\<close> and \<^term>\<open>F\<close>.  An infinite cutoff is \<^term>\<open>None\<close>; a force that is not computed is \<^term>\<open>None\<close>
  too.  The laws of the derived classes are locales: \<open>central\<close>, for forces along the distance that are the
  derivative of the energy, and \<open>pair_field\<close> with \<open>pair_law\<close>, what the interactions rely on.
\<close>

section \<open>Cutoffs\<close>

type_synonym cutoff = "real option"

definition beyond :: "real \<Rightarrow> cutoff \<Rightarrow> bool" where
  "beyond s c = (case c of None \<Rightarrow> False | Some r \<Rightarrow> s > r)"

definition cut_sqr :: "cutoff \<Rightarrow> cutoff" where
  "cut_sqr c = map_option (\<lambda>c. c * c) c"

lemma beyond_simps [simp]: "\<not> beyond s None" "beyond s (Some r) \<longleftrightarrow> r < s"
  by (simp_all add: beyond_def)

lemma cut_sqr_simps [simp]: "cut_sqr None = None" "cut_sqr (Some r) = Some (r * r)"
  by (simp_all add: cut_sqr_def)

section \<open>The base class\<close>

record 'a pot =
  pt_par :: 'a
  pt_cutoff :: cutoff
  pt_cutoffSqr :: cutoff
  pt_shift :: real
  pt_auto :: bool

type_synonym 'a raw_energy = "'a pot \<Rightarrow> real \<Rightarrow> real"
type_synonym 'a raw_force = "'a pot \<Rightarrow> real3d \<Rightarrow> real \<Rightarrow> real3d option"

definition PotentialTemplate_new :: "'a \<Rightarrow> 'a pot" where
  "PotentialTemplate_new a = \<lparr>pt_par = a, pt_cutoff = None, pt_cutoffSqr = None, pt_shift = 0, pt_auto = False\<rparr>"

definition setAutoShift :: "'a raw_energy \<Rightarrow> 'a pot \<Rightarrow> 'a pot" where
  "setAutoShift E p =
     (let p = p\<lparr>pt_auto := True\<rparr>
      in case pt_cutoffSqr p of None \<Rightarrow> p\<lparr>pt_shift := 0\<rparr> | Some s \<Rightarrow> p\<lparr>pt_shift := E p s\<rparr>)"

definition updateAutoShift :: "'a raw_energy \<Rightarrow> 'a pot \<Rightarrow> 'a pot" where
  "updateAutoShift E p = (if pt_auto p then setAutoShift E p else p)"

definition setCutoff :: "'a raw_energy \<Rightarrow> cutoff \<Rightarrow> 'a pot \<Rightarrow> 'a pot" where
  "setCutoff E c p = updateAutoShift E (p\<lparr>pt_cutoff := c, pt_cutoffSqr := cut_sqr c\<rparr>)"

definition setShift :: "real \<Rightarrow> 'a pot \<Rightarrow> 'a pot" where
  "setShift s p = p\<lparr>pt_auto := False, pt_shift := s\<rparr>"

text \<open>A setter of a derived class changes its parameters; most of them then call \<^verbatim>\<open>updateAutoShift\<close>.\<close>

definition upd_par :: "('a \<Rightarrow> 'a) \<Rightarrow> 'a pot \<Rightarrow> 'a pot" where
  "upd_par f p = p\<lparr>pt_par := f (pt_par p)\<rparr>"

definition computeEnergySqr :: "'a raw_energy \<Rightarrow> 'a pot \<Rightarrow> real \<Rightarrow> real" where
  "computeEnergySqr E p distSqr = (if beyond distSqr (pt_cutoffSqr p) then 0 else E p distSqr - pt_shift p)"

definition computeEnergyR :: "'a raw_energy \<Rightarrow> 'a pot \<Rightarrow> real \<Rightarrow> real" where
  "computeEnergyR E p r = computeEnergySqr E p (r * r)"

definition computeEnergyV :: "'a raw_energy \<Rightarrow> 'a pot \<Rightarrow> real3d \<Rightarrow> real" where
  "computeEnergyV E p d = computeEnergySqr E p (real3d_sqr d)"

definition computeEnergyPP :: "'a raw_energy \<Rightarrow> 'a pot \<Rightarrow> particle \<Rightarrow> particle \<Rightarrow> real" where
  "computeEnergyPP E p x y = computeEnergyV E p (p_pos x - p_pos y)"

definition computeForceV :: "'a raw_force \<Rightarrow> 'a pot \<Rightarrow> real3d \<Rightarrow> real3d option" where
  "computeForceV F p d = (if beyond (real3d_sqr d) (pt_cutoffSqr p) then None else F p d (real3d_sqr d))"

definition computeForcePP :: "'a raw_force \<Rightarrow> 'a pot \<Rightarrow> particle \<Rightarrow> particle \<Rightarrow> real3d option" where
  "computeForcePP F p x y = computeForceV F p (p_pos x - p_pos y)"

text \<open>The virtual \<^verbatim>\<open>computeForce\<close> returns zero where no force was computed.\<close>

definition computeForce :: "'a raw_force \<Rightarrow> 'a pot \<Rightarrow> real3d \<Rightarrow> real3d" where
  "computeForce F p d = (case computeForceV F p d of None \<Rightarrow> 0 | Some f \<Rightarrow> f)"

lemmas pot_setters = setAutoShift_def updateAutoShift_def setCutoff_def setShift_def upd_par_def PotentialTemplate_new_def

section \<open>Directional derivatives\<close>

lemma scale_sel3 [simp]:
  "vx (real3d_scale v c) = vx v * c" "vy (real3d_scale v c) = vy v * c" "vz (real3d_scale v c) = vz v * c"
  by (simp_all add: real3d_scale_def)

lemma dot_scale: "real3d_dot (real3d_scale v c) w = c * real3d_dot v w"
  by (simp add: real3d_dot_def algebra_simps)

lemma dot_zero [simp]: "real3d_dot 0 w = 0" "real3d_dot w 0 = 0"
  by (simp_all add: real3d_dot_def)

lemma sqr_deriv: "((\<lambda>t. real3d_sqr (d + real3d_scale h t)) has_real_derivative 2 * real3d_dot d h) (at 0)"
  unfolding real3d_sqr_def real3d_dot_def by (auto intro!: derivative_eq_intros)

lemma inverse_sqrt_deriv:
  assumes "0 < s"
  shows "((\<lambda>s. 1 / sqrt s) has_real_derivative - (1 / (sqrt s * s) / 2)) (at s)"
proof -
  have "((\<lambda>s. inverse (sqrt s)) has_real_derivative - (inverse (sqrt s) * (inverse (sqrt s) / 2) * inverse (sqrt s))) (at s)"
    using assms by (intro DERIV_inverse' DERIV_real_sqrt) simp_all
  moreover have "inverse (sqrt s) * (inverse (sqrt s) / 2) * inverse (sqrt s) = 1 / (sqrt s * s) / 2"
  proof -
    have "inverse (sqrt s) * (inverse (sqrt s) / 2) * inverse (sqrt s) = 1 / (sqrt s * (sqrt s * sqrt s)) / 2"
      by (simp only: inverse_eq_divide times_divide_eq_left times_divide_eq_right divide_divide_eq_left mult_1_left mult.assoc mult.commute)
    also have "sqrt s * sqrt s = s" using assms by simp
    finally show ?thesis .
  qed
  ultimately show ?thesis by (simp only: inverse_eq_divide)
qed

lemma sqr_continuous: "isCont (\<lambda>t. real3d_sqr (d + real3d_scale h t)) 0"
  using sqr_deriv by (rule DERIV_isCont)

lemma eventually_below:
  fixes f :: "real \<Rightarrow> real"
  assumes "isCont f 0" "f 0 < r"
  shows "eventually (\<lambda>t. f t < r) (nhds 0)"
  using order_tendstoD(2) [OF assms [unfolded isCont_def]] assms(2)
  by (simp add: eventually_nhds_conv_at)

lemma eventually_above:
  fixes f :: "real \<Rightarrow> real"
  assumes "isCont f 0" "r < f 0"
  shows "eventually (\<lambda>t. r < f t) (nhds 0)"
  using order_tendstoD(1) [OF assms [unfolded isCont_def]] assms(2)
  by (simp add: eventually_nhds_conv_at)

definition off_cutoff :: "'a pot \<Rightarrow> real \<Rightarrow> bool" where
  "off_cutoff p s \<longleftrightarrow> pt_cutoffSqr p \<noteq> Some s"

section \<open>The laws of a potential\<close>

locale central =
  fixes E :: "'a raw_energy" and F :: "'a raw_force" and ffactor :: "'a pot \<Rightarrow> real \<Rightarrow> real"
    and smooth :: "'a pot \<Rightarrow> real \<Rightarrow> bool"
  assumes force: "F p d s = Some (real3d_scale d (ffactor p s))"
    and deriv: "smooth p s \<Longrightarrow> (E p has_real_derivative - ffactor p s / 2) (at s)"
begin

lemma gradient:
  assumes s: "smooth p (real3d_sqr d)" and c: "off_cutoff p (real3d_sqr d)"
  shows "((\<lambda>t. computeEnergyV E p (d + real3d_scale h t)) has_real_derivative
    - real3d_dot (computeForce F p d) h) (at 0)"
proof -
  let ?s = "\<lambda>t. real3d_sqr (d + real3d_scale h t)"
  have 0: "?s 0 = real3d_sqr d" by (simp add: real3d_sqr_def)
  show ?thesis
  proof (cases "beyond (real3d_sqr d) (pt_cutoffSqr p)")
    case True
    then obtain r where r: "pt_cutoffSqr p = Some r" "r < ?s 0" unfolding 0 by (cases "pt_cutoffSqr p") auto
    have ev: "eventually (\<lambda>t. computeEnergyV E p (d + real3d_scale h t) = 0) (nhds 0)"
      using eventually_above [OF sqr_continuous r(2)]
      by eventually_elim (simp add: computeEnergyV_def computeEnergySqr_def r(1))
    have "computeForce F p d = 0" using True by (simp add: computeForce_def computeForceV_def)
    then show ?thesis using DERIV_cong_ev [OF refl ev refl] by simp
  next
    case False
    have "\<exists>r. eventually (\<lambda>t. \<not> beyond (?s t) (pt_cutoffSqr p)) (nhds 0)"
    proof (cases "pt_cutoffSqr p")
      case (Some r)
      have "?s 0 < r" using False c unfolding 0 by (auto simp: Some off_cutoff_def)
      from eventually_below [OF sqr_continuous this] show ?thesis
        unfolding Some by (auto elim!: eventually_mono)
    qed simp
    then have ev: "eventually (\<lambda>t. computeEnergyV E p (d + real3d_scale h t) = E p (?s t) - pt_shift p) (nhds 0)"
      by (auto simp: computeEnergyV_def computeEnergySqr_def elim!: eventually_mono)
    have "(E p has_real_derivative - ffactor p (real3d_sqr d) / 2) (at (?s 0))" unfolding 0 by (rule deriv [OF s])
    from DERIV_chain2 [OF this sqr_deriv]
    have "((\<lambda>t. E p (?s t)) has_real_derivative - ffactor p (real3d_sqr d) * real3d_dot d h) (at 0)" by simp
    then have "((\<lambda>t. E p (?s t) - pt_shift p) has_real_derivative - ffactor p (real3d_sqr d) * real3d_dot d h) (at 0)"
      by (auto intro!: derivative_eq_intros)
    moreover have "computeForce F p d = real3d_scale d (ffactor p (real3d_sqr d))"
      using False by (simp add: computeForce_def computeForceV_def force)
    ultimately show ?thesis using DERIV_cong_ev [OF refl ev refl] by (simp add: dot_scale)
  qed
qed

lemma along: "computeForceV F p d = Some f \<Longrightarrow> \<exists>c. f = real3d_scale d c"
  by (auto simp: computeForceV_def force split: if_splits)

end

text \<open>What the interactions ask for: a force equal to the gradient of the energy, that does not see the forces
  (\<open>pair_field\<close>), and along the distance (\<open>pair_law\<close>).\<close>

definition total :: "real3d option \<Rightarrow> real3d" where
  "total f = (case f of None \<Rightarrow> 0 | Some f \<Rightarrow> f)"

definition shifted_by :: "particle \<Rightarrow> real3d \<Rightarrow> particle" where
  "shifted_by x v = x\<lparr>part_r := (part_r x)\<lparr>pr_p := p_pos x + v\<rparr>\<rparr>"

lemma total_simps [simp]: "total None = 0" "total (Some f) = f"
  by (simp_all add: total_def)

lemma shifted_by_sel [simp]: "p_pos (shifted_by x v) = p_pos x + v" "part_p (shifted_by x v) = part_p x"
  by (simp_all add: shifted_by_def)

lemma shifted_by_0 [simp]: "shifted_by x 0 = x"
  by (simp add: shifted_by_def)

locale pair_field =
  fixes energy :: "'q \<Rightarrow> particle \<Rightarrow> particle \<Rightarrow> real" and force :: "'q \<Rightarrow> particle \<Rightarrow> particle \<Rightarrow> real3d option"
    and smooth :: "'q \<Rightarrow> particle \<Rightarrow> particle \<Rightarrow> bool"
  assumes pair_gradient: "smooth q x y \<Longrightarrow>
      ((\<lambda>t. energy q (shifted_by x (real3d_scale h t)) (shifted_by y (real3d_scale k t)))
        has_real_derivative - real3d_dot (total (force q x y)) (h - k)) (at 0)"
    and pair_blind: "part_p x = part_p v \<Longrightarrow> part_r x = part_r v \<Longrightarrow> part_p y = part_p w \<Longrightarrow> part_r y = part_r w \<Longrightarrow>
      force q x y = force q v w"

locale pair_law = pair_field +
  assumes pair_along: "force q x y = Some f \<Longrightarrow> \<exists>c. f = real3d_scale (p_pos x - p_pos y) c"

definition away :: "('a pot \<Rightarrow> real \<Rightarrow> bool) \<Rightarrow> 'a pot \<Rightarrow> particle \<Rightarrow> particle \<Rightarrow> bool" where
  "away smooth p x y \<longleftrightarrow> smooth p (real3d_sqr (p_pos x - p_pos y)) \<and> off_cutoff p (real3d_sqr (p_pos x - p_pos y))"

lemma shifted_distance:
  "p_pos (shifted_by x (real3d_scale h t)) - p_pos (shifted_by y (real3d_scale k t))
    = (p_pos x - p_pos y) + real3d_scale (h - k) t"
  by (simp add: vec_eq_iff algebra_simps)

sublocale central \<subseteq> pair_law "computeEnergyPP E" "computeForcePP F" "away smooth"
proof
  fix q :: "'a pot" and x y h k
  assume "away smooth q x y"
  then show "((\<lambda>t. computeEnergyPP E q (shifted_by x (real3d_scale h t)) (shifted_by y (real3d_scale k t)))
        has_real_derivative - real3d_dot (total (computeForcePP F q x y)) (h - k)) (at 0)"
    using gradient [of q "p_pos x - p_pos y" "h - k"]
    unfolding away_def computeEnergyPP_def computeForcePP_def shifted_distance computeForce_def total_def by simp
next
  fix q :: "'a pot" and x y f
  assume "computeForcePP F q x y = Some f"
  then show "\<exists>c. f = real3d_scale (p_pos x - p_pos y) c" unfolding computeForcePP_def by (rule along)
qed (simp add: computeForcePP_def)

section \<open>The automatic shift\<close>

text \<open>While the shift is automatic, the energy vanishes at the cutoff.\<close>

definition shift_fits :: "'a raw_energy \<Rightarrow> 'a pot \<Rightarrow> bool" where
  "shift_fits E p \<longleftrightarrow> pt_cutoffSqr p = cut_sqr (pt_cutoff p)
     \<and> (pt_auto p \<longrightarrow> pt_shift p = (case pt_cutoffSqr p of None \<Rightarrow> 0 | Some s \<Rightarrow> E p s))"

lemma shift_fits_zero: "shift_fits E p \<Longrightarrow> pt_auto p \<Longrightarrow> pt_cutoff p = Some c \<Longrightarrow> computeEnergySqr E p (c * c) = 0"
  by (simp add: shift_fits_def computeEnergySqr_def)

text \<open>The energy of a class may depend on its parameters and on the cutoff, not on the shift.\<close>

definition shift_free :: "'a raw_energy \<Rightarrow> bool" where
  "shift_free E \<longleftrightarrow> (\<forall>p a r s. E (p\<lparr>pt_auto := a, pt_shift := r\<rparr>) s = E p s)"

lemma shift_free_auto: "shift_free E \<Longrightarrow> E (p\<lparr>pt_auto := a\<rparr>) s = E p s" "shift_free E \<Longrightarrow> E (p\<lparr>pt_shift := r\<rparr>) s = E p s"
proof -
  assume e: "shift_free E"
  have "p\<lparr>pt_auto := a\<rparr> = p\<lparr>pt_auto := a, pt_shift := pt_shift p\<rparr>" "p\<lparr>pt_shift := r\<rparr> = p\<lparr>pt_auto := pt_auto p, pt_shift := r\<rparr>" by simp_all
  with e show "E (p\<lparr>pt_auto := a\<rparr>) s = E p s" "E (p\<lparr>pt_shift := r\<rparr>) s = E p s" unfolding shift_free_def by metis+
qed

lemma shift_fits_setters:
  assumes "shift_free E"
  shows "pt_cutoffSqr p = cut_sqr (pt_cutoff p) \<Longrightarrow> shift_fits E (setAutoShift E p)"
    and "pt_cutoffSqr p = cut_sqr (pt_cutoff p) \<Longrightarrow> shift_fits E (updateAutoShift E p)"
    and "pt_cutoffSqr p = cut_sqr (pt_cutoff p) \<Longrightarrow> shift_fits E (setShift r p)"
    and "shift_fits E (setCutoff E c p)"
  using shift_free_auto [OF assms] by (auto simp: shift_fits_def pot_setters Let_def split: option.splits)

lemma setter_par [simp]:
  "pt_par (setAutoShift E p) = pt_par p" "pt_par (updateAutoShift E p) = pt_par p"
  "pt_par (setCutoff E c p) = pt_par p" "pt_par (setShift s p) = pt_par p" "pt_par (upd_par f p) = f (pt_par p)"
  by (auto simp: pot_setters Let_def split: option.splits)

lemma upd_par_sel [simp]: "pt_auto (upd_par f p) = pt_auto p" "pt_shift (upd_par f p) = pt_shift p"
  by (simp_all add: upd_par_def)

lemma setter_cutoff [simp]:
  "pt_cutoff (setAutoShift E p) = pt_cutoff p" "pt_cutoff (updateAutoShift E p) = pt_cutoff p"
  "pt_cutoff (setCutoff E c p) = c" "pt_cutoff (setShift s p) = pt_cutoff p" "pt_cutoff (upd_par f p) = pt_cutoff p"
  "pt_cutoffSqr (setAutoShift E p) = pt_cutoffSqr p" "pt_cutoffSqr (updateAutoShift E p) = pt_cutoffSqr p"
  "pt_cutoffSqr (setCutoff E c p) = cut_sqr c" "pt_cutoffSqr (setShift s p) = pt_cutoffSqr p" "pt_cutoffSqr (upd_par f p) = pt_cutoffSqr p"
  by (auto simp: pot_setters Let_def split: option.splits)

lemma shift_fits_par:
  assumes "shift_fits E p" "E (upd_par f p) = E p"
  shows "shift_fits E (upd_par f p)"
  using assms(1) unfolding shift_fits_def assms(2) by simp

end
