(* ===== verification/LennardJones.thy ===== *)
theory LennardJones
  imports Potential
begin

text \<open>
  \<^verbatim>\<open>src/src/interaction/LennardJones.hpp\<close>: an interpretation of \<open>central\<close>.  The force is minus the
  gradient of the energy as long as the precomputed coefficients fit the parameters, which every
  constructor and setter keeps.  The coefficients and \<open>lj_energy\<close> and \<open>lj_factor\<close> are shared with the
  variants in \<open>LennardJonesFamily\<close> and \<open>LennardJonesCapped\<close>.  A coefficient that the code leaves
  uninitialised until \<^verbatim>\<open>preset\<close> is 0 before.
\<close>

section \<open>LennardJones\<close>

record lj =
  lj_epsilon :: real
  lj_sigma :: real
  lj_ff1 :: real
  lj_ff2 :: real
  lj_ef1 :: real
  lj_ef2 :: real

definition lj_par :: "real \<Rightarrow> real \<Rightarrow> lj" where
  "lj_par epsilon sigma = \<lparr>lj_epsilon = epsilon, lj_sigma = sigma, lj_ff1 = 0, lj_ff2 = 0, lj_ef1 = 0, lj_ef2 = 0\<rparr>"

definition lj_preset :: "'a lj_scheme \<Rightarrow> 'a lj_scheme" where
  "lj_preset a =
     (let sig2 = lj_sigma a * lj_sigma a;
          sig6 = sig2 * sig2 * sig2
      in a\<lparr>lj_ff1 := 48 * lj_epsilon a * sig6 * sig6, lj_ff2 := 24 * lj_epsilon a * sig6,
           lj_ef1 := 4 * lj_epsilon a * sig6 * sig6, lj_ef2 := 4 * lj_epsilon a * sig6\<rparr>)"

definition lj_energy :: "'a lj_scheme \<Rightarrow> real \<Rightarrow> real" where
  "lj_energy a distSqr =
     (let frac2 = lj_sigma a * lj_sigma a / distSqr;
          frac6 = frac2 * frac2 * frac2
      in 4 * lj_epsilon a * (frac6 * frac6 - frac6))"

definition lj_factor :: "'a lj_scheme \<Rightarrow> real \<Rightarrow> real" where
  "lj_factor a distSqr =
     (let frac2 = 1 / distSqr;
          frac6 = frac2 * frac2 * frac2
      in frac6 * (lj_ff1 a * frac6 - lj_ff2 a) * frac2)"

definition lj_E :: "'a lj_scheme raw_energy" where
  "lj_E p distSqr = lj_energy (pt_par p) distSqr"

definition lj_F :: "'a lj_scheme raw_force" where
  "lj_F p d distSqr = Some (real3d_scale d (lj_factor (pt_par p) distSqr))"

definition LennardJones_new :: "lj pot" where
  "LennardJones_new = upd_par lj_preset (setCutoff lj_E None (setShift 0 (PotentialTemplate_new (lj_par 0 0))))"

definition LennardJones_new_shift :: "real \<Rightarrow> real \<Rightarrow> cutoff \<Rightarrow> real \<Rightarrow> lj pot" where
  "LennardJones_new_shift epsilon sigma rc shift =
     upd_par lj_preset (setCutoff lj_E rc (setShift shift (PotentialTemplate_new (lj_par epsilon sigma))))"

definition LennardJones_new_auto :: "real \<Rightarrow> real \<Rightarrow> cutoff \<Rightarrow> lj pot" where
  "LennardJones_new_auto epsilon sigma rc =
     setAutoShift lj_E (upd_par lj_preset (setCutoff lj_E rc ((PotentialTemplate_new (lj_par epsilon sigma))\<lparr>pt_auto := False\<rparr>)))"

definition lj_setEpsilon :: "real \<Rightarrow> lj pot \<Rightarrow> lj pot" where
  "lj_setEpsilon epsilon p = upd_par lj_preset (updateAutoShift lj_E (upd_par (\<lambda>a. a\<lparr>lj_epsilon := epsilon\<rparr>) p))"

definition lj_setSigma :: "real \<Rightarrow> lj pot \<Rightarrow> lj pot" where
  "lj_setSigma sigma p = upd_par lj_preset (updateAutoShift lj_E (upd_par (\<lambda>a. a\<lparr>lj_sigma := sigma\<rparr>) p))"

text \<open>The coefficients fit the parameters.\<close>

definition lj_ready :: "'a lj_scheme \<Rightarrow> bool" where
  "lj_ready a \<longleftrightarrow> lj_preset a = a"

lemma lj_ready_iff: "lj_ready a \<longleftrightarrow> lj_ff1 a = 48 * lj_epsilon a * lj_sigma a ^ 12 \<and> lj_ff2 a = 24 * lj_epsilon a * lj_sigma a ^ 6
    \<and> lj_ef1 a = 4 * lj_epsilon a * lj_sigma a ^ 12 \<and> lj_ef2 a = 4 * lj_epsilon a * lj_sigma a ^ 6"
proof -
  have p: "x * x * (x * x) * (x * x) = x ^ 6" "c * x ^ 6 * x ^ 6 = c * x ^ 12" for x c :: real
    by (simp_all add: power_numeral_reduce)
  show ?thesis
    unfolding lj_ready_def lj_preset_def Let_def p
    by (cases a) auto
qed

lemma lj_preset_ready [simp]: "lj_ready (lj_preset a)"
  by (simp add: lj_ready_def lj_preset_def Let_def)

lemma lj_preset_sel [simp]: "lj_epsilon (lj_preset a) = lj_epsilon a" "lj_sigma (lj_preset a) = lj_sigma a"
  by (simp_all add: lj_preset_def Let_def)

lemma lj_energy_eq: "lj_energy a s = 4 * lj_epsilon a * ((lj_sigma a)\<^sup>2 ^ 6 / s ^ 6 - (lj_sigma a)\<^sup>2 ^ 3 / s ^ 3)"
  by (simp add: lj_energy_def Let_def power_divide power2_eq_square power_numeral_reduce)

lemma lj_energy_deriv:
  assumes "lj_ready a" "s \<noteq> 0"
  shows "(lj_energy a has_real_derivative - lj_factor a s / 2) (at s)"
proof -
  have e: "lj_energy a = (\<lambda>s. 4 * lj_epsilon a * ((lj_sigma a)\<^sup>2 ^ 6 / s ^ 6 - (lj_sigma a)\<^sup>2 ^ 3 / s ^ 3))"
    by (simp add: fun_eq_iff lj_energy_eq)
  have "- lj_factor a s / 2 = 4 * lj_epsilon a * (- ((lj_sigma a)\<^sup>2 ^ 6 * (6 * s ^ 5)) / (s ^ 6 * s ^ 6) + (lj_sigma a)\<^sup>2 ^ 3 * (3 * s\<^sup>2) / (s ^ 3 * s ^ 3))"
    using assms unfolding lj_ready_iff
    by (simp add: lj_factor_def Let_def field_simps power_numeral_reduce)
  then show ?thesis unfolding e using assms(2)
    by (auto intro!: derivative_eq_intros simp: power_mult [symmetric])
qed

definition lj_smooth :: "lj pot \<Rightarrow> real \<Rightarrow> bool" where
  "lj_smooth p s \<longleftrightarrow> lj_ready (pt_par p) \<and> s \<noteq> 0"

interpretation lennard_jones: central lj_E lj_F "\<lambda>p. lj_factor (pt_par p)" lj_smooth
proof
  fix p :: "lj pot" and d s
  show "lj_F p d s = Some (real3d_scale d (lj_factor (pt_par p) s))" by (simp add: lj_F_def)
  assume "lj_smooth p s"
  then show "(lj_E p has_real_derivative - lj_factor (pt_par p) s / 2) (at s)"
    using lj_energy_deriv [of "pt_par p" s] by (simp add: lj_smooth_def lj_E_def [abs_def])
qed


text \<open>The operations of the class, and what they keep: the coefficients fit, and so does the automatic shift.\<close>

datatype lj_op = LJ_epsilon real | LJ_sigma real | LJ_cutoff cutoff | LJ_shift real | LJ_auto

fun lj_do :: "lj_op \<Rightarrow> lj pot \<Rightarrow> lj pot" where
  "lj_do (LJ_epsilon e) p = lj_setEpsilon e p"
| "lj_do (LJ_sigma s) p = lj_setSigma s p"
| "lj_do (LJ_cutoff c) p = setCutoff lj_E c p"
| "lj_do (LJ_shift s) p = setShift s p"
| "lj_do LJ_auto p = setAutoShift lj_E p"

definition lj_ok :: "lj pot \<Rightarrow> bool" where
  "lj_ok p \<longleftrightarrow> lj_ready (pt_par p) \<and> shift_fits lj_E p"

lemma lj_shift_free: "shift_free lj_E"
  by (simp add: shift_free_def lj_E_def)

lemma lj_preset_fits: "shift_fits lj_E p \<Longrightarrow> shift_fits lj_E (upd_par lj_preset p)"
  by (erule shift_fits_par) (simp add: fun_eq_iff lj_E_def lj_energy_eq)

lemma lj_do_ok: "lj_ok p \<Longrightarrow> lj_ok (lj_do k p)"
proof -
  assume ok: "lj_ok p"
  then have c: "pt_cutoffSqr p = cut_sqr (pt_cutoff p)" by (simp add: lj_ok_def shift_fits_def)
  note s = shift_fits_setters [OF lj_shift_free]
  show ?thesis
    using ok c by (cases k) (auto simp: lj_ok_def lj_setEpsilon_def lj_setSigma_def
      intro!: lj_preset_fits s)
qed

lemma lj_new_ok: "lj_ok LennardJones_new" "lj_ok (LennardJones_new_shift e s c r)" "lj_ok (LennardJones_new_auto e s c)"
  by (auto simp: lj_ok_def LennardJones_new_def LennardJones_new_shift_def LennardJones_new_auto_def
      intro!: lj_preset_fits shift_fits_setters [OF lj_shift_free])

end
