(* ===== verification/LennardJonesFamily.thy ===== *)
theory LennardJonesFamily
  imports LennardJones
begin

text \<open>
  The relatives of \<^verbatim>\<open>src/src/interaction/LennardJones.hpp\<close>: \<^verbatim>\<open>LennardJonesGeneric.hpp\<close> with arbitrary exponents,
  \<^verbatim>\<open>LennardJonesExpand.hpp\<close> with a shifted distance, \<^verbatim>\<open>LennardJonesGromacs.hpp\<close> smoothed to the cutoff,
  \<^verbatim>\<open>LJcos.hpp\<close> with a cosine tail, and the capped ones.  Where a constructor computes the automatic
  shift before \<^verbatim>\<open>preset\<close>, what was in the memory of the object is an argument.
\<close>

section \<open>LennardJonesGeneric\<close>

record ljg =
  lg_epsilon :: real
  lg_sigma :: real
  lg_a :: int
  lg_b :: int
  lg_ff1 :: real
  lg_ff2 :: real

definition lg_par :: "real \<Rightarrow> real \<Rightarrow> int \<Rightarrow> int \<Rightarrow> ljg" where
  "lg_par epsilon sigma a b = \<lparr>lg_epsilon = epsilon, lg_sigma = sigma, lg_a = a, lg_b = b, lg_ff1 = 0, lg_ff2 = 0\<rparr>"

definition lg_preset :: "ljg \<Rightarrow> ljg" where
  "lg_preset q = q\<lparr>lg_ff1 := of_int (lg_a q) * lg_sigma q powi lg_a q, lg_ff2 := of_int (lg_b q) * lg_sigma q powi lg_b q\<rparr>"

definition lg_E :: "ljg raw_energy" where
  "lg_E p distSqr =
     (let q = pt_par p;
          r = sqrt distSqr;
          sig_over_r = lg_sigma q / r;
          ffA = sig_over_r powi lg_a q;
          ffB = sig_over_r powi lg_b q
      in 4 * lg_epsilon q * (ffA - ffB))"

definition lg_factor :: "ljg \<Rightarrow> real \<Rightarrow> real" where
  "lg_factor q distSqr =
     (let invdist = 1 / sqrt distSqr;
          ffA = invdist powi (lg_a q + 2);
          ffB = invdist powi (lg_b q + 2)
      in 4 * lg_epsilon q * (lg_ff1 q * ffA - lg_ff2 q * ffB))"

definition lg_F :: "ljg raw_force" where
  "lg_F p d distSqr = Some (real3d_scale d (lg_factor (pt_par p) distSqr))"

definition LennardJonesGeneric_new :: "ljg pot" where
  "LennardJonesGeneric_new = upd_par lg_preset (setCutoff lg_E None (setShift 0 (PotentialTemplate_new (lg_par 0 0 0 0))))"

definition LennardJonesGeneric_new_auto :: "real \<Rightarrow> real \<Rightarrow> int \<Rightarrow> int \<Rightarrow> cutoff \<Rightarrow> ljg pot" where
  "LennardJonesGeneric_new_auto epsilon sigma a b rc =
     setAutoShift lg_E (upd_par lg_preset (setCutoff lg_E rc ((PotentialTemplate_new (lg_par epsilon sigma a b))\<lparr>pt_auto := False\<rparr>)))"

definition LennardJonesGeneric_new_shift :: "real \<Rightarrow> real \<Rightarrow> int \<Rightarrow> int \<Rightarrow> cutoff \<Rightarrow> real \<Rightarrow> ljg pot" where
  "LennardJonesGeneric_new_shift epsilon sigma a b rc shift =
     upd_par lg_preset (setCutoff lg_E rc (setShift shift (PotentialTemplate_new (lg_par epsilon sigma a b))))"

definition lg_setEpsilon :: "real \<Rightarrow> ljg pot \<Rightarrow> ljg pot" where
  "lg_setEpsilon epsilon p = upd_par lg_preset (updateAutoShift lg_E (upd_par (\<lambda>q. q\<lparr>lg_epsilon := epsilon\<rparr>) p))"

definition lg_setSigma :: "real \<Rightarrow> ljg pot \<Rightarrow> ljg pot" where
  "lg_setSigma sigma p = upd_par lg_preset (updateAutoShift lg_E (upd_par (\<lambda>q. q\<lparr>lg_sigma := sigma\<rparr>) p))"

definition lg_setA :: "int \<Rightarrow> ljg pot \<Rightarrow> ljg pot" where
  "lg_setA a p = upd_par lg_preset (updateAutoShift lg_E (upd_par (\<lambda>q. q\<lparr>lg_a := a\<rparr>) p))"

definition lg_setB :: "int \<Rightarrow> ljg pot \<Rightarrow> ljg pot" where
  "lg_setB b p = upd_par lg_preset (updateAutoShift lg_E (upd_par (\<lambda>q. q\<lparr>lg_b := b\<rparr>) p))"

definition lg_smooth :: "ljg pot \<Rightarrow> real \<Rightarrow> bool" where
  "lg_smooth p s \<longleftrightarrow> lg_preset (pt_par p) = pt_par p \<and> 0 < s"

lemma lg_preset_idem [simp]: "lg_preset (lg_preset q) = lg_preset q"
  by (simp add: lg_preset_def)

lemma sqrt_power_deriv:
  assumes "0 < s"
  shows "((\<lambda>s. sqrt s powi k) has_real_derivative of_int k / 2 * sqrt s powi (k - 2)) (at s)"
proof -
  have "((\<lambda>s. sqrt s powi k) has_real_derivative of_int k * (sqrt s powi (k - 1)) * (inverse (sqrt s) / 2)) (at s)"
    using assms by (auto intro!: derivative_eq_intros)
  moreover have "sqrt s powi (k - 1) = sqrt s powi (k - 2) * sqrt s"
    using assms power_int_add_1 [of "sqrt s" "k - 2"] by simp
  ultimately show ?thesis using assms by (simp add: field_simps)
qed

lemma lg_term:
  assumes "0 < s"
  shows "((\<lambda>s. (c / sqrt s) powi a) has_real_derivative - (of_int a * c powi a * (1 / sqrt s) powi (a + 2)) / 2) (at s)"
proof -
  have e: "(\<lambda>s. (c / sqrt s) powi a) = (\<lambda>s. c powi a * sqrt s powi (- a))"
    by (simp add: fun_eq_iff power_int_divide_distrib power_int_minus field_simps)
  have "(1 / sqrt s) powi (a + 2) = sqrt s powi (- a - 2)"
    using power_int_minus [of "sqrt s" "a + 2"] by (simp add: power_int_divide_distrib field_simps)
  then show ?thesis unfolding e using DERIV_cmult [OF sqrt_power_deriv [OF assms, of "- a"], of "c powi a"]
    by (simp add: ac_simps)
qed

interpretation lennard_jones_generic: central lg_E lg_F "\<lambda>p. lg_factor (pt_par p)" lg_smooth
proof
  fix p :: "ljg pot" and d s
  show "lg_F p d s = Some (real3d_scale d (lg_factor (pt_par p) s))" by (simp add: lg_F_def)
  assume "lg_smooth p s"
  then have s: "0 < s" and r: "lg_preset (pt_par p) = pt_par p" by (simp_all add: lg_smooth_def)
  have f: "lg_ff1 (pt_par p) = of_int (lg_a (pt_par p)) * lg_sigma (pt_par p) powi lg_a (pt_par p)"
    "lg_ff2 (pt_par p) = of_int (lg_b (pt_par p)) * lg_sigma (pt_par p) powi lg_b (pt_par p)"
    using r by (metis lg_preset_def ljg.select_convs(5) ljg.surjective ljg.update_convs(5,6) ljg.select_convs(6))+
  show "(lg_E p has_real_derivative - lg_factor (pt_par p) s / 2) (at s)"
    unfolding lg_E_def [abs_def] lg_factor_def Let_def f
    using DERIV_cmult [OF DERIV_diff [OF lg_term [OF s] lg_term [OF s]]]
    by (rule back_subst [where P = "\<lambda>D. (_ has_real_derivative D) _"]) (simp add: field_simps)
qed

section \<open>LennardJonesExpand\<close>

record lje =
  le_epsilon :: real
  le_sigma :: real
  le_delta :: real

definition le_E :: "lje raw_energy" where
  "le_E p distSqr =
     (let q = pt_par p;
          frac2 = le_sigma q * le_sigma q / (sqrt distSqr - le_delta q)\<^sup>2;
          frac6 = frac2 * frac2 * frac2
      in 4 * le_epsilon q * (frac6 * frac6 - frac6))"

definition le_factor :: "lje \<Rightarrow> real \<Rightarrow> real" where
  "le_factor q distSqr =
     (let r = sqrt distSqr;
          rshift = r - le_delta q;
          rshiftsq = rshift * rshift;
          frac2 = le_sigma q * le_sigma q / rshiftsq;
          frac6 = frac2 * frac2 * frac2
      in 4 * le_epsilon q * frac6 * (12 * frac6 - 6) / rshift / r)"

definition le_F :: "lje raw_force" where
  "le_F p d distSqr = Some (real3d_scale d (le_factor (pt_par p) distSqr))"

definition LennardJonesExpand_new :: "lje pot" where
  "LennardJonesExpand_new = setCutoff le_E None (setShift 0 (PotentialTemplate_new \<lparr>le_epsilon = 0, le_sigma = 0, le_delta = 0\<rparr>))"

definition LennardJonesExpand_new_shift :: "real \<Rightarrow> real \<Rightarrow> real \<Rightarrow> cutoff \<Rightarrow> real \<Rightarrow> lje pot" where
  "LennardJonesExpand_new_shift epsilon sigma delta rc shift =
     setCutoff le_E rc (setShift shift (PotentialTemplate_new \<lparr>le_epsilon = epsilon, le_sigma = sigma, le_delta = delta\<rparr>))"

definition LennardJonesExpand_new_auto :: "real \<Rightarrow> real \<Rightarrow> real \<Rightarrow> cutoff \<Rightarrow> lje pot" where
  "LennardJonesExpand_new_auto epsilon sigma delta rc =
     setAutoShift le_E (setCutoff le_E rc ((PotentialTemplate_new \<lparr>le_epsilon = epsilon, le_sigma = sigma, le_delta = delta\<rparr>)\<lparr>pt_auto := False\<rparr>))"

definition le_setEpsilon :: "real \<Rightarrow> lje pot \<Rightarrow> lje pot" where
  "le_setEpsilon epsilon p = updateAutoShift le_E (upd_par (\<lambda>q. q\<lparr>le_epsilon := epsilon\<rparr>) p)"

definition le_setSigma :: "real \<Rightarrow> lje pot \<Rightarrow> lje pot" where
  "le_setSigma sigma p = updateAutoShift le_E (upd_par (\<lambda>q. q\<lparr>le_sigma := sigma\<rparr>) p)"

definition le_setDelta :: "real \<Rightarrow> lje pot \<Rightarrow> lje pot" where
  "le_setDelta delta p = updateAutoShift le_E (upd_par (\<lambda>q. q\<lparr>le_delta := delta\<rparr>) p)"

lemma sixth: "a * a / b\<^sup>2 * (a * a / b\<^sup>2) * (a * a / b\<^sup>2) = (a / (b::real)) ^ 6"
proof -
  have "a * a / b\<^sup>2 = (a / b)\<^sup>2" by (simp add: power_divide power2_eq_square)
  then have "a * a / b\<^sup>2 * (a * a / b\<^sup>2) * (a * a / b\<^sup>2) = ((a / b)\<^sup>2) ^ 3" by (simp only: power3_eq_cube)
  also have "\<dots> = (a / b) ^ 6" by (simp only: power_mult [symmetric]) simp
  finally show ?thesis .
qed

lemma twelfth: "(a / b) ^ 6 * (a / b) ^ 6 = (a / (b::real)) ^ 12"
  by (simp add: power_add [symmetric])

lemma sixth_ring: "B * q = A * A \<Longrightarrow> C * q = A \<Longrightarrow> 12 * B * (- q * u * (r * i)) - 6 * C * (- q * u * (r * i)) = - (A * (12 * A - 6) * u * r) * (i::real)"
  by algebra

lemma sixth_deriv: "12 * q ^ 11 * (- q / u * (inverse r / 2)) - 6 * q ^ 5 * (- q / u * (inverse r / 2))
    = - (q ^ 6 * (12 * q ^ 6 - 6) / u / r) / (2::real)"
  unfolding divide_inverse by (rule sixth_ring) (simp_all flip: power_Suc2 power_add)

definition le_smooth :: "lje pot \<Rightarrow> real \<Rightarrow> bool" where
  "le_smooth p s \<longleftrightarrow> 0 < s \<and> sqrt s \<noteq> le_delta (pt_par p)"

interpretation lennard_jones_expand: central le_E le_F "\<lambda>p. le_factor (pt_par p)" le_smooth
proof
  fix p :: "lje pot" and d s
  show "le_F p d s = Some (real3d_scale d (le_factor (pt_par p) s))" by (simp add: le_F_def)
  assume "le_smooth p s"
  then have s: "0 < s" "sqrt s - le_delta (pt_par p) \<noteq> 0" by (simp_all add: le_smooth_def)
  let ?e = "le_epsilon (pt_par p)" and ?S = "le_sigma (pt_par p)" and ?u = "\<lambda>s. sqrt s - le_delta (pt_par p)"
  have e: "le_E p = (\<lambda>s. 4 * ?e * ((?S / ?u s) ^ 12 - (?S / ?u s) ^ 6))"
    unfolding le_E_def [abs_def] Let_def sixth twelfth ..
  have f: "le_factor (pt_par p) s = 4 * ?e * (?S / ?u s) ^ 6 * (12 * (?S / ?u s) ^ 6 - 6) / ?u s / sqrt s"
    unfolding le_factor_def Let_def sixth [unfolded power2_eq_square] ..
  have d: "((\<lambda>s. ?S / ?u s) has_real_derivative - (?S / ?u s) / ?u s * (inverse (sqrt s) / 2)) (at s)"
    using s by (auto intro!: derivative_eq_intros simp: field_simps)
  show "(le_E p has_real_derivative - le_factor (pt_par p) s / 2) (at s)" unfolding e f
    by (rule DERIV_cong [OF DERIV_cmult [OF DERIV_diff [OF DERIV_power [OF d, of 12] DERIV_power [OF d, of 6]], of "4 * ?e"]])
      (use sixth_deriv [of "?S / ?u s" "?u s" "sqrt s"] in simp)
qed

section \<open>LennardJonesGromacs\<close>

text \<open>
  The fields of \<^verbatim>\<open>LennardJones\<close> and the coefficients of the part between \<^verbatim>\<open>r1\<close> and the cutoff.  With an
  infinite cutoff the coefficients are not numbers: \<open>gro_preset2\<close> is \<^term>\<open>None\<close>.
\<close>

record gro = lj +
  gro_r1 :: real
  gro_r1sq :: real
  gro_sw1 :: real
  gro_sw2 :: real
  gro_sw3 :: real
  gro_sw4 :: real
  gro_sw5 :: real

definition gro_preset1 :: "gro \<Rightarrow> gro" where
  "gro_preset1 q = (lj_preset q)\<lparr>gro_r1sq := gro_r1 q * gro_r1 q\<rparr>"

definition gro_coeffs :: "real \<Rightarrow> real \<Rightarrow> real \<times> real \<times> real \<times> real \<times> real \<times> real" where
  "gro_coeffs rc r1 =
     (let t = rc - r1;
          r6inv = 1 / rc ^ 6;
          r8inv = 1 / rc ^ 8;
          t2inv = 1 / (t * t);
          t3inv = t2inv / t;
          t3 = 1 / t3inv;
          a6 = (7 * r1 - 10 * rc) * r8inv * t2inv;
          b6 = (9 * rc - 7 * r1) * r8inv * t3inv;
          a12 = (13 * r1 - 16 * rc) * r6inv * r8inv * t2inv;
          b12 = (15 * rc - 13 * r1) * r6inv * r8inv * t3inv;
          c6 = r6inv - t3 * (6 * a6 / 3 + 6 * b6 * t / 4);
          c12 = r6inv * r6inv - t3 * (12 * a12 / 3 + 12 * b12 * t / 4)
      in (a6, b6, a12, b12, c6, c12))"

definition gro_switch :: "real \<Rightarrow> gro \<Rightarrow> gro" where
  "gro_switch rc q =
     (let (a6, b6, a12, b12, c6, c12) = gro_coeffs rc (gro_r1 q)
      in q\<lparr>gro_sw1 := lj_ff1 q * a12 - lj_ff2 q * a6,
           gro_sw2 := lj_ff1 q * b12 - lj_ff2 q * b6,
           gro_sw3 := - lj_ef1 q * 12 * a12 / 3 + lj_ef2 q * 6 * a6 / 3,
           gro_sw4 := - lj_ef1 q * 12 * b12 / 4 + lj_ef2 q * 6 * b6 / 4,
           gro_sw5 := - lj_ef1 q * c12 + lj_ef2 q * c6\<rparr>)"

definition gro_preset2 :: "gro pot \<Rightarrow> gro pot option" where
  "gro_preset2 p = (case pt_cutoff p of None \<Rightarrow> None | Some rc \<Rightarrow> Some (upd_par (gro_switch rc) p))"

definition gro_E :: "gro raw_energy" where
  "gro_E p distSqr =
     (let q = pt_par p;
          energy = lj_energy q distSqr
      in if distSqr > gro_r1sq q
         then (let dr = sqrt distSqr - gro_r1 q in energy + (dr * dr * dr * (gro_sw3 q + gro_sw4 q * dr) + gro_sw5 q))
         else energy)"

definition gro_factor :: "gro \<Rightarrow> real \<Rightarrow> real" where
  "gro_factor q distSqr =
     (let frac2 = 1 / distSqr;
          frac6 = frac2 * frac2 * frac2;
          ffactor = frac6 * (lj_ff1 q * frac6 - lj_ff2 q)
      in if distSqr > gro_r1sq q
         then (let r = sqrt distSqr; dr = r - gro_r1 q in ffactor + r * dr * dr * (gro_sw1 q + gro_sw2 q * dr))
         else ffactor)"

definition gro_F :: "gro raw_force" where
  "gro_F p d distSqr = Some (real3d_scale (real3d_scale d (gro_factor (pt_par p) distSqr)) (1 / distSqr))"

definition gro_par :: "real \<Rightarrow> real \<Rightarrow> real \<Rightarrow> gro \<Rightarrow> gro" where
  "gro_par epsilon sigma r1 u = u\<lparr>lj_epsilon := epsilon, lj_sigma := sigma, gro_r1 := r1\<rparr>"

definition LennardJonesGromacs_new :: "gro \<Rightarrow> gro pot" where
  "LennardJonesGromacs_new u =
     upd_par (\<lambda>q. (gro_preset1 q)\<lparr>gro_r1sq := 0, gro_sw1 := 0, gro_sw2 := 0, gro_sw3 := 0, gro_sw4 := 0, gro_sw5 := 0\<rparr>)
       (setCutoff gro_E None (setShift 0 (PotentialTemplate_new (gro_par 0 0 0 u))))"

definition LennardJonesGromacs_new_shift :: "real \<Rightarrow> real \<Rightarrow> real \<Rightarrow> cutoff \<Rightarrow> real \<Rightarrow> gro \<Rightarrow> gro pot option" where
  "LennardJonesGromacs_new_shift epsilon sigma r1 rc shift u =
     gro_preset2 (upd_par gro_preset1 (setCutoff gro_E rc (setShift shift (PotentialTemplate_new (gro_par epsilon sigma r1 u)))))"

text \<open>Here \<^verbatim>\<open>setAutoShift\<close> comes before both presets.\<close>

definition LennardJonesGromacs_new_auto :: "real \<Rightarrow> real \<Rightarrow> real \<Rightarrow> cutoff \<Rightarrow> gro \<Rightarrow> gro pot option" where
  "LennardJonesGromacs_new_auto epsilon sigma r1 rc u =
     gro_preset2 (upd_par gro_preset1 (setAutoShift gro_E (setCutoff gro_E rc
       ((PotentialTemplate_new (gro_par epsilon sigma r1 u))\<lparr>pt_auto := False\<rparr>))))"

definition gro_setEpsilon :: "real \<Rightarrow> gro pot \<Rightarrow> gro pot option" where
  "gro_setEpsilon epsilon p =
     gro_preset2 (upd_par gro_preset1 (updateAutoShift gro_E (upd_par (\<lambda>q. q\<lparr>lj_epsilon := epsilon\<rparr>) p)))"

definition gro_setSigma :: "real \<Rightarrow> gro pot \<Rightarrow> gro pot option" where
  "gro_setSigma sigma p =
     gro_preset2 (upd_par gro_preset1 (updateAutoShift gro_E (upd_par (\<lambda>q. q\<lparr>lj_sigma := sigma\<rparr>) p)))"

definition gro_setR1 :: "real \<Rightarrow> gro pot \<Rightarrow> gro pot option" where
  "gro_setR1 r1 p =
     gro_preset2 (upd_par gro_preset1 (updateAutoShift gro_E (upd_par (\<lambda>q. q\<lparr>gro_r1 := r1\<rparr>) p)))"

text \<open>The coefficients were computed for some cutoff.\<close>

definition gro_ready :: "gro \<Rightarrow> bool" where
  "gro_ready q \<longleftrightarrow> lj_ready q \<and> gro_r1sq q = gro_r1 q * gro_r1 q
     \<and> 3 * gro_sw3 q = - gro_sw1 q \<and> 4 * gro_sw4 q = - gro_sw2 q"

lemma gro_preset1_sel [simp]: "gro_r1 (gro_preset1 q) = gro_r1 q" "gro_r1sq (gro_preset1 q) = gro_r1 q * gro_r1 q"
  "lj_epsilon (gro_preset1 q) = lj_epsilon q" "lj_sigma (gro_preset1 q) = lj_sigma q" "lj_ready (gro_preset1 q)"
  using lj_preset_ready [of q] by (auto simp: gro_preset1_def lj_preset_def Let_def lj_ready_iff)

lemma gro_ff: "lj_ready q \<Longrightarrow> lj_ff1 q = 12 * lj_ef1 q \<and> lj_ff2 q = 6 * lj_ef2 q"
  by (simp add: lj_ready_iff)

lemma gro_switch_ready: "lj_ready q \<Longrightarrow> gro_r1sq q = gro_r1 q * gro_r1 q \<Longrightarrow> gro_ready (gro_switch rc q)"
proof -
  assume q: "lj_ready q" "gro_r1sq q = gro_r1 q * gro_r1 q"
  obtain a6 b6 a12 b12 c6 c12 where "gro_coeffs rc (gro_r1 q) = (a6, b6, a12, b12, c6, c12)" by (rule prod_cases6)
  then show ?thesis using q gro_ff [OF q(1)] by (simp add: gro_ready_def gro_switch_def lj_ready_iff)
qed

lemma gro_presets_ready: "gro_preset2 (upd_par gro_preset1 p) = Some p' \<Longrightarrow> gro_ready (pt_par p')"
  by (auto simp: gro_preset2_def gro_switch_ready split: option.splits)

lemma switch_poly: "((\<lambda>x. x ^ 3 * (a + b * x) + c) has_real_derivative x\<^sup>2 * (3 * a + 4 * b * x)) (at (x::real))"
  by (auto intro!: derivative_eq_intros simp: power2_eq_square power3_eq_cube algebra_simps)

definition gro_smooth :: "gro pot \<Rightarrow> real \<Rightarrow> bool" where
  "gro_smooth p s \<longleftrightarrow> gro_ready (pt_par p) \<and> 0 < s \<and> s \<noteq> gro_r1sq (pt_par p)"

lemma scale_scale [simp]: "real3d_scale (real3d_scale d a) b = real3d_scale d (a * b)"
  by (simp add: vec_eq_iff)

lemma eventually_same_side:
  fixes s r :: real
  assumes "s \<noteq> r"
  shows "eventually (\<lambda>t. (t > r) = (s > r)) (nhds s)"
  using assms eventually_nhds_in_open [of "{r<..}" s] eventually_nhds_in_open [of "{..<r}" s]
  by (cases s r rule: linorder_cases) (auto elim!: eventually_mono)

interpretation lennard_jones_gromacs: central gro_E gro_F "\<lambda>p s. gro_factor (pt_par p) s * (1 / s)" gro_smooth
proof
  fix p :: "gro pot" and d s
  let ?q = "pt_par p"
  show "gro_F p d s = Some (real3d_scale d (gro_factor ?q s * (1 / s)))" by (simp add: gro_F_def)
  assume "gro_smooth p s"
  then have s: "0 < s" "s \<noteq> gro_r1sq ?q" and r: "lj_ready ?q" "3 * gro_sw3 ?q = - gro_sw1 ?q" "4 * gro_sw4 ?q = - gro_sw2 ?q"
    by (simp_all add: gro_smooth_def gro_ready_def)
  have lj: "(lj_energy ?q has_real_derivative - lj_factor ?q s / 2) (at s)" using lj_energy_deriv [OF r(1)] s(1) by simp
  show "(gro_E p has_real_derivative - (gro_factor ?q s * (1 / s)) / 2) (at s)"
  proof (cases "s > gro_r1sq ?q")
    case True
    let ?u = "\<lambda>s. sqrt s - gro_r1 ?q"
    have ev: "eventually (\<lambda>t. gro_E p t = lj_energy ?q t + (?u t ^ 3 * (gro_sw3 ?q + gro_sw4 ?q * ?u t) + gro_sw5 ?q)) (nhds s)"
      using eventually_same_side [OF s(2)] True by (auto elim!: eventually_mono simp: gro_E_def Let_def power3_eq_cube)
    have u: "(?u has_real_derivative inverse (sqrt s) / 2) (at s)" using s(1) by (auto intro!: derivative_eq_intros)
    have "((\<lambda>t. ?u t ^ 3 * (gro_sw3 ?q + gro_sw4 ?q * ?u t) + gro_sw5 ?q) has_real_derivative
        (?u s)\<^sup>2 * (3 * gro_sw3 ?q + 4 * gro_sw4 ?q * ?u s) * (inverse (sqrt s) / 2)) (at s)"
      by (rule DERIV_chain2 [OF switch_poly u])
    moreover have "sqrt s * x / s = x * inverse (sqrt s)" for x
      using s(1) by (simp add: field_simps)
    then have g: "gro_factor ?q s * (1 / s) = lj_factor ?q s + (?u s)\<^sup>2 * (gro_sw1 ?q + gro_sw2 ?q * ?u s) * inverse (sqrt s)"
      using True by (simp add: gro_factor_def lj_factor_def Let_def add_divide_distrib mult.assoc power2_eq_square)
    from DERIV_add [OF lj calculation] have
      "((\<lambda>t. lj_energy ?q t + (?u t ^ 3 * (gro_sw3 ?q + gro_sw4 ?q * ?u t) + gro_sw5 ?q)) has_real_derivative
        - (gro_factor ?q s * (1 / s)) / 2) (at s)"
      by (rule DERIV_cong) (unfold g r, simp add: algebra_simps)
    then show ?thesis using DERIV_cong_ev [OF refl ev refl] by simp
  next
    case False
    have ev: "eventually (\<lambda>t. gro_E p t = lj_energy ?q t) (nhds s)"
      using eventually_same_side [OF s(2)] False by (auto elim!: eventually_mono simp: gro_E_def Let_def)
    have "gro_factor ?q s * (1 / s) = lj_factor ?q s" using False by (simp add: gro_factor_def lj_factor_def Let_def)
    then show ?thesis using DERIV_cong_ev [OF refl ev refl] lj by simp
  qed
qed

text \<open>The force and the energy go to zero at the cutoff the coefficients were computed for.\<close>

lemma gro_coeffs_at:
  assumes "gro_coeffs rc r1 = (a6, b6, a12, b12, c6, c12)" "0 < rc" "r1 \<noteq> rc"
  shows "rc * (a6 * (rc - r1)\<^sup>2 + b6 * (rc - r1) ^ 3) = - (1 / rc ^ 6)"
    and "rc * (a12 * (rc - r1)\<^sup>2 + b12 * (rc - r1) ^ 3) = - (1 / rc ^ 12)"
    and "c6 = 1 / rc ^ 6 - (rc - r1) ^ 3 * (2 * a6 + 3 / 2 * b6 * (rc - r1))"
    and "c12 = 1 / rc ^ 12 - (rc - r1) ^ 3 * (4 * a12 + 3 * b12 * (rc - r1))"
proof -
  let ?t = "rc - r1"
  have t: "?t \<noteq> 0" using assms(3) by simp
  have inv: "1 / (1 / (?t * ?t) / ?t) = ?t ^ 3" by (simp add: power3_eq_cube)
  have r14: "x * (1 / rc ^ 6) * (1 / rc ^ 8) = x * (1 / rc ^ 14)" "1 / rc ^ 6 * (1 / rc ^ 6) = 1 / rc ^ 12" for x
    by (simp_all add: power_add [symmetric])
  note e = assms(1) [unfolded gro_coeffs_def Let_def prod.inject]
  have c: "a6 = (7 * r1 - 10 * rc) * (1 / rc ^ 8) * (1 / (?t * ?t))" "b6 = (9 * rc - 7 * r1) * (1 / rc ^ 8) * (1 / (?t * ?t) / ?t)"
    "a12 = (13 * r1 - 16 * rc) * (1 / rc ^ 14) * (1 / (?t * ?t))" "b12 = (15 * rc - 13 * r1) * (1 / rc ^ 14) * (1 / (?t * ?t) / ?t)"
    using e unfolding r14 by blast+
  have "c6 = 1 / rc ^ 6 - ?t ^ 3 * (6 * a6 / 3 + 6 * b6 * ?t / 4)" "c12 = 1 / rc ^ 12 - ?t ^ 3 * (12 * a12 / 3 + 12 * b12 * ?t / 4)"
    using e unfolding r14 inv c [symmetric] by blast+
  then show "c6 = 1 / rc ^ 6 - ?t ^ 3 * (2 * a6 + 3 / 2 * b6 * ?t)" "c12 = 1 / rc ^ 12 - ?t ^ 3 * (4 * a12 + 3 * b12 * ?t)"
    by simp_all
  have k: "x * (1 / (?t * ?t)) * ?t\<^sup>2 = x" "x * (1 / (?t * ?t) / ?t) * ?t ^ 3 = x" for x
    using t by (simp_all add: power2_eq_square power3_eq_cube)
  show "rc * (a6 * ?t\<^sup>2 + b6 * ?t ^ 3) = - (1 / rc ^ 6)" "rc * (a12 * ?t\<^sup>2 + b12 * ?t ^ 3) = - (1 / rc ^ 12)"
    unfolding c(1-4) k using assms(2) by (simp_all add: field_simps power_numeral_reduce)
qed

lemma gro_at_cutoff:
  assumes "lj_ready q" "gro_r1sq q = gro_r1 q * gro_r1 q" "0 \<le> gro_r1 q" "gro_r1 q < rc"
  shows "gro_factor (gro_switch rc q) (rc * rc) = 0"
    and "pt_par p = gro_switch rc q \<Longrightarrow> gro_E p (rc * rc) = 0"
proof -
  obtain a6 b6 a12 b12 c6 c12 where k: "gro_coeffs rc (gro_r1 q) = (a6, b6, a12, b12, c6, c12)" by (rule prod_cases6)
  have rc: "0 < rc" "gro_r1 q \<noteq> rc" using assms by auto
  note co = gro_coeffs_at [OF k rc]
  let ?t = "rc - gro_r1 q" and ?q = "gro_switch rc q"
  have far: "rc * rc > gro_r1sq ?q" using assms by (simp add: gro_switch_def k mult_strict_mono')
  have q: "lj_ff1 ?q = lj_ff1 q" "lj_ff2 ?q = lj_ff2 q" "gro_r1 ?q = gro_r1 q" "lj_energy ?q = lj_energy q"
    "gro_sw1 ?q = lj_ff1 q * a12 - lj_ff2 q * a6" "gro_sw2 ?q = lj_ff1 q * b12 - lj_ff2 q * b6"
    by (simp_all add: gro_switch_def k fun_eq_iff lj_energy_def)
  have f: "1 / (rc * rc) * (1 / (rc * rc)) * (1 / (rc * rc)) = 1 / rc ^ 6" by (simp add: power_numeral_reduce)
  have r: "sqrt (rc * rc) = rc" using rc(1) by simp
  have "gro_factor ?q (rc * rc) = 1 / rc ^ 6 * (lj_ff1 q * (1 / rc ^ 6) - lj_ff2 q) + rc * ?t * ?t * (gro_sw1 ?q + gro_sw2 ?q * ?t)"
    using far unfolding gro_factor_def Let_def f r q(1-3) by simp
  also have "\<dots> = lj_ff1 q * (1 / rc ^ 12 + rc * (a12 * ?t\<^sup>2 + b12 * ?t ^ 3)) - lj_ff2 q * (1 / rc ^ 6 + rc * (a6 * ?t\<^sup>2 + b6 * ?t ^ 3))"
    unfolding q(5,6) by (simp add: algebra_simps power2_eq_square power3_eq_cube flip: power_add)
  finally show "gro_factor ?q (rc * rc) = 0" unfolding co(1,2) by simp
  assume p: "pt_par p = ?q"
  have l: "lj_energy q (rc * rc) = lj_ef1 q * (1 / rc ^ 12) - lj_ef2 q * (1 / rc ^ 6)"
    using assms(1) by (simp add: lj_energy_eq lj_ready_iff power_mult_distrib power2_eq_square algebra_simps flip: power_add)
  have "gro_E p (rc * rc) = lj_energy q (rc * rc) + (?t * ?t * ?t * (gro_sw3 ?q + gro_sw4 ?q * ?t) + gro_sw5 ?q)"
    using far unfolding gro_E_def Let_def p r q(3,4) by simp
  also have "\<dots> = lj_ef1 q * (1 / rc ^ 12 - ?t ^ 3 * (4 * a12 + 3 * b12 * ?t) - c12) - lj_ef2 q * (1 / rc ^ 6 - ?t ^ 3 * (2 * a6 + 3 / 2 * b6 * ?t) - c6)"
    unfolding l by (simp add: gro_switch_def k power3_eq_cube algebra_simps)
  finally show "gro_E p (rc * rc) = 0" unfolding co(3,4) by simp
qed

text \<open>
  The constant \<^verbatim>\<open>ljsw5\<close>, which makes the energy zero at the cutoff, is added beyond \<^verbatim>\<open>r1\<close> only, so that the
  energy jumps there.
\<close>

lemma gro_jump:
  assumes "0 \<le> gro_r1 q" "gro_r1sq q = gro_r1 q * gro_r1 q" "pt_par p = q" "isCont (lj_energy q) (gro_r1sq q)"
    and "isCont (gro_E p) (gro_r1sq q)"
  shows "gro_sw5 q = 0"
proof -
  let ?s = "gro_r1sq q" and ?g = "\<lambda>s. sqrt s - gro_r1 q"
  have "(gro_E p \<longlongrightarrow> gro_E p ?s) (at_right ?s)" "(lj_energy q \<longlongrightarrow> lj_energy q ?s) (at_right ?s)"
    using assms(4,5) unfolding isCont_def by (auto intro: tendsto_mono [OF at_le])
  moreover have "?g ?s = 0" using assms(1,2) by simp
  then have "((\<lambda>s. ?g s ^ 3 * (gro_sw3 q + gro_sw4 q * ?g s)) \<longlongrightarrow> 0 ^ 3 * (gro_sw3 q + gro_sw4 q * 0)) (at_right ?s)"
    by (intro tendsto_intros tendsto_eq_intros) (auto intro!: tendsto_eq_intros)
  ultimately have "((\<lambda>s. gro_E p s - lj_energy q s - ?g s ^ 3 * (gro_sw3 q + gro_sw4 q * ?g s)) \<longlongrightarrow> gro_E p ?s - lj_energy q ?s - 0) (at_right ?s)"
    by (intro tendsto_diff) simp_all
  moreover have "gro_E p ?s = lj_energy q ?s" by (simp add: gro_E_def assms(3) Let_def)
  moreover have "eventually (\<lambda>s. gro_E p s - lj_energy q s - ?g s ^ 3 * (gro_sw3 q + gro_sw4 q * ?g s) = gro_sw5 q) (at_right ?s)"
    by (simp add: eventually_at_filter gro_E_def assms(3) Let_def power3_eq_cube)
  ultimately have "((\<lambda>s. gro_sw5 q) \<longlongrightarrow> 0) (at_right ?s)" using tendsto_cong by fastforce
  then show ?thesis by (simp add: tendsto_const_iff)
qed

end
