(* ===== verification/LennardJonesCapped.thy ===== *)
theory LennardJonesCapped
  imports LennardJonesFamily
begin

text \<open>
  \<^verbatim>\<open>LennardJonesCapped.hpp\<close>, \<^verbatim>\<open>LennardJonesEnergyCapped.hpp\<close>, \<^verbatim>\<open>LennardJonesForceCapped.hpp\<close> and \<^verbatim>\<open>LJcos.hpp\<close> of
  \<^verbatim>\<open>src/src/interaction\<close>.  What a constructor leaves uninitialised is an argument \<^term>\<open>u\<close>.
\<close>

section \<open>LennardJonesCapped\<close>

record ljc = lj +
  lc_caprad :: real

definition lc_E :: "ljc raw_energy" where
  "lc_E p distSqr =
     (let capradSqr = lc_caprad (pt_par p) * lc_caprad (pt_par p)
      in if distSqr > capradSqr then lj_energy (pt_par p) distSqr else lj_energy (pt_par p) capradSqr)"

definition lc_factor :: "ljc \<Rightarrow> real \<Rightarrow> real" where
  "lc_factor q distSqr =
     (let capradSqr = lc_caprad q * lc_caprad q
      in if distSqr > capradSqr then lj_factor q distSqr
         else (let frac2 = lj_sigma q / lc_caprad q * (lj_sigma q / lc_caprad q);
                   frac6 = frac2 * frac2 * frac2
               in 48 * lj_epsilon q * frac6 * (frac6 - 1 / 2) / (lc_caprad q * sqrt distSqr)))"

definition lc_F :: "ljc raw_force" where
  "lc_F p d distSqr = Some (real3d_scale d (lc_factor (pt_par p) distSqr))"

definition lc_par :: "real \<Rightarrow> real \<Rightarrow> real \<Rightarrow> ljc" where
  "lc_par epsilon sigma caprad = \<lparr>lj_epsilon = epsilon, lj_sigma = sigma, lj_ff1 = 0, lj_ff2 = 0, lj_ef1 = 0, lj_ef2 = 0, lc_caprad = caprad\<rparr>"

text \<open>The default constructor does not set \<^verbatim>\<open>caprad\<close>.\<close>

definition LennardJonesCapped_new :: "real \<Rightarrow> ljc pot" where
  "LennardJonesCapped_new u = upd_par lj_preset (setCutoff lc_E None (setShift 0 (PotentialTemplate_new (lc_par 0 0 u))))"

definition LennardJonesCapped_new_shift :: "real \<Rightarrow> real \<Rightarrow> cutoff \<Rightarrow> real \<Rightarrow> real \<Rightarrow> ljc pot" where
  "LennardJonesCapped_new_shift epsilon sigma rc caprad shift =
     upd_par lj_preset (setCutoff lc_E rc (setShift shift (PotentialTemplate_new (lc_par epsilon sigma caprad))))"

definition LennardJonesCapped_new_auto :: "real \<Rightarrow> real \<Rightarrow> cutoff \<Rightarrow> real \<Rightarrow> ljc pot" where
  "LennardJonesCapped_new_auto epsilon sigma rc caprad =
     setAutoShift lc_E (upd_par lj_preset (setCutoff lc_E rc ((PotentialTemplate_new (lc_par epsilon sigma caprad))\<lparr>pt_auto := False\<rparr>)))"

definition lc_setEpsilon :: "real \<Rightarrow> ljc pot \<Rightarrow> ljc pot" where
  "lc_setEpsilon epsilon p = upd_par lj_preset (updateAutoShift lc_E (upd_par (\<lambda>q. q\<lparr>lj_epsilon := epsilon\<rparr>) p))"

definition lc_setCaprad :: "real \<Rightarrow> ljc pot \<Rightarrow> ljc pot" where
  "lc_setCaprad caprad p = upd_par lj_preset (updateAutoShift lc_E (upd_par (\<lambda>q. q\<lparr>lc_caprad := caprad\<rparr>) p))"

definition lc_setSigma :: "real \<Rightarrow> ljc pot \<Rightarrow> ljc pot" where
  "lc_setSigma sigma p = upd_par lj_preset (updateAutoShift lc_E (upd_par (\<lambda>q. q\<lparr>lj_sigma := sigma\<rparr>) p))"

text \<open>Only outside of the cap is the force the gradient of the energy, which is constant inside.\<close>

definition lc_smooth :: "ljc pot \<Rightarrow> real \<Rightarrow> bool" where
  "lc_smooth p s \<longleftrightarrow> lj_ready (pt_par p) \<and> s > lc_caprad (pt_par p) * lc_caprad (pt_par p)"

interpretation lennard_jones_capped: central lc_E lc_F "\<lambda>p. lc_factor (pt_par p)" lc_smooth
proof
  fix p :: "ljc pot" and d s
  let ?q = "pt_par p"
  show "lc_F p d s = Some (real3d_scale d (lc_factor ?q s))" by (simp add: lc_F_def)
  assume "lc_smooth p s"
  then have s: "lj_ready ?q" "s > lc_caprad ?q * lc_caprad ?q" by (simp_all add: lc_smooth_def)
  then have pos: "s \<noteq> 0" using zero_le_square [of "lc_caprad ?q"] by linarith
  have ev: "eventually (\<lambda>t. lc_E p t = lj_energy ?q t) (nhds s)"
    using eventually_nhds_in_open [of "{lc_caprad ?q * lc_caprad ?q<..}" s] s(2)
    by (auto elim!: eventually_mono simp: lc_E_def Let_def)
  show "(lc_E p has_real_derivative - lc_factor ?q s / 2) (at s)"
    using DERIV_cong_ev [OF refl ev refl] lj_energy_deriv [OF s(1) pos] s(2) by (simp add: lc_factor_def Let_def)
qed

lemma capped_force_inside:
  assumes "0 < s" "s < lc_caprad (pt_par p) * lc_caprad (pt_par p)"
  shows "(lc_E p has_real_derivative 0) (at s)"
    and "lj_epsilon (pt_par p) \<noteq> 0 \<Longrightarrow> lj_sigma (pt_par p) = lc_caprad (pt_par p) \<Longrightarrow> lc_factor (pt_par p) s \<noteq> 0"
proof -
  have ev: "eventually (\<lambda>t. lc_E p t = lj_energy (pt_par p) (lc_caprad (pt_par p) * lc_caprad (pt_par p))) (nhds s)"
    using eventually_nhds_in_open [of "{..<lc_caprad (pt_par p) * lc_caprad (pt_par p)}" s] assms(2)
    by (auto elim!: eventually_mono simp: lc_E_def Let_def)
  then show "(lc_E p has_real_derivative 0) (at s)" using DERIV_cong_ev [OF refl ev refl] by simp
  assume "lj_epsilon (pt_par p) \<noteq> 0" "lj_sigma (pt_par p) = lc_caprad (pt_par p)"
  then show "lc_factor (pt_par p) s \<noteq> 0" using assms by (auto simp: lc_factor_def Let_def)
qed

section \<open>LennardJonesEnergyCapped\<close>

record ljec = lj +
  ec_caprad :: real
  ec_capradSqr :: real

definition ec_preset :: "ljec \<Rightarrow> ljec" where
  "ec_preset q = (lj_preset q)\<lparr>ec_capradSqr := ec_caprad q * ec_caprad q\<rparr>"

definition ec_E :: "ljec raw_energy" where
  "ec_E p distSqr =
     (if distSqr > ec_capradSqr (pt_par p) then lj_energy (pt_par p) distSqr
      else lj_energy (pt_par p) (ec_capradSqr (pt_par p)))"

definition ec_factor :: "ljec \<Rightarrow> real \<Rightarrow> real" where
  "ec_factor q distSqr = (if distSqr > ec_capradSqr q then lj_factor q distSqr else 0)"

definition ec_F :: "ljec raw_force" where
  "ec_F p d distSqr = Some (real3d_scale d (ec_factor (pt_par p) distSqr))"

definition ec_par :: "real \<Rightarrow> real \<Rightarrow> real \<Rightarrow> real \<Rightarrow> ljec" where
  "ec_par epsilon sigma caprad u =
     \<lparr>lj_epsilon = epsilon, lj_sigma = sigma, lj_ff1 = 0, lj_ff2 = 0, lj_ef1 = 0, lj_ef2 = 0, ec_caprad = caprad, ec_capradSqr = u\<rparr>"

definition LennardJonesEnergyCapped_new :: "real \<Rightarrow> real \<Rightarrow> ljec pot" where
  "LennardJonesEnergyCapped_new u v = upd_par ec_preset (setCutoff ec_E None (setShift 0 (PotentialTemplate_new (ec_par 0 0 u v))))"

definition LennardJonesEnergyCapped_new_shift :: "real \<Rightarrow> real \<Rightarrow> cutoff \<Rightarrow> real \<Rightarrow> real \<Rightarrow> real \<Rightarrow> ljec pot" where
  "LennardJonesEnergyCapped_new_shift epsilon sigma rc caprad shift u =
     upd_par ec_preset (setCutoff ec_E rc (setShift shift (PotentialTemplate_new (ec_par epsilon sigma caprad u))))"

definition LennardJonesEnergyCapped_new_auto :: "real \<Rightarrow> real \<Rightarrow> cutoff \<Rightarrow> real \<Rightarrow> real \<Rightarrow> ljec pot" where
  "LennardJonesEnergyCapped_new_auto epsilon sigma rc caprad u =
     setAutoShift ec_E (upd_par ec_preset (setCutoff ec_E rc ((PotentialTemplate_new (ec_par epsilon sigma caprad u))\<lparr>pt_auto := False\<rparr>)))"

definition ec_setEpsilon :: "real \<Rightarrow> ljec pot \<Rightarrow> ljec pot" where
  "ec_setEpsilon epsilon p = upd_par ec_preset (updateAutoShift ec_E (upd_par (\<lambda>q. q\<lparr>lj_epsilon := epsilon\<rparr>) p))"

definition ec_setCaprad :: "real \<Rightarrow> ljec pot \<Rightarrow> ljec pot" where
  "ec_setCaprad caprad p = upd_par ec_preset (updateAutoShift ec_E (upd_par (\<lambda>q. q\<lparr>ec_caprad := caprad\<rparr>) p))"

definition ec_setSigma :: "real \<Rightarrow> ljec pot \<Rightarrow> ljec pot" where
  "ec_setSigma sigma p = upd_par ec_preset (updateAutoShift ec_E (upd_par (\<lambda>q. q\<lparr>lj_sigma := sigma\<rparr>) p))"

definition ec_smooth :: "ljec pot \<Rightarrow> real \<Rightarrow> bool" where
  "ec_smooth p s \<longleftrightarrow> lj_ready (pt_par p) \<and> s \<noteq> 0 \<and> s \<noteq> ec_capradSqr (pt_par p)"

interpretation lennard_jones_energy_capped: central ec_E ec_F "\<lambda>p. ec_factor (pt_par p)" ec_smooth
proof
  fix p :: "ljec pot" and d s
  let ?q = "pt_par p"
  show "ec_F p d s = Some (real3d_scale d (ec_factor ?q s))" by (simp add: ec_F_def)
  assume "ec_smooth p s"
  then have s: "lj_ready ?q" "s \<noteq> 0" "s \<noteq> ec_capradSqr ?q" by (simp_all add: ec_smooth_def)
  have ev: "eventually (\<lambda>t. ec_E p t = (if s > ec_capradSqr ?q then lj_energy ?q t else lj_energy ?q (ec_capradSqr ?q))) (nhds s)"
    using eventually_same_side [OF s(3)] by (auto elim!: eventually_mono simp: ec_E_def)
  show "(ec_E p has_real_derivative - ec_factor ?q s / 2) (at s)"
    using DERIV_cong_ev [OF refl ev refl] lj_energy_deriv [OF s(1,2)] by (simp add: ec_factor_def)
qed

text \<open>\<^verbatim>\<open>setCaprad\<close> computes the automatic shift with the old \<^verbatim>\<open>capradSqr\<close>, for \<^verbatim>\<open>preset\<close> comes later.\<close>

lemma ec_stale_shift:
  "let p = ec_setCaprad 2 (LennardJonesEnergyCapped_new_auto 1 1 (Some 1) (1 / 2) 0) in pt_auto p \<and> computeEnergySqr ec_E p 1 \<noteq> 0"
  by (simp add: ec_setCaprad_def LennardJonesEnergyCapped_new_auto_def pot_setters Let_def ec_par_def ec_preset_def
      lj_preset_def ec_E_def lj_energy_def computeEnergySqr_def)

section \<open>LennardJonesForceCapped\<close>

record ljfc = lj +
  fc_max_force :: real

definition fc_E :: "ljfc raw_energy" where
  "fc_E p distSqr = lj_energy (pt_par p) distSqr"

text \<open>
  A \<^verbatim>\<open>max_force\<close> of -1 is no bound.  At distance 0 the force is not a number, nor is what replaces it,
  which divides the distance by its length: \<^term>\<open>None\<close>.
\<close>

definition fc_F :: "ljfc raw_force" where
  "fc_F p d distSqr =
     (let f = real3d_scale d (lj_factor (pt_par p) distSqr);
          max_force = fc_max_force (pt_par p)
      in if max_force = -1 then Some f
         else if distSqr = 0 then None
         else (let abs_force = real3d_abs f
               in Some (if abs_force > max_force then real3d_scale (real3d_divide f abs_force) max_force else f)))"

definition fc_par :: "real \<Rightarrow> real \<Rightarrow> real \<Rightarrow> ljfc" where
  "fc_par epsilon sigma max_force =
     \<lparr>lj_epsilon = epsilon, lj_sigma = sigma, lj_ff1 = 0, lj_ff2 = 0, lj_ef1 = 0, lj_ef2 = 0, fc_max_force = max_force\<rparr>"

definition LennardJonesForceCapped_new :: "ljfc pot" where
  "LennardJonesForceCapped_new = upd_par lj_preset (setCutoff fc_E None (setShift 0 (PotentialTemplate_new (fc_par 0 0 (-1)))))"

definition LennardJonesForceCapped_new_shift :: "real \<Rightarrow> real \<Rightarrow> cutoff \<Rightarrow> real \<Rightarrow> real \<Rightarrow> ljfc pot" where
  "LennardJonesForceCapped_new_shift epsilon sigma rc max_force shift =
     upd_par lj_preset (setCutoff fc_E rc (setShift shift (PotentialTemplate_new (fc_par epsilon sigma max_force))))"

definition LennardJonesForceCapped_new_auto :: "real \<Rightarrow> real \<Rightarrow> cutoff \<Rightarrow> real \<Rightarrow> ljfc pot" where
  "LennardJonesForceCapped_new_auto epsilon sigma rc max_force =
     setAutoShift fc_E (upd_par lj_preset (setCutoff fc_E rc ((PotentialTemplate_new (fc_par epsilon sigma max_force))\<lparr>pt_auto := False\<rparr>)))"

definition fc_setEpsilon :: "real \<Rightarrow> ljfc pot \<Rightarrow> ljfc pot" where
  "fc_setEpsilon epsilon p = upd_par lj_preset (updateAutoShift fc_E (upd_par (\<lambda>q. q\<lparr>lj_epsilon := epsilon\<rparr>) p))"

definition fc_setMaxforce :: "real \<Rightarrow> ljfc pot \<Rightarrow> ljfc pot" where
  "fc_setMaxforce max_force p = upd_par (\<lambda>q. q\<lparr>fc_max_force := max_force\<rparr>) p"

definition fc_setSigma :: "real \<Rightarrow> ljfc pot \<Rightarrow> ljfc pot" where
  "fc_setSigma sigma p = upd_par lj_preset (updateAutoShift fc_E (upd_par (\<lambda>q. q\<lparr>lj_sigma := sigma\<rparr>) p))"

lemma real3d_abs_scale: "real3d_abs (real3d_scale v c) = real3d_abs v * \<bar>c\<bar>"
proof -
  have "real3d_sqr (real3d_scale v c) = real3d_sqr v * c\<^sup>2" by (simp add: real3d_sqr_def power2_eq_square algebra_simps)
  then show ?thesis by (simp add: real3d_abs_def real_sqrt_mult)
qed

lemma divide_scale: "real3d_divide v c = real3d_scale v (1 / c)"
  by (simp add: real3d_divide_def real3d_scale_def Let_def)

lemma force_capped_bound:
  assumes "fc_F p d s = Some f" "0 \<le> fc_max_force (pt_par p)"
  shows "real3d_abs f \<le> fc_max_force (pt_par p)" and "\<exists>c. f = real3d_scale d c"
proof -
  show "\<exists>c. f = real3d_scale d c" using assms by (auto simp: fc_F_def Let_def divide_scale split: if_splits)
  show "real3d_abs f \<le> fc_max_force (pt_par p)"
  proof (cases "real3d_abs (real3d_scale d (lj_factor (pt_par p) s)) > fc_max_force (pt_par p)")
    case True
    then have "f = real3d_scale (real3d_scale d (lj_factor (pt_par p) s)) (1 / real3d_abs (real3d_scale d (lj_factor (pt_par p) s)) * fc_max_force (pt_par p))"
      using assms by (auto simp: fc_F_def Let_def divide_scale split: if_splits)
    moreover have "0 \<le> real3d_abs d" by (simp add: real3d_abs_def)
    ultimately show ?thesis using True assms(2) by (simp only: real3d_abs_scale) (simp add: abs_mult)
  qed (use assms in \<open>auto simp: fc_F_def Let_def split: if_splits\<close>)
qed

section \<open>LJcos\<close>

record ljcos =
  lk_phi :: real
  lk_epsilon :: real
  lk_sigma :: real
  lk_sqr_r_min :: real
  lk_alpha :: real
  lk_beta :: real
  lk_one_phi :: real
  lk_half_phi :: real
  lk_alpha_phi :: real
  lk_gamma_phi :: real
  lk_ff1 :: real
  lk_ff2 :: real
  lk_auxCoef :: real

text \<open>The cutoff is finite; \<^verbatim>\<open>r_min\<close>, \<^verbatim>\<open>gamma\<close> and \<^verbatim>\<open>sqr_cutoff\<close> are used in \<^verbatim>\<open>preset\<close> only.\<close>

definition lk_preset :: "real \<Rightarrow> ljcos \<Rightarrow> ljcos" where
  "lk_preset rc q =
     (let sig2 = lk_sigma q * lk_sigma q;
          sig6 = sig2 * sig2 * sig2;
          r_min = 2 powr (1 / 6);
          sqr_r_min = r_min * r_min;
          sqr_cutoff = rc * rc;
          alpha = pi / (sqr_cutoff - sqr_r_min);
          beta = pi - sqr_r_min * alpha;
          gamma = - 1 / 2
      in q\<lparr>lk_sqr_r_min := sqr_r_min, lk_alpha := alpha, lk_beta := beta,
           lk_ff1 := 48 * lk_epsilon q * sig6 * sig6, lk_ff2 := 24 * lk_epsilon q * sig6,
           lk_one_phi := (1 - lk_phi q) * lk_epsilon q, lk_half_phi := 1 / 2 * lk_phi q * lk_epsilon q,
           lk_gamma_phi := gamma * lk_phi q * lk_epsilon q, lk_alpha_phi := alpha * lk_phi q * lk_epsilon q\<rparr>)"

definition lk_E :: "ljcos raw_energy" where
  "lk_E p distSqr =
     (let q = pt_par p
      in if distSqr \<le> lk_sqr_r_min q
         then (let frac2 = lk_sigma q * lk_sigma q * lk_auxCoef q / distSqr;
                   frac6 = frac2 * frac2 * frac2
               in 4 * lk_epsilon q * (frac6 * frac6 - frac6) + lk_one_phi q)
         else lk_half_phi q * cos (lk_alpha q * distSqr + lk_beta q) + lk_gamma_phi q)"

definition lk_factor :: "ljcos \<Rightarrow> real \<Rightarrow> real" where
  "lk_factor q distSqr =
     (if distSqr \<le> lk_sqr_r_min q
      then (let frac2 = lk_auxCoef q / distSqr;
                frac6 = frac2 * frac2 * frac2
            in frac6 * (lk_ff1 q * frac6 - lk_ff2 q) * frac2)
      else lk_alpha_phi q * sin (lk_alpha q * distSqr + lk_beta q))"

definition lk_F :: "ljcos raw_force" where
  "lk_F p d distSqr = Some (real3d_scale d (lk_factor (pt_par p) distSqr))"

definition lk_cutoff :: "ljcos pot \<Rightarrow> real" where
  "lk_cutoff p = (case pt_cutoff p of Some rc \<Rightarrow> rc | None \<Rightarrow> 0)"

definition lk_setEpsilon :: "real \<Rightarrow> ljcos pot \<Rightarrow> ljcos pot" where
  "lk_setEpsilon epsilon p = upd_par (\<lambda>q. q\<lparr>lk_epsilon := epsilon\<rparr>) p"

definition lk_setPhi :: "real \<Rightarrow> ljcos pot \<Rightarrow> ljcos pot" where
  "lk_setPhi phi p = upd_par (\<lambda>q. lk_preset (lk_cutoff p) (q\<lparr>lk_phi := phi\<rparr>)) p"

definition lk_setSigma :: "real \<Rightarrow> ljcos pot \<Rightarrow> ljcos pot" where
  "lk_setSigma sigma p = upd_par (\<lambda>q. lk_preset (lk_cutoff p) (q\<lparr>lk_sigma := sigma\<rparr>)) p"

definition LJcos_start :: "real \<Rightarrow> ljcos \<Rightarrow> ljcos pot" where
  "LJcos_start phi u =
     lk_setSigma 1 (lk_setEpsilon 1 (setCutoff lk_E (Some (3 / 2)) ((setShift 0 (PotentialTemplate_new (u\<lparr>lk_phi := phi\<rparr>)))\<lparr>pt_auto := False\<rparr>)))"

definition LJcos_new :: "ljcos \<Rightarrow> ljcos pot" where
  "LJcos_new u = upd_par (\<lambda>q. (lk_preset (3 / 2) q)\<lparr>lk_auxCoef := 0\<rparr>) (LJcos_start 0 u)"

definition LJcos_new_phi :: "real \<Rightarrow> ljcos \<Rightarrow> ljcos pot" where
  "LJcos_new_phi phi u = upd_par (\<lambda>q. (lk_preset (3 / 2) q)\<lparr>lk_auxCoef := 1\<rparr>) (LJcos_start phi u)"

definition lk_ready :: "ljcos \<Rightarrow> bool" where
  "lk_ready q \<longleftrightarrow> lk_auxCoef q = 1 \<and> lk_ff1 q = 48 * lk_epsilon q * lk_sigma q ^ 12 \<and> lk_ff2 q = 24 * lk_epsilon q * lk_sigma q ^ 6
     \<and> lk_half_phi q = 1 / 2 * lk_phi q * lk_epsilon q \<and> lk_alpha_phi q = lk_alpha q * lk_phi q * lk_epsilon q"

lemma lk_preset_ready: "lk_auxCoef q = 1 \<Longrightarrow> lk_ready (lk_preset rc q)"
proof -
  have p: "x * x * (x * x) * (x * x) = x ^ 6" "c * x ^ 6 * x ^ 6 = c * x ^ 12" for x c :: real
    by (simp_all add: power_numeral_reduce)
  show "lk_auxCoef q = 1 \<Longrightarrow> lk_ready (lk_preset rc q)" by (simp add: lk_ready_def lk_preset_def Let_def p)
qed

lemma lk_preset_aux: "(lk_preset rc q)\<lparr>lk_auxCoef := c\<rparr> = lk_preset rc (q\<lparr>lk_auxCoef := c\<rparr>)"
  by (simp add: lk_preset_def Let_def)

lemma LJcos_new_phi_ready: "lk_ready (pt_par (LJcos_new_phi phi u))"
  "lk_auxCoef (pt_par p) = 1 \<Longrightarrow> lk_ready (pt_par (lk_setSigma x p))"
  "lk_auxCoef (pt_par p) = 1 \<Longrightarrow> lk_ready (pt_par (lk_setPhi x p))"
  by (simp_all add: LJcos_new_phi_def lk_setSigma_def lk_setPhi_def lk_preset_aux lk_preset_ready)

definition lk_smooth :: "ljcos pot \<Rightarrow> real \<Rightarrow> bool" where
  "lk_smooth p s \<longleftrightarrow> lk_ready (pt_par p) \<and> s \<noteq> 0 \<and> s \<noteq> lk_sqr_r_min (pt_par p)"

interpretation ljcos: central lk_E lk_F "\<lambda>p. lk_factor (pt_par p)" lk_smooth
proof
  fix p :: "ljcos pot" and d s
  let ?q = "pt_par p"
  show "lk_F p d s = Some (real3d_scale d (lk_factor ?q s))" by (simp add: lk_F_def)
  assume "lk_smooth p s"
  then have s: "s \<noteq> 0" "s \<noteq> lk_sqr_r_min ?q" and r: "lk_ready ?q" by (simp_all add: lk_smooth_def)
  let ?a = "lj_preset (lj_par (lk_epsilon ?q) (lk_sigma ?q))"
  have a: "lj_ready ?a" "lj_ff1 ?a = lk_ff1 ?q" "lj_ff2 ?a = lk_ff2 ?q"
    using r lj_preset_ready [of "lj_par (lk_epsilon ?q) (lk_sigma ?q)"] unfolding lj_ready_iff by (simp_all add: lk_ready_def lj_par_def)
  have e: "lj_energy ?a t = 4 * lk_epsilon ?q * (let frac2 = lk_sigma ?q * lk_sigma ?q / t; frac6 = frac2 * frac2 * frac2 in frac6 * frac6 - frac6)" for t
    by (simp add: lj_energy_def lj_par_def Let_def)
  have ev: "eventually (\<lambda>t. lk_E p t = (if s > lk_sqr_r_min ?q then lk_half_phi ?q * cos (lk_alpha ?q * t + lk_beta ?q) + lk_gamma_phi ?q
      else lj_energy ?a t + lk_one_phi ?q)) (nhds s)"
    using eventually_same_side [OF s(2)] r by (auto elim!: eventually_mono simp: lk_E_def Let_def e lk_ready_def)
  have l: "((\<lambda>t. lj_energy ?a t + lk_one_phi ?q) has_real_derivative - lj_factor ?a s / 2) (at s)"
    using DERIV_add [OF lj_energy_deriv [OF a(1) s(1)] DERIV_const] by simp
  have c: "((\<lambda>t. lk_half_phi ?q * cos (lk_alpha ?q * t + lk_beta ?q) + lk_gamma_phi ?q)
      has_real_derivative - (lk_alpha_phi ?q * sin (lk_alpha ?q * s + lk_beta ?q)) / 2) (at s)"
    using r by (auto intro!: derivative_eq_intros simp: lk_ready_def)
  show "(lk_E p has_real_derivative - lk_factor ?q s / 2) (at s)"
    using DERIV_cong_ev [OF refl ev refl] l c r a(2,3) by (auto simp: lk_factor_def lj_factor_def Let_def lk_ready_def)
qed

text \<open>\<^verbatim>\<open>setEpsilon\<close> calls no \<^verbatim>\<open>preset\<close>: the forces keep the old strength.\<close>

lemma lk_stale_force: "lk_F (lk_setEpsilon e p) d s = lk_F p d s"
  by (simp add: lk_F_def lk_setEpsilon_def lk_factor_def)

end
