(* ===== verification/ChargePotentials.thy ===== *)
theory ChargePotentials
  imports Potential
begin

text \<open>
  The potentials between charges: \<^verbatim>\<open>src/src/interaction/CoulombTruncated.hpp\<close> and
  \<^verbatim>\<open>ReactionFieldGeneralized.hpp\<close>.  They define \<^verbatim>\<open>_computeEnergy\<close> and \<^verbatim>\<open>_computeForce\<close> on two particles
  themselves, instead of the raw functions of the base class.
\<close>

section \<open>A charge seen from a charge\<close>

text \<open>For fixed charges both are the potential of strength \<open>c\<close> with the quadratic part \<open>B\<close> and the constant \<open>k\<close>.\<close>

definition field_E :: "(real \<times> real \<times> real) raw_energy" where
  "field_E p s = (case pt_par p of (c, B, k) \<Rightarrow> c * (1 / sqrt s - B / 2 * s - k))"

definition field_factor :: "(real \<times> real \<times> real) pot \<Rightarrow> real \<Rightarrow> real" where
  "field_factor p s = (case pt_par p of (c, B, k) \<Rightarrow> c * (1 / (sqrt s * s) + B))"

definition field_F :: "(real \<times> real \<times> real) raw_force" where
  "field_F p d s = Some (real3d_scale d (field_factor p s))"

interpretation field: central field_E field_F field_factor "\<lambda>_ s. 0 < s"
proof
  fix p :: "(real \<times> real \<times> real) pot" and d s
  show "field_F p d s = Some (real3d_scale d (field_factor p s))" by (simp add: field_F_def)
  assume s: "0 < s"
  obtain c B k where p: "pt_par p = (c, B, k)" by (rule prod_cases3)
  have i: "((\<lambda>s. 1 / sqrt s) has_real_derivative - (1 / (sqrt s * s) / 2)) (at s)"
    by (rule inverse_sqrt_deriv [OF s])
  have "((\<lambda>s. 1 / sqrt s - B / 2 * s - k) has_real_derivative - ((1 / (sqrt s * s) + B) / 2)) (at s)"
  proof (rule DERIV_cong [OF DERIV_diff [OF DERIV_diff [OF i DERIV_cmult [OF DERIV_ident, of "B / 2"]] DERIV_const]])
    show "- (1 / (sqrt s * s) / 2) - B / 2 * 1 - 0 = - ((1 / (sqrt s * s) + B) / 2)" by (simp add: add_divide_distrib)
  qed
  from DERIV_cmult [OF this, of c]
  show "(field_E p has_real_derivative - field_factor p s / 2) (at s)" unfolding field_E_def [abs_def] field_factor_def p
    by simp
qed

definition field_pot :: "real \<Rightarrow> real \<Rightarrow> real \<Rightarrow> cutoff \<Rightarrow> (real \<times> real \<times> real) pot" where
  "field_pot c B k cs = \<lparr>pt_par = (c, B, k), pt_cutoff = None, pt_cutoffSqr = cs, pt_shift = 0, pt_auto = False\<rparr>"

section \<open>CoulombTruncated\<close>

definition coulomb_E :: "real raw_energy" where
  "coulomb_E p distSqr = 0"

text \<open>The parameter is \<^verbatim>\<open>prefactor\<close>.  The energy and the force of two particles know no cutoff.\<close>

definition CoulombTruncated_new :: "real pot" where
  "CoulombTruncated_new = (setCutoff coulomb_E None (setShift 0 (PotentialTemplate_new 0)))\<lparr>pt_auto := False\<rparr>"

definition CoulombTruncated_new_cutoff :: "real \<Rightarrow> cutoff \<Rightarrow> real pot" where
  "CoulombTruncated_new_cutoff prefactor rc = setShift 0 (setCutoff coulomb_E rc ((PotentialTemplate_new prefactor)\<lparr>pt_auto := False\<rparr>))"

definition coulomb_setPrefactor :: "real \<Rightarrow> real pot \<Rightarrow> real pot" where
  "coulomb_setPrefactor prefactor p = upd_par (\<lambda>_. prefactor) p"

definition coulomb_energy :: "real pot \<Rightarrow> particle \<Rightarrow> particle \<Rightarrow> real" where
  "coulomb_energy p x y =
     (let d = p_pos x - p_pos y; abs_dist = real3d_abs d
      in pt_par p * pp_q (part_p x) * pp_q (part_p y) / abs_dist)"

definition coulomb_force :: "real pot \<Rightarrow> particle \<Rightarrow> particle \<Rightarrow> real3d option" where
  "coulomb_force p x y =
     (let d = p_pos x - p_pos y; abs_dist = real3d_abs d; sqr_dist = real3d_sqr d
      in Some (real3d_scale d (pt_par p * pp_q (part_p x) * pp_q (part_p y) / (abs_dist * sqr_dist))))"

definition apart_from :: "'q \<Rightarrow> particle \<Rightarrow> particle \<Rightarrow> bool" where
  "apart_from q x y \<longleftrightarrow> p_pos x \<noteq> p_pos y"

lemma sqr_pos: "v \<noteq> w \<Longrightarrow> 0 < real3d_sqr (v - w)"
proof -
  assume "v \<noteq> w"
  then have "vx v \<noteq> vx w \<or> vy v \<noteq> vy w \<or> vz v \<noteq> vz w" by (simp add: vec_eq_iff)
  moreover have "0 \<le> (vx v - vx w) * (vx v - vx w)" "0 \<le> (vy v - vy w) * (vy v - vy w)" "0 \<le> (vz v - vz w) * (vz v - vz w)"
    by simp_all
  moreover have "a \<noteq> b \<Longrightarrow> 0 < (a - b) * (a - b)" for a b :: real by (simp add: zero_less_mult_iff) linarith
  ultimately show ?thesis by (auto simp: real3d_sqr_def add_nonneg_pos add_pos_nonneg)
qed

lemma coulomb_field:
  "coulomb_energy p x y = computeEnergyPP field_E (field_pot (pt_par p * pp_q (part_p x) * pp_q (part_p y)) 0 0 None) x y"
  "coulomb_force p x y = computeForcePP field_F (field_pot (pt_par p * pp_q (part_p x) * pp_q (part_p y)) 0 0 None) x y"
  by (simp_all add: coulomb_energy_def coulomb_force_def computeEnergyPP_def computeEnergyV_def computeEnergySqr_def field_E_def
      computeForcePP_def computeForceV_def field_F_def field_factor_def field_pot_def real3d_abs_def Let_def)

interpretation coulomb: pair_law coulomb_energy coulomb_force apart_from
proof
  fix p :: "real pot" and x y h k
  assume "apart_from p x y"
  then have "away (\<lambda>_ s. 0 < s) (field_pot (pt_par p * pp_q (part_p x) * pp_q (part_p y)) 0 0 None) x y"
    by (simp add: away_def apart_from_def sqr_pos off_cutoff_def field_pot_def)
  from field.pair_gradient [OF this, of h k]
  show "((\<lambda>t. coulomb_energy p (shifted_by x (real3d_scale h t)) (shifted_by y (real3d_scale k t)))
        has_real_derivative - real3d_dot (total (coulomb_force p x y)) (h - k)) (at 0)"
    unfolding coulomb_field by simp
next
  fix p :: "real pot" and x y f
  show "coulomb_force p x y = Some f \<Longrightarrow> \<exists>c. f = real3d_scale (p_pos x - p_pos y) c"
    unfolding coulomb_field by (rule field.pair_along)
qed (simp add: coulomb_force_def)

section \<open>ReactionFieldGeneralized\<close>

record rfg =
  rf_kappa :: real
  rf_epsilon1 :: real
  rf_epsilon2 :: real
  rf_rc :: real
  rf_rc2 :: real
  rf_B1 :: real
  rf_B1_half :: real
  rf_prefactor :: real
  rf_crf :: real

definition rf_initialize :: "rfg \<Rightarrow> rfg" where
  "rf_initialize q =
     (let krc = rf_kappa q * rf_rc q;
          tmp1 = (rf_epsilon1 q - 4 * rf_epsilon2 q) * (1 + krc) - 2 * rf_epsilon2 q * krc * krc;
          tmp2 = (rf_epsilon1 q + 2 * rf_epsilon2 q) * (1 + krc) + rf_epsilon2 q * krc * krc;
          rc3 = rf_rc q ^ 3;
          rc2 = (rf_rc q)\<^sup>2;
          B1 = tmp1 / tmp2;
          B1 = (1 + B1) / rc3
      in q\<lparr>rf_rc2 := rc2, rf_B1 := B1, rf_B1_half := B1 / 2,
           rf_crf := 3 * rf_epsilon2 q / (rf_rc q * (2 * rf_epsilon2 q + 1)),
           rf_prefactor := rf_prefactor q / rf_epsilon1 q\<rparr>)"

definition rf_par :: "real \<Rightarrow> real \<Rightarrow> real \<Rightarrow> real \<Rightarrow> real \<Rightarrow> rfg" where
  "rf_par prefactor kappa eps1 eps2 rc =
     \<lparr>rf_kappa = kappa, rf_epsilon1 = eps1, rf_epsilon2 = eps2, rf_rc = rc, rf_rc2 = 0, rf_B1 = 0, rf_B1_half = 0,
      rf_prefactor = prefactor, rf_crf = 0\<rparr>"

definition rf_setCutoff :: "cutoff \<Rightarrow> rfg pot \<Rightarrow> rfg pot" where
  "rf_setCutoff rc p = p\<lparr>pt_cutoff := rc, pt_cutoffSqr := cut_sqr rc\<rparr>"

definition ReactionFieldGeneralized_new :: "rfg pot" where
  "ReactionFieldGeneralized_new = upd_par rf_initialize (rf_setCutoff None (setShift 0 (PotentialTemplate_new (rf_par 0 0 1 80 1))))"

definition ReactionFieldGeneralized_new_shift :: "real \<Rightarrow> real \<Rightarrow> real \<Rightarrow> real \<Rightarrow> real \<Rightarrow> real \<Rightarrow> rfg pot" where
  "ReactionFieldGeneralized_new_shift prefactor kappa eps1 eps2 rc shift =
     upd_par rf_initialize (rf_setCutoff (Some rc) (setShift shift (PotentialTemplate_new (rf_par prefactor kappa eps1 eps2 rc))))"

definition ReactionFieldGeneralized_new_cutoff :: "real \<Rightarrow> real \<Rightarrow> real \<Rightarrow> real \<Rightarrow> real \<Rightarrow> rfg pot" where
  "ReactionFieldGeneralized_new_cutoff prefactor kappa eps1 eps2 rc =
     upd_par rf_initialize (rf_setCutoff (Some rc) ((PotentialTemplate_new (rf_par prefactor kappa eps1 eps2 rc))\<lparr>pt_auto := False\<rparr>))"

definition rf_setPrefactor :: "real \<Rightarrow> rfg pot \<Rightarrow> rfg pot" where
  "rf_setPrefactor prefactor p = upd_par (\<lambda>q. q\<lparr>rf_prefactor := prefactor\<rparr>) p"

definition rf_energy :: "rfg pot \<Rightarrow> particle \<Rightarrow> particle \<Rightarrow> real" where
  "rf_energy p x y =
     (let q = pt_par p; distSqr = real3d_sqr (p_pos x - p_pos y)
      in if distSqr > rf_rc2 q then 0
         else (let qq = pp_q (part_p x) * pp_q (part_p y)
               in rf_prefactor q * qq * (1 / sqrt distSqr - rf_B1_half q * distSqr - rf_crf q)))"

text \<open>Beyond the cutoff the function returns \<^verbatim>\<open>true\<close> and leaves the force \<^term>\<open>f0\<close> of the caller as it was.\<close>

definition rf_computeForce :: "real3d \<Rightarrow> rfg pot \<Rightarrow> particle \<Rightarrow> particle \<Rightarrow> real3d option" where
  "rf_computeForce f0 p x y =
     (let q = pt_par p; d = p_pos x - p_pos y; r2 = real3d_sqr d
      in if r2 > rf_rc2 q then Some f0
         else (let r = sqrt r2; qq = pp_q (part_p x) * pp_q (part_p y);
                   ffactor = rf_prefactor q * qq * (1 / (r * r2) + rf_B1 q)
               in Some (real3d_scale d ffactor)))"

definition rf_smooth :: "rfg pot \<Rightarrow> particle \<Rightarrow> particle \<Rightarrow> bool" where
  "rf_smooth p x y \<longleftrightarrow> p_pos x \<noteq> p_pos y \<and> real3d_sqr (p_pos x - p_pos y) \<noteq> rf_rc2 (pt_par p)
     \<and> rf_B1_half (pt_par p) = rf_B1 (pt_par p) / 2"

definition rf_field :: "rfg \<Rightarrow> particle \<Rightarrow> particle \<Rightarrow> (real \<times> real \<times> real) pot" where
  "rf_field q x y = field_pot (rf_prefactor q * (pp_q (part_p x) * pp_q (part_p y))) (rf_B1 q) (rf_crf q) (Some (rf_rc2 q))"

lemma rf_field:
  "rf_B1_half (pt_par p) = rf_B1 (pt_par p) / 2 \<Longrightarrow> rf_energy p x y = computeEnergyPP field_E (rf_field (pt_par p) x y) x y"
  "total (rf_computeForce 0 p x y) = total (computeForcePP field_F (rf_field (pt_par p) x y) x y)"
  by (simp_all add: rf_energy_def rf_computeForce_def rf_field_def computeEnergyPP_def computeEnergyV_def computeEnergySqr_def
      field_E_def computeForcePP_def computeForceV_def field_F_def field_factor_def field_pot_def Let_def)

interpretation reaction_field: pair_law rf_energy "rf_computeForce 0" rf_smooth
proof
  fix p :: "rfg pot" and x y h k
  assume s: "rf_smooth p x y"
  then have "away (\<lambda>_ s. 0 < s) (rf_field (pt_par p) x y) x y" and b: "rf_B1_half (pt_par p) = rf_B1 (pt_par p) / 2"
    by (auto simp: away_def rf_smooth_def sqr_pos off_cutoff_def field_pot_def rf_field_def)
  from field.pair_gradient [OF this(1), of h k]
  show "((\<lambda>t. rf_energy p (shifted_by x (real3d_scale h t)) (shifted_by y (real3d_scale k t)))
        has_real_derivative - real3d_dot (total (rf_computeForce 0 p x y)) (h - k)) (at 0)"
    unfolding rf_field(1) [OF b] rf_field(2) by (simp add: rf_field_def)
next
  fix p :: "rfg pot" and x y f
  assume "rf_computeForce 0 p x y = Some f"
  moreover have "0 = real3d_scale v 0" for v by (simp add: vec_eq_iff)
  ultimately show "\<exists>c. f = real3d_scale (p_pos x - p_pos y) c"
    by (auto simp: rf_computeForce_def Let_def split: if_splits)
qed (simp add: rf_computeForce_def Let_def)

text \<open>
  The constant \<^verbatim>\<open>crf\<close> makes the energy zero at the cutoff for \<^verbatim>\<open>epsilon1\<close> = 1 without screening, but not in
  general.
\<close>

lemma rf_zero_at_cutoff:
  assumes "rf_epsilon1 q = 1" "rf_kappa q = 0" "0 < rf_rc q" "0 < rf_epsilon2 q" "pt_par p = rf_initialize q"
    and "real3d_sqr (p_pos x - p_pos y) = (rf_rc q)\<^sup>2"
  shows "rf_energy p x y = 0"
proof -
  let ?e = "rf_epsilon2 q" and ?r = "rf_rc q"
  have "1 / ?r - ((1 + (1 - 4 * ?e) / (1 + 2 * ?e)) / ?r ^ 3) / 2 * ?r\<^sup>2 - 3 * ?e / (?r * (2 * ?e + 1)) = 0"
    using assms(3,4) by (simp add: field_simps power2_eq_square power3_eq_cube add_pos_pos less_imp_neq [symmetric])
  then show ?thesis using assms by (simp add: rf_energy_def rf_initialize_def Let_def add.commute)
qed

lemma rf_jump_at_cutoff:
  assumes "pt_par p = rf_initialize (rf_par 1 0 2 1 1)" "pp_q (part_p x) = 1" "pp_q (part_p y) = 1"
    and "real3d_sqr (p_pos x - p_pos y) = 1"
  shows "rf_energy p x y = - 1 / 8"
  using assms by (simp add: rf_energy_def rf_initialize_def rf_par_def Let_def)

end
