(* ===== verification/Interactions.thy ===== *)
theory Interactions
  imports Potential
begin

text \<open>
  What all interactions share: \<^verbatim>\<open>src/src/Tensor.hpp\<close>, the memory of the particles, and forces that are
  added to it.  A memory is a function from pointers to particles.  An interaction adds forces to some
  particles; written down as a list of pairs of a pointer and a force, that list says what the whole
  call does to the memory (\<open>forced\<close>), to the sum of all forces, and what work the added forces do
  when the particles are moved.
\<close>

section \<open>Tensors\<close>

datatype tensor = Tensor (t_xx: real) (t_yy: real) (t_zz: real) (t_xy: real) (t_xz: real) (t_yz: real)

lemma tensor_eq_iff: "s = t \<longleftrightarrow> t_xx s = t_xx t \<and> t_yy s = t_yy t \<and> t_zz s = t_zz t \<and> t_xy s = t_xy t \<and> t_xz s = t_xz t \<and> t_yz s = t_yz t"
  by (cases s; cases t) simp

definition tensor_const :: "real \<Rightarrow> tensor" where
  "tensor_const v = Tensor v v v v v v"

definition tensor_of :: "real3d \<Rightarrow> real3d \<Rightarrow> tensor" where
  "tensor_of v1 v2 = Tensor (vx v1 * vx v2) (vy v1 * vy v2) (vz v1 * vz v2) (vx v1 * vy v2) (vx v1 * vz v2) (vy v1 * vz v2)"

definition tensor_nth :: "tensor \<Rightarrow> nat \<Rightarrow> real" where
  "tensor_nth t i = [t_xx t, t_yy t, t_zz t, t_xy t, t_xz t, t_yz t] ! i"

definition tensor_at :: "tensor \<Rightarrow> int \<Rightarrow> vec_error + real" where
  "tensor_at t i = (if i < 0 \<or> i > 5 then Inl OutOfRange else Inr (tensor_nth t (nat i)))"

definition tensor_setItem :: "int \<Rightarrow> real \<Rightarrow> tensor \<Rightarrow> vec_error + tensor" where
  "tensor_setItem i v t =
     (if i < 0 \<or> i > 5 then Inl OutOfRange
      else Inr (case [t_xx t, t_yy t, t_zz t, t_xy t, t_xz t, t_yz t][nat i := v] of
        [a, b, c, d, e, f] \<Rightarrow> Tensor a b c d e f | _ \<Rightarrow> t))"

definition tensor_map :: "(real \<Rightarrow> real) \<Rightarrow> tensor \<Rightarrow> tensor" where
  "tensor_map g t = Tensor (g (t_xx t)) (g (t_yy t)) (g (t_zz t)) (g (t_xy t)) (g (t_xz t)) (g (t_yz t))"

definition tensor_map2 :: "(real \<Rightarrow> real \<Rightarrow> real) \<Rightarrow> tensor \<Rightarrow> tensor \<Rightarrow> tensor" where
  "tensor_map2 g s t = Tensor (g (t_xx s) (t_xx t)) (g (t_yy s) (t_yy t)) (g (t_zz s) (t_zz t))
     (g (t_xy s) (t_xy t)) (g (t_xz s) (t_xz t)) (g (t_yz s) (t_yz t))"

instantiation tensor :: "{comm_monoid_add, minus}"
begin

definition zero_tensor :: tensor where
  "zero_tensor = tensor_const 0"

definition plus_tensor :: "tensor \<Rightarrow> tensor \<Rightarrow> tensor" where
  "plus_tensor s t = tensor_map2 (+) s t"

definition minus_tensor :: "tensor \<Rightarrow> tensor \<Rightarrow> tensor" where
  "minus_tensor s t = tensor_map2 (-) s t"

instance
  by standard (simp_all add: zero_tensor_def plus_tensor_def tensor_const_def tensor_map2_def tensor_eq_iff)

end

definition tensor_scale :: "tensor \<Rightarrow> real \<Rightarrow> tensor" where
  "tensor_scale t v = tensor_map (\<lambda>a. a * v) t"

definition tensor_divide :: "tensor \<Rightarrow> real \<Rightarrow> tensor" where
  "tensor_divide t v = (let v_1 = 1 / v in tensor_map (\<lambda>a. a * v_1) t)"

definition trace :: "tensor \<Rightarrow> real" where
  "trace t = t_xx t + t_yy t + t_zz t"

lemma trace_add [simp]: "trace 0 = 0" "trace (s + t) = trace s + trace t"
  by (simp_all add: trace_def zero_tensor_def plus_tensor_def tensor_const_def tensor_map2_def)

lemma trace_of [simp]: "trace (tensor_of v w) = real3d_dot v w"
  by (simp add: trace_def tensor_of_def real3d_dot_def)

text \<open>The six components stand for a symmetric matrix when the force is along the distance.\<close>

lemma tensor_of_along: "tensor_of v (real3d_scale v c) = tensor_of (real3d_scale v c) v"
  by (simp add: tensor_of_def)

section \<open>Vectors\<close>

lemma dot_add: "real3d_dot (v + w) u = real3d_dot v u + real3d_dot w u" "real3d_dot u (v + w) = real3d_dot u v + real3d_dot u w"
  by (simp_all add: real3d_dot_def algebra_simps)

lemma dot_diff: "real3d_dot (v - w) u = real3d_dot v u - real3d_dot w u" "real3d_dot u (v - w) = real3d_dot u v - real3d_dot u w"
  by (simp_all add: real3d_dot_def algebra_simps)

lemma dot_uminus [simp]: "real3d_dot (- v) u = - real3d_dot v u" "real3d_dot u (- v) = - real3d_dot u v"
  by (simp_all add: real3d_dot_def uminus_vec3_def)

section \<open>Forces added to the particles of a memory\<close>

type_synonym 'p memory = "'p \<Rightarrow> particle"

definition force_at :: "'p memory \<Rightarrow> 'p \<Rightarrow> real3d" where
  "force_at h p = pf_f (part_f (h p))"

definition add_force :: "'p \<Rightarrow> real3d \<Rightarrow> 'p memory \<Rightarrow> 'p memory" where
  "add_force p f h = h(p := (h p)\<lparr>part_f := (part_f (h p))\<lparr>pf_f := pf_f (part_f (h p)) + f\<rparr>\<rparr>)"

definition sub_force :: "'p \<Rightarrow> real3d \<Rightarrow> 'p memory \<Rightarrow> 'p memory" where
  "sub_force p f h = h(p := (h p)\<lparr>part_f := (part_f (h p))\<lparr>pf_f := pf_f (part_f (h p)) - f\<rparr>\<rparr>)"

definition forced :: "('p \<times> real3d) list \<Rightarrow> 'p memory \<Rightarrow> 'p memory" where
  "forced cs h = fold (\<lambda>(p, f). add_force p f) cs h"

definition net :: "('p \<times> real3d) list \<Rightarrow> 'p \<Rightarrow> real3d" where
  "net cs a = (\<Sum>(p, f)\<leftarrow>cs. if p = a then f else 0)"

lemma sub_force_add: "sub_force p f = add_force p (- f)"
  by (simp add: sub_force_def add_force_def fun_eq_iff)

lemma forced_simps [simp]: "forced [] h = h" "forced ((p, f) # cs) h = forced cs (add_force p f h)" "forced (cs @ ds) h = forced ds (forced cs h)"
  by (simp_all add: forced_def)

lemma net_simps [simp]: "net [] a = 0" "net ((p, f) # cs) a = (if p = a then f else 0) + net cs a" "net (cs @ ds) a = net cs a + net ds a"
  by (simp_all add: net_def)

lemma forced_at: "forced cs h a = (h a)\<lparr>part_f := (part_f (h a))\<lparr>pf_f := force_at h a + net cs a\<rparr>\<rparr>"
proof (induction cs arbitrary: h)
  case (Cons c cs)
  then show ?case by (cases c) (simp add: add_force_def force_at_def add.assoc)
qed (simp add: force_at_def)

lemma force_at_forced: "force_at (forced cs h) a = force_at h a + net cs a"
  by (simp add: forced_at force_at_def [of "forced cs h"])

lemma forced_sel [simp]: "part_p (forced cs h a) = part_p (h a)" "part_r (forced cs h a) = part_r (h a)"
    "part_m (forced cs h a) = part_m (h a)" "part_l (forced cs h a) = part_l (h a)"
  by (simp_all add: forced_at)

lemma add_force_sel [simp]: "part_p (add_force p f h a) = part_p (h a)" "part_r (add_force p f h a) = part_r (h a)"
  by (simp_all add: add_force_def)

text \<open>The work of the added forces along a displacement, and their sum, over any set that holds the particles.\<close>

lemma dot_sum_if: "finite A \<Longrightarrow> p \<in> A \<Longrightarrow> (\<Sum>a\<in>A. real3d_dot (if p = a then f else 0) (u a)) = real3d_dot f (u p)"
proof -
  assume A: "finite A" "p \<in> A"
  have "(\<Sum>a\<in>A. real3d_dot (if p = a then f else 0) (u a)) = (\<Sum>a\<in>A. if p = a then real3d_dot f (u a) else 0)"
    by (rule sum.cong) simp_all
  also have "\<dots> = real3d_dot f (u p)" using A by simp
  finally show ?thesis .
qed

lemma net_work:
  assumes "finite A" "fst ` set cs \<subseteq> A"
  shows "(\<Sum>a\<in>A. real3d_dot (net cs a) (u a)) = (\<Sum>(p, f)\<leftarrow>cs. real3d_dot f (u p))"
  using assms(2)
proof (induction cs)
  case (Cons c cs)
  obtain p f where c: "c = (p, f)" by (rule prod.exhaust)
  have "(\<Sum>a\<in>A. real3d_dot (net (c # cs) a) (u a))
      = (\<Sum>a\<in>A. real3d_dot (if p = a then f else 0) (u a)) + (\<Sum>a\<in>A. real3d_dot (net cs a) (u a))"
    by (simp only: c net_simps dot_add sum.distrib)
  then show ?case using Cons assms(1) by (simp add: c dot_sum_if)
qed simp

lemma net_sum:
  assumes "finite A" "fst ` set cs \<subseteq> A"
  shows "(\<Sum>a\<in>A. net cs a) = (\<Sum>(p, f)\<leftarrow>cs. f)"
  using assms(2)
proof (induction cs)
  case (Cons c cs)
  then show ?case using assms(1) by (cases c) (simp add: sum.distrib)
qed simp

text \<open>Every particle moved along its own direction.\<close>

definition moved :: "('p \<Rightarrow> real3d) \<Rightarrow> real \<Rightarrow> 'p memory \<Rightarrow> 'p memory" where
  "moved u t h = (\<lambda>a. shifted_by (h a) (real3d_scale (u a) t))"

lemma moved_0 [simp]: "moved u 0 h = h"
proof -
  have "real3d_scale v 0 = 0" for v by (simp add: vec_eq_iff)
  then show ?thesis by (simp add: moved_def)
qed

lemma moved_sel [simp]: "part_p (moved u t h a) = part_p (h a)" "p_pos (moved u t h a) = p_pos (h a) + real3d_scale (u a) t"
  by (simp_all add: moved_def)

lemma has_derivative_sum_list:
  assumes "\<And>x. x \<in> set xs \<Longrightarrow> (f x has_real_derivative g x) (at a)"
  shows "((\<lambda>t. \<Sum>x\<leftarrow>xs. f x t) has_real_derivative (\<Sum>x\<leftarrow>xs. g x)) (at a)"
  using assms by (induction xs) (auto intro!: DERIV_add)

section \<open>Loops that may fail\<close>

fun ofold :: "('x \<Rightarrow> 's \<Rightarrow> 's option) \<Rightarrow> 'x list \<Rightarrow> 's \<Rightarrow> 's option" where
  "ofold f [] s = Some s"
| "ofold f (x # xs) s = (case f x s of None \<Rightarrow> None | Some s \<Rightarrow> ofold f xs s)"

lemma ofold_filter: "ofold (\<lambda>x s. if c x then f x s else Some s) xs s = ofold f (filter c xs) s"
  by (induction xs arbitrary: s) (auto split: option.splits)

text \<open>A loop whose rounds add forces that depend on the positions only adds them all.\<close>

lemma fold_forced:
  assumes "\<And>t h. step t h = forced (c h t) h" "\<And>cs h t. c (forced cs h) t = c h t"
  shows "fold step ts h = forced (concat (map (c h) ts)) h"
proof (induction ts arbitrary: h)
  case (Cons t ts)
  have "c (forced (c h t) h) = c h" by (rule ext) (rule assms(2))
  then show ?case using Cons [of "forced (c h t) h"] by (simp only: fold_simps assms(1) [of t h] list.map concat.simps forced_simps)
qed simp

text \<open>\<^verbatim>\<open>boost::mpi::all_reduce\<close> with \<^verbatim>\<open>std::plus\<close>: the sum over the processes.\<close>

definition all_reduce_plus :: "'a::comm_monoid_add list \<Rightarrow> 'a" where
  "all_reduce_plus xs = sum_list xs"

end
