(* ===== verification/Arrays.thy ===== *)
theory Arrays
  imports Esp_Prelude
begin

text \<open>
  \<^verbatim>\<open>src/src/esutil/Array2D.hpp\<close>: a matrix in one \<^verbatim>\<open>std::vector\<close>, the element \<open>(i, j)\<close> at \<open>i + j * n\<close>, and its
  variant that grows when an element beyond its size is asked for.  Sizes are natural numbers.
  An access without range check that misses the vector is not defined by C++, and not by the model.
\<close>

record 'a array2d =
  ar_n :: nat
  ar_m :: nat
  ar_data :: "'a list"

text \<open>\<^verbatim>\<open>std::vector::resize\<close>.\<close>

definition vector_resize :: "nat \<Rightarrow> 'a \<Rightarrow> 'a list \<Rightarrow> 'a list" where
  "vector_resize k t xs = take k xs @ replicate (k - length xs) t"

definition ar_clear :: "'a array2d" where
  "ar_clear = \<lparr>ar_n = 0, ar_m = 0, ar_data = []\<rparr>"

definition ar_resize :: "nat \<Rightarrow> nat \<Rightarrow> 'a \<Rightarrow> 'a array2d \<Rightarrow> 'a array2d" where
  "ar_resize n m t a = a\<lparr>ar_n := n, ar_m := m, ar_data := vector_resize (n * m) t (ar_data a)\<rparr>"

definition ar_init :: "nat \<Rightarrow> nat \<Rightarrow> 'a \<Rightarrow> 'a array2d" where
  "ar_init n m t = ar_resize n m t ar_clear"

definition ar_empty :: "'a array2d \<Rightarrow> bool" where
  "ar_empty a \<longleftrightarrow> ar_n a = 0 \<and> ar_m a = 0"

definition ar_get :: "'a array2d \<Rightarrow> nat \<times> nat \<Rightarrow> 'a" where
  "ar_get a p = (case p of (i, j) \<Rightarrow> ar_data a ! (i + j * ar_n a))"

definition ar_set :: "nat \<times> nat \<Rightarrow> 'a \<Rightarrow> 'a array2d \<Rightarrow> 'a array2d" where
  "ar_set p v a = (case p of (i, j) \<Rightarrow> a\<lparr>ar_data := (ar_data a)[i + j * ar_n a := v]\<rparr>)"

datatype array_error = IndexI | IndexJ

definition ar_at :: "'a array2d \<Rightarrow> nat \<Rightarrow> nat \<Rightarrow> array_error + 'a" where
  "ar_at a i j =
     (if i \<ge> ar_n a then Inl IndexI
      else if j \<ge> ar_m a then Inl IndexJ
      else Inr (ar_get a (i, j)))"

definition ar_map :: "('a \<Rightarrow> 'a) \<Rightarrow> 'a array2d \<Rightarrow> 'a array2d" where
  "ar_map f a = a\<lparr>ar_data := map f (ar_data a)\<rparr>"

definition ar_assign :: "'a \<Rightarrow> 'a array2d \<Rightarrow> 'a array2d" where
  "ar_assign t = ar_map (\<lambda>_. t)"

definition ar_equal :: "'a array2d \<Rightarrow> 'a array2d \<Rightarrow> bool" where
  "ar_equal a b \<longleftrightarrow> ar_data a = ar_data b"

section \<open>Arrays that grow\<close>

record 'a growing = "'a array2d" +
  ar_prototype :: 'a

definition gr_init :: "nat \<Rightarrow> nat \<Rightarrow> 'a \<Rightarrow> 'a growing" where
  "gr_init n m t = array2d.extend (ar_init n m t) \<lparr>ar_prototype = t\<rparr>"

definition gr_super :: "'a growing \<Rightarrow> 'a array2d" where
  "gr_super g = array2d.truncate g"

text \<open>The three loops of \<^verbatim>\<open>at\<close>: a loop over two indices assigns to each element.\<close>

definition ar_fill :: "nat list \<Rightarrow> nat list \<Rightarrow> (nat \<times> nat \<Rightarrow> 'a) \<Rightarrow> 'a array2d \<Rightarrow> 'a array2d" where
  "ar_fill ks ls v a = fold (\<lambda>p. ar_set p (v p)) (List.product ks ls) a"

definition gr_grow :: "nat \<Rightarrow> nat \<Rightarrow> 'a \<Rightarrow> 'a array2d \<Rightarrow> 'a array2d" where
  "gr_grow i j t old =
     (let new_n = ar_n old; new_m = ar_m old;
          new_n = (if i \<ge> new_n then i + 1 else new_n);
          new_m = (if j \<ge> new_m then j + 1 else new_m);
          a = ar_init new_n new_m t;
          a = ar_fill [0..<ar_n old] [0..<ar_m old] (ar_get old) a;
          a = ar_fill [ar_n old..<new_n] [0..<new_m] (\<lambda>_. t) a
      in ar_fill [0..<ar_n old] [ar_m old..<new_m] (\<lambda>_. t) a)"

text \<open>The reference that \<^verbatim>\<open>at\<close> returns is read with \<^verbatim>\<open>ar_get\<close> or written with \<^verbatim>\<open>ar_set\<close> in the new array.\<close>

definition gr_enlarged :: "nat \<Rightarrow> nat \<Rightarrow> 'a growing \<Rightarrow> 'a growing" where
  "gr_enlarged i j g =
     (if i \<ge> ar_n g \<or> j \<ge> ar_m g
      then array2d.extend (gr_grow i j (ar_prototype g) (gr_super g)) \<lparr>ar_prototype = ar_prototype g\<rparr>
      else g)"

definition gr_at :: "nat \<Rightarrow> nat \<Rightarrow> 'a growing \<Rightarrow> 'a growing \<times> (array_error + 'a)" where
  "gr_at i j g = (let g = gr_enlarged i j g in (g, ar_at (gr_super g) i j))"

definition gr_put :: "nat \<Rightarrow> nat \<Rightarrow> 'a \<Rightarrow> 'a growing \<Rightarrow> 'a growing" where
  "gr_put i j v g =
     (let g = gr_enlarged i j g
      in array2d.extend (ar_set (i, j) v (gr_super g)) \<lparr>ar_prototype = ar_prototype g\<rparr>)"

section \<open>Positions in the vector\<close>

definition ar_ok :: "('a, 'b) array2d_scheme \<Rightarrow> bool" where
  "ar_ok a \<longleftrightarrow> length (ar_data a) = ar_n a * ar_m a"

definition ar_inside :: "('a, 'b) array2d_scheme \<Rightarrow> nat \<times> nat \<Rightarrow> bool" where
  "ar_inside a p \<longleftrightarrow> fst p < ar_n a \<and> snd p < ar_m a"

lemma position_inj:
  assumes "i < n" "k < n"
  shows "i + j * n = k + l * n \<longleftrightarrow> i = k \<and> j = (l::nat)"
proof
  assume e: "i + j * n = k + l * n"
  have "(i + j * n) mod n = i" "(k + l * n) mod n = k" "(i + j * n) div n = j" "(k + l * n) div n = l"
    using assms by simp_all
  with e show "i = k \<and> j = l" by metis
qed simp

lemma position_bound:
  assumes "i < n" "j < m"
  shows "i + j * n < n * (m::nat)"
proof -
  have "i + j * n < n + j * n" using assms(1) by simp
  also have "\<dots> = n * Suc j" by simp
  also have "\<dots> \<le> n * m" using assms(2) by (intro mult_le_mono2) simp
  finally show ?thesis .
qed

lemma ar_set_sel [simp]: "ar_n (ar_set p v a) = ar_n a" "ar_m (ar_set p v a) = ar_m a"
    "ar_ok (ar_set p v a) = ar_ok a" "ar_inside (ar_set p v a) = ar_inside a"
  by (auto simp: ar_set_def ar_ok_def ar_inside_def fun_eq_iff split: prod.splits)

lemma ar_get_set:
  assumes "ar_ok a" "ar_inside a p" "ar_inside a q"
  shows "ar_get (ar_set p v a) q = (if p = q then v else ar_get a q)"
proof -
  obtain i j k l where e: "p = (i, j)" "q = (k, l)" by (meson surj_pair)
  have b: "i < ar_n a" "j < ar_m a" "k < ar_n a" using assms(2,3) by (simp_all add: e ar_inside_def)
  have "i + j * ar_n a < length (ar_data a)" using position_bound [OF b(1,2)] assms(1) by (simp add: ar_ok_def)
  then show ?thesis using position_inj [OF b(1,3), of j l] by (auto simp: e ar_get_def ar_set_def nth_list_update)
qed

lemma fold_ar_set_sel [simp]:
  "ar_n (fold (\<lambda>p. ar_set p (v p)) ps a) = ar_n a" "ar_m (fold (\<lambda>p. ar_set p (v p)) ps a) = ar_m a"
  "ar_ok (fold (\<lambda>p. ar_set p (v p)) ps a) = ar_ok a"
  by (induction ps arbitrary: a) simp_all

lemma fold_ar_set:
  assumes "ar_ok a" "\<forall>p\<in>set ps. ar_inside a p" "ar_inside a q"
  shows "ar_get (fold (\<lambda>p. ar_set p (v p)) ps a) q = (if q \<in> set ps then v q else ar_get a q)"
  using assms by (induction ps arbitrary: a) (auto simp: ar_get_set)

lemma fill_sel [simp]: "ar_n (ar_fill ks ls v a) = ar_n a" "ar_m (ar_fill ks ls v a) = ar_m a" "ar_ok (ar_fill ks ls v a) = ar_ok a"
  by (simp_all add: ar_fill_def)

lemma inside_fill [simp]: "ar_inside (ar_fill ks ls v a) = ar_inside a"
  by (simp add: ar_inside_def fun_eq_iff)

lemma ar_get_fill:
  assumes "ar_ok a" "\<forall>k\<in>set ks. \<forall>l\<in>set ls. ar_inside a (k, l)" "ar_inside a (i, j)"
  shows "ar_get (ar_fill ks ls v a) (i, j) = (if i \<in> set ks \<and> j \<in> set ls then v (i, j) else ar_get a (i, j))"
  using assms unfolding ar_fill_def by (subst fold_ar_set) auto

lemma ar_init_sel [simp]: "ar_n (ar_init n m t) = n" "ar_m (ar_init n m t) = m" "ar_ok (ar_init n m t)"
  by (simp_all add: ar_init_def ar_resize_def ar_clear_def ar_ok_def vector_resize_def)

lemma ar_get_init: "i < n \<Longrightarrow> j < m \<Longrightarrow> ar_get (ar_init n m t) (i, j) = t"
  by (simp add: ar_init_def ar_resize_def ar_clear_def vector_resize_def ar_get_def position_bound)

lemma gr_super_sel [simp]: "ar_n (gr_super g) = ar_n g" "ar_m (gr_super g) = ar_m g" "ar_data (gr_super g) = ar_data g"
    "ar_ok (gr_super g) = ar_ok g"
  by (simp_all add: gr_super_def array2d.truncate_def ar_ok_def)

lemma gr_extend_sel [simp]: "ar_n (array2d.extend a x) = ar_n a" "ar_m (array2d.extend a x) = ar_m a"
    "ar_data (array2d.extend a x) = ar_data a" "ar_ok (array2d.extend a x) = ar_ok a"
    "gr_super (array2d.extend a x) = a" "ar_prototype (array2d.extend a \<lparr>ar_prototype = t\<rparr>) = t"
  by (simp_all add: array2d.extend_def array2d.truncate_def gr_super_def ar_ok_def)

section \<open>Growing keeps the old elements\<close>

lemma gr_grow_sel [simp]:
  "ar_n (gr_grow i j t a) = max (ar_n a) (i + 1)" "ar_m (gr_grow i j t a) = max (ar_m a) (j + 1)" "ar_ok (gr_grow i j t a)"
  by (auto simp: gr_grow_def Let_def max_def)

lemma gr_grow_get:
  assumes "k < max (ar_n a) (i + 1)" "l < max (ar_m a) (j + 1)"
  shows "ar_get (gr_grow i j t a) (k, l) = (if ar_inside a (k, l) then ar_get a (k, l) else t)"
proof -
  have m: "(if i \<ge> ar_n a then i + 1 else ar_n a) = max (ar_n a) (i + 1)"
    "(if j \<ge> ar_m a then j + 1 else ar_m a) = max (ar_m a) (j + 1)" by auto
  define N M where NM: "N = max (ar_n a) (i + 1)" "M = max (ar_m a) (j + 1)"
  have le: "ar_n a \<le> N" "ar_m a \<le> M" "k < N" "l < M" using assms by (simp_all add: NM)
  show ?thesis unfolding gr_grow_def Let_def m NM [symmetric] using le
    by (simp add: ar_get_fill ar_get_init ar_inside_def)
qed

text \<open>What a reader sees of a growing array: its elements, the prototype where it has none.\<close>

definition gr_view :: "'a growing \<Rightarrow> nat \<times> nat \<Rightarrow> 'a" where
  "gr_view g p = (if ar_inside g p then ar_get (gr_super g) p else ar_prototype g)"

lemma gr_enlarged_sel [simp]:
  "ar_n (gr_enlarged i j g) = max (ar_n g) (i + 1)" "ar_m (gr_enlarged i j g) = max (ar_m g) (j + 1)"
  "ar_prototype (gr_enlarged i j g) = ar_prototype g"
  by (auto simp: gr_enlarged_def max_def)

lemma gr_enlarged_ok: "ar_ok g \<Longrightarrow> ar_ok (gr_enlarged i j g)"
  by (simp add: gr_enlarged_def)

lemma gr_enlarged_view: "gr_view (gr_enlarged i j g) = gr_view g"
proof
  fix p :: "nat \<times> nat"
  obtain k l where p: "p = (k, l)" by (rule prod.exhaust)
  show "gr_view (gr_enlarged i j g) p = gr_view g p"
  proof (cases "i \<ge> ar_n g \<or> j \<ge> ar_m g")
    case True
    then show ?thesis
      by (simp add: gr_enlarged_def gr_view_def p ar_inside_def gr_grow_get del: less_max_iff_disj)
        (auto simp: ar_inside_def)
  qed (auto simp: gr_enlarged_def)
qed

lemma gr_at_view: "gr_at i j g = (gr_enlarged i j g, Inr (gr_view g (i, j)))"
proof -
  have "ar_inside (gr_enlarged i j g) (i, j)" by (simp add: ar_inside_def max_def)
  then have "ar_get (gr_super (gr_enlarged i j g)) (i, j) = gr_view g (i, j)"
    using fun_cong [OF gr_enlarged_view [of i j g], of "(i, j)"] by (simp add: gr_view_def)
  then show ?thesis by (simp add: gr_at_def ar_at_def Let_def)
qed

lemma gr_put_view:
  assumes "ar_ok g"
  shows "gr_view (gr_put i j v g) = (gr_view g)((i, j) := v)" "ar_ok (gr_put i j v g)"
    "ar_prototype (gr_put i j v g) = ar_prototype g" 
    "ar_n (gr_put i j v g) = max (ar_n g) (i + 1)" "ar_m (gr_put i j v g) = max (ar_m g) (j + 1)"
proof -
  let ?e = "gr_enlarged i j g"
  have i: "ar_inside (gr_super ?e) (i, j)" by (simp add: ar_inside_def max_def)
  have "gr_view (gr_put i j v g) p = ((gr_view ?e)((i, j) := v)) p" for p
    using ar_get_set [of "gr_super ?e" "(i, j)" p v] gr_enlarged_ok [OF assms] i
    by (auto simp: gr_put_def gr_view_def Let_def ar_inside_def)
  then show "gr_view (gr_put i j v g) = (gr_view g)((i, j) := v)" by (auto simp: gr_enlarged_view)
  show "ar_ok (gr_put i j v g)" using assms by (simp add: gr_put_def Let_def gr_enlarged_ok)
  show "ar_prototype (gr_put i j v g) = ar_prototype g" by (simp add: gr_put_def Let_def)
  show "ar_n (gr_put i j v g) = max (ar_n g) (i + 1)" "ar_m (gr_put i j v g) = max (ar_m g) (j + 1)"
    by (simp_all add: gr_put_def Let_def)
qed

lemma gr_init_view: "gr_view (gr_init n m t) = (\<lambda>_. t)" "ar_ok (gr_init n m t)" "ar_prototype (gr_init n m t) = t"
    "ar_n (gr_init n m t) = n" "ar_m (gr_init n m t) = m"
  by (auto simp: gr_init_def gr_view_def ar_inside_def fun_eq_iff ar_get_init)

end
