(* ===== verification/PairInteractions.thy ===== *)
theory PairInteractions
  imports Interactions Arrays VerletList
begin

text \<open>
  \<^verbatim>\<open>src/src/interaction/VerletListInteractionTemplate.hpp\<close>: the interaction of the pairs of a Verlet list, with a
  potential for every pair of particle types.  The potential's functions \<^verbatim>\<open>_computeEnergy\<close> and
  \<^verbatim>\<open>_computeForce\<close> are the arguments \<open>energy\<close> and \<open>force\<close>, its default constructor the argument of
  \<open>vi_new\<close>.  A look-up may enlarge the array of potentials, so every loop passes the interaction on;
  it fails (\<^term>\<open>None\<close>) for a negative type, which the array takes as an index that no memory can hold.
\<close>

section \<open>The interaction\<close>

record ('p, 'q) vl_interaction =
  vi_ntypes :: int
  vi_verletList :: "'p verletlist"
  vi_array :: "'q growing"

definition vi_new :: "'q \<Rightarrow> 'p verletlist \<Rightarrow> ('p, 'q) vl_interaction" where
  "vi_new q0 vl = \<lparr>vi_ntypes = 0, vi_verletList = vl, vi_array = gr_init 0 0 q0\<rparr>"

definition setVerletList :: "'p verletlist \<Rightarrow> ('p, 'q) vl_interaction \<Rightarrow> ('p, 'q) vl_interaction" where
  "setVerletList vl I = I\<lparr>vi_verletList := vl\<rparr>"

definition vi_setPotential :: "int \<Rightarrow> int \<Rightarrow> 'q \<Rightarrow> ('p, 'q) vl_interaction \<Rightarrow> ('p, 'q) vl_interaction option" where
  "vi_setPotential type1 type2 potential I =
     (let I = I\<lparr>vi_ntypes := max (vi_ntypes I) (max (type1 + 1) (type2 + 1))\<rparr>
      in if type1 < 0 \<or> type2 < 0 then None
         else let g = gr_put (nat type1) (nat type2) potential (vi_array I);
                  g = (if type1 \<noteq> type2 then gr_put (nat type2) (nat type1) potential g else g)
              in Some (I\<lparr>vi_array := g\<rparr>))"

definition vi_getPotential :: "int \<Rightarrow> int \<Rightarrow> ('p, 'q) vl_interaction \<Rightarrow> (('p, 'q) vl_interaction \<times> 'q) option" where
  "vi_getPotential type1 type2 I =
     (if type1 < 0 \<or> type2 < 0 then None
      else case gr_at (nat type1) (nat type2) (vi_array I) of
        (g, Inr potential) \<Rightarrow> Some (I\<lparr>vi_array := g\<rparr>, potential)
      | (g, Inl e) \<Rightarrow> None)"

abbreviation p_type :: "particle \<Rightarrow> int" where "p_type x \<equiv> pp_type (part_p x)"

text \<open>
  One round of a loop over the pairs: the types of the two particles in the memory \<open>mem s\<close> select the
  potential, and \<open>step\<close> uses it.
\<close>

definition vi_each :: "('q \<Rightarrow> 'p \<times> 'p \<Rightarrow> 's \<Rightarrow> 's) \<Rightarrow> ('s \<Rightarrow> 'p memory) \<Rightarrow> 'p \<times> 'p \<Rightarrow>
    ('p, 'q) vl_interaction \<times> 's \<Rightarrow> (('p, 'q) vl_interaction \<times> 's) option" where
  "vi_each step mem p s =
     (case vi_getPotential (p_type (mem (snd s) (fst p))) (p_type (mem (snd s) (snd p))) (fst s) of
        None \<Rightarrow> None
      | Some (I, potential) \<Rightarrow> Some (I, step potential p (snd s)))"

definition vi_pairs :: "('p, 'q) vl_interaction \<Rightarrow> ('p \<times> 'p) list" where
  "vi_pairs I = vlPairs (vi_verletList I)"

definition pair_step :: "('q \<Rightarrow> particle \<Rightarrow> particle \<Rightarrow> real3d option) \<Rightarrow> 'q \<Rightarrow> 'p \<times> 'p \<Rightarrow> 'p memory \<Rightarrow> 'p memory" where
  "pair_step force q p h = (case p of (p1, p2) \<Rightarrow>
     (case force q (h p1) (h p2) of None \<Rightarrow> h | Some f \<Rightarrow> sub_force p2 f (add_force p1 f h)))"

definition vi_addForces :: "('q \<Rightarrow> particle \<Rightarrow> particle \<Rightarrow> real3d option) \<Rightarrow> ('p, 'q) vl_interaction \<Rightarrow> 'p memory \<Rightarrow>
    (('p, 'q) vl_interaction \<times> 'p memory) option" where
  "vi_addForces force I h = ofold (vi_each (pair_step force) id) (vi_pairs I) (I, h)"

definition vi_localEnergy :: "('q \<Rightarrow> particle \<Rightarrow> particle \<Rightarrow> real) \<Rightarrow> 'p memory \<Rightarrow> ('p, 'q) vl_interaction \<Rightarrow>
    (('p, 'q) vl_interaction \<times> real) option" where
  "vi_localEnergy energy h I =
     ofold (vi_each (\<lambda>q (p1, p2) es. es + energy q (h p1) (h p2)) (\<lambda>_. h)) (vi_pairs I) (I, 0)"

text \<open>On all processes: each has its own interaction and memory.\<close>

definition vi_reduce :: "(('p, 'q) vl_interaction \<times> 'p memory \<Rightarrow> (('p, 'q) vl_interaction \<times> 's::comm_monoid_add) option) \<Rightarrow>
    (('p, 'q) vl_interaction \<times> 'p memory) list \<Rightarrow> (('p, 'q) vl_interaction list \<times> 's) option" where
  "vi_reduce local world =
     (case those (map local world) of None \<Rightarrow> None
      | Some rs \<Rightarrow> Some (map fst rs, all_reduce_plus (map snd rs)))"

definition vi_computeEnergy :: "('q \<Rightarrow> particle \<Rightarrow> particle \<Rightarrow> real) \<Rightarrow> (('p, 'q) vl_interaction \<times> 'p memory) list \<Rightarrow>
    (('p, 'q) vl_interaction list \<times> real) option" where
  "vi_computeEnergy energy = vi_reduce (\<lambda>(I, h). vi_localEnergy energy h I)"

definition virial_step :: "('q \<Rightarrow> particle \<Rightarrow> particle \<Rightarrow> real3d option) \<Rightarrow> 'p memory \<Rightarrow> (real3d \<Rightarrow> real3d \<Rightarrow> 's) \<Rightarrow> 'q \<Rightarrow>
    'p \<times> 'p \<Rightarrow> 's \<Rightarrow> 's::comm_monoid_add" where
  "virial_step force h term q p w = (case p of (p1, p2) \<Rightarrow>
     (case force q (h p1) (h p2) of None \<Rightarrow> w
      | Some f \<Rightarrow> (let r21 = p_pos (h p1) - p_pos (h p2) in w + term r21 f)))"

definition vi_localVirial :: "('q \<Rightarrow> particle \<Rightarrow> particle \<Rightarrow> real3d option) \<Rightarrow> 'p memory \<Rightarrow> ('p, 'q) vl_interaction \<Rightarrow>
    (('p, 'q) vl_interaction \<times> real) option" where
  "vi_localVirial force h I = ofold (vi_each (virial_step force h real3d_dot) (\<lambda>_. h)) (vi_pairs I) (I, 0)"

definition vi_computeVirial :: "('q \<Rightarrow> particle \<Rightarrow> particle \<Rightarrow> real3d option) \<Rightarrow> (('p, 'q) vl_interaction \<times> 'p memory) list \<Rightarrow>
    (('p, 'q) vl_interaction list \<times> real) option" where
  "vi_computeVirial force = vi_reduce (\<lambda>(I, h). vi_localVirial force h I)"

definition vi_localVirialTensor :: "('q \<Rightarrow> particle \<Rightarrow> particle \<Rightarrow> real3d option) \<Rightarrow> 'p memory \<Rightarrow> ('p, 'q) vl_interaction \<Rightarrow>
    (('p, 'q) vl_interaction \<times> tensor) option" where
  "vi_localVirialTensor force h I = ofold (vi_each (virial_step force h tensor_of) (\<lambda>_. h)) (vi_pairs I) (I, tensor_const 0)"

text \<open>The reduced tensor is added to the caller's \<open>w\<close>.\<close>

definition vi_computeVirialTensor :: "('q \<Rightarrow> particle \<Rightarrow> particle \<Rightarrow> real3d option) \<Rightarrow> tensor \<Rightarrow>
    (('p, 'q) vl_interaction \<times> 'p memory) list \<Rightarrow> (('p, 'q) vl_interaction list \<times> tensor) option" where
  "vi_computeVirialTensor force w world =
     map_option (\<lambda>(Is, wsum). (Is, w + wsum)) (vi_reduce (\<lambda>(I, h). vi_localVirialTensor force h I) world)"

text \<open>The plane at height \<open>z\<close>, or its periodic image near the boundary; \<open>Lz\<close> is the box length.\<close>

definition crosses :: "real \<Rightarrow> real \<Rightarrow> real \<Rightarrow> real3d \<Rightarrow> real3d \<Rightarrow> bool" where
  "crosses Lz rc_cutoff z p1pos p2pos =
     (let zghost = (if z < rc_cutoff then Some (z + Lz)
                    else if z \<ge> Lz - rc_cutoff then Some (z - Lz) else None)
      in (vz p1pos > z \<and> vz p2pos < z) \<or> (vz p1pos < z \<and> vz p2pos > z)
         \<or> (case zghost of None \<Rightarrow> False
            | Some zghost \<Rightarrow> (vz p1pos > zghost \<and> vz p2pos < zghost) \<or> (vz p1pos < zghost \<and> vz p2pos > zghost)))"

definition vi_localVirialLayer :: "('q \<Rightarrow> particle \<Rightarrow> particle \<Rightarrow> real3d option) \<Rightarrow> real \<Rightarrow> real \<Rightarrow> 'p memory \<Rightarrow>
    ('p, 'q) vl_interaction \<Rightarrow> (('p, 'q) vl_interaction \<times> tensor) option" where
  "vi_localVirialLayer force Lz z h I =
     ofold (\<lambda>p s. if crosses Lz (getVerletCutoff (vi_verletList I)) z (p_pos (h (fst p))) (p_pos (h (snd p)))
                  then vi_each (virial_step force h (\<lambda>r21 f. tensor_divide (tensor_of r21 f) \<bar>vz r21\<bar>)) (\<lambda>_. h) p s
                  else Some s)
       (vi_pairs I) (I, tensor_const 0)"

definition vi_computeVirialLayer :: "('q \<Rightarrow> particle \<Rightarrow> particle \<Rightarrow> real3d option) \<Rightarrow> real \<Rightarrow> tensor \<Rightarrow> real \<Rightarrow>
    (('p, 'q) vl_interaction \<times> 'p memory) list \<Rightarrow> (('p, 'q) vl_interaction list \<times> tensor) option" where
  "vi_computeVirialLayer force Lz w z world =
     map_option (\<lambda>(Is, wsum). (Is, w + wsum)) (vi_reduce (\<lambda>(I, h). vi_localVirialLayer force Lz z h I) world)"

text \<open>\<^verbatim>\<open>std::max\<close> of cutoffs, the infinite one being \<^term>\<open>None\<close>.\<close>

definition cut_max :: "cutoff \<Rightarrow> cutoff \<Rightarrow> cutoff" where
  "cut_max a b = (case a of None \<Rightarrow> None | Some x \<Rightarrow> (case b of None \<Rightarrow> None | Some y \<Rightarrow> Some (max x y)))"

definition vi_getMaxCutoff :: "('q \<Rightarrow> cutoff) \<Rightarrow> ('p, 'q) vl_interaction \<Rightarrow> (('p, 'q) vl_interaction \<times> cutoff) option" where
  "vi_getMaxCutoff getCutoff I =
     ofold (\<lambda>(i, j) (I, cutoff). case vi_getPotential i j I of None \<Rightarrow> None
              | Some (I, q) \<Rightarrow> Some (I, cut_max cutoff (getCutoff q)))
       (List.product [0..vi_ntypes I - 1] [0..vi_ntypes I - 1]) (I, Some 0)"

section \<open>Look-ups\<close>

definition vi_pot :: "('p, 'q) vl_interaction \<Rightarrow> int \<Rightarrow> int \<Rightarrow> 'q" where
  "vi_pot I i j = gr_view (vi_array I) (nat i, nat j)"

definition vi_same :: "('p, 'q) vl_interaction \<Rightarrow> ('p, 'q) vl_interaction \<Rightarrow> bool" where
  "vi_same I I' \<longleftrightarrow> vi_pot I = vi_pot I' \<and> vi_verletList I = vi_verletList I' \<and> vi_ntypes I = vi_ntypes I'
     \<and> (ar_ok (vi_array I) \<longrightarrow> ar_ok (vi_array I'))"

lemma vi_same_refl [simp]: "vi_same I I"
  by (simp add: vi_same_def)

lemma vi_same_trans: "vi_same I J \<Longrightarrow> vi_same J K \<Longrightarrow> vi_same I K"
  by (simp add: vi_same_def)

lemma vi_getPotential_Some:
  assumes "0 \<le> i" "0 \<le> j"
  obtains I' where "vi_getPotential i j I = Some (I', vi_pot I i j)" "vi_same I I'"
proof -
  have "vi_same I (I\<lparr>vi_array := gr_enlarged (nat i) (nat j) (vi_array I)\<rparr>)"
    by (simp add: vi_same_def vi_pot_def fun_eq_iff gr_enlarged_view gr_enlarged_ok)
  then show thesis using assms that by (simp add: vi_getPotential_def gr_at_view vi_pot_def)
qed

lemma vi_getPotential_None: "vi_getPotential i j I = None \<longleftrightarrow> i < 0 \<or> j < 0"
  by (auto simp: vi_getPotential_def gr_at_view)

text \<open>A loop over the pairs: it fails exactly for a negative type, and its result is a plain fold.\<close>

definition types_ok :: "'p memory \<Rightarrow> ('p \<times> 'p) list \<Rightarrow> bool" where
  "types_ok h ps \<longleftrightarrow> (\<forall>(p, q)\<in>set ps. 0 \<le> p_type (h p) \<and> 0 \<le> p_type (h q))"

definition pot_at :: "('p, 'q) vl_interaction \<Rightarrow> 'p memory \<Rightarrow> 'p \<times> 'p \<Rightarrow> 'q" where
  "pot_at I h p = vi_pot I (p_type (h (fst p))) (p_type (h (snd p)))"

lemma types_ok_simps [simp]: "types_ok h []" 
    "types_ok h (p # ps) \<longleftrightarrow> 0 \<le> p_type (h (fst p)) \<and> 0 \<le> p_type (h (snd p)) \<and> types_ok h ps"
  by (auto simp: types_ok_def split: prod.splits)

lemma vi_loop:
  assumes "\<And>q p s a. p_type (mem (step q p s) a) = p_type (mem s a)"
  shows "types_ok (mem s) ps \<Longrightarrow> \<exists>I'. vi_same I I' \<and>
      ofold (vi_each step mem) ps (I, s) = Some (I', fold (\<lambda>p. step (pot_at I (mem s) p) p) ps s)"
    and "\<not> types_ok (mem s) ps \<Longrightarrow> ofold (vi_each step mem) ps (I, s) = None"
proof (induction ps arbitrary: I s)
  case (Cons p ps)
  {
    case 1
    then have t: "0 \<le> p_type (mem s (fst p))" "0 \<le> p_type (mem s (snd p))" "types_ok (mem s) ps" by simp_all
    obtain J where J: "vi_getPotential (p_type (mem s (fst p))) (p_type (mem s (snd p))) I = Some (J, pot_at I (mem s) p)" "vi_same I J"
      using vi_getPotential_Some [OF t(1,2), of I] unfolding pot_at_def by metis
    let ?s = "step (pot_at I (mem s) p) p s"
    have e: "types_ok (mem ?s) ps" "pot_at J (mem ?s) = pot_at I (mem s)"
      using t(3) J(2) by (simp_all add: types_ok_def pot_at_def fun_eq_iff assms vi_same_def)
    obtain K where "vi_same J K" "ofold (vi_each step mem) ps (J, ?s) = Some (K, fold (\<lambda>p. step (pot_at I (mem s) p) p) ps ?s)"
      using Cons(1) [OF e(1), of J] unfolding e(2) by blast
    moreover have "vi_each step mem p (I, s) = Some (J, ?s)" using J(1) by (simp add: vi_each_def)
    ultimately show ?case using J(2) by (auto intro: vi_same_trans)
  next
    case 2
    show ?case
    proof (cases "0 \<le> p_type (mem s (fst p)) \<and> 0 \<le> p_type (mem s (snd p))")
      case True
      then obtain J where J: "vi_getPotential (p_type (mem s (fst p))) (p_type (mem s (snd p))) I = Some (J, pot_at I (mem s) p)"
        using vi_getPotential_Some [of "p_type (mem s (fst p))" "p_type (mem s (snd p))" I] unfolding pot_at_def by metis
      have "\<not> types_ok (mem s) ps" using 2 True by simp
      then have "\<not> types_ok (mem (step (pot_at I (mem s) p) p s)) ps" by (simp add: types_ok_def assms)
      from Cons(2) [OF this, of J] show ?thesis using J by (simp add: vi_each_def)
    next
      case False
      then have "vi_each step mem p (I, s) = None" using vi_getPotential_None [of "p_type (mem s (fst p))" "p_type (mem s (snd p))" I]
        by (auto simp: vi_each_def split: option.splits)
      then show ?thesis by simp
    qed
  }
qed simp_all

section \<open>The forces of a pair\<close>

definition pair_forces :: "('q \<Rightarrow> particle \<Rightarrow> particle \<Rightarrow> real3d option) \<Rightarrow> ('p \<times> 'p \<Rightarrow> 'q) \<Rightarrow> 'p memory \<Rightarrow> ('p \<times> 'p) list \<Rightarrow>
    ('p \<times> real3d) list" where
  "pair_forces force pot h ps = concat (map (\<lambda>(p, q).
     case force (pot (p, q)) (h p) (h q) of None \<Rightarrow> [] | Some f \<Rightarrow> [(p, f), (q, - f)]) ps)"

lemma pair_step_contribs: "pair_step force (pot p) p h = forced (pair_forces force pot h [p]) h"
  by (cases p) (simp add: pair_step_def pair_forces_def sub_force_add split: option.splits)

lemma pair_forces_Cons: "pair_forces force pot h (p # ps) = pair_forces force pot h [p] @ pair_forces force pot h ps"
  by (simp add: pair_forces_def)

lemma pair_forces_sum: "(\<Sum>(p, f)\<leftarrow>pair_forces force pot h ps. f) = 0"
  by (induction ps) (auto simp: pair_forces_def split: option.splits)

lemma pair_forces_in: "fst ` set (pair_forces force pot h ps) \<subseteq> fst ` set ps \<union> snd ` set ps"
  by (force simp: pair_forces_def split: option.splits)

lemma pair_forces_work: "(\<Sum>(p, f)\<leftarrow>pair_forces force pot h ps. real3d_dot f (u p))
    = (\<Sum>(p, q)\<leftarrow>ps. real3d_dot (total (force (pot (p, q)) (h p) (h q))) (u p - u q))"
  by (induction ps) (auto simp: pair_forces_def dot_diff split: option.splits)

lemma addForces_types:
  assumes "vi_addForces force I h = Some r"
  shows "types_ok h (vi_pairs I)"
proof (rule ccontr)
  have t: "p_type (id (pair_step force q p h) a) = p_type (id h a)" for q p h a
    using pair_step_contribs [of force "\<lambda>_. q" p h] by simp
  assume "\<not> types_ok h (vi_pairs I)"
  then have "\<not> types_ok (id h) (vi_pairs I)" by simp
  from vi_loop(2) [of id "pair_step force", OF t this] assms show False by (simp add: vi_addForces_def)
qed

lemma fold_plus: "fold (\<lambda>p e. e + f p) ps e0 = e0 + (\<Sum>p\<leftarrow>ps. f p)" for f :: "_ \<Rightarrow> _::comm_monoid_add"
  by (induction ps arbitrary: e0) (simp_all add: add.assoc)

text \<open>What the loops compute, for any energy and force.\<close>

lemma vi_localEnergy_spec:
  assumes "types_ok h (vi_pairs I)"
  obtains I' where "vi_same I I'" "vi_localEnergy energy h I = Some (I', \<Sum>(p, q)\<leftarrow>vi_pairs I. energy (pot_at I h (p, q)) (h p) (h q))"
proof -
  have e: "(\<lambda>p. (case p of (p1, p2) \<Rightarrow> \<lambda>es. es + energy (pot_at I h p) (h p1) (h p2)))
      = (\<lambda>p es. es + (case p of (p1, p2) \<Rightarrow> energy (pot_at I h (p1, p2)) (h p1) (h p2)))" by (auto simp: fun_eq_iff)
  show thesis
    using vi_loop(1) [of "\<lambda>_. h" "\<lambda>q (p1, p2) es. es + energy q (h p1) (h p2)" 0 "vi_pairs I" I] assms that
    by (auto simp: vi_localEnergy_def e fold_plus)
qed

lemma virial_step_eq: "virial_step force h term q p w = w + (case p of (p1, p2) \<Rightarrow>
    (case force q (h p1) (h p2) of None \<Rightarrow> 0 | Some f \<Rightarrow> term (p_pos (h p1) - p_pos (h p2)) f))"
  by (auto simp: virial_step_def Let_def split: prod.splits option.splits)

definition virial_of :: "('q \<Rightarrow> particle \<Rightarrow> particle \<Rightarrow> real3d option) \<Rightarrow> 'p memory \<Rightarrow> (real3d \<Rightarrow> real3d \<Rightarrow> 's) \<Rightarrow> ('p \<times> 'p \<Rightarrow> 'q) \<Rightarrow>
    ('p \<times> 'p) list \<Rightarrow> 's::comm_monoid_add" where
  "virial_of force h term pot ps = (\<Sum>(p, q)\<leftarrow>ps.
     case force (pot (p, q)) (h p) (h q) of None \<Rightarrow> 0 | Some f \<Rightarrow> term (p_pos (h p) - p_pos (h q)) f)"

lemma virial_loop:
  assumes "types_ok h ps"
  obtains I' where "vi_same I I'" "ofold (vi_each (virial_step force h term) (\<lambda>_. h)) ps (I, w) = Some (I', w + virial_of force h term (pot_at I h) ps)"
proof -
  let ?g = "\<lambda>p. case p of (p1, p2) \<Rightarrow> (case force (pot_at I h p) (h p1) (h p2) of None \<Rightarrow> 0 | Some f \<Rightarrow> term (p_pos (h p1) - p_pos (h p2)) f)"
  have e: "(\<lambda>p. virial_step force h term (pot_at I h p) p) = (\<lambda>p w. w + ?g p)" by (simp add: virial_step_eq fun_eq_iff)
  have s: "fold (\<lambda>p w. w + ?g p) ps w = w + virial_of force h term (pot_at I h) ps"
    unfolding fold_plus virial_of_def by (intro arg_cong2 [where f = "(+)"] arg_cong [where f = sum_list] map_cong) auto
  show thesis
    using vi_loop(1) [of "\<lambda>_. h" "virial_step force h term" w ps I] assms that unfolding e s by blast
qed

lemma virial_trace: "trace (virial_of force h tensor_of pot ps) = virial_of force h real3d_dot pot ps"
  by (induction ps) (auto simp: virial_of_def split: option.splits)

text \<open>A look-up after a potential was set: symmetric in the types, the others as before.\<close>

lemma vi_setPotential_pot:
  assumes "vi_setPotential i j q I = Some I'" "ar_ok (vi_array I)" "0 \<le> k" "0 \<le> l"
  shows "vi_pot I' k l = (if (k, l) = (i, j) \<or> (k, l) = (j, i) then q else vi_pot I k l)"
    and "ar_ok (vi_array I')" "vi_ntypes I' = max (vi_ntypes I) (max (i + 1) (j + 1))" "vi_verletList I' = vi_verletList I"
    and "0 \<le> i" "0 \<le> j"
proof -
  let ?g = "gr_put (nat i) (nat j) q (vi_array I)"
  have I': "0 \<le> i" "0 \<le> j" "I' = I\<lparr>vi_ntypes := max (vi_ntypes I) (max (i + 1) (j + 1)),
      vi_array := (if i \<noteq> j then gr_put (nat j) (nat i) q ?g else ?g)\<rparr>"
    using assms(1) by (auto simp: vi_setPotential_def Let_def split: if_splits)
  note g = gr_put_view [OF assms(2), of "nat i" "nat j" q] and g' = gr_put_view [OF gr_put_view(2) [OF assms(2)]]
  show "vi_pot I' k l = (if (k, l) = (i, j) \<or> (k, l) = (j, i) then q else vi_pot I k l)"
  proof -
    have e: "(nat k, nat l) = (nat a, nat b) \<longleftrightarrow> (k, l) = (a, b)" if "0 \<le> a" "0 \<le> b" for a b
      using assms(3,4) that by auto
    have "vi_pot I' k l = (if i \<noteq> j then (gr_view ?g)((nat j, nat i) := q) else gr_view ?g) (nat k, nat l)"
      by (simp add: I'(3) vi_pot_def g'(1))
    also have "\<dots> = (if (k, l) = (i, j) \<or> (k, l) = (j, i) then q else vi_pot I k l)"
      using e [OF I'(1,2)] e [OF I'(2,1)] by (simp only: g(1) fun_upd_apply vi_pot_def split: if_split) blast
    finally show ?thesis .
  qed
  show "ar_ok (vi_array I')" "vi_ntypes I' = max (vi_ntypes I) (max (i + 1) (j + 1))" "vi_verletList I' = vi_verletList I" "0 \<le> i" "0 \<le> j"
    using g(2) g'(2) I' by auto
qed

text \<open>The maximal cutoff is no smaller than that of any potential that was set.\<close>

definition cut_le :: "cutoff \<Rightarrow> cutoff \<Rightarrow> bool" where
  "cut_le a b \<longleftrightarrow> (case b of None \<Rightarrow> True | Some y \<Rightarrow> (case a of None \<Rightarrow> False | Some x \<Rightarrow> x \<le> y))"

lemma cut_le_refl [simp]: "cut_le a a"
  by (simp add: cut_le_def split: option.splits)

lemma cut_le_trans: "cut_le a b \<Longrightarrow> cut_le b c \<Longrightarrow> cut_le a c"
  by (auto simp: cut_le_def split: option.splits)

lemma cut_le_max: "cut_le a (cut_max a b)" "cut_le b (cut_max a b)"
  by (auto simp: cut_le_def cut_max_def split: option.splits)

lemma max_cutoff_loop:
  assumes "\<forall>(i, j)\<in>set ijs. 0 \<le> i \<and> 0 \<le> j"
  shows "\<exists>I' c'. ofold (\<lambda>(i, j) (I, cutoff). case vi_getPotential i j I of None \<Rightarrow> None
              | Some (I, q) \<Rightarrow> Some (I, cut_max cutoff (getCutoff q))) ijs (I, c) = Some (I', c')
      \<and> vi_same I I' \<and> cut_le c c' \<and> (\<forall>(i, j)\<in>set ijs. cut_le (getCutoff (vi_pot I i j)) c')"
  using assms
proof (induction ijs arbitrary: I c)
  case (Cons ij ijs)
  obtain i j where ij: "ij = (i, j)" by (rule prod.exhaust)
  obtain J where J: "vi_getPotential i j I = Some (J, vi_pot I i j)" "vi_same I J"
    using vi_getPotential_Some [of i j I] Cons.prems by (auto simp: ij)
  have p: "vi_pot J = vi_pot I" using J(2) by (simp add: vi_same_def)
  obtain K c' where K: "ofold (\<lambda>(i, j) (I, cutoff). case vi_getPotential i j I of None \<Rightarrow> None
              | Some (I, q) \<Rightarrow> Some (I, cut_max cutoff (getCutoff q))) ijs (J, cut_max c (getCutoff (vi_pot I i j))) = Some (K, c')"
      "vi_same J K" "cut_le (cut_max c (getCutoff (vi_pot I i j))) c'" "\<forall>(i, j)\<in>set ijs. cut_le (getCutoff (vi_pot I i j)) c'"
    using Cons.IH [of J "cut_max c (getCutoff (vi_pot I i j))"] Cons.prems unfolding p by auto
  have "cut_le c c'" "cut_le (getCutoff (vi_pot I i j)) c'" using K(3) cut_le_max cut_le_trans by blast+
  then show ?case using J K(1,2,4) by (auto simp: ij intro: vi_same_trans)
qed simp

lemma getMaxCutoff_bound:
  obtains I' c where "vi_getMaxCutoff getCutoff I = Some (I', c)" "vi_same I I'"
    "\<And>i j. 0 \<le> i \<Longrightarrow> i < vi_ntypes I \<Longrightarrow> 0 \<le> j \<Longrightarrow> j < vi_ntypes I \<Longrightarrow> cut_le (getCutoff (vi_pot I i j)) c"
  using max_cutoff_loop [of "List.product [0..vi_ntypes I - 1] [0..vi_ntypes I - 1]" getCutoff I "Some 0"] that
  unfolding vi_getMaxCutoff_def by fastforce

lemma localVirial_spec:
  assumes "types_ok h (vi_pairs I)"
  shows "\<exists>I'. vi_same I I' \<and> vi_localVirial force h I = Some (I', virial_of force h real3d_dot (pot_at I h) (vi_pairs I))"
    and "\<exists>I'. vi_same I I' \<and> vi_localVirialTensor force h I = Some (I', virial_of force h tensor_of (pot_at I h) (vi_pairs I))"
    and "\<exists>I'. vi_same I I' \<and> vi_localVirialLayer force Lz z h I = Some (I',
        virial_of force h (\<lambda>r21 f. tensor_divide (tensor_of r21 f) \<bar>vz r21\<bar>) (pot_at I h)
          (filter (\<lambda>(p, q). crosses Lz (getVerletCutoff (vi_verletList I)) z (p_pos (h p)) (p_pos (h q))) (vi_pairs I)))"
proof -
  note l = virial_loop [OF assms, of I force]
  show "\<exists>I'. vi_same I I' \<and> vi_localVirial force h I = Some (I', virial_of force h real3d_dot (pot_at I h) (vi_pairs I))"
    using l [of real3d_dot 0] unfolding vi_localVirial_def by auto
  show "\<exists>I'. vi_same I I' \<and> vi_localVirialTensor force h I = Some (I', virial_of force h tensor_of (pot_at I h) (vi_pairs I))"
    using l [of tensor_of 0] unfolding vi_localVirialTensor_def zero_tensor_def [symmetric] by auto
  let ?c = "\<lambda>p. crosses Lz (getVerletCutoff (vi_verletList I)) z (p_pos (h (fst p))) (p_pos (h (snd p)))"
  have "types_ok h (filter ?c (vi_pairs I))" using assms by (auto simp: types_ok_def)
  from virial_loop [OF this, of I force "\<lambda>r21 f. tensor_divide (tensor_of r21 f) \<bar>vz r21\<bar>" 0]
  show "\<exists>I'. vi_same I I' \<and> vi_localVirialLayer force Lz z h I = Some (I',
        virial_of force h (\<lambda>r21 f. tensor_divide (tensor_of r21 f) \<bar>vz r21\<bar>) (pot_at I h)
          (filter (\<lambda>(p, q). crosses Lz (getVerletCutoff (vi_verletList I)) z (p_pos (h p)) (p_pos (h q))) (vi_pairs I)))"
    unfolding vi_localVirialLayer_def zero_tensor_def [symmetric] ofold_filter by (auto simp: case_prod_beta')
qed

section \<open>What the potential's laws give\<close>

definition pair_energy :: "('q \<Rightarrow> particle \<Rightarrow> particle \<Rightarrow> real) \<Rightarrow> ('p \<times> 'p \<Rightarrow> 'q) \<Rightarrow> ('p \<times> 'p) list \<Rightarrow> 'p memory \<Rightarrow> real" where
  "pair_energy energy pot ps h = (\<Sum>(p, q)\<leftarrow>ps. energy (pot (p, q)) (h p) (h q))"

context pair_field
begin

lemma force_forced: "force q (forced cs h a) (forced cs h b) = force q (h a) (h b)"
  by (rule pair_blind) simp_all

lemma pair_forces_forced: "pair_forces force pot (forced cs h) ps = pair_forces force pot h ps"
  by (simp add: pair_forces_def force_forced)

lemma fold_pair_step: "fold (\<lambda>p. pair_step force (pot p) p) ps h = forced (pair_forces force pot h ps) h"
proof (induction ps arbitrary: h)
  case (Cons p ps)
  have "fold (\<lambda>p. pair_step force (pot p) p) (p # ps) h = fold (\<lambda>p. pair_step force (pot p) p) ps (forced (pair_forces force pot h [p]) h)"
    using pair_step_contribs [of force pot p h] by simp
  also have "\<dots> = forced (pair_forces force pot h ps) (forced (pair_forces force pot h [p]) h)" by (simp only: Cons pair_forces_forced)
  also have "\<dots> = forced (pair_forces force pot h (p # ps)) h" by (simp only: pair_forces_Cons [of force pot h p ps] forced_simps)
  finally show ?case .
qed (simp add: pair_forces_def)

text \<open>The added forces are minus the gradient of the energy of the pairs.\<close>

lemma energy_gradient:
  assumes "\<And>p q. (p, q) \<in> set ps \<Longrightarrow> smooth (pot (p, q)) (h p) (h q)"
  shows "((\<lambda>t. pair_energy energy pot ps (moved u t h)) has_real_derivative
    - (\<Sum>(p, f)\<leftarrow>pair_forces force pot h ps. real3d_dot f (u p))) (at 0)"
proof -
  let ?g = "\<lambda>p t. case p of (p, q) \<Rightarrow> energy (pot (p, q)) (moved u t h p) (moved u t h q)"
  let ?g' = "\<lambda>p. case p of (p, q) \<Rightarrow> - real3d_dot (total (force (pot (p, q)) (h p) (h q))) (u p - u q)"
  have "(?g p has_real_derivative ?g' p) (at 0)" if "p \<in> set ps" for p
  proof -
    obtain a b where p: "p = (a, b)" by (rule prod.exhaust)
    from that have "(a, b) \<in> set ps" by (simp add: p)
    from pair_gradient [OF assms [OF this], of "u a" "u b"] show ?thesis by (simp add: p moved_def)
  qed
  from has_derivative_sum_list [of ps ?g ?g' 0, OF this]
  have "((\<lambda>t. pair_energy energy pot ps (moved u t h)) has_real_derivative (\<Sum>p\<leftarrow>ps. ?g' p)) (at 0)"
    by (simp add: pair_energy_def)
  moreover have "(\<Sum>p\<leftarrow>ps. ?g' p) = - (\<Sum>(p, f)\<leftarrow>pair_forces force pot h ps. real3d_dot f (u p))"
    unfolding pair_forces_work by (induction ps) auto
  ultimately show ?thesis by simp
qed

end

text \<open>The Verlet list interaction with such a potential.\<close>

locale verlet_interaction = pair_field energy force smooth
  for energy :: "'q \<Rightarrow> particle \<Rightarrow> particle \<Rightarrow> real" and force :: "'q \<Rightarrow> particle \<Rightarrow> particle \<Rightarrow> real3d option"
    and smooth :: "'q \<Rightarrow> particle \<Rightarrow> particle \<Rightarrow> bool"
begin

lemma addForces_spec:
  assumes "types_ok h (vi_pairs I)"
  obtains I' where "vi_same I I'" "vi_addForces force I h = Some (I', forced (pair_forces force (pot_at I h) h (vi_pairs I)) h)"
proof -
  have "p_type (id (pair_step force q p h) a) = p_type (id h a)" for q p h a
    using pair_step_contribs [of force "\<lambda>_. q" p h] by simp
  from vi_loop(1) [of id "pair_step force", OF this, of h "vi_pairs I" I] assms that show thesis
    by (auto simp: vi_addForces_def fold_pair_step)
qed

text \<open>Newton's third law: the forces that a call adds cancel.\<close>

lemma addForces_newton:
  assumes "vi_addForces force I h = Some (I', h')" "types_ok h (vi_pairs I)"
    and "finite A" "fst ` set (vi_pairs I) \<union> snd ` set (vi_pairs I) \<subseteq> A"
  shows "(\<Sum>a\<in>A. force_at h' a) = (\<Sum>a\<in>A. force_at h a)"
proof -
  let ?cs = "pair_forces force (pot_at I h) h (vi_pairs I)"
  have h': "h' = forced ?cs h" using addForces_spec [OF assms(2)] assms(1) by (metis Pair_inject option.inject)
  have "fst ` set ?cs \<subseteq> A" using pair_forces_in assms(4) by (rule order_trans)
  from net_sum [OF assms(3) this] show ?thesis unfolding h' force_at_forced sum.distrib pair_forces_sum by simp
qed

lemma addForces_gradient:
  assumes "vi_addForces force I h = Some (I', h')" "types_ok h (vi_pairs I)"
    and "\<And>p q. (p, q) \<in> set (vi_pairs I) \<Longrightarrow> smooth (pot_at I h (p, q)) (h p) (h q)"
    and "finite A" "fst ` set (vi_pairs I) \<union> snd ` set (vi_pairs I) \<subseteq> A"
  shows "((\<lambda>t. snd (the (vi_localEnergy energy (moved u t h) I))) has_real_derivative
    - (\<Sum>a\<in>A. real3d_dot (force_at h' a - force_at h a) (u a))) (at 0)"
proof -
  let ?cs = "pair_forces force (pot_at I h) h (vi_pairs I)"
  have h': "h' = forced ?cs h" using addForces_spec [OF assms(2)] assms(1) by (metis Pair_inject option.inject)
  have "fst ` set ?cs \<subseteq> A" using pair_forces_in assms(5) by (rule order_trans)
  from net_work [OF assms(4) this, of u]
  have w: "(\<Sum>a\<in>A. real3d_dot (force_at h' a - force_at h a) (u a)) = (\<Sum>(p, f)\<leftarrow>?cs. real3d_dot f (u p))"
    unfolding h' force_at_forced by simp
  have "snd (the (vi_localEnergy energy (moved u t h) I)) = pair_energy energy (pot_at I h) (vi_pairs I) (moved u t h)" for t
  proof -
    have "types_ok (moved u t h) (vi_pairs I)" "pot_at I (moved u t h) = pot_at I h"
      using assms(2) by (simp_all add: types_ok_def pot_at_def fun_eq_iff)
    then show ?thesis
      using vi_localEnergy_spec [of "moved u t h" I energy] by (metis pair_energy_def option.sel snd_conv)
  qed
  then show ?thesis unfolding w by (simp add: energy_gradient assms(3))
qed

end

context pair_law
begin

text \<open>A force along the distance makes the sum over the pairs a symmetric tensor.\<close>

lemma virial_symmetric: "virial_of force h tensor_of pot ps = virial_of force h (\<lambda>r f. tensor_of f r) pot ps"
proof -
  have "tensor_of (p_pos x - p_pos y) f = tensor_of f (p_pos x - p_pos y)" if "force q x y = Some f" for q x y f
    using pair_along [OF that] tensor_of_along by metis
  then show ?thesis unfolding virial_of_def
    by (intro arg_cong [where f = sum_list] map_cong) (auto split: option.splits)
qed

end

end
