(* ===== verification/BondInteractions.thy ===== *)
theory BondInteractions
  imports PairInteractions FixedPairList BoundaryConditions
begin

text \<open>
  \<^verbatim>\<open>src/src/interaction/FixedPairListInteractionTemplate.hpp\<close>: the interaction of the bonds of a
  \<^verbatim>\<open>FixedPairList\<close>, with one potential for all.  The distance of a bond is the minimum image vector of the
  boundary conditions; the locale \<open>image\<close> says how it moves with the particles, and both classes of
  boundary conditions are interpretations of it.
\<close>

section \<open>Minimum images that move with the particles\<close>

locale image =
  fixes mi mi' :: "real3d \<Rightarrow> real3d \<Rightarrow> real3d" and regular :: "real3d \<Rightarrow> real3d \<Rightarrow> bool"
  assumes image_local: "regular p q \<Longrightarrow>
      eventually (\<lambda>t. mi (p + real3d_scale h t) (q + real3d_scale k t) = mi p q + real3d_scale (h - k) t
        \<and> mi' (p + real3d_scale h t) (q + real3d_scale k t) = mi p q + real3d_scale (h - k) t) (nhds 0)"

lemma c_round_unique: "\<bar>x - of_int k\<bar> < 1 / 2 \<Longrightarrow> c_round x = k"
  using c_round_bound [of x] by linarith

lemma line_continuous: "isCont (\<lambda>t. d + e * t) (0::real)" for d e :: real
  by (intro continuous_intros)

lemma shiftImage_local:
  assumes "0 < L" "\<bar>shiftImage d (L / 2) L\<bar> < L / 2"
  shows "eventually (\<lambda>t. shiftImage (d + e * t) (L / 2) L = shiftImage d (L / 2) L + e * t) (nhds 0)"
proof -
  consider "d < - (L / 2)" | "L / 2 < d" | "- (L / 2) < d" "d < L / 2"
    using assms by (auto simp: shiftImage_def split: if_splits)
  then show ?thesis
  proof cases
    case 1
    then have "eventually (\<lambda>t. d + e * t < - (L / 2)) (nhds 0)" using eventually_below [OF line_continuous, of d e "- (L / 2)"] by simp
    then show ?thesis by (rule eventually_mono) (use 1 in \<open>simp add: shiftImage_def\<close>)
  next
    case 2
    then have "eventually (\<lambda>t. L / 2 < d + e * t) (nhds 0)" using eventually_above [OF line_continuous, of "L / 2" d e] by simp
    then show ?thesis by (rule eventually_mono) (use 2 assms(1) in \<open>simp add: shiftImage_def\<close>)
  next
    case 3
    then have "eventually (\<lambda>t. - (L / 2) < d + e * t \<and> d + e * t < L / 2) (nhds 0)"
      using eventually_above [OF line_continuous, of "- (L / 2)" d e] eventually_below [OF line_continuous, of d e "L / 2"]
      by (simp add: eventually_conj)
    then show ?thesis by (rule eventually_mono) (use 3 in \<open>simp add: shiftImage_def\<close>)
  qed
qed

lemma roundImage_local:
  assumes "0 < L" "\<bar>roundImage d (1 / L) L\<bar> < L / 2"
  shows "eventually (\<lambda>t. roundImage (d + e * t) (1 / L) L = roundImage d (1 / L) L + e * t) (nhds 0)"
proof -
  let ?k = "c_round (d * (1 / L))"
  have "- (L / 2) < (d - of_int ?k * L) + e * 0" "(d - of_int ?k * L) + e * 0 < L / 2"
    using assms(2) unfolding roundImage_def abs_less_iff by linarith+
  then have "eventually (\<lambda>t. - (L / 2) < (d - of_int ?k * L) + e * t \<and> (d - of_int ?k * L) + e * t < L / 2) (nhds 0)"
    by (intro eventually_conj eventually_above eventually_below line_continuous)
  then show ?thesis
  proof (rule eventually_mono)
    fix t assume t: "- (L / 2) < (d - of_int ?k * L) + e * t \<and> (d - of_int ?k * L) + e * t < L / 2"
    have "\<bar>(d + e * t) * (1 / L) - of_int ?k\<bar> = \<bar>((d - of_int ?k * L) + e * t) / L\<bar>"
      using assms(1) by (simp add: field_simps)
    also have "\<dots> = \<bar>(d - of_int ?k * L) + e * t\<bar> / L" using assms(1) by (simp add: abs_divide)
    also have "\<dots> < (L / 2) / L"
    proof (rule divide_strict_right_mono)
      show "\<bar>(d - of_int ?k * L) + e * t\<bar> < L / 2" unfolding abs_less_iff using t by linarith
    qed (rule assms(1))
    also have "(L / 2) / L = 1 / 2" using assms(1) by simp
    finally have "c_round ((d + e * t) * (1 / L)) = ?k" by (rule c_round_unique)
    then show "roundImage (d + e * t) (1 / L) L = roundImage d (1 / L) L + e * t" by (simp only: roundImage_def)
  qed
qed

lemma vec_eq_vnth: "v = w \<longleftrightarrow> (\<forall>i<3. vnth v i = vnth w i)"
  unfolding less_3_cases by (auto simp: vec_eq_iff)

lemma vnth_line: "i < 3 \<Longrightarrow> vnth (v + real3d_scale h t) i = vnth v i + vnth h i * t" "i < 3 \<Longrightarrow> vnth (v - w) i = vnth v i - vnth w i" for v :: real3d
  unfolding less_3_cases by (auto simp: real3d_scale_def)

lemma eventually_vec:
  assumes "\<And>i. i < 3 \<Longrightarrow> eventually (\<lambda>t. vnth (f t) i = vnth (g t) i) F"
  shows "eventually (\<lambda>t. f t = g t) F"
proof -
  have "eventually (\<lambda>t. vnth (f t) 0 = vnth (g t) 0 \<and> vnth (f t) 1 = vnth (g t) 1 \<and> vnth (f t) 2 = vnth (g t) 2) F"
    using assms [of 0] assms [of 1] assms [of 2] by (simp add: eventually_conj)
  then show ?thesis by (rule eventually_mono) (simp add: vec_eq_iff)
qed

text \<open>
  Away from the half box: the image by one box length (\<^verbatim>\<open>getMinimumImageVectorBox\<close>) is the nearest one
  (\<^verbatim>\<open>getMinimumImageVector\<close>), and shorter than half of the box.
\<close>

definition ob_regular :: "'a orthobc_scheme \<Rightarrow> real3d \<Rightarrow> real3d \<Rightarrow> bool" where
  "ob_regular b p q \<longleftrightarrow> bc_valid b \<and> ob_getMinimumImageVector b p q = ob_getMinimumImageVectorBox b p q
     \<and> (\<forall>i<3. \<bar>vnth (ob_getMinimumImageVectorBox b p q) i\<bar> < vnth (boxL b) i / 2)"

lemma image_line: "i < 3 \<Longrightarrow> vnth p i + vnth h i * t - (vnth q i + vnth k i * t) = (vnth p i - vnth q i) + vnth (h - k) i * t"
  for p :: real3d
  by (simp add: vnth_line algebra_simps)

interpretation ortho_image: image "ob_getMinimumImageVectorBox b" "ob_getMinimumImageVector b" "ob_regular b"
proof
  fix p q h k
  assume r: "ob_regular b p q"
  let ?d = "ob_getMinimumImageVectorBox b p q"
  have v: "bc_valid b" and e: "ob_getMinimumImageVector b p q = ?d" using r by (simp_all add: ob_regular_def)
  note L = bc_validD(1) [OF v] and c = ob_minimumImage_vnth(1,2) [OF v]
  have small: "\<bar>vnth ?d i\<bar> < vnth (boxL b) i / 2" if "i < 3" for i using r that by (simp add: ob_regular_def)
  have "eventually (\<lambda>t. vnth (ob_getMinimumImageVectorBox b (p + real3d_scale h t) (q + real3d_scale k t)) i = vnth (?d + real3d_scale (h - k) t) i) (nhds 0)"
    if i: "i < 3" for i
    using shiftImage_local [OF L [OF i] small [OF i, unfolded c(2) [OF i]], of "vnth (h - k) i"]
    unfolding c(2) [OF i] vnth_line(1) [OF i] image_line [OF i] .
  moreover have "eventually (\<lambda>t. vnth (ob_getMinimumImageVector b (p + real3d_scale h t) (q + real3d_scale k t)) i = vnth (?d + real3d_scale (h - k) t) i) (nhds 0)"
    if i: "i < 3" for i
    using roundImage_local [OF L [OF i] small [OF i, unfolded e [symmetric] c(1) [OF i]], of "vnth (h - k) i"]
    unfolding e [symmetric] c(1) [OF i] vnth_line(1) [OF i] image_line [OF i] .
  ultimately show "eventually (\<lambda>t. ob_getMinimumImageVectorBox b (p + real3d_scale h t) (q + real3d_scale k t) = ?d + real3d_scale (h - k) t
        \<and> ob_getMinimumImageVector b (p + real3d_scale h t) (q + real3d_scale k t) = ?d + real3d_scale (h - k) t) (nhds 0)"
    by (intro eventually_conj eventually_vec)
qed

lemma slab_minimumImage_vnth:
  assumes "bc_valid b" "i < 3"
  shows "vnth (slab_getMinimumImageVector b p q) i = (if i = slabDir b then vnth p i - vnth q i
      else roundImage (vnth p i - vnth q i) (1 / vnth (boxL b) i) (vnth (boxL b) i))"
    and "vnth (slab_getMinimumImageVectorBox b p q) i = (if i = slabDir b then vnth p i - vnth q i
      else shiftImage (vnth p i - vnth q i) (vnth (boxL b) i / 2) (vnth (boxL b) i))"
  using slab_loop_vnth [OF assms(2), of b "\<lambda>i d. roundImage d (vnth (invBoxL b) i) (vnth (boxL b) i)" "p - q"]
    slab_loop_vnth [OF assms(2), of b "\<lambda>i d. shiftImage d (vnth (boxL2 b) i) (vnth (boxL b) i)" "p - q"]
  unfolding vnth_line(2) [OF assms(2)] bc_validD(2,3) [OF assms] slab_getMinimumImageVector_def slab_getMinimumImageVectorBox_def
  by blast+

definition slab_regular :: "slabbc \<Rightarrow> real3d \<Rightarrow> real3d \<Rightarrow> bool" where
  "slab_regular b p q \<longleftrightarrow> bc_valid b \<and> slab_getMinimumImageVector b p q = slab_getMinimumImageVectorBox b p q
     \<and> (\<forall>i<3. i \<noteq> slabDir b \<longrightarrow> \<bar>vnth (slab_getMinimumImageVectorBox b p q) i\<bar> < vnth (boxL b) i / 2)"

interpretation slab_image: image "slab_getMinimumImageVectorBox b" "slab_getMinimumImageVector b" "slab_regular b"
proof
  fix p q h k
  assume r: "slab_regular b p q"
  let ?d = "slab_getMinimumImageVectorBox b p q"
  have v: "bc_valid b" and e: "slab_getMinimumImageVector b p q = ?d" using r by (simp_all add: slab_regular_def)
  note L = bc_validD(1) [OF v] and c = slab_minimumImage_vnth [OF v]
  have small: "\<bar>vnth ?d i\<bar> < vnth (boxL b) i / 2" if "i < 3" "i \<noteq> slabDir b" for i using r that by (simp add: slab_regular_def)
  have "eventually (\<lambda>t. vnth (slab_getMinimumImageVectorBox b (p + real3d_scale h t) (q + real3d_scale k t)) i = vnth (?d + real3d_scale (h - k) t) i) (nhds 0)"
    if i: "i < 3" for i
  proof (cases "i = slabDir b")
    case True
    then show ?thesis unfolding c(2) [OF i] vnth_line(1) [OF i] image_line [OF i] by simp
  next
    case False
    then show ?thesis
      using shiftImage_local [OF L [OF i], of "vnth p i - vnth q i" "vnth (h - k) i"] small [OF i False]
      unfolding c(2) [OF i] vnth_line(1) [OF i] image_line [OF i] by (simp only: if_False)
  qed
  moreover have "eventually (\<lambda>t. vnth (slab_getMinimumImageVector b (p + real3d_scale h t) (q + real3d_scale k t)) i = vnth (?d + real3d_scale (h - k) t) i) (nhds 0)"
    if i: "i < 3" for i
  proof (cases "i = slabDir b")
    case True
    then show ?thesis unfolding e [symmetric] c(1) [OF i] vnth_line(1) [OF i] image_line [OF i] by simp
  next
    case False
    then show ?thesis
      using roundImage_local [OF L [OF i], of "vnth p i - vnth q i" "vnth (h - k) i"] small [OF i False]
      unfolding e [symmetric] c(1) [OF i] vnth_line(1) [OF i] image_line [OF i] by (simp only: if_False)
  qed
  ultimately show "eventually (\<lambda>t. slab_getMinimumImageVectorBox b (p + real3d_scale h t) (q + real3d_scale k t) = ?d + real3d_scale (h - k) t
        \<and> slab_getMinimumImageVector b (p + real3d_scale h t) (q + real3d_scale k t) = ?d + real3d_scale (h - k) t) (nhds 0)"
    by (intro eventually_conj eventually_vec)
qed

section \<open>The interaction\<close>

record 'q bond_interaction =
  bi_list :: fixedpairlist
  bi_potential :: "'q option"

definition bi_new :: "fixedpairlist \<Rightarrow> 'q option \<Rightarrow> 'q bond_interaction" where
  "bi_new f q = \<lparr>bi_list = f, bi_potential = q\<rparr>"

definition setFixedPairList :: "fixedpairlist \<Rightarrow> 'q bond_interaction \<Rightarrow> 'q bond_interaction" where
  "setFixedPairList f B = B\<lparr>bi_list := f\<rparr>"

text \<open>A null pointer is only reported.\<close>

definition bi_setPotential :: "'q option \<Rightarrow> 'q bond_interaction \<Rightarrow> 'q bond_interaction" where
  "bi_setPotential q B = (case q of None \<Rightarrow> B | Some q \<Rightarrow> B\<lparr>bi_potential := Some q\<rparr>)"

text \<open>
  One round of a loop over the entries: \<open>step\<close> gets the potential and the pointers; reading a null pointer is
  not defined.
\<close>

definition bi_each :: "('q \<Rightarrow> 'p \<times> 'p \<Rightarrow> 's \<Rightarrow> 's) \<Rightarrow> 'q option \<Rightarrow> 'p option \<times> 'p option \<Rightarrow> 's \<Rightarrow> 's option" where
  "bi_each step potential entry s =
     (case (entry, potential) of ((Some p1, Some p2), Some q) \<Rightarrow> Some (step q (p1, p2) s) | _ \<Rightarrow> None)"

definition bi_loop :: "'q bond_interaction \<Rightarrow> ('q \<Rightarrow> ptr \<times> ptr \<Rightarrow> 's \<Rightarrow> 's) \<Rightarrow> 's \<Rightarrow> 's option" where
  "bi_loop B step s = ofold (bi_each step (bi_potential B)) (pairList (bi_list B)) s"

definition bond_step :: "(real3d \<Rightarrow> real3d \<Rightarrow> real3d) \<Rightarrow> ('q \<Rightarrow> real3d \<Rightarrow> real3d option) \<Rightarrow> 'q \<Rightarrow> 'p \<times> 'p \<Rightarrow>
    fixedpairlist \<times> real \<times> 'p memory \<Rightarrow> fixedpairlist \<times> real \<times> 'p memory" where
  "bond_step mi force q p s = (case (p, s) of ((p1, p2), (f, ltMaxBondSqr, h)) \<Rightarrow>
     (let dist1 = mi (p_pos (h p1)) (p_pos (h p2));
          d = real3d_sqr dist1;
          (f, ltMaxBondSqr) = (if d > ltMaxBondSqr then (setLongtimeMaxBondSqr d f, d) else (f, ltMaxBondSqr));
          h = (case force q dist1 of None \<Rightarrow> h | Some fo \<Rightarrow> sub_force p2 fo (add_force p1 fo h))
      in (f, ltMaxBondSqr, h)))"

definition bi_addForces :: "(real3d \<Rightarrow> real3d \<Rightarrow> real3d) \<Rightarrow> ('q \<Rightarrow> real3d \<Rightarrow> real3d option) \<Rightarrow> 'q bond_interaction \<Rightarrow> ptr memory \<Rightarrow>
    ('q bond_interaction \<times> ptr memory) option" where
  "bi_addForces mi force B h =
     map_option (\<lambda>(f, lt, h). (B\<lparr>bi_list := f\<rparr>, h))
       (bi_loop B (bond_step mi force) (bi_list B, getLongtimeMaxBondSqr (bi_list B), h))"

definition bi_localEnergy :: "(real3d \<Rightarrow> real3d \<Rightarrow> real3d) \<Rightarrow> ('q \<Rightarrow> real3d \<Rightarrow> real) \<Rightarrow> ptr memory \<Rightarrow> 'q bond_interaction \<Rightarrow> real option" where
  "bi_localEnergy mi energy h B =
     bi_loop B (\<lambda>q (p1, p2) e. e + energy q (mi (p_pos (h p1)) (p_pos (h p2)))) 0"

definition bond_virial_step :: "(real3d \<Rightarrow> real3d \<Rightarrow> real3d) \<Rightarrow> ('q \<Rightarrow> real3d \<Rightarrow> real3d option) \<Rightarrow> 'p memory \<Rightarrow>
    (real3d \<Rightarrow> real3d \<Rightarrow> 's) \<Rightarrow> 'q \<Rightarrow> 'p \<times> 'p \<Rightarrow> 's \<Rightarrow> 's::comm_monoid_add" where
  "bond_virial_step mi force h term q p w = (case p of (p1, p2) \<Rightarrow>
     (let r21 = mi (p_pos (h p1)) (p_pos (h p2))
      in case force q r21 of None \<Rightarrow> w | Some f \<Rightarrow> w + term r21 f))"

definition bi_localVirial :: "(real3d \<Rightarrow> real3d \<Rightarrow> real3d) \<Rightarrow> ('q \<Rightarrow> real3d \<Rightarrow> real3d option) \<Rightarrow> ptr memory \<Rightarrow> 'q bond_interaction \<Rightarrow> real option" where
  "bi_localVirial mi force h B = bi_loop B (bond_virial_step mi force h real3d_dot) 0"

definition bi_localVirialTensor :: "(real3d \<Rightarrow> real3d \<Rightarrow> real3d) \<Rightarrow> ('q \<Rightarrow> real3d \<Rightarrow> real3d option) \<Rightarrow> ptr memory \<Rightarrow> 'q bond_interaction \<Rightarrow> tensor option" where
  "bi_localVirialTensor mi force h B = bi_loop B (bond_virial_step mi force h tensor_of) (tensor_const 0)"

text \<open>The plane at height \<open>z\<close>: unlike for the Verlet list, the tensor is not divided by the distance.\<close>

definition bi_localVirialLayer :: "(real3d \<Rightarrow> real3d \<Rightarrow> real3d) \<Rightarrow> ('q \<Rightarrow> real3d \<Rightarrow> real3d option) \<Rightarrow> real \<Rightarrow> ptr memory \<Rightarrow>
    'q bond_interaction \<Rightarrow> tensor option" where
  "bi_localVirialLayer mi force z h B =
     bi_loop B (\<lambda>q (p1, p2) w.
       let p1pos = p_pos (h p1); p2pos = p_pos (h p2)
       in if (vz p1pos \<ge> z \<and> vz p2pos \<le> z) \<or> (vz p1pos \<le> z \<and> vz p2pos \<ge> z)
          then bond_virial_step mi force h tensor_of q (p1, p2) w else w) (tensor_const 0)"

text \<open>On all processes.\<close>

definition reduce_locals :: "('a \<Rightarrow> 's::comm_monoid_add option) \<Rightarrow> 'a list \<Rightarrow> 's option" where
  "reduce_locals local world = map_option all_reduce_plus (those (map local world))"

definition bi_computeEnergy :: "(real3d \<Rightarrow> real3d \<Rightarrow> real3d) \<Rightarrow> ('q \<Rightarrow> real3d \<Rightarrow> real) \<Rightarrow> ('q bond_interaction \<times> ptr memory) list \<Rightarrow> real option" where
  "bi_computeEnergy mi energy = reduce_locals (\<lambda>(B, h). bi_localEnergy mi energy h B)"

definition bi_computeVirial :: "(real3d \<Rightarrow> real3d \<Rightarrow> real3d) \<Rightarrow> ('q \<Rightarrow> real3d \<Rightarrow> real3d option) \<Rightarrow> ('q bond_interaction \<times> ptr memory) list \<Rightarrow> real option" where
  "bi_computeVirial mi force = reduce_locals (\<lambda>(B, h). bi_localVirial mi force h B)"

definition bi_computeVirialTensor :: "(real3d \<Rightarrow> real3d \<Rightarrow> real3d) \<Rightarrow> ('q \<Rightarrow> real3d \<Rightarrow> real3d option) \<Rightarrow> tensor \<Rightarrow>
    ('q bond_interaction \<times> ptr memory) list \<Rightarrow> tensor option" where
  "bi_computeVirialTensor mi force w world = map_option ((+) w) (reduce_locals (\<lambda>(B, h). bi_localVirialTensor mi force h B) world)"

definition bi_computeVirialLayer :: "(real3d \<Rightarrow> real3d \<Rightarrow> real3d) \<Rightarrow> ('q \<Rightarrow> real3d \<Rightarrow> real3d option) \<Rightarrow> tensor \<Rightarrow> real \<Rightarrow>
    ('q bond_interaction \<times> ptr memory) list \<Rightarrow> tensor option" where
  "bi_computeVirialLayer mi force w z world = map_option ((+) w) (reduce_locals (\<lambda>(B, h). bi_localVirialLayer mi force z h B) world)"

definition bi_getMaxCutoff :: "('q \<Rightarrow> cutoff) \<Rightarrow> 'q bond_interaction \<Rightarrow> cutoff option" where
  "bi_getMaxCutoff getCutoff B = map_option getCutoff (bi_potential B)"

section \<open>What the loops compute\<close>

text \<open>The entries of the list are the bonds \<open>ps\<close>, and there is a potential.\<close>

definition bi_bonds :: "'q bond_interaction \<Rightarrow> 'q \<Rightarrow> (ptr \<times> ptr) list \<Rightarrow> bool" where
  "bi_bonds B q ps \<longleftrightarrow> bi_potential B = Some q \<and> pairList (bi_list B) = map (\<lambda>(p1, p2). (Some p1, Some p2)) ps"

lemma bi_loop_fold: "bi_bonds B q ps \<Longrightarrow> bi_loop B step s = Some (fold (step q) ps s)"
proof -
  have "ofold (bi_each step (Some q)) (map (\<lambda>(p1, p2). (Some p1, Some p2)) ps) s = Some (fold (step q) ps s)"
    by (induction ps arbitrary: s) (auto simp: bi_each_def)
  then show "bi_bonds B q ps \<Longrightarrow> ?thesis" by (simp add: bi_bonds_def bi_loop_def)
qed

text \<open>A bond as a pair force: the potential at the minimum image.\<close>

definition bond_force :: "(real3d \<Rightarrow> real3d \<Rightarrow> real3d) \<Rightarrow> ('q \<Rightarrow> real3d \<Rightarrow> 'a) \<Rightarrow> 'q \<Rightarrow> particle \<Rightarrow> particle \<Rightarrow> 'a" where
  "bond_force mi f q x y = f q (mi (p_pos x) (p_pos y))"

definition bond_sqr :: "(real3d \<Rightarrow> real3d \<Rightarrow> real3d) \<Rightarrow> 'p memory \<Rightarrow> 'p \<times> 'p \<Rightarrow> real" where
  "bond_sqr mi h p = real3d_sqr (mi (p_pos (h (fst p))) (p_pos (h (snd p))))"

lemma bond_step_eq: "bond_step mi force q p (f, longtimeMaxBondSqr f, h)
    = (let m = max (longtimeMaxBondSqr f) (bond_sqr mi h p) in (setLongtimeMaxBondSqr m f, m, pair_step (bond_force mi force) q p h))"
  by (cases p) (auto simp: bond_step_def pair_step_def bond_force_def bond_sqr_def Let_def setLongtimeMaxBondSqr_def max_def split: option.splits)

lemma bond_sqr_pair_step: "bond_sqr mi (pair_step force q p h) = bond_sqr mi h"
  using pair_step_contribs [of force "\<lambda>_. q" p h] by (simp add: bond_sqr_def fun_eq_iff)

lemma bond_fold:
  "fold (bond_step mi force q) ps (f, longtimeMaxBondSqr f, h)
    = (let m = fold max (map (bond_sqr mi h) ps) (longtimeMaxBondSqr f)
       in (setLongtimeMaxBondSqr m f, m, fold (pair_step (bond_force mi force) q) ps h))"
proof (induction ps arbitrary: f h)
  case (Cons p ps)
  let ?m = "max (longtimeMaxBondSqr f) (bond_sqr mi h p)"
  have m: "longtimeMaxBondSqr (setLongtimeMaxBondSqr m f) = m" "setLongtimeMaxBondSqr n (setLongtimeMaxBondSqr m f) = setLongtimeMaxBondSqr n f" for m n
    by (simp_all add: setLongtimeMaxBondSqr_def)
  show ?case
    using Cons [of "setLongtimeMaxBondSqr ?m f" "pair_step (bond_force mi force) q p h"]
    by (simp add: bond_step_eq Let_def m bond_sqr_pair_step max.commute)
qed (simp add: setLongtimeMaxBondSqr_def)

lemma fold_max_start: "(m::real) \<le> fold max xs m"
  by (induction xs arbitrary: m) (auto intro: order_trans [OF max.cobounded2])

lemma fold_max_ge: "x \<in> set xs \<Longrightarrow> (x::real) \<le> fold max xs m"
proof (induction xs arbitrary: m)
  case (Cons y xs)
  then show ?case using fold_max_start [of "max y m" xs] by (auto intro: order_trans [OF max.cobounded1])
qed simp

section \<open>What the laws of the potential and of the image give\<close>

locale bond_field = central E F ffactor smooth + image mi mi' regular
  for E :: "'a raw_energy" and F :: "'a raw_force" and ffactor smooth mi mi' regular
begin

definition bond_smooth :: "'a pot \<Rightarrow> particle \<Rightarrow> particle \<Rightarrow> bool" where
  "bond_smooth q x y \<longleftrightarrow> (let s = real3d_sqr (mi (p_pos x) (p_pos y))
     in smooth q s \<and> off_cutoff q s \<and> regular (p_pos x) (p_pos y))"

lemma bond_gradient:
  assumes "bond_smooth q x y"
  shows "((\<lambda>t. bond_force mi (computeEnergyV E) q (shifted_by x (real3d_scale h t)) (shifted_by y (real3d_scale k t)))
      has_real_derivative - real3d_dot (total (bond_force mi (computeForceV F) q x y)) (h - k)) (at 0)"
proof -
  let ?d = "mi (p_pos x) (p_pos y)"
  have s: "smooth q (real3d_sqr ?d)" "off_cutoff q (real3d_sqr ?d)" "regular (p_pos x) (p_pos y)"
    using assms by (simp_all add: bond_smooth_def Let_def)
  have "eventually (\<lambda>t. bond_force mi (computeEnergyV E) q (shifted_by x (real3d_scale h t)) (shifted_by y (real3d_scale k t))
      = computeEnergyV E q (?d + real3d_scale (h - k) t)) (nhds 0)"
    using image_local [OF s(3), of h k] by (rule eventually_mono) (simp add: bond_force_def)
  from gradient [OF s(1,2), of "h - k"] DERIV_cong_ev [OF refl this refl] show ?thesis
    by (simp add: computeForce_def total_def bond_force_def)
qed

end

sublocale bond_field \<subseteq> bonds: pair_field "bond_force mi (computeEnergyV E)" "bond_force mi (computeForceV F)" bond_smooth
  by unfold_locales (simp_all add: bond_gradient, simp add: bond_force_def)

context bond_field
begin

lemma bond_addForces_spec:
  assumes "bi_bonds B q ps"
  shows "bi_addForces mi (computeForceV F) B h = Some (B\<lparr>bi_list := setLongtimeMaxBondSqr
      (fold max (map (bond_sqr mi h) ps) (longtimeMaxBondSqr (bi_list B))) (bi_list B)\<rparr>,
      forced (pair_forces (bond_force mi (computeForceV F)) (\<lambda>_. q) h ps) h)"
  using bonds.fold_pair_step [of "\<lambda>_. q" ps h]
  by (simp add: bi_addForces_def bi_loop_fold [OF assms] getLongtimeMaxBondSqr_def bond_fold Let_def)

lemma bond_newton:
  assumes "bi_bonds B q ps" "bi_addForces mi (computeForceV F) B h = Some (B', h')"
    and "finite A" "fst ` set ps \<union> snd ` set ps \<subseteq> A"
  shows "(\<Sum>a\<in>A. force_at h' a) = (\<Sum>a\<in>A. force_at h a)"
proof -
  let ?cs = "pair_forces (bond_force mi (computeForceV F)) (\<lambda>_. q) h ps"
  have h': "h' = forced ?cs h" using assms(2) by (simp add: bond_addForces_spec [OF assms(1)])
  have "fst ` set ?cs \<subseteq> A" using pair_forces_in assms(4) by (rule order_trans)
  from net_sum [OF assms(3) this] show ?thesis unfolding h' force_at_forced sum.distrib pair_forces_sum by simp
qed

lemma bond_addForces_gradient:
  assumes "bi_bonds B q ps" "bi_addForces mi (computeForceV F) B h = Some (B', h')"
    and "\<And>p1 p2. (p1, p2) \<in> set ps \<Longrightarrow> bond_smooth q (h p1) (h p2)"
    and "finite A" "fst ` set ps \<union> snd ` set ps \<subseteq> A"
  shows "((\<lambda>t. the (bi_localEnergy mi (computeEnergyV E) (moved u t h) B)) has_real_derivative
    - (\<Sum>a\<in>A. real3d_dot (force_at h' a - force_at h a) (u a))) (at 0)"
proof -
  let ?cs = "pair_forces (bond_force mi (computeForceV F)) (\<lambda>_. q) h ps"
  have h': "h' = forced ?cs h" using assms(2) by (simp add: bond_addForces_spec [OF assms(1)])
  have "fst ` set ?cs \<subseteq> A" using pair_forces_in assms(5) by (rule order_trans)
  from net_work [OF assms(4) this, of u]
  have w: "(\<Sum>a\<in>A. real3d_dot (force_at h' a - force_at h a) (u a)) = (\<Sum>(p, f)\<leftarrow>?cs. real3d_dot f (u p))"
    unfolding h' force_at_forced by simp
  have "the (bi_localEnergy mi (computeEnergyV E) (moved u t h) B)
      = pair_energy (bond_force mi (computeEnergyV E)) (\<lambda>_. q) ps (moved u t h)" for t
  proof -
    have e: "(\<lambda>(p1, p2) e. e + computeEnergyV E q (mi (p_pos (moved u t h p1)) (p_pos (moved u t h p2))))
      = (\<lambda>p e. e + (case p of (p1, p2) \<Rightarrow> bond_force mi (computeEnergyV E) q (moved u t h p1) (moved u t h p2)))"
      by (auto simp: fun_eq_iff bond_force_def)
    show ?thesis unfolding bi_localEnergy_def bi_loop_fold [OF assms(1)] e fold_plus pair_energy_def by simp
  qed
  then show ?thesis unfolding w by (simp add: bonds.energy_gradient assms(3))
qed

end

end
