(* ===== verification/AngleInteractions.thy ===== *)
theory AngleInteractions
  imports BondInteractions FixedTripleList
begin

text \<open>
  Angles: \<^verbatim>\<open>src/src/interaction/AngularPotential.hpp\<close>, the potentials \<^verbatim>\<open>Cosine\<close>, \<^verbatim>\<open>AngularHarmonic\<close> and
  \<^verbatim>\<open>AngularCosineSquared\<close>, and \<^verbatim>\<open>FixedTripleListInteractionTemplate.hpp\<close>, the interaction of the triples
  of a \<^verbatim>\<open>FixedTripleList\<close>.  The locale \<open>angular\<close> states how the forces of a potential come from the
  derivative of its energy by the cosine of the angle.
\<close>

section \<open>The base class\<close>

record 'a ang =
  an_par :: 'a
  an_cutoff :: cutoff
  an_cutoffSqr :: cutoff

type_synonym 'a angle_energy = "'a ang \<Rightarrow> real \<Rightarrow> real"
type_synonym 'a angle_force = "'a ang \<Rightarrow> real3d \<Rightarrow> real3d \<Rightarrow> real3d \<times> real3d"

definition AngularPotentialTemplate_new :: "'a \<Rightarrow> 'a ang" where
  "AngularPotentialTemplate_new a = \<lparr>an_par = a, an_cutoff = None, an_cutoffSqr = None\<rparr>"

definition ang_setCutoff :: "cutoff \<Rightarrow> 'a ang \<Rightarrow> 'a ang" where
  "ang_setCutoff c q = q\<lparr>an_cutoff := c, an_cutoffSqr := cut_sqr c\<rparr>"

definition upd_ang :: "('a \<Rightarrow> 'a) \<Rightarrow> 'a ang \<Rightarrow> 'a ang" where
  "upd_ang f q = q\<lparr>an_par := f (an_par q)\<rparr>"

definition reaches :: "real \<Rightarrow> cutoff \<Rightarrow> bool" where
  "reaches s c = (case c of None \<Rightarrow> False | Some r \<Rightarrow> s \<ge> r)"

text \<open>The virtual \<^verbatim>\<open>computeEnergy\<close> knows no cutoff, \<^verbatim>\<open>_computeEnergy\<close> does; the forces know none.\<close>

definition ang_computeEnergy :: "'a angle_energy \<Rightarrow> 'a ang \<Rightarrow> real3d \<Rightarrow> real3d \<Rightarrow> real" where
  "ang_computeEnergy U q dist12 dist32 =
     (let dist12Sqr = real3d_dot dist12 dist12; dist32Sqr = real3d_dot dist32 dist32;
          cos_theta = real3d_dot dist12 dist32 / (sqrt dist12Sqr * sqrt dist32Sqr)
      in U q (arccos cos_theta))"

definition ang_energy :: "'a angle_energy \<Rightarrow> 'a ang \<Rightarrow> real3d \<Rightarrow> real3d \<Rightarrow> real" where
  "ang_energy U q dist12 dist32 =
     (let dist12_sqr = real3d_dot dist12 dist12; dist32_sqr = real3d_dot dist32 dist32
      in if reaches dist12_sqr (an_cutoffSqr q) \<or> reaches dist32_sqr (an_cutoffSqr q) then 0
         else (let cos_theta = real3d_dot dist12 dist32 / (sqrt dist12_sqr * sqrt dist32_sqr)
               in U q (arccos cos_theta)))"

definition ang_energyPPP :: "'a angle_energy \<Rightarrow> 'a ang \<Rightarrow> particle \<Rightarrow> particle \<Rightarrow> particle \<Rightarrow> real" where
  "ang_energyPPP U q x1 x2 x3 = ang_energy U q (p_pos x1 - p_pos x2) (p_pos x3 - p_pos x2)"

definition ang_forcePPP :: "'a angle_force \<Rightarrow> 'a ang \<Rightarrow> particle \<Rightarrow> particle \<Rightarrow> particle \<Rightarrow> real3d \<times> real3d" where
  "ang_forcePPP F q x1 x2 x3 = F q (p_pos x1 - p_pos x2) (p_pos x3 - p_pos x2)"

definition clamp :: "real \<Rightarrow> real" where
  "clamp c = (if c < -1 then -1 else if c > 1 then 1 else c)"

section \<open>The potentials\<close>

text \<open>\<^verbatim>\<open>Cosine.hpp\<close>.\<close>

record cosine =
  cs_K :: real
  cs_theta0 :: real
  cs_Kcos_theta0 :: real
  cs_Ksin_theta0 :: real

definition cs_preset :: "cosine \<Rightarrow> cosine" where
  "cs_preset a = a\<lparr>cs_Kcos_theta0 := cs_K a * cos (cs_theta0 a), cs_Ksin_theta0 := cs_K a * sin (cs_theta0 a)\<rparr>"

definition Cosine_new :: "real \<Rightarrow> real \<Rightarrow> cosine ang" where
  "Cosine_new K theta0 = AngularPotentialTemplate_new
     (cs_preset \<lparr>cs_K = K, cs_theta0 = theta0, cs_Kcos_theta0 = 0, cs_Ksin_theta0 = 0\<rparr>)"

definition cs_setK :: "real \<Rightarrow> cosine ang \<Rightarrow> cosine ang" where
  "cs_setK K = upd_ang (\<lambda>a. cs_preset (a\<lparr>cs_K := K\<rparr>))"

definition cs_setTheta0 :: "real \<Rightarrow> cosine ang \<Rightarrow> cosine ang" where
  "cs_setTheta0 theta0 = upd_ang (\<lambda>a. cs_preset (a\<lparr>cs_theta0 := theta0\<rparr>))"

definition cs_U :: "cosine angle_energy" where
  "cs_U q theta = cs_K (an_par q) * (1 + cos (theta - cs_theta0 (an_par q)))"

definition SMALL_EPSILON :: real where "SMALL_EPSILON = 1 / 10^9"

definition cs_F :: "cosine angle_force" where
  "cs_F q dist12 dist32 =
     (let a = an_par q;
          dist12_sqr = real3d_dot dist12 dist12; dist32_sqr = real3d_dot dist32 dist32;
          dist12_magn = sqrt dist12_sqr; dist32_magn = sqrt dist32_sqr;
          cos_theta = clamp (real3d_dot dist12 dist32 / (dist12_magn * dist32_magn));
          sin_theta = sqrt (1 - cos_theta * cos_theta);
          a11 = cos_theta / dist12_sqr;
          a12 = - 1 / (dist12_magn * dist32_magn);
          a22 = cos_theta / dist32_sqr
      in if sin_theta > SMALL_EPSILON
         then (real3d_scale (real3d_scale dist12 a11 + real3d_scale dist32 a12) (cs_Kcos_theta0 a - cs_Ksin_theta0 a * cos_theta / sin_theta),
               real3d_scale (real3d_scale dist32 a22 + real3d_scale dist12 a12) (cs_Kcos_theta0 a - cs_Ksin_theta0 a * cos_theta / sin_theta))
         else (0, 0))"

text \<open>\<^verbatim>\<open>AngularHarmonic.hpp\<close>; the parameters are \<^verbatim>\<open>K\<close> and \<^verbatim>\<open>theta0\<close>.\<close>

definition AngularHarmonic_new :: "real \<Rightarrow> real \<Rightarrow> (real \<times> real) ang" where
  "AngularHarmonic_new K theta0 = AngularPotentialTemplate_new (K, theta0)"

definition ah_setK :: "real \<Rightarrow> (real \<times> real) ang \<Rightarrow> (real \<times> real) ang" where
  "ah_setK K = upd_ang (\<lambda>(_, theta0). (K, theta0))"

definition ah_setTheta0 :: "real \<Rightarrow> (real \<times> real) ang \<Rightarrow> (real \<times> real) ang" where
  "ah_setTheta0 theta0 = upd_ang (\<lambda>(K, _). (K, theta0))"

definition ah_U :: "(real \<times> real) angle_energy" where
  "ah_U q theta = (case an_par q of (K, theta0) \<Rightarrow> K * (theta - theta0)\<^sup>2)"

definition ah_F :: "(real \<times> real) angle_force" where
  "ah_F q dist12 dist32 = (case an_par q of (K, theta0) \<Rightarrow>
     (let dist12_sqr = real3d_dot dist12 dist12; dist32_sqr = real3d_dot dist32 dist32;
          dist12_magn = sqrt dist12_sqr; dist32_magn = sqrt dist32_sqr;
          dist1232 = dist12_magn * dist32_magn;
          cos_theta = clamp (real3d_dot dist12 dist32 / dist1232);
          sin_theta = sqrt (1 - cos_theta * cos_theta);
          sin_theta = (if sin_theta < SMALL_EPSILON then SMALL_EPSILON else sin_theta);
          dU_dtheta = - 2 * K * (arccos cos_theta - theta0) / sin_theta;
          a11 = dU_dtheta * cos_theta / dist12_sqr;
          a12 = - dU_dtheta / dist1232;
          a22 = dU_dtheta * cos_theta / dist32_sqr
      in (real3d_scale dist12 a11 + real3d_scale dist32 a12, real3d_scale dist32 a22 + real3d_scale dist12 a12)))"

text \<open>\<^verbatim>\<open>AngularCosineSquared.hpp\<close>; the default constructor leaves \<^verbatim>\<open>cos_theta0\<close> unset (\<open>garbage\<close>).\<close>

record cosine_squared =
  sq_K :: real
  sq_theta0 :: real
  sq_cos_theta0 :: real

definition AngularCosineSquared_default :: "real \<Rightarrow> cosine_squared ang" where
  "AngularCosineSquared_default garbage = AngularPotentialTemplate_new \<lparr>sq_K = 0, sq_theta0 = 0, sq_cos_theta0 = garbage\<rparr>"

definition AngularCosineSquared_new :: "real \<Rightarrow> real \<Rightarrow> cosine_squared ang" where
  "AngularCosineSquared_new K theta0 = AngularPotentialTemplate_new \<lparr>sq_K = K, sq_theta0 = theta0, sq_cos_theta0 = cos theta0\<rparr>"

definition sq_setK :: "real \<Rightarrow> cosine_squared ang \<Rightarrow> cosine_squared ang" where
  "sq_setK K = upd_ang (\<lambda>a. a\<lparr>sq_K := K\<rparr>)"

definition sq_setTheta0 :: "real \<Rightarrow> cosine_squared ang \<Rightarrow> cosine_squared ang" where
  "sq_setTheta0 theta0 = upd_ang (\<lambda>a. a\<lparr>sq_theta0 := theta0, sq_cos_theta0 := cos theta0\<rparr>)"

definition sq_U :: "cosine_squared angle_energy" where
  "sq_U q theta = sq_K (an_par q) * (cos theta - sq_cos_theta0 (an_par q))\<^sup>2"

definition sq_F :: "cosine_squared angle_force" where
  "sq_F q dist12 dist32 =
     (let a = an_par q;
          dist12_sqr = real3d_dot dist12 dist12; dist32_sqr = real3d_dot dist32 dist32;
          dist12_magn = sqrt dist12_sqr; dist32_magn = sqrt dist32_sqr;
          dist1232 = dist12_magn * dist32_magn;
          cos_theta = clamp (real3d_dot dist12 dist32 / dist1232);
          dU_dtheta = 2 * sq_K a * (cos_theta - sq_cos_theta0 a);
          a11 = dU_dtheta * cos_theta / dist12_sqr;
          a12 = - dU_dtheta / dist1232;
          a22 = dU_dtheta * cos_theta / dist32_sqr
      in (real3d_scale dist12 a11 + real3d_scale dist32 a12, real3d_scale dist32 a22 + real3d_scale dist12 a12))"

section \<open>The interaction\<close>

record 'q angle_interaction =
  ai_list :: fixedtriplelist
  ai_potential :: "'q option"

definition ai_new :: "fixedtriplelist \<Rightarrow> 'q option \<Rightarrow> 'q angle_interaction" where
  "ai_new f q = \<lparr>ai_list = f, ai_potential = q\<rparr>"

definition setFixedTripleList :: "fixedtriplelist \<Rightarrow> 'q angle_interaction \<Rightarrow> 'q angle_interaction" where
  "setFixedTripleList f A = A\<lparr>ai_list := f\<rparr>"

definition ai_setPotential :: "'q option \<Rightarrow> 'q angle_interaction \<Rightarrow> 'q angle_interaction" where
  "ai_setPotential q A = (case q of None \<Rightarrow> A | Some q \<Rightarrow> A\<lparr>ai_potential := Some q\<rparr>)"

definition ai_each :: "('q \<Rightarrow> 'p \<times> 'p \<times> 'p \<Rightarrow> 's \<Rightarrow> 's) \<Rightarrow> 'q option \<Rightarrow> 'p option \<times> 'p option \<times> 'p option \<Rightarrow> 's \<Rightarrow> 's option" where
  "ai_each step potential entry s =
     (case (entry, potential) of ((Some p1, Some p2, Some p3), Some q) \<Rightarrow> Some (step q (p1, p2, p3) s) | _ \<Rightarrow> None)"

definition ai_loop :: "'q angle_interaction \<Rightarrow> ('q \<Rightarrow> ptr \<times> ptr \<times> ptr \<Rightarrow> 's \<Rightarrow> 's) \<Rightarrow> 's \<Rightarrow> 's option" where
  "ai_loop A step s = ofold (ai_each step (ai_potential A)) (tripleList (ai_list A)) s"

definition angle_step :: "(real3d \<Rightarrow> real3d \<Rightarrow> real3d) \<Rightarrow> ('q \<Rightarrow> real3d \<Rightarrow> real3d \<Rightarrow> real3d \<times> real3d) \<Rightarrow> 'q \<Rightarrow> 'p \<times> 'p \<times> 'p \<Rightarrow>
    'p memory \<Rightarrow> 'p memory" where
  "angle_step mi force q p h = (case p of (p1, p2, p3) \<Rightarrow>
     (let dist12 = mi (p_pos (h p1)) (p_pos (h p2)); dist32 = mi (p_pos (h p3)) (p_pos (h p2));
          (force12, force32) = force q dist12 dist32
      in add_force p3 force32 (sub_force p2 (force12 + force32) (add_force p1 force12 h))))"

definition ai_addForces :: "(real3d \<Rightarrow> real3d \<Rightarrow> real3d) \<Rightarrow> ('q \<Rightarrow> real3d \<Rightarrow> real3d \<Rightarrow> real3d \<times> real3d) \<Rightarrow> 'q angle_interaction \<Rightarrow>
    ptr memory \<Rightarrow> ptr memory option" where
  "ai_addForces mi force A h = ai_loop A (angle_step mi force) h"

text \<open>The energy is computed with the other minimum image function, \<^verbatim>\<open>getMinimumImageVector\<close>.\<close>

definition ai_localEnergy :: "(real3d \<Rightarrow> real3d \<Rightarrow> real3d) \<Rightarrow> ('q \<Rightarrow> real3d \<Rightarrow> real3d \<Rightarrow> real) \<Rightarrow> ptr memory \<Rightarrow> 'q angle_interaction \<Rightarrow> real option" where
  "ai_localEnergy mi' energy h A =
     ai_loop A (\<lambda>q (p1, p2, p3) e. e + energy q (mi' (p_pos (h p1)) (p_pos (h p2))) (mi' (p_pos (h p3)) (p_pos (h p2)))) 0"

definition angle_virial_step :: "(real3d \<Rightarrow> real3d \<Rightarrow> real3d) \<Rightarrow> ('q \<Rightarrow> real3d \<Rightarrow> real3d \<Rightarrow> real3d \<times> real3d) \<Rightarrow> 'p memory \<Rightarrow>
    (real3d \<Rightarrow> real3d \<Rightarrow> 's) \<Rightarrow> 'q \<Rightarrow> 'p \<times> 'p \<times> 'p \<Rightarrow> 's \<Rightarrow> 's::comm_monoid_add" where
  "angle_virial_step mi force h term q p w = (case p of (p1, p2, p3) \<Rightarrow>
     (let r12 = mi (p_pos (h p1)) (p_pos (h p2)); r32 = mi (p_pos (h p3)) (p_pos (h p2));
          (force12, force32) = force q r12 r32
      in w + (term r12 force12 + term r32 force32)))"

definition ai_localVirial :: "(real3d \<Rightarrow> real3d \<Rightarrow> real3d) \<Rightarrow> ('q \<Rightarrow> real3d \<Rightarrow> real3d \<Rightarrow> real3d \<times> real3d) \<Rightarrow> ptr memory \<Rightarrow>
    'q angle_interaction \<Rightarrow> real option" where
  "ai_localVirial mi force h A = ai_loop A (angle_virial_step mi force h real3d_dot) 0"

definition ai_localVirialTensor :: "(real3d \<Rightarrow> real3d \<Rightarrow> real3d) \<Rightarrow> ('q \<Rightarrow> real3d \<Rightarrow> real3d \<Rightarrow> real3d \<times> real3d) \<Rightarrow> ptr memory \<Rightarrow>
    'q angle_interaction \<Rightarrow> tensor option" where
  "ai_localVirialTensor mi force h A = ai_loop A (angle_virial_step mi force h tensor_of) (tensor_const 0)"

definition ai_computeEnergy :: "(real3d \<Rightarrow> real3d \<Rightarrow> real3d) \<Rightarrow> ('q \<Rightarrow> real3d \<Rightarrow> real3d \<Rightarrow> real) \<Rightarrow> ('q angle_interaction \<times> ptr memory) list \<Rightarrow> real option" where
  "ai_computeEnergy mi' energy = reduce_locals (\<lambda>(A, h). ai_localEnergy mi' energy h A)"

definition ai_computeVirial :: "(real3d \<Rightarrow> real3d \<Rightarrow> real3d) \<Rightarrow> ('q \<Rightarrow> real3d \<Rightarrow> real3d \<Rightarrow> real3d \<times> real3d) \<Rightarrow>
    ('q angle_interaction \<times> ptr memory) list \<Rightarrow> real option" where
  "ai_computeVirial mi force = reduce_locals (\<lambda>(A, h). ai_localVirial mi force h A)"

definition ai_computeVirialTensor :: "(real3d \<Rightarrow> real3d \<Rightarrow> real3d) \<Rightarrow> ('q \<Rightarrow> real3d \<Rightarrow> real3d \<Rightarrow> real3d \<times> real3d) \<Rightarrow> tensor \<Rightarrow>
    ('q angle_interaction \<times> ptr memory) list \<Rightarrow> tensor option" where
  "ai_computeVirialTensor mi force w world = map_option ((+) w) (reduce_locals (\<lambda>(A, h). ai_localVirialTensor mi force h A) world)"

definition ai_getMaxCutoff :: "'a ang angle_interaction \<Rightarrow> cutoff option" where
  "ai_getMaxCutoff A = map_option an_cutoff (ai_potential A)"

section \<open>The cosine of an angle\<close>

definition cos_of :: "real3d \<Rightarrow> real3d \<Rightarrow> real" where
  "cos_of v w = real3d_dot v w / (sqrt (real3d_dot v v) * sqrt (real3d_dot w w))"

lemma dot_self: "real3d_dot v v = real3d_sqr v"
  by (simp add: real3d_dot_def real3d_sqr_def)

lemma sqr_pos0: "v \<noteq> 0 \<Longrightarrow> 0 < real3d_sqr v"
proof -
  assume "v \<noteq> 0"
  then have "vx v \<noteq> 0 \<or> vy v \<noteq> 0 \<or> vz v \<noteq> 0" by (simp add: vec_eq_iff)
  then have "vx v * vx v + vy v * vy v + vz v * vz v \<noteq> 0" by (auto simp: add_nonneg_eq_0_iff)
  then show "0 < real3d_sqr v" using real3d_sqr_nonneg [of v] by (simp add: real3d_sqr_def less_le)
qed

lemma cos_of_bounds: "- 1 \<le> cos_of v w" "cos_of v w \<le> 1"
proof -
  let ?m = "sqrt (real3d_sqr v) * sqrt (real3d_sqr w)"
  have "(real3d_dot v w)\<^sup>2 \<le> real3d_sqr v * real3d_sqr w"
    using real3d_lagrange [of v w] real3d_sqr_nonneg [of "real3d_cross v w"] by linarith
  also have "\<dots> = ?m\<^sup>2" by (simp add: power_mult_distrib)
  finally have "\<bar>real3d_dot v w\<bar> \<le> \<bar>?m\<bar>" by (simp only: abs_le_square_iff)
  moreover have m: "0 \<le> ?m" by (intro mult_nonneg_nonneg real_sqrt_ge_zero real3d_sqr_nonneg)
  ultimately have "\<bar>real3d_dot v w\<bar> / ?m \<le> 1" by (intro divide_le_eq_1 [THEN iffD2]) linarith
  then have "\<bar>cos_of v w\<bar> \<le> 1" using m by (simp only: cos_of_def dot_self abs_divide abs_of_nonneg)
  then show "- 1 \<le> cos_of v w" "cos_of v w \<le> 1" by linarith+
qed

lemma clamp_cos_of [simp]: "clamp (cos_of v w) = cos_of v w"
  using cos_of_bounds [of v w] by (simp add: clamp_def)

lemma cos_of_sqr: "real3d_dot v w / (sqrt (real3d_sqr v) * sqrt (real3d_sqr w)) = cos_of v w"
  by (simp add: cos_of_def dot_self)

lemma dot_line_deriv:
  "((\<lambda>t. real3d_dot (v + real3d_scale h t) (w + real3d_scale k t)) has_real_derivative real3d_dot h w + real3d_dot v k) (at 0)"
  unfolding real3d_dot_def by (auto intro!: derivative_eq_intros)

lemma cos_of_deriv_alg:
  fixes n m A B x y :: real
  assumes "0 < A" "0 < B"
  shows "n * (1 / sqrt (A * B)) + (- (1 / (sqrt (A * B) * (A * B)) / 2) * (2 * x * B + 2 * y * A)) * m
    = n / (sqrt A * sqrt B) - m / (sqrt A * sqrt B) * (x / A + y / B)"
proof -
  define i j where ij: "i = 1 / sqrt A" "j = 1 / sqrt B"
  have r: "1 / sqrt (A * B) = i * j" "1 / A = i * i" "1 / B = j * j"
    using assms by (simp_all add: ij real_sqrt_mult)
  have u: "A * (i * i) = 1" "B * (j * j) = 1" using assms by (simp_all add: r(2,3) [symmetric])
  have "1 / (sqrt (A * B) * (A * B)) = (1 / sqrt (A * B)) * ((1 / A) * (1 / B))" by simp
  then have c: "1 / (sqrt (A * B) * (A * B)) = (i * j) * ((i * i) * (j * j))" unfolding r .
  have "(i * j) * ((i * i) * (j * j)) * (x * B + y * A) = i * j * (x * (i * i) + y * (j * j))"
    using u by algebra
  moreover have "x / A = x * (1 / A)" "y / B = y * (1 / B)" "n / (sqrt A * sqrt B) = n * (1 / sqrt (A * B))" "m / (sqrt A * sqrt B) = m * (1 / sqrt (A * B))"
    by (simp_all add: real_sqrt_mult)
  ultimately show ?thesis unfolding c r by algebra
qed

lemma cos_of_curve:
  assumes d: "((\<lambda>t. real3d_dot (m t) (n t)) has_real_derivative e) (at 0)"
    and x: "((\<lambda>t. real3d_sqr (m t)) has_real_derivative 2 * x) (at 0)" and y: "((\<lambda>t. real3d_sqr (n t)) has_real_derivative 2 * y) (at 0)"
    and pos: "m 0 \<noteq> 0" "n 0 \<noteq> 0"
  shows "((\<lambda>t. cos_of (m t) (n t)) has_real_derivative
    e / (sqrt (real3d_sqr (m 0)) * sqrt (real3d_sqr (n 0))) - cos_of (m 0) (n 0) * (x / real3d_sqr (m 0) + y / real3d_sqr (n 0))) (at 0)"
proof -
  let ?A = "real3d_sqr (m 0)" and ?B = "real3d_sqr (n 0)"
  have p: "0 < ?A" "0 < ?B" using pos by (simp_all add: sqr_pos0)
  have e: "cos_of (m t) (n t) = real3d_dot (m t) (n t) * (1 / sqrt (real3d_sqr (m t) * real3d_sqr (n t)))" for t
    by (simp add: cos_of_def dot_self real_sqrt_mult)
  have "((\<lambda>t. real3d_sqr (m t) * real3d_sqr (n t)) has_real_derivative 2 * x * ?B + 2 * y * ?A) (at 0)"
    by (rule DERIV_mult [OF x y])
  from DERIV_chain2 [OF inverse_sqrt_deriv this] p
  have "((\<lambda>t. 1 / sqrt (real3d_sqr (m t) * real3d_sqr (n t))) has_real_derivative
      - (1 / (sqrt (?A * ?B) * (?A * ?B)) / 2) * (2 * x * ?B + 2 * y * ?A)) (at 0)" by simp
  from DERIV_mult [OF d this]
  have "((\<lambda>t. cos_of (m t) (n t)) has_real_derivative
      e * (1 / sqrt (?A * ?B)) + (- (1 / (sqrt (?A * ?B) * (?A * ?B)) / 2) * (2 * x * ?B + 2 * y * ?A)) * real3d_dot (m 0) (n 0)) (at 0)"
    unfolding e .
  then show ?thesis by (rule DERIV_cong) (simp only: cos_of_deriv_alg [OF p] cos_of_def dot_self)
qed

lemma cos_of_deriv:
  assumes "v \<noteq> 0" "w \<noteq> 0"
  shows "((\<lambda>t. cos_of (v + real3d_scale h t) (w + real3d_scale k t)) has_real_derivative
    (real3d_dot h w + real3d_dot v k) / (sqrt (real3d_sqr v) * sqrt (real3d_sqr w))
      - cos_of v w * (real3d_dot v h / real3d_sqr v + real3d_dot w k / real3d_sqr w)) (at 0)"
proof -
  have z: "u + real3d_scale u' 0 = u" for u u' by (simp add: vec_eq_iff)
  from cos_of_curve [OF dot_line_deriv sqr_deriv sqr_deriv, of v h w k] assms show ?thesis by (simp only: z simp_thms)
qed

section \<open>The laws of an angular potential\<close>

locale angular =
  fixes U :: "'a angle_energy" and F :: "'a angle_force" and G :: "'a ang \<Rightarrow> real \<Rightarrow> real" and smooth :: "'a ang \<Rightarrow> real \<Rightarrow> bool"
  assumes angle_shape: "F q v w =
      (let c = cos_of v w; a = - 1 / (sqrt (real3d_sqr v) * sqrt (real3d_sqr w))
       in (real3d_scale (real3d_scale v (c / real3d_sqr v) + real3d_scale w a) (G q c),
           real3d_scale (real3d_scale w (c / real3d_sqr w) + real3d_scale v a) (G q c)))"
    and angle_deriv: "smooth q c \<Longrightarrow> ((\<lambda>c. U q (arccos c)) has_real_derivative G q c) (at c)"
begin

text \<open>Each force is orthogonal to its bond, so an angle has no virial; together they have no torque.\<close>

lemma angle_orthogonal: "real3d_dot v (fst (F q v w)) = 0" "real3d_dot w (snd (F q v w)) = 0"
proof -
  let ?m = "sqrt (real3d_sqr v) * sqrt (real3d_sqr w)"
  have z: "cos_of v w / real3d_sqr u * real3d_sqr u + real3d_dot v w * (- 1 / ?m) = 0" if "u \<noteq> 0" for u
    using sqr_pos0 [OF that] by (simp add: cos_of_def dot_self)
  have d: "real3d_dot u (real3d_scale (real3d_scale u x + real3d_scale y a) g) = g * (x * real3d_sqr u + real3d_dot u y * a)" for u y x a g
    by (simp add: real3d_dot_def real3d_sqr_def algebra_simps)
  have s: "real3d_dot w v = real3d_dot v w" by (simp add: real3d_dot_def algebra_simps)
  show "real3d_dot v (fst (F q v w)) = 0"
  proof (cases "v = 0")
    case False
    show ?thesis unfolding angle_shape Let_def fst_conv d z [OF False] by simp
  qed simp
  show "real3d_dot w (snd (F q v w)) = 0"
  proof (cases "w = 0")
    case False
    show ?thesis unfolding angle_shape Let_def snd_conv d s z [OF False] by simp
  qed simp
qed

lemma angle_torque: "real3d_cross v (fst (F q v w)) + real3d_cross w (snd (F q v w)) = 0"
  by (simp add: angle_shape Let_def real3d_cross_def vec_eq_iff algebra_simps)

lemma angle_gradient:
  assumes "v \<noteq> 0" "w \<noteq> 0" "smooth q (cos_of v w)"
  shows "((\<lambda>t. U q (arccos (cos_of (v + real3d_scale h t) (w + real3d_scale k t)))) has_real_derivative
    - (real3d_dot (fst (F q v w)) h + real3d_dot (snd (F q v w)) k)) (at 0)"
proof -
  have z: "v + real3d_scale h 0 = v" "w + real3d_scale k 0 = w" by (simp_all add: vec_eq_iff)
  have "((\<lambda>c. U q (arccos c)) has_real_derivative G q (cos_of v w)) (at (cos_of (v + real3d_scale h 0) (w + real3d_scale k 0)))"
    unfolding z by (rule angle_deriv [OF assms(3)])
  from DERIV_chain2 [OF this cos_of_deriv [OF assms(1,2)]]
  show ?thesis
  proof (rule DERIV_cong)
    let ?c = "cos_of v w" and ?m = "sqrt (real3d_sqr v) * sqrt (real3d_sqr w)"
    have alg: "g * ((hw + vk) / m - c * (vh / A + wk / B))
        = - ((c / A * vh + (- 1 / m) * hw) * g + (c / B * wk + (- 1 / m) * vk) * g)" for g hw vk m c vh wk A B :: real
      by (simp add: algebra_simps add_divide_distrib)
    have d: "real3d_dot (real3d_scale (real3d_scale x a + real3d_scale y b) g) u = (a * real3d_dot x u + b * real3d_dot u y) * g" for x y u a b g
      by (simp add: real3d_dot_def algebra_simps)
    have s: "real3d_dot k v = real3d_dot v k" by (simp add: real3d_dot_def algebra_simps)
    show "G q ?c * ((real3d_dot h w + real3d_dot v k) / ?m - ?c * (real3d_dot v h / real3d_sqr v + real3d_dot w k / real3d_sqr w))
        = - (real3d_dot (fst (F q v w)) h + real3d_dot (snd (F q v w)) k)"
      unfolding angle_shape Let_def fst_conv snd_conv d s by (rule alg)
  qed
qed

text \<open>Inside the cutoff the energy that the interactions use is this one.\<close>

definition ang_inside :: "'a ang \<Rightarrow> real3d \<Rightarrow> real3d \<Rightarrow> bool" where
  "ang_inside q v w \<longleftrightarrow> (\<forall>r. an_cutoffSqr q = Some r \<longrightarrow> real3d_sqr v < r \<and> real3d_sqr w < r)"

definition ang_smooth :: "'a ang \<Rightarrow> real3d \<Rightarrow> real3d \<Rightarrow> bool" where
  "ang_smooth q v w \<longleftrightarrow> v \<noteq> 0 \<and> w \<noteq> 0 \<and> smooth q (cos_of v w) \<and> ang_inside q v w"

lemma ang_energy_gradient:
  assumes "ang_smooth q v w"
  shows "((\<lambda>t. ang_energy U q (v + real3d_scale h t) (w + real3d_scale k t)) has_real_derivative
    - (real3d_dot (fst (F q v w)) h + real3d_dot (snd (F q v w)) k)) (at 0)"
proof -
  have z: "v + real3d_scale h 0 = v" "w + real3d_scale k 0 = w" by (simp_all add: vec_eq_iff)
  have in_eq: "ang_energy U q x y = U q (arccos (cos_of x y))" if "ang_inside q x y" for x y
    using that by (auto simp: ang_energy_def ang_inside_def reaches_def cos_of_def dot_self Let_def split: option.splits)
  have "eventually (\<lambda>t. ang_inside q (v + real3d_scale h t) (w + real3d_scale k t)) (nhds 0)"
  proof (cases "an_cutoffSqr q")
    case (Some r)
    then have "real3d_sqr v < r" "real3d_sqr w < r" using assms by (simp_all add: ang_smooth_def ang_inside_def)
    then have "eventually (\<lambda>t. real3d_sqr (v + real3d_scale h t) < r \<and> real3d_sqr (w + real3d_scale k t) < r) (nhds 0)"
      by (intro eventually_conj eventually_below sqr_continuous) (simp_all only: z)
    then show ?thesis by (simp add: ang_inside_def Some)
  qed (simp add: ang_inside_def)
  then have "eventually (\<lambda>t. ang_energy U q (v + real3d_scale h t) (w + real3d_scale k t)
      = U q (arccos (cos_of (v + real3d_scale h t) (w + real3d_scale k t)))) (nhds 0)"
    by (rule eventually_mono) (rule in_eq)
  from DERIV_cong_ev [OF refl this refl] angle_gradient [of v w q h k] assms show ?thesis
    by (simp add: ang_smooth_def)
qed

end

section \<open>The potentials satisfy them\<close>

lemma arccos_deriv: "- 1 < c \<Longrightarrow> c < 1 \<Longrightarrow> (arccos has_real_derivative - (1 / sqrt (1 - c\<^sup>2))) (at c)"
proof -
  have "inverse (- a) = - (1 / a)" for a :: real by (simp add: inverse_eq_divide)
  then show "- 1 < c \<Longrightarrow> c < 1 \<Longrightarrow> (arccos has_real_derivative - (1 / sqrt (1 - c\<^sup>2))) (at c)"
    using DERIV_arccos [of c] by (simp only:)
qed

lemma sin_arccos_sqrt: "- 1 \<le> c \<Longrightarrow> c \<le> 1 \<Longrightarrow> sin (arccos c) = sqrt (1 - c * c)"
  by (simp add: sin_arccos power2_eq_square)

definition cs_G :: "cosine ang \<Rightarrow> real \<Rightarrow> real" where
  "cs_G q c = (let s = sqrt (1 - c * c); a = an_par q
     in if s > SMALL_EPSILON then cs_Kcos_theta0 a - cs_Ksin_theta0 a * c / s else 0)"

definition cs_smooth :: "cosine ang \<Rightarrow> real \<Rightarrow> bool" where
  "cs_smooth q c \<longleftrightarrow> cs_preset (an_par q) = an_par q \<and> - 1 < c \<and> c < 1 \<and> SMALL_EPSILON < sqrt (1 - c * c)"

lemma scale_zero [simp]: "real3d_scale v 0 = 0"
  by (simp add: vec_eq_iff)

lemma deriv_by_cos:
  assumes "- 1 < c" "c < 1" "(V has_real_derivative d) (at (arccos c))"
  shows "((\<lambda>c. V (arccos c)) has_real_derivative - d / sqrt (1 - c * c)) (at c)"
  using DERIV_chain2 [OF assms(3) arccos_deriv [OF assms(1,2)]] by (simp add: power2_eq_square)

interpretation cosine: angular cs_U cs_F cs_G cs_smooth
proof
  fix q :: "cosine ang" and v w :: real3d and c :: real
  show "cs_F q v w = (let c = cos_of v w; a = - 1 / (sqrt (real3d_sqr v) * sqrt (real3d_sqr w))
       in (real3d_scale (real3d_scale v (c / real3d_sqr v) + real3d_scale w a) (cs_G q c),
           real3d_scale (real3d_scale w (c / real3d_sqr w) + real3d_scale v a) (cs_G q c)))"
    unfolding cs_F_def Let_def dot_self cos_of_sqr clamp_cos_of cs_G_def by simp
  assume s: "cs_smooth q c"
  let ?a = "an_par q" and ?s = "sqrt (1 - c * c)"
  have c: "- 1 < c" "c < 1" "SMALL_EPSILON < ?s" using s by (simp_all add: cs_smooth_def)
  have p: "cs_Kcos_theta0 ?a = cs_K ?a * cos (cs_theta0 ?a)" "cs_Ksin_theta0 ?a = cs_K ?a * sin (cs_theta0 ?a)"
    using s unfolding cs_smooth_def cs_preset_def
    by (metis cosine.ext_inject cosine.surjective cosine.update_convs(3,4))+
  have "(cs_U q has_real_derivative - (cs_K ?a * sin (arccos c - cs_theta0 ?a))) (at (arccos c))"
    unfolding cs_U_def [abs_def] by (auto intro!: derivative_eq_intros)
  from deriv_by_cos [OF c(1,2) this]
  show "((\<lambda>c. cs_U q (arccos c)) has_real_derivative cs_G q c) (at c)"
  proof (rule DERIV_cong)
    have "0 < SMALL_EPSILON" by (simp add: SMALL_EPSILON_def)
    then have s0: "0 < ?s" using c(3) by (rule less_trans)
    have "sin (arccos c - cs_theta0 ?a) = ?s * cos (cs_theta0 ?a) - c * sin (cs_theta0 ?a)"
      using c by (simp add: sin_diff sin_arccos_sqrt)
    moreover have "- (- (K * (r * x - c * y))) / r = K * x - K * y * c / r" if "0 < r" for K r x y :: real
      using that by (simp add: field_simps)
    ultimately show "- (- (cs_K ?a * sin (arccos c - cs_theta0 ?a))) / ?s = cs_G q c"
      using s0 c(3) by (simp only: cs_G_def Let_def p if_True)
  qed
qed

definition ah_G :: "(real \<times> real) ang \<Rightarrow> real \<Rightarrow> real" where
  "ah_G q c = (case an_par q of (K, theta0) \<Rightarrow>
     (let s = sqrt (1 - c * c); s = (if s < SMALL_EPSILON then SMALL_EPSILON else s) in - 2 * K * (arccos c - theta0) / s))"

definition ah_smooth :: "(real \<times> real) ang \<Rightarrow> real \<Rightarrow> bool" where
  "ah_smooth q c \<longleftrightarrow> - 1 < c \<and> c < 1 \<and> SMALL_EPSILON \<le> sqrt (1 - c * c)"

lemma scale_pair: "real3d_scale v (g * x) + real3d_scale w (g * a) = real3d_scale (real3d_scale v x + real3d_scale w a) g"
  by (simp add: vec_eq_iff algebra_simps)

lemma shape_of_scaled:
  "(real3d_scale v (g * c / A) + real3d_scale w (- g / m), real3d_scale w (g * c / B) + real3d_scale v (- g / m))
   = (real3d_scale (real3d_scale v (c / A) + real3d_scale w (- 1 / m)) g, real3d_scale (real3d_scale w (c / B) + real3d_scale v (- 1 / m)) g)"
proof -
  have "g * c / A = g * (c / A)" "g * c / B = g * (c / B)" "- g / m = g * (- 1 / m)" by simp_all
  then show ?thesis by (simp only: scale_pair)
qed

interpretation angular_harmonic: angular ah_U ah_F ah_G ah_smooth
proof
  fix q :: "(real \<times> real) ang" and v w :: real3d and c :: real
  obtain K t0 where p: "an_par q = (K, t0)" by (rule prod.exhaust)
  show "ah_F q v w = (let c = cos_of v w; a = - 1 / (sqrt (real3d_sqr v) * sqrt (real3d_sqr w))
       in (real3d_scale (real3d_scale v (c / real3d_sqr v) + real3d_scale w a) (ah_G q c),
           real3d_scale (real3d_scale w (c / real3d_sqr w) + real3d_scale v a) (ah_G q c)))"
    unfolding ah_F_def Let_def dot_self cos_of_sqr clamp_cos_of ah_G_def p prod.case by (rule shape_of_scaled)
  assume s: "ah_smooth q c"
  then have c: "- 1 < c" "c < 1" "SMALL_EPSILON \<le> sqrt (1 - c * c)" by (simp_all add: ah_smooth_def)
  have "(ah_U q has_real_derivative K * (2 * (arccos c - t0))) (at (arccos c))"
    unfolding ah_U_def [abs_def] p prod.case by (auto intro!: derivative_eq_intros)
  from deriv_by_cos [OF c(1,2) this]
  show "((\<lambda>c. ah_U q (arccos c)) has_real_derivative ah_G q c) (at c)"
    by (rule DERIV_cong) (use c(3) in \<open>simp add: ah_G_def p Let_def mult.commute mult.left_commute\<close>)
qed

definition sq_G :: "cosine_squared ang \<Rightarrow> real \<Rightarrow> real" where
  "sq_G q c = 2 * sq_K (an_par q) * (c - sq_cos_theta0 (an_par q))"

interpretation cosine_squared: angular sq_U sq_F sq_G "\<lambda>_ c. - 1 < c \<and> c < 1"
proof
  fix q :: "cosine_squared ang" and v w :: real3d and c :: real
  show "sq_F q v w = (let c = cos_of v w; a = - 1 / (sqrt (real3d_sqr v) * sqrt (real3d_sqr w))
       in (real3d_scale (real3d_scale v (c / real3d_sqr v) + real3d_scale w a) (sq_G q c),
           real3d_scale (real3d_scale w (c / real3d_sqr w) + real3d_scale v a) (sq_G q c)))"
    unfolding sq_F_def Let_def dot_self cos_of_sqr clamp_cos_of sq_G_def by (rule shape_of_scaled)
  let ?a = "an_par q"
  assume c: "- 1 < c \<and> c < 1"
  have "open {- 1<..<1::real}" "c \<in> {- 1<..<1}" using c by simp_all
  then have "eventually (\<lambda>c. c \<in> {- 1<..<1}) (nhds c)" by (rule eventually_nhds_in_open)
  then have ev: "eventually (\<lambda>c. sq_U q (arccos c) = sq_K ?a * (c - sq_cos_theta0 ?a)\<^sup>2) (nhds c)"
    by (rule eventually_mono) (simp add: sq_U_def)
  have "((\<lambda>c. sq_K ?a * (c - sq_cos_theta0 ?a)\<^sup>2) has_real_derivative sq_G q c) (at c)"
    unfolding sq_G_def by (auto intro!: derivative_eq_intros)
  then show "((\<lambda>c. sq_U q (arccos c)) has_real_derivative sq_G q c) (at c)"
    using DERIV_cong_ev [OF refl ev refl] by simp
qed

section \<open>What the laws give for the triples of a list\<close>

definition ai_triples :: "'q angle_interaction \<Rightarrow> 'q \<Rightarrow> (ptr \<times> ptr \<times> ptr) list \<Rightarrow> bool" where
  "ai_triples A q ts \<longleftrightarrow> ai_potential A = Some q
     \<and> tripleList (ai_list A) = map (\<lambda>(p1, p2, p3). (Some p1, Some p2, Some p3)) ts"

lemma ai_loop_fold: "ai_triples A q ts \<Longrightarrow> ai_loop A step s = Some (fold (step q) ts s)"
proof -
  have "ofold (ai_each step (Some q)) (map (\<lambda>(p1, p2, p3). (Some p1, Some p2, Some p3)) ts) s = Some (fold (step q) ts s)"
    by (induction ts arbitrary: s) (auto simp: ai_each_def)
  then show "ai_triples A q ts \<Longrightarrow> ?thesis" by (simp add: ai_triples_def ai_loop_def)
qed

definition triple_forces :: "(real3d \<Rightarrow> real3d \<Rightarrow> real3d) \<Rightarrow> ('q \<Rightarrow> real3d \<Rightarrow> real3d \<Rightarrow> real3d \<times> real3d) \<Rightarrow> 'q \<Rightarrow> 'p memory \<Rightarrow>
    'p \<times> 'p \<times> 'p \<Rightarrow> ('p \<times> real3d) list" where
  "triple_forces mi force q h t = (case t of (p1, p2, p3) \<Rightarrow>
     (let (f12, f32) = force q (mi (p_pos (h p1)) (p_pos (h p2))) (mi (p_pos (h p3)) (p_pos (h p2)))
      in [(p1, f12), (p2, - (f12 + f32)), (p3, f32)]))"

lemma angle_fold: "fold (angle_step mi force q) ts h = forced (concat (map (triple_forces mi force q h) ts)) h"
  by (rule fold_forced) (auto simp: angle_step_def triple_forces_def sub_force_add Let_def split: prod.splits)

lemma triple_forces_sum: "(\<Sum>(p, f)\<leftarrow>concat (map (triple_forces mi force q h) ts). f) = 0"
  by (induction ts) (auto simp: triple_forces_def Let_def split: prod.splits)

definition members3 :: "('p \<times> 'p \<times> 'p) list \<Rightarrow> 'p set" where
  "members3 ts = (\<Union>(p1, p2, p3)\<in>set ts. {p1, p2, p3})"

lemma triple_forces_in: "fst ` set (concat (map (triple_forces mi force q h) ts)) \<subseteq> members3 ts"
  by (force simp: triple_forces_def members3_def Let_def split: prod.splits)

lemma ai_newton:
  assumes "ai_triples A q ts" "ai_addForces mi force A h = Some h'" "finite X" "members3 ts \<subseteq> X"
  shows "(\<Sum>a\<in>X. force_at h' a) = (\<Sum>a\<in>X. force_at h a)"
proof -
  let ?cs = "concat (map (triple_forces mi force q h) ts)"
  have h': "h' = forced ?cs h" using assms(2) by (simp add: ai_addForces_def ai_loop_fold [OF assms(1)] angle_fold)
  have "fst ` set ?cs \<subseteq> X" using triple_forces_in assms(4) by (rule order_trans)
  from net_sum [OF assms(3) this] show ?thesis unfolding h' force_at_forced sum.distrib triple_forces_sum by simp
qed

lemma triple_forces_work:
  "(\<Sum>(p, f)\<leftarrow>concat (map (triple_forces mi force q h) ts). real3d_dot f (u p))
    = (\<Sum>(p1, p2, p3)\<leftarrow>ts. let f = force q (mi (p_pos (h p1)) (p_pos (h p2))) (mi (p_pos (h p3)) (p_pos (h p2)))
        in real3d_dot (fst f) (u p1 - u p2) + real3d_dot (snd f) (u p3 - u p2))"
  by (induction ts) (auto simp: triple_forces_def Let_def dot_diff dot_add split: prod.splits)

context angular
begin

text \<open>The angles have no virial.\<close>

lemma angle_no_virial:
  assumes "ai_triples A q ts"
  shows "ai_localVirial mi F h A = Some 0"
proof -
  have "angle_virial_step mi F h real3d_dot q t w = w" for t w
    by (cases t) (simp add: angle_virial_step_def Let_def angle_orthogonal case_prod_beta')
  then have "angle_virial_step mi F h real3d_dot q = (\<lambda>_ w. w)" by (simp add: fun_eq_iff)
  then show ?thesis unfolding ai_localVirial_def ai_loop_fold [OF assms] by (simp add: fold_plus [of "\<lambda>_. 0", simplified])
qed

end

locale angle_field = angular U F G smooth + image mi mi' regular
  for U :: "'a angle_energy" and F :: "'a angle_force" and G smooth mi mi' regular
begin

definition triple_smooth :: "'a ang \<Rightarrow> 'p memory \<Rightarrow> 'p \<times> 'p \<times> 'p \<Rightarrow> bool" where
  "triple_smooth q h t \<longleftrightarrow> (case t of (p1, p2, p3) \<Rightarrow>
     ang_smooth q (mi (p_pos (h p1)) (p_pos (h p2))) (mi (p_pos (h p3)) (p_pos (h p2)))
     \<and> regular (p_pos (h p1)) (p_pos (h p2)) \<and> regular (p_pos (h p3)) (p_pos (h p2)))"

lemma triple_gradient:
  assumes "triple_smooth q h (p1, p2, p3)"
  shows "((\<lambda>t. ang_energy U q (mi' (p_pos (moved u t h p1)) (p_pos (moved u t h p2))) (mi' (p_pos (moved u t h p3)) (p_pos (moved u t h p2))))
    has_real_derivative - (let f = F q (mi (p_pos (h p1)) (p_pos (h p2))) (mi (p_pos (h p3)) (p_pos (h p2)))
        in real3d_dot (fst f) (u p1 - u p2) + real3d_dot (snd f) (u p3 - u p2))) (at 0)"
proof -
  let ?v = "mi (p_pos (h p1)) (p_pos (h p2))" and ?w = "mi (p_pos (h p3)) (p_pos (h p2))"
  have s: "ang_smooth q ?v ?w" "regular (p_pos (h p1)) (p_pos (h p2))" "regular (p_pos (h p3)) (p_pos (h p2))"
    using assms by (simp_all add: triple_smooth_def)
  have "eventually (\<lambda>t. ang_energy U q (mi' (p_pos (moved u t h p1)) (p_pos (moved u t h p2))) (mi' (p_pos (moved u t h p3)) (p_pos (moved u t h p2)))
      = ang_energy U q (?v + real3d_scale (u p1 - u p2) t) (?w + real3d_scale (u p3 - u p2) t)) (nhds 0)"
    using image_local [OF s(2), of "u p1" "u p2"] image_local [OF s(3), of "u p3" "u p2"]
    by eventually_elim simp
  from DERIV_cong_ev [OF refl this refl] ang_energy_gradient [OF s(1), of "u p1 - u p2" "u p3 - u p2"]
  show ?thesis by (simp add: Let_def)
qed

lemma angle_addForces_gradient:
  assumes "ai_triples A q ts" "ai_addForces mi F A h = Some h'" "\<And>t. t \<in> set ts \<Longrightarrow> triple_smooth q h t"
    and "finite X" "members3 ts \<subseteq> X"
  shows "((\<lambda>t. the (ai_localEnergy mi' (ang_energy U) (moved u t h) A)) has_real_derivative
    - (\<Sum>a\<in>X. real3d_dot (force_at h' a - force_at h a) (u a))) (at 0)"
proof -
  let ?cs = "concat (map (triple_forces mi F q h) ts)"
  let ?e = "\<lambda>x t. case x of (p1, p2, p3) \<Rightarrow>
     ang_energy U q (mi' (p_pos (moved u t h p1)) (p_pos (moved u t h p2))) (mi' (p_pos (moved u t h p3)) (p_pos (moved u t h p2)))"
  let ?f = "\<lambda>x. case x of (p1, p2, p3) \<Rightarrow> let f = F q (mi (p_pos (h p1)) (p_pos (h p2))) (mi (p_pos (h p3)) (p_pos (h p2)))
        in real3d_dot (fst f) (u p1 - u p2) + real3d_dot (snd f) (u p3 - u p2)"
  have h': "h' = forced ?cs h" using assms(2) by (simp add: ai_addForces_def ai_loop_fold [OF assms(1)] angle_fold)
  have "fst ` set ?cs \<subseteq> X" using triple_forces_in assms(5) by (rule order_trans)
  from net_work [OF assms(4) this, of u]
  have w: "(\<Sum>a\<in>X. real3d_dot (force_at h' a - force_at h a) (u a)) = (\<Sum>x\<leftarrow>ts. ?f x)"
    unfolding h' force_at_forced triple_forces_work by simp
  have e: "the (ai_localEnergy mi' (ang_energy U) (moved u t h) A) = (\<Sum>x\<leftarrow>ts. ?e x t)" for t
  proof -
    have "(\<lambda>(p1, p2, p3) e. e + ang_energy U q (mi' (p_pos (moved u t h p1)) (p_pos (moved u t h p2))) (mi' (p_pos (moved u t h p3)) (p_pos (moved u t h p2))))
      = (\<lambda>x e. e + ?e x t)" by (auto simp: fun_eq_iff)
    then show ?thesis unfolding ai_localEnergy_def ai_loop_fold [OF assms(1)] by (simp only: fold_plus) simp
  qed
  have "(?e x has_real_derivative - ?f x) (at 0)" if "x \<in> set ts" for x
    using triple_gradient [of q h "fst x" "fst (snd x)" "snd (snd x)" u] assms(3) [OF that] by (cases x) simp
  from has_derivative_sum_list [of ts ?e "\<lambda>x. - ?f x" 0, OF this]
  show ?thesis unfolding e w uminus_sum_list_map o_def .
qed

end

end
