(* ===== verification/DihedralInteractions.thy ===== *)
theory DihedralInteractions
  imports AngleInteractions FixedQuadrupleList
begin

text \<open>
  Dihedrals: \<^verbatim>\<open>src/src/interaction/DihedralPotential.hpp\<close>, the potentials \<^verbatim>\<open>DihedralHarmonicCos\<close>,
  \<^verbatim>\<open>DihedralHarmonic\<close>, \<^verbatim>\<open>DihedralHarmonicNCos\<close> and \<^verbatim>\<open>DihedralRB\<close>, and
  \<^verbatim>\<open>FixedQuadrupleListInteractionTemplate.hpp\<close>.  The four potentials compute the forces with the same
  expressions from one coefficient, minus the derivative of the energy by the cosine; the locale
  \<open>dihedral\<close> states that, and its lemmas show that the expressions are the gradient of the cosine.
\<close>

section \<open>The base class\<close>

record 'a dih =
  dh_par :: 'a
  dh_cutoff :: cutoff
  dh_cutoffSqr :: cutoff

type_synonym 'a dihedral_energy = "'a dih \<Rightarrow> real \<Rightarrow> real"
type_synonym forces4 = "real3d \<times> real3d \<times> real3d \<times> real3d"
type_synonym 'a dihedral_force = "'a dih \<Rightarrow> real3d \<Rightarrow> real3d \<Rightarrow> real3d \<Rightarrow> forces4 option"

definition DihedralPotentialTemplate_new :: "'a \<Rightarrow> 'a dih" where
  "DihedralPotentialTemplate_new a = \<lparr>dh_par = a, dh_cutoff = None, dh_cutoffSqr = None\<rparr>"

definition dih_setCutoff :: "cutoff \<Rightarrow> 'a dih \<Rightarrow> 'a dih" where
  "dih_setCutoff c q = q\<lparr>dh_cutoff := c, dh_cutoffSqr := cut_sqr c\<rparr>"

definition upd_dih :: "('a \<Rightarrow> 'a) \<Rightarrow> 'a dih \<Rightarrow> 'a dih" where
  "upd_dih f q = q\<lparr>dh_par := f (dh_par q)\<rparr>"

definition dih_energy :: "'a dihedral_energy \<Rightarrow> 'a dih \<Rightarrow> real3d \<Rightarrow> real3d \<Rightarrow> real3d \<Rightarrow> real" where
  "dih_energy U q r21 r32 r43 =
     (let rijjk = real3d_cross r21 r32; rjkkn = real3d_cross r32 r43;
          rijjk_abs = sqrt (real3d_sqr rijjk); rjkkn_abs = sqrt (real3d_sqr rjkkn);
          inv_rijjk = 1 / rijjk_abs; inv_rjkkn = 1 / rjkkn_abs;
          cos_phi = clamp (real3d_dot rijjk rjkkn * (inv_rijjk * inv_rjkkn));
          phi = arccos cos_phi;
          rcross = real3d_cross rijjk rjkkn;
          signcheck = real3d_dot rcross r32;
          phi = (if signcheck < 0 then - phi else phi)
      in U q phi)"

section \<open>The expressions of the forces\<close>

definition kronecker :: "nat \<Rightarrow> nat \<Rightarrow> real" where
  "kronecker i j = (if i = j then 1 else 0)"

definition dih_prod :: "real3d \<Rightarrow> real3d \<Rightarrow> real3d" where
  "dih_prod a b =
     (let res = (\<lambda>i. \<Sum>j\<leftarrow>[0, 1, 2]. (1 - kronecker i j) * vnth a j * vnth b j) in V3 (res 0) (res 1) (res 2))"

definition dih_B1 :: "real3d \<Rightarrow> real3d \<Rightarrow> real3d \<Rightarrow> nat \<Rightarrow> nat \<Rightarrow> real" where
  "dih_B1 r21 r32 r43 l i =
     (let d = kronecker; p3232 = vnth (dih_prod r32 r32) i; p3243 = vnth (dih_prod r32 r43) i;
          p2132 = vnth (dih_prod r21 r32) i; p2143 = vnth (dih_prod r21 r43) i
      in vnth r21 i * (p3232 * (d l 2 - d l 3) + p3243 * (d l 2 - d l 1))
         + vnth r32 i * (p2132 * (d l 3 - d l 2) + p3243 * (d l 1 - d l 0))
         + vnth r43 i * (p2132 * (d l 2 - d l 1) + p3232 * (d l 0 - d l 1))
         + 2 * vnth r32 i * p2143 * (d l 1 - d l 2))"

definition dih_B2 :: "real3d \<Rightarrow> real3d \<Rightarrow> nat \<Rightarrow> nat \<Rightarrow> real" where
  "dih_B2 r21 r32 l i =
     (let d = kronecker; p3232 = vnth (dih_prod r32 r32) i; p2132 = vnth (dih_prod r21 r32) i;
          p2121 = vnth (dih_prod r21 r21) i
      in 2 * vnth r21 i * (p3232 * (d l 1 - d l 0) + p2132 * (d l 1 - d l 2))
         + 2 * vnth r32 i * (p2121 * (d l 2 - d l 1) + p2132 * (d l 0 - d l 1)))"

definition dih_B3 :: "real3d \<Rightarrow> real3d \<Rightarrow> nat \<Rightarrow> nat \<Rightarrow> real" where
  "dih_B3 r32 r43 l i =
     (let d = kronecker; p3232 = vnth (dih_prod r32 r32) i; p3243 = vnth (dih_prod r32 r43) i;
          p4343 = vnth (dih_prod r43 r43) i
      in 2 * vnth r43 i * (p3232 * (d l 3 - d l 2) + p3243 * (d l 1 - d l 2))
         + 2 * vnth r32 i * (p4343 * (d l 2 - d l 1) + p3243 * (d l 2 - d l 3)))"

definition vec_of :: "(nat \<Rightarrow> real) \<Rightarrow> real3d" where
  "vec_of f = V3 (f 0) (f 1) (f 2)"

text \<open>The loop over the particles; \<open>coef1\<close> is what the potentials differ in.\<close>

definition dih_forces :: "real \<Rightarrow> real \<Rightarrow> real3d \<Rightarrow> real3d \<Rightarrow> real3d \<Rightarrow> forces4" where
  "dih_forces coef1 cos_phi r21 r32 r43 =
     (let rijjk = real3d_cross r21 r32; rjkkn = real3d_cross r32 r43;
          inv_rijjk = 1 / sqrt (real3d_sqr rijjk); inv_rjkkn = 1 / sqrt (real3d_sqr rjkkn);
          A1 = inv_rijjk * inv_rjkkn; A2 = inv_rijjk * inv_rijjk; A3 = inv_rjkkn * inv_rjkkn;
          retF = (\<lambda>l. real3d_scale (real3d_scale (vec_of (dih_B1 r21 r32 r43 l)) A1
              - real3d_scale (real3d_scale (vec_of (dih_B2 r21 r32 l)) A2 + real3d_scale (vec_of (dih_B3 r32 r43 l)) A3) (1/2 * cos_phi)) coef1)
      in (retF 0, retF 1, retF 2, retF 3))"

definition dih_cos :: "real3d \<Rightarrow> real3d \<Rightarrow> real3d \<Rightarrow> real" where
  "dih_cos r21 r32 r43 =
     (let rijjk = real3d_cross r21 r32; rjkkn = real3d_cross r32 r43;
          inv_rijjk = 1 / sqrt (real3d_sqr rijjk); inv_rjkkn = 1 / sqrt (real3d_sqr rjkkn)
      in real3d_dot rijjk rjkkn * (inv_rijjk * inv_rjkkn))"

definition signcheck :: "real3d \<Rightarrow> real3d \<Rightarrow> real3d \<Rightarrow> real" where
  "signcheck r21 r32 r43 = real3d_dot (real3d_cross (real3d_cross r21 r32) (real3d_cross r32 r43)) r32"

section \<open>The potentials\<close>

text \<open>\<^verbatim>\<open>DihedralHarmonicCos.hpp\<close>; its default constructor leaves \<^verbatim>\<open>cos_phi0\<close> unset.\<close>

record harmonic_cos =
  hc_K :: real
  hc_phi0 :: real
  hc_cos_phi0 :: real

definition DihedralHarmonicCos_default :: "real \<Rightarrow> harmonic_cos dih" where
  "DihedralHarmonicCos_default garbage = DihedralPotentialTemplate_new \<lparr>hc_K = 0, hc_phi0 = 0, hc_cos_phi0 = garbage\<rparr>"

definition DihedralHarmonicCos_new :: "real \<Rightarrow> real \<Rightarrow> harmonic_cos dih" where
  "DihedralHarmonicCos_new K phi0 = DihedralPotentialTemplate_new \<lparr>hc_K = K, hc_phi0 = phi0, hc_cos_phi0 = clamp (cos phi0)\<rparr>"

definition hc_setK :: "real \<Rightarrow> harmonic_cos dih \<Rightarrow> harmonic_cos dih" where
  "hc_setK K = upd_dih (\<lambda>a. a\<lparr>hc_K := K\<rparr>)"

definition hc_setPhi0 :: "real \<Rightarrow> harmonic_cos dih \<Rightarrow> harmonic_cos dih" where
  "hc_setPhi0 phi0 = upd_dih (\<lambda>a. a\<lparr>hc_phi0 := phi0, hc_cos_phi0 := clamp (cos phi0)\<rparr>)"

definition hc_U :: "harmonic_cos dihedral_energy" where
  "hc_U q phi = hc_K (dh_par q) * (cos phi - hc_cos_phi0 (dh_par q))\<^sup>2"

definition hc_F :: "harmonic_cos dihedral_force" where
  "hc_F q r21 r32 r43 =
     (let a = dh_par q; cos_phi = clamp (dih_cos r21 r32 r43); coef1 = - 2 * hc_K a * (cos_phi - hc_cos_phi0 a)
      in Some (dih_forces coef1 cos_phi r21 r32 r43))"

text \<open>\<^verbatim>\<open>DihedralHarmonic.hpp\<close>; the parameters are \<^verbatim>\<open>K\<close> and \<^verbatim>\<open>phi0\<close>.\<close>

definition DihedralHarmonic_new :: "real \<Rightarrow> real \<Rightarrow> (real \<times> real) dih" where
  "DihedralHarmonic_new K phi0 = DihedralPotentialTemplate_new (K, phi0)"

definition dha_setK :: "real \<Rightarrow> (real \<times> real) dih \<Rightarrow> (real \<times> real) dih" where
  "dha_setK K = upd_dih (\<lambda>(_, phi0). (K, phi0))"

definition dha_setPhi0 :: "real \<Rightarrow> (real \<times> real) dih \<Rightarrow> (real \<times> real) dih" where
  "dha_setPhi0 phi0 = upd_dih (\<lambda>(K, _). (K, phi0))"

definition wrap_diff :: "real \<Rightarrow> real" where
  "wrap_diff diff = (let diff = (if diff > pi then diff - 2 * pi else diff) in if diff < - pi then diff + 2 * pi else diff)"

definition dha_U :: "(real \<times> real) dihedral_energy" where
  "dha_U q phi = (case dh_par q of (K, phi0) \<Rightarrow> (let diff = wrap_diff (phi - phi0) in 1/2 * K * diff * diff))"

text \<open>A cosine beyond 1 by rounding gets an angle near 0 or \<open>\<pi>\<close>.\<close>

definition dha_F :: "(real \<times> real) dihedral_force" where
  "dha_F q r21 r32 r43 = (case dh_par q of (K, phi0) \<Rightarrow>
     (let c = dih_cos r21 r32 r43;
          (cos_phi, phi) = (if c > 1 then (1, 1 / 10^10) else if c < - 1 then (- 1, pi - 1 / 10^10) else (c, arccos c));
          phi = (if signcheck r21 r32 r43 < 0 then - phi else phi);
          diff = wrap_diff (phi - phi0);
          coef1 = (1 / sin phi) * (K * diff)
      in Some (dih_forces coef1 cos_phi r21 r32 r43)))"

text \<open>\<^verbatim>\<open>DihedralHarmonicNCos.hpp\<close>; \<^verbatim>\<open>cos_phi0\<close> is not used.\<close>

record harmonic_ncos =
  nc_K :: real
  nc_phi0 :: real
  nc_multiplicity :: int

definition DihedralHarmonicNCos_new :: "real \<Rightarrow> real \<Rightarrow> int \<Rightarrow> harmonic_ncos dih" where
  "DihedralHarmonicNCos_new K phi0 n = DihedralPotentialTemplate_new \<lparr>nc_K = K, nc_phi0 = phi0, nc_multiplicity = n\<rparr>"

definition nc_setK :: "real \<Rightarrow> harmonic_ncos dih \<Rightarrow> harmonic_ncos dih" where
  "nc_setK K = upd_dih (\<lambda>a. a\<lparr>nc_K := K\<rparr>)"

definition nc_setPhi0 :: "real \<Rightarrow> harmonic_ncos dih \<Rightarrow> harmonic_ncos dih" where
  "nc_setPhi0 phi0 = upd_dih (\<lambda>a. a\<lparr>nc_phi0 := phi0\<rparr>)"

text \<open>The setter takes a \<^verbatim>\<open>real\<close> and truncates it.\<close>

definition nc_setMultiplicity :: "real \<Rightarrow> harmonic_ncos dih \<Rightarrow> harmonic_ncos dih" where
  "nc_setMultiplicity n = upd_dih (\<lambda>a. a\<lparr>nc_multiplicity := trunc_real n\<rparr>)"

definition nc_U :: "harmonic_ncos dihedral_energy" where
  "nc_U q phi = (let a = dh_par q in nc_K a * (1 + cos (of_int (nc_multiplicity a) * phi - nc_phi0 a)))"

definition nc_F :: "harmonic_ncos dihedral_force" where
  "nc_F q r21 r32 r43 =
     (let a = dh_par q; c = dih_cos r21 r32 r43;
          (cos_phi, phi) = (if c \<ge> 1 then (1, 1 / 10^10) else if c \<le> - 1 then (- 1, pi - 1 / 10^10) else (c, arccos c));
          coef1 = (1 / sin phi) * (nc_K a * of_int (nc_multiplicity a) * sin (nc_phi0 a - of_int (nc_multiplicity a) * phi))
      in Some (dih_forces coef1 cos_phi r21 r32 r43))"

text \<open>\<^verbatim>\<open>DihedralRB.hpp\<close>; for collinear bonds it returns without setting the forces (\<^term>\<open>None\<close>).\<close>

record rb =
  rb_K0 :: real
  rb_K1 :: real
  rb_K2 :: real
  rb_K3 :: real
  rb_K4 :: real
  rb_K5 :: real

definition DihedralRB_new :: "real \<Rightarrow> real \<Rightarrow> real \<Rightarrow> real \<Rightarrow> real \<Rightarrow> real \<Rightarrow> rb dih" where
  "DihedralRB_new k0 k1 k2 k3 k4 k5 = DihedralPotentialTemplate_new
     \<lparr>rb_K0 = k0, rb_K1 = k1, rb_K2 = k2, rb_K3 = k3, rb_K4 = k4, rb_K5 = k5\<rparr>"

definition rb_U :: "rb dihedral_energy" where
  "rb_U q phi =
     (let a = dh_par q; c = cos phi
      in rb_K0 a + rb_K1 a * c + rb_K2 a * c * c + rb_K3 a * c * c * c + rb_K4 a * c * c * c * c + rb_K5 a * c * c * c * c * c)"

definition rb_coef :: "rb \<Rightarrow> real \<Rightarrow> real" where
  "rb_coef a c = - rb_K1 a - 2 * rb_K2 a * c - 3 * rb_K3 a * c * c - 4 * rb_K4 a * c * c * c - 5 * rb_K5 a * c * c * c * c"

definition rb_F :: "rb dihedral_force" where
  "rb_F q r21 r32 r43 =
     (let rijjk_abs = sqrt (real3d_sqr (real3d_cross r21 r32)); rjkkn_abs = sqrt (real3d_sqr (real3d_cross r32 r43))
      in if rijjk_abs < 1 / 10^8 \<or> rjkkn_abs < 1 / 10^8 then None
         else (let cos_phi = clamp (dih_cos r21 r32 r43)
               in Some (dih_forces (rb_coef (dh_par q) cos_phi) cos_phi r21 r32 r43)))"

section \<open>The expressions are the gradient of the cosine\<close>

definition sum4 :: "(nat \<Rightarrow> nat \<Rightarrow> real) \<Rightarrow> (nat \<Rightarrow> real3d) \<Rightarrow> real" where
  "sum4 B u = real3d_dot (vec_of (B 0)) (u 0) + real3d_dot (vec_of (B 1)) (u 1) + real3d_dot (vec_of (B 2)) (u 2) + real3d_dot (vec_of (B 3)) (u 3)"

lemma dih_prod_simp: "dih_prod a b = V3 (vy a * vy b + vz a * vz b) (vx a * vx b + vz a * vz b) (vx a * vx b + vy a * vy b)"
  by (simp add: dih_prod_def kronecker_def Let_def)

lemma cross_line: "real3d_cross (v + real3d_scale h t) (w + real3d_scale k t)
    = real3d_cross v w + real3d_scale (real3d_cross h w + real3d_cross v k + real3d_scale (real3d_cross h k) t) t"
  by (simp add: real3d_cross_def vec_eq_iff algebra_simps)

lemma vec_of_sel [simp]: "vx (vec_of f) = f 0" "vy (vec_of f) = f 1" "vz (vec_of f) = f 2"
  by (simp_all add: vec_of_def)

lemma kronecker_simps [simp]: "kronecker i i = 1" "i \<noteq> j \<Longrightarrow> kronecker i j = 0"
  by (simp_all add: kronecker_def)

lemmas B_vectors = dih_B1_def dih_B2_def dih_B3_def Let_def dih_prod_simp

lemma sum4_B1: "sum4 (dih_B1 a b c) u
    = real3d_dot (real3d_cross (u 1 - u 0) b + real3d_cross a (u 2 - u 1)) (real3d_cross b c)
      + real3d_dot (real3d_cross a b) (real3d_cross (u 2 - u 1) c + real3d_cross b (u 3 - u 2))"
  by (cases a; cases b; cases c) (simp add: sum4_def real3d_dot_def real3d_cross_def B_vectors algebra_simps)

lemma sum4_B2: "sum4 (dih_B2 a b) u = 2 * real3d_dot (real3d_cross a b) (real3d_cross (u 1 - u 0) b + real3d_cross a (u 2 - u 1))"
  by (cases a; cases b) (simp add: sum4_def real3d_dot_def real3d_cross_def B_vectors algebra_simps)

lemma sum4_B3: "sum4 (dih_B3 b c) u = 2 * real3d_dot (real3d_cross b c) (real3d_cross (u 2 - u 1) c + real3d_cross b (u 3 - u 2))"
  by (cases b; cases c) (simp add: sum4_def real3d_dot_def real3d_cross_def B_vectors algebra_simps)

lemma dih_cos_of: "dih_cos a b c = cos_of (real3d_cross a b) (real3d_cross b c)"
  by (simp add: dih_cos_def cos_of_def dot_self Let_def)

lemma curve_derivs:
  "((\<lambda>t. real3d_dot (m + real3d_scale (m' + real3d_scale m2 t) t) (n + real3d_scale (n' + real3d_scale n2 t) t))
     has_real_derivative real3d_dot m' n + real3d_dot m n') (at 0)"
  "((\<lambda>t. real3d_sqr (m + real3d_scale (m' + real3d_scale m2 t) t)) has_real_derivative 2 * real3d_dot m m') (at 0)"
  unfolding real3d_sqr_def real3d_dot_def by (auto intro!: derivative_eq_intros)

lemma dih_cos_deriv:
  assumes "real3d_cross a b \<noteq> 0" "real3d_cross b c \<noteq> 0"
  shows "((\<lambda>t. dih_cos (a + real3d_scale (u 1 - u 0) t) (b + real3d_scale (u 2 - u 1) t) (c + real3d_scale (u 3 - u 2) t)) has_real_derivative
     sum4 (dih_B1 a b c) u / (sqrt (real3d_sqr (real3d_cross a b)) * sqrt (real3d_sqr (real3d_cross b c)))
       - dih_cos a b c * (sum4 (dih_B2 a b) u / 2 / real3d_sqr (real3d_cross a b) + sum4 (dih_B3 b c) u / 2 / real3d_sqr (real3d_cross b c))) (at 0)"
proof -
  let ?m = "real3d_cross a b" and ?n = "real3d_cross b c"
  let ?m' = "real3d_cross (u 1 - u 0) b + real3d_cross a (u 2 - u 1)" and ?n' = "real3d_cross (u 2 - u 1) c + real3d_cross b (u 3 - u 2)"
  have z: "v + real3d_scale w 0 = v" for v w by (simp add: vec_eq_iff)
  have "sum4 (dih_B1 a b c) u = real3d_dot ?m' ?n + real3d_dot ?m ?n'" "sum4 (dih_B2 a b) u / 2 = real3d_dot ?m ?m'" "sum4 (dih_B3 b c) u / 2 = real3d_dot ?n ?n'"
    by (simp_all add: sum4_B1 sum4_B2 sum4_B3)
  then show ?thesis
    using cos_of_curve [OF curve_derivs(1) curve_derivs(2) curve_derivs(2), of ?m ?m' "real3d_cross (u 1 - u 0) (u 2 - u 1)" ?n ?n' "real3d_cross (u 2 - u 1) (u 3 - u 2)"]
      assms by (simp only: dih_cos_of cross_line z simp_thms)
qed

lemma sum4_vec: "sum4 B u = real3d_dot (vec_of (B 0)) (u 0) + real3d_dot (vec_of (B 1)) (u 1) + real3d_dot (vec_of (B 2)) (u 2) + real3d_dot (vec_of (B 3)) (u 3)"
  by (rule sum4_def)

definition work4 :: "forces4 \<Rightarrow> (nat \<Rightarrow> real3d) \<Rightarrow> real" where
  "work4 f u = (case f of (f1, f2, f3, f4) \<Rightarrow> real3d_dot f1 (u 0) + real3d_dot f2 (u 1) + real3d_dot f3 (u 2) + real3d_dot f4 (u 3))"

lemma dih_forces_work:
  "work4 (dih_forces g x a b c) u = g * (sum4 (dih_B1 a b c) u / (sqrt (real3d_sqr (real3d_cross a b)) * sqrt (real3d_sqr (real3d_cross b c)))
       - x * (sum4 (dih_B2 a b) u / 2 / real3d_sqr (real3d_cross a b) + sum4 (dih_B3 b c) u / 2 / real3d_sqr (real3d_cross b c)))"
proof -
  have i: "1 / sqrt (real3d_sqr v) * (1 / sqrt (real3d_sqr v)) = 1 / real3d_sqr v" for v by simp
  have d: "real3d_dot (real3d_scale (real3d_scale p A - real3d_scale (real3d_scale q B + real3d_scale r C) y) g) w
      = g * (real3d_dot p w * A - y * (real3d_dot q w * B + real3d_dot r w * C))" for p q r w A B C y g
    by (simp add: real3d_dot_def algebra_simps)
  have s: "g * (p0 * A - 1/2 * x * (q0 * B + r0 * C)) + g * (p1 * A - 1/2 * x * (q1 * B + r1 * C)) + g * (p2 * A - 1/2 * x * (q2 * B + r2 * C))
      + g * (p3 * A - 1/2 * x * (q3 * B + r3 * C))
    = g * ((p0 + p1 + p2 + p3) * A - x * ((q0 + q1 + q2 + q3) / 2 * B + (r0 + r1 + r2 + r3) / 2 * C))"
    for p0 p1 p2 p3 q0 q1 q2 q3 r0 r1 r2 r3 A B C :: real by (simp add: field_simps)
  show ?thesis
    unfolding work4_def dih_forces_def Let_def prod.case d s i sum4_vec by simp
qed

text \<open>The four forces cancel, whatever the coefficient.\<close>

lemma dih_forces_sum: "(case dih_forces g x a b c of (f1, f2, f3, f4) \<Rightarrow> f1 + f2 + f3 + f4) = 0"
proof -
  have B: "vec_of (B 0) + vec_of (B 1) + vec_of (B 2) + vec_of (B 3) = 0"
    if "\<And>i. B 0 i + B 1 i + B 2 i + B 3 i = 0" for B :: "nat \<Rightarrow> nat \<Rightarrow> real"
    using that by (simp add: vec_eq_iff)
  have "dih_B1 a b c 0 i + dih_B1 a b c 1 i + dih_B1 a b c 2 i + dih_B1 a b c 3 i = 0"
    "dih_B2 a b 0 i + dih_B2 a b 1 i + dih_B2 a b 2 i + dih_B2 a b 3 i = 0"
    "dih_B3 b c 0 i + dih_B3 b c 1 i + dih_B3 b c 2 i + dih_B3 b c 3 i = 0" for i
    by (simp_all add: dih_B1_def dih_B2_def dih_B3_def Let_def algebra_simps)
  note z = B [of "dih_B1 a b c", OF this(1)] B [of "dih_B2 a b", OF this(2)] B [of "dih_B3 b c", OF this(3)]
  have s: "real3d_scale (real3d_scale p A - real3d_scale (real3d_scale q B + real3d_scale r C) y) g
      + real3d_scale (real3d_scale p' A - real3d_scale (real3d_scale q' B + real3d_scale r' C) y) g
      + real3d_scale (real3d_scale p2 A - real3d_scale (real3d_scale q2 B + real3d_scale r2 C) y) g
      + real3d_scale (real3d_scale p3 A - real3d_scale (real3d_scale q3 B + real3d_scale r3 C) y) g
    = real3d_scale (real3d_scale (p + p' + p2 + p3) A - real3d_scale (real3d_scale (q + q' + q2 + q3) B + real3d_scale (r + r' + r2 + r3) C) y) g"
    for p q r p' q' r' p2 q2 r2 p3 q3 r3 A B C y g by (simp add: vec_eq_iff algebra_simps)
  show ?thesis unfolding dih_forces_def Let_def prod.case s z by (simp add: vec_eq_iff)
qed

section \<open>The laws of a dihedral potential\<close>

definition dih_sign :: "real3d \<Rightarrow> real3d \<Rightarrow> real3d \<Rightarrow> real" where
  "dih_sign a b c = (if signcheck a b c < 0 then - 1 else 1)"

lemma dih_energy_eq: "dih_energy U q a b c = U q (dih_sign a b c * arccos (dih_cos a b c))"
proof -
  have "real3d_dot (real3d_cross a b) (real3d_cross b c) * (1 / sqrt (real3d_sqr (real3d_cross a b)) * (1 / sqrt (real3d_sqr (real3d_cross b c)))) = dih_cos a b c"
    by (simp add: dih_cos_def Let_def)
  moreover have "clamp (dih_cos a b c) = dih_cos a b c" by (simp add: dih_cos_of)
  ultimately show ?thesis unfolding dih_energy_def dih_sign_def signcheck_def Let_def by simp
qed

lemma signcheck_continuous:
  "isCont (\<lambda>t. signcheck (a + real3d_scale h t) (b + real3d_scale k t) (c + real3d_scale l t)) 0"
  unfolding signcheck_def real3d_dot_def real3d_cross_def by simp

locale dihedral =
  fixes U :: "'a dihedral_energy" and F :: "'a dihedral_force" and C :: "'a dih \<Rightarrow> real \<Rightarrow> real \<Rightarrow> real"
    and smooth :: "'a dih \<Rightarrow> real3d \<Rightarrow> real3d \<Rightarrow> real3d \<Rightarrow> bool"
  assumes dih_nondegenerate: "smooth q a b c \<Longrightarrow> real3d_cross a b \<noteq> 0 \<and> real3d_cross b c \<noteq> 0
      \<and> (signcheck a b c \<noteq> 0 \<or> (\<forall>phi. U q (- phi) = U q phi))"
    and dih_shape: "F q a b c = Some f \<Longrightarrow> \<exists>g x. f = dih_forces g x a b c"
    and dih_shape_smooth: "smooth q a b c \<Longrightarrow> F q a b c = Some (dih_forces (C q (dih_sign a b c) (dih_cos a b c)) (dih_cos a b c) a b c)"
    and dih_deriv: "smooth q a b c \<Longrightarrow>
      ((\<lambda>x. U q (dih_sign a b c * arccos x)) has_real_derivative - C q (dih_sign a b c) (dih_cos a b c)) (at (dih_cos a b c))"
begin

lemma dih_sum: "F q a b c = Some (f1, f2, f3, f4) \<Longrightarrow> f1 + f2 + f3 + f4 = 0"
proof -
  assume "F q a b c = Some (f1, f2, f3, f4)"
  from dih_shape [OF this] obtain g x where "(f1, f2, f3, f4) = dih_forces g x a b c" by blast
  with dih_forces_sum [of g x a b c] show ?thesis by (metis (mono_tags, lifting) case_prod_conv)
qed

lemma dih_energy_near:
  assumes "smooth q a b c"
  shows "eventually (\<lambda>t. dih_energy U q (a + real3d_scale h t) (b + real3d_scale k t) (c + real3d_scale l t)
    = U q (dih_sign a b c * arccos (dih_cos (a + real3d_scale h t) (b + real3d_scale k t) (c + real3d_scale l t)))) (nhds 0)"
proof (cases "signcheck a b c = 0")
  case True
  then have "\<forall>phi. U q (- phi) = U q phi" using dih_nondegenerate [OF assms] by blast
  then have "U q (dih_sign a' b' c' * x) = U q x" for a' b' c' x by (simp add: dih_sign_def)
  then show ?thesis by (simp add: dih_energy_eq)
next
  case False
  let ?s = "\<lambda>t. signcheck (a + real3d_scale h t) (b + real3d_scale k t) (c + real3d_scale l t)"
  have z: "v + real3d_scale w 0 = v" for v w by (simp add: vec_eq_iff)
  have "eventually (\<lambda>t. (?s t < 0) = (signcheck a b c < 0)) (nhds 0)"
  proof (cases "signcheck a b c < 0")
    case True
    then show ?thesis using eventually_below [OF signcheck_continuous, of a h b k c l 0] by (simp add: z)
  next
    case neg: False
    then show ?thesis using eventually_above [OF signcheck_continuous, of 0 a h b k c l] False
      by (simp only: z) (auto elim!: eventually_mono)
  qed
  then show ?thesis by (rule eventually_mono) (simp add: dih_energy_eq dih_sign_def)
qed

lemma dih_gradient:
  assumes "smooth q a b c" "F q a b c = Some f"
  shows "((\<lambda>t. dih_energy U q (a + real3d_scale (u 1 - u 0) t) (b + real3d_scale (u 2 - u 1) t) (c + real3d_scale (u 3 - u 2) t))
    has_real_derivative - work4 f u) (at 0)"
proof -
  have z: "v + real3d_scale w 0 = v" for v w by (simp add: vec_eq_iff)
  note n = dih_nondegenerate [OF assms(1)]
  have d: "((\<lambda>x. U q (dih_sign a b c * arccos x)) has_real_derivative - C q (dih_sign a b c) (dih_cos a b c))
      (at (dih_cos (a + real3d_scale (u 1 - u 0) 0) (b + real3d_scale (u 2 - u 1) 0) (c + real3d_scale (u 3 - u 2) 0)))"
    unfolding z by (rule dih_deriv [OF assms(1)])
  have f: "f = dih_forces (C q (dih_sign a b c) (dih_cos a b c)) (dih_cos a b c) a b c"
    using dih_shape_smooth [OF assms(1)] assms(2) by simp
  from DERIV_chain2 [OF d dih_cos_deriv] n
  have "((\<lambda>t. U q (dih_sign a b c * arccos (dih_cos (a + real3d_scale (u 1 - u 0) t) (b + real3d_scale (u 2 - u 1) t) (c + real3d_scale (u 3 - u 2) t))))
      has_real_derivative - work4 f u) (at 0)"
    unfolding f dih_forces_work minus_mult_left by blast
  then show ?thesis using DERIV_cong_ev [OF refl dih_energy_near [OF assms(1)] refl] by blast
qed

end

section \<open>The potentials satisfy them\<close>

definition dih_regular :: "real3d \<Rightarrow> real3d \<Rightarrow> real3d \<Rightarrow> bool" where
  "dih_regular a b c \<longleftrightarrow> real3d_cross a b \<noteq> 0 \<and> real3d_cross b c \<noteq> 0 \<and> - 1 < dih_cos a b c \<and> dih_cos a b c < 1"

lemma deriv_by_signed_cos:
  assumes "- 1 < c" "c < 1" "s * s = 1" "(V has_real_derivative d) (at (s * arccos c))"
  shows "((\<lambda>x. V (s * arccos x)) has_real_derivative - (d / sin (s * arccos c))) (at c)"
proof -
  have s: "s = 1 \<or> s = - 1" using assms(3) by (simp add: square_eq_1_iff)
  have "((\<lambda>x. s * arccos x) has_real_derivative s * (- (1 / sqrt (1 - c\<^sup>2)))) (at c)"
    using arccos_deriv [OF assms(1,2)] by (rule DERIV_cmult)
  from DERIV_chain2 [OF assms(4) this]
  show ?thesis
  proof (rule DERIV_cong)
    have "sin (s * arccos c) = s * sqrt (1 - c\<^sup>2)" using s assms(1,2) by (auto simp: sin_arccos)
    then show "d * (s * (- (1 / sqrt (1 - c\<^sup>2)))) = - (d / sin (s * arccos c))" using s by auto
  qed
qed

lemma even_polynomial_deriv:
  assumes "- 1 < c" "c < 1" "s * s = 1" "\<And>x. V x = p (cos x)" "(p has_real_derivative d) (at c)"
  shows "((\<lambda>x. V (s * arccos x)) has_real_derivative d) (at c)"
proof -
  have s: "s = 1 \<or> s = - 1" using assms(3) by (simp add: square_eq_1_iff)
  have "open {- 1<..<1::real}" "c \<in> {- 1<..<1}" using assms(1,2) by simp_all
  then have "eventually (\<lambda>x. x \<in> {- 1<..<1}) (nhds c)" by (rule eventually_nhds_in_open)
  then have "eventually (\<lambda>x. V (s * arccos x) = p x) (nhds c)"
    by (rule eventually_mono) (use s in \<open>auto simp: assms(4)\<close>)
  from DERIV_cong_ev [OF refl this refl] assms(5) show ?thesis by simp
qed

lemma dih_sign_sq [simp]: "dih_sign a b c * dih_sign a b c = 1"
  by (simp add: dih_sign_def)

lemma clamp_dih_cos [simp]: "clamp (dih_cos a b c) = dih_cos a b c"
  by (simp add: dih_cos_of)

interpretation harmonic_cos: dihedral hc_U hc_F "\<lambda>q s x. - 2 * hc_K (dh_par q) * (x - hc_cos_phi0 (dh_par q))" "\<lambda>_. dih_regular"
proof
  fix q :: "harmonic_cos dih" and a b c f
  show "dih_regular a b c \<Longrightarrow> real3d_cross a b \<noteq> 0 \<and> real3d_cross b c \<noteq> 0 \<and> (signcheck a b c \<noteq> 0 \<or> (\<forall>phi. hc_U q (- phi) = hc_U q phi))"
    by (simp add: dih_regular_def hc_U_def)
  show "hc_F q a b c = Some f \<Longrightarrow> \<exists>g x. f = dih_forces g x a b c" by (auto simp: hc_F_def Let_def)
  assume r: "dih_regular a b c"
  show "hc_F q a b c = Some (dih_forces (- 2 * hc_K (dh_par q) * (dih_cos a b c - hc_cos_phi0 (dh_par q))) (dih_cos a b c) a b c)"
    by (simp add: hc_F_def Let_def)
  let ?p = "\<lambda>x. hc_K (dh_par q) * (x - hc_cos_phi0 (dh_par q))\<^sup>2"
  have "(?p has_real_derivative - (- 2 * hc_K (dh_par q) * (dih_cos a b c - hc_cos_phi0 (dh_par q)))) (at (dih_cos a b c))"
    by (auto intro!: derivative_eq_intros)
  then show "((\<lambda>x. hc_U q (dih_sign a b c * arccos x)) has_real_derivative
      - (- 2 * hc_K (dh_par q) * (dih_cos a b c - hc_cos_phi0 (dh_par q)))) (at (dih_cos a b c))"
    using r by (intro even_polynomial_deriv [where p = ?p]) (simp_all add: dih_regular_def hc_U_def)
qed

definition rb_smooth :: "rb dih \<Rightarrow> real3d \<Rightarrow> real3d \<Rightarrow> real3d \<Rightarrow> bool" where
  "rb_smooth q a b c \<longleftrightarrow> 1 / 10^8 \<le> sqrt (real3d_sqr (real3d_cross a b)) \<and> 1 / 10^8 \<le> sqrt (real3d_sqr (real3d_cross b c))
     \<and> - 1 < dih_cos a b c \<and> dih_cos a b c < 1"

lemma far_from_zero: "1 / 10^8 \<le> sqrt (real3d_sqr v) \<Longrightarrow> v \<noteq> 0"
  by (auto simp: real3d_sqr_def)

interpretation ryckaert_bellemans: dihedral rb_U rb_F "\<lambda>q s x. rb_coef (dh_par q) x" rb_smooth
proof
  fix q :: "rb dih" and a b c f
  show "rb_smooth q a b c \<Longrightarrow> real3d_cross a b \<noteq> 0 \<and> real3d_cross b c \<noteq> 0 \<and> (signcheck a b c \<noteq> 0 \<or> (\<forall>phi. rb_U q (- phi) = rb_U q phi))"
    using far_from_zero by (auto simp: rb_smooth_def rb_U_def)
  show "rb_F q a b c = Some f \<Longrightarrow> \<exists>g x. f = dih_forces g x a b c" by (auto simp: rb_F_def Let_def split: if_splits)
  assume r: "rb_smooth q a b c"
  show "rb_F q a b c = Some (dih_forces (rb_coef (dh_par q) (dih_cos a b c)) (dih_cos a b c) a b c)"
    using r by (simp add: rb_F_def rb_smooth_def Let_def)
  let ?a = "dh_par q"
  let ?p = "\<lambda>c. rb_K0 ?a + rb_K1 ?a * c + rb_K2 ?a * c * c + rb_K3 ?a * c * c * c + rb_K4 ?a * c * c * c * c + rb_K5 ?a * c * c * c * c * c"
  have "(?p has_real_derivative - rb_coef ?a (dih_cos a b c)) (at (dih_cos a b c))"
    by (auto intro!: derivative_eq_intros simp: rb_coef_def algebra_simps)
  then show "((\<lambda>x. rb_U q (dih_sign a b c * arccos x)) has_real_derivative - rb_coef ?a (dih_cos a b c)) (at (dih_cos a b c))"
    using r by (intro even_polynomial_deriv [where p = ?p]) (simp_all add: rb_smooth_def rb_U_def Let_def)
qed

definition dha_C :: "(real \<times> real) dih \<Rightarrow> real \<Rightarrow> real \<Rightarrow> real" where
  "dha_C q s x = (case dh_par q of (K, phi0) \<Rightarrow> (1 / sin (s * arccos x)) * (K * wrap_diff (s * arccos x - phi0)))"

definition dha_smooth :: "(real \<times> real) dih \<Rightarrow> real3d \<Rightarrow> real3d \<Rightarrow> real3d \<Rightarrow> bool" where
  "dha_smooth q a b c \<longleftrightarrow> dih_regular a b c \<and> signcheck a b c \<noteq> 0
     \<and> \<bar>dih_sign a b c * arccos (dih_cos a b c) - snd (dh_par q)\<bar> \<noteq> pi"

lemma wrap_diff_deriv:
  assumes "\<bar>x\<bar> \<noteq> pi"
  shows "(wrap_diff has_real_derivative 1) (at x)"
proof -
  consider "x < - pi" | "- pi < x" "x < pi" | "pi < x" using assms by (auto simp: abs_if split: if_splits) linarith+
  then have "\<exists>k. eventually (\<lambda>y. wrap_diff y = y + k) (nhds x)"
  proof cases
    case 1
    then have "eventually (\<lambda>y. y \<in> {..<- pi}) (nhds x)" by (intro eventually_nhds_in_open) simp_all
    then have "eventually (\<lambda>y. wrap_diff y = y + 2 * pi) (nhds x)"
    proof (rule eventually_mono)
      fix y assume "y \<in> {..<- pi}"
      then have y: "y < - pi" by simp
      then have "\<not> pi < y" using pi_gt_zero by linarith
      with y show "wrap_diff y = y + 2 * pi" by (simp add: wrap_diff_def Let_def)
    qed
    then show ?thesis by blast
  next
    case 2
    then have "eventually (\<lambda>y. y \<in> {- pi<..<pi}) (nhds x)" by (intro eventually_nhds_in_open) simp_all
    then have "eventually (\<lambda>y. wrap_diff y = y + 0) (nhds x)"
      by (rule eventually_mono) (auto simp: wrap_diff_def Let_def)
    then show ?thesis by blast
  next
    case 3
    then have "eventually (\<lambda>y. y \<in> {pi<..}) (nhds x)" by (intro eventually_nhds_in_open) simp_all
    then have "eventually (\<lambda>y. wrap_diff y = y + - (2 * pi)) (nhds x)"
      by (rule eventually_mono) (auto simp: wrap_diff_def Let_def)
    then show ?thesis by blast
  qed
  then obtain k where k: "eventually (\<lambda>y. wrap_diff y = y + k) (nhds x)" by blast
  have "((\<lambda>y. y + k) has_real_derivative 1) (at x)" by (auto intro!: derivative_eq_intros)
  then show ?thesis using DERIV_cong_ev [OF refl k refl, of 1] by simp
qed

interpretation dihedral_harmonic: dihedral dha_U dha_F dha_C dha_smooth
proof
  fix q :: "(real \<times> real) dih" and a b c f
  obtain K t0 where p: "dh_par q = (K, t0)" by (rule prod.exhaust)
  show "dha_smooth q a b c \<Longrightarrow> real3d_cross a b \<noteq> 0 \<and> real3d_cross b c \<noteq> 0 \<and> (signcheck a b c \<noteq> 0 \<or> (\<forall>phi. dha_U q (- phi) = dha_U q phi))"
    by (simp add: dha_smooth_def dih_regular_def)
  show "dha_F q a b c = Some f \<Longrightarrow> \<exists>g x. f = dih_forces g x a b c"
    by (auto simp: dha_F_def p Let_def split: if_splits)
  assume r: "dha_smooth q a b c"
  then have c: "- 1 < dih_cos a b c" "dih_cos a b c < 1" "\<bar>dih_sign a b c * arccos (dih_cos a b c) - t0\<bar> \<noteq> pi"
    by (simp_all add: dha_smooth_def dih_regular_def p)
  let ?phi = "dih_sign a b c * arccos (dih_cos a b c)"
  have s: "(if signcheck a b c < 0 then - x else x) = dih_sign a b c * x" for x :: real by (simp add: dih_sign_def)
  show "dha_F q a b c = Some (dih_forces (dha_C q (dih_sign a b c) (dih_cos a b c)) (dih_cos a b c) a b c)"
    using c(1,2) by (simp add: dha_F_def dha_C_def p Let_def s)
  have "((\<lambda>x. x - t0) has_real_derivative 1) (at ?phi)" by (auto intro!: derivative_eq_intros)
  with wrap_diff_deriv [OF c(3)] have "((\<lambda>x. wrap_diff (x - t0)) has_real_derivative 1 * 1) (at ?phi)" by (rule DERIV_chain2)
  then have "(dha_U q has_real_derivative K * wrap_diff (?phi - t0)) (at ?phi)"
    unfolding dha_U_def [abs_def] p prod.case Let_def by (auto intro!: derivative_eq_intros)
  from deriv_by_signed_cos [OF c(1,2) dih_sign_sq this]
  show "((\<lambda>x. dha_U q (dih_sign a b c * arccos x)) has_real_derivative - dha_C q (dih_sign a b c) (dih_cos a b c)) (at (dih_cos a b c))"
    by (simp add: dha_C_def p)
qed

text \<open>\<^verbatim>\<open>DihedralHarmonicNCos\<close> leaves out the sign of the angle in the force.\<close>

definition nc_C :: "harmonic_ncos dih \<Rightarrow> real \<Rightarrow> real \<Rightarrow> real" where
  "nc_C q s x = (let a = dh_par q in
     (1 / sin (arccos x)) * (nc_K a * of_int (nc_multiplicity a) * sin (nc_phi0 a - of_int (nc_multiplicity a) * arccos x)))"

definition nc_smooth :: "harmonic_ncos dih \<Rightarrow> real3d \<Rightarrow> real3d \<Rightarrow> real3d \<Rightarrow> bool" where
  "nc_smooth q a b c \<longleftrightarrow> dih_regular a b c \<and> 0 < signcheck a b c"

lemma nc_U_deriv:
  "(nc_U q has_real_derivative
     - (nc_K (dh_par q) * of_int (nc_multiplicity (dh_par q)) * sin (of_int (nc_multiplicity (dh_par q)) * phi - nc_phi0 (dh_par q)))) (at phi)"
  unfolding nc_U_def [abs_def] Let_def by (auto intro!: derivative_eq_intros)

lemma sin_swap: "sin (x - y) = - sin (y - x)" for x y :: real
  by (simp add: sin_diff)

interpretation harmonic_ncos: dihedral nc_U nc_F nc_C nc_smooth
proof
  fix q :: "harmonic_ncos dih" and a b c f
  show "nc_smooth q a b c \<Longrightarrow> real3d_cross a b \<noteq> 0 \<and> real3d_cross b c \<noteq> 0 \<and> (signcheck a b c \<noteq> 0 \<or> (\<forall>phi. nc_U q (- phi) = nc_U q phi))"
    by (simp add: nc_smooth_def dih_regular_def)
  show "nc_F q a b c = Some f \<Longrightarrow> \<exists>g x. f = dih_forces g x a b c"
    by (auto simp: nc_F_def Let_def split: if_splits)
  assume r: "nc_smooth q a b c"
  then have c: "- 1 < dih_cos a b c" "dih_cos a b c < 1" "dih_sign a b c = 1"
    by (simp_all add: nc_smooth_def dih_regular_def dih_sign_def)
  show "nc_F q a b c = Some (dih_forces (nc_C q (dih_sign a b c) (dih_cos a b c)) (dih_cos a b c) a b c)"
    using c(1,2) by (simp add: nc_F_def nc_C_def Let_def)
  from deriv_by_signed_cos [OF c(1,2) _ nc_U_deriv, of 1 q]
  show "((\<lambda>x. nc_U q (dih_sign a b c * arccos x)) has_real_derivative - nc_C q (dih_sign a b c) (dih_cos a b c)) (at (dih_cos a b c))"
    by (simp add: c(3) nc_C_def Let_def sin_swap [of "nc_phi0 (dh_par q)"])
qed

text \<open>For a negative angle the derivative of the energy is another one, unless \<^verbatim>\<open>phi0\<close> is a multiple of \<open>\<pi>\<close>.\<close>

lemma nc_negative_angle:
  assumes "- 1 < c" "c < 1"
  shows "((\<lambda>x. nc_U q (- 1 * arccos x)) has_real_derivative - nc_C q (- 1) c
    + 2 * nc_K (dh_par q) * of_int (nc_multiplicity (dh_par q)) * cos (of_int (nc_multiplicity (dh_par q)) * arccos c) * sin (nc_phi0 (dh_par q))
      / sin (arccos c)) (at c)"
proof -
  let ?K = "nc_K (dh_par q)" and ?n = "of_int (nc_multiplicity (dh_par q)) :: real" and ?t = "nc_phi0 (dh_par q)"
  have "((\<lambda>x. nc_U q (- 1 * arccos x)) has_real_derivative
      - (- (?K * ?n * sin (?n * (- 1 * arccos c) - ?t)) / sin (- 1 * arccos c))) (at c)"
    by (rule deriv_by_signed_cos [OF assms _ nc_U_deriv]) simp
  then show ?thesis
  proof (rule DERIV_cong)
    let ?s = "sin (arccos c)" and ?x = "?n * arccos c"
    have "sin (?n * (- 1 * arccos c) - ?t) = - (sin ?x * cos ?t + cos ?x * sin ?t)" by (simp add: sin_diff)
    moreover have "sin (?t - ?x) = cos ?x * sin ?t - sin ?x * cos ?t" by (simp add: sin_diff mult.commute)
    moreover have "- (- (K * n * - (sx * ct + cx * st)) / - s) = - (1 / s * (K * n * (cx * st - sx * ct))) + 2 * K * n * cx * st / s"
      for K n sx ct cx st s :: real by (cases "s = 0") (simp_all add: field_simps)
    ultimately show "- (- (?K * ?n * sin (?n * (- 1 * arccos c) - ?t)) / sin (- 1 * arccos c))
        = - nc_C q (- 1) c + 2 * ?K * ?n * cos ?x * sin ?t / ?s"
      unfolding nc_C_def Let_def by simp
  qed
qed

section \<open>The interaction\<close>

record 'q dihedral_interaction =
  qi_list :: fixedquadruplelist
  qi_potential :: "'q option"

definition qi_new :: "fixedquadruplelist \<Rightarrow> 'q option \<Rightarrow> 'q dihedral_interaction" where
  "qi_new f q = \<lparr>qi_list = f, qi_potential = q\<rparr>"

definition setFixedQuadrupleList :: "fixedquadruplelist \<Rightarrow> 'q dihedral_interaction \<Rightarrow> 'q dihedral_interaction" where
  "setFixedQuadrupleList f D = D\<lparr>qi_list := f\<rparr>"

definition qi_setPotential :: "'q option \<Rightarrow> 'q dihedral_interaction \<Rightarrow> 'q dihedral_interaction" where
  "qi_setPotential q D = (case q of None \<Rightarrow> D | Some q \<Rightarrow> D\<lparr>qi_potential := Some q\<rparr>)"

text \<open>A round fails on a null pointer, and when the potential leaves its results unset.\<close>

definition qi_each :: "('q \<Rightarrow> 'p \<times> 'p \<times> 'p \<times> 'p \<Rightarrow> 's \<Rightarrow> 's option) \<Rightarrow> 'q option \<Rightarrow>
    'p option \<times> 'p option \<times> 'p option \<times> 'p option \<Rightarrow> 's \<Rightarrow> 's option" where
  "qi_each step potential entry s =
     (case (entry, potential) of ((Some p1, Some p2, Some p3, Some p4), Some q) \<Rightarrow> step q (p1, p2, p3, p4) s | _ \<Rightarrow> None)"

definition qi_loop :: "'q dihedral_interaction \<Rightarrow> ('q \<Rightarrow> ptr \<times> ptr \<times> ptr \<times> ptr \<Rightarrow> 's \<Rightarrow> 's option) \<Rightarrow> 's \<Rightarrow> 's option" where
  "qi_loop D step s = ofold (qi_each step (qi_potential D)) (quadrupleList (qi_list D)) s"

definition quad_dists :: "(real3d \<Rightarrow> real3d \<Rightarrow> real3d) \<Rightarrow> 'p memory \<Rightarrow> 'p \<times> 'p \<times> 'p \<times> 'p \<Rightarrow> real3d \<times> real3d \<times> real3d" where
  "quad_dists mi h p = (case p of (p1, p2, p3, p4) \<Rightarrow>
     (mi (p_pos (h p2)) (p_pos (h p1)), mi (p_pos (h p3)) (p_pos (h p2)), mi (p_pos (h p4)) (p_pos (h p3))))"

definition quad_step :: "(real3d \<Rightarrow> real3d \<Rightarrow> real3d) \<Rightarrow> ('q \<Rightarrow> real3d \<Rightarrow> real3d \<Rightarrow> real3d \<Rightarrow> forces4 option) \<Rightarrow> 'q \<Rightarrow>
    'p \<times> 'p \<times> 'p \<times> 'p \<Rightarrow> 'p memory \<Rightarrow> 'p memory option" where
  "quad_step mi force q p h = (case p of (p1, p2, p3, p4) \<Rightarrow>
     (let (dist21, dist32, dist43) = quad_dists mi h p
      in case force q dist21 dist32 dist43 of None \<Rightarrow> None
         | Some (force1, force2, force3, force4) \<Rightarrow>
             Some (add_force p4 force4 (add_force p3 force3 (add_force p2 force2 (add_force p1 force1 h))))))"

definition qi_addForces :: "(real3d \<Rightarrow> real3d \<Rightarrow> real3d) \<Rightarrow> ('q \<Rightarrow> real3d \<Rightarrow> real3d \<Rightarrow> real3d \<Rightarrow> forces4 option) \<Rightarrow>
    'q dihedral_interaction \<Rightarrow> ptr memory \<Rightarrow> ptr memory option" where
  "qi_addForces mi force D h = qi_loop D (quad_step mi force) h"

definition qi_localEnergy :: "(real3d \<Rightarrow> real3d \<Rightarrow> real3d) \<Rightarrow> ('q \<Rightarrow> real3d \<Rightarrow> real3d \<Rightarrow> real3d \<Rightarrow> real) \<Rightarrow> ptr memory \<Rightarrow>
    'q dihedral_interaction \<Rightarrow> real option" where
  "qi_localEnergy mi energy h D =
     qi_loop D (\<lambda>q p e. let (dist21, dist32, dist43) = quad_dists mi h p in Some (e + energy q dist21 dist32 dist43)) 0"

definition qi_computeEnergy :: "(real3d \<Rightarrow> real3d \<Rightarrow> real3d) \<Rightarrow> ('q \<Rightarrow> real3d \<Rightarrow> real3d \<Rightarrow> real3d \<Rightarrow> real) \<Rightarrow>
    ('q dihedral_interaction \<times> ptr memory) list \<Rightarrow> real option" where
  "qi_computeEnergy mi energy = reduce_locals (\<lambda>(D, h). qi_localEnergy mi energy h D)"

text \<open>
  The virial of one process; \<^verbatim>\<open>computeVirial\<close> reduces it over the processes and then returns the value of its own
  process.  The comments of the code say that these formulas are not correct yet.
\<close>

definition qi_localVirial :: "(real3d \<Rightarrow> real3d \<Rightarrow> real3d) \<Rightarrow> ('q \<Rightarrow> real3d \<Rightarrow> real3d \<Rightarrow> real3d \<Rightarrow> forces4 option) \<Rightarrow> ptr memory \<Rightarrow>
    'q dihedral_interaction \<Rightarrow> real option" where
  "qi_localVirial mi force h D =
     qi_loop D (\<lambda>q p w. let (dist21, dist32, dist43) = quad_dists mi h p
       in case force q dist21 dist32 dist43 of None \<Rightarrow> None
          | Some (force1, force2, force3, force4) \<Rightarrow> Some (w + (real3d_dot dist21 force1 + real3d_dot dist32 force2))) 0"

definition qi_computeVirial :: "nat \<Rightarrow> (real3d \<Rightarrow> real3d \<Rightarrow> real3d) \<Rightarrow> ('q \<Rightarrow> real3d \<Rightarrow> real3d \<Rightarrow> real3d \<Rightarrow> forces4 option) \<Rightarrow>
    ('q dihedral_interaction \<times> ptr memory) list \<Rightarrow> real option" where
  "qi_computeVirial rank mi force world =
     (case those (map (\<lambda>(D, h). qi_localVirial mi force h D) world) of None \<Rightarrow> None | Some ws \<Rightarrow> Some (ws ! rank))"

definition qi_localVirialTensor :: "(real3d \<Rightarrow> real3d \<Rightarrow> real3d) \<Rightarrow> ('q \<Rightarrow> real3d \<Rightarrow> real3d \<Rightarrow> real3d \<Rightarrow> forces4 option) \<Rightarrow> ptr memory \<Rightarrow>
    'q dihedral_interaction \<Rightarrow> tensor option" where
  "qi_localVirialTensor mi force h D =
     qi_loop D (\<lambda>q p w. let (dist21, dist32, dist43) = quad_dists mi h p
       in case force q dist21 dist32 dist43 of None \<Rightarrow> None
          | Some (force1, force2, force3, force4) \<Rightarrow> Some (w + (tensor_of dist21 force1 - tensor_of dist32 force2))) (tensor_const 0)"

definition qi_computeVirialTensor :: "(real3d \<Rightarrow> real3d \<Rightarrow> real3d) \<Rightarrow> ('q \<Rightarrow> real3d \<Rightarrow> real3d \<Rightarrow> real3d \<Rightarrow> forces4 option) \<Rightarrow> tensor \<Rightarrow>
    ('q dihedral_interaction \<times> ptr memory) list \<Rightarrow> tensor option" where
  "qi_computeVirialTensor mi force w world = map_option ((+) w) (reduce_locals (\<lambda>(D, h). qi_localVirialTensor mi force h D) world)"

definition qi_getMaxCutoff :: "'a dih dihedral_interaction \<Rightarrow> cutoff option" where
  "qi_getMaxCutoff D = map_option dh_cutoff (qi_potential D)"

section \<open>What the laws give for the quadruples of a list\<close>

definition qi_quads :: "'q dihedral_interaction \<Rightarrow> 'q \<Rightarrow> (ptr \<times> ptr \<times> ptr \<times> ptr) list \<Rightarrow> bool" where
  "qi_quads D q ts \<longleftrightarrow> qi_potential D = Some q
     \<and> quadrupleList (qi_list D) = map (\<lambda>(p1, p2, p3, p4). (Some p1, Some p2, Some p3, Some p4)) ts"

lemma qi_loop_ofold: "qi_quads D q ts \<Longrightarrow> qi_loop D step s = ofold (step q) ts s"
proof -
  have "ofold (qi_each step (Some q)) (map (\<lambda>(p1, p2, p3, p4). (Some p1, Some p2, Some p3, Some p4)) ts) s = ofold (step q) ts s"
    by (induction ts arbitrary: s) (auto simp: qi_each_def split: option.splits)
  then show "qi_quads D q ts \<Longrightarrow> ?thesis" by (simp add: qi_quads_def qi_loop_def)
qed

definition quad_forces :: "(real3d \<Rightarrow> real3d \<Rightarrow> real3d) \<Rightarrow> ('q \<Rightarrow> real3d \<Rightarrow> real3d \<Rightarrow> real3d \<Rightarrow> forces4 option) \<Rightarrow> 'q \<Rightarrow> 'p memory \<Rightarrow>
    'p \<times> 'p \<times> 'p \<times> 'p \<Rightarrow> ('p \<times> real3d) list option" where
  "quad_forces mi force q h t = (case t of (p1, p2, p3, p4) \<Rightarrow>
     (case quad_dists mi h t of (a, b, c) \<Rightarrow>
       map_option (\<lambda>(f1, f2, f3, f4). [(p1, f1), (p2, f2), (p3, f3), (p4, f4)]) (force q a b c)))"

lemma quad_step_forced: "quad_step mi force q t h = map_option (\<lambda>cs. forced cs h) (quad_forces mi force q h t)"
  by (auto simp: quad_step_def quad_forces_def split: prod.splits option.splits)

lemma quad_forces_forced: "quad_forces mi force q (forced cs h) t = quad_forces mi force q h t"
  by (simp add: quad_forces_def quad_dists_def)

lemma quad_fold:
  "ofold (quad_step mi force q) ts h = map_option (\<lambda>css. forced (concat css) h) (those (map (quad_forces mi force q h) ts))"
proof (induction ts arbitrary: h)
  case (Cons t ts)
  show ?case
  proof (cases "quad_forces mi force q h t")
    case (Some cs)
    have "quad_forces mi force q (forced cs h) = quad_forces mi force q h" by (rule ext) (rule quad_forces_forced)
    then show ?thesis using Cons [of "forced cs h"] by (simp add: quad_step_forced Some option.map_comp o_def)
  qed (simp add: quad_step_forced)
qed simp

definition members4 :: "('p \<times> 'p \<times> 'p \<times> 'p) list \<Rightarrow> 'p set" where
  "members4 ts = (\<Union>(p1, p2, p3, p4)\<in>set ts. {p1, p2, p3, p4})"

lemma those_Some_nth: "those xs = Some ys \<longleftrightarrow> xs = map Some ys"
  by (induction xs arbitrary: ys) (auto split: option.splits simp: map_eq_Cons_conv Cons_eq_map_conv)

locale dihedral_field = dihedral U F C smooth + image mi mi' regular
  for U :: "'a dihedral_energy" and F :: "'a dihedral_force" and C smooth mi mi' regular
begin

definition quad_smooth :: "'a dih \<Rightarrow> 'p memory \<Rightarrow> 'p \<times> 'p \<times> 'p \<times> 'p \<Rightarrow> bool" where
  "quad_smooth q h t \<longleftrightarrow> (case t of (p1, p2, p3, p4) \<Rightarrow>
     smooth q (mi (p_pos (h p2)) (p_pos (h p1))) (mi (p_pos (h p3)) (p_pos (h p2))) (mi (p_pos (h p4)) (p_pos (h p3)))
     \<and> regular (p_pos (h p2)) (p_pos (h p1)) \<and> regular (p_pos (h p3)) (p_pos (h p2)) \<and> regular (p_pos (h p4)) (p_pos (h p3)))"

definition quad_energy :: "'a dih \<Rightarrow> 'p memory \<Rightarrow> 'p \<times> 'p \<times> 'p \<times> 'p \<Rightarrow> real" where
  "quad_energy q h t = (case quad_dists mi h t of (a, b, c) \<Rightarrow> dih_energy U q a b c)"

lemma quad_sum: "quad_forces mi F q h t = Some cs \<Longrightarrow> (\<Sum>(p, f)\<leftarrow>cs. f) = 0"
  using dih_sum [of q] by (auto simp: quad_forces_def add.assoc split: prod.splits)

lemma quad_in: "quad_forces mi F q h t = Some cs \<Longrightarrow> fst ` set cs \<subseteq> members4 [t]"
  by (auto simp: quad_forces_def members4_def split: prod.splits)

lemma quad_gradient:
  assumes "quad_smooth q h t" "quad_forces mi F q h t = Some cs"
  shows "((\<lambda>s. quad_energy q (moved u s h) t) has_real_derivative - (\<Sum>(p, f)\<leftarrow>cs. real3d_dot f (u p))) (at 0)"
proof -
  obtain p1 p2 p3 p4 where t: "t = (p1, p2, p3, p4)" by (cases t)
  let ?a = "mi (p_pos (h p2)) (p_pos (h p1))" and ?b = "mi (p_pos (h p3)) (p_pos (h p2))" and ?c = "mi (p_pos (h p4)) (p_pos (h p3))"
  have s: "smooth q ?a ?b ?c" "regular (p_pos (h p2)) (p_pos (h p1))" "regular (p_pos (h p3)) (p_pos (h p2))" "regular (p_pos (h p4)) (p_pos (h p3))"
    using assms(1) by (simp_all add: quad_smooth_def t)
  obtain f1 f2 f3 f4 where f: "F q ?a ?b ?c = Some (f1, f2, f3, f4)" "cs = [(p1, f1), (p2, f2), (p3, f3), (p4, f4)]"
    using assms(2) by (auto simp: quad_forces_def quad_dists_def t)
  define v where "v i = [u p1, u p2, u p3, u p4] ! i" for i :: nat
  have v: "v 0 = u p1" "v 1 = u p2" "v 2 = u p3" "v 3 = u p4" "v (Suc 0) = u p2" by (simp_all add: v_def)
  have "eventually (\<lambda>s. quad_energy q (moved u s h) t
      = dih_energy U q (?a + real3d_scale (v 1 - v 0) s) (?b + real3d_scale (v 2 - v 1) s) (?c + real3d_scale (v 3 - v 2) s)) (nhds 0)"
    using image_local [OF s(2), of "u p2" "u p1"] image_local [OF s(3), of "u p3" "u p2"] image_local [OF s(4), of "u p4" "u p3"]
    unfolding v by eventually_elim (simp add: quad_energy_def quad_dists_def t)
  from DERIV_cong_ev [OF refl this refl] dih_gradient [OF s(1) f(1), of v]
  show ?thesis by (simp add: f(2) work4_def v add.assoc)
qed

lemma addForces_quads:
  assumes "qi_quads D q ts" "qi_addForces mi F D h = Some h'"
  obtains css where "h' = forced (concat css) h" "map (quad_forces mi F q h) ts = map Some css"
  using assms(2) that unfolding qi_addForces_def qi_loop_ofold [OF assms(1)] quad_fold by (auto simp: those_Some_nth)

lemma css_in:
  assumes "map (quad_forces mi F q h) ts = map Some css"
  shows "fst ` set (concat css) \<subseteq> members4 ts" "(\<Sum>(p, f)\<leftarrow>concat css. f) = 0"
  using assms
proof (induction ts arbitrary: css)
  case (Cons t ts)
  {
    case 1
    then obtain cs css' where c: "css = cs # css'" "quad_forces mi F q h t = Some cs" "map (quad_forces mi F q h) ts = map Some css'"
      by (auto simp: Cons_eq_map_conv)
    have "members4 (t # ts) = members4 [t] \<union> members4 ts" by (simp add: members4_def)
    then show ?case using quad_in [OF c(2)] Cons(1) [OF c(3)] unfolding c(1) concat.simps set_append image_Un by blast
  next
    case 2
    then obtain cs css' where c: "css = cs # css'" "quad_forces mi F q h t = Some cs" "map (quad_forces mi F q h) ts = map Some css'"
      by (auto simp: Cons_eq_map_conv)
    show ?case using quad_sum [OF c(2)] Cons(2) [OF c(3)] unfolding c(1) by simp
  }
qed simp_all

lemma addForces_some:
  assumes "qi_quads D q ts" "\<And>t. t \<in> set ts \<Longrightarrow> quad_smooth q h t"
  obtains h' where "qi_addForces mi F D h = Some h'"
proof -
  have "quad_forces mi F q h t \<noteq> None" if "t \<in> set ts" for t
    using assms(2) [OF that] dih_shape_smooth by (cases t) (auto simp: quad_smooth_def quad_forces_def quad_dists_def)
  then have "map (quad_forces mi F q h) ts = map Some (map (\<lambda>t. the (quad_forces mi F q h t)) ts)" by simp
  then have "those (map (quad_forces mi F q h) ts) \<noteq> None" using those_Some_nth by (metis option.distinct(1))
  then show thesis using that unfolding qi_addForces_def qi_loop_ofold [OF assms(1)] quad_fold by auto
qed

lemma quad_newton:
  assumes "qi_quads D q ts" "qi_addForces mi F D h = Some h'" "finite X" "members4 ts \<subseteq> X"
  shows "(\<Sum>a\<in>X. force_at h' a) = (\<Sum>a\<in>X. force_at h a)"
proof -
  obtain css where c: "h' = forced (concat css) h" "map (quad_forces mi F q h) ts = map Some css"
    by (rule addForces_quads [OF assms(1,2)])
  have "fst ` set (concat css) \<subseteq> X" using css_in(1) [OF c(2)] assms(4) by (rule order_trans)
  from net_sum [OF assms(3) this] show ?thesis unfolding c(1) force_at_forced sum.distrib css_in(2) [OF c(2)] by simp
qed

lemma quad_energies_gradient:
  assumes "map (quad_forces mi F q h) ts = map Some css" "\<And>t. t \<in> set ts \<Longrightarrow> quad_smooth q h t"
  shows "((\<lambda>s. \<Sum>t\<leftarrow>ts. quad_energy q (moved u s h) t) has_real_derivative - (\<Sum>(p, f)\<leftarrow>concat css. real3d_dot f (u p))) (at 0)"
  using assms
proof (induction ts arbitrary: css)
  case (Cons t ts)
  then obtain cs css' where c: "css = cs # css'" "quad_forces mi F q h t = Some cs" "map (quad_forces mi F q h) ts = map Some css'"
    by (auto simp: Cons_eq_map_conv)
  have "((\<lambda>s. \<Sum>t\<leftarrow>ts. quad_energy q (moved u s h) t) has_real_derivative - (\<Sum>(p, f)\<leftarrow>concat css'. real3d_dot f (u p))) (at 0)"
    using Cons.prems by (intro Cons.IH [OF c(3)]) simp
  from DERIV_add [OF quad_gradient [OF _ c(2), of u] this] Cons.prems show ?case by (simp add: c(1) algebra_simps)
qed simp

lemma quad_addForces_gradient:
  assumes "qi_quads D q ts" "qi_addForces mi F D h = Some h'" "\<And>t. t \<in> set ts \<Longrightarrow> quad_smooth q h t"
    and "finite X" "members4 ts \<subseteq> X"
  shows "((\<lambda>s. the (qi_localEnergy mi (dih_energy U) (moved u s h) D)) has_real_derivative
    - (\<Sum>a\<in>X. real3d_dot (force_at h' a - force_at h a) (u a))) (at 0)"
proof -
  obtain css where c: "h' = forced (concat css) h" "map (quad_forces mi F q h) ts = map Some css"
    by (rule addForces_quads [OF assms(1,2)])
  have "fst ` set (concat css) \<subseteq> X" using css_in(1) [OF c(2)] assms(5) by (rule order_trans)
  from net_work [OF assms(4) this, of u]
  have w: "(\<Sum>a\<in>X. real3d_dot (force_at h' a - force_at h a) (u a)) = (\<Sum>(p, f)\<leftarrow>concat css. real3d_dot f (u p))"
    unfolding c(1) force_at_forced by simp
  have o: "ofold (\<lambda>p e. let (a, b, c) = quad_dists mi g p in Some (e + dih_energy U q a b c)) ts e0 = Some (e0 + (\<Sum>t\<leftarrow>ts. quad_energy q g t))" for g e0
    by (induction ts arbitrary: e0) (auto simp: quad_energy_def add.assoc split: prod.splits)
  have e: "the (qi_localEnergy mi (dih_energy U) (moved u s h) D) = (\<Sum>t\<leftarrow>ts. quad_energy q (moved u s h) t)" for s
    unfolding qi_localEnergy_def qi_loop_ofold [OF assms(1)] o by simp
  show ?thesis unfolding e w by (rule quad_energies_gradient [OF c(2) assms(3)])
qed

end

end
