(* ===== verification/InteractionProps.thy ===== *)
theory InteractionProps
  imports LennardJonesCapped BondPotentials ChargePotentials DihedralInteractions
begin

text \<open>
  The interactions with the potentials of the code in them: every potential is put into the laws of the
  bonds, the angles and the dihedrals, for both boundary conditions, and the properties are stated for
  representative ones.
\<close>

section \<open>The laws on the model\<close>

text \<open>A force that reads positions only, of whatever energy.\<close>

interpretation any_force: verlet_interaction "\<lambda>_ _ _. 0" "computeForcePP F" "\<lambda>_ _ _. False"
  for F :: "'a raw_force"
  by standard (simp_all add: computeForcePP_def)

interpretation lj_pairs: verlet_interaction "computeEnergyPP lj_E" "computeForcePP lj_F" "away lj_smooth" ..

interpretation coulomb_pairs: verlet_interaction coulomb_energy coulomb_force apart_from ..

interpretation rf_pairs: verlet_interaction rf_energy "rf_computeForce 0" rf_smooth ..

interpretation harmonic_ortho: bond_field harmonic_E harmonic_F "\<lambda>p. harmonic_factor (pt_par p)" positive
    "ob_getMinimumImageVectorBox b" "ob_getMinimumImageVector b" "ob_regular b"
  for b :: "'a orthobc_scheme" ..

interpretation harmonic_slab: bond_field harmonic_E harmonic_F "\<lambda>p. harmonic_factor (pt_par p)" positive
    "slab_getMinimumImageVectorBox b" "slab_getMinimumImageVector b" "slab_regular b" for b ..

interpretation fene_ortho: bond_field fene_E fene_F "\<lambda>p. fene_factor (pt_par p)" "\<lambda>p. fene_bound (pt_par p)"
    "ob_getMinimumImageVectorBox b" "ob_getMinimumImageVector b" "ob_regular b"
  for b :: "'a orthobc_scheme" ..

interpretation fene_slab: bond_field fene_E fene_F "\<lambda>p. fene_factor (pt_par p)" "\<lambda>p. fene_bound (pt_par p)"
    "slab_getMinimumImageVectorBox b" "slab_getMinimumImageVector b" "slab_regular b" for b ..

interpretation lj_ortho: bond_field lj_E lj_F "\<lambda>p. lj_factor (pt_par p)" lj_smooth
    "ob_getMinimumImageVectorBox b" "ob_getMinimumImageVector b" "ob_regular b"
  for b :: "'a orthobc_scheme" ..

interpretation cosine_ortho: angle_field cs_U cs_F cs_G cs_smooth
    "ob_getMinimumImageVectorBox b" "ob_getMinimumImageVector b" "ob_regular b"
  for b :: "'a orthobc_scheme" ..

interpretation angular_harmonic_ortho: angle_field ah_U ah_F ah_G ah_smooth
    "ob_getMinimumImageVectorBox b" "ob_getMinimumImageVector b" "ob_regular b"
  for b :: "'a orthobc_scheme" ..

interpretation angular_harmonic_slab: angle_field ah_U ah_F ah_G ah_smooth
    "slab_getMinimumImageVectorBox b" "slab_getMinimumImageVector b" "slab_regular b" for b ..

interpretation cosine_squared_ortho: angle_field sq_U sq_F sq_G "\<lambda>_ c. - 1 < c \<and> c < 1"
    "ob_getMinimumImageVectorBox b" "ob_getMinimumImageVector b" "ob_regular b"
  for b :: "'a orthobc_scheme" ..

interpretation harmonic_cos_ortho: dihedral_field hc_U hc_F "\<lambda>q s x. - 2 * hc_K (dh_par q) * (x - hc_cos_phi0 (dh_par q))" "\<lambda>_. dih_regular"
    "ob_getMinimumImageVectorBox b" "ob_getMinimumImageVector b" "ob_regular b"
  for b :: "'a orthobc_scheme" ..

interpretation rb_ortho: dihedral_field rb_U rb_F "\<lambda>q s x. rb_coef (dh_par q) x" rb_smooth
    "ob_getMinimumImageVectorBox b" "ob_getMinimumImageVector b" "ob_regular b"
  for b :: "'a orthobc_scheme" ..

interpretation rb_slab: dihedral_field rb_U rb_F "\<lambda>q s x. rb_coef (dh_par q) x" rb_smooth
    "slab_getMinimumImageVectorBox b" "slab_getMinimumImageVector b" "slab_regular b" for b ..

interpretation dihedral_harmonic_ortho: dihedral_field dha_U dha_F dha_C dha_smooth
    "ob_getMinimumImageVectorBox b" "ob_getMinimumImageVector b" "ob_regular b"
  for b :: "'a orthobc_scheme" ..

section \<open>Examples\<close>

definition bead :: "real3d \<Rightarrow> particle" where
  "bead r = \<lparr>part_p = \<lparr>pp_id = 1, pp_type = 0, pp_mass = 1, pp_q = 1, pp_lambda = 0, pp_drift = 0, pp_lambdaDeriv = 0,
       pp_state = 0, pp_res_id = 0, pp_incr_state = 0, pp_change_flag = 0\<rparr>,
     part_r = \<lparr>pr_p = r, pr_radius = 1, pr_extVar = 0\<rparr>, part_m = \<lparr>pm_v = 0, pm_vradius = 0\<rparr>,
     part_l = \<lparr>pl_i = 0, pl_ghost = False\<rparr>, part_f = \<lparr>pf_f = 0, pf_fradius = 0\<rparr>\<rparr>"

lemma bead_sel [simp]: "p_pos (bead r) = r" "p_type (bead r) = 0"
  by (simp_all add: bead_def)

text \<open>Beads on a zigzag, and a cube of length 10.\<close>

definition zigzag :: "nat \<Rightarrow> real3d" where
  "zigzag i = [V3 1 0 0, V3 0 0 0, V3 0 1 0, V3 0 1 1] ! i"

definition beads :: "ptr memory" where
  "beads p = bead (zigzag (ptr_idx p))"

definition cube :: "unit orthobc_scheme" where
  "cube = \<lparr>boxL = V3 10 10 10, boxL2 = V3 5 5 5, invBoxL = V3 (1/10) (1/10) (1/10)\<rparr>"

abbreviation at_idx :: "nat \<Rightarrow> ptr" where "at_idx i \<equiv> Ptr (CellV 0) 0 i"

lemma zigzag_simps [simp]: "zigzag 0 = V3 1 0 0" "zigzag (Suc 0) = V3 0 0 0" "zigzag 2 = V3 0 1 0" "zigzag 3 = V3 0 1 1"
  by (simp_all add: zigzag_def)

lemma beads_simps [simp]: "p_pos (beads p) = zigzag (ptr_idx p)" "p_type (beads p) = 0"
  by (simp_all add: beads_def)

lemma vec_diff [simp]: "V3 a b c - V3 d e f = V3 (a - d) (b - e) (c - f)" for a :: real
  by (simp add: vec_eq_iff)

lemma cube_image:
  assumes "\<bar>vx (p - q)\<bar> \<le> 2" "\<bar>vy (p - q)\<bar> \<le> 2" "\<bar>vz (p - q)\<bar> \<le> 2"
  shows "ob_getMinimumImageVectorBox cube p q = p - q" "ob_regular cube p q"
proof -
  have v: "bc_valid cube" by (simp add: bc_valid_def cube_def less_3_cases all_conj_distrib imp_conjL)
  have r: "roundImage x (1/10) 10 = x" if "\<bar>x\<bar> \<le> 2" for x :: real
  proof -
    have "\<bar>x * (1/10) - of_int 0\<bar> < 1/2" using that by simp
    then have "c_round (x * (1/10)) = 0" by (rule c_round_unique)
    then show ?thesis by (simp add: roundImage_def)
  qed
  have s: "shiftImage x 5 10 = x" if "\<bar>x\<bar> \<le> 2" for x :: real using that by (auto simp: shiftImage_def abs_le_iff)
  show b: "ob_getMinimumImageVectorBox cube p q = p - q"
    using assms by (simp add: ob_getMinimumImageVectorBox_def Let_def cube_def s vec_eq_iff)
  have n: "ob_getMinimumImageVector cube p q = p - q"
    using assms by (simp add: ob_getMinimumImageVector_def Let_def cube_def r vec_eq_iff)
  show "ob_regular cube p q" unfolding ob_regular_def b n using v assms by (auto simp: cube_def less_3_cases)
qed

definition pair_list :: "'p \<Rightarrow> 'p \<Rightarrow> 'p verletlist" where
  "pair_list p q = \<lparr>vlPairs = [(p, q)], cut = 3, cutVerlet = 4, cutsq = 16, builds = 1, vl_exList = {},
     isDynamicExList = False, connectionResort = True\<rparr>"

definition lj_example :: "(ptr, lj pot) vl_interaction" where
  "lj_example = vi_new (LennardJones_new_auto 1 1 (Some 2)) (pair_list (at_idx 0) (at_idx 1))"

lemma lj_example_sel [simp]: "vi_pairs lj_example = [(at_idx 0, at_idx 1)]" "vi_pot lj_example i j = LennardJones_new_auto 1 1 (Some 2)"
  by (simp_all add: lj_example_def vi_new_def vi_pairs_def pair_list_def vi_pot_def gr_init_view)

lemma lj_new_sel [simp]: "lj_ready (pt_par (LennardJones_new_auto e s c))" "pt_cutoffSqr (LennardJones_new_auto e s c) = cut_sqr c"
  using lj_new_ok(3) [of e s c] by (simp_all add: lj_ok_def) (simp add: LennardJones_new_auto_def)

lemma V3_eq_0 [simp]: "V3 a b c = 0 \<longleftrightarrow> a = 0 \<and> b = 0 \<and> (c::real) = 0"
  by (simp add: vec_eq_iff)

lemma sqr_V3 [simp]: "real3d_sqr (V3 a b c) = a * a + b * b + c * c"
  by (simp add: real3d_sqr_def)

lemma zigzag_images:
  "ob_getMinimumImageVectorBox cube (V3 1 0 0) (V3 0 0 0) = V3 1 0 0" "ob_regular cube (V3 1 0 0) (V3 0 0 0)"
  "ob_getMinimumImageVectorBox cube (V3 0 1 0) (V3 0 0 0) = V3 0 1 0" "ob_regular cube (V3 0 1 0) (V3 0 0 0)"
  "ob_getMinimumImageVectorBox cube (V3 0 0 0) (V3 1 0 0) = V3 (- 1) 0 0" "ob_regular cube (V3 0 0 0) (V3 1 0 0)"
  "ob_getMinimumImageVectorBox cube (V3 0 1 1) (V3 0 1 0) = V3 0 0 1" "ob_regular cube (V3 0 1 1) (V3 0 1 0)"
  by (simp_all add: cube_image)

section \<open>Properties\<close>

text \<open>
  C13.  Newton's third law for the non-bonded interactions, with any potential: when \<^verbatim>\<open>addForces\<close> of
  \<^verbatim>\<open>VerletListInteractionTemplate\<close> returns, the forces of any set of particles that holds all members of
  the pairs have the same sum as before, nothing but forces has changed, and no force outside the pairs.
\<close>

theorem pair_forces_cancel:
  assumes "vi_addForces (computeForcePP F) I h = Some (I', h')"
    and "finite A" "\<forall>(p, q)\<in>set (vi_pairs I). p \<in> A \<and> q \<in> A"
  shows "(\<Sum>a\<in>A. force_at h' a) = (\<Sum>a\<in>A. force_at h a)
    \<and> (\<forall>a. h' a = (h a)\<lparr>part_f := (part_f (h a))\<lparr>pf_f := force_at h' a\<rparr>\<rparr> \<and> (a \<notin> A \<longrightarrow> h' a = h a))"
proof -
  note t = addForces_types [OF assms(1)]
  have A: "fst ` set (vi_pairs I) \<union> snd ` set (vi_pairs I) \<subseteq> A" using assms(3) by force
  obtain cs where h': "h' = forced cs h" "fst ` set cs \<subseteq> A"
    using any_force.addForces_spec [OF t] assms(1) pair_forces_in A by (metis (no_types, lifting) Pair_inject option.inject order_trans)
  have "net cs a = 0" if "a \<notin> A" for a
    using h'(2) that by (induction cs) auto
  then have "h' a = h a" if "a \<notin> A" for a using that by (simp add: h'(1) forced_at force_at_def)
  then show ?thesis
    using any_force.addForces_newton [OF assms(1) t assms(2) A] by (auto simp: h'(1) force_at_forced) (simp add: forced_at)
qed

theorem pair_forces_cancel_witness:
  "\<exists>I' h'. vi_addForces (computeForcePP lj_F) lj_example beads = Some (I', h')
    \<and> force_at h' (at_idx 0) + force_at h' (at_idx 1) = 0"
proof -
  have "types_ok beads (vi_pairs lj_example)" by simp
  then obtain I' h' where r: "vi_addForces (computeForcePP lj_F) lj_example beads = Some (I', h')"
    using lj_pairs.addForces_spec by metis
  have "(\<Sum>a\<in>{at_idx 0, at_idx 1}. force_at h' a) = (\<Sum>a\<in>{at_idx 0, at_idx 1}. force_at beads a)"
    using pair_forces_cancel [OF r, of "{at_idx 0, at_idx 1}"] by simp
  then show ?thesis using r by (simp add: force_at_def beads_def bead_def)
qed

text \<open>
  C12.  The forces of Lennard-Jones pairs are minus the gradient of their energy.  When no particle of a pair has a
  negative type and no pair lies on top of each other or exactly at the cutoff, \<^verbatim>\<open>addForces\<close> of the Verlet list
  interaction with \<^verbatim>\<open>LennardJones\<close> potentials returns, and for every displacement of the particles the energy
  that \<^verbatim>\<open>computeEnergy\<close> sums on the process falls by the work of the added forces.
\<close>

theorem lj_forces_are_gradient:
  fixes I :: "('p, lj pot) vl_interaction"
  assumes "\<forall>(p, q)\<in>set (vi_pairs I). 0 \<le> p_type (h p) \<and> 0 \<le> p_type (h q)"
    and "\<forall>(p, q)\<in>set (vi_pairs I). let d = p_pos (h p) - p_pos (h q); v = vi_pot I (p_type (h p)) (p_type (h q))
      in lj_ready (pt_par v) \<and> d \<noteq> 0 \<and> pt_cutoffSqr v \<noteq> Some (real3d_sqr d)"
    and "finite A" "\<forall>(p, q)\<in>set (vi_pairs I). p \<in> A \<and> q \<in> A"
  shows "\<exists>I' h'. vi_addForces (computeForcePP lj_F) I h = Some (I', h') \<and>
    (\<forall>u. ((\<lambda>t. snd (the (vi_localEnergy (computeEnergyPP lj_E) (moved u t h) I))) has_real_derivative
      - (\<Sum>a\<in>A. real3d_dot (force_at h' a - force_at h a) (u a))) (at 0))"
proof -
  have t: "types_ok h (vi_pairs I)" using assms(1) by (auto simp: types_ok_def)
  have A: "fst ` set (vi_pairs I) \<union> snd ` set (vi_pairs I) \<subseteq> A" using assms(4) by force
  have s: "away lj_smooth (pot_at I h (p, q)) (h p) (h q)" if "(p, q) \<in> set (vi_pairs I)" for p q
    using assms(2) that sqr_pos0 [of "p_pos (h p) - p_pos (h q)"]
    by (fastforce simp: away_def lj_smooth_def off_cutoff_def pot_at_def Let_def)
  obtain I' h' where "vi_addForces (computeForcePP lj_F) I h = Some (I', h')"
    using lj_pairs.addForces_spec [OF t] by metis
  with lj_pairs.addForces_gradient [OF this t s assms(3) A] show ?thesis by blast
qed

theorem lj_forces_are_gradient_witness:
  "\<exists>I' h'. vi_addForces (computeForcePP lj_F) lj_example beads = Some (I', h') \<and>
    (\<forall>u. ((\<lambda>t. snd (the (vi_localEnergy (computeEnergyPP lj_E) (moved u t beads) lj_example))) has_real_derivative
      - (\<Sum>a\<in>{at_idx 0, at_idx 1}. real3d_dot (force_at h' a - force_at beads a) (u a))) (at 0))"
  by (rule lj_forces_are_gradient) (simp_all add: Let_def)

text \<open>
  C28.  Whatever is done to a \<^verbatim>\<open>LennardJones\<close> potential, it stays sound: after any sequence of its setters on any of its
  three constructors the energy vanishes at the cutoff as long as the shift is automatic, and away from the
  origin and the cutoff the force is minus the gradient of the energy.
\<close>

theorem lj_setters_keep_laws:
  assumes "p0 \<in> {LennardJones_new, LennardJones_new_shift e s c r, LennardJones_new_auto e s c}" "p = fold lj_do ops p0"
  shows "(pt_auto p \<longrightarrow> (\<forall>r. pt_cutoff p = Some r \<longrightarrow> computeEnergyR lj_E p r = 0))
    \<and> (\<forall>d h. d \<noteq> 0 \<and> (\<forall>r. pt_cutoff p = Some r \<longrightarrow> real3d_sqr d \<noteq> r * r) \<longrightarrow>
        ((\<lambda>t. computeEnergyV lj_E p (d + real3d_scale h t)) has_real_derivative - real3d_dot (computeForce lj_F p d) h) (at 0))"
proof -
  have "lj_ok p0" using assms(1) lj_new_ok by auto
  then have "lj_ok (fold lj_do ops p0)" by (induction ops arbitrary: p0) (simp_all add: lj_do_ok)
  then have ok: "lj_ready (pt_par p)" "shift_fits lj_E p" unfolding assms(2) lj_ok_def by blast+
  have c: "pt_cutoffSqr p = cut_sqr (pt_cutoff p)" using ok(2) by (simp add: shift_fits_def)
  have "lj_smooth p (real3d_sqr d) \<and> off_cutoff p (real3d_sqr d)"
    if "d \<noteq> 0" "\<forall>r. pt_cutoff p = Some r \<longrightarrow> real3d_sqr d \<noteq> r * r" for d
    using that sqr_pos0 [OF that(1)] ok(1) by (cases "pt_cutoff p") (auto simp: lj_smooth_def off_cutoff_def c)
  then show ?thesis
    using lennard_jones.gradient [of p] shift_fits_zero [OF ok(2)] by (simp add: computeEnergyR_def)
qed

theorem lj_setters_keep_laws_witness:
  "let p = fold lj_do [LJ_sigma 2, LJ_cutoff (Some 5), LJ_epsilon 3] (LennardJones_new_auto 1 1 (Some 2))
   in computeEnergyR lj_E p 5 = 0 \<and> ((\<lambda>t. computeEnergyV lj_E p (V3 1 0 0 + real3d_scale (V3 1 2 3) t))
        has_real_derivative - real3d_dot (computeForce lj_F p (V3 1 0 0)) (V3 1 2 3)) (at 0)"
proof -
  let ?p = "fold lj_do [LJ_sigma 2, LJ_cutoff (Some 5), LJ_epsilon 3] (LennardJones_new_auto 1 1 (Some 2))"
  have "pt_auto ?p" "pt_cutoff ?p = Some 5"
    by (simp_all add: lj_setSigma_def lj_setEpsilon_def LennardJones_new_auto_def) (simp add: pot_setters Let_def)
  then show ?thesis using lj_setters_keep_laws [of "LennardJones_new_auto 1 1 (Some 2)" 1 1 "Some 2" 0 ?p "[LJ_sigma 2, LJ_cutoff (Some 5), LJ_epsilon 3]"]
    unfolding Let_def by fastforce
qed

text \<open>
  C14.  FENE bonds in a periodic box, with an \<^verbatim>\<open>r0\<close> that is 0 or larger than the rounding error \<^verbatim>\<open>ROUND_ERROR_PREC\<close> (for others
  the force forgets \<^verbatim>\<open>r0\<close>, the energy does not: \<open>fene_negative_r0\<close>) and \<^verbatim>\<open>rMaxSqr\<close> the square of \<^verbatim>\<open>rMax\<close>: when every bond has a
  length that is not 0, differs from \<^verbatim>\<open>r0\<close> by less than \<^verbatim>\<open>rMax\<close>, is off the cutoff, is along each axis less than half of a
  valid box, and both variants of the minimum image agree on it, \<^verbatim>\<open>addForces\<close> of \<^verbatim>\<open>FixedPairListInteractionTemplate\<close> returns; the added forces are minus the
  gradient of the energy that \<^verbatim>\<open>computeEnergy\<close> sums on the process and cancel; and \<^verbatim>\<open>longtimeMaxBondSqr\<close> is
  afterwards no smaller than before and than the squared length of any bond.
\<close>

theorem fene_bonds:
  fixes b :: "'a orthobc_scheme"
  assumes "bi_bonds B q ps"
    and "\<forall>(p1, p2)\<in>set ps. let s = real3d_sqr (ob_getMinimumImageVectorBox b (p_pos (h p1)) (p_pos (h p2)))
      in fene_bound (pt_par q) s \<and> pt_cutoffSqr q \<noteq> Some s \<and> ob_regular b (p_pos (h p1)) (p_pos (h p2))"
    and "finite A" "\<forall>(p1, p2)\<in>set ps. p1 \<in> A \<and> p2 \<in> A"
  shows "\<exists>B' h'. bi_addForces (ob_getMinimumImageVectorBox b) (computeForceV fene_F) B h = Some (B', h')
    \<and> (\<forall>u. ((\<lambda>t. the (bi_localEnergy (ob_getMinimumImageVectorBox b) (computeEnergyV fene_E) (moved u t h) B)) has_real_derivative
          - (\<Sum>a\<in>A. real3d_dot (force_at h' a - force_at h a) (u a))) (at 0))
    \<and> (\<Sum>a\<in>A. force_at h' a) = (\<Sum>a\<in>A. force_at h a)
    \<and> longtimeMaxBondSqr (bi_list B) \<le> longtimeMaxBondSqr (bi_list B')
    \<and> (\<forall>(p1, p2)\<in>set ps. real3d_sqr (ob_getMinimumImageVectorBox b (p_pos (h p1)) (p_pos (h p2))) \<le> longtimeMaxBondSqr (bi_list B'))"
proof -
  have A: "fst ` set ps \<union> snd ` set ps \<subseteq> A" using assms(4) by force
  have s: "fene_ortho.bond_smooth TYPE('a) b q (h p1) (h p2)" if "(p1, p2) \<in> set ps" for p1 p2
    using assms(2) that by (fastforce simp: fene_ortho.bond_smooth_def Let_def off_cutoff_def)
  let ?mi = "ob_getMinimumImageVectorBox b"
  let ?m = "fold max (map (bond_sqr ?mi h) ps) (longtimeMaxBondSqr (bi_list B))"
  obtain B' h' where r: "bi_addForces ?mi (computeForceV fene_F) B h = Some (B', h')"
    and B': "bi_list B' = setLongtimeMaxBondSqr ?m (bi_list B)"
    using fene_ortho.bond_addForces_spec [OF assms(1), of b h] by force
  have "real3d_sqr (?mi (p_pos (h p1)) (p_pos (h p2))) \<le> ?m" if "(p1, p2) \<in> set ps" for p1 p2
  proof (rule fold_max_ge)
    show "real3d_sqr (?mi (p_pos (h p1)) (p_pos (h p2))) \<in> set (map (bond_sqr ?mi h) ps)"
      using image_eqI [OF _ that, of _ "bond_sqr ?mi h"] by (simp add: bond_sqr_def)
  qed
  then have "longtimeMaxBondSqr (bi_list B) \<le> longtimeMaxBondSqr (bi_list B')
      \<and> (\<forall>(p1, p2)\<in>set ps. real3d_sqr (?mi (p_pos (h p1)) (p_pos (h p2))) \<le> longtimeMaxBondSqr (bi_list B'))"
    unfolding B' using fold_max_start by (auto simp: setLongtimeMaxBondSqr_def)
  with r fene_ortho.bond_addForces_gradient [OF assms(1) r s assms(3) A] fene_ortho.bond_newton [OF assms(1) r assms(3) A]
  show ?thesis by blast
qed

theorem fene_bonds_witness:
  "let B = bi_new ((FixedPairList_new 0)\<lparr>pairList := [(Some (at_idx 0), Some (at_idx 1))]\<rparr>) (Some (FENE_new_shift 30 0 2 None 0 0))
   in \<exists>B' h'. bi_addForces (ob_getMinimumImageVectorBox cube) (computeForceV fene_F) B beads = Some (B', h')
     \<and> force_at h' (at_idx 0) + force_at h' (at_idx 1) = 0 \<and> 1 \<le> longtimeMaxBondSqr (bi_list B')"
proof -
  let ?q = "FENE_new_shift 30 0 2 None 0 0"
  let ?B = "bi_new ((FixedPairList_new 0)\<lparr>pairList := [(Some (at_idx 0), Some (at_idx 1))]\<rparr>) (Some ?q)"
  have b: "bi_bonds ?B ?q [(at_idx 0, at_idx 1)]" by (simp add: bi_bonds_def bi_new_def)
  have q: "fene_bound (pt_par ?q) 1" "pt_cutoffSqr ?q = None"
    by (simp_all add: FENE_new_shift_def fene_bound_def fene_preset_def fene_par_def) (simp_all add: pot_setters Let_def)
  show ?thesis unfolding Let_def
    using fene_bonds [OF b, of cube beads "{at_idx 0, at_idx 1}"] q
    by (auto simp: zigzag_images Let_def) (auto simp: force_at_def beads_def bead_def)
qed

text \<open>
  C15.  Harmonic angles in a periodic box: when no triple is straight or degenerate, its bonds are inside the cutoff of the
  potential and shorter than half of the box, \<^verbatim>\<open>addForces\<close> of \<^verbatim>\<open>FixedTripleListInteractionTemplate\<close> returns, the
  added forces are minus the gradient of the energy that \<^verbatim>\<open>computeEnergy\<close> sums on the process and cancel, and
  the virial that \<^verbatim>\<open>computeVirial\<close> sums is zero.
\<close>

theorem harmonic_angles:
  fixes b :: "'a orthobc_scheme"
  assumes "ai_triples T q ts"
    and "\<forall>(p1, p2, p3)\<in>set ts.
      let v = ob_getMinimumImageVectorBox b (p_pos (h p1)) (p_pos (h p2)); w = ob_getMinimumImageVectorBox b (p_pos (h p3)) (p_pos (h p2))
      in v \<noteq> 0 \<and> w \<noteq> 0 \<and> ah_smooth q (cos_of v w) \<and> (\<forall>r. an_cutoffSqr q = Some r \<longrightarrow> real3d_sqr v < r \<and> real3d_sqr w < r)
        \<and> ob_regular b (p_pos (h p1)) (p_pos (h p2)) \<and> ob_regular b (p_pos (h p3)) (p_pos (h p2))"
    and "finite A" "\<forall>(p1, p2, p3)\<in>set ts. {p1, p2, p3} \<subseteq> A"
  shows "\<exists>h'. ai_addForces (ob_getMinimumImageVectorBox b) ah_F T h = Some h'
    \<and> (\<forall>u. ((\<lambda>t. the (ai_localEnergy (ob_getMinimumImageVector b) (ang_energy ah_U) (moved u t h) T)) has_real_derivative
          - (\<Sum>a\<in>A. real3d_dot (force_at h' a - force_at h a) (u a))) (at 0))
    \<and> (\<Sum>a\<in>A. force_at h' a) = (\<Sum>a\<in>A. force_at h a)
    \<and> ai_localVirial (ob_getMinimumImageVectorBox b) ah_F h T = Some 0"
proof -
  have A: "members3 ts \<subseteq> A" using assms(4) by (fastforce simp: members3_def)
  have s: "angular_harmonic_ortho.triple_smooth TYPE('a) b q h t" if "t \<in> set ts" for t
    using assms(2) that
    by (cases t) (fastforce simp: angular_harmonic_ortho.triple_smooth_def angular_harmonic.ang_smooth_def angular_harmonic.ang_inside_def Let_def)
  obtain h' where r: "ai_addForces (ob_getMinimumImageVectorBox b) ah_F T h = Some h'"
    by (simp add: ai_addForces_def ai_loop_fold [OF assms(1)])
  show ?thesis
    using r angular_harmonic_ortho.angle_addForces_gradient [OF assms(1) r s assms(3) A] ai_newton [OF assms(1) r assms(3) A]
      angular_harmonic.angle_no_virial [OF assms(1)] by blast
qed

theorem harmonic_angles_witness:
  "let T = ai_new (FixedTripleList_new\<lparr>tripleList := [(Some (at_idx 0), Some (at_idx 1), Some (at_idx 2))]\<rparr>) (Some (AngularHarmonic_new 5 2))
   in \<exists>h'. ai_addForces (ob_getMinimumImageVectorBox cube) ah_F T beads = Some h'
     \<and> force_at h' (at_idx 0) + force_at h' (at_idx 1) + force_at h' (at_idx 2) = 0
     \<and> ai_localVirial (ob_getMinimumImageVectorBox cube) ah_F beads T = Some 0"
proof -
  let ?q = "AngularHarmonic_new 5 2"
  let ?T = "ai_new (FixedTripleList_new\<lparr>tripleList := [(Some (at_idx 0), Some (at_idx 1), Some (at_idx 2))]\<rparr>) (Some ?q)"
  have b: "ai_triples ?T ?q [(at_idx 0, at_idx 1, at_idx 2)]" by (simp add: ai_triples_def ai_new_def)
  have q: "an_cutoffSqr ?q = None" by (simp add: AngularHarmonic_new_def AngularPotentialTemplate_new_def)
  have c: "cos_of (V3 1 0 0) (V3 0 1 0) = 0" by (simp add: cos_of_def real3d_dot_def)
  show ?thesis unfolding Let_def
    using harmonic_angles [OF b, of cube beads "{at_idx 0, at_idx 1, at_idx 2}"] q
    by (auto simp: zigzag_images c ah_smooth_def SMALL_EPSILON_def) (auto simp: force_at_def beads_def bead_def add.assoc)
qed

text \<open>
  C16.  Ryckaert-Bellemans dihedrals in a periodic box: when no quadruple is flat and its bonds are not collinear and shorter
  than half of the box, \<^verbatim>\<open>addForces\<close> of \<^verbatim>\<open>FixedQuadrupleListInteractionTemplate\<close> returns, and the added forces
  are minus the gradient of the energy that \<^verbatim>\<open>computeEnergy\<close> sums on the process, and cancel.
\<close>

theorem rb_dihedrals:
  fixes b :: "'a orthobc_scheme"
  assumes "qi_quads D q ts"
    and "\<forall>(p1, p2, p3, p4)\<in>set ts. (case quad_dists (ob_getMinimumImageVectorBox b) h (p1, p2, p3, p4) of (r21, r32, r43) \<Rightarrow> rb_smooth q r21 r32 r43)
        \<and> ob_regular b (p_pos (h p2)) (p_pos (h p1)) \<and> ob_regular b (p_pos (h p3)) (p_pos (h p2)) \<and> ob_regular b (p_pos (h p4)) (p_pos (h p3))"
    and "finite A" "\<forall>(p1, p2, p3, p4)\<in>set ts. {p1, p2, p3, p4} \<subseteq> A"
  shows "\<exists>h'. qi_addForces (ob_getMinimumImageVectorBox b) rb_F D h = Some h'
    \<and> (\<forall>u. ((\<lambda>t. the (qi_localEnergy (ob_getMinimumImageVectorBox b) (dih_energy rb_U) (moved u t h) D)) has_real_derivative
          - (\<Sum>a\<in>A. real3d_dot (force_at h' a - force_at h a) (u a))) (at 0))
    \<and> (\<Sum>a\<in>A. force_at h' a) = (\<Sum>a\<in>A. force_at h a)"
proof -
  have A: "members4 ts \<subseteq> A" using assms(4) by (fastforce simp: members4_def)
  have s: "rb_ortho.quad_smooth TYPE('a) b q h t" if "t \<in> set ts" for t
    using assms(2) that by (cases t) (fastforce simp: rb_ortho.quad_smooth_def quad_dists_def)
  obtain h' where r: "qi_addForces (ob_getMinimumImageVectorBox b) rb_F D h = Some h'"
    by (rule rb_ortho.addForces_some [OF assms(1) s])
  show ?thesis
    using r rb_ortho.quad_addForces_gradient [OF assms(1) r s assms(3) A] rb_ortho.quad_newton [OF assms(1) r assms(3) A] by blast
qed

theorem rb_dihedrals_witness:
  "let D = qi_new (FixedQuadrupleList_new\<lparr>quadrupleList := [(Some (at_idx 0), Some (at_idx 1), Some (at_idx 2), Some (at_idx 3))]\<rparr>)
        (Some (DihedralRB_new 1 2 3 4 5 6))
   in \<exists>h'. qi_addForces (ob_getMinimumImageVectorBox cube) rb_F D beads = Some h'
     \<and> force_at h' (at_idx 0) + force_at h' (at_idx 1) + force_at h' (at_idx 2) + force_at h' (at_idx 3) = 0"
proof -
  let ?q = "DihedralRB_new 1 2 3 4 5 6"
  let ?D = "qi_new (FixedQuadrupleList_new\<lparr>quadrupleList := [(Some (at_idx 0), Some (at_idx 1), Some (at_idx 2), Some (at_idx 3))]\<rparr>) (Some ?q)"
  have b: "qi_quads ?D ?q [(at_idx 0, at_idx 1, at_idx 2, at_idx 3)]" by (simp add: qi_quads_def qi_new_def)
  have r: "rb_smooth ?q (V3 (- 1) 0 0) (V3 0 1 0) (V3 0 0 1)"
    by (simp add: rb_smooth_def real3d_cross_def dih_cos_def real3d_dot_def Let_def)
  show ?thesis unfolding Let_def
    using rb_dihedrals [OF b, of cube beads "{at_idx 0, at_idx 1, at_idx 2, at_idx 3}"] r
    by (auto simp: zigzag_images quad_dists_def) (auto simp: force_at_def beads_def bead_def add.assoc)
qed

text \<open>A sequence of calls of \<^verbatim>\<open>setPotential\<close>, and the potential that is in force for two types after it.\<close>

definition vi_setPotentials :: "(int \<times> int \<times> 'q) list \<Rightarrow> ('p, 'q) vl_interaction \<Rightarrow> ('p, 'q) vl_interaction option" where
  "vi_setPotentials = ofold (\<lambda>(i, j, q). vi_setPotential i j q)"

definition in_force :: "int \<Rightarrow> int \<Rightarrow> (int \<times> int \<times> 'q) list \<Rightarrow> 'q \<Rightarrow> 'q" where
  "in_force k l = fold (\<lambda>(i, j, q) r. if {i, j} = {k, l} then q else r)"

lemma setPotentials_pot:
  assumes "vi_setPotentials sets I = Some I'" "ar_ok (vi_array I)" "0 \<le> k" "0 \<le> l"
  shows "vi_pot I' k l = in_force k l sets (vi_pot I k l)" "vi_ntypes I \<le> vi_ntypes I'"
    "(i, j, q) \<in> set sets \<Longrightarrow> 0 \<le> i \<and> 0 \<le> j \<and> i < vi_ntypes I' \<and> j < vi_ntypes I'"
  using assms(1,2)
proof (induction sets arbitrary: I)
  case (Cons x sets)
  obtain a b r where x: "x = (a, b, r)" by (metis prod_cases3)
  have hd: "\<exists>J. vi_setPotential a b r I = Some J \<and> vi_setPotentials sets J = Some I'"
    if "vi_setPotentials (x # sets) I = Some I'" for I
    using that by (auto simp: vi_setPotentials_def x split: option.splits)
  {
    case 1
    from hd [OF 1(1)] obtain J where J: "vi_setPotential a b r I = Some J" "vi_setPotentials sets J = Some I'" by blast
    note p = vi_setPotential_pot [OF J(1) 1(2) assms(3,4)]
    show ?case using Cons(1) [OF J(2) p(2)] p(1)
      by (auto simp: in_force_def x doubleton_eq_iff)
  next
    case 2
    from hd [OF 2(1)] obtain J where J: "vi_setPotential a b r I = Some J" "vi_setPotentials sets J = Some I'" by blast
    note p = vi_setPotential_pot [OF J(1) 2(2) assms(3,4)]
    show ?case using Cons(2) [OF J(2) p(2)] p(3) by linarith
  next
    case 3
    from hd [OF 3(2)] obtain J where J: "vi_setPotential a b r I = Some J" "vi_setPotentials sets J = Some I'" by blast
    note p = vi_setPotential_pot [OF J(1) 3(3) assms(3,4)]
    have "a < vi_ntypes I'" "b < vi_ntypes I'" using Cons(2) [OF J(2) p(2)] p(3) by linarith+
    then show ?case using 3(1) Cons(3) [OF _ J(2) p(2)] p(5,6) by (auto simp: x)
  }
qed (simp_all add: vi_setPotentials_def in_force_def)

text \<open>
  C27.  The potentials of a Verlet list interaction: after any sequence of \<^verbatim>\<open>setPotential\<close> on a new interaction,
  \<^verbatim>\<open>getPotential\<close> of two types, in either order, returns the potential set last for them, or the default one, though the
  array of potentials has been moved and enlarged in between; and \<^verbatim>\<open>getMaxCutoff\<close> returns a cutoff no smaller than that
  of any potential still in force.
\<close>

theorem potentials_in_force:
  assumes "vi_setPotentials sets (vi_new q0 vl) = Some I" "0 \<le> k" "0 \<le> l"
  shows "(\<exists>I'. vi_getPotential k l I = Some (I', in_force k l sets q0))
    \<and> (\<exists>I' c. vi_getMaxCutoff getCutoff I = Some (I', c)
        \<and> (\<forall>(i, j, q)\<in>set sets. cut_le (getCutoff (in_force i j sets q0)) c \<and> cut_le (getCutoff (in_force j i sets q0)) c))"
proof -
  have n: "ar_ok (vi_array (vi_new q0 vl :: ('a, 'b) vl_interaction))" "vi_pot (vi_new q0 vl :: ('a, 'b) vl_interaction) = (\<lambda>_ _. q0)"
    by (simp_all add: vi_new_def gr_init_view vi_pot_def fun_eq_iff)
  have p: "vi_pot I i j = in_force i j sets q0" if "0 \<le> i" "0 \<le> j" for i j
    using setPotentials_pot(1) [OF assms(1) n(1) that] by (simp add: n(2))
  obtain I' where g: "vi_getPotential k l I = Some (I', in_force k l sets q0)"
    using vi_getPotential_Some [OF assms(2,3), of I] unfolding p [OF assms(2,3)] by blast
  obtain J c where c: "vi_getMaxCutoff getCutoff I = Some (J, c)"
      "\<And>i j. 0 \<le> i \<Longrightarrow> i < vi_ntypes I \<Longrightarrow> 0 \<le> j \<Longrightarrow> j < vi_ntypes I \<Longrightarrow> cut_le (getCutoff (vi_pot I i j)) c"
    by (rule getMaxCutoff_bound [of getCutoff I]) blast
  have "cut_le (getCutoff (in_force i j sets q0)) c \<and> cut_le (getCutoff (in_force j i sets q0)) c" if "(i, j, q) \<in> set sets" for i j q
    using setPotentials_pot(3) [OF assms(1) n(1) assms(2,3) that] c(2) [of i j] c(2) [of j i] p [of i j] p [of j i] by auto
  with g c(1) show ?thesis by blast
qed

theorem potentials_in_force_witness:
  "\<exists>I. vi_setPotentials [(0, 1, Some 2), (2, 0, Some 4), (1, 0, Some 3)] (vi_new None (pair_list (0::nat) 1)) = Some I
    \<and> (\<exists>I'. vi_getPotential 0 1 I = Some (I', Some 3)) \<and> (\<exists>I' c. vi_getMaxCutoff id I = Some (I', c) \<and> cut_le (Some 4) c)"
proof -
  let ?sets = "[(0, 1, Some 2), (2, 0, Some 4), (1, 0, Some (3::real))] :: (int \<times> int \<times> cutoff) list"
  obtain I where I: "vi_setPotentials ?sets (vi_new None (pair_list (0::nat) 1)) = Some I"
    by (simp add: vi_setPotentials_def vi_setPotential_def Let_def)
  have f: "in_force 0 1 ?sets None = Some 3" "in_force 2 0 ?sets None = Some 4" by (simp_all add: in_force_def doubleton_eq_iff)
  show ?thesis using potentials_in_force [OF I, of 0 1 id] I by (auto simp: f)
qed

end
