(* ===== verification/VerletForces.thy ===== *)
theory VerletForces
  imports InteractionProps IntegratorSafe
begin

text \<open>
  The Verlet list together with the interaction on it: an interaction over a list that is as old as the
  skin allows computes what a loop over all pairs would.
\<close>

section \<open>What the pairs beyond the cutoff contribute\<close>

definition pair_push :: "('q \<Rightarrow> particle \<Rightarrow> particle \<Rightarrow> real3d option) \<Rightarrow> ('p \<times> 'p \<Rightarrow> 'q) \<Rightarrow> 'p memory \<Rightarrow> 'p \<Rightarrow> 'p \<times> 'p \<Rightarrow> real3d" where
  "pair_push force pot h a t = (case t of (p, q) \<Rightarrow>
     let f = total (force (pot (p, q)) (h p) (h q)) in (if p = a then f else 0) - (if q = a then f else 0))"

lemma net_pair_force: "net (pair_forces force pot h [t]) a = pair_push force pot h a t"
  by (cases t) (auto simp: pair_forces_def pair_push_def total_def split: option.splits)

lemma net_pair_forces: "net (pair_forces force pot h ps) a = (\<Sum>t\<leftarrow>ps. pair_push force pot h a t)"
proof (induction ps)
  case Nil
  show ?case by (simp add: pair_forces_def)
next
  case (Cons t ps)
  show ?case unfolding pair_forces_Cons [of force pot h t ps] net_simps(3) Cons net_pair_force by simp
qed

lemma beyond_cutoff:
  assumes "beyond (real3d_sqr (p_pos x - p_pos y)) (pt_cutoffSqr p)"
  shows "computeEnergyPP E p x y = 0" "computeForcePP F p x y = None"
  using assms by (simp_all add: computeEnergyPP_def computeEnergyV_def computeEnergySqr_def computeForcePP_def computeForceV_def)

text \<open>The pairs of the all-pairs loop that are not excluded.\<close>

definition included :: "('p \<Rightarrow> particle) \<Rightarrow> (pid \<times> pid) set \<Rightarrow> ('p \<times> 'p) list \<Rightarrow> ('p \<times> 'p) list" where
  "included rd ex = filter (\<lambda>(p, q). (p_id (rd p), p_id (rd q)) \<notin> ex)"

text \<open>The potentials that may be looked up have a cutoff, and the test uses its square.\<close>

definition cutoffs_fit :: "('p, 'a pot) vl_interaction \<Rightarrow> bool" where
  "cutoffs_fit I \<longleftrightarrow> (\<forall>i\<in>{0..<vi_ntypes I}. \<forall>j\<in>{0..<vi_ntypes I}. let p = vi_pot I i j in
     pt_cutoffSqr p = cut_sqr (pt_cutoff p) \<and> (\<forall>c. pt_cutoff p = Some c \<longrightarrow> 0 \<le> c))"

lemma beyond_max_cutoff:
  assumes "vi_getMaxCutoff pt_cutoff I = Some (J, Some rc)" "cutoffs_fit I"
    and "i \<in> {0..<vi_ntypes I}" "j \<in> {0..<vi_ntypes I}" "rc < real3d_abs d"
  shows "beyond (real3d_sqr d) (pt_cutoffSqr (vi_pot I i j))"
proof -
  let ?p = "vi_pot I i j"
  obtain I' c where c: "vi_getMaxCutoff pt_cutoff I = Some (I', c)"
      "\<And>i j. 0 \<le> i \<Longrightarrow> i < vi_ntypes I \<Longrightarrow> 0 \<le> j \<Longrightarrow> j < vi_ntypes I \<Longrightarrow> cut_le (pt_cutoff (vi_pot I i j)) c"
    by (rule getMaxCutoff_bound [where getCutoff = pt_cutoff and I = I]) blast
  then have "cut_le (pt_cutoff ?p) (Some rc)" using assms(1,3,4) by force
  then obtain x where x: "pt_cutoff ?p = Some x" "x \<le> rc" by (auto simp: cut_le_def split: option.splits)
  have p: "pt_cutoffSqr ?p = Some (x * x)" "0 \<le> x"
    using assms(2-4) x(1) by (auto simp: cutoffs_fit_def Let_def cut_sqr_def)
  have "x * x < real3d_abs d * real3d_abs d" using p(2) x(2) assms(5) by (intro mult_strict_mono) auto
  then show ?thesis by (simp add: p(1) beyond_def real3d_abs_sq)
qed

text \<open>So the list and all pairs have the same sums.\<close>

lemma verlet_sums:
  fixes f :: "'p \<times> 'p \<Rightarrow> 'c::comm_monoid_add"
  assumes built: "vl_rebuild skin h0 cp nbrs cs ex vl = Some (vi_verletList I)"
    and moved: "\<forall>(p, q)\<in>set (all_pairs cp nbrs cs). real3d_abs (p_pos (h p) - p_pos (h0 p)) \<le> skin / 2
      \<and> real3d_abs (p_pos (h q) - p_pos (h0 q)) \<le> skin / 2"
    and far: "\<And>p q. (p, q) \<in> set (all_pairs cp nbrs cs) \<Longrightarrow> cut vl < real3d_abs (p_pos (h p) - p_pos (h q)) \<Longrightarrow> f (p, q) = 0"
  shows "(\<Sum>t\<leftarrow>vi_pairs I. f t) = (\<Sum>t\<leftarrow>included h0 ex (all_pairs cp nbrs cs). f t)"
proof -
  let ?K = "vl_keep h0 ex ((cut vl + skin) * (cut vl + skin))" and ?A = "all_pairs cp nbrs cs"
  have e: "vi_pairs I = filter ?K (included h0 ex ?A)"
    unfolding vi_pairs_def vl_rebuild_pairs [OF built] included_def filter_filter
    by (rule filter_cong) (auto simp: vl_keep_def)
  have "f (p, q) = 0" if "(p, q) \<in> set (included h0 ex ?A)" "\<not> ?K (p, q)" for p q
  proof (rule far)
    show m: "(p, q) \<in> set ?A" using that by (simp add: included_def)
    have "\<not> real3d_abs (p_pos (h p) - p_pos (h q)) \<le> cut vl"
      using vl_keep_moved [of h0 p q ex h skin "cut vl"] moved that m by (auto simp: included_def)
    then show "cut vl < real3d_abs (p_pos (h p) - p_pos (h q))" by simp
  qed
  then show ?thesis unfolding e by (intro sum_list_map_filter) auto
qed

section \<open>Property\<close>

text \<open>
  C9.  A Verlet list does not show.  Take a potential that is evaluated through the \<^verbatim>\<open>computeEnergy\<close> and
  \<^verbatim>\<open>computeForce\<close> of two particles of the template \<^verbatim>\<open>PotentialTemplate\<close>, with its test of the squared cutoff (not one like
  \<^verbatim>\<open>CoulombTruncated\<close>, which replaces them and does not test it), with squared cutoffs that belong to cutoffs that are
  not negative (\<open>cutoffs_fit\<close>).  Let all particles the loop visits have types below the number of types of the
  interaction, so that no potential is missing, let the largest cutoff that \<^verbatim>\<open>getMaxCutoff\<close> reports be finite, let the list
  be one that \<^verbatim>\<open>rebuild\<close> made with a cutoff of at least that, and let no particle have moved more than half the skin since.
  Then the energy that \<^verbatim>\<open>computeEnergy\<close> sums on the process, before the reduction, and the forces that \<^verbatim>\<open>addForces\<close> adds to
  each particle are those of all pairs that the all-pairs loop visits now and that are not excluded.
\<close>

theorem verlet_list_transparent:
  fixes I :: "('p, 'a pot) vl_interaction"
  assumes built: "vl_rebuild skin h0 cp nbrs cs ex vl = Some (vi_verletList I)"
    and moved: "\<forall>(p, q)\<in>set (all_pairs cp nbrs cs). real3d_abs (p_pos (h p) - p_pos (h0 p)) \<le> skin / 2
      \<and> real3d_abs (p_pos (h q) - p_pos (h0 q)) \<le> skin / 2"
    and types: "\<forall>(p, q)\<in>set (all_pairs cp nbrs cs). p_type (h p) \<in> {0..<vi_ntypes I} \<and> p_type (h q) \<in> {0..<vi_ntypes I}"
    and cutoffs: "cutoffs_fit I" "vi_getMaxCutoff pt_cutoff I = Some (J, Some rc)" "rc \<le> cut vl"
  shows "let ps = included h0 ex (all_pairs cp nbrs cs) in
    (\<exists>I'. vi_localEnergy (computeEnergyPP E) h I = Some (I', \<Sum>(p, q)\<leftarrow>ps. computeEnergyPP E (pot_at I h (p, q)) (h p) (h q)))
    \<and> (\<exists>I' h'. vi_addForces (computeForcePP F) I h = Some (I', h')
        \<and> (\<forall>a. force_at h' a = force_at h a + (\<Sum>t\<leftarrow>ps. pair_push (computeForcePP F) (pot_at I h) h a t)))"
proof -
  let ?A = "all_pairs cp nbrs cs"
  have zero: "beyond (real3d_sqr (p_pos (h p) - p_pos (h q))) (pt_cutoffSqr (pot_at I h (p, q)))"
    if "(p, q) \<in> set ?A" "cut vl < real3d_abs (p_pos (h p) - p_pos (h q))" for p q
  proof -
    have "p_type (h p) \<in> {0..<vi_ntypes I}" "p_type (h q) \<in> {0..<vi_ntypes I}" using types that(1) by blast+
    moreover have "rc < real3d_abs (p_pos (h p) - p_pos (h q))" using that(2) cutoffs(3) by simp
    ultimately show ?thesis using beyond_max_cutoff [OF cutoffs(2,1)] unfolding pot_at_def fst_conv snd_conv by blast
  qed
  have t: "types_ok h (vi_pairs I)"
    using types unfolding types_ok_def vi_pairs_def vl_rebuild_pairs [OF built] by auto
  note sums = verlet_sums [OF built moved]
  have "(\<Sum>(p, q)\<leftarrow>vi_pairs I. computeEnergyPP E (pot_at I h (p, q)) (h p) (h q))
      = (\<Sum>(p, q)\<leftarrow>included h0 ex ?A. computeEnergyPP E (pot_at I h (p, q)) (h p) (h q))"
    by (rule sums) (simp add: beyond_cutoff [OF zero])
  then have e: "\<exists>I'. vi_localEnergy (computeEnergyPP E) h I
      = Some (I', \<Sum>(p, q)\<leftarrow>included h0 ex ?A. computeEnergyPP E (pot_at I h (p, q)) (h p) (h q))"
    using vi_localEnergy_spec [OF t, of "computeEnergyPP E"] by metis
  have "(\<Sum>t\<leftarrow>vi_pairs I. pair_push (computeForcePP F) (pot_at I h) h a t)
      = (\<Sum>t\<leftarrow>included h0 ex ?A. pair_push (computeForcePP F) (pot_at I h) h a t)" for a
    by (rule sums) (simp add: beyond_cutoff [OF zero] pair_push_def total_def)
  moreover obtain I' where "vi_addForces (computeForcePP F) I h
      = Some (I', forced (pair_forces (computeForcePP F) (pot_at I h) h (vi_pairs I)) h)"
    using any_force.addForces_spec [OF t, of F] by metis
  ultimately show ?thesis using e unfolding Let_def by (simp add: force_at_forced net_pair_forces)
qed

text \<open>Two beads on a line, and an interaction with the potential \<open>q\<close> for their type.\<close>

definition on_line :: "real \<Rightarrow> nat \<Rightarrow> particle" where
  "on_line d i = bead (V3 (of_nat i * d) 0 0)"

lemma on_line_sel [simp]: "p_pos (on_line d i) = V3 (of_nat i * d) 0 0" "p_type (on_line d i) = 0"
  by (simp_all add: on_line_def)

lemma one_potential:
  assumes "vi_setPotential 0 0 q (vi_new q0 vl) = Some I"
  shows "vi_pot I 0 0 = q" "vi_ntypes I = 1" "vi_verletList I = vl"
    and "\<exists>J. vi_getMaxCutoff pt_cutoff I = Some (J, cut_max (Some 0) (pt_cutoff q))"
proof -
  have "ar_ok (vi_array (vi_new q0 vl))" by (simp add: vi_new_def gr_init_view)
  note p = vi_setPotential_pot [OF assms this, of 0 0]
  show v: "vi_pot I 0 0 = q" "vi_ntypes I = 1" "vi_verletList I = vl" using p by (simp_all add: vi_new_def)
  obtain J where "vi_getPotential 0 0 I = Some (J, q)"
    using vi_getPotential_Some [of 0 0 I] unfolding v(1) by auto
  then show "\<exists>J. vi_getMaxCutoff pt_cutoff I = Some (J, cut_max (Some 0) (pt_cutoff q))"
    by (simp add: vi_getMaxCutoff_def v(2))
qed

theorem verlet_list_transparent_witness:
  "let q = LennardJones_new_auto 1 1 (Some 2)
   in \<exists>vl' I. vl_rebuild 1 (on_line (5 / 2)) (\<lambda>_. [0, 1]) (\<lambda>_. []) [0] {} list2 = Some vl' \<and> vi_setPotential 0 0 q (vi_new q vl') = Some I
     \<and> (\<exists>I'. vi_localEnergy (computeEnergyPP lj_E) (on_line 2) I = Some (I', computeEnergyPP lj_E q (on_line 2 0) (on_line 2 1)))"
proof -
  let ?q = "LennardJones_new_auto 1 1 (Some 2)" and ?A = "all_pairs (\<lambda>_. [0, Suc 0]) (\<lambda>_. []) [0]"
  have A: "?A = [(0, Suc 0)]" by (simp add: all_pairs_def cell_pairs_def ap_cross_def)
  obtain vl' where b: "vl_rebuild 1 (on_line (5 / 2)) (\<lambda>_. [0, Suc 0]) (\<lambda>_. []) [0] {} list2 = Some vl'"
    by (simp add: vl_rebuild_def all_pairs_iterator_spec Let_def)
  obtain I where I: "vi_setPotential 0 0 ?q (vi_new ?q vl') = Some I"
    by (simp add: vi_setPotential_def Let_def)
  note one = one_potential [OF I]
  have q: "pt_cutoff ?q = Some 2" by (simp add: LennardJones_new_auto_def pot_setters Let_def)
  obtain J where J: "vi_getMaxCutoff pt_cutoff I = Some (J, Some 2)"
    using one(4) unfolding q by (auto simp: cut_max_def)
  have "i = 0" if "i \<in> {0..<1 :: int}" for i using that by auto
  then have c: "cutoffs_fit I" unfolding cutoffs_fit_def one(2) by (metis (mono_tags) one(1) q lj_new_sel(2) option.inject zero_le_numeral)
  have "vl_rebuild 1 (on_line (5 / 2)) (\<lambda>_. [0, Suc 0]) (\<lambda>_. []) [0] {} list2 = Some (vi_verletList I)"
    using b one(3) by simp
  then have "\<exists>I'. vi_localEnergy (computeEnergyPP lj_E) (on_line 2) I = Some (I', computeEnergyPP lj_E ?q (on_line 2 0) (on_line 2 1))"
    using verlet_list_transparent [OF _ _ _ c J, of 1 "on_line (5 / 2)" "\<lambda>_. [0, Suc 0]" "\<lambda>_. []" "[0]" "{}" list2 "on_line 2" lj_E lj_F]
    by (simp add: A included_def Let_def list2_def one pot_at_def abs_axis)
  with b I show ?thesis by (auto simp: Let_def)
qed

end
