(* ===== verification/GhostForces.thy ===== *)
theory GhostForces
  imports IntegratorSafe
begin

text \<open>
  What \<^verbatim>\<open>collectGhostForces\<close> (\<^verbatim>\<open>doGhostCommunication\<close> back from the ghosts, in
  \<^verbatim>\<open>src/src/storage/DomainDecomposition.cpp\<close>) adds up on a single process: the force of a real particle and those
  of all its periodic images; and what follows for the momentum over a step of the integrator.
\<close>

section \<open>One direction\<close>

definition with_force :: "particle \<Rightarrow> particle \<Rightarrow> particle" where
  "with_force x y = x\<lparr>part_f := pforce_add (part_f x) (part_f y)\<rparr>"

lemma with_force_sel [simp]: "pf_f (part_f (with_force x y)) = pf_f (part_f x) + pf_f (part_f y)"
  by (simp add: with_force_def pforce_add_def)

lemma addGhost_spec:
  assumes "length (particles_of st (CellV r)) = length (particles_of st (CellV g))"
  shows "\<exists>st'. addGhostForcesToReals st g r = Some st'
    \<and> (\<forall>v. particles_of st' v = (if v = CellV r then map2 with_force (particles_of st (CellV r)) (particles_of st (CellV g))
        else particles_of st v))"
  using assms by (auto simp: addGhostForcesToReals_def Let_def set_cell_def set_vec_def particles_of_def with_force_def [abs_def])

lemma add_cells_spec:
  assumes "distinct (map fst ps)" and "fst ` set ps \<inter> snd ` set ps = {}"
    and "\<forall>(r, g)\<in>set ps. length (particles_of st (CellV r)) = length (particles_of st (CellV g))"
  shows "\<exists>st'. add_cells ps st = Some st'
    \<and> (\<forall>(r, g)\<in>set ps. particles_of st' (CellV r)
        = map2 with_force (particles_of st (CellV r)) (particles_of st (CellV g)))
    \<and> (\<forall>v. v \<notin> CellV ` fst ` set ps \<longrightarrow> particles_of st' v = particles_of st v)"
  using assms
proof (induction ps arbitrary: st)
  case (Cons p ps)
  obtain r g where p: "p = (r, g)" by (cases p)
  obtain s where s: "addGhostForcesToReals st g r = Some s"
      "\<And>v. particles_of s v = (if v = CellV r then map2 with_force (particles_of st (CellV r)) (particles_of st (CellV g))
        else particles_of st v)"
    using addGhost_spec [of st r g] Cons.prems(3) by (auto simp: p)
  have d: "distinct (map fst ps)" "fst ` set ps \<inter> snd ` set ps = {}" "r \<notin> fst ` set ps" "r \<notin> snd ` set ps" "r \<noteq> g"
    using Cons.prems(1,2) by (auto simp: p)
  have o: "particles_of s (CellV a) = particles_of st (CellV a)" "particles_of s (CellV b) = particles_of st (CellV b)"
    if "(a, b) \<in> set ps" for a b
    using that d(3,4) by (auto simp: s(2) image_iff)
  have "\<forall>(r, g)\<in>set ps. length (particles_of s (CellV r)) = length (particles_of s (CellV g))"
    using Cons.prems(3) o by auto
  from Cons.IH [OF d(1,2) this] obtain t where t: "add_cells ps s = Some t"
      "\<forall>(r, g)\<in>set ps. particles_of t (CellV r) = map2 with_force (particles_of s (CellV r)) (particles_of s (CellV g))"
      "\<forall>v. v \<notin> CellV ` fst ` set ps \<longrightarrow> particles_of t v = particles_of s v"
    by blast
  have "CellV r \<notin> CellV ` fst ` set ps" using d(3) by blast
  then have "particles_of t (CellV r) = map2 with_force (particles_of st (CellV r)) (particles_of st (CellV g))"
    using t(3) s(2) by auto
  moreover have "particles_of t (CellV a) = map2 with_force (particles_of st (CellV a)) (particles_of st (CellV b))"
    if "(a, b) \<in> set ps" for a b
    using t(2) o [OF that] that by auto
  moreover have "particles_of t v = particles_of st v" if "v \<notin> CellV ` fst ` set (p # ps)" for v
    using that t(3) s(2) [of v] by (auto simp: p)
  moreover have "add_cells (p # ps) st = Some t" using s(1) t(1) by (simp add: p)
  ultimately show ?case unfolding p by (intro exI [of _ t]) auto
qed simp

text \<open>
  The forces, of the particles that \<open>sel\<close> picks by home cell and place in the cell, over the cells that are real or
  filled by a direction of \<open>D\<close>.
\<close>

definition active :: "cellgrid \<Rightarrow> nat set \<Rightarrow> int3d set" where
  "active cg D = {p. inner_at cg p \<or> (\<exists>d\<in>D. d < 6 \<and> ghost_at cg d p)}"

definition picked_force :: "(int3d \<Rightarrow> nat \<Rightarrow> bool) \<Rightarrow> cellgrid \<Rightarrow> domdec \<Rightarrow> int3d \<Rightarrow> real3d" where
  "picked_force sel cg dd p = (let xs = cell_at dd (cidx cg p) in
     \<Sum>i<length xs. if sel (home_cell cg p) i then pf_f (part_f (xs ! i)) else 0)"

lemma in_grid_finite: "finite {p. in_grid (cg :: cellgrid) p}"
proof -
  have "{p. in_grid cg p} \<subseteq> set (fill_loop (V3 0 0 0) (frame_hi cg))" by (auto simp: in_grid_frame)
  then show ?thesis by (rule finite_subset) simp
qed

lemma active_grid:
  assumes "dd_wf cg"
  shows "active cg D \<subseteq> {p. in_grid cg p}" "finite (active cg D)" "active cg {} = {p. inner_at cg p}"
    "active cg {..<6} = {p. in_grid cg p}"
proof -
  show a: "active cg D \<subseteq> {p. in_grid cg p}"
    using inner_in_grid [OF assms] ghost_at_iff [OF assms] unfolding active_def by blast
  show "finite (active cg D)" by (rule finite_subset [OF a in_grid_finite])
  show "active cg {} = {p. inner_at cg p}" by (simp add: active_def)
  show "active cg {..<6} = {p. in_grid cg p}"
    using inner_in_grid [OF assms] ghost_at_iff [OF assms] unfolding active_def by blast
qed

lemma active_split:
  assumes wf: "dd_wf cg" and n: "n < 6" "n \<in> D" "{..<2 * (n div 2)} \<subseteq> D"
  defines "R \<equiv> {p. in_box (fst (reals_box cg n)) (snd (reals_box cg n)) p}"
  shows "active cg D = active cg (D - {n}) \<union> (\<lambda>p. p + ghost_shift cg n) ` R"
    "active cg (D - {n}) \<inter> (\<lambda>p. p + ghost_shift cg n) ` R = {}" "R \<subseteq> active cg (D - {n})"
proof -
  have "p \<in> (\<lambda>p. p + ghost_shift cg n) ` R \<longleftrightarrow> ghost_at cg n p" for p
  proof -
    have "set (fill_loop (fst (ghosts_box cg n)) (snd (ghosts_box cg n)))
        = (\<lambda>p. p + ghost_shift cg n) ` set (fill_loop (fst (reals_box cg n)) (snd (reals_box cg n)))"
      unfolding ghosts_box_shift [OF n(1)] fill_loop_shift by simp
    then show ?thesis unfolding R_def by auto
  qed
  then have g: "(\<lambda>p. p + ghost_shift cg n) ` R = {p. ghost_at cg n p}" by blast
  show "active cg D = active cg (D - {n}) \<union> (\<lambda>p. p + ghost_shift cg n) ` R"
    using n(1,2) unfolding g active_def by auto
  show "active cg (D - {n}) \<inter> (\<lambda>p. p + ghost_shift cg n) ` R = {}"
    using ghost_at_disjoint [OF wf] ghost_at_iff [OF wf] n(1) unfolding g active_def by blast
  show "R \<subseteq> active cg (D - {n})"
  proof
    fix p assume "p \<in> R"
    then have "inner_at cg p \<or> (\<exists>d < 2 * (n div 2). ghost_at cg d p)" using reals_ready [OF wf n(1)] by (simp add: R_def)
    then show "p \<in> active cg (D - {n})" using n unfolding active_def by fastforce
  qed
qed

text \<open>Every ghost cell has as many particles as the real cell it is the image of.\<close>

definition same_sizes :: "domdec \<Rightarrow> bool" where
  "same_sizes dd \<longleftrightarrow> (\<forall>p. in_grid (dd_cell dd) p \<longrightarrow>
     length (cell_at dd (cidx (dd_cell dd) p)) = length (cell_at dd (cidx (dd_cell dd) (home_cell (dd_cell dd) p))))"

lemma same_sizes_force_only: "force_only dd dd' \<Longrightarrow> same_sizes dd \<Longrightarrow> same_sizes dd'"
proof -
  assume f: "force_only dd dd'"
  then have "length (cell_at dd' c) = length (cell_at dd c)" for c
    unfolding force_only_def using map_eq_imp_length_eq by blast
  moreover have "dd_cell dd' = dd_cell dd" using f static_eq_sel by (simp add: force_only_def)
  ultimately show "same_sizes dd \<Longrightarrow> same_sizes dd'" by (simp add: same_sizes_def)
qed

lemma picked_force_map2:
  assumes "length xs = length ys" "home_cell cg q = home_cell cg p"
    and "cell_at dd' (cidx cg p) = map2 with_force xs ys" "cell_at dd (cidx cg p) = xs" "cell_at dd (cidx cg q) = ys"
  shows "picked_force sel cg dd' p = picked_force sel cg dd p + picked_force sel cg dd q"
  using assms by (simp add: picked_force_def Let_def sum.distrib [symmetric] cong: if_cong)
    (rule sum.cong, simp_all)

lemma picked_step:
  assumes ok: "dd_ok dd" and sz: "same_sizes dd" and n: "n < 6" "n \<in> D" "{..<2 * (n div 2)} \<subseteq> D"
  defines "cg \<equiv> dd_cell dd"
  shows "\<exists>st'. add_cells (zip (commReals dd n) (commGhosts dd n)) (dd_st dd) = Some st'
    \<and> (\<Sum>p\<in>active cg (D - {n}). picked_force sel cg (dd\<lparr>dd_st := st'\<rparr>) p) = (\<Sum>p\<in>active cg D. picked_force sel cg dd p)"
proof -
  define R where "R = {p. in_box (fst (reals_box cg n)) (snd (reals_box cg n)) p}"
  define t where "t = ghost_shift cg n"
  note okD = dd_okD [OF ok]
  have wf: "dd_wf cg" using okD(1) by (simp add: cg_def)
  note sp = active_split [OF wf n, folded R_def t_def]
  define ps where "ps = fill_loop (fst (reals_box cg n)) (snd (reals_box cg n))"
  have ps: "set ps = R" by (auto simp: R_def ps_def)
  have z: "zip (commReals dd n) (commGhosts dd n) = map (\<lambda>p. (cidx cg p, cidx cg (p + t))) ps"
    using okD(7,8) [OF n(1)] ghosts_box_cells [OF n(1), of cg]
    by (simp add: box_cells_def ps_def t_def cg_def zip_map_map map_prod_def zip_same_conv_map)
  have grid: "in_grid cg p" if "p \<in> active cg (D - {n})" for p using that active_grid(1) [OF wf] by blast
  have gridt: "in_grid cg (p + t)" if "p \<in> R" for p using that sp(1) active_grid(1) [OF wf, of D] by blast
  have home: "home_cell cg (p + t) = home_cell cg p" if "p \<in> R" for p
    using home_step(1) [OF wf n(1)] that by (simp add: R_def t_def)
  have ne: "cidx cg p \<noteq> cidx cg (q + t)" if "p \<in> active cg (D - {n})" "q \<in> R" for p q
    using sp(2) that cidx_inj [OF grid [OF that(1)] gridt [OF that(2)]] by blast
  have "distinct (map (cidx cg) ps)"
    unfolding distinct_map ps using sp(3) grid by (intro conjI cidx_inj_on) (auto simp: ps_def)
  moreover have "cidx cg ` R \<inter> (\<lambda>p. cidx cg (p + t)) ` R = {}" using ne sp(3) by blast
  moreover have len: "length (cell_at dd (cidx cg p)) = length (cell_at dd (cidx cg (p + t)))" if "p \<in> R" for p
    using sz [unfolded same_sizes_def, folded cg_def] that grid gridt sp(3) home by (metis subsetD)
  ultimately obtain st' where st': "add_cells (zip (commReals dd n) (commGhosts dd n)) (dd_st dd) = Some st'"
      "\<And>p. p \<in> R \<Longrightarrow> particles_of st' (CellV (cidx cg p)) = map2 with_force (cell_at dd (cidx cg p)) (cell_at dd (cidx cg (p + t)))"
      "\<And>v. v \<notin> (\<lambda>p. CellV (cidx cg p)) ` R \<Longrightarrow> particles_of st' v = particles_of (dd_st dd) v"
    using add_cells_spec [of "map (\<lambda>p. (cidx cg p, cidx cg (p + t))) ps" "dd_st dd"]
    unfolding z by (auto simp: comp_def image_image ps)
  let ?h = "picked_force sel cg dd" and ?h' = "picked_force sel cg (dd\<lparr>dd_st := st'\<rparr>)"
  have "?h' p = ?h p + (if p \<in> R then ?h (p + t) else 0)" if p: "p \<in> active cg (D - {n})" for p
  proof (cases "p \<in> R")
    case True
    then show ?thesis
      using picked_force_map2 [OF len [OF True] home [OF True], of "dd\<lparr>dd_st := st'\<rparr>" dd] st'(2) by simp
  next
    case False
    have "cidx cg p \<noteq> cidx cg q" if "q \<in> R" for q
      using cidx_inj [OF grid [OF p] grid, of q] that sp(3) False by blast
    then have "particles_of st' (CellV (cidx cg p)) = cell_at dd (cidx cg p)" by (intro st'(3)) auto
    then show ?thesis using False by (simp add: picked_force_def)
  qed
  then have "(\<Sum>p\<in>active cg (D - {n}). ?h' p) = (\<Sum>p\<in>active cg (D - {n}). ?h p) + (\<Sum>p\<in>R. ?h (p + t))"
    using sp(3) active_grid(2) [OF wf]
    by (simp add: sum.distrib sum.inter_restrict [symmetric] Int_absorb1)
  also have "(\<Sum>p\<in>R. ?h (p + t)) = (\<Sum>p\<in>(\<lambda>p. p + t) ` R. ?h p)"
    by (subst sum.reindex) (auto intro!: inj_onI)
  also have "(\<Sum>p\<in>active cg (D - {n}). ?h p) + \<dots> = (\<Sum>p\<in>active cg D. ?h p)"
    using sp(1,2) active_grid(2) [OF wf, of D] by (subst sum.union_disjoint [symmetric]) auto
  finally show ?thesis using st'(1) by blast
qed

section \<open>The six directions back\<close>

definition one_process :: "real3d \<Rightarrow> domdec \<Rightarrow> bool" where
  "one_process L dd \<longleftrightarrow> dd_ok dd \<and> NodeGrid_new (V3 1 1 1) 0 L = Inr (dd_node dd)"

lemma one_process_static: "static_eq dd dd' \<Longrightarrow> one_process L dd \<Longrightarrow> one_process L dd'"
  unfolding one_process_def using dd_ok_static static_eq_sel(2) by metis

lemma picked_dir:
  assumes one: "one_process L dd" and sz: "same_sizes dd" and c: "c < 3" "lr < 2"
    and D: "2 * c + lr \<in> D" "{..<2 * c} \<subseteq> D"
  defines "cg \<equiv> dd_cell dd"
  shows "\<exists>dd'. ghost_dir dflt L False False ex c lr [dd] = Some (Inr [dd']) \<and> force_only dd dd'
    \<and> (\<Sum>p\<in>active cg (D - {2 * c + lr}). picked_force sel cg dd' p) = (\<Sum>p\<in>active cg D. picked_force sel cg dd p)"
proof -
  let ?n = "2 * c + lr"
  have n: "?n < 6" "?n div 2 = c" using c by auto
  have ok: "dd_ok dd" and nd: "NodeGrid_new (V3 1 1 1) 0 L = Inr (dd_node dd)" using one by (simp_all add: one_process_def)
  obtain st where st: "add_cells (zip (commReals dd ?n) (commGhosts dd ?n)) (dd_st dd) = Some st"
      "(\<Sum>p\<in>active cg (D - {?n}). picked_force sel cg (dd\<lparr>dd_st := st\<rparr>) p) = (\<Sum>p\<in>active cg D. picked_force sel cg dd p)"
    using picked_step [OF ok sz n(1) D(1), of sel] D(2) unfolding n(2) cg_def by blast
  have "\<not> multi c dd"
    using NodeGrid_new_sel(1) [OF nd] c(1) by (auto simp: multi_def getGridSize_def less_3_cases)
  moreover have "length (commGhosts dd ?n) = length (commReals dd ?n)"
    using dd_okD(7,8) [OF ok n(1)] ghosts_box_cells [OF n(1), of "dd_cell dd"] by (simp add: box_cells_def)
  ultimately have g: "ghost_dir dflt L False False ex c lr [dd] = Some (Inr [dd\<lparr>dd_st := st\<rparr>])"
    using st(1) by (simp add: ghost_dir_def par_def local_dir_def Let_def)
  have "list_all2 force_only [dd] [dd\<lparr>dd_st := st\<rparr>]"
    by (rule to_reals.ghost_dir_rel [OF g _ c]) (simp add: ok)
  then have "force_only dd (dd\<lparr>dd_st := st\<rparr>)" by simp
  with g st(2) show ?thesis by blast
qed

lemma picked_dirs:
  assumes one: "one_process L dd" and sz: "same_sizes dd" and c: "c < 3"
  defines "cg \<equiv> dd_cell dd"
  shows "\<exists>dd'. rfold (\<lambda>lr w. ghost_dir dflt L False False ex c lr w) [0, 1] [dd] = Some (Inr [dd']) \<and> force_only dd dd'
    \<and> (\<Sum>p\<in>active cg {..<2 * c}. picked_force sel cg dd' p) = (\<Sum>p\<in>active cg {..<2 * c + 2}. picked_force sel cg dd p)"
proof -
  obtain d1 where d1: "ghost_dir dflt L False False ex c 0 [dd] = Some (Inr [d1])" "force_only dd d1"
      "(\<Sum>p\<in>active cg ({..<2 * c + 2} - {2 * c}). picked_force sel cg d1 p) = (\<Sum>p\<in>active cg {..<2 * c + 2}. picked_force sel cg dd p)"
    using picked_dir [OF one sz c, of 0 "{..<2 * c + 2}" dflt ex sel] by (auto simp: cg_def)
  have s: "static_eq dd d1" using d1(2) by (simp add: force_only_def)
  have cg: "dd_cell d1 = cg" using static_eq_sel [OF s] by (simp add: cg_def)
  have "\<exists>d2. ghost_dir dflt L False False ex c 1 [d1] = Some (Inr [d2]) \<and> force_only d1 d2
    \<and> (\<Sum>p\<in>active cg (({..<2 * c + 2} - {2 * c}) - {2 * c + 1}). picked_force sel cg d2 p)
      = (\<Sum>p\<in>active cg ({..<2 * c + 2} - {2 * c}). picked_force sel cg d1 p)"
    by (rule picked_dir [OF one_process_static [OF s one] same_sizes_force_only [OF d1(2) sz] c, unfolded cg]) auto
  then obtain d2 where d2: "ghost_dir dflt L False False ex c 1 [d1] = Some (Inr [d2])" "force_only d1 d2"
      "(\<Sum>p\<in>active cg (({..<2 * c + 2} - {2 * c}) - {2 * c + 1}). picked_force sel cg d2 p)
      = (\<Sum>p\<in>active cg ({..<2 * c + 2} - {2 * c}). picked_force sel cg d1 p)" by blast
  have "({..<2 * c + 2} - {2 * c}) - {2 * c + 1} = {..<2 * c}" by auto
  then show ?thesis using d1 d2 to_reals.R_trans [OF d1(2) d2(2)] by simp
qed

lemma collect_picked:
  assumes one: "one_process L dd" and sz: "same_sizes dd"
  defines "cg \<equiv> dd_cell dd"
  shows "\<exists>dd'. collectGhostForces dflt L [dd] = Some (Inr [dd']) \<and> force_only dd dd'
    \<and> (\<Sum>p\<in>{p. inner_at cg p}. picked_force sel cg dd' p) = (\<Sum>p\<in>{p. in_grid cg p}. picked_force sel cg dd p)"
proof -
  have kept: "one_process L d'" "same_sizes d'" "dd_cell d' = dd_cell d" if "force_only d d'" "one_process L d" "same_sizes d" for d d'
    using that one_process_static [of d d'] same_sizes_force_only [of d d'] static_eq_sel [of d d'] by (simp_all add: force_only_def)
  obtain d1 where d1: "rfold (\<lambda>lr w. ghost_dir dflt L False False 0 2 lr w) [0, 1] [dd] = Some (Inr [d1])" "force_only dd d1"
      "(\<Sum>p\<in>active cg {..<4}. picked_force sel cg d1 p) = (\<Sum>p\<in>active cg {..<6}. picked_force sel cg dd p)"
    using picked_dirs [OF one sz, of 2 dflt 0 sel] by (auto simp: cg_def)
  note n1 = kept [OF d1(2) one sz]
  obtain d2 where d2: "rfold (\<lambda>lr w. ghost_dir dflt L False False 0 1 lr w) [0, 1] [d1] = Some (Inr [d2])" "force_only d1 d2"
      "(\<Sum>p\<in>active cg {..<2}. picked_force sel cg d2 p) = (\<Sum>p\<in>active cg {..<4}. picked_force sel cg d1 p)"
    using picked_dirs [OF n1(1,2), of 1 dflt 0 sel] by (auto simp: cg_def n1(3))
  note n2 = kept [OF d2(2) n1(1,2)]
  obtain d3 where d3: "rfold (\<lambda>lr w. ghost_dir dflt L False False 0 0 lr w) [0, 1] [d2] = Some (Inr [d3])" "force_only d2 d3"
      "(\<Sum>p\<in>active cg {}. picked_force sel cg d3 p) = (\<Sum>p\<in>active cg {..<2}. picked_force sel cg d2 p)"
    using picked_dirs [OF n2(1,2), of 0 dflt 0 sel] by (auto simp: cg_def n1(3) n2(3) numeral_2_eq_2 [symmetric])
  have "collectGhostForces dflt L [dd] = Some (Inr [d3])"
    using d1(1) d2(1) d3(1) by (simp add: collectGhostForces_def doGhostCommunication_def Let_def)
  moreover have "force_only dd d3" using to_reals.R_trans d1(2) d2(2) d3(2) by blast
  moreover have "dd_wf cg" using one dd_okD(1) by (auto simp: one_process_def cg_def)
  note g = active_grid(3,4) [OF this]
  ultimately show ?thesis using d1(3) d2(3) d3(3) unfolding g by auto
qed

lemma filled_same_sizes:
  assumes "dd_ok dd0" "filled ex L 6 dd0 dd"
  shows "same_sizes dd"
proof -
  let ?cg = "dd_cell dd0"
  note wf = dd_okD(1) [OF assms(1)]
  have f: "filled_at ex L dd0 dd p" if "in_grid ?cg p" for p
    using assms(2) ghost_at_iff [OF wf] that unfolding filled_def by blast
  have "length (cell_at dd (cidx ?cg p)) = length (cell_at dd (cidx ?cg (home_cell ?cg p)))" if p: "in_grid ?cg p" for p
  proof -
    note h = home_is_inner [OF wf p]
    have "length (cell_at dd (cidx ?cg p)) = length (cell_at dd0 (cidx ?cg (home_cell ?cg p)))"
      using f [OF p] map_eq_imp_length_eq unfolding filled_at_def Let_def by blast
    moreover have "cell_at dd (cidx ?cg (home_cell ?cg p)) = cell_at dd0 (cidx ?cg (home_cell ?cg p))"
      using f [OF inner_in_grid [OF wf h]] h by (simp add: filled_at_def Let_def)
    ultimately show ?thesis by simp
  qed
  moreover have "dd_cell dd = ?cg" using assms(2) static_eq_sel by (simp add: filled_def)
  ultimately show ?thesis by (simp add: same_sizes_def)
qed

lemma picked_one:
  assumes "i < length (cell_at dd (cidx cg q))"
  shows "picked_force (\<lambda>h j. h = p \<and> j = i) cg dd q = (if home_cell cg q = p then pf_f (part_f (cell_at dd (cidx cg q) ! i)) else 0)"
  using assms by (simp add: picked_force_def Let_def sum.delta cong: if_cong)

text \<open>A particle at a time, and all together.\<close>

lemma collect_images:
  assumes one: "one_process L dd" and sz: "same_sizes dd" and run: "collectGhostForces dflt L [dd] = Some (Inr [dd'])"
    and p: "inner_at (dd_cell dd) p" "i < length (cell_at dd (cidx (dd_cell dd) p))"
  defines "cg \<equiv> dd_cell dd"
  shows "pf_f (part_f (cell_at dd' (cidx cg p) ! i))
    = (\<Sum>q\<in>{q. in_grid cg q \<and> home_cell cg q = p}. pf_f (part_f (cell_at dd (cidx cg q) ! i)))"
proof -
  let ?sel = "\<lambda>h j. h = p \<and> j = i"
  have wf: "dd_wf cg" using one dd_okD(1) by (auto simp: one_process_def cg_def)
  have s: "force_only dd dd'"
      "(\<Sum>q\<in>{q. inner_at cg q}. picked_force ?sel cg dd' q) = (\<Sum>q\<in>{q. in_grid cg q}. picked_force ?sel cg dd q)"
    using collect_picked [OF one sz, of dflt ?sel] run by (auto simp: cg_def)
  have len: "length (cell_at dd' c) = length (cell_at dd c)" for c
    using s(1) unfolding force_only_def using map_eq_imp_length_eq by blast
  have fin: "finite {q. inner_at cg q}" using active_grid(2) [OF wf, of "{}"] active_grid(3) [OF wf] by simp
  have "picked_force ?sel cg dd' q = (if q = p then pf_f (part_f (cell_at dd' (cidx cg p) ! i)) else 0)" if "inner_at cg q" for q
  proof (cases "q = p")
    case True
    then show ?thesis using picked_one [of i dd' cg p p] p(2) home_inner(1) [OF wf that] len by (simp add: cg_def)
  next
    case False
    then show ?thesis using home_inner(1) [OF wf that] by (simp add: picked_force_def)
  qed
  then have "(\<Sum>q\<in>{q. inner_at cg q}. picked_force ?sel cg dd' q) = pf_f (part_f (cell_at dd' (cidx cg p) ! i))"
    using fin p(1) by (simp add: cg_def sum.delta)
  moreover have "picked_force ?sel cg dd q = (if home_cell cg q = p then pf_f (part_f (cell_at dd (cidx cg q) ! i)) else 0)"
    if "in_grid cg q" for q
  proof (cases "home_cell cg q = p")
    case True
    then have "i < length (cell_at dd (cidx cg q))" using sz p(2) that by (simp add: same_sizes_def cg_def)
    then show ?thesis by (rule picked_one)
  qed (simp add: picked_force_def)
  then have "(\<Sum>q\<in>{q. in_grid cg q}. picked_force ?sel cg dd q)
      = (\<Sum>q\<in>{q. in_grid cg q \<and> home_cell cg q = p}. pf_f (part_f (cell_at dd (cidx cg q) ! i)))"
    by (simp add: sum.inter_filter [OF in_grid_finite, symmetric] Collect_conj_eq)
  ultimately show ?thesis using s(2) by simp
qed

definition local_particles :: "domdec \<Rightarrow> particle list" where
  "local_particles dd = concat (map (cell_at dd) (localCells (dd_st dd)))"

lemma total_force_concat:
  "distinct cs \<Longrightarrow> total_force (concat (map f cs)) = (\<Sum>c\<in>set cs. total_force (f c))"
  by (induction cs) (simp_all add: total_force_def)

lemma picked_all: "picked_force (\<lambda>_ _. True) cg dd p = total_force (cell_at dd (cidx cg p))"
  by (simp add: picked_force_def Let_def total_force_def sum_list_sum_nth atLeast0LessThan)

lemma grid_total:
  assumes "dd_ok dd"
  shows "(\<Sum>p\<in>{p. inner_at (dd_cell dd) p}. picked_force (\<lambda>_ _. True) (dd_cell dd) dd p) = total_force (real_particles dd)"
    "(\<Sum>p\<in>{p. in_grid (dd_cell dd) p}. picked_force (\<lambda>_ _. True) (dd_cell dd) dd p) = total_force (local_particles dd)"
proof -
  let ?cg = "dd_cell dd"
  note okD = dd_okD [OF assms]
  have in_g: "inj_on (cidx ?cg) {p. in_grid ?cg p}" by (rule cidx_inj_on) simp
  have "inj_on (cidx ?cg) {p. inner_at ?cg p}" by (rule cidx_inj_on) (simp add: inner_in_grid [OF okD(1)])
  then show "(\<Sum>p\<in>{p. inner_at ?cg p}. picked_force (\<lambda>_ _. True) ?cg dd p) = total_force (real_particles dd)"
    unfolding real_particles_def total_force_concat [OF okD(4)] okD(3) picked_all by (simp add: sum.reindex)
  have d: "distinct (localCells (dd_st dd))" by (simp add: okD(2))
  have "set (localCells (dd_st dd)) = set (realCells (dd_st dd)) \<union> set (ghostCells (dd_st dd))"
    using okD(9) by (metis set_mset_mset set_mset_union)
  also have "set (ghostCells (dd_st dd)) = cidx ?cg ` {p. \<exists>d<6. ghost_at ?cg d p}"
  proof -
    have "mset (concat (map (\<lambda>d. box_cells ?cg (ghosts_box ?cg d)) [0..<6])) = mset (ghostCells (dd_st dd))"
      using mset_ghost_cells [OF okD(1)] assms unfolding dd_ok_def by metis
    from arg_cong [OF this, of set_mset]
    have "(\<Union>d\<in>{0..<6}. cidx ?cg ` {p. ghost_at ?cg d p}) = set (ghostCells (dd_st dd))" by (simp add: box_cells_def)
    moreover have "cidx ?cg ` {p. \<exists>d<6. ghost_at ?cg d p} = (\<Union>d\<in>{0..<6}. cidx ?cg ` {p. ghost_at ?cg d p})" by force
    ultimately show ?thesis by simp
  qed
  also have "set (realCells (dd_st dd)) \<union> \<dots> = cidx ?cg ` {p. in_grid ?cg p}"
    unfolding okD(3) ghost_at_iff [OF okD(1)] using inner_in_grid [OF okD(1)] by blast
  finally show "(\<Sum>p\<in>{p. in_grid ?cg p}. picked_force (\<lambda>_ _. True) ?cg dd p) = total_force (local_particles dd)"
    unfolding local_particles_def total_force_concat [OF d] picked_all using in_g by (simp add: sum.reindex)
qed

lemma collect_total:
  assumes one: "one_process L dd" and sz: "same_sizes dd"
  shows "\<exists>dd'. collectGhostForces dflt L [dd] = Some (Inr [dd']) \<and> force_only dd dd'
    \<and> total_force (real_particles dd') = total_force (local_particles dd)"
proof -
  obtain dd' where d: "collectGhostForces dflt L [dd] = Some (Inr [dd'])" "force_only dd dd'"
      "(\<Sum>p\<in>{p. inner_at (dd_cell dd) p}. picked_force (\<lambda>_ _. True) (dd_cell dd) dd' p)
        = (\<Sum>p\<in>{p. in_grid (dd_cell dd) p}. picked_force (\<lambda>_ _. True) (dd_cell dd) dd p)"
    using collect_picked [OF one sz] by blast
  have s: "static_eq dd dd'" using d(2) by (simp add: force_only_def)
  have ok: "dd_ok dd" "dd_ok dd'" using one dd_ok_static [OF s] by (simp_all add: one_process_def)
  show ?thesis
    using d grid_total(2) [OF ok(1)] grid_total(1) [OF ok(2)] static_eq_sel(1) [OF s] by (intro exI [of _ dd']) simp
qed

section \<open>Property\<close>

text \<open>
  C7.  On a single process \<^verbatim>\<open>collectGhostForces\<close> loses no force and counts none twice: it always returns, and
  afterwards the force of every real particle is the sum of its own and that of all its images in the ghost
  frame, at faces, edges and corners, although the images of an edge or corner reach it over two or three
  of the six directions.  So the real particles carry together what all the particles carried before.
\<close>

theorem ghost_forces_collected:
  assumes "dd_ok dd" and "NodeGrid_new (V3 1 1 1) 0 L = Inr (dd_node dd)" and "same_sizes dd"
  shows "\<exists>dd'. collectGhostForces dflt L [dd] = Some (Inr [dd'])
    \<and> (\<forall>p i. isInnerCell (dd_cell dd) (vx p) (vy p) (vz p) \<and> i < length (cell_at dd (cidx (dd_cell dd) p)) \<longrightarrow>
         pf_f (part_f (cell_at dd' (cidx (dd_cell dd) p) ! i))
           = (\<Sum>q\<in>{q. in_grid (dd_cell dd) q \<and> home_cell (dd_cell dd) q = p}. pf_f (part_f (cell_at dd (cidx (dd_cell dd) q) ! i))))
    \<and> total_force (real_particles dd') = total_force (local_particles dd)"
proof -
  have one: "one_process L dd" using assms(1,2) by (simp add: one_process_def)
  obtain dd' where d: "collectGhostForces dflt L [dd] = Some (Inr [dd'])"
      "total_force (real_particles dd') = total_force (local_particles dd)"
    using collect_total [OF one assms(3)] by blast
  show ?thesis using d collect_images [OF one assms(3) d(1)] by (intro exI [of _ dd']) (auto simp: inner_box)
qed

theorem ghost_forces_collected_witness:
  "\<exists>dd d1 d2. dd_example = Some (Inr dd) \<and> exchangeGhosts stray (V3 4 4 4) [loaded dd stray] = Some (Inr [d1])
    \<and> collectGhostForces stray (V3 4 4 4) [d1] = Some (Inr [d2])
    \<and> total_force (real_particles d2) = total_force (local_particles d1)"
proof -
  obtain dd where dd: "dd_example = Some (Inr dd)" using dd_example_ok by blast
  have "populated (V3 1 1 1) (V3 4 4 4) [loaded dd stray]" using loaded_example [OF dd, of stray] by blast
  then have ok: "dd_ok (loaded dd stray)" "NodeGrid_new (V3 1 1 1) 0 (V3 4 4 4) = Inr (dd_node (loaded dd stray))"
    by (simp_all add: populated_def grid_world_def)
  obtain d1 where d1: "exchangeGhosts stray (V3 4 4 4) [loaded dd stray] = Some (Inr [d1])"
      "filled dataOfExchangeGhosts (V3 4 4 4) 6 (loaded dd stray) d1"
    using single_communication [OF ok] unfolding exchangeGhosts_def by blast
  have s: "static_eq (loaded dd stray) d1" using d1(2) by (simp add: filled_def)
  have "dd_ok d1" "NodeGrid_new (V3 1 1 1) 0 (V3 4 4 4) = Inr (dd_node d1)"
    using dd_ok_static [OF s ok(1)] ok(2) static_eq_sel(2) [OF s] by simp_all
  from ghost_forces_collected [OF this filled_same_sizes [OF ok(1) d1(2)], of stray] d1(1) dd show ?thesis by blast
qed

end
