(* ===== verification/MomentumRun.thy ===== *)
theory MomentumRun
  imports VerletForces GhostForces
begin

text \<open>
  A whole run of the integrator on a single process, with the redistribution, the slots that rebuild the lists after it,
  the ghost communication and interactions that keep to Newton's third law: the momentum at the end is that of the start.
\<close>

section \<open>Operations that leave the real particles where they are\<close>

definition unmoved :: "domdec \<Rightarrow> domdec \<Rightarrow> bool" where
  "unmoved dd dd' \<longleftrightarrow> localParticles (dd_st dd') = localParticles (dd_st dd) \<and> outBuffer (dd_st dd') = outBuffer (dd_st dd)
     \<and> (\<forall>c\<in>set (realCells (dd_st dd)). pv_base (vecs (dd_st dd') (CellV c)) = pv_base (vecs (dd_st dd) (CellV c))
        \<and> map p_id (cell_at dd' c) = map p_id (cell_at dd c))"

lemma unmoved_refl [simp]: "unmoved dd dd"
  by (simp add: unmoved_def)

lemma unmoved_trans: "static_eq a b \<Longrightarrow> unmoved a b \<Longrightarrow> unmoved b c \<Longrightarrow> unmoved a c"
  using static_eq_sel(7) [of a b] by (simp add: unmoved_def)

lemma unmoved_ids: "static_eq dd dd' \<Longrightarrow> unmoved dd dd' \<Longrightarrow> map p_id (real_particles dd') = map p_id (real_particles dd)"
  using static_eq_sel(7) [of dd dd'] by (simp add: unmoved_def real_particles_def map_concat comp_def cong: map_cong)

lemma unmoved_populated:
  assumes s: "static_eq dd dd'" and u: "unmoved dd dd'" and p: "populated ngs L [dd]"
  shows "populated ngs L [dd']"
proof -
  have w: "dd_ok dd" "dd_indexed dd" "0 < b_capacity (outBuffer (dd_st dd))" "grid_world ngs L [dd]"
      "distinct (map p_id (real_particles dd))"
    using p by (simp_all add: populated_def world_particles_def)
  let ?V = "CellV ` set (realCells (dd_st dd))"
  have l: "length (cell_at dd' c) = length (cell_at dd c)" if "c \<in> set (realCells (dd_st dd))" for c
    using u that map_eq_imp_length_eq unfolding unmoved_def by blast
  have i: "p_id (cell_at dd' c ! i) = p_id (cell_at dd c ! i)" if "c \<in> set (realCells (dd_st dd))" "i < length (cell_at dd c)" for c i
  proof -
    have "map p_id (cell_at dd' c) = map p_id (cell_at dd c)" using u that(1) by (simp add: unmoved_def)
    from arg_cong [OF this, of "\<lambda>xs. xs ! i"] show ?thesis using l that by simp
  qed
  have "points_to ?V (dd_st dd') k q = points_to ?V (dd_st dd) k q" for k q
    unfolding points_to_def
  proof (rule bex_cong [OF refl])
    fix v assume "v \<in> ?V"
    then obtain c where c: "v = CellV c" "c \<in> set (realCells (dd_st dd))" by blast
    have "addr (dd_st dd') v j = addr (dd_st dd) v j" for j using u c by (simp add: unmoved_def addr_def)
    then show "(\<exists>j<length (particles_of (dd_st dd') v). q = addr (dd_st dd') v j \<and> idat (dd_st dd') v j = k)
        \<longleftrightarrow> (\<exists>j<length (particles_of (dd_st dd) v). q = addr (dd_st dd) v j \<and> idat (dd_st dd) v j = k)"
      using l [OF c(2)] i [OF c(2)] by (auto simp: idat_def c(1))
  qed
  then have "dd_indexed dd'"
    using w(2) u static_eq_sel(7) [OF s] by (simp add: dd_indexed_def index_ok_def unmoved_def)
  moreover have "grid_world ngs L [dd']" using w(4) static_eq_sel(2) [OF s] by (simp add: grid_world_def)
  moreover have "0 < b_capacity (outBuffer (dd_st dd'))" using w(3) u by (simp add: unmoved_def)
  ultimately show ?thesis
    using dd_ok_static [OF s w(1)] w(5) unmoved_ids [OF s u] by (simp add: populated_def world_particles_def)
qed

text \<open>The ghost communication of a single process is one.\<close>

lemma real_not_ghost:
  assumes ok: "dd_ok dd" and c: "c \<in> set (realCells (dd_st dd))"
  shows "c \<notin> set (ghostCells (dd_st dd))"
proof
  assume g: "c \<in> set (ghostCells (dd_st dd))"
  have "distinct (realCells (dd_st dd) @ ghostCells (dd_st dd))"
    using dd_okD(9) [OF ok] dd_okD(2) [OF ok] by (metis distinct_upt mset_append mset_eq_imp_distinct_iff)
  then show False using c g by auto
qed

lemma copy_cells_keeps:
  "v \<notin> CellV ` snd ` set ps \<Longrightarrow> vecs (copy_cells dflt ex sh ps st) v = vecs st v"
  "localParticles (copy_cells dflt ex sh ps st) = localParticles st" "outBuffer (copy_cells dflt ex sh ps st) = outBuffer st"
  by (induction dflt ex sh ps st rule: copy_cells.induct) (auto simp: copyRealsToGhosts_def Let_def set_vec_def)

lemma add_cells_keeps:
  "add_cells ps st = Some st' \<Longrightarrow> pv_base (vecs st' v) = pv_base (vecs st v) \<and> localParticles st' = localParticles st
    \<and> outBuffer st' = outBuffer st"
proof (induction ps arbitrary: st)
  case (Cons p ps)
  obtain r g where p: "p = (r, g)" by (cases p)
  obtain s where s: "addGhostForcesToReals st g r = Some s" "add_cells ps s = Some st'"
    using Cons.prems by (auto simp: p bind_Some_iff)
  have "pv_base (vecs s v) = pv_base (vecs st v)" "localParticles s = localParticles st" "outBuffer s = outBuffer st"
    using s(1) by (auto simp: addGhostForcesToReals_def Let_def set_cell_def set_vec_def split: if_splits)
  then show ?case using Cons.IH [OF s(2)] by simp
qed simp

lemma noforce_sel: "noforce x = noforce y \<Longrightarrow> part_p x = part_p y \<and> part_r x = part_r y \<and> part_m x = part_m y \<and> p_id x = p_id y"
  by (cases x; cases y) (simp add: noforce_def)

lemma noforce_maps:
  assumes "map noforce xs = map noforce ys"
  shows "length xs = length ys" "map p_id xs = map p_id ys"
    "map (\<lambda>x. (part_p x, part_m x)) xs = map (\<lambda>x. (part_p x, part_m x)) ys"
proof -
  show l: "length xs = length ys" using assms map_eq_imp_length_eq by blast
  have "noforce (xs ! i) = noforce (ys ! i)" if "i < length xs" for i
    using assms that l by (metis nth_map)
  note n = noforce_sel [OF this]
  show "map p_id xs = map p_id ys" "map (\<lambda>x. (part_p x, part_m x)) xs = map (\<lambda>x. (part_p x, part_m x)) ys"
    using n by (auto intro!: nth_equalityI simp: l)
qed

definition alone :: "domdec \<Rightarrow> domdec \<Rightarrow> bool" where
  "alone dd dd' \<longleftrightarrow> static_eq dd dd' \<and> ((\<forall>c<3. \<not> multi c dd) \<longrightarrow> unmoved dd dd')"

lemma alone_trans: "alone a b \<Longrightarrow> alone b c \<Longrightarrow> alone a c"
  unfolding alone_def using static_eq_trans static_eq_sel(11) unmoved_trans by metis

lemma alone_local_dir:
  assumes ok: "dd_ok dd" and c: "coord < 3" "lr < 2"
    and run: "local_dir dflt L realToGhosts ex coord lr dd = Some (Inr dd')"
  shows "alone dd dd'"
proof (cases realToGhosts)
  case True
  let ?ps = "zip (commReals dd (2 * coord + lr)) (commGhosts dd (2 * coord + lr))"
  have n: "2 * coord + lr < 6" using c by simp
  obtain sh where d: "dd' = dd\<lparr>dd_st := copy_cells dflt ex sh ?ps (dd_st dd)\<rparr>"
    using run True by (auto simp: local_dir_def Let_def split: if_splits)
  have "snd ` set ?ps \<subseteq> set (ghostCells (dd_st dd))"
    using ghosts_of_dir [OF ok n] by (auto dest: set_zip_rightD)
  then have "CellV r \<notin> CellV ` snd ` set ?ps" if "r \<in> set (realCells (dd_st dd))" for r
    using real_not_ghost [OF ok that] by blast
  then have v: "vecs (dd_st dd') (CellV r) = vecs (dd_st dd) (CellV r)" if "r \<in> set (realCells (dd_st dd))" for r
    using copy_cells_keeps(1) that by (simp add: d)
  have "static_eq dd dd'" using copy_data_only by (simp add: d static_eq_def)
  moreover have "unmoved dd dd'"
    using v copy_cells_keeps(2,3) [of dflt ex sh ?ps "dd_st dd"] by (simp add: unmoved_def particles_of_def d)
  ultimately show ?thesis by (simp add: alone_def)
next
  case False
  let ?ps = "zip (commReals dd (2 * coord + lr)) (commGhosts dd (2 * coord + lr))"
  obtain st where st: "add_cells ?ps (dd_st dd) = Some st" "dd' = dd\<lparr>dd_st := st\<rparr>"
    using run False by (auto simp: local_dir_def Let_def rlift_Inr bind_Some_iff split: if_splits)
  note f = add_cells_force_only [OF st(1)]
  have "map p_id (cell_at dd' c) = map p_id (cell_at dd c)" for c
    using f by (intro noforce_maps(2)) (simp add: st(2) st_force_only_def)
  moreover have "static_eq dd dd'" using f by (simp add: st(2) st_force_only_def static_eq_def)
  ultimately show ?thesis using add_cells_keeps [OF st(1)] by (simp add: alone_def unmoved_def st(2))
qed

interpretation alone: comm_frame alone sizesFirst realToGhosts for sizesFirst realToGhosts
proof
  fix dd dd' a b c :: domdec and dflt :: particle and coord lr r :: nat and L :: real3d and ex :: int
    and ns :: "longint list mails" and ms :: "message mails" and m
  show "alone dd dd" by (simp add: alone_def)
  show "alone a b \<Longrightarrow> alone b c \<Longrightarrow> alone a c" by (rule alone_trans)
  show "alone dd dd' \<Longrightarrow> static_eq dd dd'" by (simp add: alone_def)
  assume c: "coord < 3"
  show "alone dd dd'" if "multi coord dd" "send_data L realToGhosts ex coord lr dd = Some (dd', m)"
  proof -
    have "static_eq dd dd'"
      using that to_ghosts.R_send [OF c that(1)] to_reals.R_send [OF c that(1)]
      by (cases realToGhosts) (auto simp: off_ghosts_def force_only_def)
    then show ?thesis using that(1) c by (auto simp: alone_def)
  qed
  assume ok: "dd_ok dd" and lr: "lr < 2"
  show "alone dd dd'" if "recv_sizes dflt coord lr ns r dd = Some dd'"
    using to_ghosts.R_sizes [OF _ ok c lr that] that c by (auto simp: alone_def off_ghosts_def recv_sizes_def split: if_splits)
  show "alone dd dd'" if "multi coord dd" "recv_data realToGhosts ex coord lr ms r dd = Some dd'"
  proof -
    have "static_eq dd dd'"
      using that to_ghosts.R_recv [OF that(1) ok c lr] to_reals.R_recv [OF that(1) ok c lr]
      by (cases realToGhosts) (auto simp: off_ghosts_def force_only_def)
    then show ?thesis using that(1) c by (auto simp: alone_def)
  qed
  show "alone dd dd'" if "local_dir dflt L realToGhosts ex coord lr dd = Some (Inr dd')"
    by (rule alone_local_dir [OF ok c lr that])
qed

text \<open>So are the loops of the integrator over the cells.\<close>

lemma near_ids: "near_dd D dd dd' \<Longrightarrow> c \<in> set (realCells (dd_st dd)) \<Longrightarrow> map p_id (cell_at dd' c) = map p_id (cell_at dd c)"
  by (auto simp: near_dd_def near_particle_def list_all2_conv_all_nth intro!: nth_equalityI)

lemma set_cell_keeps [simp]: "pv_base (vecs (set_cell st c xs) v) = pv_base (vecs st v)"
    "localParticles (set_cell st c xs) = localParticles st" "outBuffer (set_cell st c xs) = outBuffer st"
  by (simp_all add: set_cell_def set_vec_def)

lemma map_cells_keeps: "pv_base (vecs (map_cells f cs st) v) = pv_base (vecs st v) \<and> localParticles (map_cells f cs st) = localParticles st
    \<and> outBuffer (map_cells f cs st) = outBuffer st"
  unfolding map_cells_def by (induction cs arbitrary: st) simp_all

lemma map_cells_unmoved:
  assumes "still f"
  shows "unmoved dd (dd\<lparr>dd_st := map_cells f cs (dd_st dd)\<rparr>)" "static_eq dd (dd\<lparr>dd_st := map_cells f cs (dd_st dd)\<rparr>)"
proof -
  note n = map_cells_near [OF assms, of dd cs]
  show "unmoved dd (dd\<lparr>dd_st := map_cells f cs (dd_st dd)\<rparr>)"
    using near_ids [OF n] map_cells_keeps [of f cs "dd_st dd"] by (simp add: unmoved_def)
  show "static_eq dd (dd\<lparr>dd_st := map_cells f cs (dd_st dd)\<rparr>)" using n by (simp add: near_dd_def)
qed

lemma integrate1_cells_keeps: "integrate1_cells dt cs st m = Some (st', m') \<Longrightarrow> pv_base (vecs st' v) = pv_base (vecs st v)
    \<and> localParticles st' = localParticles st \<and> outBuffer st' = outBuffer st"
  by (induction cs arbitrary: st m) (auto simp: bind_Some_iff)

lemma integrate1_unmoved:
  assumes "dd_ok dd" "integrate1_local dt dd = Some (dd', m)"
  shows "unmoved dd dd'" "static_eq dd dd'"
proof -
  note n = integrate1_local_near [OF assms]
  obtain st where st: "integrate1_cells dt (realCells (dd_st dd)) (dd_st dd) 0 = Some (st, m)" "dd' = dd\<lparr>dd_st := st\<rparr>"
    using assms(2) by (auto simp: integrate1_local_def bind_Some_iff)
  show "unmoved dd dd'" using near_ids [OF n] integrate1_cells_keeps [OF st(1)] by (simp add: unmoved_def st(2))
  show "static_eq dd dd'" using n by (simp add: near_dd_def)
qed

section \<open>Masses and velocities\<close>

definition motion :: "particle \<Rightarrow> real \<times> real3d" where
  "motion x = (pp_mass (part_p x), pm_v (part_m x))"

definition motions :: "domdec \<Rightarrow> (real \<times> real3d) multiset" where
  "motions dd = image_mset motion (mset (real_particles dd))"

definition solid :: "domdec \<Rightarrow> bool" where
  "solid dd \<longleftrightarrow> (\<forall>x\<in>set (real_particles dd). pp_mass (part_p x) \<noteq> 0)"

lemma momentum_motions: "momentum (real_particles dd) = (\<Sum>(m, v)\<in>#motions dd. real3d_scale v m)"
  by (simp add: momentum_def motions_def image_mset.compositionality comp_def motion_def sum_mset_sum_list [symmetric])

lemma solid_motions: "solid dd \<longleftrightarrow> (\<forall>(m, v)\<in>#motions dd. m \<noteq> 0)"
  by (auto simp: solid_def motions_def motion_def)

text \<open>What the run keeps: a populated process whose particles have masses and the momentum \<open>M\<close>.\<close>

definition carrying :: "real3d \<Rightarrow> real3d \<Rightarrow> domdec \<Rightarrow> bool" where
  "carrying L M dd \<longleftrightarrow> populated (V3 1 1 1) L [dd] \<and> solid dd \<and> momentum (real_particles dd) = M"

lemma carrying_step:
  assumes "carrying L M dd" "populated (V3 1 1 1) L [dd']" "motions dd' = motions dd"
  shows "carrying L M dd'"
  using assms by (simp add: carrying_def solid_motions momentum_motions)

lemma motions_eq: "map motion (real_particles dd') = map motion (real_particles dd) \<Longrightarrow> motions dd' = motions dd"
  unfolding motions_def by (metis mset_map)

lemma populated_one: "populated (V3 1 1 1) L [dd] \<Longrightarrow> one_process L dd"
  by (simp add: populated_def grid_world_def one_process_def)

lemma one_process_not_multi: "one_process L dd \<Longrightarrow> c < 3 \<Longrightarrow> \<not> multi c dd"
  using NodeGrid_new_sel(1) [of "V3 1 1 1" 0 L "dd_node dd"]
  by (auto simp: one_process_def multi_def getGridSize_def less_3_cases)

lemma alone_populated:
  assumes "alone dd dd'" "populated (V3 1 1 1) L [dd]"
  shows "populated (V3 1 1 1) L [dd']"
proof -
  have "static_eq dd dd'" "unmoved dd dd'"
    using assms(1) one_process_not_multi [OF populated_one [OF assms(2)]] by (auto simp: alone_def)
  then show ?thesis by (rule unmoved_populated) (rule assms(2))
qed

lemma off_ghosts_real:
  assumes "dd_ok dd" "off_ghosts dd dd'"
  shows "real_particles dd' = real_particles dd"
proof -
  have "cell_at dd' c = cell_at dd c" if "c \<in> set (realCells (dd_st dd))" for c
    using assms(2) real_not_ghost [OF assms(1) that] by (auto simp: off_ghosts_def)
  moreover have "realCells (dd_st dd') = realCells (dd_st dd)"
    using assms(2) static_eq_sel(7) by (simp add: off_ghosts_def)
  ultimately show ?thesis by (simp add: real_particles_def cong: map_cong)
qed

lemma force_only_motions:
  assumes "force_only dd dd'"
  shows "motions dd' = motions dd"
proof -
  have "map noforce (real_particles dd') = map noforce (real_particles dd)"
    using assms static_eq_sel(7) [of dd dd'] by (simp add: force_only_def real_particles_def map_concat comp_def cong: map_cong)
  note n = noforce_maps(3) [OF this]
  have e: "motion = (\<lambda>(p, m). (pp_mass p, pm_v m)) \<circ> (\<lambda>x. (part_p x, part_m x))"
    by (simp add: fun_eq_iff motion_def)
  have "map motion (real_particles dd') = map motion (real_particles dd)"
    unfolding e map_map [symmetric] n ..
  then show ?thesis by (rule motions_eq)
qed

section \<open>The redistribution\<close>

lemma invalidate_idle:
  assumes "populated (V3 1 1 1) L [dd]" "on_storage invalidateGhosts dd = Some dd'"
  shows "dd' = dd"
proof -
  have keep: "removePtrs ps True st = Some st' \<Longrightarrow> (\<And>p k. p \<in> set ps \<Longrightarrow> localParticles st k \<noteq> Some p) \<Longrightarrow> st' = st" for ps st st'
  proof (induction ps arbitrary: st)
    case (Cons p ps)
    obtain s where s: "removeFromLocalParticles st p True = Some s" "removePtrs ps True s = Some st'"
      using Cons.prems(1) by (auto simp: bind_Some_iff)
    have "s = st" using s(1) Cons.prems(2) [of p] by (auto simp: removeFromLocalParticles_def bind_Some_iff split: if_splits)
    then show ?case using Cons.IH [of st] s(2) Cons.prems(2) by simp
  qed simp
  have ok: "dd_ok dd" "dd_indexed dd" using assms(1) by (simp_all add: populated_def)
  have "localParticles (dd_st dd) k \<noteq> Some p" if ghost: "p \<in> set (cell_ptrs (dd_st dd) (ghostCells (dd_st dd)))" for p k
  proof
    assume "localParticles (dd_st dd) k = Some p"
    then obtain c i where "c \<in> set (realCells (dd_st dd))" "p = addr (dd_st dd) (CellV c) i"
      using ok(2) by (auto simp: dd_indexed_def index_ok_def points_to_def)
    moreover obtain g j where "g \<in> set (ghostCells (dd_st dd))" "p = addr (dd_st dd) (CellV g) j"
      using ghost by (auto simp: cell_ptrs_def)
    ultimately show False using real_not_ghost [OF ok(1)] by (auto simp: addr_def)
  qed
  then show ?thesis
    using assms(2) keep by (auto simp: on_storage_def invalidateGhosts_def bind_Some_iff)
qed

lemma motion_whole [simp]: "motion (whole b x) = motion x"
  by (simp add: motion_def whole_def setImage_def setPos_def)

lemma decompose_carrying:
  assumes S: "slots (sys_before S) (sys_after S) extra" "sys_fold S = foldCoordinate b" "bc_valid b"
    and dd: "carrying (sys_boxL S) M dd" and run: "sys_decompose S ([dd], y) = Some (Inr t)"
  shows "\<exists>dd'. fst t = [dd'] \<and> carrying (sys_boxL S) M dd' \<and> motions dd' = motions dd"
proof -
  have pop: "populated (V3 1 1 1) (sys_boxL S) [dd]" using dd by (simp add: carrying_def)
  obtain u d v where r: "par (\<lambda>_. on_storage invalidateGhosts) [dd] = Some u"
      "decomposeRealParticles (sys_before S) (sys_after S) (sys_fold S) (sys_dflt S) u = Some v"
      "exchangeGhosts (sys_dflt S) (sys_boxL S) v = Some (Inr d)"
      "fst t = map (\<lambda>dd. dd\<lparr>dd_st := onParticlesChanged (dd_st dd)\<rparr>) d"
    by (rule dd_decompose_stages [OF run [unfolded sys_decompose_def]])
  have "u = [dd]" using r(1) invalidate_idle [OF pop] by (auto simp: par_def split: option.splits)
  note f = decompose_fit [OF S(1,3) pop r(2) [unfolded this S(2)]]
  then obtain d1 where d1: "v = [d1]" by (cases v) auto
  have p1: "populated (V3 1 1 1) (sys_boxL S) [d1]" using f by (simp add: d1)
  have "image_mset (whole b) (mset (real_particles d1)) = image_mset (whole b) (mset (real_particles dd))"
    using f by (simp add: d1 world_particles_def)
  from arg_cong [OF this, of "image_mset motion"] have m1: "motions d1 = motions dd"
    by (simp add: motions_def image_mset.compositionality comp_def)
  have ok1: "dd_ok d1" "NodeGrid_new (V3 1 1 1) 0 (sys_boxL S) = Inr (dd_node d1)"
    using populated_one [OF p1] by (simp_all add: one_process_def)
  obtain d2 where d2: "d = [d2]"
    using single_communication [OF ok1, of "sys_dflt S" True dataOfExchangeGhosts] r(3) by (auto simp: d1 exchangeGhosts_def)
  have "alone d1 d2" "off_ghosts d1 d2"
    using alone.communication_rel [OF r(3) [unfolded d1 d2 exchangeGhosts_def]]
      to_ghosts.communication_rel [OF r(3) [unfolded d1 d2 exchangeGhosts_def]] ok1(1) by simp_all
  then have p2: "populated (V3 1 1 1) (sys_boxL S) [d2]" "motions d2 = motions d1"
    using alone_populated p1 off_ghosts_real [OF ok1(1)] by (auto simp: motions_def)
  let ?d3 = "d2\<lparr>dd_st := onParticlesChanged (dd_st d2)\<rparr>"
  have same: "cell_at ?d3 = cell_at d2" "real_particles ?d3 = real_particles d2"
    by (simp_all add: onParticlesChanged_def real_particles_def particles_of_def fun_eq_iff)
  have "points_to V (dd_st ?d3) k q = points_to V (dd_st d2) k q" for V k q
    by (simp add: points_to_def onParticlesChanged_def particles_of_def addr_def idat_def)
  then have "dd_indexed ?d3 = dd_indexed d2" by (simp add: dd_indexed_def index_ok_def onParticlesChanged_def)
  then have "populated (V3 1 1 1) (sys_boxL S) [?d3]"
    using p2(1) same by (simp add: populated_def world_particles_def grid_world_def) (simp add: onParticlesChanged_def)
  moreover have "motions ?d3 = motions dd" using same p2(2) m1 by (simp add: motions_def)
  ultimately show ?thesis using carrying_step [OF dd] by (simp add: r(4) d2)
qed

section \<open>The forces\<close>

text \<open>
  An interaction that writes nothing but forces and keeps to Newton's third law: over all the particles of the
  process, ghosts included, the sum of the forces stays what it was.
\<close>

definition only_forces :: "domdec \<Rightarrow> domdec \<Rightarrow> bool" where
  "only_forces dd dd' \<longleftrightarrow> force_only dd dd' \<and> outBuffer (dd_st dd') = outBuffer (dd_st dd)
     \<and> (\<forall>v. pv_base (vecs (dd_st dd') v) = pv_base (vecs (dd_st dd) v))"

definition balanced :: "('y mdworld \<Rightarrow> 'y mdworld res) \<Rightarrow> bool" where
  "balanced I \<longleftrightarrow> (\<forall>dd y t. dd_ok dd \<longrightarrow> I ([dd], y) = Some (Inr t) \<longrightarrow>
     (\<exists>dd'. fst t = [dd'] \<and> only_forces dd dd' \<and> total_force (local_particles dd') = total_force (local_particles dd)))"

text \<open>What is connected to the signals of the integrator leaves the particles as they are.\<close>

definition unextended :: "'y mdsystem \<Rightarrow> bool" where
  "unextended S \<longleftrightarrow> (\<forall>g s t. sys_signal S g s = Some (Inr t) \<longrightarrow> fst t = fst s)
     \<and> (\<forall>s ms t ms'. sys_inIntP S s ms = Some (Inr (t, ms')) \<longrightarrow> fst t = fst s)"

lemma unextendedD:
  assumes "unextended S"
  shows "sys_signal S g s = Some (Inr t) \<Longrightarrow> fst t = fst s" "sys_inIntP S s ms = Some (Inr (t, ms')) \<Longrightarrow> fst t = fst s"
  using assms unfolding unextended_def by blast+

lemma only_forces_trans: "only_forces a b \<Longrightarrow> only_forces b c \<Longrightarrow> only_forces a c"
  using to_reals.R_trans [of a b c] by (simp add: only_forces_def)

lemma only_forces_alone:
  assumes "only_forces dd dd'"
  shows "alone dd dd'"
proof -
  have f: "force_only dd dd'" using assms by (simp add: only_forces_def)
  have "map p_id (cell_at dd' c) = map p_id (cell_at dd c)" for c
    using f by (intro noforce_maps(2)) (simp add: force_only_def)
  then show ?thesis using assms f by (simp add: alone_def unmoved_def only_forces_def force_only_def)
qed

lemma interactions_balanced:
  assumes "rfold (\<lambda>addForces s. addForces s) Is s = Some (Inr t)" "fst s = [dd]" "dd_ok dd" "\<forall>I\<in>set Is. balanced I"
  shows "\<exists>dd'. fst t = [dd'] \<and> only_forces dd dd' \<and> total_force (local_particles dd') = total_force (local_particles dd)"
  using assms
proof (induction Is arbitrary: dd s)
  case Nil
  then show ?case by (intro exI [of _ dd]) (simp add: only_forces_def to_reals.R_refl)
next
  case (Cons I Is)
  obtain u where u: "I s = Some (Inr u)" "rfold (\<lambda>addForces s. addForces s) Is u = Some (Inr t)"
    using Cons.prems(1) by (auto simp: rbind_Inr)
  have I: "balanced I" and Is: "\<forall>I\<in>set Is. balanced I" using Cons.prems(4) by simp_all
  have "I ([dd], snd s) = Some (Inr u)" using u(1) Cons.prems(2) by (metis prod.collapse)
  then obtain d1 where d1: "fst u = [d1]" "only_forces dd d1" "total_force (local_particles d1) = total_force (local_particles dd)"
    using I Cons.prems(3) unfolding balanced_def by blast
  have "dd_ok d1" using d1(2) Cons.prems(3) dd_ok_static by (auto simp: only_forces_def force_only_def)
  from Cons.IH [OF u(2) d1(1) this Is] obtain d2 where
    "fst t = [d2]" "only_forces d1 d2" "total_force (local_particles d2) = total_force (local_particles d1)" by blast
  then show ?case using only_forces_trans [OF d1(2)] d1(3) by simp
qed

lemma init_forces:
  assumes ok: "dd_ok dd"
  defines "dd' \<equiv> initForces_local dd"
  shows "static_eq dd dd'" "unmoved dd dd'" "motions dd' = motions dd" "same_sizes dd \<Longrightarrow> same_sizes dd'"
    "total_force (local_particles dd') = 0"
proof -
  note m = map_cells_unmoved [of zero_force dd "localCells (dd_st dd)", folded initForces_local_def, folded dd'_def]
  show s: "static_eq dd dd'" and "unmoved dd dd'" using m by simp_all
  note sel = static_eq_sel [OF s] and okD = dd_okD [OF ok]
  have d: "distinct (localCells (dd_st dd))" by (simp add: okD(2))
  have c: "cell_at dd' c = (if c \<in> set (localCells (dd_st dd)) then map zero_force (cell_at dd c) else cell_at dd c)" for c
    using map_cells_parts [OF d, of zero_force "dd_st dd" c] by (simp add: dd'_def initForces_local_def)
  have "set (realCells (dd_st dd)) \<subseteq> set (localCells (dd_st dd))"
    using okD(9) by (metis Un_upper1 set_mset_mset set_mset_union)
  then have "map motion (cell_at dd' r) = map motion (cell_at dd r)" if "r \<in> set (realCells (dd_st dd))" for r
    using that by (auto simp: c motion_def zero_force_def)
  then have "map motion (real_particles dd') = map motion (real_particles dd)"
    by (simp add: real_particles_def sel(7) map_concat comp_def cong: map_cong)
  then show "motions dd' = motions dd" by (rule motions_eq)
  show "same_sizes dd \<Longrightarrow> same_sizes dd'" by (simp add: same_sizes_def sel(1) c)
  have "total_force (cell_at dd' r) = 0" if "r \<in> set (localCells (dd_st dd'))" for r
  proof -
    have "pf_f (part_f (zero_force x)) = 0" for x by (simp add: zero_force_def zero_vec3_def)
    then have "total_force (map zero_force xs) = 0" for xs by (induction xs) (simp_all add: total_force_def)
    then show ?thesis using that by (simp add: c sel(9))
  qed
  then show "total_force (local_particles dd') = 0"
    unfolding local_particles_def by (subst total_force_concat) (simp_all add: sel(9) d)
qed

text \<open>The ghosts filled and the forces cleared, \<dots>\<close>

lemma forces_prepared:
  assumes dd: "carrying L M dd"
  obtains d1 where "updateGhosts dflt L [dd] = Some (Inr [d1])"
    "carrying L M (initForces_local d1)" "same_sizes (initForces_local d1)" "motions (initForces_local d1) = motions dd"
    "total_force (local_particles (initForces_local d1)) = 0" "unmoved dd (initForces_local d1)"
proof -
  have pop: "populated (V3 1 1 1) L [dd]" using dd by (simp add: carrying_def)
  have ok: "dd_ok dd" "NodeGrid_new (V3 1 1 1) 0 L = Inr (dd_node dd)"
    using populated_one [OF pop] by (simp_all add: one_process_def)
  obtain d1 where d1: "updateGhosts dflt L [dd] = Some (Inr [d1])" "filled dataOfUpdateGhosts L 6 dd d1"
    using single_communication [OF ok] unfolding updateGhosts_def by blast
  have a: "alone dd d1" "off_ghosts dd d1"
    using alone.communication_rel [OF d1(1) [unfolded updateGhosts_def]] to_ghosts.communication_rel [OF d1(1) [unfolded updateGhosts_def]] ok(1)
    by simp_all
  then have p1: "populated (V3 1 1 1) L [d1]" "motions d1 = motions dd"
    using alone_populated pop off_ghosts_real [OF ok(1)] by (auto simp: motions_def)
  have ok1: "dd_ok d1" using p1(1) by (simp add: populated_def)
  note i = init_forces [OF ok1]
  have s: "static_eq dd d1" "unmoved dd d1"
    using a(1) one_process_not_multi [OF populated_one [OF pop]] by (auto simp: alone_def)
  have m: "motions (initForces_local d1) = motions dd" using i(3) p1(2) by simp
  have "carrying L M (initForces_local d1)" by (rule carrying_step [OF dd unmoved_populated [OF i(1,2) p1(1)] m])
  then show thesis
    using that d1(1) m i(4,5) filled_same_sizes [OF ok(1) d1(2)] unmoved_trans [OF s i(2)] by blast
qed

text \<open>\<dots> and the forces of the ghosts collected.\<close>

lemma forces_gathered:
  assumes d: "carrying L M d" "same_sizes d" "total_force (local_particles d) = 0"
    and d3: "only_forces d d3" "total_force (local_particles d3) = total_force (local_particles d)"
  obtains d4 where "collectGhostForces dflt L [d3] = Some (Inr [d4])" "carrying L M d4" "motions d4 = motions d"
    "total_force (real_particles d4) = 0" "unmoved d d4"
proof -
  have pop: "populated (V3 1 1 1) L [d]" using d(1) by (simp add: carrying_def)
  note p3 = alone_populated [OF only_forces_alone [OF d3(1)] pop]
  have f3: "force_only d d3" using d3(1) by (simp add: only_forces_def)
  obtain d4 where d4: "collectGhostForces dflt L [d3] = Some (Inr [d4])" "force_only d3 d4" "total_force (real_particles d4) = 0"
    using collect_total [OF populated_one [OF p3] same_sizes_force_only [OF f3 d(2)]] d3(2) d(3) by metis
  have a: "alone d d4"
    using alone_trans [OF only_forces_alone [OF d3(1)]] alone.communication_rel [OF d4(1) [unfolded collectGhostForces_def]] p3
    by (simp add: populated_def)
  have m: "motions d4 = motions d" using force_only_motions d4(2) f3 by simp
  have "unmoved d d4" using a one_process_not_multi [OF populated_one [OF pop]] by (auto simp: alone_def)
  then show thesis using that d4(1,3) m carrying_step [OF d(1) alone_populated [OF a pop] m] by blast
qed

lemma forces_carrying:
  assumes S: "unextended S" "\<forall>I\<in>set (sys_interactions S). balanced I" and dd: "carrying (sys_boxL S) M dd"
    and run: "updateForces S ([dd], y) = Some (Inr t)"
  shows "\<exists>dd'. fst t = [dd'] \<and> carrying (sys_boxL S) M dd' \<and> total_force (real_particles dd') = 0"
proof -
  let ?L = "sys_boxL S"
  obtain d1 where d1: "updateGhosts (sys_dflt S) ?L [dd] = Some (Inr [d1])"
      "carrying ?L M (initForces_local d1)" "same_sizes (initForces_local d1)" "total_force (local_particles (initForces_local d1)) = 0"
    by (rule forces_prepared [OF dd]) blast
  obtain a b c where r: "sys_signal S AftInitF ([initForces_local d1], y) = Some (Inr a)"
      "rfold (\<lambda>addForces s. addForces s) (sys_interactions S) a = Some (Inr b)"
      "collectGhostForces (sys_dflt S) ?L (fst b) = Some (Inr (fst c))" "sys_signal S AftCalcF c = Some (Inr t)"
    using run d1(1) unfolding updateForces_def calcForces_def rbind_Inr on_particles_Inr by force
  have a: "fst a = [initForces_local d1]" using unextendedD(1) [OF S(1) r(1)] by simp
  have "dd_ok (initForces_local d1)" using d1(2) by (simp add: carrying_def populated_def)
  from interactions_balanced [OF r(2) a this S(2)] obtain d3 where d3: "fst b = [d3]" "only_forces (initForces_local d1) d3"
      "total_force (local_particles d3) = total_force (local_particles (initForces_local d1))" by blast
  obtain d4 where "collectGhostForces (sys_dflt S) ?L [d3] = Some (Inr [d4])" "carrying ?L M d4" "total_force (real_particles d4) = 0"
    by (rule forces_gathered [OF d1(2-4) d3(2,3)]) blast
  then show ?thesis using r(3) unextendedD(1) [OF S(1) r(4)] d3(1) by (intro exI [of _ d4]) simp
qed

section \<open>The run\<close>

lemma integrate1_carrying:
  assumes dd: "carrying L M dd" and f: "total_force (real_particles dd) = 0" and run: "integrate1_local dt dd = Some (d1, m)"
  shows "carrying L M d1"
proof -
  have pop: "populated (V3 1 1 1) L [dd]" and ok: "dd_ok dd" using dd by (simp_all add: carrying_def populated_def)
  have "populated (V3 1 1 1) L [d1]" using integrate1_unmoved [OF ok run] unmoved_populated pop by blast
  moreover have "momentum (real_particles d1) = M"
    using momentum_balance [OF ok] run f dd by (auto simp: carrying_def vec_eq_iff)
  moreover have "solid d1" using dd integrate1_real_particles [OF ok run] by (auto simp: carrying_def solid_def)
  ultimately show ?thesis by (simp add: carrying_def)
qed

lemma integrate2_carrying:
  assumes dd: "carrying L M dd" and f: "total_force (real_particles dd) = 0" and run: "integrate2_local dt dd = Some d2"
  shows "carrying L M d2 \<and> total_force (real_particles d2) = 0"
proof -
  have pop: "populated (V3 1 1 1) L [dd]" and ok: "dd_ok dd" using dd by (simp_all add: carrying_def populated_def)
  note r = integrate2_real_particles [OF ok run]
  have "populated (V3 1 1 1) L [d2]"
    using map_cells_unmoved [of "kick dt" dd "realCells (dd_st dd)"] unmoved_populated pop run
    by (auto simp: integrate2_local_Some)
  moreover have "momentum (real_particles d2) = M"
    using momentum_balance [OF ok] run f dd by (auto simp: carrying_def vec_eq_iff)
  moreover have "solid d2" using dd r by (auto simp: carrying_def solid_def kick_def Let_def)
  moreover have "total_force (real_particles d2) = 0" using f r by (simp add: total_force_def kick_def Let_def comp_def)
  ultimately show ?thesis by (simp add: carrying_def)
qed

text \<open>A system that nothing acts on from outside.\<close>

definition isolated :: "'y mdsystem \<Rightarrow> (particle list \<Rightarrow> item list) \<Rightarrow> orthobc \<Rightarrow> bool" where
  "isolated S extra b \<longleftrightarrow> unextended S \<and> (\<forall>I\<in>set (sys_interactions S). balanced I)
     \<and> slots (sys_before S) (sys_after S) extra \<and> sys_fold S = foldCoordinate b \<and> bc_valid b"

definition carries :: "'y mdsystem \<Rightarrow> real3d \<Rightarrow> 'y md_state \<Rightarrow> bool" where
  "carries S M s \<longleftrightarrow> (\<exists>dd. fst (snd s) = [dd] \<and> carrying (sys_boxL S) M dd)"

definition at_rest :: "'y md_state \<Rightarrow> bool" where
  "at_rest s \<longleftrightarrow> (\<forall>dd\<in>set (fst (snd s)). total_force (real_particles dd) = 0)"

lemma carries_cong: "fst (snd t) = fst (snd s) \<Longrightarrow> carries S M t = carries S M s" "fst (snd t) = fst (snd s) \<Longrightarrow> at_rest t = at_rest s"
  by (simp_all add: carries_def at_rest_def)

lemma signal_idle: "isolated S extra b \<Longrightarrow> sys_signal S g s = Some (Inr t) \<Longrightarrow> fst t = fst s"
  unfolding isolated_def by (rule unextendedD(1)) simp_all

lemma resort_carries:
  assumes S: "isolated S extra b" and s: "carries S M s" and run: "vv_resort S s = Some (Inr t)"
  shows "carries S M t"
proof (cases "resortFlag (fst s)")
  case True
  obtain dd where dd: "fst (snd s) = [dd]" "carrying (sys_boxL S) M dd" using s by (auto simp: carries_def)
  obtain w where w: "sys_decompose S (snd s) = Some (Inr w)" "snd t = w"
    using run True by (auto simp: vv_resort_def rbind_Inr split: prod.splits)
  have "slots (sys_before S) (sys_after S) extra" "sys_fold S = foldCoordinate b" "bc_valid b"
    using S by (simp_all add: isolated_def)
  moreover have "sys_decompose S ([dd], snd (snd s)) = Some (Inr w)" using w(1) dd(1) by (metis prod.collapse)
  ultimately have "\<exists>dd'. fst w = [dd'] \<and> carrying (sys_boxL S) M dd' \<and> motions dd' = motions dd"
    by (intro decompose_carrying [OF _ _ _ dd(2)])
  then show ?thesis using w(2) unfolding carries_def by blast
next
  case False
  then have "t = s" using run by (auto simp: vv_resort_def split: prod.splits)
  then show ?thesis using s by simp
qed

lemma shift_carries:
  assumes S: "isolated S extra b" and s: "carries S M s" "at_rest s" and run: "vv_shift S s = Some (Inr t)"
  shows "carries S M t"
proof -
  obtain v dd y where vd: "s = (v, ([dd], y))" "carrying (sys_boxL S) M dd" using s(1) by (cases s) (auto simp: carries_def)
  have f: "total_force (real_particles dd) = 0" using s(2) by (simp add: at_rest_def vd(1))
  obtain a c d e where r: "sys_signal S BefIntP ([dd], y) = Some (Inr a)" "integrate1 S (md_dt v) a = Some (Inr (c, d))"
      "sys_signal S AftIntP c = Some (Inr e)" "snd t = e"
    using run by (auto simp: vv_shift_def vd(1) Let_def rbind_Inr)
  have a: "fst a = [dd]" using signal_idle [OF S r(1)] by simp
  obtain d1 m where d1: "integrate1_local (md_dt v) dd = Some (d1, m)" "fst c = [d1]"
    using r(2) a unextendedD(2) [of S] S
    by (fastforce simp: integrate1_def rbind_Inr rlift_Inr isolated_def split: option.splits)
  show ?thesis
    using integrate1_carrying [OF vd(2) f d1(1)] d1(2) signal_idle [OF S r(3)] by (simp add: carries_def r(4))
qed

lemma forces_carries:
  assumes S: "isolated S extra b" and s: "carries S M s" and run: "on_world (updateForces S) s = Some (Inr t)"
  shows "carries S M t \<and> at_rest t"
proof -
  obtain dd where dd: "fst (snd s) = [dd]" "carrying (sys_boxL S) M dd" using s by (auto simp: carries_def)
  have u: "unextended S" "\<forall>I\<in>set (sys_interactions S). balanced I" using S by (auto simp: isolated_def)
  have "updateForces S (snd s) = Some (Inr (snd t))" using run by (simp add: on_world_Inr)
  then have "updateForces S ([dd], snd (snd s)) = Some (Inr (snd t))" using dd(1) by (metis prod.collapse)
  from forces_carrying [OF u dd(2) this] show ?thesis by (auto simp: carries_def at_rest_def)
qed

lemma finish_carries:
  assumes S: "isolated S extra b" and s: "carries S M s" "at_rest s" and run: "vv_finish S s = Some (Inr t)"
  shows "carries S M t \<and> at_rest t"
proof -
  obtain v dd y where vd: "s = (v, ([dd], y))" "carrying (sys_boxL S) M dd" using s(1) by (cases s) (auto simp: carries_def)
  have f: "total_force (real_particles dd) = 0" using s(2) by (simp add: at_rest_def vd(1))
  obtain a c d e where r: "sys_signal S BefIntV ([dd], y) = Some (Inr a)" "integrate2 (md_dt v) a = Some (Inr c)"
      "sys_signal S AftIntV c = Some (Inr d)" "sys_signal S AftIntV2 d = Some (Inr e)" "snd t = e"
    using run by (auto simp: vv_finish_def vd(1) Let_def rbind_Inr)
  have "fst a = [dd]" using signal_idle [OF S r(1)] by simp
  then obtain d2 where d2: "integrate2_local (md_dt v) dd = Some d2" "fst c = [d2]"
    using r(2) by (auto simp: integrate2_def on_particles_Inr rlift_Inr split: option.splits)
  then have "fst (snd t) = [d2]" using signal_idle [OF S r(3)] signal_idle [OF S r(4)] by (simp add: r(5))
  then show ?thesis using integrate2_carrying [OF vd(2) f d2(1)] by (simp add: carries_def at_rest_def)
qed

lemma step_carries:
  assumes S: "isolated S extra b" and s: "carries S M s" "at_rest s" and run: "vv_step S s = Some (Inr t)"
  shows "carries S M t \<and> at_rest t"
proof -
  obtain a c d where r: "vv_shift S s = Some (Inr a)" "vv_resort S a = Some (Inr c)"
      "on_world (updateForces S) c = Some (Inr d)" "vv_finish S d = Some (Inr t)"
    using run unfolding vv_step_def rbind_Inr by blast
  have "carries S M c" using resort_carries [OF S shift_carries [OF S s r(1)] r(2)] .
  then have "carries S M d \<and> at_rest d" using forces_carries [OF S _ r(3)] by blast
  then show ?thesis using finish_carries [OF S _ _ r(4)] by blast
qed

lemma steps_carries:
  "vv_steps S n s = Some (Inr t) \<Longrightarrow> isolated S extra b \<Longrightarrow> carries S M s \<Longrightarrow> at_rest s \<Longrightarrow> carries S M t \<and> at_rest t"
proof (induction n arbitrary: s)
  case (Suc n)
  obtain d where r: "vv_step S s = Some (Inr d)" "vv_steps S n d = Some (Inr t)"
    using Suc.prems(1) by (auto simp: rbind_Inr)
  then show ?case using Suc.IH step_carries [OF Suc.prems(2)] Suc.prems(2-4) by blast
qed simp

lemma run_carries:
  assumes S: "isolated S extra b" and s: "carries S M s" and run: "vv_run S n s = Some (Inr t)"
  shows "carries S M t \<and> at_rest t"
proof -
  obtain p q a c d where r: "on_world (sys_signal S RunInit) s = Some (Inr p)" "vv_resort S p = Some (Inr q)"
      "on_world (sys_signal S Recalc1) q = Some (Inr a)" "on_world (updateForces S) a = Some (Inr c)"
      "on_world (sys_signal S Recalc2) c = Some (Inr d)" "vv_steps S (nat n) d = Some (Inr t)"
    using run unfolding vv_run_def vv_start_def rbind_Inr by blast
  have idle: "fst (snd x) = fst (snd y)" if "on_world (sys_signal S g) y = Some (Inr x)" for g x y
    using signal_idle [OF S, of g "snd y" "snd x"] that by (simp add: on_world_Inr)
  have "carries S M p" using s carries_cong(1) [OF idle [OF r(1)]] by simp
  then have "carries S M a" using resort_carries [OF S _ r(2)] carries_cong(1) [OF idle [OF r(3)]] by simp
  then have "carries S M c \<and> at_rest c" by (rule forces_carries [OF S _ r(4)])
  then have "carries S M d \<and> at_rest d" using carries_cong [OF idle [OF r(5)]] by simp
  then show ?thesis using steps_carries [OF r(6) S] by blast
qed

section \<open>Interactions over the storage\<close>

text \<open>
  The memory of an interaction is the storage: a pointer reads the particle at its address, and afterwards
  every particle has the force the interaction left at its address.  A list with a pointer that is no address of a
  particle of the process has no defined behavior.
\<close>

definition memory_of :: "domdec \<Rightarrow> ptr memory" where
  "memory_of dd p = (case deref (dd_st dd) p of Some x \<Rightarrow> x | None \<Rightarrow> undefined)"

definition put_forces :: "ptr memory \<Rightarrow> domdec \<Rightarrow> domdec" where
  "put_forces h dd = dd\<lparr>dd_st := (dd_st dd)\<lparr>vecs := (\<lambda>v. (vecs (dd_st dd) v)\<lparr>pv_elems :=
     map (\<lambda>i. (particles_of (dd_st dd) v ! i)\<lparr>part_f := part_f (h (addr (dd_st dd) v i))\<rparr>)
       [0..<length (particles_of (dd_st dd) v)]\<rparr>)\<rparr>\<rparr>"

definition local_ptrs :: "domdec \<Rightarrow> ptr list" where
  "local_ptrs dd = cell_ptrs (dd_st dd) (localCells (dd_st dd))"

text \<open>
  What an interaction works with, its list of pairs or bonds and its potentials, is a state \<open>z\<close> of the process: the
  slots of \<^verbatim>\<open>onParticlesChanged\<close> rebuild it, and \<^verbatim>\<open>addForces\<close> itself may change it (the table of potentials grows, the
  longest bond is noted).  \<open>ptrs\<close> are the pointers it uses.
\<close>

type_synonym 'z forcer = "('z \<Rightarrow> ptr set) \<times> ('z \<Rightarrow> ptr memory \<Rightarrow> ('z \<times> ptr memory) option)"

definition interaction_on :: "'z forcer \<Rightarrow> domdec \<Rightarrow> 'z \<Rightarrow> (domdec \<times> 'z) option" where
  "interaction_on I dd z = (case I of (ptrs, addForces) \<Rightarrow>
     if ptrs z \<subseteq> set (local_ptrs dd)
     then do { (z, h) \<leftarrow> addForces z (memory_of dd); Some (put_forces h dd, z) } else None)"

text \<open>Every process has objects of its own.\<close>

definition interactions_on :: "'z forcer \<Rightarrow> 'z list mdworld \<Rightarrow> 'z list mdworld res" where
  "interactions_on I s = (let (w, zs) = s in
     if length zs = length w
     then rbind (rlift (par (\<lambda>_ (dd, z). interaction_on I dd z) (zip w zs))) (\<lambda>r. Some (Inr (map fst r, map snd r)))
     else None)"

text \<open>The contract: whatever the lists hold now, the forces added are to those particles and cancel.\<close>

locale third_law =
  fixes ptrs :: "'z \<Rightarrow> ptr set" and addForces :: "'z \<Rightarrow> ptr memory \<Rightarrow> ('z \<times> ptr memory) option"
  assumes adds: "addForces z h = Some (z', h') \<Longrightarrow> \<exists>cs. h' = forced cs h \<and> fst ` set cs \<subseteq> ptrs z \<and> (\<Sum>(p, f)\<leftarrow>cs. f) = 0"
begin

lemma sum_kept:
  assumes "addForces z h = Some (z', h')" "finite A" "ptrs z \<subseteq> A"
  shows "(\<Sum>a\<in>A. force_at h' a) = (\<Sum>a\<in>A. force_at h a)"
proof -
  obtain cs where c: "h' = forced cs h" "fst ` set cs \<subseteq> ptrs z" "(\<Sum>(p, f)\<leftarrow>cs. f) = 0" using adds [OF assms(1)] by blast
  have "fst ` set cs \<subseteq> A" using c(2) assms(3) by (rule order_trans)
  from net_sum [OF assms(2) this] show ?thesis by (simp add: c(1,3) force_at_forced sum.distrib)
qed

text \<open>An interaction that is one of several objects of the process.\<close>

lemma component: "third_law (\<lambda>x. ptrs (get x)) (\<lambda>x h. map_option (\<lambda>(z, h). (put z x, h)) (addForces (get x) h))"
  by (rule third_law.intro) (auto dest: adds)

end

lemma distinct_cell_ptrs: "distinct cs \<Longrightarrow> distinct (cell_ptrs st cs)"
  by (induction cs) (auto simp: cell_ptrs_def distinct_map inj_on_def addr_def)

lemma put_forces_parts:
  "particles_of (dd_st (put_forces h dd)) v = map (\<lambda>i. (particles_of (dd_st dd) v ! i)\<lparr>part_f := part_f (h (addr (dd_st dd) v i))\<rparr>)
     [0..<length (particles_of (dd_st dd) v)]"
  by (simp add: put_forces_def particles_of_def)

lemma put_forces_only: "only_forces dd (put_forces h dd)"
proof -
  have "static_eq dd (put_forces h dd)" by (simp add: put_forces_def static_eq_def data_only_def)
  moreover have "map noforce (particles_of (dd_st (put_forces h dd)) v) = map noforce (particles_of (dd_st dd) v)" for v
    by (auto simp: put_forces_parts intro!: nth_equalityI)
  ultimately show ?thesis by (simp add: only_forces_def force_only_def) (simp add: put_forces_def)
qed

lemma local_forces:
  "map (force_at (memory_of dd)) (local_ptrs dd) = map (\<lambda>x. pf_f (part_f x)) (local_particles dd)"
  "map (force_at h) (local_ptrs dd) = map (\<lambda>x. pf_f (part_f x)) (local_particles (put_forces h dd))"
proof -
  have "force_at (memory_of dd) (addr (dd_st dd) (CellV c) i) = pf_f (part_f (cell_at dd c ! i))" if "i < length (cell_at dd c)" for c i
    using that by (simp add: force_at_def memory_of_def addr_def)
  then have "map (force_at (memory_of dd)) (map (addr (dd_st dd) (CellV c)) [0..<length (cell_at dd c)])
      = map (\<lambda>x. pf_f (part_f x)) (cell_at dd c)" for c
    by (auto intro!: nth_equalityI)
  then show "map (force_at (memory_of dd)) (local_ptrs dd) = map (\<lambda>x. pf_f (part_f x)) (local_particles dd)"
    by (simp add: local_ptrs_def cell_ptrs_def local_particles_def map_concat comp_def)
  have "localCells (dd_st (put_forces h dd)) = localCells (dd_st dd)" by (simp add: put_forces_def)
  then show "map (force_at h) (local_ptrs dd) = map (\<lambda>x. pf_f (part_f x)) (local_particles (put_forces h dd))"
    by (simp add: local_ptrs_def cell_ptrs_def local_particles_def map_concat comp_def put_forces_parts force_at_def)
qed

lemma third_law_balanced:
  assumes "third_law (fst I) (snd I)"
  shows "balanced (interactions_on I)"
  unfolding balanced_def
proof (intro allI impI)
  fix dd y t assume ok: "dd_ok dd" and run: "interactions_on I ([dd], y) = Some (Inr t)"
  obtain z where z: "y = [z]" using run by (auto simp: interactions_on_def length_Suc_conv split: if_splits)
  obtain z' h where h: "snd I z (memory_of dd) = Some (z', h)" "fst t = [put_forces h dd]" and A: "fst I z \<subseteq> set (local_ptrs dd)"
    using run by (auto simp: interactions_on_def z rbind_Inr rlift_Inr interaction_on_def bind_Some_iff split: prod.splits option.splits if_splits)
  have "distinct (local_ptrs dd)" using dd_okD(2) [OF ok] by (simp add: local_ptrs_def distinct_cell_ptrs)
  then have f: "(\<Sum>a\<in>set (local_ptrs dd). g a) = sum_list (map g (local_ptrs dd))" for g :: "ptr \<Rightarrow> real3d"
    by (simp add: sum_list_distinct_conv_sum_set)
  have "total_force (local_particles (put_forces h dd)) = total_force (local_particles dd)"
    using third_law.sum_kept [OF assms h(1) _ A] unfolding f local_forces(1) local_forces(2) [of h]
    by (simp add: total_force_def)
  then show "\<exists>dd'. fst t = [dd'] \<and> only_forces dd dd' \<and> total_force (local_particles dd') = total_force (local_particles dd)"
    using h(2) put_forces_only by blast
qed

text \<open>The four interactions keep the law, over whatever their lists hold.\<close>

definition list_ptrs :: "(ptr, 'q) vl_interaction \<Rightarrow> ptr set" where
  "list_ptrs I = fst ` set (vi_pairs I) \<union> snd ` set (vi_pairs I)"

interpretation pairs_law: third_law list_ptrs "vi_addForces (computeForcePP F)" for F :: "'a raw_force"
proof
  fix I I' :: "(ptr, 'a pot) vl_interaction" and h h' assume r: "vi_addForces (computeForcePP F) I h = Some (I', h')"
  let ?cs = "pair_forces (computeForcePP F) (pot_at I h) h (vi_pairs I)"
  have h': "h' = forced ?cs h"
    using any_force.addForces_spec [OF addForces_types [OF r], of F] r by (metis Pair_inject option.inject)
  then show "\<exists>cs. h' = forced cs h \<and> fst ` set cs \<subseteq> list_ptrs I \<and> (\<Sum>(p, f)\<leftarrow>cs. f) = 0"
    unfolding list_ptrs_def by (intro exI [of _ ?cs] conjI h' pair_forces_in pair_forces_sum)
qed

lemma ofold_each: "ofold f xs s = Some s' \<Longrightarrow> x \<in> set xs \<Longrightarrow> \<exists>s s'. f x s = Some s'"
  by (induction xs arbitrary: s) (auto split: option.splits)

definition bond_ptrs :: "'q bond_interaction \<Rightarrow> ptr set" where
  "bond_ptrs B = {p. \<exists>(a, b)\<in>set (pairList (bi_list B)). Some p \<in> {a, b}}"

lemma bi_loop_bonds:
  assumes "bi_loop B step s = Some s'"
  shows "pairList (bi_list B) = [] \<or> (\<exists>q ps. bi_bonds B q ps \<and> fst ` set ps \<union> snd ` set ps \<subseteq> bond_ptrs B)"
proof (cases "pairList (bi_list B) = []")
  case False
  have each: "\<exists>p1 p2. e = (Some p1, Some p2) \<and> bi_potential B \<noteq> None" if "e \<in> set (pairList (bi_list B))" for e
    using ofold_each [OF assms [unfolded bi_loop_def] that] by (cases e) (auto simp: bi_each_def split: option.splits)
  then obtain q where q: "bi_potential B = Some q" using False by (metis list.set_sel(1) not_None_eq)
  let ?ps = "map (\<lambda>(a, b). (the a, the b)) (pairList (bi_list B))"
  have "map (\<lambda>(p1, p2). (Some p1, Some p2)) ?ps = pairList (bi_list B)"
    using each by (force intro!: map_idI simp: comp_def)
  then have "bi_bonds B q ?ps" using q by (simp add: bi_bonds_def)
  moreover have "fst ` set ?ps \<union> snd ` set ?ps \<subseteq> bond_ptrs B" using each by (force simp: bond_ptrs_def)
  ultimately show ?thesis by blast
qed simp

context bond_field
begin

lemma bonds_law: "third_law bond_ptrs (bi_addForces mi (computeForceV F))"
proof
  fix B h B' h' assume r: "bi_addForces mi (computeForceV F) B h = Some (B', h')"
  consider "pairList (bi_list B) = []" | q ps where "bi_bonds B q ps" "fst ` set ps \<union> snd ` set ps \<subseteq> bond_ptrs B"
  proof -
    obtain t where "bi_loop B (bond_step mi (computeForceV F)) (bi_list B, getLongtimeMaxBondSqr (bi_list B), h) = Some t"
      using r by (auto simp: bi_addForces_def)
    from bi_loop_bonds [OF this] show ?thesis using that by blast
  qed
  then show "\<exists>cs. h' = forced cs h \<and> fst ` set cs \<subseteq> bond_ptrs B \<and> (\<Sum>(p, f)\<leftarrow>cs. f) = 0"
  proof cases
    case 1
    then have "h' = forced [] h" using r by (auto simp: bi_addForces_def bi_loop_def forced_simps(1))
    then show ?thesis by (intro exI [of _ "[]"]) simp
  next
    case 2
    let ?cs = "pair_forces (bond_force mi (computeForceV F)) (\<lambda>_. q) h ps"
    have h': "h' = forced ?cs h" using r by (simp add: bond_addForces_spec [OF 2(1)])
    have "fst ` set ?cs \<subseteq> bond_ptrs B" using pair_forces_in 2(2) by (rule order_trans)
    then show ?thesis by (intro exI [of _ ?cs] conjI h' pair_forces_sum)
  qed
qed

end

definition triple_ptrs :: "'q angle_interaction \<Rightarrow> ptr set" where
  "triple_ptrs A = {p. \<exists>(a, b, c)\<in>set (tripleList (ai_list A)). Some p \<in> {a, b, c}}"

lemma ai_loop_triples:
  assumes "ai_loop A step s = Some s'"
  shows "tripleList (ai_list A) = [] \<or> (\<exists>q ts. ai_triples A q ts \<and> members3 ts \<subseteq> triple_ptrs A)"
proof (cases "tripleList (ai_list A) = []")
  case False
  have each: "\<exists>p1 p2 p3. e = (Some p1, Some p2, Some p3) \<and> ai_potential A \<noteq> None" if "e \<in> set (tripleList (ai_list A))" for e
    using ofold_each [OF assms [unfolded ai_loop_def] that] by (cases e) (auto simp: ai_each_def split: option.splits)
  then obtain q where q: "ai_potential A = Some q" using False by (metis list.set_sel(1) not_None_eq)
  let ?ts = "map (\<lambda>(a, b, c). (the a, the b, the c)) (tripleList (ai_list A))"
  have "map (\<lambda>(p1, p2, p3). (Some p1, Some p2, Some p3)) ?ts = tripleList (ai_list A)"
    using each by (force intro!: map_idI simp: comp_def)
  then have "ai_triples A q ?ts" using q by (simp add: ai_triples_def)
  moreover have "members3 ?ts \<subseteq> triple_ptrs A"
  proof
    fix p assume "p \<in> members3 ?ts"
    then obtain a b c where e: "(a, b, c) \<in> set (tripleList (ai_list A))" "p \<in> {the a, the b, the c}" by (auto simp: members3_def)
    then show "p \<in> triple_ptrs A" using each [OF e(1)] by (auto simp: triple_ptrs_def intro!: bexI [OF _ e(1)])
  qed
  ultimately show ?thesis by blast
qed simp

lemma angles_law: "third_law triple_ptrs (\<lambda>A h. map_option (Pair A) (ai_addForces mi force A h))"
proof
  fix A h A' h' assume "map_option (Pair A) (ai_addForces mi force A h) = Some (A', h')"
  then have r: "ai_addForces mi force A h = Some h'" by auto
  consider "tripleList (ai_list A) = []" | q ts where "ai_triples A q ts" "members3 ts \<subseteq> triple_ptrs A"
    using ai_loop_triples [OF r [unfolded ai_addForces_def]] by blast
  then show "\<exists>cs. h' = forced cs h \<and> fst ` set cs \<subseteq> triple_ptrs A \<and> (\<Sum>(p, f)\<leftarrow>cs. f) = 0"
  proof cases
    case 1
    then have "h' = forced [] h" using r by (auto simp: ai_addForces_def ai_loop_def forced_simps(1))
    then show ?thesis by (intro exI [of _ "[]"]) simp
  next
    case 2
    let ?cs = "concat (map (triple_forces mi force q h) ts)"
    have h': "h' = forced ?cs h" using r by (simp add: ai_addForces_def ai_loop_fold [OF 2(1)] angle_fold)
    have "fst ` set ?cs \<subseteq> triple_ptrs A" using triple_forces_in 2(2) by (rule order_trans)
    then show ?thesis by (intro exI [of _ ?cs] conjI h' triple_forces_sum)
  qed
qed

definition quad_ptrs :: "'q dihedral_interaction \<Rightarrow> ptr set" where
  "quad_ptrs D = {p. \<exists>(a, b, c, d)\<in>set (quadrupleList (qi_list D)). Some p \<in> {a, b, c, d}}"

lemma qi_loop_quads:
  assumes "qi_loop D step s = Some s'"
  shows "quadrupleList (qi_list D) = [] \<or> (\<exists>q ts. qi_quads D q ts \<and> members4 ts \<subseteq> quad_ptrs D)"
proof (cases "quadrupleList (qi_list D) = []")
  case False
  have each: "\<exists>p1 p2 p3 p4. e = (Some p1, Some p2, Some p3, Some p4) \<and> qi_potential D \<noteq> None"
    if "e \<in> set (quadrupleList (qi_list D))" for e
    using ofold_each [OF assms [unfolded qi_loop_def] that] by (cases e rule: prod_cases4, cases "qi_potential D") (auto simp: qi_each_def split: option.splits)
  then obtain q where q: "qi_potential D = Some q" using False by (metis list.set_sel(1) not_None_eq)
  let ?ts = "map (\<lambda>(a, b, c, d). (the a, the b, the c, the d)) (quadrupleList (qi_list D))"
  have "map (\<lambda>(p1, p2, p3, p4). (Some p1, Some p2, Some p3, Some p4)) ?ts = quadrupleList (qi_list D)"
    using each by (force intro!: map_idI simp: comp_def)
  then have "qi_quads D q ?ts" using q by (simp add: qi_quads_def)
  moreover have "members4 ?ts \<subseteq> quad_ptrs D"
  proof
    fix p assume "p \<in> members4 ?ts"
    then obtain a b c d where e: "(a, b, c, d) \<in> set (quadrupleList (qi_list D))" "p \<in> {the a, the b, the c, the d}" by (auto simp: members4_def)
    then show "p \<in> quad_ptrs D" using each [OF e(1)] by (auto simp: quad_ptrs_def intro!: bexI [OF _ e(1)])
  qed
  ultimately show ?thesis by blast
qed simp

context dihedral_field
begin

lemma dihedrals_law: "third_law quad_ptrs (\<lambda>D h. map_option (Pair D) (qi_addForces mi F D h))"
proof
  fix D h D' h' assume "map_option (Pair D) (qi_addForces mi F D h) = Some (D', h')"
  then have r: "qi_addForces mi F D h = Some h'" by auto
  consider "quadrupleList (qi_list D) = []" | q ts where "qi_quads D q ts" "members4 ts \<subseteq> quad_ptrs D"
    using qi_loop_quads [OF r [unfolded qi_addForces_def]] by blast
  then show "\<exists>cs. h' = forced cs h \<and> fst ` set cs \<subseteq> quad_ptrs D \<and> (\<Sum>(p, f)\<leftarrow>cs. f) = 0"
  proof cases
    case 1
    then have "h' = forced [] h" using r by (auto simp: qi_addForces_def qi_loop_def forced_simps(1))
    then show ?thesis by (intro exI [of _ "[]"]) simp
  next
    case 2
    obtain css where c: "h' = forced (concat css) h" "map (quad_forces mi F q h) ts = map Some css"
      by (rule addForces_quads [OF 2(1) r])
    then show ?thesis using css_in [OF c(2)] 2(2) by blast
  qed
qed

end

section \<open>Property\<close>

text \<open>
  C4.  Conservation of momentum through the whole engine, on one process with a valid orthorhombic box, an exact index,
  unique ids and no real particle without a mass.  Let the objects of the process (lists of
  pairs, bonds, angles, dihedrals, tables of potentials) be any, let the slots of \<^verbatim>\<open>onParticlesChanged\<close> rebuild them in
  any way after every redistribution, let the other slots of the storage add to the messages what their counterparts
  read back, let nothing connected to the integrator change a particle, and let every interaction keep to Newton's third law over the particles its lists point at, whatever they hold at
  the time, as those of pairs on a Verlet list, bonds, angles and dihedrals do.  Then a run of any number of steps that
  returns leaves the process with the momentum it had, redistributions, rebuilt lists, ghost updates, force collections
  and all, and the forces on the real particles add up to zero.
\<close>

theorem momentum_conserved:
  fixes b :: orthobc and S :: "'z list mdsystem"
  assumes "unextended S" and "slots (sys_before S) (sys_after S) extra"
    and "sys_fold S = foldCoordinate b" and "bc_valid b"
    and "sys_interactions S = map interactions_on Is" and "\<forall>(ptrs, addForces)\<in>set Is. third_law ptrs addForces"
    and "populated (V3 1 1 1) (sys_boxL S) [dd]" and "\<forall>x\<in>set (real_particles dd). pp_mass (part_p x) \<noteq> 0"
    and "vv_run S n (v, ([dd], y)) = Some (Inr (v', (w, y')))"
  shows "\<exists>dd'. w = [dd'] \<and> momentum (real_particles dd') = momentum (real_particles dd) \<and> total_force (real_particles dd') = 0"
proof -
  have "isolated S extra b"
    using assms(1-6) third_law_balanced by (fastforce simp: isolated_def)
  moreover have "carries S (momentum (real_particles dd)) (v, ([dd], y))"
    using assms(7,8) by (simp add: carries_def carrying_def solid_def)
  ultimately have "carries S (momentum (real_particles dd)) (v', (w, y')) \<and> at_rest (v', (w, y'))"
    using run_carries assms(9) by blast
  then show ?thesis by (auto simp: carries_def carrying_def at_rest_def)
qed

text \<open>The two lists the objects of a process may hold, rebuilt by the slots of the code.\<close>

definition bonds_changed :: "nat \<Rightarrow> domdec \<Rightarrow> 'q bond_interaction \<Rightarrow> 'q bond_interaction option" where
  "bonds_changed oth dd B =
     (case fpl_onParticlesChanged oth (\<lambda>i. Option.bind (lookupRealParticle (dd_st dd) i) (\<lambda>p. p)) (lookupLocalParticle (dd_st dd))
        (bi_list B) of Inl _ \<Rightarrow> None | Inr f \<Rightarrow> Some (B\<lparr>bi_list := f\<rparr>))"

definition verlet_changed :: "real \<Rightarrow> dynexclude \<Rightarrow> domdec \<Rightarrow> (ptr, 'q) vl_interaction \<Rightarrow> (ptr, 'q) vl_interaction option" where
  "verlet_changed skin d dd I =
     do { vl \<leftarrow> vl_rebuild skin (memory_of dd) (\<lambda>c. map (addr (dd_st dd) (CellV c)) [0..<length (cell_at dd c)])
            (neighborCells dd) (realCells (dd_st dd)) (vl_excluded d (vi_verletList I)) (vi_verletList I);
          Some (I\<lparr>vi_verletList := vl\<rparr>) }"

definition each_changed :: "(domdec \<Rightarrow> 'z \<Rightarrow> 'z option) \<Rightarrow> world \<Rightarrow> 'z list \<Rightarrow> 'z list res" where
  "each_changed slot w zs =
     (if length zs = length w then rlift (par (\<lambda>_ (dd, z). slot dd z) (zip w zs)) else None)"

text \<open>
  Two particles with a harmonic bond between them: the one of mass 2 crosses the box and lies outside of it, the other
  is at rest.  The list of the bond is empty until the slot has looked up its particles.
\<close>

definition mover :: particle where
  "mover = set_ghost False (stray\<lparr>part_p := (part_p stray)\<lparr>pp_mass := 2\<rparr>, part_m := (part_m stray)\<lparr>pm_v := V3 1 0 0\<rparr>\<rparr>)"

definition partner :: particle where
  "partner = setId (setPos (mover\<lparr>part_p := (part_p mover)\<lparr>pp_mass := 1\<rparr>, part_m := (part_m mover)\<lparr>pm_v := V3 0 0 0\<rparr>\<rparr>) (V3 2 1 1)) 8"

definition bond78 :: "spring pot bond_interaction" where
  "bond78 = bi_new ((FixedPairList_new 0)\<lparr>globalPairs := [(7, 8)]\<rparr>) (Some (Harmonic_new_shift 1 0 None 0))"

definition harmonic_forcer :: "spring pot bond_interaction forcer" where
  "harmonic_forcer = (bond_ptrs, bi_addForces (ob_getMinimumImageVectorBox box4) (computeForceV harmonic_F))"

definition bond_system :: "spring pot bond_interaction list mdsystem" where
  "bond_system = idle_system\<lparr>sys_changed := each_changed (bonds_changed 0), sys_interactions := [interactions_on harmonic_forcer]\<rparr>"

lemma pair_sel: "p_id mover = 7" "p_id partner = 8" "pp_mass (part_p mover) = 2" "pp_mass (part_p partner) = 1"
    "pm_v (part_m mover) = V3 1 0 0" "pm_v (part_m partner) = V3 0 0 0" "\<not> p_ghost mover" "\<not> p_ghost partner"
    "p_pos mover = p_pos stray" "p_image mover = p_image stray" "p_pos partner = V3 2 1 1" "p_image partner = p_image stray"
  by (simp_all add: partner_def mover_def set_ghost_def stray_def setPos_def setId_def setImage_def)

lemma pair_foldable: "foldable box4 mover" "foldable box4 partner"
proof -
  show "foldable box4 mover" using stray_foldable by (simp add: foldable_def pair_sel)
  show "foldable box4 partner"
    unfolding foldable_def all_less_3 box4(2) pair_sel stray_def
    by (simp add: Let_def fits_int_def INT_MIN_def INT_MAX_def floor_eq_iff floor_unique)
qed

lemma bond_system_sel: "sys_boxL bond_system = V3 4 4 4" "sys_skin bond_system = 1" "sys_dflt bond_system = stray"
    "sys_interactions bond_system = [interactions_on harmonic_forcer]" "sys_signal bond_system g s = Some (Inr s)"
    "sys_inIntP bond_system s ms = Some (Inr (s, ms))" "sys_before bond_system = (\<lambda>_ b. Some b)" "sys_after bond_system = (\<lambda>_ b. Some b)"
    "sys_fold bond_system = foldCoordinate box4" "sys_changed bond_system = each_changed (bonds_changed 0)"
  by (simp_all add: bond_system_def idle_system_def)

lemma bond_on_world: "on_world (sys_signal bond_system g) s = Some (Inr s)"
  by (simp add: on_world_def bond_system_sel)

lemma in_index:
  assumes "populated (V3 1 1 1) L [d]" "i \<in> p_id ` set (real_particles d)"
  obtains q x where "localParticles (dd_st d) i = Some q" "q \<in> set (local_ptrs d)" "deref (dd_st d) q = Some x"
    "x \<in> set (real_particles d)"
proof -
  have ok: "dd_ok d" "dd_indexed d" using assms(1) by (simp_all add: populated_def)
  obtain c x where c: "c \<in> set (realCells (dd_st d))" "x \<in> set (cell_at d c)" "p_id x = i" using assms(2) by (auto simp: real_particles_def)
  then obtain j where j: "j < length (cell_at d c)" "x = cell_at d c ! j" by (metis in_set_conv_nth)
  let ?q = "addr (dd_st d) (CellV c) j"
  have q: "localParticles (dd_st d) i = Some ?q"
    using index_okD [of "CellV ` set (realCells (dd_st d))" "dd_st d" "CellV c" j] ok(2) c(1,3) j by (simp add: dd_indexed_def idat_def)
  have "c \<in> set (localCells (dd_st d))" using c(1) dd_okD(9) [OF ok(1)] by (metis Un_iff set_mset_mset set_mset_union)
  then have "?q \<in> set (local_ptrs d)"
    unfolding local_ptrs_def cell_ptrs_def set_concat set_map using j(1) by (intro UN_I imageI) auto
  moreover have "x \<in> set (real_particles d)" using c(1,2) by (auto simp: real_particles_def)
  moreover have "deref (dd_st d) ?q = Some x" using j by (simp add: addr_def)
  ultimately show thesis using that q by blast
qed

lemma found_real:
  assumes p: "populated (V3 1 1 1) L [d]" "i \<in> p_id ` set (real_particles d)" and g: "\<forall>x\<in>set (real_particles d). \<not> p_ghost x"
  obtains q where "localParticles (dd_st d) i = Some q" "lookupRealParticle (dd_st d) i = Some (Some q)"
proof -
  obtain q x where q: "localParticles (dd_st d) i = Some q" "deref (dd_st d) q = Some x" "x \<in> set (real_particles d)"
    by (rule in_index [OF p])
  then have "lookupRealParticle (dd_st d) i = Some (Some q)" using g by (simp add: lookupRealParticle_def)
  then show thesis using that q(1) by blast
qed

text \<open>The list of the bond holds the particles of the index.\<close>

definition tied :: "domdec \<Rightarrow> spring pot bond_interaction list \<Rightarrow> bool" where
  "tied d y \<longleftrightarrow> {7, 8} \<subseteq> p_id ` set (real_particles d) \<and> (\<exists>B q. y = [B] \<and> bi_potential B = Some q
     \<and> pairList (bi_list B) = [(localParticles (dd_st d) 7, localParticles (dd_st d) 8)])"

lemma tied_unmoved: "static_eq d e \<Longrightarrow> unmoved d e \<Longrightarrow> tied d y \<Longrightarrow> tied e y"
  using arg_cong [OF unmoved_ids, of d e set] by (simp add: tied_def unmoved_def)

lemma tied_forces:
  assumes p: "populated (V3 1 1 1) L [d]" and t: "tied d y"
  obtains h y' where "interactions_on harmonic_forcer ([d], y) = Some (Inr ([put_forces h d], y'))" "tied (put_forces h d) y'"
proof -
  obtain p7 p8 where q: "localParticles (dd_st d) 7 = Some p7" "p7 \<in> set (local_ptrs d)"
      "localParticles (dd_st d) 8 = Some p8" "p8 \<in> set (local_ptrs d)"
    using in_index [OF p, of 7] in_index [OF p, of 8] t unfolding tied_def by (metis insert_subset)
  obtain B pot where B: "y = [B]" "bi_bonds B pot [(p7, p8)]" using t q(1,3) by (auto simp: tied_def bi_bonds_def)
  obtain B' h where h: "bi_addForces (ob_getMinimumImageVectorBox box4) (computeForceV harmonic_F) B (memory_of d) = Some (B', h)"
      "bi_potential B' = bi_potential B" "pairList (bi_list B') = pairList (bi_list B)"
    using harmonic_ortho.bond_addForces_spec [OF B(2), of box4 "memory_of d"] by (simp add: setLongtimeMaxBondSqr_def)
  have "bond_ptrs B \<subseteq> set (local_ptrs d)" using B(2) q(2,4) by (auto simp: bond_ptrs_def bi_bonds_def)
  then have run: "interactions_on harmonic_forcer ([d], y) = Some (Inr ([put_forces h d], [B']))"
    by (simp add: interactions_on_def B(1) interaction_on_def harmonic_forcer_def h(1) par_def)
  have "tied d [B']" using t h(2,3) by (simp add: tied_def B(1))
  moreover have "static_eq d (put_forces h d)" "unmoved d (put_forces h d)"
    using only_forces_alone [OF put_forces_only, of d h] one_process_not_multi [OF populated_one [OF p]]
    by (auto simp: alone_def)
  ultimately have "tied (put_forces h d) [B']" using tied_unmoved by blast
  with run show thesis by (rule that)
qed

lemma tied_update:
  assumes c: "carrying (V3 4 4 4) M d" and t: "tied d y"
  obtains e y' where "updateForces bond_system ([d], y) = Some (Inr ([e], y'))" "carrying (V3 4 4 4) M e"
    "motions e = motions d" "total_force (real_particles e) = 0" "tied e y'"
proof -
  let ?L = "V3 4 4 4 :: real3d"
  obtain d1 where d1: "updateGhosts stray ?L [d] = Some (Inr [d1])"
    "carrying ?L M (initForces_local d1)" "same_sizes (initForces_local d1)" "motions (initForces_local d1) = motions d"
    "total_force (local_particles (initForces_local d1)) = 0" "unmoved d (initForces_local d1)"
    by (rule forces_prepared [OF c])
  let ?f = "initForces_local d1"
  have pop: "populated (V3 1 1 1) ?L [?f]" using d1(2) by (simp add: carrying_def)
  have "static_eq d ?f"
    using to_ghosts.communication_rel [OF d1(1) [unfolded updateGhosts_def]] init_forces(1) [of d1] c pop dd_ok_static
    by (auto simp: off_ghosts_def carrying_def populated_def intro: static_eq_trans)
  then have tf: "tied ?f y" using tied_unmoved d1(6) t by blast
  obtain h y' where h: "interactions_on harmonic_forcer ([?f], y) = Some (Inr ([put_forces h ?f], y'))" "tied (put_forces h ?f) y'"
    by (rule tied_forces [OF pop tf])
  have "balanced (interactions_on harmonic_forcer)"
    by (rule third_law_balanced) (simp add: harmonic_forcer_def harmonic_ortho.bonds_law)
  then have b: "total_force (local_particles (put_forces h ?f)) = total_force (local_particles ?f)"
    using h(1) pop unfolding balanced_def by (fastforce simp: populated_def)
  obtain e where e: "collectGhostForces stray ?L [put_forces h ?f] = Some (Inr [e])" "carrying ?L M e" "motions e = motions ?f"
      "total_force (real_particles e) = 0" "unmoved ?f e"
    by (rule forces_gathered [OF d1(2,3,5) put_forces_only b])
  have "static_eq (put_forces h ?f) e"
    using to_reals.communication_rel [OF e(1) [unfolded collectGhostForces_def]] put_forces_only [of ?f h] pop dd_ok_static
    by (auto simp: only_forces_def force_only_def populated_def)
  moreover have "localParticles (dd_st (put_forces h ?f)) = localParticles (dd_st ?f)" by (simp add: put_forces_def)
  ultimately have "tied e y'"
    using h(2) e(5) arg_cong [OF unmoved_ids [OF _ e(5)], of set] put_forces_only [of ?f h] tf static_eq_trans
    by (auto simp: tied_def unmoved_def only_forces_def force_only_def)
  moreover have "updateForces bond_system ([d], y) = Some (Inr ([e], y'))"
    using d1(1) h(1) e(1) by (simp add: updateForces_def calcForces_def on_particles_def bond_system_sel)
  ultimately show thesis using that e(2-4) d1(4) by simp
qed

lemma counted: "localParticles (onParticlesChanged st) = localParticles st" "deref (onParticlesChanged st) q = deref st q"
    "lookupRealParticle (onParticlesChanged st) i = lookupRealParticle st i" "realCells (onParticlesChanged st) = realCells st"
    "particles_of (onParticlesChanged st) v = particles_of st v"
proof -
  show d: "deref (onParticlesChanged st) q = deref st q" for q by (cases q) (simp add: onParticlesChanged_def particles_of_def)
  show l: "localParticles (onParticlesChanged st) = localParticles st" by (simp add: onParticlesChanged_def)
  have a: "lookupAdrATParticle (onParticlesChanged st) i = lookupAdrATParticle st i" for i
    by (simp add: lookupAdrATParticle_def onParticlesChanged_def)
  show "lookupRealParticle (onParticlesChanged st) i = lookupRealParticle st i"
    unfolding lookupRealParticle_def l d a ..
  show "realCells (onParticlesChanged st) = realCells st" "particles_of (onParticlesChanged st) v = particles_of st v"
    by (simp_all add: onParticlesChanged_def particles_of_def)
qed

text \<open>The first redistribution, whose slot looks the two particles up.\<close>

lemma bond_start:
  assumes r: "roomy box4 (V3 4 4 4) d0" and m: "mset (real_particles d0) = {#mover, partner#}"
    and c: "carrying (V3 4 4 4) M d0"
  obtains d y where "sys_decompose bond_system ([d0], [bond78]) = Some (Inr ([d], y))" "tied d y" "carrying (V3 4 4 4) M d"
    "motions d = motions d0"
proof -
  let ?L = "V3 4 4 4 :: real3d"
  have pop: "populated (V3 1 1 1) ?L [d0]" using c by (simp add: carrying_def)
  have real: "set (real_particles d0) = {mover, partner}" using arg_cong [OF m, of set_mset] by simp
  obtain d1 d2 where x: "par (\<lambda>_. on_storage invalidateGhosts) [d0] = Some [d0]"
      "decomposeRealParticles (\<lambda>_ b. Some b) (\<lambda>_ b. Some b) (foldCoordinate box4) stray [d0] = Some [d1]"
      "exchangeGhosts stray ?L [d1] = Some (Inr [d2])"
    using box4_exchange [of d0] r pair_foldable real by (auto simp: roomy_def)
  note f = decompose_fit [OF unconnected.slots_axioms box4(1) pop x(2)]
  have p1: "populated (V3 1 1 1) ?L [d1]" using f by simp
  have w: "image_mset (whole box4) (mset (real_particles d1)) = {#whole box4 mover, whole box4 partner#}"
    using f m by (simp add: world_particles_def)
  have sel: "p_id (whole box4 x) = p_id x" "p_ghost (whole box4 x) = p_ghost x" for x
    by (simp_all add: whole_def setImage_def setPos_def)
  have ok1: "dd_ok d1" using p1 by (simp add: populated_def)
  have "off_ghosts d1 d2"
    using to_ghosts.communication_rel [OF x(3) [unfolded exchangeGhosts_def]] ok1 by simp
  then have r2: "real_particles d2 = real_particles d1" by (rule off_ghosts_real [OF ok1])
  have ids: "p_id ` set (real_particles d2) = {7, 8}"
    using arg_cong [OF w, of "\<lambda>m. p_id ` set_mset m"] unfolding r2 by (simp add: image_image sel pair_sel)
  have g: "\<forall>x\<in>set (real_particles d2). \<not> p_ghost x"
  proof
    fix x assume "x \<in> set (real_particles d2)"
    then have "whole box4 x \<in># {#whole box4 mover, whole box4 partner#}" unfolding w [symmetric] r2 by simp
    then show "\<not> p_ghost x" using sel(2) pair_sel(7,8) by (metis add_mset_remove_trivial_If empty_not_add_mset insert_iff set_mset_add_mset_insert set_mset_empty singletonD)
  qed
  have "alone d1 d2" using alone.communication_rel [OF x(3) [unfolded exchangeGhosts_def]] ok1 by simp
  then have p2: "populated (V3 1 1 1) ?L [d2]" by (rule alone_populated [OF _ p1])
  obtain p7 where p7: "localParticles (dd_st d2) 7 = Some p7" "lookupRealParticle (dd_st d2) 7 = Some (Some p7)"
    using found_real [OF p2 _ g, of 7] ids by blast
  obtain p8 where p8: "localParticles (dd_st d2) 8 = Some p8" using found_real [OF p2 _ g, of 8] ids by blast
  let ?d = "d2\<lparr>dd_st := onParticlesChanged (dd_st d2)\<rparr>"
  have st: "localParticles (dd_st ?d) = localParticles (dd_st d2)" "lookupRealParticle (dd_st ?d) 7 = lookupRealParticle (dd_st d2) 7"
    "real_particles ?d = real_particles d2"
    by (simp_all add: counted real_particles_def)
  obtain B where B: "bonds_changed 0 ?d bond78 = Some B" "bi_potential B = bi_potential bond78" "pairList (bi_list B) = [(Some p7, Some p8)]"
    using p7 p8 st
    by (simp add: bonds_changed_def fpl_onParticlesChanged_def bond78_def bi_new_def lookupLocalParticle_def
        checkException_def ebind_def)
  have run: "sys_decompose bond_system ([d0], [bond78]) = Some (Inr ([?d], [B]))"
    using x B(1) by (simp add: sys_decompose_def dd_decompose_def emit_changed_def bond_system_sel each_changed_def par_def)
  have "tied ?d [B]" using B(2,3) p7 p8 st ids by (auto simp: tied_def bond78_def bi_new_def)
  moreover have "\<exists>dd'. fst ([?d], [B]) = [dd'] \<and> carrying (sys_boxL bond_system) M dd' \<and> motions dd' = motions d0"
    by (rule decompose_carrying [OF _ _ _ _ run]) (use unconnected.slots_axioms box4(1) c in \<open>simp_all add: bond_system_sel\<close>)
  ultimately show thesis using that run by (simp add: bond_system_sel)
qed

text \<open>A step short enough that no particle gets far.\<close>

lemma short_step:
  assumes "finite X" "\<And>x. x \<in> X \<Longrightarrow> pp_mass (part_p x) \<noteq> 0" "0 < B"
  obtains dt where "0 < dt" "\<And>x. x \<in> X \<Longrightarrow> \<exists>y s. kick_drift dt x = Some (y, s) \<and> s \<le> B"
proof -
  have "eventually (\<lambda>dt. \<exists>y s. kick_drift dt x = Some (y, s) \<and> s \<le> B) (at_right 0)" if x: "x \<in> X" for x
  proof -
    define q where "q dt = snd (the (kick_drift dt x))" for dt
    have k: "kick_drift dt x = Some (fst (the (kick_drift dt x)), q dt)" for dt
      using assms(2) [OF x] by (simp add: kick_drift_def q_def Let_def)
    have "(q \<longlongrightarrow> 0) (at_right 0)"
      using assms(2) [OF x] unfolding q_def
      by (auto simp: kick_drift_def Let_def real3d_dot_def intro!: tendsto_eq_intros)
    then have "eventually (\<lambda>dt. q dt < B) (at_right 0)" using assms(3) by (rule order_tendstoD(2))
    then show ?thesis by eventually_elim (use k in \<open>meson less_imp_le\<close>)
  qed
  then have "eventually (\<lambda>dt. \<forall>x\<in>X. \<exists>y s. kick_drift dt x = Some (y, s) \<and> s \<le> B) (at_right 0)"
    using assms(1) by (simp add: eventually_ball_finite)
  moreover have "eventually (\<lambda>dt :: real. 0 < dt) (at_right 0)" by (simp add: eventually_at_right_less)
  ultimately have "eventually (\<lambda>dt. 0 < dt \<and> (\<forall>x\<in>X. \<exists>y s. kick_drift dt x = Some (y, s) \<and> s \<le> B)) (at_right 0)"
    by (rule eventually_conj [rotated])
  then obtain dt where "0 < dt" "\<forall>x\<in>X. \<exists>y s. kick_drift dt x = Some (y, s) \<and> s \<le> B"
    using eventually_happens' [of "at_right (0 :: real)"] by fastforce
  then show thesis using that by blast
qed

lemma integrate1_returns:
  assumes "\<And>c x. c \<in> set cs \<Longrightarrow> x \<in> set (particles_of st (CellV c)) \<Longrightarrow> \<exists>y s. kick_drift dt x = Some (y, s) \<and> s \<le> B"
    and "distinct cs" and "m \<le> B"
  shows "\<exists>st' m'. integrate1_cells dt cs st m = Some (st', m') \<and> m' \<le> B"
proof -
  have list: "(\<And>x. x \<in> set xs \<Longrightarrow> \<exists>y s. kick_drift dt x = Some (y, s) \<and> s \<le> B) \<Longrightarrow> m \<le> B
      \<Longrightarrow> \<exists>ys m'. integrate1_list dt xs m = Some (ys, m') \<and> m' \<le> B" for xs m
  proof (induction xs arbitrary: m)
    case (Cons x xs)
    obtain y s where s: "kick_drift dt x = Some (y, s)" "s \<le> B" using Cons.prems(1) [of x] by auto
    have "\<exists>ys m'. integrate1_list dt xs (max m s) = Some (ys, m') \<and> m' \<le> B"
      by (rule Cons.IH) (use Cons.prems s(2) in auto)
    then show ?case using s(1) by auto
  qed simp
  show ?thesis
    using assms
  proof (induction cs arbitrary: st m)
    case (Cons c cs)
    obtain xs k where x: "integrate1_list dt (particles_of st (CellV c)) m = Some (xs, k)" "k \<le> B"
      using list [of "particles_of st (CellV c)" m] Cons.prems(1) [of c] Cons.prems(3) by auto
    have "\<exists>st' m'. integrate1_cells dt cs (set_cell st c xs) k = Some (st', m') \<and> m' \<le> B"
    proof (rule Cons.IH [OF _ _ x(2)])
      fix a y assume "a \<in> set cs" "y \<in> set (particles_of (set_cell st c xs) (CellV a))"
      moreover have "particles_of (set_cell st c xs) (CellV a) = particles_of st (CellV a)"
        using \<open>a \<in> set cs\<close> Cons.prems(2) by (auto simp: set_cell_def set_vec_def particles_of_def)
      ultimately show "\<exists>z s. kick_drift dt y = Some (z, s) \<and> s \<le> B" using Cons.prems(1) [of a y] by simp
    qed (use Cons.prems(2) in simp)
    then show ?case using x(1) by auto
  qed simp
qed

lemma bond_shift:
  assumes d: "carrying (V3 4 4 4) M d" "total_force (real_particles d) = 0" "tied d y"
    and dt: "\<And>x. x \<in> set (real_particles d) \<Longrightarrow> \<exists>z s. kick_drift (md_dt v) x = Some (z, s) \<and> s \<le> 1 / 4"
    and v: "maxDist v = 0" "\<not> resortFlag v"
  obtains v' e where "vv_shift bond_system (v, ([d], y)) = Some (Inr (v', ([e], y)))" "\<not> resortFlag v'"
    "carrying (V3 4 4 4) M e" "tied e y"
proof -
  have ok: "dd_ok d" using d(1) by (simp add: carrying_def populated_def)
  have "\<exists>st' m'. integrate1_cells (md_dt v) (realCells (dd_st d)) (dd_st d) 0 = Some (st', m') \<and> m' \<le> 1 / 4"
    by (rule integrate1_returns [OF dt dd_okD(4) [OF ok]]) (auto simp: real_particles_def)
  then obtain e q where e: "integrate1_local (md_dt v) d = Some (e, q)" "q \<le> 1 / 4" by (auto simp: integrate1_local_def)
  then have "sqrt q \<le> sqrt (1 / 4)" by simp
  then have far: "\<not> 1 < sqrt q * 2" by (simp add: real_sqrt_divide)
  have "vv_shift bond_system (v, ([d], y)) = Some (Inr (v\<lparr>maxDist := sqrt q\<rparr>, ([e], y)))"
    by (simp add: vv_shift_def Let_def bond_system_sel integrate1_def all_reduce_max_def par_def e(1) far v)
  moreover have "tied e y" using tied_unmoved integrate1_unmoved [OF ok e(1)] d(3) by blast
  ultimately show thesis using that integrate1_carrying [OF d(1,2) e(1)] v(2) by simp
qed

lemma bond_finish:
  assumes d: "carrying L M d" "total_force (real_particles d) = 0" "tied d y"
  obtains v' e where "vv_finish bond_system (v, ([d], y)) = Some (Inr (v', ([e], y)))" "carrying L M e" "tied e y"
proof -
  let ?e = "d\<lparr>dd_st := map_cells (kick (md_dt v)) (realCells (dd_st d)) (dd_st d)\<rparr>"
  have "massive (dd_st d)" using d(1) by (auto simp: massive_def list_all_iff carrying_def solid_def real_particles_def)
  then have e: "integrate2_local (md_dt v) d = Some ?e" by (simp add: integrate2_local_def)
  have "vv_finish bond_system (v, ([d], y)) = Some (Inr (v\<lparr>md_step := md_step v + 1\<rparr>, ([?e], y)))"
    by (simp add: vv_finish_def Let_def bond_system_sel integrate2_def on_particles_def par_def e)
  moreover have "tied ?e y" by (rule tied_unmoved [OF map_cells_unmoved(2) map_cells_unmoved(1) d(3)]) simp_all
  ultimately show thesis using that integrate2_carrying [OF d(1,2) e] by blast
qed

lemma tied_ptrs:
  assumes "carrying L M d" "tied d y"
  obtains B p q where "y = [B]" "pairList (bi_list B) = [(Some p, Some q)]"
proof -
  have p: "populated (V3 1 1 1) L [d]" using assms(1) by (simp add: carrying_def)
  obtain p7 p8 where "localParticles (dd_st d) 7 = Some p7" "localParticles (dd_st d) 8 = Some p8"
    using in_index [OF p, of 7] in_index [OF p, of 8] assms(2) unfolding tied_def by (metis insert_subset)
  then show thesis using that assms(2) by (auto simp: tied_def)
qed

lemma bond_run:
  assumes r: "roomy box4 (V3 4 4 4) d0" and m: "mset (real_particles d0) = {#mover, partner#}"
  obtains dt v e y M where "0 < dt" "carrying (V3 4 4 4) M e" "tied e y"
    "vv_run bond_system 1 (VelocityVerlet_new\<lparr>md_dt := dt\<rparr>, ([d0], [bond78])) = Some (Inr (v, ([e], y)))"
proof -
  let ?L = "V3 4 4 4 :: real3d" and ?M = "momentum (real_particles d0)"
  have "\<forall>x\<in>set (real_particles d0). pp_mass (part_p x) \<noteq> 0"
    using arg_cong [OF m, of set_mset] by (simp add: pair_sel)
  then have c0: "carrying ?L ?M d0" using r by (simp add: carrying_def solid_def roomy_def)
  obtain d1 y1 where d1: "sys_decompose bond_system ([d0], [bond78]) = Some (Inr ([d1], y1))" "tied d1 y1" "carrying ?L ?M d1"
    by (rule bond_start [OF r m c0]) blast
  obtain d2 y2 where d2: "updateForces bond_system ([d1], y1) = Some (Inr ([d2], y2))" "carrying ?L ?M d2"
      "total_force (real_particles d2) = 0" "tied d2 y2"
    by (rule tied_update [OF d1(3,2)]) blast
  have mass: "pp_mass (part_p x) \<noteq> 0" if "x \<in> set (real_particles d2)" for x using d2(2) that by (simp add: carrying_def solid_def)
  obtain dt where dt: "0 < dt" "\<And>x. x \<in> set (real_particles d2) \<Longrightarrow> \<exists>y s. kick_drift dt x = Some (y, s) \<and> s \<le> 1 / 4"
    by (rule short_step [of "set (real_particles d2)" "1 / 4"]) (simp_all add: mass)
  let ?v = "VelocityVerlet_new\<lparr>md_dt := dt\<rparr>"
  define v1 where "v1 = ?v\<lparr>maxDist := 0, resortFlag := False\<rparr>"
  have v1: "md_dt v1 = dt" "maxDist v1 = 0" "\<not> resortFlag v1" by (simp_all add: v1_def)
  have start: "vv_start bond_system (?v, ([d0], [bond78])) = Some (Inr (v1, ([d1], y1)))"
    using d1(1) by (simp add: vv_start_def bond_on_world vv_resort_def VelocityVerlet_new_def v1_def)
  obtain v2 d3 where d3: "vv_shift bond_system (v1, ([d2], y2)) = Some (Inr (v2, ([d3], y2)))" "\<not> resortFlag v2"
      "carrying ?L ?M d3" "tied d3 y2"
    using bond_shift [OF d2(2-4), of v1] dt(2) v1 by auto
  obtain d4 y4 where d4: "updateForces bond_system ([d3], y2) = Some (Inr ([d4], y4))" "carrying ?L ?M d4"
      "total_force (real_particles d4) = 0" "tied d4 y4"
    by (rule tied_update [OF d3(3,4)]) blast
  obtain v3 e where e: "vv_finish bond_system (v2, ([d4], y4)) = Some (Inr (v3, ([e], y4)))" "carrying ?L ?M e" "tied e y4"
    by (rule bond_finish [OF d4(2-4)])
  have step: "vv_step bond_system (v1, ([d2], y2)) = Some (Inr (v3, ([e], y4)))"
    using d3(1,2) d4(1) e(1) by (simp add: vv_step_def vv_resort_def on_world_def)
  have "vv_run bond_system 1 (?v, ([d0], [bond78])) = Some (Inr (v3, ([e], y4)))"
    using start d2(1) step by (simp add: vv_run_def bond_on_world) (simp add: on_world_def)
  then show thesis using that dt(1) e(2,3) by blast
qed

theorem momentum_conserved_witness:
  "\<exists>dd dt v e B p q. dd_example = Some (Inr dd) \<and> 0 < dt
    \<and> vv_run bond_system 1 (VelocityVerlet_new\<lparr>md_dt := dt\<rparr>, ([loaded (loaded dd mover) partner], [bond78])) = Some (Inr (v, ([e], [B])))
    \<and> pairList (bi_list B) = [(Some p, Some q)]
    \<and> momentum (real_particles e) = V3 2 0 0 \<and> total_force (real_particles e) = 0"
proof -
  obtain dd where dd: "dd_example = Some (Inr dd)" using dd_example_ok by blast
  have r0: "roomy box4 (V3 4 4 4) dd" "real_particles dd = []"
    by (rule constructed_roomy [OF dd [unfolded dd_example_def]]; simp add: vall_def)+
  let ?d1 = "loaded dd mover" and ?d = "loaded (loaded dd mover) partner"
  have r1: "roomy box4 (V3 4 4 4) ?d1" "mset (real_particles ?d1) = {#mover#}"
    using loaded_more [OF r0(1), of mover] r0(2) by simp_all
  have ids: "p_id partner \<notin> p_id ` set (real_particles ?d1)" using arg_cong [OF r1(2), of set_mset] by (simp add: pair_sel)
  have r2: "roomy box4 (V3 4 4 4) ?d" "mset (real_particles ?d) = {#mover, partner#}"
    using loaded_more [OF r1(1) ids] r1(2) by (simp_all add: add_mset_commute)
  obtain dt v e y M where run: "0 < dt" "carrying (V3 4 4 4) M e" "tied e y"
      "vv_run bond_system 1 (VelocityVerlet_new\<lparr>md_dt := dt\<rparr>, ([?d], [bond78])) = Some (Inr (v, ([e], y)))"
    by (rule bond_run [OF r2])
  have pop: "populated (V3 1 1 1) (V3 4 4 4) [?d]" using r2(1) by (simp add: roomy_def)
  have real: "set (real_particles ?d) = {mover, partner}" using arg_cong [OF r2(2), of set_mset] by simp
  have "momentum (real_particles ?d) = (\<Sum>x\<in>#mset (real_particles ?d). real3d_scale (pm_v (part_m x)) (pp_mass (part_p x)))"
    by (simp add: momentum_def sum_mset_sum_list [symmetric])
  then have M: "momentum (real_particles ?d) = V3 2 0 0" unfolding r2(2) by (simp add: pair_sel vec_eq_iff)
  have law: "\<forall>(ptrs, addForces)\<in>set [harmonic_forcer]. third_law ptrs addForces"
    by (simp add: harmonic_forcer_def harmonic_ortho.bonds_law)
  have free: "unextended bond_system"
    by (simp add: unextended_def bond_system_def idle_system_def)
  have "\<exists>dd'. [e] = [dd'] \<and> momentum (real_particles dd') = momentum (real_particles ?d) \<and> total_force (real_particles dd') = 0"
    by (rule momentum_conserved [OF free _ _ box4(1) _ law _ _ run(4)])
      (use unconnected.slots_axioms pop real in \<open>simp_all add: bond_system_sel pair_sel\<close>)
  then have "momentum (real_particles e) = V3 2 0 0" "total_force (real_particles e) = 0" using M by simp_all
  moreover obtain B p q where "y = [B]" "pairList (bi_list B) = [(Some p, Some q)]" using tied_ptrs [OF run(2,3)] by blast
  ultimately show ?thesis using dd run(1,4) by blast
qed

end
