(* ===== verification/Spec2Isabelle.thy ===== *)
theory Spec2Isabelle
  imports BoundaryConditions FixedPairList FixedTripleList FixedQuadrupleList FixedSingleList
    VerletList DomainCells IntegratorSafe OddEven TopologyProps MomentumRun
begin

text \<open>
  ESPResSo++: the core of the simulation engine.

  \<^bold>\<open>The program.\<close>  ESPResSo++ runs molecular dynamics on many MPI processes.  The simulation box is cut into
  one block per process (\<^verbatim>\<open>storage/NodeGrid\<close>), each block into cells (\<^verbatim>\<open>storage/CellGrid\<close>) with a frame of ghost
  cells around them.  \<^verbatim>\<open>storage/Storage\<close> holds the particles of one process, in its cells, with an index from
  particle ids to their addresses.  \<^verbatim>\<open>storage/DomainDecomposition\<close> sends a particle that has left its block
  to the process that owns its new place, and fills the ghost cells with images of the particles of the
  neighboring processes; both go through the buffers of \<^verbatim>\<open>BufferDynamic.hpp\<close>.  Other parts connect to its signals:
  the lists of bonds, angles and dihedrals (\<^verbatim>\<open>FixedPairList\<close>, \<^verbatim>\<open>FixedTripleList\<close>, \<^verbatim>\<open>FixedQuadrupleList\<close>)
  send their entries along with the particles and look their pointers up again afterwards.  \<^verbatim>\<open>VerletList\<close>
  collects the pairs within the cutoff from neighboring cells.  \<^verbatim>\<open>integrator/VelocityVerlet\<close> moves the
  particles, and asks for a new decomposition before a particle can have left the skin of the list.
  \<^verbatim>\<open>integrator/TopologyManager\<close> keeps, equal on every process, the graph of bonds with the residues and
  the molecules, and changes the angles and dihedrals with it when reactions make and break bonds.  The
  forces come from interactions: each combines a list of pairs, bonds, angles or dihedrals with a potential from
  \<^verbatim>\<open>interaction/\<close>, adds the forces of its entries to the particles, and sums energies and virials.

  \<^bold>\<open>Theories and code\<close> (paths are under \<^verbatim>\<open>src/src\<close>).
  \<^item> \<open>Esp_Prelude\<close>: machine integers (\<^verbatim>\<open>longint\<close> is an \<open>int\<close> throughout; where its 32 bits matter, the operations
    \<open>add_int\<close>, \<open>mul_int\<close> and \<open>cast_int\<close> have no value beyond them), conversions of reals, C division, \<^verbatim>\<open>std::multimap\<close> as an association list in order of insertion, collections of
    rewrite rules.  \<open>Vectors\<close>: \<^verbatim>\<open>Real3D.hpp\<close>, \<^verbatim>\<open>Int3D.hpp\<close>.  \<open>ErrorHandling\<close>: \<^verbatim>\<open>esutil/Error\<close>.
  \<^item> \<open>Grid\<close>, \<open>CellGrid\<close>, \<open>NodeGrid\<close>: \<^verbatim>\<open>esutil/Grid.hpp\<close>, \<^verbatim>\<open>storage/CellGrid\<close>, \<^verbatim>\<open>storage/NodeGrid\<close>.
    \<open>BoundaryConditions\<close>: \<^verbatim>\<open>bc/\<close>; the abstract class \<^verbatim>\<open>BC\<close> is the locale \<open>boundary\<close>, its two subclasses
    the interpretations \<open>ortho\<close> and \<open>slab\<close>.
  \<^item> \<open>Particles\<close>: \<^verbatim>\<open>Particle.hpp\<close>.  \<open>Buffers\<close>: \<^verbatim>\<open>BufferDynamic.hpp\<close>; what one \<^verbatim>\<open>write\<close> puts and the matching
    \<^verbatim>\<open>read\<close> takes is the locale \<open>codec\<close>, interpreted for every type that is sent.
  \<^item> \<open>Storage\<close>, \<open>StorageIndex\<close>, \<open>StorageComm\<close>: \<^verbatim>\<open>storage/Storage\<close>.  A vector of particles keeps its address and
    capacity, for the index is rebuilt when a vector moves in memory; an address is a vector and a
    position.  The classes that connect to \<^verbatim>\<open>beforeSendParticles\<close> and \<^verbatim>\<open>afterRecvParticles\<close> are the locale
    \<open>slots\<close>, interpreted by the pair, triple and quadruple lists.
  \<^item> \<open>DomainCells\<close>, \<open>GhostFrame\<close>: the static part of \<^verbatim>\<open>storage/DomainDecomposition\<close> (cells, neighbors, cells
    to communicate).  \<open>Decomposition\<close>: the moving part, \<^verbatim>\<open>decomposeRealParticles\<close>, over the list of all
    processes.  \<open>DecompLocal\<close>, \<open>DecompWorld\<close>, \<open>DecompGlobal\<close>, \<open>DecompPlace\<close>, \<open>Redistribution\<close>, \<open>DecompSingle\<close>,
    \<open>DecompFrame\<close>: what it does on one process, in one exchange, in all rounds, where it leaves the
    particles, and what it leaves alone.  \<open>OddEven\<close>: the order of the blocking messages.  \<open>GhostComm\<close>,
    \<open>GhostSafe\<close>, \<open>GhostImages\<close>: the ghost communication.
  \<^item> \<open>CellIterators\<close>: \<^verbatim>\<open>iterator/\<close>.  \<open>VerletList\<close>: \<^verbatim>\<open>VerletList\<close> and its dynamic exclusion list.
    \<open>FixedLists\<close> (what the lists share, with the locale \<open>payload\<close> of an entry's message), \<open>FixedPairList\<close>,
    \<open>FixedTripleList\<close>, \<open>FixedQuadrupleList\<close>, \<open>FixedSingleList\<close>: the classes of these names.
  \<^item> \<open>Integrator\<close>, \<open>IntegratorSafe\<close>: \<^verbatim>\<open>integrator/MDIntegrator\<close> and \<^verbatim>\<open>integrator/VelocityVerlet\<close>.  \<open>GhostForces\<close>: what
    \<^verbatim>\<open>collectGhostForces\<close> adds up.  \<open>MomentumRun\<close>: a whole run of the integrator on one process, with the redistribution, the
    ghosts and the interactions, whose contract is the locale \<open>third_law\<close>.
  \<^item> \<open>TopologyGraph\<close>, \<open>TopologyDistance\<close>, \<open>Topology\<close>, \<open>TopologyInv\<close>, \<open>TopologyAngles\<close>, \<open>TopologyManager\<close>,
    \<open>TopologyExchange\<close>, \<open>TopologySafe\<close>, \<open>TopologyProps\<close>: \<^verbatim>\<open>integrator/TopologyManager\<close>: searches, global
    state and its invariant, new angles, the object, the exchange between processes and its properties.
  \<^item> \<open>Potential\<close>: \<^verbatim>\<open>interaction/Potential.hpp\<close>, the template of a potential of the distance with cutoff and shift.
    Its laws are locales: \<open>central\<close> (the raw force is the gradient of the raw energy) gives \<open>pair_law\<close> (forces of two
    particles).  \<open>LennardJones\<close>, \<open>LennardJonesFamily\<close>, \<open>LennardJonesCapped\<close>, \<open>BondPotentials\<close>, \<open>ChargePotentials\<close>: the
    potentials, each a set of definitions and an interpretation, or a lemma on where its force is not the gradient.
  \<^item> \<open>Arrays\<close>: \<^verbatim>\<open>esutil/Array2D.hpp\<close>.  \<open>Interactions\<close>: \<^verbatim>\<open>Tensor.hpp\<close>, the memory of the particles and forces added to it.
    \<open>PairInteractions\<close>, \<open>BondInteractions\<close>, \<open>AngleInteractions\<close>, \<open>DihedralInteractions\<close>: the four
    \<^verbatim>\<open>...ListInteractionTemplate.hpp\<close>, the angular and the dihedral potentials.  The boundary conditions enter as the locale
    \<open>image\<close>, with both classes of \<^verbatim>\<open>bc/\<close> as interpretations.  \<open>InteractionProps\<close> puts the potentials into the interactions,
    \<open>VerletForces\<close> the interaction of pairs on top of a Verlet list that is as old as the skin allows.

  \<^bold>\<open>How the code is rendered.\<close>  Functions keep the names of the code, with the class as a prefix where two classes
  share one.  A method takes and returns the record of its object.  \<open>None\<close> is undefined behavior (a read
  outside of a vector, a null pointer) or a loop that does not end; a C++ exception is an \<open>Inl\<close>.  The
  processes are a list, and a collective operation is a function on that list: a message is the value
  that the sender's definition returns, given to the receiver's.  \<open>OddEven\<close> shows on a step relation of
  blocking sends and receives that this order can be carried out.  Reals are the mathematical reals,
  except where a conversion to \<^verbatim>\<open>int\<close> is written out; rounding errors and NaN do not exist in the model.
  Functions of classes that call each other through virtual functions or signals are arguments (the
  folding of positions, the slots, the force computation, the extensions), and their laws are the
  assumptions of the locales or of the theorems.  The objects connected to \<^verbatim>\<open>onParticlesChanged\<close> and to the integrator
  have a state of their own, of any type, next to the particles: \<open>dd_decompose\<close> ends with their slots (\<open>emit_changed\<close>),
  and an interaction works on what they hold at the time, its list of pairs or bonds and its potentials.  Sums and products
  of \<^verbatim>\<open>longint\<close> are checked where they can grow: image counters, buffer sizes, the numbers of nodes and cells, the
  counter of molecule ids.  Those that count what is in memory (particles, rebuilds, steps) are not.  A velocity is not divided
  by a mass of zero: the step of the integrator has no value then.

  \<^bold>\<open>What is shown.\<close>  Redistribution: no particle is lost, duplicated or changed, whatever the slots add to the
  messages; if it returns, every particle is in the inner cell that the checked look-up names for its position, which takes in
  positions up to one cell to the left of the block (the cast truncates towards zero) and a rounding error to the right; on one
  process it returns; the order of messages on any grid of processes cannot deadlock.  Ghosts:
  the ghost frame is made of neighbors' real cells, on one process it holds exactly the periodic images,
  updating it touches ghost cells only, collecting forces touches forces only, and on one process it gives every real particle
  the forces of all its images.  Integrator: forces are never
  computed on a list whose particles may have moved more than half the skin, the list contains every pair
  of particles within the cutoff, the momentum changes by the sum of forces, and over a run on one process with
  interactions that keep to Newton's third law, over lists that the slots rebuild at every redistribution, it does not
  change at all; the example is a bond whose list is empty until the first redistribution has looked its particles up.
  Storage: the index is exact after every operation.  Lists: adding, removing, sending and looking up keep the
  set of bonded tuples.  Topology: the invariant (symmetric graphs, residues and molecules as
  classes, molecules as connected components of residues) is kept by new and by removed bonds, also through the exchange, which
  leaves the same topology on every process, with exactly the bonds asked for, those asked to be removed and those cut around
  announced roots taken into account; from the initialization on, over any history of added and removed bonds, the molecule ids are
  those of the connected components; searches end and find exactly the nodes at a
  distance; the dihedrals of new bonds are the paths of four particles through them.
  Interactions: pair forces cancel; the forces that Lennard-Jones pairs, FENE bonds, harmonic angles and
  Ryckaert-Bellemans dihedrals add are minus the gradient of the energy that the same object sums, in the periodic box
  and for every displacement; setters keep a Lennard-Jones potential sound; the potential last set for two types is in
  force in both orders, and no cutoff exceeds the largest one reported.  Over a Verlet list, the energy and the forces are
  those of all pairs that are not excluded, as long as no particle has moved more than half the skin and the potential is
  evaluated with the template's test of the cutoff.  Where a force of the code is not the gradient of its
  energy, or a shift is stale, a lemma with a concrete potential says so (\<open>sw_not_gradient\<close>, \<open>fene_negative_r0\<close>, \<open>fene_stale_shift\<close>,
  \<open>ec_stale_shift\<close>, \<open>gro_jump\<close>, \<open>capped_force_inside\<close>, \<open>fenec_force_at_rest\<close>, \<open>lk_stale_force\<close>, \<open>rf_jump_at_cutoff\<close>,
  \<open>nc_negative_angle\<close>).
  Integers: buffers are written in bounds and keep what was written when they are reallocated; grid indices are a bijection.  Errors: an exception recorded on one process is
  raised on all.

  \<^bold>\<open>Bounds and fuel.\<close>  \<open>decompose_rounds\<close> and the run of the integrator are \<^theory_text>\<open>partial_function\<close>s with the value
  \<open>None\<close> for a loop that does not end; \<open>single_process_decompose\<close> shows that the value is there.  The iterators, the
  breadth-first searches and the loops over cells terminate by a measure (nodes not yet visited, entries
  left).  No fuel is used.

  \<^bold>\<open>Not modelled.\<close>  Interactions: tabulated and interpolated potentials, the Tersoff and the three-body
  Stillinger-Weber terms, Ewald and P3M sums, potentials of single particles, and the variants of the modelled
  interactions by type, by stored distance or angle, and for AdResS or thermodynamic integration; the virial tensor in
  \<open>n\<close> layers, whose reduction sums up the address of its buffer; the functions that only print a warning.  The
  memory of an interaction is a function from pointers to particles; \<open>MomentumRun\<close> reads it from the vectors of the storage and
  writes the forces back.  Thermostats, barostats, reactions and the lattice
  Boltzmann method, which draw random numbers: their effect on the integrator is a parameter of its signals.  The system
  object, particle groups, analysis, the AdResS and non-blocking variants of the storage and lists, tuple lists with
  distances, angles or weights.  Timers, file output, Python registration and vendored code.  Of the modelled
  classes: stream output, accessors for Python, and debugging code.
\<close>

end
